(* ===== verification/KushPrelude.thy ===== *)
theory KushPrelude
  imports Main "HOL-Library.Word"
begin

text \<open>
  Shared prelude of the kushdb development: the machine-integer types the C++ sources use,
  the error values that stand for thrown exceptions and undefined behaviour, the result type
  and its sequencing operator, checked array access, and the generic lemmas on lists, words
  and results that the component theories share.
\<close>

section \<open>Machine integers\<close>

type_synonym u8 = "8 word"
type_synonym u16 = "16 word"
type_synonym u32 = "32 word"
type_synonym u64 = "64 word"

section \<open>Errors and results\<close>

text \<open>
  \<^verbatim>\<open>RuntimeError\<close> is \<^verbatim>\<open>std::runtime_error\<close> with its message, \<^verbatim>\<open>SystemError\<close> a \<^verbatim>\<open>std::system_error\<close>, \<^verbatim>\<open>OutOfRange\<close> is the
  \<^verbatim>\<open>std::out_of_range\<close> that \<^verbatim>\<open>.at()\<close> of a map throws, \<^verbatim>\<open>BadCast\<close> the \<^verbatim>\<open>std::bad_cast\<close> of a failed
  \<^verbatim>\<open>dynamic_cast\<close> to a reference, \<^verbatim>\<open>BadFunctionCall\<close> the \<^verbatim>\<open>std::bad_function_call\<close> of an empty
  \<^verbatim>\<open>std::function\<close>, \<^verbatim>\<open>Undefined\<close> is an access outside the
  bounds of an array or through a null pointer, which C++ leaves undefined.
\<close>

datatype kush_error = RuntimeError string | SystemError | OutOfRange | BadCast | BadFunctionCall | Undefined

type_synonym 'a res = "kush_error + 'a"

definition bindR :: "'a res \<Rightarrow> ('a \<Rightarrow> 'b res) \<Rightarrow> 'b res" where
  "bindR m f = (case m of Inl e \<Rightarrow> Inl e | Inr x \<Rightarrow> f x)"

definition guardR :: "bool \<Rightarrow> kush_error \<Rightarrow> unit res" where
  "guardR b e = (if b then Inr () else Inl e)"

definition nthR :: "'a list \<Rightarrow> nat \<Rightarrow> 'a res" where
  "nthR xs i = (if i < length xs then Inr (xs ! i) else Inl Undefined)"

definition updR :: "'a list \<Rightarrow> nat \<Rightarrow> 'a \<Rightarrow> 'a list res" where
  "updR xs i v = (if i < length xs then Inr (xs[i := v]) else Inl Undefined)"

definition atR :: "('k \<rightharpoonup> 'v) \<Rightarrow> 'k \<Rightarrow> 'v res" where
  "atR m k = (case m k of None \<Rightarrow> Inl OutOfRange | Some v \<Rightarrow> Inr v)"

text \<open>The same with a signed index, as the sources use \<^verbatim>\<open>int32_t\<close> positions.\<close>

definition nthI :: "'a list \<Rightarrow> int \<Rightarrow> 'a res" where
  "nthI xs i = (if 0 \<le> i then nthR xs (nat i) else Inl Undefined)"

definition updI :: "'a list \<Rightarrow> int \<Rightarrow> 'a \<Rightarrow> 'a list res" where
  "updI xs i v = (if 0 \<le> i then updR xs (nat i) v else Inl Undefined)"

definition INT32_MAX :: int where
  "INT32_MAX = 2147483647"

fun foldR :: "('s \<Rightarrow> 'a \<Rightarrow> 's res) \<Rightarrow> 's \<Rightarrow> 'a list \<Rightarrow> 's res" where
  "foldR f s [] = Inr s"
| "foldR f s (x # xs) = bindR (f s x) (\<lambda>s'. foldR f s' xs)"

named_theorems res_simps \<open>evaluation of results\<close>

lemma bindR_simps [simp]:
  "bindR (Inl e) f = Inl e"
  "bindR (Inr x) f = f x"
  by (simp_all add: bindR_def)

lemma bindR_cong [fundef_cong]:
  "m = m' \<Longrightarrow> (\<And>x. m' = Inr x \<Longrightarrow> f x = f' x) \<Longrightarrow> bindR m f = bindR m' f'"
  by (cases m') auto

lemma bindR_Inr_iff: "bindR m f = Inr y \<longleftrightarrow> (\<exists>x. m = Inr x \<and> f x = Inr y)"
  by (cases m) auto

lemma bindR_InrE:
  assumes "bindR m f = Inr y"
  obtains x where "m = Inr x" "f x = Inr y"
  using assms by (auto simp: bindR_Inr_iff)

lemma guardR_Inr_iff [simp]: "guardR b e = Inr u \<longleftrightarrow> b"
  by (simp add: guardR_def)

lemma guardR_True [simp]: "guardR True e = Inr ()"
  by (simp add: guardR_def)

lemma guardR_False [simp]: "guardR False e = Inl e"
  by (simp add: guardR_def)

lemma nthR_in [simp, res_simps]: "i < length xs \<Longrightarrow> nthR xs i = Inr (xs ! i)"
  by (simp add: nthR_def)

lemma nthR_Inr_iff: "nthR xs i = Inr v \<longleftrightarrow> i < length xs \<and> v = xs ! i"
  by (auto simp: nthR_def)

lemma updR_in [simp, res_simps]: "i < length xs \<Longrightarrow> updR xs i v = Inr (xs[i := v])"
  by (simp add: updR_def)

lemma updR_Inr_iff: "updR xs i v = Inr ys \<longleftrightarrow> i < length xs \<and> ys = xs[i := v]"
  by (auto simp: updR_def)

lemma nthI_in [simp, res_simps]: "0 \<le> i \<Longrightarrow> nat i < length xs \<Longrightarrow> nthI xs i = Inr (xs ! nat i)"
  by (simp add: nthI_def)

lemma updI_in [simp, res_simps]: "0 \<le> i \<Longrightarrow> nat i < length xs \<Longrightarrow> updI xs i v = Inr (xs[nat i := v])"
  by (simp add: updI_def)

lemma nthI_Inr_iff: "nthI xs i = Inr v \<longleftrightarrow> 0 \<le> i \<and> nat i < length xs \<and> v = xs ! nat i"
  by (auto simp: nthI_def nthR_Inr_iff)

lemma atR_Some [simp, res_simps]: "m k = Some v \<Longrightarrow> atR m k = Inr v"
  by (simp add: atR_def)

lemma atR_Inr_iff: "atR m k = Inr v \<longleftrightarrow> m k = Some v"
  by (auto simp: atR_def split: option.splits)

lemma foldR_append: "foldR f s (xs @ ys) = bindR (foldR f s xs) (\<lambda>s'. foldR f s' ys)"
proof (induction xs arbitrary: s)
  case (Cons x xs)
  then show ?case by (cases "f s x") auto
qed simp

lemma foldR_upt_Suc: "k \<le> m \<Longrightarrow> foldR f s [k..<Suc m] = bindR (foldR f s [k..<m]) (\<lambda>s'. f s' m)"
  by (cases "foldR f s [k..<m]") (auto simp: upt_Suc_append foldR_append bindR_def split: sum.splits)

text \<open>Every step that keeps an invariant makes the whole loop keep it.\<close>

lemma foldR_invariant:
  assumes "foldR f s xs = Inr s'" and "P s"
    and "\<And>s x s'. x \<in> set xs \<Longrightarrow> P s \<Longrightarrow> f s x = Inr s' \<Longrightarrow> P s'"
  shows "P s'"
  using assms
proof (induction xs arbitrary: s)
  case (Cons x xs)
  from Cons.prems(1) obtain s1 where s1: "f s x = Inr s1" and r: "foldR f s1 xs = Inr s'"
    by (auto elim: bindR_InrE)
  show ?case
    by (rule Cons.IH [OF r Cons.prems(3) [OF _ Cons.prems(2) s1]])
      (auto intro: Cons.prems(3))
qed simp

text \<open>The round of one element of a loop that ends.\<close>

lemma foldR_split:
  assumes "foldR f s (xs @ x # ys) = Inr s'"
  obtains s1 s2 where "foldR f s xs = Inr s1" "f s1 x = Inr s2" "foldR f s2 ys = Inr s'"
  using assms by (auto simp: foldR_append bindR_Inr_iff)

lemma foldR_rel:
  assumes "foldR f s xs = Inr s'" "\<And>s. R s s" "\<And>a b c. R a b \<Longrightarrow> R b c \<Longrightarrow> R a c"
    "\<And>s x s'. x \<in> set xs \<Longrightarrow> f s x = Inr s' \<Longrightarrow> R s s'"
  shows "R s s'"
  using assms(1,4)
proof (induction xs arbitrary: s)
  case (Cons x xs)
  then obtain s1 where s1: "f s x = Inr s1" "foldR f s1 xs = Inr s'" by (auto elim: bindR_InrE)
  have "R s1 s'" by (rule Cons.IH [OF s1(2)]) (use Cons.prems(2) in auto)
  moreover have "R s s1" using Cons.prems(2) [OF _ s1(1)] by simp
  ultimately show ?case by (rule assms(3) [rotated])
qed (simp add: assms(2))

lemma foldR_total:
  assumes "P s" and "\<And>s x. x \<in> set xs \<Longrightarrow> P s \<Longrightarrow> \<exists>s'. f s x = Inr s' \<and> P s'"
  shows "\<exists>s'. foldR f s xs = Inr s' \<and> P s'"
  using assms
proof (induction xs arbitrary: s)
  case (Cons x xs)
  from Cons.prems(2) [of x s] Cons.prems(1)
  obtain s1 where s1: "f s x = Inr s1" "P s1" by auto
  have "\<exists>s'. foldR f s1 xs = Inr s' \<and> P s'"
    by (rule Cons.IH [OF s1(2)]) (auto intro: Cons.prems(2))
  with s1 show ?case by simp
qed simp

section \<open>Recursion that may not end\<close>

text \<open>
  A recursive routine whose depth depends on its data is given fuel. \<^verbatim>\<open>None\<close> is running out of
  it; the theorems about these routines show how much is enough.
\<close>

type_synonym 'a ores = "'a res option"

definition bindO :: "'a ores \<Rightarrow> ('a \<Rightarrow> 'b ores) \<Rightarrow> 'b ores" where
  "bindO m f = (case m of None \<Rightarrow> None | Some (Inl e) \<Rightarrow> Some (Inl e) | Some (Inr x) \<Rightarrow> f x)"

fun foldO :: "('s \<Rightarrow> 'a \<Rightarrow> 's ores) \<Rightarrow> 's \<Rightarrow> 'a list \<Rightarrow> 's ores" where
  "foldO f s [] = Some (Inr s)"
| "foldO f s (x # xs) = bindO (f s x) (\<lambda>s'. foldO f s' xs)"

lemma bindO_simps [simp]:
  "bindO None f = None"
  "bindO (Some (Inl e)) f = Some (Inl e)"
  "bindO (Some (Inr x)) f = f x"
  by (simp_all add: bindO_def)

lemma bindO_Inr_iff: "bindO m f = Some (Inr y) \<longleftrightarrow> (\<exists>x. m = Some (Inr x) \<and> f x = Some (Inr y))"
  by (auto simp: bindO_def split: option.splits sum.splits)

lemma bindO_cong [fundef_cong]:
  "m = m' \<Longrightarrow> (\<And>x. m' = Some (Inr x) \<Longrightarrow> f x = f' x) \<Longrightarrow> bindO m f = bindO m' f'"
  by (auto simp: bindO_def split: option.splits sum.splits)

lemma foldO_cong [fundef_cong]:
  "s = s' \<Longrightarrow> xs = xs' \<Longrightarrow> (\<And>s x. x \<in> set xs' \<Longrightarrow> f s x = g s x) \<Longrightarrow> foldO f s xs = foldO g s' xs'"
proof (induction xs' arbitrary: s s' xs)
  case (Cons x xs')
  then show ?case by (auto intro: bindO_cong)
qed simp

text \<open>An invariant of the rounds that also says that each round ends holds at the end.\<close>

lemma foldO_total:
  assumes "P s []" and "\<And>s x done. x \<in> set xs \<Longrightarrow> P s done \<Longrightarrow> \<exists>s'. f s x = Some (Inr s') \<and> P s' (done @ [x])"
  shows "\<exists>s'. foldO f s xs = Some (Inr s') \<and> P s' xs"
proof -
  have "\<exists>s'. foldO f s ys = Some (Inr s') \<and> P s' (done @ ys)" if "P s done" "set ys \<subseteq> set xs" for s ys "done"
    using that
  proof (induction ys arbitrary: s "done")
    case (Cons y ys)
    then obtain s1 where "f s y = Some (Inr s1)" "P s1 (done @ [y])" using assms(2) [of y s "done"] by auto
    with Cons.IH [of s1 "done @ [y]"] Cons.prems show ?case by auto
  qed simp
  from this [OF assms(1)] show ?thesis by simp
qed

text \<open>Evaluation decides the first computation before it looks at the second.\<close>

declare bindR_def [code_unfold] bindO_def [code_unfold]

section \<open>Words\<close>

lemma unat_u8_less [simp]: "unat (b :: u8) < 256"
  by (rule less_le_trans [OF unsigned_less]) simp

lemma of_nat_unat_u8 [simp]: "(of_nat (unat (b :: u8)) :: u8) = b"
  by simp

lemma of_nat_u8_less: "i < j \<Longrightarrow> j < 256 \<Longrightarrow> (of_nat i :: u8) < of_nat j"
  by (simp add: word_less_nat_alt unat_of_nat)

lemma unat_of_nat_u8 [simp]: "i < 256 \<Longrightarrow> unat (of_nat i :: u8) = i"
  by (simp add: unat_of_nat)

lemma unat_of_nat_u16 [simp]: "i < 65536 \<Longrightarrow> unat (of_nat i :: u16) = i"
  by (simp add: unat_of_nat)

lemma unat_u16_less [simp]: "unat (t :: u16) < 65536"
  by (rule less_le_trans [OF unsigned_less]) simp

end
