(* ===== verification/KhirInstruction.thy ===== *)
theory KhirInstruction
  imports KushPrelude
begin

text \<open>
  The 64-bit instruction words of KHIR, the compiler's intermediate representation
  (\<^verbatim>\<open>khir/instruction.cc\<close>, \<^verbatim>\<open>khir/opcode.h\<close>, \<^verbatim>\<open>khir/value.cc\<close>).
  Every builder is its \<^verbatim>\<open>uint64_t value_\<close> and every setter returns the updated word; every
  reader is its \<^verbatim>\<open>uint64_t instr_\<close>. The opcode enumerations have the fixed underlying type
  \<^verbatim>\<open>uint8_t\<close>, so an opcode is any 8-bit word and the named opcodes are its constants.
  The lemmas show that each field of each format is stored and read back without
  disturbing the others.
\<close>

unbundle bit_operations_syntax

section \<open>Opcodes\<close>

type_synonym ConstantOpcode = u8
type_synonym Opcode = u8

abbreviation C_I1_CONST :: ConstantOpcode where "C_I1_CONST \<equiv> 0"
abbreviation C_I8_CONST :: ConstantOpcode where "C_I8_CONST \<equiv> 1"
abbreviation C_I16_CONST :: ConstantOpcode where "C_I16_CONST \<equiv> 2"
abbreviation C_I32_CONST :: ConstantOpcode where "C_I32_CONST \<equiv> 3"
abbreviation C_I64_CONST :: ConstantOpcode where "C_I64_CONST \<equiv> 4"
abbreviation C_F64_CONST :: ConstantOpcode where "C_F64_CONST \<equiv> 5"
abbreviation C_I32_VEC4_CONST_4 :: ConstantOpcode where "C_I32_VEC4_CONST_4 \<equiv> 6"
abbreviation C_I32_VEC8_CONST_1 :: ConstantOpcode where "C_I32_VEC8_CONST_1 \<equiv> 7"
abbreviation C_I32_VEC8_CONST_8 :: ConstantOpcode where "C_I32_VEC8_CONST_8 \<equiv> 8"
abbreviation C_GLOBAL_CHAR_ARRAY_CONST :: ConstantOpcode where "C_GLOBAL_CHAR_ARRAY_CONST \<equiv> 9"
abbreviation C_STRUCT_CONST :: ConstantOpcode where "C_STRUCT_CONST \<equiv> 10"
abbreviation C_ARRAY_CONST :: ConstantOpcode where "C_ARRAY_CONST \<equiv> 11"
abbreviation C_NULLPTR :: ConstantOpcode where "C_NULLPTR \<equiv> 12"
abbreviation C_GLOBAL_REF :: ConstantOpcode where "C_GLOBAL_REF \<equiv> 13"
abbreviation C_FUNC_PTR :: ConstantOpcode where "C_FUNC_PTR \<equiv> 14"
abbreviation C_PTR_CONST :: ConstantOpcode where "C_PTR_CONST \<equiv> 15"
abbreviation C_PTR_CAST :: ConstantOpcode where "C_PTR_CAST \<equiv> 16"

abbreviation RETURN :: Opcode where "RETURN \<equiv> 0"
abbreviation I1_CMP_EQ :: Opcode where "I1_CMP_EQ \<equiv> 1"
abbreviation I1_CMP_NE :: Opcode where "I1_CMP_NE \<equiv> 2"
abbreviation I1_LNOT :: Opcode where "I1_LNOT \<equiv> 3"
abbreviation I1_AND :: Opcode where "I1_AND \<equiv> 4"
abbreviation I1_OR :: Opcode where "I1_OR \<equiv> 5"
abbreviation I1_ZEXT_I64 :: Opcode where "I1_ZEXT_I64 \<equiv> 6"
abbreviation I1_ZEXT_I8 :: Opcode where "I1_ZEXT_I8 \<equiv> 7"
abbreviation I8_ADD :: Opcode where "I8_ADD \<equiv> 8"
abbreviation I8_MUL :: Opcode where "I8_MUL \<equiv> 9"
abbreviation I8_SUB :: Opcode where "I8_SUB \<equiv> 10"
abbreviation I8_CMP_EQ :: Opcode where "I8_CMP_EQ \<equiv> 11"
abbreviation I8_CMP_NE :: Opcode where "I8_CMP_NE \<equiv> 12"
abbreviation I8_CMP_LT :: Opcode where "I8_CMP_LT \<equiv> 13"
abbreviation I8_CMP_LE :: Opcode where "I8_CMP_LE \<equiv> 14"
abbreviation I8_CMP_GT :: Opcode where "I8_CMP_GT \<equiv> 15"
abbreviation I8_CMP_GE :: Opcode where "I8_CMP_GE \<equiv> 16"
abbreviation I8_ZEXT_I64 :: Opcode where "I8_ZEXT_I64 \<equiv> 17"
abbreviation I8_CONV_F64 :: Opcode where "I8_CONV_F64 \<equiv> 18"
abbreviation I16_ADD :: Opcode where "I16_ADD \<equiv> 19"
abbreviation I16_MUL :: Opcode where "I16_MUL \<equiv> 20"
abbreviation I16_SUB :: Opcode where "I16_SUB \<equiv> 21"
abbreviation I16_CMP_EQ :: Opcode where "I16_CMP_EQ \<equiv> 22"
abbreviation I16_CMP_NE :: Opcode where "I16_CMP_NE \<equiv> 23"
abbreviation I16_CMP_LT :: Opcode where "I16_CMP_LT \<equiv> 24"
abbreviation I16_CMP_LE :: Opcode where "I16_CMP_LE \<equiv> 25"
abbreviation I16_CMP_GT :: Opcode where "I16_CMP_GT \<equiv> 26"
abbreviation I16_CMP_GE :: Opcode where "I16_CMP_GE \<equiv> 27"
abbreviation I16_ZEXT_I64 :: Opcode where "I16_ZEXT_I64 \<equiv> 28"
abbreviation I16_CONV_F64 :: Opcode where "I16_CONV_F64 \<equiv> 29"
abbreviation I32_ADD :: Opcode where "I32_ADD \<equiv> 30"
abbreviation I32_MUL :: Opcode where "I32_MUL \<equiv> 31"
abbreviation I32_SUB :: Opcode where "I32_SUB \<equiv> 32"
abbreviation I32_CMP_EQ_ANY_CONST_VEC4 :: Opcode where "I32_CMP_EQ_ANY_CONST_VEC4 \<equiv> 33"
abbreviation I32_CMP_EQ_ANY_CONST_VEC8 :: Opcode where "I32_CMP_EQ_ANY_CONST_VEC8 \<equiv> 34"
abbreviation I32_CMP_EQ :: Opcode where "I32_CMP_EQ \<equiv> 35"
abbreviation I32_CMP_NE :: Opcode where "I32_CMP_NE \<equiv> 36"
abbreviation I32_CMP_LT :: Opcode where "I32_CMP_LT \<equiv> 37"
abbreviation I32_CMP_LE :: Opcode where "I32_CMP_LE \<equiv> 38"
abbreviation I32_CMP_GT :: Opcode where "I32_CMP_GT \<equiv> 39"
abbreviation I32_CMP_GE :: Opcode where "I32_CMP_GE \<equiv> 40"
abbreviation I32_VEC8_CMP_EQ :: Opcode where "I32_VEC8_CMP_EQ \<equiv> 41"
abbreviation I32_VEC8_CMP_NE :: Opcode where "I32_VEC8_CMP_NE \<equiv> 42"
abbreviation I32_VEC8_CMP_LT :: Opcode where "I32_VEC8_CMP_LT \<equiv> 43"
abbreviation I32_VEC8_CMP_LE :: Opcode where "I32_VEC8_CMP_LE \<equiv> 44"
abbreviation I32_VEC8_CMP_GT :: Opcode where "I32_VEC8_CMP_GT \<equiv> 45"
abbreviation I32_VEC8_CMP_GE :: Opcode where "I32_VEC8_CMP_GE \<equiv> 46"
abbreviation I1_VEC8_NOT :: Opcode where "I1_VEC8_NOT \<equiv> 47"
abbreviation I1_VEC8_AND :: Opcode where "I1_VEC8_AND \<equiv> 48"
abbreviation I1_VEC8_OR :: Opcode where "I1_VEC8_OR \<equiv> 49"
abbreviation I1_VEC8_MASK_EXTRACT :: Opcode where "I1_VEC8_MASK_EXTRACT \<equiv> 50"
abbreviation I64_POPCOUNT :: Opcode where "I64_POPCOUNT \<equiv> 51"
abbreviation MASK_TO_PERMUTE :: Opcode where "MASK_TO_PERMUTE \<equiv> 52"
abbreviation I32_VEC8_PERMUTE :: Opcode where "I32_VEC8_PERMUTE \<equiv> 53"
abbreviation I32_ZEXT_I64 :: Opcode where "I32_ZEXT_I64 \<equiv> 54"
abbreviation I32_CONV_F64 :: Opcode where "I32_CONV_F64 \<equiv> 55"
abbreviation I32_CONV_I32_VEC8 :: Opcode where "I32_CONV_I32_VEC8 \<equiv> 56"
abbreviation I32_VEC8_ADD :: Opcode where "I32_VEC8_ADD \<equiv> 57"
abbreviation I32_VEC8_LOAD :: Opcode where "I32_VEC8_LOAD \<equiv> 58"
abbreviation I32_VEC8_MASK_STORE_INFO :: Opcode where "I32_VEC8_MASK_STORE_INFO \<equiv> 59"
abbreviation I32_VEC8_MASK_STORE :: Opcode where "I32_VEC8_MASK_STORE \<equiv> 60"
abbreviation I64_ADD :: Opcode where "I64_ADD \<equiv> 61"
abbreviation I64_MUL :: Opcode where "I64_MUL \<equiv> 62"
abbreviation I64_SUB :: Opcode where "I64_SUB \<equiv> 63"
abbreviation I64_LSHIFT :: Opcode where "I64_LSHIFT \<equiv> 64"
abbreviation I64_RSHIFT :: Opcode where "I64_RSHIFT \<equiv> 65"
abbreviation I64_AND :: Opcode where "I64_AND \<equiv> 66"
abbreviation I64_XOR :: Opcode where "I64_XOR \<equiv> 67"
abbreviation I64_OR :: Opcode where "I64_OR \<equiv> 68"
abbreviation I64_TRUNC_I16 :: Opcode where "I64_TRUNC_I16 \<equiv> 69"
abbreviation I64_TRUNC_I32 :: Opcode where "I64_TRUNC_I32 \<equiv> 70"
abbreviation I64_CMP_EQ :: Opcode where "I64_CMP_EQ \<equiv> 71"
abbreviation I64_CMP_NE :: Opcode where "I64_CMP_NE \<equiv> 72"
abbreviation I64_CMP_LT :: Opcode where "I64_CMP_LT \<equiv> 73"
abbreviation I64_CMP_LE :: Opcode where "I64_CMP_LE \<equiv> 74"
abbreviation I64_CMP_GT :: Opcode where "I64_CMP_GT \<equiv> 75"
abbreviation I64_CMP_GE :: Opcode where "I64_CMP_GE \<equiv> 76"
abbreviation I64_CONV_F64 :: Opcode where "I64_CONV_F64 \<equiv> 77"
abbreviation F64_ADD :: Opcode where "F64_ADD \<equiv> 78"
abbreviation F64_MUL :: Opcode where "F64_MUL \<equiv> 79"
abbreviation F64_SUB :: Opcode where "F64_SUB \<equiv> 80"
abbreviation F64_DIV :: Opcode where "F64_DIV \<equiv> 81"
abbreviation F64_CMP_EQ :: Opcode where "F64_CMP_EQ \<equiv> 82"
abbreviation F64_CMP_NE :: Opcode where "F64_CMP_NE \<equiv> 83"
abbreviation F64_CMP_LT :: Opcode where "F64_CMP_LT \<equiv> 84"
abbreviation F64_CMP_LE :: Opcode where "F64_CMP_LE \<equiv> 85"
abbreviation F64_CMP_GT :: Opcode where "F64_CMP_GT \<equiv> 86"
abbreviation F64_CMP_GE :: Opcode where "F64_CMP_GE \<equiv> 87"
abbreviation F64_CONV_I64 :: Opcode where "F64_CONV_I64 \<equiv> 88"
abbreviation I8_STORE :: Opcode where "I8_STORE \<equiv> 89"
abbreviation I16_STORE :: Opcode where "I16_STORE \<equiv> 90"
abbreviation I32_STORE :: Opcode where "I32_STORE \<equiv> 91"
abbreviation I64_STORE :: Opcode where "I64_STORE \<equiv> 92"
abbreviation F64_STORE :: Opcode where "F64_STORE \<equiv> 93"
abbreviation PTR_STORE :: Opcode where "PTR_STORE \<equiv> 94"
abbreviation CONDBR :: Opcode where "CONDBR \<equiv> 95"
abbreviation I1_LOAD :: Opcode where "I1_LOAD \<equiv> 96"
abbreviation I8_LOAD :: Opcode where "I8_LOAD \<equiv> 97"
abbreviation I16_LOAD :: Opcode where "I16_LOAD \<equiv> 98"
abbreviation I32_LOAD :: Opcode where "I32_LOAD \<equiv> 99"
abbreviation I64_LOAD :: Opcode where "I64_LOAD \<equiv> 100"
abbreviation F64_LOAD :: Opcode where "F64_LOAD \<equiv> 101"
abbreviation PTR_LOAD :: Opcode where "PTR_LOAD \<equiv> 102"
abbreviation RETURN_VALUE :: Opcode where "RETURN_VALUE \<equiv> 103"
abbreviation BR :: Opcode where "BR \<equiv> 104"
abbreviation PHI_MEMBER :: Opcode where "PHI_MEMBER \<equiv> 105"
abbreviation CALL :: Opcode where "CALL \<equiv> 106"
abbreviation PHI :: Opcode where "PHI \<equiv> 107"
abbreviation PTR_CAST :: Opcode where "PTR_CAST \<equiv> 108"
abbreviation FUNC_ARG :: Opcode where "FUNC_ARG \<equiv> 109"
abbreviation CALL_ARG :: Opcode where "CALL_ARG \<equiv> 110"
abbreviation CALL_INDIRECT :: Opcode where "CALL_INDIRECT \<equiv> 111"
abbreviation PTR_CMP_NULLPTR :: Opcode where "PTR_CMP_NULLPTR \<equiv> 112"
abbreviation GEP_STATIC :: Opcode where "GEP_STATIC \<equiv> 113"
abbreviation GEP_STATIC_OFFSET :: Opcode where "GEP_STATIC_OFFSET \<equiv> 114"
abbreviation GEP_DYNAMIC :: Opcode where "GEP_DYNAMIC \<equiv> 115"
abbreviation GEP_DYNAMIC_OFFSET :: Opcode where "GEP_DYNAMIC_OFFSET \<equiv> 116"

definition ConstantOpcodeFrom :: "u8 \<Rightarrow> ConstantOpcode" where
  "ConstantOpcodeFrom t = t"

definition ConstantOpcodeTo :: "ConstantOpcode \<Rightarrow> u8" where
  "ConstantOpcodeTo opcode = opcode"

definition OpcodeFrom :: "u8 \<Rightarrow> Opcode" where
  [simp]: "OpcodeFrom t = t"

definition OpcodeTo :: "Opcode \<Rightarrow> u8" where
  [simp]: "OpcodeTo opcode = opcode"

section \<open>Setters and readers shared by the formats\<close>

definition GenericOpcode :: "u64 \<Rightarrow> u8" where
  "GenericOpcode instr = ucast (instr AND 0xFF)"

definition SetMetadataImpl :: "u64 \<Rightarrow> u8 \<Rightarrow> u64" where
  "SetMetadataImpl value metadata =
     (value AND NOT (push_bit 56 0xFF)) OR push_bit 56 (ucast metadata)"

definition SetOpcodeImpl :: "u64 \<Rightarrow> u8 \<Rightarrow> u64" where
  "SetOpcodeImpl value opcode = (value AND NOT 0xFF) OR ucast opcode"

section \<open>Type I: metadata, 48-bit constant, opcode\<close>

definition T1SetMetadata :: "u64 \<Rightarrow> u8 \<Rightarrow> u64" where
  "T1SetMetadata value metadata = SetMetadataImpl value metadata"

definition T1SetConstant :: "u64 \<Rightarrow> u64 \<Rightarrow> u64" where
  "T1SetConstant value constant =
     (let constant_mask = push_bit 8 0xFFFFFFFFFFFF
      in (value AND NOT constant_mask) OR (push_bit 8 constant AND constant_mask))"

definition T1SetOpcode :: "u64 \<Rightarrow> u8 \<Rightarrow> u64" where
  "T1SetOpcode value opcode = SetOpcodeImpl value opcode"

definition T1Metadata :: "u64 \<Rightarrow> u8" where
  "T1Metadata instr = ucast (drop_bit 56 instr)"

definition T1Constant :: "u64 \<Rightarrow> u64" where
  "T1Constant instr = drop_bit 8 instr AND 0xFFFFFFFFFFFF"

definition T1Opcode :: "u64 \<Rightarrow> u8" where
  "T1Opcode instr = ucast (instr AND 0xFF)"

section \<open>Type II: metadata, two 24-bit arguments, opcode\<close>

definition T2SetMetadata :: "u64 \<Rightarrow> u8 \<Rightarrow> u64" where
  "T2SetMetadata value metadata = SetMetadataImpl value metadata"

definition T2SetArg0 :: "u64 \<Rightarrow> u32 \<Rightarrow> u64" where
  "T2SetArg0 value arg0 =
     (let arg0_mask = push_bit 32 0xFFFFFF
      in (value AND NOT arg0_mask) OR (push_bit 32 (ucast arg0) AND arg0_mask))"

definition T2SetArg1 :: "u64 \<Rightarrow> u32 \<Rightarrow> u64" where
  "T2SetArg1 value arg1 =
     (let arg1_mask = push_bit 8 0xFFFFFF
      in (value AND NOT arg1_mask) OR (push_bit 8 (ucast arg1) AND arg1_mask))"

definition T2SetOpcode :: "u64 \<Rightarrow> u8 \<Rightarrow> u64" where
  "T2SetOpcode value opcode = SetOpcodeImpl value opcode"

definition T2Metadata :: "u64 \<Rightarrow> u8" where
  "T2Metadata instr = ucast (drop_bit 56 instr)"

definition T2Arg0 :: "u64 \<Rightarrow> u32" where
  "T2Arg0 instr = ucast (drop_bit 32 instr AND 0xFFFFFF)"

definition T2Arg1 :: "u64 \<Rightarrow> u32" where
  "T2Arg1 instr = ucast (drop_bit 8 instr AND 0xFFFFFF)"

definition T2Opcode :: "u64 \<Rightarrow> u8" where
  "T2Opcode instr = ucast (instr AND 0xFF)"

section \<open>Type III: metadata, 16-bit type, 8-bit and 24-bit arguments, opcode\<close>

definition T3SetMetadata :: "u64 \<Rightarrow> u8 \<Rightarrow> u64" where
  "T3SetMetadata value metadata = SetMetadataImpl value metadata"

definition T3SetTypeID :: "u64 \<Rightarrow> u16 \<Rightarrow> u64" where
  "T3SetTypeID value type_id =
     (let type_id_mask = push_bit 40 0xFFFF
      in (value AND NOT type_id_mask) OR (push_bit 40 (ucast type_id) AND type_id_mask))"

definition T3SetSarg :: "u64 \<Rightarrow> u8 \<Rightarrow> u64" where
  "T3SetSarg value sarg =
     (let sarg_mask = push_bit 32 0xFF
      in (value AND NOT sarg_mask) OR (push_bit 32 (ucast sarg) AND sarg_mask))"

definition T3SetArg :: "u64 \<Rightarrow> u32 \<Rightarrow> u64" where
  "T3SetArg value arg =
     (let arg_mask = push_bit 8 0xFFFFFF
      in (value AND NOT arg_mask) OR (push_bit 8 (ucast arg) AND arg_mask))"

definition T3SetOpcode :: "u64 \<Rightarrow> u8 \<Rightarrow> u64" where
  "T3SetOpcode value opcode = SetOpcodeImpl value opcode"

definition T3Metadata :: "u64 \<Rightarrow> u8" where
  "T3Metadata instr = ucast (drop_bit 56 instr)"

definition T3TypeID :: "u64 \<Rightarrow> u16" where
  "T3TypeID instr = ucast (drop_bit 40 instr AND 0xFFFF)"

definition T3Sarg :: "u64 \<Rightarrow> u8" where
  "T3Sarg instr = ucast (drop_bit 32 instr AND 0xFF)"

definition T3Arg :: "u64 \<Rightarrow> u32" where
  "T3Arg instr = ucast (drop_bit 8 instr AND 0xFFFFFF)"

definition T3Opcode :: "u64 \<Rightarrow> u8" where
  "T3Opcode instr = ucast (instr AND 0xFF)"

section \<open>Type V: metadata, 24-bit argument, two 12-bit block indices, opcode\<close>

definition T5SetMetadata :: "u64 \<Rightarrow> u8 \<Rightarrow> u64" where
  "T5SetMetadata value metadata = SetMetadataImpl value metadata"

definition T5SetArg :: "u64 \<Rightarrow> u32 \<Rightarrow> u64" where
  "T5SetArg value arg =
     (let arg_mask = push_bit 32 0xFFFFFF
      in (value AND NOT arg_mask) OR (push_bit 32 (ucast arg) AND arg_mask))"

definition T5SetMarg0 :: "u64 \<Rightarrow> u16 \<Rightarrow> u64" where
  "T5SetMarg0 value marg0 =
     (let marg_mask = push_bit 20 0xFFF
      in (value AND NOT marg_mask) OR (push_bit 20 (ucast marg0) AND marg_mask))"

definition T5SetMarg1 :: "u64 \<Rightarrow> u16 \<Rightarrow> u64" where
  "T5SetMarg1 value marg1 =
     (let marg_mask = push_bit 8 0xFFF
      in (value AND NOT marg_mask) OR (push_bit 8 (ucast marg1) AND marg_mask))"

definition T5SetOpcode :: "u64 \<Rightarrow> u8 \<Rightarrow> u64" where
  "T5SetOpcode value opcode = SetOpcodeImpl value opcode"

definition T5Metadata :: "u64 \<Rightarrow> u8" where
  "T5Metadata instr = ucast (drop_bit 56 instr)"

definition T5Arg :: "u64 \<Rightarrow> u32" where
  "T5Arg instr = ucast (drop_bit 32 instr AND 0xFFFFFF)"

definition T5Marg0 :: "u64 \<Rightarrow> u16" where
  "T5Marg0 instr = ucast (drop_bit 20 instr AND 0xFFF)"

definition T5Marg1 :: "u64 \<Rightarrow> u16" where
  "T5Marg1 instr = ucast (drop_bit 8 instr AND 0xFFF)"

definition T5Opcode :: "u64 \<Rightarrow> u8" where
  "T5Opcode instr = ucast (instr AND 0xFF)"

section \<open>Values\<close>

text \<open>
  A value names an instruction of the function or, with bit 23 set, a constant or global of
  the program. The constructor with two arguments throws when the index needs bit 23.
\<close>

record Value =
  value_idx :: u32

definition ValueDefault :: Value where
  "ValueDefault = \<lparr>value_idx = 0xFFFFFFFF\<rparr>"

definition ValueOf :: "u32 \<Rightarrow> Value" where
  "ValueOf idx = \<lparr>value_idx = idx\<rparr>"

definition MakeValue :: "u32 \<Rightarrow> bool \<Rightarrow> Value res" where
  "MakeValue idx constant_global =
     (if idx > 0x7FFFFF then Inl (RuntimeError ''Invalid idx'')
      else Inr \<lparr>value_idx = (if constant_global then idx OR push_bit 23 1 else idx)\<rparr>)"

definition Serialize :: "Value \<Rightarrow> u32" where
  "Serialize v = value_idx v"

definition GetIdx :: "Value \<Rightarrow> u32" where
  "GetIdx v = value_idx v AND 0x7FFFFF"

definition IsConstantGlobal :: "Value \<Rightarrow> bool" where
  "IsConstantGlobal v = ((value_idx v AND push_bit 23 1) \<noteq> 0)"

definition ValueEq :: "Value \<Rightarrow> Value \<Rightarrow> bool" where
  "ValueEq v rhs = (value_idx v = value_idx rhs)"

section \<open>Bit fields of a 64-bit word\<close>

text \<open>
  Reference definitions: a field of \<open>w\<close> bits at offset \<open>off\<close>. Every setter and reader above
  is an instance, so the laws below are proved once.
\<close>

definition set_field :: "nat \<Rightarrow> nat \<Rightarrow> u64 \<Rightarrow> u64 \<Rightarrow> u64" where
  "set_field off w v x =
     (v AND NOT (push_bit off (mask w))) OR (push_bit off x AND push_bit off (mask w))"

definition get_field :: "nat \<Rightarrow> nat \<Rightarrow> u64 \<Rightarrow> u64" where
  "get_field off w v = drop_bit off v AND mask w"

lemma bit_set_field:
  "bit (set_field off w v x) n \<longleftrightarrow>
     n < 64 \<and> (if off \<le> n \<and> n < off + w then bit x (n - off) else bit v n)"
  by (auto simp: set_field_def bit_simps)

lemma bit_get_field:
  "bit (get_field off w v) n \<longleftrightarrow> n < w \<and> bit v (n + off)"
  by (auto simp: get_field_def bit_simps ac_simps dest: bit_imp_le_length)

lemma get_set_field_same:
  assumes "off + w \<le> 64"
  shows "get_field off w (set_field off w v x) = take_bit w x"
  by (rule bit_word_eqI)
    (use assms in \<open>auto simp: bit_get_field bit_set_field bit_simps\<close>)

lemma get_set_field_other:
  assumes "off' + w' \<le> off \<or> off + w \<le> off'"
  shows "get_field off' w' (set_field off w v x) = get_field off' w' v"
  by (rule bit_word_eqI)
    (use assms in \<open>auto simp: bit_get_field bit_set_field dest: bit_imp_le_length\<close>)

lemma set_set_field_same: "set_field off w (set_field off w v x) y = set_field off w v y"
  by (rule bit_word_eqI) (auto simp: bit_set_field)

lemma set_get_field: "set_field off w v (get_field off w v) = v"
  by (rule bit_word_eqI) (auto simp: bit_get_field bit_set_field dest: bit_imp_le_length)

lemma set_field_commute:
  assumes "off' + w' \<le> off \<or> off + w \<le> off'"
  shows "set_field off w (set_field off' w' v x) y = set_field off' w' (set_field off w v y) x"
  by (rule bit_word_eqI) (use assms in \<open>auto simp: bit_set_field\<close>)

lemma mask_numerals:
  "(0xFF :: u64) = mask 8" "(0xFFF :: u64) = mask 12" "(0xFFFF :: u64) = mask 16"
  "(0xFFFFFF :: u64) = mask 24" "(0xFFFFFFFFFFFF :: u64) = mask 48"
  by (simp_all add: mask_eq_exp_minus_1)

lemma ucast8_AND_mask: "(ucast (x :: u8) :: u64) AND mask 8 = ucast x"
  by (rule bit_word_eqI) (auto simp: bit_simps dest: bit_imp_le_length)

lemma push_bit_ucast8: "push_bit n (ucast (x :: u8)) AND push_bit n (mask 8) = (push_bit n (ucast x) :: u64)"
  by (metis push_bit_and ucast8_AND_mask)

lemma SetMetadataImpl_field: "SetMetadataImpl v m = set_field 56 8 v (ucast m)"
  by (simp add: SetMetadataImpl_def set_field_def mask_numerals(1) push_bit_ucast8)

lemma SetOpcodeImpl_field: "SetOpcodeImpl v m = set_field 0 8 v (ucast m)"
  using push_bit_ucast8 [of 0 m]
  by (simp add: SetOpcodeImpl_def set_field_def mask_numerals(1))

lemma drop_56_mask: "drop_bit 56 (v :: u64) AND mask 8 = drop_bit 56 v"
  by (rule bit_word_eqI) (auto simp: bit_simps dest: bit_imp_le_length)

named_theorems field_defs \<open>setters and readers as bit fields\<close>

lemma metadata_fields [field_defs]:
  "T1Metadata v = ucast (get_field 56 8 v)" "T2Metadata v = ucast (get_field 56 8 v)"
  "T3Metadata v = ucast (get_field 56 8 v)" "T5Metadata v = ucast (get_field 56 8 v)"
  by (simp_all add: T1Metadata_def T2Metadata_def T3Metadata_def T5Metadata_def get_field_def
      drop_56_mask)

lemma opcode_fields [field_defs]:
  "GenericOpcode v = ucast (get_field 0 8 v)"
  "T1Opcode v = ucast (get_field 0 8 v)" "T2Opcode v = ucast (get_field 0 8 v)"
  "T3Opcode v = ucast (get_field 0 8 v)" "T5Opcode v = ucast (get_field 0 8 v)"
  by (simp_all add: GenericOpcode_def T1Opcode_def T2Opcode_def T3Opcode_def T5Opcode_def
      get_field_def mask_numerals)

lemma argument_fields [field_defs]:
  "T1Constant v = get_field 8 48 v"
  "T2Arg0 v = ucast (get_field 32 24 v)" "T2Arg1 v = ucast (get_field 8 24 v)"
  "T3TypeID v = ucast (get_field 40 16 v)" "T3Sarg v = ucast (get_field 32 8 v)"
  "T3Arg v = ucast (get_field 8 24 v)"
  "T5Arg v = ucast (get_field 32 24 v)" "T5Marg0 v = ucast (get_field 20 12 v)"
  "T5Marg1 v = ucast (get_field 8 12 v)"
  by (simp_all add: T1Constant_def T2Arg0_def T2Arg1_def T3TypeID_def T3Sarg_def T3Arg_def
      T5Arg_def T5Marg0_def T5Marg1_def get_field_def mask_numerals)

lemma setter_fields [field_defs]:
  "T1SetMetadata v m = set_field 56 8 v (ucast m)" "T1SetOpcode v m = set_field 0 8 v (ucast m)"
  "T2SetMetadata v m = set_field 56 8 v (ucast m)" "T2SetOpcode v m = set_field 0 8 v (ucast m)"
  "T3SetMetadata v m = set_field 56 8 v (ucast m)" "T3SetOpcode v m = set_field 0 8 v (ucast m)"
  "T5SetMetadata v m = set_field 56 8 v (ucast m)" "T5SetOpcode v m = set_field 0 8 v (ucast m)"
  "T1SetConstant v c = set_field 8 48 v c"
  "T2SetArg0 v a = set_field 32 24 v (ucast a)" "T2SetArg1 v a = set_field 8 24 v (ucast a)"
  "T3SetTypeID v t = set_field 40 16 v (ucast t)" "T3SetSarg v m = set_field 32 8 v (ucast m)"
  "T3SetArg v a = set_field 8 24 v (ucast a)" "T5SetArg v a = set_field 32 24 v (ucast a)"
  "T5SetMarg0 v t = set_field 20 12 v (ucast t)" "T5SetMarg1 v t = set_field 8 12 v (ucast t)"
  by (simp_all only: T1SetMetadata_def T1SetOpcode_def T2SetMetadata_def T2SetOpcode_def
      T3SetMetadata_def T3SetOpcode_def T5SetMetadata_def T5SetOpcode_def T1SetConstant_def
      T2SetArg0_def T2SetArg1_def T3SetTypeID_def T3SetSarg_def T3SetArg_def T5SetArg_def
      T5SetMarg0_def T5SetMarg1_def SetMetadataImpl_field SetOpcodeImpl_field Let_def
      mask_numerals set_field_def)

text \<open>Reading a narrow word back out of a field.\<close>

lemma ucast_take_bit_same:
  "(ucast (take_bit 8 (ucast (m :: u8) :: u64)) :: u8) = m"
  "(ucast (take_bit 16 (ucast (t :: u16) :: u64)) :: u16) = t"
  "(ucast (take_bit 24 (ucast (a :: u32) :: u64)) :: u32) = take_bit 24 a"
  "(ucast (take_bit 12 (ucast (t :: u16) :: u64)) :: u16) = take_bit 12 t"
  by (rule bit_word_eqI, auto simp: bit_simps)+

lemma ucast_ucast_get_field:
  "(ucast (ucast (get_field off 24 v) :: u32) :: u64) = get_field off 24 v"
  "(ucast (ucast (get_field off 12 v) :: u16) :: u64) = get_field off 12 v"
  "(ucast (ucast (get_field off 16 v) :: u16) :: u64) = get_field off 16 v"
  "(ucast (ucast (get_field off 8 v) :: u8) :: u64) = get_field off 8 v"
  by (rule bit_word_eqI, auto simp: bit_simps bit_get_field)+

lemma take_bit_full: "take_bit 8 (m :: u8) = m" "take_bit 16 (t :: u16) = t"
  by (simp_all add: take_bit_word_eq_self)

lemmas field_laws = get_set_field_same get_set_field_other ucast_take_bit_same
  take_bit_full set_set_field_same set_get_field ucast_ucast_get_field

section \<open>The instruction formats as families of independent fields\<close>

text \<open>
  The contract of a format's field: what was stored is read back up to the field's width,
  storing twice is storing the last, storing what is there changes nothing.
\<close>

locale instr_field =
  fixes get :: "u64 \<Rightarrow> 'a::len word"
    and put :: "u64 \<Rightarrow> 'a word \<Rightarrow> u64"
    and width :: nat
  assumes get_put: "get (put v x) = take_bit width x"
    and put_put: "put (put v x) y = put v y"
    and put_get: "put v (get v) = v"
begin

lemma get_put_fits: "take_bit width x = x \<Longrightarrow> get (put v x) = x"
  by (simp add: get_put)

lemma get_fits: "take_bit width (get v) = get v"
  using get_put [of v "get v"] by (simp add: put_get)

lemma update_idem: "(\<And>x. f (f x) = f x) \<Longrightarrow> take_bit width (f (get v)) = f (get v) \<Longrightarrow>
    put (put v (f (get v))) (f (get (put v (f (get v))))) = put v (f (get v))"
  by (simp add: get_put_fits put_put)

end

locale instr_fields =
  a: instr_field get1 put1 width1 + b: instr_field get2 put2 width2
  for get1 :: "u64 \<Rightarrow> 'a::len word" and put1 width1
    and get2 :: "u64 \<Rightarrow> 'b::len word" and put2 width2 +
  assumes put_commute: "put1 (put2 v y) x = put2 (put1 v x) y"
begin

lemma get1_put2: "get1 (put2 v y) = get1 v"
proof -
  have "put2 v y = put1 (put2 v y) (get1 v)"
    by (simp add: put_commute a.put_get)
  then show ?thesis by (metis a.get_fits a.get_put_fits)
qed

lemma get2_put1: "get2 (put1 v x) = get2 v"
proof -
  have "put1 v x = put2 (put1 v x) (get2 v)"
    by (simp add: put_commute [symmetric] b.put_get)
  then show ?thesis by (metis b.get_fits b.get_put_fits)
qed

end

interpretation t1_constant_opcode: instr_fields T1Constant T1SetConstant 48 T1Opcode T1SetOpcode 8
  by unfold_locales (simp_all add: field_defs field_laws set_field_commute)

interpretation t2_args: instr_fields T2Arg0 T2SetArg0 24 T2Arg1 T2SetArg1 24
  by unfold_locales (simp_all add: field_defs field_laws set_field_commute)

interpretation t3_type_arg: instr_fields T3TypeID T3SetTypeID 16 T3Arg T3SetArg 24
  by unfold_locales (simp_all add: field_defs field_laws set_field_commute)

interpretation t3_sarg_arg: instr_fields T3Sarg T3SetSarg 8 T3Arg T3SetArg 24
  by unfold_locales (simp_all add: field_defs field_laws set_field_commute)

interpretation t5_margs: instr_fields T5Marg0 T5SetMarg0 12 T5Marg1 T5SetMarg1 12
  by unfold_locales (simp_all add: field_defs field_laws set_field_commute)

interpretation t5_arg_marg0: instr_fields T5Arg T5SetArg 24 T5Marg0 T5SetMarg0 12
  by unfold_locales (simp_all add: field_defs field_laws set_field_commute)

section \<open>Properties\<close>

text \<open>
  whatever word a builder starts from, after its setters ran the readers return the
  metadata, opcode and type exactly and every argument up to its field's width; the order of
  the fields in the word never lets one setter disturb another.
\<close>

lemma instruction_roundtrip:
  "let i1 = T1SetOpcode (T1SetConstant (T1SetMetadata v md) c) op;
       i2 = T2SetOpcode (T2SetArg1 (T2SetArg0 (T2SetMetadata v md) a0) a1) op;
       i3 = T3SetOpcode (T3SetArg (T3SetSarg (T3SetTypeID (T3SetMetadata v md) t) sa) a0) op;
       i5 = T5SetOpcode (T5SetMarg1 (T5SetMarg0 (T5SetArg (T5SetMetadata v md) a0) m0) m1) op
   in T1Metadata i1 = md \<and> T1Constant i1 = take_bit 48 c \<and> T1Opcode i1 = op
    \<and> T2Metadata i2 = md \<and> T2Arg0 i2 = take_bit 24 a0 \<and> T2Arg1 i2 = take_bit 24 a1
    \<and> T2Opcode i2 = op
    \<and> T3Metadata i3 = md \<and> T3TypeID i3 = t \<and> T3Sarg i3 = sa \<and> T3Arg i3 = take_bit 24 a0
    \<and> T3Opcode i3 = op
    \<and> T5Metadata i5 = md \<and> T5Arg i5 = take_bit 24 a0 \<and> T5Marg0 i5 = take_bit 12 m0
    \<and> T5Marg1 i5 = take_bit 12 m1 \<and> T5Opcode i5 = op
    \<and> GenericOpcode i1 = op \<and> GenericOpcode i2 = op \<and> GenericOpcode i3 = op
    \<and> GenericOpcode i5 = op"
  by (simp add: Let_def field_defs field_laws)

lemma bit_tag [simp]: "bit (8388608 :: int) n \<longleftrightarrow> n = 23"
proof -
  have tag: "(8388608 :: int) = 2 ^ 23" by simp
  show ?thesis unfolding tag by (auto simp del: power_numeral simp: bit_exp_iff)
qed

lemma value_bit23: "((x :: u32) AND 8388608 \<noteq> 0) = bit x 23"
proof
  assume "bit x 23"
  then have "bit (x AND 8388608) 23" by (simp add: bit_simps)
  then show "(x AND 8388608) \<noteq> 0" by (metis bit_0_eq bot_apply bot_bool_def)
next
  assume "(x AND 8388608) \<noteq> 0"
  then obtain n where "bit (x AND 8388608) n" by (auto simp: bit_eq_iff)
  then show "bit x 23" by (auto simp: bit_simps)
qed

lemma small_idx_bits:
  assumes "i \<le> (0x7FFFFF :: u32)" "bit i n"
  shows "n < 23"
proof (rule ccontr)
  assume n: "\<not> n < 23"
  have "unat i < 2 ^ 23" using assms(1) by (simp add: word_le_nat_alt)
  then have "unat i < 2 ^ n" using n by (meson less_le_trans not_less one_le_numeral power_increasing)
  then have "\<not> bit (unat i) n" by (simp add: bit_iff_odd)
  with assms(2) show False by (simp add: bit_unsigned_iff)
qed

lemma MakeValue_bits:
  assumes "MakeValue i c = Inr v"
  shows "bit (value_idx v) n \<longleftrightarrow> bit i n \<and> n < 23 \<or> c \<and> n = 23"
  using assms small_idx_bits [of i n]
  by (auto simp: MakeValue_def bit_simps split: if_splits)

lemma MakeValue_law:
  assumes "MakeValue i c = Inr v"
  shows "i \<le> 0x7FFFFF" "GetIdx v = i" "IsConstantGlobal v = c" "take_bit 24 (value_idx v) = value_idx v"
proof -
  from assms show small: "i \<le> 0x7FFFFF" by (auto simp: MakeValue_def split: if_splits)
  note bits = MakeValue_bits [OF assms]
  have mask: "(0x7FFFFF :: u32) = mask 23" by (simp add: mask_eq_exp_minus_1)
  show "GetIdx v = i"
    by (rule bit_word_eqI) (auto simp: GetIdx_def mask bit_simps bits dest: small_idx_bits [OF small])
  show "IsConstantGlobal v = c"
    by (simp add: IsConstantGlobal_def value_bit23 bits)
  show "take_bit 24 (value_idx v) = value_idx v"
    by (rule bit_word_eqI) (auto simp: bit_simps bits)
qed

text \<open>
  Making a value is an error exactly when the index needs the tag bit; otherwise index and
  tag are read back, the serialised value fits the 24-bit argument fields, so storing it in
  an instruction and reading the argument returns the same value.
\<close>

lemma value_roundtrip:
  "(case MakeValue i c of
      Inl e \<Rightarrow> 0x7FFFFF < i \<and> e = RuntimeError ''Invalid idx''
    | Inr v \<Rightarrow> i \<le> 0x7FFFFF \<and> GetIdx v = i \<and> IsConstantGlobal v = c
        \<and> ValueOf (T2Arg0 (T2SetArg0 w (Serialize v))) = v
        \<and> ValueOf (T2Arg1 (T2SetArg1 w (Serialize v))) = v
        \<and> ValueOf (T3Arg (T3SetArg w (Serialize v))) = v
        \<and> ValueOf (T5Arg (T5SetArg w (Serialize v))) = v)"
proof (cases "MakeValue i c")
  case (Inl e)
  then show ?thesis by (auto simp: MakeValue_def split: if_splits)
next
  case (Inr v)
  note l = MakeValue_law [OF Inr]
  then show ?thesis
    using Inr by (simp add: field_defs field_laws Serialize_def ValueOf_def)
qed

end
