(* ===== verification/KhirTypes.thy ===== *)
theory KhirTypes
  imports KushPrelude
begin

text \<open>
  The types of the intermediate representation (\<^verbatim>\<open>khir/type_manager.cc\<close>). A type is its
  16-bit id, an index into the table of implementations; the manager keeps for every LLVM
  type it has seen the id it was given, so that asking twice gives the same id.
  LLVM is not part of the sources: the constructors and the data layout the manager calls are
  a record of functions, an argument of every operation that uses them. What the theorems
  need of them (pointer types are uniqued by their element type and differ from the base
  types) is the predicate \<open>llvm_ok\<close>.
\<close>

type_synonym Type = u16

section \<open>The interface to LLVM\<close>

text \<open>
  \<open>ll_struct n\<close> and \<open>ll_opaque n\<close> are the \<open>n\<close>-th identified structure the context creates;
  \<open>ll_offsets\<close> and \<open>ll_size\<close> are the data layout of the target.
\<close>

record 'l llvm =
  ll_void :: 'l
  ll_i1 :: 'l
  ll_i8 :: 'l
  ll_i16 :: 'l
  ll_i32 :: 'l
  ll_i64 :: 'l
  ll_double :: 'l
  ll_vec8 :: "'l \<Rightarrow> 'l"
  ll_ptr :: "'l \<Rightarrow> 'l"
  ll_array :: "'l \<Rightarrow> int \<Rightarrow> 'l"
  ll_func :: "'l \<Rightarrow> 'l list \<Rightarrow> 'l"
  ll_struct :: "nat \<Rightarrow> 'l list \<Rightarrow> 'l"
  ll_opaque :: "nat \<Rightarrow> string \<Rightarrow> 'l"
  ll_offsets :: "'l \<Rightarrow> int list"
  ll_size :: "'l \<Rightarrow> int"

section \<open>Implementations\<close>

datatype BaseTypeId = T_VOID | T_I1 | T_I8 | T_I16 | T_I32 | T_I64 | T_F64 | T_I32_VEC_8 | T_I1_VEC_8

datatype 'l TypeImpl =
    BaseTypeImpl BaseTypeId Type 'l
  | OpaqueTypeImpl Type string 'l
  | PointerTypeImpl Type Type 'l
  | ArrayTypeImpl Type int Type 'l
  | FunctionTypeImpl Type "Type list" Type 'l
  | StructTypeImpl "Type list" Type 'l

fun GetLLVM :: "'l TypeImpl \<Rightarrow> 'l" where
  "GetLLVM (BaseTypeImpl b t l) = l"
| "GetLLVM (OpaqueTypeImpl t n l) = l"
| "GetLLVM (PointerTypeImpl e t l) = l"
| "GetLLVM (ArrayTypeImpl e n t l) = l"
| "GetLLVM (FunctionTypeImpl r as t l) = l"
| "GetLLVM (StructTypeImpl es t l) = l"

fun TypeImplGet :: "'l TypeImpl \<Rightarrow> Type" where
  "TypeImplGet (BaseTypeImpl b t l) = t"
| "TypeImplGet (OpaqueTypeImpl t n l) = t"
| "TypeImplGet (PointerTypeImpl e t l) = t"
| "TypeImplGet (ArrayTypeImpl e n t l) = t"
| "TypeImplGet (FunctionTypeImpl r as t l) = t"
| "TypeImplGet (StructTypeImpl es t l) = t"

record 'l TypeManager =
  type_id_to_impl :: "'l TypeImpl list"
  impl_to_type_id :: "'l \<rightharpoonup> Type"
  opaque_name_to_type_id :: "string \<rightharpoonup> Type"
  struct_name_to_type_id :: "string \<rightharpoonup> Type"
  created_structs :: nat

definition impl_of :: "'l TypeManager \<Rightarrow> Type \<Rightarrow> 'l TypeImpl res" where
  "impl_of tm t = nthR (type_id_to_impl tm) (unat t)"

definition VoidType :: Type where "VoidType = 0"
definition I1Type :: Type where "I1Type = 1"
definition I8Type :: Type where "I8Type = 2"
definition I16Type :: Type where "I16Type = 3"
definition I32Type :: Type where "I32Type = 4"
definition I64Type :: Type where "I64Type = 5"
definition F64Type :: Type where "F64Type = 6"
definition I32Vec8Type :: Type where "I32Vec8Type = 7"
definition I1Vec8Type :: Type where "I1Vec8Type = 8"
definition I8PtrType :: Type where "I8PtrType = 9"
definition I32Vec8PtrType :: Type where "I32Vec8PtrType = 10"

definition IsVoid :: "Type \<Rightarrow> bool" where "IsVoid t = (t = 0)"
definition IsI1Type :: "Type \<Rightarrow> bool" where "IsI1Type t = (t = 1)"
definition IsI8Type :: "Type \<Rightarrow> bool" where "IsI8Type t = (t = 2)"
definition IsI16Type :: "Type \<Rightarrow> bool" where "IsI16Type t = (t = 3)"
definition IsI32Type :: "Type \<Rightarrow> bool" where "IsI32Type t = (t = 4)"
definition IsI64Type :: "Type \<Rightarrow> bool" where "IsI64Type t = (t = 5)"
definition IsF64Type :: "Type \<Rightarrow> bool" where "IsF64Type t = (t = 6)"
definition IsI32Vec8Type :: "Type \<Rightarrow> bool" where "IsI32Vec8Type t = (t = 7)"
definition IsI1Vec8Type :: "Type \<Rightarrow> bool" where "IsI1Vec8Type t = (t = 8)"

lemmas base_types = VoidType_def I1Type_def I8Type_def I16Type_def I32Type_def I64Type_def
  F64Type_def I32Vec8Type_def I1Vec8Type_def I8PtrType_def I32Vec8PtrType_def

definition GetOutputType :: "'l TypeManager \<Rightarrow> Type" where
  "GetOutputType tm = of_nat (length (type_id_to_impl tm))"

definition AddType :: "'l TypeManager \<Rightarrow> 'l TypeImpl \<Rightarrow> ('l TypeManager \<times> Type) res" where
  "AddType tm mp =
     (let llvm_ty = GetLLVM mp in
      if impl_to_type_id tm llvm_ty \<noteq> None then Inl (RuntimeError ''Check the map first!'')
      else let output = GetOutputType tm in
        Inr (tm\<lparr>impl_to_type_id := (impl_to_type_id tm)(llvm_ty \<mapsto> output),
                type_id_to_impl := type_id_to_impl tm @ [mp]\<rparr>, output))"

text \<open>The types the constructor registers, in order.\<close>

definition initial_impls :: "'l llvm \<Rightarrow> 'l TypeImpl list" where
  "initial_impls L =
     [BaseTypeImpl T_VOID VoidType (ll_void L),
      BaseTypeImpl T_I1 I1Type (ll_i1 L),
      BaseTypeImpl T_I8 I8Type (ll_i8 L),
      BaseTypeImpl T_I16 I16Type (ll_i16 L),
      BaseTypeImpl T_I32 I32Type (ll_i32 L),
      BaseTypeImpl T_I64 I64Type (ll_i64 L),
      BaseTypeImpl T_F64 F64Type (ll_double L),
      BaseTypeImpl T_I32_VEC_8 I32Vec8Type (ll_vec8 L (ll_i32 L)),
      BaseTypeImpl T_I1_VEC_8 I1Vec8Type (ll_vec8 L (ll_i1 L)),
      PointerTypeImpl I8Type I8PtrType (ll_ptr L (ll_i8 L)),
      PointerTypeImpl I32Vec8Type I32Vec8PtrType (ll_ptr L (ll_vec8 L (ll_i1 L)))]"

definition TypeManagerNew :: "'l llvm \<Rightarrow> 'l TypeManager res" where
  "TypeManagerNew L =
     foldR (\<lambda>tm mp. bindR (AddType tm mp) (\<lambda>r. Inr (fst r)))
       \<lparr>type_id_to_impl = [], impl_to_type_id = Map.empty, opaque_name_to_type_id = Map.empty,
        struct_name_to_type_id = Map.empty, created_structs = 0\<rparr>
       (initial_impls L)"

section \<open>Making types\<close>

text \<open>The common end of the operations below: the id the LLVM type has, or a new one.\<close>

definition intern :: "'l TypeManager \<Rightarrow> 'l TypeImpl \<Rightarrow> ('l TypeManager \<times> Type) res" where
  "intern tm mp =
     (case impl_to_type_id tm (GetLLVM mp) of
        Some t \<Rightarrow> Inr (tm, t)
      | None \<Rightarrow> AddType tm mp)"

definition GetTypeArray :: "'l TypeManager \<Rightarrow> Type list \<Rightarrow> 'l list res" where
  "GetTypeArray tm ts =
     foldR (\<lambda>ls t. bindR (impl_of tm t) (\<lambda>mp. Inr (ls @ [GetLLVM mp]))) [] ts"

definition OpaqueType :: "'l llvm \<Rightarrow> 'l TypeManager \<Rightarrow> string \<Rightarrow> ('l TypeManager \<times> Type) res" where
  "OpaqueType L tm name =
     (if opaque_name_to_type_id tm name \<noteq> None then Inl (RuntimeError (name @ '': name exists!''))
      else
        let impl = ll_opaque L (created_structs tm) name;
            tm = tm\<lparr>created_structs := created_structs tm + 1\<rparr>
        in case impl_to_type_id tm impl of
             Some t \<Rightarrow> Inr (tm, t)
           | None \<Rightarrow>
               bindR (AddType tm (OpaqueTypeImpl (GetOutputType tm) name impl)) (\<lambda>(tm, output).
                 Inr (tm\<lparr>opaque_name_to_type_id := (opaque_name_to_type_id tm)(name \<mapsto> output)\<rparr>,
                      output)))"

definition StructType :: "'l llvm \<Rightarrow> 'l TypeManager \<Rightarrow> Type list \<Rightarrow> ('l TypeManager \<times> Type) res" where
  "StructType L tm field_type_id =
     bindR (GetTypeArray tm field_type_id) (\<lambda>ls.
       let impl = ll_struct L (created_structs tm) ls;
           tm = tm\<lparr>created_structs := created_structs tm + 1\<rparr>
       in intern tm (StructTypeImpl field_type_id (GetOutputType tm) impl))"

definition NamedStructType ::
    "'l llvm \<Rightarrow> 'l TypeManager \<Rightarrow> Type list \<Rightarrow> string \<Rightarrow> ('l TypeManager \<times> Type) res" where
  "NamedStructType L tm field_type_id name =
     (if struct_name_to_type_id tm name \<noteq> None then Inl (RuntimeError (name @ '': name exists!''))
      else bindR (StructType L tm field_type_id) (\<lambda>(tm, id).
        Inr (tm\<lparr>struct_name_to_type_id := (struct_name_to_type_id tm)(name \<mapsto> id)\<rparr>, id)))"

definition PointerType :: "'l llvm \<Rightarrow> 'l TypeManager \<Rightarrow> Type \<Rightarrow> ('l TypeManager \<times> Type) res" where
  "PointerType L tm elem =
     bindR (impl_of tm elem) (\<lambda>mp.
       intern tm (PointerTypeImpl elem (GetOutputType tm) (ll_ptr L (GetLLVM mp))))"

definition ArrayType :: "'l llvm \<Rightarrow> 'l TypeManager \<Rightarrow> Type \<Rightarrow> int \<Rightarrow> ('l TypeManager \<times> Type) res" where
  "ArrayType L tm type len =
     bindR (impl_of tm type) (\<lambda>mp.
       intern tm (ArrayTypeImpl type len (GetOutputType tm) (ll_array L (GetLLVM mp) len)))"

definition FunctionType ::
    "'l llvm \<Rightarrow> 'l TypeManager \<Rightarrow> Type \<Rightarrow> Type list \<Rightarrow> ('l TypeManager \<times> Type) res" where
  "FunctionType L tm result args =
     bindR (impl_of tm result) (\<lambda>mp.
     bindR (GetTypeArray tm args) (\<lambda>ls.
       intern tm (FunctionTypeImpl result args (GetOutputType tm) (ll_func L (GetLLVM mp) ls))))"

section \<open>Inspecting types\<close>

definition GetOpaqueType :: "'l TypeManager \<Rightarrow> string \<Rightarrow> Type res" where
  "GetOpaqueType tm name = atR (opaque_name_to_type_id tm) name"

definition GetNamedStructType :: "'l TypeManager \<Rightarrow> string \<Rightarrow> Type res" where
  "GetNamedStructType tm name = atR (struct_name_to_type_id tm) name"

definition GetFunctionReturnType :: "'l TypeManager \<Rightarrow> Type \<Rightarrow> Type res" where
  "GetFunctionReturnType tm func_type =
     bindR (impl_of tm func_type) (\<lambda>mp.
       case mp of FunctionTypeImpl r as t l \<Rightarrow> Inr r | _ \<Rightarrow> Inl BadCast)"

definition GetPointerElementType :: "'l TypeManager \<Rightarrow> Type \<Rightarrow> Type res" where
  "GetPointerElementType tm ptr_type =
     bindR (impl_of tm ptr_type) (\<lambda>mp.
       case mp of PointerTypeImpl e t l \<Rightarrow> Inr e | _ \<Rightarrow> Inl BadCast)"

definition GetArrayElementType :: "'l TypeManager \<Rightarrow> Type \<Rightarrow> Type res" where
  "GetArrayElementType tm array_type =
     bindR (impl_of tm array_type) (\<lambda>mp.
       case mp of ArrayTypeImpl e n t l \<Rightarrow> Inr e | _ \<Rightarrow> Inl BadCast)"

definition GetStructElementTypes :: "'l TypeManager \<Rightarrow> Type \<Rightarrow> Type list res" where
  "GetStructElementTypes tm struct_type =
     bindR (impl_of tm struct_type) (\<lambda>mp.
       case mp of StructTypeImpl es t l \<Rightarrow> Inr es | _ \<Rightarrow> Inl BadCast)"

definition GetStructFieldOffsets :: "'l llvm \<Rightarrow> 'l TypeManager \<Rightarrow> Type \<Rightarrow> int list res" where
  "GetStructFieldOffsets L tm t = bindR (impl_of tm t) (\<lambda>mp. Inr (ll_offsets L (GetLLVM mp)))"

definition GetTypeSize :: "'l llvm \<Rightarrow> 'l TypeManager \<Rightarrow> Type \<Rightarrow> int res" where
  "GetTypeSize L tm t = bindR (impl_of tm t) (\<lambda>mp. Inr (ll_size L (GetLLVM mp)))"

definition IsPtrType :: "'l TypeManager \<Rightarrow> Type \<Rightarrow> bool res" where
  "IsPtrType tm t =
     bindR (impl_of tm t) (\<lambda>mp. Inr (case mp of PointerTypeImpl e t l \<Rightarrow> True | _ \<Rightarrow> False))"

definition IsArrayType :: "'l TypeManager \<Rightarrow> Type \<Rightarrow> bool res" where
  "IsArrayType tm t =
     bindR (impl_of tm t) (\<lambda>mp. Inr (case mp of ArrayTypeImpl e n t l \<Rightarrow> True | _ \<Rightarrow> False))"

definition IsStructType :: "'l TypeManager \<Rightarrow> Type \<Rightarrow> bool res" where
  "IsStructType tm t =
     bindR (impl_of tm t) (\<lambda>mp. Inr (case mp of StructTypeImpl es t l \<Rightarrow> True | _ \<Rightarrow> False))"

definition IsFuncType :: "'l TypeManager \<Rightarrow> Type \<Rightarrow> bool res" where
  "IsFuncType tm t =
     bindR (impl_of tm t) (\<lambda>mp. Inr (case mp of FunctionTypeImpl r as t l \<Rightarrow> True | _ \<Rightarrow> False))"

text \<open>
  One step of the walk of \<^verbatim>\<open>GetPointerOffset\<close> along an index. Offsets are integers here: the
  \<^verbatim>\<open>int32_t\<close> the source adds them up in is wide enough for the sizes of the types in use.
\<close>

definition offset_step ::
    "'l llvm \<Rightarrow> 'l TypeManager \<Rightarrow> (int \<times> 'l TypeImpl) \<Rightarrow> int \<Rightarrow> (int \<times> 'l TypeImpl) res" where
  "offset_step L tm st i =
     (case snd st of
        PointerTypeImpl e t l \<Rightarrow>
          bindR (impl_of tm e) (\<lambda>mp. bindR (GetTypeSize L tm e) (\<lambda>sz. Inr (fst st + i * sz, mp)))
      | ArrayTypeImpl e n t l \<Rightarrow>
          bindR (impl_of tm e) (\<lambda>mp. bindR (GetTypeSize L tm e) (\<lambda>sz. Inr (fst st + i * sz, mp)))
      | StructTypeImpl es t l \<Rightarrow>
          bindR (nthI es i) (\<lambda>e. bindR (impl_of tm e) (\<lambda>mp.
          bindR (GetStructFieldOffsets L tm t) (\<lambda>offs. bindR (nthI offs i) (\<lambda>off.
            Inr (fst st + off, mp)))))
      | _ \<Rightarrow> Inl (RuntimeError ''Cannot index into type.''))"

definition GetPointerOffset ::
    "'l llvm \<Rightarrow> 'l TypeManager \<Rightarrow> Type \<Rightarrow> int list \<Rightarrow> bool \<Rightarrow> ('l TypeManager \<times> int \<times> Type) res" where
  "GetPointerOffset L tm t idx dynamic =
     bindR (if dynamic then Inr (0, idx)
            else bindR (nthR idx 0) (\<lambda>i. bindR (GetTypeSize L tm t) (\<lambda>sz. Inr (i * sz, tl idx))))
       (\<lambda>(offset, is).
     bindR (impl_of tm t) (\<lambda>mp.
     bindR (foldR (offset_step L tm) (offset, mp) is) (\<lambda>(offset, result_type).
     bindR (PointerType L tm (TypeImplGet result_type)) (\<lambda>(tm, p). Inr (tm, offset, p)))))"

text \<open>The calls \<^verbatim>\<open>Translate\<close> makes on its translator.\<close>

datatype TypeTranslatorCall =
    TranslateVoidType | TranslateI1Type | TranslateI8Type | TranslateI16Type | TranslateI32Type
  | TranslateI64Type | TranslateF64Type | TranslateI32Vec8Type | TranslateI1Vec8Type
  | TranslateOpaqueType string | TranslatePointerType Type | TranslateArrayType Type int
  | TranslateStructType "Type list" | TranslateFunctionType Type "Type list"

fun translate_impl :: "'l TypeImpl \<Rightarrow> TypeTranslatorCall" where
  "translate_impl (BaseTypeImpl b t l) =
     (case b of T_VOID \<Rightarrow> TranslateVoidType | T_I1 \<Rightarrow> TranslateI1Type | T_I8 \<Rightarrow> TranslateI8Type
      | T_I16 \<Rightarrow> TranslateI16Type | T_I32 \<Rightarrow> TranslateI32Type | T_I64 \<Rightarrow> TranslateI64Type
      | T_F64 \<Rightarrow> TranslateF64Type | T_I32_VEC_8 \<Rightarrow> TranslateI32Vec8Type
      | T_I1_VEC_8 \<Rightarrow> TranslateI1Vec8Type)"
| "translate_impl (OpaqueTypeImpl t n l) = TranslateOpaqueType n"
| "translate_impl (PointerTypeImpl e t l) = TranslatePointerType e"
| "translate_impl (ArrayTypeImpl e n t l) = TranslateArrayType e n"
| "translate_impl (StructTypeImpl es t l) = TranslateStructType es"
| "translate_impl (FunctionTypeImpl r as t l) = TranslateFunctionType r as"

definition Translate :: "'l TypeManager \<Rightarrow> TypeTranslatorCall list" where
  "Translate tm = map translate_impl (type_id_to_impl tm)"

section \<open>The invariant of the manager\<close>

text \<open>
  What is documented of LLVM and used here: a pointer type is determined by its element type
  and is none of the other types; the types the constructor registers are different.
\<close>

definition llvm_ok :: "'l llvm \<Rightarrow> bool" where
  "llvm_ok L \<longleftrightarrow> (\<forall>x y. ll_ptr L x = ll_ptr L y \<longrightarrow> x = y)
     \<and> (\<forall>x y n xs. ll_ptr L x \<noteq> ll_array L y n \<and> ll_ptr L x \<noteq> ll_func L y xs
          \<and> ll_ptr L x \<noteq> ll_vec8 L y)
     \<and> (\<forall>x n xs s. ll_ptr L x \<noteq> ll_struct L n xs \<and> ll_ptr L x \<noteq> ll_opaque L n s)
     \<and> (\<forall>x. ll_ptr L x \<notin> set (map GetLLVM (take 9 (initial_impls L))))
     \<and> distinct (map GetLLVM (initial_impls L))"

definition is_pointer :: "'l TypeImpl \<Rightarrow> bool" where
  "is_pointer mp = (case mp of PointerTypeImpl e t l \<Rightarrow> True | _ \<Rightarrow> False)"

definition tm_ok :: "'l llvm \<Rightarrow> 'l TypeManager \<Rightarrow> bool" where
  "tm_ok L tm \<longleftrightarrow>
     (let impls = type_id_to_impl tm in
        length impls \<le> 65536 \<and> take 11 impls = initial_impls L
      \<and> (\<forall>i<length impls. TypeImplGet (impls ! i) = of_nat i
           \<and> impl_to_type_id tm (GetLLVM (impls ! i)) = Some (of_nat i))
      \<and> (\<forall>l t. impl_to_type_id tm l = Some t \<longrightarrow> unat t < length impls \<and> GetLLVM (impls ! unat t) = l)
      \<and> (\<forall>i<length impls. \<forall>x. GetLLVM (impls ! i) = ll_ptr L x \<longrightarrow> is_pointer (impls ! i))
      \<and> (\<forall>i<length impls. i \<noteq> 10 \<longrightarrow>
           (\<forall>e t l. impls ! i = PointerTypeImpl e t l \<longrightarrow>
              unat e < length impls \<and> l = ll_ptr L (GetLLVM (impls ! unat e)))))"

lemma tm_okD:
  assumes "tm_ok L tm"
  defines "impls \<equiv> type_id_to_impl tm"
  shows "length impls \<le> 65536" "take 11 impls = initial_impls L"
    and "i < length impls \<Longrightarrow> TypeImplGet (impls ! i) = of_nat i"
    and "i < length impls \<Longrightarrow> impl_to_type_id tm (GetLLVM (impls ! i)) = Some (of_nat i)"
    and "impl_to_type_id tm l = Some t \<Longrightarrow> unat t < length impls \<and> GetLLVM (impls ! unat t) = l"
    and "i < length impls \<Longrightarrow> GetLLVM (impls ! i) = ll_ptr L x \<Longrightarrow> is_pointer (impls ! i)"
    and "i < length impls \<Longrightarrow> i \<noteq> 10 \<Longrightarrow> impls ! i = PointerTypeImpl e t l \<Longrightarrow>
      unat e < length impls \<and> l = ll_ptr L (GetLLVM (impls ! unat e))"
  using assms unfolding tm_ok_def Let_def by blast+

lemma tm_ok_initial:
  assumes "tm_ok L tm" "i < 11"
  shows "i < length (type_id_to_impl tm)" "type_id_to_impl tm ! i = initial_impls L ! i"
proof -
  have "length (take 11 (type_id_to_impl tm)) = 11"
    using tm_okD(2) [OF assms(1)] by (simp add: initial_impls_def)
  then show "i < length (type_id_to_impl tm)" using assms(2) by simp
  show "type_id_to_impl tm ! i = initial_impls L ! i"
    using tm_okD(2) [OF assms(1)] assms(2) by (metis nth_take)
qed

text \<open>Two ids with the same LLVM type are equal.\<close>

lemma tm_ok_inj:
  assumes "tm_ok L tm" "i < length (type_id_to_impl tm)" "j < length (type_id_to_impl tm)"
    and "GetLLVM (type_id_to_impl tm ! i) = GetLLVM (type_id_to_impl tm ! j)"
  shows "i = j"
proof -
  have "(of_nat i :: u16) = of_nat j"
    using tm_okD(4) [OF assms(1,2)] tm_okD(4) [OF assms(1,3)] assms(4) by simp
  moreover have "i < 65536" "j < 65536" using tm_okD(1) [OF assms(1)] assms(2,3) by auto
  ultimately show ?thesis by (metis unat_of_nat_u16)
qed

lemma intern_ok:
  assumes ok: "tm_ok L tm" and room: "length (type_id_to_impl tm) < 65536"
    and get: "TypeImplGet mp = GetOutputType tm"
    and ptr: "\<forall>x. GetLLVM mp = ll_ptr L x \<longrightarrow> is_pointer mp"
    and elem: "\<forall>e t l. mp = PointerTypeImpl e t l \<longrightarrow>
      unat e < length (type_id_to_impl tm) \<and> l = ll_ptr L (GetLLVM (type_id_to_impl tm ! unat e))"
  shows "\<exists>tm' t. intern tm mp = Inr (tm', t) \<and> tm_ok L tm' \<and> impl_to_type_id tm' (GetLLVM mp) = Some t
    \<and> (impl_to_type_id tm (GetLLVM mp) = None \<longrightarrow> type_id_to_impl tm' = type_id_to_impl tm @ [mp])
    \<and> (impl_to_type_id tm (GetLLVM mp) \<noteq> None \<longrightarrow> tm' = tm)"
proof (cases "impl_to_type_id tm (GetLLVM mp)")
  case (Some t)
  then show ?thesis using ok by (simp add: intern_def)
next
  case None
  let ?impls = "type_id_to_impl tm" and ?o = "GetOutputType tm"
  let ?tm = "tm\<lparr>impl_to_type_id := (impl_to_type_id tm)(GetLLVM mp \<mapsto> ?o), type_id_to_impl := ?impls @ [mp]\<rparr>"
  have u: "unat ?o = length ?impls" using room by (simp add: GetOutputType_def unat_of_nat)
  have fresh: "GetLLVM (?impls ! i) \<noteq> GetLLVM mp" if "i < length ?impls" for i
    using tm_okD(4) [OF ok that] None by auto
  have len: "11 \<le> length ?impls" using tm_ok_initial(1) [OF ok, of 10] by simp
  have "tm_ok L ?tm"
    unfolding tm_ok_def Let_def
  proof (intro conjI allI impI)
    show "length (type_id_to_impl ?tm) \<le> 65536" using room by simp
    show "take 11 (type_id_to_impl ?tm) = initial_impls L" using tm_okD(2) [OF ok] len by simp
  next
    fix i assume i: "i < length (type_id_to_impl ?tm)"
    show "TypeImplGet (type_id_to_impl ?tm ! i) = of_nat i"
      using i tm_okD(3) [OF ok, of i] get by (auto simp: nth_append GetOutputType_def less_Suc_eq)
    show "impl_to_type_id ?tm (GetLLVM (type_id_to_impl ?tm ! i)) = Some (of_nat i)"
      using i tm_okD(4) [OF ok, of i] fresh [of i] by (auto simp: nth_append GetOutputType_def less_Suc_eq)
  next
    fix l t assume "impl_to_type_id ?tm l = Some t"
    then show "unat t < length (type_id_to_impl ?tm)" "GetLLVM (type_id_to_impl ?tm ! unat t) = l"
      using tm_okD(5) [OF ok, of l t] u by (auto simp: nth_append split: if_splits)
  next
    fix i x assume "i < length (type_id_to_impl ?tm)" "GetLLVM (type_id_to_impl ?tm ! i) = ll_ptr L x"
    then show "is_pointer (type_id_to_impl ?tm ! i)"
      using tm_okD(6) [OF ok, of i x] ptr by (auto simp: nth_append less_Suc_eq)
  next
    fix i e t l
    assume "i < length (type_id_to_impl ?tm)" "i \<noteq> 10" "type_id_to_impl ?tm ! i = PointerTypeImpl e t l"
    then show "unat e < length (type_id_to_impl ?tm)"
      "l = ll_ptr L (GetLLVM (type_id_to_impl ?tm ! unat e))"
      using tm_okD(7) [OF ok, of i e t l] elem by (auto simp: nth_append less_Suc_eq split: if_splits)
  qed
  moreover have "intern tm mp = Inr (?tm, ?o)" using None by (simp add: intern_def AddType_def Let_def)
  ultimately show ?thesis using None by auto
qed

section \<open>The initial manager\<close>

lemma AddType_fresh:
  assumes ids: "\<forall>l t. impl_to_type_id tm l = Some t \<longleftrightarrow>
      (\<exists>i<length (type_id_to_impl tm). GetLLVM (type_id_to_impl tm ! i) = l \<and> t = of_nat i)"
    and fresh: "GetLLVM mp \<notin> set (map GetLLVM (type_id_to_impl tm))"
  shows "\<exists>tm'. AddType tm mp = Inr (tm', GetOutputType tm) \<and> type_id_to_impl tm' = type_id_to_impl tm @ [mp]
    \<and> (\<forall>l t. impl_to_type_id tm' l = Some t \<longleftrightarrow>
      (\<exists>i<length (type_id_to_impl tm'). GetLLVM (type_id_to_impl tm' ! i) = l \<and> t = of_nat i))"
proof -
  let ?impls = "type_id_to_impl tm"
  let ?tm = "tm\<lparr>impl_to_type_id := (impl_to_type_id tm)(GetLLVM mp \<mapsto> GetOutputType tm),
    type_id_to_impl := ?impls @ [mp]\<rparr>"
  have none: "impl_to_type_id tm (GetLLVM mp) = None"
    using ids fresh by (metis length_map not_None_eq nth_map nth_mem)
  have ne: "GetLLVM (?impls ! i) \<noteq> GetLLVM mp" if "i < length ?impls" for i
    using fresh that by (metis length_map nth_map nth_mem)
  have "impl_to_type_id ?tm l = Some t \<longleftrightarrow>
      (\<exists>i<length (type_id_to_impl ?tm). GetLLVM (type_id_to_impl ?tm ! i) = l \<and> t = of_nat i)" for l t
  proof (cases "l = GetLLVM mp")
    case True
    then show ?thesis using ne by (auto simp: GetOutputType_def nth_append less_Suc_eq)
  next
    case False
    then have "(\<exists>i<length (type_id_to_impl ?tm). GetLLVM (type_id_to_impl ?tm ! i) = l \<and> t = of_nat i) \<longleftrightarrow>
        (\<exists>i<length ?impls. GetLLVM (?impls ! i) = l \<and> t = of_nat i)"
      by (auto simp: nth_append less_Suc_eq)
    then show ?thesis using ids False by simp
  qed
  then show ?thesis using none by (auto simp: AddType_def Let_def)
qed

lemma add_all_fresh:
  assumes "\<forall>l t. impl_to_type_id tm l = Some t \<longleftrightarrow>
      (\<exists>i<length (type_id_to_impl tm). GetLLVM (type_id_to_impl tm ! i) = l \<and> t = of_nat i)"
    and "distinct (map GetLLVM (type_id_to_impl tm @ mps))"
  shows "\<exists>tm'. foldR (\<lambda>tm mp. bindR (AddType tm mp) (\<lambda>r. Inr (fst r))) tm mps = Inr tm'
    \<and> type_id_to_impl tm' = type_id_to_impl tm @ mps
    \<and> (\<forall>l t. impl_to_type_id tm' l = Some t \<longleftrightarrow>
      (\<exists>i<length (type_id_to_impl tm'). GetLLVM (type_id_to_impl tm' ! i) = l \<and> t = of_nat i))"
  using assms
proof (induction mps arbitrary: tm)
  case Nil
  then show ?case by simp
next
  case (Cons mp mps)
  obtain tm1 where tm1: "AddType tm mp = Inr (tm1, GetOutputType tm)"
    "type_id_to_impl tm1 = type_id_to_impl tm @ [mp]"
    "\<forall>l t. impl_to_type_id tm1 l = Some t \<longleftrightarrow>
      (\<exists>i<length (type_id_to_impl tm1). GetLLVM (type_id_to_impl tm1 ! i) = l \<and> t = of_nat i)"
    using AddType_fresh [OF Cons.prems(1), of mp] Cons.prems(2) by auto
  have "distinct (map GetLLVM (type_id_to_impl tm1 @ mps))" using Cons.prems(2) tm1(2) by simp
  from Cons.IH [OF tm1(3) this] tm1(1,2) show ?case by auto
qed

lemma initial_cases: "i < 11 \<Longrightarrow> i \<in> {0, 1, 2, 3, 4, 5, 6, 7, 8, 9, 10 :: nat}"
proof -
  assume "i < 11"
  then have "i \<in> set [0..<11]" by simp
  then show ?thesis by (simp add: upt_conv_Cons eval_nat_numeral)
qed

lemma initial_get: "i < 11 \<Longrightarrow> TypeImplGet (initial_impls L ! i) = of_nat i"
  by (drule initial_cases) (auto simp: initial_impls_def base_types)

lemma initial_pointer:
  assumes "llvm_ok L" "i < 11"
  shows "GetLLVM (initial_impls L ! i) = ll_ptr L x \<Longrightarrow> is_pointer (initial_impls L ! i)"
    and "i \<noteq> 10 \<Longrightarrow> initial_impls L ! i = PointerTypeImpl e t l \<Longrightarrow>
      unat e < 11 \<and> l = ll_ptr L (GetLLVM (initial_impls L ! unat e))"
proof -
  have no: "ll_ptr L x \<notin> set (map GetLLVM (take 9 (initial_impls L)))" using assms(1) by (simp add: llvm_ok_def)
  show "is_pointer (initial_impls L ! i)" if "GetLLVM (initial_impls L ! i) = ll_ptr L x"
    using initial_cases [OF assms(2)] no that by (auto simp: initial_impls_def is_pointer_def)
  show "unat e < 11 \<and> l = ll_ptr L (GetLLVM (initial_impls L ! unat e))"
    if "i \<noteq> 10" "initial_impls L ! i = PointerTypeImpl e t l"
    using initial_cases [OF assms(2)] that by (auto simp: initial_impls_def base_types)
qed

lemma TypeManagerNew_ok:
  assumes "llvm_ok L"
  shows "\<exists>tm. TypeManagerNew L = Inr tm \<and> tm_ok L tm \<and> type_id_to_impl tm = initial_impls L"
proof -
  let ?tm0 = "\<lparr>type_id_to_impl = [], impl_to_type_id = Map.empty, opaque_name_to_type_id = Map.empty,
        struct_name_to_type_id = Map.empty, created_structs = 0\<rparr>"
  have "distinct (map GetLLVM (type_id_to_impl ?tm0 @ initial_impls L))"
    using assms by (simp add: llvm_ok_def)
  then obtain tm where tm: "TypeManagerNew L = Inr tm" "type_id_to_impl tm = initial_impls L"
    "\<forall>l t. impl_to_type_id tm l = Some t \<longleftrightarrow>
      (\<exists>i<length (type_id_to_impl tm). GetLLVM (type_id_to_impl tm ! i) = l \<and> t = of_nat i)"
    using add_all_fresh [of ?tm0 "initial_impls L"] by (auto simp: TypeManagerNew_def)
  have len: "length (initial_impls L) = 11" by (simp add: initial_impls_def)
  have "tm_ok L tm"
    unfolding tm_ok_def Let_def tm(2)
  proof (intro conjI allI impI)
    fix i assume i: "i < length (initial_impls L)"
    show "TypeImplGet (initial_impls L ! i) = of_nat i" using initial_get i len by simp
    show "impl_to_type_id tm (GetLLVM (initial_impls L ! i)) = Some (of_nat i)" using tm(2,3) i by auto
  next
    fix l t assume "impl_to_type_id tm l = Some t"
    then obtain i where i: "i < 11" "GetLLVM (initial_impls L ! i) = l" "t = of_nat i"
      using tm(2,3) len by auto
    then have "unat t = i" by simp
    then show "unat t < length (initial_impls L)" "GetLLVM (initial_impls L ! unat t) = l"
      using i len by auto
  next
    fix i x assume "i < length (initial_impls L)" "GetLLVM (initial_impls L ! i) = ll_ptr L x"
    then show "is_pointer (initial_impls L ! i)" using initial_pointer(1) [OF assms, of i x] len by simp
  next
    fix i e t l assume "i < length (initial_impls L)" "i \<noteq> 10" "initial_impls L ! i = PointerTypeImpl e t l"
    then show "unat e < length (initial_impls L)" "l = ll_ptr L (GetLLVM (initial_impls L ! unat e))"
      using initial_pointer(2) [OF assms, of i e t l] len by auto
  qed (use len in auto)
  with tm show ?thesis by blast
qed

section \<open>Every operation keeps the invariant\<close>

lemma impl_of_in: "unat t < length (type_id_to_impl tm) \<Longrightarrow> impl_of tm t = Inr (type_id_to_impl tm ! unat t)"
  by (simp add: impl_of_def)

lemma GetTypeArray_total:
  assumes "\<forall>t\<in>set ts. unat t < length (type_id_to_impl tm)"
  shows "\<exists>ls. GetTypeArray tm ts = Inr ls"
proof -
  have "\<exists>ls. foldR (\<lambda>ls t. bindR (impl_of tm t) (\<lambda>mp. Inr (ls @ [GetLLVM mp]))) [] ts = Inr ls \<and> True"
    by (rule foldR_total) (use assms in \<open>auto simp: impl_of_in\<close>)
  then show ?thesis by (simp add: GetTypeArray_def)
qed

lemma tm_ok_created [simp]: "tm_ok L (tm\<lparr>created_structs := n\<rparr>) = tm_ok L tm"
  by (simp add: tm_ok_def)

lemma tm_ok_names [simp]:
  "tm_ok L (tm\<lparr>opaque_name_to_type_id := m\<rparr>) = tm_ok L tm"
  "tm_ok L (tm\<lparr>struct_name_to_type_id := m\<rparr>) = tm_ok L tm"
  by (simp_all add: tm_ok_def)

lemma GetOutputType_created [simp]: "GetOutputType (tm\<lparr>created_structs := n\<rparr>) = GetOutputType tm"
  by (simp add: GetOutputType_def)

lemma llvm_ok_ptr:
  assumes "llvm_ok L"
  shows "ll_array L y n \<noteq> ll_ptr L x" "ll_func L y xs \<noteq> ll_ptr L x" "ll_struct L k xs \<noteq> ll_ptr L x"
    "ll_opaque L k s \<noteq> ll_ptr L x" "ll_ptr L x = ll_ptr L y \<Longrightarrow> x = y"
  using assms unfolding llvm_ok_def by metis+

lemma PointerType_law:
  assumes ok: "tm_ok L tm" "llvm_ok L" and room: "length (type_id_to_impl tm) < 65536"
    and t: "unat t < length (type_id_to_impl tm)"
  shows "\<exists>tm' p. PointerType L tm t = Inr (tm', p) \<and> tm_ok L tm'
    \<and> impl_to_type_id tm' (ll_ptr L (GetLLVM (type_id_to_impl tm ! unat t))) = Some p
    \<and> unat t < length (type_id_to_impl tm') \<and> type_id_to_impl tm' ! unat t = type_id_to_impl tm ! unat t"
proof -
  let ?mp = "PointerTypeImpl t (GetOutputType tm) (ll_ptr L (GetLLVM (type_id_to_impl tm ! unat t)))"
  obtain tm' p where i: "intern tm ?mp = Inr (tm', p)" "tm_ok L tm'" "impl_to_type_id tm' (GetLLVM ?mp) = Some p"
    "impl_to_type_id tm (GetLLVM ?mp) = None \<longrightarrow> type_id_to_impl tm' = type_id_to_impl tm @ [?mp]"
    "impl_to_type_id tm (GetLLVM ?mp) \<noteq> None \<longrightarrow> tm' = tm"
  proof -
    have "TypeImplGet ?mp = GetOutputType tm" "\<forall>x. GetLLVM ?mp = ll_ptr L x \<longrightarrow> is_pointer ?mp"
      "\<forall>e t' l. ?mp = PointerTypeImpl e t' l \<longrightarrow> unat e < length (type_id_to_impl tm)
        \<and> l = ll_ptr L (GetLLVM (type_id_to_impl tm ! unat e))"
      using t by (auto simp: is_pointer_def)
    from intern_ok [OF ok(1) room this] show thesis by (elim exE conjE) (rule that)
  qed
  have "type_id_to_impl tm' = type_id_to_impl tm \<or> type_id_to_impl tm' = type_id_to_impl tm @ [?mp]"
    using i(4,5) by auto
  then show ?thesis
    using i t by (auto simp: PointerType_def impl_of_in nth_append)
qed

lemma pointer_element:
  assumes ok: "tm_ok L tm" "llvm_ok L" and t: "unat t < length (type_id_to_impl tm)" "t \<noteq> I1Vec8Type"
    and p: "impl_to_type_id tm (ll_ptr L (GetLLVM (type_id_to_impl tm ! unat t))) = Some p"
  shows "GetPointerElementType tm p = Inr t"
proof -
  let ?impls = "type_id_to_impl tm"
  have in_p: "unat p < length ?impls" "GetLLVM (?impls ! unat p) = ll_ptr L (GetLLVM (?impls ! unat t))"
    using tm_okD(5) [OF ok(1) p] by auto
  from tm_okD(6) [OF ok(1) in_p] obtain e t' l where e: "?impls ! unat p = PointerTypeImpl e t' l"
    by (auto simp: is_pointer_def split: TypeImpl.splits)
  have "unat p \<noteq> 10"
  proof
    assume "unat p = 10"
    then have "ll_ptr L (ll_vec8 L (ll_i1 L)) = ll_ptr L (GetLLVM (?impls ! unat t))"
      using in_p(2) tm_ok_initial(2) [OF ok(1), of 10] by (simp add: initial_impls_def)
    then have "GetLLVM (?impls ! 8) = GetLLVM (?impls ! unat t)"
      using llvm_ok_ptr(5) [OF ok(2)] tm_ok_initial(2) [OF ok(1), of 8] by (simp add: initial_impls_def)
    then have "8 = unat t" using tm_ok_inj [OF ok(1) tm_ok_initial(1) [OF ok(1)] t(1)] by simp
    then show False using t(2) by (simp add: I1Vec8Type_def word_unat_eq_iff)
  qed
  from tm_okD(7) [OF ok(1) in_p(1) this e] in_p(2) e
  have "unat e < length ?impls" "GetLLVM (?impls ! unat e) = GetLLVM (?impls ! unat t)"
    using llvm_ok_ptr(5) [OF ok(2)] by auto
  then have "e = t" using tm_ok_inj [OF ok(1) _ t(1)] by (simp add: word_unat_eq_iff)
  then show ?thesis using e in_p(1) by (simp add: GetPointerElementType_def impl_of_in)
qed

section \<open>Properties\<close>


text \<open>A concrete LLVM: types as terms.\<close>

datatype llty = LBase nat | LVec llty | LPtr llty | LArr llty int | LFun llty "llty list"
  | LStr nat "llty list" | LOpq nat string

definition term_llvm :: "llty llvm" where
  "term_llvm = \<lparr>ll_void = LBase 0, ll_i1 = LBase 1, ll_i8 = LBase 8, ll_i16 = LBase 16,
     ll_i32 = LBase 32, ll_i64 = LBase 64, ll_double = LBase 65, ll_vec8 = LVec, ll_ptr = LPtr,
     ll_array = LArr, ll_func = LFun, ll_struct = LStr, ll_opaque = LOpq,
     ll_offsets = (\<lambda>_. [0]), ll_size = (\<lambda>_. 8)\<rparr>"

lemma term_llvm_ok: "llvm_ok term_llvm"
  by (auto simp: llvm_ok_def term_llvm_def initial_impls_def)


text \<open>asking for the pointer type of a type gives a type whose element type is that
  type, and asking again gives the same id and leaves the manager unchanged. The vector of
  bits is excepted, see the next property.\<close>

lemma pointer_type_roundtrip:
  assumes "tm_ok L tm" "llvm_ok L" "length (type_id_to_impl tm) < 65536"
    and "unat t < length (type_id_to_impl tm)" "t \<noteq> I1Vec8Type"
  shows "\<exists>tm' p. PointerType L tm t = Inr (tm', p) \<and> GetPointerElementType tm' p = Inr t
    \<and> IsPtrType tm' p = Inr True \<and> PointerType L tm' t = Inr (tm', p)"
proof -
  obtain tm' p where p: "PointerType L tm t = Inr (tm', p)" "tm_ok L tm'"
    "impl_to_type_id tm' (ll_ptr L (GetLLVM (type_id_to_impl tm' ! unat t))) = Some p"
    "unat t < length (type_id_to_impl tm')"
    using PointerType_law [OF assms(1-4)] by (metis (no_types, lifting))
  have elem: "GetPointerElementType tm' p = Inr t" using pointer_element [OF p(2) assms(2) p(4) assms(5) p(3)] .
  then obtain mp where "impl_of tm' p = Inr mp" "(case mp of PointerTypeImpl e t l \<Rightarrow> Inr e | _ \<Rightarrow> Inl BadCast) = Inr t"
    by (auto simp: GetPointerElementType_def bindR_Inr_iff)
  then have "IsPtrType tm' p = Inr True" by (cases mp) (auto simp: IsPtrType_def)
  moreover have "PointerType L tm' t = Inr (tm', p)"
    using p(3,4) by (simp add: PointerType_def impl_of_in intern_def)
  ultimately show ?thesis using p(1) elem by blast
qed

text \<open>the pointer type of a vector of eight bits is the id reserved for pointers to
  vectors of eight integers, and its element type is then the vector of integers: the constructor
  registers that id with the LLVM type of the wrong vector.\<close>

lemma i1_vec8_pointer_confused:
  assumes "tm_ok L tm" "llvm_ok L"
  shows "PointerType L tm I1Vec8Type = Inr (tm, I32Vec8PtrType)
    \<and> GetPointerElementType tm I32Vec8PtrType = Inr I32Vec8Type"
proof -
  have i8: "unat I1Vec8Type = 8" and i10: "unat I32Vec8PtrType = 10" by (simp_all add: base_types)
  have "impl_to_type_id tm (GetLLVM (type_id_to_impl tm ! 10)) = Some 10"
    using tm_okD(4) [OF assms(1) tm_ok_initial(1) [OF assms(1)], of 10] by simp
  then show ?thesis
    using tm_ok_initial [OF assms(1), of 8] tm_ok_initial [OF assms(1), of 10]
    by (simp add: PointerType_def GetPointerElementType_def impl_of_in i8 i10 intern_def initial_impls_def
        base_types)
qed

end
