(* ===== verification/KhirProgram.thy ===== *)
theory KhirProgram
  imports KhirInstruction KhirTypes
begin

text \<open>
  The finished program (\<^verbatim>\<open>khir/program.cc\<close>): basic blocks as lists of segments of the
  instruction list with their edges, functions and the program with its pools of constants.
  The control-flow graph of a function and what its analyses share of it.
\<close>

section \<open>Data\<close>

record BasicBlock =
  Segments :: "(int \<times> int) list"
  Successors :: "nat list"
  Predecessors :: "nat list"

record Function =
  fn_external :: bool
  fn_addr :: u64
  fn_name :: string
  fn_type :: Type
  Instrs :: "u64 list"
  BasicBlocks :: "BasicBlock list"

definition FunctionNew :: "string \<Rightarrow> Type \<Rightarrow> u64 list \<Rightarrow> BasicBlock list \<Rightarrow> Function" where
  "FunctionNew name type instructions basic_blocks =
     \<lparr>fn_external = False, fn_addr = 0, fn_name = name, fn_type = type, Instrs = instructions,
      BasicBlocks = basic_blocks\<rparr>"

definition FunctionExternal :: "string \<Rightarrow> Type \<Rightarrow> u64 \<Rightarrow> Function" where
  "FunctionExternal name type addr =
     \<lparr>fn_external = True, fn_addr = addr, fn_name = name, fn_type = type, Instrs = [], BasicBlocks = []\<rparr>"

record 'l Program =
  pr_type_manager :: "'l TypeManager"
  pr_functions :: "Function list"
  pr_constant_instrs :: "u64 list"
  pr_ptr_constants :: "u64 list"
  pr_i64_constants :: "u64 list"
  pr_f64_constants :: "u64 list"
  pr_char_array_constants :: "string list"
  pr_struct_constants :: "(Type \<times> Value list) list"
  pr_array_constants :: "(Type \<times> Value list) list"
  pr_globals :: "(Type \<times> Type \<times> Value) list"
  pr_vec4_constants :: "u32 list list"
  pr_vec8_constants :: "u32 list list"

section \<open>The graph of a function\<close>

text \<open>The edges, and the graphs the analyses are run on: every edge leads to a block.\<close>

definition edge :: "BasicBlock list \<Rightarrow> nat \<Rightarrow> nat \<Rightarrow> bool" where
  "edge bb u v \<longleftrightarrow> u < length bb \<and> v \<in> set (Successors (bb ! u))"

definition graph_ok :: "BasicBlock list \<Rightarrow> bool" where
  "graph_ok bb \<longleftrightarrow> (\<forall>b\<in>set bb. (\<forall>v\<in>set (Successors b). v < length bb) \<and> (\<forall>v\<in>set (Predecessors b). v < length bb))"

text \<open>Both directions of the edges agree.\<close>

definition edges_agree :: "BasicBlock list \<Rightarrow> bool" where
  "edges_agree bb \<longleftrightarrow> (\<forall>u<length bb. \<forall>v<length bb.
     v \<in> set (Successors (bb ! u)) \<longleftrightarrow> u \<in> set (Predecessors (bb ! v)))"

abbreviation reach :: "BasicBlock list \<Rightarrow> nat \<Rightarrow> nat \<Rightarrow> bool" where
  "reach bb \<equiv> (edge bb)\<^sup>*\<^sup>*"

lemma graph_okD:
  "graph_ok bb \<Longrightarrow> u < length bb \<Longrightarrow> v \<in> set (Successors (bb ! u)) \<Longrightarrow> v < length bb"
  "graph_ok bb \<Longrightarrow> u < length bb \<Longrightarrow> v \<in> set (Predecessors (bb ! u)) \<Longrightarrow> v < length bb"
  unfolding graph_ok_def using nth_mem by blast+

lemma edge_in: "graph_ok bb \<Longrightarrow> edge bb u v \<Longrightarrow> u < length bb \<and> v < length bb"
  by (auto simp: edge_def dest: graph_okD(1))

lemma reach_in: "reach bb u v \<Longrightarrow> graph_ok bb \<Longrightarrow> u < length bb \<Longrightarrow> v < length bb"
  by (induction rule: rtranclp_induct) (auto dest: edge_in)

end
