(* ===== verification/KhirDfs.thy ===== *)
theory KhirDfs
  imports KhirProgram
begin

text \<open>
  Depth-first numbering of the blocks of a function (\<^verbatim>\<open>khir/asm/dfs_label.cc\<close>). Block
  positions are natural numbers, labels integers with -1 for a block not reached. The fuel
  bounds the depth of the recursion; one per block is enough, because a call marks its block.
\<close>

record dfs_state =
  preorder :: "int list"
  postorder :: "int list"
  visited :: "bool list"
  dfs_idx :: int

definition dfs_enter :: "nat \<Rightarrow> dfs_state \<Rightarrow> dfs_state res" where
  "dfs_enter cur s =
     bindR (updR (preorder s) cur (dfs_idx s)) (\<lambda>pre.
     bindR (updR (visited s) cur True) (\<lambda>vis.
       Inr (s\<lparr>preorder := pre, dfs_idx := dfs_idx s + 1, visited := vis\<rparr>)))"

definition dfs_leave :: "nat \<Rightarrow> dfs_state \<Rightarrow> dfs_state res" where
  "dfs_leave cur s =
     bindR (updR (postorder s) cur (dfs_idx s)) (\<lambda>post.
       Inr (s\<lparr>postorder := post, dfs_idx := dfs_idx s + 1\<rparr>))"

fun DFS :: "nat \<Rightarrow> BasicBlock list \<Rightarrow> nat \<Rightarrow> dfs_state \<Rightarrow> dfs_state ores" where
  "DFS 0 bb cur s = None"
| "DFS (Suc fuel) bb cur s =
     bindO (Some (dfs_enter cur s)) (\<lambda>s.
     bindO (Some (nthR bb cur)) (\<lambda>block.
     bindO (foldO (\<lambda>s succ.
              bindO (Some (nthR (visited s) succ)) (\<lambda>seen.
                if \<not> seen then DFS fuel bb succ s else Some (Inr s))) s (Successors block)) (\<lambda>s.
       Some (dfs_leave cur s))))"

definition DFSLabel :: "BasicBlock list \<Rightarrow> dfs_state ores" where
  "DFSLabel bb =
     DFS (length bb) bb 0
       \<lparr>preorder = replicate (length bb) (-1), postorder = replicate (length bb) (-1),
        visited = replicate (length bb) False, dfs_idx = 0\<rparr>"

section \<open>What a call does\<close>

definition seen :: "dfs_state \<Rightarrow> nat set" where
  "seen s = {b. b < length (visited s) \<and> visited s ! b}"

definition dfs_len :: "nat \<Rightarrow> dfs_state \<Rightarrow> bool" where
  "dfs_len n s \<longleftrightarrow> length (preorder s) = n \<and> length (postorder s) = n \<and> length (visited s) = n"

text \<open>
  From \<open>s\<close> to \<open>s'\<close> the blocks of \<open>N\<close> were visited: they are new, their labels lie between the
  two counters, one interval per block, nested or disjoint, and inside an interval are only
  blocks reachable from its own; no other label changed; an edge out of the new blocks ends
  in a visited block that was entered before the source was left.
\<close>

definition interval :: "dfs_state \<Rightarrow> nat \<Rightarrow> int set" where
  "interval s b = {preorder s ! b .. postorder s ! b}"

definition laminar :: "dfs_state \<Rightarrow> nat set \<Rightarrow> bool" where
  "laminar s N \<longleftrightarrow> (\<forall>u\<in>N. \<forall>v\<in>N. u \<noteq> v \<longrightarrow>
     interval s u \<inter> interval s v = {}
   \<or> preorder s ! u < preorder s ! v \<and> postorder s ! v < postorder s ! u
   \<or> preorder s ! v < preorder s ! u \<and> postorder s ! u < postorder s ! v)"

definition labelled :: "BasicBlock list \<Rightarrow> dfs_state \<Rightarrow> dfs_state \<Rightarrow> nat set \<Rightarrow> bool" where
  "labelled bb s s' N \<longleftrightarrow>
       dfs_len (length bb) s' \<and> seen s' = seen s \<union> N \<and> N \<inter> seen s = {} \<and> finite N
     \<and> dfs_idx s' = dfs_idx s + 2 * int (card N)
     \<and> (\<forall>b. b \<notin> N \<longrightarrow> preorder s' ! b = preorder s ! b \<and> postorder s' ! b = postorder s ! b)
     \<and> (\<forall>b\<in>N. dfs_idx s \<le> preorder s' ! b \<and> preorder s' ! b < postorder s' ! b \<and> postorder s' ! b < dfs_idx s')
     \<and> laminar s' N
     \<and> (\<forall>u\<in>N. \<forall>v\<in>N. preorder s' ! v \<in> interval s' u \<longrightarrow> reach bb u v)
     \<and> (\<forall>u\<in>N. \<forall>v. edge bb u v \<longrightarrow> v \<in> seen s' \<and> (v \<in> N \<longrightarrow> preorder s' ! v < postorder s' ! u))"

lemma labelledD:
  assumes "labelled bb s s' N"
  shows "dfs_len (length bb) s'" "seen s' = seen s \<union> N" "N \<inter> seen s = {}" "finite N"
    "dfs_idx s' = dfs_idx s + 2 * int (card N)"
    "\<forall>b. b \<notin> N \<longrightarrow> preorder s' ! b = preorder s ! b \<and> postorder s' ! b = postorder s ! b"
    "\<forall>b\<in>N. dfs_idx s \<le> preorder s' ! b \<and> preorder s' ! b < postorder s' ! b \<and> postorder s' ! b < dfs_idx s'"
    "laminar s' N" "\<forall>u\<in>N. \<forall>v\<in>N. preorder s' ! v \<in> interval s' u \<longrightarrow> reach bb u v"
    "\<forall>u\<in>N. \<forall>v. edge bb u v \<longrightarrow> v \<in> seen s' \<and> (v \<in> N \<longrightarrow> preorder s' ! v < postorder s' ! u)"
  using assms unfolding labelled_def by blast+

lemma labelled_refl: "dfs_len (length bb) s \<Longrightarrow> labelled bb s s {}"
  by (simp add: labelled_def laminar_def)

lemma labelled_trans:
  assumes 1: "labelled bb s s1 M" and 2: "labelled bb s1 s2 N"
  shows "labelled bb s s2 (M \<union> N)"
proof -
  note a = labelledD [OF 1] and b = labelledD [OF 2]
  have disj: "M \<inter> N = {}" using a(2) b(3) by auto
  have old: "preorder s2 ! u = preorder s1 ! u" "postorder s2 ! u = postorder s1 ! u" if "u \<in> M" for u
    using that disj b(6) by auto
  have M: "dfs_idx s \<le> preorder s2 ! u \<and> preorder s2 ! u < postorder s2 ! u \<and> postorder s2 ! u < dfs_idx s1" if "u \<in> M" for u
    using that a(7) old by simp
  have N: "dfs_idx s1 \<le> preorder s2 ! u \<and> preorder s2 ! u < postorder s2 ! u \<and> postorder s2 ! u < dfs_idx s2" if "u \<in> N" for u
    using that b(7) by simp
  have le: "dfs_idx s \<le> dfs_idx s1" "dfs_idx s1 \<le> dfs_idx s2" using a(5) b(5) by simp_all
  have int: "interval s2 u = interval s1 u" if "u \<in> M" for u using old that by (simp add: interval_def)
  have apart: "interval s2 u \<inter> interval s2 v = {}" if "u \<in> M" "v \<in> N" for u v
    using M [OF that(1)] N [OF that(2)] by (auto simp: interval_def)
  have "laminar s2 (M \<union> N)"
    unfolding laminar_def
  proof (intro ballI impI)
    fix u v assume uv: "u \<in> M \<union> N" "v \<in> M \<union> N" "u \<noteq> v"
    consider "u \<in> M" "v \<in> M" | "u \<in> N" "v \<in> N" | "u \<in> M" "v \<in> N" | "u \<in> N" "v \<in> M" using uv by blast
    then show "interval s2 u \<inter> interval s2 v = {}
      \<or> preorder s2 ! u < preorder s2 ! v \<and> postorder s2 ! v < postorder s2 ! u
      \<or> preorder s2 ! v < preorder s2 ! u \<and> postorder s2 ! u < postorder s2 ! v"
    proof cases
      case 1
      then show ?thesis using a(8) uv(3) by (simp add: laminar_def int old)
    next
      case 2
      then show ?thesis using b(8) uv(3) by (simp add: laminar_def)
    next
      case 3
      then show ?thesis using apart by blast
    next
      case 4
      then show ?thesis using apart [of v u] by blast
    qed
  qed
  moreover have "reach bb u v" if "u \<in> M \<union> N" "v \<in> M \<union> N" "preorder s2 ! v \<in> interval s2 u" for u v
  proof -
    have "u \<in> M \<and> v \<in> M \<or> u \<in> N \<and> v \<in> N"
      using that(1,2) M [of u] M [of v] N [of u] N [of v] that(3) by (auto simp: interval_def)
    then show ?thesis
    proof
      assume uv: "u \<in> M \<and> v \<in> M"
      then have "preorder s1 ! v \<in> interval s1 u" using that(3) int [of u] old(1) [of v] by simp
      with uv a(9) show ?thesis by blast
    next
      assume "u \<in> N \<and> v \<in> N"
      with b(9) that(3) show ?thesis by blast
    qed
  qed
  moreover have "v \<in> seen s2 \<and> (v \<in> M \<union> N \<longrightarrow> preorder s2 ! v < postorder s2 ! u)"
    if "u \<in> M \<union> N" "edge bb u v" for u v
  proof (cases "u \<in> N")
    case True
    then have "v \<in> seen s2" "v \<in> N \<longrightarrow> preorder s2 ! v < postorder s2 ! u" using b(10) that(2) by auto
    moreover have "v \<in> M \<longrightarrow> preorder s2 ! v < postorder s2 ! u" using M [of v] N [OF True] by linarith
    ultimately show ?thesis by blast
  next
    case False
    then have u: "u \<in> M" using that(1) by simp
    then have "v \<in> seen s1" "v \<in> M \<longrightarrow> preorder s1 ! v < postorder s1 ! u" using a(10) that(2) by auto
    then show ?thesis using b(2,3) old u by auto
  qed
  moreover have "dfs_idx s2 = dfs_idx s + 2 * int (card (M \<union> N))"
    using a(4,5) b(4,5) disj by (simp add: card_Un_disjoint)
  moreover have "\<forall>b. b \<notin> M \<union> N \<longrightarrow> preorder s2 ! b = preorder s ! b \<and> postorder s2 ! b = postorder s ! b"
    using a(6) b(6) by simp
  moreover have "\<forall>b\<in>M \<union> N. dfs_idx s \<le> preorder s2 ! b \<and> preorder s2 ! b < postorder s2 ! b \<and> postorder s2 ! b < dfs_idx s2"
    using M N le by force
  ultimately show ?thesis
    using a(2-4) b(1-4) unfolding labelled_def by blast
qed

lemma labelled_wrap:
  assumes l: "labelled bb s0 s1 N" and c: "c < length bb" "c \<notin> seen s" and len: "dfs_len (length bb) s"
    and enter: "dfs_enter c s = Inr s0" and leave: "dfs_leave c s1 = Inr s'"
    and desc: "\<forall>v\<in>N. reach bb c v" and succ: "\<forall>v. edge bb c v \<longrightarrow> v \<in> seen s1"
  shows "labelled bb s s' (insert c N)" "preorder s' ! c = dfs_idx s" "postorder s' ! c = dfs_idx s' - 1"
proof -
  have s0: "preorder s0 = (preorder s)[c := dfs_idx s]" "postorder s0 = postorder s"
    "visited s0 = (visited s)[c := True]" "dfs_idx s0 = dfs_idx s + 1"
    using enter by (auto simp: dfs_enter_def bindR_Inr_iff updR_Inr_iff)
  have s': "preorder s' = preorder s1" "postorder s' = (postorder s1)[c := dfs_idx s1]"
    "visited s' = visited s1" "dfs_idx s' = dfs_idx s1 + 1"
    using leave by (auto simp: dfs_leave_def bindR_Inr_iff updR_Inr_iff)
  note a = labelledD [OF l]
  have seen0: "seen s0 = insert c (seen s)" using c len by (auto simp: seen_def s0 dfs_len_def nth_list_update)
  have seen': "seen s' = seen s1" by (simp add: seen_def s')
  have cN: "c \<notin> N" using a(3) seen0 by auto
  have lens: "length (postorder s1) = length bb" "length (preorder s) = length bb" using a(1) len by (simp_all add: dfs_len_def)
  have pc: "preorder s' ! c = dfs_idx s" "postorder s' ! c = dfs_idx s1"
    using a(6) cN c(1) lens by (simp_all add: s' s0)
  have pN: "preorder s' ! u = preorder s1 ! u" "postorder s' ! u = postorder s1 ! u" if "u \<in> N" for u
    using that cN by (metis s'(1), metis s'(2) nth_list_update_neq)
  have iN: "interval s' u = interval s1 u" if "u \<in> N" for u using pN that by (simp add: interval_def)
  have bounds: "dfs_idx s < preorder s' ! u" "preorder s' ! u < postorder s' ! u" "postorder s' ! u < dfs_idx s1" if "u \<in> N" for u
    using a(7) that pN s0(4) by force+
  have "laminar s' (insert c N)"
    using a(8) bounds pc iN pN unfolding laminar_def by auto
  moreover have "reach bb u v" if "u \<in> insert c N" "v \<in> insert c N" "preorder s' ! v \<in> interval s' u" for u v
  proof (cases "u = c")
    case True
    then show ?thesis using that(2) desc by auto
  next
    case False
    then have u: "u \<in> N" using that(1) by simp
    have "v \<noteq> c" using that(3) bounds [OF u] pc by (auto simp: interval_def)
    then show ?thesis using a(9) u that(2,3) iN pN by auto
  qed
  moreover have "v \<in> seen s' \<and> (v \<in> insert c N \<longrightarrow> preorder s' ! v < postorder s' ! u)"
    if "u \<in> insert c N" "edge bb u v" for u v
  proof (cases "u = c")
    case True
    then show ?thesis using that(2) succ bounds [of v] pc a(5) s0(4) by (auto simp: seen')
  next
    case False
    then have u: "u \<in> N" using that(1) by simp
    then show ?thesis using a(10) that(2) pN pc bounds [OF u] by (auto simp: seen')
  qed
  moreover have "\<forall>b. b \<notin> insert c N \<longrightarrow> preorder s' ! b = preorder s ! b \<and> postorder s' ! b = postorder s ! b"
    using a(6) by (simp add: s' s0)
  moreover have "dfs_idx s' = dfs_idx s + 2 * int (card (insert c N))"
    using a(4,5) cN by (simp add: s' s0)
  moreover have "\<forall>b\<in>insert c N. dfs_idx s \<le> preorder s' ! b \<and> preorder s' ! b < postorder s' ! b \<and> postorder s' ! b < dfs_idx s'"
    using bounds pc a(5) by (force simp: s' s0)
  moreover have "dfs_len (length bb) s'" using a(1) by (simp add: dfs_len_def s')
  ultimately show "labelled bb s s' (insert c N)"
    using a(2-4) c(2) unfolding labelled_def by (auto simp: seen' seen0)
  show "preorder s' ! c = dfs_idx s" "postorder s' ! c = dfs_idx s' - 1" using pc by (simp_all add: s')
qed

lemma seen_mono_card:
  assumes "labelled bb s s' N" "seen s \<subseteq> {..<length bb}"
  shows "card ({..<length bb} - seen s') \<le> card ({..<length bb} - seen s)"
  using labelledD(2) [OF assms(1)] by (intro card_mono) auto

lemma seen_in: "dfs_len n s \<Longrightarrow> seen s \<subseteq> {..<n}"
  by (auto simp: seen_def dfs_len_def)

lemma DFS_law:
  assumes "graph_ok bb" "dfs_len (length bb) s" "c < length bb" "c \<notin> seen s"
    "card ({..<length bb} - seen s) \<le> fuel"
  shows "\<exists>s' N. DFS fuel bb c s = Some (Inr s') \<and> labelled bb s s' N \<and> c \<in> N \<and> (\<forall>v\<in>N. reach bb c v)
    \<and> preorder s' ! c = dfs_idx s \<and> postorder s' ! c = dfs_idx s' - 1"
  using assms
proof (induction fuel arbitrary: c s)
  case 0
  then have "{..<length bb} - seen s = {}" by simp
  then show ?case using "0.prems"(3,4) by auto
next
  case (Suc fuel)
  note len = Suc.prems(2) and c = Suc.prems(3,4)
  have lens: "c < length (preorder s)" "c < length (visited s)" using len c by (simp_all add: dfs_len_def)
  obtain s0 where enter: "dfs_enter c s = Inr s0" using lens by (simp add: dfs_enter_def)
  then have s0: "dfs_len (length bb) s0" "seen s0 = insert c (seen s)"
    using len c by (auto simp: dfs_enter_def bindR_Inr_iff updR_Inr_iff dfs_len_def seen_def nth_list_update)
  have "{..<length bb} - seen s0 = ({..<length bb} - seen s) - {c}" using s0(2) by auto
  then have fuel: "card ({..<length bb} - seen s0) \<le> fuel" using Suc.prems(3-5) by simp
  let ?f = "\<lambda>s succ. bindO (Some (nthR (visited s) succ)) (\<lambda>seen. if \<not> seen then DFS fuel bb succ s else Some (Inr s))"
  let ?P = "\<lambda>t done. \<exists>N. labelled bb s0 t N \<and> (\<forall>v\<in>N. reach bb c v) \<and> set done \<subseteq> seen t"
  have "\<exists>t. foldO ?f s0 (Successors (bb ! c)) = Some (Inr t) \<and> ?P t (Successors (bb ! c))"
  proof (rule foldO_total)
    show "?P s0 []" using labelled_refl [OF s0(1)] by auto
  next
    fix t x "done" assume x: "x \<in> set (Successors (bb ! c))" and "?P t done"
    then obtain N where N: "labelled bb s0 t N" "\<forall>v\<in>N. reach bb c v" "set done \<subseteq> seen t" by blast
    note t = labelledD(1) [OF N(1)]
    have xin: "x < length bb" by (rule graph_okD(1) [OF Suc.prems(1) c(1) x])
    then have xv: "x < length (visited t)" using t by (simp add: dfs_len_def)
    have e: "edge bb c x" using x c(1) by (simp add: edge_def)
    show "\<exists>t'. ?f t x = Some (Inr t') \<and> ?P t' (done @ [x])"
    proof (cases "visited t ! x")
      case True
      then show ?thesis using N xv by (auto simp: seen_def)
    next
      case False
      then have "x \<notin> seen t" by (simp add: seen_def)
      moreover have "card ({..<length bb} - seen t) \<le> fuel"
        using seen_mono_card [OF N(1) seen_in [OF s0(1)]] fuel by simp
      ultimately obtain t' M where r: "DFS fuel bb x t = Some (Inr t')" "labelled bb t t' M" "x \<in> M" "\<forall>v\<in>M. reach bb x v"
        using Suc.IH [OF Suc.prems(1) t xin] by blast
      have "\<forall>v\<in>N \<union> M. reach bb c v" using N(2) r(4) e by (auto intro: converse_rtranclp_into_rtranclp)
      moreover have "set (done @ [x]) \<subseteq> seen t'" using N(3) labelledD(2) [OF r(2)] r(3) by auto
      ultimately show ?thesis using False xv r(1) labelled_trans [OF N(1) r(2)] by auto
    qed
  qed
  then obtain s1 N where f: "foldO ?f s0 (Successors (bb ! c)) = Some (Inr s1)"
    and N: "labelled bb s0 s1 N" "\<forall>v\<in>N. reach bb c v" "set (Successors (bb ! c)) \<subseteq> seen s1" by blast
  have "c < length (postorder s1)" using labelledD(1) [OF N(1)] c(1) by (simp add: dfs_len_def)
  then obtain s' where leave: "dfs_leave c s1 = Inr s'" by (simp add: dfs_leave_def)
  have "\<forall>v. edge bb c v \<longrightarrow> v \<in> seen s1" using N(3) by (auto simp: edge_def)
  note w = labelled_wrap [OF N(1) c len enter leave N(2) this]
  have "DFS (Suc fuel) bb c s = Some (Inr s')" using enter c(1) f leave by simp
  moreover have "\<forall>v\<in>insert c N. reach bb c v" using N(2) by simp
  ultimately show ?case using w by blast
qed

text \<open>
  Property C24: numbering the blocks of a function whose edges lead to blocks ends without an
  error. A block is visited if and only if it is reachable from the entry; the others keep the
  labels -1. The intervals of the reachable blocks are within the number of labels given out
  and nested or disjoint; a block entered within the interval of another is reachable from
  it, and no edge leads to a block entered after its source was left.
\<close>

theorem dfs_labels:
  assumes "graph_ok bb" "bb \<noteq> []"
  shows "\<exists>s. DFSLabel bb = Some (Inr s) \<and> (\<forall>b<length bb. reach bb 0 b \<longleftrightarrow> visited s ! b)
    \<and> (\<forall>b<length bb. \<not> reach bb 0 b \<longrightarrow> preorder s ! b = -1 \<and> postorder s ! b = -1)
    \<and> (\<forall>b<length bb. reach bb 0 b \<longrightarrow> 0 \<le> preorder s ! b \<and> preorder s ! b < postorder s ! b
         \<and> postorder s ! b < 2 * int (card {b. reach bb 0 b}))
    \<and> laminar s {b. reach bb 0 b}
    \<and> (\<forall>u v. reach bb 0 u \<longrightarrow> reach bb 0 v \<longrightarrow> preorder s ! v \<in> interval s u \<longrightarrow> reach bb u v)
    \<and> (\<forall>u v. reach bb 0 u \<longrightarrow> edge bb u v \<longrightarrow> preorder s ! v < postorder s ! u)"
proof -
  define s0 where "s0 = \<lparr>preorder = replicate (length bb) (-1), postorder = replicate (length bb) (-1),
        visited = replicate (length bb) False, dfs_idx = 0\<rparr>"
  have len: "dfs_len (length bb) s0" and none: "seen s0 = {}" by (auto simp: s0_def dfs_len_def seen_def)
  have "DFSLabel bb = DFS (length bb) bb 0 s0" by (simp add: DFSLabel_def s0_def)
  moreover have "0 < length bb" "0 \<notin> seen s0" "card ({..<length bb} - seen s0) \<le> length bb"
    using assms(2) none by simp_all
  ultimately obtain s N where
    s: "DFSLabel bb = Some (Inr s)" "labelled bb s0 s N" "0 \<in> N" "\<forall>v\<in>N. reach bb 0 v"
    using DFS_law [OF assms(1) len] by metis
  note l = labelledD [OF s(2)]
  have seenN: "seen s = N" using l(2) none by simp
  have step: "v \<in> N" if "u \<in> N" "edge bb u v" for u v using l(10) that seenN by blast
  have "b \<in> N" if "reach bb 0 b" for b using that
    by (induction rule: rtranclp_induct) (blast intro: s(3) step)+
  with s(4) have N: "N = {b. reach bb 0 b}" by blast
  have vis: "reach bb 0 b \<longleftrightarrow> visited s ! b" if "b < length bb" for b
  proof -
    have "b \<in> seen s \<longleftrightarrow> visited s ! b" using l(1) that by (simp add: seen_def dfs_len_def)
    then show ?thesis using seenN N by simp
  qed
  have out: "preorder s ! b = -1 \<and> postorder s ! b = -1" if "b < length bb" "\<not> reach bb 0 b" for b
    using l(6) that N by (simp add: s0_def)
  have lab: "0 \<le> preorder s ! b \<and> preorder s ! b < postorder s ! b
      \<and> postorder s ! b < 2 * int (card {b. reach bb 0 b})" if "reach bb 0 b" for b
  proof -
    have "b \<in> N" using that N by simp
    then have "dfs_idx s0 \<le> preorder s ! b \<and> preorder s ! b < postorder s ! b \<and> postorder s ! b < dfs_idx s"
      using l(7) by blast
    then show ?thesis using l(5) unfolding N by (simp add: s0_def)
  qed
  have e: "preorder s ! v < postorder s ! u" if "reach bb 0 u" "edge bb u v" for u v
  proof -
    have "u \<in> N" using that(1) N by simp
    then show ?thesis using step [OF _ that(2)] l(10) that(2) by blast
  qed
  have r: "reach bb u v" if "reach bb 0 u" "reach bb 0 v" "preorder s ! v \<in> interval s u" for u v
    using l(9) that unfolding N by blast
  have lam: "laminar s {b. reach bb 0 b}" using l(8) unfolding N .
  have "DFSLabel bb = Some (Inr s) \<and> (\<forall>b<length bb. reach bb 0 b \<longleftrightarrow> visited s ! b)" using s(1) vis by blast
  moreover have "\<forall>b<length bb. \<not> reach bb 0 b \<longrightarrow> preorder s ! b = -1 \<and> postorder s ! b = -1" using out by blast
  moreover note lam
  moreover have "\<forall>u v. reach bb 0 u \<longrightarrow> reach bb 0 v \<longrightarrow> preorder s ! v \<in> interval s u \<longrightarrow> reach bb u v"
    using r by blast
  moreover have "\<forall>u v. reach bb 0 u \<longrightarrow> edge bb u v \<longrightarrow> preorder s ! v < postorder s ! u" using e by blast
  moreover have "\<forall>b<length bb. reach bb 0 b \<longrightarrow> 0 \<le> preorder s ! b \<and> preorder s ! b < postorder s ! b
      \<and> postorder s ! b < 2 * int (card {b. reach bb 0 b})" using lab by blast
  ultimately show ?thesis by blast
qed

text \<open>The graph of the unit test: a chain with a loop back to its second block.\<close>

definition sample_graph :: "BasicBlock list" where
  "sample_graph = [\<lparr>Segments = [], Successors = [1], Predecessors = []\<rparr>,
     \<lparr>Segments = [], Successors = [2, 4], Predecessors = [0, 3]\<rparr>,
     \<lparr>Segments = [], Successors = [3], Predecessors = [1]\<rparr>,
     \<lparr>Segments = [], Successors = [1], Predecessors = [2]\<rparr>,
     \<lparr>Segments = [], Successors = [], Predecessors = [1]\<rparr>]"

lemma sample_graph_ok: "graph_ok sample_graph" "sample_graph \<noteq> []"
  by (simp_all add: graph_ok_def sample_graph_def)

theorem dfs_labels_witness:
  "graph_ok sample_graph \<and> sample_graph \<noteq> []
   \<and> (\<exists>s. DFSLabel sample_graph = Some (Inr s) \<and> laminar s {b. reach sample_graph 0 b}
        \<and> postorder s = [9, 8, 5, 4, 7])"
proof -
  obtain s where s: "DFSLabel sample_graph = Some (Inr s)" "laminar s {b. reach sample_graph 0 b}"
    using dfs_labels [OF sample_graph_ok] by blast
  have "DFSLabel sample_graph = Some (Inr \<lparr>preorder = [0, 1, 2, 3, 6], postorder = [9, 8, 5, 4, 7],
      visited = replicate 5 True, dfs_idx = 10\<rparr>)"
    by code_simp
  with s sample_graph_ok show ?thesis by auto
qed

end
