(* ===== verification/KhirBuilder.thy ===== *)
theory KhirBuilder
  imports KhirInstruction KhirTypes
begin

text \<open>
  The program builder (\<^verbatim>\<open>khir/program_builder.cc\<close>): functions as lists of 64-bit
  instructions cut into basic blocks, the pool of constants, and one operation per
  instruction the translators emit. Every operation takes the builder and returns it updated
  together with the value it made. \<^verbatim>\<open>double\<close> constants are their 64-bit patterns; comparison is
  that of IEEE 754, the arithmetic of the target is a record of functions.
\<close>

section \<open>Doubles\<close>

record f64_ops =
  f64_add :: "u64 \<Rightarrow> u64 \<Rightarrow> u64"
  f64_sub :: "u64 \<Rightarrow> u64 \<Rightarrow> u64"
  f64_mul :: "u64 \<Rightarrow> u64 \<Rightarrow> u64"
  f64_div :: "u64 \<Rightarrow> u64 \<Rightarrow> u64"
  f64_of_int :: "int \<Rightarrow> u64"
  f64_to_i64 :: "u64 \<Rightarrow> u64 option"

definition f64_nan :: "u64 \<Rightarrow> bool" where
  "f64_nan b \<longleftrightarrow> take_bit 63 b > 0x7FF0000000000000"

definition f64_key :: "u64 \<Rightarrow> int" where
  "f64_key b = (if bit b 63 then - uint (take_bit 63 b) else uint (take_bit 63 b))"

definition f64_eq :: "u64 \<Rightarrow> u64 \<Rightarrow> bool" where
  "f64_eq a b \<longleftrightarrow> \<not> f64_nan a \<and> \<not> f64_nan b \<and> f64_key a = f64_key b"

definition f64_lt :: "u64 \<Rightarrow> u64 \<Rightarrow> bool" where
  "f64_lt a b \<longleftrightarrow> \<not> f64_nan a \<and> \<not> f64_nan b \<and> f64_key a < f64_key b"

section \<open>Functions\<close>

type_synonym FunctionRef = nat
type_synonym BasicBlockRef = "nat \<times> nat"

datatype CompType = EQ | NE | LT | LE | GT | GE

record FunctionBuilder =
  fb_name :: string
  fb_return_type :: Type
  fb_arg_types :: "Type list"
  fb_arg_values :: "Value list"
  fb_function_type :: Type
  fb_func :: u64
  basic_blocks :: "(int \<times> int) list"
  basic_block_successors :: "nat list list"
  basic_block_predecessors :: "nat list list"
  basic_block_order :: "nat list"
  instructions :: "u64 list"
  current_basic_block :: nat
  fb_external :: bool

definition FunctionBuilderNew ::
    "string \<Rightarrow> Type \<Rightarrow> Type \<Rightarrow> Type list \<Rightarrow> bool \<Rightarrow> u64 \<Rightarrow> FunctionBuilder" where
  "FunctionBuilderNew name function_type result_type arg_types external func =
     \<lparr>fb_name = name, fb_return_type = result_type, fb_arg_types = arg_types, fb_arg_values = [],
      fb_function_type = function_type, fb_func = func, basic_blocks = [],
      basic_block_successors = [], basic_block_predecessors = [], basic_block_order = [],
      instructions = [], current_basic_block = 0, fb_external = external\<rparr>"

definition IsTerminatingInstr :: "Opcode \<Rightarrow> bool" where
  "IsTerminatingInstr opcode \<longleftrightarrow> opcode \<in> set [BR, CONDBR, RETURN, RETURN_VALUE]"

text \<open>\<^verbatim>\<open>v[i].push_back(x)\<close> on a vector of vectors.\<close>

definition pushAt :: "nat list list \<Rightarrow> nat \<Rightarrow> nat \<Rightarrow> nat list list res" where
  "pushAt vs i x = bindR (nthR vs i) (\<lambda>v. updR vs i (v @ [x]))"

definition UpdateSuccessors ::
    "nat list list \<Rightarrow> nat list list \<Rightarrow> nat \<Rightarrow> u64 \<Rightarrow> (nat list list \<times> nat list list) res" where
  "UpdateSuccessors pred succ curr_block instr =
     (let opcode = OpcodeFrom (GenericOpcode instr);
          m0 = unat (T5Marg0 instr); m1 = unat (T5Marg1 instr)
      in if opcode = BR then
           bindR (pushAt succ curr_block m0) (\<lambda>succ.
           bindR (pushAt pred m0 curr_block) (\<lambda>pred. Inr (pred, succ)))
         else if opcode = CONDBR then
           bindR (pushAt succ curr_block m0) (\<lambda>succ.
           bindR (pushAt pred m0 curr_block) (\<lambda>pred.
           bindR (pushAt succ curr_block m1) (\<lambda>succ.
           bindR (pushAt pred m1 curr_block) (\<lambda>pred. Inr (pred, succ)))))
         else Inr (pred, succ))"

definition Append :: "FunctionBuilder \<Rightarrow> u64 \<Rightarrow> (FunctionBuilder \<times> Value) res" where
  "Append f instr =
     (if fb_external f then Inl (RuntimeError ''Cannot get add body to external function'')
      else
        let idx = length (instructions f);
            f = f\<lparr>instructions := instructions f @ [instr]\<rparr>;
            cur = current_basic_block f
        in bindR (nthR (basic_blocks f) cur) (\<lambda>(first, second).
             if second \<ge> 0 then Inl (RuntimeError ''Cannot append to terminated basic block.'')
             else
               let first = (if first < 0 then int idx else first) in
               bindR
                 (if IsTerminatingInstr (OpcodeFrom (GenericOpcode instr)) then
                    bindR (UpdateSuccessors (basic_block_predecessors f) (basic_block_successors f)
                             cur instr) (\<lambda>(pred, succ).
                      Inr (f\<lparr>basic_blocks := (basic_blocks f)[cur := (first, int idx)],
                             basic_block_predecessors := pred, basic_block_successors := succ,
                             basic_block_order := basic_block_order f @ [cur]\<rparr>))
                  else Inr (f\<lparr>basic_blocks := (basic_blocks f)[cur := (first, second)]\<rparr>))
                 (\<lambda>f. bindR (MakeValue (of_nat idx) False) (\<lambda>v. Inr (f, v)))))"

definition Update :: "FunctionBuilder \<Rightarrow> Value \<Rightarrow> u64 \<Rightarrow> FunctionBuilder res" where
  "Update f pos instr =
     (if fb_external f then Inl (RuntimeError ''Cannot mutate body of external function'')
      else bindR (updR (instructions f) (unat (GetIdx pos)) instr) (\<lambda>is. Inr (f\<lparr>instructions := is\<rparr>)))"

definition GenerateBasicBlock :: "FunctionBuilder \<Rightarrow> (FunctionBuilder \<times> nat) res" where
  "GenerateBasicBlock f =
     (if fb_external f then Inl (RuntimeError ''Cannot update body of external function'')
      else Inr (f\<lparr>basic_blocks := basic_blocks f @ [(-1, -1)],
                  basic_block_successors := basic_block_successors f @ [[]],
                  basic_block_predecessors := basic_block_predecessors f @ [[]]\<rparr>,
                length (basic_blocks f)))"

definition SetCurrentBasicBlock :: "FunctionBuilder \<Rightarrow> nat \<Rightarrow> FunctionBuilder res" where
  "SetCurrentBasicBlock f basic_block_id =
     (if fb_external f then Inl (RuntimeError ''Cannot update body of external function'')
      else Inr (f\<lparr>current_basic_block := basic_block_id\<rparr>))"

definition GetCurrentBasicBlock :: "FunctionBuilder \<Rightarrow> nat res" where
  "GetCurrentBasicBlock f =
     (if fb_external f then Inl (RuntimeError ''Cannot get body of external function'')
      else Inr (current_basic_block f))"

text \<open>The block asked about is not used: the current block of the function is looked at.\<close>

definition FunctionIsTerminated :: "FunctionBuilder \<Rightarrow> nat \<Rightarrow> bool res" where
  "FunctionIsTerminated f basic_block_id =
     (if fb_external f then Inl (RuntimeError ''Cannot get body of external function'')
      else bindR (nthR (basic_blocks f) (current_basic_block f)) (\<lambda>b. Inr (snd b \<ge> 0)))"

definition FunctionGetArguments :: "FunctionBuilder \<Rightarrow> Value list res" where
  "FunctionGetArguments f =
     (if fb_external f
      then Inl (RuntimeError ''Cannot get argument registers of external function'')
      else Inr (fb_arg_values f))"

definition InitBody :: "FunctionBuilder \<Rightarrow> FunctionBuilder res" where
  "InitBody f =
     bindR (GenerateBasicBlock f) (\<lambda>(f, b).
       foldR (\<lambda>f i.
           bindR (Append f (T3SetTypeID (T3SetSarg (T3SetOpcode 0 (OpcodeTo FUNC_ARG)) (of_nat i))
                              (fb_arg_types f ! i))) (\<lambda>(f, v).
             Inr (f\<lparr>fb_arg_values := fb_arg_values f @ [v]\<rparr>)))
         (f\<lparr>current_basic_block := b\<rparr>) [0..<length (fb_arg_types f)])"

section \<open>The program builder\<close>

record 'l ProgramBuilder =
  type_manager :: "'l TypeManager"
  pb_functions :: "FunctionBuilder list"
  current_function :: nat
  name_to_function :: "string \<rightharpoonup> FunctionRef"
  constant_instrs :: "u64 list"
  ptr_constants :: "u64 list"
  i64_constants :: "u64 list"
  f64_constants :: "u64 list"
  char_array_constants :: "string list"
  struct_constants :: "(Type \<times> Value list) list"
  array_constants :: "(Type \<times> Value list) list"
  vec4_constants :: "u32 list list"
  vec8_constants :: "u32 list list"
  globals :: "(Type \<times> Type \<times> Value) list"
  i1_const_to_value :: "bool \<rightharpoonup> Value"
  i8_const_to_value :: "u8 \<rightharpoonup> Value"
  i16_const_to_value :: "u16 \<rightharpoonup> Value"
  i32_const_to_value :: "u32 \<rightharpoonup> Value"
  i64_const_to_value :: "u64 \<rightharpoonup> Value"
  f64_const_to_value :: "(u64 \<times> Value) list"
  ptr_const_to_value :: "u64 \<rightharpoonup> Value"
  string_const_to_value :: "string \<rightharpoonup> Value"

text \<open>A new builder; \<^verbatim>\<open>current_function_\<close> is not initialised and holds whatever it holds.\<close>

definition ProgramBuilderNew :: "'l llvm \<Rightarrow> nat \<Rightarrow> 'l ProgramBuilder res" where
  "ProgramBuilderNew L indeterminate =
     bindR (TypeManagerNew L) (\<lambda>tm.
       Inr \<lparr>type_manager = tm, pb_functions = [], current_function = indeterminate,
            name_to_function = Map.empty, constant_instrs = [], ptr_constants = [], i64_constants = [],
            f64_constants = [], char_array_constants = [], struct_constants = [], array_constants = [],
            vec4_constants = [], vec8_constants = [], globals = [],
            i1_const_to_value = Map.empty, i8_const_to_value = Map.empty, i16_const_to_value = Map.empty,
            i32_const_to_value = Map.empty, i64_const_to_value = Map.empty, f64_const_to_value = [],
            ptr_const_to_value = Map.empty, string_const_to_value = Map.empty\<rparr>)"

definition AppendConstantGlobal ::
    "'l ProgramBuilder \<Rightarrow> u64 \<Rightarrow> ('l ProgramBuilder \<times> Value) res" where
  "AppendConstantGlobal st instr =
     (let idx = length (constant_instrs st) in
      bindR (MakeValue (of_nat idx) True) (\<lambda>v.
        Inr (st\<lparr>constant_instrs := constant_instrs st @ [instr]\<rparr>, v)))"

definition GetConstantGlobalInstr :: "'l ProgramBuilder \<Rightarrow> Value \<Rightarrow> u64 res" where
  "GetConstantGlobalInstr st v =
     (if \<not> IsConstantGlobal v
      then Inl (RuntimeError ''Can't get constant/global from a non constant/global value.'')
      else nthR (constant_instrs st) (unat (GetIdx v)))"

definition GetCurrentFunction :: "'l ProgramBuilder \<Rightarrow> FunctionBuilder res" where
  "GetCurrentFunction st = nthR (pb_functions st) (current_function st)"

text \<open>\<^verbatim>\<open>GetCurrentFunction().Append(instr)\<close>.\<close>

definition AppendInstr :: "'l ProgramBuilder \<Rightarrow> u64 \<Rightarrow> ('l ProgramBuilder \<times> Value) res" where
  "AppendInstr st instr =
     bindR (GetCurrentFunction st) (\<lambda>f.
     bindR (Append f instr) (\<lambda>(f, v).
       Inr (st\<lparr>pb_functions := (pb_functions st)[current_function st := f]\<rparr>, v)))"

definition GetInstruction :: "'l ProgramBuilder \<Rightarrow> FunctionBuilder \<Rightarrow> Value \<Rightarrow> u64 res" where
  "GetInstruction st f v =
     (if fb_external f then Inl (RuntimeError ''Cannot get body of external function'')
      else if IsConstantGlobal v then GetConstantGlobalInstr st v
      else nthR (instructions f) (unat (GetIdx v)))"

subsection \<open>Types\<close>

text \<open>The type operations pass the call on to the type manager.\<close>

definition BuilderOpaqueType :: "'l llvm \<Rightarrow> 'l ProgramBuilder \<Rightarrow> string \<Rightarrow> ('l ProgramBuilder \<times> Type) res" where
  "BuilderOpaqueType L st name =
     bindR (OpaqueType L (type_manager st) name) (\<lambda>(tm, t). Inr (st\<lparr>type_manager := tm\<rparr>, t))"

definition BuilderStructType ::
    "'l llvm \<Rightarrow> 'l ProgramBuilder \<Rightarrow> Type list \<Rightarrow> string \<Rightarrow> ('l ProgramBuilder \<times> Type) res" where
  "BuilderStructType L st types name =
     bindR (if name = [] then StructType L (type_manager st) types
            else NamedStructType L (type_manager st) types name)
       (\<lambda>(tm, t). Inr (st\<lparr>type_manager := tm\<rparr>, t))"

definition BuilderPointerType :: "'l llvm \<Rightarrow> 'l ProgramBuilder \<Rightarrow> Type \<Rightarrow> ('l ProgramBuilder \<times> Type) res" where
  "BuilderPointerType L st type =
     bindR (PointerType L (type_manager st) type) (\<lambda>(tm, t). Inr (st\<lparr>type_manager := tm\<rparr>, t))"

definition BuilderArrayType ::
    "'l llvm \<Rightarrow> 'l ProgramBuilder \<Rightarrow> Type \<Rightarrow> int \<Rightarrow> ('l ProgramBuilder \<times> Type) res" where
  "BuilderArrayType L st type len =
     bindR (ArrayType L (type_manager st) type len) (\<lambda>(tm, t). Inr (st\<lparr>type_manager := tm\<rparr>, t))"

definition BuilderFunctionType ::
    "'l llvm \<Rightarrow> 'l ProgramBuilder \<Rightarrow> Type \<Rightarrow> Type list \<Rightarrow> ('l ProgramBuilder \<times> Type) res" where
  "BuilderFunctionType L st result args =
     bindR (FunctionType L (type_manager st) result args) (\<lambda>(tm, t). Inr (st\<lparr>type_manager := tm\<rparr>, t))"

definition BuilderGetOpaqueType :: "'l ProgramBuilder \<Rightarrow> string \<Rightarrow> Type res" where
  "BuilderGetOpaqueType st name = GetOpaqueType (type_manager st) name"

definition BuilderGetStructType :: "'l ProgramBuilder \<Rightarrow> string \<Rightarrow> Type res" where
  "BuilderGetStructType st name = GetNamedStructType (type_manager st) name"

subsection \<open>Instruction shapes\<close>

definition ins1 :: "u8 \<Rightarrow> u64 \<Rightarrow> u64" where
  "ins1 opcode constant = T1SetConstant (T1SetOpcode 0 opcode) constant"

definition ins2_1 :: "Opcode \<Rightarrow> Value \<Rightarrow> u64" where
  "ins2_1 opcode v0 = T2SetArg0 (T2SetOpcode 0 (OpcodeTo opcode)) (Serialize v0)"

definition ins2_2 :: "Opcode \<Rightarrow> Value \<Rightarrow> Value \<Rightarrow> u64" where
  "ins2_2 opcode v0 v1 =
     T2SetArg1 (T2SetArg0 (T2SetOpcode 0 (OpcodeTo opcode)) (Serialize v0)) (Serialize v1)"

subsection \<open>Control flow\<close>

definition GenerateBlock :: "'l ProgramBuilder \<Rightarrow> ('l ProgramBuilder \<times> BasicBlockRef) res" where
  "GenerateBlock st =
     bindR (GetCurrentFunction st) (\<lambda>f.
     bindR (GenerateBasicBlock f) (\<lambda>(f, b).
       Inr (st\<lparr>pb_functions := (pb_functions st)[current_function st := f]\<rparr>, (current_function st, b))))"

definition CurrentBlock :: "'l ProgramBuilder \<Rightarrow> BasicBlockRef res" where
  "CurrentBlock st =
     bindR (GetCurrentFunction st) (\<lambda>f.
     bindR (GetCurrentBasicBlock f) (\<lambda>b. Inr (current_function st, b)))"

definition IsTerminated :: "'l ProgramBuilder \<Rightarrow> BasicBlockRef \<Rightarrow> bool res" where
  "IsTerminated st b = bindR (nthR (pb_functions st) (fst b)) (\<lambda>f. FunctionIsTerminated f (snd b))"

definition SetCurrentBlock :: "'l ProgramBuilder \<Rightarrow> BasicBlockRef \<Rightarrow> 'l ProgramBuilder res" where
  "SetCurrentBlock st b =
     bindR (if current_function st = fst b
            then bindR (GetCurrentFunction st) (\<lambda>f. FunctionIsTerminated f (snd b))
            else Inr True) (\<lambda>ok.
       if \<not> ok
       then Inl (RuntimeError ''Cannot switch from current block unless it is terminated.'')
       else
         bindR (nthR (pb_functions st) (fst b)) (\<lambda>f.
         bindR (SetCurrentBasicBlock f (snd b)) (\<lambda>f.
           Inr (st\<lparr>current_function := fst b, pb_functions := (pb_functions st)[fst b := f]\<rparr>))))"

definition Branch :: "'l ProgramBuilder \<Rightarrow> BasicBlockRef \<Rightarrow> 'l ProgramBuilder res" where
  "Branch st b =
     bindR (AppendInstr st (T5SetMarg0 (T5SetOpcode 0 (OpcodeTo BR)) (of_nat (snd b))))
       (\<lambda>(st, v). Inr st)"

text \<open>The constant field of a constant's instruction.\<close>

definition const_at :: "'l ProgramBuilder \<Rightarrow> Value \<Rightarrow> u64 res" where
  "const_at st v = bindR (nthR (constant_instrs st) (unat (GetIdx v))) (\<lambda>i. Inr (T1Constant i))"

definition BranchCond ::
    "'l ProgramBuilder \<Rightarrow> Value \<Rightarrow> BasicBlockRef \<Rightarrow> BasicBlockRef \<Rightarrow> 'l ProgramBuilder res" where
  "BranchCond st cond b1 b2 =
     (if IsConstantGlobal cond then
        bindR (const_at st cond) (\<lambda>value. if value = 1 then Branch st b1 else Branch st b2)
      else
        bindR (AppendInstr st
                 (T5SetMarg1 (T5SetMarg0 (T5SetArg (T5SetOpcode 0 (OpcodeTo CONDBR)) (Serialize cond))
                    (of_nat (snd b1))) (of_nat (snd b2)))) (\<lambda>(st, v). Inr st))"

definition Phi :: "'l ProgramBuilder \<Rightarrow> Type \<Rightarrow> ('l ProgramBuilder \<times> Value) res" where
  "Phi st type = AppendInstr st (T3SetTypeID (T3SetOpcode 0 (OpcodeTo PHI)) type)"

definition PhiMember :: "'l ProgramBuilder \<Rightarrow> Value \<Rightarrow> ('l ProgramBuilder \<times> Value) res" where
  "PhiMember st v = AppendInstr st (T2SetArg1 (T2SetOpcode 0 (OpcodeTo PHI_MEMBER)) (Serialize v))"

definition UpdatePhiMember :: "'l ProgramBuilder \<Rightarrow> Value \<Rightarrow> Value \<Rightarrow> 'l ProgramBuilder res" where
  "UpdatePhiMember st phi phi_member =
     bindR (GetCurrentFunction st) (\<lambda>f.
     bindR (GetInstruction st f phi_member) (\<lambda>instr.
     bindR (Update f phi_member (T2SetArg0 instr (Serialize phi))) (\<lambda>f.
       Inr (st\<lparr>pb_functions := (pb_functions st)[current_function st := f]\<rparr>))))"

subsection \<open>Constants\<close>

definition ConstI1 :: "'l ProgramBuilder \<Rightarrow> bool \<Rightarrow> ('l ProgramBuilder \<times> Value) res" where
  "ConstI1 st v =
     (case i1_const_to_value st v of
        Some value \<Rightarrow> Inr (st, value)
      | None \<Rightarrow>
          bindR (AppendConstantGlobal st (ins1 (ConstantOpcodeTo C_I1_CONST) (if v then 1 else 0))) (\<lambda>(st, value).
            Inr (st\<lparr>i1_const_to_value := (i1_const_to_value st)(v \<mapsto> value)\<rparr>, value)))"

definition ConstI8 :: "'l ProgramBuilder \<Rightarrow> u8 \<Rightarrow> ('l ProgramBuilder \<times> Value) res" where
  "ConstI8 st v =
     (case i8_const_to_value st v of
        Some value \<Rightarrow> Inr (st, value)
      | None \<Rightarrow>
          bindR (AppendConstantGlobal st (ins1 (ConstantOpcodeTo C_I8_CONST) (ucast v))) (\<lambda>(st, value).
            Inr (st\<lparr>i8_const_to_value := (i8_const_to_value st)(v \<mapsto> value)\<rparr>, value)))"

definition ConstI16 :: "'l ProgramBuilder \<Rightarrow> u16 \<Rightarrow> ('l ProgramBuilder \<times> Value) res" where
  "ConstI16 st v =
     (case i16_const_to_value st v of
        Some value \<Rightarrow> Inr (st, value)
      | None \<Rightarrow>
          bindR (AppendConstantGlobal st (ins1 (ConstantOpcodeTo C_I16_CONST) (ucast v))) (\<lambda>(st, value).
            Inr (st\<lparr>i16_const_to_value := (i16_const_to_value st)(v \<mapsto> value)\<rparr>, value)))"

definition ConstI32 :: "'l ProgramBuilder \<Rightarrow> u32 \<Rightarrow> ('l ProgramBuilder \<times> Value) res" where
  "ConstI32 st v =
     (case i32_const_to_value st v of
        Some value \<Rightarrow> Inr (st, value)
      | None \<Rightarrow>
          bindR (AppendConstantGlobal st (ins1 (ConstantOpcodeTo C_I32_CONST) (ucast v))) (\<lambda>(st, value).
            Inr (st\<lparr>i32_const_to_value := (i32_const_to_value st)(v \<mapsto> value)\<rparr>, value)))"

definition ConstI64 :: "'l ProgramBuilder \<Rightarrow> u64 \<Rightarrow> ('l ProgramBuilder \<times> Value) res" where
  "ConstI64 st v =
     (case i64_const_to_value st v of
        Some value \<Rightarrow> Inr (st, value)
      | None \<Rightarrow>
          let id = (of_nat (length (i64_constants st)) :: u32);
              st = st\<lparr>i64_constants := i64_constants st @ [v]\<rparr>
          in bindR (AppendConstantGlobal st (ins1 (ConstantOpcodeTo C_I64_CONST) (ucast id))) (\<lambda>(st, value).
               Inr (st\<lparr>i64_const_to_value := (i64_const_to_value st)(v \<mapsto> value)\<rparr>, value)))"

definition ConstPtr :: "'l ProgramBuilder \<Rightarrow> u64 \<Rightarrow> ('l ProgramBuilder \<times> Value) res" where
  "ConstPtr st v =
     (case ptr_const_to_value st v of
        Some value \<Rightarrow> Inr (st, value)
      | None \<Rightarrow>
          let id = (of_nat (length (ptr_constants st)) :: u32);
              st = st\<lparr>ptr_constants := ptr_constants st @ [v]\<rparr>
          in bindR (AppendConstantGlobal st (ins1 (ConstantOpcodeTo C_PTR_CONST) (ucast id))) (\<lambda>(st, value).
               Inr (st\<lparr>ptr_const_to_value := (ptr_const_to_value st)(v \<mapsto> value)\<rparr>, value)))"

definition GlobalConstCharArray :: "'l ProgramBuilder \<Rightarrow> string \<Rightarrow> ('l ProgramBuilder \<times> Value) res" where
  "GlobalConstCharArray st v =
     (case string_const_to_value st v of
        Some value \<Rightarrow> Inr (st, value)
      | None \<Rightarrow>
          let id = (of_nat (length (char_array_constants st)) :: u32);
              st = st\<lparr>char_array_constants := char_array_constants st @ [v]\<rparr>
          in bindR (AppendConstantGlobal st (ins1 (ConstantOpcodeTo C_GLOBAL_CHAR_ARRAY_CONST) (ucast id))) (\<lambda>(st, value).
               Inr (st\<lparr>string_const_to_value := (string_const_to_value st)(v \<mapsto> value)\<rparr>, value)))"

text \<open>
  \<^verbatim>\<open>std::unordered_map<double, Value>\<close>: keys are found by \<^verbatim>\<open>==\<close> on doubles, and \<^verbatim>\<open>m[v]\<close> inserts a
  default value when no key is equal.
\<close>

definition f64_find :: "(u64 \<times> Value) list \<Rightarrow> u64 \<Rightarrow> Value option" where
  "f64_find m v = map_option snd (List.find (\<lambda>(k, _). f64_eq k v) m)"

definition f64_put :: "(u64 \<times> Value) list \<Rightarrow> u64 \<Rightarrow> Value \<Rightarrow> (u64 \<times> Value) list" where
  "f64_put m v value =
     (if f64_find m v = None then m @ [(v, value)]
      else map (\<lambda>(k, w). if f64_eq k v then (k, value) else (k, w)) m)"

definition f64_index :: "(u64 \<times> Value) list \<Rightarrow> u64 \<Rightarrow> (u64 \<times> Value) list \<times> Value" where
  "f64_index m v =
     (case f64_find m v of Some w \<Rightarrow> (m, w) | None \<Rightarrow> (m @ [(v, ValueDefault)], ValueDefault))"

definition ConstF64 :: "'l ProgramBuilder \<Rightarrow> u64 \<Rightarrow> ('l ProgramBuilder \<times> Value) res" where
  "ConstF64 st v =
     bindR
       (if f64_find (f64_const_to_value st) v = None then
          let id = (of_nat (length (f64_constants st)) :: u32);
              st = st\<lparr>f64_constants := f64_constants st @ [v]\<rparr>
          in bindR (AppendConstantGlobal st (ins1 (ConstantOpcodeTo C_F64_CONST) (ucast id))) (\<lambda>(st, value).
               Inr (st\<lparr>f64_const_to_value := f64_put (f64_const_to_value st) v value\<rparr>))
        else Inr st)
       (\<lambda>st. let (m, value) = f64_index (f64_const_to_value st) v
             in Inr (st\<lparr>f64_const_to_value := m\<rparr>, value))"

definition ConstI32Vec8 :: "'l ProgramBuilder \<Rightarrow> u32 \<Rightarrow> ('l ProgramBuilder \<times> Value) res" where
  "ConstI32Vec8 st v = AppendConstantGlobal st (ins1 (ConstantOpcodeTo C_I32_VEC8_CONST_1) (ucast v))"

definition ConstI32Vec8Array :: "'l ProgramBuilder \<Rightarrow> u32 list \<Rightarrow> ('l ProgramBuilder \<times> Value) res" where
  "ConstI32Vec8Array st v =
     (let idx = (of_nat (length (vec8_constants st)) :: u32);
          st = st\<lparr>vec8_constants := vec8_constants st @ [v]\<rparr>
      in AppendConstantGlobal st (ins1 (ConstantOpcodeTo C_I32_VEC8_CONST_8) (ucast idx)))"

definition ConstantStruct :: "'l ProgramBuilder \<Rightarrow> Type \<Rightarrow> Value list \<Rightarrow> ('l ProgramBuilder \<times> Value) res" where
  "ConstantStruct st t init =
     (let idx = (of_nat (length (struct_constants st)) :: u32);
          st = st\<lparr>struct_constants := struct_constants st @ [(t, init)]\<rparr>
      in AppendConstantGlobal st (ins1 (ConstantOpcodeTo C_STRUCT_CONST) (ucast idx)))"

definition ConstantArray :: "'l ProgramBuilder \<Rightarrow> Type \<Rightarrow> Value list \<Rightarrow> ('l ProgramBuilder \<times> Value) res" where
  "ConstantArray st t init =
     (let idx = (of_nat (length (array_constants st)) :: u32);
          st = st\<lparr>array_constants := array_constants st @ [(t, init)]\<rparr>
      in AppendConstantGlobal st (ins1 (ConstantOpcodeTo C_ARRAY_CONST) (ucast idx)))"

definition Global :: "'l llvm \<Rightarrow> 'l ProgramBuilder \<Rightarrow> Type \<Rightarrow> Value \<Rightarrow> ('l ProgramBuilder \<times> Value) res" where
  "Global L st t init =
     (let idx = (of_nat (length (globals st)) :: u32) in
      bindR (PointerType L (type_manager st) t) (\<lambda>(tm, ptr_to_type).
        AppendConstantGlobal
          (st\<lparr>type_manager := tm, globals := globals st @ [(t, ptr_to_type, init)]\<rparr>)
          (ins1 (ConstantOpcodeTo C_GLOBAL_REF) (ucast idx))))"

definition NullPtr :: "'l ProgramBuilder \<Rightarrow> Type \<Rightarrow> ('l ProgramBuilder \<times> Value) res" where
  "NullPtr st t = AppendConstantGlobal st (T3SetTypeID (T3SetOpcode 0 (ConstantOpcodeTo C_NULLPTR)) t)"

definition PointerCast :: "'l ProgramBuilder \<Rightarrow> Value \<Rightarrow> Type \<Rightarrow> ('l ProgramBuilder \<times> Value) res" where
  "PointerCast st v t =
     (if IsConstantGlobal v then
        AppendConstantGlobal st
          (T3SetTypeID (T3SetArg (T3SetOpcode 0 (ConstantOpcodeTo C_PTR_CAST)) (Serialize v)) t)
      else AppendInstr st (T3SetTypeID (T3SetArg (T3SetOpcode 0 (OpcodeTo PTR_CAST)) (Serialize v)) t))"

subsection \<open>Loads and stores\<close>

definition StoreI8 :: "'l ProgramBuilder \<Rightarrow> Value \<Rightarrow> Value \<Rightarrow> 'l ProgramBuilder res" where
  "StoreI8 st ptr v = bindR (AppendInstr st (ins2_2 I8_STORE ptr v)) (\<lambda>(st, _). Inr st)"

definition StoreI16 :: "'l ProgramBuilder \<Rightarrow> Value \<Rightarrow> Value \<Rightarrow> 'l ProgramBuilder res" where
  "StoreI16 st ptr v = bindR (AppendInstr st (ins2_2 I16_STORE ptr v)) (\<lambda>(st, _). Inr st)"

definition StoreI32 :: "'l ProgramBuilder \<Rightarrow> Value \<Rightarrow> Value \<Rightarrow> 'l ProgramBuilder res" where
  "StoreI32 st ptr v = bindR (AppendInstr st (ins2_2 I32_STORE ptr v)) (\<lambda>(st, _). Inr st)"

definition StoreI64 :: "'l ProgramBuilder \<Rightarrow> Value \<Rightarrow> Value \<Rightarrow> 'l ProgramBuilder res" where
  "StoreI64 st ptr v = bindR (AppendInstr st (ins2_2 I64_STORE ptr v)) (\<lambda>(st, _). Inr st)"

definition StoreF64 :: "'l ProgramBuilder \<Rightarrow> Value \<Rightarrow> Value \<Rightarrow> 'l ProgramBuilder res" where
  "StoreF64 st ptr v = bindR (AppendInstr st (ins2_2 F64_STORE ptr v)) (\<lambda>(st, _). Inr st)"

definition StorePtr :: "'l ProgramBuilder \<Rightarrow> Value \<Rightarrow> Value \<Rightarrow> 'l ProgramBuilder res" where
  "StorePtr st ptr v = bindR (AppendInstr st (ins2_2 PTR_STORE ptr v)) (\<lambda>(st, _). Inr st)"

definition MaskStoreI32Vec8 ::
    "'l ProgramBuilder \<Rightarrow> Value \<Rightarrow> Value \<Rightarrow> Value \<Rightarrow> 'l ProgramBuilder res" where
  "MaskStoreI32Vec8 st ptr v popcount =
     bindR (AppendInstr st (ins2_1 I32_VEC8_MASK_STORE_INFO popcount)) (\<lambda>(st, _).
     bindR (AppendInstr st (ins2_2 I32_VEC8_MASK_STORE ptr v)) (\<lambda>(st, _). Inr st))"

definition LoadI1 :: "'l ProgramBuilder \<Rightarrow> Value \<Rightarrow> ('l ProgramBuilder \<times> Value) res" where
  "LoadI1 st ptr = AppendInstr st (ins2_1 I1_LOAD ptr)"

definition LoadI8 :: "'l ProgramBuilder \<Rightarrow> Value \<Rightarrow> ('l ProgramBuilder \<times> Value) res" where
  "LoadI8 st ptr = AppendInstr st (ins2_1 I8_LOAD ptr)"

definition LoadI16 :: "'l ProgramBuilder \<Rightarrow> Value \<Rightarrow> ('l ProgramBuilder \<times> Value) res" where
  "LoadI16 st ptr = AppendInstr st (ins2_1 I16_LOAD ptr)"

definition LoadI32 :: "'l ProgramBuilder \<Rightarrow> Value \<Rightarrow> ('l ProgramBuilder \<times> Value) res" where
  "LoadI32 st ptr = AppendInstr st (ins2_1 I32_LOAD ptr)"

definition LoadI32Vec8 :: "'l ProgramBuilder \<Rightarrow> Value \<Rightarrow> ('l ProgramBuilder \<times> Value) res" where
  "LoadI32Vec8 st ptr = AppendInstr st (ins2_1 I32_VEC8_LOAD ptr)"

definition LoadI64 :: "'l ProgramBuilder \<Rightarrow> Value \<Rightarrow> ('l ProgramBuilder \<times> Value) res" where
  "LoadI64 st ptr = AppendInstr st (ins2_1 I64_LOAD ptr)"

definition LoadF64 :: "'l ProgramBuilder \<Rightarrow> Value \<Rightarrow> ('l ProgramBuilder \<times> Value) res" where
  "LoadF64 st ptr = AppendInstr st (ins2_1 F64_LOAD ptr)"

subsection \<open>The type of a value\<close>

text \<open>The switch over the opcode of an instruction.\<close>

definition TypeOfInstr :: "u64 \<Rightarrow> Type res" where
  "TypeOfInstr instr =
     (let opcode = OpcodeFrom (GenericOpcode instr) in
      if opcode \<in> set [I1_AND, I1_OR, I1_CMP_EQ, I1_CMP_NE, I1_LNOT, I8_CMP_EQ, I8_CMP_NE, I8_CMP_LT,
           I8_CMP_LE, I8_CMP_GT, I8_CMP_GE, I16_CMP_EQ, I16_CMP_NE, I16_CMP_LT, I16_CMP_LE,
           I16_CMP_GT, I16_CMP_GE, I32_CMP_EQ, I32_CMP_NE, I32_CMP_LT, I32_CMP_LE, I32_CMP_GT,
           I32_CMP_GE, I64_CMP_EQ, I64_CMP_NE, I64_CMP_LT, I64_CMP_LE, I64_CMP_GT, I64_CMP_GE,
           F64_CMP_EQ, F64_CMP_NE, F64_CMP_LT, F64_CMP_LE, F64_CMP_GT, F64_CMP_GE,
           PTR_CMP_NULLPTR, I1_LOAD, I32_CMP_EQ_ANY_CONST_VEC4, I32_CMP_EQ_ANY_CONST_VEC8]
      then Inr I1Type
      else if opcode \<in> set [MASK_TO_PERMUTE]
      then Inr I32Vec8PtrType
      else if opcode \<in> set [I1_VEC8_MASK_EXTRACT, I64_POPCOUNT]
      then Inr I64Type
      else if opcode \<in> set [I1_VEC8_NOT, I1_VEC8_AND, I1_VEC8_OR, I32_VEC8_CMP_EQ, I32_VEC8_CMP_NE,
           I32_VEC8_CMP_LT, I32_VEC8_CMP_LE, I32_VEC8_CMP_GT, I32_VEC8_CMP_GE]
      then Inr I1Vec8Type
      else if opcode \<in> set [I8_ADD, I8_MUL, I8_SUB, I8_LOAD, I1_ZEXT_I8]
      then Inr I8Type
      else if opcode \<in> set [I16_ADD, I16_MUL, I16_SUB, I16_LOAD, I64_TRUNC_I16]
      then Inr I16Type
      else if opcode \<in> set [I32_ADD, I32_MUL, I32_SUB, I32_LOAD, I64_TRUNC_I32]
      then Inr I32Type
      else if opcode \<in> set [I32_CONV_I32_VEC8, I32_VEC8_LOAD, I32_VEC8_PERMUTE, I32_VEC8_ADD]
      then Inr I32Vec8Type
      else if opcode \<in> set [I64_ADD, I64_MUL, I64_SUB, I64_LSHIFT, I64_RSHIFT, I64_AND, I64_XOR, I64_OR,
           I1_ZEXT_I64, I8_ZEXT_I64, I16_ZEXT_I64, I32_ZEXT_I64, F64_CONV_I64, I64_LOAD]
      then Inr I64Type
      else if opcode \<in> set [F64_ADD, F64_MUL, F64_SUB, F64_DIV, I8_CONV_F64, I16_CONV_F64, I32_CONV_F64,
           I64_CONV_F64, F64_LOAD]
      then Inr F64Type
      else if opcode \<in> set [RETURN, I8_STORE, I16_STORE, I32_STORE, I64_STORE, F64_STORE, PTR_STORE,
           I32_VEC8_MASK_STORE, RETURN_VALUE, CONDBR, BR]
      then Inr VoidType
      else if opcode \<in> set [PHI, CALL, PTR_LOAD, PTR_CAST, GEP_DYNAMIC, GEP_STATIC, FUNC_ARG, CALL_INDIRECT]
      then Inr (T3TypeID instr)
      else if opcode \<in> set [GEP_DYNAMIC_OFFSET, GEP_STATIC_OFFSET]
      then Inl (RuntimeError ''GEP offsets needs to be under a GEP.'')
      else if opcode \<in> set [I32_VEC8_MASK_STORE_INFO, PHI_MEMBER, CALL_ARG]
      then Inl (RuntimeError ''Cannot call type of on an extension.'')
      else Inl Undefined)"

definition TypeOfConstant :: "'l ProgramBuilder \<Rightarrow> u64 \<Rightarrow> Type res" where
  "TypeOfConstant st instr =
     (let opcode = ConstantOpcodeFrom (GenericOpcode instr) in
      if opcode = C_I1_CONST then Inr I1Type
      else if opcode = C_I8_CONST then Inr I8Type
      else if opcode = C_I16_CONST then Inr I16Type
      else if opcode = C_I32_CONST then Inr I32Type
      else if opcode = C_I32_VEC8_CONST_1 \<or> opcode = C_I32_VEC8_CONST_8 then Inr I32Vec8Type
      else if opcode = C_I64_CONST then Inr I64Type
      else if opcode = C_F64_CONST then Inr F64Type
      else if opcode = C_PTR_CONST then Inr I8PtrType
      else if opcode = C_PTR_CAST \<or> opcode = C_NULLPTR \<or> opcode = C_FUNC_PTR then Inr (T3TypeID instr)
      else if opcode = C_GLOBAL_CHAR_ARRAY_CONST then Inr I8PtrType
      else if opcode = C_ARRAY_CONST then
        bindR (nthR (array_constants st) (unat (T1Constant instr))) (\<lambda>c. Inr (fst c))
      else if opcode = C_STRUCT_CONST then
        bindR (nthR (struct_constants st) (unat (T1Constant instr))) (\<lambda>c. Inr (fst c))
      else if opcode = C_GLOBAL_REF then
        bindR (nthR (globals st) (unat (T1Constant instr))) (\<lambda>g. Inr (fst (snd g)))
      else if opcode = C_I32_VEC4_CONST_4 then Inl (RuntimeError ''Cannot call type of on vec4'')
      else Inl Undefined)"

definition TypeOf :: "'l ProgramBuilder \<Rightarrow> Value \<Rightarrow> Type res" where
  "TypeOf st value =
     (if IsConstantGlobal value
      then bindR (GetConstantGlobalInstr st value) (TypeOfConstant st)
      else bindR (GetCurrentFunction st) (\<lambda>f. bindR (GetInstruction st f value) TypeOfInstr))"

definition LoadPtr :: "'l ProgramBuilder \<Rightarrow> Value \<Rightarrow> ('l ProgramBuilder \<times> Value) res" where
  "LoadPtr st ptr =
     bindR (TypeOf st ptr) (\<lambda>ptr_type.
     bindR (GetPointerElementType (type_manager st) ptr_type) (\<lambda>e.
       AppendInstr st (T3SetArg (T3SetTypeID (T3SetOpcode 0 (OpcodeTo PTR_LOAD)) e) (Serialize ptr))))"

subsection \<open>Functions and calls\<close>

definition digit :: "nat \<Rightarrow> char" where
  "digit n = (if n < 10 then char_of (48 + n) else CHR ''0'')"

fun to_string :: "nat \<Rightarrow> string" where
  "to_string n = (if n < 10 then [digit n] else to_string (n div 10) @ [digit (n mod 10)])"

declare to_string.simps [simp del]

definition CreateFunction ::
    "'l llvm \<Rightarrow> 'l ProgramBuilder \<Rightarrow> Type \<Rightarrow> Type list \<Rightarrow> ('l ProgramBuilder \<times> FunctionRef) res" where
  "CreateFunction L st result_type arg_types =
     (let idx = length (pb_functions st) in
      bindR (FunctionType L (type_manager st) result_type arg_types) (\<lambda>(tm, ft).
      bindR (InitBody (FunctionBuilderNew (''_func'' @ to_string idx) ft result_type arg_types False 0)) (\<lambda>f.
        Inr (st\<lparr>type_manager := tm, pb_functions := pb_functions st @ [f], current_function := idx\<rparr>, idx))))"

definition CreateNamedFunction ::
    "'l llvm \<Rightarrow> 'l ProgramBuilder \<Rightarrow> Type \<Rightarrow> Type list \<Rightarrow> string \<Rightarrow> ('l ProgramBuilder \<times> FunctionRef) res" where
  "CreateNamedFunction L st result_type arg_types name =
     (let idx = length (pb_functions st) in
      bindR (FunctionType L (type_manager st) result_type arg_types) (\<lambda>(tm, ft).
      bindR (InitBody (FunctionBuilderNew name ft result_type arg_types False 0)) (\<lambda>f.
        Inr (st\<lparr>type_manager := tm, pb_functions := pb_functions st @ [f], current_function := idx,
                name_to_function := (name_to_function st)(name \<mapsto> idx)\<rparr>, idx))))"

definition DeclareExternalFunction ::
    "'l llvm \<Rightarrow> 'l ProgramBuilder \<Rightarrow> string \<Rightarrow> Type \<Rightarrow> Type list \<Rightarrow> u64
     \<Rightarrow> ('l ProgramBuilder \<times> FunctionRef) res" where
  "DeclareExternalFunction L st name result_type arg_types func =
     (case name_to_function st name of
        Some ref \<Rightarrow> Inr (st, ref)
      | None \<Rightarrow>
          let idx = length (pb_functions st) in
          bindR (FunctionType L (type_manager st) result_type arg_types) (\<lambda>(tm, ft).
            Inr (st\<lparr>type_manager := tm,
                    pb_functions := pb_functions st @ [FunctionBuilderNew name ft result_type arg_types True func],
                    name_to_function := (name_to_function st)(name \<mapsto> idx)\<rparr>, idx)))"

definition GetFunction :: "'l ProgramBuilder \<Rightarrow> string \<Rightarrow> FunctionRef res" where
  "GetFunction st name = atR (name_to_function st) name"

definition GetFunctionArguments :: "'l ProgramBuilder \<Rightarrow> FunctionRef \<Rightarrow> Value list res" where
  "GetFunctionArguments st func = bindR (nthR (pb_functions st) func) FunctionGetArguments"

definition GetFunctionPointer ::
    "'l llvm \<Rightarrow> 'l ProgramBuilder \<Rightarrow> FunctionRef \<Rightarrow> ('l ProgramBuilder \<times> Value) res" where
  "GetFunctionPointer L st func =
     bindR (nthR (pb_functions st) func) (\<lambda>f.
     bindR (PointerType L (type_manager st) (fb_function_type f)) (\<lambda>(tm, p).
       AppendConstantGlobal (st\<lparr>type_manager := tm\<rparr>)
         (T3SetTypeID (T3SetArg (T3SetOpcode 0 (ConstantOpcodeTo C_FUNC_PTR)) (of_nat func)) p)))"

text \<open>
  The loop over the arguments counts in a \<^verbatim>\<open>uint8_t\<close>: with more than 255 arguments it never
  reaches the end and goes on appending until an instruction index is refused.
\<close>

definition append_call_arg ::
    "Value list \<Rightarrow> 'l ProgramBuilder \<Rightarrow> nat \<Rightarrow> 'l ProgramBuilder res" where
  "append_call_arg arguments st i =
     bindR (TypeOf st (arguments ! i)) (\<lambda>t.
     bindR (AppendInstr st
              (T3SetArg (T3SetSarg (T3SetTypeID (T3SetOpcode 0 (OpcodeTo CALL_ARG)) t) (of_nat i))
                 (Serialize (arguments ! i)))) (\<lambda>(st, _). Inr st))"

definition append_call_args :: "'l ProgramBuilder \<Rightarrow> Value list \<Rightarrow> 'l ProgramBuilder res" where
  "append_call_args st arguments =
     (if length arguments \<le> 255 then foldR (append_call_arg arguments) st [0..<length arguments]
      else bindR (foldR (append_call_arg arguments) st [0..<256]) (\<lambda>_.
             Inl (RuntimeError ''Invalid idx'')))"

definition Call ::
    "'l ProgramBuilder \<Rightarrow> FunctionRef \<Rightarrow> Value list \<Rightarrow> ('l ProgramBuilder \<times> Value) res" where
  "Call st func arguments =
     bindR (nthR (pb_functions st) func) (\<lambda>f.
     bindR (append_call_args st arguments) (\<lambda>st.
       AppendInstr st
         (T3SetTypeID (T3SetArg (T3SetOpcode 0 (OpcodeTo CALL)) (of_nat func)) (fb_return_type f))))"

definition CallIndirect ::
    "'l ProgramBuilder \<Rightarrow> Value \<Rightarrow> Value list \<Rightarrow> ('l ProgramBuilder \<times> Value) res" where
  "CallIndirect st func arguments =
     bindR (append_call_args st arguments) (\<lambda>st.
     bindR (TypeOf st func) (\<lambda>func_ptr_type.
     bindR (IsPtrType (type_manager st) func_ptr_type) (\<lambda>is_ptr.
     bindR (guardR is_ptr (RuntimeError ''Must be a func ptr'')) (\<lambda>_.
     bindR (GetPointerElementType (type_manager st) func_ptr_type) (\<lambda>func_type.
     bindR (IsFuncType (type_manager st) func_type) (\<lambda>is_func.
     bindR (guardR is_func (RuntimeError ''Must be a func ptr'')) (\<lambda>_.
     bindR (GetFunctionReturnType (type_manager st) func_type) (\<lambda>return_type.
       AppendInstr st
         (T3SetTypeID (T3SetArg (T3SetOpcode 0 (OpcodeTo CALL_INDIRECT)) (Serialize func))
            return_type)))))))))"

definition ReturnValue :: "'l ProgramBuilder \<Rightarrow> Value \<Rightarrow> 'l ProgramBuilder res" where
  "ReturnValue st v =
     bindR (TypeOf st v) (\<lambda>t.
     bindR (AppendInstr st (T3SetTypeID (T3SetArg (T3SetOpcode 0 (OpcodeTo RETURN_VALUE)) (Serialize v)) t))
       (\<lambda>(st, _). Inr st))"

definition Return :: "'l ProgramBuilder \<Rightarrow> 'l ProgramBuilder res" where
  "Return st = bindR (AppendInstr st (T1SetOpcode 0 (OpcodeTo RETURN))) (\<lambda>(st, _). Inr st)"

end
