(* ===== verification/KhirArith.thy ===== *)
theory KhirArith
  imports KhirBuilder
begin

unbundle bit_operations_syntax

text \<open>
  The arithmetic, comparison, conversion, vector and pointer operations of the program
  builder (\<^verbatim>\<open>khir/program_builder.cc\<close>). Operations on constants are folded in the builder,
  the others append an instruction, with a constant operand moved to the right where the
  operation allows it. Signed overflow of the 32-bit and 64-bit folds, undefined in C++, is an
  error branch; the 8-bit and 16-bit folds compute in \<^verbatim>\<open>int\<close> and wrap on the way back.
\<close>

section \<open>Operands\<close>

definition both_const :: "Value \<Rightarrow> Value \<Rightarrow> bool" where
  "both_const v1 v2 \<longleftrightarrow> IsConstantGlobal v1 \<and> IsConstantGlobal v2"

text \<open>\<^verbatim>\<open>if (v1.IsConstantGlobal() && !v2.IsConstantGlobal()) std::swap(v1, v2)\<close>.\<close>

definition const_last :: "Value \<Rightarrow> Value \<Rightarrow> Value \<times> Value" where
  "const_last v1 v2 = (if IsConstantGlobal v1 \<and> \<not> IsConstantGlobal v2 then (v2, v1) else (v1, v2))"

definition i8_at :: "'l ProgramBuilder \<Rightarrow> Value \<Rightarrow> u8 res" where
  "i8_at st v = bindR (const_at st v) (\<lambda>c. Inr (ucast c))"

definition i16_at :: "'l ProgramBuilder \<Rightarrow> Value \<Rightarrow> u16 res" where
  "i16_at st v = bindR (const_at st v) (\<lambda>c. Inr (ucast c))"

definition i32_at :: "'l ProgramBuilder \<Rightarrow> Value \<Rightarrow> u32 res" where
  "i32_at st v = bindR (const_at st v) (\<lambda>c. Inr (ucast c))"

definition i64_at :: "'l ProgramBuilder \<Rightarrow> Value \<Rightarrow> u64 res" where
  "i64_at st v = bindR (const_at st v) (\<lambda>id. nthR (i64_constants st) (unat id))"

definition f64_at :: "'l ProgramBuilder \<Rightarrow> Value \<Rightarrow> u64 res" where
  "f64_at st v = bindR (const_at st v) (\<lambda>id. nthR (f64_constants st) (unat id))"

text \<open>A signed result that must fit its type.\<close>

definition fit32 :: "int \<Rightarrow> u32 res" where
  "fit32 x = (if - (2 ^ 31) \<le> x \<and> x < 2 ^ 31 then Inr (word_of_int x) else Inl Undefined)"

definition fit64 :: "int \<Rightarrow> u64 res" where
  "fit64 x = (if - (2 ^ 63) \<le> x \<and> x < 2 ^ 63 then Inr (word_of_int x) else Inl Undefined)"

fun cmp_int :: "CompType \<Rightarrow> int \<Rightarrow> int \<Rightarrow> bool" where
  "cmp_int EQ a b = (a = b)"
| "cmp_int NE a b = (a \<noteq> b)"
| "cmp_int LT a b = (a < b)"
| "cmp_int LE a b = (a \<le> b)"
| "cmp_int GT a b = (a > b)"
| "cmp_int GE a b = (a \<ge> b)"

fun cmp_f64 :: "CompType \<Rightarrow> u64 \<Rightarrow> u64 \<Rightarrow> bool" where
  "cmp_f64 EQ a b = f64_eq a b"
| "cmp_f64 NE a b = (\<not> f64_eq a b)"
| "cmp_f64 LT a b = f64_lt a b"
| "cmp_f64 LE a b = (f64_lt a b \<or> f64_eq a b)"
| "cmp_f64 GT a b = f64_lt b a"
| "cmp_f64 GE a b = (f64_lt b a \<or> f64_eq a b)"

text \<open>The switch that moves a constant to the right and turns the comparison round.\<close>

fun mirror :: "CompType \<Rightarrow> CompType" where
  "mirror EQ = EQ"
| "mirror NE = NE"
| "mirror LT = GT"
| "mirror LE = GE"
| "mirror GT = LT"
| "mirror GE = LE"

definition swap_cmp :: "CompType \<Rightarrow> Value \<Rightarrow> Value \<Rightarrow> CompType \<times> Value \<times> Value" where
  "swap_cmp cmp v1 v2 =
     (if IsConstantGlobal v1 \<and> \<not> IsConstantGlobal v2 then (mirror cmp, v2, v1) else (cmp, v1, v2))"

fun I8_CMP :: "CompType \<Rightarrow> Opcode" where
  "I8_CMP EQ = I8_CMP_EQ"
| "I8_CMP NE = I8_CMP_NE"
| "I8_CMP LT = I8_CMP_LT"
| "I8_CMP LE = I8_CMP_LE"
| "I8_CMP GT = I8_CMP_GT"
| "I8_CMP GE = I8_CMP_GE"

fun I16_CMP :: "CompType \<Rightarrow> Opcode" where
  "I16_CMP EQ = I16_CMP_EQ"
| "I16_CMP NE = I16_CMP_NE"
| "I16_CMP LT = I16_CMP_LT"
| "I16_CMP LE = I16_CMP_LE"
| "I16_CMP GT = I16_CMP_GT"
| "I16_CMP GE = I16_CMP_GE"

fun I32_CMP :: "CompType \<Rightarrow> Opcode" where
  "I32_CMP EQ = I32_CMP_EQ"
| "I32_CMP NE = I32_CMP_NE"
| "I32_CMP LT = I32_CMP_LT"
| "I32_CMP LE = I32_CMP_LE"
| "I32_CMP GT = I32_CMP_GT"
| "I32_CMP GE = I32_CMP_GE"

fun I64_CMP :: "CompType \<Rightarrow> Opcode" where
  "I64_CMP EQ = I64_CMP_EQ"
| "I64_CMP NE = I64_CMP_NE"
| "I64_CMP LT = I64_CMP_LT"
| "I64_CMP LE = I64_CMP_LE"
| "I64_CMP GT = I64_CMP_GT"
| "I64_CMP GE = I64_CMP_GE"

fun F64_CMP :: "CompType \<Rightarrow> Opcode" where
  "F64_CMP EQ = F64_CMP_EQ"
| "F64_CMP NE = F64_CMP_NE"
| "F64_CMP LT = F64_CMP_LT"
| "F64_CMP LE = F64_CMP_LE"
| "F64_CMP GT = F64_CMP_GT"
| "F64_CMP GE = F64_CMP_GE"

section \<open>Booleans\<close>

definition LNotI1 :: "'l ProgramBuilder \<Rightarrow> Value \<Rightarrow> ('l ProgramBuilder \<times> Value) res" where
  "LNotI1 st v =
     (if IsConstantGlobal v then bindR (const_at st v) (\<lambda>value. ConstI1 st (value = 0))
      else AppendInstr st (ins2_1 I1_LNOT v))"

definition AndI1 :: "'l ProgramBuilder \<Rightarrow> Value \<Rightarrow> Value \<Rightarrow> ('l ProgramBuilder \<times> Value) res" where
  "AndI1 st v1 v2 =
     (if IsConstantGlobal v1 then
        bindR (const_at st v1) (\<lambda>value1. if value1 = 0 then ConstI1 st False else Inr (st, v2))
      else if IsConstantGlobal v2 then
        bindR (const_at st v2) (\<lambda>value2. if value2 = 0 then ConstI1 st False else Inr (st, v1))
      else AppendInstr st (ins2_2 I1_AND v1 v2))"

definition OrI1 :: "'l ProgramBuilder \<Rightarrow> Value \<Rightarrow> Value \<Rightarrow> ('l ProgramBuilder \<times> Value) res" where
  "OrI1 st v1 v2 =
     (if IsConstantGlobal v1 then
        bindR (const_at st v1) (\<lambda>value1. if value1 = 1 then ConstI1 st True else Inr (st, v2))
      else if IsConstantGlobal v2 then
        bindR (const_at st v2) (\<lambda>value2. if value2 = 1 then ConstI1 st True else Inr (st, v1))
      else AppendInstr st (ins2_2 I1_OR v1 v2))"

definition CmpI1 :: "'l ProgramBuilder \<Rightarrow> CompType \<Rightarrow> Value \<Rightarrow> Value \<Rightarrow> ('l ProgramBuilder \<times> Value) res" where
  "CmpI1 st cmp v1 v2 =
     (if both_const v1 v2 then
        bindR (const_at st v1) (\<lambda>value1. bindR (const_at st v2) (\<lambda>value2.
          case cmp of EQ \<Rightarrow> ConstI1 st (value1 = value2)
          | NE \<Rightarrow> ConstI1 st (value1 \<noteq> value2)
          | _ \<Rightarrow> Inl (RuntimeError ''Invalid comp type for I1'')))
      else
        let (v1, v2) = const_last v1 v2 in
        case cmp of EQ \<Rightarrow> AppendInstr st (ins2_2 I1_CMP_EQ v1 v2)
        | NE \<Rightarrow> AppendInstr st (ins2_2 I1_CMP_NE v1 v2)
        | _ \<Rightarrow> Inl (RuntimeError ''Invalid comp type for I1''))"

definition I64ZextI1 :: "'l ProgramBuilder \<Rightarrow> Value \<Rightarrow> ('l ProgramBuilder \<times> Value) res" where
  "I64ZextI1 st v =
     (if IsConstantGlobal v
      then bindR (const_at st v) (\<lambda>value. if value = 0 then ConstI64 st 0 else ConstI64 st 1)
      else AppendInstr st (ins2_1 I1_ZEXT_I64 v))"

definition I8ZextI1 :: "'l ProgramBuilder \<Rightarrow> Value \<Rightarrow> ('l ProgramBuilder \<times> Value) res" where
  "I8ZextI1 st v =
     (if IsConstantGlobal v
      then bindR (const_at st v) (\<lambda>value. if value = 0 then ConstI8 st 0 else ConstI8 st 1)
      else AppendInstr st (ins2_1 I1_ZEXT_I8 v))"

section \<open>Integers\<close>

definition AddI8 :: "'l ProgramBuilder \<Rightarrow> Value \<Rightarrow> Value \<Rightarrow> ('l ProgramBuilder \<times> Value) res" where
  "AddI8 st v1 v2 =
     (if both_const v1 v2
      then bindR (i8_at st v1) (\<lambda>value1. bindR (i8_at st v2) (\<lambda>value2. ConstI8 st (value1 + value2)))
      else (let (v1, v2) = const_last v1 v2 in AppendInstr st (ins2_2 I8_ADD v1 v2)))"

definition MulI8 :: "'l ProgramBuilder \<Rightarrow> Value \<Rightarrow> Value \<Rightarrow> ('l ProgramBuilder \<times> Value) res" where
  "MulI8 st v1 v2 =
     (if both_const v1 v2
      then bindR (i8_at st v1) (\<lambda>value1. bindR (i8_at st v2) (\<lambda>value2. ConstI8 st (value1 * value2)))
      else (let (v1, v2) = const_last v1 v2 in AppendInstr st (ins2_2 I8_MUL v1 v2)))"

definition SubI8 :: "'l ProgramBuilder \<Rightarrow> Value \<Rightarrow> Value \<Rightarrow> ('l ProgramBuilder \<times> Value) res" where
  "SubI8 st v1 v2 =
     (if both_const v1 v2
      then bindR (i8_at st v1) (\<lambda>value1. bindR (i8_at st v2) (\<lambda>value2. ConstI8 st (value1 - value2)))
      else AppendInstr st (ins2_2 I8_SUB v1 v2))"

definition CmpI8 :: "'l ProgramBuilder \<Rightarrow> CompType \<Rightarrow> Value \<Rightarrow> Value \<Rightarrow> ('l ProgramBuilder \<times> Value) res" where
  "CmpI8 st cmp v1 v2 =
     (if both_const v1 v2
      then bindR (i8_at st v1) (\<lambda>value1. bindR (i8_at st v2) (\<lambda>value2. ConstI1 st (cmp_int cmp (sint value1) (sint value2))))
      else let (cmp, v1, v2) = swap_cmp cmp v1 v2 in AppendInstr st (ins2_2 (I8_CMP cmp) v1 v2))"

definition I64ZextI8 :: "'l ProgramBuilder \<Rightarrow> Value \<Rightarrow> ('l ProgramBuilder \<times> Value) res" where
  "I64ZextI8 st v =
     (if IsConstantGlobal v then bindR (i8_at st v) (\<lambda>value. ConstI64 st (ucast value))
      else AppendInstr st (ins2_1 I8_ZEXT_I64 v))"

definition F64ConvI8 :: "f64_ops \<Rightarrow> 'l ProgramBuilder \<Rightarrow> Value \<Rightarrow> ('l ProgramBuilder \<times> Value) res" where
  "F64ConvI8 F st v =
     (if IsConstantGlobal v then bindR (i8_at st v) (\<lambda>value. ConstF64 st (f64_of_int F (sint value)))
      else AppendInstr st (ins2_1 I8_CONV_F64 v))"

definition AddI16 :: "'l ProgramBuilder \<Rightarrow> Value \<Rightarrow> Value \<Rightarrow> ('l ProgramBuilder \<times> Value) res" where
  "AddI16 st v1 v2 =
     (if both_const v1 v2
      then bindR (i16_at st v1) (\<lambda>value1. bindR (i16_at st v2) (\<lambda>value2. ConstI16 st (value1 + value2)))
      else (let (v1, v2) = const_last v1 v2 in AppendInstr st (ins2_2 I16_ADD v1 v2)))"

definition MulI16 :: "'l ProgramBuilder \<Rightarrow> Value \<Rightarrow> Value \<Rightarrow> ('l ProgramBuilder \<times> Value) res" where
  "MulI16 st v1 v2 =
     (if both_const v1 v2
      then bindR (i16_at st v1) (\<lambda>value1. bindR (i16_at st v2) (\<lambda>value2. ConstI16 st (value1 * value2)))
      else (let (v1, v2) = const_last v1 v2 in AppendInstr st (ins2_2 I16_MUL v1 v2)))"

definition SubI16 :: "'l ProgramBuilder \<Rightarrow> Value \<Rightarrow> Value \<Rightarrow> ('l ProgramBuilder \<times> Value) res" where
  "SubI16 st v1 v2 =
     (if both_const v1 v2
      then bindR (i16_at st v1) (\<lambda>value1. bindR (i16_at st v2) (\<lambda>value2. ConstI16 st (value1 - value2)))
      else AppendInstr st (ins2_2 I16_SUB v1 v2))"

definition CmpI16 :: "'l ProgramBuilder \<Rightarrow> CompType \<Rightarrow> Value \<Rightarrow> Value \<Rightarrow> ('l ProgramBuilder \<times> Value) res" where
  "CmpI16 st cmp v1 v2 =
     (if both_const v1 v2
      then bindR (i16_at st v1) (\<lambda>value1. bindR (i16_at st v2) (\<lambda>value2. ConstI1 st (cmp_int cmp (sint value1) (sint value2))))
      else let (cmp, v1, v2) = swap_cmp cmp v1 v2 in AppendInstr st (ins2_2 (I16_CMP cmp) v1 v2))"

definition I64ZextI16 :: "'l ProgramBuilder \<Rightarrow> Value \<Rightarrow> ('l ProgramBuilder \<times> Value) res" where
  "I64ZextI16 st v =
     (if IsConstantGlobal v then bindR (i16_at st v) (\<lambda>value. ConstI64 st (ucast value))
      else AppendInstr st (ins2_1 I16_ZEXT_I64 v))"

definition F64ConvI16 :: "f64_ops \<Rightarrow> 'l ProgramBuilder \<Rightarrow> Value \<Rightarrow> ('l ProgramBuilder \<times> Value) res" where
  "F64ConvI16 F st v =
     (if IsConstantGlobal v then bindR (i16_at st v) (\<lambda>value. ConstF64 st (f64_of_int F (sint value)))
      else AppendInstr st (ins2_1 I16_CONV_F64 v))"

definition AddI32 :: "'l ProgramBuilder \<Rightarrow> Value \<Rightarrow> Value \<Rightarrow> ('l ProgramBuilder \<times> Value) res" where
  "AddI32 st v1 v2 =
     (if both_const v1 v2
      then bindR (i32_at st v1) (\<lambda>value1. bindR (i32_at st v2) (\<lambda>value2. bindR (fit32 (sint value1 + sint value2)) (ConstI32 st)))
      else (let (v1, v2) = const_last v1 v2 in AppendInstr st (ins2_2 I32_ADD v1 v2)))"

definition MulI32 :: "'l ProgramBuilder \<Rightarrow> Value \<Rightarrow> Value \<Rightarrow> ('l ProgramBuilder \<times> Value) res" where
  "MulI32 st v1 v2 =
     (if both_const v1 v2
      then bindR (i32_at st v1) (\<lambda>value1. bindR (i32_at st v2) (\<lambda>value2. bindR (fit32 (sint value1 * sint value2)) (ConstI32 st)))
      else (let (v1, v2) = const_last v1 v2 in AppendInstr st (ins2_2 I32_MUL v1 v2)))"

definition SubI32 :: "'l ProgramBuilder \<Rightarrow> Value \<Rightarrow> Value \<Rightarrow> ('l ProgramBuilder \<times> Value) res" where
  "SubI32 st v1 v2 =
     (if both_const v1 v2
      then bindR (i32_at st v1) (\<lambda>value1. bindR (i32_at st v2) (\<lambda>value2. bindR (fit32 (sint value1 - sint value2)) (ConstI32 st)))
      else AppendInstr st (ins2_2 I32_SUB v1 v2))"

definition CmpI32 :: "'l ProgramBuilder \<Rightarrow> CompType \<Rightarrow> Value \<Rightarrow> Value \<Rightarrow> ('l ProgramBuilder \<times> Value) res" where
  "CmpI32 st cmp v1 v2 =
     (if both_const v1 v2
      then bindR (i32_at st v1) (\<lambda>value1. bindR (i32_at st v2) (\<lambda>value2. ConstI1 st (cmp_int cmp (sint value1) (sint value2))))
      else let (cmp, v1, v2) = swap_cmp cmp v1 v2 in AppendInstr st (ins2_2 (I32_CMP cmp) v1 v2))"

definition I64ZextI32 :: "'l ProgramBuilder \<Rightarrow> Value \<Rightarrow> ('l ProgramBuilder \<times> Value) res" where
  "I64ZextI32 st v =
     (if IsConstantGlobal v then bindR (i32_at st v) (\<lambda>value. ConstI64 st (ucast value))
      else AppendInstr st (ins2_1 I32_ZEXT_I64 v))"

definition F64ConvI32 :: "f64_ops \<Rightarrow> 'l ProgramBuilder \<Rightarrow> Value \<Rightarrow> ('l ProgramBuilder \<times> Value) res" where
  "F64ConvI32 F st v =
     (if IsConstantGlobal v then bindR (i32_at st v) (\<lambda>value. ConstF64 st (f64_of_int F (sint value)))
      else AppendInstr st (ins2_1 I32_CONV_F64 v))"

definition AddI64 :: "'l ProgramBuilder \<Rightarrow> Value \<Rightarrow> Value \<Rightarrow> ('l ProgramBuilder \<times> Value) res" where
  "AddI64 st v1 v2 =
     (if both_const v1 v2
      then bindR (i64_at st v1) (\<lambda>value1. bindR (i64_at st v2) (\<lambda>value2. bindR (fit64 (sint value1 + sint value2)) (ConstI64 st)))
      else (let (v1, v2) = const_last v1 v2 in AppendInstr st (ins2_2 I64_ADD v1 v2)))"

definition MulI64 :: "'l ProgramBuilder \<Rightarrow> Value \<Rightarrow> Value \<Rightarrow> ('l ProgramBuilder \<times> Value) res" where
  "MulI64 st v1 v2 =
     (if both_const v1 v2
      then bindR (i64_at st v1) (\<lambda>value1. bindR (i64_at st v2) (\<lambda>value2. bindR (fit64 (sint value1 * sint value2)) (ConstI64 st)))
      else (let (v1, v2) = const_last v1 v2 in AppendInstr st (ins2_2 I64_MUL v1 v2)))"

definition SubI64 :: "'l ProgramBuilder \<Rightarrow> Value \<Rightarrow> Value \<Rightarrow> ('l ProgramBuilder \<times> Value) res" where
  "SubI64 st v1 v2 =
     (if both_const v1 v2
      then bindR (i64_at st v1) (\<lambda>value1. bindR (i64_at st v2) (\<lambda>value2. bindR (fit64 (sint value1 - sint value2)) (ConstI64 st)))
      else AppendInstr st (ins2_2 I64_SUB v1 v2))"

definition CmpI64 :: "'l ProgramBuilder \<Rightarrow> CompType \<Rightarrow> Value \<Rightarrow> Value \<Rightarrow> ('l ProgramBuilder \<times> Value) res" where
  "CmpI64 st cmp v1 v2 =
     (if both_const v1 v2
      then bindR (i64_at st v1) (\<lambda>value1. bindR (i64_at st v2) (\<lambda>value2. ConstI1 st (cmp_int cmp (sint value1) (sint value2))))
      else let (cmp, v1, v2) = swap_cmp cmp v1 v2 in AppendInstr st (ins2_2 (I64_CMP cmp) v1 v2))"

definition F64ConvI64 :: "f64_ops \<Rightarrow> 'l ProgramBuilder \<Rightarrow> Value \<Rightarrow> ('l ProgramBuilder \<times> Value) res" where
  "F64ConvI64 F st v =
     (if IsConstantGlobal v then bindR (i64_at st v) (\<lambda>value. ConstF64 st (f64_of_int F (sint value)))
      else AppendInstr st (ins2_1 I64_CONV_F64 v))"

definition AndI64 :: "'l ProgramBuilder \<Rightarrow> Value \<Rightarrow> Value \<Rightarrow> ('l ProgramBuilder \<times> Value) res" where
  "AndI64 st v1 v2 =
     (if both_const v1 v2
      then bindR (i64_at st v1) (\<lambda>value1. bindR (i64_at st v2) (\<lambda>value2. ConstI64 st (value1 AND value2)))
      else (let (v1, v2) = const_last v1 v2 in AppendInstr st (ins2_2 I64_AND v1 v2)))"

definition XorI64 :: "'l ProgramBuilder \<Rightarrow> Value \<Rightarrow> Value \<Rightarrow> ('l ProgramBuilder \<times> Value) res" where
  "XorI64 st v1 v2 =
     (if both_const v1 v2
      then bindR (i64_at st v1) (\<lambda>value1. bindR (i64_at st v2) (\<lambda>value2. ConstI64 st (value1 XOR value2)))
      else (let (v1, v2) = const_last v1 v2 in AppendInstr st (ins2_2 I64_XOR v1 v2)))"

definition OrI64 :: "'l ProgramBuilder \<Rightarrow> Value \<Rightarrow> Value \<Rightarrow> ('l ProgramBuilder \<times> Value) res" where
  "OrI64 st v1 v2 =
     (if both_const v1 v2
      then bindR (i64_at st v1) (\<lambda>value1. bindR (i64_at st v2) (\<lambda>value2. ConstI64 st (value1 OR value2)))
      else (let (v1, v2) = const_last v1 v2 in AppendInstr st (ins2_2 I64_OR v1 v2)))"

definition LShiftI64 :: "'l ProgramBuilder \<Rightarrow> Value \<Rightarrow> u8 \<Rightarrow> ('l ProgramBuilder \<times> Value) res" where
  "LShiftI64 st v1 v2 =
     (if IsConstantGlobal v1 then
        bindR (i64_at st v1) (\<lambda>value1.
          if unat v2 < 64 then ConstI64 st (push_bit (unat v2) value1) else Inl Undefined)
      else
        bindR (ConstI64 st (ucast v2)) (\<lambda>(st, materialized_v2).
          AppendInstr st (ins2_2 I64_LSHIFT v1 materialized_v2)))"

definition RShiftI64 :: "'l ProgramBuilder \<Rightarrow> Value \<Rightarrow> u8 \<Rightarrow> ('l ProgramBuilder \<times> Value) res" where
  "RShiftI64 st v1 v2 =
     (if IsConstantGlobal v1 then
        bindR (i64_at st v1) (\<lambda>value1.
          if unat v2 < 64 then ConstI64 st (drop_bit (unat v2) value1) else Inl Undefined)
      else
        bindR (ConstI64 st (ucast v2)) (\<lambda>(st, materialized_v2).
          AppendInstr st (ins2_2 I64_RSHIFT v1 materialized_v2)))"

definition I16TruncI64 :: "'l ProgramBuilder \<Rightarrow> Value \<Rightarrow> ('l ProgramBuilder \<times> Value) res" where
  "I16TruncI64 st v =
     (if IsConstantGlobal v then bindR (i64_at st v) (\<lambda>value. ConstI16 st (ucast value))
      else AppendInstr st (ins2_1 I64_TRUNC_I16 v))"

definition I32TruncI64 :: "'l ProgramBuilder \<Rightarrow> Value \<Rightarrow> ('l ProgramBuilder \<times> Value) res" where
  "I32TruncI64 st v =
     (if IsConstantGlobal v then bindR (i64_at st v) (\<lambda>value. ConstI32 st (ucast value))
      else AppendInstr st (ins2_1 I64_TRUNC_I32 v))"

section \<open>Doubles\<close>

definition AddF64 :: "f64_ops \<Rightarrow> 'l ProgramBuilder \<Rightarrow> Value \<Rightarrow> Value \<Rightarrow> ('l ProgramBuilder \<times> Value) res" where
  "AddF64 F st v1 v2 =
     (if both_const v1 v2
      then bindR (f64_at st v1) (\<lambda>value1. bindR (f64_at st v2) (\<lambda>value2. ConstF64 st (f64_add F value1 value2)))
      else (let (v1, v2) = const_last v1 v2 in AppendInstr st (ins2_2 F64_ADD v1 v2)))"

definition MulF64 :: "f64_ops \<Rightarrow> 'l ProgramBuilder \<Rightarrow> Value \<Rightarrow> Value \<Rightarrow> ('l ProgramBuilder \<times> Value) res" where
  "MulF64 F st v1 v2 =
     (if both_const v1 v2
      then bindR (f64_at st v1) (\<lambda>value1. bindR (f64_at st v2) (\<lambda>value2. ConstF64 st (f64_mul F value1 value2)))
      else (let (v1, v2) = const_last v1 v2 in AppendInstr st (ins2_2 F64_MUL v1 v2)))"

definition DivF64 :: "f64_ops \<Rightarrow> 'l ProgramBuilder \<Rightarrow> Value \<Rightarrow> Value \<Rightarrow> ('l ProgramBuilder \<times> Value) res" where
  "DivF64 F st v1 v2 =
     (if both_const v1 v2
      then bindR (f64_at st v1) (\<lambda>value1. bindR (f64_at st v2) (\<lambda>value2. ConstF64 st (f64_div F value1 value2)))
      else AppendInstr st (ins2_2 F64_DIV v1 v2))"

definition SubF64 :: "f64_ops \<Rightarrow> 'l ProgramBuilder \<Rightarrow> Value \<Rightarrow> Value \<Rightarrow> ('l ProgramBuilder \<times> Value) res" where
  "SubF64 F st v1 v2 =
     (if both_const v1 v2
      then bindR (f64_at st v1) (\<lambda>value1. bindR (f64_at st v2) (\<lambda>value2. ConstF64 st (f64_sub F value1 value2)))
      else AppendInstr st (ins2_2 F64_SUB v1 v2))"

definition CmpF64 :: "'l ProgramBuilder \<Rightarrow> CompType \<Rightarrow> Value \<Rightarrow> Value \<Rightarrow> ('l ProgramBuilder \<times> Value) res" where
  "CmpF64 st cmp v1 v2 =
     (if both_const v1 v2
      then bindR (f64_at st v1) (\<lambda>value1. bindR (f64_at st v2) (\<lambda>value2. ConstI1 st (cmp_f64 cmp value1 value2)))
      else let (cmp, v1, v2) = swap_cmp cmp v1 v2 in AppendInstr st (ins2_2 (F64_CMP cmp) v1 v2))"

definition I64ConvF64 :: "f64_ops \<Rightarrow> 'l ProgramBuilder \<Rightarrow> Value \<Rightarrow> ('l ProgramBuilder \<times> Value) res" where
  "I64ConvF64 F st v =
     (if IsConstantGlobal v then
        bindR (f64_at st v) (\<lambda>value.
          case f64_to_i64 F value of None \<Rightarrow> Inl Undefined | Some x \<Rightarrow> ConstI64 st x)
      else AppendInstr st (ins2_1 F64_CONV_I64 v))"

section \<open>Vectors\<close>

definition CmpEqConstI32_4 :: "'l ProgramBuilder \<Rightarrow> Value \<Rightarrow> u32 list \<Rightarrow> ('l ProgramBuilder \<times> Value) res" where
  "CmpEqConstI32_4 st v1 v2 =
     (let idx = (of_nat (length (vec4_constants st)) :: u32);
          st = st\<lparr>vec4_constants := vec4_constants st @ [v2]\<rparr>
      in bindR (AppendConstantGlobal st (ins1 (ConstantOpcodeTo C_I32_VEC4_CONST_4) (ucast idx)))
           (\<lambda>(st, v2_value). AppendInstr st (ins2_2 I32_CMP_EQ_ANY_CONST_VEC4 v1 v2_value)))"

definition CmpEqConstI32_8 :: "'l ProgramBuilder \<Rightarrow> Value \<Rightarrow> u32 list \<Rightarrow> ('l ProgramBuilder \<times> Value) res" where
  "CmpEqConstI32_8 st v1 v2 =
     bindR (ConstI32Vec8Array st v2) (\<lambda>(st, v2_value).
       AppendInstr st (ins2_2 I32_CMP_EQ_ANY_CONST_VEC8 v1 v2_value))"

definition I32_MAX :: u32 where
  "I32_MAX = 0x7FFFFFFF"

text \<open>\<open>a \<le> b\<close> with a constant \<open>b\<close> becomes \<open>b + 1 > a\<close>, unless \<open>b + 1\<close> does not exist.\<close>

definition CmpLeI32Vec8 ::
    "'l ProgramBuilder \<Rightarrow> Value \<Rightarrow> Value \<Rightarrow> ('l ProgramBuilder \<times> Opcode \<times> Value \<times> Value) res" where
  "CmpLeI32Vec8 st v1 v2 =
     (if IsConstantGlobal v2 then
        bindR (nthR (constant_instrs st) (unat (GetIdx v2))) (\<lambda>instr.
          let opcode = ConstantOpcodeFrom (T1Opcode instr) in
          if opcode = C_I32_VEC8_CONST_1 then
            (if T1Constant instr \<noteq> ucast I32_MAX
             then bindR (ConstI32Vec8 st (ucast (T1Constant instr + 1))) (\<lambda>(st, v2').
                    Inr (st, I32_VEC8_CMP_GT, v2', v1))
             else Inr (st, I32_VEC8_CMP_LE, v1, v2))
          else if opcode = C_I32_VEC8_CONST_8 then
            bindR (nthR (vec8_constants st) (unat (T1Constant instr))) (\<lambda>c2.
              if \<forall>x\<in>set c2. x \<noteq> I32_MAX
              then bindR (ConstI32Vec8Array st (map (\<lambda>x. x + 1) c2)) (\<lambda>(st, v2').
                     Inr (st, I32_VEC8_CMP_GT, v2', v1))
              else Inr (st, I32_VEC8_CMP_LE, v1, v2))
          else Inr (st, I32_VEC8_CMP_LE, v1, v2))
      else Inr (st, I32_VEC8_CMP_LE, v1, v2))"

definition CmpI32Vec8 ::
    "'l ProgramBuilder \<Rightarrow> CompType \<Rightarrow> Value \<Rightarrow> Value \<Rightarrow> ('l ProgramBuilder \<times> Value) res" where
  "CmpI32Vec8 st cmp v1 v2 =
     bindR
       (case cmp of
          EQ \<Rightarrow> Inr (st, I32_VEC8_CMP_EQ, v1, v2)
        | NE \<Rightarrow> Inr (st, I32_VEC8_CMP_NE, v1, v2)
        | LT \<Rightarrow> Inr (st, I32_VEC8_CMP_GT, v2, v1)
        | LE \<Rightarrow> CmpLeI32Vec8 st v1 v2
        | GT \<Rightarrow> Inr (st, I32_VEC8_CMP_GT, v1, v2)
        | GE \<Rightarrow> Inr (st, I32_VEC8_CMP_GE, v1, v2))
       (\<lambda>(st, opcode, v1, v2). AppendInstr st (ins2_2 opcode v1 v2))"

definition I32Vec8ConvI32 :: "'l ProgramBuilder \<Rightarrow> Value \<Rightarrow> ('l ProgramBuilder \<times> Value) res" where
  "I32Vec8ConvI32 st v = AppendInstr st (ins2_1 I32_CONV_I32_VEC8 v)"

definition NotI1Vec8 :: "'l ProgramBuilder \<Rightarrow> Value \<Rightarrow> ('l ProgramBuilder \<times> Value) res" where
  "NotI1Vec8 st v = AppendInstr st (ins2_1 I1_VEC8_NOT v)"

definition MaskToPermutePtr :: "'l ProgramBuilder \<Rightarrow> Value \<Rightarrow> ('l ProgramBuilder \<times> Value) res" where
  "MaskToPermutePtr st v = AppendInstr st (ins2_1 MASK_TO_PERMUTE v)"

definition ExtractMaskI1Vec8 :: "'l ProgramBuilder \<Rightarrow> Value \<Rightarrow> ('l ProgramBuilder \<times> Value) res" where
  "ExtractMaskI1Vec8 st v = AppendInstr st (ins2_1 I1_VEC8_MASK_EXTRACT v)"

definition PopcountI64 :: "'l ProgramBuilder \<Rightarrow> Value \<Rightarrow> ('l ProgramBuilder \<times> Value) res" where
  "PopcountI64 st v = AppendInstr st (ins2_1 I64_POPCOUNT v)"

definition AddI32Vec8 :: "'l ProgramBuilder \<Rightarrow> Value \<Rightarrow> Value \<Rightarrow> ('l ProgramBuilder \<times> Value) res" where
  "AddI32Vec8 st v1 v2 = AppendInstr st (ins2_2 I32_VEC8_ADD v1 v2)"

definition OrI1Vec8 :: "'l ProgramBuilder \<Rightarrow> Value \<Rightarrow> Value \<Rightarrow> ('l ProgramBuilder \<times> Value) res" where
  "OrI1Vec8 st v1 v2 = AppendInstr st (ins2_2 I1_VEC8_OR v1 v2)"

definition AndI1Vec8 :: "'l ProgramBuilder \<Rightarrow> Value \<Rightarrow> Value \<Rightarrow> ('l ProgramBuilder \<times> Value) res" where
  "AndI1Vec8 st v1 v2 = AppendInstr st (ins2_2 I1_VEC8_AND v1 v2)"

definition PermuteI32Vec8 :: "'l ProgramBuilder \<Rightarrow> Value \<Rightarrow> Value \<Rightarrow> ('l ProgramBuilder \<times> Value) res" where
  "PermuteI32Vec8 st v1 v2 = AppendInstr st (ins2_2 I32_VEC8_PERMUTE v1 v2)"

section \<open>Pointers\<close>

definition IsNullPtr :: "'l ProgramBuilder \<Rightarrow> Value \<Rightarrow> ('l ProgramBuilder \<times> Value) res" where
  "IsNullPtr st v =
     bindR (if IsConstantGlobal v then
              bindR (nthR (constant_instrs st) (unat (GetIdx v))) (\<lambda>i.
                Inr (ConstantOpcodeFrom (GenericOpcode i) = C_NULLPTR))
            else Inr False) (\<lambda>null.
       if null then ConstI1 st True else AppendInstr st (ins2_1 PTR_CMP_NULLPTR v))"

definition GetSize :: "'l llvm \<Rightarrow> 'l ProgramBuilder \<Rightarrow> Type \<Rightarrow> ('l ProgramBuilder \<times> u64) res" where
  "GetSize L st type =
     bindR (GetPointerOffset L (type_manager st) type [1] False) (\<lambda>(tm, offset, result_type).
       Inr (st\<lparr>type_manager := tm\<rparr>, word_of_int offset))"

definition SizeOf :: "'l llvm \<Rightarrow> 'l ProgramBuilder \<Rightarrow> Type \<Rightarrow> ('l ProgramBuilder \<times> Value) res" where
  "SizeOf L st type =
     bindR (GetPointerOffset L (type_manager st) type [1] False) (\<lambda>(tm, offset, result_type).
       ConstI64 (st\<lparr>type_manager := tm\<rparr>) (word_of_int offset))"

definition StaticGEP ::
    "'l llvm \<Rightarrow> 'l ProgramBuilder \<Rightarrow> Type \<Rightarrow> Value \<Rightarrow> int list \<Rightarrow> ('l ProgramBuilder \<times> Value) res" where
  "StaticGEP L st t v idx =
     bindR (GetPointerOffset L (type_manager st) t idx False) (\<lambda>(tm, offset, result_type).
     bindR (ConstI32 (st\<lparr>type_manager := tm\<rparr>) (word_of_int offset)) (\<lambda>(st, offset_v).
     bindR (AppendInstr st (ins2_2 GEP_STATIC_OFFSET v offset_v)) (\<lambda>(st, _).
       AppendInstr st (T3SetTypeID (T3SetOpcode 0 (OpcodeTo GEP_STATIC)) result_type))))"

definition DynamicGEP ::
    "'l llvm \<Rightarrow> 'l ProgramBuilder \<Rightarrow> Type \<Rightarrow> Value \<Rightarrow> Value \<Rightarrow> int list
     \<Rightarrow> ('l ProgramBuilder \<times> Value) res" where
  "DynamicGEP L st t v dynamic_idx idx =
     (if IsConstantGlobal dynamic_idx then
        bindR (const_at st dynamic_idx) (\<lambda>c. StaticGEP L st t v (sint (ucast c :: u32) # idx))
      else
        bindR (GetPointerOffset L (type_manager st) t idx True) (\<lambda>(tm, offset, result_type).
        bindR (ConstI32 (st\<lparr>type_manager := tm\<rparr>) (word_of_int offset)) (\<lambda>(st, offset_v).
        bindR (GetTypeSize L (type_manager st) t) (\<lambda>type_size.
          if type_size \<notin> set [1, 2, 4, 8]
          then Inl (RuntimeError ''Invalid type size. Needs to be 1/2/4/8'')
          else
            bindR (AppendInstr st (ins2_2 GEP_DYNAMIC_OFFSET dynamic_idx offset_v)) (\<lambda>(st, _).
              AppendInstr st
                (T3SetTypeID
                   (T3SetSarg (T3SetArg (T3SetOpcode 0 (OpcodeTo GEP_DYNAMIC)) (Serialize v))
                      (word_of_int type_size)) result_type))))))"

end
