(* ===== verification/KhirConstants.thy ===== *)
theory KhirConstants
  imports KhirArith "HOL-Library.Sublist"
begin

text \<open>
  The constants of a program (\<^verbatim>\<open>ProgramBuilder::Const*\<close>). Each width has its own table from
  constants to values; the contract they share is a locale: making a constant returns the
  value interned for it, reading that value returns the constant, and nothing made before is
  lost. The tables of the builder are its instances. On top of it: folding two constants
  leaves the constant that the instruction would have computed.
\<close>

section \<open>The contract of a table of constants\<close>

fun make_all :: "('s \<Rightarrow> 'c \<Rightarrow> ('s \<times> 'v) res) \<Rightarrow> 's \<Rightarrow> 'c list \<Rightarrow> ('s \<times> 'v list) res" where
  "make_all mk st [] = Inr (st, [])"
| "make_all mk st (c # cs) =
     bindR (mk st c) (\<lambda>(st, v). bindR (make_all mk st cs) (\<lambda>(st, vs). Inr (st, v # vs)))"

locale constant_pool =
  fixes inv :: "'s \<Rightarrow> bool" and ext :: "'s \<Rightarrow> 's \<Rightarrow> bool" and room :: "'s \<Rightarrow> nat"
    and make :: "'s \<Rightarrow> 'c \<Rightarrow> ('s \<times> 'v) res"
    and interned :: "'s \<Rightarrow> 'c \<rightharpoonup> 'v" and reading :: "'s \<Rightarrow> 'v \<Rightarrow> 'c res"
  assumes ext_refl: "ext st st"
    and ext_trans: "ext st st1 \<Longrightarrow> ext st1 st2 \<Longrightarrow> ext st st2"
    and read_mono: "ext st st' \<Longrightarrow> reading st v = Inr c \<Longrightarrow> reading st' v = Inr c"
    and interned_read: "inv st \<Longrightarrow> interned st c = Some v \<Longrightarrow> reading st v = Inr c"
    and make_hit: "interned st c = Some v \<Longrightarrow> make st c = Inr (st, v)"
    and make_miss: "inv st \<Longrightarrow> interned st c = None \<Longrightarrow> make st c = Inr (st', v) \<Longrightarrow>
      inv st' \<and> ext st st' \<and> interned st' = (interned st)(c \<mapsto> v) \<and> Suc (room st') = room st"
    and make_full: "inv st \<Longrightarrow> interned st c = None \<Longrightarrow>
      0 < room st \<Longrightarrow> \<exists>st' v. make st c = Inr (st', v)"
begin

lemma make_law:
  assumes "inv st" "make st c = Inr (st', v)"
  shows "inv st'" "ext st st'" "interned st' c = Some v" "reading st' v = Inr c"
    "room st \<le> Suc (room st')" "interned st d = Some w \<Longrightarrow> interned st' d = Some w"
proof -
  have "inv st' \<and> ext st st' \<and> interned st' c = Some v \<and> room st \<le> Suc (room st')
    \<and> (interned st d = Some w \<longrightarrow> interned st' d = Some w)"
    using make_hit [of st c] make_miss [OF assms(1) _ assms(2)] assms ext_refl
    by (cases "interned st c") (auto split: if_splits)
  then show "inv st'" "ext st st'" "interned st' c = Some v" "reading st' v = Inr c"
    "room st \<le> Suc (room st')" "interned st d = Some w \<Longrightarrow> interned st' d = Some w"
    using interned_read by auto
qed

lemma make_total:
  assumes "inv st" "0 < room st"
  obtains st' v where "make st c = Inr (st', v)"
  using make_hit [of st c] make_full [OF assms(1) _ assms(2), of c] by (cases "interned st c") blast+

lemma make_folds:
  assumes "inv st" "0 < room st"
  shows "\<exists>st' v. make st c = Inr (st', v) \<and> inv st' \<and> ext st st' \<and> reading st' v = Inr c"
proof -
  obtain st' v where m: "make st c = Inr (st', v)" by (rule make_total [OF assms])
  with make_law(1,2,4) [OF assms(1) m] show ?thesis by blast
qed

lemma make_again: "inv st \<Longrightarrow> make st c = Inr (st', v) \<Longrightarrow> make st' c = Inr (st', v)"
  using make_law(3) make_hit by blast

text \<open>A sequence of constants: all are made, and equal values are equal constants.\<close>

lemma make_all_law:
  assumes "inv st" "length cs \<le> room st"
  shows "\<exists>st' vs. make_all make st cs = Inr (st', vs) \<and> inv st' \<and> ext st st'
    \<and> list_all2 (\<lambda>c v. interned st' c = Some v) cs vs
    \<and> (\<forall>d w. interned st d = Some w \<longrightarrow> interned st' d = Some w)"
  using assms
proof (induction cs arbitrary: st)
  case Nil
  then show ?case by (simp add: ext_refl)
next
  case (Cons c cs)
  then obtain st1 v where m: "make st c = Inr (st1, v)" by (metis make_total length_greater_0_conv
      list.distinct(1) less_le_trans)
  note l = make_law [OF Cons.prems(1) m]
  have "length cs \<le> room st1" using Cons.prems(2) l(5) by simp
  from Cons.IH [OF l(1) this] obtain st' vs where
    r: "make_all make st1 cs = Inr (st', vs)" "inv st'" "ext st1 st'"
    "list_all2 (\<lambda>c v. interned st' c = Some v) cs vs"
    "\<forall>d w. interned st1 d = Some w \<longrightarrow> interned st' d = Some w" by blast
  then show ?case using m l(3,6) ext_trans [OF l(2) r(3)] by auto
qed

lemma interned_inj:
  "inv st \<Longrightarrow> interned st c = Some v \<Longrightarrow> interned st d = Some w \<Longrightarrow> v = w \<longleftrightarrow> c = d"
  using interned_read by (metis sum.inject(2) option.inject)

lemma make_all_correct:
  assumes "inv st" "length cs \<le> room st"
  shows "\<exists>st' vs. make_all make st cs = Inr (st', vs) \<and> inv st' \<and> length vs = length cs
    \<and> (\<forall>i<length cs. reading st' (vs ! i) = Inr (cs ! i))
    \<and> (\<forall>i<length cs. \<forall>j<length cs. vs ! i = vs ! j \<longleftrightarrow> cs ! i = cs ! j)
    \<and> (\<forall>w c. reading st w = Inr c \<longrightarrow> reading st' w = Inr c)"
proof -
  from make_all_law [OF assms] obtain st' vs where m:
    "make_all make st cs = Inr (st', vs)" "inv st'" "ext st st'"
    "list_all2 (\<lambda>c v. interned st' c = Some v) cs vs" by blast
  from m(4) have l: "length cs = length vs" "\<forall>i<length cs. interned st' (cs ! i) = Some (vs ! i)"
    by (auto simp: list_all2_conv_all_nth)
  then have "\<forall>i<length cs. reading st' (vs ! i) = Inr (cs ! i)"
    "\<forall>i<length cs. \<forall>j<length cs. vs ! i = vs ! j \<longleftrightarrow> cs ! i = cs ! j"
    using interned_read [OF m(2)] interned_inj [OF m(2)] by blast+
  with m(1,2) l(1) read_mono [OF m(3)] show ?thesis by auto
qed

end

section \<open>The tables of the builder\<close>

definition const_instr :: "u64 list \<Rightarrow> Value \<Rightarrow> u64 \<Rightarrow> bool" where
  "const_instr is v instr \<longleftrightarrow> IsConstantGlobal v \<and> unat (GetIdx v) < length is
     \<and> is ! unat (GetIdx v) = instr"

text \<open>The constant of an instruction that holds its position in a pool.\<close>

definition pooled :: "u64 list \<Rightarrow> 'c list \<Rightarrow> u8 \<Rightarrow> Value \<Rightarrow> 'c \<Rightarrow> bool" where
  "pooled is pool op v c \<longleftrightarrow> (\<exists>id<length pool. id < 2 ^ 23 \<and> pool ! id = c
     \<and> const_instr is v (ins1 op (ucast (of_nat id :: u32))))"

definition table_ok :: "('c \<rightharpoonup> 'v) \<Rightarrow> ('v \<Rightarrow> 'c \<Rightarrow> bool) \<Rightarrow> bool" where
  "table_ok tab P \<longleftrightarrow> (\<forall>c v. tab c = Some v \<longrightarrow> P v c)"

definition tables_ok :: "'l ProgramBuilder \<Rightarrow> bool" where
  "tables_ok st \<longleftrightarrow>
       table_ok (i1_const_to_value st)
         (\<lambda>v c. const_instr (constant_instrs st) v (ins1 (ConstantOpcodeTo C_I1_CONST) (if c then 1 else 0)))
     \<and> table_ok (i8_const_to_value st)
         (\<lambda>v c. const_instr (constant_instrs st) v (ins1 (ConstantOpcodeTo C_I8_CONST) (ucast c)))
     \<and> table_ok (i16_const_to_value st)
         (\<lambda>v c. const_instr (constant_instrs st) v (ins1 (ConstantOpcodeTo C_I16_CONST) (ucast c)))
     \<and> table_ok (i32_const_to_value st)
         (\<lambda>v c. const_instr (constant_instrs st) v (ins1 (ConstantOpcodeTo C_I32_CONST) (ucast c)))
     \<and> table_ok (i64_const_to_value st)
         (pooled (constant_instrs st) (i64_constants st) (ConstantOpcodeTo C_I64_CONST))
     \<and> table_ok (ptr_const_to_value st)
         (pooled (constant_instrs st) (ptr_constants st) (ConstantOpcodeTo C_PTR_CONST))
     \<and> table_ok (string_const_to_value st)
         (pooled (constant_instrs st) (char_array_constants st) (ConstantOpcodeTo C_GLOBAL_CHAR_ARRAY_CONST))"

definition lengths_ok :: "'l ProgramBuilder \<Rightarrow> bool" where
  "lengths_ok st \<longleftrightarrow> length (constant_instrs st) \<le> 2 ^ 23
     \<and> length (i64_constants st) \<le> length (constant_instrs st)
     \<and> length (ptr_constants st) \<le> length (constant_instrs st)
     \<and> length (char_array_constants st) \<le> length (constant_instrs st)"

definition pool_ok :: "'l ProgramBuilder \<Rightarrow> bool" where
  "pool_ok st \<longleftrightarrow> lengths_ok st \<and> tables_ok st"

definition pool_room :: "'l ProgramBuilder \<Rightarrow> nat" where
  "pool_room st = 2 ^ 23 - length (constant_instrs st)"

text \<open>What may happen to a builder while constants are made.\<close>

definition pool_ext :: "'l ProgramBuilder \<Rightarrow> 'l ProgramBuilder \<Rightarrow> bool" where
  "pool_ext st st' \<longleftrightarrow> prefix (constant_instrs st) (constant_instrs st')
     \<and> prefix (i64_constants st) (i64_constants st') \<and> prefix (ptr_constants st) (ptr_constants st')
     \<and> prefix (char_array_constants st) (char_array_constants st')
     \<and> f64_constants st' = f64_constants st \<and> pb_functions st' = pb_functions st
     \<and> current_function st' = current_function st \<and> type_manager st' = type_manager st"

definition i1_at :: "'l ProgramBuilder \<Rightarrow> Value \<Rightarrow> bool res" where
  "i1_at st v = bindR (const_at st v) (\<lambda>c. Inr (c \<noteq> 0))"

definition ptr_at :: "'l ProgramBuilder \<Rightarrow> Value \<Rightarrow> u64 res" where
  "ptr_at st v = bindR (const_at st v) (\<lambda>id. nthR (ptr_constants st) (unat id))"

definition char_array_at :: "'l ProgramBuilder \<Rightarrow> Value \<Rightarrow> string res" where
  "char_array_at st v = bindR (const_at st v) (\<lambda>id. nthR (char_array_constants st) (unat id))"

lemma T1Constant_ins1: "T1Constant (ins1 op c) = take_bit 48 c"
  by (simp add: ins1_def field_defs field_laws)

lemma take_bit_48_ucast [simp]:
  "take_bit 48 (ucast (x :: u8) :: u64) = ucast x"
  "take_bit 48 (ucast (x2 :: u16) :: u64) = ucast x2"
  "take_bit 48 (ucast (x3 :: u32) :: u64) = ucast x3"
  by (rule bit_word_eqI; auto simp: bit_simps dest: bit_imp_le_length)+

lemma ucast_up_down [simp]:
  "(ucast (ucast (x :: u8) :: u64) :: u8) = x"
  "(ucast (ucast (x2 :: u16) :: u64) :: u16) = x2"
  "(ucast (ucast (x3 :: u32) :: u64) :: u32) = x3"
  by (rule bit_word_eqI; auto simp: bit_simps)+

lemma unat_ucast_32_64: "unat (ucast (x :: u32) :: u64) = unat x"
proof -
  have "unat x < 2 ^ 32" using unsigned_less [of x] by simp
  then show ?thesis by (simp add: unsigned_ucast_eq take_bit_nat_eq_self)
qed

lemma prefix_nth: "prefix xs ys \<Longrightarrow> i < length xs \<Longrightarrow> i < length ys \<and> ys ! i = xs ! i"
  by (auto simp: prefix_def nth_append)

lemma AppendConstantGlobal_law:
  assumes "AppendConstantGlobal st instr = Inr (st', v)" "length (constant_instrs st) \<le> 2 ^ 23"
  shows "st' = st\<lparr>constant_instrs := constant_instrs st @ [instr]\<rparr>" "const_instr (constant_instrs st') v instr"
    "length (constant_instrs st) < 2 ^ 23"
proof -
  let ?n = "length (constant_instrs st)"
  have m: "MakeValue (of_nat ?n) True = Inr v" and st: "st' = st\<lparr>constant_instrs := constant_instrs st @ [instr]\<rparr>"
    using assms(1) by (auto simp: AppendConstantGlobal_def Let_def bindR_Inr_iff)
  have n: "unat (of_nat ?n :: u32) = ?n" using assms(2) by (simp add: unat_of_nat)
  have small: "(of_nat ?n :: u32) \<le> 0x7FFFFF"
    using m by (auto simp: MakeValue_def split: if_splits)
  have v: "GetIdx v = of_nat ?n" "IsConstantGlobal v"
    using MakeValue_law [OF m] by simp_all
  show "st' = st\<lparr>constant_instrs := constant_instrs st @ [instr]\<rparr>" by (rule st)
  show "const_instr (constant_instrs st') v instr" by (simp add: const_instr_def v n st)
  show "?n < 2 ^ 23" using small n by (simp add: word_le_nat_alt)
qed

lemma AppendConstantGlobal_total:
  assumes "length (constant_instrs st) < 2 ^ 23"
  shows "\<exists>st' v. AppendConstantGlobal st instr = Inr (st', v)"
proof -
  have "(of_nat (length (constant_instrs st)) :: u32) \<le> 0x7FFFFF"
    using assms by (simp add: word_le_nat_alt unat_of_nat)
  then show ?thesis by (auto simp: AppendConstantGlobal_def MakeValue_def Let_def)
qed

lemma table_ok_mono: "table_ok tab P \<Longrightarrow> (\<And>v c. P v c \<Longrightarrow> Q v c) \<Longrightarrow> table_ok tab Q"
  by (auto simp: table_ok_def)

lemma table_ok_upd: "table_ok tab P \<Longrightarrow> P v c \<Longrightarrow> table_ok (tab(c \<mapsto> v)) P"
  by (simp add: table_ok_def)

lemma table_okD: "table_ok tab P \<Longrightarrow> tab c = Some v \<Longrightarrow> P v c"
  by (simp add: table_ok_def)

lemma const_instr_ext:
  "const_instr is v i \<Longrightarrow> prefix is is' \<Longrightarrow> const_instr is' v i"
  by (auto simp: const_instr_def dest: prefix_nth)

lemma pooled_ext:
  assumes "pooled is pool op v c" "prefix is is'" "prefix pool pool'"
  shows "pooled is' pool' op v c"
  using assms unfolding pooled_def by (meson const_instr_ext prefix_nth)

lemma const_at_instr: "const_instr (constant_instrs st) v i \<Longrightarrow> const_at st v = Inr (T1Constant i)"
  by (simp add: const_instr_def const_at_def)

lemma const_at_ext:
  "const_at st v = Inr c \<Longrightarrow> prefix (constant_instrs st) (constant_instrs st') \<Longrightarrow> const_at st' v = Inr c"
  by (auto simp: const_at_def bindR_Inr_iff nthR_Inr_iff dest: prefix_nth)

lemma pooled_at:
  assumes "pooled (constant_instrs st) pool op v c"
  shows "bindR (const_at st v) (\<lambda>id. nthR pool (unat id)) = Inr c"
proof -
  from assms obtain id where id: "id < length pool" "id < 2 ^ 23" "pool ! id = c"
    "const_instr (constant_instrs st) v (ins1 op (ucast (of_nat id :: u32)))" by (auto simp: pooled_def)
  have "unat (ucast (of_nat id :: u32) :: u64) = id" using id(2) by (simp add: unat_ucast_32_64 unat_of_nat)
  then show ?thesis using id by (simp add: const_at_instr [OF id(4)] T1Constant_ins1)
qed

text \<open>A state whose constants and pools have grown, with the tables as before.\<close>

lemma tables_ok_ext:
  assumes "tables_ok st" "prefix (constant_instrs st) (constant_instrs st')"
    "prefix (i64_constants st) (i64_constants st')" "prefix (ptr_constants st) (ptr_constants st')"
    "prefix (char_array_constants st) (char_array_constants st')"
    "i1_const_to_value st' = i1_const_to_value st" "i8_const_to_value st' = i8_const_to_value st"
    "i16_const_to_value st' = i16_const_to_value st" "i32_const_to_value st' = i32_const_to_value st"
    "i64_const_to_value st' = i64_const_to_value st" "ptr_const_to_value st' = ptr_const_to_value st"
    "string_const_to_value st' = string_const_to_value st"
  shows "tables_ok st'"
  using assms(1) unfolding tables_ok_def assms(6-)
  by (elim conjE, intro conjI)
    (erule table_ok_mono, erule const_instr_ext pooled_ext, rule assms; (rule assms)?)+

lemmas const_tables = tables_ok_def lengths_ok_def pool_ok_def pool_ext_def pool_room_def table_ok_upd

lemma ConstI1_miss:
  assumes ok: "pool_ok st" and none: "i1_const_to_value st c = None" and m: "ConstI1 st c = Inr (st', v)"
  shows "pool_ok st' \<and> pool_ext st st' \<and> i1_const_to_value st' = (i1_const_to_value st)(c \<mapsto> v)
    \<and> Suc (pool_room st') = pool_room st"
proof -
  from m none obtain st1 where a: "AppendConstantGlobal st (ins1 (ConstantOpcodeTo C_I1_CONST) (if c then 1 else 0)) = Inr (st1, v)"
    and st': "st' = st1\<lparr>i1_const_to_value := (i1_const_to_value st1)(c \<mapsto> v)\<rparr>"
    by (auto simp: ConstI1_def bindR_Inr_iff)
  from ok have len: "length (constant_instrs st) \<le> 2 ^ 23" by (simp add: const_tables)
  note l = AppendConstantGlobal_law [OF a len]
  have "tables_ok st1" by (rule tables_ok_ext [of st]) (use ok in \<open>simp_all add: l(1) pool_ok_def\<close>)
  with l show ?thesis using ok by (simp add: st' const_tables)
qed

lemma ConstI8_miss:
  assumes ok: "pool_ok st" and none: "i8_const_to_value st c = None" and m: "ConstI8 st c = Inr (st', v)"
  shows "pool_ok st' \<and> pool_ext st st' \<and> i8_const_to_value st' = (i8_const_to_value st)(c \<mapsto> v)
    \<and> Suc (pool_room st') = pool_room st"
proof -
  from m none obtain st1 where a: "AppendConstantGlobal st (ins1 (ConstantOpcodeTo C_I8_CONST) (ucast c)) = Inr (st1, v)"
    and st': "st' = st1\<lparr>i8_const_to_value := (i8_const_to_value st1)(c \<mapsto> v)\<rparr>"
    by (auto simp: ConstI8_def bindR_Inr_iff)
  from ok have len: "length (constant_instrs st) \<le> 2 ^ 23" by (simp add: const_tables)
  note l = AppendConstantGlobal_law [OF a len]
  have "tables_ok st1" by (rule tables_ok_ext [of st]) (use ok in \<open>simp_all add: l(1) pool_ok_def\<close>)
  with l show ?thesis using ok by (simp add: st' const_tables)
qed

lemma ConstI16_miss:
  assumes ok: "pool_ok st" and none: "i16_const_to_value st c = None" and m: "ConstI16 st c = Inr (st', v)"
  shows "pool_ok st' \<and> pool_ext st st' \<and> i16_const_to_value st' = (i16_const_to_value st)(c \<mapsto> v)
    \<and> Suc (pool_room st') = pool_room st"
proof -
  from m none obtain st1 where a: "AppendConstantGlobal st (ins1 (ConstantOpcodeTo C_I16_CONST) (ucast c)) = Inr (st1, v)"
    and st': "st' = st1\<lparr>i16_const_to_value := (i16_const_to_value st1)(c \<mapsto> v)\<rparr>"
    by (auto simp: ConstI16_def bindR_Inr_iff)
  from ok have len: "length (constant_instrs st) \<le> 2 ^ 23" by (simp add: const_tables)
  note l = AppendConstantGlobal_law [OF a len]
  have "tables_ok st1" by (rule tables_ok_ext [of st]) (use ok in \<open>simp_all add: l(1) pool_ok_def\<close>)
  with l show ?thesis using ok by (simp add: st' const_tables)
qed

lemma ConstI32_miss:
  assumes ok: "pool_ok st" and none: "i32_const_to_value st c = None" and m: "ConstI32 st c = Inr (st', v)"
  shows "pool_ok st' \<and> pool_ext st st' \<and> i32_const_to_value st' = (i32_const_to_value st)(c \<mapsto> v)
    \<and> Suc (pool_room st') = pool_room st"
proof -
  from m none obtain st1 where a: "AppendConstantGlobal st (ins1 (ConstantOpcodeTo C_I32_CONST) (ucast c)) = Inr (st1, v)"
    and st': "st' = st1\<lparr>i32_const_to_value := (i32_const_to_value st1)(c \<mapsto> v)\<rparr>"
    by (auto simp: ConstI32_def bindR_Inr_iff)
  from ok have len: "length (constant_instrs st) \<le> 2 ^ 23" by (simp add: const_tables)
  note l = AppendConstantGlobal_law [OF a len]
  have "tables_ok st1" by (rule tables_ok_ext [of st]) (use ok in \<open>simp_all add: l(1) pool_ok_def\<close>)
  with l show ?thesis using ok by (simp add: st' const_tables)
qed

lemma ConstI64_miss:
  assumes ok: "pool_ok st" and none: "i64_const_to_value st c = None" and m: "ConstI64 st c = Inr (st', v)"
  shows "pool_ok st' \<and> pool_ext st st' \<and> i64_const_to_value st' = (i64_const_to_value st)(c \<mapsto> v)
    \<and> Suc (pool_room st') = pool_room st"
proof -
  let ?id = "length (i64_constants st)" and ?st = "st\<lparr>i64_constants := i64_constants st @ [c]\<rparr>"
  from m none obtain st1 where
    a: "AppendConstantGlobal ?st (ins1 (ConstantOpcodeTo C_I64_CONST) (ucast (of_nat ?id :: u32))) = Inr (st1, v)"
    and st': "st' = st1\<lparr>i64_const_to_value := (i64_const_to_value st1)(c \<mapsto> v)\<rparr>"
    by (auto simp: ConstI64_def Let_def bindR_Inr_iff)
  from ok have len: "length (constant_instrs ?st) \<le> 2 ^ 23" by (simp add: const_tables)
  note l = AppendConstantGlobal_law [OF a len]
  have "tables_ok st1" by (rule tables_ok_ext [of st]) (use ok in \<open>simp_all add: l(1) pool_ok_def\<close>)
  moreover have "?id < 2 ^ 23" using ok l(3) by (simp add: const_tables)
  then have "pooled (constant_instrs st1) (i64_constants st1) (ConstantOpcodeTo C_I64_CONST) v c"
    using l(1,2) unfolding pooled_def by (intro exI [of _ ?id]) simp
  ultimately show ?thesis using ok l by (simp add: st' const_tables)
qed

lemma ConstPtr_miss:
  assumes ok: "pool_ok st" and none: "ptr_const_to_value st c = None" and m: "ConstPtr st c = Inr (st', v)"
  shows "pool_ok st' \<and> pool_ext st st' \<and> ptr_const_to_value st' = (ptr_const_to_value st)(c \<mapsto> v)
    \<and> Suc (pool_room st') = pool_room st"
proof -
  let ?id = "length (ptr_constants st)" and ?st = "st\<lparr>ptr_constants := ptr_constants st @ [c]\<rparr>"
  from m none obtain st1 where
    a: "AppendConstantGlobal ?st (ins1 (ConstantOpcodeTo C_PTR_CONST) (ucast (of_nat ?id :: u32))) = Inr (st1, v)"
    and st': "st' = st1\<lparr>ptr_const_to_value := (ptr_const_to_value st1)(c \<mapsto> v)\<rparr>"
    by (auto simp: ConstPtr_def Let_def bindR_Inr_iff)
  from ok have len: "length (constant_instrs ?st) \<le> 2 ^ 23" by (simp add: const_tables)
  note l = AppendConstantGlobal_law [OF a len]
  have "tables_ok st1" by (rule tables_ok_ext [of st]) (use ok in \<open>simp_all add: l(1) pool_ok_def\<close>)
  moreover have "?id < 2 ^ 23" using ok l(3) by (simp add: const_tables)
  then have "pooled (constant_instrs st1) (ptr_constants st1) (ConstantOpcodeTo C_PTR_CONST) v c"
    using l(1,2) unfolding pooled_def by (intro exI [of _ ?id]) simp
  ultimately show ?thesis using ok l by (simp add: st' const_tables)
qed

lemma GlobalConstCharArray_miss:
  assumes ok: "pool_ok st" and none: "string_const_to_value st c = None" and m: "GlobalConstCharArray st c = Inr (st', v)"
  shows "pool_ok st' \<and> pool_ext st st' \<and> string_const_to_value st' = (string_const_to_value st)(c \<mapsto> v)
    \<and> Suc (pool_room st') = pool_room st"
proof -
  let ?id = "length (char_array_constants st)" and ?st = "st\<lparr>char_array_constants := char_array_constants st @ [c]\<rparr>"
  from m none obtain st1 where
    a: "AppendConstantGlobal ?st (ins1 (ConstantOpcodeTo C_GLOBAL_CHAR_ARRAY_CONST) (ucast (of_nat ?id :: u32))) = Inr (st1, v)"
    and st': "st' = st1\<lparr>string_const_to_value := (string_const_to_value st1)(c \<mapsto> v)\<rparr>"
    by (auto simp: GlobalConstCharArray_def Let_def bindR_Inr_iff)
  from ok have len: "length (constant_instrs ?st) \<le> 2 ^ 23" by (simp add: const_tables)
  note l = AppendConstantGlobal_law [OF a len]
  have "tables_ok st1" by (rule tables_ok_ext [of st]) (use ok in \<open>simp_all add: l(1) pool_ok_def\<close>)
  moreover have "?id < 2 ^ 23" using ok l(3) by (simp add: const_tables)
  then have "pooled (constant_instrs st1) (char_array_constants st1) (ConstantOpcodeTo C_GLOBAL_CHAR_ARRAY_CONST) v c"
    using l(1,2) unfolding pooled_def by (intro exI [of _ ?id]) simp
  ultimately show ?thesis using ok l by (simp add: st' const_tables)
qed

lemma pool_ext_refl: "pool_ext st st"
  by (simp add: pool_ext_def)

lemma pool_ext_trans: "pool_ext st st1 \<Longrightarrow> pool_ext st1 st2 \<Longrightarrow> pool_ext st st2"
  unfolding pool_ext_def by (auto intro: prefix_order.trans)

lemma pool_ext_const_at: "pool_ext st st' \<Longrightarrow> const_at st v = Inr c \<Longrightarrow> const_at st' v = Inr c"
  by (auto simp: pool_ext_def intro: const_at_ext)

lemma nthR_prefix: "nthR xs i = Inr c \<Longrightarrow> prefix xs ys \<Longrightarrow> nthR ys i = Inr c"
  by (auto simp: nthR_Inr_iff dest: prefix_nth)

lemmas at_defs = i1_at_def i8_at_def i16_at_def i32_at_def i64_at_def ptr_at_def char_array_at_def

lemma reads_ext:
  assumes "pool_ext st st'"
  shows "i1_at st v = Inr b \<Longrightarrow> i1_at st' v = Inr b" "i8_at st v = Inr c8 \<Longrightarrow> i8_at st' v = Inr c8"
    "i16_at st v = Inr c16 \<Longrightarrow> i16_at st' v = Inr c16" "i32_at st v = Inr c32 \<Longrightarrow> i32_at st' v = Inr c32"
    "i64_at st v = Inr c64 \<Longrightarrow> i64_at st' v = Inr c64" "ptr_at st v = Inr p \<Longrightarrow> ptr_at st' v = Inr p"
    "char_array_at st v = Inr s \<Longrightarrow> char_array_at st' v = Inr s"
  using assms pool_ext_const_at [OF assms]
  by (auto simp: at_defs bindR_Inr_iff pool_ext_def dest: nthR_prefix)

lemma tables_okD:
  assumes "tables_ok st"
  shows "i1_const_to_value st b = Some v \<Longrightarrow>
      const_instr (constant_instrs st) v (ins1 (ConstantOpcodeTo C_I1_CONST) (if b then 1 else 0))"
    "i8_const_to_value st c8 = Some v \<Longrightarrow>
      const_instr (constant_instrs st) v (ins1 (ConstantOpcodeTo C_I8_CONST) (ucast c8))"
    "i16_const_to_value st c16 = Some v \<Longrightarrow>
      const_instr (constant_instrs st) v (ins1 (ConstantOpcodeTo C_I16_CONST) (ucast c16))"
    "i32_const_to_value st c32 = Some v \<Longrightarrow>
      const_instr (constant_instrs st) v (ins1 (ConstantOpcodeTo C_I32_CONST) (ucast c32))"
    "i64_const_to_value st c64 = Some v \<Longrightarrow>
      pooled (constant_instrs st) (i64_constants st) (ConstantOpcodeTo C_I64_CONST) v c64"
    "ptr_const_to_value st p = Some v \<Longrightarrow>
      pooled (constant_instrs st) (ptr_constants st) (ConstantOpcodeTo C_PTR_CONST) v p"
    "string_const_to_value st s = Some v \<Longrightarrow>
      pooled (constant_instrs st) (char_array_constants st) (ConstantOpcodeTo C_GLOBAL_CHAR_ARRAY_CONST) v s"
  using assms unfolding tables_ok_def table_ok_def by blast+

lemma interned_reads:
  assumes "pool_ok st"
  shows "i1_const_to_value st b = Some v \<Longrightarrow> i1_at st v = Inr b"
    "i8_const_to_value st c8 = Some v \<Longrightarrow> i8_at st v = Inr c8"
    "i16_const_to_value st c16 = Some v \<Longrightarrow> i16_at st v = Inr c16"
    "i32_const_to_value st c32 = Some v \<Longrightarrow> i32_at st v = Inr c32"
    "i64_const_to_value st c64 = Some v \<Longrightarrow> i64_at st v = Inr c64"
    "ptr_const_to_value st p = Some v \<Longrightarrow> ptr_at st v = Inr p"
    "string_const_to_value st s = Some v \<Longrightarrow> char_array_at st v = Inr s"
proof -
  note t = tables_okD [OF assms [unfolded pool_ok_def, THEN conjunct2]]
  show "i1_const_to_value st b = Some v \<Longrightarrow> i1_at st v = Inr b"
    "i8_const_to_value st c8 = Some v \<Longrightarrow> i8_at st v = Inr c8"
    "i16_const_to_value st c16 = Some v \<Longrightarrow> i16_at st v = Inr c16"
    "i32_const_to_value st c32 = Some v \<Longrightarrow> i32_at st v = Inr c32"
    by (auto simp: at_defs T1Constant_ins1 dest!: t(1-4) const_at_instr)
  show "i64_const_to_value st c64 = Some v \<Longrightarrow> i64_at st v = Inr c64"
    "ptr_const_to_value st p = Some v \<Longrightarrow> ptr_at st v = Inr p"
    "string_const_to_value st s = Some v \<Longrightarrow> char_array_at st v = Inr s"
    unfolding at_defs by (erule t(5-7) [THEN pooled_at])+
qed

lemma pool_room_pos: "0 < pool_room st \<Longrightarrow> length (constant_instrs st) < 2 ^ 23"
  by (simp add: pool_room_def)

lemma ConstI1_full:
  assumes "i1_const_to_value st c = None" "0 < pool_room st"
  shows "\<exists>st' v. ConstI1 st c = Inr (st', v)"
proof -
  have *: "\<exists>v st'. AppendConstantGlobal s i = Inr (st', v)" if "constant_instrs s = constant_instrs st" for s i
    using AppendConstantGlobal_total [of s i] pool_room_pos [OF assms(2)] that by auto
  show ?thesis using assms(1) by (auto simp: ConstI1_def Let_def bindR_Inr_iff intro!: *)
qed

interpretation c_i1: constant_pool pool_ok pool_ext pool_room ConstI1 i1_const_to_value i1_at
  by (unfold_locales; (rule pool_ext_refl | erule (1) pool_ext_trans reads_ext interned_reads
    | erule (2) ConstI1_miss | erule (1) ConstI1_full | simp add: ConstI1_def))

lemma ConstI8_full:
  assumes "i8_const_to_value st c = None" "0 < pool_room st"
  shows "\<exists>st' v. ConstI8 st c = Inr (st', v)"
proof -
  have *: "\<exists>v st'. AppendConstantGlobal s i = Inr (st', v)" if "constant_instrs s = constant_instrs st" for s i
    using AppendConstantGlobal_total [of s i] pool_room_pos [OF assms(2)] that by auto
  show ?thesis using assms(1) by (auto simp: ConstI8_def Let_def bindR_Inr_iff intro!: *)
qed

interpretation c_i8: constant_pool pool_ok pool_ext pool_room ConstI8 i8_const_to_value i8_at
  by (unfold_locales; (rule pool_ext_refl | erule (1) pool_ext_trans reads_ext interned_reads
    | erule (2) ConstI8_miss | erule (1) ConstI8_full | simp add: ConstI8_def))

lemma ConstI16_full:
  assumes "i16_const_to_value st c = None" "0 < pool_room st"
  shows "\<exists>st' v. ConstI16 st c = Inr (st', v)"
proof -
  have *: "\<exists>v st'. AppendConstantGlobal s i = Inr (st', v)" if "constant_instrs s = constant_instrs st" for s i
    using AppendConstantGlobal_total [of s i] pool_room_pos [OF assms(2)] that by auto
  show ?thesis using assms(1) by (auto simp: ConstI16_def Let_def bindR_Inr_iff intro!: *)
qed

interpretation c_i16: constant_pool pool_ok pool_ext pool_room ConstI16 i16_const_to_value i16_at
  by (unfold_locales; (rule pool_ext_refl | erule (1) pool_ext_trans reads_ext interned_reads
    | erule (2) ConstI16_miss | erule (1) ConstI16_full | simp add: ConstI16_def))

lemma ConstI32_full:
  assumes "i32_const_to_value st c = None" "0 < pool_room st"
  shows "\<exists>st' v. ConstI32 st c = Inr (st', v)"
proof -
  have *: "\<exists>v st'. AppendConstantGlobal s i = Inr (st', v)" if "constant_instrs s = constant_instrs st" for s i
    using AppendConstantGlobal_total [of s i] pool_room_pos [OF assms(2)] that by auto
  show ?thesis using assms(1) by (auto simp: ConstI32_def Let_def bindR_Inr_iff intro!: *)
qed

interpretation c_i32: constant_pool pool_ok pool_ext pool_room ConstI32 i32_const_to_value i32_at
  by (unfold_locales; (rule pool_ext_refl | erule (1) pool_ext_trans reads_ext interned_reads
    | erule (2) ConstI32_miss | erule (1) ConstI32_full | simp add: ConstI32_def))

lemma ConstI64_full:
  assumes "i64_const_to_value st c = None" "0 < pool_room st"
  shows "\<exists>st' v. ConstI64 st c = Inr (st', v)"
proof -
  have *: "\<exists>v st'. AppendConstantGlobal s i = Inr (st', v)" if "constant_instrs s = constant_instrs st" for s i
    using AppendConstantGlobal_total [of s i] pool_room_pos [OF assms(2)] that by auto
  show ?thesis using assms(1) by (auto simp: ConstI64_def Let_def bindR_Inr_iff intro!: *)
qed

interpretation c_i64: constant_pool pool_ok pool_ext pool_room ConstI64 i64_const_to_value i64_at
  by (unfold_locales; (rule pool_ext_refl | erule (1) pool_ext_trans reads_ext interned_reads
    | erule (2) ConstI64_miss | erule (1) ConstI64_full | simp add: ConstI64_def))

lemma ConstPtr_full:
  assumes "ptr_const_to_value st c = None" "0 < pool_room st"
  shows "\<exists>st' v. ConstPtr st c = Inr (st', v)"
proof -
  have *: "\<exists>v st'. AppendConstantGlobal s i = Inr (st', v)" if "constant_instrs s = constant_instrs st" for s i
    using AppendConstantGlobal_total [of s i] pool_room_pos [OF assms(2)] that by auto
  show ?thesis using assms(1) by (auto simp: ConstPtr_def Let_def bindR_Inr_iff intro!: *)
qed

interpretation c_ptr: constant_pool pool_ok pool_ext pool_room ConstPtr ptr_const_to_value ptr_at
  by (unfold_locales; (rule pool_ext_refl | erule (1) pool_ext_trans reads_ext interned_reads
    | erule (2) ConstPtr_miss | erule (1) ConstPtr_full | simp add: ConstPtr_def))

lemma GlobalConstCharArray_full:
  assumes "string_const_to_value st c = None" "0 < pool_room st"
  shows "\<exists>st' v. GlobalConstCharArray st c = Inr (st', v)"
proof -
  have *: "\<exists>v st'. AppendConstantGlobal s i = Inr (st', v)" if "constant_instrs s = constant_instrs st" for s i
    using AppendConstantGlobal_total [of s i] pool_room_pos [OF assms(2)] that by auto
  show ?thesis using assms(1) by (auto simp: GlobalConstCharArray_def Let_def bindR_Inr_iff intro!: *)
qed

interpretation c_str: constant_pool pool_ok pool_ext pool_room GlobalConstCharArray string_const_to_value char_array_at
  by (unfold_locales; (rule pool_ext_refl | erule (1) pool_ext_trans reads_ext interned_reads
    | erule (2) GlobalConstCharArray_miss | erule (1) GlobalConstCharArray_full | simp add: GlobalConstCharArray_def))

end
