(* ===== verification/KhirFold.thy ===== *)
theory KhirFold
  imports KhirConstants
begin

unbundle bit_operations_syntax

text \<open>
  What the builder's operations on constants and comparisons mean: constants are interned,
  folding computes what the instruction would, and rearranging the operands of a comparison
  keeps its outcome.
\<close>

section \<open>Interning\<close>

definition interns ::
    "('l ProgramBuilder \<Rightarrow> 'c \<Rightarrow> ('l ProgramBuilder \<times> Value) res) \<Rightarrow> ('l ProgramBuilder \<Rightarrow> Value \<Rightarrow> 'c res)
     \<Rightarrow> 'l ProgramBuilder \<Rightarrow> 'c list \<Rightarrow> bool" where
  "interns mk reading st cs \<longleftrightarrow> (\<exists>st' vs. make_all mk st cs = Inr (st', vs) \<and> pool_ok st' \<and> length vs = length cs
     \<and> (\<forall>i<length cs. reading st' (vs ! i) = Inr (cs ! i))
     \<and> (\<forall>i<length cs. \<forall>j<length cs. vs ! i = vs ! j \<longleftrightarrow> cs ! i = cs ! j)
     \<and> (\<forall>w c. reading st w = Inr c \<longrightarrow> reading st' w = Inr c))"

lemma ProgramBuilderNew_pool_ok:
  assumes "ProgramBuilderNew L g = Inr st"
  shows "pool_ok st" "pool_room st = 2 ^ 23"
  using assms
  by (auto simp: ProgramBuilderNew_def bindR_Inr_iff pool_ok_def tables_ok_def lengths_ok_def table_ok_def pool_room_def)

text \<open>Property C20: making any sequence of constants succeeds while there is room for them, every
  value reads back the constant it was made for, equal constants get equal values and
  different constants different ones, and all values made before keep their constants.\<close>

theorem constants_interned:
  assumes "pool_ok st"
  shows "(length b1 \<le> pool_room st \<longrightarrow> interns ConstI1 i1_at st b1)
    \<and> (length c8 \<le> pool_room st \<longrightarrow> interns ConstI8 i8_at st c8)
    \<and> (length c16 \<le> pool_room st \<longrightarrow> interns ConstI16 i16_at st c16)
    \<and> (length c32 \<le> pool_room st \<longrightarrow> interns ConstI32 i32_at st c32)
    \<and> (length c64 \<le> pool_room st \<longrightarrow> interns ConstI64 i64_at st c64)
    \<and> (length ps \<le> pool_room st \<longrightarrow> interns ConstPtr ptr_at st ps)
    \<and> (length ss \<le> pool_room st \<longrightarrow> interns GlobalConstCharArray char_array_at st ss)"
  unfolding interns_def
  by (intro conjI impI)
    (erule c_i1.make_all_correct [OF assms]
      c_i8.make_all_correct [OF assms]
      c_i16.make_all_correct [OF assms]
      c_i32.make_all_correct [OF assms]
      c_i64.make_all_correct [OF assms]
      c_ptr.make_all_correct [OF assms]
      c_str.make_all_correct [OF assms])+

theorem constants_interned_witness:
  "\<exists>st. ProgramBuilderNew term_llvm 0 = Inr st \<and> interns ConstI64 i64_at st [7, 3, 7]
     \<and> interns GlobalConstCharArray char_array_at st [''a'', ''b'']"
proof -
  obtain tm where "TypeManagerNew term_llvm = Inr tm" using TypeManagerNew_ok [OF term_llvm_ok] by blast
  then obtain st where st: "ProgramBuilderNew term_llvm 0 = Inr st" by (simp add: ProgramBuilderNew_def)
  note ok = ProgramBuilderNew_pool_ok [OF st]
  show ?thesis
    using st constants_interned [OF ok(1), of "[]" "[]" "[]" "[]" "[7, 3, 7]" "[]" "[''a'', ''b'']"] ok(2)
    by simp
qed

section \<open>Folding\<close>

text \<open>The operation leaves a constant with the given value and changes nothing else.\<close>

definition folds_to ::
    "'l ProgramBuilder \<Rightarrow> ('l ProgramBuilder \<times> Value) res \<Rightarrow> ('l ProgramBuilder \<Rightarrow> Value \<Rightarrow> 'c res) \<Rightarrow> 'c \<Rightarrow> bool" where
  "folds_to st m reading c \<longleftrightarrow> (\<exists>st' v. m = Inr (st', v) \<and> pool_ok st' \<and> pool_ext st st' \<and> reading st' v = Inr c)"

lemma Const_folds:
  assumes "pool_ok st" "0 < pool_room st"
  shows "folds_to st (ConstI1 st b) i1_at b" "folds_to st (ConstI8 st c8) i8_at c8"
    "folds_to st (ConstI16 st c16) i16_at c16" "folds_to st (ConstI32 st c32) i32_at c32"
    "folds_to st (ConstI64 st c64) i64_at c64"
  unfolding folds_to_def
  by (rule c_i1.make_folds [OF assms]
      c_i8.make_folds [OF assms]
      c_i16.make_folds [OF assms]
      c_i32.make_folds [OF assms]
      c_i64.make_folds [OF assms])+

definition fits :: "nat \<Rightarrow> int \<Rightarrow> bool" where
  "fits w x \<longleftrightarrow> - (2 ^ (w - 1)) \<le> x \<and> x < 2 ^ (w - 1)"

lemma fit_cases:
  "fit32 x = (if fits 32 x then Inr (word_of_int x) else Inl Undefined)"
  "fit64 x = (if fits 64 x then Inr (word_of_int x) else Inl Undefined)"
  by (simp_all add: fit32_def fit64_def fits_def)

lemmas fold_ops = AddI8_def SubI8_def MulI8_def AddI16_def SubI16_def MulI16_def AddI32_def SubI32_def
  MulI32_def AddI64_def SubI64_def MulI64_def AndI64_def OrI64_def XorI64_def CmpI1_def CmpI8_def CmpI16_def
  CmpI32_def CmpI64_def CmpF64_def

text \<open>Property C21: folding two integer constants gives the constant the instruction would compute.
  At 8 and 16 bits, and for the bitwise operations, always; at 32 and 64 bits whenever the
  signed result fits, the other case being the signed overflow that C++ leaves undefined.\<close>

theorem fold_arithmetic:
  assumes "pool_ok st" "0 < pool_room st" "both_const v1 v2"
  shows "(i8_at st v1 = Inr a8 \<and> i8_at st v2 = Inr b8 \<longrightarrow>
           folds_to st (AddI8 st v1 v2) i8_at (a8 + b8) \<and> folds_to st (SubI8 st v1 v2) i8_at (a8 - b8)
         \<and> folds_to st (MulI8 st v1 v2) i8_at (a8 * b8))
    \<and> (i16_at st v1 = Inr a16 \<and> i16_at st v2 = Inr b16 \<longrightarrow>
           folds_to st (AddI16 st v1 v2) i16_at (a16 + b16) \<and> folds_to st (SubI16 st v1 v2) i16_at (a16 - b16)
         \<and> folds_to st (MulI16 st v1 v2) i16_at (a16 * b16))
    \<and> (i32_at st v1 = Inr a32 \<and> i32_at st v2 = Inr b32 \<longrightarrow>
           (if fits 32 (sint a32 + sint b32) then folds_to st (AddI32 st v1 v2) i32_at (a32 + b32)
            else AddI32 st v1 v2 = Inl Undefined)
         \<and> (if fits 32 (sint a32 - sint b32) then folds_to st (SubI32 st v1 v2) i32_at (a32 - b32)
            else SubI32 st v1 v2 = Inl Undefined)
         \<and> (if fits 32 (sint a32 * sint b32) then folds_to st (MulI32 st v1 v2) i32_at (a32 * b32)
            else MulI32 st v1 v2 = Inl Undefined))
    \<and> (i64_at st v1 = Inr a64 \<and> i64_at st v2 = Inr b64 \<longrightarrow>
           (if fits 64 (sint a64 + sint b64) then folds_to st (AddI64 st v1 v2) i64_at (a64 + b64)
            else AddI64 st v1 v2 = Inl Undefined)
         \<and> (if fits 64 (sint a64 - sint b64) then folds_to st (SubI64 st v1 v2) i64_at (a64 - b64)
            else SubI64 st v1 v2 = Inl Undefined)
         \<and> (if fits 64 (sint a64 * sint b64) then folds_to st (MulI64 st v1 v2) i64_at (a64 * b64)
            else MulI64 st v1 v2 = Inl Undefined)
         \<and> folds_to st (AndI64 st v1 v2) i64_at (a64 AND b64) \<and> folds_to st (OrI64 st v1 v2) i64_at (a64 OR b64)
         \<and> folds_to st (XorI64 st v1 v2) i64_at (a64 XOR b64))"
  using assms(3) by (simp add: fold_ops fit_cases Const_folds [OF assms(1,2)])


text \<open>A builder with two 8-bit constants, for the witnesses.\<close>

lemma two_constants:
  "\<exists>(st :: llty ProgramBuilder) v1 v2. pool_ok st \<and> 0 < pool_room st \<and> both_const v1 v2
     \<and> i8_at st v1 = Inr 250 \<and> i8_at st v2 = Inr 10"
proof -
  obtain tm where "TypeManagerNew term_llvm = Inr tm" using TypeManagerNew_ok [OF term_llvm_ok] by blast
  then obtain st where new: "ProgramBuilderNew term_llvm 0 = Inr st" by (simp add: ProgramBuilderNew_def)
  then have st: "constant_instrs st = []" "i8_const_to_value st = Map.empty"
    by (auto simp: ProgramBuilderNew_def bindR_Inr_iff)
  note ok = ProgramBuilderNew_pool_ok [OF new]
  obtain st1 where m1: "ConstI8 st 250 = Inr (st1, ValueOf 0x800000)"
    and st1: "length (constant_instrs st1) = 1" "i8_const_to_value st1 = [250 \<mapsto> ValueOf 0x800000]"
    by (simp add: ConstI8_def AppendConstantGlobal_def st MakeValue_def ValueOf_def)
  obtain st2 where m2: "ConstI8 st1 10 = Inr (st2, ValueOf 0x800001)"
    by (simp add: ConstI8_def AppendConstantGlobal_def st1 MakeValue_def ValueOf_def)
  note l1 = c_i8.make_law [OF ok(1) m1] and l2 = c_i8.make_law [OF c_i8.make_law(1) [OF ok(1) m1] m2]
  have "i8_at st2 (ValueOf 0x800000) = Inr 250" by (rule reads_ext(2) [OF l2(2) l1(4)])
  moreover have "0 < pool_room st2" using ok(2) l1(5) l2(5) by simp
  moreover have "both_const (ValueOf 0x800000) (ValueOf 0x800001)"
    by (simp add: both_const_def IsConstantGlobal_def ValueOf_def)
  ultimately show ?thesis using l2(1,4) by blast
qed

theorem fold_arithmetic_witness:
  "\<exists>(st :: llty ProgramBuilder) v1 v2. pool_ok st \<and> folds_to st (AddI8 st v1 v2) i8_at 4"
proof -
  from two_constants obtain st :: "llty ProgramBuilder" and v1 v2 where c: "pool_ok st" "0 < pool_room st"
    "both_const v1 v2" "i8_at st v1 = Inr 250" "i8_at st v2 = Inr 10" by auto
  then have "folds_to st (AddI8 st v1 v2) i8_at (250 + 10)"
    using fold_arithmetic [OF c(1-3), of 250 10] by simp
  moreover have "(250 + 10 :: u8) = 4" by simp
  ultimately show ?thesis using c(1) by metis
qed


section \<open>Comparisons with one constant\<close>

text \<open>
  What an appended comparison computes when its operands have the values an environment
  gives them: the opcode selects the comparison, the argument fields the operands.
\<close>

definition decode_cmp :: "(CompType \<Rightarrow> Opcode) \<Rightarrow> Opcode \<Rightarrow> CompType option" where
  "decode_cmp code op = List.find (\<lambda>c. code c = op) [EQ, NE, LT, LE, GT, GE]"

definition eval_cmp ::
    "(CompType \<Rightarrow> Opcode) \<Rightarrow> (CompType \<Rightarrow> 'a \<Rightarrow> 'a \<Rightarrow> bool) \<Rightarrow> (Value \<Rightarrow> 'a) \<Rightarrow> u64 \<Rightarrow> bool option" where
  "eval_cmp code rel env instr =
     map_option (\<lambda>c. rel c (env (ValueOf (T2Arg0 instr))) (env (ValueOf (T2Arg1 instr))))
       (decode_cmp code (OpcodeFrom (GenericOpcode instr)))"

text \<open>Values as the builder makes them fit the 24-bit fields.\<close>

definition made :: "Value \<Rightarrow> bool" where
  "made v \<longleftrightarrow> take_bit 24 (value_idx v) = value_idx v"

lemma ins2_2_fields:
  "made v0 \<Longrightarrow> ValueOf (T2Arg0 (ins2_2 op v0 v1)) = v0"
  "made v1 \<Longrightarrow> ValueOf (T2Arg1 (ins2_2 op v0 v1)) = v1"
  "GenericOpcode (ins2_2 op v0 v1) = op"
  by (simp_all add: ins2_2_def made_def field_defs field_laws Serialize_def ValueOf_def OpcodeFrom_def OpcodeTo_def)

locale comparison =
  fixes code :: "CompType \<Rightarrow> Opcode" and rel :: "CompType \<Rightarrow> 'a \<Rightarrow> 'a \<Rightarrow> bool"
  assumes code_inj: "inj code"
    and mirror: "rel (mirror c) b a = rel c a b"
begin

lemma decode_code: "decode_cmp code (code c) = Some c"
  using injD [OF code_inj] by (cases c) (auto simp: decode_cmp_def)

lemma swap_correct:
  assumes "made v1" "made v2" "\<not> both_const v1 v2" "swap_cmp cmp v1 v2 = (cmp', w1, w2)"
  shows "eval_cmp code rel env (ins2_2 (code cmp') w1 w2) = Some (rel cmp (env v1) (env v2))
    \<and> \<not> IsConstantGlobal (ValueOf (T2Arg0 (ins2_2 (code cmp') w1 w2)))"
  using assms mirror
  by (auto simp: eval_cmp_def swap_cmp_def decode_code ins2_2_fields both_const_def split: if_splits)

end

lemma cmp_int_mirror: "cmp_int (mirror c) b a = cmp_int c a b"
  by (cases c) auto

lemma cmp_f64_mirror: "cmp_f64 (mirror c) b a = cmp_f64 c a b"
  by (cases c) (auto simp: f64_eq_def)

interpretation cmp_i8: comparison I8_CMP cmp_int
  by (unfold_locales, rule injI) (auto simp: cmp_int_mirror elim!: I8_CMP.elims)

interpretation cmp_i16: comparison I16_CMP cmp_int
  by (unfold_locales, rule injI) (auto simp: cmp_int_mirror elim!: I16_CMP.elims)

interpretation cmp_i32: comparison I32_CMP cmp_int
  by (unfold_locales, rule injI) (auto simp: cmp_int_mirror elim!: I32_CMP.elims)

interpretation cmp_i64: comparison I64_CMP cmp_int
  by (unfold_locales, rule injI) (auto simp: cmp_int_mirror elim!: I64_CMP.elims)

interpretation cmp_dbl: comparison F64_CMP cmp_f64
  by (unfold_locales, rule injI) (auto simp: cmp_f64_mirror elim!: F64_CMP.elims)

text \<open>An operation appends one comparison of the given meaning, its left operand no constant.\<close>

definition appends_cmp ::
    "'l ProgramBuilder \<Rightarrow> ('l ProgramBuilder \<times> Value) res \<Rightarrow> (u64 \<Rightarrow> bool option) \<Rightarrow> bool \<Rightarrow> bool" where
  "appends_cmp st m eval b \<longleftrightarrow> (\<exists>instr. m = AppendInstr st instr \<and> eval instr = Some b
     \<and> \<not> IsConstantGlobal (ValueOf (T2Arg0 instr)))"



section \<open>Vector comparisons\<close>

text \<open>
  The lanes of an operand: a constant has those of its instruction, any other value those an
  environment gives it.
\<close>

definition lanes :: "'l ProgramBuilder \<Rightarrow> (Value \<Rightarrow> u32 list) \<Rightarrow> Value \<Rightarrow> u32 list" where
  "lanes st env v =
     (if IsConstantGlobal v then
        let instr = constant_instrs st ! unat (GetIdx v) in
        if ConstantOpcodeFrom (T1Opcode instr) = C_I32_VEC8_CONST_1 then replicate 8 (ucast (T1Constant instr))
        else vec8_constants st ! unat (T1Constant instr)
      else env v)"

text \<open>A constant operand names a vector constant of the builder.\<close>

definition vec8_operand :: "'l ProgramBuilder \<Rightarrow> Value \<Rightarrow> bool" where
  "vec8_operand st v \<longleftrightarrow> made v \<and> (IsConstantGlobal v \<longrightarrow>
     (\<exists>c. const_instr (constant_instrs st) v (ins1 (ConstantOpcodeTo C_I32_VEC8_CONST_1) (ucast (c :: u32))))
   \<or> (\<exists>k<length (vec8_constants st).
        const_instr (constant_instrs st) v (ins1 (ConstantOpcodeTo C_I32_VEC8_CONST_8) (ucast (of_nat k :: u32)))))"

fun I32_VEC8_CMP :: "CompType \<Rightarrow> Opcode" where
  "I32_VEC8_CMP EQ = I32_VEC8_CMP_EQ"
| "I32_VEC8_CMP NE = I32_VEC8_CMP_NE"
| "I32_VEC8_CMP LT = I32_VEC8_CMP_LT"
| "I32_VEC8_CMP LE = I32_VEC8_CMP_LE"
| "I32_VEC8_CMP GT = I32_VEC8_CMP_GT"
| "I32_VEC8_CMP GE = I32_VEC8_CMP_GE"

definition lanewise :: "CompType \<Rightarrow> u32 list \<Rightarrow> u32 list \<Rightarrow> bool list" where
  "lanewise cmp xs ys = map2 (\<lambda>x y. cmp_int cmp (sint x) (sint y)) xs ys"

definition eval_vec8 :: "(Value \<Rightarrow> u32 list) \<Rightarrow> u64 \<Rightarrow> bool list option" where
  "eval_vec8 lane instr =
     map_option (\<lambda>c. lanewise c (lane (ValueOf (T2Arg0 instr))) (lane (ValueOf (T2Arg1 instr))))
       (decode_cmp I32_VEC8_CMP (OpcodeFrom (GenericOpcode instr)))"

lemma decode_vec8: "decode_cmp I32_VEC8_CMP (I32_VEC8_CMP c) = Some c"
  by (cases c) (simp_all add: decode_cmp_def)

lemma lanewise_swap: "length xs = length ys \<Longrightarrow> lanewise GT ys xs = lanewise LT xs ys"
  by (auto simp: lanewise_def list_eq_iff_nth_eq)

lemma sint_succ: "(x :: u32) \<noteq> I32_MAX \<Longrightarrow> sint (x + 1) = sint x + 1"
proof -
  assume x: "x \<noteq> I32_MAX"
  have "sint x < 2 ^ 31 - 1"
  proof (rule ccontr)
    assume "\<not> sint x < 2 ^ 31 - 1"
    moreover have "sint x < 2 ^ 31" using sint_lt [of x] by simp
    ultimately have "sint x = 2 ^ 31 - 1" by simp
    then have "word_of_int (sint x) = (word_of_int (2 ^ 31 - 1) :: u32)" by simp
    then have "x = I32_MAX" by (simp add: I32_MAX_def)
    with x show False ..
  qed
  moreover have "- (2 ^ 31) \<le> sint x" using sint_ge [of x] by simp
  ultimately show ?thesis by (simp add: signed_take_bit_int_eq_self sint_word_ariths)
qed

lemma lanewise_succ:
  assumes "length xs = length ys" "\<forall>y\<in>set ys. y \<noteq> I32_MAX"
  shows "lanewise GT (map (\<lambda>y. y + 1) ys) xs = lanewise LE xs ys"
  using assms by (auto simp: lanewise_def list_eq_iff_nth_eq sint_succ)

lemma const_instr_nth: "const_instr is v i \<Longrightarrow> is ! unat (GetIdx v) = i"
  by (simp add: const_instr_def)

lemma T1Opcode_ins1: "T1Opcode (ins1 op c) = op"
  by (simp add: ins1_def field_defs field_laws)

lemma lanes_1:
  assumes "const_instr (constant_instrs st) v (ins1 (ConstantOpcodeTo C_I32_VEC8_CONST_1) (ucast (c :: u32)))"
  shows "lanes st env v = replicate 8 c"
  using assms const_instr_nth [OF assms]
  by (simp add: lanes_def const_instr_def T1Opcode_ins1 T1Constant_ins1 ConstantOpcodeFrom_def ConstantOpcodeTo_def)

lemma lanes_8:
  assumes "const_instr (constant_instrs st) v (ins1 (ConstantOpcodeTo C_I32_VEC8_CONST_8) (ucast (of_nat k :: u32)))" "k < 2 ^ 32"
  shows "lanes st env v = vec8_constants st ! k"
  using assms(1) const_instr_nth [OF assms(1)] assms(2)
  by (simp add: lanes_def const_instr_def T1Opcode_ins1 T1Constant_ins1 ConstantOpcodeFrom_def
      ConstantOpcodeTo_def unat_ucast_32_64 unat_of_nat)

lemma lanes_ext:
  assumes v: "vec8_operand st v" and p: "prefix (constant_instrs st) (constant_instrs st')"
    "prefix (vec8_constants st) (vec8_constants st')" and len: "length (vec8_constants st) < 2 ^ 32"
  shows "lanes st' env v = lanes st env v"
proof (cases "IsConstantGlobal v")
  case True
  with v consider c where "const_instr (constant_instrs st) v (ins1 (ConstantOpcodeTo C_I32_VEC8_CONST_1) (ucast (c :: u32)))"
    | k where "k < length (vec8_constants st)"
      "const_instr (constant_instrs st) v (ins1 (ConstantOpcodeTo C_I32_VEC8_CONST_8) (ucast (of_nat k :: u32)))"
    by (auto simp: vec8_operand_def)
  then show ?thesis
  proof cases
    case 1
    then show ?thesis using lanes_1 const_instr_ext [OF 1 p(1)] by metis
  next
    case 2
    then show ?thesis
      using lanes_8 [OF 2(2)] lanes_8 [OF const_instr_ext [OF 2(2) p(1)]] prefix_nth [OF p(2) 2(1)] len by simp
  qed
qed (simp add: lanes_def)

lemma AppendConstantGlobal_made: "AppendConstantGlobal st i = Inr (st', v) \<Longrightarrow> made v"
  by (auto simp: AppendConstantGlobal_def Let_def bindR_Inr_iff made_def MakeValue_law(4))

lemma ucast_succ: "(ucast (ucast (c :: u32) + 1 :: u64) :: u32) = c + 1"
proof (rule word_uint_eqI)
  have "uint c < 2 ^ 32" using uint_bounded [of c] by simp
  then have "uint c mod 18446744073709551616 = uint c" by simp
  then show "uint (ucast (ucast c + 1 :: u64) :: u32) = uint (c + 1)"
    by (simp add: uint_word_ariths unsigned_ucast_eq take_bit_eq_mod mod_mod_cancel)
qed

lemma ucast_I32_MAX: "(ucast (c :: u32) :: u64) = ucast I32_MAX \<longleftrightarrow> c = I32_MAX"
  by (metis ucast_up_down(3))

text \<open>The rewriting of \<^verbatim>\<open><=\<close> with a constant on the right.\<close>

lemma CmpLeI32Vec8_law:
  assumes ops: "vec8_operand st v1" "vec8_operand st v2"
    and len: "length (lanes st env v1) = length (lanes st env v2)"
    and small: "length (constant_instrs st) \<le> 2 ^ 23" "length (vec8_constants st) < 2 ^ 32"
    and cmp: "CmpLeI32Vec8 st v1 v2 = Inr (st1, op, w1, w2)"
  shows "made w1 \<and> made w2 \<and> (\<exists>c. op = I32_VEC8_CMP c
    \<and> lanewise c (lanes st1 env w1) (lanes st1 env w2) = lanewise LE (lanes st env v1) (lanes st env v2))"
proof -
  consider (same) "st1 = st" "op = I32_VEC8_CMP LE" "w1 = v1" "w2 = v2"
    | (one) c where "const_instr (constant_instrs st) v2 (ins1 (ConstantOpcodeTo C_I32_VEC8_CONST_1) (ucast (c :: u32)))"
      "c \<noteq> I32_MAX" "ConstI32Vec8 st (c + 1) = Inr (st1, w1)" "op = I32_VEC8_CMP GT" "w2 = v1"
    | (eight) k where "const_instr (constant_instrs st) v2 (ins1 (ConstantOpcodeTo C_I32_VEC8_CONST_8) (ucast (of_nat k :: u32)))"
      "k < length (vec8_constants st)" "\<forall>x\<in>set (vec8_constants st ! k). x \<noteq> I32_MAX"
      "ConstI32Vec8Array st (map (\<lambda>x. x + 1) (vec8_constants st ! k)) = Inr (st1, w1)"
      "op = I32_VEC8_CMP GT" "w2 = v1"
  proof (cases "IsConstantGlobal v2")
    case False
    with cmp that(1) show ?thesis by (auto simp: CmpLeI32Vec8_def)
  next
    case True
    then consider (1) c where "const_instr (constant_instrs st) v2 (ins1 (ConstantOpcodeTo C_I32_VEC8_CONST_1) (ucast (c :: u32)))"
      | (8) k where "k < length (vec8_constants st)"
        "const_instr (constant_instrs st) v2 (ins1 (ConstantOpcodeTo C_I32_VEC8_CONST_8) (ucast (of_nat k :: u32)))"
      using ops(2) by (auto simp: vec8_operand_def)
    then show ?thesis
    proof cases
      case 1
      have nth: "nthR (constant_instrs st) (unat (GetIdx v2)) = Inr (ins1 (ConstantOpcodeTo C_I32_VEC8_CONST_1) (ucast c))"
        using 1 by (simp add: const_instr_def)
      show ?thesis
        using cmp True that(1) that(2) [OF 1]
        by (auto simp: CmpLeI32Vec8_def Let_def ConstantOpcodeFrom_def ConstantOpcodeTo_def nth T1Opcode_ins1 T1Constant_ins1 ucast_succ ucast_I32_MAX bindR_Inr_iff
            split: if_splits)
    next
      case 8
      have nth: "nthR (constant_instrs st) (unat (GetIdx v2)) =
          Inr (ins1 (ConstantOpcodeTo C_I32_VEC8_CONST_8) (ucast (of_nat k :: u32)))"
        using 8(2) by (simp add: const_instr_def)
      have "k < 2 ^ 32" using 8(1) small(2) by simp
      then show ?thesis
        using cmp True that(1) that(3) [OF 8(2,1)] 8(1)
        by (auto simp: CmpLeI32Vec8_def Let_def ConstantOpcodeFrom_def ConstantOpcodeTo_def nth T1Opcode_ins1 T1Constant_ins1 unat_ucast_32_64 unat_of_nat bindR_Inr_iff
            split: if_splits)
    qed
  qed
  then show ?thesis
  proof cases
    case same
    then show ?thesis using ops by (auto simp: vec8_operand_def intro!: exI [of _ LE])
  next
    case one
    note l = AppendConstantGlobal_law [OF one(3) [unfolded ConstI32Vec8_def] small(1)]
      AppendConstantGlobal_made [OF one(3) [unfolded ConstI32Vec8_def]]
    have "lanes st1 env v1 = lanes st env v1" by (rule lanes_ext [OF ops(1) _ _ small(2)]) (simp_all add: l(1))
    moreover have "lanes st1 env w1 = map (\<lambda>y. y + 1) (lanes st env v2)"
      using lanes_1 [OF l(2)] lanes_1 [OF one(1)] by simp
    moreover have "\<forall>y\<in>set (lanes st env v2). y \<noteq> I32_MAX" using lanes_1 [OF one(1)] one(2) by simp
    ultimately show ?thesis
      using ops(1) l(4) one(4,5) len lanewise_succ by (auto simp: vec8_operand_def intro!: exI [of _ GT])
  next
    case eight
    let ?st = "st\<lparr>vec8_constants := vec8_constants st @ [map (\<lambda>x. x + 1) (vec8_constants st ! k)]\<rparr>"
      and ?n = "length (vec8_constants st)"
    from eight(4) have a: "AppendConstantGlobal ?st (ins1 (ConstantOpcodeTo C_I32_VEC8_CONST_8) (ucast (of_nat ?n :: u32))) = Inr (st1, w1)"
      by (simp add: ConstI32Vec8Array_def Let_def)
    have "length (constant_instrs ?st) \<le> 2 ^ 23" using small(1) by simp
    note l = AppendConstantGlobal_law [OF a this] AppendConstantGlobal_made [OF a]
    have k: "k < 2 ^ 32" using eight(2) small(2) by simp
    have "lanes st1 env v1 = lanes st env v1" by (rule lanes_ext [OF ops(1) _ _ small(2)]) (simp_all add: l(1))
    moreover have "lanes st1 env w1 = map (\<lambda>y. y + 1) (lanes st env v2)"
      using lanes_8 [OF l(2) small(2)] lanes_8 [OF eight(1) k] by (simp add: l(1))
    moreover have "\<forall>y\<in>set (lanes st env v2). y \<noteq> I32_MAX" using lanes_8 [OF eight(1) k] eight(3) by simp
    ultimately show ?thesis
      using ops(1) l(4) eight(5,6) len lanewise_succ by (auto simp: vec8_operand_def intro!: exI [of _ GT])
  qed
qed

text \<open>comparing two vectors of eight 32-bit integers appends, after at most one new
  constant, an instruction whose lanes are the signed comparisons asked for, whatever values
  the operands have at run time: \<^verbatim>\<open><\<close> as \<^verbatim>\<open>>\<close> with the operands exchanged, \<^verbatim>\<open><=\<close> with a constant on
  the right as \<^verbatim>\<open>>\<close> with the constant's successor on the left, unless a lane has none.\<close>

lemma vec8_compare:
  assumes ops: "vec8_operand st v1" "vec8_operand st v2"
    and len: "length (lanes st env v1) = length (lanes st env v2)"
    and small: "length (constant_instrs st) \<le> 2 ^ 23" "length (vec8_constants st) < 2 ^ 32"
    and cmp: "CmpI32Vec8 st cmp v1 v2 = Inr (st', v)"
  shows "\<exists>st1 instr. AppendInstr st1 instr = Inr (st', v)
    \<and> eval_vec8 (lanes st1 env) instr = Some (lanewise cmp (lanes st env v1) (lanes st env v2))"
proof -
  have made: "made v1" "made v2" using ops by (simp_all add: vec8_operand_def)
  have ev: "eval_vec8 lane (ins2_2 (I32_VEC8_CMP c) w1 w2) = Some (lanewise c (lane w1) (lane w2))"
    if "made w1" "made w2" for lane c w1 w2
    using that by (simp add: eval_vec8_def ins2_2_fields decode_vec8)
  show ?thesis
  proof (cases "cmp = LE")
    case True
    with cmp obtain st1 op w1 w2 where le: "CmpLeI32Vec8 st v1 v2 = Inr (st1, op, w1, w2)"
      and app: "AppendInstr st1 (ins2_2 op w1 w2) = Inr (st', v)"
      by (auto simp: CmpI32Vec8_def bindR_Inr_iff)
    from CmpLeI32Vec8_law [OF ops len small le] obtain c where "made w1" "made w2" "op = I32_VEC8_CMP c"
      "lanewise c (lanes st1 env w1) (lanes st1 env w2) = lanewise LE (lanes st env v1) (lanes st env v2)" by blast
    with app ev True show ?thesis by metis
  next
    case False
    with cmp have "AppendInstr st (if cmp = LT then ins2_2 (I32_VEC8_CMP GT) v2 v1
        else ins2_2 (I32_VEC8_CMP cmp) v1 v2) = Inr (st', v)"
      by (cases cmp) (simp_all add: CmpI32Vec8_def)
    moreover have "eval_vec8 (lanes st env) (if cmp = LT then ins2_2 (I32_VEC8_CMP GT) v2 v1
        else ins2_2 (I32_VEC8_CMP cmp) v1 v2) = Some (lanewise cmp (lanes st env v1) (lanes st env v2))"
      using ev [OF made, of "lanes st env" cmp] ev [OF made(2,1), of "lanes st env" GT] lanewise_swap [OF len]
      by (simp split: if_split)
    ultimately show ?thesis by blast
  qed
qed

text \<open>A builder with one open function and one vector constant, for the witnesses.\<close>

definition sample_builder :: "llty ProgramBuilder" where
  "sample_builder =
     \<lparr>type_manager = \<lparr>type_id_to_impl = [], impl_to_type_id = Map.empty, opaque_name_to_type_id = Map.empty,
        struct_name_to_type_id = Map.empty, created_structs = 0\<rparr>,
      pb_functions = [(FunctionBuilderNew ''f'' 0 0 [] False 0)
        \<lparr>basic_blocks := [(-1, -1)], basic_block_successors := [[]], basic_block_predecessors := [[]]\<rparr>],
      current_function = 0, name_to_function = Map.empty,
      constant_instrs = [ins1 (ConstantOpcodeTo C_I32_VEC8_CONST_1) 41], ptr_constants = [], i64_constants = [],
      f64_constants = [], char_array_constants = [], struct_constants = [], array_constants = [],
      vec4_constants = [], vec8_constants = [], globals = [],
      i1_const_to_value = Map.empty, i8_const_to_value = Map.empty, i16_const_to_value = Map.empty,
      i32_const_to_value = Map.empty, i64_const_to_value = Map.empty, f64_const_to_value = [],
      ptr_const_to_value = Map.empty, string_const_to_value = Map.empty\<rparr>"

section \<open>Doubles that the table of constants does not keep\<close>

lemma f64_eq_neg_zero: "f64_eq k 0x8000000000000000 = f64_eq k 0"
  by (simp add: f64_eq_def f64_nan_def f64_key_def)

lemma f64_find_neg_zero: "f64_find m 0x8000000000000000 = f64_find m 0"
  by (simp add: f64_find_def f64_eq_neg_zero)

lemma f64_find_nan: "f64_nan x \<Longrightarrow> f64_find m x = None"
  by (simp add: f64_find_def find_None_iff f64_eq_def split_beta)

text \<open>the table of double constants finds its keys by \<^verbatim>\<open>==\<close>. A negative zero asked for
  after a positive one gets the value of the positive zero, and asking for a NaN returns the
  default value, which names no constant the builder made, while the pool grows each time.\<close>

lemma const_f64_special:
  "(f64_find (f64_const_to_value st) 0 = Some v \<longrightarrow> ConstF64 st 0x8000000000000000 = Inr (st, v))
   \<and> (f64_nan x \<longrightarrow> ConstF64 st x = Inr (st', w) \<longrightarrow>
        w = ValueDefault \<and> f64_constants st' = f64_constants st @ [x])"
proof (intro conjI impI)
  assume "f64_find (f64_const_to_value st) 0 = Some v"
  then show "ConstF64 st 0x8000000000000000 = Inr (st, v)"
    by (simp add: ConstF64_def f64_index_def f64_find_neg_zero)
next
  assume x: "f64_nan x" and c: "ConstF64 st x = Inr (st', w)"
  then show "w = ValueDefault" "f64_constants st' = f64_constants st @ [x]"
    by (auto simp: ConstF64_def f64_index_def f64_find_nan Let_def bindR_Inr_iff AppendConstantGlobal_def)
qed

end
