(* ===== verification/KhirBuilderCorrect.thy ===== *)
theory KhirBuilderCorrect
  imports KhirFold
begin

text \<open>
  What the program builder guarantees: the basic blocks of a function stay consistent with its
  instructions and with each other, constants are interned and read back, folding computes
  what the instruction would, and moving a constant operand to the right does not change the
  meaning of a comparison.
\<close>

section \<open>The basic blocks of a function\<close>

text \<open>The blocks an instruction may continue in.\<close>

definition branch_targets :: "u64 \<Rightarrow> nat list" where
  "branch_targets instr =
     (let opcode = OpcodeFrom (GenericOpcode instr) in
      if opcode = BR then [unat (T5Marg0 instr)]
      else if opcode = CONDBR then [unat (T5Marg0 instr), unat (T5Marg1 instr)]
      else [])"

definition terminator :: "u64 \<Rightarrow> bool" where
  "terminator instr = IsTerminatingInstr (OpcodeFrom (GenericOpcode instr))"

definition block_ok :: "FunctionBuilder \<Rightarrow> nat \<Rightarrow> bool" where
  "block_ok f b \<longleftrightarrow>
     (let (first, second) = basic_blocks f ! b; succ = basic_block_successors f ! b in
      if second \<ge> 0
      then 0 \<le> first \<and> first \<le> second \<and> nat second < length (instructions f)
        \<and> terminator (instructions f ! nat second) \<and> succ = branch_targets (instructions f ! nat second)
      else first < int (length (instructions f)) \<and> succ = [])"

definition fb_ok :: "FunctionBuilder \<Rightarrow> bool" where
  "fb_ok f \<longleftrightarrow>
     (let n = length (basic_blocks f) in
        length (basic_block_successors f) = n \<and> length (basic_block_predecessors f) = n
      \<and> current_basic_block f < n
      \<and> (\<forall>b<n. block_ok f b)
      \<and> (\<forall>b<n. \<forall>t\<in>set (basic_block_successors f ! b). t < n)
      \<and> (\<forall>b<n. \<forall>t\<in>set (basic_block_predecessors f ! b). t < n)
      \<and> (\<forall>i<n. \<forall>j<n. count_list (basic_block_predecessors f ! j) i
                        = count_list (basic_block_successors f ! i) j)
      \<and> distinct (basic_block_order f)
      \<and> set (basic_block_order f) = {b. b < n \<and> snd (basic_blocks f ! b) \<ge> 0})"

lemma fb_okD:
  assumes "fb_ok f"
  shows "length (basic_block_successors f) = length (basic_blocks f)"
    "length (basic_block_predecessors f) = length (basic_blocks f)"
    "current_basic_block f < length (basic_blocks f)"
    "\<forall>b<length (basic_blocks f). block_ok f b"
    "\<forall>b<length (basic_blocks f). \<forall>t\<in>set (basic_block_successors f ! b). t < length (basic_blocks f)"
    "\<forall>b<length (basic_blocks f). \<forall>t\<in>set (basic_block_predecessors f ! b). t < length (basic_blocks f)"
    "\<forall>i<length (basic_blocks f). \<forall>j<length (basic_blocks f).
       count_list (basic_block_predecessors f ! j) i = count_list (basic_block_successors f ! i) j"
    "distinct (basic_block_order f)"
    "set (basic_block_order f) = {b. b < length (basic_blocks f) \<and> snd (basic_blocks f ! b) \<ge> 0}"
  using assms unfolding fb_ok_def Let_def by blast+

lemma fb_okI:
  assumes "length (basic_blocks f) = n" "length (basic_block_successors f) = n"
    "length (basic_block_predecessors f) = n" "current_basic_block f < n"
    and "\<And>b. b < n \<Longrightarrow> block_ok f b"
    and "\<And>b t. b < n \<Longrightarrow> t \<in> set (basic_block_successors f ! b) \<Longrightarrow> t < n"
    and "\<And>b t. b < n \<Longrightarrow> t \<in> set (basic_block_predecessors f ! b) \<Longrightarrow> t < n"
    and "\<And>i j. i < n \<Longrightarrow> j < n \<Longrightarrow>
      count_list (basic_block_predecessors f ! j) i = count_list (basic_block_successors f ! i) j"
    and "distinct (basic_block_order f)"
    and "set (basic_block_order f) = {b. b < n \<and> snd (basic_blocks f ! b) \<ge> 0}"
  shows "fb_ok f"
  unfolding fb_ok_def Let_def assms(1-3) using assms(4-) by blast

lemma pushAt_iff: "pushAt vs i x = Inr vs' \<longleftrightarrow> i < length vs \<and> vs' = vs[i := vs ! i @ [x]]"
  by (auto simp: pushAt_def bindR_Inr_iff nthR_Inr_iff updR_Inr_iff)

text \<open>Appending the targets of a terminator to the lists of both directions.\<close>

lemma UpdateSuccessors_law:
  assumes "UpdateSuccessors pred succ c instr = Inr (pred', succ')" "c < length succ"
    "length pred = length succ" "succ ! c = []"
  shows "length succ' = length succ" "length pred' = length pred"
    and "succ' = succ[c := branch_targets instr]"
    and "\<forall>t\<in>set (branch_targets instr). t < length succ"
    and "j < length pred \<Longrightarrow> count_list (pred' ! j) i =
      count_list (pred ! j) i + (if i = c then count_list (branch_targets instr) j else 0)"
proof -
  let ?op = "OpcodeFrom (GenericOpcode instr)"
  consider (br) "?op = BR" | (cond) "?op = CONDBR" | (other) "?op \<noteq> BR" "?op \<noteq> CONDBR" by blast
  then have "length succ' = length succ \<and> length pred' = length pred
    \<and> succ' = succ[c := branch_targets instr] \<and> (\<forall>t\<in>set (branch_targets instr). t < length succ)
    \<and> (\<forall>i j. j < length pred \<longrightarrow> count_list (pred' ! j) i =
      count_list (pred ! j) i + (if i = c then count_list (branch_targets instr) j else 0))"
  proof cases
    case br
    with assms show ?thesis
      by (auto simp: UpdateSuccessors_def Let_def bindR_Inr_iff pushAt_iff branch_targets_def nth_list_update)
  next
    case cond
    then have "?op \<noteq> BR" by simp
    with cond assms show ?thesis
      by (auto simp: UpdateSuccessors_def Let_def bindR_Inr_iff pushAt_iff branch_targets_def nth_list_update)
  next
    case other
    moreover have "succ[c := []] = succ" using assms(4) by (metis list_update_id)
    ultimately show ?thesis
      using assms by (auto simp: UpdateSuccessors_def Let_def branch_targets_def)
  qed
  then show "length succ' = length succ" "length pred' = length pred" "succ' = succ[c := branch_targets instr]"
    "\<forall>t\<in>set (branch_targets instr). t < length succ"
    "j < length pred \<Longrightarrow> count_list (pred' ! j) i =
      count_list (pred ! j) i + (if i = c then count_list (branch_targets instr) j else 0)" by auto
qed

lemma Append_cases:
  assumes "Append f instr = Inr (f', v)"
  defines "cur \<equiv> current_basic_block f" and "idx \<equiv> length (instructions f)"
  obtains first second pred succ where
    "\<not> fb_external f" "cur < length (basic_blocks f)" "basic_blocks f ! cur = (first, second)" "second < 0"
    "MakeValue (of_nat idx) False = Inr v"
    "if terminator instr
     then UpdateSuccessors (basic_block_predecessors f) (basic_block_successors f) cur instr = Inr (pred, succ)
     else pred = basic_block_predecessors f \<and> succ = basic_block_successors f"
    "f' = f\<lparr>instructions := instructions f @ [instr],
            basic_blocks := (basic_blocks f)[cur := (if first < 0 then int idx else first,
                                                     if terminator instr then int idx else second)],
            basic_block_predecessors := pred, basic_block_successors := succ,
            basic_block_order := basic_block_order f @ (if terminator instr then [cur] else [])\<rparr>"
  using assms(1)
  by (auto simp: Append_def Let_def bindR_Inr_iff nthR_Inr_iff terminator_def cur_def idx_def
      split: if_splits prod.splits)

lemma block_ok_other:
  assumes "block_ok f b" "basic_blocks f' ! b = basic_blocks f ! b"
    "basic_block_successors f' ! b = basic_block_successors f ! b"
    "instructions f' = instructions f @ is"
  shows "block_ok f' b"
  using assms by (auto simp: block_ok_def Let_def nth_append split: prod.splits if_splits)

lemma Append_fb_ok:
  assumes ok: "fb_ok f" and app: "Append f instr = Inr (f', v)"
  shows "fb_ok f'" "instructions f' = instructions f @ [instr]" "basic_block_order f' =
    basic_block_order f @ (if terminator instr then [current_basic_block f] else [])"
proof -
  let ?c = "current_basic_block f" and ?n = "length (basic_blocks f)" and ?idx = "length (instructions f)"
  from app obtain first second pred succ where a:
    "?c < ?n" "basic_blocks f ! ?c = (first, second)" "second < 0"
    "if terminator instr
     then UpdateSuccessors (basic_block_predecessors f) (basic_block_successors f) ?c instr = Inr (pred, succ)
     else pred = basic_block_predecessors f \<and> succ = basic_block_successors f"
    "f' = f\<lparr>instructions := instructions f @ [instr],
            basic_blocks := (basic_blocks f)[?c := (if first < 0 then int ?idx else first,
                                                     if terminator instr then int ?idx else second)],
            basic_block_predecessors := pred, basic_block_successors := succ,
            basic_block_order := basic_block_order f @ (if terminator instr then [?c] else [])\<rparr>"
    by (rule Append_cases)
  show "instructions f' = instructions f @ [instr]"
    "basic_block_order f' = basic_block_order f @ (if terminator instr then [?c] else [])" by (simp_all add: a(5))
  note len = fb_okD(1,2) [OF ok] and blk = fb_okD(4) [OF ok] and tgt = fb_okD(5) [OF ok]
    and ptgt = fb_okD(6) [OF ok] and cnt = fb_okD(7) [OF ok] and ord = fb_okD(8,9) [OF ok]
  have cur: "basic_block_successors f ! ?c = []" "first < int ?idx"
    using blk a(1-3) by (auto simp: block_ok_def)
  define targets where "targets = (if terminator instr then branch_targets instr else [])"
  have s_all: "succ = (basic_block_successors f)[?c := targets] \<and> (\<forall>t\<in>set targets. t < ?n) \<and> length pred = ?n
      \<and> (\<forall>i j. j < ?n \<longrightarrow> count_list (pred ! j) i =
      count_list (basic_block_predecessors f ! j) i + (if i = ?c then count_list targets j else 0))"
  proof (cases "terminator instr")
    case True
    with UpdateSuccessors_law [of "basic_block_predecessors f" "basic_block_successors f" ?c instr pred succ]
    show ?thesis using a(1,4) len cur(1) by (simp add: targets_def)
  next
    case False
    moreover have "(basic_block_successors f)[?c := []] = basic_block_successors f"
      using cur(1) by (metis list_update_id)
    ultimately show ?thesis using a(4) len by (simp add: targets_def)
  qed
  then have s: "succ = (basic_block_successors f)[?c := targets]" "\<forall>t\<in>set targets. t < ?n"
    "length pred = ?n" "\<forall>i j. j < ?n \<longrightarrow> count_list (pred ! j) i =
      count_list (basic_block_predecessors f ! j) i + (if i = ?c then count_list targets j else 0)" by auto
  have f': "basic_blocks f' = (basic_blocks f)[?c := (if first < 0 then int ?idx else first,
      if terminator instr then int ?idx else second)]"
    "basic_block_successors f' = succ" "basic_block_predecessors f' = pred"
    "instructions f' = instructions f @ [instr]" "current_basic_block f' = ?c"
    by (simp_all add: a(5))
  show "fb_ok f'"
  proof (rule fb_okI [where n = ?n])
    fix b assume b: "b < ?n"
    show "block_ok f' b"
    proof (cases "b = ?c")
      case True
      then show ?thesis
        using a(1,3) len cur(2) s(1) by (auto simp: block_ok_def f' targets_def)
    next
      case False
      show ?thesis
        by (rule block_ok_other [OF blk [rule_format, OF b]]) (use False s(1) in \<open>auto simp: f'\<close>)
    qed
  next
    fix b t assume "b < ?n" "t \<in> set (basic_block_successors f' ! b)"
    then show "t < ?n" using s(1,2) tgt len by (cases "b = ?c") (auto simp: f')
  next
    fix j t assume j: "j < ?n" and t: "t \<in> set (basic_block_predecessors f' ! j)"
    have "count_list (pred ! j) t \<noteq> 0" using t by (simp add: count_list_0_iff f')
    then have "t = ?c \<or> t \<in> set (basic_block_predecessors f ! j)"
      using s(4) j by (auto simp: count_list_0_iff split: if_splits)
    then show "t < ?n" using ptgt j a(1) by auto
  next
    fix i j assume ij: "i < ?n" "j < ?n"
    note c = cnt [rule_format, OF ij] s(4) [rule_format, OF ij(2), of i]
    show "count_list (basic_block_predecessors f' ! j) i = count_list (basic_block_successors f' ! i) j"
      using ij c cur(1) len unfolding f' s(1) by (cases "i = ?c") simp_all
  next
    show "distinct (basic_block_order f')" using ord a(2,3) by (auto simp: a(5))
  next
    show "set (basic_block_order f') = {b. b < ?n \<and> snd (basic_blocks f' ! b) \<ge> 0}"
    proof (rule set_eqI)
      fix b
      have "b \<in> set (basic_block_order f) \<longleftrightarrow> b < ?n \<and> snd (basic_blocks f ! b) \<ge> 0"
        using ord(2) by simp
      then show "b \<in> set (basic_block_order f') \<longleftrightarrow> b \<in> {b. b < ?n \<and> snd (basic_blocks f' ! b) \<ge> 0}"
        using a(1-3) by (cases "b = ?c") (simp_all add: a(5))
    qed
  qed (use s(1,3) a(1) len in \<open>simp_all add: f'\<close>)
qed

lemma GenerateBasicBlock_fb_ok:
  assumes "fb_ok f" "GenerateBasicBlock f = Inr (f', b)"
  shows "fb_ok f'" "b = length (basic_blocks f)" "basic_blocks f' = basic_blocks f @ [(-1, -1)]"
proof -
  let ?n = "length (basic_blocks f)"
  have f': "f' = f\<lparr>basic_blocks := basic_blocks f @ [(-1, -1)],
      basic_block_successors := basic_block_successors f @ [[]],
      basic_block_predecessors := basic_block_predecessors f @ [[]]\<rparr>" "b = ?n"
    using assms(2) by (auto simp: GenerateBasicBlock_def split: if_splits)
  then show "b = ?n" "basic_blocks f' = basic_blocks f @ [(-1, -1)]" by simp_all
  note len = fb_okD(1,2) [OF assms(1)] and blk = fb_okD(4) [OF assms(1)]
    and tgt = fb_okD(5) [OF assms(1)] and ptgt = fb_okD(6) [OF assms(1)]
    and cnt = fb_okD(7) [OF assms(1)] and ord = fb_okD(8,9) [OF assms(1)]
  show "fb_ok f'"
  proof (rule fb_okI [where n = "Suc ?n"])
    fix i assume i: "i < Suc ?n"
    show "block_ok f' i"
    proof (cases "i < ?n")
      case True
      show ?thesis
        by (rule block_ok_other [OF blk [rule_format, OF True], of f' "[]"])
          (use True len in \<open>auto simp: f' nth_append\<close>)
    next
      case False
      with i have "i = ?n" by simp
      then show ?thesis by (simp add: f' block_ok_def nth_append len)
    qed
  next
    fix i j assume ij: "i < Suc ?n" "j < Suc ?n"
    have "count_list (basic_block_successors f ! i) ?n = 0" if "i < ?n" for i
      using tgt that by (auto simp: count_list_0_iff)
    moreover have "count_list (basic_block_predecessors f ! j) ?n = 0" if "j < ?n" for j
      using ptgt that by (auto simp: count_list_0_iff)
    ultimately show "count_list (basic_block_predecessors f' ! j) i = count_list (basic_block_successors f' ! i) j"
      using ij cnt len by (auto simp: f' nth_append less_Suc_eq)
  next
    fix b t assume "b < Suc ?n" "t \<in> set (basic_block_successors f' ! b)"
    then show "t < Suc ?n" using tgt len by (force simp: f' nth_append split: if_splits)
  next
    fix b t assume "b < Suc ?n" "t \<in> set (basic_block_predecessors f' ! b)"
    then show "t < Suc ?n" using ptgt len by (force simp: f' nth_append split: if_splits)
  next
    show "set (basic_block_order f') = {b. b < Suc ?n \<and> snd (basic_blocks f' ! b) \<ge> 0}"
    proof (rule set_eqI)
      fix i
      have "i \<in> set (basic_block_order f) \<longleftrightarrow> i < ?n \<and> snd (basic_blocks f ! i) \<ge> 0"
        using ord(2) by simp
      then show "i \<in> set (basic_block_order f') \<longleftrightarrow> i \<in> {b. b < Suc ?n \<and> snd (basic_blocks f' ! b) \<ge> 0}"
        by (cases "i < ?n"; cases "i = ?n") (simp_all add: f' nth_append)
    qed
  qed (use len ord(1) fb_okD(3) [OF assms(1)] in \<open>simp_all add: f'\<close>)
qed

lemma fb_ok_transfer:
  assumes "basic_blocks f' = basic_blocks f" "basic_block_successors f' = basic_block_successors f"
    "basic_block_predecessors f' = basic_block_predecessors f" "basic_block_order f' = basic_block_order f"
    and "fb_ok f" "current_basic_block f' < length (basic_blocks f)" "\<And>b. block_ok f b \<Longrightarrow> block_ok f' b"
  shows "fb_ok f'"
  using assms(5-7) unfolding fb_ok_def Let_def assms(1-4) by blast

lemma Update_fb_ok:
  assumes ok: "fb_ok f" and up: "Update f pos instr = Inr f'"
    and same: "\<not> terminator (instructions f ! unat (GetIdx pos))"
  shows "fb_ok f'"
proof -
  let ?i = "unat (GetIdx pos)"
  have f': "f' = f\<lparr>instructions := (instructions f)[?i := instr]\<rparr>"
    using up by (auto simp: Update_def bindR_Inr_iff updR_Inr_iff split: if_splits)
  have keep: "(instructions f)[?i := instr] ! k = instructions f ! k" if "terminator (instructions f ! k)" for k
    using that same by (metis nth_list_update_neq)
  have "block_ok f' b" if "block_ok f b" for b
    using that unfolding f' block_ok_def
    by (cases "basic_blocks f ! b") (auto simp: Let_def keep split: if_splits)
  then show ?thesis by (intro fb_ok_transfer [OF _ _ _ _ ok]) (simp_all add: f' fb_okD(3) [OF ok])
qed

text \<open>
  The life of a function: it starts with the entry block, then instructions are appended,
  blocks are generated and made current, and members of phis are filled in. A block made
  current is one the function handed out.
\<close>

inductive fb_step :: "FunctionBuilder \<Rightarrow> FunctionBuilder \<Rightarrow> bool" where
  step_append: "Append f instr = Inr (f', v) \<Longrightarrow> fb_step f f'"
| step_block: "GenerateBasicBlock f = Inr (f', b) \<Longrightarrow> fb_step f f'"
| step_switch: "SetCurrentBasicBlock f b = Inr f' \<Longrightarrow> b < length (basic_blocks f) \<Longrightarrow> fb_step f f'"
| step_phi: "Update f v instr = Inr f' \<Longrightarrow>
    OpcodeFrom (GenericOpcode (instructions f ! unat (GetIdx v))) = PHI_MEMBER \<Longrightarrow> fb_step f f'"

inductive_cases fb_stepE: "fb_step f f'"

inductive fb_reachable :: "FunctionBuilder \<Rightarrow> bool" where
  reach_init: "InitBody (FunctionBuilderNew name ft rt ats False func) = Inr f \<Longrightarrow> fb_reachable f"
| reach_step: "fb_reachable f \<Longrightarrow> fb_step f f' \<Longrightarrow> fb_reachable f'"

lemma phi_member_no_terminator:
  "OpcodeFrom (GenericOpcode instr) = PHI_MEMBER \<Longrightarrow> \<not> terminator instr"
  by (simp add: terminator_def IsTerminatingInstr_def)

lemma fb_step_ok: "fb_step f f' \<Longrightarrow> fb_ok f \<Longrightarrow> fb_ok f'"
proof (induction rule: fb_step.induct)
  case (step_switch f b f')
  then have f': "f' = f\<lparr>current_basic_block := b\<rparr>"
    by (auto simp: SetCurrentBasicBlock_def split: if_splits)
  have "block_ok f' i" if "block_ok f i" for i by (rule block_ok_other [OF that, of f' "[]"]) (simp_all add: f')
  then show ?case
    by (intro fb_ok_transfer [OF _ _ _ _ step_switch.prems]) (simp_all add: f' step_switch.hyps(2))
next
  case (step_phi f v instr f')
  then show ?case by (metis Update_fb_ok phi_member_no_terminator)
qed (auto dest: Append_fb_ok GenerateBasicBlock_fb_ok)

lemma fb_ok_arg_values: "fb_ok (f\<lparr>fb_arg_values := vs\<rparr>) \<longleftrightarrow> fb_ok f"
  by (simp add: fb_ok_def block_ok_def)

lemma InitBody_fb_ok:
  assumes "InitBody (FunctionBuilderNew name ft rt ats False func) = Inr f"
  shows "fb_ok f"
proof -
  let ?new = "FunctionBuilderNew name ft rt ats False func"
  obtain f0 where f0: "GenerateBasicBlock ?new = Inr (f0, 0)"
    "f0 = ?new\<lparr>basic_blocks := [(-1, -1)], basic_block_successors := [[]], basic_block_predecessors := [[]]\<rparr>"
    by (simp add: GenerateBasicBlock_def FunctionBuilderNew_def)
  have start: "fb_ok (f0\<lparr>current_basic_block := 0\<rparr>)"
    by (rule fb_okI [where n = 1]) (auto simp: f0(2) FunctionBuilderNew_def block_ok_def less_Suc_eq)
  from assms f0(1) obtain g where fold: "foldR g (f0\<lparr>current_basic_block := 0\<rparr>) [0..<length (fb_arg_types f0)] = Inr f"
    and g: "g = (\<lambda>f i. bindR (Append f (T3SetTypeID (T3SetSarg (T3SetOpcode 0 (OpcodeTo FUNC_ARG)) (of_nat i))
                              (fb_arg_types f ! i))) (\<lambda>(f, v).
             Inr (f\<lparr>fb_arg_values := fb_arg_values f @ [v]\<rparr>)))"
    by (simp add: InitBody_def)
  show ?thesis
    by (rule foldR_invariant [of g _ _ f fb_ok, OF fold start])
      (auto simp: g bindR_Inr_iff fb_ok_arg_values dest: Append_fb_ok(1))
qed

text \<open>Property C19: in every state a function under construction can reach, the lists of successors
  and predecessors have one entry per block and count the same edges, a terminated block
  spans existing instructions, ends with a terminator and its successors are that
  instruction's targets, an unterminated one has none, and the block order lists the
  terminated blocks once each.\<close>

theorem function_blocks_consistent: "fb_reachable f \<Longrightarrow> fb_ok f"
  by (induction rule: fb_reachable.induct) (auto intro: InitBody_fb_ok fb_step_ok)

theorem function_blocks_consistent_witness:
  "\<exists>f f1 f2. InitBody (FunctionBuilderNew ''main'' 0 0 [] False 0) = Inr f
     \<and> GenerateBasicBlock f = Inr (f1, 1) \<and> Append f1 (T5SetMarg0 (T5SetOpcode 0 (OpcodeTo BR)) 1) = Inr (f2, ValueOf 0)
     \<and> fb_ok f2 \<and> basic_block_predecessors f2 = [[], [0]]"
proof -
  define br :: u64 where "br = T5SetMarg0 (T5SetOpcode 0 (OpcodeTo BR)) 1"
  have br: "GenericOpcode br = BR" "T5Marg0 br = 1"
    by (simp_all add: br_def field_defs field_laws OpcodeTo_def)
  obtain f where f: "InitBody (FunctionBuilderNew ''main'' 0 0 [] False 0) = Inr f"
    "basic_blocks f = [(-1, -1)]" "instructions f = []" "basic_block_predecessors f = [[]]"
    "basic_block_successors f = [[]]" "\<not> fb_external f" "current_basic_block f = 0"
    by (simp add: InitBody_def GenerateBasicBlock_def FunctionBuilderNew_def)
  obtain f1 where f1: "GenerateBasicBlock f = Inr (f1, 1)"
    "basic_blocks f1 = [(-1, -1), (-1, -1)]" "instructions f1 = []" "basic_block_predecessors f1 = [[], []]"
    "basic_block_successors f1 = [[], []]" "\<not> fb_external f1" "current_basic_block f1 = 0"
    by (simp add: GenerateBasicBlock_def f)
  have "\<exists>f2. Append f1 br = Inr (f2, ValueOf 0) \<and> basic_block_predecessors f2 = [[], [0]]"
    by (simp add: Append_def f1 Let_def br IsTerminatingInstr_def UpdateSuccessors_def pushAt_def
        MakeValue_def ValueOf_def OpcodeFrom_def OpcodeTo_def)
  then obtain f2 where f2: "Append f1 br = Inr (f2, ValueOf 0)" "basic_block_predecessors f2 = [[], [0]]" by blast
  have "fb_reachable f2"
    using reach_init [OF f(1)] step_block [OF f1(1)] step_append [OF f2(1)] reach_step by blast
  then have "fb_ok f2" by (rule function_blocks_consistent)
  with f(1) f1(1) f2 show ?thesis unfolding br_def by blast
qed

lemma pushAt_cases: "pushAt vs i x = (if i < length vs then Inr (vs[i := vs ! i @ [x]]) else Inl Undefined)"
  by (simp add: pushAt_def nthR_def updR_def)

lemma UpdateSuccessors_cases:
  assumes "c < length succ" "length pred = length succ"
  shows "if \<forall>t\<in>set (branch_targets instr). t < length succ
    then \<exists>p. UpdateSuccessors pred succ c instr = Inr p else UpdateSuccessors pred succ c instr = Inl Undefined"
  using assms by (auto simp: UpdateSuccessors_def branch_targets_def Let_def pushAt_cases)

text \<open>Property C28: what appending an instruction does in every state a function can be in: it is
  refused on an external function and on a terminated block, a branch to a block that does
  not exist is out of bounds, the 2 to the 23rd instruction is refused because values cannot
  name it, and otherwise the value returned names the instruction.\<close>

theorem append_outcome:
  assumes "fb_ok f" "length (instructions f) < 2 ^ 32"
  shows "if fb_external f then Append f instr = Inl (RuntimeError ''Cannot get add body to external function'')
    else if 0 \<le> snd (basic_blocks f ! current_basic_block f)
    then Append f instr = Inl (RuntimeError ''Cannot append to terminated basic block.'')
    else if terminator instr \<and> (\<exists>t\<in>set (branch_targets instr). length (basic_blocks f) \<le> t)
    then Append f instr = Inl Undefined
    else if 2 ^ 23 \<le> length (instructions f) then Append f instr = Inl (RuntimeError ''Invalid idx'')
    else \<exists>f' v. Append f instr = Inr (f', v) \<and> fb_ok f' \<and> \<not> IsConstantGlobal v
      \<and> unat (GetIdx v) = length (instructions f) \<and> instructions f' = instructions f @ [instr]"
proof -
  let ?c = "current_basic_block f" and ?n = "length (instructions f)"
  note ok = fb_okD [OF assms(1)]
  obtain first second where b: "basic_blocks f ! ?c = (first, second)" by (cases "basic_blocks f ! ?c")
  have idx: "unat (of_nat ?n :: u32) = ?n" using assms(2) by (simp add: unat_of_nat)
  have big: "(0x7FFFFF < (of_nat ?n :: u32)) = (2 ^ 23 \<le> ?n)" using idx by (simp add: word_less_nat_alt) presburger
  have upd: "if \<forall>t\<in>set (branch_targets instr). t < length (basic_blocks f)
    then \<exists>p. UpdateSuccessors (basic_block_predecessors f) (basic_block_successors f) ?c instr = Inr p
    else UpdateSuccessors (basic_block_predecessors f) (basic_block_successors f) ?c instr = Inl Undefined"
    using UpdateSuccessors_cases [of ?c "basic_block_successors f" "basic_block_predecessors f" instr] ok(1-3) by simp
  have res: "unat (GetIdx v) = ?n \<and> \<not> IsConstantGlobal v \<and> fb_ok f' \<and> instructions f' = instructions f @ [instr]"
    if "Append f instr = Inr (f', v)" for f' v
    using that Append_cases [OF that] MakeValue_law [of "of_nat ?n" False v] idx Append_fb_ok [OF assms(1) that] by metis
  have open_block: "Append f instr = Inl Undefined
      \<and> terminator instr \<and> (\<exists>t\<in>set (branch_targets instr). length (basic_blocks f) \<le> t)
    \<or> (\<exists>f1. Append f instr = bindR (MakeValue (of_nat ?n) False) (\<lambda>v. Inr (f1, v)))
      \<and> \<not> (terminator instr \<and> (\<exists>t\<in>set (branch_targets instr). length (basic_blocks f) \<le> t))"
    if "\<not> fb_external f" "second < 0"
    using that upd ok(3) b
    by (auto simp: Append_def Let_def terminator_def not_le [symmetric] split: if_splits)
  consider "fb_external f" | "\<not> fb_external f" "0 \<le> second" | "\<not> fb_external f" "second < 0" by linarith
  then show ?thesis
  proof cases
    case 3
    then show ?thesis using open_block res big b by (auto simp: MakeValue_def)
  qed (use ok(3) b in \<open>simp_all add: Append_def Let_def\<close>)
qed

theorem append_outcome_witness:
  "\<exists>f. InitBody (FunctionBuilderNew ''main'' 0 0 [] False 0) = Inr f
     \<and> Append f (T5SetMarg0 (T5SetOpcode 0 (OpcodeTo BR)) 7) = Inl Undefined"
proof -
  define br :: u64 where "br = T5SetMarg0 (T5SetOpcode 0 (OpcodeTo BR)) 7"
  have br: "GenericOpcode br = BR" "T5Marg0 br = 7"
    by (simp_all add: br_def field_defs field_laws OpcodeTo_def)
  obtain f where f: "InitBody (FunctionBuilderNew ''main'' 0 0 [] False 0) = Inr f"
    "basic_blocks f = [(-1, -1)]" "instructions f = []" "\<not> fb_external f" "current_basic_block f = 0"
    by (simp add: InitBody_def GenerateBasicBlock_def FunctionBuilderNew_def)
  have t: "terminator br" "branch_targets br = [7]"
    by (simp_all add: terminator_def branch_targets_def IsTerminatingInstr_def OpcodeFrom_def br)
  have "Append f br = Inl Undefined"
    using append_outcome [OF InitBody_fb_ok [OF f(1)], of br] by (simp add: f t)
  with f(1) show ?thesis unfolding br_def by blast
qed

lemma Append_instructions: "Append f instr = Inr (f', v) \<Longrightarrow> instructions f' = instructions f @ [instr]"
  by (erule Append_cases) simp

lemma AppendInstr_last:
  assumes "AppendInstr st instr = Inr (st', v)"
  shows "\<exists>f'. GetCurrentFunction st' = Inr f' \<and> last (instructions f') = instr"
proof -
  from assms obtain f f' where f: "GetCurrentFunction st = Inr f" "Append f instr = Inr (f', v)"
    "st' = st\<lparr>pb_functions := (pb_functions st)[current_function st := f']\<rparr>"
    by (auto simp: AppendInstr_def bindR_Inr_iff)
  have "instructions f' = instructions f @ [instr]" by (rule Append_instructions [OF f(2)])
  with f(1,3) show ?thesis by (auto simp: GetCurrentFunction_def nthR_Inr_iff)
qed



end
