(* ===== verification/KhirUses.thy ===== *)
theory KhirUses
  imports KhirProgram
begin

text \<open>
  Which values an instruction reads and writes (\<^verbatim>\<open>khir/asm/live_intervals.cc\<close>) and which address
  computations are materialised (\<^verbatim>\<open>khir/asm/materialize_gep.cc\<close>). Instruction positions are the
  sources' \<^verbatim>\<open>int\<close>; a position outside the vector is undefined behaviour. The type manager is only
  asked whether a type is one of the base types, which depends on the number of the type alone.
\<close>

section \<open>Opcodes and types\<close>

definition opcode_at :: "u64 list \<Rightarrow> int \<Rightarrow> Opcode res" where
  "opcode_at instrs i = bindR (nthI instrs i) (\<lambda>instr. Inr (OpcodeFrom (GenericOpcode instr)))"

definition IsGep :: "Value \<Rightarrow> u64 list \<Rightarrow> bool res" where
  "IsGep v instructions =
     (if IsConstantGlobal v then Inr False
      else bindR (opcode_at instructions (uint (GetIdx v))) (\<lambda>opcode.
             Inr (opcode = GEP_STATIC \<or> opcode = GEP_DYNAMIC)))"

definition IsPhi :: "Value \<Rightarrow> u64 list \<Rightarrow> bool res" where
  "IsPhi v instructions =
     (if IsConstantGlobal v then Inr False
      else bindR (opcode_at instructions (uint (GetIdx v))) (\<lambda>opcode. Inr (opcode = PHI)))"

definition TypeOfAsm :: "u64 \<Rightarrow> Type res" where
  "TypeOfAsm instr =
     (let opcode = OpcodeFrom (GenericOpcode instr) in
      if opcode \<in> set [I1_AND, I1_OR, I1_CMP_EQ, I1_CMP_NE, I1_LNOT, I8_CMP_EQ, I8_CMP_NE, I8_CMP_LT,
                        I8_CMP_LE, I8_CMP_GT, I8_CMP_GE, I16_CMP_EQ, I16_CMP_NE, I16_CMP_LT, I16_CMP_LE,
                        I16_CMP_GT, I16_CMP_GE, I32_CMP_EQ, I32_CMP_NE, I32_CMP_LT, I32_CMP_LE, I32_CMP_GT,
                        I32_CMP_GE, I64_CMP_EQ, I64_CMP_NE, I64_CMP_LT, I64_CMP_LE, I64_CMP_GT, I64_CMP_GE,
                        F64_CMP_EQ, F64_CMP_NE, F64_CMP_LT, F64_CMP_LE, F64_CMP_GT, F64_CMP_GE,
                        PTR_CMP_NULLPTR, I1_LOAD, I32_CMP_EQ_ANY_CONST_VEC4, I32_CMP_EQ_ANY_CONST_VEC8]
      then Inr I1Type
      else if opcode \<in> set [MASK_TO_PERMUTE]
      then Inr I32Vec8PtrType
      else if opcode \<in> set [I64_POPCOUNT, I1_VEC8_MASK_EXTRACT]
      then Inr I64Type
      else if opcode \<in> set [I32_VEC8_CMP_EQ, I32_VEC8_CMP_NE, I32_VEC8_CMP_LT, I32_VEC8_CMP_LE, I32_VEC8_CMP_GT,
                             I32_VEC8_CMP_GE, I1_VEC8_AND, I1_VEC8_OR, I1_VEC8_NOT]
      then Inr I1Vec8Type
      else if opcode \<in> set [I8_ADD, I8_MUL, I8_SUB, I8_LOAD, I1_ZEXT_I8]
      then Inr I8Type
      else if opcode \<in> set [I16_ADD, I16_MUL, I16_SUB, I16_LOAD, I64_TRUNC_I16]
      then Inr I16Type
      else if opcode \<in> set [I32_ADD, I32_MUL, I32_SUB, I32_LOAD, I64_TRUNC_I32]
      then Inr I32Type
      else if opcode \<in> set [I32_VEC8_ADD, I32_CONV_I32_VEC8, I32_VEC8_LOAD, I32_VEC8_PERMUTE]
      then Inr I32Vec8Type
      else if opcode \<in> set [I64_LSHIFT, I64_RSHIFT, I64_AND, I64_XOR, I64_OR, I64_ADD, I64_MUL, I64_SUB,
                             I1_ZEXT_I64, I8_ZEXT_I64, I16_ZEXT_I64, I32_ZEXT_I64, F64_CONV_I64, I64_LOAD]
      then Inr I64Type
      else if opcode \<in> set [F64_ADD, F64_MUL, F64_SUB, F64_DIV, I8_CONV_F64, I16_CONV_F64, I32_CONV_F64,
                             I64_CONV_F64, F64_LOAD]
      then Inr F64Type
      else if opcode \<in> set [RETURN, I8_STORE, I16_STORE, I32_STORE, I64_STORE, F64_STORE, PTR_STORE,
                             I32_VEC8_MASK_STORE, RETURN_VALUE, CONDBR, BR]
      then Inr VoidType
      else if opcode \<in> set [CALL_INDIRECT, PHI, CALL, PTR_LOAD, PTR_CAST, GEP_STATIC, GEP_DYNAMIC, FUNC_ARG]
      then Inr (T3TypeID instr)
      else if opcode \<in> set [GEP_STATIC_OFFSET, GEP_DYNAMIC_OFFSET, PHI_MEMBER, CALL_ARG, I32_VEC8_MASK_STORE_INFO]
      then Inr VoidType
      else Inl Undefined)"

section \<open>Values read and written\<close>

text \<open>Only values of the function itself are kept, not constants and globals.\<close>

definition push_local :: "Value list \<Rightarrow> Value \<Rightarrow> Value list" where
  "push_local result v = (if \<not> IsConstantGlobal v then result @ [v] else result)"

definition GetReadValuesGEP :: "int \<Rightarrow> u64 list \<Rightarrow> Value list res" where
  "GetReadValuesGEP instr_idx instrs =
     bindR (opcode_at instrs instr_idx) (\<lambda>opcode.
     if opcode = GEP_STATIC then
       bindR (nthI instrs (instr_idx - 1)) (\<lambda>reader.
       if OpcodeFrom (T2Opcode reader) \<noteq> GEP_STATIC_OFFSET then Inl (RuntimeError ''Invalid GEP_STATIC_OFFSET'')
       else let ptr = ValueOf (T2Arg0 reader) in Inr (push_local [] ptr))
     else if opcode = GEP_DYNAMIC then
       bindR (nthI instrs instr_idx) (\<lambda>reader1.
       bindR (nthI instrs (instr_idx - 1)) (\<lambda>reader2.
       if OpcodeFrom (T2Opcode reader2) \<noteq> GEP_DYNAMIC_OFFSET then Inl (RuntimeError ''Invalid GEP_DYNAMIC_OFFSET'')
       else
         let ptr = ValueOf (T3Arg reader1);
             index_offset = ValueOf (T2Arg0 reader2);
             offset = ValueOf (T2Arg1 reader2)
         in Inr (push_local (push_local (push_local [] ptr) index_offset) offset)))
     else Inl (RuntimeError ''Not a GEP''))"

definition GetWrittenValue :: "int \<Rightarrow> u64 list \<Rightarrow> bool list \<Rightarrow> Value option res" where
  "GetWrittenValue instr_idx instrs materialize_gep =
     bindR (nthI instrs instr_idx) (\<lambda>instr.
     let opcode = OpcodeFrom (GenericOpcode instr) in
     if opcode \<in> set [I1_AND, I1_OR, I1_CMP_EQ, I1_CMP_NE, I8_ADD, I8_MUL, I8_SUB, I8_CMP_EQ, I8_CMP_NE,
                       I8_CMP_LT, I8_CMP_LE, I8_CMP_GT, I8_CMP_GE, I16_ADD, I16_MUL, I16_SUB, I16_CMP_EQ,
                       I16_CMP_NE, I16_CMP_LT, I16_CMP_LE, I16_CMP_GT, I16_CMP_GE, I32_ADD, I32_MUL, I32_SUB,
                       I32_CMP_EQ, I32_CMP_NE, I32_CMP_LT, I32_CMP_LE, I32_CMP_GT, I32_CMP_GE,
                       I32_VEC8_CMP_EQ, I32_VEC8_CMP_NE, I32_VEC8_CMP_LT, I32_VEC8_CMP_LE, I32_VEC8_CMP_GT,
                       I32_VEC8_CMP_GE, I32_VEC8_PERMUTE, I32_VEC8_ADD, I1_VEC8_AND, I1_VEC8_OR, I1_VEC8_NOT,
                       MASK_TO_PERMUTE, I64_POPCOUNT, I1_VEC8_MASK_EXTRACT, I32_CMP_EQ_ANY_CONST_VEC4,
                       I32_CMP_EQ_ANY_CONST_VEC8, I64_ADD, I64_MUL, I64_SUB, I64_LSHIFT, I64_RSHIFT, I64_AND,
                       I64_OR, I64_XOR, I64_CMP_EQ, I64_CMP_NE, I64_CMP_LT, I64_CMP_LE, I64_CMP_GT,
                       I64_CMP_GE, F64_ADD, F64_MUL, F64_SUB, F64_DIV, F64_CMP_EQ, F64_CMP_NE, F64_CMP_LT,
                       F64_CMP_LE, F64_CMP_GT, F64_CMP_GE, I1_LNOT, I1_ZEXT_I8, I1_ZEXT_I64, I8_ZEXT_I64,
                       I8_CONV_F64, I16_ZEXT_I64, I16_CONV_F64, I32_ZEXT_I64, I32_CONV_F64, I32_CONV_I32_VEC8,
                       I64_CONV_F64, I64_TRUNC_I16, I64_TRUNC_I32, F64_CONV_I64, I1_LOAD, I8_LOAD, I16_LOAD,
                       I32_LOAD, I32_VEC8_LOAD, I64_LOAD, F64_LOAD, FUNC_ARG, PTR_CAST, PTR_LOAD, CALL_ARG,
                       PTR_CMP_NULLPTR]
     then Inr (Some (ValueOf (word_of_int instr_idx)))
     else if opcode \<in> set [CALL, CALL_INDIRECT]
     then Inr (if \<not> IsVoid (T3TypeID instr) then Some (ValueOf (word_of_int instr_idx)) else None)
     else if opcode \<in> set [PHI_MEMBER]
     then let v0 = ValueOf (T2Arg0 instr) in Inr (Some (ValueOf (GetIdx v0)))
     else if opcode \<in> set [GEP_DYNAMIC, GEP_STATIC]
     then bindR (nthI materialize_gep instr_idx) (\<lambda>m. Inr (if m then Some (ValueOf (word_of_int instr_idx)) else None))
     else if opcode \<in> set [I8_STORE, I16_STORE, I32_STORE, I64_STORE, F64_STORE, PTR_STORE, I32_VEC8_MASK_STORE,
                            I32_VEC8_MASK_STORE_INFO, GEP_STATIC_OFFSET, GEP_DYNAMIC_OFFSET, BR, CONDBR, RETURN,
                            RETURN_VALUE, PHI]
     then Inr None
     else Inl Undefined)"

text \<open>
  How an address is read: a computation that is not materialised is folded into its user, which
  then reads the operands of the computation. Other operands have to be materialised.
\<close>

definition folded_gep :: "Value \<Rightarrow> u64 list \<Rightarrow> bool list \<Rightarrow> bool res" where
  "folded_gep v instrs materialize_gep =
     bindR (IsGep v instrs) (\<lambda>gep.
       if gep then bindR (nthI materialize_gep (uint (GetIdx v))) (\<lambda>m. Inr (\<not> m)) else Inr False)"

definition read_address :: "Value \<Rightarrow> u64 list \<Rightarrow> bool list \<Rightarrow> Value list res" where
  "read_address v instrs materialize_gep =
     bindR (folded_gep v instrs materialize_gep) (\<lambda>folded.
       if folded then GetReadValuesGEP (uint (GetIdx v)) instrs else Inr (push_local [] v))"

definition read_materialized :: "string \<Rightarrow> Value list \<Rightarrow> Value \<Rightarrow> u64 list \<Rightarrow> bool list \<Rightarrow> Value list res" where
  "read_materialized msg result v instrs materialize_gep =
     bindR (folded_gep v instrs materialize_gep) (\<lambda>folded.
       if folded then Inl (RuntimeError msg) else Inr (push_local result v))"

text \<open>The arguments of a call are the argument instructions directly before it in its segment.\<close>

function call_args :: "int \<Rightarrow> int \<Rightarrow> u64 list \<Rightarrow> Value list \<Rightarrow> Value list res" where
  "call_args j seg_start instrs result =
     (if j \<ge> seg_start then
        bindR (opcode_at instrs j) (\<lambda>opcode.
          if opcode = CALL_ARG then call_args (j - 1) seg_start instrs (result @ [ValueOf (word_of_int j)])
          else Inr result)
      else Inr result)"
  by pat_completeness auto
termination
  by (relation "measure (\<lambda>(j, s, _, _). nat (j - s + 1))") auto

declare call_args.simps [simp del]

definition GetReadValues :: "int \<Rightarrow> int \<Rightarrow> bool list \<Rightarrow> u64 list \<Rightarrow> Value list res" where
  "GetReadValues instr_idx seg_start materialize_gep instrs =
     bindR (nthI instrs instr_idx) (\<lambda>instr.
     let opcode = OpcodeFrom (GenericOpcode instr) in
     if opcode \<in> set [I1_AND, I1_OR, I1_CMP_EQ, I1_CMP_NE, I8_ADD, I8_MUL, I8_SUB, I8_CMP_EQ, I8_CMP_NE,
                       I8_CMP_LT, I8_CMP_LE, I8_CMP_GT, I8_CMP_GE, I16_ADD, I16_MUL, I16_SUB, I16_CMP_EQ,
                       I16_CMP_NE, I16_CMP_LT, I16_CMP_LE, I16_CMP_GT, I16_CMP_GE, I32_ADD, I32_MUL, I32_SUB,
                       I32_CMP_EQ, I32_CMP_NE, I32_CMP_LT, I32_CMP_LE, I32_CMP_GT, I32_CMP_GE,
                       I32_VEC8_CMP_EQ, I32_VEC8_CMP_NE, I32_VEC8_CMP_LT, I32_VEC8_CMP_LE, I32_VEC8_CMP_GT,
                       I32_VEC8_CMP_GE, I32_VEC8_ADD, I1_VEC8_AND, I32_VEC8_PERMUTE, I1_VEC8_OR, I64_ADD,
                       I64_MUL, I64_SUB, I64_LSHIFT, I64_RSHIFT, I64_AND, I64_OR, I64_XOR, I64_CMP_EQ,
                       I64_CMP_NE, I64_CMP_LT, I64_CMP_LE, I64_CMP_GT, I64_CMP_GE, F64_ADD, F64_MUL, F64_SUB,
                       F64_DIV, F64_CMP_EQ, F64_CMP_NE, F64_CMP_LT, F64_CMP_LE, F64_CMP_GT, F64_CMP_GE,
                       I32_CMP_EQ_ANY_CONST_VEC4, I32_CMP_EQ_ANY_CONST_VEC8]
     then let v0 = ValueOf (T2Arg0 instr); v1 = ValueOf (T2Arg1 instr) in Inr (push_local (push_local [] v0) v1)
     else if opcode = PHI_MEMBER
     then read_materialized ''Requried materialized GEP into PHI_MEMBER.'' [] (ValueOf (T2Arg1 instr)) instrs materialize_gep
     else if opcode \<in> set [I1_LNOT, MASK_TO_PERMUTE, I64_POPCOUNT, I1_VEC8_MASK_EXTRACT, I1_VEC8_NOT, I1_ZEXT_I8,
                            I1_ZEXT_I64, I8_ZEXT_I64, I8_CONV_F64, I16_ZEXT_I64, I16_CONV_F64, I32_ZEXT_I64,
                            I32_CONV_F64, I32_CONV_I32_VEC8, I64_CONV_F64, I64_TRUNC_I16, I64_TRUNC_I32,
                            F64_CONV_I64]
     then Inr (push_local [] (ValueOf (T2Arg0 instr)))
     else if opcode = PTR_CMP_NULLPTR
     then read_materialized ''Requried materialized GEP into PTR_CMP_NULLPTR.'' [] (ValueOf (T2Arg0 instr)) instrs materialize_gep
     else if opcode \<in> set [I1_LOAD, I8_LOAD, I16_LOAD, I32_LOAD, I32_VEC8_LOAD, I64_LOAD, F64_LOAD]
     then read_address (ValueOf (T2Arg0 instr)) instrs materialize_gep
     else if opcode = PTR_CAST
     then read_materialized ''Required materialized GEP into PTR_CAST.'' [] (ValueOf (T3Arg instr)) instrs materialize_gep
     else if opcode = PTR_LOAD
     then read_address (ValueOf (T3Arg instr)) instrs materialize_gep
     else if opcode \<in> set [I8_STORE, I16_STORE, I32_STORE, I64_STORE, F64_STORE, PTR_STORE]
     then bindR (read_address (ValueOf (T2Arg0 instr)) instrs materialize_gep) (\<lambda>result.
            read_materialized ''Required materialized GEP into XXX_STORE.'' result (ValueOf (T2Arg1 instr)) instrs materialize_gep)
     else if opcode = CONDBR
     then Inr (push_local [] (ValueOf (T5Arg instr)))
     else if opcode \<in> set [RETURN_VALUE, CALL_ARG]
     then read_materialized ''Required materialized GEP into RETURN_VALUE/CALL_ARG.'' [] (ValueOf (T3Arg instr)) instrs materialize_gep
     else if opcode \<in> set [CALL_INDIRECT, CALL]
     then bindR (if opcode = CALL_INDIRECT
                 then read_materialized ''Required materialized GEP into CALL_INDIRECT.'' [] (ValueOf (T3Arg instr)) instrs materialize_gep
                 else Inr []) (\<lambda>result. call_args (instr_idx - 1) seg_start instrs result)
     else if opcode \<in> set [GEP_DYNAMIC, GEP_STATIC]
     then bindR (nthI materialize_gep instr_idx) (\<lambda>m. if m then GetReadValuesGEP instr_idx instrs else Inr [])
     else if opcode = I32_VEC8_MASK_STORE
     then bindR (read_address (ValueOf (T2Arg0 instr)) instrs materialize_gep) (\<lambda>result.
          bindR (read_materialized ''Required materialized GEP into XXX_STORE.'' result (ValueOf (T2Arg1 instr)) instrs materialize_gep) (\<lambda>result.
          bindR (nthI instrs (instr_idx - 1)) (\<lambda>reader_info.
            Inr (push_local result (ValueOf (T2Arg0 reader_info))))))
     else if opcode \<in> set [RETURN, BR, FUNC_ARG, GEP_STATIC_OFFSET, GEP_DYNAMIC_OFFSET, PHI,
                            I32_VEC8_MASK_STORE_INFO]
     then Inr []
     else Inl Undefined)"

section \<open>Materialised address computations\<close>

text \<open>
  The opcode of the named instruction is read before the value is known to name one: a constant
  whose index is past the last instruction makes the read undefined.
\<close>

definition MarkMaterialization :: "Value \<Rightarrow> u64 list \<Rightarrow> bool list \<Rightarrow> bool list res" where
  "MarkMaterialization value instrs should_materialize =
     bindR (opcode_at instrs (uint (GetIdx value))) (\<lambda>opcode.
       if \<not> IsConstantGlobal value \<and> (opcode = GEP_STATIC \<or> opcode = GEP_DYNAMIC)
       then updI should_materialize (uint (GetIdx value)) True
       else Inr should_materialize)"

definition materialize_step :: "u64 list \<Rightarrow> bool list \<Rightarrow> int \<Rightarrow> bool list res" where
  "materialize_step instrs should_materialize i =
     bindR (nthI instrs i) (\<lambda>instr.
     let opcode = OpcodeFrom (GenericOpcode instr) in
     if opcode \<in> set [GEP_DYNAMIC, RETURN_VALUE, CALL_INDIRECT, PTR_CAST, CALL_ARG]
     then MarkMaterialization (ValueOf (T3Arg instr)) instrs should_materialize
     else if opcode \<in> set [PTR_STORE, PHI_MEMBER]
     then MarkMaterialization (ValueOf (T2Arg1 instr)) instrs should_materialize
     else if opcode \<in> set [GEP_STATIC_OFFSET, PTR_CMP_NULLPTR]
     then MarkMaterialization (ValueOf (T2Arg0 instr)) instrs should_materialize
     else Inr should_materialize)"

text \<open>The instructions of a block in order, each with the start of its segment.\<close>

definition segment :: "int \<times> int \<Rightarrow> (int \<times> int) list" where
  "segment seg = map (\<lambda>i. (fst seg, i)) [fst seg .. snd seg]"

definition positions :: "BasicBlock \<Rightarrow> (int \<times> int) list" where
  "positions b = concat (map segment (Segments b))"

definition ComputeGEPMaterialize :: "Function \<Rightarrow> bool list res" where
  "ComputeGEPMaterialize func =
     foldR (\<lambda>m b. foldR (\<lambda>m (seg_start, i). materialize_step (Instrs func) m i) m (positions b))
       (replicate (length (Instrs func)) False) (BasicBlocks func)"

end
