(* ===== verification/KhirMaterialize.thy ===== *)
theory KhirMaterialize
  imports KhirUses
begin

text \<open>
  The operands of an instruction that have to be values are materialised by the marking pass, so that
  the computation of the values an instruction reads never meets a folded address where it cannot
  fold one.
\<close>

section \<open>Operands that are read are materialised\<close>

lemma mark_ok:
  assumes "MarkMaterialization v instrs m = Inr m'"
  shows "length m' = length m" "\<And>k. k < length m \<Longrightarrow> m ! k \<Longrightarrow> m' ! k"
    "length m = length instrs \<Longrightarrow> folded_gep v instrs m' = Inr False"
proof -
  obtain opcode where op: "opcode_at instrs (uint (GetIdx v)) = Inr opcode"
    and upd: "(if \<not> IsConstantGlobal v \<and> (opcode = GEP_STATIC \<or> opcode = GEP_DYNAMIC)
                then updI m (uint (GetIdx v)) True else Inr m) = Inr m'"
    using assms unfolding MarkMaterialization_def by (elim bindR_InrE)
  let ?n = "nat (uint (GetIdx v))"
  have len: "?n < length instrs" using op by (auto simp: opcode_at_def bindR_Inr_iff nthI_Inr_iff)
  have m': "m' = (if \<not> IsConstantGlobal v \<and> (opcode = GEP_STATIC \<or> opcode = GEP_DYNAMIC) then m[?n := True] else m)"
    using upd by (auto simp: updI_def updR_Inr_iff split: if_splits)
  have "m[?n := True] ! k" if "k < length m" "m ! k" for k using that by (cases "k = ?n") simp_all
  then show "length m' = length m" "\<And>k. k < length m \<Longrightarrow> m ! k \<Longrightarrow> m' ! k" by (simp_all add: m')
  show "folded_gep v instrs m' = Inr False" if "length m = length instrs"
    using that len by (simp add: folded_gep_def IsGep_def op m')
qed

text \<open>The pointer operands that have to be values: what the marking pass looks at.\<close>

definition value_operands :: "u64 \<Rightarrow> Value list" where
  "value_operands instr =
     (let opcode = OpcodeFrom (GenericOpcode instr) in
      if opcode \<in> set [GEP_DYNAMIC, RETURN_VALUE, CALL_INDIRECT, PTR_CAST, CALL_ARG] then [ValueOf (T3Arg instr)]
      else if opcode \<in> set [PTR_STORE, PHI_MEMBER] then [ValueOf (T2Arg1 instr)]
      else if opcode \<in> set [GEP_STATIC_OFFSET, PTR_CMP_NULLPTR] then [ValueOf (T2Arg0 instr)]
      else [])"

abbreviation mark_all :: "u64 list \<Rightarrow> bool list \<Rightarrow> Value list \<Rightarrow> bool list res" where
  "mark_all instrs \<equiv> foldR (\<lambda>m v. MarkMaterialization v instrs m)"

lemma materialize_step_marks:
  "materialize_step instrs m i = bindR (nthI instrs i) (\<lambda>instr. mark_all instrs m (value_operands instr))"
proof -
  have one: "bindR (MarkMaterialization v instrs m) Inr = MarkMaterialization v instrs m" for v
    by (cases "MarkMaterialization v instrs m") simp_all
  show ?thesis
    by (simp only: materialize_step_def value_operands_def Let_def if_distrib [where f = "mark_all instrs m"] foldR.simps one)
qed

definition marks_kept :: "bool list \<Rightarrow> bool list \<Rightarrow> bool" where
  "marks_kept m m' \<longleftrightarrow> length m' = length m \<and> (\<forall>k<length m. m ! k \<longrightarrow> m' ! k)"

lemma marks_kept_refl: "marks_kept m m"
  by (simp add: marks_kept_def)

lemma marks_kept_trans: "marks_kept a b \<Longrightarrow> marks_kept b c \<Longrightarrow> marks_kept a c"
  by (simp add: marks_kept_def)

lemma marks_kept_loop:
  assumes "foldR f m xs = Inr m'" "\<And>m x m'. x \<in> set xs \<Longrightarrow> f m x = Inr m' \<Longrightarrow> marks_kept m m'"
  shows "marks_kept m m'"
  using assms(1) marks_kept_refl marks_kept_trans assms(2) by (rule foldR_rel [where R = marks_kept])

lemma mark_kept: "MarkMaterialization v instrs m = Inr m' \<Longrightarrow> marks_kept m m'"
  by (simp add: marks_kept_def mark_ok)

lemma step_kept: "materialize_step instrs m i = Inr m' \<Longrightarrow> marks_kept m m'"
  unfolding materialize_step_marks
  by (erule bindR_InrE, erule marks_kept_loop, erule mark_kept)

lemma folded_kept:
  assumes "folded_gep v instrs m = Inr False" "marks_kept m m'"
  shows "folded_gep v instrs m' = Inr False"
proof -
  obtain gep where gep: "IsGep v instrs = Inr gep" using assms(1) by (auto simp: folded_gep_def bindR_Inr_iff)
  show ?thesis
    using assms by (cases gep) (auto simp: folded_gep_def gep bindR_Inr_iff nthI_Inr_iff marks_kept_def)
qed

text \<open>Every such operand of an instruction of the function is a value after the pass.\<close>

lemma operands_marked:
  assumes run: "ComputeGEPMaterialize func = Inr m" and b: "b \<in> set (BasicBlocks func)" and p: "(s, i) \<in> set (positions b)"
    and i: "nthI (Instrs func) i = Inr instr" and v: "value_operands instr = [v]"
  shows "folded_gep v (Instrs func) m = Inr False"
proof -
  let ?step = "\<lambda>m (seg_start, i). materialize_step (Instrs func) m i" and ?n = "length (Instrs func)"
  let ?block = "\<lambda>m b. foldR ?step m (positions b)"
  have kept: "marks_kept m m'" if "foldR ?step m ps = Inr m'" for m m' ps
    using that by (rule marks_kept_loop) (simp_all add: split_beta step_kept)
  have kept_blocks: "marks_kept m m'" if "foldR ?block m bs = Inr m'" for m m' bs
    using that by (rule marks_kept_loop) (simp_all add: kept)
  obtain as bs where bs: "BasicBlocks func = as @ b # bs" using b by (meson split_list)
  obtain ps qs where ps: "positions b = ps @ (s, i) # qs" using p by (meson split_list)
  obtain m1 m2 where m12: "foldR ?block (replicate ?n False) as = Inr m1" "?block m1 b = Inr m2" "foldR ?block m2 bs = Inr m"
    using run unfolding ComputeGEPMaterialize_def bs by (elim foldR_split)
  obtain m3 m4 where m34: "foldR ?step m1 ps = Inr m3" "?step m3 (s, i) = Inr m4" "foldR ?step m4 qs = Inr m2"
    using m12(2) unfolding ps by (elim foldR_split)
  have len: "length m3 = ?n" using kept_blocks [OF m12(1)] kept [OF m34(1)] by (simp add: marks_kept_def)
  have "MarkMaterialization v (Instrs func) m3 = Inr m4"
    using m34(2) i v by (auto simp: materialize_step_marks bindR_Inr_iff)
  then have "folded_gep v (Instrs func) m4 = Inr False" using len by (rule mark_ok(3))
  then have "folded_gep v (Instrs func) m2 = Inr False" using kept [OF m34(3)] by (rule folded_kept)
  then show ?thesis using kept_blocks [OF m12(3)] by (rule folded_kept)
qed

section \<open>Reading the operands throws nothing\<close>

definition no_throw :: "'a res \<Rightarrow> bool" where
  "no_throw r \<longleftrightarrow> (\<forall>e. r \<noteq> Inl (RuntimeError e))"

text \<open>The builder puts the offsets of an address computation directly before it.\<close>

definition geps_formed :: "u64 list \<Rightarrow> bool" where
  "geps_formed instrs \<longleftrightarrow>
     (\<forall>k \<in> set [0..<length instrs].
        (OpcodeFrom (GenericOpcode (instrs ! k)) = GEP_STATIC \<longrightarrow>
           0 < k \<and> OpcodeFrom (T2Opcode (instrs ! (k - 1))) = GEP_STATIC_OFFSET) \<and>
        (OpcodeFrom (GenericOpcode (instrs ! k)) = GEP_DYNAMIC \<longrightarrow>
           0 < k \<and> OpcodeFrom (T2Opcode (instrs ! (k - 1))) = GEP_DYNAMIC_OFFSET))"

lemma no_throw_intros [intro]:
  "no_throw (Inr x)" "no_throw (Inl Undefined)" "no_throw (nthI xs i)"
  "no_throw m \<Longrightarrow> (\<And>x. m = Inr x \<Longrightarrow> no_throw (f x)) \<Longrightarrow> no_throw (bindR m f)"
  by (auto simp: no_throw_def nthI_def nthR_def bindR_def split: sum.splits)

lemma no_throw_if: "(c \<Longrightarrow> no_throw a) \<Longrightarrow> (\<not> c \<Longrightarrow> no_throw b) \<Longrightarrow> no_throw (if c then a else b)"
  by simp

lemma no_throw_opcode_at: "no_throw (opcode_at instrs i)"
  unfolding opcode_at_def by blast

lemma no_throw_folded: "no_throw (folded_gep v instrs m)"
  unfolding folded_gep_def IsGep_def by (intro no_throw_intros no_throw_if no_throw_opcode_at)

lemma no_throw_call_args: "no_throw (call_args j seg_start instrs result)"
proof (induction j seg_start instrs result rule: call_args.induct)
  case (1 j seg_start instrs result)
  then show ?case
    by (subst call_args.simps) (intro no_throw_intros(1,2,4) no_throw_if no_throw_opcode_at; assumption)
qed

lemma no_throw_gep:
  assumes "geps_formed instrs" "opcode_at instrs i = Inr opcode" "opcode = GEP_STATIC \<or> opcode = GEP_DYNAMIC"
  shows "no_throw (GetReadValuesGEP i instrs)"
proof -
  have i: "0 \<le> i" "nat i < length instrs" and op: "opcode = OpcodeFrom (GenericOpcode (instrs ! nat i))"
    using assms(2) by (auto simp: opcode_at_def bindR_Inr_iff nthI_Inr_iff)
  have k: "(opcode = GEP_STATIC \<longrightarrow> 0 < nat i \<and> OpcodeFrom (T2Opcode (instrs ! (nat i - 1))) = GEP_STATIC_OFFSET) \<and>
        (opcode = GEP_DYNAMIC \<longrightarrow> 0 < nat i \<and> OpcodeFrom (T2Opcode (instrs ! (nat i - 1))) = GEP_DYNAMIC_OFFSET)"
    by (rule bspec [OF assms(1) [unfolded geps_formed_def], of "nat i", folded op]) (use i in simp)
  then have "0 < i" using assms(3) by auto
  then have prev: "nthI instrs (i - 1) = Inr (instrs ! (nat i - 1))" using i(2) by (simp add: nat_diff_distrib)
  from assms(3) show ?thesis
    using i k by (elim disjE) (simp_all add: GetReadValuesGEP_def assms(2) prev no_throw_def Let_def)
qed

lemma no_throw_address:
  assumes "geps_formed instrs" shows "no_throw (read_address v instrs m)"
proof -
  have "no_throw (GetReadValuesGEP (uint (GetIdx v)) instrs)" if folded: "folded_gep v instrs m = Inr True"
  proof -
    have "IsGep v instrs = Inr True" using folded by (auto simp: folded_gep_def bindR_Inr_iff split: if_splits)
    then obtain opcode where "opcode_at instrs (uint (GetIdx v)) = Inr opcode" "opcode = GEP_STATIC \<or> opcode = GEP_DYNAMIC"
      by (auto simp: IsGep_def bindR_Inr_iff split: if_splits)
    then show ?thesis by (rule no_throw_gep [OF assms])
  qed
  then show ?thesis unfolding read_address_def by (intro no_throw_intros no_throw_if no_throw_folded) simp_all
qed

lemma no_throw_materialized: "folded_gep v instrs m \<noteq> Inr True \<Longrightarrow> no_throw (read_materialized msg result v instrs m)"
  unfolding read_materialized_def by (intro no_throw_intros(1,2,4) no_throw_if no_throw_folded) simp_all

definition plain_store :: "Opcode \<Rightarrow> bool" where
  "plain_store opcode \<longleftrightarrow> opcode \<in> set [I8_STORE, I16_STORE, I32_STORE, I64_STORE, F64_STORE, I32_VEC8_MASK_STORE]"

text \<open>
  Property C30. After the marking pass, computing the values an instruction reads never throws: no
  instruction of a block finds a folded address where a value is required. The address computations
  have to be preceded by their offsets, and the value stored by an integer, floating-point or vector
  store must not be an address, as their types demand.
\<close>

theorem gep_operands_materialized:
  assumes "ComputeGEPMaterialize func = Inr m" "geps_formed (Instrs func)"
    and "b \<in> set (BasicBlocks func)" "(seg_start, i) \<in> set (positions b)"
    and "\<And>instr. nthI (Instrs func) i = Inr instr \<Longrightarrow> plain_store (OpcodeFrom (GenericOpcode instr)) \<Longrightarrow>
           IsGep (ValueOf (T2Arg1 instr)) (Instrs func) \<noteq> Inr True"
  shows "GetReadValues i seg_start m (Instrs func) \<noteq> Inl (RuntimeError e)"
proof (cases "nthI (Instrs func) i")
  case (Inr instr)
  let ?op = "OpcodeFrom (GenericOpcode instr)"
  have val: "no_throw (read_materialized msg result v (Instrs func) m)" if "value_operands instr = [v]" for v msg result
    by (rule no_throw_materialized) (use operands_marked [OF assms(1,3,4) Inr that] in simp)
  have plain: "no_throw (read_materialized msg result (ValueOf (T2Arg1 instr)) (Instrs func) m)" if "plain_store ?op" for msg result
    by (rule no_throw_materialized) (use assms(5) [OF Inr that] in \<open>auto simp: folded_gep_def bindR_Inr_iff split: if_splits\<close>)
  have T3Arg: "no_throw (read_materialized msg result (ValueOf (T3Arg instr)) (Instrs func) m)"
    if "?op \<in> set [PTR_CAST, CALL_INDIRECT, RETURN_VALUE, CALL_ARG]" for msg result
    by (rule val) (use that in \<open>auto simp: value_operands_def\<close>)
  have T2Arg: "?op = PHI_MEMBER \<Longrightarrow> no_throw (read_materialized msg result (ValueOf (T2Arg1 instr)) (Instrs func) m)"
    "?op = PTR_CMP_NULLPTR \<Longrightarrow> no_throw (read_materialized msg result (ValueOf (T2Arg0 instr)) (Instrs func) m)" for msg result
    by (rule val, simp add: value_operands_def)+
  have store: "no_throw (read_materialized msg result (ValueOf (T2Arg1 instr)) (Instrs func) m)"
    if "?op \<in> set [I8_STORE, I16_STORE, I32_STORE, I64_STORE, F64_STORE, PTR_STORE]" for msg result
  proof (cases "?op = PTR_STORE")
    case True
    then show ?thesis by (intro val) (simp add: value_operands_def)
  next
    case False
    then show ?thesis using that by (intro plain) (auto simp: plain_store_def)
  qed
  have gep: "no_throw (GetReadValuesGEP i (Instrs func))" if "?op \<in> set [GEP_DYNAMIC, GEP_STATIC]"
    using that by (intro no_throw_gep [OF assms(2)]) (auto simp: opcode_at_def Inr)
  have "no_throw (GetReadValues i seg_start m (Instrs func))"
    unfolding GetReadValues_def Inr bindR_simps Let_def
    by (intro no_throw_if no_throw_intros no_throw_call_args no_throw_address [OF assms(2)];
        (erule T2Arg store gep | (rule T3Arg, simp) | (rule plain, simp add: plain_store_def)))
  then show ?thesis by (simp add: no_throw_def)
qed (auto simp: GetReadValues_def nthI_def nthR_def split: if_splits)

text \<open>A function that stores the address of a field of its argument into the argument.\<close>

definition field_func :: Function where
  "field_func = FunctionNew ''f'' 0
     [T3SetOpcode (T3SetTypeID 0 9) FUNC_ARG, T2SetOpcode (T2SetArg0 0 0) GEP_STATIC_OFFSET,
      T3SetOpcode (T3SetTypeID 0 9) GEP_STATIC, T2SetOpcode (T2SetArg0 (T2SetArg1 0 2) 0) PTR_STORE, T3SetOpcode 0 RETURN]
     [\<lparr>Segments = [(0, 4)], Successors = [], Predecessors = []\<rparr>]"

theorem gep_operands_materialized_witness:
  "ComputeGEPMaterialize field_func = Inr [False, False, True, False, False] \<and> geps_formed (Instrs field_func)
   \<and> (0, 3) \<in> set (positions (BasicBlocks field_func ! 0))
   \<and> GetReadValues 3 0 [False, False, True, False, False] (Instrs field_func) \<noteq> Inl (RuntimeError ''Required materialized GEP into XXX_STORE.'')
   \<and> GetReadValues 3 0 [False, False, False, False, False] (Instrs field_func) = Inl (RuntimeError ''Required materialized GEP into XXX_STORE.'')"
proof -
  have run: "ComputeGEPMaterialize field_func = Inr [False, False, True, False, False]" and ok: "geps_formed (Instrs field_func)"
    and p: "(0, 3) \<in> set (positions (BasicBlocks field_func ! 0))" "BasicBlocks field_func ! 0 \<in> set (BasicBlocks field_func)"
    and n: "case nthI (Instrs field_func) 3 of Inr instr \<Rightarrow> \<not> plain_store (OpcodeFrom (GenericOpcode instr)) | Inl _ \<Rightarrow> False"
    and bad: "GetReadValues 3 0 [False, False, False, False, False] (Instrs field_func) = Inl (RuntimeError ''Required materialized GEP into XXX_STORE.'')"
    by code_simp+
  have "GetReadValues 3 0 [False, False, True, False, False] (Instrs field_func) \<noteq> Inl (RuntimeError ''Required materialized GEP into XXX_STORE.'')"
    by (rule gep_operands_materialized [OF run ok p(2,1)]) (use n in \<open>auto split: sum.splits\<close>)
  with run ok p bad show ?thesis by blast
qed

end
