(* ===== verification/UtilUnionFind.thy ===== *)
theory UtilUnionFind
  imports KushPrelude
begin

text \<open>
  The union-find forest of \<^verbatim>\<open>util/union_find.cc\<close>: a vector of parents, a root is its own parent.
  The fuel bounds the depth of the recursion of \<^verbatim>\<open>Find\<close>; one per element is enough, because
  the path to a root has no repetition. The forest refines the equivalence generated by the
  pairs that were united.
\<close>

section \<open>Operations\<close>

fun Find :: "nat \<Rightarrow> nat list \<Rightarrow> nat \<Rightarrow> (nat list \<times> nat) ores" where
  "Find 0 parent i = None"
| "Find (Suc fuel) parent i =
     bindO (Some (nthR parent i)) (\<lambda>p.
       if p = i then Some (Inr (parent, i))
       else bindO (Find fuel parent p) (\<lambda>(parent, r).
            bindO (Some (updR parent i r)) (\<lambda>parent. Some (Inr (parent, r)))))"

definition UnionUF :: "nat list \<Rightarrow> nat \<Rightarrow> nat \<Rightarrow> nat list ores" where
  "UnionUF parent x y =
     bindO (Find (length parent) parent x) (\<lambda>(parent, xset).
     bindO (Find (length parent) parent y) (\<lambda>(parent, yset).
       if xset = yset then Some (Inr parent)
       else Some (updR parent xset yset)))"

section \<open>Roots\<close>

inductive uf_root :: "nat list \<Rightarrow> nat \<Rightarrow> nat \<Rightarrow> bool" for p where
  root_here: "i < length p \<Longrightarrow> p ! i = i \<Longrightarrow> uf_root p i i"
| root_up: "i < length p \<Longrightarrow> p ! i \<noteq> i \<Longrightarrow> uf_root p (p ! i) r \<Longrightarrow> uf_root p i r"

definition uf_ok :: "nat list \<Rightarrow> bool" where
  "uf_ok p \<longleftrightarrow> (\<forall>i<length p. \<exists>r. uf_root p i r)"

text \<open>The steps from an element towards its root.\<close>

definition up :: "nat list \<Rightarrow> nat \<Rightarrow> nat \<Rightarrow> bool" where
  "up p i j \<longleftrightarrow> i < length p \<and> p ! i = j \<and> i \<noteq> j"

lemma uf_root_in: "uf_root p i r \<Longrightarrow> i < length p \<and> r < length p \<and> p ! r = r"
  by (induction rule: uf_root.induct) auto

lemma uf_root_unique: "uf_root p i r \<Longrightarrow> uf_root p i s \<Longrightarrow> s = r"
proof (induction arbitrary: s rule: uf_root.induct)
  case (root_here i)
  from root_here(3,2) show ?case by cases simp_all
next
  case (root_up i r)
  from root_up.prems show ?case
  proof cases
    case root_here
    with root_up(2) show ?thesis by simp
  next
    case root_up
    then show ?thesis using \<open>\<And>s. uf_root p (p ! i) s \<Longrightarrow> s = r\<close> by blast
  qed
qed

lemma uf_root_acyclic: "uf_root p i r \<Longrightarrow> \<not> (up p)\<^sup>+\<^sup>+ i i"
proof (induction rule: uf_root.induct)
  case (root_here i)
  then show ?case by (auto simp: up_def dest: tranclpD)
next
  case (root_up i r)
  show ?case
  proof
    assume "(up p)\<^sup>+\<^sup>+ i i"
    then obtain j where "up p i j" "(up p)\<^sup>*\<^sup>* j i" by (blast dest: tranclpD)
    then have "(up p)\<^sup>+\<^sup>+ j j" by (meson rtranclp_into_tranclp1)
    moreover have "j = p ! i" using \<open>up p i j\<close> by (simp add: up_def)
    ultimately show False using root_up.IH by simp
  qed
qed

lemma path_in: "(up p)\<^sup>*\<^sup>* i j \<Longrightarrow> uf_root p i r \<Longrightarrow> j < length p"
proof (induction arbitrary: r rule: converse_rtranclp_induct)
  case base
  then show ?case by (simp add: uf_root_in)
next
  case (step i k)
  then have "uf_root p k r" by (auto simp: up_def elim: uf_root.cases)
  with step.IH show ?case .
qed

lemma path_finite: "uf_root p i r \<Longrightarrow> finite {j. (up p)\<^sup>*\<^sup>* i j} \<and> card {j. (up p)\<^sup>*\<^sup>* i j} \<le> length p"
proof -
  assume "uf_root p i r"
  then have "{j. (up p)\<^sup>*\<^sup>* i j} \<subseteq> {..<length p}" using path_in by auto
  then show ?thesis by (metis card_lessThan card_mono finite_lessThan finite_subset)
qed

text \<open>A compressed or extended path changes no other root.\<close>

lemma root_compress:
  assumes "uf_root p i r" "uf_root p j s"
  shows "uf_root (p[i := r]) j s"
  using assms(2)
proof (induction rule: uf_root.induct)
  case (root_here j)
  show ?case
  proof (cases "j = i")
    case True
    then have "r = i" using assms(1) root_here uf_root_unique uf_root.root_here by metis
    then have "p[i := r] = p" using root_here(2) True list_update_id [of p i] by metis
    then show ?thesis using uf_root.root_here [OF root_here] by simp
  next
    case False
    then show ?thesis by - (rule uf_root.root_here; simp add: root_here)
  qed
next
  case (root_up j s)
  show ?case
  proof (cases "j = i")
    case True
    then have "s = r" using assms(1) root_up.hyps uf_root_unique uf_root.root_up by metis
    moreover have "r \<noteq> i" using uf_root_in [OF assms(1)] root_up.hyps True by auto
    moreover have "uf_root (p[i := r]) r r"
      using uf_root_in [OF assms(1)] \<open>r \<noteq> i\<close> by (auto intro!: uf_root.root_here)
    ultimately show ?thesis by - (rule uf_root.root_up; use root_up.hyps(1) True in simp)
  next
    case False
    then show ?thesis by - (rule uf_root.root_up; use root_up.hyps(1,2) root_up.IH in simp)
  qed
qed

lemma root_link:
  assumes "x < length p" "y < length p" "p ! x = x" "p ! y = y" "x \<noteq> y" "uf_root p j s"
  shows "uf_root (p[x := y]) j (if s = x then y else s)"
  using assms(6)
proof (induction rule: uf_root.induct)
  case (root_here j)
  have "uf_root (p[x := y]) y y" using assms by (auto intro: uf_root.root_here)
  then have "uf_root (p[x := y]) x y" by - (rule uf_root.root_up; use assms(1,5) in simp)
  moreover have "uf_root (p[x := y]) j j" if "j \<noteq> x"
    by - (rule uf_root.root_here; use root_here that in simp)
  ultimately show ?case by simp
next
  case (root_up j s)
  then have "j \<noteq> x" using assms(3) by blast
  then show ?case by - (rule uf_root.root_up; use root_up.hyps(1,2) root_up.IH in simp)
qed

lemma Find_law:
  assumes "uf_root p i r" "card {j. (up p)\<^sup>*\<^sup>* i j} \<le> fuel"
  shows "\<exists>p'. Find fuel p i = Some (Inr (p', r)) \<and> length p' = length p
    \<and> (\<forall>j s. uf_root p j s \<longrightarrow> uf_root p' j s)"
  using assms
proof (induction arbitrary: fuel rule: uf_root.induct)
  case (root_here i)
  have "finite {j. (up p)\<^sup>*\<^sup>* i j}" using path_finite uf_root.root_here root_here by blast
  moreover have "i \<in> {j. (up p)\<^sup>*\<^sup>* i j}" by simp
  ultimately have "0 < fuel" using root_here.prems by (metis card_gt_0_iff emptyE not_gr_zero le_zero_eq)
  then show ?case using root_here by (cases fuel) auto
next
  case (root_up i r)
  let ?A = "\<lambda>i. {j. (up p)\<^sup>*\<^sup>* i j}"
  have root: "uf_root p i r" using root_up uf_root.root_up by blast
  have u: "up p i (p ! i)" using root_up.hyps by (auto simp: up_def)
  have "i \<notin> ?A (p ! i)" using uf_root_acyclic [OF root] u by (auto dest: rtranclp_into_tranclp2)
  moreover have "?A (p ! i) \<subseteq> ?A i" using u by (auto intro: converse_rtranclp_into_rtranclp)
  moreover have "i \<in> ?A i" by simp
  ultimately have "card (?A (p ! i)) < card (?A i)"
    using path_finite [OF root] by (metis psubsetI psubset_card_mono)
  then obtain f where f: "fuel = Suc f" "card (?A (p ! i)) \<le> f" using root_up.prems by (cases fuel) auto
  from root_up.IH [OF f(2)] obtain p' where p': "Find f p (p ! i) = Some (Inr (p', r))" "length p' = length p"
    "\<forall>j s. uf_root p j s \<longrightarrow> uf_root p' j s" by blast
  then have "uf_root p' i r" using root by blast
  with p' root_compress [OF this] show ?case using f(1) root_up.hyps by auto
qed

text \<open>The root of every element, with the fuel the sources' recursion needs.\<close>

lemma Find_root:
  assumes "uf_ok p" "i < length p"
  obtains p' r where "Find (length p) p i = Some (Inr (p', r))" "uf_root p i r" "length p' = length p"
    "\<And>j s. uf_root p j s \<Longrightarrow> uf_root p' j s"
proof -
  obtain r where "uf_root p i r" using assms by (auto simp: uf_ok_def)
  then show thesis using Find_law [OF _ conjunct2 [OF path_finite]] that by metis
qed

section \<open>The equivalence of the united pairs\<close>

definition uf_same :: "nat list \<Rightarrow> nat \<Rightarrow> nat \<Rightarrow> bool" where
  "uf_same p i j \<longleftrightarrow> (\<exists>r. uf_root p i r \<and> uf_root p j r)"

lemma Union_law:
  assumes "uf_ok p" "x < length p" "y < length p"
  obtains p' rx ry where "UnionUF p x y = Some (Inr p')" "length p' = length p" "uf_ok p'"
    "uf_root p x rx" "uf_root p y ry" "\<And>j s. uf_root p j s \<Longrightarrow> uf_root p' j (if s = rx then ry else s)"
proof -
  from Find_root [OF assms(1,2)] obtain p1 rx where
    f1: "Find (length p) p x = Some (Inr (p1, rx))" "uf_root p x rx" "length p1 = length p"
    and k1: "\<And>j s. uf_root p j s \<Longrightarrow> uf_root p1 j s" by metis
  have ok1: "uf_ok p1" using assms(1) k1 f1(3) unfolding uf_ok_def by metis
  from Find_root [OF ok1, of y] assms(3) f1(3) obtain p2 ry where
    f2: "Find (length p1) p1 y = Some (Inr (p2, ry))" "uf_root p1 y ry" "length p2 = length p1"
    and k2: "\<And>j s. uf_root p1 j s \<Longrightarrow> uf_root p2 j s" by metis
  have ry: "uf_root p y ry" using assms(1,3) k1 f2(2) uf_root_unique by (metis uf_ok_def)
  have len: "length p2 = length p" using f1(3) f2(3) by simp
  have roots: "p2 ! rx = rx" "p2 ! ry = ry" "rx < length p2" "ry < length p2"
    using k2 [OF k1 [OF f1(2)]] k2 [OF k1 [OF ry]] by (simp_all add: uf_root_in)
  define p' where "p' = (if rx = ry then p2 else p2[rx := ry])"
  have "UnionUF p x y = Some (Inr p')" using f1 f2 roots by (simp add: UnionUF_def p'_def)
  moreover have k: "uf_root p' j (if s = rx then ry else s)" if "uf_root p j s" for j s
  proof (cases "rx = ry")
    case True
    then show ?thesis using k2 [OF k1 [OF that]] by (simp add: p'_def)
  next
    case False
    then show ?thesis using root_link [OF roots(3,4,1,2) False k2 [OF k1 [OF that]]] by (simp only: p'_def if_False)
  qed
  moreover have "length p' = length p" using len by (simp add: p'_def)
  moreover have "uf_ok p'" using assms(1) k \<open>length p' = length p\<close> unfolding uf_ok_def by metis
  ultimately show thesis using that f1(2) ry by blast
qed

lemma Union_same:
  assumes "uf_ok p" "x < length p" "y < length p" "i < length p" "j < length p" "UnionUF p x y = Some (Inr p')"
  shows "uf_same p' i j \<longleftrightarrow> uf_same p i j \<or> uf_same p i x \<and> uf_same p y j \<or> uf_same p i y \<and> uf_same p x j"
proof -
  from Union_law [OF assms(1-3)] assms(6) obtain rx ry where r: "uf_root p x rx" "uf_root p y ry"
    and k: "\<And>j s. uf_root p j s \<Longrightarrow> uf_root p' j (if s = rx then ry else s)" by (metis Inr_inject option.inject)
  obtain ri rj where ij: "uf_root p i ri" "uf_root p j rj" using assms(1,4,5) unfolding uf_ok_def by metis
  have same: "uf_same q a b \<longleftrightarrow> s = t" if "uf_root q a s" "uf_root q b t" for q a b s t
    using that uf_root_unique unfolding uf_same_def by metis
  show ?thesis
    unfolding same [OF k [OF ij(1)] k [OF ij(2)]] same [OF ij] same [OF ij(1) r(1)] same [OF r(2) ij(2)]
      same [OF ij(1) r(2)] same [OF r(1) ij(2)] by auto
qed

definition linked :: "(nat \<times> nat) list \<Rightarrow> nat \<Rightarrow> nat \<Rightarrow> bool" where
  "linked xys a b \<longleftrightarrow> (a, b) \<in> set xys \<or> (b, a) \<in> set xys"

definition united :: "(nat \<times> nat) list \<Rightarrow> nat \<Rightarrow> nat \<Rightarrow> bool" where
  "united xys = (linked xys)\<^sup>*\<^sup>*"

lemma united_refl: "united xys i i"
  by (simp add: united_def)

lemma united_step: "linked xys i j \<Longrightarrow> united xys i j"
  by (simp add: united_def r_into_rtranclp)

lemma united_trans: "united xys i j \<Longrightarrow> united xys j k \<Longrightarrow> united xys i k"
  unfolding united_def by (rule rtranclp_trans)

lemma united_mono: "united xys i j \<Longrightarrow> united (xys @ [xy]) i j"
  unfolding united_def by (erule rtranclp_mono [THEN predicate2D, rotated]) (auto simp: linked_def)

lemma united_induct:
  assumes "united xys i j" "P i" "\<And>b c. united xys i b \<Longrightarrow> linked xys b c \<Longrightarrow> P b \<Longrightarrow> P c"
  shows "P j"
  using assms(1) unfolding united_def
  by (induction rule: rtranclp_induct) (use assms(2,3) in \<open>auto simp: united_def\<close>)

text \<open>The pairs up to the next one.\<close>

lemma united_snoc:
  "united (xys @ [(x, y)]) i j \<longleftrightarrow> united xys i j \<or> united xys i x \<and> united xys y j \<or> united xys i y \<and> united xys x j"
  (is "?l \<longleftrightarrow> ?r j")
proof
  assume ?l
  then show "?r j"
  proof (rule united_induct)
    fix b c assume "linked (xys @ [(x, y)]) b c" and r: "?r b"
    then consider "linked xys b c" | "b = x" "c = y" | "b = y" "c = x" by (auto simp: linked_def)
    then show "?r c"
    proof cases
      case 1
      then show ?thesis using r united_trans [OF _ united_step [OF 1]] by blast
    next
      case 2
      then show ?thesis using r united_refl by blast
    next
      case 3
      then show ?thesis using r united_refl by blast
    qed
  qed (simp add: united_refl)
next
  have e: "united (xys @ [(x, y)]) x y" "united (xys @ [(x, y)]) y x" by (auto intro: united_step simp: linked_def)
  assume "?r j"
  then show ?l using united_mono [of xys] e by (metis united_trans)
qed

lemma Union_sequence:
  assumes "\<forall>(x, y)\<in>set xys. x < n \<and> y < n"
  shows "\<exists>p. foldO (\<lambda>p (x, y). UnionUF p x y) [0..<n] xys = Some (Inr p)
    \<and> (length p = n \<and> uf_ok p \<and> (\<forall>i<n. \<forall>j<n. uf_same p i j \<longleftrightarrow> united xys i j))"
proof (rule foldO_total)
  have r: "uf_root [0..<n] i i" if "i < n" for i using that by (auto intro: uf_root.root_here)
  then have "uf_same [0..<n] i j \<longleftrightarrow> i = j" if "i < n" "j < n" for i j
    using that uf_root_unique unfolding uf_same_def by metis
  moreover have "united [] i j \<longleftrightarrow> i = j" for i j
    by (auto simp: united_def linked_def elim: converse_rtranclpE)
  moreover have "uf_ok [0..<n]" using r unfolding uf_ok_def by (metis length_upt minus_nat.diff_0)
  ultimately show "length [0..<n] = n \<and> uf_ok [0..<n] \<and> (\<forall>i<n. \<forall>j<n. uf_same [0..<n] i j \<longleftrightarrow> united [] i j)"
    by simp
next
  fix p :: "nat list" and xy "done"
  assume xy: "xy \<in> set xys" and p: "length p = n \<and> uf_ok p \<and> (\<forall>i<n. \<forall>j<n. uf_same p i j \<longleftrightarrow> united done i j)"
  obtain x y where [simp]: "xy = (x, y)" and lt: "x < n" "y < n" using assms xy by (cases xy) auto
  from p lt obtain p' where p': "UnionUF p x y = Some (Inr p')" "length p' = n" "uf_ok p'"
    using Union_law [of p x y] by metis
  have "uf_same p' i j \<longleftrightarrow> united (done @ [xy]) i j" if "i < n" "j < n" for i j
    using Union_same [of p x y i j p'] p p' that lt by (simp add: united_snoc)
  with p' show "\<exists>p'. (case xy of (x, y) \<Rightarrow> UnionUF p x y) = Some (Inr p')
      \<and> (length p' = n \<and> uf_ok p' \<and> (\<forall>i<n. \<forall>j<n. uf_same p' i j \<longleftrightarrow> united (done @ [xy]) i j))"
    by simp
qed

text \<open>
  Property C25: starting from singletons, any sequence of \<^verbatim>\<open>Union\<close> calls ends without an error, and
  afterwards \<^verbatim>\<open>Find\<close> ends for every element and returns the same representative for two
  elements if and only if the united pairs connect them: the forest with path compression
  refines the equivalence the pairs generate.
\<close>

theorem union_find_refines:
  assumes "\<forall>(x, y)\<in>set xys. x < n \<and> y < n" "i < n" "j < n"
  shows "\<exists>p pi ri pj rj. foldO (\<lambda>p (x, y). UnionUF p x y) [0..<n] xys = Some (Inr p)
    \<and> Find n p i = Some (Inr (pi, ri)) \<and> Find n p j = Some (Inr (pj, rj)) \<and> (ri = rj \<longleftrightarrow> united xys i j)"
proof -
  from Union_sequence [OF assms(1)] obtain p where p: "foldO (\<lambda>p (x, y). UnionUF p x y) [0..<n] xys = Some (Inr p)"
    "length p = n" "uf_ok p" "uf_same p i j \<longleftrightarrow> united xys i j" using assms(2,3) by blast
  obtain pi ri where i: "Find n p i = Some (Inr (pi, ri))" "uf_root p i ri"
    using Find_root [OF p(3), of i] p(2) assms(2) by metis
  obtain pj rj where j: "Find n p j = Some (Inr (pj, rj))" "uf_root p j rj"
    using Find_root [OF p(3), of j] p(2) assms(3) by metis
  have "ri = rj \<longleftrightarrow> united xys i j" using p(4) i(2) j(2) uf_root_unique unfolding uf_same_def by metis
  with p(1) i(1) j(1) show ?thesis by blast
qed

theorem union_find_refines_witness:
  "list_all (\<lambda>(x, y). x < (5 :: nat) \<and> y < (5 :: nat)) [(0, 1), (2, 3), (1, 3)]
   \<and> (\<exists>p pi ri pj rj. foldO (\<lambda>p (x, y). UnionUF p x y) [0..<5] [(0, 1), (2, 3), (1, 3)] = Some (Inr p)
      \<and> Find 5 p 0 = Some (Inr (pi, ri)) \<and> Find 5 p 2 = Some (Inr (pj, rj))
      \<and> (ri = rj \<longleftrightarrow> united [(0, 1), (2, 3), (1, 3)] 0 2))"
  using union_find_refines [of "[(0, 1), (2, 3), (1, 3)]" 5 0 2] by simp

end
