(* ===== verification/KhirLoops.thy ===== *)
theory KhirLoops
  imports KhirProgram UtilUnionFind
begin

text \<open>
  Dominator tree and loop tree of a function (\<^verbatim>\<open>khir/asm/dominators.cc\<close>, \<^verbatim>\<open>khir/asm/loops.cc\<close>).
  Immediate dominators and post-order labels are integers with -1 for none, as in the sources.
  The loops over the graph whose number of rounds depends on the data are partial functions into
  options. \<^verbatim>\<open>std::sort\<close> leaves the order of equal elements open, so the sort by loop size is a
  parameter.
\<close>

section \<open>Post-order\<close>

fun POHelper :: "nat \<Rightarrow> nat \<Rightarrow> BasicBlock list \<Rightarrow> bool list \<times> nat list \<Rightarrow> (bool list \<times> nat list) ores" where
  "POHelper 0 cur bb st = None"
| "POHelper (Suc fuel) cur bb (visited, result) =
     bindO (Some (nthR visited cur)) (\<lambda>seen.
     if seen then Some (Inr (visited, result))
     else
       bindO (Some (updR visited cur True)) (\<lambda>visited.
       bindO (Some (nthR bb cur)) (\<lambda>block.
       bindO (foldO (\<lambda>st s. POHelper fuel s bb st) (visited, result) (Successors block)) (\<lambda>(visited, result).
         Some (Inr (visited, result @ [cur]))))))"

definition GeneratePO :: "BasicBlock list \<Rightarrow> nat list ores" where
  "GeneratePO bb =
     bindO (POHelper (length bb + 1) 0 bb (replicate (length bb) False, [])) (\<lambda>(visited, result).
       Some (Inr result))"

section \<open>Immediate dominators\<close>

partial_function (option) climb :: "int list \<Rightarrow> int list \<Rightarrow> int \<Rightarrow> int \<Rightarrow> int ores" where
  "climb label idom f g =
     (case bindR (nthI label f) (\<lambda>lf. bindR (nthI label g) (\<lambda>lg. Inr (lf < lg))) of
        Inl e \<Rightarrow> Some (Inl e)
      | Inr below \<Rightarrow>
          if below then (case nthI idom f of Inl e \<Rightarrow> Some (Inl e) | Inr f' \<Rightarrow> climb label idom f' g)
          else Some (Inr f))"

partial_function (option) intersect :: "int list \<Rightarrow> int list \<Rightarrow> int \<Rightarrow> int \<Rightarrow> int ores" where
  "intersect label idom finger1 finger2 =
     (if finger1 \<noteq> finger2 then
        (case climb label idom finger1 finger2 of
           None \<Rightarrow> None
         | Some (Inl e) \<Rightarrow> Some (Inl e)
         | Some (Inr finger1) \<Rightarrow>
             (case climb label idom finger2 finger1 of
                None \<Rightarrow> None
              | Some (Inl e) \<Rightarrow> Some (Inl e)
              | Some (Inr finger2) \<Rightarrow> intersect label idom finger1 finger2))
      else Some (Inr finger1))"

definition idom_pred :: "int list \<Rightarrow> int list \<Rightarrow> int \<Rightarrow> nat \<Rightarrow> int ores" where
  "idom_pred label idom new_idom p =
     bindO (Some (nthR idom p)) (\<lambda>d.
       if d < 0 then Some (Inr new_idom)
       else if new_idom < 0 then Some (Inr (int p))
       else intersect label idom (int p) new_idom)"

definition idom_block :: "BasicBlock list \<Rightarrow> int list \<Rightarrow> int list \<times> bool \<Rightarrow> nat \<Rightarrow> (int list \<times> bool) ores" where
  "idom_block bb label st b =
     (case st of (idom, changed) \<Rightarrow>
       if b = 0 then Some (Inr (idom, changed))
       else
         bindO (Some (nthR bb b)) (\<lambda>block.
         bindO (foldO (idom_pred label idom) (-1) (Predecessors block)) (\<lambda>new_idom.
         if new_idom < 0 then Some (Inl (RuntimeError ''New idom not found.''))
         else
           bindO (Some (nthR idom b)) (\<lambda>d.
             if d \<noteq> new_idom
             then bindO (Some (updR idom b new_idom)) (\<lambda>idom. Some (Inr (idom, True)))
             else Some (Inr (idom, changed))))))"

partial_function (option) idom_loop :: "BasicBlock list \<Rightarrow> int list \<Rightarrow> nat list \<Rightarrow> int list \<Rightarrow> int list ores" where
  "idom_loop bb label rpo idom =
     (case foldO (idom_block bb label) (idom, False) rpo of
        None \<Rightarrow> None
      | Some (Inl e) \<Rightarrow> Some (Inl e)
      | Some (Inr st) \<Rightarrow> (if snd st then idom_loop bb label rpo (fst st) else Some (Inr (fst st))))"

declare climb.simps [code] intersect.simps [code] idom_loop.simps [code]

definition dom_children :: "nat \<Rightarrow> int list \<Rightarrow> nat list list res" where
  "dom_children num_blocks idom =
     foldR (\<lambda>dom_tree i.
       bindR (nthR idom i) (\<lambda>d.
         if d \<ge> 0 then bindR (nthI dom_tree d) (\<lambda>c. updI dom_tree d (c @ [i]))
         else Inr dom_tree))
       (replicate num_blocks []) [1..<num_blocks]"

definition ComputeDominatorTree :: "BasicBlock list \<Rightarrow> nat list list ores" where
  "ComputeDominatorTree bb =
     bindO (GeneratePO bb) (\<lambda>po.
     bindO (Some (foldR (\<lambda>label i. updR label (po ! i) (int i)) (replicate (length bb) (-1)) [0..<length po])) (\<lambda>label.
     bindO (Some (updR (replicate (length bb) (-1)) 0 0)) (\<lambda>idom.
     bindO (idom_loop bb label (rev po) idom) (\<lambda>idom.
       Some (dom_children (length bb) idom)))))"

section \<open>Loops\<close>

text \<open>The depth of the tree is at most the number of blocks.\<close>

fun DominatesHelper :: "nat \<Rightarrow> nat list list \<Rightarrow> nat \<Rightarrow> nat \<Rightarrow> bool ores" where
  "DominatesHelper 0 dom_tree cur target = None"
| "DominatesHelper (Suc fuel) dom_tree cur target =
     (if cur = target then Some (Inr True)
      else
        bindO (Some (nthR dom_tree cur)) (\<lambda>children.
          foldO (\<lambda>found x. if found then Some (Inr True) else DominatesHelper fuel dom_tree x target)
            False children))"

definition Dominates :: "nat list list \<Rightarrow> nat \<Rightarrow> nat \<Rightarrow> bool ores" where
  "Dominates dom_tree i j = DominatesHelper (length dom_tree + 1) dom_tree i j"

definition find_backedges :: "BasicBlock list \<Rightarrow> nat list list \<Rightarrow> nat list list ores" where
  "find_backedges bb dom_tree =
     foldO (\<lambda>backedges i.
       foldO (\<lambda>backedges j.
         bindO (Dominates dom_tree j i) (\<lambda>d.
           if d then bindO (Some (nthR backedges j)) (\<lambda>l. Some (updR backedges j (l @ [i])))
           else Some (Inr backedges))) backedges (Successors (bb ! i)))
       (replicate (length bb) []) [0..<length bb]"

definition bfs_pred :: "nat list list \<Rightarrow> nat \<Rightarrow> bool list \<times> nat list \<Rightarrow> nat \<Rightarrow> (bool list \<times> nat list) ores" where
  "bfs_pred dom_tree i st y =
     (case st of (visited, bfs) \<Rightarrow>
       bindO (Some (nthR visited y)) (\<lambda>seen.
         if \<not> seen then
           bindO (Some (updR visited y True)) (\<lambda>visited.
           bindO (Dominates dom_tree i y) (\<lambda>d.
             Some (Inr (visited, if d then bfs @ [y] else bfs))))
         else Some (Inr (visited, bfs))))"

text \<open>The loop set is a hash set; here the list of its elements in the order of insertion.\<close>

partial_function (option) bfs_loop ::
    "BasicBlock list \<Rightarrow> nat list list \<Rightarrow> nat \<Rightarrow> bool list \<Rightarrow> nat list \<Rightarrow> nat list \<Rightarrow> nat list ores" where
  "bfs_loop bb dom_tree i visited bfs loop =
     (case bfs of
        [] \<Rightarrow> Some (Inr loop)
      | z # rest \<Rightarrow>
          (case bindO (Some (nthR bb z)) (\<lambda>block.
                foldO (bfs_pred dom_tree i) (visited, rest) (Predecessors block)) of
             None \<Rightarrow> None
           | Some (Inl e) \<Rightarrow> Some (Inl e)
           | Some (Inr st) \<Rightarrow> bfs_loop bb dom_tree i (fst st) (snd st) (List.insert z loop)))"

declare bfs_loop.simps [code]

definition find_loop :: "BasicBlock list \<Rightarrow> nat list list \<Rightarrow> nat list list \<Rightarrow> nat \<Rightarrow> nat list ores" where
  "find_loop bb dom_tree backedges i =
     (if backedges ! i = [] then Some (Inr [])
      else
        bindO (Some (foldR (\<lambda>visited z. updR visited z True)
                      ((replicate (length bb) False)[i := True]) (backedges ! i))) (\<lambda>visited.
          bfs_loop bb dom_tree i visited (backedges ! i) [i]))"

definition ConstructLoopTreeHelper ::
    "nat list list \<Rightarrow> nat list list \<times> nat list \<Rightarrow> nat \<Rightarrow> (nat list list \<times> nat list) ores" where
  "ConstructLoopTreeHelper loops st header =
     (case st of (loop_tree, union_find) \<Rightarrow>
       bindO (Some (nthR loops header)) (\<lambda>members.
       bindO (foldO (\<lambda>(children, uf) x.
                bindO (Find (length uf) uf x) (\<lambda>(uf, r). Some (Inr (List.insert r children, uf))))
                ([], union_find) members) (\<lambda>(children, uf).
       let loop_tree_children = sort (remove1 header children) in
       bindO (Some (updR loop_tree header loop_tree_children)) (\<lambda>loop_tree.
       bindO (foldO (\<lambda>uf x. UnionUF uf x header) uf loop_tree_children) (\<lambda>uf.
         Some (Inr (loop_tree, uf)))))))"

definition FindLoops :: "((nat \<Rightarrow> nat) \<Rightarrow> nat list \<Rightarrow> nat list) \<Rightarrow> BasicBlock list \<Rightarrow> nat list list ores" where
  "FindLoops sort_by bb =
     bindO (ComputeDominatorTree bb) (\<lambda>dom_tree.
     bindO (find_backedges bb dom_tree) (\<lambda>backedges.
     bindO (foldO (\<lambda>loops i. bindO (find_loop bb dom_tree backedges i) (\<lambda>l. Some (Inr (loops @ [l]))))
              [] [0..<length bb]) (\<lambda>loops.
     let order = sort_by (\<lambda>a. length (loops ! a)) (filter (\<lambda>i. loops ! i \<noteq> []) [0..<length loops]) in
     bindO (foldO (ConstructLoopTreeHelper loops) (replicate (length bb) [], [0..<length bb]) order) (\<lambda>(loop_tree, uf).
       Some (Inr loop_tree)))))"

end
