(* ===== verification/KhirRegister.thy ===== *)
theory KhirRegister
  imports KushPrelude
begin

text \<open>
  Register numbers of the assembly backend (\<^verbatim>\<open>khir/asm/register.cc\<close>,
  \<^verbatim>\<open>khir/asm/register_assignment.cc\<close>): general registers 0 to 15, vector registers 50 to 65,
  flags 100 and 101, -1 for a value on the stack. The operands of the assembler they stand for
  are not part of the model.
\<close>

abbreviation (input) RAX :: int where "RAX \<equiv> 0"
abbreviation (input) RBX :: int where "RBX \<equiv> 1"
abbreviation (input) RCX :: int where "RCX \<equiv> 2"
abbreviation (input) RDX :: int where "RDX \<equiv> 3"
abbreviation (input) RSI :: int where "RSI \<equiv> 4"
abbreviation (input) RDI :: int where "RDI \<equiv> 5"
abbreviation (input) RSP :: int where "RSP \<equiv> 6"
abbreviation (input) RBP :: int where "RBP \<equiv> 7"
abbreviation (input) R8 :: int where "R8 \<equiv> 8"
abbreviation (input) R9 :: int where "R9 \<equiv> 9"
abbreviation (input) R10 :: int where "R10 \<equiv> 10"
abbreviation (input) R11 :: int where "R11 \<equiv> 11"
abbreviation (input) R12 :: int where "R12 \<equiv> 12"
abbreviation (input) R13 :: int where "R13 \<equiv> 13"
abbreviation (input) R14 :: int where "R14 \<equiv> 14"
abbreviation (input) R15 :: int where "R15 \<equiv> 15"

abbreviation (input) M0 :: int where "M0 \<equiv> 50"
abbreviation (input) M1 :: int where "M1 \<equiv> 51"
abbreviation (input) M2 :: int where "M2 \<equiv> 52"
abbreviation (input) M3 :: int where "M3 \<equiv> 53"
abbreviation (input) M4 :: int where "M4 \<equiv> 54"
abbreviation (input) M5 :: int where "M5 \<equiv> 55"
abbreviation (input) M6 :: int where "M6 \<equiv> 56"
abbreviation (input) M7 :: int where "M7 \<equiv> 57"
abbreviation (input) M8 :: int where "M8 \<equiv> 58"
abbreviation (input) M9 :: int where "M9 \<equiv> 59"
abbreviation (input) M10 :: int where "M10 \<equiv> 60"
abbreviation (input) M11 :: int where "M11 \<equiv> 61"
abbreviation (input) M12 :: int where "M12 \<equiv> 62"
abbreviation (input) M13 :: int where "M13 \<equiv> 63"
abbreviation (input) M14 :: int where "M14 \<equiv> 64"
abbreviation (input) M15 :: int where "M15 \<equiv> 65"

abbreviation (input) IFlag :: int where "IFlag \<equiv> 100"
abbreviation (input) FFlag :: int where "FFlag \<equiv> 101"

definition GPRegisterFromId :: "int \<Rightarrow> int res" where
  "GPRegisterFromId i =
     (if i \<in> set [RAX, RBX, RCX, RDX, RSI, RDI, RSP, RBP, R8, R9, R10, R11, R12, R13, R14, R15] then Inr i
      else Inl (RuntimeError ''Invalid GPRegister ID.''))"

definition IsGPRegister :: "int \<Rightarrow> bool" where
  "IsGPRegister i = (i \<ge> 0 \<and> i \<le> 15)"

definition VRegisterFromId :: "int \<Rightarrow> int res" where
  "VRegisterFromId i =
     (if i \<in> set [M0, M1, M2, M3, M4, M5, M6, M7, M8, M9, M10, M11, M12, M13, M14, M15] then Inr i
      else Inl (RuntimeError ''Invalid VRegister ID.''))"

definition IsVRegister :: "int \<Rightarrow> bool" where
  "IsVRegister i = (i \<ge> 50 \<and> i \<le> 65)"

definition IsIFlag :: "int \<Rightarrow> bool" where
  "IsIFlag i = (i = 100)"

definition IsFFlag :: "int \<Rightarrow> bool" where
  "IsFFlag i = (i = 101)"

record RegisterAssignment =
  ra_register :: int

definition RegisterAssignmentNew :: RegisterAssignment where
  "RegisterAssignmentNew = \<lparr>ra_register = -1\<rparr>"

definition RegisterAssignmentOf :: "int \<Rightarrow> RegisterAssignment" where
  "RegisterAssignmentOf reg = \<lparr>ra_register = reg\<rparr>"

definition SetRegister :: "int \<Rightarrow> RegisterAssignment \<Rightarrow> RegisterAssignment" where
  "SetRegister r a = a\<lparr>ra_register := r\<rparr>"

definition Spill :: "RegisterAssignment \<Rightarrow> RegisterAssignment" where
  "Spill a = a\<lparr>ra_register := -1\<rparr>"

definition IsRegister :: "RegisterAssignment \<Rightarrow> bool" where
  "IsRegister a = (ra_register a \<ge> 0)"

text \<open>The numbers for which a register is found are the ones the predicates accept.\<close>

lemma FromId_defined:
  "(\<exists>r. GPRegisterFromId i = Inr r) \<longleftrightarrow> IsGPRegister i"
  "(\<exists>r. VRegisterFromId i = Inr r) \<longleftrightarrow> IsVRegister i"
  by (simp_all add: GPRegisterFromId_def VRegisterFromId_def IsGPRegister_def IsVRegister_def) presburger+

end
