(* ===== verification/KhirLive.thy ===== *)
theory KhirLive
  imports KhirUses KhirLoops KhirRegister
begin

text \<open>
  Live intervals of the values of a function (\<^verbatim>\<open>khir/asm/live_intervals.cc\<close>): the backward
  data-flow analysis over the blocks, the intervals of instruction positions derived from it,
  the intervals of registers fixed by the calling convention, and the cost of spilling. A hash
  set of values is the list of its elements without repetition; no result depends on its order.
\<close>

section \<open>Intervals\<close>

record LiveInterval =
  undef :: bool
  istart :: int
  iend :: int
  iv_value :: Value
  iv_type :: Type
  iv_register :: int
  spill_cost :: int

definition LiveIntervalPrecolored :: "int \<Rightarrow> LiveInterval" where
  "LiveIntervalPrecolored reg =
     \<lparr>undef = True, istart = -1, iend = -1, iv_value = ValueOf (-1), iv_type = -1, iv_register = reg,
      spill_cost = INT32_MAX\<rparr>"

definition LiveIntervalOf :: "Value \<Rightarrow> Type \<Rightarrow> LiveInterval" where
  "LiveIntervalOf v t =
     \<lparr>undef = True, istart = -1, iend = -1, iv_value = v, iv_type = t, iv_register = -1, spill_cost = 0\<rparr>"

definition Extend :: "int \<Rightarrow> LiveInterval \<Rightarrow> LiveInterval" where
  "Extend x l =
     (let l = l\<lparr>undef := False\<rparr>;
          l = (if istart l = -1 \<or> x < istart l then l\<lparr>istart := x\<rparr> else l)
      in if iend l = -1 \<or> x > iend l then l\<lparr>iend := x\<rparr> else l)"

definition ChangeToPrecolored :: "int \<Rightarrow> LiveInterval \<Rightarrow> LiveInterval" where
  "ChangeToPrecolored reg l =
     l\<lparr>iv_value := ValueOf (-1), iv_type := -1, iv_register := reg, spill_cost := INT32_MAX\<rparr>"

definition IsPrecolored :: "LiveInterval \<Rightarrow> bool" where
  "IsPrecolored l = (iv_register l \<ge> 0)"

text \<open>\<^verbatim>\<open>1.5 * pow(10, loop_depth)\<close>, cut off at the largest integer and truncated; below that the double is exact.\<close>

definition use_cost :: "nat \<Rightarrow> int" where
  "use_cost loop_depth =
     (if 15 * 10 ^ loop_depth \<ge> 10 * INT32_MAX then INT32_MAX else 15 * 10 ^ loop_depth div 10)"

definition UpdateSpillCostWithUse :: "nat \<Rightarrow> LiveInterval \<Rightarrow> LiveInterval" where
  "UpdateSpillCostWithUse loop_depth l =
     (if IsPrecolored l then l
      else
        let to_add = use_cost loop_depth in
        if INT32_MAX - to_add < spill_cost l then l\<lparr>spill_cost := INT32_MAX\<rparr>
        else l\<lparr>spill_cost := spill_cost l + to_add\<rparr>)"

definition LiveIntervalType :: "LiveInterval \<Rightarrow> Type res" where
  "LiveIntervalType l = (if IsPrecolored l then Inl (RuntimeError ''Not a virtual live interval'') else Inr (iv_type l))"

definition LiveIntervalValue :: "LiveInterval \<Rightarrow> Value res" where
  "LiveIntervalValue l = (if IsPrecolored l then Inl (RuntimeError ''Not a virtual live interval'') else Inr (iv_value l))"

definition PrecoloredRegister :: "LiveInterval \<Rightarrow> int res" where
  "PrecoloredRegister l =
     (if IsPrecolored l then Inr (iv_register l) else Inl (RuntimeError ''Not a precolored live interval''))"

definition LiveIntervalEq :: "LiveInterval \<Rightarrow> LiveInterval \<Rightarrow> bool" where
  "LiveIntervalEq l rhs =
     (undef l = undef rhs \<and> istart l = istart rhs \<and> iend l = iend rhs
      \<and> Serialize (iv_value l) = Serialize (iv_value rhs) \<and> iv_type l = iv_type rhs
      \<and> iv_register l = iv_register rhs)"

definition at_interval :: "(LiveInterval \<Rightarrow> LiveInterval) \<Rightarrow> LiveInterval list \<Rightarrow> int \<Rightarrow> LiveInterval list res" where
  "at_interval f ivs i = bindR (nthI ivs i) (\<lambda>l. updI ivs i (f l))"

section \<open>Liveness of the blocks\<close>

text \<open>The values a block reads before writing them, and the values it writes.\<close>

definition external_use_step ::
    "u64 list \<Rightarrow> bool list \<Rightarrow> Value list \<times> Value list \<Rightarrow> int \<times> int \<Rightarrow> (Value list \<times> Value list) res" where
  "external_use_step instrs gep st p =
     (case st of (values, written_to) \<Rightarrow>
       bindR (GetReadValues (snd p) (fst p) gep instrs) (\<lambda>reads.
       let values = foldl (\<lambda>vs v. if v \<notin> set written_to then List.insert v vs else vs) values reads in
       bindR (GetWrittenValue (snd p) instrs gep) (\<lambda>w.
         Inr (values, case w of None \<Rightarrow> written_to | Some v \<Rightarrow> List.insert v written_to))))"

definition AddExternalUses :: "u64 list \<Rightarrow> bool list \<Rightarrow> BasicBlock \<Rightarrow> Value list res" where
  "AddExternalUses instrs gep b =
     bindR (foldR (external_use_step instrs gep) ([], []) (positions b)) (\<lambda>(values, written_to). Inr values)"

definition AddDefs :: "u64 list \<Rightarrow> bool list \<Rightarrow> BasicBlock \<Rightarrow> Value list res" where
  "AddDefs instrs gep b =
     foldR (\<lambda>values p. bindR (GetWrittenValue (snd p) instrs gep) (\<lambda>v.
              Inr (case v of None \<Rightarrow> values | Some v \<Rightarrow> List.insert v values)))
       [] (positions b)"

definition UnionLive :: "nat list \<Rightarrow> Value list list \<Rightarrow> Value list res" where
  "UnionLive successors live_in =
     foldR (\<lambda>out i. bindR (nthR live_in i) (\<lambda>l. Inr (List.union l out))) [] successors"

text \<open>One round: the new live-in sets and the blocks pushed on the stack, the topmost first.\<close>

definition live_step :: "BasicBlock list \<Rightarrow> Value list list \<Rightarrow> Value list list \<Rightarrow> nat \<Rightarrow> (Value list list \<times> nat list) res" where
  "live_step bb defs live_in curr_block =
     bindR (nthR bb curr_block) (\<lambda>b.
     bindR (UnionLive (Successors b) live_in) (\<lambda>live_out.
     bindR (nthR defs curr_block) (\<lambda>d.
     bindR (nthR live_in curr_block) (\<lambda>l.
     let l' = foldl (\<lambda>l v. if v \<notin> set d then List.insert v l else l) l live_out in
     bindR (updR live_in curr_block l') (\<lambda>live_in.
       Inr (live_in, if length l' \<noteq> length l then rev (Predecessors b) else []))))))"

partial_function (option) live_loop ::
    "BasicBlock list \<Rightarrow> Value list list \<Rightarrow> Value list list \<Rightarrow> nat list \<Rightarrow> Value list list ores" where
  "live_loop bb defs live_in worklist =
     (if worklist = [] then Some (Inr live_in)
      else
        (case live_step bb defs live_in (hd worklist) of
           Inl e \<Rightarrow> Some (Inl e)
         | Inr st \<Rightarrow> live_loop bb defs (fst st) (snd st @ tl worklist)))"

declare live_loop.simps [code]

definition ComputeLiveIn :: "Function \<Rightarrow> bool list \<Rightarrow> Value list list ores" where
  "ComputeLiveIn func gep =
     (let bb = BasicBlocks func; instrs = Instrs func in
      bindO (Some (foldR (\<lambda>(l, d) b.
               bindR (AddExternalUses instrs gep b) (\<lambda>u.
               bindR (AddDefs instrs gep b) (\<lambda>w. Inr (l @ [u], d @ [w])))) ([], []) bb)) (\<lambda>(live_in, defs).
        live_loop bb defs live_in (rev [0..<length bb])))"

section \<open>Intervals of instruction positions\<close>

definition initial_intervals :: "u64 list \<Rightarrow> LiveInterval list res" where
  "initial_intervals instrs =
     foldR (\<lambda>ivs i. bindR (TypeOfAsm (instrs ! i)) (\<lambda>t. Inr (ivs @ [LiveIntervalOf (ValueOf (of_nat i)) t])))
       [] [0..<length instrs]"

definition block_positions :: "BasicBlock list \<Rightarrow> (nat \<times> int \<times> int) list" where
  "block_positions bb = concat (map (\<lambda>b. map (Pair b) (positions (bb ! b))) [0..<length bb])"

text \<open>The number of every instruction, by block and position: the latest entry of a key counts.\<close>

definition build_instr_map :: "BasicBlock list \<Rightarrow> ((nat \<times> int) \<times> int) list" where
  "build_instr_map bb =
     fst (foldl (\<lambda>(m, total_past_instrs) (b, s, i). (((b, i), total_past_instrs) # m, total_past_instrs + 1))
            ([], 0) (block_positions bb))"

definition extend_all :: "int \<Rightarrow> LiveInterval list \<Rightarrow> Value list \<Rightarrow> LiveInterval list res" where
  "extend_all x ivs vs = foldR (\<lambda>ivs v. at_interval (Extend x) ivs (uint (GetIdx v))) ivs vs"

definition extend_step ::
    "u64 list \<Rightarrow> bool list \<Rightarrow> ((nat \<times> int) \<rightharpoonup> int) \<Rightarrow> nat \<Rightarrow> LiveInterval list \<times> Value list \<Rightarrow> int \<times> int
     \<Rightarrow> (LiveInterval list \<times> Value list) res" where
  "extend_step instrs gep instr_map bb_idx st p =
     (case st of (ivs, currently_live) \<Rightarrow>
       bindR (atR instr_map (bb_idx, snd p)) (\<lambda>x.
       bindR (extend_all x ivs currently_live) (\<lambda>ivs.
       bindR (GetWrittenValue (snd p) instrs gep) (\<lambda>w.
       let live = (case w of None \<Rightarrow> currently_live | Some v \<Rightarrow> remove1 v currently_live) in
       bindR (GetReadValues (snd p) (fst p) gep instrs) (\<lambda>reads.
       let live = foldl (\<lambda>l v. List.insert v l) live reads in
       bindR (extend_all x ivs live) (\<lambda>ivs. Inr (ivs, live)))))))"

definition extend_block ::
    "Function \<Rightarrow> bool list \<Rightarrow> ((nat \<times> int) \<rightharpoonup> int) \<Rightarrow> Value list list \<Rightarrow> LiveInterval list \<Rightarrow> nat
     \<Rightarrow> LiveInterval list res" where
  "extend_block func gep instr_map live_in ivs bb_idx =
     (let b = BasicBlocks func ! bb_idx in
      bindR (UnionLive (Successors b) live_in) (\<lambda>live.
      bindR (foldR (extend_step (Instrs func) gep instr_map bb_idx) (ivs, live) (rev (positions b))) (\<lambda>(ivs, live).
      bindR (nthR live_in bb_idx) (\<lambda>l.
        if set live \<noteq> set l then Inl (RuntimeError ''Invalid liveness'') else Inr ivs))))"

text \<open>Every store gets an interval of its own position.\<close>

definition store_step ::
    "u64 list \<Rightarrow> ((nat \<times> int) \<rightharpoonup> int) \<Rightarrow> LiveInterval list \<Rightarrow> nat \<times> int \<times> int \<Rightarrow> LiveInterval list res" where
  "store_step instrs instr_map ivs p =
     (case p of (bb_idx, s, i) \<Rightarrow>
       bindR (opcode_at instrs i) (\<lambda>opcode.
         if opcode \<in> set [I8_STORE, I16_STORE, I32_STORE, I64_STORE, F64_STORE, PTR_STORE, I32_VEC8_MASK_STORE]
         then bindR (atR instr_map (bb_idx, i)) (\<lambda>x. at_interval (Extend x) ivs i)
         else Inr ivs))"

section \<open>Registers fixed by the calling convention\<close>

definition normal_arg_reg :: "int list" where
  "normal_arg_reg = [RDI, RSI, RDX, RCX, R8, R9]"

definition fp_arg_reg :: "int list" where
  "fp_arg_reg = [M0, M1, M2, M3, M4, M5, M6, M7]"

definition normal_caller_save :: "int list" where
  "normal_caller_save = [R10, R11]"

definition fp_caller_save :: "int list" where
  "fp_caller_save = [M8, M9, M10, M11, M12, M13, M14]"

fun func_arg_loop ::
    "((nat \<times> int) \<rightharpoonup> int) \<Rightarrow> LiveInterval list \<Rightarrow> nat \<Rightarrow> nat \<Rightarrow> nat \<Rightarrow> u64 list \<Rightarrow> LiveInterval list res" where
  "func_arg_loop instr_map ivs i normal_arg_ctr fp_arg_ctr [] = Inr ivs"
| "func_arg_loop instr_map ivs i normal_arg_ctr fp_arg_ctr (instr # instrs) =
     (if OpcodeFrom (GenericOpcode instr) \<noteq> FUNC_ARG then Inr ivs
      else
        let fp = IsF64Type (T3TypeID instr) in
        bindR (if fp then nthR fp_arg_reg fp_arg_ctr else nthR normal_arg_reg normal_arg_ctr) (\<lambda>reg.
        bindR (atR instr_map (0, 0)) (\<lambda>x0.
        bindR (atR instr_map (0, int i)) (\<lambda>xi.
          func_arg_loop instr_map (ivs @ [Extend xi (Extend x0 (LiveIntervalPrecolored reg))]) (i + 1)
            (if fp then normal_arg_ctr else normal_arg_ctr + 1)
            (if fp then fp_arg_ctr + 1 else fp_arg_ctr) instrs))))"

definition clobber_step ::
    "u64 list \<Rightarrow> ((nat \<times> int) \<rightharpoonup> int) \<Rightarrow> LiveInterval list \<times> nat \<times> nat \<Rightarrow> nat \<times> int \<times> int
     \<Rightarrow> (LiveInterval list \<times> nat \<times> nat) res" where
  "clobber_step instrs instr_map st p =
     (case st of (ivs, normal_arg_ctr, fp_arg_ctr) \<Rightarrow> case p of (bb_idx, s, i) \<Rightarrow>
       bindR (nthI instrs i) (\<lambda>instr.
       let i_opcode = OpcodeFrom (GenericOpcode instr) in
       bindR (TypeOfAsm instr) (\<lambda>i_type.
       if i_opcode = CALL_ARG then
         (if IsF64Type i_type then
            (if fp_arg_ctr \<ge> length fp_arg_reg then Inr (ivs, normal_arg_ctr, fp_arg_ctr + 1)
             else bindR (at_interval (ChangeToPrecolored (fp_arg_reg ! fp_arg_ctr)) ivs i) (\<lambda>ivs.
                    Inr (ivs, normal_arg_ctr, fp_arg_ctr + 1)))
          else
            (if normal_arg_ctr \<ge> length normal_arg_reg then Inr (ivs, normal_arg_ctr + 1, fp_arg_ctr)
             else bindR (at_interval (ChangeToPrecolored (normal_arg_reg ! normal_arg_ctr)) ivs i) (\<lambda>ivs.
                    Inr (ivs, normal_arg_ctr + 1, fp_arg_ctr))))
       else if i_opcode \<in> set [CALL_INDIRECT, CALL] then
         bindR (atR instr_map (bb_idx, i)) (\<lambda>x.
           Inr (ivs @ map (\<lambda>reg. Extend x (LiveIntervalPrecolored reg))
                        (drop normal_arg_ctr normal_arg_reg @ drop fp_arg_ctr fp_arg_reg
                         @ normal_caller_save @ fp_caller_save), 0, 0))
       else Inr (ivs, normal_arg_ctr, fp_arg_ctr))))"

section \<open>Cost of spilling\<close>

definition loop_roots :: "nat \<Rightarrow> nat list list \<Rightarrow> bool list res" where
  "loop_roots n loop_tree =
     foldR (\<lambda>is_root x. foldR (\<lambda>is_root y. updR is_root y False) is_root x) (replicate n True) loop_tree"

fun depth_dfs :: "nat \<Rightarrow> nat list list \<Rightarrow> nat \<Rightarrow> nat \<Rightarrow> nat list \<Rightarrow> nat list ores" where
  "depth_dfs 0 loop_tree cur curr_depth loop_depth = None"
| "depth_dfs (Suc fuel) loop_tree cur curr_depth loop_depth =
     bindO (Some (updR loop_depth cur curr_depth)) (\<lambda>loop_depth.
     bindO (Some (nthR loop_tree cur)) (\<lambda>children.
       foldO (\<lambda>loop_depth nxt. depth_dfs fuel loop_tree nxt (curr_depth + 1) loop_depth) loop_depth children))"

definition compute_loop_depth :: "nat \<Rightarrow> nat list list \<Rightarrow> nat list ores" where
  "compute_loop_depth n loop_tree =
     bindO (Some (loop_roots n loop_tree)) (\<lambda>is_root.
       foldO (\<lambda>loop_depth i. if is_root ! i then depth_dfs (n + 1) loop_tree i 0 loop_depth else Some (Inr loop_depth))
         (replicate n 0) [0..<n])"

definition cost_step ::
    "u64 list \<Rightarrow> bool list \<Rightarrow> nat list \<Rightarrow> LiveInterval list \<Rightarrow> nat \<times> int \<times> int \<Rightarrow> LiveInterval list res" where
  "cost_step instrs gep loop_depth ivs p =
     (case p of (bb_idx, s, i) \<Rightarrow>
       bindR (nthR loop_depth bb_idx) (\<lambda>d.
       bindR (GetWrittenValue i instrs gep) (\<lambda>w.
       bindR (case w of None \<Rightarrow> Inr ivs
              | Some v \<Rightarrow> at_interval (UpdateSpillCostWithUse d) ivs (uint (GetIdx v))) (\<lambda>ivs.
       bindR (GetReadValues i s gep instrs) (\<lambda>reads.
         foldR (\<lambda>ivs v. at_interval (UpdateSpillCostWithUse d) ivs (uint (GetIdx v))) ivs reads)))))"

definition ComputeLiveIntervals ::
    "((nat \<Rightarrow> nat) \<Rightarrow> nat list \<Rightarrow> nat list) \<Rightarrow> Function \<Rightarrow> bool list \<Rightarrow> LiveInterval list ores" where
  "ComputeLiveIntervals sort_by func gep =
     (let bb = BasicBlocks func; instrs = Instrs func; ps = block_positions bb in
      bindO (ComputeLiveIn func gep) (\<lambda>live_in.
      bindO (Some (initial_intervals instrs)) (\<lambda>ivs.
      let instr_map = map_of (build_instr_map bb) in
      bindO (Some (foldR (extend_block func gep instr_map live_in) ivs [0..<length bb])) (\<lambda>ivs.
      bindO (Some (foldR (store_step instrs instr_map) ivs ps)) (\<lambda>ivs.
      bindO (Some (func_arg_loop instr_map ivs 0 0 0 instrs)) (\<lambda>ivs.
      bindO (Some (foldR (clobber_step instrs instr_map) (ivs, 0, 0) ps)) (\<lambda>(ivs, _).
      bindO (FindLoops sort_by bb) (\<lambda>loop_tree.
      bindO (compute_loop_depth (length bb) loop_tree) (\<lambda>loop_depth.
      bindO (Some (foldR (cost_step instrs gep loop_depth) ivs ps)) (\<lambda>ivs.
        Some (Inr (filter (\<lambda>l. \<not> undef l) ivs))))))))))))"

end
