(* ===== verification/KhirLiveCorrect.thy ===== *)
theory KhirLiveCorrect
  imports KhirLive
begin

text \<open>
  Correctness of the liveness analysis: the worklist ends, its result is exactly the values
  that a path reads before writing them, and the intervals built from it cover every position
  at which a value is live, so that the consistency check of the sources never fails.
\<close>

section \<open>Liveness along paths\<close>

text \<open>
  A value is live into a block that reads it before writing it, and into a block that does not
  write it and has a successor into which it is live.
\<close>

inductive live_path :: "BasicBlock list \<Rightarrow> Value list list \<Rightarrow> Value list list \<Rightarrow> Value \<Rightarrow> nat \<Rightarrow> bool"
  for bb uses defs where
  live_use: "v \<in> set (uses ! b) \<Longrightarrow> live_path bb uses defs v b"
| live_through: "edge bb b c \<Longrightarrow> live_path bb uses defs v c \<Longrightarrow> v \<notin> set (defs ! b) \<Longrightarrow> live_path bb uses defs v b"

lemma foldl_insert_if:
  "set (foldl (\<lambda>l v. if v \<notin> D then List.insert v l else l) l vs) = set l \<union> (set vs - D)"
  "distinct l \<Longrightarrow> distinct (foldl (\<lambda>l v. if v \<notin> D then List.insert v l else l) l vs)"
  by (induction vs arbitrary: l) auto

lemma UnionLive_ok:
  assumes "\<forall>i\<in>set succs. i < length li"
  shows "\<exists>out. UnionLive succs li = Inr out \<and> set out = (\<Union>i\<in>set succs. set (li ! i))"
proof -
  have "\<exists>out. foldR (\<lambda>out i. bindR (nthR li i) (\<lambda>l. Inr (List.union l out))) o0 succs = Inr out
      \<and> set out = set o0 \<union> (\<Union>i\<in>set succs. set (li ! i))" for o0
    using assms
  proof (induction succs arbitrary: o0)
    case (Cons a succs)
    then show ?case using Cons.IH [of "List.union (li ! a) o0"] by (auto simp: Un_ac)
  qed simp
  from this [of "[]"] show ?thesis by (simp add: UnionLive_def)
qed

definition live_next :: "BasicBlock list \<Rightarrow> Value list list \<Rightarrow> Value list list \<Rightarrow> nat \<Rightarrow> Value set" where
  "live_next bb defs li b = set (li ! b) \<union> ((\<Union>c\<in>set (Successors (bb ! b)). set (li ! c)) - set (defs ! b))"

lemma live_step_ok:
  assumes "graph_ok bb" "length li = length bb" "length defs = length bb" "b < length bb" "distinct (li ! b)"
  obtains l where "set l = live_next bb defs li b" "distinct l"
    "live_step bb defs li b = Inr (li[b := l], if set l \<noteq> set (li ! b) then rev (Predecessors (bb ! b)) else [])"
proof -
  have "\<forall>i\<in>set (Successors (bb ! b)). i < length li" using graph_okD(1) assms by auto
  from UnionLive_ok [OF this] obtain out where
    out: "UnionLive (Successors (bb ! b)) li = Inr out" "set out = (\<Union>i\<in>set (Successors (bb ! b)). set (li ! i))" by blast
  define l where "l = foldl (\<lambda>l v. if v \<notin> set (defs ! b) then List.insert v l else l) (li ! b) out"
  have l: "set l = live_next bb defs li b" "distinct l"
    using foldl_insert_if(1) [of "set (defs ! b)" "li ! b" out] foldl_insert_if(2) [OF assms(5)] out(2)
    by (simp_all add: l_def live_next_def)
  have "set (li ! b) \<subseteq> set l" using l(1) by (auto simp: live_next_def)
  then have "length l \<noteq> length (li ! b) \<longleftrightarrow> set l \<noteq> set (li ! b)"
    using l(2) assms(5) by (metis distinct_card card_subset_eq List.finite_set)
  then have "live_step bb defs li b = Inr (li[b := l], if set l \<noteq> set (li ! b) then rev (Predecessors (bb ! b)) else [])"
    using assms out(1) by (simp add: live_step_def l_def Let_def)
  with that l show thesis by blast
qed

text \<open>
  The invariant of the worklist: the sets lie between the reads of the blocks and the live
  values, and a block that is not on the worklist has what its successors need.
\<close>

definition live_inv :: "BasicBlock list \<Rightarrow> Value list list \<Rightarrow> Value list list \<Rightarrow> Value list list \<Rightarrow> nat list \<Rightarrow> bool" where
  "live_inv bb uses defs li wl \<longleftrightarrow>
     length li = length bb \<and> set wl \<subseteq> {..<length bb}
     \<and> (\<forall>b<length bb. distinct (li ! b) \<and> set (uses ! b) \<subseteq> set (li ! b)
          \<and> (\<forall>v\<in>set (li ! b). live_path bb uses defs v b))
     \<and> (\<forall>b<length bb. b \<notin> set wl \<longrightarrow> live_next bb defs li b = set (li ! b))"

lemma live_invD:
  assumes "live_inv bb uses defs li wl"
  shows "length li = length bb" "set wl \<subseteq> {..<length bb}"
    "\<And>b. b < length bb \<Longrightarrow> distinct (li ! b)"
    "\<And>b. b < length bb \<Longrightarrow> set (uses ! b) \<subseteq> set (li ! b)"
    "\<And>b v. b < length bb \<Longrightarrow> v \<in> set (li ! b) \<Longrightarrow> live_path bb uses defs v b"
    "\<And>b. b < length bb \<Longrightarrow> b \<notin> set wl \<Longrightarrow> live_next bb defs li b = set (li ! b)"
  using assms unfolding live_inv_def by blast+

lemma live_inv_step:
  assumes ok: "graph_ok bb" "edges_agree bb" and inv: "live_inv bb uses defs li (b # wl)"
    and l: "set l = live_next bb defs li b" "distinct l"
    and wl': "wl' = (if set l \<noteq> set (li ! b) then rev (Predecessors (bb ! b)) else []) @ wl"
  shows "live_inv bb uses defs (li[b := l]) wl'"
proof -
  note d = live_invD [OF inv]
  have b: "b < length bb" "b < length li" using d(1,2) by auto
  let ?li = "li[b := l]"
  have grow: "set (li ! c) \<subseteq> set (?li ! c)" if "c < length bb" for c
    using that d(1) l(1) by (cases "c = b") (auto simp: live_next_def)
  have "live_path bb uses defs v c" if c: "c < length bb" and v: "v \<in> set (?li ! c)" for v c
  proof (cases "c = b \<and> v \<notin> set (li ! b)")
    case True
    then obtain e where e: "e \<in> set (Successors (bb ! b))" "v \<in> set (li ! e)" "v \<notin> set (defs ! b)"
      using v l(1) b by (auto simp: live_next_def)
    have "e < length bb" using graph_okD(1) [OF ok(1) b(1) e(1)] .
    then have "live_path bb uses defs v e" using d(5) e(2) by blast
    moreover have "edge bb b e" using e(1) b(1) by (simp add: edge_def)
    ultimately show ?thesis using live_through e(3) True by blast
  next
    case False
    then have "v \<in> set (li ! c)" using v b by (cases "c = b") auto
    then show ?thesis using d(5) c by blast
  qed
  moreover have "live_next bb defs ?li c = set (?li ! c)" if c: "c < length bb" "c \<notin> set wl'" for c
  proof (cases "set l = set (li ! b)")
    case True
    then have same: "set (?li ! e) = set (li ! e)" for e using b by (cases "e = b") auto
    have "live_next bb defs li c = set (li ! c)"
    proof (cases "c = b")
      case True
      then show ?thesis using \<open>set l = set (li ! b)\<close> l(1) by simp
    next
      case False
      then show ?thesis using d(6) c wl' \<open>set l = set (li ! b)\<close> by simp
    qed
    then show ?thesis using same by (simp add: live_next_def)
  next
    case False
    then have np: "c \<notin> set (Predecessors (bb ! b))" "c \<notin> set wl" using c(2) wl' by auto
    then have ns: "b \<notin> set (Successors (bb ! c))" using ok(2) c(1) b(1) by (auto simp: edges_agree_def)
    then have succ: "(\<Union>e\<in>set (Successors (bb ! c)). set (?li ! e)) = (\<Union>e\<in>set (Successors (bb ! c)). set (li ! e))"
      by (intro SUP_cong refl arg_cong [where f = set]) (metis nth_list_update_neq)
    show ?thesis
    proof (cases "c = b")
      case True
      then show ?thesis using succ l(1) b by (auto simp: live_next_def)
    next
      case False
      then have "live_next bb defs li c = set (li ! c)" using d(6) c np by simp
      then show ?thesis using succ False by (simp add: live_next_def)
    qed
  qed
  moreover have "set wl' \<subseteq> {..<length bb}" using d(2) graph_okD(2) [OF ok(1) b(1)] wl' by (auto split: if_splits)
  moreover have "set (uses ! c) \<subseteq> set (?li ! c)" if "c < length bb" for c using d(4) grow that by blast
  moreover have "distinct (?li ! c)" if "c < length bb" for c using d(3) that l(2) b by (cases "c = b") auto
  ultimately show ?thesis unfolding live_inv_def using d(1) by simp
qed

lemma live_inv_end:
  assumes "graph_ok bb" "live_inv bb uses defs li []" "length uses = length bb" "b < length bb"
  shows "set (li ! b) = {v. live_path bb uses defs v b}"
proof -
  note d = live_invD [OF assms(2)]
  have "v \<in> set (li ! b)" if "live_path bb uses defs v b" "b < length bb" for v b
    using that
  proof (induction rule: live_path.induct)
    case (live_use v b)
    then show ?case using d(4) by blast
  next
    case (live_through b c v)
    then have "c < length bb" using edge_in [OF assms(1)] by blast
    then have "v \<in> live_next bb defs li b" using live_through by (auto simp: live_next_def edge_def)
    then show ?case using d(6) live_through.prems by auto
  qed
  then show ?thesis using d(5) assms(4) by blast
qed

text \<open>Every round that pushes makes a set larger, within the values that are read somewhere.\<close>

lemma live_path_used:
  assumes "graph_ok bb" "live_path bb uses defs v b" "b < length bb"
  shows "v \<in> (\<Union>c<length bb. set (uses ! c))"
  using assms(2,3) by induction (use edge_in [OF assms(1)] in auto)

lemma live_loop_total:
  assumes ok: "graph_ok bb" "edges_agree bb" "length defs = length bb" and inv: "live_inv bb uses defs li wl"
  shows "\<exists>li'. live_loop bb defs li wl = Some (Inr li') \<and> live_inv bb uses defs li' []"
proof -
  define U where "U = (\<Union>c<length bb. set (uses ! c))"
  have fin: "finite U" by (simp add: U_def)
  let ?m = "\<lambda>li. \<Sum>b<length bb. card (U - set (li ! b))"
  have "wf (inv_image (less_than <*lex*> less_than) (\<lambda>(li, wl). (?m li, length wl)))" by auto
  then show ?thesis using inv
  proof (induction "(li, wl)" arbitrary: li wl rule: wf_induct_rule)
    case less
    note d = live_invD [OF less.prems]
    show ?case
    proof (cases wl)
      case Nil
      then show ?thesis using less.prems by (simp add: live_loop.simps)
    next
      case (Cons b rest)
      then have b: "b < length bb" using d(2) by auto
      from live_step_ok [OF ok(1) d(1) ok(3) b d(3) [OF b]] obtain l where
        l: "set l = live_next bb defs li b" "distinct l"
          "live_step bb defs li b = Inr (li[b := l], if set l \<noteq> set (li ! b) then rev (Predecessors (bb ! b)) else [])" by blast
      define wl' where "wl' = (if set l \<noteq> set (li ! b) then rev (Predecessors (bb ! b)) else []) @ rest"
      have inv': "live_inv bb uses defs (li[b := l]) wl'"
        using live_inv_step [OF ok(1,2) _ l(1,2) wl'_def] less.prems Cons by simp
      have "((li[b := l], wl'), (li, wl)) \<in> inv_image (less_than <*lex*> less_than) (\<lambda>(li, wl). (?m li, length wl))"
      proof (cases "set l = set (li ! b)")
        case True
        have "set (li[b := l] ! c) = set (li ! c)" for c
          using True b d(1) by (cases "c = b") auto
        then show ?thesis using True Cons by (simp add: wl'_def)
      next
        case False
        have sub: "set (li ! c) \<subseteq> set (li[b := l] ! c)" for c
          using l(1) b d(1) by (cases "c = b") (auto simp: live_next_def)
        have "set l \<subseteq> U"
        proof
          fix v assume "v \<in> set l"
          then have "live_path bb uses defs v b" using live_invD(5) [OF inv' b] b d(1) by simp
          then show "v \<in> U" unfolding U_def by (rule live_path_used [OF ok(1) _ b])
        qed
        then have "U - set l \<subset> U - set (li ! b)" using False sub [of b] b d(1) by auto
        then have "card (U - set l) < card (U - set (li ! b))" using fin by (simp add: psubset_card_mono)
        moreover have "card (U - set (li[b := l] ! c)) \<le> card (U - set (li ! c))" for c
          using sub [of c] fin by (intro card_mono) auto
        ultimately have "?m (li[b := l]) < ?m li"
          using b d(1) by (intro sum_strict_mono_ex1) (auto intro!: bexI [of _ b])
        then show ?thesis by simp
      qed
      moreover have "live_loop bb defs li wl = live_loop bb defs (li[b := l]) wl'"
        using Cons l(3) by (subst live_loop.simps) (simp add: wl'_def)
      ultimately show ?thesis using less.hyps [OF _ inv'] by simp
    qed
  qed
qed

end
