(* ===== verification/KhirIntervals.thy ===== *)
theory KhirIntervals
  imports KhirLiveCorrect
begin

text \<open>
  From liveness to intervals: the intervals of the sources cover every position before or
  behind which a value is live, and there is one interval per value.
\<close>

section \<open>Liveness between instructions\<close>

text \<open>
  A value is live before the instruction at place \<open>k\<close> of a block if the instruction reads it, or
  if it does not write it and the value is live behind it; behind the last instruction it is live
  if it is live before the first instruction of a successor.
\<close>

definition reads :: "u64 list \<Rightarrow> bool list \<Rightarrow> int \<times> int \<Rightarrow> Value set" where
  "reads instrs gep p = (case GetReadValues (snd p) (fst p) gep instrs of Inl e \<Rightarrow> {} | Inr vs \<Rightarrow> set vs)"

definition writes :: "u64 list \<Rightarrow> bool list \<Rightarrow> int \<times> int \<Rightarrow> Value set" where
  "writes instrs gep p = (case GetWrittenValue (snd p) instrs gep of Inl e \<Rightarrow> {} | Inr w \<Rightarrow> set_option w)"

inductive live_before :: "Function \<Rightarrow> bool list \<Rightarrow> Value \<Rightarrow> nat \<Rightarrow> nat \<Rightarrow> bool" for func gep where
  live_read: "b < length (BasicBlocks func) \<Longrightarrow> k < length (positions (BasicBlocks func ! b))
    \<Longrightarrow> v \<in> reads (Instrs func) gep (positions (BasicBlocks func ! b) ! k) \<Longrightarrow> live_before func gep v b k"
| live_pass: "b < length (BasicBlocks func) \<Longrightarrow> k < length (positions (BasicBlocks func ! b))
    \<Longrightarrow> v \<notin> writes (Instrs func) gep (positions (BasicBlocks func ! b) ! k) \<Longrightarrow> live_before func gep v b (Suc k)
    \<Longrightarrow> live_before func gep v b k"
| live_edge: "edge (BasicBlocks func) b c \<Longrightarrow> live_before func gep v c 0
    \<Longrightarrow> live_before func gep v b (length (positions (BasicBlocks func ! b)))"

definition transfer :: "u64 list \<Rightarrow> bool list \<Rightarrow> int \<times> int \<Rightarrow> Value set \<Rightarrow> Value set" where
  "transfer instrs gep p L = L - writes instrs gep p \<union> reads instrs gep p"

text \<open>Sets that solve the equations of the blocks contain the live values.\<close>

lemma live_before_solution:
  assumes "live_before func gep v b k"
    "\<And>b. b < length (BasicBlocks func) \<Longrightarrow>
       foldr (transfer (Instrs func) gep) (positions (BasicBlocks func ! b)) (\<Union>c\<in>set (Successors (BasicBlocks func ! b)). li c) \<subseteq> li b"
    "graph_ok (BasicBlocks func)"
  shows "v \<in> foldr (transfer (Instrs func) gep) (drop k (positions (BasicBlocks func ! b))) (\<Union>c\<in>set (Successors (BasicBlocks func ! b)). li c)"
  using assms(1)
proof (induction rule: live_before.induct)
  case (live_read b k v)
  have "drop k (positions (BasicBlocks func ! b)) = positions (BasicBlocks func ! b) ! k # drop (Suc k) (positions (BasicBlocks func ! b))"
    using live_read(2) by (simp add: Cons_nth_drop_Suc)
  then show ?case using live_read(3) by (simp add: transfer_def)
next
  case (live_pass b k v)
  have "drop k (positions (BasicBlocks func ! b)) = positions (BasicBlocks func ! b) ! k # drop (Suc k) (positions (BasicBlocks func ! b))"
    using live_pass(2) by (simp add: Cons_nth_drop_Suc)
  then show ?case using live_pass(3) live_pass.IH by (simp add: transfer_def)
next
  case (live_edge b c v)
  have "c < length (BasicBlocks func)" using edge_in [OF assms(3) live_edge(1)] by simp
  then have "v \<in> li c" using live_edge.IH assms(2) by auto
  then show ?case using live_edge(1) by (auto simp: edge_def)
qed

section \<open>Operations on single intervals\<close>

definition covers :: "LiveInterval \<Rightarrow> int \<Rightarrow> bool" where
  "covers l x \<longleftrightarrow> \<not> undef l \<and> 0 \<le> istart l \<and> istart l \<le> x \<and> x \<le> iend l"

definition iv_wf :: "LiveInterval \<Rightarrow> bool" where
  "iv_wf l \<longleftrightarrow> istart l = -1 \<and> iend l = -1 \<or> 0 \<le> istart l \<and> istart l \<le> iend l"

text \<open>What the updates of an interval keep.\<close>

definition keeps :: "(LiveInterval \<Rightarrow> LiveInterval) \<Rightarrow> bool" where
  "keeps f \<longleftrightarrow> (\<forall>l. iv_wf l \<longrightarrow> iv_wf (f l) \<and> (\<forall>x. covers l x \<longrightarrow> covers (f l) x)
     \<and> (IsPrecolored l \<longrightarrow> IsPrecolored (f l)) \<and> (IsPrecolored (f l) \<or> iv_value (f l) = iv_value l))"

lemma keeps_Extend: "0 \<le> x \<Longrightarrow> keeps (Extend x)"
  by (auto simp: keeps_def Extend_def Let_def iv_wf_def covers_def IsPrecolored_def)

lemma covers_Extend: "0 \<le> x \<Longrightarrow> iv_wf l \<Longrightarrow> covers (Extend x l) x"
  by (auto simp: Extend_def Let_def iv_wf_def covers_def)

lemma keeps_precolor: "0 \<le> r \<Longrightarrow> keeps (ChangeToPrecolored r)"
  by (auto simp: keeps_def ChangeToPrecolored_def iv_wf_def covers_def IsPrecolored_def)

lemma keeps_cost: "keeps (UpdateSpillCostWithUse d)"
  by (auto simp: keeps_def UpdateSpillCostWithUse_def Let_def iv_wf_def covers_def IsPrecolored_def)

section \<open>The list of intervals\<close>

definition ivs_inv :: "nat \<Rightarrow> LiveInterval list \<Rightarrow> bool" where
  "ivs_inv n ivs \<longleftrightarrow> n \<le> length ivs
     \<and> (\<forall>k<length ivs. iv_wf (ivs ! k) \<and> (IsPrecolored (ivs ! k) \<or> k < n \<and> iv_value (ivs ! k) = ValueOf (of_nat k)))"

text \<open>A step of the construction: the invariant is kept and no interval loses a position.\<close>

definition extends :: "nat \<Rightarrow> LiveInterval list \<Rightarrow> LiveInterval list \<Rightarrow> bool" where
  "extends n ivs ivs' \<longleftrightarrow> (ivs_inv n ivs \<longrightarrow> ivs_inv n ivs' \<and> length ivs \<le> length ivs'
     \<and> (\<forall>k<length ivs. \<forall>x. covers (ivs ! k) x \<longrightarrow> covers (ivs' ! k) x))"

lemma extends_refl: "extends n ivs ivs"
  by (simp add: extends_def)

lemma extends_trans:
  assumes "extends n a b" "extends n b c"
  shows "extends n a c"
  unfolding extends_def
proof (intro impI conjI allI)
  assume a: "ivs_inv n a"
  then have b: "ivs_inv n b" "length a \<le> length b" "\<forall>k<length a. \<forall>x. covers (a ! k) x \<longrightarrow> covers (b ! k) x"
    using assms(1) unfolding extends_def by blast+
  then have c: "ivs_inv n c" "length b \<le> length c" "\<forall>k<length b. \<forall>x. covers (b ! k) x \<longrightarrow> covers (c ! k) x"
    using assms(2) unfolding extends_def by blast+
  show "ivs_inv n c" "length a \<le> length c" using b c by simp_all
  fix k x assume "k < length a" "covers (a ! k) x"
  then show "covers (c ! k) x" using b c by (meson less_le_trans)
qed

lemma extends_fold:
  assumes "foldR f ivs xs = Inr ivs'" "\<And>s x s'. x \<in> set xs \<Longrightarrow> f s x = Inr s' \<Longrightarrow> extends n s s'"
  shows "extends n ivs ivs'"
  by (rule foldR_rel [where R = "extends n", OF assms(1) extends_refl]) (fact extends_trans, fact assms(2))

lemma extends_at:
  assumes "at_interval f ivs i = Inr ivs'" "keeps f"
  shows "extends n ivs ivs'"
proof -
  have i: "0 \<le> i" "nat i < length ivs" "ivs' = ivs[nat i := f (ivs ! nat i)]"
    using assms(1) by (auto simp: at_interval_def bindR_Inr_iff nthI_Inr_iff)
  show ?thesis
    unfolding extends_def
  proof (intro impI conjI)
    assume inv: "ivs_inv n ivs"
    have k: "iv_wf (f l) \<and> (\<forall>x. covers l x \<longrightarrow> covers (f l) x) \<and> (IsPrecolored l \<longrightarrow> IsPrecolored (f l))
        \<and> (IsPrecolored (f l) \<or> iv_value (f l) = iv_value l)" if "iv_wf l" for l
      using assms(2) that unfolding keeps_def by blast
    show "ivs_inv n ivs'"
      unfolding ivs_inv_def
    proof (intro conjI allI impI)
      show "n \<le> length ivs'" using inv i(3) by (simp add: ivs_inv_def)
      fix m assume m: "m < length ivs'"
      then have w: "iv_wf (ivs ! m)" "IsPrecolored (ivs ! m) \<or> m < n \<and> iv_value (ivs ! m) = ValueOf (of_nat m)"
        using inv i(3) by (auto simp: ivs_inv_def)
      show "iv_wf (ivs' ! m)" using k [OF w(1)] w(1) i by (cases "m = nat i") auto
      show "IsPrecolored (ivs' ! m) \<or> m < n \<and> iv_value (ivs' ! m) = ValueOf (of_nat m)"
        using k [OF w(1)] w(2) i by (cases "m = nat i") auto
    qed
    show "length ivs \<le> length ivs'" using i(3) by simp
    show "\<forall>m<length ivs. \<forall>x. covers (ivs ! m) x \<longrightarrow> covers (ivs' ! m) x"
    proof (intro allI impI)
      fix m x assume m: "m < length ivs" "covers (ivs ! m) x"
      have "iv_wf (ivs ! m)" using inv m(1) by (simp add: ivs_inv_def)
      then show "covers (ivs' ! m) x" using k m(2) i by (cases "m = nat i") auto
    qed
  qed
qed

lemma extends_append:
  assumes "\<forall>l\<in>set new. iv_wf l \<and> IsPrecolored l"
  shows "extends n ivs (ivs @ new)"
  unfolding extends_def ivs_inv_def using assms by (auto simp: nth_append)

section \<open>The stages of the construction\<close>

lemma initial_intervals_inv:
  assumes "initial_intervals instrs = Inr ivs"
  shows "ivs_inv (length instrs) ivs"
proof -
  have "length ivs = m \<and> (\<forall>k<m. \<exists>t. ivs ! k = LiveIntervalOf (ValueOf (of_nat k)) t)"
    if "foldR (\<lambda>ivs i. bindR (TypeOfAsm (instrs ! i)) (\<lambda>t. Inr (ivs @ [LiveIntervalOf (ValueOf (of_nat i)) t]))) [] [0..<m] = Inr ivs" for m ivs
    using that
  proof (induction m arbitrary: ivs)
    case (Suc m)
    then obtain ivs' t where i: "foldR (\<lambda>ivs i. bindR (TypeOfAsm (instrs ! i)) (\<lambda>t. Inr (ivs @ [LiveIntervalOf (ValueOf (of_nat i)) t]))) [] [0..<m] = Inr ivs'"
      "ivs = ivs' @ [LiveIntervalOf (ValueOf (of_nat m)) t]" by (auto simp: foldR_append bindR_Inr_iff)
    then show ?case using Suc.IH [OF i(1)] by (auto simp: nth_append less_Suc_eq)
  qed simp
  from this [OF assms [unfolded initial_intervals_def]] have i: "length ivs = length instrs"
    "\<And>k. k < length instrs \<Longrightarrow> \<exists>t. ivs ! k = LiveIntervalOf (ValueOf (of_nat k)) t" by blast+
  have "iv_wf (ivs ! k) \<and> iv_value (ivs ! k) = ValueOf (of_nat k)" if "k < length instrs" for k
    using i(2) [OF that] by (auto simp: LiveIntervalOf_def iv_wf_def)
  then show ?thesis using i(1) by (simp add: ivs_inv_def)
qed

lemma instr_map_nonneg:
  assumes "map_of (build_instr_map bb) p = Some x"
  shows "0 \<le> x"
proof -
  let ?f = "\<lambda>(m, total_past_instrs) (b :: nat, s :: int, i :: int). (((b, i), total_past_instrs :: int) # m, total_past_instrs + 1)"
  have H: "\<forall>e\<in>set (fst (foldl ?f (m, t) ps)). 0 \<le> snd e" if "\<forall>e\<in>set m. 0 \<le> snd e" "0 \<le> t" for m t ps
    using that
  proof (induction ps arbitrary: m t)
    case (Cons q ps)
    obtain b s i where q: "q = (b, s, i)" by (cases q)
    have "\<forall>e\<in>set (fst (foldl ?f (((b, i), t) # m, t + 1) ps)). 0 \<le> snd e"
      by (rule Cons.IH) (use Cons.prems in auto)
    then show ?case by (simp add: q)
  qed simp
  have "\<forall>e\<in>set (build_instr_map bb). 0 \<le> snd e" unfolding build_instr_map_def by (rule H) simp_all
  then show ?thesis using map_of_SomeD [OF assms] by auto
qed

lemma extend_all_ext:
  assumes "extend_all x ivs vs = Inr ivs'" "0 \<le> x"
  shows "extends n ivs ivs'"
  using assms(1) unfolding extend_all_def
  by (rule extends_fold) (auto intro: extends_at keeps_Extend [OF assms(2)])

lemma extend_all_covers:
  assumes "extend_all x ivs vs = Inr ivs'" "0 \<le> x" "ivs_inv n ivs" "v \<in> set vs"
  shows "unat (GetIdx v) < length ivs' \<and> covers (ivs' ! unat (GetIdx v)) x"
proof -
  obtain as bs where vs: "vs = as @ v # bs" using assms(4) by (meson split_list)
  from assms(1) obtain s1 s2 where s: "extend_all x ivs as = Inr s1" "at_interval (Extend x) s1 (uint (GetIdx v)) = Inr s2" "extend_all x s2 bs = Inr ivs'"
    unfolding extend_all_def vs by (elim foldR_split)
  have i1: "ivs_inv n s1" using extend_all_ext [OF s(1) assms(2)] assms(3) unfolding extends_def by blast
  have lt: "unat (GetIdx v) < length s1" and s2: "s2 = s1[unat (GetIdx v) := Extend x (s1 ! unat (GetIdx v))]"
    using s(2) by (auto simp: at_interval_def bindR_Inr_iff nthI_Inr_iff)
  have "covers (s2 ! unat (GetIdx v)) x" using covers_Extend [OF assms(2)] i1 lt s2 by (simp add: ivs_inv_def)
  moreover have "ivs_inv n s2" using extends_at [OF s(2) keeps_Extend [OF assms(2)]] i1 unfolding extends_def by blast
  ultimately show ?thesis using extend_all_ext [OF s(3) assms(2), of n] lt s2 unfolding extends_def by auto
qed

lemma foldl_insert_set: "set (foldl (\<lambda>l v. List.insert v l) l vs) = set l \<union> set vs"
  "distinct l \<Longrightarrow> distinct (foldl (\<lambda>l v. List.insert v l) l vs)"
  by (induction vs arbitrary: l) auto

lemma extend_step_law:
  assumes run: "extend_step instrs gep (map_of (build_instr_map bb)) b (ivs, live) p = Inr (ivs', live')" and live: "distinct live"
  obtains x where "map_of (build_instr_map bb) (b, snd p) = Some x" "extends n ivs ivs'" "distinct live'"
    "set live' = transfer instrs gep p (set live)"
    "ivs_inv n ivs \<Longrightarrow> \<forall>v\<in>set live \<union> set live'. unat (GetIdx v) < length ivs' \<and> covers (ivs' ! unat (GetIdx v)) x"
proof -
  obtain x ivs1 w rs where s: "map_of (build_instr_map bb) (b, snd p) = Some x" "extend_all x ivs live = Inr ivs1"
    "GetWrittenValue (snd p) instrs gep = Inr w" "GetReadValues (snd p) (fst p) gep instrs = Inr rs"
    "live' = foldl (\<lambda>l v. List.insert v l) (case w of None \<Rightarrow> live | Some v \<Rightarrow> remove1 v live) rs"
    "extend_all x ivs1 live' = Inr ivs'"
    using run by (auto simp: extend_step_def Let_def bindR_Inr_iff atR_Inr_iff)
  have x: "0 \<le> x" by (rule instr_map_nonneg [OF s(1)])
  have ext: "extends n ivs ivs1" "extends n ivs1 ivs'" using extend_all_ext [OF s(2) x] extend_all_ext [OF s(6) x] .
  have d: "distinct (case w of None \<Rightarrow> live | Some v \<Rightarrow> remove1 v live)" using live by (cases w) auto
  have set': "set live' = transfer instrs gep p (set live)"
    using s(3,4,5) live by (cases w) (auto simp: transfer_def reads_def writes_def foldl_insert_set(1))
  have "\<forall>v\<in>set live \<union> set live'. unat (GetIdx v) < length ivs' \<and> covers (ivs' ! unat (GetIdx v)) x" if inv: "ivs_inv n ivs"
  proof
    have inv1: "ivs_inv n ivs1" using ext(1) inv unfolding extends_def by blast
    fix v assume "v \<in> set live \<union> set live'"
    then consider "v \<in> set live" | "v \<in> set live'" by blast
    then show "unat (GetIdx v) < length ivs' \<and> covers (ivs' ! unat (GetIdx v)) x"
    proof cases
      case 1
      from extend_all_covers [OF s(2) x inv 1] ext(2) inv1 show ?thesis unfolding extends_def by (meson less_le_trans)
    next
      case 2
      then show ?thesis by (rule extend_all_covers [OF s(6) x inv1])
    qed
  qed
  then show thesis
    using that [OF s(1) extends_trans [OF ext] _ set'] foldl_insert_set(2) [OF d] s(5) by blast
qed

lemma block_law:
  assumes "foldR (extend_step instrs gep (map_of (build_instr_map bb)) b) (ivs, live) (rev ps) = Inr (ivs', live')" "distinct live"
  shows "extends n ivs ivs' \<and> set live' = foldr (transfer instrs gep) ps (set live) \<and> distinct live'
    \<and> (ivs_inv n ivs \<longrightarrow> (\<forall>k<length ps. \<exists>x. map_of (build_instr_map bb) (b, snd (ps ! k)) = Some x
         \<and> (\<forall>v\<in>foldr (transfer instrs gep) (drop k ps) (set live) \<union> foldr (transfer instrs gep) (drop (Suc k) ps) (set live).
              unat (GetIdx v) < length ivs' \<and> covers (ivs' ! unat (GetIdx v)) x)))"
  using assms(1)
proof (induction ps arbitrary: ivs' live')
  case Nil
  then show ?case using assms(2) by (simp add: extends_refl)
next
  case (Cons p ps)
  let ?t = "\<lambda>ps. foldr (transfer instrs gep) ps (set live)"
  obtain st where st: "foldR (extend_step instrs gep (map_of (build_instr_map bb)) b) (ivs, live) (rev ps) = Inr st"
    "extend_step instrs gep (map_of (build_instr_map bb)) b st p = Inr (ivs', live')"
    using Cons.prems by (auto simp: foldR_append bindR_Inr_iff)
  obtain ivs1 live1 where st1: "st = (ivs1, live1)" by (cases st)
  note ih = Cons.IH [OF st(1) [unfolded st1]]
  from extend_step_law [OF st(2) [unfolded st1], of n] ih obtain x where
    x: "map_of (build_instr_map bb) (b, snd p) = Some x" "extends n ivs1 ivs'" "distinct live'" "set live' = transfer instrs gep p (set live1)"
      "ivs_inv n ivs1 \<Longrightarrow> \<forall>v\<in>set live1 \<union> set live'. unat (GetIdx v) < length ivs' \<and> covers (ivs' ! unat (GetIdx v)) x" by blast
  have set': "set live' = ?t (p # ps)" using x(4) ih by simp
  have "\<exists>x. map_of (build_instr_map bb) (b, snd ((p # ps) ! k)) = Some x
      \<and> (\<forall>v\<in>?t (drop k (p # ps)) \<union> ?t (drop (Suc k) (p # ps)). unat (GetIdx v) < length ivs' \<and> covers (ivs' ! unat (GetIdx v)) x)"
    if inv: "ivs_inv n ivs" and k: "k < length (p # ps)" for k
  proof -
    have inv1: "ivs_inv n ivs1" using ih inv unfolding extends_def by blast
    show ?thesis
    proof (cases k)
      case 0
      have "\<forall>v\<in>?t ps \<union> ?t (p # ps). unat (GetIdx v) < length ivs' \<and> covers (ivs' ! unat (GetIdx v)) x"
        using x(5) [OF inv1] ih set' by metis
      then show ?thesis using x(1) 0 by auto
    next
      case (Suc j)
      then have "j < length ps" using k by simp
      then obtain y where y: "map_of (build_instr_map bb) (b, snd (ps ! j)) = Some y"
        "\<forall>v\<in>?t (drop j ps) \<union> ?t (drop (Suc j) ps). unat (GetIdx v) < length ivs1 \<and> covers (ivs1 ! unat (GetIdx v)) y"
        using ih inv by blast
      have "unat (GetIdx v) < length ivs' \<and> covers (ivs' ! unat (GetIdx v)) y"
        if "unat (GetIdx v) < length ivs1 \<and> covers (ivs1 ! unat (GetIdx v)) y" for v
        using that x(2) inv1 unfolding extends_def by (meson less_le_trans)
      then show ?thesis using y Suc by auto
    qed
  qed
  then show ?case using extends_trans [OF _ x(2)] ih x(3) set' by blast
qed

lemma UnionLive_set:
  assumes "UnionLive succs li = Inr out"
  shows "set out = (\<Union>i\<in>set succs. set (li ! i))" "distinct out"
proof -
  have "(\<forall>i\<in>set succs. i < length li)"
  proof
    fix i assume "i \<in> set succs"
    then obtain as bs where "succs = as @ i # bs" by (meson split_list)
    then obtain s1 s2 where "bindR (nthR li i) (\<lambda>l. Inr (List.union l s1)) = Inr s2"
      using assms unfolding UnionLive_def by (metis (no_types, lifting) foldR_split)
    then show "i < length li" by (auto simp: bindR_Inr_iff nthR_Inr_iff)
  qed
  then show "set out = (\<Union>i\<in>set succs. set (li ! i))" using UnionLive_ok assms by fastforce
  show "distinct out"
    using assms unfolding UnionLive_def
    by (rule foldR_invariant) (auto simp: bindR_Inr_iff)
qed

text \<open>A block that passes the check solves its equation, and its intervals cover its positions.\<close>

lemma extend_block_law:
  assumes "extend_block func gep (map_of (build_instr_map (BasicBlocks func))) li ivs b = Inr ivs'"
  defines "ps \<equiv> positions (BasicBlocks func ! b)"
    and "out \<equiv> (\<Union>c\<in>set (Successors (BasicBlocks func ! b)). set (li ! c))"
  shows "extends n ivs ivs'" "foldr (transfer (Instrs func) gep) ps out = set (li ! b)"
    "ivs_inv n ivs \<Longrightarrow> k < length ps \<Longrightarrow> \<exists>x. map_of (build_instr_map (BasicBlocks func)) (b, snd (ps ! k)) = Some x
       \<and> (\<forall>v\<in>foldr (transfer (Instrs func) gep) (drop k ps) out \<union> foldr (transfer (Instrs func) gep) (drop (Suc k) ps) out.
            unat (GetIdx v) < length ivs' \<and> covers (ivs' ! unat (GetIdx v)) x)"
proof -
  obtain live live' l where s: "UnionLive (Successors (BasicBlocks func ! b)) li = Inr live"
    "foldR (extend_step (Instrs func) gep (map_of (build_instr_map (BasicBlocks func))) b) (ivs, live) (rev ps) = Inr (ivs', live')"
    "nthR li b = Inr l" "set live' = set l"
    using assms(1) by (auto simp: extend_block_def Let_def bindR_Inr_iff ps_def split: if_splits)
  note u = UnionLive_set [OF s(1), folded out_def]
  note law = block_law [OF s(2) u(2), of n, unfolded u(1)]
  show "extends n ivs ivs'" using law by blast
  show "foldr (transfer (Instrs func) gep) ps out = set (li ! b)" using law s(3,4) by (auto simp: nthR_Inr_iff)
  show "ivs_inv n ivs \<Longrightarrow> k < length ps \<Longrightarrow> \<exists>x. map_of (build_instr_map (BasicBlocks func)) (b, snd (ps ! k)) = Some x
       \<and> (\<forall>v\<in>foldr (transfer (Instrs func) gep) (drop k ps) out \<union> foldr (transfer (Instrs func) gep) (drop (Suc k) ps) out.
            unat (GetIdx v) < length ivs' \<and> covers (ivs' ! unat (GetIdx v)) x)"
    using law by blast
qed

lemma store_ext:
  assumes "foldR (store_step instrs (map_of (build_instr_map bb))) ivs ps = Inr ivs'"
  shows "extends n ivs ivs'"
  using assms
proof (rule extends_fold)
  fix ivs p ivs' assume run: "store_step instrs (map_of (build_instr_map bb)) ivs p = Inr ivs'"
  obtain b s i where p: "p = (b, s, i)" by (cases p)
  from run consider "ivs' = ivs" | x where "map_of (build_instr_map bb) (b, i) = Some x" "at_interval (Extend x) ivs i = Inr ivs'"
  proof -
    obtain opc where o: "opcode_at instrs i = Inr opc"
      using run unfolding store_step_def p prod.case by (elim bindR_InrE)
    note run = run [unfolded store_step_def p prod.case o bindR_simps]
    show ?thesis
    proof (cases "opc \<in> set [I8_STORE, I16_STORE, I32_STORE, I64_STORE, F64_STORE, PTR_STORE, I32_VEC8_MASK_STORE]")
      case True
      from run [unfolded if_P [OF True]] show ?thesis using that(2) by (auto simp: bindR_Inr_iff atR_Inr_iff)
    next
      case False
      from run [unfolded if_not_P [OF False]] show ?thesis using that(1) by simp
    qed
  qed
  then show "extends n ivs ivs'"
    by cases (auto intro: extends_refl extends_at keeps_Extend instr_map_nonneg)
qed

lemma arg_regs_nonneg:
  "nthR fp_arg_reg i = Inr r \<Longrightarrow> 0 \<le> r" "nthR normal_arg_reg i = Inr r \<Longrightarrow> 0 \<le> r"
  "i < length fp_arg_reg \<Longrightarrow> 0 \<le> fp_arg_reg ! i" "i < length normal_arg_reg \<Longrightarrow> 0 \<le> normal_arg_reg ! i"
proof -
  have "\<forall>r\<in>set fp_arg_reg. 0 \<le> r" "\<forall>r\<in>set normal_arg_reg. 0 \<le> r" by (simp_all add: fp_arg_reg_def normal_arg_reg_def)
  then show "nthR fp_arg_reg i = Inr r \<Longrightarrow> 0 \<le> r" "nthR normal_arg_reg i = Inr r \<Longrightarrow> 0 \<le> r"
    "i < length fp_arg_reg \<Longrightarrow> 0 \<le> fp_arg_reg ! i" "i < length normal_arg_reg \<Longrightarrow> 0 \<le> normal_arg_reg ! i"
    by (auto simp: nthR_Inr_iff)
qed

lemma precolored_new:
  "0 \<le> r \<Longrightarrow> iv_wf (LiveIntervalPrecolored r) \<and> IsPrecolored (LiveIntervalPrecolored r)"
  by (simp add: LiveIntervalPrecolored_def iv_wf_def IsPrecolored_def)

lemma precolored_extend:
  "0 \<le> x \<Longrightarrow> iv_wf l \<and> IsPrecolored l \<Longrightarrow> iv_wf (Extend x l) \<and> IsPrecolored (Extend x l)"
  using keeps_Extend unfolding keeps_def by blast

lemma func_arg_ext:
  "func_arg_loop (map_of (build_instr_map bb)) ivs i nc fc instrs = Inr ivs' \<Longrightarrow> extends n ivs ivs'"
proof (induction instrs arbitrary: ivs i nc fc)
  case (Cons instr instrs)
  show ?case
  proof (cases "OpcodeFrom (GenericOpcode instr) = FUNC_ARG")
    case True
    then obtain reg x0 xi nc' fc' where r: "0 \<le> reg" "map_of (build_instr_map bb) (0, 0) = Some x0" "map_of (build_instr_map bb) (0, int i) = Some xi"
      "func_arg_loop (map_of (build_instr_map bb)) (ivs @ [Extend xi (Extend x0 (LiveIntervalPrecolored reg))]) (i + 1) nc' fc' instrs = Inr ivs'"
      using Cons.prems by (auto simp: Let_def bindR_Inr_iff atR_Inr_iff dest: arg_regs_nonneg(1,2) split: if_splits)
    have "iv_wf (Extend xi (Extend x0 (LiveIntervalPrecolored reg))) \<and> IsPrecolored (Extend xi (Extend x0 (LiveIntervalPrecolored reg)))"
      using r(1-3) by (intro precolored_extend precolored_new) (auto intro: instr_map_nonneg)
    then have "extends n ivs (ivs @ [Extend xi (Extend x0 (LiveIntervalPrecolored reg))])" by (intro extends_append) simp
    then show ?thesis using Cons.IH [OF r(4)] extends_trans by blast
  next
    case False
    then show ?thesis using Cons.prems by (simp add: extends_refl)
  qed
qed (simp add: extends_refl)

lemma call_regs_nonneg:
  "r \<in> set (drop i normal_arg_reg @ drop j fp_arg_reg @ normal_caller_save @ fp_caller_save) \<Longrightarrow> 0 \<le> r"
  using set_drop_subset [of i normal_arg_reg] set_drop_subset [of j fp_arg_reg]
  by (auto simp: normal_arg_reg_def fp_arg_reg_def normal_caller_save_def fp_caller_save_def)

lemma clobber_step_ext:
  assumes "clobber_step instrs (map_of (build_instr_map bb)) (ivs, nc, fc) p = Inr (ivs', nc', fc')"
  shows "extends n ivs ivs'"
proof -
  obtain b s i where p: "p = (b, s, i)" by (cases p)
  from assms consider "ivs' = ivs" | r where "0 \<le> r" "at_interval (ChangeToPrecolored r) ivs i = Inr ivs'"
    | x where "map_of (build_instr_map bb) (b, i) = Some x"
        "ivs' = ivs @ map (\<lambda>reg. Extend x (LiveIntervalPrecolored reg))
           (drop nc normal_arg_reg @ drop fc fp_arg_reg @ normal_caller_save @ fp_caller_save)"
  proof -
    obtain instr t where it: "nthI instrs i = Inr instr" "TypeOfAsm instr = Inr t"
      using assms unfolding clobber_step_def p prod.case Let_def by (elim bindR_InrE)
    let ?o = "OpcodeFrom (GenericOpcode instr)"
    note run = assms [unfolded clobber_step_def p prod.case Let_def it bindR_simps]
    show ?thesis
    proof (cases "?o = CALL_ARG")
      case True
      then show ?thesis using run that(1) that(2) arg_regs_nonneg(3) [of fc] arg_regs_nonneg(4) [of nc]
        by (auto simp: bindR_Inr_iff not_le split: if_splits)
    next
      case False
      note run = run [unfolded if_not_P [OF False]]
      show ?thesis
      proof (cases "?o \<in> set [CALL_INDIRECT, CALL]")
        case True
        from run [unfolded if_P [OF True]] show ?thesis using that(3) by (auto simp: bindR_Inr_iff atR_Inr_iff)
      next
        case False
        from run [unfolded if_not_P [OF False]] show ?thesis using that(1) by simp
      qed
    qed
  qed
  then show ?thesis
  proof cases
    case 3
    have "\<forall>l\<in>set (map (\<lambda>reg. Extend x (LiveIntervalPrecolored reg))
        (drop nc normal_arg_reg @ drop fc fp_arg_reg @ normal_caller_save @ fp_caller_save)). iv_wf l \<and> IsPrecolored l"
      using call_regs_nonneg precolored_extend [OF instr_map_nonneg [OF 3(1)] precolored_new] by auto
    then show ?thesis unfolding 3(2) by (rule extends_append)
  qed (auto intro: extends_refl extends_at keeps_precolor)
qed

lemma clobber_ext:
  assumes "foldR (clobber_step instrs (map_of (build_instr_map bb))) (ivs, nc, fc) ps = Inr (ivs', st)"
  shows "extends n ivs ivs'"
  using assms
proof (induction ps arbitrary: ivs nc fc)
  case (Cons p ps)
  then obtain ivs1 nc1 fc1 where s: "clobber_step instrs (map_of (build_instr_map bb)) (ivs, nc, fc) p = Inr (ivs1, nc1, fc1)"
    "foldR (clobber_step instrs (map_of (build_instr_map bb))) (ivs1, nc1, fc1) ps = Inr (ivs', st)"
    by (auto elim!: bindR_InrE)
  show ?case using extends_trans [OF clobber_step_ext [OF s(1)] Cons.IH [OF s(2)]] .
qed (simp add: extends_refl)

lemma cost_ext:
  assumes "foldR (cost_step instrs gep d) ivs ps = Inr ivs'"
  shows "extends n ivs ivs'"
  using assms
proof (rule extends_fold)
  fix ivs p ivs' assume "cost_step instrs gep d ivs p = Inr ivs'"
  then obtain dd w ivs1 rs where s: "(case w of None \<Rightarrow> Inr ivs | Some v \<Rightarrow> at_interval (UpdateSpillCostWithUse dd) ivs (uint (GetIdx v))) = Inr ivs1"
    "foldR (\<lambda>ivs v. at_interval (UpdateSpillCostWithUse dd) ivs (uint (GetIdx v))) ivs1 rs = Inr ivs'"
    by (cases p) (auto simp: cost_step_def bindR_Inr_iff)
  have "extends n ivs ivs1" using s(1) by (cases w) (auto intro: extends_refl extends_at keeps_cost)
  moreover have "extends n ivs1 ivs'"
    using s(2) by (rule extends_fold) (auto intro: extends_at keeps_cost)
  ultimately show "extends n ivs ivs'" by (rule extends_trans)
qed

text \<open>
  The type the analysis gives to a call argument is void, whatever the type of the value that
  is passed, so a floating-point argument is fixed to the next general argument register.
\<close>

lemma float_argument_general_register:
  assumes "nthI instrs i = Inr instr" "OpcodeFrom (GenericOpcode instr) = CALL_ARG" "IsF64Type (T3TypeID instr)"
    "nc < length normal_arg_reg" "0 \<le> i" "nat i < length ivs"
  shows "clobber_step instrs im (ivs, nc, fc) (b, s, i)
    = Inr (ivs[nat i := ChangeToPrecolored (normal_arg_reg ! nc) (ivs ! nat i)], nc + 1, fc)"
proof -
  have "TypeOfAsm instr = Inr VoidType" using assms(2) by (simp add: TypeOfAsm_def)
  moreover have "\<not> IsF64Type VoidType" by (simp add: IsF64Type_def VoidType_def)
  ultimately show ?thesis using assms by (simp add: clobber_step_def at_interval_def)
qed

end
