(* ===== verification/KhirRegAlloc.thy ===== *)
theory KhirRegAlloc
  imports KhirLive
begin

text \<open>
  Register allocation (\<^verbatim>\<open>khir/asm/linear_scan_reg_alloc.cc\<close>,
  \<^verbatim>\<open>khir/asm/stack_spill_reg_alloc.cc\<close>). The multiset of active intervals ordered by end point
  is a list, a new element goes behind the elements with the same end. The order in which an
  unordered set of free registers is iterated and the order \<^verbatim>\<open>std::sort\<close> leaves equal elements
  in are not specified: \<^verbatim>\<open>pick\<close> chooses an element of a set and \<^verbatim>\<open>sort_by\<close> sorts by a key.
\<close>

section \<open>Linear scan\<close>

definition IsVector :: "Type \<Rightarrow> bool" where
  "IsVector t = (IsF64Type t \<or> IsI32Vec8Type t \<or> IsI1Vec8Type t)"

definition active_insert :: "LiveInterval \<Rightarrow> LiveInterval list \<Rightarrow> LiveInterval list" where
  "active_insert l active =
     takeWhile (\<lambda>x. iend x \<le> iend l) active @ l # dropWhile (\<lambda>x. iend x \<le> iend l) active"

definition erase_at :: "nat \<Rightarrow> 'a list \<Rightarrow> 'a list" where
  "erase_at i xs = take i xs @ drop (Suc i) xs"

definition assignment_of :: "RegisterAssignment list \<Rightarrow> LiveInterval \<Rightarrow> RegisterAssignment res" where
  "assignment_of assignments l = bindR (LiveIntervalValue l) (\<lambda>v. nthI assignments (uint (GetIdx v)))"

definition update_assignment ::
    "(RegisterAssignment \<Rightarrow> RegisterAssignment) \<Rightarrow> RegisterAssignment list \<Rightarrow> int \<Rightarrow> RegisterAssignment list res" where
  "update_assignment f assignments i = bindR (nthI assignments i) (\<lambda>a. updI assignments i (f a))"

text \<open>The scans for the cheapest interval to spill; the position of the first cheapest one.\<close>

fun spill_scan :: "LiveInterval list \<Rightarrow> nat \<Rightarrow> (nat \<times> int) option \<Rightarrow> (nat \<times> int) option" where
  "spill_scan [] i best = best"
| "spill_scan (l # ls) i best =
     spill_scan ls (i + 1)
       (if IsPrecolored l then best
        else case best of None \<Rightarrow> Some (i, spill_cost l)
             | Some (j, c) \<Rightarrow> if spill_cost l < c then Some (i, spill_cost l) else best)"

fun maybe_spill_scan :: "LiveInterval list \<Rightarrow> nat \<Rightarrow> int \<Rightarrow> nat option \<Rightarrow> nat option" where
  "maybe_spill_scan [] i min_spill_cost best = best"
| "maybe_spill_scan (l # ls) i min_spill_cost best =
     (if IsPrecolored l then maybe_spill_scan ls (i + 1) min_spill_cost best
      else if spill_cost l < min_spill_cost then maybe_spill_scan ls (i + 1) (spill_cost l) (Some i)
      else maybe_spill_scan ls (i + 1) min_spill_cost best)"

text \<open>Spilling the active interval at a position frees its register.\<close>

definition spill_at ::
    "nat \<Rightarrow> LiveInterval list \<Rightarrow> int set \<Rightarrow> RegisterAssignment list
     \<Rightarrow> (int \<times> LiveInterval list \<times> int set \<times> RegisterAssignment list) res" where
  "spill_at i active free assignments =
     bindR (assignment_of assignments (active ! i)) (\<lambda>a.
     bindR (LiveIntervalValue (active ! i)) (\<lambda>v.
     bindR (update_assignment Spill assignments (uint (GetIdx v))) (\<lambda>assignments.
       Inr (ra_register a, erase_at i active, insert (ra_register a) free, assignments))))"

definition SpillMinCost ::
    "LiveInterval list \<Rightarrow> int set \<Rightarrow> RegisterAssignment list
     \<Rightarrow> (int \<times> LiveInterval list \<times> int set \<times> RegisterAssignment list) res" where
  "SpillMinCost active free assignments =
     (if active = [] then Inl (RuntimeError ''Nothing to spill.'')
      else case spill_scan active 0 None of
             None \<Rightarrow> Inl (RuntimeError ''No spillable register exists'')
           | Some (i, c) \<Rightarrow> spill_at i active free assignments)"

definition MaybeSpillMinCost ::
    "LiveInterval list \<Rightarrow> int set \<Rightarrow> RegisterAssignment list \<Rightarrow> LiveInterval
     \<Rightarrow> (int \<times> LiveInterval list \<times> int set \<times> RegisterAssignment list) res" where
  "MaybeSpillMinCost active free assignments maybe =
     (if active = [] then Inl (RuntimeError ''Nothing to spill.'')
      else case maybe_spill_scan active 0 (spill_cost maybe) None of
             None \<Rightarrow> Inr (-1, active, free, assignments)
           | Some i \<Rightarrow> spill_at i active free assignments)"

text \<open>The register an active interval holds.\<close>

definition held :: "RegisterAssignment list \<Rightarrow> LiveInterval \<Rightarrow> int res" where
  "held assignments j =
     (if IsPrecolored j then PrecoloredRegister j
      else bindR (assignment_of assignments j) (\<lambda>a. Inr (ra_register a)))"

fun evict ::
    "int \<Rightarrow> LiveInterval list \<Rightarrow> nat \<Rightarrow> LiveInterval list \<Rightarrow> RegisterAssignment list
     \<Rightarrow> (LiveInterval list \<times> RegisterAssignment list) res" where
  "evict reg [] i active assignments =
     Inl (RuntimeError ''Register should have been in free: '')"
| "evict reg (j # js) i active assignments =
     bindR (held assignments j) (\<lambda>j_reg.
     if reg \<noteq> j_reg then evict reg js (i + 1) active assignments
     else if IsPrecolored j then Inl (RuntimeError ''Two precolored intervals conflicting.'')
     else
       bindR (LiveIntervalValue j) (\<lambda>v.
       bindR (update_assignment Spill assignments (uint (GetIdx v))) (\<lambda>assignments.
         Inr (erase_at i active, assignments))))"

definition AddPrecoloredInterval ::
    "(int set \<Rightarrow> int) \<Rightarrow> LiveInterval \<Rightarrow> RegisterAssignment list \<Rightarrow> int set \<Rightarrow> LiveInterval list
     \<Rightarrow> (LiveInterval \<times> RegisterAssignment list \<times> int set \<times> LiveInterval list) res" where
  "AddPrecoloredInterval pick to_add assignments free active =
     (if IsPrecolored to_add then
        bindR (PrecoloredRegister to_add) (\<lambda>reg.
        if reg \<in> free then Inr (to_add, assignments, free - {reg}, active_insert to_add active)
        else
          bindR (evict reg active 0 active assignments) (\<lambda>(active, assignments).
            Inr (to_add, assignments, free, active_insert to_add active)))
      else if free \<noteq> {} then
        let reg = pick free; to_add = ChangeToPrecolored reg to_add in
        Inr (to_add, assignments, free - {reg}, active_insert to_add active)
      else
        bindR (SpillMinCost active free assignments) (\<lambda>(free_reg, active, free, assignments).
        let to_add = ChangeToPrecolored free_reg to_add in
          Inr (to_add, assignments, free - {free_reg}, active_insert to_add active)))"

fun ExpireOldIntervals ::
    "LiveInterval \<Rightarrow> RegisterAssignment list \<Rightarrow> int set \<Rightarrow> LiveInterval list \<Rightarrow> (int set \<times> LiveInterval list) res" where
  "ExpireOldIntervals current assignments free [] = Inr (free, [])"
| "ExpireOldIntervals current assignments free (j # active) =
     (if iend j \<ge> istart current then Inr (free, j # active)
      else bindR (held assignments j) (\<lambda>reg. ExpireOldIntervals current assignments (insert reg free) active))"

definition SpillAtInterval ::
    "(int set \<Rightarrow> int) \<Rightarrow> LiveInterval \<Rightarrow> RegisterAssignment list \<Rightarrow> int set \<Rightarrow> LiveInterval list
     \<Rightarrow> (RegisterAssignment list \<times> int set \<times> LiveInterval list) res" where
  "SpillAtInterval pick cur assignments free active =
     bindR (LiveIntervalValue cur) (\<lambda>v.
     let curr_idx = uint (GetIdx v) in
     if free \<noteq> {} then
       let reg = pick free in
       bindR (update_assignment (SetRegister reg) assignments curr_idx) (\<lambda>assignments.
         Inr (assignments, free - {reg}, active_insert cur active))
     else
       bindR (MaybeSpillMinCost active free assignments cur) (\<lambda>(free_reg, active, free, assignments).
       if free_reg = -1 then
         bindR (update_assignment Spill assignments curr_idx) (\<lambda>assignments. Inr (assignments, free, active))
       else
         bindR (update_assignment (SetRegister free_reg) assignments curr_idx) (\<lambda>assignments.
           Inr (assignments, free - {free_reg}, active_insert cur active))))"

record scan_state =
  assigned :: "RegisterAssignment list"
  free_normal :: "int set"
  active_normal :: "LiveInterval list"
  free_vector :: "int set"
  active_vector :: "LiveInterval list"

definition initial_free_normal :: "int set" where
  "initial_free_normal = {RBX, RCX, RDX, RSI, RDI, R8, R9, R10, R11, R12, R13, R14, R15}"

definition initial_free_vector :: "int set" where
  "initial_free_vector = {M0, M1, M2, M3, M4, M5, M6, M7, M8, M9, M10, M11, M12, M13, M14}"

definition add_normal :: "(int set \<Rightarrow> int) \<Rightarrow> LiveInterval \<Rightarrow> scan_state \<Rightarrow> (LiveInterval \<times> scan_state) res" where
  "add_normal pick i st =
     bindR (AddPrecoloredInterval pick i (assigned st) (free_normal st) (active_normal st)) (\<lambda>(i, a, f, act).
       Inr (i, st\<lparr>assigned := a, free_normal := f, active_normal := act\<rparr>))"

definition add_vector :: "(int set \<Rightarrow> int) \<Rightarrow> LiveInterval \<Rightarrow> scan_state \<Rightarrow> (LiveInterval \<times> scan_state) res" where
  "add_vector pick i st =
     bindR (AddPrecoloredInterval pick i (assigned st) (free_vector st) (active_vector st)) (\<lambda>(i, a, f, act).
       Inr (i, st\<lparr>assigned := a, free_vector := f, active_vector := act\<rparr>))"

definition set_store_register :: "int \<Rightarrow> LiveInterval \<times> scan_state \<Rightarrow> scan_state res" where
  "set_store_register i_instr r =
     (case r of (i, st) \<Rightarrow>
       bindR (PrecoloredRegister i) (\<lambda>reg.
       bindR (update_assignment (SetRegister reg) (assigned st) i_instr) (\<lambda>a. Inr (st\<lparr>assigned := a\<rparr>))))"

text \<open>A comparison whose only use is the branch after it stays in the flags.\<close>

definition flag_step :: "u64 list \<Rightarrow> int \<Rightarrow> LiveInterval \<Rightarrow> int \<Rightarrow> scan_state \<Rightarrow> scan_state res" where
  "flag_step instrs flag i i_instr st =
     (if istart i + 1 = iend i then
        bindR (opcode_at instrs (i_instr + 1)) (\<lambda>opcode.
          if opcode = CONDBR
          then bindR (update_assignment (SetRegister flag) (assigned st) i_instr) (\<lambda>a. Inr (st\<lparr>assigned := a\<rparr>))
          else Inr st)
      else Inr st)"

definition expire_both :: "LiveInterval \<Rightarrow> scan_state \<Rightarrow> scan_state res" where
  "expire_both i st =
     bindR (ExpireOldIntervals i (assigned st) (free_normal st) (active_normal st)) (\<lambda>(fn, an).
     bindR (ExpireOldIntervals i (assigned st) (free_vector st) (active_vector st)) (\<lambda>(fv, av).
       Inr (st\<lparr>free_normal := fn, active_normal := an, free_vector := fv, active_vector := av\<rparr>)))"

definition scan_virtual :: "u64 list \<Rightarrow> (int set \<Rightarrow> int) \<Rightarrow> LiveInterval \<Rightarrow> scan_state \<Rightarrow> scan_state res" where
  "scan_virtual instrs pick i st =
     bindR (LiveIntervalValue i) (\<lambda>v.
     let i_instr = uint (GetIdx v) in
     bindR (opcode_at instrs i_instr) (\<lambda>i_opcode.
     if i_opcode \<in> set [I1_CMP_EQ, I1_CMP_NE, I8_CMP_EQ, I8_CMP_NE, I8_CMP_LT, I8_CMP_LE, I8_CMP_GT,
          I8_CMP_GE, I16_CMP_EQ, I16_CMP_NE, I16_CMP_LT, I16_CMP_LE, I16_CMP_GT, I16_CMP_GE, I32_CMP_EQ,
          I32_CMP_NE, I32_CMP_LT, I32_CMP_LE, I32_CMP_GT, I32_CMP_GE, I64_CMP_EQ, I64_CMP_NE, I64_CMP_LT,
          I64_CMP_LE, I64_CMP_GT, I64_CMP_GE, I32_CMP_EQ_ANY_CONST_VEC4, I32_CMP_EQ_ANY_CONST_VEC8]
     then flag_step instrs IFlag i i_instr st
     else if i_opcode \<in> set [F64_CMP_EQ, F64_CMP_NE, F64_CMP_LT, F64_CMP_LE, F64_CMP_GT, F64_CMP_GE]
     then flag_step instrs FFlag i i_instr st
     else if i_opcode = I32_VEC8_MASK_STORE
     then bindR (add_vector pick i st) (set_store_register i_instr)
     else if i_opcode \<in> set [I8_STORE, I16_STORE, I32_STORE, I64_STORE, PTR_STORE]
     then bindR (add_normal pick i st) (set_store_register i_instr)
     else
       bindR (LiveIntervalType i) (\<lambda>t.
       if IsVector t then
         bindR (SpillAtInterval pick i (assigned st) (free_vector st) (active_vector st)) (\<lambda>(a, f, act).
           Inr (st\<lparr>assigned := a, free_vector := f, active_vector := act\<rparr>))
       else
         bindR (SpillAtInterval pick i (assigned st) (free_normal st) (active_normal st)) (\<lambda>(a, f, act).
           Inr (st\<lparr>assigned := a, free_normal := f, active_normal := act\<rparr>)))))"

definition scan_step :: "u64 list \<Rightarrow> (int set \<Rightarrow> int) \<Rightarrow> scan_state \<Rightarrow> LiveInterval \<Rightarrow> scan_state res" where
  "scan_step instrs pick st i =
     bindR (expire_both i st) (\<lambda>st.
     if IsPrecolored i then
       bindR (PrecoloredRegister i) (\<lambda>reg.
       if IsVRegister reg then bindR (add_vector pick i st) (\<lambda>(i, st). Inr st)
       else if IsGPRegister reg then bindR (add_normal pick i st) (\<lambda>(i, st). Inr st)
       else Inl (RuntimeError ''Invalid precolored register''))
     else scan_virtual instrs pick i st)"

definition scan_intervals :: "u64 list \<Rightarrow> (int set \<Rightarrow> int) \<Rightarrow> LiveInterval list \<Rightarrow> RegisterAssignment list res" where
  "scan_intervals instrs pick live_intervals =
     bindR (foldR (scan_step instrs pick)
        \<lparr>assigned = replicate (length instrs) RegisterAssignmentNew,
         free_normal = initial_free_normal, active_normal = [],
         free_vector = initial_free_vector, active_vector = []\<rparr> live_intervals) (\<lambda>st. Inr (assigned st))"

definition LinearScanRegisterAlloc ::
    "((nat \<Rightarrow> nat) \<Rightarrow> nat list \<Rightarrow> nat list) \<Rightarrow> ((LiveInterval \<Rightarrow> int) \<Rightarrow> LiveInterval list \<Rightarrow> LiveInterval list)
     \<Rightarrow> (int set \<Rightarrow> int) \<Rightarrow> Function \<Rightarrow> bool list \<Rightarrow> RegisterAssignment list ores" where
  "LinearScanRegisterAlloc sort_by sort_intervals pick func gep =
     bindO (ComputeLiveIntervals sort_by func gep) (\<lambda>live_intervals.
       Some (scan_intervals (Instrs func) pick (sort_intervals istart live_intervals)))"

section \<open>Everything on the stack\<close>

definition StackSpillingRegisterAlloc :: "u64 list \<Rightarrow> RegisterAssignment list" where
  "StackSpillingRegisterAlloc instrs =
     map (\<lambda>instr. let opcode = OpcodeFrom (GenericOpcode instr) in
            if opcode \<in> set [I8_STORE, I16_STORE, I32_STORE, I64_STORE, PTR_STORE]
            then SetRegister R15 RegisterAssignmentNew
            else if opcode = I32_VEC8_MASK_STORE then SetRegister M14 RegisterAssignmentNew
            else RegisterAssignmentNew) instrs"

datatype RegAllocImpl = STACK_SPILL | LINEAR_SCAN

definition GetRegAllocImpl :: "string \<Rightarrow> RegAllocImpl res" where
  "GetRegAllocImpl flag =
     (if flag = ''stack_spill'' then Inr STACK_SPILL
      else if flag = ''linear_scan'' then Inr LINEAR_SCAN
      else Inl (RuntimeError ''Unknown reg alloc impl.''))"

end
