(* ===== verification/KhirRegAllocCorrect.thy ===== *)
theory KhirRegAllocCorrect
  imports KhirRegAlloc
begin

text \<open>
  Safety of the linear scan: whenever it returns, two intervals that share a general or vector
  register do not overlap. The invariant relates the active lists to the positions of the
  intervals already handled.
\<close>

section \<open>Registers of the handled intervals\<close>

definition idx_of :: "LiveInterval \<Rightarrow> int" where
  "idx_of l = uint (GetIdx (iv_value l))"

definition regof :: "LiveInterval list \<Rightarrow> RegisterAssignment list \<Rightarrow> nat \<Rightarrow> int" where
  "regof ivs asg a =
     (if IsPrecolored (ivs ! a) then iv_register (ivs ! a) else ra_register (asg ! nat (idx_of (ivs ! a))))"

text \<open>The intervals given to the scan: in order of their starts, one per value.\<close>

definition ivs_ok :: "LiveInterval list \<Rightarrow> bool" where
  "ivs_ok ivs \<longleftrightarrow> sorted (map istart ivs)
     \<and> (\<forall>a<length ivs. \<forall>b<length ivs. a \<noteq> b \<longrightarrow> \<not> IsPrecolored (ivs ! a) \<longrightarrow> \<not> IsPrecolored (ivs ! b)
          \<longrightarrow> idx_of (ivs ! a) \<noteq> idx_of (ivs ! b))"

text \<open>An element of an active list belongs to a handled interval.\<close>

definition belongs :: "LiveInterval list \<Rightarrow> RegisterAssignment list \<Rightarrow> nat \<Rightarrow> LiveInterval \<Rightarrow> bool" where
  "belongs ivs asg a l \<longleftrightarrow> iend l = iend (ivs ! a)
     \<and> (if IsPrecolored l then iv_register l = regof ivs asg a else l = ivs ! a)"

lemma idx_of_nonneg [simp]: "0 \<le> idx_of l"
  by (simp add: idx_of_def)

lemma held_regof: "held asg l = Inr r \<Longrightarrow> belongs ivs asg a l \<Longrightarrow> r = regof ivs asg a"
  by (auto simp: held_def belongs_def PrecoloredRegister_def assignment_of_def LiveIntervalValue_def
      bindR_Inr_iff nthI_Inr_iff regof_def idx_of_def split: if_splits)

definition cls_inv ::
    "int set \<Rightarrow> LiveInterval list \<Rightarrow> RegisterAssignment list \<Rightarrow> nat \<Rightarrow> int set \<Rightarrow> (nat \<times> LiveInterval) list \<Rightarrow> bool" where
  "cls_inv P ivs asg k free G \<longleftrightarrow>
     sorted (map (iend \<circ> snd) G) \<and> distinct (map (regof ivs asg \<circ> fst) G) \<and> free \<subseteq> P
     \<and> (\<forall>(a, l)\<in>set G. a < k \<and> belongs ivs asg a l \<and> regof ivs asg a \<in> P \<and> regof ivs asg a \<notin> free)"

lemma cls_invD:
  assumes "cls_inv P ivs asg k free G"
  shows "sorted (map (iend \<circ> snd) G)" "distinct (map (regof ivs asg \<circ> fst) G)" "free \<subseteq> P"
    "\<And>a l. (a, l) \<in> set G \<Longrightarrow> a < k" "\<And>a l. (a, l) \<in> set G \<Longrightarrow> belongs ivs asg a l"
    "\<And>a l. (a, l) \<in> set G \<Longrightarrow> regof ivs asg a \<in> P" "\<And>a l. (a, l) \<in> set G \<Longrightarrow> regof ivs asg a \<notin> free"
  using assms unfolding cls_inv_def by auto

lemma cls_invI:
  assumes "sorted (map (iend \<circ> snd) G)" "distinct (map (regof ivs asg \<circ> fst) G)" "free \<subseteq> P"
    "\<And>a l. (a, l) \<in> set G \<Longrightarrow> a < k \<and> belongs ivs asg a l \<and> regof ivs asg a \<in> P \<and> regof ivs asg a \<notin> free"
  shows "cls_inv P ivs asg k free G"
  using assms unfolding cls_inv_def by auto

section \<open>Expiry\<close>

lemma expire_inv:
  assumes "ExpireOldIntervals cur asg free (map snd G) = Inr (free', act')" "cls_inv P ivs asg k free G"
  shows "\<exists>G'. act' = map snd G' \<and> cls_inv P ivs asg k free' G' \<and> set G' \<subseteq> set G
    \<and> (\<forall>x\<in>set G - set G'. iend (snd x) < istart cur)"
  using assms
proof (induction G arbitrary: free)
  case Nil
  then show ?case by (intro exI [of _ "[]"]) auto
next
  case (Cons x G)
  obtain a l where x: "x = (a, l)" by (cases x)
  note d = cls_invD [OF Cons.prems(2)]
  show ?case
  proof (cases "iend l \<ge> istart cur")
    case True
    then show ?thesis using Cons.prems x by (intro exI [of _ "x # G"]) auto
  next
    case False
    then obtain r where r: "held asg l = Inr r" "ExpireOldIntervals cur asg (insert r free) (map snd G) = Inr (free', act')"
      using Cons.prems(1) x by (auto elim: bindR_InrE)
    have ra: "r = regof ivs asg a" using held_regof [OF r(1) d(5)] x by simp
    have "cls_inv P ivs asg k (insert r free) G"
    proof (rule cls_invI)
      show "insert r free \<subseteq> P" using d(3) d(6) [of a l] ra x by simp
    next
      fix a' l' assume m: "(a', l') \<in> set G"
      then have "regof ivs asg a' \<noteq> r" using d(2) ra x by force
      then show "a' < k \<and> belongs ivs asg a' l' \<and> regof ivs asg a' \<in> P \<and> regof ivs asg a' \<notin> insert r free"
        using d(4-7) [of a' l'] m by simp
    qed (use d(1,2) in simp_all)
    from Cons.IH [OF r(2) this] obtain G' where
      G': "act' = map snd G'" "cls_inv P ivs asg k free' G'" "set G' \<subseteq> set G" "\<forall>x\<in>set G - set G'. iend (snd x) < istart cur" by blast
    then have "\<forall>y\<in>set (x # G) - set G'. iend (snd y) < istart cur" using False x by auto
    with G' show ?thesis by (intro exI [of _ G']) auto
  qed
qed

section \<open>Adding and spilling one interval\<close>

definition ghost_insert :: "nat \<Rightarrow> LiveInterval \<Rightarrow> (nat \<times> LiveInterval) list \<Rightarrow> (nat \<times> LiveInterval) list" where
  "ghost_insert k l G = takeWhile (\<lambda>x. iend (snd x) \<le> iend l) G @ (k, l) # dropWhile (\<lambda>x. iend (snd x) \<le> iend l) G"

lemma ghost_insert_snd: "map snd (ghost_insert k l G) = active_insert l (map snd G)"
  by (simp add: ghost_insert_def active_insert_def takeWhile_map dropWhile_map comp_def)

lemma ghost_insert_set: "set (ghost_insert k l G) = insert (k, l) (set G)"
  by (metis (no_types, lifting) ghost_insert_def Un_insert_right list.simps(15) set_append takeWhile_dropWhile_id)

lemma sorted_ghost_insert:
  assumes "sorted (map (iend \<circ> snd) G)"
  shows "sorted (map (iend \<circ> snd) (ghost_insert k l G))"
proof -
  let ?P = "\<lambda>x. iend (snd x) \<le> iend l"
  have "sorted (map (iend \<circ> snd) (takeWhile ?P G) @ map (iend \<circ> snd) (dropWhile ?P G))"
    using assms by (metis map_append takeWhile_dropWhile_id)
  then have s: "sorted (map (iend \<circ> snd) (takeWhile ?P G))" "sorted (map (iend \<circ> snd) (dropWhile ?P G))"
    "\<forall>x\<in>set (takeWhile ?P G). \<forall>y\<in>set (dropWhile ?P G). iend (snd x) \<le> iend (snd y)"
    unfolding sorted_append by auto
  have "iend l \<le> iend (snd y)" if y: "y \<in> set (dropWhile ?P G)" for y
  proof -
    obtain z zs where z: "dropWhile ?P G = z # zs" using length_pos_if_in_set [OF y] by (metis length_greater_0_conv neq_Nil_conv)
    then have "\<not> ?P z" by (metis hd_dropWhile list.sel(1) list.distinct(1))
    moreover have "iend (snd z) \<le> iend (snd y)" using s(2) y z by auto
    ultimately show ?thesis by simp
  qed
  moreover have "iend (snd x) \<le> iend l" if "x \<in> set (takeWhile ?P G)" for x using set_takeWhileD [OF that] by simp
  ultimately show ?thesis using s by (simp add: ghost_insert_def sorted_append)
qed

lemma distinct_ghost_insert: "distinct (map f (ghost_insert k l G)) \<longleftrightarrow> distinct (f (k, l) # map f G)"
proof -
  let ?P = "\<lambda>x. iend (snd x) \<le> iend l"
  have "map f G = map f (takeWhile ?P G) @ map f (dropWhile ?P G)" by (metis map_append takeWhile_dropWhile_id)
  then show ?thesis by (auto simp: ghost_insert_def)
qed

text \<open>The next interval takes a register that nothing in its class holds.\<close>

lemma cls_add:
  assumes inv: "cls_inv P ivs asg k free G" and r: "r \<in> P" "r \<notin> free" "r \<notin> (regof ivs asg \<circ> fst) ` set G"
    and keep: "\<forall>a<k. regof ivs asg' a = regof ivs asg a" and new: "regof ivs asg' k = r" "belongs ivs asg' k l"
  shows "cls_inv P ivs asg' (Suc k) free (ghost_insert k l G)"
proof -
  note d = cls_invD [OF inv]
  have eq: "map (regof ivs asg' \<circ> fst) G = map (regof ivs asg \<circ> fst) G" using keep d(4) by force
  show ?thesis
  proof (rule cls_invI)
    show "sorted (map (iend \<circ> snd) (ghost_insert k l G))" by (rule sorted_ghost_insert [OF d(1)])
    show "distinct (map (regof ivs asg' \<circ> fst) (ghost_insert k l G))"
      using d(2) r(3) new(1) unfolding distinct_ghost_insert eq by (metis comp_apply distinct.simps(2) fst_conv image_set)
    show "free \<subseteq> P" by (rule d(3))
  next
    fix a m assume "(a, m) \<in> set (ghost_insert k l G)"
    then consider "a = k" "m = l" | "(a, m) \<in> set G" by (auto simp: ghost_insert_set)
    then show "a < Suc k \<and> belongs ivs asg' a m \<and> regof ivs asg' a \<in> P \<and> regof ivs asg' a \<notin> free"
    proof cases
      case 1
      then show ?thesis using r(1,2) new by simp
    next
      case 2
      then have "regof ivs asg' a = regof ivs asg a" using keep d(4) by blast
      then show ?thesis using d(4-7) [OF 2] by (simp add: belongs_def)
    qed
  qed
qed

lemma cls_take:
  assumes "cls_inv P ivs asg k free G" "r \<in> free"
  shows "cls_inv P ivs asg k (free - {r}) G" "r \<in> P" "r \<notin> (regof ivs asg \<circ> fst) ` set G"
proof -
  note d = cls_invD [OF assms(1)]
  show "cls_inv P ivs asg k (free - {r}) G" by (rule cls_invI) (use d in auto)
  show "r \<in> P" using d(3) assms(2) by blast
  show "r \<notin> (regof ivs asg \<circ> fst) ` set G" using d(7) assms(2) by auto
qed

lemma spilled:
  assumes "update_assignment Spill asg i = Inr asg'"
  shows "asg' = asg[nat i := Spill (asg ! nat i)]" "nat i < length asg" "0 \<le> i"
  using assms by (auto simp: update_assignment_def bindR_Inr_iff nthI_Inr_iff)

lemma regof_update:
  assumes ok: "ivs_ok ivs" and a: "a < length ivs" "\<not> IsPrecolored (ivs ! a)"
    and upd: "asg' = asg[nat (idx_of (ivs ! a)) := x]" "nat (idx_of (ivs ! a)) < length asg"
  shows "regof ivs asg' a = ra_register x" "\<And>b. b < length ivs \<Longrightarrow> b \<noteq> a \<Longrightarrow> regof ivs asg' b = regof ivs asg b"
proof -
  show "regof ivs asg' a = ra_register x" using a upd by (simp add: regof_def)
  fix b assume b: "b < length ivs" "b \<noteq> a"
  show "regof ivs asg' b = regof ivs asg b"
  proof (cases "IsPrecolored (ivs ! b)")
    case False
    then have "idx_of (ivs ! b) \<noteq> idx_of (ivs ! a)" using ok a b unfolding ivs_ok_def by blast
    then have "nat (idx_of (ivs ! b)) \<noteq> nat (idx_of (ivs ! a))" by (simp add: eq_nat_nat_iff)
    then show ?thesis using False upd by (simp add: regof_def)
  qed (simp add: regof_def)
qed

lemma cls_spill:
  assumes ok: "ivs_ok ivs" "k \<le> length ivs" and inv: "cls_inv P ivs asg k free G"
    and i: "i < length G" "G ! i = (a, l)" "\<not> IsPrecolored l"
    and upd: "update_assignment Spill asg (uint (GetIdx (iv_value l))) = Inr asg'"
  shows "cls_inv P ivs asg' k free (erase_at i G)" "regof ivs asg' a = -1"
    "\<And>b. b < length ivs \<Longrightarrow> b \<noteq> a \<Longrightarrow> regof ivs asg' b = regof ivs asg b"
    "regof ivs asg a \<in> P" "regof ivs asg a \<notin> free" "regof ivs asg a \<notin> (regof ivs asg' \<circ> fst) ` set (erase_at i G)"
    "a \<in> fst ` set G" "fst ` set (erase_at i G) = fst ` set G - {a}"
proof -
  note d = cls_invD [OF inv]
  have mem: "(a, l) \<in> set G" using i by (metis nth_mem)
  have la: "l = ivs ! a" using d(5) [OF mem] i(3) by (simp add: belongs_def)
  have a: "a < length ivs" using d(4) [OF mem] ok(2) by simp
  have upd': "asg' = asg[nat (idx_of (ivs ! a)) := Spill (asg ! nat (idx_of (ivs ! a)))]" "nat (idx_of (ivs ! a)) < length asg"
    using spilled [OF upd] la by (simp_all add: idx_of_def)
  have va: "\<not> IsPrecolored (ivs ! a)" using i(3) la by simp
  note ru = regof_update [OF ok(1) a va upd']
  show spill: "regof ivs asg' a = -1" using ru(1) by (simp add: Spill_def)
  show other: "\<And>b. b < length ivs \<Longrightarrow> b \<noteq> a \<Longrightarrow> regof ivs asg' b = regof ivs asg b" using ru(2) by blast
  have split: "G = take i G @ (a, l) # drop (Suc i) G" using i by (metis id_take_nth_drop)
  let ?E = "erase_at i G"
  have dist: "distinct (map (regof ivs asg \<circ> fst) (take i G @ (a, l) # drop (Suc i) G))" using d(2) split by metis
  then have ne: "regof ivs asg b \<noteq> regof ivs asg a" if "(b, m) \<in> set ?E" for b m
    using that by (force simp: erase_at_def)
  then have nea: "b \<noteq> a" if "(b, m) \<in> set ?E" for b m using that by blast
  have sub: "set ?E \<subseteq> set G" using set_take_subset set_drop_subset by (auto simp: erase_at_def dest: in_set_takeD in_set_dropD)
  have same: "regof ivs asg' b = regof ivs asg b" if "(b, m) \<in> set ?E" for b m
    using other nea [OF that] d(4) sub that ok(2) by (meson less_le_trans subsetD)
  have eq: "map (regof ivs asg' \<circ> fst) ?E = map (regof ivs asg \<circ> fst) ?E" using same by force
  show "cls_inv P ivs asg' k free ?E"
  proof (rule cls_invI)
    have "sorted (map (iend \<circ> snd) (take i G @ (a, l) # drop (Suc i) G))" using d(1) split by metis
    then show "sorted (map (iend \<circ> snd) ?E)" by (auto simp: erase_at_def sorted_append)
    show "distinct (map (regof ivs asg' \<circ> fst) ?E)" unfolding eq using dist by (auto simp: erase_at_def)
    show "free \<subseteq> P" by (rule d(3))
  next
    fix b m assume bm: "(b, m) \<in> set ?E"
    then have G: "(b, m) \<in> set G" using sub by blast
    show "b < k \<and> belongs ivs asg' b m \<and> regof ivs asg' b \<in> P \<and> regof ivs asg' b \<notin> free"
      using d(4-7) [OF G] same [OF bm] by (simp add: belongs_def)
  qed
  show "regof ivs asg a \<in> P" "regof ivs asg a \<notin> free" using d(6,7) [OF mem] .
  show "regof ivs asg a \<notin> (regof ivs asg' \<circ> fst) ` set ?E" using ne same by force
  show "a \<in> fst ` set G" using mem by force
  have "fst ` set G = insert a (fst ` set ?E)" by (subst split) (auto simp: erase_at_def)
  moreover have "a \<notin> fst ` set ?E" using nea by (metis imageE prod.collapse)
  ultimately show "fst ` set ?E = fst ` set G - {a}" by blast
qed

section \<open>What an operation does to one class of registers\<close>

text \<open>Only the assignments of values that have an interval change.\<close>

definition untouched :: "LiveInterval list \<Rightarrow> RegisterAssignment list \<Rightarrow> RegisterAssignment list \<Rightarrow> bool" where
  "untouched ivs asg asg' \<longleftrightarrow> (\<forall>j. (\<forall>a<length ivs. \<not> IsPrecolored (ivs ! a) \<longrightarrow> nat (idx_of (ivs ! a)) \<noteq> j) \<longrightarrow> asg' ! j = asg ! j)"

lemma untouched_refl: "untouched ivs asg asg"
  by (simp add: untouched_def)

lemma untouched_trans: "untouched ivs asg asg1 \<Longrightarrow> untouched ivs asg1 asg2 \<Longrightarrow> untouched ivs asg asg2"
  by (simp add: untouched_def)

lemma untouched_update:
  "a < length ivs \<Longrightarrow> \<not> IsPrecolored (ivs ! a) \<Longrightarrow> untouched ivs asg (asg[nat (idx_of (ivs ! a)) := x])"
  by (auto simp: untouched_def)

text \<open>Between the state before an operation and the moment the next interval is added.\<close>

definition cls_mid ::
    "LiveInterval list \<Rightarrow> RegisterAssignment list \<Rightarrow> (nat \<times> LiveInterval) list \<Rightarrow> RegisterAssignment list
     \<Rightarrow> (nat \<times> LiveInterval) list \<Rightarrow> bool" where
  "cls_mid ivs asg G asg' G' \<longleftrightarrow> length asg' = length asg \<and> untouched ivs asg asg' \<and> fst ` set G' \<subseteq> fst ` set G
     \<and> (\<forall>b<length ivs. b \<notin> fst ` set G \<longrightarrow> regof ivs asg' b = regof ivs asg b)
     \<and> (\<forall>b\<in>fst ` set G. b \<in> fst ` set G' \<and> regof ivs asg' b = regof ivs asg b \<or> regof ivs asg' b = -1)"

definition cls_step ::
    "int set \<Rightarrow> LiveInterval list \<Rightarrow> nat \<Rightarrow> RegisterAssignment list \<Rightarrow> (nat \<times> LiveInterval) list
     \<Rightarrow> RegisterAssignment list \<Rightarrow> int set \<Rightarrow> (nat \<times> LiveInterval) list \<Rightarrow> bool" where
  "cls_step P ivs k asg G asg' free' G' \<longleftrightarrow>
     cls_inv P ivs asg' (Suc k) free' G' \<and> length asg' = length asg \<and> untouched ivs asg asg'
     \<and> (\<forall>b<length ivs. b \<notin> fst ` set G \<longrightarrow> b \<noteq> k \<longrightarrow> regof ivs asg' b = regof ivs asg b)
     \<and> (\<forall>b\<in>fst ` set G. b \<in> fst ` set G' \<and> regof ivs asg' b = regof ivs asg b \<or> regof ivs asg' b = -1)
     \<and> (0 \<le> regof ivs asg' k \<and> regof ivs asg' k < 100 \<longrightarrow> k \<in> fst ` set G')"

lemma cls_mid_refl: "cls_mid ivs asg G asg G"
  by (simp add: cls_mid_def untouched_refl)

lemma cls_step_add:
  assumes ok: "k < length ivs" and inv: "cls_inv P ivs asg k free G" and mid: "cls_mid ivs asg G asg1 G1"
    and inv1: "cls_inv P ivs asg1 k free1 G1" and r: "r \<in> P" "r \<notin> free1" "r \<notin> (regof ivs asg1 \<circ> fst) ` set G1"
    and keep: "\<forall>b<length ivs. b \<noteq> k \<longrightarrow> regof ivs asg2 b = regof ivs asg1 b" "length asg2 = length asg1" "untouched ivs asg1 asg2"
    and new: "regof ivs asg2 k = r" "belongs ivs asg2 k l"
  shows "cls_step P ivs k asg G asg2 free1 (ghost_insert k l G1)"
proof -
  note d = cls_invD [OF inv]
  have G: "b < length ivs \<and> b \<noteq> k" if "b \<in> fst ` set G" for b using that d(4) ok by fastforce
  have "cls_inv P ivs asg2 (Suc k) free1 (ghost_insert k l G1)"
    by (rule cls_add [OF inv1 r _ new]) (use keep(1) ok in auto)
  moreover have "\<forall>b<length ivs. b \<notin> fst ` set G \<longrightarrow> b \<noteq> k \<longrightarrow> regof ivs asg2 b = regof ivs asg b"
    using mid keep(1) by (simp add: cls_mid_def)
  moreover have "\<forall>b\<in>fst ` set G. b \<in> fst ` set (ghost_insert k l G1) \<and> regof ivs asg2 b = regof ivs asg b \<or> regof ivs asg2 b = -1"
  proof
    fix b assume b: "b \<in> fst ` set G"
    then have "regof ivs asg2 b = regof ivs asg1 b" using G keep(1) by blast
    moreover have "b \<in> fst ` set G1 \<and> regof ivs asg1 b = regof ivs asg b \<or> regof ivs asg1 b = -1"
      using mid b unfolding cls_mid_def by blast
    moreover have "fst ` set G1 \<subseteq> fst ` set (ghost_insert k l G1)" by (auto simp: ghost_insert_set)
    ultimately show "b \<in> fst ` set (ghost_insert k l G1) \<and> regof ivs asg2 b = regof ivs asg b \<or> regof ivs asg2 b = -1" by auto
  qed
  moreover have "k \<in> fst ` set (ghost_insert k l G1)" by (simp add: ghost_insert_set)
  moreover have "length asg2 = length asg" "untouched ivs asg asg2"
    using mid keep(2,3) untouched_trans by (auto simp: cls_mid_def)
  ultimately show ?thesis unfolding cls_step_def by blast
qed

text \<open>The next interval gets no register of the pools.\<close>

lemma cls_step_none:
  assumes "k < length ivs" "cls_inv P ivs asg k free G" "length asg' = length asg \<and> untouched ivs asg asg'"
    "\<forall>b<length ivs. b \<noteq> k \<longrightarrow> regof ivs asg' b = regof ivs asg b" "regof ivs asg' k < 0 \<or> 100 \<le> regof ivs asg' k"
  shows "cls_step P ivs k asg G asg' free G"
proof -
  note d = cls_invD [OF assms(2)]
  have same: "regof ivs asg' b = regof ivs asg b" if "(b, m) \<in> set G" for b m
    using d(4) [OF that] assms(1,4) by simp
  then have eq: "map (regof ivs asg' \<circ> fst) G = map (regof ivs asg \<circ> fst) G" by force
  have "cls_inv P ivs asg' (Suc k) free G"
  proof (rule cls_invI)
    show "distinct (map (regof ivs asg' \<circ> fst) G)" unfolding eq by (rule d(2))
    fix b m assume bm: "(b, m) \<in> set G"
    show "b < Suc k \<and> belongs ivs asg' b m \<and> regof ivs asg' b \<in> P \<and> regof ivs asg' b \<notin> free"
      using d(4-7) [OF bm] same [OF bm] by (simp add: belongs_def)
  qed (rule d(1), rule d(3))
  moreover have "\<forall>b\<in>fst ` set G. b \<in> fst ` set G \<and> regof ivs asg' b = regof ivs asg b" using same by force
  ultimately show ?thesis using assms(3-5) unfolding cls_step_def by auto
qed

text \<open>Spilling one interval of the class.\<close>

lemma spill_mid:
  assumes ok: "ivs_ok ivs" "k \<le> length ivs" and inv: "cls_inv P ivs asg k free G"
    and i: "i < length G" "G ! i = (a, l)" "\<not> IsPrecolored l"
    and upd: "update_assignment Spill asg (uint (GetIdx (iv_value l))) = Inr asg'"
  shows "cls_mid ivs asg G asg' (erase_at i G)"
proof -
  note c = cls_spill [OF assms]
  have mem: "(a, l) \<in> set G" using i by (metis nth_mem)
  have la: "l = ivs ! a" "a < length ivs" using cls_invD(4,5) [OF inv mem] i(3) ok(2) by (auto simp: belongs_def)
  have len: "length asg' = length asg" using spilled [OF upd] by simp
  have unt: "untouched ivs asg asg'"
    using spilled(1) [OF upd] untouched_update [OF la(2)] i(3) la(1) by (simp add: idx_of_def)
  have "regof ivs asg' b = regof ivs asg b" if "b < length ivs" "b \<notin> fst ` set G" for b
    using c(3) c(7) that by blast
  moreover have "b \<in> fst ` set (erase_at i G) \<and> regof ivs asg' b = regof ivs asg b \<or> regof ivs asg' b = -1"
    if b: "b \<in> fst ` set G" for b
  proof (cases "b = a")
    case False
    have "b < length ivs" using b cls_invD(4) [OF inv] ok(2) by fastforce
    then show ?thesis using c(3,8) False b by blast
  qed (simp add: c(2))
  ultimately show ?thesis using len unt c(8) unfolding cls_mid_def by blast
qed

lemma erase_at_map: "erase_at i (map f xs) = map f (erase_at i xs)"
  by (simp add: erase_at_def take_map drop_map)

lemma spill_at_mid:
  assumes ok: "ivs_ok ivs" "k \<le> length ivs" and inv: "cls_inv P ivs asg k free G"
    and run: "spill_at i (map snd G) free asg = Inr (r, act', free', asg')" and i: "i < length G"
  obtains G1 where "act' = map snd G1" "free' = insert r free" "cls_mid ivs asg G asg' G1"
    "cls_inv P ivs asg' k free G1" "r \<in> P" "r \<notin> free" "r \<notin> (regof ivs asg' \<circ> fst) ` set G1"
proof -
  obtain a l where al: "G ! i = (a, l)" by (cases "G ! i")
  have np: "\<not> IsPrecolored l" and x: "assignment_of asg l = Inr x \<Longrightarrow> r = ra_register x" for x
    using run i al by (auto simp: spill_at_def assignment_of_def LiveIntervalValue_def bindR_Inr_iff split: if_splits)
  obtain x where ax: "assignment_of asg l = Inr x" and upd: "update_assignment Spill asg (uint (GetIdx (iv_value l))) = Inr asg'"
    and out: "r = ra_register x" "act' = erase_at i (map snd G)" "free' = insert r free"
    using run i al np by (auto simp: spill_at_def LiveIntervalValue_def bindR_Inr_iff)
  have mem: "(a, l) \<in> set G" using i al by (metis nth_mem)
  have "held asg l = Inr r" using ax out(1) np by (simp add: held_def)
  then have r: "r = regof ivs asg a" by (rule held_regof [OF _ cls_invD(5) [OF inv mem]])
  note c = cls_spill [OF ok inv i al np upd]
  show thesis
    using that [of "erase_at i G"] out(2,3) spill_mid [OF ok inv i al np upd] c(1,4-6) r by (simp add: erase_at_map)
qed

lemma evict_mid:
  assumes ok: "ivs_ok ivs" "k \<le> length ivs" and inv: "cls_inv P ivs asg k free G"
    and run: "evict reg (map snd G) 0 (map snd G) asg = Inr (act', asg')"
  obtains G1 where "act' = map snd G1" "cls_mid ivs asg G asg' G1"
    "cls_inv P ivs asg' k free G1" "reg \<in> P" "reg \<notin> free" "reg \<notin> (regof ivs asg' \<circ> fst) ` set G1"
proof -
  have find: "\<exists>i<length xs. held asg (xs ! i) = Inr reg \<and> \<not> IsPrecolored (xs ! i) \<and> act' = erase_at (n + i) act
      \<and> update_assignment Spill asg (uint (GetIdx (iv_value (xs ! i)))) = Inr asg'"
    if "evict reg xs n act asg = Inr (act', asg')" for xs n act
    using that
  proof (induction xs arbitrary: n)
    case (Cons j js)
    then obtain jr where jr: "held asg j = Inr jr" by (auto elim: bindR_InrE)
    show ?case
    proof (cases "reg = jr")
      case True
      then show ?thesis using Cons.prems jr by (intro exI [of _ 0]) (auto simp: LiveIntervalValue_def bindR_Inr_iff split: if_splits)
    next
      case False
      then have "evict reg js (n + 1) act asg = Inr (act', asg')" using Cons.prems jr by simp
      from Cons.IH [OF this] obtain i where "i < length js" "held asg (js ! i) = Inr reg" "\<not> IsPrecolored (js ! i)"
        "act' = erase_at (n + 1 + i) act" "update_assignment Spill asg (uint (GetIdx (iv_value (js ! i)))) = Inr asg'" by blast
      then show ?thesis by (intro exI [of _ "Suc i"]) simp
    qed
  qed simp
  from find [OF run] obtain i where i: "i < length G" "held asg (snd (G ! i)) = Inr reg" "\<not> IsPrecolored (snd (G ! i))"
    "act' = erase_at i (map snd G)" "update_assignment Spill asg (uint (GetIdx (iv_value (snd (G ! i))))) = Inr asg'" by auto
  obtain a l where al: "G ! i = (a, l)" by (cases "G ! i")
  have mem: "(a, l) \<in> set G" using i(1) al by (metis nth_mem)
  have np: "\<not> IsPrecolored l" and upd: "update_assignment Spill asg (uint (GetIdx (iv_value l))) = Inr asg'" using i al by simp_all
  have r: "reg = regof ivs asg a" using held_regof [OF _ cls_invD(5) [OF inv mem]] i(2) al by simp
  note c = cls_spill [OF ok inv i(1) al np upd]
  show thesis
    using that [of "erase_at i G"] i(4) spill_mid [OF ok inv i(1) al np upd] c(1,4-6) r by (simp add: erase_at_map)
qed

lemma scan_position: "spill_scan ls n best = Some (i, c) \<Longrightarrow> (\<exists>c. best = Some (i, c)) \<or> n \<le> i \<and> i < n + length ls"
proof (induction ls arbitrary: n best)
  case (Cons l ls)
  from Cons.IH [OF Cons.prems [unfolded spill_scan.simps]] show ?case by (auto split: if_splits option.splits)
qed simp

lemma maybe_scan_position: "maybe_spill_scan ls n c best = Some i \<Longrightarrow> best = Some i \<or> n \<le> i \<and> i < n + length ls"
proof (induction ls arbitrary: n c best)
  case (Cons l ls)
  from Cons.prems consider c' best' where "maybe_spill_scan ls (n + 1) c' best' = Some i" "best' = best \<or> best' = Some n"
    by (auto split: if_splits)
  then show ?case using Cons.IH by cases fastforce
qed simp

lemma SpillMinCost_mid:
  assumes "ivs_ok ivs" "k \<le> length ivs" "cls_inv P ivs asg k free G"
    "SpillMinCost (map snd G) free asg = Inr (r, act', free', asg')"
  obtains G1 where "act' = map snd G1" "free' = insert r free" "cls_mid ivs asg G asg' G1"
    "cls_inv P ivs asg' k free G1" "r \<in> P" "r \<notin> free" "r \<notin> (regof ivs asg' \<circ> fst) ` set G1"
proof -
  obtain i c where i: "spill_scan (map snd G) 0 None = Some (i, c)" "spill_at i (map snd G) free asg = Inr (r, act', free', asg')"
    using assms(4) by (auto simp: SpillMinCost_def split: if_splits option.splits)
  have "i < length G" using scan_position [OF i(1)] by simp
  from spill_at_mid [OF assms(1-3) i(2) this] show thesis using that by blast
qed

section \<open>The operations\<close>

lemma pools:
  "initial_free_normal \<inter> initial_free_vector = {}"
  "r \<in> initial_free_normal \<union> initial_free_vector \<Longrightarrow> 0 \<le> r \<and> r < 100"
  by (auto simp: initial_free_normal_def initial_free_vector_def)

lemma pick_free:
  assumes "\<And>S. finite S \<Longrightarrow> S \<noteq> {} \<Longrightarrow> pick S \<in> S" "\<And>r. r \<in> P \<Longrightarrow> 0 \<le> r \<and> r < (100 :: int)"
    "cls_inv P ivs asg k free G" "free \<noteq> {}"
  shows "pick free \<in> free"
proof (rule assms(1))
  have "free \<subseteq> {0..<100}" using cls_invD(3) [OF assms(3)] assms(2) by fastforce
  then show "finite free" by (rule finite_subset) simp
qed (rule assms(4))

lemma set_register:
  assumes "update_assignment (SetRegister r) asg i = Inr asg'"
  shows "asg' = asg[nat i := SetRegister r (asg ! nat i)]" "nat i < length asg" "0 \<le> i"
  using assms by (auto simp: update_assignment_def bindR_Inr_iff nthI_Inr_iff)

lemma regof_set:
  assumes "ivs_ok ivs" "k < length ivs" "\<not> IsPrecolored (ivs ! k)"
    "update_assignment (SetRegister r) asg (idx_of (ivs ! k)) = Inr asg'"
  shows "regof ivs asg' k = r" "\<forall>b<length ivs. b \<noteq> k \<longrightarrow> regof ivs asg' b = regof ivs asg b" "length asg' = length asg"
    "untouched ivs asg asg'"
proof -
  note u = set_register [OF assms(4)]
  note r = regof_update [OF assms(1-3) u(1,2)]
  show "regof ivs asg' k = r" using r(1) by (simp add: SetRegister_def)
  show "\<forall>b<length ivs. b \<noteq> k \<longrightarrow> regof ivs asg' b = regof ivs asg b" using r(2) by blast
  show "length asg' = length asg" using u(1) by simp
  show "untouched ivs asg asg'" using u(1) untouched_update [OF assms(2,3)] by simp
qed

lemma AddPrecolored_fixed:
  assumes ok: "ivs_ok ivs" "k < length ivs" and inv: "cls_inv P ivs asg k free G" and pre: "IsPrecolored (ivs ! k)"
    and run: "AddPrecoloredInterval pick (ivs ! k) asg free (map snd G) = Inr (i, asg', free', act')"
  shows "\<exists>G'. act' = map snd G' \<and> cls_step P ivs k asg G asg' free' G'"
proof -
  let ?r = "iv_register (ivs ! k)"
  have reg: "PrecoloredRegister (ivs ! k) = Inr ?r" using pre by (simp add: PrecoloredRegister_def)
  have new: "regof ivs asg' k = ?r" "belongs ivs asg' k (ivs ! k)" using pre by (simp_all add: regof_def belongs_def)
  show ?thesis
  proof (cases "?r \<in> free")
    case True
    then have out: "asg' = asg" "free' = free - {?r}" "act' = active_insert (ivs ! k) (map snd G)"
      using run pre reg by (auto simp: AddPrecoloredInterval_def)
    note t = cls_take [OF inv True]
    have "cls_step P ivs k asg G asg' free' (ghost_insert k (ivs ! k) G)"
      by (rule cls_step_add [OF ok(2) inv _ _ t(2) _ _ _ _ _ new]) (use t out cls_mid_refl untouched_refl in auto)
    then show ?thesis using out(3) ghost_insert_snd by metis
  next
    case False
    then obtain act1 where e: "evict ?r (map snd G) 0 (map snd G) asg = Inr (act1, asg')"
      and out: "free' = free" "act' = active_insert (ivs ! k) act1"
      using run pre reg by (auto simp: AddPrecoloredInterval_def elim!: bindR_InrE split: prod.splits)
    from evict_mid [OF ok(1) less_imp_le [OF ok(2)] inv e] obtain G1 where
      G1: "act1 = map snd G1" "cls_mid ivs asg G asg' G1" "cls_inv P ivs asg' k free G1" "?r \<in> P" "?r \<notin> free"
        "?r \<notin> (regof ivs asg' \<circ> fst) ` set G1" by blast
    have "cls_step P ivs k asg G asg' free' (ghost_insert k (ivs ! k) G1)"
      by (rule cls_step_add [OF ok(2) inv G1(2) _ G1(4) _ G1(6) _ _ _ new]) (use G1 out untouched_refl in auto)
    then show ?thesis using out(2) G1(1) ghost_insert_snd by metis
  qed
qed

text \<open>A store: the interval is given any register and is from then on fixed to it.\<close>

lemma AddPrecolored_store:
  assumes ok: "ivs_ok ivs" "k < length ivs" and inv: "cls_inv P ivs asg k free G" and virt: "\<not> IsPrecolored (ivs ! k)"
    and pick: "\<And>S. finite S \<Longrightarrow> S \<noteq> {} \<Longrightarrow> pick S \<in> S" and P: "\<And>r. r \<in> P \<Longrightarrow> 0 \<le> r \<and> r < 100"
    and run: "AddPrecoloredInterval pick (ivs ! k) asg free (map snd G) = Inr (i, asg1, free', act')"
    and set: "PrecoloredRegister i = Inr r" "update_assignment (SetRegister r) asg1 (idx_of (ivs ! k)) = Inr asg'"
  shows "\<exists>G'. act' = map snd G' \<and> cls_step P ivs k asg G asg' free' G'"
proof -
  let ?l = "ChangeToPrecolored r (ivs ! k)"
  have reg: "r = q" if "i = ChangeToPrecolored q (ivs ! k)" for q
    using set(1) that by (auto simp: PrecoloredRegister_def ChangeToPrecolored_def split: if_splits)
  note rs = regof_set [OF ok virt set(2)]
  have new: "belongs ivs asg' k ?l" if "r \<in> P"
    using P [OF that] rs(1) by (simp add: belongs_def ChangeToPrecolored_def IsPrecolored_def)
  show ?thesis
  proof (cases "free = {}")
    case False
    then have out: "asg1 = asg" "i = ChangeToPrecolored (pick free) (ivs ! k)" "free' = free - {pick free}" "act' = active_insert i (map snd G)"
      using run virt by (auto simp: AddPrecoloredInterval_def Let_def)
    then have r: "r = pick free" "r \<in> free" using reg pick_free [OF pick P inv False] by auto
    note t = cls_take [OF inv r(2)]
    have "cls_step P ivs k asg G asg' free' (ghost_insert k ?l G)"
      by (rule cls_step_add [OF ok(2) inv _ _ t(2) _ _ _ _ _ rs(1) new [OF t(2)]]) (use t out r rs cls_mid_refl in auto)
    then show ?thesis using out(2,4) r(1) ghost_insert_snd by metis
  next
    case True
    then obtain q act1 free1 where e: "SpillMinCost (map snd G) free asg = Inr (q, act1, free1, asg1)"
      and out: "i = ChangeToPrecolored q (ivs ! k)" "free' = free1 - {q}" "act' = active_insert i act1"
      using run virt by (auto simp: AddPrecoloredInterval_def Let_def elim!: bindR_InrE split: prod.splits)
    from SpillMinCost_mid [OF ok(1) less_imp_le [OF ok(2)] inv e] obtain G1 where
      G1: "act1 = map snd G1" "free1 = insert q free" "cls_mid ivs asg G asg1 G1" "cls_inv P ivs asg1 k free G1" "q \<in> P" "q \<notin> free"
        "q \<notin> (regof ivs asg1 \<circ> fst) ` set G1" by blast
    have r: "r = q" using reg out(1) .
    have "cls_step P ivs k asg G asg' free (ghost_insert k ?l G1)"
      by (rule cls_step_add [OF ok(2) inv G1(3,4,5,6,7) rs(2,3,4)]) (use r rs new G1(5) in auto)
    moreover have "free' = free" using out(2) G1(2,6) by auto
    ultimately show ?thesis using out(1,3) G1(1) r ghost_insert_snd by metis
  qed
qed

lemma SpillAtInterval_step:
  assumes ok: "ivs_ok ivs" "k < length ivs" and inv: "cls_inv P ivs asg k free G" and virt: "\<not> IsPrecolored (ivs ! k)"
    and pick: "\<And>S. finite S \<Longrightarrow> S \<noteq> {} \<Longrightarrow> pick S \<in> S" and P: "\<And>r. r \<in> P \<Longrightarrow> 0 \<le> r \<and> r < 100"
    and run: "SpillAtInterval pick (ivs ! k) asg free (map snd G) = Inr (asg', free', act')"
  shows "\<exists>G'. act' = map snd G' \<and> cls_step P ivs k asg G asg' free' G'"
proof -
  have val: "LiveIntervalValue (ivs ! k) = Inr (iv_value (ivs ! k))" using virt by (simp add: LiveIntervalValue_def)
  have new: "belongs ivs x k (ivs ! k)" for x using virt by (simp add: belongs_def)
  show ?thesis
  proof (cases "free = {}")
    case False
    let ?r = "pick free"
    have upd: "update_assignment (SetRegister ?r) asg (idx_of (ivs ! k)) = Inr asg'"
      and out: "free' = free - {?r}" "act' = active_insert (ivs ! k) (map snd G)"
      using run False val by (auto simp: SpillAtInterval_def Let_def idx_of_def elim!: bindR_InrE)
    note rs = regof_set [OF ok virt upd] and t = cls_take [OF inv pick_free [OF pick P inv False]]
    have "cls_step P ivs k asg G asg' free' (ghost_insert k (ivs ! k) G)"
      by (rule cls_step_add [OF ok(2) inv _ _ t(2) _ _ _ _ _ rs(1) new]) (use t out rs cls_mid_refl in auto)
    then show ?thesis using out(2) ghost_insert_snd by metis
  next
    case True
    then obtain q act1 free1 asg1 where e: "MaybeSpillMinCost (map snd G) free asg (ivs ! k) = Inr (q, act1, free1, asg1)"
      and rest: "(if q = -1 then bindR (update_assignment Spill asg1 (idx_of (ivs ! k))) (\<lambda>a. Inr (a, free1, act1))
        else bindR (update_assignment (SetRegister q) asg1 (idx_of (ivs ! k))) (\<lambda>a. Inr (a, free1 - {q}, active_insert (ivs ! k) act1)))
        = Inr (asg', free', act')"
      using run val unfolding SpillAtInterval_def idx_of_def Let_def by (auto simp: bindR_Inr_iff)
    show ?thesis
    proof (cases "maybe_spill_scan (map snd G) 0 (spill_cost (ivs ! k)) None")
      case None
      then have q: "q = -1" "act1 = map snd G" "free1 = free" "asg1 = asg"
        using e by (auto simp: MaybeSpillMinCost_def split: if_splits)
      then have upd: "update_assignment Spill asg (idx_of (ivs ! k)) = Inr asg'" and out: "free' = free" "act' = map snd G"
        using rest by (auto elim!: bindR_InrE)
      note u = spilled [OF upd]
      note r = regof_update [OF ok virt u(1,2)]
      have "cls_step P ivs k asg G asg' free G"
        by (rule cls_step_none [OF ok(2) inv]) (use r u(1) untouched_update [OF ok(2) virt] in \<open>auto simp: Spill_def\<close>)
      then show ?thesis using out by blast
    next
      case (Some i)
      have i: "i < length G" using maybe_scan_position [OF Some] by simp
      have "spill_at i (map snd G) free asg = Inr (q, act1, free1, asg1)"
        using e Some by (auto simp: MaybeSpillMinCost_def split: if_splits)
      from spill_at_mid [OF ok(1) less_imp_le [OF ok(2)] inv this i] obtain G1 where
        G1: "act1 = map snd G1" "free1 = insert q free" "cls_mid ivs asg G asg1 G1" "cls_inv P ivs asg1 k free G1" "q \<in> P" "q \<notin> free"
          "q \<notin> (regof ivs asg1 \<circ> fst) ` set G1" by blast
      have "q \<noteq> -1" using P [OF G1(5)] by simp
      then have upd: "update_assignment (SetRegister q) asg1 (idx_of (ivs ! k)) = Inr asg'"
        and out: "free' = free1 - {q}" "act' = active_insert (ivs ! k) act1"
        using rest by (auto elim!: bindR_InrE)
      note rs = regof_set [OF ok virt upd]
      have "cls_step P ivs k asg G asg' free (ghost_insert k (ivs ! k) G1)"
        by (rule cls_step_add [OF ok(2) inv G1(3,4,5,6,7) rs(2,3,4,1) new])
      moreover have "free' = free" using out(1) G1(2,6) by auto
      ultimately show ?thesis using out(2) G1(1) ghost_insert_snd by metis
    qed
  qed
qed

section \<open>The whole scan\<close>

definition in_pool :: "int \<Rightarrow> bool" where
  "in_pool r \<longleftrightarrow> 0 \<le> r \<and> r < 100"

text \<open>Among the first \<open>k\<close> intervals, equal registers mean that the earlier one ended first.\<close>

definition scan_safe :: "LiveInterval list \<Rightarrow> RegisterAssignment list \<Rightarrow> nat \<Rightarrow> bool" where
  "scan_safe ivs asg k \<longleftrightarrow> (\<forall>b<k. \<forall>a<b. in_pool (regof ivs asg a) \<longrightarrow> regof ivs asg a = regof ivs asg b
     \<longrightarrow> iend (ivs ! a) < istart (ivs ! b))"

definition scan_covered :: "LiveInterval list \<Rightarrow> RegisterAssignment list \<Rightarrow> nat \<Rightarrow> nat \<Rightarrow> nat set \<Rightarrow> bool" where
  "scan_covered ivs asg k n A \<longleftrightarrow> (\<forall>a<k. in_pool (regof ivs asg a) \<longrightarrow> a \<in> A
     \<or> (\<forall>b. n \<le> b \<longrightarrow> b < length ivs \<longrightarrow> iend (ivs ! a) < istart (ivs ! b)))"

definition scan_fresh :: "LiveInterval list \<Rightarrow> RegisterAssignment list \<Rightarrow> nat \<Rightarrow> bool" where
  "scan_fresh ivs asg k \<longleftrightarrow> (\<forall>b. k \<le> b \<longrightarrow> b < length ivs \<longrightarrow> \<not> IsPrecolored (ivs ! b) \<longrightarrow> nat (idx_of (ivs ! b)) < length asg
     \<longrightarrow> regof ivs asg b = -1)"

definition scan_inv :: "nat \<Rightarrow> LiveInterval list \<Rightarrow> nat \<Rightarrow> scan_state \<Rightarrow> bool" where
  "scan_inv n ivs k st \<longleftrightarrow> (\<exists>G H. active_normal st = map snd G \<and> active_vector st = map snd H
     \<and> cls_inv initial_free_normal ivs (assigned st) k (free_normal st) G
     \<and> cls_inv initial_free_vector ivs (assigned st) k (free_vector st) H
     \<and> scan_covered ivs (assigned st) k k (fst ` set G \<union> fst ` set H)
     \<and> scan_safe ivs (assigned st) k \<and> scan_fresh ivs (assigned st) k \<and> length (assigned st) = n
     \<and> untouched ivs (replicate n RegisterAssignmentNew) (assigned st))"

lemma cls_disjoint:
  assumes "cls_inv P ivs asg k f G" "cls_inv Q ivs asg k g H" "P \<inter> Q = {}"
  shows "fst ` set G \<inter> fst ` set H = {}"
  using cls_invD(6) [OF assms(1)] cls_invD(6) [OF assms(2)] assms(3) by fastforce

lemma starts_sorted: "ivs_ok ivs \<Longrightarrow> a \<le> b \<Longrightarrow> b < length ivs \<Longrightarrow> istart (ivs ! a) \<le> istart (ivs ! b)"
  unfolding ivs_ok_def sorted_iff_nth_mono by fastforce

text \<open>One step on a class keeps the invariant of both.\<close>

lemma step_global:
  assumes ok: "ivs_ok ivs" "k < length ivs" and P: "P \<inter> Q = {}" "\<And>r. r \<in> P \<union> Q \<Longrightarrow> in_pool r"
    and inv: "cls_inv P ivs asg k f G" "cls_inv Q ivs asg k g H"
    and cov: "scan_covered ivs asg k k (fst ` set G \<union> fst ` set H)" and safe: "scan_safe ivs asg k" and fresh: "scan_fresh ivs asg k"
    and step: "cls_step P ivs k asg G asg' f' G'"
  shows "cls_inv Q ivs asg' (Suc k) g H" "scan_covered ivs asg' (Suc k) (Suc k) (fst ` set G' \<union> fst ` set H)"
    "scan_safe ivs asg' (Suc k)" "scan_fresh ivs asg' (Suc k)"
proof -
  have inv': "cls_inv P ivs asg' (Suc k) f' G'" and len: "length asg' = length asg"
    and out: "\<And>b. b < length ivs \<Longrightarrow> b \<notin> fst ` set G \<Longrightarrow> b \<noteq> k \<Longrightarrow> regof ivs asg' b = regof ivs asg b"
    and inG: "\<And>b. b \<in> fst ` set G \<Longrightarrow> b \<in> fst ` set G' \<and> regof ivs asg' b = regof ivs asg b \<or> regof ivs asg' b = -1"
    and new: "in_pool (regof ivs asg' k) \<Longrightarrow> k \<in> fst ` set G'"
    using step unfolding cls_step_def in_pool_def by blast+
  note dH = cls_invD [OF inv(2)] and dG = cls_invD [OF inv(1)] and d' = cls_invD [OF inv']
  have neg: "\<not> in_pool (-1)" by (simp add: in_pool_def)
  have kept: "regof ivs asg' a = regof ivs asg a \<and> (a \<in> fst ` set G \<longrightarrow> a \<in> fst ` set G')"
    if "a < k" "in_pool (regof ivs asg' a)" for a
    using out [of a] inG [of a] that ok(2) neg by fastforce
  have H: "regof ivs asg' b = regof ivs asg b" if b: "(b, m) \<in> set H" for b m
  proof (rule out)
    show "b < length ivs" "b \<noteq> k" using dH(4) [OF b] ok(2) by simp_all
    show "b \<notin> fst ` set G" using cls_disjoint [OF inv P(1)] b by force
  qed
  show "cls_inv Q ivs asg' (Suc k) g H"
  proof (rule cls_invI)
    have "map (regof ivs asg' \<circ> fst) H = map (regof ivs asg \<circ> fst) H" using H by force
    then show "distinct (map (regof ivs asg' \<circ> fst) H)" using dH(2) by metis
    fix b m assume bm: "(b, m) \<in> set H"
    show "b < Suc k \<and> belongs ivs asg' b m \<and> regof ivs asg' b \<in> Q \<and> regof ivs asg' b \<notin> g"
      using dH(4-7) [OF bm] H [OF bm] by (simp add: belongs_def)
  qed (rule dH(1), rule dH(3))
  have covk: "a \<in> fst ` set G' \<union> fst ` set H \<or> iend (ivs ! a) < istart (ivs ! k)"
    if a: "a < k" "in_pool (regof ivs asg' a)" for a
  proof -
    note ka = kept [OF a]
    then have "a \<in> fst ` set G \<union> fst ` set H \<or> (\<forall>b. k \<le> b \<longrightarrow> b < length ivs \<longrightarrow> iend (ivs ! a) < istart (ivs ! b))"
      using cov a unfolding scan_covered_def by metis
    then show ?thesis using ka ok(2) by blast
  qed
  show "scan_covered ivs asg' (Suc k) (Suc k) (fst ` set G' \<union> fst ` set H)"
    unfolding scan_covered_def
  proof (intro allI impI)
    fix a assume a: "a < Suc k" "in_pool (regof ivs asg' a)"
    show "a \<in> fst ` set G' \<union> fst ` set H \<or> (\<forall>b. Suc k \<le> b \<longrightarrow> b < length ivs \<longrightarrow> iend (ivs ! a) < istart (ivs ! b))"
    proof (cases "a = k")
      case True
      then show ?thesis using new a(2) by blast
    next
      case False
      then have "a < k" using a(1) by simp
      from covk [OF this a(2)] show ?thesis
        using starts_sorted [OF ok(1)] by (meson Suc_leD less_le_trans)
    qed
  qed
  show "scan_safe ivs asg' (Suc k)"
    unfolding scan_safe_def
  proof (intro allI impI)
    fix b a assume ab: "b < Suc k" "a < b" "in_pool (regof ivs asg' a)" "regof ivs asg' a = regof ivs asg' b"
    have ak: "a < k" using ab by simp
    show "iend (ivs ! a) < istart (ivs ! b)"
    proof (cases "b = k")
      case False
      then have bk: "b < k" using ab(1) by simp
      have "in_pool (regof ivs asg' b)" using ab(3,4) by simp
      then show ?thesis using safe kept [OF ak ab(3)] kept [OF bk] ab bk unfolding scan_safe_def by metis
    next
      case True
      then have "k \<in> fst ` set G'" using new ab(3,4) by simp
      then obtain l where l: "(k, l) \<in> set G'" by auto
      have "a \<notin> fst ` set G'"
      proof
        assume "a \<in> fst ` set G'"
        then obtain m where m: "(a, m) \<in> set G'" by auto
        have "inj_on (regof ivs asg' \<circ> fst) (set G')" using d'(2) by (simp add: distinct_map)
        then have "(a, m) = (k, l)" by (rule inj_onD) (use l m ab(4) True in auto)
        then show False using ak by simp
      qed
      moreover have "a \<notin> fst ` set H"
      proof
        assume "a \<in> fst ` set H"
        then obtain m where m: "(a, m) \<in> set H" by auto
        have "regof ivs asg' a \<in> Q" using H [OF m] dH(6) [OF m] by simp
        moreover have "regof ivs asg' k \<in> P" using d'(6) [OF l] .
        ultimately show False using ab(4) True P(1) by auto
      qed
      ultimately show ?thesis using covk [OF ak ab(3)] True by blast
    qed
  qed
  show "scan_fresh ivs asg' (Suc k)"
    unfolding scan_fresh_def
  proof (intro allI impI)
    fix b assume b: "Suc k \<le> b" "b < length ivs" "\<not> IsPrecolored (ivs ! b)" "nat (idx_of (ivs ! b)) < length asg'"
    have "b \<notin> fst ` set G" using dG(4) b(1) by fastforce
    then show "regof ivs asg' b = -1" using out [of b] b fresh len unfolding scan_fresh_def by simp
  qed
qed

lemma scan_invE:
  assumes "scan_inv n ivs k st"
  obtains G H where "active_normal st = map snd G" "active_vector st = map snd H"
    "cls_inv initial_free_normal ivs (assigned st) k (free_normal st) G"
    "cls_inv initial_free_vector ivs (assigned st) k (free_vector st) H"
    "scan_covered ivs (assigned st) k k (fst ` set G \<union> fst ` set H)"
    "scan_safe ivs (assigned st) k" "scan_fresh ivs (assigned st) k" "length (assigned st) = n"
    "untouched ivs (replicate n RegisterAssignmentNew) (assigned st)"
  using assms unfolding scan_inv_def by blast

lemma pools_in: "r \<in> initial_free_normal \<union> initial_free_vector \<Longrightarrow> in_pool r"
  using pools(2) by (simp add: in_pool_def)

lemma scan_inv_normal:
  assumes ok: "ivs_ok ivs" "k < length ivs" and inv: "scan_inv n ivs k st"
    and op: "\<And>G. cls_inv initial_free_normal ivs (assigned st) k (free_normal st) G \<Longrightarrow> active_normal st = map snd G
      \<Longrightarrow> \<exists>G'. act' = map snd G' \<and> cls_step initial_free_normal ivs k (assigned st) G asg' f' G'"
  shows "scan_inv n ivs (Suc k) (st\<lparr>assigned := asg', free_normal := f', active_normal := act'\<rparr>)"
proof -
  from inv obtain G H where i: "active_normal st = map snd G" "active_vector st = map snd H"
    "cls_inv initial_free_normal ivs (assigned st) k (free_normal st) G"
    "cls_inv initial_free_vector ivs (assigned st) k (free_vector st) H"
    "scan_covered ivs (assigned st) k k (fst ` set G \<union> fst ` set H)"
    "scan_safe ivs (assigned st) k" "scan_fresh ivs (assigned st) k" "length (assigned st) = n"
    "untouched ivs (replicate n RegisterAssignmentNew) (assigned st)" by (rule scan_invE)
  from op [OF i(3,1)] obtain G' where G': "act' = map snd G'" "cls_step initial_free_normal ivs k (assigned st) G asg' f' G'" by blast
  note g = step_global [OF ok pools(1) pools_in i(3,4,5,6,7) G'(2)]
  have "cls_inv initial_free_normal ivs asg' (Suc k) f' G'" "length asg' = n"
    "untouched ivs (replicate n RegisterAssignmentNew) asg'"
    using G'(2) i(8,9) untouched_trans by (auto simp: cls_step_def)
  then show ?thesis
    unfolding scan_inv_def using G'(1) i(2) g by (intro exI [of _ G'] exI [of _ H]) simp
qed

lemma scan_inv_vector:
  assumes ok: "ivs_ok ivs" "k < length ivs" and inv: "scan_inv n ivs k st"
    and op: "\<And>G. cls_inv initial_free_vector ivs (assigned st) k (free_vector st) G \<Longrightarrow> active_vector st = map snd G
      \<Longrightarrow> \<exists>G'. act' = map snd G' \<and> cls_step initial_free_vector ivs k (assigned st) G asg' f' G'"
  shows "scan_inv n ivs (Suc k) (st\<lparr>assigned := asg', free_vector := f', active_vector := act'\<rparr>)"
proof -
  from inv obtain G H where i: "active_normal st = map snd G" "active_vector st = map snd H"
    "cls_inv initial_free_normal ivs (assigned st) k (free_normal st) G"
    "cls_inv initial_free_vector ivs (assigned st) k (free_vector st) H"
    "scan_covered ivs (assigned st) k k (fst ` set G \<union> fst ` set H)"
    "scan_safe ivs (assigned st) k" "scan_fresh ivs (assigned st) k" "length (assigned st) = n"
    "untouched ivs (replicate n RegisterAssignmentNew) (assigned st)" by (rule scan_invE)
  from op [OF i(4,2)] obtain H' where H': "act' = map snd H'" "cls_step initial_free_vector ivs k (assigned st) H asg' f' H'" by blast
  have disj: "initial_free_vector \<inter> initial_free_normal = {}" using pools(1) by blast
  have cov: "scan_covered ivs (assigned st) k k (fst ` set H \<union> fst ` set G)" using i(5) by (simp add: Un_commute)
  note g = step_global [OF ok disj _ i(4,3) cov i(6,7) H'(2)]
  have p: "in_pool r" if "r \<in> initial_free_vector \<union> initial_free_normal" for r using that pools_in by blast
  have "cls_inv initial_free_vector ivs asg' (Suc k) f' H'" "length asg' = n"
    "untouched ivs (replicate n RegisterAssignmentNew) asg'"
    using H'(2) i(8,9) untouched_trans by (auto simp: cls_step_def)
  moreover have "scan_covered ivs asg' (Suc k) (Suc k) (fst ` set G \<union> fst ` set H')" using g(2) [OF p] by (simp add: Un_commute)
  ultimately show ?thesis
    unfolding scan_inv_def using H'(1) i(1) g(1,3,4) [OF p] by (intro exI [of _ G] exI [of _ H']) simp
qed

lemma expire_scan:
  assumes ok: "ivs_ok ivs" "k < length ivs" and inv: "scan_inv n ivs k st" and run: "expire_both (ivs ! k) st = Inr st'"
  shows "scan_inv n ivs k st'"
proof -
  from inv obtain G H where i: "active_normal st = map snd G" "active_vector st = map snd H"
    "cls_inv initial_free_normal ivs (assigned st) k (free_normal st) G"
    "cls_inv initial_free_vector ivs (assigned st) k (free_vector st) H"
    "scan_covered ivs (assigned st) k k (fst ` set G \<union> fst ` set H)"
    "scan_safe ivs (assigned st) k" "scan_fresh ivs (assigned st) k" "length (assigned st) = n"
    "untouched ivs (replicate n RegisterAssignmentNew) (assigned st)" by (rule scan_invE)
  obtain fn an fv av where e: "ExpireOldIntervals (ivs ! k) (assigned st) (free_normal st) (map snd G) = Inr (fn, an)"
    "ExpireOldIntervals (ivs ! k) (assigned st) (free_vector st) (map snd H) = Inr (fv, av)"
    and st': "st' = st\<lparr>free_normal := fn, active_normal := an, free_vector := fv, active_vector := av\<rparr>"
    using run i(1,2) by (auto simp: expire_both_def bindR_Inr_iff)
  from expire_inv [OF e(1) i(3)] obtain G' where G': "an = map snd G'" "cls_inv initial_free_normal ivs (assigned st) k fn G'"
    "set G' \<subseteq> set G" "\<forall>x\<in>set G - set G'. iend (snd x) < istart (ivs ! k)" by blast
  from expire_inv [OF e(2) i(4)] obtain H' where H': "av = map snd H'" "cls_inv initial_free_vector ivs (assigned st) k fv H'"
    "set H' \<subseteq> set H" "\<forall>x\<in>set H - set H'. iend (snd x) < istart (ivs ! k)" by blast
  have gone: "a \<in> fst ` set X' \<or> iend (ivs ! a) < istart (ivs ! k)"
    if c: "cls_inv P ivs (assigned st) k f X" and x: "\<forall>x\<in>set X - set X'. iend (snd x) < istart (ivs ! k)" and a: "a \<in> fst ` set X" for P f X X' a
  proof -
    obtain l where l: "(a, l) \<in> set X" using a by auto
    have "iend l = iend (ivs ! a)" using cls_invD(5) [OF c l] by (simp add: belongs_def)
    then show ?thesis using x l by (cases "(a, l) \<in> set X'") force+
  qed
  have "scan_covered ivs (assigned st) k k (fst ` set G' \<union> fst ` set H')"
    unfolding scan_covered_def
  proof (intro allI impI)
    fix a assume "a < k" "in_pool (regof ivs (assigned st) a)"
    then consider "a \<in> fst ` set G" | "a \<in> fst ` set H"
      | "\<forall>b. k \<le> b \<longrightarrow> b < length ivs \<longrightarrow> iend (ivs ! a) < istart (ivs ! b)"
      using i(5) unfolding scan_covered_def by blast
    then show "a \<in> fst ` set G' \<union> fst ` set H' \<or> (\<forall>b. k \<le> b \<longrightarrow> b < length ivs \<longrightarrow> iend (ivs ! a) < istart (ivs ! b))"
    proof cases
      case 1
      then show ?thesis using gone [OF i(3) G'(4)] starts_sorted [OF ok(1)] by (meson UnI1 less_le_trans)
    next
      case 2
      then show ?thesis using gone [OF i(4) H'(4)] starts_sorted [OF ok(1)] by (meson UnI2 less_le_trans)
    qed blast
  qed
  then show ?thesis
    unfolding scan_inv_def st' using G'(1,2) H'(1,2) i(6-9) by (intro exI [of _ G'] exI [of _ H']) simp
qed

lemma flag_scan:
  assumes ok: "ivs_ok ivs" "k < length ivs" and inv: "scan_inv (length instrs) ivs k st" and virt: "\<not> IsPrecolored (ivs ! k)"
    and i: "i = idx_of (ivs ! k)" "nat i < length instrs" and flag: "100 \<le> flag"
    and run: "flag_step instrs flag (ivs ! k) i st = Inr st'"
  shows "scan_inv (length instrs) ivs (Suc k) st'"
proof -
  obtain asg' where st': "st' = st\<lparr>assigned := asg'\<rparr>"
    and asg': "asg' = assigned st \<or> update_assignment (SetRegister flag) (assigned st) i = Inr asg'"
  proof -
    have "st' = st\<lparr>assigned := assigned st\<rparr> \<or> (\<exists>a. update_assignment (SetRegister flag) (assigned st) i = Inr a \<and> st' = st\<lparr>assigned := a\<rparr>)"
      using run by (auto simp: flag_step_def bindR_Inr_iff split: if_splits)
    then show thesis using that by blast
  qed
  have step: "cls_step initial_free_normal ivs k (assigned st) G asg' (free_normal st) G"
    if "cls_inv initial_free_normal ivs (assigned st) k (free_normal st) G" for G
    using asg'
  proof
    assume "asg' = assigned st"
    moreover have "regof ivs (assigned st) k = -1"
      using inv virt ok(2) i by (auto simp: scan_inv_def scan_fresh_def)
    ultimately show ?thesis by (intro cls_step_none [OF ok(2) that]) (auto simp: untouched_refl)
  next
    assume "update_assignment (SetRegister flag) (assigned st) i = Inr asg'"
    note rs = regof_set [OF ok virt this [unfolded i(1)]]
    show ?thesis by (rule cls_step_none [OF ok(2) that]) (use rs flag in auto)
  qed
  have "scan_inv (length instrs) ivs (Suc k) (st\<lparr>assigned := asg', free_normal := free_normal st, active_normal := active_normal st\<rparr>)"
    by (rule scan_inv_normal [OF ok inv]) (use step in blast)
  then show ?thesis using st' by simp
qed

lemma virtual_scan:
  assumes ok: "ivs_ok ivs" "k < length ivs" and inv: "scan_inv (length instrs) ivs k st" and virt: "\<not> IsPrecolored (ivs ! k)"
    and pick: "\<And>S. finite S \<Longrightarrow> S \<noteq> {} \<Longrightarrow> pick S \<in> S" and run: "scan_virtual instrs pick (ivs ! k) st = Inr st'"
  shows "scan_inv (length instrs) ivs (Suc k) st'"
proof -
  let ?i = "idx_of (ivs ! k)"
  have val: "LiveIntervalValue (ivs ! k) = Inr (iv_value (ivs ! k))" "uint (GetIdx (iv_value (ivs ! k))) = ?i"
    using virt by (simp_all add: LiveIntervalValue_def idx_of_def)
  obtain opc where opc: "opcode_at instrs ?i = Inr opc"
    using run val by (auto simp: scan_virtual_def Let_def elim: bindR_InrE)
  then have i: "nat ?i < length instrs" by (auto simp: opcode_at_def bindR_Inr_iff nthI_Inr_iff)
  have P: "\<And>r. r \<in> initial_free_normal \<Longrightarrow> 0 \<le> r \<and> r < 100" "\<And>r. r \<in> initial_free_vector \<Longrightarrow> 0 \<le> r \<and> r < 100"
    using pools(2) by blast+
  obtain c1 c2 c3 c4 where body: "(if c1 then flag_step instrs IFlag (ivs ! k) ?i st
      else if c2 then flag_step instrs FFlag (ivs ! k) ?i st
      else if c3 then bindR (add_vector pick (ivs ! k) st) (set_store_register ?i)
      else if c4 then bindR (add_normal pick (ivs ! k) st) (set_store_register ?i)
      else bindR (LiveIntervalType (ivs ! k)) (\<lambda>t.
       if IsVector t then
         bindR (SpillAtInterval pick (ivs ! k) (assigned st) (free_vector st) (active_vector st)) (\<lambda>(a, f, act).
           Inr (st\<lparr>assigned := a, free_vector := f, active_vector := act\<rparr>))
       else
         bindR (SpillAtInterval pick (ivs ! k) (assigned st) (free_normal st) (active_normal st)) (\<lambda>(a, f, act).
           Inr (st\<lparr>assigned := a, free_normal := f, active_normal := act\<rparr>)))) = Inr st'"
    using run unfolding scan_virtual_def val(1) bindR_simps Let_def val(2) opc by (rule that)
  from body consider
      (iflag) "flag_step instrs IFlag (ivs ! k) ?i st = Inr st'"
    | (fflag) "flag_step instrs FFlag (ivs ! k) ?i st = Inr st'"
    | (vstore) "bindR (add_vector pick (ivs ! k) st) (set_store_register ?i) = Inr st'"
    | (nstore) "bindR (add_normal pick (ivs ! k) st) (set_store_register ?i) = Inr st'"
    | (vec) a f act where "SpillAtInterval pick (ivs ! k) (assigned st) (free_vector st) (active_vector st) = Inr (a, f, act)"
        "st' = st\<lparr>assigned := a, free_vector := f, active_vector := act\<rparr>"
    | (norm) a f act where "SpillAtInterval pick (ivs ! k) (assigned st) (free_normal st) (active_normal st) = Inr (a, f, act)"
        "st' = st\<lparr>assigned := a, free_normal := f, active_normal := act\<rparr>"
    by (auto simp: bindR_Inr_iff split: if_splits)
  then show ?thesis
  proof cases
    case iflag
    then show ?thesis by (intro flag_scan [OF ok inv virt refl i]) auto
  next
    case fflag
    then show ?thesis by (intro flag_scan [OF ok inv virt refl i]) auto
  next
    case vstore
    then obtain l a1 f act r a where run: "AddPrecoloredInterval pick (ivs ! k) (assigned st) (free_vector st) (active_vector st) = Inr (l, a1, f, act)"
      "PrecoloredRegister l = Inr r" "update_assignment (SetRegister r) a1 ?i = Inr a"
      "st' = st\<lparr>assigned := a, free_vector := f, active_vector := act\<rparr>"
      by (auto simp: add_vector_def set_store_register_def bindR_Inr_iff)
    show ?thesis unfolding run(4)
      by (rule scan_inv_vector [OF ok inv]) (rule AddPrecolored_store [OF ok _ virt pick P(2) _ run(2,3)], use run(1) in simp_all)
  next
    case nstore
    then obtain l a1 f act r a where run: "AddPrecoloredInterval pick (ivs ! k) (assigned st) (free_normal st) (active_normal st) = Inr (l, a1, f, act)"
      "PrecoloredRegister l = Inr r" "update_assignment (SetRegister r) a1 ?i = Inr a"
      "st' = st\<lparr>assigned := a, free_normal := f, active_normal := act\<rparr>"
      by (auto simp: add_normal_def set_store_register_def bindR_Inr_iff)
    show ?thesis unfolding run(4)
      by (rule scan_inv_normal [OF ok inv]) (rule AddPrecolored_store [OF ok _ virt pick P(1) _ run(2,3)], use run(1) in simp_all)
  next
    case vec
    show ?thesis unfolding vec(2)
      by (rule scan_inv_vector [OF ok inv]) (rule SpillAtInterval_step [OF ok _ virt pick P(2)], use vec(1) in simp_all)
  next
    case norm
    show ?thesis unfolding norm(2)
      by (rule scan_inv_normal [OF ok inv]) (rule SpillAtInterval_step [OF ok _ virt pick P(1)], use norm(1) in simp_all)
  qed
qed

lemma step_scan:
  assumes ok: "ivs_ok ivs" "k < length ivs" and inv: "scan_inv (length instrs) ivs k st"
    and pick: "\<And>S. finite S \<Longrightarrow> S \<noteq> {} \<Longrightarrow> pick S \<in> S" and run: "scan_step instrs pick st (ivs ! k) = Inr st'"
  shows "scan_inv (length instrs) ivs (Suc k) st'"
proof -
  obtain st1 where e: "expire_both (ivs ! k) st = Inr st1" using run by (auto simp: scan_step_def elim: bindR_InrE)
  note inv1 = expire_scan [OF ok inv e]
  show ?thesis
  proof (cases "IsPrecolored (ivs ! k)")
    case False
    then have "scan_virtual instrs pick (ivs ! k) st1 = Inr st'" using run e by (simp add: scan_step_def)
    then show ?thesis using virtual_scan [OF ok inv1 False] pick by blast
  next
    case True
    then consider
        (v) l a f act where "AddPrecoloredInterval pick (ivs ! k) (assigned st1) (free_vector st1) (active_vector st1) = Inr (l, a, f, act)"
          "st' = st1\<lparr>assigned := a, free_vector := f, active_vector := act\<rparr>"
      | (n) l a f act where "AddPrecoloredInterval pick (ivs ! k) (assigned st1) (free_normal st1) (active_normal st1) = Inr (l, a, f, act)"
          "st' = st1\<lparr>assigned := a, free_normal := f, active_normal := act\<rparr>"
      using run e by (auto simp: scan_step_def add_vector_def add_normal_def bindR_Inr_iff split: if_splits)
    then show ?thesis
    proof cases
      case v
      show ?thesis unfolding v(2)
        by (rule scan_inv_vector [OF ok inv1]) (rule AddPrecolored_fixed [OF ok _ True], use v(1) in simp_all)
    next
      case n
      show ?thesis unfolding n(2)
        by (rule scan_inv_normal [OF ok inv1]) (rule AddPrecolored_fixed [OF ok _ True], use n(1) in simp_all)
    qed
  qed
qed

lemma scan_inv_init:
  "scan_inv (length instrs) ivs 0
     \<lparr>assigned = replicate (length instrs) RegisterAssignmentNew, free_normal = initial_free_normal, active_normal = [],
      free_vector = initial_free_vector, active_vector = []\<rparr>"
  unfolding scan_inv_def
  by (intro exI [of _ "[]"])
    (auto simp: cls_inv_def scan_covered_def scan_safe_def scan_fresh_def regof_def RegisterAssignmentNew_def untouched_refl)

lemma scan_inv_fold:
  assumes ok: "ivs_ok ivs" and pick: "\<And>S. finite S \<Longrightarrow> S \<noteq> {} \<Longrightarrow> pick S \<in> S"
    and "foldR (scan_step instrs pick) st (drop k ivs) = Inr st'" "scan_inv (length instrs) ivs k st" "k \<le> length ivs"
  shows "scan_inv (length instrs) ivs (length ivs) st'"
  using assms(3-5)
proof (induction "length ivs - k" arbitrary: k st)
  case 0
  then show ?case by simp
next
  case (Suc m)
  then have k: "k < length ivs" by simp
  then have "drop k ivs = ivs ! k # drop (Suc k) ivs" by (simp add: Cons_nth_drop_Suc)
  then obtain st1 where st1: "scan_step instrs pick st (ivs ! k) = Inr st1" "foldR (scan_step instrs pick) st1 (drop (Suc k) ivs) = Inr st'"
    using Suc.prems(1) by (auto elim: bindR_InrE)
  show ?case
    by (rule Suc.hyps(1) [OF _ st1(2) step_scan [OF ok k Suc.prems(2) pick st1(1)]]) (use Suc.hyps(2) k in simp_all)
qed

lemma scan_intervals_safe:
  assumes "ivs_ok ivs" "\<And>S. finite S \<Longrightarrow> S \<noteq> {} \<Longrightarrow> pick S \<in> S" "scan_intervals instrs pick ivs = Inr asg"
  shows "scan_safe ivs asg (length ivs)" "length asg = length instrs"
    "untouched ivs (replicate (length instrs) RegisterAssignmentNew) asg"
proof -
  obtain st where st: "foldR (scan_step instrs pick)
        \<lparr>assigned = replicate (length instrs) RegisterAssignmentNew, free_normal = initial_free_normal, active_normal = [],
         free_vector = initial_free_vector, active_vector = []\<rparr> (drop 0 ivs) = Inr st" "asg = assigned st"
    using assms(3) by (auto simp: scan_intervals_def bindR_Inr_iff)
  from scan_inv_fold [OF assms(1,2) st(1) scan_inv_init] have "scan_inv (length instrs) ivs (length ivs) st" by simp
  then show "scan_safe ivs asg (length ivs)" "length asg = length instrs"
    "untouched ivs (replicate (length instrs) RegisterAssignmentNew) asg" using st(2) by (auto elim: scan_invE)
qed

text \<open>
  Property C10: when the linear scan returns, two different intervals, whether of values or of
  fixed registers, that were given the same general or vector register do not overlap, whatever
  free register the unordered sets happen to yield.
\<close>

theorem linear_scan_safe:
  assumes "ivs_ok ivs" "\<And>S. finite S \<Longrightarrow> S \<noteq> {} \<Longrightarrow> pick S \<in> S" "scan_intervals instrs pick ivs = Inr asg"
    "a < length ivs" "b < length ivs" "a \<noteq> b" "regof ivs asg a = regof ivs asg b" "in_pool (regof ivs asg a)"
  shows "iend (ivs ! a) < istart (ivs ! b) \<or> iend (ivs ! b) < istart (ivs ! a)"
proof -
  have "scan_safe ivs asg (length ivs)" by (rule scan_intervals_safe(1) [OF assms(1-3)])
  then show ?thesis using assms(4-8) unfolding scan_safe_def by (metis nat_neq_iff)
qed

text \<open>Two values one after the other, and a register fixed by a call.\<close>

definition sample_intervals :: "LiveInterval list" where
  "sample_intervals =
     [Extend 1 (Extend 0 (LiveIntervalOf (ValueOf 0) I64Type)),
      Extend 3 (Extend 2 (LiveIntervalOf (ValueOf 1) I64Type)),
      Extend 3 (LiveIntervalPrecolored RDI)]"

definition sample_instrs :: "u64 list" where
  "sample_instrs = [61, 61]"

theorem linear_scan_safe_witness:
  "ivs_ok sample_intervals
   \<and> scan_intervals sample_instrs Min sample_intervals = Inr [RegisterAssignmentOf RBX, RegisterAssignmentOf RBX]
   \<and> (iend (sample_intervals ! 0) < istart (sample_intervals ! 1) \<or> iend (sample_intervals ! 1) < istart (sample_intervals ! 0))"
proof -
  have ok: "ivs_ok sample_intervals"
    by (simp add: ivs_ok_def sample_intervals_def Extend_def LiveIntervalOf_def LiveIntervalPrecolored_def IsPrecolored_def
        idx_of_def GetIdx_def ValueOf_def less_Suc_eq nth_Cons')
  have run: "scan_intervals sample_instrs Min sample_intervals = Inr [RegisterAssignmentOf RBX, RegisterAssignmentOf RBX]"
    by code_simp
  have reg: "regof sample_intervals [RegisterAssignmentOf RBX, RegisterAssignmentOf RBX] 0 = RBX"
    "regof sample_intervals [RegisterAssignmentOf RBX, RegisterAssignmentOf RBX] 1 = RBX" by code_simp+
  have len: "length sample_intervals = 3" by (simp add: sample_intervals_def)
  have "iend (sample_intervals ! 0) < istart (sample_intervals ! 1) \<or> iend (sample_intervals ! 1) < istart (sample_intervals ! 0)"
    by (rule linear_scan_safe [OF ok _ run]) (simp_all add: len reg(1) reg(2) [unfolded One_nat_def] in_pool_def)
  with ok run show ?thesis by simp
qed

end
