(* ===== verification/KhirAllocSound.thy ===== *)
theory KhirAllocSound
  imports KhirIntervals KhirRegAllocCorrect "HOL-Library.Multiset"
begin

text \<open>
  The register allocator as a whole: liveness, intervals and linear scan together never give
  one register to two values that are live at the same place.
\<close>

section \<open>The intervals of a function\<close>

lemma block_fold_law:
  assumes run: "foldR (extend_block func gep (map_of (build_instr_map (BasicBlocks func))) li) ivs [0..<m] = Inr ivs'"
    and inv: "ivs_inv n ivs" and b: "b < m"
  defines "ps \<equiv> positions (BasicBlocks func ! b)" and "out \<equiv> (\<Union>c\<in>set (Successors (BasicBlocks func ! b)). set (li ! c))"
  shows "foldr (transfer (Instrs func) gep) ps out = set (li ! b)"
    "k < length ps \<Longrightarrow> \<exists>x. \<forall>v\<in>foldr (transfer (Instrs func) gep) (drop k ps) out \<union> foldr (transfer (Instrs func) gep) (drop (Suc k) ps) out.
       unat (GetIdx v) < length ivs' \<and> covers (ivs' ! unat (GetIdx v)) x"
proof -
  have "[0..<m] = [0..<b] @ b # [Suc b..<m]"
    using b upt_add_eq_append [of 0 b "m - b"] upt_conv_Cons [of b m] by simp
  then obtain s1 s2 where s: "foldR (extend_block func gep (map_of (build_instr_map (BasicBlocks func))) li) ivs [0..<b] = Inr s1"
    "extend_block func gep (map_of (build_instr_map (BasicBlocks func))) li s1 b = Inr s2"
    "foldR (extend_block func gep (map_of (build_instr_map (BasicBlocks func))) li) s2 [Suc b..<m] = Inr ivs'"
    using run by (metis foldR_split)
  have ext: "extends n t t'" if "foldR (extend_block func gep (map_of (build_instr_map (BasicBlocks func))) li) t xs = Inr t'" for t t' xs
    using that by (rule extends_fold) (rule extend_block_law(1))
  note law = extend_block_law [OF s(2), folded ps_def out_def]
  show "foldr (transfer (Instrs func) gep) ps out = set (li ! b)" by (rule law(2))
  assume k: "k < length ps"
  have inv1: "ivs_inv n s1" using ext [OF s(1)] inv unfolding extends_def by blast
  then have inv2: "ivs_inv n s2" using law(1) [of n] unfolding extends_def by blast
  from law(3) [OF inv1 k] obtain x where
    x: "\<forall>v\<in>foldr (transfer (Instrs func) gep) (drop k ps) out \<union> foldr (transfer (Instrs func) gep) (drop (Suc k) ps) out.
       unat (GetIdx v) < length s2 \<and> covers (s2 ! unat (GetIdx v)) x" by blast
  have "unat (GetIdx v) < length ivs' \<and> covers (ivs' ! unat (GetIdx v)) x"
    if "unat (GetIdx v) < length s2 \<and> covers (s2 ! unat (GetIdx v)) x" for v
    using that ext [OF s(3)] inv2 unfolding extends_def by (meson less_le_trans)
  with x show "\<exists>x. \<forall>v\<in>foldr (transfer (Instrs func) gep) (drop k ps) out \<union> foldr (transfer (Instrs func) gep) (drop (Suc k) ps) out.
       unat (GetIdx v) < length ivs' \<and> covers (ivs' ! unat (GetIdx v)) x" by blast
qed

lemma intervals_law:
  assumes run: "ComputeLiveIntervals sort_by func gep = Some (Inr ivs)" and graph: "graph_ok (BasicBlocks func)"
  obtains all where "ivs = filter (\<lambda>l. \<not> undef l) all" "ivs_inv (length (Instrs func)) all"
    "\<forall>b<length (BasicBlocks func). \<forall>k<length (positions (BasicBlocks func ! b)).
       \<exists>x. \<forall>v j. live_before func gep v b j \<longrightarrow> j = k \<or> j = Suc k \<longrightarrow>
         unat (GetIdx v) < length all \<and> covers (all ! unat (GetIdx v)) x"
proof -
  let ?n = "length (Instrs func)" and ?im = "map_of (build_instr_map (BasicBlocks func))" and ?ps = "block_positions (BasicBlocks func)"
  obtain li i0 i1 i2 i3 i4 st tree depth all where s:
    "initial_intervals (Instrs func) = Inr i0"
    "foldR (extend_block func gep ?im li) i0 [0..<length (BasicBlocks func)] = Inr i1"
    "foldR (store_step (Instrs func) ?im) i1 ?ps = Inr i2"
    "func_arg_loop ?im i2 0 0 0 (Instrs func) = Inr i3"
    "foldR (clobber_step (Instrs func) ?im) (i3, 0, 0) ?ps = Inr (i4, st)"
    "foldR (cost_step (Instrs func) gep depth) i4 ?ps = Inr all" "ivs = filter (\<lambda>l. \<not> undef l) all"
    using run by (auto simp: ComputeLiveIntervals_def Let_def bindO_Inr_iff)
  have e: "extends ?n i1 all"
    using extends_trans [OF store_ext [OF s(3)] extends_trans [OF func_arg_ext [OF s(4)] extends_trans [OF clobber_ext [OF s(5)] cost_ext [OF s(6)]]]] .
  have inv0: "ivs_inv ?n i0" by (rule initial_intervals_inv [OF s(1)])
  have "extends ?n i0 i1"
    using s(2) by (rule extends_fold) (rule extend_block_law(1))
  then have inv1: "ivs_inv ?n i1" using inv0 unfolding extends_def by blast
  then have inv: "ivs_inv ?n all" using e unfolding extends_def by blast
  have cov: "\<exists>x. \<forall>v j. live_before func gep v b j \<longrightarrow> j = k \<or> j = Suc k \<longrightarrow>
       unat (GetIdx v) < length all \<and> covers (all ! unat (GetIdx v)) x"
    if b: "b < length (BasicBlocks func)" and k: "k < length (positions (BasicBlocks func ! b))" for b k
  proof -
    let ?pb = "positions (BasicBlocks func ! b)" and ?out = "\<Union>c\<in>set (Successors (BasicBlocks func ! b)). set (li ! c)"
    from block_fold_law(2) [OF s(2) inv0 b k] obtain x where
      x: "\<forall>v\<in>foldr (transfer (Instrs func) gep) (drop k ?pb) ?out \<union> foldr (transfer (Instrs func) gep) (drop (Suc k) ?pb) ?out.
       unat (GetIdx v) < length i1 \<and> covers (i1 ! unat (GetIdx v)) x" by blast
    have "unat (GetIdx v) < length all \<and> covers (all ! unat (GetIdx v)) x"
      if v: "live_before func gep v b j" "j = k \<or> j = Suc k" for v j
    proof -
      have "v \<in> foldr (transfer (Instrs func) gep) (drop j ?pb) ?out"
        using live_before_solution [OF v(1), of "\<lambda>c. set (li ! c)"] block_fold_law(1) [OF s(2) inv0] graph by simp
      then have "unat (GetIdx v) < length i1 \<and> covers (i1 ! unat (GetIdx v)) x" using x v(2) by blast
      then show ?thesis using e inv1 unfolding extends_def by (meson less_le_trans)
    qed
    then show ?thesis by blast
  qed
  show thesis by (rule that [OF s(7) inv]) (intro allI impI cov)
qed

section \<open>One interval per value\<close>

lemma idx_of_number: "k < 2 ^ 23 \<Longrightarrow> iv_value l = ValueOf (of_nat k) \<Longrightarrow> idx_of l = int k"
proof -
  assume k: "k < 2 ^ 23" and v: "iv_value l = ValueOf (of_nat k)"
  have "(of_nat k :: u32) AND 0x7FFFFF = of_nat k"
  proof -
    have "(0x7FFFFF :: u32) = mask 23" by (simp add: mask_eq_exp_minus_1)
    moreover have "take_bit 23 (of_nat k :: u32) = of_nat k" using k by (simp add: take_bit_of_nat take_bit_nat_eq_self)
    ultimately show ?thesis by (metis take_bit_eq_mask)
  qed
  then show ?thesis using k v by (simp add: idx_of_def GetIdx_def ValueOf_def unsigned_of_nat take_bit_nat_eq_self)
qed

lemma distinct_filter_nth:
  assumes "distinct (map f (filter P xs))"
  shows "\<forall>a<length xs. \<forall>b<length xs. a \<noteq> b \<longrightarrow> P (xs ! a) \<longrightarrow> P (xs ! b) \<longrightarrow> f (xs ! a) \<noteq> f (xs ! b)"
  using assms
proof (induction xs)
  case (Cons x xs)
  then have ih: "\<forall>a<length xs. \<forall>b<length xs. a \<noteq> b \<longrightarrow> P (xs ! a) \<longrightarrow> P (xs ! b) \<longrightarrow> f (xs ! a) \<noteq> f (xs ! b)"
    by (auto split: if_splits)
  have x: "f x \<noteq> f (xs ! b)" if "P x" "b < length xs" "P (xs ! b)" for b
    using Cons.prems that by (auto simp: image_iff)
  show ?case
  proof (intro allI impI)
    fix a b assume "a < length (x # xs)" "b < length (x # xs)" "a \<noteq> b" "P ((x # xs) ! a)" "P ((x # xs) ! b)"
    then show "f ((x # xs) ! a) \<noteq> f ((x # xs) ! b)"
      using ih x x [symmetric] by (cases a; cases b) auto
  qed
qed simp

lemma virtual_distinct:
  assumes "ivs_inv n all" "n \<le> 2 ^ 23"
  shows "distinct (map idx_of (filter (\<lambda>l. \<not> IsPrecolored l) all))"
proof -
  let ?V = "filter (\<lambda>k. \<not> IsPrecolored (all ! k)) [0..<length all]"
  have "filter (\<lambda>l. \<not> IsPrecolored l) all = map ((!) all) ?V"
    by (metis (no_types, lifting) comp_apply filter_cong filter_map map_nth)
  moreover have "map idx_of (map ((!) all) ?V) = map int ?V"
    using assms by (auto simp: ivs_inv_def intro!: idx_of_number)
  ultimately have "map idx_of (filter (\<lambda>l. \<not> IsPrecolored l) all) = map int ?V" by simp
  then show ?thesis by (simp add: distinct_map)
qed

lemma sorted_intervals_ok:
  assumes inv: "ivs_inv n all" "n \<le> 2 ^ 23" and L: "mset L = mset (filter (\<lambda>l. \<not> undef l) all)" "sorted (map istart L)"
  shows "ivs_ok L"
proof -
  let ?v = "\<lambda>l. \<not> IsPrecolored l"
  have "distinct (map idx_of (filter ?v (filter (\<lambda>l. \<not> undef l) all)))"
  proof -
    have "filter ?v (filter (\<lambda>l. \<not> undef l) all) = filter (\<lambda>l. \<not> undef l) (filter ?v all)" by (simp add: conj_commute)
    then show ?thesis using virtual_distinct [OF inv] by (metis distinct_map_filter)
  qed
  moreover have "mset (map idx_of (filter ?v L)) = mset (map idx_of (filter ?v (filter (\<lambda>l. \<not> undef l) all)))"
    using L(1) by (metis mset_filter mset_map)
  ultimately have "distinct (map idx_of (filter ?v L))" by (metis mset_eq_imp_distinct_iff)
  from distinct_filter_nth [OF this] L(2) show ?thesis unfolding ivs_ok_def by blast
qed

section \<open>The allocation\<close>

text \<open>
  Property C5: in the result of the linear scan for a function, two values of the function that
  are live before or behind the same instruction, along whatever paths, are never in the same
  general or vector register. The orders in which the standard library sorts equal elements
  and iterates hash sets are arbitrary.
\<close>

theorem live_values_apart:
  assumes run: "LinearScanRegisterAlloc sort_by sort_intervals pick func gep = Some (Inr asg)"
    and sort: "\<And>f L. mset (sort_intervals f L) = mset L \<and> sorted (map f (sort_intervals f L))"
    and pick: "\<And>S. finite S \<Longrightarrow> S \<noteq> {} \<Longrightarrow> pick S \<in> S"
    and func: "graph_ok (BasicBlocks func)" "length (Instrs func) \<le> 2 ^ 23"
    and place: "b < length (BasicBlocks func)" "k < length (positions (BasicBlocks func ! b))"
    and u: "live_before func gep u b i" "i = k \<or> i = Suc k" "unat (GetIdx u) < length (Instrs func)"
    and v: "live_before func gep v b j" "j = k \<or> j = Suc k" "unat (GetIdx v) < length (Instrs func)"
    and other: "GetIdx u \<noteq> GetIdx v"
  shows "ra_register (asg ! unat (GetIdx u)) \<noteq> ra_register (asg ! unat (GetIdx v)) \<or> \<not> in_pool (ra_register (asg ! unat (GetIdx u)))"
proof (rule ccontr)
  assume "\<not> ?thesis"
  then have same: "ra_register (asg ! unat (GetIdx u)) = ra_register (asg ! unat (GetIdx v))"
    and pool: "in_pool (ra_register (asg ! unat (GetIdx u)))" "in_pool (ra_register (asg ! unat (GetIdx v)))" by auto
  obtain ivs where ivs: "ComputeLiveIntervals sort_by func gep = Some (Inr ivs)" "scan_intervals (Instrs func) pick (sort_intervals istart ivs) = Inr asg"
    using run by (auto simp: LinearScanRegisterAlloc_def bindO_Inr_iff)
  define L where "L = sort_intervals istart ivs"
  obtain all where all: "ivs = filter (\<lambda>l. \<not> undef l) all" "ivs_inv (length (Instrs func)) all"
    and cov: "\<forall>b<length (BasicBlocks func). \<forall>k<length (positions (BasicBlocks func ! b)).
       \<exists>x. \<forall>v j. live_before func gep v b j \<longrightarrow> j = k \<or> j = Suc k \<longrightarrow>
         unat (GetIdx v) < length all \<and> covers (all ! unat (GetIdx v)) x"
    by (rule intervals_law [OF ivs(1) func(1)])
  from cov place have "\<exists>x. \<forall>v j. live_before func gep v b j \<longrightarrow> j = k \<or> j = Suc k \<longrightarrow>
         unat (GetIdx v) < length all \<and> covers (all ! unat (GetIdx v)) x" by blast
  then obtain x where x: "\<And>v j. live_before func gep v b j \<Longrightarrow> j = k \<or> j = Suc k \<Longrightarrow> unat (GetIdx v) < length all \<and> covers (all ! unat (GetIdx v)) x"
    by blast
  have L: "mset L = mset (filter (\<lambda>l. \<not> undef l) all)" "sorted (map istart L)" using sort all(1) by (simp_all add: L_def)
  note ok = sorted_intervals_ok [OF all(2) func(2) L]
  have run': "scan_intervals (Instrs func) pick L = Inr asg" using ivs(2) by (simp add: L_def)
  note safe = scan_intervals_safe [OF ok pick run', simplified]
  have setL: "set L = set (filter (\<lambda>l. \<not> undef l) all)" using L(1) by (metis set_mset_mset)
  have num: "idx_of (all ! m) = int m" if "m < length all" "\<not> IsPrecolored (all ! m)" for m
    using that all(2) func(2) by (auto simp: ivs_inv_def intro!: idx_of_number)
  have at: "\<exists>a<length L. L ! a = all ! m \<and> idx_of (L ! a) = int m \<and> regof L asg a = ra_register (asg ! m)"
    if m: "m < length all" "covers (all ! m) x" "in_pool (ra_register (asg ! m))" "m < length (Instrs func)" for m
  proof (cases "IsPrecolored (all ! m)")
    case False
    have "all ! m \<in> set L" using m(1,2) setL by (simp add: covers_def)
    then obtain a where "a < length L" "L ! a = all ! m" by (metis in_set_conv_nth)
    then show ?thesis using num [OF m(1) False] False by (auto simp: regof_def)
  next
    case True
    have "nat (idx_of (L ! a)) \<noteq> m" if a: "a < length L" "\<not> IsPrecolored (L ! a)" for a
    proof -
      have "L ! a \<in> set (filter (\<lambda>l. \<not> undef l) all)" using nth_mem [OF a(1)] setL by metis
      then have "L ! a \<in> set all" by simp
      then obtain c where "c < length all" "L ! a = all ! c" by (metis in_set_conv_nth)
      then show ?thesis using num [of c] a(2) True by auto
    qed
    then have "asg ! m = RegisterAssignmentNew" using safe(3) m(4) by (simp add: untouched_def)
    then show ?thesis using m(3) by (simp add: RegisterAssignmentNew_def in_pool_def)
  qed
  from at x [OF u(1,2)] pool(1) u(3) obtain a where
    a: "a < length L" "L ! a = all ! unat (GetIdx u)" "idx_of (L ! a) = int (unat (GetIdx u))" "regof L asg a = ra_register (asg ! unat (GetIdx u))" by blast
  from at x [OF v(1,2)] pool(2) v(3) obtain c where
    c: "c < length L" "L ! c = all ! unat (GetIdx v)" "idx_of (L ! c) = int (unat (GetIdx v))" "regof L asg c = ra_register (asg ! unat (GetIdx v))" by blast
  have "a \<noteq> c" using a(3) c(3) other by (metis of_nat_eq_iff unsigned_word_eqI)
  then have "iend (L ! a) < istart (L ! c) \<or> iend (L ! c) < istart (L ! a)"
    using safe(1) a(1,4) c(1,4) same pool unfolding scan_safe_def by (metis nat_neq_iff)
  moreover have "covers (L ! a) x" "covers (L ! c) x" using x [OF u(1,2)] x [OF v(1,2)] a(2) c(2) by simp_all
  ultimately show False by (auto simp: covers_def)
qed

text \<open>A function of one block: two arguments are added and the sum is stored nowhere.\<close>

definition sample_func :: Function where
  "sample_func = FunctionNew ''f'' 0
     [5497558138989, 5501853106285, 317, 0]
     [\<lparr>Segments = [(0, 3)], Successors = [], Predecessors = []\<rparr>]"

definition sample_gep :: "bool list" where
  "sample_gep = replicate 4 False"

definition sample_assignment :: "RegisterAssignment list" where
  "sample_assignment = map RegisterAssignmentOf [RBX, RCX, -1, -1]"

lemma sample_func_code:
  "Instrs sample_func = [T3SetOpcode (T3SetTypeID 0 5) FUNC_ARG, T3SetOpcode (T3SetTypeID (T3SetSarg 0 1) 5) FUNC_ARG,
     T2SetOpcode (T2SetArg0 (T2SetArg1 0 1) 0) I64_ADD, T3SetOpcode 0 RETURN]"
  by (simp add: sample_func_def FunctionNew_def T3SetOpcode_def T3SetTypeID_def T3SetSarg_def T2SetOpcode_def T2SetArg0_def
      T2SetArg1_def SetOpcodeImpl_def)

lemma sample_alloc:
  "LinearScanRegisterAlloc sort_key sort_key Min sample_func sample_gep = Some (Inr sample_assignment)"
  by code_simp

lemma sample_reads:
  "positions (BasicBlocks sample_func ! 0) = [(0, 0), (0, 1), (0, 2), (0, 3)]"
  "GetReadValues 2 0 sample_gep (Instrs sample_func) = Inr [ValueOf 0, ValueOf 1]"
  by code_simp+

lemma sample_live: "live_before sample_func sample_gep (ValueOf 0) 0 2" "live_before sample_func sample_gep (ValueOf 1) 0 2"
proof -
  have "reads (Instrs sample_func) sample_gep (positions (BasicBlocks sample_func ! 0) ! 2) = {ValueOf 0, ValueOf 1}"
    by (simp add: reads_def sample_reads)
  moreover have "length (BasicBlocks sample_func) = 1" by (simp add: sample_func_def FunctionNew_def)
  ultimately show "live_before sample_func sample_gep (ValueOf 0) 0 2" "live_before sample_func sample_gep (ValueOf 1) 0 2"
    by (auto intro!: live_read simp: sample_reads(1))
qed

theorem live_values_apart_witness:
  "LinearScanRegisterAlloc sort_key sort_key Min sample_func sample_gep = Some (Inr sample_assignment)
   \<and> (\<forall>(f :: LiveInterval \<Rightarrow> int) L. mset (sort_key f L) = mset L \<and> sorted (map f (sort_key f L)))
   \<and> live_before sample_func sample_gep (ValueOf 0) 0 2 \<and> live_before sample_func sample_gep (ValueOf 1) 0 2
   \<and> in_pool (ra_register (sample_assignment ! 0)) \<and> ra_register (sample_assignment ! 0) \<noteq> ra_register (sample_assignment ! 1)"
proof -
  have g: "graph_ok (BasicBlocks sample_func)" "length (Instrs sample_func) = 4" "length (BasicBlocks sample_func) = 1"
    by (simp_all add: sample_func_def FunctionNew_def graph_ok_def)
  have i: "unat (GetIdx (ValueOf 0)) = 0" "unat (GetIdx (ValueOf 1)) = 1" by (simp_all add: GetIdx_def ValueOf_def)
  have "ra_register (sample_assignment ! unat (GetIdx (ValueOf 0))) \<noteq> ra_register (sample_assignment ! unat (GetIdx (ValueOf 1)))
      \<or> \<not> in_pool (ra_register (sample_assignment ! unat (GetIdx (ValueOf 0))))"
    by (rule live_values_apart [OF sample_alloc, where b = 0 and k = 2 and i = 2 and j = 2])
      (use g i sample_live in \<open>auto simp: sample_reads(1) GetIdx_def ValueOf_def\<close>)
  moreover have "in_pool (ra_register (sample_assignment ! 0))" by (simp add: sample_assignment_def RegisterAssignmentOf_def in_pool_def)
  ultimately show ?thesis using sample_alloc sample_live i by simp
qed

end
