(* ===== verification/KhirLiveExact.thy ===== *)
theory KhirLiveExact
  imports KhirIntervals
begin

text \<open>
  The data-flow analysis computes liveness exactly: its worklist ends, and a value is in the
  set of a block if and only if it is live before the first instruction.
\<close>

section \<open>Blocks\<close>

definition accesses_ok :: "u64 list \<Rightarrow> bool list \<Rightarrow> int \<times> int \<Rightarrow> bool" where
  "accesses_ok instrs gep p \<longleftrightarrow> (\<exists>rs. GetReadValues (snd p) (fst p) gep instrs = Inr rs) \<and> (\<exists>w. GetWrittenValue (snd p) instrs gep = Inr w)"

abbreviation exposed :: "u64 list \<Rightarrow> bool list \<Rightarrow> (int \<times> int) list \<Rightarrow> Value set" where
  "exposed instrs gep ps \<equiv> foldr (transfer instrs gep) ps {}"

lemma foldr_transfer:
  "foldr (transfer instrs gep) ps L = exposed instrs gep ps \<union> (L - (\<Union>p\<in>set ps. writes instrs gep p))"
  by (induction ps) (auto simp: transfer_def)

lemma external_uses_fold:
  assumes "\<forall>p\<in>set ps. accesses_ok instrs gep p" "distinct vs"
  shows "\<exists>vs' ws'. foldR (external_use_step instrs gep) (vs, ws) ps = Inr (vs', ws') \<and> distinct vs'
    \<and> set vs' = set vs \<union> (exposed instrs gep ps - set ws)"
  using assms
proof (induction ps arbitrary: vs ws)
  case (Cons p ps)
  obtain rs w where rw: "GetReadValues (snd p) (fst p) gep instrs = Inr rs" "GetWrittenValue (snd p) instrs gep = Inr w"
    using Cons.prems(1) by (auto simp: accesses_ok_def)
  define vs1 where "vs1 = foldl (\<lambda>vs v. if v \<notin> set ws then List.insert v vs else vs) vs rs"
  define ws1 where "ws1 = (case w of None \<Rightarrow> ws | Some v \<Rightarrow> List.insert v ws)"
  have step: "external_use_step instrs gep (vs, ws) p = Inr (vs1, ws1)"
    using rw by (simp add: external_use_step_def vs1_def ws1_def)
  have vs1: "set vs1 = set vs \<union> (set rs - set ws)" "distinct vs1"
    using foldl_insert_if(1) [of "set ws" vs rs] foldl_insert_if(2) [OF Cons.prems(2)] by (simp_all add: vs1_def)
  have ws1: "set ws1 = set ws \<union> writes instrs gep p" using rw(2) by (cases w) (auto simp: ws1_def writes_def)
  have rs: "reads instrs gep p = set rs" using rw(1) by (simp add: reads_def)
  from Cons.IH [OF _ vs1(2)] Cons.prems(1) obtain vs' ws' where
    r: "foldR (external_use_step instrs gep) (vs1, ws1) ps = Inr (vs', ws')" "distinct vs'" "set vs' = set vs1 \<union> (exposed instrs gep ps - set ws1)"
    by fastforce
  have "set vs' = set vs \<union> (exposed instrs gep (p # ps) - set ws)"
    unfolding r(3) vs1(1) ws1 by (auto simp: transfer_def rs)
  then show ?case using step r(1,2) by simp
qed simp

lemma AddExternalUses_ok:
  assumes "\<forall>p\<in>set (positions b). accesses_ok instrs gep p"
  shows "\<exists>u. AddExternalUses instrs gep b = Inr u \<and> distinct u \<and> set u = exposed instrs gep (positions b)"
  using external_uses_fold [OF assms, of "[]" "[]"] by (auto simp: AddExternalUses_def)

lemma AddDefs_ok:
  assumes "\<forall>p\<in>set (positions b). accesses_ok instrs gep p"
  shows "\<exists>d. AddDefs instrs gep b = Inr d \<and> set d = (\<Union>p\<in>set (positions b). writes instrs gep p)"
proof -
  let ?f = "\<lambda>values p. bindR (GetWrittenValue (snd p) instrs gep) (\<lambda>v. Inr (case v of None \<Rightarrow> values | Some v \<Rightarrow> List.insert v values))"
  have "\<exists>d. foldR ?f d0 ps = Inr d \<and> set d = set d0 \<union> (\<Union>p\<in>set ps. writes instrs gep p)"
    if "\<forall>p\<in>set ps. accesses_ok instrs gep p" for ps d0
    using that
  proof (induction ps arbitrary: d0)
    case (Cons p ps)
    obtain w where w: "GetWrittenValue (snd p) instrs gep = Inr w" using Cons.prems by (auto simp: accesses_ok_def)
    define d1 where "d1 = (case w of None \<Rightarrow> d0 | Some v \<Rightarrow> List.insert v d0)"
    have d1: "set d1 = set d0 \<union> writes instrs gep p" using w by (cases w) (auto simp: d1_def writes_def)
    from Cons.IH [of d1] Cons.prems obtain d where "foldR ?f d1 ps = Inr d" "set d = set d1 \<union> (\<Union>p\<in>set ps. writes instrs gep p)" by auto
    then show ?case using w d1 by (auto simp: d1_def)
  qed simp
  from this [OF assms, of "[]"] show ?thesis by (simp add: AddDefs_def)
qed

section \<open>Paths through blocks and through instructions\<close>

lemma live_from_exposed:
  assumes "b < length (BasicBlocks func)" "k \<le> length (positions (BasicBlocks func ! b))"
    "v \<in> exposed (Instrs func) gep (drop k (positions (BasicBlocks func ! b)))"
  shows "live_before func gep v b k"
  using assms(2,3)
proof (induction "length (positions (BasicBlocks func ! b)) - k" arbitrary: k)
  case (Suc m)
  let ?ps = "positions (BasicBlocks func ! b)"
  have k: "k < length ?ps" using Suc.hyps(2) by simp
  then have "drop k ?ps = ?ps ! k # drop (Suc k) ?ps" by (simp add: Cons_nth_drop_Suc)
  then consider "v \<in> reads (Instrs func) gep (?ps ! k)"
    | "v \<notin> writes (Instrs func) gep (?ps ! k)" "v \<in> exposed (Instrs func) gep (drop (Suc k) ?ps)"
    using Suc.prems(2) by (auto simp: transfer_def)
  then show ?case
  proof cases
    case 2
    have "live_before func gep v b (Suc k)" by (rule Suc.hyps(1)) (use Suc.hyps(2) k 2 in auto)
    then show ?thesis using live_pass assms(1) k 2(1) by blast
  qed (use live_read assms(1) k in blast)
qed simp

lemma live_not_written:
  assumes "edge (BasicBlocks func) b c" "live_before func gep v c 0" "k \<le> length (positions (BasicBlocks func ! b))"
    "v \<notin> (\<Union>p\<in>set (positions (BasicBlocks func ! b)). writes (Instrs func) gep p)"
  shows "live_before func gep v b k"
  using assms(3)
proof (induction rule: inc_induct)
  case base
  then show ?case using live_edge assms(1,2) by blast
next
  case (step k)
  have "b < length (BasicBlocks func)" using assms(1) by (simp add: edge_def)
  then show ?case using live_pass step assms(4) nth_mem by (metis UN_I)
qed

lemma live_path_before:
  assumes graph: "graph_ok (BasicBlocks func)" and b: "b < length (BasicBlocks func)"
    and uses: "\<And>b. b < length (BasicBlocks func) \<Longrightarrow> set (uses ! b) = exposed (Instrs func) gep (positions (BasicBlocks func ! b))"
    and defs: "\<And>b. b < length (BasicBlocks func) \<Longrightarrow> set (defs ! b) = (\<Union>p\<in>set (positions (BasicBlocks func ! b)). writes (Instrs func) gep p)"
  shows "live_path (BasicBlocks func) uses defs v b \<longleftrightarrow> live_before func gep v b 0"
proof
  assume "live_path (BasicBlocks func) uses defs v b"
  then show "live_before func gep v b 0" using b
  proof (induction rule: live_path.induct)
    case (live_use v b)
    then show ?case using live_from_exposed [of b func 0 v gep] uses by simp
  next
    case (live_through b c v)
    then have "c < length (BasicBlocks func)" using edge_in [OF graph] by blast
    then show ?case using live_not_written [of func b c gep v 0] live_through defs by simp
  qed
next
  let ?li = "\<lambda>b. {v. live_path (BasicBlocks func) uses defs v b}"
  have sol: "foldr (transfer (Instrs func) gep) (positions (BasicBlocks func ! b)) (\<Union>c\<in>set (Successors (BasicBlocks func ! b)). ?li c) \<subseteq> ?li b"
    (is "foldr _ _ ?out \<subseteq> _")
    if b: "b < length (BasicBlocks func)" for b
  proof
    fix v assume "v \<in> foldr (transfer (Instrs func) gep) (positions (BasicBlocks func ! b)) ?out"
    then have "v \<in> set (uses ! b) \<or> v \<in> ?out \<and> v \<notin> set (defs ! b)"
      using foldr_transfer [of "Instrs func" gep _ ?out] uses [OF b] defs [OF b] by auto
    then show "v \<in> ?li b" using b by (auto intro: live_path.intros simp: edge_def)
  qed
  assume "live_before func gep v b 0"
  from live_before_solution [OF this sol graph] have "v \<in> ?li b" using sol [OF b] by auto
  then show "live_path (BasicBlocks func) uses defs v b" by simp
qed

section \<open>The analysis\<close>

lemma uses_defs_fold:
  assumes "\<forall>b\<in>set bs. \<forall>p\<in>set (positions b). accesses_ok instrs gep p"
  shows "\<exists>us ds. foldR (\<lambda>(l, d) b. bindR (AddExternalUses instrs gep b) (\<lambda>u. bindR (AddDefs instrs gep b) (\<lambda>w. Inr (l @ [u], d @ [w])))) (us0, ds0) bs
      = Inr (us0 @ us, ds0 @ ds) \<and> length us = length bs \<and> length ds = length bs
    \<and> (\<forall>b<length bs. distinct (us ! b) \<and> set (us ! b) = exposed instrs gep (positions (bs ! b))
         \<and> set (ds ! b) = (\<Union>p\<in>set (positions (bs ! b)). writes instrs gep p))"
  using assms
proof (induction bs arbitrary: us0 ds0)
  case (Cons b bs)
  obtain u where u: "AddExternalUses instrs gep b = Inr u" "distinct u" "set u = exposed instrs gep (positions b)"
    using AddExternalUses_ok [of b instrs gep] Cons.prems by auto
  obtain d where d: "AddDefs instrs gep b = Inr d" "set d = (\<Union>p\<in>set (positions b). writes instrs gep p)"
    using AddDefs_ok [of b instrs gep] Cons.prems by auto
  from Cons.IH [of "us0 @ [u]" "ds0 @ [d]"] Cons.prems obtain us ds where
    r: "foldR (\<lambda>(l, d) b. bindR (AddExternalUses instrs gep b) (\<lambda>u. bindR (AddDefs instrs gep b) (\<lambda>w. Inr (l @ [u], d @ [w])))) (us0 @ [u], ds0 @ [d]) bs
      = Inr ((us0 @ [u]) @ us, (ds0 @ [d]) @ ds)" "length us = length bs" "length ds = length bs"
    "\<forall>b<length bs. distinct (us ! b) \<and> set (us ! b) = exposed instrs gep (positions (bs ! b))
         \<and> set (ds ! b) = (\<Union>p\<in>set (positions (bs ! b)). writes instrs gep p)" by auto
  show ?case
    by (rule exI [of _ "u # us"], rule exI [of _ "d # ds"])
      (use u d r in \<open>auto simp: less_Suc_eq_0_disj\<close>)
qed simp

text \<open>
  Property C8: for a function whose edges agree in both directions and whose instructions are
  well formed, the liveness worklist ends without an error, a value is in the set of a block if
  and only if it is live before its first instruction, and every block passes the check that
  the backward scan over its instructions gives the same set.
\<close>

theorem live_in_exact:
  assumes "graph_ok (BasicBlocks func)" "edges_agree (BasicBlocks func)"
    "\<forall>b\<in>set (BasicBlocks func). \<forall>p\<in>set (positions b). accesses_ok (Instrs func) gep p"
  shows "\<exists>li. ComputeLiveIn func gep = Some (Inr li) \<and> length li = length (BasicBlocks func)
    \<and> (\<forall>b<length (BasicBlocks func). set (li ! b) = {v. live_before func gep v b 0}
         \<and> set (li ! b) = foldr (transfer (Instrs func) gep) (positions (BasicBlocks func ! b))
              (\<Union>c\<in>set (Successors (BasicBlocks func ! b)). set (li ! c)))"
proof -
  let ?bb = "BasicBlocks func"
  from uses_defs_fold [OF assms(3), of "[]" "[]"] obtain us ds where
    r: "foldR (\<lambda>(l, d) b. bindR (AddExternalUses (Instrs func) gep b) (\<lambda>u. bindR (AddDefs (Instrs func) gep b) (\<lambda>w. Inr (l @ [u], d @ [w])))) ([], []) ?bb
      = Inr (us, ds)" "length us = length ?bb" "length ds = length ?bb"
    and ud: "\<And>b. b < length ?bb \<Longrightarrow> distinct (us ! b)"
      "\<And>b. b < length ?bb \<Longrightarrow> set (us ! b) = exposed (Instrs func) gep (positions (?bb ! b))"
      "\<And>b. b < length ?bb \<Longrightarrow> set (ds ! b) = (\<Union>p\<in>set (positions (?bb ! b)). writes (Instrs func) gep p)" by auto
  have "live_inv ?bb us ds us (rev [0..<length ?bb])"
    using r(2) ud(1) by (auto simp: live_inv_def intro: live_use)
  from live_loop_total [OF assms(1,2) r(3) this] obtain li where
    li: "live_loop ?bb ds us (rev [0..<length ?bb]) = Some (Inr li)" "live_inv ?bb us ds li []" by blast
  have path: "set (li ! b) = {v. live_path ?bb us ds v b}" if "b < length ?bb" for b
    by (rule live_inv_end [OF assms(1) li(2) r(2) that])
  have before: "set (li ! b) = {v. live_before func gep v b 0}" if "b < length ?bb" for b
    using path [OF that] live_path_before [OF assms(1) that ud(2,3)] by simp
  have "set (li ! b) = foldr (transfer (Instrs func) gep) (positions (?bb ! b)) (\<Union>c\<in>set (Successors (?bb ! b)). set (li ! c))"
    (is "_ = foldr _ _ ?out") if b: "b < length ?bb" for b
  proof (rule set_eqI)
    fix v
    have succ: "v \<in> ?out \<longleftrightarrow> (\<exists>c. edge ?bb b c \<and> live_path ?bb us ds v c)"
      using path graph_okD(1) [OF assms(1) b] b by (auto simp: edge_def)
    have "live_path ?bb us ds v b \<longleftrightarrow> v \<in> set (us ! b) \<or> v \<in> ?out \<and> v \<notin> set (ds ! b)"
      unfolding succ by (subst live_path.simps) auto
    then show "v \<in> set (li ! b) \<longleftrightarrow> v \<in> foldr (transfer (Instrs func) gep) (positions (?bb ! b)) ?out"
      using foldr_transfer [of "Instrs func" gep "positions (?bb ! b)" ?out] path [OF b] ud(2,3) [OF b] by simp
  qed
  moreover have "ComputeLiveIn func gep = Some (Inr li)" using r(1) li(1) by (simp add: ComputeLiveIn_def)
  moreover have "length li = length ?bb" by (rule live_invD(1) [OF li(2)])
  ultimately show ?thesis using before by blast
qed

text \<open>An argument that a loop reads in every round.\<close>

definition loop_func :: Function where
  "loop_func = FunctionNew ''loop'' 0 [5497558138989, 1048680, 61, 1048680]
     [\<lparr>Segments = [(0, 1)], Successors = [1], Predecessors = []\<rparr>,
      \<lparr>Segments = [(2, 3)], Successors = [1], Predecessors = [0, 1]\<rparr>]"

lemma accesses_ok_code [code]:
  "accesses_ok instrs gep p \<longleftrightarrow> \<not> isl (GetReadValues (snd p) (fst p) gep instrs) \<and> \<not> isl (GetWrittenValue (snd p) instrs gep)"
  by (metis accesses_ok_def isl_def sum.disc(2) sum.exhaust)

theorem live_in_exact_witness:
  "graph_ok (BasicBlocks loop_func) \<and> edges_agree (BasicBlocks loop_func)
   \<and> (\<exists>li. ComputeLiveIn loop_func (replicate 4 False) = Some (Inr li)
        \<and> set (li ! 1) = {v. live_before loop_func (replicate 4 False) v 1 0} \<and> ValueOf 0 \<in> set (li ! 1))"
proof -
  have ok: "graph_ok (BasicBlocks loop_func)" "edges_agree (BasicBlocks loop_func)" by code_simp+
  have acc: "\<forall>b\<in>set (BasicBlocks loop_func). \<forall>p\<in>set (positions b). accesses_ok (Instrs loop_func) (replicate 4 False) p"
    by code_simp
  have len: "1 < length (BasicBlocks loop_func)" by code_simp
  obtain li where li: "ComputeLiveIn loop_func (replicate 4 False) = Some (Inr li)"
    "set (li ! 1) = {v. live_before loop_func (replicate 4 False) v 1 0}"
    using live_in_exact [OF ok acc] len by blast
  have "ComputeLiveIn loop_func (replicate 4 False) = Some (Inr [[], [ValueOf 0]])" by code_simp
  then have "li = [[], [ValueOf 0]]" using li(1) by simp
  then have "ValueOf 0 \<in> set (li ! 1)" by (simp only: nth_Cons_0 nth_Cons_Suc One_nat_def list.set insertI1)
  with ok li show ?thesis by blast
qed

end
