(* ===== verification/KhirCfg.thy ===== *)
theory KhirCfg
  imports KhirProgram KhirBuilder
begin

text \<open>
  Simplification of the control-flow graph (\<^verbatim>\<open>khir/cfg_simplify.cc\<close>) and the construction of the
  finished program (\<^verbatim>\<open>ProgramBuilder::Build\<close>). Loops whose number of rounds depends on the data are
  partial functions into options. A queue is a list, the front first. Merging a block with
  itself inserts a range of a vector into the same vector, which is undefined.
\<close>

section \<open>Blocks without predecessors\<close>

definition all_deleted :: "bool list \<Rightarrow> nat list \<Rightarrow> bool res" where
  "all_deleted deleted preds =
     foldR (\<lambda>acc pred. if \<not> acc then Inr False else nthR deleted pred) True preds"

definition delete_succ :: "BasicBlock list \<Rightarrow> bool list \<times> nat list \<Rightarrow> nat \<Rightarrow> (bool list \<times> nat list) res" where
  "delete_succ bb st succ =
     (case st of (deleted, worklist) \<Rightarrow>
       bindR (nthR deleted succ) (\<lambda>gone.
       if gone then Inr (deleted, worklist)
       else
         bindR (nthR bb succ) (\<lambda>b.
         bindR (all_deleted deleted (Predecessors b)) (\<lambda>all.
           if all then bindR (updR deleted succ True) (\<lambda>deleted. Inr (deleted, worklist @ [succ]))
           else Inr (deleted, worklist)))))"

definition delete_step :: "BasicBlock list \<Rightarrow> bool list \<Rightarrow> nat list \<Rightarrow> (bool list \<times> nat list) res" where
  "delete_step bb deleted worklist =
     bindR (nthR bb (hd worklist)) (\<lambda>b.
       foldR (delete_succ bb) (deleted, tl worklist) (Successors b))"

partial_function (option) delete_loop :: "BasicBlock list \<Rightarrow> bool list \<Rightarrow> nat list \<Rightarrow> bool list ores" where
  "delete_loop bb deleted worklist =
     (if worklist = [] then Some (Inr deleted)
      else
        (case delete_step bb deleted worklist of
           Inl e \<Rightarrow> Some (Inl e)
         | Inr st \<Rightarrow> delete_loop bb (fst st) (snd st)))"

declare delete_loop.simps [code]

definition no_predecessors :: "BasicBlock list \<Rightarrow> nat list" where
  "no_predecessors bb = filter (\<lambda>i. Predecessors (bb ! i) = []) [1..<length bb]"

definition GetDeletedBlocks :: "BasicBlock list \<Rightarrow> bool list ores" where
  "GetDeletedBlocks bb =
     delete_loop bb
       (foldl (\<lambda>d i. d[i := True]) (replicate (length bb) False) (no_predecessors bb))
       (no_predecessors bb)"

section \<open>Replacing values\<close>

text \<open>The map from values to the values that replace them; the latest entry of a key counts.\<close>

type_synonym value_map = "(u32 \<times> u32) list"

partial_function (option) chase :: "value_map \<Rightarrow> u32 \<Rightarrow> u32 option" where
  "chase value_map v = (case map_of value_map v of None \<Rightarrow> Some v | Some w \<Rightarrow> chase value_map w)"

declare chase.simps [code]

definition RewriteInstr :: "value_map \<Rightarrow> u64 \<Rightarrow> u64 ores" where
  "RewriteInstr value_map instr =
     (let opcode = OpcodeFrom (GenericOpcode instr) in
      if opcode \<in> set [I1_AND, I1_OR, I1_CMP_EQ, I1_CMP_NE, I8_ADD, I8_MUL, I8_SUB, I8_CMP_EQ, I8_CMP_NE,
                        I8_CMP_LT, I8_CMP_LE, I8_CMP_GT, I8_CMP_GE, I16_ADD, I16_MUL, I16_SUB, I16_CMP_EQ,
                        I16_CMP_NE, I16_CMP_LT, I16_CMP_LE, I16_CMP_GT, I16_CMP_GE, I32_ADD, I32_MUL, I32_SUB,
                        I32_CMP_EQ, I32_CMP_NE, I32_CMP_LT, I32_CMP_LE, I32_CMP_GT, I32_CMP_GE,
                        I32_VEC8_CMP_EQ, I32_VEC8_CMP_NE, I32_VEC8_CMP_GT, I32_VEC8_CMP_GE, I32_VEC8_CMP_LT,
                        I32_VEC8_CMP_LE, I32_VEC8_ADD, I1_VEC8_AND, I1_VEC8_NOT, I1_VEC8_MASK_EXTRACT,
                        I64_POPCOUNT, MASK_TO_PERMUTE, I32_VEC8_PERMUTE, I1_VEC8_OR, I64_ADD, I64_MUL, I64_SUB,
                        I64_LSHIFT, I64_RSHIFT, I64_AND, I64_OR, I64_XOR, I64_CMP_EQ, I64_CMP_NE, I64_CMP_LT,
                        I64_CMP_LE, I64_CMP_GT, I64_CMP_GE, F64_ADD, F64_MUL, F64_SUB, F64_DIV, F64_CMP_EQ,
                        F64_CMP_NE, F64_CMP_LT, F64_CMP_LE, F64_CMP_GT, F64_CMP_GE, PHI_MEMBER, I1_LNOT,
                        I1_ZEXT_I8, I1_ZEXT_I64, I8_ZEXT_I64, I8_CONV_F64, I16_ZEXT_I64, I16_CONV_F64,
                        I32_ZEXT_I64, I32_CONV_I32_VEC8, I32_CONV_F64, I64_CONV_F64, I64_TRUNC_I16,
                        I64_TRUNC_I32, F64_CONV_I64, PTR_CMP_NULLPTR, I1_LOAD, I8_LOAD, I16_LOAD, I32_LOAD,
                        I32_VEC8_LOAD, I64_LOAD, F64_LOAD, I8_STORE, I16_STORE, I32_STORE, I64_STORE,
                        F64_STORE, PTR_STORE, I32_VEC8_MASK_STORE, I32_VEC8_MASK_STORE_INFO, GEP_STATIC_OFFSET,
                        GEP_DYNAMIC_OFFSET, I32_CMP_EQ_ANY_CONST_VEC4, I32_CMP_EQ_ANY_CONST_VEC8]
      then
        (case chase value_map (T2Arg0 instr) of None \<Rightarrow> None | Some v0 \<Rightarrow>
        (case chase value_map (T2Arg1 instr) of None \<Rightarrow> None | Some v1 \<Rightarrow>
           Some (Inr (T2SetArg1 (T2SetArg0 instr v0) v1))))
      else if opcode \<in> set [GEP_DYNAMIC, PTR_CAST, PTR_LOAD, RETURN_VALUE, CALL_ARG]
      then (case chase value_map (T3Arg instr) of None \<Rightarrow> None | Some v0 \<Rightarrow> Some (Inr (T3SetArg instr v0)))
      else if opcode = CONDBR
      then (case chase value_map (T5Arg instr) of None \<Rightarrow> None | Some v0 \<Rightarrow> Some (Inr (T5SetArg instr v0)))
      else Some (Inr instr))"

section \<open>Merging a block with its only successor\<close>

text \<open>The phis at the start of the successor are replaced by the members before the branch.\<close>

function phi_loop :: "u64 list \<Rightarrow> int \<times> int \<Rightarrow> int \<times> int \<Rightarrow> int \<Rightarrow> value_map \<Rightarrow> (int \<times> value_map) res" where
  "phi_loop instrs end_segment start_segment instr_offset value_map =
     (if fst start_segment + instr_offset \<le> snd start_segment then
        bindR (nthI instrs (fst start_segment + instr_offset)) (\<lambda>phi.
        if OpcodeFrom (GenericOpcode phi) = PHI then
          bindR (nthI instrs (snd end_segment - 1 - instr_offset)) (\<lambda>reader.
          if OpcodeFrom (T2Opcode reader) \<noteq> PHI_MEMBER then Inl (RuntimeError ''Missing phi member'')
          else phi_loop instrs end_segment start_segment (instr_offset + 1) ((T2Arg0 reader, T2Arg1 reader) # value_map))
        else Inr (instr_offset, value_map))
      else Inr (instr_offset, value_map))"
  by pat_completeness auto
termination
  by (relation "measure (\<lambda>(_, _, s, i, _). nat (snd s - fst s - i + 1))") auto

declare phi_loop.simps [simp del]

record merge_state =
  mg_segments :: "(int \<times> int) list list"
  mg_deleted :: "bool list"
  mg_succ :: "nat list list"
  mg_pred :: "nat list list"
  mg_map :: value_map

text \<open>The segments of the two blocks after their phis, members and the branch were cut off.\<close>

definition merge_segments :: "int \<Rightarrow> (int \<times> int) list \<Rightarrow> (int \<times> int) list \<Rightarrow> (int \<times> int) list" where
  "merge_segments off si sj =
     (let end_segment = (fst (last si), snd (last si) - off - 1);
          start_segment = (fst (hd sj) + off, snd (hd sj))
      in (if fst end_segment > snd end_segment then butlast si else butlast si @ [end_segment])
         @ (if fst start_segment > snd start_segment then tl sj else start_segment # tl sj))"

definition merge_pair :: "u64 list \<Rightarrow> nat \<Rightarrow> nat \<Rightarrow> merge_state \<Rightarrow> merge_state res" where
  "merge_pair instrs i j st =
     bindR (nthR (mg_segments st) i) (\<lambda>si.
     bindR (nthR (mg_segments st) j) (\<lambda>sj.
     bindR (guardR (i \<noteq> j \<and> si \<noteq> [] \<and> sj \<noteq> []) Undefined) (\<lambda>_.
     bindR (phi_loop instrs (last si) (hd sj) 0 (mg_map st)) (\<lambda>(off, value_map).
     bindR (updR (mg_segments st) i (merge_segments off si sj)) (\<lambda>segs.
     bindR (updR (mg_deleted st) j True) (\<lambda>deleted.
     bindR (nthR (mg_succ st) j) (\<lambda>succ_j.
     bindR (updR (mg_succ st) i succ_j) (\<lambda>succ.
     bindR (foldR (\<lambda>pred nxt. bindR (nthR pred nxt) (\<lambda>l. updR pred nxt (map (\<lambda>p. if p = j then i else p) l)))
              (mg_pred st) succ_j) (\<lambda>pred.
       Inr (st\<lparr>mg_segments := segs, mg_deleted := deleted, mg_succ := succ, mg_pred := pred, mg_map := value_map\<rparr>))))))))))"

definition mergeable :: "merge_state \<Rightarrow> nat \<Rightarrow> nat option res" where
  "mergeable st i =
     bindR (nthR (mg_succ st) i) (\<lambda>s.
       case s of
         [j] \<Rightarrow> bindR (nthR (mg_pred st) j) (\<lambda>p. Inr (if length p = 1 then Some j else None))
       | _ \<Rightarrow> Inr None)"

partial_function (option) merge_loop :: "u64 list \<Rightarrow> nat \<Rightarrow> merge_state \<Rightarrow> merge_state ores" where
  "merge_loop instrs i st =
     (case mergeable st i of
        Inl e \<Rightarrow> Some (Inl e)
      | Inr m \<Rightarrow>
          (case m of
             None \<Rightarrow> Some (Inr st)
           | Some j \<Rightarrow>
               (case merge_pair instrs i j st of
                  Inl e \<Rightarrow> Some (Inl e)
                | Inr st' \<Rightarrow> merge_loop instrs i st')))"

declare merge_loop.simps [code]

definition live_edges :: "bool list \<Rightarrow> nat list \<Rightarrow> nat list res" where
  "live_edges deleted xs =
     foldR (\<lambda>acc x. bindR (nthR deleted x) (\<lambda>d. Inr (if \<not> d then acc @ [x] else acc))) [] xs"

definition rewrite_block_instrs :: "value_map \<Rightarrow> u64 list \<Rightarrow> (int \<times> int) list \<Rightarrow> u64 list ores" where
  "rewrite_block_instrs value_map instrs segs =
     foldO (\<lambda>instrs i.
       bindO (Some (nthI instrs i)) (\<lambda>instr.
       bindO (RewriteInstr value_map instr) (\<lambda>instr. Some (updI instrs i instr))))
       instrs (concat (map (\<lambda>seg. [fst seg .. snd seg]) segs))"

definition MergeBasicBlocks ::
    "u64 list \<Rightarrow> BasicBlock list \<Rightarrow> bool list \<Rightarrow> (u64 list \<times> BasicBlock list \<times> bool list) ores" where
  "MergeBasicBlocks instrs bb deleted =
     bindO (Some (foldR (\<lambda>l b. bindR (live_edges deleted (Successors b)) (\<lambda>s. Inr (l @ [s]))) [] bb)) (\<lambda>succ.
     bindO (Some (foldR (\<lambda>l b. bindR (live_edges deleted (Predecessors b)) (\<lambda>p. Inr (l @ [p]))) [] bb)) (\<lambda>pred.
     bindO (foldO (\<lambda>st i. if mg_deleted st ! i then Some (Inr st) else merge_loop instrs i st)
              \<lparr>mg_segments = map Segments bb, mg_deleted = deleted, mg_succ = succ, mg_pred = pred, mg_map = []\<rparr>
              [0..<length bb]) (\<lambda>st.
     bindO (foldO (\<lambda>instrs i. if mg_deleted st ! i then Some (Inr instrs)
                     else rewrite_block_instrs (mg_map st) instrs (mg_segments st ! i))
              instrs [0..<length bb]) (\<lambda>instrs.
       Some (Inr (instrs,
         map (\<lambda>i. \<lparr>Segments = mg_segments st ! i,
                   Successors = (if mg_deleted st ! i then Successors (bb ! i) else mg_succ st ! i),
                   Predecessors = (if mg_deleted st ! i then Predecessors (bb ! i) else mg_pred st ! i)\<rparr>)
           [0..<length bb],
         mg_deleted st))))))"

section \<open>The result\<close>

definition rewrite_edges :: "bool list \<Rightarrow> (nat \<rightharpoonup> nat) \<Rightarrow> nat list \<Rightarrow> nat list res" where
  "rewrite_edges deleted bb_idx xs =
     foldR (\<lambda>acc x. bindR (nthR deleted x) (\<lambda>d.
              if d then Inr acc else bindR (atR bb_idx x) (\<lambda>y. Inr (acc @ [y])))) [] xs"

definition RewriteBlock ::
    "BasicBlock \<Rightarrow> u64 list \<Rightarrow> bool list \<Rightarrow> (nat \<rightharpoonup> nat) \<Rightarrow> (BasicBlock \<times> u64 list) res" where
  "RewriteBlock block instrs deleted bb_idx =
     bindR (rewrite_edges deleted bb_idx (Predecessors block)) (\<lambda>predecessors.
     bindR (rewrite_edges deleted bb_idx (Successors block)) (\<lambda>successors.
     let block = block\<lparr>Predecessors := predecessors, Successors := successors\<rparr> in
     bindR (guardR (Segments block \<noteq> []) Undefined) (\<lambda>_.
     let end_instr_idx = snd (last (Segments block)) in
     bindR (nthI instrs end_instr_idx) (\<lambda>reader.
     let opcode = OpcodeFrom (T5Opcode reader) in
     if opcode = BR then
       bindR (atR bb_idx (unat (T5Marg0 reader))) (\<lambda>n.
       bindR (updI instrs end_instr_idx (T5SetMarg0 reader (of_nat n))) (\<lambda>instrs. Inr (block, instrs)))
     else if opcode = CONDBR then
       bindR (atR bb_idx (unat (T5Marg0 reader))) (\<lambda>n1.
       bindR (atR bb_idx (unat (T5Marg1 reader))) (\<lambda>n2.
       bindR (updI instrs end_instr_idx (T5SetMarg1 (T5SetMarg0 reader (of_nat n1)) (of_nat n2))) (\<lambda>instrs.
         Inr (block, instrs))))
     else if opcode \<in> set [RETURN, RETURN_VALUE] then Inr (block, instrs)
     else Inl (RuntimeError ''BB not terminated'')))))"

definition kept_blocks :: "bool list \<Rightarrow> nat list" where
  "kept_blocks deleted = filter (\<lambda>i. \<not> deleted ! i) [0..<length deleted]"

definition CFGSimplify :: "u64 list \<Rightarrow> BasicBlock list \<Rightarrow> (u64 list \<times> BasicBlock list) ores" where
  "CFGSimplify instrs bb =
     bindO (GetDeletedBlocks bb) (\<lambda>deleted.
     bindO (MergeBasicBlocks instrs bb deleted) (\<lambda>(instrs, bb, deleted).
     let kept = kept_blocks deleted; bb_idx = map_of (zip kept [0..<length kept]) in
       Some (foldR (\<lambda>(instrs, output) i.
         bindR (RewriteBlock (bb ! i) instrs deleted bb_idx) (\<lambda>(block, instrs).
           Inr (instrs, output @ [block]))) (instrs, []) kept)))"

definition builder_blocks :: "FunctionBuilder \<Rightarrow> BasicBlock list" where
  "builder_blocks func =
     map (\<lambda>i. \<lparr>Segments = [basic_blocks func ! i], Successors = basic_block_successors func ! i,
               Predecessors = basic_block_predecessors func ! i\<rparr>) [0..<length (basic_blocks func)]"

definition build_function :: "FunctionBuilder \<Rightarrow> Function ores" where
  "build_function func =
     (if fb_external func then Some (Inr (FunctionExternal (fb_name func) (fb_function_type func) (fb_func func)))
      else
        bindO (CFGSimplify (instructions func) (builder_blocks func)) (\<lambda>(instrs, blocks).
          Some (Inr (FunctionNew (fb_name func) (fb_function_type func) instrs blocks))))"

definition Build :: "'l ProgramBuilder \<Rightarrow> 'l Program ores" where
  "Build st =
     bindO (foldO (\<lambda>fs f. bindO (build_function f) (\<lambda>g. Some (Inr (fs @ [g])))) [] (pb_functions st)) (\<lambda>fs.
       Some (Inr \<lparr>pr_type_manager = type_manager st, pr_functions = fs, pr_constant_instrs = constant_instrs st,
         pr_ptr_constants = ptr_constants st, pr_i64_constants = i64_constants st, pr_f64_constants = f64_constants st,
         pr_char_array_constants = char_array_constants st, pr_struct_constants = struct_constants st,
         pr_array_constants = array_constants st, pr_globals = globals st, pr_vec4_constants = vec4_constants st,
         pr_vec8_constants = vec8_constants st\<rparr>))"

end
