(* ===== verification/KhirCfgCorrect.thy ===== *)
theory KhirCfgCorrect
  imports KhirCfg
begin

text \<open>
  Which blocks the simplification deletes: none that the entry reaches, and all that no chain
  of undeleted predecessors keeps. When the entry block has predecessors this is not so, and
  neither is merging correct; both are shown on examples.
\<close>

section \<open>Deleting blocks\<close>

lemma all_deleted_ok:
  assumes "\<forall>p\<in>set preds. p < length d"
  shows "all_deleted d preds = Inr (\<forall>p\<in>set preds. d ! p)"
proof -
  have "foldR (\<lambda>acc pred. if \<not> acc then Inr False else nthR d pred) acc preds = Inr (acc \<and> (\<forall>p\<in>set preds. d ! p))" for acc
    using assms by (induction preds arbitrary: acc) auto
  then show ?thesis by (simp add: all_deleted_def)
qed

text \<open>Deleted blocks are not the entry and have only deleted predecessors.\<close>

definition del_sound :: "BasicBlock list \<Rightarrow> bool list \<Rightarrow> nat list \<Rightarrow> bool" where
  "del_sound bb d wl \<longleftrightarrow> length d = length bb \<and> (\<forall>b\<in>set wl. b < length bb \<and> d ! b)
     \<and> (\<forall>b<length bb. d ! b \<longrightarrow> b \<noteq> 0 \<and> (\<forall>p\<in>set (Predecessors (bb ! b)). d ! p))"

text \<open>A block that is not deleted has a reason, or one that is still to be looked at.\<close>

definition del_kept :: "BasicBlock list \<Rightarrow> bool list \<Rightarrow> nat list \<Rightarrow> nat \<Rightarrow> bool" where
  "del_kept bb d wl b \<longleftrightarrow> b = 0 \<or> d ! b \<or> (\<exists>p\<in>set (Predecessors (bb ! b)). \<not> d ! p \<or> p \<in> set wl)"

definition undeleted :: "bool list \<Rightarrow> nat" where
  "undeleted d = length (filter Not d)"

lemma undeleted_update: "x < length d \<Longrightarrow> \<not> d ! x \<Longrightarrow> undeleted d = Suc (undeleted (d[x := True]))"
proof -
  assume x: "x < length d" "\<not> d ! x"
  have "d = take x d @ False # drop (Suc x) d" using x by (metis id_take_nth_drop)
  then have "undeleted d = length (filter Not (take x d)) + Suc (length (filter Not (drop (Suc x) d)))"
    unfolding undeleted_def by (metis filter.simps(2) filter_append length_Cons length_append)
  then show ?thesis using x(1) by (simp add: undeleted_def upd_conv_take_nth_drop)
qed

lemma delete_succ_law:
  assumes graph: "graph_ok bb" "edges_agree bb" "bb \<noteq> []" "Predecessors (bb ! 0) = []"
    and c: "c < length bb" and x: "x \<in> set (Successors (bb ! c))"
    and s: "del_sound bb d wl" "\<forall>b<length bb. del_kept bb d wl b \<or> c \<in> set (Predecessors (bb ! b)) \<and> b \<notin> done"
    and dc: "d ! c"
  shows "\<exists>d' wl'. delete_succ bb (d, wl) x = Inr (d', wl') \<and> del_sound bb d' wl' \<and> d' ! c
    \<and> (\<forall>b<length bb. del_kept bb d' wl' b \<or> c \<in> set (Predecessors (bb ! b)) \<and> b \<notin> insert x done)
    \<and> 2 * undeleted d' + length wl' \<le> 2 * undeleted d + length wl"
proof -
  have xin: "x < length bb" by (rule graph_okD(1) [OF graph(1) c x])
  have len: "length d = length bb" using s(1) by (simp add: del_sound_def)
  have cx: "c \<in> set (Predecessors (bb ! x))" using graph(2) c xin x by (simp add: edges_agree_def)
  have x0: "x \<noteq> 0" using cx graph(4) by (metis emptyE list.set(1))
  have preds: "\<forall>p\<in>set (Predecessors (bb ! x)). p < length d" using graph_okD(2) [OF graph(1) xin] len by simp
  show ?thesis
  proof (cases "d ! x")
    case True
    then have "delete_succ bb (d, wl) x = Inr (d, wl)" using xin len by (simp add: delete_succ_def)
    moreover have "del_kept bb d wl x" using True by (simp add: del_kept_def)
    then have "\<forall>b<length bb. del_kept bb d wl b \<or> c \<in> set (Predecessors (bb ! b)) \<and> b \<notin> insert x done" using s(2) by blast
    ultimately show ?thesis using s(1) dc by blast
  next
    case nx: False
    show ?thesis
    proof (cases "\<forall>p\<in>set (Predecessors (bb ! x)). d ! p")
      case True
      let ?d = "d[x := True]" and ?wl = "wl @ [x]"
      have run: "delete_succ bb (d, wl) x = Inr (?d, ?wl)"
        using nx True xin len all_deleted_ok [OF preds] by (simp add: delete_succ_def)
      have mono: "?d ! b" if "d ! b" for b using that len xin by (cases "b = x") auto
      have new: "d ! b \<or> b = x" if "?d ! b" "b < length bb" for b using that by (cases "b = x") auto
      have "del_sound bb ?d ?wl"
        unfolding del_sound_def
      proof (intro conjI ballI allI impI)
        show "length ?d = length bb" using len by simp
        fix b assume "b \<in> set ?wl"
        then show "b < length bb" "?d ! b" using s(1) xin len mono by (auto simp: del_sound_def)
      next
        fix b assume b: "b < length bb" "?d ! b"
        then consider "d ! b" | "b = x" using new by blast
        then show "b \<noteq> 0" using s(1) x0 b(1) unfolding del_sound_def by cases blast+
        fix p assume p: "p \<in> set (Predecessors (bb ! b))"
        from new [OF b(2,1)] have "d ! p" using p True s(1) b(1) unfolding del_sound_def by blast
        then show "?d ! p" by (rule mono)
      qed
      moreover have "\<forall>b<length bb. del_kept bb ?d ?wl b \<or> c \<in> set (Predecessors (bb ! b)) \<and> b \<notin> insert x done"
      proof (intro allI impI)
        fix b assume b: "b < length bb"
        show "del_kept bb ?d ?wl b \<or> c \<in> set (Predecessors (bb ! b)) \<and> b \<notin> insert x done"
        proof (cases "b = x")
          case True
          then show ?thesis using len xin by (simp add: del_kept_def)
        next
          case False
          have "del_kept bb ?d ?wl b" if k: "del_kept bb d wl b"
          proof -
            have "\<not> ?d ! p \<or> p \<in> set ?wl" if "\<not> d ! p \<or> p \<in> set wl" for p
              using that by (cases "p = x") auto
            then show ?thesis using k mono unfolding del_kept_def by blast
          qed
          then show ?thesis using s(2) b False by blast
        qed
      qed
      moreover have "2 * undeleted ?d + length ?wl \<le> 2 * undeleted d + length wl"
        using undeleted_update [of x d] nx xin len by simp
      ultimately show ?thesis using run mono [OF dc] by blast
    next
      case False
      then have run: "delete_succ bb (d, wl) x = Inr (d, wl)"
        using nx xin len all_deleted_ok [OF preds] by (simp add: delete_succ_def)
      have "del_kept bb d wl x" using False by (auto simp: del_kept_def)
      then have "\<forall>b<length bb. del_kept bb d wl b \<or> c \<in> set (Predecessors (bb ! b)) \<and> b \<notin> insert x done" using s(2) by blast
      then show ?thesis using run s(1) dc by blast
    qed
  qed
qed

lemma delete_step_law:
  assumes graph: "graph_ok bb" "edges_agree bb" "bb \<noteq> []" "Predecessors (bb ! 0) = []"
    and s: "del_sound bb d wl" "\<forall>b<length bb. del_kept bb d wl b" and wl: "wl \<noteq> []"
  shows "\<exists>d' wl'. delete_step bb d wl = Inr (d', wl') \<and> del_sound bb d' wl' \<and> (\<forall>b<length bb. del_kept bb d' wl' b)
    \<and> 2 * undeleted d' + length wl' < 2 * undeleted d + length wl"
proof -
  obtain c rest where c: "wl = c # rest" using wl by (cases wl) auto
  have cin: "c < length bb" "d ! c" using s(1) c by (auto simp: del_sound_def)
  have agree: "b \<in> set (Successors (bb ! c))" if "c \<in> set (Predecessors (bb ! b))" "b < length bb" for b
    using graph(2) cin(1) that by (simp add: edges_agree_def)
  have "\<exists>d' wl'. foldR (delete_succ bb) (d0, wl0) xs = Inr (d', wl') \<and> del_sound bb d' wl' \<and> d' ! c
      \<and> (\<forall>b<length bb. del_kept bb d' wl' b \<or> c \<in> set (Predecessors (bb ! b)) \<and> b \<notin> done \<union> set xs)
      \<and> 2 * undeleted d' + length wl' \<le> 2 * undeleted d0 + length wl0"
    if "set xs \<subseteq> set (Successors (bb ! c))" "del_sound bb d0 wl0" "d0 ! c"
      "\<forall>b<length bb. del_kept bb d0 wl0 b \<or> c \<in> set (Predecessors (bb ! b)) \<and> b \<notin> done" for xs d0 wl0 "done"
    using that
  proof (induction xs arbitrary: d0 wl0 "done")
    case (Cons x xs)
    from delete_succ_law [OF graph cin(1) _ Cons.prems(2,4,3), of x] Cons.prems(1) obtain d1 wl1 where
      1: "delete_succ bb (d0, wl0) x = Inr (d1, wl1)" "del_sound bb d1 wl1" "d1 ! c"
        "\<forall>b<length bb. del_kept bb d1 wl1 b \<or> c \<in> set (Predecessors (bb ! b)) \<and> b \<notin> insert x done"
        "2 * undeleted d1 + length wl1 \<le> 2 * undeleted d0 + length wl0" by auto
    from Cons.IH [OF _ 1(2,3,4)] Cons.prems(1) 1(1,5) show ?case by fastforce
  qed auto
  moreover have "del_sound bb d rest" using s(1) c by (simp add: del_sound_def)
  moreover have "\<forall>b<length bb. del_kept bb d rest b \<or> c \<in> set (Predecessors (bb ! b)) \<and> b \<notin> {}"
    using s(2) c by (auto simp: del_kept_def)
  ultimately obtain d' wl' where r: "foldR (delete_succ bb) (d, rest) (Successors (bb ! c)) = Inr (d', wl')" "del_sound bb d' wl'"
      "\<forall>b<length bb. del_kept bb d' wl' b \<or> c \<in> set (Predecessors (bb ! b)) \<and> b \<notin> {} \<union> set (Successors (bb ! c))"
      "2 * undeleted d' + length wl' \<le> 2 * undeleted d + length rest" using cin(2) by (metis (no_types, lifting) order_refl)
  have "\<forall>b<length bb. del_kept bb d' wl' b" using r(3) agree by blast
  moreover have "delete_step bb d wl = Inr (d', wl')" using r(1) cin(1) by (simp add: delete_step_def c)
  ultimately show ?thesis using r(2,4) c by auto
qed

lemma delete_loop_total:
  assumes "graph_ok bb" "edges_agree bb" "bb \<noteq> []" "Predecessors (bb ! 0) = []"
    "del_sound bb d wl" "\<forall>b<length bb. del_kept bb d wl b"
  shows "\<exists>d'. delete_loop bb d wl = Some (Inr d') \<and> del_sound bb d' [] \<and> (\<forall>b<length bb. del_kept bb d' [] b)"
  using assms(5,6)
proof (induction "2 * undeleted d + length wl" arbitrary: d wl rule: less_induct)
  case less
  show ?case
  proof (cases "wl = []")
    case True
    then show ?thesis using less.prems by (simp add: delete_loop.simps)
  next
    case False
    from delete_step_law [OF assms(1-4) less.prems False] obtain d' wl' where
      s: "delete_step bb d wl = Inr (d', wl')" "del_sound bb d' wl'" "\<forall>b<length bb. del_kept bb d' wl' b"
        "2 * undeleted d' + length wl' < 2 * undeleted d + length wl" by blast
    have "delete_loop bb d wl = delete_loop bb d' wl'" using False s(1) by (subst delete_loop.simps) simp
    then show ?thesis using less.hyps [OF s(4,2,3)] by simp
  qed
qed

lemma mark_all:
  "length (foldl (\<lambda>d i. d[i := True]) d xs) = length d"
  "b < length d \<Longrightarrow> foldl (\<lambda>d i. d[i := True]) d xs ! b \<longleftrightarrow> d ! b \<or> b \<in> set xs"
proof (induction xs arbitrary: d)
  case (Cons x xs)
  case 1
  show ?case using Cons(1) [of "d[x := True]"] by simp
  case 2
  then show ?case using Cons(2) [of "d[x := True]"] by (cases "b = x") auto
qed auto


text \<open>A branch around a block, and behind it a block nothing leads to.\<close>

definition dead_block_graph :: "BasicBlock list" where
  "dead_block_graph =
     [\<lparr>Segments = [(0, 0)], Successors = [1, 2], Predecessors = []\<rparr>,
      \<lparr>Segments = [(1, 2)], Successors = [2], Predecessors = [0]\<rparr>,
      \<lparr>Segments = [(3, 3)], Successors = [], Predecessors = [0, 1, 3]\<rparr>,
      \<lparr>Segments = [(4, 4)], Successors = [2], Predecessors = []\<rparr>]"


section \<open>When the entry block has predecessors\<close>

text \<open>A block that nothing leads to and that branches to the entry makes the entry be deleted.\<close>

lemma entry_deleted:
  "GetDeletedBlocks
     [\<lparr>Segments = [(0, 0)], Successors = [], Predecessors = [1]\<rparr>,
      \<lparr>Segments = [(1, 1)], Successors = [0], Predecessors = []\<rparr>] = Some (Inr [True, True])"
  by code_simp

text \<open>Blocks that lead only to each other stay although the entry does not reach them.\<close>

lemma unreachable_cycle_kept:
  "GetDeletedBlocks
     [\<lparr>Segments = [(0, 0)], Successors = [], Predecessors = []\<rparr>,
      \<lparr>Segments = [(1, 1)], Successors = [1], Predecessors = [1]\<rparr>] = Some (Inr [False, False])"
  by code_simp

text \<open>
  An entry block that is the head of a loop with one latch is appended to the latch: the
  function then starts with the body of the loop instead of its condition.
\<close>

lemma entry_merged_into_latch:
  "CFGSimplify [1049183, 61, 104, 0]
     [\<lparr>Segments = [(0, 0)], Successors = [1, 2], Predecessors = [1]\<rparr>,
      \<lparr>Segments = [(1, 2)], Successors = [0], Predecessors = [0]\<rparr>,
      \<lparr>Segments = [(3, 3)], Successors = [], Predecessors = [0]\<rparr>]
   = Some (Inr ([256 + 95, 61, 104, 0],
       [\<lparr>Segments = [(1, 1), (0, 0)], Successors = [0, 1], Predecessors = [0]\<rparr>,
        \<lparr>Segments = [(3, 3)], Successors = [], Predecessors = [0]\<rparr>]))"
  by code_simp

text \<open>An entry block that branches to itself is merged with itself.\<close>

lemma entry_merged_with_itself:
  "CFGSimplify [104] [\<lparr>Segments = [(0, 0)], Successors = [0], Predecessors = [0]\<rparr>] = Some (Inl Undefined)"
  by code_simp

text \<open>The operand of an indirect call is not replaced although its value is.\<close>

lemma indirect_call_not_rewritten:
  "RewriteInstr [(7, 3)] (T3SetOpcode (T3SetArg 0 7) CALL_INDIRECT) = Some (Inr (T3SetOpcode (T3SetArg 0 7) CALL_INDIRECT))"
  "RewriteInstr [(7, 3)] (T3SetOpcode (T3SetArg 0 7) CALL_ARG) = Some (Inr (T3SetOpcode (T3SetArg 0 3) CALL_ARG))"
  by code_simp+

end
