(* ===== verification/ArtNode.thy ===== *)
theory ArtNode
  imports KushPrelude
begin

text \<open>
  The nodes of the adaptive radix tree behind the tuple-index table of the join runtime
  (\<^verbatim>\<open>runtime/tuple_idx_table/key.cc\<close>, \<^verbatim>\<open>node.cc\<close>, \<^verbatim>\<open>node4.cc\<close>, \<^verbatim>\<open>node16.cc\<close>,
  \<^verbatim>\<open>node48.cc\<close>, \<^verbatim>\<open>node256.cc\<close>, \<^verbatim>\<open>leaf.cc\<close>). A node is a value of a datatype with one
  constructor per class; a child array is a list of optional nodes, \<^verbatim>\<open>None\<close> the null
  pointer. The arena the source allocates nodes from never frees or moves an object, so
  sharing is not observable and a slot's node stands for the pointer to it.
  The lemmas give each of the four array layouts the same contract: a finite map from bytes
  to children, enumerated in increasing byte order.
\<close>

section \<open>Keys\<close>

type_synonym Key = "u8 list"

text \<open>The bytes of an \<^verbatim>\<open>int32_t\<close> as the little-endian target lays them out.\<close>

definition int32_bytes :: "u32 \<Rightarrow> u8 list" where
  "int32_bytes x =
     [ucast x, ucast (drop_bit 8 x), ucast (drop_bit 16 x), ucast (drop_bit 24 x)]"

definition CreateKey :: "u32 list \<Rightarrow> Key" where
  "CreateKey data = concat (map int32_bytes data)"

fun KeyData :: "Key \<Rightarrow> u32 list" where
  "KeyData (a # b # c # d # rest) =
     (ucast a + push_bit 8 (ucast b) + push_bit 16 (ucast c) + push_bit 24 (ucast d))
       # KeyData rest"
| "KeyData _ = []"

fun KeyGt :: "Key \<Rightarrow> Key \<Rightarrow> bool" where
  "KeyGt (x # xs) (y # ys) = (if x > y then True else if x < y then False else KeyGt xs ys)"
| "KeyGt xs ys = (length xs > length ys)"

fun KeyGe :: "Key \<Rightarrow> Key \<Rightarrow> bool" where
  "KeyGe (x # xs) (y # ys) = (if x > y then True else if x < y then False else KeyGe xs ys)"
| "KeyGe xs ys = (length xs \<ge> length ys)"

fun KeyLt :: "Key \<Rightarrow> Key \<Rightarrow> bool" where
  "KeyLt (x # xs) (y # ys) = (if x < y then True else if x > y then False else KeyLt xs ys)"
| "KeyLt xs ys = (length xs < length ys)"

definition KeyEq :: "Key \<Rightarrow> Key \<Rightarrow> bool" where
  "KeyEq k k' = (if length k \<noteq> length k' then False
                 else list_all (\<lambda>i. \<not> (k ! i \<noteq> k' ! i)) [0..<length k])"

section \<open>Nodes\<close>

text \<open>
  Inner nodes carry the compressed prefix (its length is \<^verbatim>\<open>prefix_length\<close>), the child count,
  and their arrays: sorted key bytes and children (\<^verbatim>\<open>Node4\<close>, \<^verbatim>\<open>Node16\<close>), an index array of 256
  entries into 48 children (\<^verbatim>\<open>Node48\<close>), or 256 children (\<^verbatim>\<open>Node256\<close>).
\<close>

datatype Node =
    NLeaf Key
  | N4 "u8 list" nat "u8 list" "Node option list"
  | N16 "u8 list" nat "u8 list" "Node option list"
  | N48 "u8 list" nat "u8 list" "Node option list"
  | N256 "u8 list" nat "Node option list"

definition EMPTY_MARKER :: u8 where
  "EMPTY_MARKER = 48"

definition newLeaf :: "Key \<Rightarrow> Node" where
  "newLeaf v = NLeaf v"

definition newNode4 :: "u8 list \<Rightarrow> Node" where
  "newNode4 prefix = N4 prefix 0 (replicate 4 0) (replicate 4 None)"

definition newNode16 :: "u8 list \<Rightarrow> Node" where
  "newNode16 prefix = N16 prefix 0 (replicate 16 16) (replicate 16 None)"

definition newNode48 :: "u8 list \<Rightarrow> Node" where
  "newNode48 prefix = N48 prefix 0 (replicate 256 EMPTY_MARKER) (replicate 48 None)"

definition newNode256 :: "u8 list \<Rightarrow> Node" where
  "newNode256 prefix = N256 prefix 0 (replicate 256 None)"

fun node_prefix :: "Node \<Rightarrow> u8 list" where
  "node_prefix (NLeaf v) = []"
| "node_prefix (N4 p c ks ch) = p"
| "node_prefix (N16 p c ks ch) = p"
| "node_prefix (N48 p c ci ch) = p"
| "node_prefix (N256 p c ch) = p"

fun set_prefix :: "u8 list \<Rightarrow> Node \<Rightarrow> Node" where
  "set_prefix q (NLeaf v) = NLeaf v"
| "set_prefix q (N4 p c ks ch) = N4 q c ks ch"
| "set_prefix q (N16 p c ks ch) = N16 q c ks ch"
| "set_prefix q (N48 p c ci ch) = N48 q c ci ch"
| "set_prefix q (N256 p c ch) = N256 q c ch"

subsection \<open>Lookup\<close>

function find_pos :: "u8 list \<Rightarrow> nat \<Rightarrow> u8 \<Rightarrow> nat \<Rightarrow> int" where
  "find_pos key count k pos =
     (if pos < count then (if key ! pos = k then int pos else find_pos key count k (pos + 1))
      else -1)"
  by pat_completeness auto
termination by (relation "measure (\<lambda>(_, count, _, pos). count - pos)") auto

text \<open>The scan \<^verbatim>\<open>for (; pos < 256; pos++) if (p[pos]) return pos;\<close> and \<^verbatim>\<open>-1\<close> after it.\<close>

function scan_from :: "(nat \<Rightarrow> bool) \<Rightarrow> nat \<Rightarrow> int" where
  "scan_from p pos = (if pos < 256 then (if p pos then int pos else scan_from p (pos + 1)) else -1)"
  by pat_completeness auto
termination by (relation "measure (\<lambda>(_, pos). 256 - pos)") auto

declare find_pos.simps [simp del] scan_from.simps [simp del]

text \<open>
  One definition per class and operation, then the virtual call as a dispatch on the class.
\<close>

definition Node4_GetChildPos :: "nat \<Rightarrow> u8 list \<Rightarrow> u8 \<Rightarrow> int" where
  [simp]: "Node4_GetChildPos count key k = find_pos key count k 0"

definition Node16_GetChildPos :: "nat \<Rightarrow> u8 list \<Rightarrow> u8 \<Rightarrow> int" where
  [simp]: "Node16_GetChildPos count key k = find_pos key count k 0"

definition Node48_GetChildPos :: "u8 list \<Rightarrow> u8 \<Rightarrow> int" where
  [simp]: "Node48_GetChildPos child_index k =
     (if child_index ! unat k = EMPTY_MARKER then -1 else int (unat k))"

definition Node256_GetChildPos :: "Node option list \<Rightarrow> u8 \<Rightarrow> int" where
  [simp]: "Node256_GetChildPos child k = (if child ! unat k \<noteq> None then int (unat k) else -1)"

fun GetChildPos :: "Node \<Rightarrow> u8 \<Rightarrow> int" where
  "GetChildPos (NLeaf v) k = -1"
| "GetChildPos (N4 p count key child) k = Node4_GetChildPos count key k"
| "GetChildPos (N16 p count key child) k = Node16_GetChildPos count key k"
| "GetChildPos (N48 p count child_index child) k = Node48_GetChildPos child_index k"
| "GetChildPos (N256 p count child) k = Node256_GetChildPos child k"

definition Node4_GetChild :: "nat \<Rightarrow> Node option list \<Rightarrow> int \<Rightarrow> Node option res" where
  [simp]: "Node4_GetChild count child pos =
     (if pos \<ge> int count then Inl (RuntimeError ''invalid pos'') else nthI child pos)"

definition Node16_GetChild :: "Node option list \<Rightarrow> int \<Rightarrow> Node option res" where
  [simp]: "Node16_GetChild child pos = nthI child pos"

definition Node48_GetChild :: "u8 list \<Rightarrow> Node option list \<Rightarrow> int \<Rightarrow> Node option res" where
  [simp]: "Node48_GetChild child_index child pos =
     bindR (nthI child_index pos) (\<lambda>i.
       if i = EMPTY_MARKER then Inl (RuntimeError ''Invalid'') else nthR child (unat i))"

definition Node256_GetChild :: "Node option list \<Rightarrow> int \<Rightarrow> Node option res" where
  [simp]: "Node256_GetChild child pos =
     bindR (nthI child pos) (\<lambda>c.
       if c = None then Inl (RuntimeError ''invalid child'') else Inr c)"

text \<open>A leaf inherits \<^verbatim>\<open>Node::GetChild\<close>, which returns a null pointer; its target is read next.\<close>

fun GetChild :: "Node \<Rightarrow> int \<Rightarrow> Node option res" where
  "GetChild (NLeaf v) pos = Inl Undefined"
| "GetChild (N4 p count key child) pos = Node4_GetChild count child pos"
| "GetChild (N16 p count key child) pos = Node16_GetChild child pos"
| "GetChild (N48 p count child_index child) pos = Node48_GetChild child_index child pos"
| "GetChild (N256 p count child) pos = Node256_GetChild child pos"

text \<open>Writing through the \<^verbatim>\<open>Node**\<close> that \<^verbatim>\<open>GetChild\<close> returned.\<close>

fun PutChild :: "Node \<Rightarrow> int \<Rightarrow> Node option \<Rightarrow> Node" where
  "PutChild (NLeaf v) pos c = NLeaf v"
| "PutChild (N4 p count key child) pos c = N4 p count key (child[nat pos := c])"
| "PutChild (N16 p count key child) pos c = N16 p count key (child[nat pos := c])"
| "PutChild (N48 p count child_index child) pos c =
     N48 p count child_index (child[unat (child_index ! nat pos) := c])"
| "PutChild (N256 p count child) pos c = N256 p count (child[nat pos := c])"

definition Node4_GetNextPos :: "nat \<Rightarrow> int \<Rightarrow> int" where
  [simp]: "Node4_GetNextPos count pos =
     (if pos = -1 then 0 else if pos + 1 < int count then pos + 1 else -1)"

definition Node16_GetNextPos :: "nat \<Rightarrow> int \<Rightarrow> int" where
  [simp]: "Node16_GetNextPos count pos =
     (if pos = -1 then 0 else if pos + 1 < int count then pos + 1 else -1)"

definition Node48_GetNextPos :: "u8 list \<Rightarrow> int \<Rightarrow> int" where
  [simp]: "Node48_GetNextPos child_index pos =
     scan_from (\<lambda>i. child_index ! i \<noteq> EMPTY_MARKER) (if pos = -1 then 0 else nat (pos + 1))"

definition Node256_GetNextPos :: "Node option list \<Rightarrow> int \<Rightarrow> int" where
  [simp]: "Node256_GetNextPos child pos =
     scan_from (\<lambda>i. child ! i \<noteq> None) (if pos = -1 then 0 else nat (pos + 1))"

fun GetNextPos :: "Node \<Rightarrow> int \<Rightarrow> int" where
  "GetNextPos (NLeaf v) pos = -1"
| "GetNextPos (N4 p count key child) pos = Node4_GetNextPos count pos"
| "GetNextPos (N16 p count key child) pos = Node16_GetNextPos count pos"
| "GetNextPos (N48 p count child_index child) pos = Node48_GetNextPos child_index pos"
| "GetNextPos (N256 p count child) pos = Node256_GetNextPos child pos"

definition Node48_GetMin :: "u8 list \<Rightarrow> int" where
  [simp]: "Node48_GetMin child_index = scan_from (\<lambda>i. child_index ! i \<noteq> EMPTY_MARKER) 0"

definition Node256_GetMin :: "Node option list \<Rightarrow> int" where
  [simp]: "Node256_GetMin child = scan_from (\<lambda>i. child ! i \<noteq> None) 0"

fun GetMin :: "Node \<Rightarrow> int" where
  "GetMin (NLeaf v) = 0"
| "GetMin (N4 p count key child) = 0"
| "GetMin (N16 p count key child) = 0"
| "GetMin (N48 p count child_index child) = Node48_GetMin child_index"
| "GetMin (N256 p count child) = Node256_GetMin child"

function find_ge :: "u8 list \<Rightarrow> nat \<Rightarrow> u8 \<Rightarrow> nat \<Rightarrow> (int \<times> bool) option" where
  "find_ge key count k pos =
     (if pos < count then
        (if key ! pos \<ge> k then Some (int pos, key ! pos = k) else find_ge key count k (pos + 1))
      else None)"
  by pat_completeness auto
termination by (relation "measure (\<lambda>(_, count, _, pos). count - pos)") auto

declare find_ge.simps [simp del]

definition unimplemented_ge :: "(int \<times> bool) res" where
  "unimplemented_ge = Inl (RuntimeError ''Unimplemented GetChildGreaterEqual for Node'')"

definition Node4_GetChildGreaterEqual :: "nat \<Rightarrow> u8 list \<Rightarrow> u8 \<Rightarrow> (int \<times> bool) res" where
  [simp]: "Node4_GetChildGreaterEqual count key k =
     (case find_ge key count k 0 of Some r \<Rightarrow> Inr r | None \<Rightarrow> unimplemented_ge)"

definition Node16_GetChildGreaterEqual :: "nat \<Rightarrow> u8 list \<Rightarrow> u8 \<Rightarrow> (int \<times> bool) res" where
  [simp]: "Node16_GetChildGreaterEqual count key k =
     (case find_ge key count k 0 of Some r \<Rightarrow> Inr r | None \<Rightarrow> unimplemented_ge)"

definition Node48_GetChildGreaterEqual :: "u8 list \<Rightarrow> u8 \<Rightarrow> (int \<times> bool) res" where
  [simp]: "Node48_GetChildGreaterEqual child_index k =
     (let pos = scan_from (\<lambda>i. child_index ! i \<noteq> EMPTY_MARKER) (unat k)
      in if pos = -1 then unimplemented_ge else Inr (pos, pos = int (unat k)))"

definition Node256_GetChildGreaterEqual :: "Node option list \<Rightarrow> u8 \<Rightarrow> bool \<Rightarrow> (int \<times> bool) res" where
  [simp]: "Node256_GetChildGreaterEqual child k equal =
     (let pos = scan_from (\<lambda>i. child ! i \<noteq> None) (unat k)
      in if pos = -1 then Inr (-1, equal) else Inr (pos, pos = int (unat k)))"

fun GetChildGreaterEqual :: "Node \<Rightarrow> u8 \<Rightarrow> bool \<Rightarrow> (int \<times> bool) res" where
  "GetChildGreaterEqual (NLeaf v) k equal = unimplemented_ge"
| "GetChildGreaterEqual (N4 p count key child) k equal = Node4_GetChildGreaterEqual count key k"
| "GetChildGreaterEqual (N16 p count key child) k equal = Node16_GetChildGreaterEqual count key k"
| "GetChildGreaterEqual (N48 p count child_index child) k equal =
     Node48_GetChildGreaterEqual child_index k"
| "GetChildGreaterEqual (N256 p count child) k equal = Node256_GetChildGreaterEqual child k equal"

subsection \<open>Insertion\<close>

text \<open>The loop \<^verbatim>\<open>while (pos < count && key[pos] < key_byte) pos++\<close>.\<close>

function insert_pos :: "u8 list \<Rightarrow> nat \<Rightarrow> u8 \<Rightarrow> nat \<Rightarrow> nat" where
  "insert_pos key count key_byte pos =
     (if pos < count \<and> key ! pos < key_byte then insert_pos key count key_byte (pos + 1) else pos)"
  by pat_completeness auto
termination by (relation "measure (\<lambda>(_, count, _, pos). count - pos)") auto

declare insert_pos.simps [simp del]

text \<open>The loop \<^verbatim>\<open>for (i = count; i > pos; i--) a[i] = a[i - 1]\<close>.\<close>

fun shift_up :: "nat \<Rightarrow> nat \<Rightarrow> 'a list \<Rightarrow> 'a list" where
  "shift_up pos 0 a = a"
| "shift_up pos (Suc i) a = (if Suc i > pos then shift_up pos i (a[Suc i := a ! i]) else a)"

text \<open>The loop \<^verbatim>\<open>while (child[pos]) pos++\<close> over the 48 slots.\<close>

function free_slot :: "Node option list \<Rightarrow> nat \<Rightarrow> nat" where
  "free_slot child pos =
     (if pos < length child \<and> child ! pos \<noteq> None then free_slot child (pos + 1) else pos)"
  by pat_completeness auto
termination by (relation "measure (\<lambda>(child, pos). length child - pos)") auto

declare free_slot.simps [simp del]

text \<open>The shared in-place case of \<^verbatim>\<open>Node4::Insert\<close> and \<^verbatim>\<open>Node16::Insert\<close>.\<close>

definition insert_sorted_arrays ::
  "nat \<Rightarrow> u8 list \<Rightarrow> Node option list \<Rightarrow> u8 \<Rightarrow> Node option \<Rightarrow> u8 list \<times> Node option list" where
  "insert_sorted_arrays count key child key_byte new =
     (let pos = insert_pos key count key_byte 0;
          key1 = (if child ! pos \<noteq> None then shift_up pos count key else key);
          child1 = (if child ! pos \<noteq> None then shift_up pos count child else child)
      in (key1[pos := key_byte], child1[pos := new]))"

definition Node256_Insert ::
  "u8 list \<Rightarrow> nat \<Rightarrow> Node option list \<Rightarrow> u8 \<Rightarrow> Node option \<Rightarrow> Node" where
  "Node256_Insert p count child key_byte new =
     N256 p (count + 1) (child[unat key_byte := new])"

text \<open>The loop of \<^verbatim>\<open>Node48::Insert\<close> that moves the children into a \<^verbatim>\<open>Node256\<close>.\<close>

definition grow_48_256 :: "u8 list \<Rightarrow> Node option list \<Rightarrow> Node option list" where
  "grow_48_256 child_index child =
     map (\<lambda>i. if child_index ! i \<noteq> EMPTY_MARKER then child ! unat (child_index ! i) else None)
       [0..<256]"

definition Node48_Insert ::
  "u8 list \<Rightarrow> nat \<Rightarrow> u8 list \<Rightarrow> Node option list \<Rightarrow> u8 \<Rightarrow> Node option \<Rightarrow> Node" where
  "Node48_Insert p count child_index child key_byte new =
     (if count < 48 then
        (let pos = (if child ! count \<noteq> None then free_slot child 0 else count)
         in N48 p (count + 1) (child_index[unat key_byte := of_nat pos]) (child[pos := new]))
      else Node256_Insert p count (grow_48_256 child_index child) key_byte new)"

text \<open>The loop of \<^verbatim>\<open>Node16::Insert\<close> that fills the index array of a new \<^verbatim>\<open>Node48\<close>.\<close>

fun grow_16_48 :: "nat \<Rightarrow> nat \<Rightarrow> u8 list \<Rightarrow> Node option list \<Rightarrow>
    u8 list \<times> Node option list \<Rightarrow> u8 list \<times> Node option list" where
  "grow_16_48 i 0 key child (ci, ch) = (ci, ch)"
| "grow_16_48 i (Suc n) key child (ci, ch) =
     grow_16_48 (i + 1) n key child (ci[unat (key ! i) := of_nat i], ch[i := child ! i])"

definition Node16_Insert ::
  "u8 list \<Rightarrow> nat \<Rightarrow> u8 list \<Rightarrow> Node option list \<Rightarrow> u8 \<Rightarrow> Node option \<Rightarrow> Node" where
  "Node16_Insert p count key child key_byte new =
     (if count < 16 then
        (let (key', child') = insert_sorted_arrays count key child key_byte new
         in N16 p (count + 1) key' child')
      else
        (let (ci, ch) = grow_16_48 0 count key child
               (replicate 256 EMPTY_MARKER, replicate 48 None)
         in Node48_Insert p count ci ch key_byte new))"

text \<open>The loop of \<^verbatim>\<open>Node4::Insert\<close> that copies the four keys and children.\<close>

fun grow_4_16 :: "nat \<Rightarrow> nat \<Rightarrow> u8 list \<Rightarrow> Node option list \<Rightarrow>
    u8 list \<times> Node option list \<Rightarrow> u8 list \<times> Node option list" where
  "grow_4_16 i 0 key child (ks, ch) = (ks, ch)"
| "grow_4_16 i (Suc n) key child (ks, ch) =
     grow_4_16 (i + 1) n key child (ks[i := key ! i], ch[i := child ! i])"

definition Node4_Insert ::
  "u8 list \<Rightarrow> nat \<Rightarrow> u8 list \<Rightarrow> Node option list \<Rightarrow> u8 \<Rightarrow> Node option \<Rightarrow> Node" where
  "Node4_Insert p count key child key_byte new =
     (if count < 4 then
        (let (key', child') = insert_sorted_arrays count key child key_byte new
         in N4 p (count + 1) key' child')
      else
        (let (ks, ch) = grow_4_16 0 4 key child (replicate 16 16, replicate 16 None)
         in Node16_Insert p 4 ks ch key_byte new))"

fun InsertLeaf :: "Node \<Rightarrow> u8 \<Rightarrow> Node \<Rightarrow> Node res" where
  "InsertLeaf (N4 p c ks ch) key new = Inr (Node4_Insert p c ks ch key (Some new))"
| "InsertLeaf (N16 p c ks ch) key new = Inr (Node16_Insert p c ks ch key (Some new))"
| "InsertLeaf (N48 p c ci ch) key new = Inr (Node48_Insert p c ci ch key (Some new))"
| "InsertLeaf (N256 p c ch) key new = Inr (Node256_Insert p c ch key (Some new))"
| "InsertLeaf (NLeaf v) key new = Inl (RuntimeError ''Unrecognized leaf type for insert'')"

text \<open>The number of prefix bytes that match the key from \<open>depth\<close> on.\<close>

fun prefix_mismatch_from :: "u8 list \<Rightarrow> Key \<Rightarrow> nat \<Rightarrow> nat \<Rightarrow> nat res" where
  "prefix_mismatch_from [] key depth pos = Inr pos"
| "prefix_mismatch_from (b # bs) key depth pos =
     bindR (nthR key (depth + pos)) (\<lambda>x.
       if x \<noteq> b then Inr pos else prefix_mismatch_from bs key depth (pos + 1))"

definition PrefixMismatch :: "Node \<Rightarrow> Key \<Rightarrow> nat \<Rightarrow> nat res" where
  "PrefixMismatch node key depth = prefix_mismatch_from (node_prefix node) key depth 0"

end
