(* ===== verification/ArtNodeMap.thy ===== *)
theory ArtNodeMap
  imports ArtNode
begin

text \<open>
  The four node layouts as one abstract data type: a finite map from bytes to children in
  increasing byte order. \<open>entries\<close> is the abstraction function, \<open>node_ok\<close> the
  representation invariant of the arrays, and the locale \<open>byte_map\<close> the contract the tree
  algorithms rely on; it is interpreted on the model's own node operations.
\<close>

section \<open>Abstraction and representation invariant\<close>

definition slot :: "'a option list \<Rightarrow> nat \<Rightarrow> 'a option" where
  "slot xs i = (if i < length xs then xs ! i else None)"

fun posns :: "Node \<Rightarrow> nat list" where
  "posns (NLeaf v) = []"
| "posns (N4 p c ks ch) = [0..<c]"
| "posns (N16 p c ks ch) = [0..<c]"
| "posns (N48 p c ci ch) = filter (\<lambda>i. ci ! i \<noteq> EMPTY_MARKER) [0..<256]"
| "posns (N256 p c ch) = filter (\<lambda>i. ch ! i \<noteq> None) [0..<256]"

fun byte_at :: "Node \<Rightarrow> nat \<Rightarrow> u8" where
  "byte_at (NLeaf v) i = 0"
| "byte_at (N4 p c ks ch) i = ks ! i"
| "byte_at (N16 p c ks ch) i = ks ! i"
| "byte_at (N48 p c ci ch) i = of_nat i"
| "byte_at (N256 p c ch) i = of_nat i"

fun child_at :: "Node \<Rightarrow> nat \<Rightarrow> Node option" where
  "child_at (NLeaf v) i = None"
| "child_at (N4 p c ks ch) i = slot ch i"
| "child_at (N16 p c ks ch) i = slot ch i"
| "child_at (N48 p c ci ch) i = slot ch (unat (ci ! i))"
| "child_at (N256 p c ch) i = slot ch i"

definition entries :: "Node \<Rightarrow> (u8 \<times> Node) list" where
  "entries n = concat (map (\<lambda>i. case child_at n i of None \<Rightarrow> [] | Some c \<Rightarrow> [(byte_at n i, c)])
                        (posns n))"

definition sorted_arrays :: "nat \<Rightarrow> nat \<Rightarrow> u8 list \<Rightarrow> Node option list \<Rightarrow> bool" where
  "sorted_arrays N c ks ch \<longleftrightarrow>
     length ks = N \<and> length ch = N \<and> c \<le> N \<and> sorted_wrt (<) (take c ks)
     \<and> (\<forall>i<N. ch ! i \<noteq> None \<longleftrightarrow> i < c)"

definition indexed_arrays :: "nat \<Rightarrow> u8 list \<Rightarrow> Node option list \<Rightarrow> bool" where
  "indexed_arrays c ci ch \<longleftrightarrow>
     length ci = 256 \<and> length ch = 48 \<and> c \<le> 48
     \<and> (\<forall>i<48. ch ! i \<noteq> None \<longleftrightarrow> i < c)
     \<and> (\<forall>i<256. ci ! i \<noteq> EMPTY_MARKER \<longrightarrow> unat (ci ! i) < c)
     \<and> (\<forall>i<256. \<forall>j<256. ci ! i \<noteq> EMPTY_MARKER \<longrightarrow> ci ! i = ci ! j \<longrightarrow> i = j)"

fun node_ok :: "Node \<Rightarrow> bool" where
  "node_ok (NLeaf v) = False"
| "node_ok (N4 p c ks ch) = sorted_arrays 4 c ks ch"
| "node_ok (N16 p c ks ch) = sorted_arrays 16 c ks ch"
| "node_ok (N48 p c ci ch) = indexed_arrays c ci ch"
| "node_ok (N256 p c ch) = (length ch = 256)"

section \<open>Entries\<close>

lemma entries_set:
  "(b, c) \<in> set (entries n) \<longleftrightarrow> (\<exists>i\<in>set (posns n). byte_at n i = b \<and> child_at n i = Some c)"
  by (force simp: entries_def split: option.splits)

lemma slot_in [simp]: "i < length xs \<Longrightarrow> slot xs i = xs ! i"
  by (simp add: slot_def)

lemma child_at_posns:
  assumes "node_ok n" "i \<in> set (posns n)"
  shows "\<exists>c. child_at n i = Some c"
  using assms by (cases n) (auto simp: sorted_arrays_def indexed_arrays_def)

lemma entries_map:
  assumes "node_ok n"
  shows "entries n = map (\<lambda>i. (byte_at n i, the (child_at n i))) (posns n)"
proof -
  have "concat (map (\<lambda>i. case child_at n i of None \<Rightarrow> [] | Some c \<Rightarrow> [(byte_at n i, c)]) is) =
      map (\<lambda>i. (byte_at n i, the (child_at n i))) is" if "set is \<subseteq> set (posns n)" for "is"
    using that child_at_posns [OF assms] by (induction "is") (auto split: option.splits)
  then show ?thesis by (simp add: entries_def)
qed

lemma byte_at_fun [simp]:
  "byte_at (N4 p c ks ch) = (!) ks" "byte_at (N16 p c ks ch) = (!) ks"
  "byte_at (N48 p c ci ch) = of_nat" "byte_at (N256 p c ch) = of_nat"
  by (simp_all add: fun_eq_iff)

lemma entries_fst: "node_ok n \<Longrightarrow> map fst (entries n) = map (byte_at n) (posns n)"
  by (simp add: entries_map)

lemma sorted_filter_upt: "sorted_wrt (<) (filter P [0..<n])"
  by (simp add: sorted_wrt_filter)

lemma entries_sorted:
  assumes "node_ok n"
  shows "sorted_wrt (<) (map fst (entries n))"
proof -
  have *: "sorted_wrt (<) (map (of_nat :: nat \<Rightarrow> u8) (filter P [0..<256]))" for P
    unfolding sorted_wrt_map
    by (rule sorted_wrt_mono_rel [OF _ sorted_filter_upt]) (auto intro: of_nat_u8_less)
  have **: "sorted_wrt (<) (map (\<lambda>i. ks ! i) [0..<c])"
    if "sorted_wrt (<) (take c ks)" "c \<le> length ks" for c and ks :: "u8 list"
    using that by (simp add: sorted_wrt_iff_nth_less)
  show ?thesis
    unfolding entries_fst [OF assms]
    using assms * ** by (cases n) (auto simp: sorted_arrays_def)
qed

lemma entries_distinct:
  assumes "node_ok n" "(b, c) \<in> set (entries n)" "(b, c') \<in> set (entries n)"
  shows "c = c'"
proof -
  have "distinct (map fst (entries n))"
    using entries_sorted [OF assms(1)] by (simp add: strict_sorted_iff)
  with assms(2,3) show ?thesis by (metis eq_key_imp_eq_value)
qed

section \<open>Lookup\<close>

lemma find_pos_spec:
  "find_pos ks c b i = -1 \<and> (\<forall>j. i \<le> j \<and> j < c \<longrightarrow> ks ! j \<noteq> b)
   \<or> (\<exists>j. find_pos ks c b i = int j \<and> i \<le> j \<and> j < c \<and> ks ! j = b)"
proof (induction ks c b i rule: find_pos.induct)
  case (1 ks c b i)
  show ?case
  proof (cases "i < c \<and> ks ! i \<noteq> b")
    case True
    with 1 show ?thesis
      unfolding find_pos.simps [of ks c b i]
      by (metis Suc_eq_plus1 Suc_leI Suc_leD le_neq_implies_less)
  next
    case False
    then show ?thesis by (auto simp: find_pos.simps [of ks c b i])
  qed
qed

text \<open>\<^verbatim>\<open>GetChildPos\<close> finds a position of the node exactly when the byte has a child.\<close>

lemma GetChildPos_cases:
  assumes "node_ok n"
  shows "GetChildPos n b = -1 \<and> b \<notin> byte_at n ` set (posns n)
    \<or> (\<exists>i\<in>set (posns n). GetChildPos n b = int i \<and> byte_at n i = b)"
proof (cases n)
  case (N4 p c ks ch)
  with find_pos_spec [of ks c b 0] show ?thesis by auto
next
  case (N16 p c ks ch)
  with find_pos_spec [of ks c b 0] show ?thesis by auto
next
  case (N48 p c ci ch)
  then show ?thesis
    by (cases "ci ! unat b = EMPTY_MARKER")
      (auto simp del: of_nat_unat intro: bexI [of _ "unat b"])
next
  case (N256 p c ch)
  then show ?thesis
    by (cases "ch ! unat b") (auto simp del: of_nat_unat intro: bexI [of _ "unat b"])
qed (use assms in simp)

lemma entries_bytes: "node_ok n \<Longrightarrow> fst ` set (entries n) = byte_at n ` set (posns n)"
  by (metis entries_fst set_map)

lemma GetChildPos_None:
  assumes "node_ok n"
  shows "GetChildPos n b = -1 \<longleftrightarrow> b \<notin> fst ` set (entries n)"
  using GetChildPos_cases [OF assms, of b] unfolding entries_bytes [OF assms] by force

lemma GetChildPos_Some:
  assumes "node_ok n" "GetChildPos n b \<noteq> -1"
  obtains i where "i \<in> set (posns n)" "GetChildPos n b = int i" "byte_at n i = b"
  using GetChildPos_cases [OF assms(1), of b] assms(2) by blast

lemma GetChild_at:
  assumes "node_ok n" "i \<in> set (posns n)"
  shows "GetChild n (int i) = Inr (child_at n i)"
  using assms
  by (cases n) (auto simp: sorted_arrays_def indexed_arrays_def nthR_def)

section \<open>Replacing a child\<close>

lemma posns_unique:
  assumes "node_ok n" "i \<in> set (posns n)" "j \<in> set (posns n)" "byte_at n i = byte_at n j"
  shows "i = j"
proof -
  have "distinct (map (byte_at n) (posns n))"
    using entries_sorted [OF assms(1)] unfolding entries_fst [OF assms(1)]
    by (simp add: strict_sorted_iff)
  with assms(2-4) show ?thesis by (auto simp: distinct_map dest: inj_onD)
qed

lemma PutChild_posns:
  assumes "node_ok n" "i \<in> set (posns n)"
  shows "posns (PutChild n (int i) (Some c)) = posns n"
  using assms
  by (cases n) (auto intro!: filter_cong simp: nth_list_update)

lemma PutChild_bytes: "byte_at (PutChild n pos c) j = byte_at n j"
  by (cases n) auto

lemma PutChild_ok:
  assumes "node_ok n" "i \<in> set (posns n)"
  shows "node_ok (PutChild n (int i) (Some c))"
proof (cases n)
  case (N48 p cnt ci ch)
  have "unat (ci ! i) < cnt" using assms N48 by (auto simp: indexed_arrays_def)
  then have "(ch[unat (ci ! i) := Some c] ! j \<noteq> None) = (j < cnt)" if "j < 48" for j
    using that assms(1) N48 by (cases "j = unat (ci ! i)") (auto simp: indexed_arrays_def)
  then show ?thesis using assms N48 by (simp add: indexed_arrays_def)
qed (use assms in \<open>auto simp: sorted_arrays_def nth_list_update\<close>)

lemma PutChild_child_at:
  assumes "node_ok n" "i \<in> set (posns n)" "j \<in> set (posns n)"
  shows "child_at (PutChild n (int i) (Some c)) j = (if j = i then Some c else child_at n j)"
proof (cases n)
  case (N48 p cnt ci ch)
  have "unat (ci ! i) < length ch" "unat (ci ! j) < length ch"
    using assms N48 by (fastforce simp: indexed_arrays_def)+
  moreover have "unat (ci ! i) = unat (ci ! j) \<longleftrightarrow> i = j"
    using assms N48 by (auto simp: indexed_arrays_def word_unat_eq_iff [symmetric])
  ultimately show ?thesis using N48 by (auto simp: nth_list_update)
qed (use assms in \<open>auto simp: sorted_arrays_def nth_list_update\<close>)

lemma PutChild_entries:
  assumes "node_ok n" "i \<in> set (posns n)"
  shows "entries (PutChild n (int i) (Some c)) =
    map (\<lambda>(b, d). (b, if b = byte_at n i then c else d)) (entries n)"
  unfolding entries_map [OF PutChild_ok [OF assms]] entries_map [OF assms(1)]
    PutChild_posns [OF assms] PutChild_bytes map_map
  by (rule map_cong [OF refl])
    (auto simp: PutChild_child_at [OF assms] dest: posns_unique [OF assms(1) assms(2)])

lemma PutChild_prefix [simp]: "node_prefix (PutChild n pos c) = node_prefix n"
  by (cases n) auto

section \<open>Inserting into the sorted arrays\<close>

lemma insert_pos_spec:
  "i \<le> c \<Longrightarrow> (let p = insert_pos ks c b i in i \<le> p \<and> p \<le> c \<and> (\<forall>j. i \<le> j \<and> j < p \<longrightarrow> ks ! j < b)
     \<and> (p < c \<longrightarrow> \<not> ks ! p < b))"
proof (induction ks c b i rule: insert_pos.induct)
  case (1 ks c b i)
  show ?case
  proof (cases "i < c \<and> ks ! i < b")
    case True
    with 1 have IH: "let p = insert_pos ks c b (i + 1) in i + 1 \<le> p \<and> p \<le> c
        \<and> (\<forall>j. i + 1 \<le> j \<and> j < p \<longrightarrow> ks ! j < b) \<and> (p < c \<longrightarrow> \<not> ks ! p < b)" by simp
    have "ks ! j < b" if "i \<le> j" "j < insert_pos ks c b (i + 1)" for j
      using that IH True by (cases "j = i") (auto simp: Let_def)
    with IH True show ?thesis by (simp add: insert_pos.simps [of ks c b i] Let_def)
  next
    case False
    with "1.prems" show ?thesis by (auto simp: insert_pos.simps [of ks c b i] Let_def)
  qed
qed

lemma length_shift_up [simp]: "length (shift_up pos c xs) = length xs"
  by (induction pos c xs rule: shift_up.induct) auto

lemma shift_up_nth:
  "c < length xs \<Longrightarrow> i < length xs \<Longrightarrow>
   shift_up pos c xs ! i = (if pos < i \<and> i \<le> c then xs ! (i - 1) else xs ! i)"
proof (induction pos c xs rule: shift_up.induct)
  case (2 pos k xs)
  then show ?case by (cases "Suc k > pos") (auto simp: nth_list_update le_Suc_eq)
qed auto

definition insert_at :: "nat \<Rightarrow> nat \<Rightarrow> 'a \<Rightarrow> 'a list \<Rightarrow> 'a list" where
  "insert_at pos c x xs = take pos xs @ x # take (c - pos) (drop pos xs) @ drop (Suc c) xs"

lemma insert_at_shift:
  assumes "pos \<le> c" "c < length xs"
  shows "(shift_up pos c xs)[pos := x] = insert_at pos c x xs"
proof (rule nth_equalityI)
  show len: "length ((shift_up pos c xs)[pos := x]) = length (insert_at pos c x xs)"
    using assms by (simp add: insert_at_def)
  fix i assume "i < length ((shift_up pos c xs)[pos := x])"
  then have i: "i < length xs" by simp
  show "(shift_up pos c xs)[pos := x] ! i = insert_at pos c x xs ! i"
    using assms i
    by (cases "i = pos"; cases "i < pos"; cases "i \<le> c")
      (auto simp: insert_at_def nth_append shift_up_nth nth_list_update nth_Cons'
        intro!: arg_cong [where f = "\<lambda>k. xs ! k"])
qed

lemma insert_at_noshift:
  assumes "c < length xs"
  shows "xs[c := x] = insert_at c c x xs"
  using assms by (simp add: insert_at_def upd_conv_take_nth_drop)

lemma take_insert_at:
  assumes "pos \<le> c" "c < length xs"
  shows "take (Suc c) (insert_at pos c x xs) = take pos (take c xs) @ x # drop pos (take c xs)"
  using assms by (auto simp: insert_at_def drop_take min_def Suc_diff_le)

lemma insert_at_nth_beyond:
  assumes "pos \<le> c" "c < length xs" "c < i" "i < length xs"
  shows "insert_at pos c x xs ! i = xs ! i"
proof -
  have "insert_at pos c x xs = (shift_up pos c xs)[pos := x]" using assms by (simp add: insert_at_shift)
  then show ?thesis using assms by (simp add: shift_up_nth)
qed

lemma insert_sorted_arrays_eq:
  fixes b :: u8
  assumes "sorted_arrays N c ks ch" "c < N"
  defines "pos \<equiv> insert_pos ks c b 0"
  shows "insert_sorted_arrays c ks ch b x = (insert_at pos c b ks, insert_at pos c x ch)"
    and "pos \<le> c"
proof -
  show le: "pos \<le> c"
    using insert_pos_spec [of 0 c ks b] by (simp add: pos_def Let_def)
  have len: "length ks = N" "length ch = N" using assms by (auto simp: sorted_arrays_def)
  show "insert_sorted_arrays c ks ch b x = (insert_at pos c b ks, insert_at pos c x ch)"
  proof (cases "ch ! pos = None")
    case True
    moreover have "ch ! pos \<noteq> None \<longleftrightarrow> pos < c"
      using assms(1,2) le unfolding sorted_arrays_def by (meson le_less_trans)
    ultimately have "pos = c" using le by simp
    with True len assms(2) show ?thesis
      by (simp add: insert_sorted_arrays_def pos_def [symmetric] insert_at_noshift Let_def)
  next
    case False
    with len le assms(2) show ?thesis
      by (simp add: insert_sorted_arrays_def pos_def [symmetric] insert_at_shift Let_def)
  qed
qed

lemma sorted_insert_pos:
  assumes "sorted_wrt (<) (take c ks)" "c \<le> length ks" "b \<notin> set (take c ks)"
  defines "pos \<equiv> insert_pos ks c (b :: u8) 0"
  shows "sorted_wrt (<) (take pos (take c ks) @ b # drop pos (take c ks))"
proof -
  let ?xs = "take c ks"
  have spec: "pos \<le> c" "\<And>j. j < pos \<Longrightarrow> ks ! j < b" "pos < c \<Longrightarrow> \<not> ks ! pos < b"
    using insert_pos_spec [of 0 c ks b] by (simp_all add: pos_def Let_def)
  have lo: "x < b" if "x \<in> set (take pos ?xs)" for x
    using that spec assms(2) by (auto simp: in_set_conv_nth)
  have hi: "b < x" if "x \<in> set (drop pos ?xs)" for x
  proof -
    from that obtain i where i: "i < length ?xs - pos" "x = ?xs ! (pos + i)"
      by (metis in_set_conv_nth length_drop nth_drop less_imp_le_nat add.commute le_add_diff_inverse
          spec(1) nat_le_linear drop_all list.set(1) empty_iff length_pos_if_in_set zero_less_diff)
    have "pos < c" using i by simp
    have "b < ?xs ! pos"
    proof -
      have "?xs ! pos \<in> set ?xs" using \<open>pos < c\<close> assms(2) by (metis length_take min.absorb2 nth_mem)
      with assms(3) have "b \<noteq> ?xs ! pos" by auto
      then show ?thesis using spec(3) \<open>pos < c\<close> by auto
    qed
    also have "?xs ! pos \<le> x"
    proof (cases "i = 0")
      case False
      then have "?xs ! pos < ?xs ! (pos + i)"
        using i by (intro sorted_wrt_nth_less [OF assms(1)]) auto
      then show ?thesis using i by simp
    qed (use i in simp)
    finally show ?thesis .
  qed
  have "sorted_wrt (<) (take pos ?xs @ drop pos ?xs)"
    using assms(1) unfolding append_take_drop_id .
  then show ?thesis using lo hi by (force simp: sorted_wrt_append simp del: append_take_drop_id)
qed

lemma sorted_arrays_insert:
  assumes ok: "sorted_arrays N c ks ch" and c: "c < N" and b: "b \<notin> set (take c ks)"
    and eq: "insert_sorted_arrays c ks ch b (Some x) = (ks', ch')"
  shows "sorted_arrays N (Suc c) ks' ch'"
    and "set (zip (take (Suc c) ks') (take (Suc c) ch')) =
      insert (b, Some x) (set (zip (take c ks) (take c ch)))"
proof -
  define pos where "pos = insert_pos ks c b 0"
  note arr = insert_sorted_arrays_eq [OF ok c, where b = b, folded pos_def]
  have ks': "ks' = insert_at pos c b ks" and ch': "ch' = insert_at pos c (Some x) ch"
    using arr(1) [of "Some x"] eq by auto
  have len: "length ks = N" "length ch = N" using ok by (auto simp: sorted_arrays_def)
  have takes: "take (Suc c) ks' = take pos (take c ks) @ b # drop pos (take c ks)"
    "take (Suc c) ch' = take pos (take c ch) @ Some x # drop pos (take c ch)"
    using arr(2) c len by (simp_all add: ks' ch' take_insert_at)
  have sorted: "sorted_wrt (<) (take (Suc c) ks')"
    using sorted_insert_pos [of c ks b] ok b unfolding takes pos_def
    by (simp add: sorted_arrays_def)
  have null: "(ch' ! i \<noteq> None) = (i < Suc c)" if "i < N" for i
  proof (cases "i < Suc c")
    case True
    then have "ch' ! i = take (Suc c) ch' ! i" by simp
    moreover have "take (Suc c) ch' ! i \<in> set (take (Suc c) ch')"
      using True c len arr(2) by (intro nth_mem) (simp add: takes)
    moreover have "y \<noteq> None" if "y \<in> set (take c ch)" for y
      using that ok c by (auto simp: sorted_arrays_def in_set_conv_nth)
    moreover have "set (take (Suc c) ch') \<subseteq> insert (Some x) (set (take c ch))"
      unfolding takes by (auto simp del: take_take dest: in_set_takeD in_set_dropD)
    ultimately show ?thesis using True by auto
  next
    case False
    then have "ch' ! i = ch ! i"
      using that len c arr(2) by (simp add: ch' insert_at_nth_beyond)
    then show ?thesis using ok that False by (auto simp: sorted_arrays_def)
  qed
  show "sorted_arrays N (Suc c) ks' ch'"
    using sorted null len c arr(2)
    by (simp add: sorted_arrays_def) (simp add: ks' ch' insert_at_def)
  show "set (zip (take (Suc c) ks') (take (Suc c) ch')) =
      insert (b, Some x) (set (zip (take c ks) (take c ch)))"
  proof -
    let ?z = "zip (take c ks) (take c ch)"
    have "zip (take (Suc c) ks') (take (Suc c) ch') = take pos ?z @ (b, Some x) # drop pos ?z"
      unfolding takes using len c arr(2) by (simp add: take_zip drop_zip)
    then show ?thesis by (simp del: zip_append) (metis append_take_drop_id set_append)
  qed
qed

lemma entries_arrays:
  assumes "sorted_arrays N c ks ch" and n: "n = N4 p c ks ch \<or> n = N16 p c ks ch"
  shows "set (entries n) = {(b, d). (b, Some d) \<in> set (zip (take c ks) (take c ch))}"
proof -
  have "(b, d) \<in> set (entries n) \<longleftrightarrow> (\<exists>i<c. ks ! i = b \<and> ch ! i = Some d)" for b d
    using assms by (auto simp: entries_set sorted_arrays_def)
  moreover have "(b, Some d) \<in> set (zip (take c ks) (take c ch)) \<longleftrightarrow>
      (\<exists>i<c. ks ! i = b \<and> ch ! i = Some d)" for b d
    using assms(1) unfolding in_set_zip sorted_arrays_def
    by (simp add: min_absorb2 conj_commute cong: conj_cong) (metis nth_take)
  ultimately show ?thesis by auto
qed

lemma take_keys_entries:
  assumes "sorted_arrays N c ks ch" and n: "n = N4 p c ks ch \<or> n = N16 p c ks ch" "node_ok n"
  shows "set (take c ks) = fst ` set (entries n)"
  unfolding entries_bytes [OF n(2)] using assms(1) n(1)
  by (auto simp: sorted_arrays_def nth_image [symmetric])

section \<open>Growing a node\<close>

lemma grow_4_16_spec:
  "grow_4_16 i n key child (ks, ch) = (ks', ch') \<Longrightarrow>
   length ks' = length ks \<and> length ch' = length ch
   \<and> (\<forall>j<length ks. ks' ! j = (if i \<le> j \<and> j < i + n then key ! j else ks ! j))
   \<and> (\<forall>j<length ch. ch' ! j = (if i \<le> j \<and> j < i + n then child ! j else ch ! j))"
proof (induction n arbitrary: i ks ch)
  case (Suc n)
  from Suc.IH [of "i + 1" "ks[i := key ! i]" "ch[i := child ! i]"] Suc.prems
  show ?case by (auto simp: nth_list_update not_less_eq_eq dest: le_antisym)
qed auto

lemma grow_4_16_arrays:
  assumes ok: "sorted_arrays 4 4 ks ch"
    and g: "grow_4_16 0 4 ks ch (replicate 16 16, replicate 16 None) = (ks', ch')"
  shows "sorted_arrays 16 4 ks' ch'" "take 4 ks' = take 4 ks" "take 4 ch' = take 4 ch"
proof -
  note sp = grow_4_16_spec [OF g]
  from ok have len: "length ks = 4" "length ch = 4" by (auto simp: sorted_arrays_def)
  show t1: "take 4 ks' = take 4 ks" by (rule nth_equalityI) (use sp len in auto)
  show t2: "take 4 ch' = take 4 ch" by (rule nth_equalityI) (use sp len in auto)
  show "sorted_arrays 16 4 ks' ch'"
    using sp ok unfolding sorted_arrays_def t1 by auto
qed

lemma grow_16_48_spec:
  "grow_16_48 i n key child (ci, ch) = (ci', ch') \<Longrightarrow> length ci = 256 \<Longrightarrow>
    distinct (take (i + n) key) \<Longrightarrow> i + n \<le> length key \<Longrightarrow>
    length ci' = 256 \<and> length ch' = length ch
    \<and> (\<forall>j<length ch. ch' ! j = (if i \<le> j \<and> j < i + n then child ! j else ch ! j))
    \<and> (\<forall>j. i \<le> j \<and> j < i + n \<longrightarrow> ci' ! unat (key ! j) = of_nat j)
    \<and> (\<forall>b<256. (\<forall>j. i \<le> j \<and> j < i + n \<longrightarrow> unat (key ! j) \<noteq> b) \<longrightarrow> ci' ! b = ci ! b)"
proof (induction n arbitrary: i ci ch)
  case (Suc n)
  let ?ci = "ci[unat (key ! i) := of_nat i]" and ?ch = "ch[i := child ! i]"
  have g: "grow_16_48 (i + 1) n key child (?ci, ?ch) = (ci', ch')" using Suc.prems by simp
  have d: "distinct (take (i + 1 + n) key)" and l: "i + 1 + n \<le> length key"
    using Suc.prems by auto
  have IH: "length ci' = 256" "length ch' = length ch"
    "\<forall>j<length ch. ch' ! j = (if i + 1 \<le> j \<and> j < i + 1 + n then child ! j else ?ch ! j)"
    "\<forall>j. i + 1 \<le> j \<and> j < i + 1 + n \<longrightarrow> ci' ! unat (key ! j) = of_nat j"
    "\<forall>b<256. (\<forall>j. i + 1 \<le> j \<and> j < i + 1 + n \<longrightarrow> unat (key ! j) \<noteq> b) \<longrightarrow> ci' ! b = ?ci ! b"
    using Suc.IH [OF g _ d l] Suc.prems(2) by simp_all
  have fresh: "unat (key ! j) \<noteq> unat (key ! i)" if "i + 1 \<le> j" "j < i + 1 + n" for j
  proof -
    have "take (i + 1 + n) key ! j \<noteq> take (i + 1 + n) key ! i"
      using that l by (intro notI) (use nth_eq_iff_index_eq [OF d, of j i] in simp)
    then show ?thesis using that by (simp add: word_unat_eq_iff [symmetric])
  qed
  have "ci' ! unat (key ! i) = of_nat i"
    using IH(5) fresh Suc.prems(2) by simp
  then have c4: "ci' ! unat (key ! j) = of_nat j" if "i \<le> j" "j < i + Suc n" for j
    using that IH(4) by (cases "j = i") auto
  have c5: "ci' ! b = ci ! b" if "b < 256" "\<forall>j. i \<le> j \<and> j < i + Suc n \<longrightarrow> unat (key ! j) \<noteq> b" for b
    using that IH(5) by (auto simp: nth_list_update)
  show ?case using IH(1-3) c4 c5 by (auto simp: nth_list_update not_less_eq_eq dest: le_antisym)
qed auto

lemma EMPTY_unat: "x \<noteq> EMPTY_MARKER \<longleftrightarrow> unat x \<noteq> 48"
  by (simp add: EMPTY_MARKER_def word_unat_eq_iff)

lemma grow_16_48_arrays:
  assumes ok: "sorted_arrays 16 16 ks ch"
    and g: "grow_16_48 0 16 ks ch (replicate 256 EMPTY_MARKER, replicate 48 None) = (ci, ch')"
  shows "indexed_arrays 16 ci ch'"
    and "set (entries (N48 p 16 ci ch')) = {(b, d). (b, Some d) \<in> set (zip ks ch)}"
proof -
  from ok have len: "length ks = 16" "length ch = 16" and d: "distinct ks"
    and some: "\<And>i. i < 16 \<Longrightarrow> ch ! i \<noteq> None"
    by (auto simp: sorted_arrays_def strict_sorted_iff)
  have sp: "length ci = 256" "length ch' = 48"
    "\<And>j. j < 48 \<Longrightarrow> ch' ! j = (if j < 16 then ch ! j else None)"
    "\<And>j. j < 16 \<Longrightarrow> ci ! unat (ks ! j) = of_nat j"
    "\<And>b. b < 256 \<Longrightarrow> (\<forall>j<16. unat (ks ! j) \<noteq> b) \<Longrightarrow> ci ! b = EMPTY_MARKER"
    using grow_16_48_spec [OF g] d len by auto
  have ci: "ci ! b \<noteq> EMPTY_MARKER \<longleftrightarrow> (\<exists>j<16. unat (ks ! j) = b)" if "b < 256" for b
  proof
    assume "ci ! b \<noteq> EMPTY_MARKER"
    then show "\<exists>j<16. unat (ks ! j) = b" using sp(5) [OF that] by blast
  qed (use sp(4) in \<open>auto simp: EMPTY_unat\<close>)
  have ciE: "\<exists>j<16. unat (ks ! j) = b \<and> ci ! b = of_nat j" if "b < 256" "ci ! b \<noteq> EMPTY_MARKER" for b
    using ci that sp(4) by metis
  show "indexed_arrays 16 ci ch'"
    unfolding indexed_arrays_def
  proof (intro conjI allI impI)
    fix i assume "i < (256::nat)" "ci ! i \<noteq> EMPTY_MARKER"
    then show "unat (ci ! i) < 16" using ciE [of i] by auto
  next
    fix i j assume "i < (256::nat)" "j < (256::nat)" "ci ! i \<noteq> EMPTY_MARKER" "ci ! i = ci ! j"
    with ciE [of i] ciE [of j] obtain k l where "k < 16" "unat (ks ! k) = i" "ci ! i = of_nat k"
      "l < 16" "unat (ks ! l) = j" "ci ! j = of_nat l" by auto
    moreover from this \<open>ci ! i = ci ! j\<close> have "k = l"
      using unat_of_nat_u8 [of k] unat_of_nat_u8 [of l] by simp
    ultimately show "i = j" by simp
  qed (use sp some in auto)
  have "(b, e) \<in> set (entries (N48 p 16 ci ch')) \<longleftrightarrow> (\<exists>i<16. ks ! i = b \<and> ch ! i = Some e)" for b e
  proof
    assume "(b, e) \<in> set (entries (N48 p 16 ci ch'))"
    then obtain i where i: "i < 256" "ci ! i \<noteq> EMPTY_MARKER" "of_nat i = b"
      "slot ch' (unat (ci ! i)) = Some e" by (auto simp: entries_set)
    with ciE obtain j where "j < 16" "unat (ks ! j) = i" "ci ! i = of_nat j" by blast
    with i sp(2,3) show "\<exists>i<16. ks ! i = b \<and> ch ! i = Some e"
      by (auto intro!: exI [of _ j])
  next
    assume "\<exists>i<16. ks ! i = b \<and> ch ! i = Some e"
    then obtain j where j: "j < 16" "ks ! j = b" "ch ! j = Some e" by blast
    have "ci ! unat b = of_nat j" using sp(4) j by auto
    moreover have "(of_nat j :: u8) \<noteq> EMPTY_MARKER" "unat (of_nat j :: u8) = j"
      using j by (simp_all add: EMPTY_unat)
    ultimately show "(b, e) \<in> set (entries (N48 p 16 ci ch'))"
      using j sp(2,3) by (simp add: entries_set) (intro exI [of _ "unat b"], simp)
  qed
  then show "set (entries (N48 p 16 ci ch')) = {(b, d). (b, Some d) \<in> set (zip ks ch)}"
    by (auto simp: in_set_zip len)
qed

section \<open>Inserting a child\<close>

lemma entries_256:
  assumes "length ch = 256"
  shows "(b, d) \<in> set (entries (N256 p c ch)) \<longleftrightarrow> ch ! unat b = Some d"
  using assms by (auto simp: entries_set intro!: exI [of _ "unat b"])

lemma entries_48:
  assumes "indexed_arrays c ci ch"
  shows "(b, d) \<in> set (entries (N48 p c ci ch)) \<longleftrightarrow>
    ci ! unat b \<noteq> EMPTY_MARKER \<and> ch ! unat (ci ! unat b) = Some d"
proof -
  have len: "length ch = 48" using assms by (simp add: indexed_arrays_def)
  have "unat (ci ! i) < 48" if "i < 256" "ci ! i \<noteq> EMPTY_MARKER" for i
    using assms that by (fastforce simp: indexed_arrays_def)
  with len show ?thesis by (auto simp: entries_set intro!: exI [of _ "unat b"])
qed

lemma unat_eq_u8_iff: "unat (a :: u8) = unat b \<longleftrightarrow> a = b"
  by (simp add: word_unat_eq_iff)

lemma Node256_Insert_entries:
  assumes "length ch = 256"
  shows "b \<notin> fst ` set (entries (N256 p c ch)) \<Longrightarrow>
    set (entries (Node256_Insert p c ch b (Some x))) = insert (b, x) (set (entries (N256 p c ch)))"
  using assms unfolding Node256_Insert_def
  by (auto simp: entries_256 nth_list_update unat_eq_u8_iff image_iff Bex_def split: if_splits)

lemma Node48_Insert_ok:
  fixes x :: Node
  assumes ok: "indexed_arrays c ci ch" and b: "b \<notin> fst ` set (entries (N48 p c ci ch))"
  defines "n' \<equiv> Node48_Insert p c ci ch b (Some x)"
  shows "node_ok n' \<and> node_prefix n' = p
    \<and> set (entries n') = insert (b, x) (set (entries (N48 p c ci ch)))"
proof (cases "c < 48")
  case True
  let ?ci = "ci[unat b := of_nat c]" and ?ch = "ch[c := Some x]"
  have len: "length ci = 256" "length ch = 48" and null: "\<And>i. i < 48 \<Longrightarrow> ch ! i \<noteq> None \<longleftrightarrow> i < c"
    and idx: "\<And>i. i < 256 \<Longrightarrow> ci ! i \<noteq> EMPTY_MARKER \<Longrightarrow> unat (ci ! i) < c"
    and inj: "\<And>i j. i < 256 \<Longrightarrow> j < 256 \<Longrightarrow> ci ! i \<noteq> EMPTY_MARKER \<Longrightarrow> ci ! i = ci ! j \<Longrightarrow> i = j"
    using ok unfolding indexed_arrays_def by blast+
  have n': "n' = N48 p (c + 1) ?ci ?ch"
    using True null [of c] by (simp add: n'_def Node48_Insert_def Let_def)
  have c: "(of_nat c :: u8) \<noteq> EMPTY_MARKER" "unat (of_nat c :: u8) = c"
    using True by (simp_all add: EMPTY_unat)
  have old: "ci ! unat b = EMPTY_MARKER"
  proof (rule ccontr)
    assume a: "ci ! unat b \<noteq> EMPTY_MARKER"
    with idx [of "unat b"] True null [of "unat (ci ! unat b)"]
    have "ch ! unat (ci ! unat b) \<noteq> None" by simp
    with a b entries_48 [OF ok] show False by (force simp: image_iff)
  qed
  have ok': "indexed_arrays (c + 1) ?ci ?ch"
    unfolding indexed_arrays_def
  proof (intro conjI allI impI)
    fix i j assume a: "i < (256::nat)" "j < (256::nat)" "?ci ! i \<noteq> EMPTY_MARKER" "?ci ! i = ?ci ! j"
    show "i = j"
    proof (cases "i = unat b \<or> j = unat b")
      case True
      with a len c idx [of i] idx [of j] show ?thesis
        by (auto simp: nth_list_update split: if_splits)
    next
      case False
      with a inj [of i j] show ?thesis by simp
    qed
  qed (use True len null idx c in \<open>auto simp: nth_list_update less_Suc_eq\<close>)
  have "(b', d) \<in> set (entries n') \<longleftrightarrow> (b', d) \<in> insert (b, x) (set (entries (N48 p c ci ch)))" for b' d
    unfolding n' entries_48 [OF ok'] insert_iff entries_48 [OF ok]
    using len c old idx [of "unat b'"] True
    by (cases "b' = b") (auto simp: unat_eq_u8_iff nth_list_update)
  with ok' n' show ?thesis by auto
next
  case False
  then have "c = 48" using ok by (simp add: indexed_arrays_def)
  have g: "length (grow_48_256 ci ch) = 256" by (simp add: grow_48_256_def)
  have "(b', d) \<in> set (entries (N256 p c (grow_48_256 ci ch))) \<longleftrightarrow>
      (b', d) \<in> set (entries (N48 p c ci ch))" for b' d
    unfolding entries_256 [OF g] entries_48 [OF ok] by (simp add: grow_48_256_def)
  then have e: "set (entries (N256 p c (grow_48_256 ci ch))) = set (entries (N48 p c ci ch))" by auto
  show ?thesis
    using False g b Node256_Insert_entries [OF g, of b p c x] e
    by (simp add: n'_def Node48_Insert_def) (simp add: Node256_Insert_def)
qed

lemma Node16_Insert_ok:
  fixes x :: Node and p :: "u8 list"
  assumes ok: "sorted_arrays 16 c ks ch" and b: "b \<notin> set (take c ks)"
  defines "n' \<equiv> Node16_Insert p c ks ch b (Some x)"
  shows "node_ok n' \<and> node_prefix n' = p
    \<and> set (entries n') = {(b, d). (b, Some d) \<in> set (zip (take c ks) (take c ch))} \<union> {(b, x)}"
proof (cases "c < 16")
  case True
  obtain ks' ch' where eq: "insert_sorted_arrays c ks ch b (Some x) = (ks', ch')"
    by (cases "insert_sorted_arrays c ks ch b (Some x)")
  note ins = sorted_arrays_insert [OF ok True b eq]
  have n': "n' = N16 p (Suc c) ks' ch'" using True eq by (simp add: n'_def Node16_Insert_def)
  show ?thesis
    unfolding n' using ins(1) entries_arrays [OF ins(1), of "N16 p (Suc c) ks' ch'" p] ins(2) by auto
next
  case False
  then have c: "c = 16" using ok by (simp add: sorted_arrays_def)
  obtain ci ch' where g: "grow_16_48 0 16 ks ch (replicate 256 EMPTY_MARKER, replicate 48 None) = (ci, ch')"
    by (cases "grow_16_48 0 16 ks ch (replicate 256 EMPTY_MARKER, replicate 48 None)")
  have len: "length ks = 16" "length ch = 16" using ok by (auto simp: sorted_arrays_def)
  note gr = grow_16_48_arrays [OF ok [unfolded c] g]
  have "fst ` set (entries (N48 p 16 ci ch')) \<subseteq> set ks"
    unfolding gr(2) by (auto dest: set_zip_leftD)
  then have "b \<notin> fst ` set (entries (N48 p 16 ci ch'))" using b c len by auto
  from Node48_Insert_ok [OF gr(1) this, of x] show ?thesis
    using c g len unfolding gr(2) by (auto simp: n'_def Node16_Insert_def)
qed

lemma Node4_Insert_ok:
  fixes x :: Node and p :: "u8 list"
  assumes ok: "sorted_arrays 4 c ks ch" and b: "b \<notin> set (take c ks)"
  defines "n' \<equiv> Node4_Insert p c ks ch b (Some x)"
  shows "node_ok n' \<and> node_prefix n' = p
    \<and> set (entries n') = {(b, d). (b, Some d) \<in> set (zip (take c ks) (take c ch))} \<union> {(b, x)}"
proof (cases "c < 4")
  case True
  obtain ks' ch' where eq: "insert_sorted_arrays c ks ch b (Some x) = (ks', ch')"
    by (cases "insert_sorted_arrays c ks ch b (Some x)")
  note ins = sorted_arrays_insert [OF ok True b eq]
  have n': "n' = N4 p (Suc c) ks' ch'" using True eq by (simp add: n'_def Node4_Insert_def)
  show ?thesis
    unfolding n' using ins(1) entries_arrays [OF ins(1), of "N4 p (Suc c) ks' ch'" p] ins(2) by auto
next
  case False
  then have c: "c = 4" using ok by (simp add: sorted_arrays_def)
  obtain ks' ch' where g: "grow_4_16 0 4 ks ch (replicate 16 16, replicate 16 None) = (ks', ch')"
    by (cases "grow_4_16 0 4 ks ch (replicate 16 16, replicate 16 None)")
  note gr = grow_4_16_arrays [OF ok [unfolded c] g]
  have "b \<notin> set (take 4 ks')" using b c gr(2) by simp
  from Node16_Insert_ok [OF gr(1) this, of p x] show ?thesis
    using c g gr(2,3) by (auto simp: n'_def Node4_Insert_def)
qed

lemma InsertLeaf_law:
  assumes ok: "node_ok n" and b: "b \<notin> fst ` set (entries n)"
  shows "\<exists>n'. InsertLeaf n b x = Inr n' \<and> node_ok n' \<and> node_prefix n' = node_prefix n
    \<and> set (entries n') = insert (b, x) (set (entries n))"
proof (cases n)
  case (N4 p c ks ch)
  then have arr: "sorted_arrays 4 c ks ch" using ok by simp
  have "b \<notin> set (take c ks)" using take_keys_entries [OF arr, of n p] N4 ok b by simp
  from Node4_Insert_ok [OF arr this, of p x] N4 entries_arrays [OF arr, of n p]
  show ?thesis by auto
next
  case (N16 p c ks ch)
  then have arr: "sorted_arrays 16 c ks ch" using ok by simp
  have "b \<notin> set (take c ks)" using take_keys_entries [OF arr, of n p] N16 ok b by simp
  from Node16_Insert_ok [OF arr this, of p x] N16 entries_arrays [OF arr, of n p]
  show ?thesis by auto
next
  case (N48 p c ci ch)
  with ok b Node48_Insert_ok [of c ci ch b p x] show ?thesis by auto
next
  case (N256 p c ch)
  then have len: "length ch = 256" using ok by simp
  from Node256_Insert_entries [OF len, of b p c x] b N256 len show ?thesis
    by (auto simp: Node256_Insert_def)
qed (use ok in simp)

section \<open>Enumeration of the positions\<close>

lemma scan_from_spec:
  "scan_from P i = (case filter P [i..<256] of [] \<Rightarrow> -1 | j # _ \<Rightarrow> int j)"
proof (induction P i rule: scan_from.induct)
  case (1 P i)
  show ?case
  proof (cases "i < 256")
    case True
    with 1 show ?thesis unfolding scan_from.simps [of P i] by (simp add: upt_conv_Cons)
  next
    case False
    then show ?thesis by (simp add: scan_from.simps [of P i])
  qed
qed

text \<open>The position after \<open>pos\<close> (all positions for \<open>pos = -1\<close>) that \<^verbatim>\<open>GetNextPos\<close> visits.\<close>

definition after :: "Node \<Rightarrow> int \<Rightarrow> nat list" where
  "after n pos = filter (\<lambda>i. pos < int i) (posns n)"

lemma filter_after_upt: "filter (\<lambda>i. k \<le> i) (filter P [0..<m]) = filter P [k..<m]"
proof (cases "k \<le> m")
  case True
  then have "[0..<m] = [0..<k] @ [k..<m]" by (metis le0 le_add_diff_inverse upt_add_eq_append)
  moreover have "filter (\<lambda>i. k \<le> i) (filter P [0..<k]) = []" by (auto simp: filter_empty_conv)
  moreover have "filter (\<lambda>i. k \<le> i) (filter P [k..<m]) = filter P [k..<m]"
    unfolding filter_filter by (rule filter_cong) auto
  ultimately show ?thesis by simp
qed (auto simp: filter_empty_conv)

lemma after_upt:
  assumes "-1 \<le> pos"
  shows "filter (\<lambda>i. pos < int i) (filter P [0..<m]) = filter P [nat (pos + 1)..<m]"
proof -
  have "(pos < int i) = (nat (pos + 1) \<le> i)" for i using assms by linarith
  then show ?thesis by (simp only: filter_after_upt)
qed

lemma GetNextPos_law:
  assumes "node_ok n" "-1 \<le> pos" "posns n \<noteq> []"
  shows "GetNextPos n pos = (case after n pos of [] \<Rightarrow> -1 | i # _ \<Rightarrow> int i)"
proof -
  have arr: "(if pos = -1 then 0 else if pos + 1 < int c then pos + 1 else -1) =
      (case filter (\<lambda>i. pos < int i) [0..<c] of [] \<Rightarrow> -1 | i # _ \<Rightarrow> int i)" if "0 < c" for c
    using after_upt [OF assms(2), of "\<lambda>_. True" c] assms(2) that
    by (auto simp: upt_eq_Cons_conv split: list.splits)
  have scan: "(if pos = -1 then 0 else nat (pos + 1)) = nat (pos + 1)" by simp
  show ?thesis
  proof (cases n)
    case (N4 p c ks ch)
    then have "0 < c" using assms(3) by (cases c) auto
    with arr [of c] N4 show ?thesis by (simp add: after_def)
  next
    case (N16 p c ks ch)
    then have "0 < c" using assms(3) by (cases c) auto
    with arr [of c] N16 show ?thesis by (simp add: after_def)
  next
    case (N48 p c ci ch)
    show ?thesis unfolding N48 GetNextPos.simps Node48_GetNextPos_def after_def posns.simps scan
      by (simp only: scan_from_spec after_upt [OF assms(2)])
  next
    case (N256 p c ch)
    show ?thesis unfolding N256 GetNextPos.simps Node256_GetNextPos_def after_def posns.simps scan
      by (simp only: scan_from_spec after_upt [OF assms(2)])
  qed (use assms in simp)
qed

lemma after_Cons:
  assumes "sorted_wrt (<) (posns n)" "after n pos = i # is"
  shows "after n (int i) = is" "i \<in> set (posns n)" "pos < int i"
proof -
  have "sorted_wrt (<) (i # is)"
    using assms by (metis after_def sorted_wrt_filter)
  have mem: "j \<in> set (i # is) \<longleftrightarrow> j \<in> set (posns n) \<and> pos < int j" for j
    unfolding assms(2) [symmetric] after_def by auto
  show "i \<in> set (posns n)" "pos < int i" using mem [of i] by auto
  have "after n (int i) = filter (\<lambda>j. i < j) (after n pos)"
    unfolding after_def filter_filter by (rule filter_cong) (use mem [of i] in auto)
  also have "\<dots> = is"
    using \<open>sorted_wrt (<) (i # is)\<close> assms(2) by (auto intro!: filter_True)
  finally show "after n (int i) = is" .
qed

lemma posns_sorted: "sorted_wrt (<) (posns n)"
  by (cases n) (auto simp: sorted_filter_upt)

section \<open>The interface of an inner node\<close>

text \<open>
  What the tree algorithms rely on, whichever of the four layouts a node has: a sorted
  association of bytes with children, lookup by byte, access and replacement through the
  position found, and insertion of an absent byte (which may change the layout).
\<close>

locale byte_map =
  fixes ok :: "'n \<Rightarrow> bool"
    and assoc :: "'n \<Rightarrow> (u8 \<times> 'c) list"
    and pos_of :: "'n \<Rightarrow> u8 \<Rightarrow> int"
    and child :: "'n \<Rightarrow> int \<Rightarrow> 'c option res"
    and put :: "'n \<Rightarrow> int \<Rightarrow> 'c option \<Rightarrow> 'n"
    and add :: "'n \<Rightarrow> u8 \<Rightarrow> 'c \<Rightarrow> 'n res"
  assumes assoc_sorted: "ok n \<Longrightarrow> sorted_wrt (<) (map fst (assoc n))"
    and pos_absent: "ok n \<Longrightarrow> pos_of n b = -1 \<longleftrightarrow> b \<notin> fst ` set (assoc n)"
    and child_found: "ok n \<Longrightarrow> pos_of n b \<noteq> -1 \<Longrightarrow>
      \<exists>c. child n (pos_of n b) = Inr (Some c) \<and> (b, c) \<in> set (assoc n)"
    and put_found: "ok n \<Longrightarrow> pos_of n b \<noteq> -1 \<Longrightarrow>
      ok (put n (pos_of n b) (Some c))
      \<and> assoc (put n (pos_of n b) (Some c)) = map (\<lambda>(b', d). (b', if b' = b then c else d)) (assoc n)"
    and add_absent: "ok n \<Longrightarrow> pos_of n b = -1 \<Longrightarrow>
      \<exists>n'. add n b c = Inr n' \<and> ok n' \<and> set (assoc n') = insert (b, c) (set (assoc n))"
begin

lemma assoc_distinct: "ok n \<Longrightarrow> distinct (map fst (assoc n))"
  using assoc_sorted by (simp add: strict_sorted_iff)

lemma lookup_iff: "ok n \<Longrightarrow> map_of (assoc n) b = Some c \<longleftrightarrow> (b, c) \<in> set (assoc n)"
  by (simp add: assoc_distinct)

lemma lookup_absent: "ok n \<Longrightarrow> map_of (assoc n) b = None \<longleftrightarrow> pos_of n b = -1"
  by (simp add: pos_absent map_of_eq_None_iff)

lemma child_lookup:
  "ok n \<Longrightarrow> pos_of n b \<noteq> -1 \<Longrightarrow> child n (pos_of n b) = Inr (map_of (assoc n) b)"
  using child_found [of n b] lookup_iff [of n b] by force

lemma lookup_put:
  assumes "ok n" "pos_of n b \<noteq> -1"
  shows "map_of (assoc (put n (pos_of n b) (Some c))) = (map_of (assoc n))(b \<mapsto> c)"
proof (rule ext)
  fix x
  let ?n = "put n (pos_of n b) (Some c)"
  have ok: "ok ?n" and eq: "assoc ?n = map (\<lambda>(b', d). (b', if b' = b then c else d)) (assoc n)"
    using put_found [OF assms] by auto
  have "map_of (assoc n) b \<noteq> None" using assms lookup_absent by blast
  moreover have "map_of (map (\<lambda>(b', d). (b', if b' = b then c else d)) xs) x =
      (if x = b then if map_of xs b = None then None else Some c else map_of xs x)" for xs :: "(u8 \<times> 'c) list"
    by (induction xs) auto
  ultimately show "map_of (assoc ?n) x = ((map_of (assoc n))(b \<mapsto> c)) x" by (auto simp: eq)
qed

lemma lookup_add:
  assumes "ok n" "pos_of n b = -1"
  shows "\<exists>n'. add n b c = Inr n' \<and> ok n' \<and> map_of (assoc n') = (map_of (assoc n))(b \<mapsto> c)"
proof -
  obtain n' where n': "add n b c = Inr n'" "ok n'" "set (assoc n') = insert (b, c) (set (assoc n))"
    using add_absent [OF assms] by blast
  have "map_of (assoc n') x = ((map_of (assoc n))(b \<mapsto> c)) x" for x
  proof (cases "map_of (assoc n') x")
    case None
    then have "x \<notin> fst ` set (assoc n')" by (simp add: map_of_eq_None_iff)
    then have "x \<noteq> b" "map_of (assoc n) x = None" using n'(3) by (auto simp: map_of_eq_None_iff)
    with None show ?thesis by simp
  next
    case (Some d)
    then have "(x, d) \<in> insert (b, c) (set (assoc n))" using n' lookup_iff by metis
    moreover have "(b, d') \<notin> set (assoc n)" for d'
      using assms pos_absent by force
    ultimately show ?thesis
      using Some lookup_iff [OF assms(1), of x d] by auto
  qed
  with n' show ?thesis by blast
qed

end

interpretation node_map: byte_map node_ok entries GetChildPos GetChild PutChild InsertLeaf
proof (unfold_locales, goal_cases)
  case (1 n)
  then show ?case by (rule entries_sorted)
next
  case (2 n b)
  then show ?case by (rule GetChildPos_None)
next
  case (3 n b)
  then obtain i where i: "i \<in> set (posns n)" "GetChildPos n b = int i" "byte_at n i = b"
    by (auto elim: GetChildPos_Some)
  with child_at_posns [OF 3(1) i(1)] show ?case
    using GetChild_at [OF 3(1) i(1)] by (auto simp: entries_set)
next
  case (4 n b c)
  then obtain i where i: "i \<in> set (posns n)" "GetChildPos n b = int i" "byte_at n i = b"
    by (auto elim: GetChildPos_Some)
  with PutChild_ok [OF 4(1) i(1)] PutChild_entries [OF 4(1) i(1)] show ?case by simp
next
  case (5 n b c)
  then show ?case using InsertLeaf_law [of n b c] GetChildPos_None [of n b] by blast
qed

end
