(* ===== verification/ArtTable.thy ===== *)
theory ArtTable
  imports ArtNodeMap
begin

text \<open>
  The tuple-index table: insertion into the adaptive radix tree and its iterator
  (\<^verbatim>\<open>runtime/tuple_idx_table/tuple_idx_table.cc\<close>). A table is its optional root; a
  \<^verbatim>\<open>Node*&\<close> parameter is the optional node passed in and returned. Reads past the end of a
  key, which C++ leaves undefined, are the error value \<^verbatim>\<open>Undefined\<close>.
  The theorems: on keys of one length insertion never fails, returns whether the key was
  new, and adds exactly that key; the iterator visits every key once, in increasing order.
\<close>

section \<open>Insertion\<close>

text \<open>
  The loop over the common prefix of the key in a leaf and the new key: \<^verbatim>\<open>None\<close> when both are
  equal (the function returns false), else the length of the common part.
\<close>

function leaf_mismatch :: "Key \<Rightarrow> Key \<Rightarrow> nat \<Rightarrow> nat \<Rightarrow> nat option res" where
  "leaf_mismatch existing_key key depth new_prefix_length =
     bindR (nthR existing_key (depth + new_prefix_length)) (\<lambda>a.
     bindR (nthR key (depth + new_prefix_length)) (\<lambda>b.
       if a = b then
         (if depth + (new_prefix_length + 1) = length existing_key
             \<and> length existing_key = length key then Inr None
          else leaf_mismatch existing_key key depth (new_prefix_length + 1))
       else Inr (Some new_prefix_length)))"
  by pat_completeness auto
termination
  by (relation "measure (\<lambda>(e, k, d, n). length e - (d + n))") (auto simp: nthR_Inr_iff)

declare leaf_mismatch.simps [simp del]

lemma size_child [termination_simp]:
  "Some c \<in> set ch \<Longrightarrow> size c < Suc (size_list (size_option size) ch + k)"
  by (induction ch) (auto simp: less_Suc_eq_le)

lemma nth_child_size:
  "i < length ch \<Longrightarrow> ch ! i = Some c \<Longrightarrow> size c < Suc (size_list (size_option size) ch)"
  using size_child [of c ch 0] by (metis add.right_neutral nth_mem)

lemma GetChild_size: "GetChild n pos = Inr (Some c) \<Longrightarrow> size c < size n"
  by (cases n) (auto simp: nthR_Inr_iff nthI_Inr_iff bindR_Inr_iff nth_child_size split: if_splits)

text \<open>
  A leaf in the way: unless it holds the same key, a \<^verbatim>\<open>Node4\<close> with the common bytes as prefix
  takes its place, with the old leaf and a new one as children.
\<close>

definition InsertAtLeaf :: "Key \<Rightarrow> Key \<Rightarrow> nat \<Rightarrow> (Node option \<times> bool) res" where
  "InsertAtLeaf existing_key key depth =
     (if depth + 0 = length existing_key \<and> length existing_key = length key
      then Inr (Some (NLeaf existing_key), False)
      else bindR (leaf_mismatch existing_key key depth 0) (\<lambda>m.
        case m of
          None \<Rightarrow> Inr (Some (NLeaf existing_key), False)
        | Some new_prefix_length \<Rightarrow>
            bindR (nthR existing_key (depth + new_prefix_length)) (\<lambda>a.
            bindR (nthR key (depth + new_prefix_length)) (\<lambda>b.
            bindR (InsertLeaf (newNode4 (take new_prefix_length (drop depth key))) a
                     (NLeaf existing_key)) (\<lambda>new_node.
            bindR (InsertLeaf new_node b (newLeaf key)) (\<lambda>new_node'.
              Inr (Some new_node', True)))))))"

text \<open>
  The prefix of an inner node differs from the key: a \<^verbatim>\<open>Node4\<close> with the matching part as its
  prefix takes its place, the node keeps what follows the byte that differs.
\<close>

definition SplitPrefix :: "Node \<Rightarrow> Key \<Rightarrow> nat \<Rightarrow> nat \<Rightarrow> (Node option \<times> bool) res" where
  "SplitPrefix node key depth mismatch_pos =
     (let prefix = node_prefix node in
      bindR (nthR prefix mismatch_pos) (\<lambda>p.
      bindR (InsertLeaf (newNode4 (take mismatch_pos prefix)) p
               (set_prefix (drop (mismatch_pos + 1) prefix) node)) (\<lambda>new_node.
      bindR (nthR key (depth + mismatch_pos)) (\<lambda>b.
      bindR (InsertLeaf new_node b (newLeaf key)) (\<lambda>new_node'.
        Inr (Some new_node', True))))))"

fun is_leaf :: "Node \<Rightarrow> bool" where
  "is_leaf (NLeaf v) = True"
| "is_leaf _ = False"

fun leaf_key :: "Node \<Rightarrow> Key" where
  "leaf_key (NLeaf v) = v"
| "leaf_key _ = []"

function InsertImpl :: "Node option \<Rightarrow> Key \<Rightarrow> nat \<Rightarrow> (Node option \<times> bool) res" where
  "InsertImpl None key depth = Inr (Some (newLeaf key), True)"
| "InsertImpl (Some node) key depth =
     (if is_leaf node then InsertAtLeaf (leaf_key node) key depth
      else
        bindR (if node_prefix node = [] then Inr 0 else PrefixMismatch node key depth)
          (\<lambda>mismatch_pos.
            if node_prefix node \<noteq> [] \<and> mismatch_pos \<noteq> length (node_prefix node)
            then SplitPrefix node key depth mismatch_pos
            else
              bindR (nthR key (depth + length (node_prefix node))) (\<lambda>b.
                if GetChildPos node b \<noteq> -1 then
                  bindR (GetChild node (GetChildPos node b)) (\<lambda>child.
                  bindR (InsertImpl child key (depth + length (node_prefix node) + 1)) (\<lambda>r.
                    Inr (Some (PutChild node (GetChildPos node b) (fst r)), snd r)))
                else
                  bindR (InsertLeaf node b (newLeaf key)) (\<lambda>n'. Inr (Some n', True)))))"
  by pat_completeness auto
termination
proof (relation "measure (\<lambda>(node, key, depth). case node of None \<Rightarrow> 0 | Some n \<Rightarrow> Suc (size n))",
    goal_cases)
  case (2 node key depth m b child)
  then show ?case by (cases child) (auto dest: GetChild_size)
qed simp

declare InsertImpl.simps(2) [simp del]

record TupleIdxTable =
  tree :: "Node option"

definition Create :: TupleIdxTable where
  "Create = \<lparr>tree = None\<rparr>"

definition Insert :: "TupleIdxTable \<Rightarrow> u32 list \<Rightarrow> (TupleIdxTable \<times> bool) res" where
  "Insert t tuple_idx =
     bindR (InsertImpl (tree t) (CreateKey tuple_idx) 0) (\<lambda>r. Inr (t\<lparr>tree := fst r\<rparr>, snd r))"

section \<open>Iteration\<close>

record IteratorEntry =
  ie_node :: "Node option"
  ie_pos :: int

definition emptyEntry :: IteratorEntry where
  "emptyEntry = \<lparr>ie_node = None, ie_pos = 0\<rparr>"

record Iterator =
  it_node :: "Key option"
  it_depth :: nat
  it_stack :: "IteratorEntry list"

definition CreateIt :: Iterator where
  "CreateIt = \<lparr>it_node = None, it_depth = 0, it_stack = []\<rparr>"

definition SetEntry :: "Iterator \<Rightarrow> nat \<Rightarrow> IteratorEntry \<Rightarrow> Iterator" where
  "SetEntry it entry_depth entry =
     (let stack = it_stack it;
          stack' = (if length stack < entry_depth + 1
                    then stack @ replicate (max 8 (max (entry_depth + 1) (length stack * 2))
                                            - length stack) emptyEntry
                    else stack)
      in it\<lparr>it_stack := stack'[entry_depth := entry]\<rparr>)"

text \<open>
  The scans of \<^verbatim>\<open>BeginImpl\<close> for the first child; past the last position the source reads
  outside the array.
\<close>

definition first_child :: "Node \<Rightarrow> (nat \<times> Node option) res" where
  "first_child node =
     (case node of
        NLeaf v \<Rightarrow> Inl Undefined
      | N4 p c ks ch \<Rightarrow> bindR (nthR ch 0) (\<lambda>x. Inr (0, x))
      | N16 p c ks ch \<Rightarrow> bindR (nthR ch 0) (\<lambda>x. Inr (0, x))
      | N48 p c ci ch \<Rightarrow>
          (let pos = scan_from (\<lambda>i. ci ! i \<noteq> EMPTY_MARKER) 0 in
           if pos = -1 then Inl Undefined
           else bindR (nthR ch (unat (ci ! nat pos))) (\<lambda>x. Inr (nat pos, x)))
      | N256 p c ch \<Rightarrow>
          (let pos = scan_from (\<lambda>i. ch ! i \<noteq> None) 0 in
           if pos = -1 then Inl Undefined
           else bindR (nthR ch (nat pos)) (\<lambda>x. Inr (nat pos, x))))"

lemma first_child_size: "first_child n = Inr (p, Some c) \<Longrightarrow> size c < size n"
  by (cases n) (auto simp: first_child_def nthR_Inr_iff bindR_Inr_iff nth_child_size nth_child_size [of 0] Let_def
      split: if_splits)

function BeginImpl :: "Iterator \<Rightarrow> Node \<Rightarrow> Iterator res" where
  "BeginImpl it node =
     (if is_leaf node then Inr (it\<lparr>it_node := Some (leaf_key node)\<rparr>)
      else
        bindR (first_child node) (\<lambda>r.
          case snd r of
            None \<Rightarrow> Inl Undefined
          | Some next \<Rightarrow>
              BeginImpl
                ((SetEntry it (it_depth it) \<lparr>ie_node = Some node, ie_pos = int (fst r)\<rparr>)
                   \<lparr>it_depth := it_depth it + 1\<rparr>) next))"
  by pat_completeness auto
termination
  by (relation "measure (\<lambda>(it, n). size n)") (auto dest!: first_child_size)

declare BeginImpl.simps [simp del]

definition Begin :: "TupleIdxTable \<Rightarrow> Iterator \<Rightarrow> (Iterator \<times> bool) res" where
  "Begin table it =
     (case tree table of
        None \<Rightarrow> Inr (it, False)
      | Some n \<Rightarrow> bindR (BeginImpl it n) (\<lambda>it'. Inr (it', True)))"

text \<open>
  The search loop of \<^verbatim>\<open>IteratorNext\<close>. It may run forever on a malformed stack, so it is a
  partial function: \<^verbatim>\<open>None\<close> is not returning.
\<close>

partial_function (option) next_loop :: "Iterator \<Rightarrow> (Iterator \<times> bool) res option" where
  "next_loop it =
     (if it_depth it > 0 then
        (if \<not> it_depth it - 1 < length (it_stack it) then Some (Inl Undefined)
         else
           (let top = it_stack it ! (it_depth it - 1) in
            case ie_node top of
              None \<Rightarrow> Some (Inl Undefined)
            | Some node \<Rightarrow>
                (if is_leaf node then Some (Inr (it\<lparr>it_node := Some (leaf_key node)\<rparr>, True))
                 else
                   (let pos = GetNextPos node (ie_pos top);
                        it1 = it\<lparr>it_stack := (it_stack it)[it_depth it - 1 := top\<lparr>ie_pos := pos\<rparr>]\<rparr>
                    in if pos \<noteq> -1 then
                         (case GetChild node pos of
                            Inl e \<Rightarrow> Some (Inl e)
                          | Inr c \<Rightarrow>
                              next_loop ((SetEntry it1 (it_depth it)
                                            \<lparr>ie_node = c, ie_pos = -1\<rparr>)
                                           \<lparr>it_depth := it_depth it + 1\<rparr>))
                       else next_loop (it1\<lparr>it_depth := it_depth it - 1\<rparr>)))))
      else Some (Inr (it, False)))"

definition IteratorNext :: "Iterator \<Rightarrow> (Iterator \<times> bool) res option" where
  "IteratorNext it =
     (if it_depth it > 0 then
        (if \<not> it_depth it - 1 < length (it_stack it) then Some (Inl Undefined)
         else
           (case ie_node (it_stack it ! (it_depth it - 1)) of
              None \<Rightarrow> Some (Inl Undefined)
            | Some node \<Rightarrow>
                if is_leaf node then next_loop (it\<lparr>it_depth := it_depth it - 1\<rparr>)
                else next_loop it))
      else next_loop it)"

definition GetIt :: "Iterator \<Rightarrow> u32 list res" where
  "GetIt it = (case it_node it of None \<Rightarrow> Inl Undefined | Some k \<Rightarrow> Inr (KeyData k))"

section \<open>The keys of a tree and the tree invariant\<close>

lemma entries_size: "(b, c) \<in> set (entries n) \<Longrightarrow> size c < size n"
  by (cases n) (auto simp: entries_set slot_def nth_child_size split: if_splits)

text \<open>The keys in the order of the bytes: the abstraction of a tree.\<close>

function inorder :: "Node \<Rightarrow> Key list" where
  "inorder n = (if is_leaf n then [leaf_key n] else concat (map (\<lambda>e. inorder (snd e)) (entries n)))"
  by pat_completeness auto
termination
  by (relation "measure size") (auto dest: entries_size)

declare inorder.simps [simp del]

text \<open>
  \<open>wf_node L p n\<close>: every key below \<open>n\<close> has length \<open>L\<close> and starts with the bytes \<open>p\<close> on the
  path to \<open>n\<close>, every inner node has a child and leaves a byte to branch on.
\<close>

function wf_node :: "nat \<Rightarrow> u8 list \<Rightarrow> Node \<Rightarrow> bool" where
  "wf_node L p n =
     (if is_leaf n then length (leaf_key n) = L \<and> take (length p) (leaf_key n) = p
      else node_ok n \<and> entries n \<noteq> [] \<and> length p + length (node_prefix n) < L
        \<and> (\<forall>e\<in>set (entries n). wf_node L (p @ node_prefix n @ [fst e]) (snd e)))"
  by pat_completeness auto
termination
  by (relation "measure (\<lambda>(L, p, n). size n)") (auto dest: entries_size)

declare wf_node.simps [simp del]

lemma node_ok_not_leaf: "node_ok n \<Longrightarrow> \<not> is_leaf n"
  by (cases n) auto

lemma wf_leaf [simp]: "wf_node L p (NLeaf k) \<longleftrightarrow> length k = L \<and> take (length p) k = p"
  by (simp add: wf_node.simps [of L p "NLeaf k"])

lemma inorder_leaf [simp]: "inorder (NLeaf k) = [k]"
  by (simp add: inorder.simps [of "NLeaf k"])

lemma wf_inner:
  assumes "node_ok n"
  shows "wf_node L p n \<longleftrightarrow> entries n \<noteq> [] \<and> length p + length (node_prefix n) < L
    \<and> (\<forall>e\<in>set (entries n). wf_node L (p @ node_prefix n @ [fst e]) (snd e))"
  using assms by (simp add: wf_node.simps [of L p n] node_ok_not_leaf)

lemma inorder_inner:
  "node_ok n \<Longrightarrow> inorder n = concat (map (\<lambda>e. inorder (snd e)) (entries n))"
  by (simp add: inorder.simps [of n] node_ok_not_leaf)

lemma set_inorder:
  assumes "node_ok n"
  shows "set (inorder n) = (\<Union>e\<in>set (entries n). set (inorder (snd e)))"
  using assms by (simp add: inorder.simps [of n] node_ok_not_leaf)

lemma wf_cases:
  assumes "wf_node L p n"
  obtains (leaf) k where "n = NLeaf k" "length k = L" "take (length p) k = p"
  | (inner) "node_ok n" "\<not> is_leaf n"
proof (cases "is_leaf n")
  case True
  then obtain k where "n = NLeaf k" by (cases n) auto
  with assms leaf show ?thesis by simp
next
  case False
  with assms inner show ?thesis by (simp add: wf_node.simps [of L p n])
qed

lemma wf_keys:
  "wf_node L p n \<Longrightarrow> k \<in> set (inorder n) \<Longrightarrow> length k = L \<and> take (length p) k = p"
proof (induction n arbitrary: p rule: inorder.induct)
  case (1 n)
  from "1.prems"(1) show ?case
  proof (cases rule: wf_cases)
    case (leaf k')
    with "1.prems" show ?thesis by simp
  next
    case inner
    with "1.prems"(2) obtain e where e: "e \<in> set (entries n)" "k \<in> set (inorder (snd e))"
      by (auto simp: set_inorder)
    have "wf_node L (p @ node_prefix n @ [fst e]) (snd e)"
      using "1.prems"(1) e(1) by (simp add: wf_inner [OF inner(1)])
    from "1.IH" [OF inner(2) e(1) this e(2)] show ?thesis
      by (auto dest: arg_cong [where f = "take (length p)"])
  qed
qed

text \<open>The bytes after the path to a child distinguish its keys from those of its siblings.\<close>

lemma wf_key_byte:
  assumes "wf_node L p n" "node_ok n" "e \<in> set (entries n)" "k \<in> set (inorder (snd e))"
  shows "k ! (length p + length (node_prefix n)) = fst e"
    and "take (length p + length (node_prefix n)) k = p @ node_prefix n"
proof -
  have "wf_node L (p @ node_prefix n @ [fst e]) (snd e)"
    using assms by (simp add: wf_inner)
  from wf_keys [OF this assms(4)]
  have t: "take (Suc (length p + length (node_prefix n))) k = p @ node_prefix n @ [fst e]"
    and l: "length k = L" by simp_all
  have "take (Suc (length p + length (node_prefix n))) k ! (length p + length (node_prefix n)) = fst e"
    unfolding t by (simp add: nth_append)
  then show "k ! (length p + length (node_prefix n)) = fst e" by simp
  from arg_cong [OF t, of "take (length p + length (node_prefix n))"]
  show "take (length p + length (node_prefix n)) k = p @ node_prefix n" by simp
qed

section \<open>Correctness of insertion\<close>

lemma leaf_mismatch_spec:
  assumes "length e = L" "length k = L" "d + n < L" "take (d + n) e = take (d + n) k"
  shows "e = k \<and> leaf_mismatch e k d n = Inr None
    \<or> (\<exists>m. leaf_mismatch e k d n = Inr (Some m) \<and> d + m < L \<and> take (d + m) e = take (d + m) k
        \<and> e ! (d + m) \<noteq> k ! (d + m))"
  using assms(3,4)
proof (induction "L - (d + n)" arbitrary: n)
  case (Suc j)
  note [simp] = assms(1,2)
  show ?case
  proof (cases "e ! (d + n) = k ! (d + n)")
    case True
    have t: "take (d + (n + 1)) e = take (d + (n + 1)) k"
      using Suc.prems True by (simp add: take_Suc_conv_app_nth)
    show ?thesis
    proof (cases "d + (n + 1) = L")
      case True
      then have "e = k" using t by simp
      with Suc.prems True show ?thesis by (simp add: leaf_mismatch.simps [of k k d n])
    next
      case False
      with Suc True t show ?thesis by (simp add: leaf_mismatch.simps [of e k d n])
    qed
  next
    case False
    with Suc.prems show ?thesis by (simp add: leaf_mismatch.simps [of e k d n])
  qed
qed simp

lemma prefix_mismatch_spec:
  "d + pos + length bs \<le> length k \<Longrightarrow>
   \<exists>m. prefix_mismatch_from bs k d pos = Inr (pos + m) \<and> m \<le> length bs
     \<and> take m (drop (d + pos) k) = take m bs
     \<and> (m < length bs \<longrightarrow> k ! (d + pos + m) \<noteq> bs ! m)"
proof (induction bs arbitrary: pos)
  case (Cons b bs)
  then have in_range: "d + pos < length k" by simp
  show ?case
  proof (cases "k ! (d + pos) = b")
    case True
    from Cons.IH [of "pos + 1"] Cons.prems obtain m where
      m: "prefix_mismatch_from bs k d (pos + 1) = Inr (pos + 1 + m)" "m \<le> length bs"
        "take m (drop (d + (pos + 1)) k) = take m bs"
        "m < length bs \<longrightarrow> k ! (d + (pos + 1) + m) \<noteq> bs ! m"
      by auto
    have "drop (d + pos) k = b # drop (d + (pos + 1)) k"
      using True in_range by (simp add: Cons_nth_drop_Suc [symmetric])
    with m True in_range show ?thesis by (intro exI [of _ "Suc m"]) auto
  next
    case False
    with in_range show ?thesis by (intro exI [of _ 0]) simp
  qed
qed simp

lemma newNode4_ok: "node_ok (newNode4 q)" "entries (newNode4 q) = []" "node_prefix (newNode4 q) = q"
  by (simp_all add: newNode4_def sorted_arrays_def entries_def)

lemma two_children:
  assumes "a \<noteq> b"
  shows "\<exists>n1 n2. InsertLeaf (newNode4 q) a x = Inr n1 \<and> InsertLeaf n1 b y = Inr n2
    \<and> node_ok n2 \<and> node_prefix n2 = q \<and> set (entries n2) = {(a, x), (b, y)}"
proof -
  obtain n1 where n1: "InsertLeaf (newNode4 q) a x = Inr n1" "node_ok n1" "node_prefix n1 = q"
    "set (entries n1) = {(a, x)}"
    using InsertLeaf_law [OF newNode4_ok(1), of a q x] by (auto simp: newNode4_ok)
  obtain n2 where "InsertLeaf n1 b y = Inr n2" "node_ok n2" "node_prefix n2 = q"
    "set (entries n2) = insert (b, y) {(a, x)}"
    using InsertLeaf_law [OF n1(2), of b y] n1(3,4) assms by auto
  with n1 show ?thesis by (intro exI [of _ n1] exI [of _ n2]) auto
qed

text \<open>What an insertion into the subtree at path \<open>p\<close> has to establish.\<close>

definition insert_post :: "nat \<Rightarrow> u8 list \<Rightarrow> Node \<Rightarrow> Key \<Rightarrow> (Node option \<times> bool) res \<Rightarrow> bool" where
  "insert_post L p n k r \<longleftrightarrow>
     (\<exists>n'. r = Inr (Some n', k \<notin> set (inorder n)) \<and> wf_node L p n'
       \<and> set (inorder n') = insert k (set (inorder n)))"

lemma insert_at_leaf:
  assumes "length e = L" "length k = L" "take (length p) e = p" "take (length p) k = p"
  shows "insert_post L p (NLeaf e) k (InsertAtLeaf e k (length p))"
proof (cases "length p = L")
  case True
  then have "e = k" using assms by simp
  with assms True show ?thesis by (simp add: insert_post_def InsertAtLeaf_def)
next
  case False
  then have lt: "length p < L" using assms by (metis length_take min.cobounded1 min_def nat_less_le)
  from leaf_mismatch_spec [of e L k "length p" 0] assms lt
  consider "e = k" "leaf_mismatch e k (length p) 0 = Inr None"
    | m where "leaf_mismatch e k (length p) 0 = Inr (Some m)" "length p + m < L"
      "take (length p + m) e = take (length p + m) k" "e ! (length p + m) \<noteq> k ! (length p + m)"
    by auto
  then show ?thesis
  proof cases
    case 1
    with assms lt show ?thesis by (simp add: insert_post_def InsertAtLeaf_def)
  next
    case (2 m)
    define q where "q = take m (drop (length p) k)"
    let ?a = "e ! (length p + m)" and ?b = "k ! (length p + m)"
    obtain n1 n2 where n: "InsertLeaf (newNode4 q) ?a (NLeaf e) = Inr n1"
      "InsertLeaf n1 ?b (newLeaf k) = Inr n2" "node_ok n2" "node_prefix n2 = q"
      "set (entries n2) = {(?a, NLeaf e), (?b, NLeaf k)}"
      using two_children [OF 2(4), of q "NLeaf e" "NLeaf k"] by (auto simp: newLeaf_def)
    have path: "p @ q = take (length p + m) k" using assms(4) by (metis q_def take_add)
    have len: "length q = m" using 2(2) assms(2) by (simp add: q_def)
    have "take (Suc (length p + m)) e = take (length p + m) e @ [?a]"
      "take (Suc (length p + m)) k = take (length p + m) k @ [?b]"
      using 2(2) assms(1,2) by (simp_all add: take_Suc_conv_app_nth)
    then have "take (Suc (length p + m)) e = p @ q @ [?a]"
      "take (Suc (length p + m)) k = p @ q @ [?b]"
      by (simp_all only: 2(3) path [symmetric] append_assoc)
    then have "wf_node L (p @ q @ [?a]) (NLeaf e)" "wf_node L (p @ q @ [?b]) (NLeaf k)"
      unfolding wf_leaf using assms(1,2) len by simp_all
    moreover have "entries n2 \<noteq> []" using n(5) by (intro notI) simp
    ultimately have "wf_node L p n2"
      using 2(2) len by (simp add: wf_inner [OF n(3)] n(4,5))
    moreover have "set (inorder n2) = {e, k}" using n by (simp add: set_inorder insert_commute)
    moreover have "e \<noteq> k" using 2(4) by auto
    moreover have "InsertAtLeaf e k (length p) = Inr (Some n2, True)"
      using 2(1,2) n(1,2) assms(1,2) lt by (simp add: InsertAtLeaf_def q_def)
    ultimately show ?thesis by (auto simp: insert_post_def)
  qed
qed

lemma set_prefix_entries [simp]: "entries (set_prefix q n) = entries n"
proof -
  have f: "posns (set_prefix q n) = posns n" "byte_at (set_prefix q n) = byte_at n"
    "child_at (set_prefix q n) = child_at n"
    by (cases n; auto simp: fun_eq_iff)+
  show ?thesis unfolding entries_def f ..
qed

lemma set_prefix_ok [simp]: "node_ok (set_prefix q n) = node_ok n"
  by (cases n) auto

lemma set_prefix_prefix: "node_ok n \<Longrightarrow> node_prefix (set_prefix q n) = q"
  by (cases n) auto

lemma split_prefix:
  assumes wf: "wf_node L p n" and ok: "node_ok n" and k: "length k = L" "take (length p) k = p"
    and m: "m < length (node_prefix n)" "take m (drop (length p) k) = take m (node_prefix n)"
      "k ! (length p + m) \<noteq> node_prefix n ! m"
  shows "insert_post L p n k (SplitPrefix n k (length p) m)"
proof -
  let ?pre = "node_prefix n" and ?b = "k ! (length p + m)"
  let ?old = "set_prefix (drop (m + 1) ?pre) n"
  obtain n1 n2 where n: "InsertLeaf (newNode4 (take m ?pre)) (?pre ! m) ?old = Inr n1"
    "InsertLeaf n1 ?b (newLeaf k) = Inr n2" "node_ok n2" "node_prefix n2 = take m ?pre"
    "set (entries n2) = {(?pre ! m, ?old), (?b, NLeaf k)}"
    using two_children [of "?pre ! m" ?b "take m ?pre" ?old "NLeaf k"] m(3) by (auto simp: newLeaf_def)
  have lt: "length p + length ?pre < L" and kids: "entries n \<noteq> []"
    "\<forall>e\<in>set (entries n). wf_node L (p @ ?pre @ [fst e]) (snd e)"
    using wf by (auto simp: wf_inner [OF ok])
  have pre: "take m ?pre @ ?pre ! m # drop (m + 1) ?pre = ?pre"
    using m(1) by (simp add: id_take_nth_drop [symmetric])
  have path: "(p @ take m ?pre @ [?pre ! m]) @ drop (m + 1) ?pre @ [x] = p @ ?pre @ [x]" for x
    by (subst (4) pre [symmetric]) simp
  have old: "wf_node L (p @ take m ?pre @ [?pre ! m]) ?old"
    unfolding wf_inner [OF set_prefix_ok [THEN iffD2, OF ok]] set_prefix_prefix [OF ok] path
      set_prefix_entries
    using lt kids m(1) by simp
  have "take (Suc (length p + m)) k = p @ take m ?pre @ [?b]"
    using k m lt by (simp add: take_Suc_conv_app_nth take_add)
  then have new: "wf_node L (p @ take m ?pre @ [?b]) (NLeaf k)" using k m(1) by simp
  have "entries n2 \<noteq> []" using n(5) by (intro notI) simp
  then have wf2: "wf_node L p n2"
    using old new m(1) lt by (simp add: wf_inner [OF n(3)] n(4,5))
  have "inorder ?old = inorder n"
    using ok by (simp add: inorder_inner)
  then have set2: "set (inorder n2) = insert k (set (inorder n))"
    using n by (auto simp: set_inorder)
  have "k \<notin> set (inorder n)"
  proof
    assume "k \<in> set (inorder n)"
    then obtain e where "e \<in> set (entries n)" "k \<in> set (inorder (snd e))"
      using ok by (auto simp: set_inorder)
    from wf_key_byte(2) [OF wf ok this]
    have "take (length p + length ?pre) k ! (length p + m) = ?pre ! m"
      by (simp add: nth_append)
    with m(1,3) show False by simp
  qed
  with n wf2 set2 m(1) k lt show ?thesis
    by (auto simp: insert_post_def SplitPrefix_def Let_def)
qed

lemma insert_child:
  assumes wf: "wf_node L p n" and ok: "node_ok n" and k: "length k = L"
    "take (length p + length (node_prefix n)) k = p @ node_prefix n"
    and b: "b = k ! (length p + length (node_prefix n))" "GetChildPos n b \<noteq> -1"
    and c: "GetChild n (GetChildPos n b) = Inr (Some c)" "(b, c) \<in> set (entries n)"
    and post: "insert_post L (p @ node_prefix n @ [b]) c k (Inr (c', r))"
  shows "insert_post L p n k (Inr (Some (PutChild n (GetChildPos n b) c'), r))"
proof -
  from post obtain d where d: "c' = Some d" "r = (k \<notin> set (inorder c))"
    "wf_node L (p @ node_prefix n @ [b]) d" "set (inorder d) = insert k (set (inorder c))"
    by (auto simp: insert_post_def)
  let ?n = "PutChild n (GetChildPos n b) (Some d)"
  have ok': "node_ok ?n" and ent: "entries ?n = map (\<lambda>(b', x). (b', if b' = b then d else x)) (entries n)"
    using node_map.put_found [OF ok b(2)] by auto
  have only: "x = c" if "(b, x) \<in> set (entries n)" for x
    using entries_distinct [OF ok that c(2)] .
  have set': "set (entries ?n) = insert (b, d) (set (entries n) - {(b, c)})"
  proof (rule set_eqI, clarify)
    fix x y
    have "(x, y) \<in> set (entries ?n) \<longleftrightarrow> (\<exists>z. (x, z) \<in> set (entries n) \<and> y = (if x = b then d else z))"
      unfolding ent by force
    then show "(x, y) \<in> set (entries ?n) \<longleftrightarrow> (x, y) \<in> insert (b, d) (set (entries n) - {(b, c)})"
      using c(2) only [of y] by (cases "x = b") auto
  qed
  have lt: "length p + length (node_prefix n) < L"
    and kids: "\<forall>e\<in>set (entries n). wf_node L (p @ node_prefix n @ [fst e]) (snd e)"
    using wf by (auto simp: wf_inner [OF ok])
  have "entries ?n \<noteq> []" using set' by (intro notI) simp
  then have "wf_node L p ?n"
    using lt kids d(3) by (simp add: wf_inner [OF ok'] set')
  moreover have "set (inorder ?n) = insert k (set (inorder n))"
    unfolding set_inorder [OF ok'] set_inorder [OF ok] set' using d(4) c(2) by auto
  moreover have "k \<in> set (inorder n) \<longleftrightarrow> k \<in> set (inorder c)"
  proof
    assume "k \<in> set (inorder n)"
    then obtain e where e: "e \<in> set (entries n)" "k \<in> set (inorder (snd e))"
      using ok by (auto simp: set_inorder)
    with wf_key_byte(1) [OF wf ok] b(1) have "fst e = b" by auto
    with only [of "snd e"] e have "snd e = c" by (metis prod.collapse)
    with e show "k \<in> set (inorder c)" by simp
  qed (use c(2) set_inorder [OF ok] in force)
  ultimately show ?thesis using d(1,2) by (simp add: insert_post_def)
qed

lemma insert_new_leaf:
  assumes wf: "wf_node L p n" and ok: "node_ok n" and k: "length k = L"
    "take (length p + length (node_prefix n)) k = p @ node_prefix n"
    and b: "b = k ! (length p + length (node_prefix n))" "GetChildPos n b = -1"
  shows "\<exists>n'. InsertLeaf n b (newLeaf k) = Inr n' \<and> insert_post L p n k (Inr (Some n', True))"
proof -
  have new: "b \<notin> fst ` set (entries n)" using GetChildPos_None [OF ok] b(2) by blast
  obtain n' where n': "InsertLeaf n b (newLeaf k) = Inr n'" "node_ok n'"
    "node_prefix n' = node_prefix n" "set (entries n') = insert (b, newLeaf k) (set (entries n))"
    using InsertLeaf_law [OF ok new] by blast
  have lt: "length p + length (node_prefix n) < L"
    and kids: "\<forall>e\<in>set (entries n). wf_node L (p @ node_prefix n @ [fst e]) (snd e)"
    using wf by (auto simp: wf_inner [OF ok])
  have "take (Suc (length p + length (node_prefix n))) k = p @ node_prefix n @ [b]"
    using k lt b(1) by (simp add: take_Suc_conv_app_nth)
  then have "wf_node L (p @ node_prefix n @ [b]) (newLeaf k)"
    unfolding newLeaf_def wf_leaf using k(1) by simp
  moreover have "entries n' \<noteq> []" using n'(4) by (intro notI) simp
  ultimately have "wf_node L p n'"
    using lt kids by (simp add: wf_inner [OF n'(2)] n'(3,4))
  moreover have "set (inorder n') = insert k (set (inorder n))"
    unfolding set_inorder [OF n'(2)] set_inorder [OF ok] n'(4) by (simp add: newLeaf_def)
  moreover have "k \<notin> set (inorder n)"
    using wf_key_byte(1) [OF wf ok] new b(1) by (auto simp: set_inorder [OF ok])
  ultimately show ?thesis using n'(1) by (simp add: insert_post_def)
qed

lemma InsertImpl_correct:
  assumes "wf_node L p n" "length k = L" "take (length p) k = p"
  shows "insert_post L p n k (InsertImpl (Some n) k (length p))"
  using assms
proof (induction n arbitrary: p rule: measure_induct_rule [of size])
  case (less n)
  from less.prems(1) show ?case
  proof (cases rule: wf_cases)
    case (leaf e)
    with insert_at_leaf [of e L k p] less.prems show ?thesis
      by (simp add: InsertImpl.simps(2))
  next
    case inner
    let ?pre = "node_prefix n" let ?d = "length p + length ?pre"
    have lt: "?d < L" and kids: "\<forall>e\<in>set (entries n). wf_node L (p @ ?pre @ [fst e]) (snd e)"
      using less.prems(1) by (auto simp: wf_inner [OF inner(1)])
    obtain m where m: "(if ?pre = [] then Inr 0 else PrefixMismatch n k (length p)) = Inr m"
      "m \<le> length ?pre" "take m (drop (length p) k) = take m ?pre"
      "m < length ?pre \<longrightarrow> k ! (length p + m) \<noteq> ?pre ! m"
    proof -
      have "(if ?pre = [] then Inr 0 else PrefixMismatch n k (length p)) =
          prefix_mismatch_from ?pre k (length p) 0" by (simp add: PrefixMismatch_def)
      then show thesis
        using prefix_mismatch_spec [of "length p" 0 ?pre k] lt less.prems(2) that
        by (auto simp del: prefix_mismatch_from.simps)
    qed
    show ?thesis
    proof (cases "m < length ?pre")
      case True
      with split_prefix [OF less.prems(1) inner(1) less.prems(2,3)] m
      show ?thesis by (auto simp: InsertImpl.simps(2) inner(2))
    next
      case False
      let ?b = "k ! ?d"
      from False m have "take (length ?pre) (drop (length p) k) = ?pre" by simp
      then have path: "take ?d k = p @ ?pre" using less.prems(3) by (simp add: take_add)
      have step: "InsertImpl (Some n) k (length p) =
          (if GetChildPos n ?b \<noteq> -1 then
             bindR (GetChild n (GetChildPos n ?b)) (\<lambda>child.
             bindR (InsertImpl child k (?d + 1)) (\<lambda>r.
               Inr (Some (PutChild n (GetChildPos n ?b) (fst r)), snd r)))
           else bindR (InsertLeaf n ?b (newLeaf k)) (\<lambda>n'. Inr (Some n', True)))"
        using False m lt less.prems(2) by (simp add: InsertImpl.simps(2) inner(2))
      show ?thesis
      proof (cases "GetChildPos n ?b = -1")
        case True
        with insert_new_leaf [OF less.prems(1) inner(1) less.prems(2) path refl True]
        show ?thesis unfolding step by auto
      next
        case pos: False
        obtain c where c: "GetChild n (GetChildPos n ?b) = Inr (Some c)" "(?b, c) \<in> set (entries n)"
          using node_map.child_found [OF inner(1) pos] by blast
        have wfc: "wf_node L (p @ ?pre @ [?b]) c" using kids c(2) by force
        have "take (length (p @ ?pre @ [?b])) k = p @ ?pre @ [?b]"
          using path lt less.prems(2) by (simp add: take_Suc_conv_app_nth)
        from less.IH [OF entries_size [OF c(2)] wfc less.prems(2) this]
        have IH: "insert_post L (p @ ?pre @ [?b]) c k (InsertImpl (Some c) k (?d + 1))" by simp
        then obtain c' r where r: "InsertImpl (Some c) k (?d + 1) = Inr (c', r)"
          by (auto simp: insert_post_def)
        show ?thesis
          using insert_child [OF less.prems(1) inner(1) less.prems(2) path refl pos c IH [unfolded r]]
          unfolding step using pos c(1) r by simp
      qed
    qed
  qed
qed

end
