(* ===== verification/ArtCorrect.thy ===== *)
theory ArtCorrect
  imports ArtTable
begin

text \<open>
  What the tuple-index table promises its clients: insertion deduplicates tuples of one
  length, and a full iteration visits every tuple once, in increasing byte order.
\<close>

section \<open>Byte order of keys\<close>

lemma KeyLt_at:
  "take d k = take d k' \<Longrightarrow> d < length k \<Longrightarrow> d < length k' \<Longrightarrow> k ! d < k' ! d \<Longrightarrow> KeyLt k k'"
proof (induction d arbitrary: k k')
  case 0
  then show ?case by (cases k; cases k') auto
next
  case (Suc d)
  then show ?case by (cases k; cases k') auto
qed

lemma KeyLt_irrefl: "\<not> KeyLt k k"
  by (induction k) auto

lemma KeyLt_trans: "KeyLt a b \<Longrightarrow> KeyLt b c \<Longrightarrow> KeyLt a c"
proof (induction a arbitrary: b c)
  case Nil
  then show ?case by (cases b; cases c) auto
next
  case (Cons x xs)
  then show ?case by (cases b; cases c) (auto split: if_splits)
qed

lemma KeyGt_flip: "KeyGt a b = KeyLt b a"
  by (induction a b rule: KeyGt.induct) auto

lemma KeyGe_not_Lt: "KeyGe a b = (\<not> KeyLt a b)"
  by (induction a b rule: KeyGe.induct) auto

lemma KeyLt_total: "a = b \<or> KeyLt a b \<or> KeyLt b a"
  by (induction a b rule: KeyLt.induct) auto

lemma KeyEq_iff: "KeyEq a b \<longleftrightarrow> a = b"
  by (auto simp: KeyEq_def list_all_iff intro: nth_equalityI)

lemma sorted_wrt_concat:
  assumes "\<And>xs. xs \<in> set xss \<Longrightarrow> sorted_wrt P xs"
    and "sorted_wrt (\<lambda>xs ys. \<forall>x\<in>set xs. \<forall>y\<in>set ys. P x y) xss"
  shows "sorted_wrt P (concat xss)"
  using assms by (induction xss) (auto simp: sorted_wrt_append)

lemma inorder_sorted: "wf_node L p n \<Longrightarrow> sorted_wrt KeyLt (inorder n)"
proof (induction n arbitrary: p rule: inorder.induct)
  case (1 n)
  from "1.prems" show ?case
  proof (cases rule: wf_cases)
    case (leaf k)
    then show ?thesis by simp
  next
    case inner
    let ?d = "length p + length (node_prefix n)"
    have lt: "?d < L" and kids: "\<And>e. e \<in> set (entries n) \<Longrightarrow>
        wf_node L (p @ node_prefix n @ [fst e]) (snd e)"
      using "1.prems" by (auto simp: wf_inner [OF inner(1)])
    have less: "KeyLt k k'" if "e \<in> set (entries n)" "e' \<in> set (entries n)" "fst e < fst e'"
      "k \<in> set (inorder (snd e))" "k' \<in> set (inorder (snd e'))" for e e' k k'
    proof (rule KeyLt_at)
      note b = wf_key_byte [OF "1.prems" inner(1) that(1,4)]
        wf_key_byte [OF "1.prems" inner(1) that(2,5)]
      show "take ?d k = take ?d k'" "k ! ?d < k' ! ?d" using b that(3) by auto
      show "?d < length k" "?d < length k'"
        using wf_keys [OF kids [OF that(1)] that(4)] wf_keys [OF kids [OF that(2)] that(5)] lt
        by auto
    qed
    have "sorted_wrt (\<lambda>e e'. fst e < fst e') (entries n)"
      using entries_sorted [OF inner(1)] by (simp add: sorted_wrt_map)
    then have "sorted_wrt (\<lambda>e e'. \<forall>k\<in>set (inorder (snd e)). \<forall>k'\<in>set (inorder (snd e')). KeyLt k k')
        (entries n)"
      by (rule sorted_wrt_mono_rel [rotated]) (auto intro: less)
    moreover have "sorted_wrt KeyLt (inorder (snd e))" if "e \<in> set (entries n)" for e
      using "1.IH" [OF inner(2) that kids [OF that]] .
    ultimately show ?thesis
      unfolding inorder_inner [OF inner(1)]
      by (intro sorted_wrt_concat) (auto simp: sorted_wrt_map)
  qed
qed

lemma sorted_KeyLt_distinct: "sorted_wrt KeyLt ks \<Longrightarrow> distinct ks"
  by (induction ks) (auto simp: KeyLt_irrefl)

section \<open>The iterator\<close>

definition children_after :: "Node \<Rightarrow> int \<Rightarrow> Node list" where
  "children_after n pos = map (\<lambda>i. the (child_at n i)) (after n pos)"

text \<open>The keys an entry of the stack still has to deliver, and those of the whole stack.\<close>

definition entry_rest :: "IteratorEntry \<Rightarrow> Key list" where
  "entry_rest e =
     (case ie_node e of None \<Rightarrow> []
      | Some n \<Rightarrow> if is_leaf n then [leaf_key n]
                  else concat (map inorder (children_after n (ie_pos e))))"

definition remaining :: "IteratorEntry list \<Rightarrow> Key list" where
  "remaining st = concat (map entry_rest (rev st))"

definition active_stack :: "Iterator \<Rightarrow> IteratorEntry list" where
  "active_stack it = take (it_depth it) (it_stack it)"

definition entry_ok :: "IteratorEntry \<Rightarrow> bool" where
  "entry_ok e \<longleftrightarrow> -1 \<le> ie_pos e \<and> (\<exists>n L p. ie_node e = Some n \<and> wf_node L p n)"

definition stack_ok :: "Iterator \<Rightarrow> bool" where
  "stack_ok it \<longleftrightarrow> it_depth it \<le> length (it_stack it) \<and> (\<forall>e\<in>set (active_stack it). entry_ok e)"

text \<open>A weight that every round of the search loop decreases.\<close>

function node_weight :: "Node \<Rightarrow> nat" where
  "node_weight n =
     (if is_leaf n then 2 else 2 + sum_list (map (\<lambda>e. node_weight (snd e)) (entries n)))"
  by pat_completeness auto
termination by (relation "measure size") (auto dest: entries_size)

declare node_weight.simps [simp del]

definition entry_weight :: "IteratorEntry \<Rightarrow> nat" where
  "entry_weight e =
     (case ie_node e of None \<Rightarrow> 1
      | Some n \<Rightarrow> 1 + sum_list (map node_weight (children_after n (ie_pos e))))"

definition stack_weight :: "IteratorEntry list \<Rightarrow> nat" where
  "stack_weight st = sum_list (map entry_weight st)"

lemma SetEntry_take:
  assumes "d \<le> length (it_stack it)"
  shows "take (Suc d) (it_stack (SetEntry it d e)) = take d (it_stack it) @ [e]"
    and "Suc d \<le> length (it_stack (SetEntry it d e))"
    and "it_node (SetEntry it d e) = it_node it" "it_depth (SetEntry it d e) = it_depth it"
  using assms by (auto simp: SetEntry_def Let_def take_Suc_conv_app_nth nth_append)

lemma children_after_all:
  assumes "node_ok n"
  shows "children_after n (-1) = map snd (entries n)"
  using assms by (simp add: children_after_def after_def entries_map)

lemma wf_posns:
  assumes "wf_node L p n" "node_ok n"
  shows "posns n \<noteq> []"
  using assms by (auto simp: wf_inner entries_map)

lemma fresh_rest:
  assumes "wf_node L p n"
  shows "entry_rest \<lparr>ie_node = Some n, ie_pos = -1\<rparr> = inorder n"
  using assms
  by (cases rule: wf_cases)
    (auto simp: entry_rest_def children_after_all inorder_inner comp_def)

lemma fresh_weight:
  assumes "wf_node L p n"
  shows "entry_weight \<lparr>ie_node = Some n, ie_pos = -1\<rparr> < node_weight n"
  using assms
proof (cases rule: wf_cases)
  case (leaf k)
  then show ?thesis
    by (simp add: entry_weight_def node_weight.simps [of "NLeaf k"] children_after_def after_def)
next
  case inner
  then show ?thesis
    by (simp add: entry_weight_def node_weight.simps [of n] children_after_all comp_def)
qed

text \<open>The next child of an inner node on the stack: what \<^verbatim>\<open>GetNextPos\<close> and \<^verbatim>\<open>GetChild\<close> give.\<close>

lemma next_child:
  assumes wf: "wf_node L p n" and ok: "node_ok n" and pos: "-1 \<le> pos"
  shows "children_after n pos = [] \<and> GetNextPos n pos = -1
    \<or> (\<exists>i c q. GetNextPos n pos = int i \<and> GetChild n (int i) = Inr (Some c) \<and> wf_node L q c
        \<and> children_after n pos = c # children_after n (int i))"
proof (cases "after n pos")
  case Nil
  then show ?thesis
    using GetNextPos_law [OF ok pos wf_posns [OF wf ok]] by (simp add: children_after_def)
next
  case (Cons i "is")
  note a = after_Cons [OF posns_sorted Cons]
  obtain c where c: "child_at n i = Some c" using child_at_posns [OF ok a(2)] by blast
  have "(byte_at n i, c) \<in> set (entries n)" using a(2) c by (auto simp: entries_set)
  then have "wf_node L (p @ node_prefix n @ [byte_at n i]) c"
    using wf by (force simp: wf_inner [OF ok])
  moreover have "GetNextPos n pos = int i"
    using GetNextPos_law [OF ok pos wf_posns [OF wf ok]] Cons by simp
  moreover have "GetChild n (int i) = Inr (Some c)"
    using GetChild_at [OF ok a(2)] c by simp
  moreover have "children_after n pos = c # children_after n (int i)"
    using Cons a(1) c by (simp add: children_after_def)
  ultimately show ?thesis by blast
qed

lemma first_child_law:
  assumes wf: "wf_node L p n" and ok: "node_ok n"
  shows "\<exists>i c q. first_child n = Inr (i, Some c) \<and> wf_node L q c
    \<and> children_after n (-1) = c # children_after n (int i)"
proof -
  obtain i c q where ic: "GetNextPos n (-1) = int i" "GetChild n (int i) = Inr (Some c)"
    "wf_node L q c" "children_after n (-1) = c # children_after n (int i)"
    using next_child [OF wf ok, of "-1"] children_after_all [OF ok] wf by (auto simp: wf_inner [OF ok])
  have "first_child n = Inr (i, Some c)"
    using ic(1,2) ok
    by (cases n) (auto simp: first_child_def bindR_Inr_iff nthR_Inr_iff nthI_Inr_iff Let_def split: if_splits)
  with ic show ?thesis by blast
qed

lemma remaining_snoc [simp]: "remaining (st @ [e]) = entry_rest e @ remaining st"
  by (simp add: remaining_def)

lemma remaining_Nil [simp]: "remaining [] = []"
  by (simp add: remaining_def)

lemma stack_weight_snoc [simp]: "stack_weight (st @ [e]) = stack_weight st + entry_weight e"
  by (simp add: stack_weight_def)

lemma active_Suc:
  assumes "it_depth it = Suc d" "d < length (it_stack it)"
  shows "active_stack it = take d (it_stack it) @ [it_stack it ! d]"
  using assms by (simp add: active_stack_def take_Suc_conv_app_nth)

text \<open>Pushing an entry, as both \<^verbatim>\<open>BeginImpl\<close> and \<^verbatim>\<open>IteratorNext\<close> do.\<close>

lemma push_active:
  fixes it :: Iterator and e :: IteratorEntry
  assumes "it_depth it \<le> length (it_stack it)"
  defines "it' \<equiv> (SetEntry it (it_depth it) e)\<lparr>it_depth := it_depth it + 1\<rparr>"
  shows "active_stack it' = active_stack it @ [e]" "it_depth it' \<le> length (it_stack it')"
  using SetEntry_take [OF assms(1), of e] by (simp_all add: it'_def active_stack_def)

definition at_leaf :: "Iterator \<Rightarrow> Key \<Rightarrow> Key list \<Rightarrow> bool" where
  "at_leaf it k ks \<longleftrightarrow> it_node it = Some k \<and> stack_ok it
     \<and> (\<exists>st e. active_stack it = st @ [e] \<and> ie_node e = Some (NLeaf k) \<and> remaining st = ks)"

lemma next_loop_spec:
  assumes "stack_ok it"
  shows "case remaining (active_stack it) of
      [] \<Rightarrow> \<exists>it'. next_loop it = Some (Inr (it', False))
    | k # ks \<Rightarrow> \<exists>it'. next_loop it = Some (Inr (it', True)) \<and> at_leaf it' k ks"
  using assms
proof (induction it rule: measure_induct_rule [of "\<lambda>it. stack_weight (active_stack it)"])
  case (less it)
  show ?case
  proof (cases "it_depth it")
    case 0
    then show ?thesis by (simp add: next_loop.simps [of it] active_stack_def)
  next
    case (Suc d)
    let ?st = "take d (it_stack it)" and ?top = "it_stack it ! d"
    have d: "d < length (it_stack it)" using less.prems Suc by (simp add: stack_ok_def)
    note act = active_Suc [OF Suc d]
    have eok: "entry_ok ?top" and rok: "\<forall>e\<in>set ?st. entry_ok e"
      using less.prems by (auto simp: stack_ok_def act)
    then obtain n L p where n: "ie_node ?top = Some n" "wf_node L p n" "-1 \<le> ie_pos ?top"
      by (auto simp: entry_ok_def)
    from n(2) show ?thesis
    proof (cases rule: wf_cases)
      case (leaf k)
      let ?it' = "it\<lparr>it_node := Some k\<rparr>"
      have "next_loop it = Some (Inr (?it', True))"
        using leaf n(1) Suc d by (simp add: next_loop.simps [of it])
      moreover have "at_leaf ?it' k (remaining ?st)"
        using less.prems act leaf n(1) by (auto simp: at_leaf_def stack_ok_def active_stack_def)
      moreover have "remaining (active_stack it) = k # remaining ?st"
        using leaf n(1) by (simp add: act entry_rest_def)
      ultimately show ?thesis by simp
    next
      case inner
      let ?pos = "GetNextPos n (ie_pos ?top)"
      let ?it1 = "it\<lparr>it_stack := (it_stack it)[d := ?top\<lparr>ie_pos := ?pos\<rparr>]\<rparr>"
      have rest: "entry_rest ?top = concat (map inorder (children_after n (ie_pos ?top)))"
        and wt: "entry_weight ?top = 1 + sum_list (map node_weight (children_after n (ie_pos ?top)))"
        using n(1) inner(2) by (auto simp: entry_rest_def entry_weight_def)
      from next_child [OF n(2) inner(1) n(3)] show ?thesis
      proof (elim disjE exE conjE)
        assume e: "children_after n (ie_pos ?top) = []" "?pos = -1"
        let ?it' = "?it1\<lparr>it_depth := d\<rparr>"
        have a: "active_stack ?it' = ?st" using d by (simp add: active_stack_def)
        have ok': "stack_ok ?it'" using d rok unfolding stack_ok_def a by simp
        have wt': "stack_weight (active_stack ?it') < stack_weight (active_stack it)"
          unfolding a act by (simp add: wt)
        have nl: "next_loop it = next_loop ?it'"
          using e(2) n(1) inner(2) Suc d by (simp add: next_loop.simps [of it] Let_def)
        have rm: "remaining (active_stack it) = remaining (active_stack ?it')"
          unfolding a act by (simp add: rest e(1))
        show ?thesis using less.IH [OF wt' ok'] by (simp only: nl rm)
      next
        fix i c q
        assume s: "?pos = int i" "GetChild n (int i) = Inr (Some c)" "wf_node L q c"
          "children_after n (ie_pos ?top) = c # children_after n (int i)"
        let ?e = "\<lparr>ie_node = Some c, ie_pos = -1\<rparr>"
        let ?it' = "(SetEntry ?it1 (it_depth ?it1) ?e)\<lparr>it_depth := it_depth ?it1 + 1\<rparr>"
        have a1: "active_stack ?it1 = ?st @ [?top\<lparr>ie_pos := int i\<rparr>]"
          using active_Suc [of ?it1 d] Suc d s(1) by simp
        note psh = push_active [of ?it1 ?e]
        have a: "active_stack ?it' = ?st @ [?top\<lparr>ie_pos := int i\<rparr>, ?e]"
          using psh(1) a1 Suc d by simp
        have top': "entry_ok (?top\<lparr>ie_pos := int i\<rparr>)" "entry_ok ?e"
          using n s(3) by (auto simp: entry_ok_def)
        have ok': "stack_ok ?it'"
          using rok top' psh(2) Suc d unfolding stack_ok_def a by auto
        have r': "entry_rest (?top\<lparr>ie_pos := int i\<rparr>) = concat (map inorder (children_after n (int i)))"
          and w': "entry_weight (?top\<lparr>ie_pos := int i\<rparr>) =
            1 + sum_list (map node_weight (children_after n (int i)))"
          using n(1) inner(2) by (auto simp: entry_rest_def entry_weight_def)
        have wt': "stack_weight (active_stack ?it') < stack_weight (active_stack it)"
          using fresh_weight [OF s(3)] stack_weight_snoc [of "?st @ [?top\<lparr>ie_pos := int i\<rparr>]" ?e]
          unfolding a act by (simp add: wt w' s(4))
        have nl: "next_loop it = next_loop ?it'"
          using s(1,2) n(1) inner(2) Suc d by (simp add: next_loop.simps [of it] Let_def)
        have rm: "remaining (active_stack it) = remaining (active_stack ?it')"
          using fresh_rest [OF s(3)] remaining_snoc [of "?st @ [?top\<lparr>ie_pos := int i\<rparr>]" ?e]
          unfolding a act by (simp add: rest r' s(4))
        show ?thesis using less.IH [OF wt' ok'] by (simp only: nl rm)
      qed
    qed
  qed
qed

text \<open>
  What is still to come after the current key: the keys of the stack, without the leaf
  \<^verbatim>\<open>IteratorNext\<close> pops first when it is on top.
\<close>

definition pending :: "Iterator \<Rightarrow> Key list \<Rightarrow> bool" where
  "pending it ks \<longleftrightarrow> stack_ok it
     \<and> (case rev (active_stack it) of
          [] \<Rightarrow> ks = []
        | e # st \<Rightarrow> remaining (if is_leaf (the (ie_node e)) then rev st else active_stack it) = ks)"

lemma at_leaf_pending: "at_leaf it k ks \<Longrightarrow> pending it ks"
  by (auto simp: at_leaf_def pending_def)

lemma IteratorNext_spec:
  assumes "pending it ks"
  shows "case ks of
      [] \<Rightarrow> \<exists>it'. IteratorNext it = Some (Inr (it', False))
    | k # ks' \<Rightarrow> \<exists>it'. IteratorNext it = Some (Inr (it', True)) \<and> it_node it' = Some k \<and> pending it' ks'"
proof -
  obtain it1 where it1: "IteratorNext it = next_loop it1" "stack_ok it1"
    "remaining (active_stack it1) = ks"
  proof (cases "it_depth it")
    case 0
    then have "IteratorNext it = next_loop it" by (simp add: IteratorNext_def)
    with assms 0 that show thesis by (auto simp: pending_def active_stack_def)
  next
    case (Suc d)
    then have d: "d < length (it_stack it)" using assms by (simp add: pending_def stack_ok_def)
    note act = active_Suc [OF Suc d]
    let ?top = "it_stack it ! d" and ?it1 = "it\<lparr>it_depth := d\<rparr>"
    from assms obtain n where n: "ie_node ?top = Some n"
      by (auto simp: pending_def stack_ok_def act entry_ok_def)
    have a1: "active_stack ?it1 = take d (it_stack it)" by (simp add: active_stack_def)
    have "stack_ok ?it1" using assms d by (auto simp: pending_def stack_ok_def act a1)
    with assms n Suc d that [of ?it1] that [of it] show thesis
      by (cases "is_leaf n") (auto simp: pending_def IteratorNext_def act a1)
  qed
  from next_loop_spec [OF it1(2)] it1 show ?thesis
    by (cases ks) (auto simp: at_leaf_pending, auto simp: at_leaf_def)
qed

lemma BeginImpl_spec:
  assumes "wf_node L p n" "stack_ok it"
    and "\<forall>e\<in>set (active_stack it). \<not> is_leaf (the (ie_node e))"
  shows "\<exists>it' k ks. BeginImpl it n = Inr it' \<and> it_node it' = Some k \<and> pending it' ks
    \<and> k # ks = inorder n @ remaining (active_stack it)"
  using assms
proof (induction n arbitrary: p it rule: measure_induct_rule [of size])
  case (less n)
  from less.prems(1) show ?case
  proof (cases rule: wf_cases)
    case (leaf k)
    let ?it' = "it\<lparr>it_node := Some k\<rparr>"
    have a: "active_stack ?it' = active_stack it" by (simp add: active_stack_def)
    have "stack_ok ?it'" using less.prems(2) by (simp add: stack_ok_def a)
    then have "pending ?it' (remaining (active_stack it))"
      using less.prems(3) by (auto simp: pending_def a split: list.splits)
    then show ?thesis using leaf by (auto simp: BeginImpl.simps [of it "NLeaf k"])
  next
    case inner
    obtain i c q where c: "first_child n = Inr (i, Some c)" "wf_node L q c"
      "children_after n (-1) = c # children_after n (int i)"
      using first_child_law [OF less.prems(1) inner(1)] by blast
    let ?e = "\<lparr>ie_node = Some n, ie_pos = int i\<rparr>"
    let ?it1 = "(SetEntry it (it_depth it) ?e)\<lparr>it_depth := it_depth it + 1\<rparr>"
    have "it_depth it \<le> length (it_stack it)" using less.prems(2) by (simp add: stack_ok_def)
    note psh = push_active [OF this, of ?e]
    have ok1: "stack_ok ?it1"
      using less.prems(1,2) psh(2) unfolding stack_ok_def psh(1) by (auto simp: entry_ok_def)
    have in1: "\<forall>e\<in>set (active_stack ?it1). \<not> is_leaf (the (ie_node e))"
      unfolding psh(1) using less.prems(3) inner(2) by auto
    have "inorder n = inorder c @ entry_rest ?e"
      using fresh_rest [OF less.prems(1)] c(3) inner(2) by (simp add: entry_rest_def)
    moreover have "BeginImpl it n = BeginImpl ?it1 c"
      using c(1) inner(2) by (simp add: BeginImpl.simps [of it n])
    ultimately show ?thesis
      using less.IH [OF first_child_size [OF c(1)] c(2) ok1 in1] unfolding psh(1) by simp
  qed
qed

section \<open>The key encoding\<close>

unbundle bit_operations_syntax

lemma KeyData_CreateKey: "KeyData (CreateKey xs) = xs"
proof -
  have *: "ucast (ucast x :: u8) + push_bit 8 (ucast (ucast (drop_bit 8 x) :: u8))
      + push_bit 16 (ucast (ucast (drop_bit 16 x) :: u8))
      + push_bit 24 (ucast (ucast (drop_bit 24 x) :: u8)) = x" for x :: u32
  proof -
    have eq: "ucast (ucast (drop_bit n x) :: u8) = take_bit 8 (drop_bit n x)" for n
      by (rule bit_eqI) (auto simp: bit_simps)
    have "take_bit 8 x + push_bit 8 (take_bit 8 (drop_bit 8 x))
      + push_bit 16 (take_bit 8 (drop_bit 16 x)) + push_bit 24 (take_bit 8 (drop_bit 24 x)) = x"
    proof -
      have split: "take_bit n x + push_bit n (take_bit 8 (drop_bit n x)) = take_bit (n + 8) x" for n
      proof -
        have "take_bit n x AND push_bit n (take_bit 8 (drop_bit n x)) = 0"
          by (rule bit_eqI) (auto simp: bit_simps)
        then have "take_bit n x + push_bit n (take_bit 8 (drop_bit n x)) =
            take_bit n x OR push_bit n (take_bit 8 (drop_bit n x))"
          by (simp add: disjunctive_add_eq_or)
        also have "\<dots> = take_bit (n + 8) x" by (rule bit_eqI) (auto simp: bit_simps)
        finally show ?thesis .
      qed
      have "take_bit 32 x = x" by (rule bit_eqI) (auto simp: bit_simps)
      then show ?thesis using split [of 8] split [of 16] split [of 24] by simp
    qed
    then show ?thesis using eq [of 0] by (simp add: eq)
  qed
  show ?thesis
    by (induction xs) (simp_all add: CreateKey_def int32_bytes_def *)
qed

lemma length_CreateKey: "length (CreateKey xs) = 4 * length xs"
  by (induction xs) (simp_all add: CreateKey_def int32_bytes_def)

lemma CreateKey_inj: "CreateKey xs = CreateKey ys \<longleftrightarrow> xs = ys"
  by (metis KeyData_CreateKey)

section \<open>The table as a set of tuples\<close>

definition table_keys :: "TupleIdxTable \<Rightarrow> Key list" where
  "table_keys t = (case tree t of None \<Rightarrow> [] | Some n \<Rightarrow> inorder n)"

definition table_tuples :: "TupleIdxTable \<Rightarrow> u32 list set" where
  "table_tuples t = set (map KeyData (table_keys t))"

definition table_ok :: "nat \<Rightarrow> TupleIdxTable \<Rightarrow> bool" where
  "table_ok N t \<longleftrightarrow> (case tree t of None \<Rightarrow> True | Some n \<Rightarrow> wf_node (4 * N) [] n)
     \<and> set (table_keys t) \<subseteq> CreateKey ` {xs. length xs = N}"

lemma table_keys_CreateKey:
  assumes "table_ok N t"
  shows "set (table_keys t) = CreateKey ` table_tuples t"
  using assms by (force simp: table_ok_def table_tuples_def KeyData_CreateKey)

lemma table_keys_sorted: "table_ok N t \<Longrightarrow> sorted_wrt KeyLt (table_keys t)"
  by (auto simp: table_ok_def table_keys_def intro: inorder_sorted split: option.splits)

lemma Insert_law:
  assumes ok: "table_ok N t" and len: "length xs = N"
  shows "\<exists>t'. Insert t xs = Inr (t', xs \<notin> table_tuples t) \<and> table_ok N t'
    \<and> table_tuples t' = insert xs (table_tuples t)"
proof -
  let ?k = "CreateKey xs"
  have new: "?k \<in> set (table_keys t) \<longleftrightarrow> xs \<in> table_tuples t"
    by (auto simp: table_keys_CreateKey [OF ok] CreateKey_inj)
  have "\<exists>n'. InsertImpl (tree t) ?k 0 = Inr (Some n', ?k \<notin> set (table_keys t))
      \<and> wf_node (4 * N) [] n' \<and> set (inorder n') = insert ?k (set (table_keys t))"
  proof (cases "tree t")
    case None
    then show ?thesis by (simp add: table_keys_def newLeaf_def length_CreateKey len)
  next
    case (Some n)
    then have "wf_node (4 * N) [] n" using ok by (simp add: table_ok_def)
    from InsertImpl_correct [OF this, of ?k] Some show ?thesis
      by (auto simp: insert_post_def length_CreateKey len table_keys_def)
  qed
  then obtain n' where n': "InsertImpl (tree t) ?k 0 = Inr (Some n', ?k \<notin> set (table_keys t))"
    "wf_node (4 * N) [] n'" "set (inorder n') = insert ?k (set (table_keys t))" by blast
  let ?t' = "t\<lparr>tree := Some n'\<rparr>"
  have keys: "set (table_keys ?t') = insert ?k (set (table_keys t))"
    by (simp add: table_keys_def n'(3))
  have "Insert t xs = Inr (?t', xs \<notin> table_tuples t)"
    using n'(1) by (simp add: Insert_def new)
  moreover have "table_ok N ?t'"
    using ok len n'(2) keys by (auto simp: table_ok_def)
  moreover have "table_tuples ?t' = insert xs (table_tuples t)"
    unfolding table_tuples_def set_map keys by (simp add: KeyData_CreateKey)
  ultimately show ?thesis by blast
qed

subsection \<open>The interface of a deduplicating set\<close>

text \<open>
  The join runtime relies on one thing only: an insertion never fails on an acceptable
  element and tells whether it was new. A run of insertions reports every element at its
  first occurrence.
\<close>

fun insert_all :: "('s \<Rightarrow> 'a \<Rightarrow> ('s \<times> bool) res) \<Rightarrow> 's \<Rightarrow> 'a list \<Rightarrow> ('s \<times> bool list) res" where
  "insert_all ins s [] = Inr (s, [])"
| "insert_all ins s (x # xs) =
     bindR (ins s x) (\<lambda>r. bindR (insert_all ins (fst r) xs) (\<lambda>q. Inr (fst q, snd r # snd q)))"

locale dedup_set =
  fixes inv :: "'s \<Rightarrow> bool" and contents :: "'s \<Rightarrow> 'a set" and valid :: "'a \<Rightarrow> bool"
    and empty :: 's and ins :: "'s \<Rightarrow> 'a \<Rightarrow> ('s \<times> bool) res"
  assumes inv_empty: "inv empty" and contents_empty: "contents empty = {}"
    and ins_law: "inv s \<Longrightarrow> valid x \<Longrightarrow>
      \<exists>s'. ins s x = Inr (s', x \<notin> contents s) \<and> inv s' \<and> contents s' = insert x (contents s)"
begin

lemma insert_all_law:
  assumes "inv s" "\<forall>x\<in>set xs. valid x"
  shows "\<exists>s'. insert_all ins s xs =
      Inr (s', map (\<lambda>i. xs ! i \<notin> contents s \<union> set (take i xs)) [0..<length xs])
    \<and> inv s' \<and> contents s' = contents s \<union> set xs"
  using assms
proof (induction xs arbitrary: s)
  case Nil
  then show ?case by simp
next
  case (Cons x xs)
  obtain s1 where s1: "ins s x = Inr (s1, x \<notin> contents s)" "inv s1"
    "contents s1 = insert x (contents s)"
    using ins_law [of s x] Cons.prems by auto
  from Cons.IH [OF s1(2)] Cons.prems(2) obtain s' where
    "insert_all ins s1 xs =
      Inr (s', map (\<lambda>i. xs ! i \<notin> contents s1 \<union> set (take i xs)) [0..<length xs])"
    "inv s'" "contents s' = contents s1 \<union> set xs" by auto
  with s1 show ?case by (auto simp: upt_conv_Cons map_Suc_upt [symmetric] simp del: upt_Suc)
qed

lemma insert_all_empty:
  assumes "\<forall>x\<in>set xs. valid x"
  shows "\<exists>s'. insert_all ins empty xs =
      Inr (s', map (\<lambda>i. xs ! i \<notin> set (take i xs)) [0..<length xs])
    \<and> inv s' \<and> contents s' = set xs"
  using insert_all_law [OF inv_empty assms] by (simp add: contents_empty)

end

interpretation tuple_set: dedup_set "table_ok N" table_tuples "\<lambda>xs. length xs = N" Create Insert
  for N
proof (unfold_locales, goal_cases)
  case 1
  then show ?case by (simp add: table_ok_def Create_def table_keys_def)
next
  case 2
  then show ?case by (simp add: table_tuples_def Create_def table_keys_def)
next
  case (3 t xs)
  then show ?case by (rule Insert_law)
qed

section \<open>A complete traversal\<close>

text \<open>
  The loop a client runs: \<^verbatim>\<open>Begin\<close>, then \<^verbatim>\<open>IteratorNext\<close> until it returns false, reading the
  tuple at each step. The fuel bounds the number of rounds.
\<close>

fun collect :: "nat \<Rightarrow> Iterator \<Rightarrow> u32 list list res option" where
  "collect 0 it = None"
| "collect (Suc fuel) it =
     (case GetIt it of
        Inl e \<Rightarrow> Some (Inl e)
      | Inr x \<Rightarrow>
          (case IteratorNext it of
             None \<Rightarrow> None
           | Some (Inl e) \<Rightarrow> Some (Inl e)
           | Some (Inr (it', found)) \<Rightarrow>
               if found then map_option (\<lambda>r. bindR r (\<lambda>xs. Inr (x # xs))) (collect fuel it')
               else Some (Inr [x])))"

definition traverse :: "nat \<Rightarrow> TupleIdxTable \<Rightarrow> u32 list list res option" where
  "traverse fuel t =
     (case Begin t CreateIt of
        Inl e \<Rightarrow> Some (Inl e)
      | Inr (it, some) \<Rightarrow> if some then collect fuel it else Some (Inr []))"

lemma collect_pending:
  assumes "it_node it = Some k" "pending it ks" "length ks < fuel"
  shows "collect fuel it = Some (Inr (map KeyData (k # ks)))"
  using assms
proof (induction ks arbitrary: it k fuel)
  case Nil
  then show ?case
    using IteratorNext_spec [OF Nil(2)] by (cases fuel) (auto simp: GetIt_def)
next
  case (Cons k' ks)
  obtain f where f: "fuel = Suc f" "length ks < f" using Cons.prems(3) by (cases fuel) auto
  obtain it' where "IteratorNext it = Some (Inr (it', True))" "it_node it' = Some k'" "pending it' ks"
    using IteratorNext_spec [OF Cons.prems(2)] by auto
  with Cons.IH [OF this(2,3) f(2)] f(1) Cons.prems(1) show ?case by (simp add: GetIt_def)
qed

lemma traverse_keys:
  assumes "table_ok N t" "length (table_keys t) \<le> fuel"
  shows "traverse fuel t = Some (Inr (map KeyData (table_keys t)))"
proof (cases "tree t")
  case None
  then show ?thesis by (simp add: traverse_def Begin_def table_keys_def)
next
  case (Some n)
  then have "wf_node (4 * N) [] n" using assms(1) by (simp add: table_ok_def)
  moreover have "active_stack CreateIt = []" by (simp add: active_stack_def CreateIt_def)
  moreover have "stack_ok CreateIt" by (simp add: stack_ok_def active_stack_def CreateIt_def)
  ultimately obtain it k ks where it: "BeginImpl CreateIt n = Inr it" "it_node it = Some k"
    "pending it ks" "k # ks = inorder n" using BeginImpl_spec [of "4 * N" "[]" n CreateIt] by auto
  then have "table_keys t = k # ks" using Some by (simp add: table_keys_def)
  with collect_pending [OF it(2,3)] it(1) Some assms(2) show ?thesis
    by (simp add: traverse_def Begin_def)
qed

definition tuple_less :: "u32 list \<Rightarrow> u32 list \<Rightarrow> bool" where
  "tuple_less xs ys = KeyLt (CreateKey xs) (CreateKey ys)"

lemma traverse_law:
  assumes ok: "table_ok N t" and fuel: "card (table_tuples t) \<le> fuel"
  shows "\<exists>ys. traverse fuel t = Some (Inr ys) \<and> set ys = table_tuples t \<and> sorted_wrt tuple_less ys"
proof (intro exI conjI)
  let ?ks = "table_keys t"
  have CK: "CreateKey (KeyData k) = k" if "k \<in> set ?ks" for k
    using that ok by (auto simp: table_ok_def KeyData_CreateKey)
  then have "inj_on KeyData (set ?ks)" by (metis inj_onI)
  moreover have "distinct ?ks" using table_keys_sorted [OF ok] by (rule sorted_KeyLt_distinct)
  ultimately have "card (table_tuples t) = length ?ks"
    by (simp add: table_tuples_def card_image distinct_card)
  then show "traverse fuel t = Some (Inr (map KeyData ?ks))"
    using traverse_keys [OF ok] fuel by simp
  show "set (map KeyData ?ks) = table_tuples t" by (simp add: table_tuples_def)
  show "sorted_wrt tuple_less (map KeyData ?ks)"
    unfolding sorted_wrt_map tuple_less_def
    by (rule sorted_wrt_mono_rel [OF _ table_keys_sorted [OF ok]]) (simp add: CK)
qed

section \<open>The properties of the table\<close>

text \<open>the byte encoding of a tuple loses nothing. Decoding a key gives the tuple
  back, a key has four bytes per index, and two keys compare equal exactly when the tuples are.\<close>

lemma key_roundtrip:
  "KeyData (CreateKey xs) = xs \<and> length (CreateKey xs) = 4 * length xs
   \<and> (KeyEq (CreateKey xs) (CreateKey ys) \<longleftrightarrow> xs = ys)"
  by (simp add: KeyData_CreateKey length_CreateKey KeyEq_iff CreateKey_inj)

text \<open>The comparison operators of keys are consistent with each other and \<^verbatim>\<open><\<close> is a
  strict total order: of \<open>a < b\<close>, \<open>a = b\<close>, \<open>a > b\<close> exactly one holds, and \<open><\<close> is transitive.\<close>

lemma key_order:
  "(KeyGt a b \<longleftrightarrow> KeyLt b a) \<and> (KeyGe a b \<longleftrightarrow> \<not> KeyLt a b) \<and> (KeyEq a b \<longleftrightarrow> \<not> KeyLt a b \<and> \<not> KeyGt a b)
   \<and> \<not> (KeyLt a b \<and> KeyLt b a) \<and> (KeyLt a b \<longrightarrow> KeyLt b c \<longrightarrow> KeyLt a c)"
  using KeyLt_total [of a b] KeyLt_irrefl KeyLt_trans
  by (auto simp: KeyGt_flip KeyGe_not_Lt KeyEq_iff)

definition node_lookup :: "Node \<Rightarrow> u8 \<Rightarrow> Node option res" where
  "node_lookup n b = (if GetChildPos n b = -1 then Inr None else GetChild n (GetChildPos n b))"

lemma node_lookup_map: "node_ok n \<Longrightarrow> node_lookup n b = Inr (map_of (entries n) b)"
  using node_map.child_lookup [of n b] node_map.lookup_absent [of n b] by (auto simp: node_lookup_def)

text \<open>whichever of the four layouts a node has and grows into, inserting a child
  under an absent byte never fails, keeps the prefix and the array invariant, makes exactly
  that byte find the new child and leaves the child of every other byte as it was.\<close>

lemma node_insert_lookup:
  assumes "node_ok n" "GetChildPos n b = -1"
  shows "\<exists>n'. InsertLeaf n b c = Inr n' \<and> node_ok n' \<and> node_prefix n' = node_prefix n
    \<and> (\<forall>b'. node_lookup n' b' = (if b' = b then Inr (Some c) else node_lookup n b'))"
proof -
  obtain n' where n': "InsertLeaf n b c = Inr n'" "node_ok n'"
    "map_of (entries n') = (map_of (entries n))(b \<mapsto> c)"
    using node_map.lookup_add [OF assms] by blast
  have "node_prefix n' = node_prefix n"
    using InsertLeaf_law [OF assms(1), of b c] assms n'(1) by (auto simp: GetChildPos_None)
  with n' assms(1) show ?thesis by (auto simp: node_lookup_map)
qed

text \<open>Property C14: on a table of tuples of one length an insertion never fails, returns true
  exactly when the tuple was absent, keeps the tree invariant and adds just that tuple.\<close>

theorem tuple_insert:
  assumes "table_ok N t" "length xs = N"
  shows "\<exists>t'. Insert t xs = Inr (t', xs \<notin> table_tuples t) \<and> table_ok N t'
    \<and> table_tuples t' = insert xs (table_tuples t)"
  using assms by (rule tuple_set.ins_law)

theorem tuple_insert_witness:
  "\<exists>t'. Insert Create [4, 2] = Inr (t', True) \<and> table_tuples t' = {[4, 2]}"
  using tuple_insert [of 2 Create "[4, 2]"] tuple_set.inv_empty [of 2] tuple_set.contents_empty
  by auto

text \<open>Property C16: a run of insertions into a new table reports each tuple as new exactly at its
  first occurrence, and the table then holds the tuples of the run.\<close>

theorem tuple_dedup:
  assumes "\<forall>x\<in>set xs. length x = N"
  shows "\<exists>t. insert_all Insert Create xs =
      Inr (t, map (\<lambda>i. xs ! i \<notin> set (take i xs)) [0..<length xs])
    \<and> table_ok N t \<and> table_tuples t = set xs"
  using assms by (rule tuple_set.insert_all_empty)

theorem tuple_dedup_witness:
  "\<exists>t. insert_all Insert Create [[1], [2], [1 :: u32]] = Inr (t, [True, True, False])
    \<and> table_tuples t = {[1], [2]}"
  using tuple_dedup [of "[[1], [2], [1]]" 1] by (auto simp: upt_conv_Cons)

text \<open>Property C15: a traversal of a table built by insertions ends, with as many rounds as there
  are distinct tuples, and visits each of them once, in increasing order of the keys.\<close>

theorem tuple_traversal:
  assumes "insert_all Insert Create xs = Inr (t, flags)" "\<forall>x\<in>set xs. length x = N"
    and "card (set xs) \<le> fuel"
  shows "\<exists>ys. traverse fuel t = Some (Inr ys) \<and> set ys = set xs \<and> distinct ys
    \<and> sorted_wrt tuple_less ys"
proof -
  have t: "table_ok N t" "table_tuples t = set xs"
    using tuple_set.insert_all_empty [OF assms(2)] assms(1) by auto
  obtain ys where ys: "traverse fuel t = Some (Inr ys)" "set ys = set xs" "sorted_wrt tuple_less ys"
    using traverse_law [OF t(1), of fuel] assms(3) t(2) by auto
  from ys(3) have "distinct ys" by (induction ys) (auto simp: tuple_less_def KeyLt_irrefl)
  with ys show ?thesis by blast
qed

theorem tuple_traversal_witness:
  "\<exists>t ys. insert_all Insert Create [[1], [2], [1 :: u32]] = Inr (t, [True, True, False])
    \<and> traverse 2 t = Some (Inr ys) \<and> set ys = {[1], [2]} \<and> distinct ys"
proof -
  obtain t where t: "insert_all Insert Create [[1], [2], [1 :: u32]] = Inr (t, [True, True, False])"
    using tuple_set.insert_all_empty [of "[[1], [2], [1]]" 1] by (auto simp: upt_conv_Cons)
  show ?thesis
    using tuple_traversal [OF t, of 1 2] t by (auto simp: insert_commute)
qed

end
