(* ===== verification/IndexBucket.thy ===== *)
theory IndexBucket
  imports KushPrelude
begin

text \<open>
  Buckets of tuple indices of a column index and the intersection of sorted buckets
  (\<^verbatim>\<open>runtime/column_index_bucket.cc\<close>). A bucket is its array of cells (\<^verbatim>\<open>None\<close> a cell that was
  never written), its size and its capacity; \<^verbatim>\<open>int32_t\<close> values are integers, and the two
  places where the arithmetic could leave the 32-bit range are error branches.
  The theorems: appending keeps the bucket invariant, \<^verbatim>\<open>FastForwardBucket\<close> is the lower bound,
  and the intersection delivers the common tuples in increasing order, as many as fit.
\<close>

section \<open>Buckets\<close>

record ColumnIndexBucket =
  bk_data :: "int option list"
  bk_size :: int
  bk_capacity :: int

definition EMPTY_bucket :: ColumnIndexBucket where
  "EMPTY_bucket = \<lparr>bk_data = [], bk_size = 0, bk_capacity = 0\<rparr>"

definition AllocateCells :: "int \<Rightarrow> int option list" where
  "AllocateCells n = replicate (nat n) None"

definition BucketInit :: "ColumnIndexBucket \<Rightarrow> ColumnIndexBucket" where
  "BucketInit v = v\<lparr>bk_capacity := 4, bk_size := 0, bk_data := AllocateCells 4\<rparr>"

definition BucketPushBack :: "ColumnIndexBucket \<Rightarrow> int \<Rightarrow> ColumnIndexBucket res" where
  "BucketPushBack v idx =
     bindR (if bk_capacity v = bk_size v then
              (if bk_capacity v * 2 > INT32_MAX then Inl Undefined
               else let capacity = bk_capacity v * 2;
                        old = bk_data v;
                        n = nat (bk_size v)
                    in Inr (v\<lparr>bk_capacity := capacity,
                              bk_data := take n old @ drop n (AllocateCells capacity)\<rparr>))
            else Inr v) (\<lambda>v.
     bindR (updI (bk_data v) (bk_size v) (Some idx)) (\<lambda>d.
       Inr (v\<lparr>bk_data := d, bk_size := bk_size v + 1\<rparr>)))"

definition GetBucketValue :: "ColumnIndexBucket \<Rightarrow> int \<Rightarrow> int res" where
  "GetBucketValue b idx =
     bindR (nthI (bk_data b) idx) (\<lambda>c. case c of None \<Rightarrow> Inl Undefined | Some x \<Rightarrow> Inr x)"

text \<open>The binary search of \<^verbatim>\<open>FastForwardBucket\<close>.\<close>

function ff_loop :: "ColumnIndexBucket \<Rightarrow> int \<Rightarrow> int \<Rightarrow> int \<Rightarrow> int \<Rightarrow> int res" where
  "ff_loop b prev_tuple start stop next_greater_idx =
     (if start \<le> stop then
        (if start + stop > INT32_MAX then Inl Undefined
         else let mid = (start + stop) div 2 in
           bindR (GetBucketValue b mid) (\<lambda>x.
             if x < prev_tuple then ff_loop b prev_tuple (mid + 1) stop next_greater_idx
             else ff_loop b prev_tuple start (mid - 1) mid))
      else Inr next_greater_idx)"
  by pat_completeness auto
termination
proof (relation "measure (\<lambda>(b, p, s, e, n). nat (e - s + 1))", goal_cases)
  case (2 b v s e n mid x)
  then have "s \<le> mid" "mid \<le> e" by auto
  then show ?case by simp
next
  case (3 b v s e n mid x)
  then have "s \<le> mid" "mid \<le> e" by auto
  then show ?case by simp
qed simp

declare ff_loop.simps [simp del]

definition FastForwardBucket :: "ColumnIndexBucket \<Rightarrow> int \<Rightarrow> int res" where
  "FastForwardBucket b prev_tuple =
     (if bk_size b = 0 then Inr INT32_MAX
      else ff_loop b prev_tuple 0 (bk_size b - 1) INT32_MAX)"

definition BucketListGet :: "ColumnIndexBucket list \<Rightarrow> int \<Rightarrow> ColumnIndexBucket res" where
  "BucketListGet bucket_list idx = nthI bucket_list idx"

section \<open>Sorted intersection\<close>

definition BucketListSortedIntersectionInit ::
    "ColumnIndexBucket list \<Rightarrow> nat \<Rightarrow> int list \<Rightarrow> int \<Rightarrow> int list res" where
  "BucketListSortedIntersectionInit bucket_list list_size intersection_state next_tuple =
     foldR (\<lambda>st i. bindR (nthR bucket_list i) (\<lambda>b.
                   bindR (FastForwardBucket b next_tuple) (\<lambda>p. updR st i p)))
       intersection_state [0..<list_size]"

text \<open>The loop over a single bucket; it returns the result size, the position and the result.\<close>

function scan_one ::
    "ColumnIndexBucket \<Rightarrow> int \<Rightarrow> int list \<Rightarrow> int \<Rightarrow> int \<Rightarrow> (int \<times> int \<times> int list) res" where
  "scan_one b s result result_size result_max_size =
     (if s < bk_size b \<and> result_size < result_max_size then
        bindR (GetBucketValue b s) (\<lambda>v.
        bindR (updI result result_size v) (\<lambda>result'.
          scan_one b (s + 1) result' (result_size + 1) result_max_size))
      else Inr (result_size, s, result))"
  by pat_completeness auto
termination
  by (relation "measure (\<lambda>(b, s, r, n, m). nat (bk_size b - s))") auto

declare scan_one.simps [simp del]

text \<open>The loop over two buckets; on buckets that are not sorted it need not end.\<close>

partial_function (option) scan_two ::
    "ColumnIndexBucket \<Rightarrow> ColumnIndexBucket \<Rightarrow> int \<Rightarrow> int \<Rightarrow> int list \<Rightarrow> int \<Rightarrow> int
     \<Rightarrow> (int \<times> int \<times> int \<times> int list) res option" where
  "scan_two b0 b1 s0 s1 result result_size result_max_size =
     (if s0 < bk_size b0 \<and> s1 < bk_size b1 \<and> result_size < result_max_size then
        (case GetBucketValue b0 s0 of Inl e \<Rightarrow> Some (Inl e) | Inr left \<Rightarrow>
        (case GetBucketValue b1 s1 of Inl e \<Rightarrow> Some (Inl e) | Inr right \<Rightarrow>
           if left < right then
             (case FastForwardBucket b0 right of Inl e \<Rightarrow> Some (Inl e)
              | Inr p \<Rightarrow> scan_two b0 b1 p s1 result result_size result_max_size)
           else if right < left then
             (case FastForwardBucket b1 left of Inl e \<Rightarrow> Some (Inl e)
              | Inr p \<Rightarrow> scan_two b0 b1 s0 p result result_size result_max_size)
           else
             (case updI result result_size left of Inl e \<Rightarrow> Some (Inl e)
              | Inr result' \<Rightarrow>
                  scan_two b0 b1 (s0 + 1) (s1 + 1) result' (result_size + 1) result_max_size)))
      else Some (Inr (result_size, s0, s1, result)))"

declare scan_two.simps [code]

fun any_exhausted :: "ColumnIndexBucket list \<Rightarrow> int list \<Rightarrow> bool" where
  "any_exhausted (b # bs) (s # st) = (s \<ge> bk_size b \<or> any_exhausted bs st)"
| "any_exhausted _ _ = False"

definition min_list_step :: "ColumnIndexBucket list \<Rightarrow> int list \<Rightarrow> nat \<Rightarrow> nat \<Rightarrow> nat" where
  "min_list_step bucket_list st min_pos i =
     (let size = bk_size (bucket_list ! i) - st ! i;
          min_pos_size = bk_size (bucket_list ! min_pos) - st ! min_pos
      in if size < min_pos_size then i else min_pos)"

definition find_min_list :: "ColumnIndexBucket list \<Rightarrow> int list \<Rightarrow> nat" where
  "find_min_list bucket_list st =
     foldl (min_list_step bucket_list st) 0 [1..<length bucket_list]"

datatype check_outcome = Exhausted | Greater | AllEqual

text \<open>The loop that looks a candidate up in every other bucket.\<close>

fun check_candidate ::
    "ColumnIndexBucket list \<Rightarrow> nat \<Rightarrow> int \<Rightarrow> nat list \<Rightarrow> int list \<Rightarrow> (check_outcome \<times> int list) res" where
  "check_candidate bucket_list min_pos candidate [] st = Inr (AllEqual, st)"
| "check_candidate bucket_list min_pos candidate (i # is) st =
     (if i = min_pos then check_candidate bucket_list min_pos candidate is st
      else
        bindR (nthR bucket_list i) (\<lambda>b.
        bindR (FastForwardBucket b candidate) (\<lambda>p.
        bindR (updR st i p) (\<lambda>st'.
          if p \<ge> bk_size b then Inr (Exhausted, st')
          else
            bindR (GetBucketValue b p) (\<lambda>current.
              if current > candidate then
                bindR (nthR bucket_list min_pos) (\<lambda>bm.
                bindR (FastForwardBucket bm current) (\<lambda>q.
                bindR (updR st' min_pos q) (\<lambda>st''. Inr (Greater, st''))))
              else check_candidate bucket_list min_pos candidate is st')))))"

partial_function (option) scan_min ::
    "ColumnIndexBucket list \<Rightarrow> nat \<Rightarrow> int list \<Rightarrow> int list \<Rightarrow> int \<Rightarrow> int
     \<Rightarrow> (int \<times> int list \<times> int list) res option" where
  "scan_min bucket_list min_pos st result result_size result_max_size =
     (let bm = bucket_list ! min_pos; idx = st ! min_pos in
      if idx < bk_size bm then
        (if result_size = result_max_size then Some (Inr (result_size, st, result))
         else
           (case GetBucketValue bm idx of Inl e \<Rightarrow> Some (Inl e) | Inr candidate \<Rightarrow>
           (case check_candidate bucket_list min_pos candidate [0..<length bucket_list] st of
              Inl e \<Rightarrow> Some (Inl e)
            | Inr (Exhausted, st') \<Rightarrow> Some (Inr (result_size, st', result))
            | Inr (Greater, st') \<Rightarrow>
                scan_min bucket_list min_pos st' result result_size result_max_size
            | Inr (AllEqual, st') \<Rightarrow>
                (case updI result result_size candidate of Inl e \<Rightarrow> Some (Inl e)
                 | Inr result' \<Rightarrow>
                     scan_min bucket_list min_pos (st'[min_pos := st' ! min_pos + 1]) result'
                       (result_size + 1) result_max_size))))
      else Some (Inr (result_size, st, result)))"

declare scan_min.simps [code]

text \<open>
  \<^verbatim>\<open>bucket_list\<close> holds the \<^verbatim>\<open>bucket_list_size\<close> buckets; the state array must be as long.
\<close>

definition BucketListSortedIntersectionPopulateResult ::
    "ColumnIndexBucket list \<Rightarrow> int list \<Rightarrow> int list \<Rightarrow> int \<Rightarrow> (int \<times> int list \<times> int list) res option" where
  "BucketListSortedIntersectionPopulateResult bucket_list st result result_max_size =
     (if length bucket_list = 0 then Some (Inr (0, st, result))
      else if length st < length bucket_list then Some (Inl Undefined)
      else if length bucket_list = 1 then
        Some (bindR (scan_one (bucket_list ! 0) (st ! 0) result 0 result_max_size)
                (\<lambda>(n, s, r). Inr (n, st[0 := s], r)))
      else if length bucket_list = 2 then
        map_option (\<lambda>x. bindR x (\<lambda>(n, s0, s1, r). Inr (n, st[0 := s0, 1 := s1], r)))
          (scan_two (bucket_list ! 0) (bucket_list ! 1) (st ! 0) (st ! 1) result 0 result_max_size)
      else if any_exhausted bucket_list st then Some (Inr (0, st, result))
      else scan_min bucket_list (find_min_list bucket_list st) st result 0 result_max_size)"

text \<open>
  The filtered variant: an array of pointers to the chosen buckets is filled, but only its
  first element is passed on, as the start of an array of buckets.
\<close>

definition BucketListSortedIntersectionPopulateResultFilter ::
    "ColumnIndexBucket list \<Rightarrow> int list \<Rightarrow> int list \<Rightarrow> int \<Rightarrow> nat list
     \<Rightarrow> (int \<times> int list \<times> int list) res option" where
  "BucketListSortedIntersectionPopulateResultFilter bucket_list st result result_max_size index_filter =
     (if index_filter = [] then Some (Inl Undefined)
      else if hd index_filter + length index_filter \<le> length bucket_list then
        BucketListSortedIntersectionPopulateResult
          (take (length index_filter) (drop (hd index_filter) bucket_list)) st result result_max_size
      else Some (Inl Undefined))"

definition BucketListSortedIntersectionResultGet :: "int list \<Rightarrow> int \<Rightarrow> int res" where
  "BucketListSortedIntersectionResultGet result idx = nthI result idx"

section \<open>The bucket invariant\<close>

definition bucket_elems :: "ColumnIndexBucket \<Rightarrow> int list" where
  "bucket_elems b = map the (take (nat (bk_size b)) (bk_data b))"

text \<open>The capacities a bucket goes through: the next doubling would leave the 32-bit range.\<close>

definition capacities :: "int list" where
  "capacities = map (\<lambda>k. 4 * 2 ^ k) [0..<29]"

definition bucket_ok :: "ColumnIndexBucket \<Rightarrow> bool" where
  "bucket_ok b \<longleftrightarrow> 0 \<le> bk_size b \<and> bk_size b \<le> bk_capacity b
     \<and> bk_capacity b \<in> set capacities \<and> length (bk_data b) = nat (bk_capacity b)
     \<and> None \<notin> set (take (nat (bk_size b)) (bk_data b))"

definition bucket_sorted :: "ColumnIndexBucket \<Rightarrow> bool" where
  "bucket_sorted b \<longleftrightarrow> bucket_ok b \<and> sorted_wrt (<) (bucket_elems b)"

lemma capacities_double:
  assumes "c \<in> set capacities" "c < 2 ^ 30"
  shows "2 * c \<in> set capacities"
proof -
  obtain k where k: "c = 4 * 2 ^ k" "k < 29" using assms(1) by (auto simp: capacities_def)
  then have "(2 :: int) ^ (k + 2) < 2 ^ 30" using assms(2) by simp
  then have "k + 2 < 30" by (rule power_less_imp_less_exp [rotated]) simp
  then have "4 * 2 ^ Suc k \<in> set capacities" unfolding capacities_def set_map by (intro imageI) simp
  then show ?thesis using k(1) by (simp add: mult.left_commute)
qed

lemma capacities_bounds:
  assumes "c \<in> set capacities"
  shows "0 < c" "c \<le> 2 ^ 30"
proof -
  obtain k where k: "c = 4 * 2 ^ k" "k < 29" using assms by (auto simp: capacities_def)
  have "(2 :: int) ^ (k + 2) \<le> 2 ^ 30" using k(2) by (intro power_increasing) auto
  then show "0 < c" "c \<le> 2 ^ 30" using k by simp_all
qed

lemma bucket_elems_length: "bucket_ok b \<Longrightarrow> length (bucket_elems b) = nat (bk_size b)"
  by (auto simp: bucket_ok_def bucket_elems_def)

lemma GetBucketValue_law:
  assumes ok: "bucket_ok b" and i: "0 \<le> i" "i < bk_size b"
  shows "GetBucketValue b i = Inr (bucket_elems b ! nat i)"
proof -
  have n: "nat i < nat (bk_size b)" "nat i < length (bk_data b)" using ok i by (auto simp: bucket_ok_def)
  have "bk_data b ! nat i = take (nat (bk_size b)) (bk_data b) ! nat i" using n by simp
  moreover have "take (nat (bk_size b)) (bk_data b) ! nat i \<in> set (take (nat (bk_size b)) (bk_data b))"
    using n by (intro nth_mem) simp
  ultimately have "bk_data b ! nat i \<noteq> None" using ok by (metis bucket_ok_def)
  then show ?thesis
    using n i by (auto simp: GetBucketValue_def bucket_elems_def split: option.splits)
qed

lemma BucketInit_law: "bucket_ok (BucketInit v) \<and> bucket_elems (BucketInit v) = []"
  by (simp add: bucket_ok_def bucket_elems_def BucketInit_def AllocateCells_def capacities_def
      upt_conv_Cons)

lemma BucketPushBack_law:
  assumes ok: "bucket_ok b" and size: "bk_size b < 2 ^ 30"
  shows "\<exists>b'. BucketPushBack b x = Inr b' \<and> bucket_ok b' \<and> bucket_elems b' = bucket_elems b @ [x]"
proof -
  have fit: "\<exists>b'. bindR (updI (bk_data v) (bk_size v) (Some x)) (\<lambda>d.
        Inr (v\<lparr>bk_data := d, bk_size := bk_size v + 1\<rparr>)) = Inr b'
      \<and> bucket_ok b' \<and> bucket_elems b' = bucket_elems v @ [x]"
    if v: "bucket_ok v" "bk_size v < bk_capacity v" for v
  proof -
    have n: "nat (bk_size v + 1) = Suc (nat (bk_size v))" "nat (bk_size v) < length (bk_data v)"
      using v by (auto simp: bucket_ok_def)
    show ?thesis
      using v n
      by (auto simp: bucket_ok_def bucket_elems_def take_Suc_conv_app_nth)
  qed
  show ?thesis
  proof (cases "bk_capacity b = bk_size b")
    case False
    with ok have "bk_size b < bk_capacity b" by (simp add: bucket_ok_def)
    from fit [OF ok this] False show ?thesis by (simp add: BucketPushBack_def)
  next
    case True
    let ?n = "nat (bk_size b)"
    let ?v = "b\<lparr>bk_capacity := bk_capacity b * 2,
      bk_data := take ?n (bk_data b) @ drop ?n (AllocateCells (bk_capacity b * 2))\<rparr>"
    have cap: "bk_capacity b * 2 \<in> set capacities"
      using capacities_double [of "bk_capacity b"] ok True size by (simp add: bucket_ok_def mult.commute)
    note bnd = capacities_bounds [OF cap]
    have "bucket_ok ?v" and elems: "bucket_elems ?v = bucket_elems b" and lt: "bk_size ?v < bk_capacity ?v"
      using True ok bnd cap by (auto simp: bucket_ok_def bucket_elems_def AllocateCells_def)
    from fit [OF this(1) lt] elems show ?thesis
      using True bnd by (simp add: BucketPushBack_def INT32_MAX_def Let_def)
  qed
qed

section \<open>Fast-forwarding is the lower bound\<close>

text \<open>
  The loop keeps every element before \<open>start\<close> below the bound and every element after \<open>stop\<close>
  at or above it; \<open>next\<close> is the first position known to be at or above.
\<close>

lemma ff_loop_law:
  assumes ok: "bucket_ok b" and sorted: "sorted (bucket_elems b)"
    and range: "0 \<le> s" "e < bk_size b" "s \<le> e + 1"
    and below: "\<forall>i<nat s. bucket_elems b ! i < v"
    and above: "\<forall>i<nat (bk_size b). e < int i \<longrightarrow> v \<le> bucket_elems b ! i"
    and n: "n = (if e + 1 = bk_size b then INT32_MAX else e + 1)"
  shows "\<exists>p. ff_loop b v s e n = Inr (if p = bk_size b then INT32_MAX else p)
    \<and> 0 \<le> p \<and> p \<le> bk_size b \<and> (\<forall>i<nat p. bucket_elems b ! i < v)
    \<and> (\<forall>i<nat (bk_size b). nat p \<le> i \<longrightarrow> v \<le> bucket_elems b ! i)"
  using range below above n
proof (induction "nat (e - s + 1)" arbitrary: s e n rule: less_induct)
  case less
  note len = bucket_elems_length [OF ok]
  show ?case
  proof (cases "s \<le> e")
    case False
    then have "s = e + 1" using less.prems(3) by simp
    moreover have "ff_loop b v s e n = Inr n" using False by (simp add: ff_loop.simps [of b v s e n])
    ultimately show ?thesis using less.prems by (intro exI [of _ s]) auto
  next
    case True
    define mid where "mid = (s + e) div 2"
    have m: "s \<le> mid" "mid \<le> e" "0 \<le> mid" "mid < bk_size b"
      using True less.prems(1,2) by (auto simp: mid_def)
    have "bk_size b \<le> 2 ^ 30"
      using ok capacities_bounds [of "bk_capacity b"] by (auto simp: bucket_ok_def)
    then have small: "\<not> s + e > INT32_MAX" using True less.prems(2) by (simp add: INT32_MAX_def)
    have get: "GetBucketValue b mid = Inr (bucket_elems b ! nat mid)"
      using GetBucketValue_law [OF ok m(3,4)] .
    have mono: "bucket_elems b ! i \<le> bucket_elems b ! j" if "i \<le> j" "j < nat (bk_size b)" for i j
      using sorted_nth_mono [OF sorted that(1)] that(2) len by simp
    have step: "ff_loop b v s e n = (if bucket_elems b ! nat mid < v then ff_loop b v (mid + 1) e n
        else ff_loop b v s (mid - 1) mid)"
      using True small get by (simp add: ff_loop.simps [of b v s e n] mid_def Let_def)
    show ?thesis
    proof (cases "bucket_elems b ! nat mid < v")
      case lt: True
      have "\<forall>i<nat (mid + 1). bucket_elems b ! i < v"
      proof (intro allI impI)
        fix i assume "i < nat (mid + 1)"
        then have "bucket_elems b ! i \<le> bucket_elems b ! nat mid" using m by (intro mono) auto
        with lt show "bucket_elems b ! i < v" by simp
      qed
      then show ?thesis
        using less.hyps [of e "mid + 1" n] less.prems m lt step by auto
    next
      case ge: False
      have "\<forall>i<nat (bk_size b). mid - 1 < int i \<longrightarrow> v \<le> bucket_elems b ! i"
      proof (intro allI impI)
        fix i assume i: "i < nat (bk_size b)" "mid - 1 < int i"
        then have "bucket_elems b ! nat mid \<le> bucket_elems b ! i" using m by (intro mono) auto
        with ge show "v \<le> bucket_elems b ! i" by simp
      qed
      then show ?thesis
        using less.hyps [of "mid - 1" s mid] less.prems m ge step by auto
    qed
  qed
qed

lemma drop_lower_bound:
  fixes v :: int
  assumes "\<forall>i<p. xs ! i < v" "\<forall>i<length xs. p \<le> i \<longrightarrow> v \<le> xs ! i" "p \<le> length xs"
  shows "drop p xs = filter (\<lambda>x. v \<le> x) xs"
proof -
  have "filter (\<lambda>x. v \<le> x) (take p xs) = []"
    using assms(1,3) by (force simp: filter_empty_conv in_set_conv_nth)
  moreover have "filter (\<lambda>x. v \<le> x) (drop p xs) = drop p xs"
    using assms(2,3) by (force simp: filter_id_conv in_set_conv_nth)
  ultimately show ?thesis by (metis append_take_drop_id filter_append self_append_conv2)
qed

text \<open>What is left of a bucket from a position on; nothing when the position is the end marker.\<close>

definition rest :: "ColumnIndexBucket \<Rightarrow> int \<Rightarrow> int list" where
  "rest b p = drop (nat p) (bucket_elems b)"

lemma FastForwardBucket_law:
  assumes "bucket_sorted b"
  shows "\<exists>p. FastForwardBucket b v = Inr p \<and> 0 \<le> p
    \<and> rest b p = filter (\<lambda>x. v \<le> x) (bucket_elems b)"
proof (cases "bk_size b = 0")
  case True
  then show ?thesis
    by (auto simp: FastForwardBucket_def rest_def bucket_elems_def INT32_MAX_def)
next
  case False
  have ok: "bucket_ok b" and s: "sorted (bucket_elems b)"
    using assms by (auto simp: bucket_sorted_def strict_sorted_iff)
  have sz: "0 < bk_size b" using ok False by (simp add: bucket_ok_def)
  have bnd: "bk_size b \<le> INT32_MAX"
    using ok capacities_bounds [of "bk_capacity b"] by (auto simp: bucket_ok_def INT32_MAX_def)
  obtain p where p: "FastForwardBucket b v = Inr (if p = bk_size b then INT32_MAX else p)"
    "0 \<le> p" "p \<le> bk_size b" "\<forall>i<nat p. bucket_elems b ! i < v"
    "\<forall>i<nat (bk_size b). nat p \<le> i \<longrightarrow> v \<le> bucket_elems b ! i"
  proof -
    have "\<forall>i<nat (bk_size b). bk_size b - 1 < int i \<longrightarrow> v \<le> bucket_elems b ! i" by auto
    from ff_loop_law [OF ok s _ _ _ _ this, of 0 INT32_MAX] show thesis
      using sz that by (auto simp: FastForwardBucket_def)
  qed
  have "drop (nat p) (bucket_elems b) = filter (\<lambda>x. v \<le> x) (bucket_elems b)"
    using p bucket_elems_length [OF ok] by (intro drop_lower_bound) auto
  moreover have "rest b (if p = bk_size b then INT32_MAX else p) = drop (nat p) (bucket_elems b)"
    using bnd bucket_elems_length [OF ok] by (simp add: rest_def)
  ultimately show ?thesis using p by (auto simp: INT32_MAX_def)
qed

lemma rest_Nil:
  assumes "bucket_ok b" "0 \<le> p"
  shows "bk_size b \<le> p \<longleftrightarrow> rest b p = []"
  using bucket_elems_length [OF assms(1)] assms by (auto simp: rest_def bucket_ok_def)

lemma rest_Cons:
  assumes "bucket_ok b" "0 \<le> p" "p < bk_size b"
  obtains x where "GetBucketValue b p = Inr x" "rest b p = x # rest b (p + 1)"
proof
  have "nat p < length (bucket_elems b)" using bucket_elems_length [OF assms(1)] assms by simp
  then show "rest b p = bucket_elems b ! nat p # rest b (p + 1)"
    using assms(2) by (simp add: rest_def Cons_nth_drop_Suc nat_add_distrib)
qed (rule GetBucketValue_law [OF assms])

lemma rest_sorted: "bucket_sorted b \<Longrightarrow> sorted_wrt (<) (rest b p)"
  by (simp add: bucket_sorted_def rest_def sorted_wrt_drop)

text \<open>Skipping ahead of the position: the elements dropped before it are smaller still.\<close>

lemma filter_rest:
  assumes "bucket_sorted b" "rest b p = x # xs" "x < v"
  shows "filter (\<lambda>y. v \<le> y) (bucket_elems b) = filter (\<lambda>y. v \<le> y) xs"
proof -
  have eq: "bucket_elems b = take (nat p) (bucket_elems b) @ x # xs"
    using assms(2) by (metis append_take_drop_id rest_def)
  then have "\<forall>y\<in>set (take (nat p) (bucket_elems b)). y < x"
    using assms(1) by (metis bucket_sorted_def list.set_intros(1) sorted_wrt_append)
  then have "filter (\<lambda>y. v \<le> y) (take (nat p) (bucket_elems b)) = []"
    using assms(3) by (force simp: filter_empty_conv)
  then show ?thesis using assms(3) by (subst eq) simp
qed

section \<open>The intersection\<close>

text \<open>
  The result array after a scan: what was there up to the result size, then as many of the
  expected tuples as fit.
\<close>

definition delivered :: "int list \<Rightarrow> int \<Rightarrow> int \<Rightarrow> int list \<Rightarrow> int \<Rightarrow> int list \<Rightarrow> bool" where
  "delivered result k m expected k' result' \<longleftrightarrow>
     length result' = length result \<and> 0 \<le> k'
     \<and> take (nat k') result' = take (nat k) result @ take (nat (m - k)) expected
     \<and> k' = k + min (m - k) (int (length expected))"

lemma delivered_done:
  assumes "0 \<le> k" "k \<le> m" "m \<le> int (length result)" "k = m \<or> expected = []"
  shows "delivered result k m expected k result"
  using assms by (auto simp: delivered_def)

lemma delivered_step:
  assumes "delivered (result[nat k := x]) (k + 1) m xs k' result'"
    and "0 \<le> k" "k < m" "m \<le> int (length result)"
  shows "delivered result k m (x # xs) k' result'"
proof -
  have "nat (k + 1) = Suc (nat k)" "nat k < length result" "nat (m - k) = Suc (nat (m - (k + 1)))"
    using assms(2-4) by auto
  with assms show ?thesis by (auto simp: delivered_def take_Suc_conv_app_nth min_def)
qed

lemma scan_one_law:
  assumes "bucket_ok b" "0 \<le> s" "0 \<le> k" "k \<le> m" "m \<le> int (length result)"
  shows "\<exists>k' s' result'. scan_one b s result k m = Inr (k', s', result') \<and> 0 \<le> s'
    \<and> delivered result k m (rest b s) k' result' \<and> rest b s' = drop (nat (m - k)) (rest b s)"
  using assms
proof (induction b s result k m rule: scan_one.induct)
  case (1 b s result k m)
  show ?case
  proof (cases "s < bk_size b \<and> k < m")
    case False
    then have "k = m \<or> rest b s = []" using "1.prems" rest_Nil [of b s] by auto
    then show ?thesis
      using False "1.prems" delivered_done [of k m result "rest b s"]
      by (auto simp: scan_one.simps [of b s])
  next
    case True
    obtain x where x: "GetBucketValue b s = Inr x" "rest b s = x # rest b (s + 1)"
      using rest_Cons [of b s] "1.prems" True by blast
    have u: "updI result k x = Inr (result[nat k := x])"
      using True "1.prems" by (intro updI_in) auto
    have sm: "nat (m - k) = Suc (nat (m - (k + 1)))" using True by auto
    from "1.IH" [OF True x(1) u] "1.prems" True obtain k' s' result' where
      IH: "scan_one b (s + 1) (result[nat k := x]) (k + 1) m = Inr (k', s', result')" "0 \<le> s'"
        "delivered (result[nat k := x]) (k + 1) m (rest b (s + 1)) k' result'"
        "rest b s' = drop (nat (m - (k + 1))) (rest b (s + 1))" by auto
    show ?thesis
      using IH x u True sm delivered_step [OF IH(3)] "1.prems"
      by (auto simp: scan_one.simps [of b s])
  qed
qed

definition common :: "int list \<Rightarrow> int list \<Rightarrow> int list" where
  "common xs ys = filter (\<lambda>x. x \<in> set ys) xs"

lemma common_skip_left:
  assumes "sorted_wrt (<) (y # ys)"
  shows "common (filter (\<lambda>x. y \<le> x) xs) (y # ys) = common xs (y # ys)"
  unfolding common_def filter_filter using assms by (intro filter_cong) auto

lemma common_skip_right:
  assumes "sorted_wrt (<) (x # xs)"
  shows "common (x # xs) (filter (\<lambda>y. x \<le> y) ys) = common (x # xs) ys"
  unfolding common_def using assms by (intro filter_cong) auto

lemma common_Cons_less:
  assumes "sorted_wrt (<) (y # ys)" "x < y"
  shows "common (x # xs) (y # ys) = common xs (y # ys)"
  using assms by (auto simp: common_def)

lemma common_same:
  assumes "sorted_wrt (<) (x # xs)"
  shows "common (x # xs) (x # ys) = x # common xs ys"
  using assms by (auto simp: common_def intro!: filter_cong)

text \<open>Two buckets: the loop ends and the states left behind deliver the rest at the next call.\<close>

lemma scan_two_law:
  assumes "bucket_sorted b0" "bucket_sorted b1" "0 \<le> s0" "0 \<le> s1"
    and "0 \<le> k" "k \<le> m" "m \<le> int (length result)"
  shows "\<exists>k' s0' s1' result'. scan_two b0 b1 s0 s1 result k m = Some (Inr (k', s0', s1', result'))
    \<and> 0 \<le> s0' \<and> 0 \<le> s1'
    \<and> delivered result k m (common (rest b0 s0) (rest b1 s1)) k' result'
    \<and> common (rest b0 s0') (rest b1 s1') = drop (nat (m - k)) (common (rest b0 s0) (rest b1 s1))"
  using assms(3-)
proof (induction "length (rest b0 s0) + length (rest b1 s1)" arbitrary: s0 s1 result k rule: less_induct)
  case less
  have ok: "bucket_ok b0" "bucket_ok b1" using assms(1,2) by (auto simp: bucket_sorted_def)
  show ?case
  proof (cases "s0 < bk_size b0 \<and> s1 < bk_size b1 \<and> k < m")
    case False
    then have e: "k = m \<or> common (rest b0 s0) (rest b1 s1) = []"
      using less.prems rest_Nil [OF ok(1), of s0] rest_Nil [OF ok(2), of s1] by (auto simp: common_def)
    have "scan_two b0 b1 s0 s1 result k m = Some (Inr (k, s0, s1, result))"
      using False by (auto simp: scan_two.simps [of b0 b1 s0])
    with e less.prems delivered_done [OF less.prems(3-5) e] show ?thesis by auto
  next
    case True
    obtain x where x: "GetBucketValue b0 s0 = Inr x" "rest b0 s0 = x # rest b0 (s0 + 1)"
      using rest_Cons [OF ok(1)] less.prems True by blast
    obtain y where y: "GetBucketValue b1 s1 = Inr y" "rest b1 s1 = y # rest b1 (s1 + 1)"
      using rest_Cons [OF ok(2)] less.prems True by blast
    note sx = rest_sorted [OF assms(1), of s0, unfolded x(2)]
    note sy = rest_sorted [OF assms(2), of s1, unfolded y(2)]
    consider "x < y" | "y < x" | "x = y" by linarith
    then show ?thesis
    proof cases
      case 1
      obtain p where p: "FastForwardBucket b0 y = Inr p" "0 \<le> p"
        "rest b0 p = filter (\<lambda>z. y \<le> z) (rest b0 (s0 + 1))"
        using FastForwardBucket_law [OF assms(1), of y] filter_rest [OF assms(1) x(2) 1] by auto
      have "common (rest b0 p) (rest b1 s1) = common (rest b0 s0) (rest b1 s1)"
        using common_skip_left [OF sy] common_Cons_less [OF sy 1] by (simp add: x(2) y(2) p(3))
      moreover have "length (rest b0 p) < length (rest b0 s0)"
        by (simp add: x(2) p(3) less_Suc_eq_le)
      ultimately show ?thesis
        using less.hyps [of p s1 k result] less.prems p(2)
        using True x y 1 p(1) by (simp add: scan_two.simps [of b0 b1 s0])
    next
      case 2
      obtain p where p: "FastForwardBucket b1 x = Inr p" "0 \<le> p"
        "rest b1 p = filter (\<lambda>z. x \<le> z) (rest b1 (s1 + 1))"
        using FastForwardBucket_law [OF assms(2), of x] filter_rest [OF assms(2) y(2) 2] by auto
      have "common (rest b0 s0) (rest b1 p) = common (rest b0 s0) (rest b1 s1)"
        unfolding p(3) x(2) common_skip_right [OF sx] y(2)
        using sx 2 by (auto simp: common_def intro!: filter_cong)
      moreover have "length (rest b1 p) < length (rest b1 s1)"
        by (simp add: y(2) p(3) less_Suc_eq_le)
      ultimately show ?thesis
        using less.hyps [of s0 p k result] less.prems p(2)
        using True x y 2 p(1) by (simp add: scan_two.simps [of b0 b1 s0])
    next
      case 3
      have c: "common (rest b0 s0) (rest b1 s1) = x # common (rest b0 (s0 + 1)) (rest b1 (s1 + 1))"
        using common_same [OF sx] by (simp add: x(2) y(2) 3)
      have sm: "nat (m - k) = Suc (nat (m - (k + 1)))" using True by auto
      obtain k' s0' s1' result' where
        IH: "scan_two b0 b1 (s0 + 1) (s1 + 1) (result[nat k := x]) (k + 1) m =
            Some (Inr (k', s0', s1', result'))" "0 \<le> s0'" "0 \<le> s1'"
          "delivered (result[nat k := x]) (k + 1) m
            (common (rest b0 (s0 + 1)) (rest b1 (s1 + 1))) k' result'"
          "common (rest b0 s0') (rest b1 s1') =
            drop (nat (m - (k + 1))) (common (rest b0 (s0 + 1)) (rest b1 (s1 + 1)))"
        using less.hyps [of "s0 + 1" "s1 + 1" "k + 1" "result[nat k := x]"] less.prems True
        by (auto simp: x(2) y(2))
      have upd: "updI result k x = Inr (result[nat k := x])"
        using True less.prems by (intro updI_in) auto
      have "scan_two b0 b1 s0 s1 result k m = Some (Inr (k', s0', s1', result'))"
        using True x y 3 IH(1) upd by (simp add: scan_two.simps [of b0 b1 s0])
      with IH c sm delivered_step [OF IH(4)] less.prems True show ?thesis by auto
    qed
  qed
qed

subsection \<open>Three buckets and more\<close>

lemma foldl_min_less:
  assumes "m < length bs" "\<forall>i\<in>set is. i < length bs"
  shows "foldl (min_list_step bs st) m is < length bs"
  using assms by (induction "is" arbitrary: m) (auto simp: min_list_step_def Let_def)

lemma find_min_list_less: "bs \<noteq> [] \<Longrightarrow> find_min_list bs st < length bs"
  unfolding find_min_list_def by (rule foldl_min_less) auto

lemma check_candidate_law:
  assumes bs: "\<forall>b\<in>set bs. bucket_sorted b" and mn: "mn < length bs" and st: "length bs \<le> length st"
    and "is": "\<forall>i\<in>set is. i < length bs"
  shows "\<exists>out st'. check_candidate bs mn c is st = Inr (out, st') \<and> length st' = length st
    \<and> (case out of
         AllEqual \<Rightarrow> st' ! mn = st ! mn \<and> (\<forall>i\<in>set is. i \<noteq> mn \<longrightarrow> c \<in> set (bucket_elems (bs ! i)))
       | Exhausted \<Rightarrow> (\<exists>i\<in>set is. \<forall>x\<in>set (bucket_elems (bs ! i)). x < c)
       | Greater \<Rightarrow> (\<exists>v>c. 0 \<le> st' ! mn \<and> rest (bs ! mn) (st' ! mn) = filter (\<lambda>x. v \<le> x) (bucket_elems (bs ! mn))
           \<and> (\<exists>i\<in>set is. \<forall>x\<in>set (bucket_elems (bs ! i)). c \<le> x \<longrightarrow> v \<le> x)))"
  using st "is"
proof (induction "is" arbitrary: st)
  case Nil
  then show ?case by simp
next
  case (Cons i "is")
  show ?case
  proof (cases "i = mn")
    case True
    with Cons.IH [of st] Cons.prems show ?thesis by (fastforce split: check_outcome.splits)
  next
    case False
    let ?b = "bs ! i"
    have i: "i < length bs" "i < length st" using Cons.prems by auto
    have b: "bucket_sorted ?b" "bucket_ok ?b" using bs i by (auto simp: bucket_sorted_def)
    obtain p where p: "FastForwardBucket ?b c = Inr p" "0 \<le> p"
      "rest ?b p = filter (\<lambda>x. c \<le> x) (bucket_elems ?b)" using FastForwardBucket_law [OF b(1)] by blast
    show ?thesis
    proof (cases "p < bk_size ?b")
      case past: False
      then have "rest ?b p = []" using rest_Nil [OF b(2) p(2)] by simp
      then have "\<forall>x\<in>set (bucket_elems ?b). x < c" by (auto simp: p(3) filter_empty_conv not_le)
      then show ?thesis using False i p(1) past by (auto simp: not_less)
    next
      case in_range: True
      obtain v where v: "GetBucketValue ?b p = Inr v" "rest ?b p = v # rest ?b (p + 1)"
        using rest_Cons [OF b(2) p(2) in_range] by blast
      have vin: "v \<in> set (bucket_elems ?b)" "c \<le> v"
        using arg_cong [OF v(2) [unfolded p(3)], of set] by auto
      have least: "v \<le> x" if "x \<in> set (bucket_elems ?b)" "c \<le> x" for x
      proof -
        have "x \<in> set (v # rest ?b (p + 1))" using that p(3) v(2) by auto
        moreover have "sorted_wrt (<) (v # rest ?b (p + 1))"
          using rest_sorted [OF b(1), of p] v(2) by simp
        ultimately show ?thesis by auto
      qed
      show ?thesis
      proof (cases "c < v")
        case True
        have bm: "bucket_sorted (bs ! mn)" using bs mn by simp
        obtain q where q: "FastForwardBucket (bs ! mn) v = Inr q" "0 \<le> q"
          "rest (bs ! mn) q = filter (\<lambda>x. v \<le> x) (bucket_elems (bs ! mn))"
          using FastForwardBucket_law [OF bm] by blast
        have "check_candidate bs mn c (i # is) st = Inr (Greater, st[i := p, mn := q])"
          using False i mn p(1) in_range v(1) q(1) True Cons.prems(1) by simp
        with q True least mn Cons.prems(1) show ?thesis by (auto intro!: exI [of _ v])
      next
        case not_gt: False
        then have "v = c" using vin(2) by simp
        have "check_candidate bs mn c (i # is) st = check_candidate bs mn c is (st[i := p])"
          using False i p(1) in_range v(1) not_gt by simp
        then show ?thesis
          using Cons.IH [of "st[i := p]"] Cons.prems vin(1) \<open>v = c\<close> False
          by (fastforce split: check_outcome.splits)
      qed
    qed
  qed
qed

definition in_all :: "ColumnIndexBucket list \<Rightarrow> int \<Rightarrow> bool" where
  "in_all bs x \<longleftrightarrow> (\<forall>b\<in>set bs. x \<in> set (bucket_elems b))"

lemma scan_min_law:
  assumes bs: "\<forall>b\<in>set bs. bucket_sorted b" and mn: "mn < length bs"
    and "length bs \<le> length st" "0 \<le> st ! mn" "0 \<le> k" "k \<le> m" "m \<le> int (length result)"
  shows "\<exists>k' st' result'. scan_min bs mn st result k m = Some (Inr (k', st', result'))
    \<and> length st' = length st
    \<and> delivered result k m (filter (in_all bs) (rest (bs ! mn) (st ! mn))) k' result'"
  using assms(3-)
proof (induction "length (rest (bs ! mn) (st ! mn))" arbitrary: st result k rule: less_induct)
  case less
  let ?b = "bs ! mn" and ?s = "st ! mn"
  have b: "bucket_sorted ?b" "bucket_ok ?b" using bs mn by (auto simp: bucket_sorted_def)
  consider "bk_size ?b \<le> ?s" | "?s < bk_size ?b" "k = m" | "?s < bk_size ?b" "k < m"
    using less.prems(4) by linarith
  then show ?case
  proof cases
    case 1
    then have "rest ?b ?s = []" using rest_Nil [OF b(2) less.prems(2)] by simp
    then show ?thesis
      using 1 delivered_done [OF less.prems(3-5)] by (simp add: scan_min.simps [of bs mn st])
  next
    case 2
    then show ?thesis
      using delivered_done [OF less.prems(3-5)] by (simp add: scan_min.simps [of bs mn st])
  next
    case 3
    obtain c where c: "GetBucketValue ?b ?s = Inr c" "rest ?b ?s = c # rest ?b (?s + 1)"
      using rest_Cons [OF b(2) less.prems(2) 3(1)] by blast
    have sorted: "sorted_wrt (<) (c # rest ?b (?s + 1))"
      using rest_sorted [OF b(1), of ?s] c(2) by simp
    obtain out st' where chk: "check_candidate bs mn c [0..<length bs] st = Inr (out, st')"
      "length st' = length st" and
      post: "case out of
         AllEqual \<Rightarrow> st' ! mn = st ! mn \<and> (\<forall>i\<in>set [0..<length bs]. i \<noteq> mn \<longrightarrow> c \<in> set (bucket_elems (bs ! i)))
       | Exhausted \<Rightarrow> (\<exists>i\<in>set [0..<length bs]. \<forall>x\<in>set (bucket_elems (bs ! i)). x < c)
       | Greater \<Rightarrow> (\<exists>v>c. 0 \<le> st' ! mn \<and> rest (bs ! mn) (st' ! mn) = filter (\<lambda>x. v \<le> x) (bucket_elems (bs ! mn))
           \<and> (\<exists>i\<in>set [0..<length bs]. \<forall>x\<in>set (bucket_elems (bs ! i)). c \<le> x \<longrightarrow> v \<le> x))"
      using check_candidate_law [OF bs mn less.prems(1), of "[0..<length bs]" c] by auto
    show ?thesis
    proof (cases out)
      case Exhausted
      then obtain i where i: "i < length bs" "\<forall>x\<in>set (bucket_elems (bs ! i)). x < c" using post by auto
      then have "\<not> in_all bs x" if "x \<in> set (rest ?b ?s)" for x
        using that sorted nth_mem [OF i(1)] unfolding in_all_def c(2) by fastforce
      then have "filter (in_all bs) (rest ?b ?s) = []" by (simp add: filter_empty_conv)
      then show ?thesis
        using 3 c(1) chk Exhausted delivered_done [OF less.prems(3-5)]
        by (simp add: scan_min.simps [of bs mn st] Let_def)
    next
      case Greater
      then obtain v i where v: "c < v" "0 \<le> st' ! mn"
        "rest ?b (st' ! mn) = filter (\<lambda>x. v \<le> x) (bucket_elems ?b)"
        and i: "i < length bs" "\<forall>x\<in>set (bucket_elems (bs ! i)). c \<le> x \<longrightarrow> v \<le> x" using post by auto
      have r': "rest ?b (st' ! mn) = filter (\<lambda>x. v \<le> x) (rest ?b (?s + 1))"
        using filter_rest [OF b(1) c(2) v(1)] v(3) by simp
      have skip: "in_all bs x \<longrightarrow> v \<le> x" if "x \<in> set (rest ?b ?s)" for x
        using that sorted nth_mem [OF i(1)] i(2) unfolding in_all_def c(2) by fastforce
      have "\<not> in_all bs c" using skip [of c] v(1) c(2) by auto
      moreover have "filter (in_all bs) (rest ?b (st' ! mn)) = filter (in_all bs) (rest ?b (?s + 1))"
        unfolding r' filter_filter using skip c(2) by (intro filter_cong) auto
      ultimately have "filter (in_all bs) (rest ?b (st' ! mn)) = filter (in_all bs) (rest ?b ?s)"
        by (simp add: c(2))
      moreover have "length (rest ?b (st' ! mn)) < length (rest ?b ?s)"
        by (simp add: r' c(2) less_Suc_eq_le)
      ultimately show ?thesis
        using less.hyps [of st' k result] less.prems chk v(2) 3 c(1) Greater
        by (simp add: scan_min.simps [of bs mn st] Let_def)
    next
      case AllEqual
      have "c \<in> set (bucket_elems ?b)" using c(2) unfolding rest_def by (metis in_set_dropD list.set_intros(1))
      moreover have "\<forall>i<length bs. i \<noteq> mn \<longrightarrow> c \<in> set (bucket_elems (bs ! i))"
        using AllEqual post by simp
      ultimately have all: "in_all bs c" unfolding in_all_def all_set_conv_all_nth by metis
      have same: "st' ! mn = ?s" using AllEqual post by simp
      let ?st = "st'[mn := ?s + 1]"
      have mn': "mn < length st'" using mn less.prems(1) chk(2) by simp
      obtain k' st'' result' where
        IH: "scan_min bs mn ?st (result[nat k := c]) (k + 1) m = Some (Inr (k', st'', result'))"
          "length st'' = length st"
          "delivered (result[nat k := c]) (k + 1) m (filter (in_all bs) (rest ?b (?s + 1))) k' result'"
        using less.hyps [of ?st "k + 1" "result[nat k := c]"] less.prems mn' chk(2) 3 c(2) by auto
      have "delivered result k m (filter (in_all bs) (rest ?b ?s)) k' result'"
        using delivered_step [OF IH(3) less.prems(3) 3(2) less.prems(5)] all by (simp add: c(2))
      then show ?thesis
        using IH(1,2) less.prems chk 3 c(1) AllEqual same
        by (simp add: scan_min.simps [of bs mn st] Let_def)
    qed
  qed
qed

subsection \<open>The whole operation\<close>

lemma Init_law:
  assumes bs: "\<forall>b\<in>set bs. bucket_sorted b" and st: "length bs \<le> length st"
  shows "\<exists>st'. BucketListSortedIntersectionInit bs (length bs) st v = Inr st' \<and> length st' = length st
    \<and> (\<forall>i<length bs. 0 \<le> st' ! i \<and> rest (bs ! i) (st' ! i) = filter (\<lambda>x. v \<le> x) (bucket_elems (bs ! i)))"
proof -
  let ?f = "\<lambda>st i. bindR (nthR bs i) (\<lambda>b. bindR (FastForwardBucket b v) (\<lambda>p. updR st i p))"
  have "\<exists>st'. foldR ?f st [0..<n] = Inr st' \<and> length st' = length st
    \<and> (\<forall>i<n. 0 \<le> st' ! i \<and> rest (bs ! i) (st' ! i) = filter (\<lambda>x. v \<le> x) (bucket_elems (bs ! i)))"
    if "n \<le> length bs" for n
    using that
  proof (induction n)
    case 0
    then show ?case by simp
  next
    case (Suc n)
    then obtain st1 where st1: "foldR ?f st [0..<n] = Inr st1" "length st1 = length st"
      "\<forall>i<n. 0 \<le> st1 ! i \<and> rest (bs ! i) (st1 ! i) = filter (\<lambda>x. v \<le> x) (bucket_elems (bs ! i))"
      by auto
    obtain p where p: "FastForwardBucket (bs ! n) v = Inr p" "0 \<le> p"
      "rest (bs ! n) p = filter (\<lambda>x. v \<le> x) (bucket_elems (bs ! n))"
      using FastForwardBucket_law [of "bs ! n" v] bs Suc.prems by auto
    have "foldR ?f st [0..<Suc n] = Inr (st1[n := p])"
      using Suc.prems st st1(1,2) p(1) by (simp add: foldR_append)
    with st1 p Suc.prems st show ?case by (auto simp: nth_list_update less_Suc_eq)
  qed
  from this [of "length bs"] show ?thesis by (simp add: BucketListSortedIntersectionInit_def)
qed

lemma any_exhausted_iff:
  "length bs \<le> length st \<Longrightarrow>
   any_exhausted bs st \<longleftrightarrow> (\<exists>i<length bs. bk_size (bs ! i) \<le> st ! i)"
proof (induction bs st rule: any_exhausted.induct)
  case (1 b bs s st)
  then show ?case by (auto simp: Ex_less_Suc2 simp del: ex_simps)
qed auto

text \<open>The tuples every bucket holds from the given one on, in increasing order.\<close>

definition matches :: "ColumnIndexBucket list \<Rightarrow> int \<Rightarrow> int list" where
  "matches bs v = filter (\<lambda>x. v \<le> x \<and> in_all bs x) (bucket_elems (bs ! 0))"

lemma matches_any:
  assumes bs: "\<forall>b\<in>set bs. bucket_sorted b" and i: "i < length bs"
  shows "filter (in_all bs) (filter (\<lambda>x. v \<le> x) (bucket_elems (bs ! i))) = matches bs v"
proof (rule strict_sorted_equal)
  have srt: "sorted_wrt (<) (bucket_elems (bs ! j))" if "j < length bs" for j
    using bs that by (auto simp: bucket_sorted_def)
  show "sorted_wrt (<) (filter (in_all bs) (filter (\<lambda>x. v \<le> x) (bucket_elems (bs ! i))))"
    "sorted_wrt (<) (matches bs v)"
    using srt [OF i] srt [of 0, OF le_less_trans [OF le0 i]] by (auto simp: matches_def intro!: sorted_wrt_filter)
  show "set (filter (in_all bs) (filter (\<lambda>x. v \<le> x) (bucket_elems (bs ! i)))) = set (matches bs v)"
    using nth_mem [OF i] nth_mem [OF le_less_trans [OF le0 i]] by (auto simp: matches_def in_all_def)
qed

lemma PopulateResult_law:
  assumes bs: "\<forall>b\<in>set bs. bucket_sorted b" "bs \<noteq> []" and st: "length bs \<le> length st"
    and pos: "\<forall>i<length bs. 0 \<le> st ! i \<and> rest (bs ! i) (st ! i) = filter (\<lambda>x. v \<le> x) (bucket_elems (bs ! i))"
    and m: "0 \<le> m" "m \<le> int (length result)"
  shows "\<exists>k st' result'. BucketListSortedIntersectionPopulateResult bs st result m = Some (Inr (k, st', result'))
    \<and> take (nat k) result' = take (nat m) (matches bs v) \<and> length st' = length st \<and> length result' = length result"
proof -
  have n0: "0 < length bs" using bs(2) by simp
  have b0: "bucket_sorted (bs ! 0)" "bucket_ok (bs ! 0)" using bs n0 by (auto simp: bucket_sorted_def)
  have ne: "\<not> length st < length bs" using st by simp
  note all = matches_any [OF bs(1), of _ v]
  consider "length bs = 1" | "length bs = 2" | "3 \<le> length bs" using n0 by linarith
  then show ?thesis
  proof cases
    case 1
    then have "set bs = {bs ! 0}" by (auto simp: length_Suc_conv)
    then have m0: "matches bs v = rest (bs ! 0) (st ! 0)"
      using pos n0 by (auto simp: matches_def in_all_def intro!: filter_cong)
    obtain k s r where "scan_one (bs ! 0) (st ! 0) result 0 m = Inr (k, s, r)"
      "delivered result 0 m (rest (bs ! 0) (st ! 0)) k r"
      using scan_one_law [OF b0(2), of "st ! 0" 0 m result] pos n0 m by auto
    then show ?thesis
      using 1 ne m0 by (auto simp: BucketListSortedIntersectionPopulateResult_def delivered_def)
  next
    case 2
    then have b1: "bucket_sorted (bs ! 1)" and eq: "set bs = {bs ! 0, bs ! 1}"
      using bs by (auto simp: numeral_2_eq_2 length_Suc_conv)
    have m0: "matches bs v = common (rest (bs ! 0) (st ! 0)) (rest (bs ! 1) (st ! 1))"
      using pos 2 by (auto simp: matches_def common_def in_all_def eq intro!: filter_cong)
    obtain k s0 s1 r where
      "scan_two (bs ! 0) (bs ! 1) (st ! 0) (st ! 1) result 0 m = Some (Inr (k, s0, s1, r))"
      "delivered result 0 m (common (rest (bs ! 0) (st ! 0)) (rest (bs ! 1) (st ! 1))) k r"
      using scan_two_law [OF b0(1) b1, of "st ! 0" "st ! 1" 0 m result] pos 2 m by auto
    then show ?thesis
      using 2 ne m0 by (auto simp: BucketListSortedIntersectionPopulateResult_def delivered_def)
  next
    case 3
    then have ne3: "length bs \<noteq> 0" "length bs \<noteq> 1" "length bs \<noteq> 2" by auto
    show ?thesis
    proof (cases "any_exhausted bs st")
      case True
      then obtain i where i: "i < length bs" "bk_size (bs ! i) \<le> st ! i"
        using any_exhausted_iff [OF st] by auto
      have "bucket_ok (bs ! i)" using bs i by (auto simp: bucket_sorted_def)
      then have "rest (bs ! i) (st ! i) = []" using rest_Nil [of "bs ! i" "st ! i"] i pos by auto
      then have "matches bs v = []" using all [OF i(1)] pos i(1) by auto
      then show ?thesis
        using True ne ne3 by (simp add: BucketListSortedIntersectionPopulateResult_def)
    next
      case False
      let ?mn = "find_min_list bs st"
      have mn: "?mn < length bs" using find_min_list_less [OF bs(2)] .
      have "filter (in_all bs) (rest (bs ! ?mn) (st ! ?mn)) = matches bs v" using pos mn all [OF mn] by simp
      with scan_min_law [OF bs(1) mn st, of 0 m result] pos mn m obtain k st' r where
        "scan_min bs ?mn st result 0 m = Some (Inr (k, st', r))" "length st' = length st"
        "delivered result 0 m (matches bs v) k r" by auto
      then show ?thesis
        using False ne ne3 by (auto simp: BucketListSortedIntersectionPopulateResult_def delivered_def)
    qed
  qed
qed

section \<open>Properties\<close>

text \<open>Property C36: on a sorted bucket \<^verbatim>\<open>FastForwardBucket\<close> ends without error and returns the first
  position whose tuple is at least the given one, or \<^verbatim>\<open>INT32_MAX\<close> (past the end) if there is none.\<close>

theorem fast_forward_lower_bound:
  assumes "bucket_sorted b"
  shows "\<exists>p. FastForwardBucket b v = Inr p \<and> 0 \<le> p
    \<and> (\<forall>i<nat (bk_size b). (int i < p \<longleftrightarrow> bucket_elems b ! i < v))"
proof -
  obtain p where p: "FastForwardBucket b v = Inr p" "0 \<le> p"
    "rest b p = filter (\<lambda>x. v \<le> x) (bucket_elems b)" using FastForwardBucket_law [OF assms] by blast
  let ?xs = "bucket_elems b"
  have len: "length ?xs = nat (bk_size b)" and srt: "sorted ?xs" and ok: "bucket_ok b"
    using assms bucket_elems_length by (auto simp: bucket_sorted_def strict_sorted_iff)
  have "filter (\<lambda>x. v \<le> x) ?xs = filter (\<lambda>x. v \<le> x) (take (nat p) ?xs) @ filter (\<lambda>x. v \<le> x) (rest b p)"
    unfolding rest_def filter_append [symmetric] by simp
  then have nil: "filter (\<lambda>x. v \<le> x) (take (nat p) ?xs) = []" by (simp add: p(3))
  have "int i < p \<longleftrightarrow> ?xs ! i < v" if i: "i < nat (bk_size b)" for i
  proof (cases "int i < p")
    case True
    then have "?xs ! i \<in> set (take (nat p) ?xs)"
      using i len p(2) by (auto simp: in_set_conv_nth intro!: exI [of _ i])
    with nil True show ?thesis by (auto simp: filter_empty_conv not_le)
  next
    case False
    then have "?xs ! i \<in> set (rest b p)"
      using i len p(2) by (auto simp: rest_def in_set_conv_nth intro!: exI [of _ "i - nat p"])
    with p(3) False show ?thesis by auto
  qed
  with p show ?thesis by blast
qed

definition sample_bucket :: "int list \<Rightarrow> ColumnIndexBucket" where
  "sample_bucket xs = \<lparr>bk_data = map Some xs @ replicate (8 - length xs) None,
     bk_size = int (length xs), bk_capacity = 8\<rparr>"

lemma sample_bucket_sorted:
  assumes "length xs \<le> 8" "sorted_wrt (<) xs"
  shows "bucket_sorted (sample_bucket xs)" "bucket_elems (sample_bucket xs) = xs"
proof -
  have "8 \<in> set capacities" by (simp add: capacities_def upt_conv_Cons)
  with assms show "bucket_sorted (sample_bucket xs)" "bucket_elems (sample_bucket xs) = xs"
    by (auto simp: bucket_sorted_def bucket_ok_def bucket_elems_def sample_bucket_def comp_def)
qed

theorem fast_forward_lower_bound_witness:
  "\<exists>p. FastForwardBucket (sample_bucket [2, 5, 9]) 4 = Inr p \<and> 0 < p \<and> \<not> 1 < p"
proof -
  have s: "bucket_sorted (sample_bucket [2, 5, 9])" "bucket_elems (sample_bucket [2, 5, 9]) = [2, 5, 9]"
    using sample_bucket_sorted [of "[2, 5, 9]"] by auto
  obtain p where p: "FastForwardBucket (sample_bucket [2, 5, 9]) 4 = Inr p"
    "\<forall>i<nat (bk_size (sample_bucket [2, 5, 9])). (int i < p \<longleftrightarrow> bucket_elems (sample_bucket [2, 5, 9]) ! i < 4)"
    using fast_forward_lower_bound [OF s(1), of 4] by blast
  have "bk_size (sample_bucket [2, 5, 9]) = 3" by (simp add: sample_bucket_def)
  with p(2) [rule_format, of 0] p(2) [rule_format, of 1] s(2) p(1) show ?thesis by auto
qed

text \<open>Property C17: intersecting any number of sorted buckets, started by
  \<^verbatim>\<open>BucketListSortedIntersectionInit\<close> at a tuple, ends without error and writes the tuples common
  to all buckets from that tuple on, in increasing order, as many as the result has room for.\<close>

theorem intersection_correct:
  assumes "\<forall>b\<in>set bs. bucket_sorted b" "bs \<noteq> []" "length bs \<le> length st"
    and "0 \<le> m" "m \<le> int (length result)"
  shows "\<exists>st1 k st2 result'. BucketListSortedIntersectionInit bs (length bs) st v = Inr st1
    \<and> BucketListSortedIntersectionPopulateResult bs st1 result m = Some (Inr (k, st2, result'))
    \<and> take (nat k) result' = take (nat m) (matches bs v)"
proof -
  obtain st1 where st1: "BucketListSortedIntersectionInit bs (length bs) st v = Inr st1"
    "length st1 = length st"
    "\<forall>i<length bs. 0 \<le> st1 ! i \<and> rest (bs ! i) (st1 ! i) = filter (\<lambda>x. v \<le> x) (bucket_elems (bs ! i))"
    using Init_law [OF assms(1,3)] by blast
  then show ?thesis
    using PopulateResult_law [OF assms(1,2) _ st1(3) assms(4,5)] assms(3) by auto
qed

theorem intersection_correct_witness:
  "\<exists>st1 k st2 result'.
     BucketListSortedIntersectionInit
       [sample_bucket [1, 4, 6, 8], sample_bucket [4, 5, 6, 8], sample_bucket [0, 4, 6, 7, 8]] 3 [0, 0, 0] 2
       = Inr st1
   \<and> BucketListSortedIntersectionPopulateResult
       [sample_bucket [1, 4, 6, 8], sample_bucket [4, 5, 6, 8], sample_bucket [0, 4, 6, 7, 8]] st1 [0, 0] 2
       = Some (Inr (k, st2, result'))
   \<and> take (nat k) result' = [4, 6]"
proof -
  let ?bs = "[sample_bucket [1, 4, 6, 8], sample_bucket [4, 5, 6, 8], sample_bucket [0, 4, 6, 7, 8]]"
  note e = sample_bucket_sorted [of "[1, 4, 6, 8]"] sample_bucket_sorted [of "[4, 5, 6, 8]"]
    sample_bucket_sorted [of "[0, 4, 6, 7, 8]"]
  have "matches ?bs 2 = [4, 6, 8]" using e by (simp add: matches_def in_all_def)
  with intersection_correct [of ?bs "[0, 0, 0]" 2 "[0, 0]" 2] e show ?thesis
    by (simp add: numeral_3_eq_3 eval_nat_numeral)
qed

text \<open>with two buckets a further call resumes exactly where the last one stopped:
  the two calls together deliver the same tuples as one call with room for both.\<close>

lemma intersection_two_resumes:
  assumes "bucket_sorted b0" "bucket_sorted b1" "0 \<le> s0" "0 \<le> s1"
    and "0 \<le> m" "m \<le> int (length result)"
  shows "\<exists>k s0' s1' result' k' s0'' s1'' result''.
      scan_two b0 b1 s0 s1 result 0 m = Some (Inr (k, s0', s1', result'))
    \<and> scan_two b0 b1 s0' s1' result' 0 m = Some (Inr (k', s0'', s1'', result''))
    \<and> take (nat k) result' @ take (nat k') result'' =
        take (nat (2 * m)) (common (rest b0 s0) (rest b1 s1))"
proof -
  let ?c = "common (rest b0 s0) (rest b1 s1)"
  obtain k s0' s1' result' where r1: "scan_two b0 b1 s0 s1 result 0 m = Some (Inr (k, s0', s1', result'))"
    "0 \<le> s0'" "0 \<le> s1'" "delivered result 0 m ?c k result'"
    "common (rest b0 s0') (rest b1 s1') = drop (nat m) ?c"
    using scan_two_law [OF assms(1-4), of 0 m result] assms(5,6) by auto
  then have "m \<le> int (length result')" using assms(6) by (simp add: delivered_def)
  then obtain k' s0'' s1'' result'' where
    r2: "scan_two b0 b1 s0' s1' result' 0 m = Some (Inr (k', s0'', s1'', result''))"
    "delivered result' 0 m (drop (nat m) ?c) k' result''"
    using scan_two_law [OF assms(1,2) r1(2,3), of 0 m result'] assms(5) r1(5) by auto
  have "nat (2 * m) = nat m + nat m" using assms(5) by simp
  with r1 r2 show ?thesis by (auto simp: delivered_def take_add)
qed




end
