(* ===== verification/RtVector.thy ===== *)
theory RtVector
  imports KushPrelude "HOL-Library.Multiset"
begin

text \<open>
  The growable array of the runtime and its merge sort (\<^verbatim>\<open>runtime/vector.cc\<close>), and the hash
  table of vectors (\<^verbatim>\<open>runtime/hash_table.cc\<close>). The data of a vector is a list of cells of
  \<^verbatim>\<open>element_size\<close> bytes each (\<^verbatim>\<open>None\<close> a cell that was never written); a pointer to an element is
  the index of its cell, and a \<^verbatim>\<open>memcpy\<close> of \<^verbatim>\<open>element_size\<close> bytes copies one cell.
  The theorems: the sort ends, permutes the elements and orders them by the comparator;
  an element inserted under a hash is found in the bucket of that hash, behind those before it.
\<close>

section \<open>Vectors\<close>

record 'a Vector =
  element_size :: int
  vec_size :: int
  vec_capacity :: int
  vec_data :: "'a option list"

definition VectorCreate :: "int \<Rightarrow> int \<Rightarrow> 'a Vector" where
  "VectorCreate elem_size initial_capacity =
     \<lparr>element_size = elem_size, vec_size = 0, vec_capacity = initial_capacity,
      vec_data = replicate (nat initial_capacity) None\<rparr>"

text \<open>\<^verbatim>\<open>realloc\<close> keeps the cells that fit.\<close>

definition Grow :: "'a Vector \<Rightarrow> int \<Rightarrow> 'a Vector" where
  "Grow vec new_capacity =
     vec\<lparr>vec_data := take (nat new_capacity) (vec_data vec)
            @ replicate (nat new_capacity - length (vec_data vec)) None,
         vec_capacity := new_capacity\<rparr>"

definition PushBack :: "'a Vector \<Rightarrow> ('a Vector \<times> int) res" where
  "PushBack vec =
     bindR (if vec_size vec = vec_capacity vec then
              (if 2 * vec_capacity vec > INT32_MAX then Inl Undefined
               else Inr (Grow vec (2 * vec_capacity vec)))
            else Inr vec) (\<lambda>vec.
       Inr (vec\<lparr>vec_size := vec_size vec + 1\<rparr>, vec_size vec))"

text \<open>Reading and writing through the pointer \<^verbatim>\<open>Get\<close> or \<^verbatim>\<open>PushBack\<close> returns.\<close>

definition read_cell :: "'a option list \<Rightarrow> nat \<Rightarrow> 'a res" where
  "read_cell d i = bindR (nthR d i) (\<lambda>c. case c of None \<Rightarrow> Inl Undefined | Some x \<Rightarrow> Inr x)"

definition VectorGet :: "'a Vector \<Rightarrow> int \<Rightarrow> 'a res" where
  "VectorGet vec idx = (if 0 \<le> idx then read_cell (vec_data vec) (nat idx) else Inl Undefined)"

definition write_elem :: "'a Vector \<Rightarrow> int \<Rightarrow> 'a \<Rightarrow> 'a Vector res" where
  "write_elem vec idx x = bindR (updI (vec_data vec) idx (Some x)) (\<lambda>d. Inr (vec\<lparr>vec_data := d\<rparr>))"

definition VectorSize :: "'a Vector option \<Rightarrow> int" where
  "VectorSize vec = (case vec of None \<Rightarrow> 0 | Some v \<Rightarrow> vec_size v)"

section \<open>Merge sort\<close>

text \<open>The loop that compares the heads of both halves.\<close>

function merge_heads ::
    "('a \<Rightarrow> 'a \<Rightarrow> bool) \<Rightarrow> 'a option list \<Rightarrow> 'a option list \<Rightarrow> nat \<Rightarrow> nat \<Rightarrow> nat \<Rightarrow> 'a option list
     \<Rightarrow> (nat \<times> nat \<times> nat \<times> 'a option list) res" where
  "merge_heads comp_fn v1 v2 i j k d =
     (if i < length v1 \<and> j < length v2 then
        bindR (read_cell v1 i) (\<lambda>left_i.
        bindR (read_cell v2 j) (\<lambda>right_j.
          if comp_fn left_i right_j
          then bindR (updR d k (Some left_i)) (\<lambda>d'. merge_heads comp_fn v1 v2 (i + 1) j (k + 1) d')
          else bindR (updR d k (Some right_j)) (\<lambda>d'. merge_heads comp_fn v1 v2 i (j + 1) (k + 1) d')))
      else Inr (i, j, k, d))"
  by pat_completeness auto
termination
  by (relation "measure (\<lambda>(c, v1, v2, i, j, k, d). (length v1 - i) + (length v2 - j))") auto

text \<open>The loops that copy what is left of one half.\<close>

function copy_rest :: "'a option list \<Rightarrow> nat \<Rightarrow> nat \<Rightarrow> 'a option list \<Rightarrow> (nat \<times> 'a option list) res" where
  "copy_rest v i k d =
     (if i < length v then
        bindR (read_cell v i) (\<lambda>x. bindR (updR d k (Some x)) (\<lambda>d'. copy_rest v (i + 1) (k + 1) d'))
      else Inr (k, d))"
  by pat_completeness auto
termination
  by (relation "measure (\<lambda>(v, i, k, d). length v - i)") auto

declare merge_heads.simps [simp del] copy_rest.simps [simp del]

definition merge_cells ::
    "('a \<Rightarrow> 'a \<Rightarrow> bool) \<Rightarrow> 'a option list \<Rightarrow> 'a option list \<Rightarrow> nat \<Rightarrow> nat \<Rightarrow> nat \<Rightarrow> 'a option list
     \<Rightarrow> 'a option list res" where
  "merge_cells comp_fn v1 v2 i j k d =
     bindR (merge_heads comp_fn v1 v2 i j k d) (\<lambda>(i, j, k, d).
     bindR (copy_rest v1 i k d) (\<lambda>(k, d).
     bindR (copy_rest v2 j k d) (\<lambda>(k, d). Inr d)))"

definition Merge :: "'a Vector \<Rightarrow> ('a \<Rightarrow> 'a \<Rightarrow> bool) \<Rightarrow> int \<Rightarrow> int \<Rightarrow> int \<Rightarrow> 'a Vector res" where
  "Merge vec comp_fn l m r =
     (let n1 = nat (m - l + 1); n2 = nat (r - m); d = vec_data vec in
      if 0 \<le> l \<and> 0 \<le> m + 1 \<and> nat l + n1 \<le> length d \<and> nat (m + 1) + n2 \<le> length d then
        bindR (merge_cells comp_fn (take n1 (drop (nat l) d)) (take n2 (drop (nat (m + 1)) d)) 0 0 (nat l) d)
          (\<lambda>d'. Inr (vec\<lparr>vec_data := d'\<rparr>))
      else Inl Undefined)"

function MergeSort :: "'a Vector \<Rightarrow> ('a \<Rightarrow> 'a \<Rightarrow> bool) \<Rightarrow> int \<Rightarrow> int \<Rightarrow> 'a Vector res" where
  "MergeSort vec comp_fn l r =
     (if l \<ge> r then Inr vec
      else let m = l + (r - l) div 2 in
        bindR (MergeSort vec comp_fn l m) (\<lambda>vec.
        bindR (MergeSort vec comp_fn (m + 1) r) (\<lambda>vec.
          Merge vec comp_fn l m r)))"
  by pat_completeness auto
termination
proof (relation "measure (\<lambda>(v, c, l, r). nat (r - l))", goal_cases)
  case (2 v c l r m)
  then show ?case by auto
next
  case (3 v c l r m v')
  then show ?case by auto
qed simp

declare MergeSort.simps [simp del]

definition Sort :: "'a Vector \<Rightarrow> ('a \<Rightarrow> 'a \<Rightarrow> bool) \<Rightarrow> 'a Vector res" where
  "Sort vec comp_fn = MergeSort vec comp_fn 0 (vec_size vec - 1)"

section \<open>The merge\<close>

fun merge_lists :: "('a \<Rightarrow> 'a \<Rightarrow> bool) \<Rightarrow> 'a list \<Rightarrow> 'a list \<Rightarrow> 'a list" where
  "merge_lists c (x # xs) (y # ys) =
     (if c x y then x # merge_lists c xs (y # ys) else y # merge_lists c (x # xs) ys)"
| "merge_lists c xs [] = xs"
| "merge_lists c [] ys = ys"

lemma length_merge_lists [simp]: "length (merge_lists c xs ys) = length xs + length ys"
  by (induction c xs ys rule: merge_lists.induct) auto

lemma mset_merge_lists [simp]: "mset (merge_lists c xs ys) = mset xs + mset ys"
  by (induction c xs ys rule: merge_lists.induct) auto

lemma set_merge_lists [simp]: "set (merge_lists c xs ys) = set xs \<union> set ys"
  by (induction c xs ys rule: merge_lists.induct) auto

text \<open>
  What a comparator has to be for the order it sorts by: \<open>le\<close> is transitive, holds when the
  comparator says so, and the other way round when it does not. A strict order with its
  weak order and a total preorder with itself both qualify.
\<close>

definition orders_by :: "('a \<Rightarrow> 'a \<Rightarrow> bool) \<Rightarrow> ('a \<Rightarrow> 'a \<Rightarrow> bool) \<Rightarrow> bool" where
  "orders_by c le \<longleftrightarrow> (\<forall>x y. if c x y then le x y else le y x)
     \<and> (\<forall>x y z. le x y \<longrightarrow> le y z \<longrightarrow> le x z)"

lemma sorted_merge_lists:
  assumes "orders_by c le" "sorted_wrt le xs" "sorted_wrt le ys"
  shows "sorted_wrt le (merge_lists c xs ys)"
  using assms
proof (induction c xs ys rule: merge_lists.induct)
  case (1 c x xs y ys)
  have le: "c x y \<longrightarrow> le x y" "\<not> c x y \<longrightarrow> le y x"
    and trans: "\<And>u v w. le u v \<Longrightarrow> le v w \<Longrightarrow> le u w"
    using "1.prems"(1) unfolding orders_by_def by meson+
  have x: "\<forall>z\<in>set xs. le x z" and y: "\<forall>z\<in>set ys. le y z" using "1.prems" by auto
  show ?case
  proof (cases "c x y")
    case True
    then have "\<forall>z\<in>set (merge_lists c xs (y # ys)). le x z" using x y le(1) trans [of x y] by auto
    with True 1 show ?thesis by simp
  next
    case False
    then have "\<forall>z\<in>set (merge_lists c (x # xs) ys). le y z" using x y le(2) trans [of y x] by auto
    with False 1 show ?thesis by simp
  qed
qed auto

lemma merge_lists_Nil [simp]: "merge_lists c [] ys = ys"
  by (cases ys) auto

lemma read_cell_Some [simp]: "i < length xs \<Longrightarrow> read_cell (map Some xs) i = Inr (xs ! i)"
  by (simp add: read_cell_def)

text \<open>Writing a list into the cells from a position on.\<close>

definition write_at :: "'a option list \<Rightarrow> nat \<Rightarrow> 'a list \<Rightarrow> 'a option list" where
  "write_at d k xs = take k d @ map Some xs @ drop (k + length xs) d"

lemma write_at_Nil [simp]: "write_at d k [] = d"
  by (simp add: write_at_def)

lemma write_at_Cons:
  assumes "k < length d"
  shows "write_at (d[k := Some x]) (Suc k) xs = write_at d k (x # xs)"
  using assms by (simp add: write_at_def take_Suc_conv_app_nth)

lemma copy_rest_law:
  assumes "i \<le> length xs" "k + (length xs - i) \<le> length d"
  shows "copy_rest (map Some xs) i k d = Inr (k + (length xs - i), write_at d k (drop i xs))"
  using assms
proof (induction "length xs - i" arbitrary: i k d)
  case 0
  then show ?case by (simp add: copy_rest.simps)
next
  case (Suc n)
  then have i: "i < length xs" "k < length d" by auto
  with Suc.hyps(1) [of "Suc i" "Suc k" "d[k := Some (xs ! i)]"] Suc.hyps(2) Suc.prems show ?case
    by (simp add: copy_rest.simps [of _ i] write_at_Cons Cons_nth_drop_Suc)
qed

lemma copy_rest_end [simp]: "copy_rest (map Some xs) (length xs) k d = Inr (k, d)"
  by (simp add: copy_rest.simps)

lemma merge_cells_law:
  assumes "i \<le> length xs" "j \<le> length ys" "k + (length xs - i) + (length ys - j) \<le> length d"
  shows "merge_cells c (map Some xs) (map Some ys) i j k d =
    Inr (write_at d k (merge_lists c (drop i xs) (drop j ys)))"
  using assms
proof (induction "(length xs - i) + (length ys - j)" arbitrary: i j k d rule: less_induct)
  case less
  show ?case
  proof (cases "i < length xs \<and> j < length ys")
    case False
    then have "merge_heads c (map Some xs) (map Some ys) i j k d = Inr (i, j, k, d)"
      by (auto simp: merge_heads.simps [of c _ _ i])
    moreover have "i = length xs \<or> j = length ys" using False less.prems by auto
    ultimately show ?thesis
      using less.prems by (auto simp: merge_cells_def copy_rest_law)
  next
    case True
    let ?x = "xs ! i" and ?y = "ys ! j"
    have k: "k < length d" using True less.prems by auto
    have dr: "drop i xs = ?x # drop (Suc i) xs" "drop j ys = ?y # drop (Suc j) ys"
      using True by (auto simp: Cons_nth_drop_Suc)
    have step: "merge_cells c (map Some xs) (map Some ys) i j k d =
        (if c ?x ?y then merge_cells c (map Some xs) (map Some ys) (Suc i) j (Suc k) (d[k := Some ?x])
         else merge_cells c (map Some xs) (map Some ys) i (Suc j) (Suc k) (d[k := Some ?y]))"
      using True k unfolding merge_cells_def by (subst merge_heads.simps) simp
    show ?thesis
    proof (cases "c ?x ?y")
      case c: True
      have "merge_cells c (map Some xs) (map Some ys) (Suc i) j (Suc k) (d[k := Some ?x]) =
          Inr (write_at (d[k := Some ?x]) (Suc k) (merge_lists c (drop (Suc i) xs) (drop j ys)))"
        by (rule less.hyps) (use True less.prems in auto)
      with c k show ?thesis unfolding step by (simp add: dr write_at_Cons)
    next
      case c: False
      have "merge_cells c (map Some xs) (map Some ys) i (Suc j) (Suc k) (d[k := Some ?y]) =
          Inr (write_at (d[k := Some ?y]) (Suc k) (merge_lists c (drop i xs) (drop (Suc j) ys)))"
        by (rule less.hyps) (use True less.prems in auto)
      with c k show ?thesis unfolding step by (simp add: dr write_at_Cons)
    qed
  qed
qed

section \<open>The sort\<close>

definition elems :: "'a Vector \<Rightarrow> 'a list" where
  "elems v = map the (take (nat (vec_size v)) (vec_data v))"

definition vec_ok :: "'a Vector \<Rightarrow> bool" where
  "vec_ok v \<longleftrightarrow> 0 \<le> vec_size v \<and> vec_size v \<le> vec_capacity v
     \<and> length (vec_data v) = nat (vec_capacity v)
     \<and> None \<notin> set (take (nat (vec_size v)) (vec_data v))"

lemma Some_map_the: "None \<notin> set xs \<Longrightarrow> map Some (map the xs) = xs"
  by (induction xs) auto

lemma vec_ok_data:
  assumes "vec_ok v"
  shows "vec_data v = write_at (vec_data v) 0 (elems v)" "length (elems v) = nat (vec_size v)"
proof -
  have "map Some (elems v) = take (nat (vec_size v)) (vec_data v)"
    unfolding elems_def by (rule Some_map_the) (use assms in \<open>simp add: vec_ok_def\<close>)
  then show "vec_data v = write_at (vec_data v) 0 (elems v)" "length (elems v) = nat (vec_size v)"
    using assms by (auto simp: write_at_def elems_def vec_ok_def)
qed

lemma Merge_law:
  assumes d: "vec_data v = pre @ map Some xs @ map Some ys @ post"
    and l: "l = int (length pre)" "m = l + int (length xs) - 1" "r = m + int (length ys)"
  shows "Merge v c l m r = Inr (v\<lparr>vec_data := pre @ map Some (merge_lists c xs ys) @ post\<rparr>)"
proof -
  have n: "nat (m - l + 1) = length xs" "nat (r - m) = length ys" "nat l = length pre"
    "nat (m + 1) = length pre + length xs" using l by auto
  have "write_at (vec_data v) (length pre) (merge_lists c xs ys) = pre @ map Some (merge_lists c xs ys) @ post"
    by (simp add: write_at_def d)
  with merge_cells_law [of 0 xs 0 ys "length pre" "vec_data v" c] l show ?thesis
    by (simp add: Merge_def n d Let_def)
qed

lemma MergeSort_law:
  assumes "vec_data v = pre @ map Some xs @ post" "l = int (length pre)" "r = l + int (length xs) - 1"
  shows "\<exists>zs. MergeSort v c l r = Inr (v\<lparr>vec_data := pre @ map Some zs @ post\<rparr>) \<and> mset zs = mset xs
    \<and> (orders_by c le \<longrightarrow> sorted_wrt le zs)"
  using assms
proof (induction "length xs" arbitrary: v pre xs post l r rule: less_induct)
  case less
  show ?case
  proof (cases "l \<ge> r")
    case True
    then have "length xs \<le> 1" using less.prems by simp
    then have "sorted_wrt le xs" by (cases xs rule: remdups_adj.cases) auto
    then show ?thesis
      using True less.prems(1) by (intro exI [of _ xs]) (simp add: MergeSort.simps [of v])
  next
    case False
    define m where "m = l + (r - l) div 2"
    define a where "a = nat (m - l + 1)"
    let ?xs = "take a xs" and ?ys = "drop a xs"
    have a: "0 < a" "a < length xs" "m = l + int a - 1"
      using False less.prems(2,3) by (auto simp: a_def m_def)
    have "vec_data v = pre @ map Some ?xs @ (map Some ?ys @ post)"
      unfolding less.prems(1) map_append [symmetric] append_assoc [symmetric] by simp
    moreover have "length ?xs = a" using a(2) by simp
    ultimately obtain us where us: "MergeSort v c l m = Inr (v\<lparr>vec_data := pre @ map Some us @ map Some ?ys @ post\<rparr>)"
      "mset us = mset ?xs" and s1: "orders_by c le \<longrightarrow> sorted_wrt le us"
      using less.hyps [of ?xs v pre "map Some ?ys @ post" l m] less.prems(2) a by auto
    let ?v = "v\<lparr>vec_data := pre @ map Some us @ map Some ?ys @ post\<rparr>"
    have lu: "length us = a" using mset_eq_length [OF us(2)] a(2) by simp
    have "vec_data ?v = (pre @ map Some us) @ map Some ?ys @ post" by simp
    moreover have "m + 1 = int (length (pre @ map Some us))" "r = (m + 1) + int (length ?ys) - 1"
      "length ?ys < length xs" using less.prems(2,3) a lu by auto
    ultimately obtain ws where ws: "MergeSort ?v c (m + 1) r =
        Inr (?v\<lparr>vec_data := (pre @ map Some us) @ map Some ws @ post\<rparr>)"
      "mset ws = mset ?ys" and s2: "orders_by c le \<longrightarrow> sorted_wrt le ws"
      using less.hyps [of ?ys ?v "pre @ map Some us" post "m + 1" r] by blast
    let ?w = "?v\<lparr>vec_data := (pre @ map Some us) @ map Some ws @ post\<rparr>"
    have lw: "length ws = length xs - a" using mset_eq_length [OF ws(2)] by simp
    have "Merge ?w c l m r = Inr (?w\<lparr>vec_data := pre @ map Some (merge_lists c us ws) @ post\<rparr>)"
      by (rule Merge_law) (use less.prems a lu lw in auto)
    then have "MergeSort v c l r = Inr (v\<lparr>vec_data := pre @ map Some (merge_lists c us ws) @ post\<rparr>)"
      using False us(1) ws(1) by (simp add: MergeSort.simps [of v c l r] m_def [symmetric] Let_def)
    moreover have "mset (merge_lists c us ws) = mset xs"
      using us(2) ws(2) by (metis append_take_drop_id mset_append mset_merge_lists)
    ultimately show ?thesis
      using s1 s2 sorted_merge_lists [of c le us ws] by (intro exI [of _ "merge_lists c us ws"]) metis
  qed
qed

lemma Sort_law:
  assumes "vec_ok v"
  shows "\<exists>v'. Sort v c = Inr v' \<and> vec_ok v' \<and> vec_size v' = vec_size v \<and> mset (elems v') = mset (elems v)
    \<and> (orders_by c le \<longrightarrow> sorted_wrt le (elems v'))"
proof -
  let ?post = "drop (nat (vec_size v)) (vec_data v)"
  note d = vec_ok_data [OF assms]
  have "vec_data v = [] @ map Some (elems v) @ ?post" using d by (simp add: write_at_def)
  moreover have "vec_size v - 1 = 0 + int (length (elems v)) - 1"
    using assms d(2) by (simp add: vec_ok_def)
  ultimately obtain zs where zs: "Sort v c = Inr (v\<lparr>vec_data := [] @ map Some zs @ ?post\<rparr>)"
    "mset zs = mset (elems v)" "orders_by c le \<longrightarrow> sorted_wrt le zs"
    using MergeSort_law [of v "[]" "elems v" ?post 0 "vec_size v - 1" c le] by (auto simp: Sort_def)
  have "length zs = nat (vec_size v)" using mset_eq_length [OF zs(2)] d(2) by simp
  moreover from this have "elems (v\<lparr>vec_data := [] @ map Some zs @ ?post\<rparr>) = zs"
    by (simp add: elems_def comp_def)
  ultimately show ?thesis using zs assms by (auto simp: vec_ok_def)
qed

section \<open>Appending\<close>

lemma PushBack_law:
  assumes ok: "vec_ok v" and "0 < vec_capacity v" "2 * vec_capacity v \<le> INT32_MAX"
  shows "\<exists>v1 v2. PushBack v = Inr (v1, vec_size v) \<and> write_elem v1 (vec_size v) x = Inr v2
    \<and> vec_ok v2 \<and> elems v2 = elems v @ [x] \<and> vec_size v2 = vec_size v + 1
    \<and> vec_size v2 \<le> vec_capacity v2 \<and> element_size v2 = element_size v"
proof -
  have fit: "\<exists>v2. write_elem (w\<lparr>vec_size := vec_size w + 1\<rparr>) (vec_size w) x = Inr v2
      \<and> vec_ok v2 \<and> elems v2 = elems w @ [x] \<and> vec_size v2 = vec_size w + 1
      \<and> vec_size v2 \<le> vec_capacity v2 \<and> element_size v2 = element_size w"
    if w: "vec_ok w" "vec_size w < vec_capacity w" for w :: "'a Vector"
  proof -
    have n: "nat (vec_size w + 1) = Suc (nat (vec_size w))" "nat (vec_size w) < length (vec_data w)"
      using w by (auto simp: vec_ok_def)
    then show ?thesis
      using w by (auto simp: write_elem_def vec_ok_def elems_def take_Suc_conv_app_nth)
  qed
  show ?thesis
  proof (cases "vec_size v = vec_capacity v")
    case True
    let ?w = "Grow v (2 * vec_capacity v)"
    have "vec_ok ?w" "vec_size ?w < vec_capacity ?w" "elems ?w = elems v"
      "vec_size ?w = vec_size v" "element_size ?w = element_size v"
      using True ok assms(2) by (auto simp: vec_ok_def Grow_def elems_def)
    with fit [of ?w] True assms(3) show ?thesis by (auto simp: PushBack_def)
  next
    case False
    then have "vec_size v < vec_capacity v" using ok by (simp add: vec_ok_def)
    with fit [OF ok] False show ?thesis by (auto simp: PushBack_def)
  qed
qed

section \<open>The hash table of vectors\<close>

text \<open>\<^verbatim>\<open>std::unordered_map\<close> from hashes to vectors; its iteration order is an argument.\<close>

record 'a HashTable =
  ht_element_size :: int
  ht_data :: "u32 \<rightharpoonup> 'a Vector"

definition HashTableCreate :: "int \<Rightarrow> 'a HashTable" where
  "HashTableCreate elem_size = \<lparr>ht_element_size = elem_size, ht_data = Map.empty\<rparr>"

text \<open>The pointer returned is the index of the new cell in the bucket of the hash.\<close>

definition HashTableInsert :: "'a HashTable \<Rightarrow> u32 \<Rightarrow> ('a HashTable \<times> int) res" where
  "HashTableInsert ht hash =
     (let ht = (if ht_data ht hash = None
                then ht\<lparr>ht_data := (ht_data ht)(hash \<mapsto> VectorCreate (ht_element_size ht) 2)\<rparr>
                else ht)
      in bindR (PushBack (the (ht_data ht hash))) (\<lambda>(bucket, idx).
           Inr (ht\<lparr>ht_data := (ht_data ht)(hash \<mapsto> bucket)\<rparr>, idx)))"

definition GetBucket :: "'a HashTable \<Rightarrow> u32 \<Rightarrow> 'a Vector option" where
  "GetBucket ht hash = ht_data ht hash"

definition GetAllBuckets :: "'a HashTable \<Rightarrow> u32 list \<Rightarrow> 'a Vector list" where
  "GetAllBuckets ht iteration_order = map (\<lambda>k. the (ht_data ht k)) iteration_order"

definition GetBucketIdx :: "'a Vector list \<Rightarrow> int \<Rightarrow> 'a Vector res" where
  "GetBucketIdx l i = nthI l i"

definition BucketListSize :: "'a Vector list \<Rightarrow> int" where
  "BucketListSize l = int (length l)"

text \<open>
  The payload the generated code stores through the pointer: it completes the insertion.
\<close>

definition store_in_bucket :: "'a HashTable \<Rightarrow> u32 \<Rightarrow> int \<Rightarrow> 'a \<Rightarrow> 'a HashTable res" where
  "store_in_bucket ht hash idx x =
     (case ht_data ht hash of
        None \<Rightarrow> Inl Undefined
      | Some b \<Rightarrow> bindR (write_elem b idx x) (\<lambda>b'. Inr (ht\<lparr>ht_data := (ht_data ht)(hash \<mapsto> b')\<rparr>)))"

unbundle bit_operations_syntax

definition HashCombine :: "u32 \<Rightarrow> u64 \<Rightarrow> u32" where
  "HashCombine hash v =
     ucast ((scast hash :: u64) XOR
       (v + 0x9e3779b9 + scast (push_bit 6 hash) + scast (signed_drop_bit 2 hash)))"

definition bucket_list :: "'a HashTable \<Rightarrow> u32 \<Rightarrow> 'a list" where
  "bucket_list ht h = (case ht_data ht h of None \<Rightarrow> [] | Some b \<Rightarrow> elems b)"

definition table_ok_at :: "'a HashTable \<Rightarrow> u32 \<Rightarrow> bool" where
  "table_ok_at ht h \<longleftrightarrow> (\<forall>b. ht_data ht h = Some b \<longrightarrow> vec_ok b \<and> 0 < vec_capacity b
     \<and> 2 * vec_capacity b \<le> INT32_MAX)"

lemma take_bit_low_add:
  fixes x y :: int
  shows "take_bit 32 (take_bit 64 x + take_bit 64 y) = take_bit 32 (x + y)"
proof -
  have "take_bit 32 (take_bit 64 x + take_bit 64 y) =
      take_bit 32 (take_bit 32 (take_bit 64 x) + take_bit 32 (take_bit 64 y))"
    by (rule take_bit_add [symmetric])
  also have "\<dots> = take_bit 32 (take_bit 32 x + take_bit 32 y)" by (simp add: take_bit_take_bit)
  also have "\<dots> = take_bit 32 (x + y)" by (rule take_bit_add)
  finally show ?thesis .
qed

lemma HashCombine_low:
  "HashCombine h v = h XOR (ucast v + 0x9e3779b9 + push_bit 6 h + signed_drop_bit 2 h)"
proof -
  have x: "(ucast (a XOR b :: u64) :: u32) = ucast a XOR ucast b" for a b
    by (rule bit_eqI) (auto simp: bit_simps)
  have a: "(ucast (a + b :: u64) :: u32) = ucast a + ucast b" for a b
    by transfer (simp add: take_bit_low_add)
  have s: "(ucast (scast k :: u64) :: u32) = k" for k :: u32
    by (rule bit_eqI) (auto simp: bit_simps)
  show ?thesis by (simp add: HashCombine_def x a s)
qed

section \<open>Properties\<close>

text \<open>Property C18: \<^verbatim>\<open>Sort\<close> ends without error on a well-formed vector, keeps its size, permutes its
  elements, and leaves them in the order of the comparator.\<close>

theorem vector_sort:
  assumes "vec_ok v" "orders_by c le"
  shows "\<exists>v'. Sort v c = Inr v' \<and> vec_ok v' \<and> vec_size v' = vec_size v
    \<and> mset (elems v') = mset (elems v) \<and> sorted_wrt le (elems v')"
  using Sort_law [OF assms(1), of c le] assms(2) by blast

definition sample_vector :: "'a list \<Rightarrow> 'a Vector" where
  "sample_vector xs = \<lparr>element_size = 4, vec_size = int (length xs), vec_capacity = int (length xs),
     vec_data = map Some xs\<rparr>"

theorem vector_sort_witness:
  "\<exists>v'. Sort (sample_vector [5, 2, 8, 2 :: int]) (<) = Inr v' \<and> sorted (elems v')
    \<and> mset (elems v') = {#2, 2, 5, 8#}"
proof -
  have "vec_ok (sample_vector [5, 2, 8, 2 :: int])" "elems (sample_vector [5, 2, 8, 2 :: int]) = [5, 2, 8, 2]"
    by (auto simp: vec_ok_def sample_vector_def elems_def)
  moreover have "orders_by (<) ((\<le>) :: int \<Rightarrow> int \<Rightarrow> bool)" by (auto simp: orders_by_def)
  ultimately show ?thesis
    using vector_sort [of "sample_vector [5, 2, 8, 2 :: int]" "(<)" "(\<le>)"] by (auto simp: add_mset_commute)
qed

text \<open>an insertion into the hash table, completed by the store, appends the element to
  the bucket of its hash (created on first use) and leaves every other bucket as it was.\<close>

lemma hash_insert_bucket:
  assumes "table_ok_at ht h"
  shows "\<exists>ht1 i ht2. HashTableInsert ht h = Inr (ht1, i) \<and> store_in_bucket ht1 h i x = Inr ht2
    \<and> bucket_list ht2 h = bucket_list ht h @ [x]
    \<and> (\<forall>h'. h' \<noteq> h \<longrightarrow> GetBucket ht2 h' = GetBucket ht h')"
proof -
  let ?ht = "if ht_data ht h = None
    then ht\<lparr>ht_data := (ht_data ht)(h \<mapsto> VectorCreate (ht_element_size ht) 2)\<rparr> else ht"
  obtain b where b: "ht_data ?ht h = Some b" "vec_ok b" "0 < vec_capacity b"
    "2 * vec_capacity b \<le> INT32_MAX" "elems b = bucket_list ht h"
  proof (cases "ht_data ht h")
    case None
    then show thesis using that [of "VectorCreate (ht_element_size ht) 2"]
      by (auto simp: vec_ok_def VectorCreate_def elems_def bucket_list_def INT32_MAX_def)
  next
    case (Some b)
    then show thesis using that [of b] assms by (auto simp: table_ok_at_def bucket_list_def)
  qed
  obtain v1 v2 where v: "PushBack b = Inr (v1, vec_size b)" "write_elem v1 (vec_size b) x = Inr v2"
    "elems v2 = elems b @ [x]" using PushBack_law [OF b(2-4), of x] by blast
  have "HashTableInsert ht h = Inr (?ht\<lparr>ht_data := (ht_data ?ht)(h \<mapsto> v1)\<rparr>, vec_size b)"
    using b(1) v(1) by (simp add: HashTableInsert_def Let_def)
  with v b(5) show ?thesis
    by (auto simp: store_in_bucket_def bucket_list_def GetBucket_def)
qed

text \<open>One step of \<^verbatim>\<open>HashCombine\<close> loses nothing of the low word of the value: two values
  give the same hash exactly when their low 32 bits agree.\<close>

lemma hash_combine_injective:
  "HashCombine h v = HashCombine h w \<longleftrightarrow> (ucast v :: u32) = ucast w"
proof -
  have "h XOR a = h XOR b \<longleftrightarrow> a = b" for a b :: u32
    by (metis xor.assoc xor.left_neutral xor_self_eq)
  then show ?thesis by (simp add: HashCombine_low)
qed

end
