(* ===== verification/SkinnerState.thy ===== *)
theory SkinnerState
  imports KushPrelude
begin

text \<open>
  The state of a join that switches between join orders (class \<^verbatim>\<open>JoinState\<close> of
  \<^verbatim>\<open>runtime/skinner_join_executor.cc\<close>). A tuple names one row per table; a join order
  enumerates the tuples lexicographically. The tree of progress keeps, for every prefix of an order that was
  executed, the row reached in the last table of the prefix. Tables are the indices of the vectors; an index
  outside a vector is undefined. Row numbers are \<^verbatim>\<open>int32_t\<close>, kept in range by the invariant below.
\<close>

section \<open>The tree of progress\<close>

text \<open>The row of the root is never initialised and never read; the model has 0 there.\<close>

datatype ProgressTree = PTree (last_completed_tuple: int) (child_nodes: "ProgressTree option list")

definition ProgressTreeNew :: "nat \<Rightarrow> int \<Rightarrow> ProgressTree" where
  "ProgressTreeNew num_tables v = PTree v (replicate num_tables None)"

record JoinState =
  finished :: bool
  cardinalities :: "int list"
  root :: ProgressTree
  offset :: "int list"

definition JoinStateNew :: "int list \<Rightarrow> JoinState" where
  "JoinStateNew cards =
     \<lparr>finished = False, cardinalities = cards, root = ProgressTreeNew (length cards) 0,
      offset = replicate (length cards) (-1)\<rparr>"

definition at_last_row :: "int list \<Rightarrow> int list \<Rightarrow> bool \<Rightarrow> nat \<Rightarrow> bool res" where
  "at_last_row t cards acc table =
     (if \<not> acc then Inr False
      else bindR (nthR t table) (\<lambda>v. bindR (nthR cards table) (\<lambda>c. Inr (v = c - 1))))"

definition IsJoinCompleted :: "int list \<Rightarrow> int list \<Rightarrow> bool res" where
  "IsJoinCompleted t cards = foldR (at_last_row t cards) True [0..<length t]"

section \<open>The tuple an order resumes from\<close>

text \<open>
  The tables of the order from the last to the first: rows 0 become the last row until a table can be
  decremented. Coming back to row 0 of the first table means that nothing was completed.
\<close>

fun resume_decrement :: "int list \<Rightarrow> nat list \<Rightarrow> int list \<Rightarrow> int list option res" where
  "resume_decrement cards [] t = Inr (Some t)"
| "resume_decrement cards (table # tables) t =
     bindR (nthR t table) (\<lambda>v.
       if v = 0 then
         (if tables = [] then Inr None
          else bindR (nthR cards table) (\<lambda>c. resume_decrement cards tables (t[table := c - 1])))
       else Inr (Some (t[table := v - 1])))"

definition zero_rest :: "nat list \<Rightarrow> int list \<Rightarrow> int list res" where
  "zero_rest tables t = foldR (\<lambda>t table. updR t table 0) t tables"

fun resume_walk :: "int list \<Rightarrow> nat list \<Rightarrow> bool \<Rightarrow> ProgressTree \<Rightarrow> int list \<Rightarrow> nat list \<Rightarrow> int list option res" where
  "resume_walk cards order is_root prev t [] = Inr (Some t)"
| "resume_walk cards order is_root prev t (table # tables) =
     bindR (nthR (child_nodes prev) table) (\<lambda>cur.
       case cur of
         None \<Rightarrow>
           if is_root then Inr None
           else bindR (zero_rest (table # tables) t) (\<lambda>t. resume_decrement cards (rev order) t)
       | Some node \<Rightarrow>
           bindR (updR t table (last_completed_tuple node)) (\<lambda>t.
             resume_walk cards order False node t tables))"

definition GetLastCompletedTupleIdx :: "JoinState \<Rightarrow> nat list \<Rightarrow> int list option res" where
  "GetLastCompletedTupleIdx st order =
     resume_walk (cardinalities st) order True (root st) (replicate (length order) 0) order"

section \<open>Recording an execution\<close>

fun set_chain :: "nat \<Rightarrow> int list \<Rightarrow> ProgressTree \<Rightarrow> nat list \<Rightarrow> ProgressTree res" where
  "set_chain num_tables t prev [] = Inr prev"
| "set_chain num_tables t prev (table # tables) =
     bindR (nthR t table) (\<lambda>v.
     bindR (set_chain num_tables t (ProgressTreeNew num_tables v) tables) (\<lambda>cur.
     bindR (updR (child_nodes prev) table (Some cur)) (\<lambda>children.
       Inr (PTree (last_completed_tuple prev) children))))"

definition reset_children :: "int \<Rightarrow> ProgressTree \<Rightarrow> ProgressTree" where
  "reset_children v node = PTree v (replicate (length (child_nodes node)) None)"

fun update_progress :: "nat \<Rightarrow> int list \<Rightarrow> ProgressTree \<Rightarrow> nat list \<Rightarrow> ProgressTree res" where
  "update_progress num_tables t prev [] = Inr prev"
| "update_progress num_tables t prev (table # tables) =
     bindR (nthR t table) (\<lambda>v.
     bindR (nthR (child_nodes prev) table) (\<lambda>cur.
       case cur of
         None \<Rightarrow> set_chain num_tables t prev (table # tables)
       | Some node \<Rightarrow>
           if v < last_completed_tuple node then Inl (RuntimeError ''Negative progress was made'')
           else
             bindR (if v > last_completed_tuple node then set_chain num_tables t (reset_children v node) tables
                    else update_progress num_tables t node tables) (\<lambda>node.
             bindR (updR (child_nodes prev) table (Some node)) (\<lambda>children.
               Inr (PTree (last_completed_tuple prev) children)))))"

definition update_offset :: "int list \<Rightarrow> int list \<Rightarrow> nat list \<Rightarrow> int list \<Rightarrow> int list res" where
  "update_offset cards offs order t =
     bindR (nthR order 0) (\<lambda>first_table.
     bindR (nthR t first_table) (\<lambda>v.
     bindR (foldR (at_last_row t cards) True (tl order)) (\<lambda>completed_last_finished_tuple.
     let last_finished_tuple = (if \<not> completed_last_finished_tuple then v - 1 else v) in
     bindR (nthR offs first_table) (\<lambda>old.
       updR offs first_table (max last_finished_tuple old)))))"

definition UpdateJoin :: "JoinState \<Rightarrow> nat list \<Rightarrow> int list \<Rightarrow> JoinState res" where
  "UpdateJoin st order t =
     (if finished st then Inl (RuntimeError ''Already done executing join.'')
      else
        bindR (IsJoinCompleted t (cardinalities st)) (\<lambda>complete.
        if complete then Inr (st\<lparr>finished := True\<rparr>)
        else
          bindR (update_offset (cardinalities st) (offset st) order t) (\<lambda>offs.
          bindR (update_progress (length order) t (root st) order) (\<lambda>tree.
            Inr (st\<lparr>offset := offs, root := tree\<rparr>)))))"

section \<open>The tuple an execution stopped at\<close>

text \<open>
  An execution reports the table it was in and its rows. Unless it ran out of budget, all rows of the tables after
  that one are done; otherwise the tuple before the current one is the last one completed.
\<close>

fun last_decrement :: "int list \<Rightarrow> nat list \<Rightarrow> int list \<Rightarrow> int list res" where
  "last_decrement cards [] t = Inr t"
| "last_decrement cards (table # tables) t =
     bindR (nthR t table) (\<lambda>v.
       if v = 0 then bindR (nthR cards table) (\<lambda>c. last_decrement cards tables (t[table := c - 1]))
       else Inr (t[table := v - 1]))"

text \<open>The last position of the table counter in the order, and the tables behind it; all of them when it is not there.\<close>

definition tables_after :: "nat list \<Rightarrow> int \<Rightarrow> nat list" where
  "tables_after order table_ctr = rev (takeWhile (\<lambda>table. int table \<noteq> table_ctr) (rev order))"

definition ComputeLastCompletedTuple :: "nat list \<Rightarrow> int list \<Rightarrow> int \<Rightarrow> int \<Rightarrow> int list \<Rightarrow> int list res" where
  "ComputeLastCompletedTuple order cards status table_ctr idx_arr =
     bindR (foldR (\<lambda>t table. bindR (nthR idx_arr table) (\<lambda>v. updR t table v)) (replicate (length order) 0) order) (\<lambda>t.
     if status \<noteq> -2 then
       foldR (\<lambda>t table. bindR (nthR cards table) (\<lambda>c. updR t table (c - 1))) t (tables_after order table_ctr)
     else
       bindR (zero_rest (tables_after order table_ctr) t) (\<lambda>t. last_decrement cards (rev order) t))"

end
