(* ===== verification/SkinnerCorrect.thy ===== *)
theory SkinnerCorrect
  imports SkinnerState
begin

text \<open>
  Correctness of the state of a join: join orders as mixed-radix numberings of the tuples, the number of tuples an
  order has completed according to the tree of progress, and the effect of the operations on these numbers.
\<close>

section \<open>Numbering the tuples of an order\<close>

definition tuple_ok :: "int list \<Rightarrow> int list \<Rightarrow> bool" where
  "tuple_ok cs t \<longleftrightarrow> length t = length cs \<and> (\<forall>x<length cs. 0 \<le> t ! x \<and> t ! x < cs ! x)"

definition cards_ok :: "int list \<Rightarrow> bool" where
  "cards_ok cs \<longleftrightarrow> (\<forall>x<length cs. 0 < cs ! x)"

definition valid_order :: "nat \<Rightarrow> nat list \<Rightarrow> bool" where
  "valid_order n order \<longleftrightarrow> distinct order \<and> set order = {..<n}"

fun combos :: "int list \<Rightarrow> nat list \<Rightarrow> int" where
  "combos cs [] = 1"
| "combos cs (x # xs) = cs ! x * combos cs xs"

fun rank :: "int list \<Rightarrow> nat list \<Rightarrow> int list \<Rightarrow> int" where
  "rank cs [] t = 0"
| "rank cs (x # xs) t = t ! x * combos cs xs + rank cs xs t"

definition rows_ok :: "int list \<Rightarrow> nat list \<Rightarrow> int list \<Rightarrow> bool" where
  "rows_ok cs xs t \<longleftrightarrow> (\<forall>x\<in>set xs. 0 \<le> t ! x \<and> t ! x < cs ! x)"

lemma valid_order_length: "valid_order n order \<Longrightarrow> length order = n"
  by (metis card_lessThan distinct_card valid_order_def)

lemma tuple_rows: "tuple_ok cs t \<Longrightarrow> set xs \<subseteq> {..<length cs} \<Longrightarrow> rows_ok cs xs t"
  by (auto simp: tuple_ok_def rows_ok_def)

lemma rows_okD:
  "rows_ok cs (x # xs) t \<Longrightarrow> rows_ok cs xs t" "rows_ok cs (x # xs) t \<Longrightarrow> 0 \<le> t ! x" "rows_ok cs (x # xs) t \<Longrightarrow> t ! x < cs ! x"
  "rows_ok cs (xs @ ys) t \<Longrightarrow> rows_ok cs xs t" "rows_ok cs (xs @ ys) t \<Longrightarrow> rows_ok cs ys t"
  by (simp_all add: rows_ok_def)

lemma combos_append: "combos cs (xs @ ys) = combos cs xs * combos cs ys"
  by (induction xs) simp_all

lemma combos_pos: "rows_ok cs xs t \<Longrightarrow> 0 < combos cs xs"
  by (induction xs) (auto simp: rows_ok_def)

lemma rank_append: "rank cs (xs @ ys) t = rank cs xs t * combos cs ys + rank cs ys t"
  by (induction xs) (simp_all add: combos_append algebra_simps)

lemma rank_bounds: "rows_ok cs xs t \<Longrightarrow> 0 \<le> rank cs xs t \<and> rank cs xs t < combos cs xs"
proof (induction xs)
  case (Cons x xs)
  note IH = Cons.IH [OF rows_okD(1) [OF Cons.prems]] and r = rows_okD(1-3) [OF Cons.prems]
  have "(t ! x + 1) * combos cs xs \<le> cs ! x * combos cs xs" using r(3) IH by (intro mult_right_mono) auto
  moreover have "0 \<le> t ! x * combos cs xs" using r(2) IH by simp
  ultimately show ?case using IH by (simp add: algebra_simps)
qed simp

lemma rank_cong: "(\<And>x. x \<in> set xs \<Longrightarrow> s ! x = t ! x) \<Longrightarrow> rank cs xs s = rank cs xs t"
  by (induction xs) simp_all

lemma rank_update: "x \<notin> set xs \<Longrightarrow> rank cs xs (t[x := v]) = rank cs xs t"
  by (induction xs) auto

text \<open>Numbers with a common prefix of the order compare like the numbers of the prefix.\<close>

lemma mixed_less:
  fixes a b c m r :: int
  assumes "a * m + r < b * m + c" "0 \<le> r" "c \<le> m" "0 < m"
  shows "a \<le> b"
proof (rule ccontr)
  assume "\<not> a \<le> b"
  then have "(b + 1) * m \<le> a * m" using assms(4) by (intro mult_right_mono) auto
  with assms show False by (simp add: algebra_simps)
qed

lemma rank_prefix_less:
  assumes "rank cs (p @ q') s < rank cs p t * combos cs q'" "rows_ok cs (p @ q') s"
  shows "rank cs p s < rank cs p t"
proof (rule ccontr)
  assume "\<not> rank cs p s < rank cs p t"
  then have "rank cs p t * combos cs q' \<le> rank cs p s * combos cs q'"
    using combos_pos [OF rows_okD(5) [OF assms(2)]] by (intro mult_right_mono) auto
  with assms(1) rank_bounds [OF rows_okD(5) [OF assms(2)]] show False by (simp add: rank_append)
qed

lemma prefix_rank_less:
  assumes "rank cs p s < rank cs p t" "rows_ok cs (p @ q) s" "rows_ok cs (p @ q) t"
  shows "rank cs (p @ q) s < rank cs (p @ q) t"
proof -
  have "(rank cs p s + 1) * combos cs q \<le> rank cs p t * combos cs q"
    using assms(1) combos_pos [OF rows_okD(5) [OF assms(2)]] by (intro mult_right_mono) auto
  then show ?thesis
    using rank_bounds [OF rows_okD(5) [OF assms(2)]] rank_bounds [OF rows_okD(5) [OF assms(3)]]
    by (simp add: rank_append algebra_simps)
qed

section \<open>Counting backwards\<close>

text \<open>What one step back does to the rows of the tables of an order.\<close>

definition stepped_back :: "int list \<Rightarrow> nat list \<Rightarrow> int list \<Rightarrow> int list \<Rightarrow> bool" where
  "stepped_back cs xs t t' \<longleftrightarrow> length t' = length t \<and> (\<forall>x. x \<notin> set xs \<longrightarrow> t' ! x = t ! x) \<and> rows_ok cs xs t'
     \<and> rank cs xs t' = (if rank cs xs t = 0 then combos cs xs else rank cs xs t) - 1"

lemma stepped_back_one:
  assumes "rows_ok cs (xs @ [x]) t" "x < length t" "t ! x \<noteq> 0" "x \<notin> set xs"
  shows "stepped_back cs (xs @ [x]) t (t[x := t ! x - 1])"
proof -
  have "rank cs xs (t[x := t ! x - 1]) = rank cs xs t" using assms(4) by (rule rank_update)
  moreover have "0 < rank cs (xs @ [x]) t"
  proof -
    have "0 \<le> rank cs xs t * cs ! x" using rank_bounds [OF rows_okD(4) [OF assms(1)]] assms(1) by (auto simp: rows_ok_def)
    moreover have "0 < t ! x" using assms(1,3) by (auto simp: rows_ok_def)
    ultimately show ?thesis by (simp add: rank_append)
  qed
  moreover have "rows_ok cs (xs @ [x]) (t[x := t ! x - 1])"
    using assms by (auto simp: rows_ok_def nth_list_update)
  ultimately show ?thesis using assms(2) by (auto simp: stepped_back_def rank_append nth_list_update)
qed

lemma stepped_back_carry:
  assumes t: "rows_ok cs (xs @ [x]) t" "x < length t" "t ! x = 0" "x \<notin> set xs"
    and s: "stepped_back cs xs (t[x := cs ! x - 1]) t'"
  shows "stepped_back cs (xs @ [x]) t t'"
proof -
  have x: "t' ! x = cs ! x - 1" and c: "0 < cs ! x" using s t by (auto simp: stepped_back_def rows_ok_def)
  have eq: "rank cs xs (t[x := cs ! x - 1]) = rank cs xs t" using t(4) by (rule rank_update)
  have r: "rank cs xs t' = (if rank cs xs t = 0 then combos cs xs else rank cs xs t) - 1"
    using s by (simp add: stepped_back_def eq)
  have zero: "rank cs (xs @ [x]) t = 0 \<longleftrightarrow> rank cs xs t = 0" using t(3) c by (simp add: rank_append)
  have "rank cs (xs @ [x]) t' = (if rank cs (xs @ [x]) t = 0 then combos cs (xs @ [x]) else rank cs (xs @ [x]) t) - 1"
    unfolding zero by (simp add: rank_append combos_append r x t(3) algebra_simps)
  moreover have "rows_ok cs (xs @ [x]) t'" using s x c by (auto simp: stepped_back_def rows_ok_def)
  moreover have "t' ! y = t ! y" if "y \<notin> set (xs @ [x])" for y using s that by (auto simp: stepped_back_def)
  ultimately show ?thesis using s by (simp add: stepped_back_def)
qed

lemma last_decrement_back:
  assumes "rows_ok cs xs t" "distinct xs" "set xs \<subseteq> {..<length t}" "length t = length cs"
  shows "\<exists>t'. last_decrement cs (rev xs) t = Inr t' \<and> stepped_back cs xs t t'"
  using assms
proof (induction xs arbitrary: t rule: rev_induct)
  case Nil
  then show ?case by (simp add: stepped_back_def rows_ok_def)
next
  case (snoc x xs)
  then have x: "x < length t" "x \<notin> set xs" by auto
  show ?case
  proof (cases "t ! x = 0")
    case False
    then show ?thesis using stepped_back_one [OF snoc.prems(1) x(1) False x(2)] x by simp
  next
    case True
    let ?t = "t[x := cs ! x - 1]"
    have "rows_ok cs xs ?t" using snoc.prems(1) x by (auto simp: rows_ok_def nth_list_update)
    then obtain t' where "last_decrement cs (rev xs) ?t = Inr t'" "stepped_back cs xs ?t t'"
      using snoc.IH [of ?t] snoc.prems by auto
    then show ?thesis using True x snoc.prems stepped_back_carry [OF snoc.prems(1) x(1) True x(2)] by auto
  qed
qed

lemma resume_decrement_back:
  assumes "rows_ok cs xs t" "distinct xs" "set xs \<subseteq> {..<length t}" "length t = length cs" "xs \<noteq> []"
  shows "if rank cs xs t = 0 then resume_decrement cs (rev xs) t = Inr None
    else \<exists>t'. resume_decrement cs (rev xs) t = Inr (Some t') \<and> stepped_back cs xs t t'"
  using assms
proof (induction xs arbitrary: t rule: rev_induct)
  case (snoc x xs)
  then have x: "x < length t" "x \<notin> set xs" by auto
  show ?case
  proof (cases "t ! x = 0")
    case False
    note bk = stepped_back_one [OF snoc.prems(1) x(1) False x(2)]
    have "rank cs (xs @ [x]) t \<noteq> 0"
      using False snoc.prems(1) rank_bounds [OF rows_okD(4) [OF snoc.prems(1)]]
      by (auto simp: rank_append rows_ok_def add_nonneg_eq_0_iff)
    then show ?thesis using False bk x by simp
  next
    case True
    let ?t = "t[x := cs ! x - 1]"
    have eq: "rank cs xs ?t = rank cs xs t" using x(2) by (rule rank_update)
    have zero: "rank cs (xs @ [x]) t = 0 \<longleftrightarrow> rank cs xs t = 0" using True snoc.prems(1) by (auto simp: rank_append rows_ok_def)
    show ?thesis
    proof (cases "xs = []")
      case False
      have "rows_ok cs xs ?t" using snoc.prems(1) x by (auto simp: rows_ok_def nth_list_update)
      then have "if rank cs xs t = 0 then resume_decrement cs (rev xs) ?t = Inr None
          else \<exists>t'. resume_decrement cs (rev xs) ?t = Inr (Some t') \<and> stepped_back cs xs ?t t'"
        using snoc.IH [of ?t] snoc.prems False by (simp add: eq)
      then show ?thesis
        using True x snoc.prems False stepped_back_carry [OF snoc.prems(1) x(1) True x(2)] unfolding zero by (auto split: if_splits)
    qed (use True x in simp)
  qed
qed simp

section \<open>The number of tuples an order has completed\<close>

fun completed :: "int list \<Rightarrow> ProgressTree \<Rightarrow> nat list \<Rightarrow> int" where
  "completed cs tree [] = 1"
| "completed cs tree (x # xs) =
     (case child_nodes tree ! x of
        None \<Rightarrow> 0
      | Some node \<Rightarrow> last_completed_tuple node * combos cs xs + completed cs node xs)"

inductive tree_ok :: "int list \<Rightarrow> ProgressTree \<Rightarrow> bool" for cs where
  tree_okI: "length ch = length cs \<Longrightarrow>
    (\<And>x node. x < length cs \<Longrightarrow> ch ! x = Some node \<Longrightarrow>
       0 \<le> last_completed_tuple node \<and> last_completed_tuple node < cs ! x \<and> tree_ok cs node) \<Longrightarrow> tree_ok cs (PTree v ch)"

lemma tree_okD:
  assumes "tree_ok cs tree"
  shows "length (child_nodes tree) = length cs"
    "x < length cs \<Longrightarrow> child_nodes tree ! x = Some node \<Longrightarrow> 0 \<le> last_completed_tuple node"
    "x < length cs \<Longrightarrow> child_nodes tree ! x = Some node \<Longrightarrow> last_completed_tuple node < cs ! x"
    "x < length cs \<Longrightarrow> child_nodes tree ! x = Some node \<Longrightarrow> tree_ok cs node"
  using assms by (auto elim: tree_ok.cases)

lemma tree_ok_empty: "tree_ok cs (PTree v (replicate (length cs) None))"
  by (rule tree_okI) simp_all

lemma tree_ok_update:
  assumes "tree_ok cs tree" "tree_ok cs node" "0 \<le> last_completed_tuple node" "last_completed_tuple node < cs ! x"
  shows "tree_ok cs (PTree v ((child_nodes tree)[x := Some node]))"
proof (rule tree_okI)
  show "length ((child_nodes tree)[x := Some node]) = length cs" by (simp add: tree_okD(1) [OF assms(1)])
  fix y other
  assume "y < length cs" "(child_nodes tree)[x := Some node] ! y = Some other"
  then show "0 \<le> last_completed_tuple other \<and> last_completed_tuple other < cs ! y \<and> tree_ok cs other"
    using assms tree_okD [OF assms(1)] by (cases "y = x") auto
qed

lemma cards_combos_pos: "cards_ok cs \<Longrightarrow> set xs \<subseteq> {..<length cs} \<Longrightarrow> 0 < combos cs xs"
  by (induction xs) (auto simp: cards_ok_def)

lemma completed_bounds:
  assumes "tree_ok cs tree" "set xs \<subseteq> {..<length cs}" "cards_ok cs"
  shows "0 \<le> completed cs tree xs \<and> completed cs tree xs \<le> combos cs xs"
  using assms(1,2)
proof (induction xs arbitrary: tree)
  case (Cons x xs)
  have x: "x < length cs" and pos: "0 < combos cs xs" using Cons.prems(2) by (auto intro: cards_combos_pos [OF assms(3)])
  show ?case
  proof (cases "child_nodes tree ! x")
    case (Some node)
    note ok = tree_okD [OF Cons.prems(1)]
    have IH: "0 \<le> completed cs node xs \<and> completed cs node xs \<le> combos cs xs"
      using Cons.IH [OF ok(4) [OF x Some]] Cons.prems(2) by simp
    have "(last_completed_tuple node + 1) * combos cs xs \<le> cs ! x * combos cs xs"
      using ok(3) [OF x Some] pos by (intro mult_right_mono) auto
    then show ?thesis using IH ok(2) [OF x Some] pos Some by (simp add: algebra_simps)
  qed (use assms(3) x pos in \<open>simp add: cards_ok_def less_imp_le\<close>)
qed simp

section \<open>Where an order resumes\<close>

lemma zero_rest_ok:
  assumes "set xs \<subseteq> {..<length t}"
  shows "\<exists>t'. zero_rest xs t = Inr t' \<and> length t' = length t \<and> (\<forall>x. t' ! x = (if x \<in> set xs then 0 else t ! x))"
proof -
  have "\<exists>t'. foldR (\<lambda>t table. updR t table 0) t xs = Inr t' \<and> length t' = length t \<and> (\<forall>x. t' ! x = (if x \<in> set xs then 0 else t ! x))"
    if "set xs \<subseteq> {..<length t}" for xs and t :: "int list"
    using that
  proof (induction xs arbitrary: t)
    case (Cons x xs)
    then show ?case using Cons.IH [of "t[x := 0]"] by (fastforce simp: nth_list_update)
  qed simp
  then show ?thesis using assms by (simp add: zero_rest_def)
qed

lemma rank_zero: "(\<And>x. x \<in> set xs \<Longrightarrow> t ! x = 0) \<Longrightarrow> rank cs xs t = 0"
  by (induction xs) simp_all

text \<open>The tuple returned is the last one among the completed ones; none is returned when there is none.\<close>

lemma resume_walk_count:
  assumes "tree_ok cs tree" "cards_ok cs"
    and "order = p @ q" "valid_order (length cs) order" "length t = length cs" "rows_ok cs p t" "is_root = (p = [])"
  shows "let n = rank cs p t * combos cs q + completed cs tree q in
    if n = 0 \<and> order \<noteq> [] then resume_walk cs order is_root tree t q = Inr None
    else \<exists>t'. resume_walk cs order is_root tree t q = Inr (Some t') \<and> length t' = length cs \<and> rows_ok cs order t' \<and> rank cs order t' + 1 = n"
  using assms(1,3-7)
proof (induction q arbitrary: p tree t is_root)
  case Nil
  then have "0 \<le> rank cs order t" using rank_bounds by auto
  then show ?case using Nil.prems by (auto simp: Let_def)
next
  case (Cons x q)
  have vo: "distinct order" "set order = {..<length cs}" using Cons.prems(3) by (auto simp: valid_order_def)
  have x: "x < length cs" "x \<notin> set p" using vo Cons.prems(2) by auto
  have ch: "nthR (child_nodes tree) x = Inr (child_nodes tree ! x)" using x tree_okD(1) [OF Cons.prems(1)] by simp
  show ?case
  proof (cases "child_nodes tree ! x")
    case (Some node)
    note ok = tree_okD [OF Cons.prems(1)]
    let ?t = "t[x := last_completed_tuple node]"
    have rows: "rows_ok cs (p @ [x]) ?t"
      using Cons.prems(5) x ok(2,3) [OF x(1) Some] Cons.prems(4) by (auto simp: rows_ok_def nth_list_update)
    have r: "rank cs (p @ [x]) ?t * combos cs q + completed cs node q = rank cs p t * combos cs (x # q) + completed cs tree (x # q)"
      using x Cons.prems(4) by (simp add: rank_append rank_update Some algebra_simps)
    have step: "resume_walk cs order is_root tree t (x # q) = resume_walk cs order False node ?t q"
      using x Cons.prems(4) by (simp add: ch Some)
    show ?thesis
      using Cons.IH [OF ok(4) [OF x(1) Some], of "p @ [x]" ?t False] Cons.prems rows unfolding step r by simp
  next
    case None
    show ?thesis
    proof (cases "p = []")
      case True
      then show ?thesis using Cons.prems by (simp add: ch None)
    next
      case False
      obtain t1 where t1: "zero_rest (x # q) t = Inr t1" "length t1 = length t" "\<And>y. t1 ! y = (if y \<in> set (x # q) then 0 else t ! y)"
        using zero_rest_ok [of "x # q" t] vo Cons.prems(2,4) by auto
      have dis: "set p \<inter> set (x # q) = {}" using vo Cons.prems(2) by auto
      have rp: "rank cs p t1 = rank cs p t" by (rule rank_cong) (use dis t1(3) in auto)
      have rq: "rank cs (x # q) t1 = 0" by (rule rank_zero) (use t1(3) in auto)
      have r: "rank cs order t1 = rank cs p t * combos cs (x # q)" unfolding Cons.prems(2) by (simp only: rank_append rp rq add_0_right)
      have "rows_ok cs order t1"
        using Cons.prems(2,5) vo assms(2) dis by (auto simp: rows_ok_def cards_ok_def t1(3))
      from resume_decrement_back [OF this vo(1)] vo(2) t1(2) Cons.prems(2,4)
      have bk: "if rank cs order t1 = 0 then resume_decrement cs (rev order) t1 = Inr None
        else \<exists>t'. resume_decrement cs (rev order) t1 = Inr (Some t') \<and> stepped_back cs order t1 t'" by fastforce
      have step: "resume_walk cs order is_root tree t (x # q) = resume_decrement cs (rev order) t1"
        using False Cons.prems(6) by (simp add: ch None t1(1))
      show ?thesis using bk unfolding step r Let_def
        by (auto simp: None stepped_back_def t1(2) Cons.prems(4) r split: if_splits)
    qed
  qed
qed

section \<open>Recording progress\<close>

text \<open>
  What an order is credited with when another order was executed up to a tuple: all tuples before the first one that
  has the rows of the tuple in the tables of the common prefix.
\<close>

definition credited :: "int list \<Rightarrow> int list \<Rightarrow> nat list \<Rightarrow> nat list \<Rightarrow> int \<Rightarrow> bool" where
  "credited cs t xs ys k \<longleftrightarrow>
     (\<exists>p q q'. xs = p @ q \<and> ys = p @ q' \<and> k = rank cs p t * combos cs q' + (if q' = [] then 1 else 0))"

lemma credited_Nil: "credited cs t xs [] 1"
  by (simp add: credited_def)

lemma credited_diff: "credited cs t xs (y # ys) 0"
  unfolding credited_def by (rule exI [of _ "[]"]) simp

lemma credited_Cons:
  assumes "credited cs t xs ys k" shows "credited cs t (x # xs) (x # ys) (t ! x * combos cs ys + k)"
proof -
  from assms obtain p q q' where "xs = p @ q" "ys = p @ q'" "k = rank cs p t * combos cs q' + (if q' = [] then 1 else 0)"
    by (auto simp: credited_def)
  then show ?thesis unfolding credited_def
    by (intro exI [of _ "x # p"] exI [of _ q] exI [of _ q']) (simp add: combos_append algebra_simps)
qed

lemma set_chain_ok:
  assumes "tree_ok cs tree" "length t = length cs" "set xs \<subseteq> {..<length cs}" "rows_ok cs xs t"
  shows "\<exists>tree'. set_chain (length cs) t tree xs = Inr tree' \<and> tree_ok cs tree' \<and> last_completed_tuple tree' = last_completed_tuple tree"
  using assms(1,3,4)
proof (induction xs arbitrary: tree)
  case (Cons x xs)
  then have x: "x < length cs" and xs: "set xs \<subseteq> {..<length cs}" by auto
  obtain node where node: "set_chain (length cs) t (ProgressTreeNew (length cs) (t ! x)) xs = Inr node" "tree_ok cs node"
      "last_completed_tuple node = t ! x"
    using Cons.IH [OF _ xs rows_okD(1) [OF Cons.prems(3)], of "ProgressTreeNew (length cs) (t ! x)"] tree_ok_empty
    by (auto simp: ProgressTreeNew_def)
  then show ?case
    using x assms(2) tree_okD(1) [OF Cons.prems(1)] tree_ok_update [OF Cons.prems(1) node(2)] rows_okD(2,3) [OF Cons.prems(3)]
    by simp
qed simp

lemma chain_count:
  assumes "set_chain (length cs) t tree xs = Inr tree'" "child_nodes tree = replicate (length cs) None" "length t = length cs"
    "set xs \<subseteq> {..<length cs}" "set ys \<subseteq> {..<length cs}"
  shows "credited cs t xs ys (completed cs tree' ys)"
  using assms(1,2,4,5)
proof (induction xs arbitrary: tree tree' ys)
  case Nil
  then show ?case by (cases ys) (auto simp: credited_Nil intro: credited_diff)
next
  case (Cons x xs)
  from Cons.prems(1) obtain node where node: "set_chain (length cs) t (ProgressTreeNew (length cs) (t ! x)) xs = Inr node"
      and x: "x < length cs" and tree': "tree' = PTree (last_completed_tuple tree) ((child_nodes tree)[x := Some node])"
    using Cons.prems(2) assms(3) by (auto simp: bindR_Inr_iff nthR_Inr_iff updR_Inr_iff)
  have last: "last_completed_tuple node = t ! x"
    using node by (cases xs) (auto simp: bindR_Inr_iff ProgressTreeNew_def)
  show ?case
  proof (cases ys)
    case (Cons y zs)
    show ?thesis
    proof (cases "y = x")
      case True
      have "credited cs t xs zs (completed cs node zs)"
        using Cons.IH [OF node] Cons.prems(3,4) Cons by (simp add: ProgressTreeNew_def)
      from credited_Cons [OF this, of x] show ?thesis using True x Cons Cons.prems(2) last by (simp add: tree')
    next
      case False
      then show ?thesis using Cons Cons.prems(2,4) by (simp add: tree' credited_diff)
    qed
  qed (simp add: credited_Nil)
qed

text \<open>The effect of an update on one branch of the tree.\<close>

definition advanced :: "int list \<Rightarrow> int list \<Rightarrow> nat list \<Rightarrow> ProgressTree \<Rightarrow> ProgressTree \<Rightarrow> bool" where
  "advanced cs t xs tree tree' \<longleftrightarrow>
     (\<forall>ys. set ys \<subseteq> {..<length cs} \<longrightarrow>
        completed cs tree ys \<le> completed cs tree' ys
        \<and> (completed cs tree' ys = completed cs tree ys \<or> credited cs t xs ys (completed cs tree' ys)))"

lemma advanced_child:
  assumes x: "x < length (child_nodes tree)" "last_completed_tuple node' = t ! x"
    and less: "\<And>zs. set zs \<subseteq> {..<length cs} \<Longrightarrow>
      completed cs tree (x # zs) \<le> t ! x * combos cs zs + completed cs node' zs"
    and credit: "\<And>zs. set zs \<subseteq> {..<length cs} \<Longrightarrow>
      completed cs tree (x # zs) = t ! x * combos cs zs + completed cs node' zs \<or> credited cs t xs zs (completed cs node' zs)"
  shows "advanced cs t (x # xs) tree (PTree v ((child_nodes tree)[x := Some node']))"
  unfolding advanced_def
proof (intro allI impI)
  fix ys :: "nat list"
  let ?tree = "PTree v ((child_nodes tree)[x := Some node'])"
  assume ys: "set ys \<subseteq> {..<length cs}"
  show "completed cs tree ys \<le> completed cs ?tree ys
      \<and> (completed cs ?tree ys = completed cs tree ys \<or> credited cs t (x # xs) ys (completed cs ?tree ys))"
  proof (cases ys)
    case (Cons y zs)
    show ?thesis
    proof (cases "y = x")
      case True
      then show ?thesis using x less [of zs] credit [of zs] ys Cons
        by (auto intro: credited_Cons simp del: completed.simps(2) simp: completed.simps(2) [of _ ?tree])
    qed (use Cons in simp)
  qed simp
qed

lemma chain_self:
  assumes "set_chain (length cs) t tree xs = Inr tree'" "length t = length cs" "tree_ok cs tree"
  shows "completed cs tree' xs = rank cs xs t + 1"
  using assms(1,3)
proof (induction xs arbitrary: tree tree')
  case (Cons x xs)
  then obtain node where node: "set_chain (length cs) t (ProgressTreeNew (length cs) (t ! x)) xs = Inr node"
      and x: "x < length cs" and tree': "tree' = PTree (last_completed_tuple tree) ((child_nodes tree)[x := Some node])"
    using tree_okD(1) [OF Cons.prems(2)] assms(2) by (auto simp: bindR_Inr_iff nthR_Inr_iff updR_Inr_iff)
  have "last_completed_tuple node = t ! x" using node by (cases xs) (auto simp: bindR_Inr_iff ProgressTreeNew_def)
  moreover have "completed cs node xs = rank cs xs t + 1"
    using Cons.IH [OF node] tree_ok_empty by (simp add: ProgressTreeNew_def)
  ultimately show ?case using x tree_okD(1) [OF Cons.prems(2)] by (simp add: tree')
qed simp

text \<open>A branch that is started afresh at a later row.\<close>

lemma fresh_branch:
  assumes chain: "set_chain (length cs) t (PTree (t ! x) (replicate (length cs) None)) xs = Inr node'"
    and ok: "tree_ok cs tree" "length t = length cs" "set (x # xs) \<subseteq> {..<length cs}" "rows_ok cs (x # xs) t"
      "cards_ok cs"
    and less: "\<And>zs. set zs \<subseteq> {..<length cs} \<Longrightarrow> completed cs tree (x # zs) \<le> t ! x * combos cs zs"
    and tree': "tree' = PTree (last_completed_tuple tree) ((child_nodes tree)[x := Some node'])"
  shows "tree_ok cs tree' \<and> last_completed_tuple tree' = last_completed_tuple tree \<and> advanced cs t (x # xs) tree tree'
    \<and> completed cs tree' (x # xs) = rank cs (x # xs) t + 1"
proof -
  have x: "x < length (child_nodes tree)" and xs: "set xs \<subseteq> {..<length cs}" using ok(3) tree_okD(1) [OF ok(1)] by auto
  have node': "tree_ok cs node'" "last_completed_tuple node' = t ! x"
    using set_chain_ok [OF tree_ok_empty ok(2) xs rows_okD(1) [OF ok(4)], of "t ! x"] chain by auto
  have self: "completed cs node' xs = rank cs xs t + 1" by (rule chain_self [OF chain ok(2) tree_ok_empty])
  have "advanced cs t (x # xs) tree tree'" unfolding tree'
  proof (rule advanced_child [OF x node'(2)])
    fix zs :: "nat list"
    assume zs: "set zs \<subseteq> {..<length cs}"
    show "completed cs tree (x # zs) \<le> t ! x * combos cs zs + completed cs node' zs"
      using less [OF zs] completed_bounds [OF node'(1) zs ok(5)] by linarith
    show "completed cs tree (x # zs) = t ! x * combos cs zs + completed cs node' zs \<or> credited cs t xs zs (completed cs node' zs)"
      using chain_count [OF chain _ ok(2) xs zs] by simp
  qed
  moreover have "tree_ok cs tree'"
    unfolding tree' by (rule tree_ok_update [OF ok(1) node'(1)]) (use rows_okD(2,3) [OF ok(4)] node'(2) in auto)
  ultimately show ?thesis using self x node'(2) by (simp add: tree')
qed

lemma same_branch:
  assumes ok: "tree_ok cs tree" "tree_ok cs node'" "length t = length cs" "x < length cs" "child_nodes tree ! x = Some node"
      "last_completed_tuple node = t ! x" "last_completed_tuple node' = t ! x"
    and adv: "advanced cs t xs node node'" "completed cs node' xs = rank cs xs t + 1"
    and tree': "tree' = PTree (last_completed_tuple tree) ((child_nodes tree)[x := Some node'])"
  shows "tree_ok cs tree' \<and> last_completed_tuple tree' = last_completed_tuple tree \<and> advanced cs t (x # xs) tree tree'
    \<and> completed cs tree' (x # xs) = rank cs (x # xs) t + 1"
proof -
  have x: "x < length (child_nodes tree)" using ok(4) tree_okD(1) [OF ok(1)] by simp
  have "advanced cs t (x # xs) tree tree'" unfolding tree'
    by (rule advanced_child [OF x ok(7)]) (use adv(1) ok(5,6) in \<open>auto simp: advanced_def\<close>)
  moreover have "tree_ok cs tree'" unfolding tree'
    by (rule tree_ok_update [OF ok(1,2)]) (use tree_okD(2,3) [OF ok(1,4,5)] ok(6,7) in auto)
  ultimately show ?thesis using adv(2) x ok(7) by (simp add: tree')
qed

lemma update_progress_advances:
  assumes "update_progress (length cs) t tree xs = Inr tree'" "tree_ok cs tree" "length t = length cs"
    "set xs \<subseteq> {..<length cs}" "rows_ok cs xs t" "cards_ok cs"
  shows "tree_ok cs tree' \<and> last_completed_tuple tree' = last_completed_tuple tree \<and> advanced cs t xs tree tree'
    \<and> completed cs tree' xs = rank cs xs t + 1"
  using assms(1,2,4,5)
proof (induction xs arbitrary: tree tree')
  case Nil
  then show ?case by (simp add: advanced_def)
next
  case (Cons x xs)
  have x: "x < length cs" and xs: "set xs \<subseteq> {..<length cs}" using Cons.prems(3) by auto
  note ok = tree_okD [OF Cons.prems(2)] and fresh = fresh_branch [OF _ Cons.prems(2) assms(3) Cons.prems(3,4) assms(6)]
  show ?case
  proof (cases "child_nodes tree ! x")
    case None
    then obtain node' where "set_chain (length cs) t (PTree (t ! x) (replicate (length cs) None)) xs = Inr node'"
        "tree' = PTree (last_completed_tuple tree) ((child_nodes tree)[x := Some node'])"
      using Cons.prems(1) x assms(3) ok(1) by (auto simp: bindR_Inr_iff updR_Inr_iff ProgressTreeNew_def)
    moreover have "completed cs tree (x # zs) \<le> t ! x * combos cs zs" if "set zs \<subseteq> {..<length cs}" for zs
      using None rows_okD(2) [OF Cons.prems(4)] cards_combos_pos [OF assms(6) that] by simp
    ultimately show ?thesis by (intro fresh) assumption+
  next
    case (Some node)
    let ?v = "last_completed_tuple node"
    obtain node' where nv: "?v \<le> t ! x"
        and node': "(if t ! x > ?v then set_chain (length cs) t (reset_children (t ! x) node) xs else update_progress (length cs) t node xs) = Inr node'"
        and tree': "tree' = PTree (last_completed_tuple tree) ((child_nodes tree)[x := Some node'])"
      using Cons.prems(1) x assms(3) ok(1) Some by (auto simp: bindR_Inr_iff updR_Inr_iff split: if_splits)
    show ?thesis
    proof (cases "t ! x > ?v")
      case True
      have "completed cs tree (x # zs) \<le> t ! x * combos cs zs" if zs: "set zs \<subseteq> {..<length cs}" for zs
      proof -
        have "(?v + 1) * combos cs zs \<le> t ! x * combos cs zs"
          using True cards_combos_pos [OF assms(6) zs] by (intro mult_right_mono) auto
        then show ?thesis using completed_bounds [OF ok(4) [OF x Some] zs assms(6)] Some by (simp add: algebra_simps)
      qed
      then show ?thesis
        by (intro fresh [OF _ _ tree']) (use node' True tree_okD(1) [OF ok(4) [OF x Some]] in \<open>simp add: reset_children_def\<close>)
    next
      case False
      then have v: "?v = t ! x" and up: "update_progress (length cs) t node xs = Inr node'" using nv node' by auto
      note IH = Cons.IH [OF up ok(4) [OF x Some] xs rows_okD(1) [OF Cons.prems(4)]]
      show ?thesis
        by (rule same_branch [OF Cons.prems(2) _ assms(3) x Some v _ _ _ tree']) (use IH v in auto)
    qed
  qed
qed

text \<open>An execution that completes at least one more tuple of its order is accepted.\<close>

lemma update_progress_total:
  assumes "completed cs tree xs \<le> rank cs xs t" "tree_ok cs tree" "length t = length cs"
    "set xs \<subseteq> {..<length cs}" "rows_ok cs xs t" "cards_ok cs"
  shows "\<exists>tree'. update_progress (length cs) t tree xs = Inr tree'"
  using assms(1,2,4,5)
proof (induction xs arbitrary: tree)
  case (Cons x xs)
  have x: "x < length cs" and xs: "set xs \<subseteq> {..<length cs}" using Cons.prems(3) by auto
  note ok = tree_okD [OF Cons.prems(2)] and rows = rows_okD(1) [OF Cons.prems(4)]
  have len: "x < length (child_nodes tree)" "x < length t" using x ok(1) assms(3) by auto
  show ?case
  proof (cases "child_nodes tree ! x")
    case None
    then show ?thesis using set_chain_ok [OF Cons.prems(2) assms(3) Cons.prems(3,4)] len by auto
  next
    case (Some node)
    let ?v = "last_completed_tuple node"
    note nb = completed_bounds [OF ok(4) [OF x Some] xs assms(6)] and rb = rank_bounds [OF rows]
    have v: "?v \<le> t ! x"
      by (rule mixed_less [of _ "combos cs xs" "completed cs node xs" _ "rank cs xs t + 1"])
        (use Cons.prems(1) Some nb rb cards_combos_pos [OF assms(6) xs] in auto)
    have "\<exists>node'. (if t ! x > ?v then set_chain (length cs) t (reset_children (t ! x) node) xs
        else update_progress (length cs) t node xs) = Inr node'"
    proof (cases "t ! x > ?v")
      case True
      then show ?thesis
        using set_chain_ok [OF tree_ok_empty assms(3) xs rows] tree_okD(1) [OF ok(4) [OF x Some]] by (auto simp: reset_children_def)
    next
      case False
      then have "completed cs node xs \<le> rank cs xs t" using v Cons.prems(1) Some by auto
      then show ?thesis using Cons.IH [OF _ ok(4) [OF x Some] xs rows] False by simp
    qed
    then show ?thesis using len Some v by auto
  qed
qed simp

end
