(* ===== verification/SkinnerSound.thy ===== *)
theory SkinnerSound
  imports SkinnerCorrect
begin

text \<open>
  Switching between join orders loses no tuple: whatever orders are executed and wherever each execution stops, every
  tuple that an order, an offset or the end of the join counts as completed was processed by some execution.
\<close>

section \<open>Operations on well-formed states\<close>

definition join_ok :: "int list \<Rightarrow> JoinState \<Rightarrow> bool" where
  "join_ok cs st \<longleftrightarrow> cs \<noteq> [] \<and> cards_ok cs \<and> cardinalities st = cs \<and> tree_ok cs (root st) \<and> length (offset st) = length cs"

lemma join_okD:
  assumes "join_ok cs st"
  shows "cs \<noteq> []" "cards_ok cs" "cardinalities st = cs" "tree_ok cs (root st)" "length (offset st) = length cs"
  using assms by (simp_all add: join_ok_def)

lemma valid_orderD:
  assumes "valid_order (length cs) order" "tuple_ok cs t"
  shows "length order = length cs" "set order \<subseteq> {..<length cs}" "rows_ok cs order t" "length t = length cs" "distinct order"
  using assms by (auto simp: valid_order_def tuple_ok_def rows_ok_def intro: valid_order_length [unfolded valid_order_def])

lemma at_last_rows:
  assumes "set xs \<subseteq> {..<length cs}" "length t = length cs"
  shows "foldR (at_last_row t cs) acc xs = Inr (acc \<and> (\<forall>x\<in>set xs. t ! x = cs ! x - 1))"
  using assms(1) by (induction xs arbitrary: acc) (auto simp: at_last_row_def assms(2))

lemma IsJoinCompleted_iff:
  "length t = length cs \<Longrightarrow> IsJoinCompleted t cs = Inr (\<forall>x<length cs. t ! x = cs ! x - 1)"
  unfolding IsJoinCompleted_def by (subst at_last_rows) auto

lemma update_offset_ok:
  assumes "valid_order (length cs) (x # xs)" "tuple_ok cs t" "length offs = length cs"
  shows "update_offset cs offs (x # xs) t =
    Inr (offs[x := max (if \<forall>y\<in>set xs. t ! y = cs ! y - 1 then t ! x else t ! x - 1) (offs ! x)])"
proof -
  have "x < length cs" "set xs \<subseteq> {..<length cs}" "length t = length cs" using valid_orderD [OF assms(1,2)] by auto
  then show ?thesis using assms(3) by (simp add: update_offset_def at_last_rows)
qed

lemma resume_point:
  assumes "join_ok cs st" "valid_order (length cs) order"
  shows "if completed cs (root st) order = 0 then GetLastCompletedTupleIdx st order = Inr None
    else \<exists>t. GetLastCompletedTupleIdx st order = Inr (Some t) \<and> tuple_ok cs t \<and> rank cs order t + 1 = completed cs (root st) order"
proof -
  note j = join_okD [OF assms(1)]
  have len: "length order = length cs" by (rule valid_order_length [OF assms(2)])
  have ne: "order \<noteq> []" using len j(1) by auto
  have rows: "tuple_ok cs t" if "length t = length cs" "rows_ok cs order t" for t
    using that assms(2) by (auto simp: tuple_ok_def rows_ok_def valid_order_def)
  from resume_walk_count [OF j(4,2), of order "[]" order "replicate (length order) 0" True] assms(2) len
  show ?thesis using ne rows by (auto simp: GetLastCompletedTupleIdx_def j(3) rows_ok_def Let_def split: if_splits)
qed

text \<open>The last tuple of an order, and the tuples up to a row of its first table.\<close>

lemma rank_last: "(\<And>x. x \<in> set xs \<Longrightarrow> t ! x = cs ! x - 1) \<Longrightarrow> rank cs xs t = combos cs xs - 1"
proof (induction xs)
  case (Cons x xs)
  then show ?case by (simp add: left_diff_distrib)
qed simp

lemma rank_inj:
  assumes "rank cs xs s = rank cs xs t" "rows_ok cs xs s" "rows_ok cs xs t" "x \<in> set xs"
  shows "s ! x = t ! x"
  using assms
proof (induction xs)
  case (Cons y ys)
  note b = rank_bounds [OF rows_okD(1) [OF Cons.prems(2)]] rank_bounds [OF rows_okD(1) [OF Cons.prems(3)]]
  have "s ! y \<le> t ! y" by (rule mixed_less [of _ "combos cs ys" "rank cs ys s" _ "rank cs ys t + 1"]) (use Cons.prems(1) b in auto)
  moreover have "t ! y \<le> s ! y" by (rule mixed_less [of _ "combos cs ys" "rank cs ys t" _ "rank cs ys s + 1"]) (use Cons.prems(1) b in auto)
  ultimately have y: "s ! y = t ! y" by simp
  then have "rank cs ys s = rank cs ys t" using Cons.prems(1) by simp
  then show ?case using Cons.IH [OF _ rows_okD(1) [OF Cons.prems(2)] rows_okD(1) [OF Cons.prems(3)]] Cons.prems(4) y by auto
qed simp

lemma tuple_rank_inj:
  assumes "rank cs order s = rank cs order t" "valid_order (length cs) order" "tuple_ok cs s" "tuple_ok cs t"
  shows "s = t"
proof (rule nth_equalityI)
  show "length s = length t" using assms(3,4) by (simp add: tuple_ok_def)
  show "s ! x = t ! x" if "x < length s" for x
    by (rule rank_inj [OF assms(1) valid_orderD(3) [OF assms(2,3)] valid_orderD(3) [OF assms(2,4)]])
      (use that assms(2,3) in \<open>simp add: valid_order_def tuple_ok_def\<close>)
qed

lemma first_row_le:
  assumes "rows_ok cs (x # xs) s" "rows_ok cs (x # xs) t" "s ! x < t ! x \<or> s ! x = t ! x \<and> (\<forall>y\<in>set xs. t ! y = cs ! y - 1)"
  shows "rank cs (x # xs) s \<le> rank cs (x # xs) t"
  using assms(3)
proof
  assume "s ! x < t ! x"
  then have "rank cs [x] s < rank cs [x] t" by simp
  from prefix_rank_less [OF this, of xs] show ?thesis using assms(1,2) by simp
next
  assume "s ! x = t ! x \<and> (\<forall>y\<in>set xs. t ! y = cs ! y - 1)"
  then show ?thesis using rank_last [of xs t cs] rank_bounds [OF rows_okD(1) [OF assms(1)]] by auto
qed

lemma credited_done:
  assumes "credited cs t order order' k" "rank cs order' s < k"
    and "valid_order (length cs) order" "valid_order (length cs) order'" "tuple_ok cs s" "tuple_ok cs t"
  shows "rank cs order s \<le> rank cs order t"
proof -
  from assms(1) obtain p q q' where o: "order = p @ q" "order' = p @ q'"
    and k: "k = rank cs p t * combos cs q' + (if q' = [] then 1 else 0)" by (auto simp: credited_def)
  have len: "length order = length order'" using assms(3,4) by (simp add: valid_order_length)
  note so = valid_orderD [OF assms(3,5)] and to = valid_orderD [OF assms(3,6)] and so' = valid_orderD [OF assms(4,5)]
  show ?thesis
  proof (cases "q' = []")
    case True
    then have "q = []" using o len by simp
    then show ?thesis using assms(2) o k True by simp
  next
    case False
    then have "rank cs p s < rank cs p t" using assms(2) so'(3) by (intro rank_prefix_less [of _ _ q']) (simp_all add: o k)
    then have "rank cs (p @ q) s < rank cs (p @ q) t" using so(3) to(3) by (intro prefix_rank_less) (simp_all add: o)
    then show ?thesis by (simp add: o)
  qed
qed

section \<open>What the state counts as completed was processed\<close>

definition covers :: "int list \<Rightarrow> JoinState \<Rightarrow> int list set \<Rightarrow> bool" where
  "covers cs st D \<longleftrightarrow>
     (\<forall>order s. valid_order (length cs) order \<longrightarrow> tuple_ok cs s \<longrightarrow> rank cs order s < completed cs (root st) order \<longrightarrow> s \<in> D)
     \<and> (\<forall>s x. tuple_ok cs s \<longrightarrow> x < length cs \<longrightarrow> s ! x \<le> offset st ! x \<longrightarrow> s \<in> D)
     \<and> (finished st \<longrightarrow> (\<forall>s. tuple_ok cs s \<longrightarrow> s \<in> D))"

lemma coversD:
  assumes "covers cs st D"
  shows "valid_order (length cs) order \<Longrightarrow> tuple_ok cs s \<Longrightarrow> rank cs order s < completed cs (root st) order \<Longrightarrow> s \<in> D"
    "tuple_ok cs s \<Longrightarrow> x < length cs \<Longrightarrow> s ! x \<le> offset st ! x \<Longrightarrow> s \<in> D"
    "finished st \<Longrightarrow> tuple_ok cs s \<Longrightarrow> s \<in> D"
  using assms unfolding covers_def by blast+

lemma update_finished:
  assumes "join_ok cs st" "valid_order (length cs) order" "tuple_ok cs t" "\<forall>x<length cs. t ! x = cs ! x - 1"
    and "\<And>s. tuple_ok cs s \<Longrightarrow> rank cs order s \<le> rank cs order t \<Longrightarrow> s \<in> D'"
  shows "covers cs (st\<lparr>finished := True\<rparr>) D'"
proof -
  have "rank cs order t = combos cs order - 1"
    by (rule rank_last) (use assms(2,4) in \<open>auto simp: valid_order_def\<close>)
  then have "s \<in> D'" if "tuple_ok cs s" for s
    using assms(5) [OF that] rank_bounds [OF valid_orderD(3) [OF assms(2) that]] by simp
  then show ?thesis by (simp add: covers_def)
qed

text \<open>The two outcomes of an update that is accepted.\<close>

lemma UpdateJoin_cases:
  assumes "UpdateJoin st order t = Inr st'" "join_ok cs st" "valid_order (length cs) order" "tuple_ok cs t"
  obtains (complete) "\<forall>x<length cs. t ! x = cs ! x - 1" "st' = st\<lparr>finished := True\<rparr>" "\<not> finished st"
  | (more) offs tree where "\<not> finished st" "update_offset cs (offset st) order t = Inr offs"
      "update_progress (length cs) t (root st) order = Inr tree" "st' = st\<lparr>offset := offs, root := tree\<rparr>"
      "\<not> (\<forall>x<length cs. t ! x = cs ! x - 1)"
  using assms(1) valid_orderD [OF assms(3,4)] join_okD(3) [OF assms(2)]
  by (auto simp: UpdateJoin_def bindR_Inr_iff IsJoinCompleted_iff split: if_splits)

lemma update_covers:
  assumes up: "UpdateJoin st order t = Inr st'" and ok: "join_ok cs st" "valid_order (length cs) order" "tuple_ok cs t"
    and cov: "covers cs st D" "D \<subseteq> D'" and processed: "\<And>s. tuple_ok cs s \<Longrightarrow> rank cs order s \<le> rank cs order t \<Longrightarrow> s \<in> D'"
  shows "join_ok cs st' \<and> covers cs st' D'"
  using up ok
proof (cases rule: UpdateJoin_cases)
  case complete
  then show ?thesis using update_finished [OF ok complete(1) processed] ok(1) by (simp add: join_ok_def)
next
  case (more offs tree)
  note j = join_okD [OF ok(1)] and v = valid_orderD [OF ok(2,3)]
  obtain x xs where o: "order = x # xs" using v(1) j(1) by (cases order) auto
  have offs: "offs = (offset st)[x := max (if \<forall>y\<in>set xs. t ! y = cs ! y - 1 then t ! x else t ! x - 1) (offset st ! x)]"
    using more(2) update_offset_ok [OF ok(2) [unfolded o] ok(3) j(5)] by (simp add: o)
  have x: "x < length cs" using v(2) o by simp
  note adv = update_progress_advances [OF more(3) j(4) v(4,2,3) j(2)]
  have "s \<in> D'" if s: "tuple_ok cs s" "y < length cs" "s ! y \<le> offs ! y" for s y
  proof (cases "y = x \<and> offset st ! x < s ! x")
    case True
    then have "s ! x \<le> (if \<forall>y\<in>set xs. t ! y = cs ! y - 1 then t ! x else t ! x - 1)"
      using s(3) x j(5) by (simp add: offs le_max_iff_disj del: if_split)
    then have "rank cs order s \<le> rank cs order t"
      unfolding o by (intro first_row_le) (use valid_orderD(3) [OF ok(2) s(1)] v(3) in \<open>auto simp: o split: if_splits\<close>)
    then show ?thesis by (rule processed [OF s(1)])
  next
    case False
    then have "s ! y \<le> offset st ! y" using s(3) x j(5) by (cases "y = x") (auto simp: offs)
    then show ?thesis using coversD(2) [OF cov(1) s(1,2)] cov(2) by blast
  qed
  moreover have "s \<in> D'" if o': "valid_order (length cs) order'" "tuple_ok cs s" "rank cs order' s < completed cs tree order'" for order' s
  proof -
    have "completed cs tree order' = completed cs (root st) order' \<or> credited cs t order order' (completed cs tree order')"
      using adv valid_orderD(2) [OF o'(1,2)] unfolding advanced_def by blast
    then show ?thesis
      using coversD(1) [OF cov(1) o'(1,2)] cov(2) o' credited_done [OF _ o'(3) ok(2) o'(1,2) ok(3)] processed by auto
  qed
  ultimately have "covers cs st' D'" using more(1) by (simp add: covers_def more(4))
  moreover have "join_ok cs st'" using j adv by (simp add: join_ok_def more(4) offs)
  ultimately show ?thesis by blast
qed

lemma new_completed:
  assumes "cs \<noteq> []" "valid_order (length cs) order" shows "completed cs (root (JoinStateNew cs)) order = 0"
proof (cases order)
  case Nil
  then show ?thesis using assms valid_order_length by fastforce
next
  case (Cons x xs)
  then have "x \<in> set order" by simp
  then have "x < length cs" using assms(2) unfolding valid_order_def by blast
  then show ?thesis by (simp add: Cons JoinStateNew_def ProgressTreeNew_def)
qed

lemma new_covers:
  assumes "cs \<noteq> []" shows "covers cs (JoinStateNew cs) {}"
proof -
  have "\<not> rank cs order s < completed cs (root (JoinStateNew cs)) order" if "valid_order (length cs) order" "tuple_ok cs s" for order s
    using rank_bounds [OF valid_orderD(3) [OF that]] new_completed [OF assms that(1)] by simp
  moreover have "\<not> s ! x \<le> offset (JoinStateNew cs) ! x" if "tuple_ok cs s" "x < length cs" for s x
    using that by (force simp: tuple_ok_def JoinStateNew_def)
  moreover have "\<not> finished (JoinStateNew cs)" by (simp add: JoinStateNew_def)
  ultimately show ?thesis unfolding covers_def by blast
qed

lemma new_ok: "cs \<noteq> [] \<Longrightarrow> cards_ok cs \<Longrightarrow> join_ok cs (JoinStateNew cs)"
  by (simp add: join_ok_def JoinStateNew_def ProgressTreeNew_def tree_ok_empty)

section \<open>Executions\<close>

text \<open>
  One execution of an order resumes behind the tuple the state names, processes the tuples of the order up to a last
  one, leaving out those with a row an offset covers, and records where it stopped.
\<close>

definition resumed :: "int list \<Rightarrow> nat list \<Rightarrow> int list option \<Rightarrow> int list \<Rightarrow> bool" where
  "resumed cs order start s \<longleftrightarrow> (case start of None \<Rightarrow> True | Some t0 \<Rightarrow> rank cs order t0 < rank cs order s)"

definition processed_by :: "int list \<Rightarrow> nat list \<Rightarrow> int list option \<Rightarrow> int list \<Rightarrow> int list \<Rightarrow> int list set" where
  "processed_by cs order start offs t =
     {s. tuple_ok cs s \<and> resumed cs order start s \<and> rank cs order s \<le> rank cs order t \<and> (\<forall>x<length cs. offs ! x < s ! x)}"

inductive join_run :: "int list \<Rightarrow> JoinState \<Rightarrow> int list set \<Rightarrow> bool" for cs where
  start: "join_run cs (JoinStateNew cs) {}"
| execute: "join_run cs st D \<Longrightarrow> valid_order (length cs) order \<Longrightarrow> GetLastCompletedTupleIdx st order = Inr start \<Longrightarrow>
    tuple_ok cs t \<Longrightarrow> UpdateJoin st order t = Inr st' \<Longrightarrow> join_run cs st' (D \<union> processed_by cs order start (offset st) t)"

lemma execution_covers:
  assumes "join_ok cs st" "covers cs st D" "valid_order (length cs) order" "GetLastCompletedTupleIdx st order = Inr start"
    "tuple_ok cs s" "rank cs order s \<le> rank cs order t"
  shows "s \<in> D \<union> processed_by cs order start (offset st) t"
proof (cases "(\<exists>x<length cs. s ! x \<le> offset st ! x) \<or> rank cs order s < completed cs (root st) order")
  case True
  then show ?thesis using coversD(1,2) [OF assms(2)] assms(3,5) by blast
next
  case False
  then have "resumed cs order start s"
    using resume_point [OF assms(1,3)] assms(4) by (cases start) (auto simp: resumed_def split: if_splits)
  then show ?thesis using False assms(5,6) by (auto simp: processed_by_def not_le)
qed

lemma join_run_covers:
  assumes "join_run cs st D" "cs \<noteq> []" "cards_ok cs"
  shows "join_ok cs st \<and> covers cs st D"
  using assms(1)
proof induction
  case start
  then show ?case using new_ok new_covers assms(2,3) by blast
next
  case (execute st D order start t st')
  then have ok: "join_ok cs st" "covers cs st D" by auto
  show ?case
    by (rule update_covers [OF execute.hyps(5) ok(1) execute.hyps(2,4) ok(2) Un_upper1 execution_covers [OF ok execute.hyps(2,3)]])
qed

text \<open>
  Property C1. However executions of different join orders follow each other, when the join is finished every
  combination of rows of its tables was processed by one of them, although each execution resumes from progress other
  orders made and leaves out the rows the offsets cover.
\<close>

theorem join_processes_all:
  assumes "join_run cs st D" "cs \<noteq> []" "cards_ok cs" "finished st" "tuple_ok cs s"
  shows "s \<in> D"
  using join_run_covers [OF assms(1-3)] coversD(3) [OF _ assms(4,5)] by blast

text \<open>
  Property C29. The tuple an order resumes from is the one recorded by its last execution, and recording it credits no
  order with less than before: progress of an order is never taken back.
\<close>

theorem progress_recorded:
  assumes "join_run cs st D" "cs \<noteq> []" "cards_ok cs" "valid_order (length cs) order" "tuple_ok cs t"
    "UpdateJoin st order t = Inr st'" "\<not> finished st'"
  shows "GetLastCompletedTupleIdx st' order = Inr (Some t)
    \<and> (\<forall>order'. valid_order (length cs) order' \<longrightarrow> completed cs (root st) order' \<le> completed cs (root st') order')"
proof -
  have ok: "join_ok cs st" using join_run_covers [OF assms(1-3)] by blast
  note j = join_okD [OF ok] and v = valid_orderD [OF assms(4,5)]
  from assms(6) ok assms(4,5) obtain offs tree where m: "update_progress (length cs) t (root st) order = Inr tree"
      "st' = st\<lparr>offset := offs, root := tree\<rparr>" "update_offset cs (offset st) order t = Inr offs"
    by (rule UpdateJoin_cases) (use assms(7) in auto)
  note adv = update_progress_advances [OF m(1) j(4) v(4,2,3) j(2)]
  have "join_ok cs st'"
    using update_covers [OF assms(6) ok assms(4,5), of UNIV UNIV] by (simp add: covers_def)
  from resume_point [OF this assms(4)] obtain t' where t': "GetLastCompletedTupleIdx st' order = Inr (Some t')" "tuple_ok cs t'"
      "rank cs order t' = rank cs order t"
    using adv rank_bounds [OF v(3)] by (auto simp: m(2))
  have "t' = t" by (rule tuple_rank_inj [OF t'(3) assms(4) t'(2) assms(5)])
  moreover have "completed cs (root st) order' \<le> completed cs (root st') order'" if "valid_order (length cs) order'" for order'
    using adv that unfolding advanced_def valid_order_def by (simp add: m(2))
  ultimately show ?thesis using t'(1) by simp
qed

section \<open>Two orders that share a join\<close>

text \<open>Two tables of two rows: the first order stops after its first two tuples, the second one goes on to the end.\<close>

definition first_stop :: JoinState where
  "first_stop = \<lparr>finished = False, cardinalities = [2, 2],
     root = PTree 0 [Some (PTree 0 [None, Some (PTree 1 [None, None])]), None], offset = [0, -1]\<rparr>"

lemma first_stop_run: "join_run [2, 2] first_stop ({} \<union> processed_by [2, 2] [0, 1] None [-1, -1] [0, 1])"
proof -
  have "UpdateJoin (JoinStateNew [2, 2]) [0, 1] [0, 1] = Inr first_stop" "GetLastCompletedTupleIdx (JoinStateNew [2, 2]) [0, 1] = Inr None"
    by code_simp+
  moreover have "valid_order (length [2::int, 2]) [0, 1]" "tuple_ok [2, 2] [0, 1]" by (auto simp: valid_order_def tuple_ok_def less_Suc_eq)
  ultimately have "join_run [2, 2] first_stop ({} \<union> processed_by [2, 2] [0, 1] None (offset (JoinStateNew [2, 2])) [0, 1])"
    by (intro join_run.execute [OF join_run.start])
  then show ?thesis by (simp add: JoinStateNew_def)
qed

lemma second_stop_run:
  "join_run [2, 2] (first_stop\<lparr>finished := True\<rparr>)
     (({} \<union> processed_by [2, 2] [0, 1] None [-1, -1] [0, 1]) \<union> processed_by [2, 2] [1, 0] None [0, -1] [1, 1])"
proof -
  have "UpdateJoin first_stop [1, 0] [1, 1] = Inr (first_stop\<lparr>finished := True\<rparr>)" "GetLastCompletedTupleIdx first_stop [1, 0] = Inr None"
    by code_simp+
  moreover have "valid_order (length [2::int, 2]) [1, 0]" "tuple_ok [2, 2] [1, 1]" by (auto simp: valid_order_def tuple_ok_def less_Suc_eq)
  ultimately have "join_run [2, 2] (first_stop\<lparr>finished := True\<rparr>) (({} \<union> processed_by [2, 2] [0, 1] None [-1, -1] [0, 1])
      \<union> processed_by [2, 2] [1, 0] None (offset first_stop) [1, 1])"
    by (intro join_run.execute [OF first_stop_run])
  then show ?thesis by (simp add: first_stop_def)
qed

theorem join_processes_all_witness:
  "[1, 0] \<in> {} \<union> processed_by [2, 2] [0, 1] None [-1, -1] [0, 1] \<union> processed_by [2, 2] [1, 0] None [0, -1] [1, 1]"
  by (rule join_processes_all [OF second_stop_run]) (auto simp: cards_ok_def tuple_ok_def less_Suc_eq first_stop_def)

theorem progress_recorded_witness:
  "GetLastCompletedTupleIdx \<lparr>finished = False, cardinalities = [2, 2],
     root = PTree 0 [Some (PTree 1 [None, Some (PTree 0 [None, None])]), None], offset = [0, -1]\<rparr> [0, 1] = Inr (Some [1, 0])"
proof -
  have "UpdateJoin first_stop [0, 1] [1, 0] = Inr \<lparr>finished = False, cardinalities = [2, 2],
     root = PTree 0 [Some (PTree 1 [None, Some (PTree 0 [None, None])]), None], offset = [0, -1]\<rparr>"
    by code_simp
  moreover have "cards_ok [2, 2]" "tuple_ok [2, 2] [1, 0]" "valid_order (length [2::int, 2]) [0, 1]"
    by (auto simp: cards_ok_def tuple_ok_def valid_order_def less_Suc_eq)
  ultimately show ?thesis by (intro progress_recorded [OF first_stop_run, THEN conjunct1]) simp_all
qed

end
