(* ===== verification/SkinnerEnv.thy ===== *)
theory SkinnerEnv
  imports SkinnerSound
begin

text \<open>
  The two environments a join order is executed in (\<^verbatim>\<open>PermutableJoinEnvironment\<close> and
  \<^verbatim>\<open>RecompilationJoinEnvironment\<close> of \<^verbatim>\<open>runtime/skinner_join_executor.cc\<close>). The functions generated for
  the join are parameters: a function gets the budget, the resume flag and the memory it shares with the executor
  and returns a status and that memory; a further state stands for what it does outside, such as the output it
  writes. Doubles are a type with a record of operations.
\<close>

section \<open>Doubles\<close>

record 'd double_ops =
  d_of_int :: "int \<Rightarrow> 'd"
  d_add :: "'d \<Rightarrow> 'd \<Rightarrow> 'd"
  d_mul :: "'d \<Rightarrow> 'd \<Rightarrow> 'd"
  d_div :: "'d \<Rightarrow> 'd \<Rightarrow> 'd"
  d_sqrt :: "'d \<Rightarrow> 'd"
  d_log :: "'d \<Rightarrow> 'd"
  d_gt :: "'d \<Rightarrow> 'd \<Rightarrow> bool"
  d_half :: 'd
  d_exploration_weight :: 'd

section \<open>Shared memory\<close>

record engine_flags =
  progress_arr :: "int list"
  table_ctr :: int
  idx_arr :: "int list"
  num_result_tuples :: int
  offset_arr :: "int list"

record 'f permutable_flags = engine_flags +
  join_handler_fn_arr :: "'f list"
  flag_arr :: "int list"

definition SetResumeProgress ::
    "nat list \<Rightarrow> int list \<Rightarrow> int list \<Rightarrow> 'x engine_flags_scheme \<Rightarrow> 'x engine_flags_scheme res" where
  "SetResumeProgress order last_completed offs mem =
     bindR (foldR (\<lambda>mem table.
        bindR (nthR offs table) (\<lambda>o'.
        bindR (updR (progress_arr mem) table (max o' (last_completed ! table))) (\<lambda>p.
        bindR (updR (offset_arr mem) table o') (\<lambda>oa.
          Inr (mem\<lparr>progress_arr := p, offset_arr := oa\<rparr>))))) mem [0..<length last_completed]) (\<lambda>mem.
     bindR (nthR order 0) (\<lambda>first.
       Inr (mem\<lparr>table_ctr := int first, num_result_tuples := 0\<rparr>)))"

text \<open>The offset is a reference into the state: the reward is computed with the offset after the update.\<close>

definition reward_step ::
    "'d double_ops \<Rightarrow> int list \<Rightarrow> int list \<Rightarrow> int list \<Rightarrow> int list \<Rightarrow> 'd \<times> 'd \<Rightarrow> nat \<Rightarrow> ('d \<times> 'd) res" where
  "reward_step ops offs initial final cards st table =
     (case st of (progress, weight) \<Rightarrow>
       bindR (nthR cards table) (\<lambda>c.
       bindR (nthR offs table) (\<lambda>o'.
       let weight = d_mul ops weight (d_div ops (d_of_int ops 1) (d_of_int ops (c - o'))) in
       bindR (nthR initial table) (\<lambda>i.
       bindR (nthR final table) (\<lambda>f.
         Inr (d_add ops progress (d_mul ops (d_of_int ops (max o' f - max o' i)) weight), weight))))))"

definition Reward ::
    "'d double_ops \<Rightarrow> nat list \<Rightarrow> int list \<Rightarrow> int list \<Rightarrow> int list \<Rightarrow> int list \<Rightarrow> int \<Rightarrow> int \<Rightarrow> 'd res" where
  "Reward ops order offs initial final cards result_tuples budget =
     bindR (foldR (reward_step ops offs initial final cards) (d_of_int ops 0, d_of_int ops 1) order) (\<lambda>(progress, weight).
       Inr (d_add ops (d_mul ops (d_half ops) progress)
              (d_div ops (d_mul ops (d_half ops) (d_of_int ops result_tuples)) (d_of_int ops budget))))"

definition value_or :: "'x option \<Rightarrow> 'x \<Rightarrow> 'x" where
  "value_or v d = (case v of None \<Rightarrow> d | Some x \<Rightarrow> x)"

section \<open>Functions chained by pointers\<close>

record 'f PermutableJoinEnvironment =
  num_preds :: nat
  num_flags :: nat
  budget_per_episode :: int
  pred_table_to_flag :: "((nat \<times> nat) \<times> nat) list"
  table_connections :: "(nat \<times> nat) list"
  env_cardinalities :: "int list"
  table_functions :: "'f list"
  valid_tuple_handler :: 'f
  env_state :: JoinState
  execution_engine :: "'f permutable_flags"

definition IsConnected :: "(nat \<times> nat) list \<Rightarrow> nat list \<Rightarrow> nat \<Rightarrow> bool" where
  "IsConnected connections joined table \<longleftrightarrow> (\<exists>table1\<in>set joined. (table1, table) \<in> set connections)"

definition SetJoinOrder :: "'f list \<Rightarrow> 'f \<Rightarrow> nat list \<Rightarrow> 'f permutable_flags \<Rightarrow> 'f permutable_flags res" where
  "SetJoinOrder functions handler order mem =
     bindR (guardR (order \<noteq> []) Undefined) (\<lambda>_.
     bindR (foldR (\<lambda>fs (current_table, next_table).
        bindR (nthR functions next_table) (\<lambda>f. updR fs current_table f))
        (join_handler_fn_arr mem) (zip order (tl order))) (\<lambda>fs.
     bindR (updR fs (last order) handler) (\<lambda>fs.
       Inr (mem\<lparr>join_handler_fn_arr := fs\<rparr>))))"

definition all_tables_available :: "((nat \<times> nat) \<times> nat) list \<Rightarrow> nat \<Rightarrow> nat list \<Rightarrow> nat \<Rightarrow> bool" where
  "all_tables_available flags n available pred \<longleftrightarrow>
     (\<forall>t\<in>set [0..<n]. map_of flags (pred, t) \<noteq> None \<longrightarrow> t \<in> set available)"

definition toggle_pred ::
    "((nat \<times> nat) \<times> nat) list \<Rightarrow> nat \<Rightarrow> nat list \<Rightarrow> nat \<Rightarrow> nat list \<times> int list \<Rightarrow> nat \<Rightarrow> (nat list \<times> int list) res" where
  "toggle_pred flags n available table st pred =
     (case st of (executed_preds, fs) \<Rightarrow>
       if pred \<in> set executed_preds then Inr st
       else if \<not> all_tables_available flags n available pred then Inr st
       else
         bindR (atR (map_of flags) (pred, table)) (\<lambda>flag.
         bindR (updR fs flag 1) (\<lambda>fs. Inr (pred # executed_preds, fs))))"

definition TogglePredicateFlags :: "'f PermutableJoinEnvironment \<Rightarrow> nat list \<Rightarrow> int list \<Rightarrow> int list res" where
  "TogglePredicateFlags env order flags =
     bindR (foldR (\<lambda>fs i. updR fs i 0) flags [0..<num_flags env]) (\<lambda>fs.
     bindR (foldR (\<lambda>st order_idx.
        foldR (toggle_pred (pred_table_to_flag env) (length order) (take (order_idx + 1) order) (order ! order_idx))
          st [0..<num_preds env]) ([], fs) [0..<length order]) (\<lambda>(executed_preds, fs).
       Inr fs))"

definition PermutableExecute ::
    "'d double_ops \<Rightarrow> ('f \<Rightarrow> int \<Rightarrow> int \<Rightarrow> 'f permutable_flags \<Rightarrow> 'w \<Rightarrow> (int \<times> 'f permutable_flags \<times> 'w) res)
     \<Rightarrow> 'f PermutableJoinEnvironment \<times> 'w \<Rightarrow> nat list \<Rightarrow> ('d \<times> 'f PermutableJoinEnvironment \<times> 'w) res" where
  "PermutableExecute ops call st order =
     (case st of (env, w) \<Rightarrow>
     bindR (GetLastCompletedTupleIdx (env_state env) order) (\<lambda>initial.
     let start = value_or initial (replicate (length order) (-1)) in
     bindR (SetJoinOrder (table_functions env) (valid_tuple_handler env) order (execution_engine env)) (\<lambda>mem.
     bindR (TogglePredicateFlags env order (flag_arr mem)) (\<lambda>fs.
     bindR (SetResumeProgress order start (offset (env_state env)) (mem\<lparr>flag_arr := fs\<rparr>)) (\<lambda>mem.
     bindR (nthR order 0) (\<lambda>first.
     bindR (nthR (table_functions env) first) (\<lambda>f.
     bindR (call f (budget_per_episode env) (if initial \<noteq> None then 1 else 0) mem w) (\<lambda>(status, mem, w).
     bindR (ComputeLastCompletedTuple order (env_cardinalities env) status (table_ctr mem) (idx_arr mem)) (\<lambda>final.
     bindR (UpdateJoin (env_state env) order final) (\<lambda>js.
     bindR (Reward ops order (offset js) start final (env_cardinalities env) (num_result_tuples mem)
              (budget_per_episode env)) (\<lambda>r.
       Inr (r, env\<lparr>env_state := js, execution_engine := mem\<rparr>, w))))))))))))"

section \<open>Functions compiled per order\<close>

record RecompilationJoinEnvironment =
  rc_budget_per_episode :: int
  rc_table_connections :: "(nat \<times> nat) list"
  rc_cardinalities :: "int list"
  rc_state :: JoinState
  rc_engine :: engine_flags

definition RecompilationExecute ::
    "'d double_ops \<Rightarrow> (nat list \<Rightarrow> int \<Rightarrow> int \<Rightarrow> engine_flags \<Rightarrow> 'w \<Rightarrow> (int \<times> engine_flags \<times> 'w) res)
     \<Rightarrow> RecompilationJoinEnvironment \<times> 'w \<Rightarrow> nat list \<Rightarrow> ('d \<times> RecompilationJoinEnvironment \<times> 'w) res" where
  "RecompilationExecute ops compiled st order =
     (case st of (env, w) \<Rightarrow>
     bindR (GetLastCompletedTupleIdx (rc_state env) order) (\<lambda>initial.
     let start = value_or initial (replicate (length order) (-1)) in
     bindR (SetResumeProgress order start (offset (rc_state env)) (rc_engine env)) (\<lambda>mem.
     bindR (compiled order (rc_budget_per_episode env) (if initial \<noteq> None then 1 else 0) mem w) (\<lambda>(status, mem, w).
     bindR (ComputeLastCompletedTuple order (rc_cardinalities env) status (table_ctr mem) (idx_arr mem)) (\<lambda>final.
     bindR (UpdateJoin (rc_state env) order final) (\<lambda>js.
     bindR (Reward ops order (offset js) start final (rc_cardinalities env) (num_result_tuples mem)
              (rc_budget_per_episode env)) (\<lambda>r.
       Inr (r, env\<lparr>rc_state := js, rc_engine := mem\<rparr>, w))))))))"

end
