(* ===== verification/SkinnerAgent.thy ===== *)
theory SkinnerAgent
  imports SkinnerEnv
begin

text \<open>
  The agent that learns join orders (\<^verbatim>\<open>UctNode\<close> and \<^verbatim>\<open>UctJoinAgent\<close> of
  \<^verbatim>\<open>runtime/skinner_join_executor.cc\<close>). The environment is a record of functions: what the agent asks of
  it, the clock, the random engine and the flags. Sets of tables and actions are sorted lists. The random
  engine and \<^verbatim>\<open>std::shuffle\<close> are functions of the state of the engine. \<^verbatim>\<open>Sample\<close> descends one level of
  the tree per call and has fuel for it.
\<close>

section \<open>Nodes\<close>

record ('d, 'g) uct_data =
  created_in :: nat
  tree_level :: nat
  num_tables :: nat
  num_actions :: nat
  priority_actions :: "nat list"
  num_visits :: nat
  num_tries_per_action :: "nat list"
  acc_reward_per_action :: "'d list"
  joined_tables :: "nat list"
  recommended_actions :: "nat list"
  unjoined_tables :: "nat list"
  table_per_action :: "nat list"
  rng :: 'g

datatype ('d, 'g) UctNode = UctNode (uct_data: "('d, 'g) uct_data") (uct_children: "('d, 'g) UctNode option list")

record ('d, 'g, 'e, 'c) uct_env =
  ue_ops :: "'d double_ops"
  ue_IsConnected :: "'e \<Rightarrow> nat list \<Rightarrow> nat \<Rightarrow> bool"
  ue_IsComplete :: "'e \<Rightarrow> bool"
  ue_Execute :: "'e \<Rightarrow> nat list \<Rightarrow> ('d \<times> 'e) res"
  ue_engine :: "int \<Rightarrow> 'g"
  ue_next :: "'g \<Rightarrow> nat \<times> 'g"
  ue_shuffle :: "nat list \<Rightarrow> 'g \<Rightarrow> nat list \<times> 'g"
  ue_join_seed :: int
  ue_clock :: "'c \<Rightarrow> int \<times> 'c"

definition USE_HEURISTIC :: bool where
  "USE_HEURISTIC = True"

definition GetJoinSeed :: "('d, 'g, 'e, 'c) uct_env \<Rightarrow> 'c \<Rightarrow> int \<times> 'c" where
  "GetJoinSeed ue c = (if ue_join_seed ue > 0 then (ue_join_seed ue, c) else ue_clock ue c)"

definition set_insert :: "nat \<Rightarrow> nat list \<Rightarrow> nat list" where
  "set_insert x xs = (if x \<in> set xs then xs else insort x xs)"

definition number_actions :: "nat list \<Rightarrow> nat \<Rightarrow> nat list res" where
  "number_actions unjoined actions =
     foldR (\<lambda>ts (action, table). updR ts action table) (replicate actions 0) (zip [0..<length unjoined] unjoined)"

definition UctNodeRoot ::
    "('d, 'g, 'e, 'c) uct_env \<Rightarrow> nat \<Rightarrow> nat \<Rightarrow> nat list \<Rightarrow> 'c \<Rightarrow> (('d, 'g) UctNode \<times> 'c) res" where
  "UctNodeRoot ue round_ctr tables already_joined c =
     (let joined = foldl (\<lambda>s x. set_insert x s) [] already_joined;
          actions = tables - length already_joined;
          unjoined = filter (\<lambda>i. i \<notin> set joined) [0..<tables];
          (seed, c) = GetJoinSeed ue c in
      bindR (number_actions unjoined actions) (\<lambda>per_action.
        Inr (UctNode \<lparr>created_in = round_ctr, tree_level = 0, num_tables = tables, num_actions = actions,
               priority_actions = [0..<actions], num_visits = 0, num_tries_per_action = replicate actions 0,
               acc_reward_per_action = replicate actions (d_of_int (ue_ops ue) 0), joined_tables = joined,
               recommended_actions = [0..<actions], unjoined_tables = unjoined, table_per_action = per_action,
               rng = ue_engine ue seed\<rparr> (replicate actions None), c)))"

definition UctNodeChild ::
    "('d, 'g, 'e, 'c) uct_env \<Rightarrow> 'e \<Rightarrow> nat \<Rightarrow> ('d, 'g) uct_data \<Rightarrow> nat \<Rightarrow> 'c \<Rightarrow> (('d, 'g) UctNode \<times> 'c) res" where
  "UctNodeChild ue e round_ctr parent joined_table c =
     (let actions = num_actions parent - 1;
          joined = set_insert joined_table (joined_tables parent);
          unjoined = remove1 joined_table (unjoined_tables parent);
          (seed, c) = GetJoinSeed ue c in
      bindR (guardR (joined_table \<in> set (unjoined_tables parent)) Undefined) (\<lambda>_.
      bindR (number_actions unjoined actions) (\<lambda>per_action.
      let connected = (if USE_HEURISTIC then filter (\<lambda>i. ue_IsConnected ue e joined (per_action ! i)) [0..<actions] else []);
          recommended = (if USE_HEURISTIC \<and> connected = [] then [0..<actions] else connected) in
        Inr (UctNode \<lparr>created_in = round_ctr, tree_level = tree_level parent + 1, num_tables = num_tables parent,
               num_actions = actions,
               priority_actions = filter (\<lambda>i. \<not> USE_HEURISTIC \<or> i \<in> set recommended) [0..<actions],
               num_visits = 0, num_tries_per_action = replicate actions 0,
               acc_reward_per_action = replicate actions (d_of_int (ue_ops ue) 0), joined_tables = joined,
               recommended_actions = recommended, unjoined_tables = unjoined, table_per_action = per_action,
               rng = ue_engine ue seed\<rparr> (replicate actions None), c))))"

section \<open>Selecting and learning\<close>

definition action_quality :: "'d double_ops \<Rightarrow> ('d, 'g) uct_data \<Rightarrow> nat \<Rightarrow> 'd" where
  "action_quality ops d action =
     (let tries = d_of_int ops (int (num_tries_per_action d ! action));
          mean_reward = d_div ops (acc_reward_per_action d ! action) tries;
          exploration = d_sqrt ops (d_div ops (d_log ops (d_of_int ops (int (num_visits d)))) tries) in
      d_add ops mean_reward (d_mul ops (d_exploration_weight ops) exploration))"

definition best_step ::
    "'d double_ops \<Rightarrow> ('d, 'g) uct_data \<Rightarrow> nat \<Rightarrow> nat option \<times> 'd \<Rightarrow> nat \<Rightarrow> (nat option \<times> 'd) res" where
  "best_step ops d offs st action_idx =
     (case st of (best_action, best_quality) \<Rightarrow>
       let action = (offs + action_idx) mod num_actions d in
       if USE_HEURISTIC \<and> recommended_actions d = [] then Inl (RuntimeError ''no recommended actions with heuristic.'')
       else if USE_HEURISTIC \<and> action \<notin> set (recommended_actions d) then Inr st
       else
         let quality = action_quality ops d action in
         Inr (if d_gt ops quality best_quality then (Some action, quality) else st))"

text \<open>The best action stays -1 when no quality is above -1; using it as an index is undefined.\<close>

definition SelectAction :: "('d, 'g, 'e, 'c) uct_env \<Rightarrow> ('d, 'g) uct_data \<Rightarrow> (nat \<times> ('d, 'g) uct_data) res" where
  "SelectAction ue d =
     (let (r, g) = ue_next ue (rng d) in
      if priority_actions d \<noteq> [] then
        let action_idx = r mod length (priority_actions d) in
        Inr (priority_actions d ! action_idx,
             d\<lparr>priority_actions := take action_idx (priority_actions d) @ drop (action_idx + 1) (priority_actions d), rng := g\<rparr>)
      else
        bindR (foldR (best_step (ue_ops ue) d (r mod num_actions d)) (None, d_of_int (ue_ops ue) (-1)) [0..<num_actions d]) (\<lambda>(best_action, _).
          case best_action of None \<Rightarrow> Inl Undefined | Some action \<Rightarrow> Inr (action, d\<lparr>rng := g\<rparr>)))"

definition UpdateStatistics :: "'d double_ops \<Rightarrow> nat \<Rightarrow> 'd \<Rightarrow> ('d, 'g) uct_data \<Rightarrow> ('d, 'g) uct_data res" where
  "UpdateStatistics ops action reward d =
     bindR (nthR (num_tries_per_action d) action) (\<lambda>t.
     bindR (updR (num_tries_per_action d) action (t + 1)) (\<lambda>tries.
     bindR (nthR (acc_reward_per_action d) action) (\<lambda>a.
     bindR (updR (acc_reward_per_action d) action (d_add ops a reward)) (\<lambda>acc.
       Inr (d\<lparr>num_visits := num_visits d + 1, num_tries_per_action := tries, acc_reward_per_action := acc\<rparr>)))))"

section \<open>Playing an order to its end\<close>

text \<open>The next table: the first connected one that is not joined, otherwise the first one that is not joined.\<close>

definition playout_table :: "('d, 'g, 'e, 'c) uct_env \<Rightarrow> 'e \<Rightarrow> nat list \<Rightarrow> nat list \<Rightarrow> nat option" where
  "playout_table ue e joined unjoined =
     (case find (\<lambda>table. table \<notin> set joined \<and> ue_IsConnected ue e joined table) unjoined of
        Some table \<Rightarrow> Some table
      | None \<Rightarrow> find (\<lambda>table. table \<notin> set joined) unjoined)"

definition playout_step ::
    "('d, 'g, 'e, 'c) uct_env \<Rightarrow> 'e \<Rightarrow> nat list \<Rightarrow> nat list \<times> nat list \<Rightarrow> nat \<Rightarrow> (nat list \<times> nat list) res" where
  "playout_step ue e unjoined st pos =
     (case st of (order, joined) \<Rightarrow>
       case playout_table ue e joined unjoined of
         None \<Rightarrow> Inr st
       | Some table \<Rightarrow> bindR (updR order pos table) (\<lambda>order. Inr (order, set_insert table joined)))"

definition Playout ::
    "('d, 'g, 'e, 'c) uct_env \<Rightarrow> 'e \<Rightarrow> ('d, 'g) uct_data \<Rightarrow> nat list \<Rightarrow> ('d \<times> ('d, 'g) uct_data \<times> nat list \<times> 'e) res" where
  "Playout ue e d order =
     bindR (nthR order (length (joined_tables d))) (\<lambda>last_table.
     let current_joined = set_insert last_table (joined_tables d);
         current_unjoined = filter (\<lambda>i. i \<notin> set (joined_tables d) \<and> i \<noteq> last_table) [0..<num_tables d];
         (current_unjoined, g) = ue_shuffle ue current_unjoined (rng d) in
     bindR (if USE_HEURISTIC then
              bindR (foldR (playout_step ue e current_unjoined) (order, current_joined)
                [length (joined_tables d) + 1..<num_tables d]) (\<lambda>(order, _). Inr order)
            else
              foldR (\<lambda>order (i, table). updR order (length (joined_tables d) + 1 + i) table) order
                (zip [0..<length current_unjoined] current_unjoined)) (\<lambda>order.
     bindR (ue_Execute ue e order) (\<lambda>(reward, e). Inr (reward, d\<lparr>rng := g\<rparr>, order, e))))"

fun Sample ::
    "nat \<Rightarrow> ('d, 'g, 'e, 'c) uct_env \<Rightarrow> nat \<Rightarrow> ('d, 'g) UctNode \<Rightarrow> nat list \<Rightarrow> 'e \<Rightarrow> 'c
     \<Rightarrow> ('d \<times> ('d, 'g) UctNode \<times> nat list \<times> 'e \<times> 'c) ores" where
  "Sample 0 ue round_ctr node order e c = None"
| "Sample (Suc fuel) ue round_ctr node order e c =
     (let d = uct_data node in
      if num_actions d = 0 then
        Some (bindR (ue_Execute ue e order) (\<lambda>(reward, e). Inr (reward, node, order, e, c)))
      else
        bindO (Some (SelectAction ue d)) (\<lambda>(action, d).
        bindO (Some (nthR (table_per_action d) action)) (\<lambda>table.
        bindO (Some (updR order (length (joined_tables d)) table)) (\<lambda>order.
        bindO (Some (nthR (uct_children node) action)) (\<lambda>child.
        bindO (if created_in d \<noteq> round_ctr \<and> child = None
               then Some (bindR (UctNodeChild ue e round_ctr d table c) (\<lambda>(n, c). Inr (Some n, c)))
               else Some (Inr (child, c))) (\<lambda>(child, c).
        bindO (case child of
                 Some n \<Rightarrow>
                   bindO (Sample fuel ue round_ctr n order e c) (\<lambda>(reward, n, order, e, c).
                     Some (Inr (reward, d, Some n, order, e, c)))
               | None \<Rightarrow>
                   Some (bindR (Playout ue e d order) (\<lambda>(reward, d, order, e).
                     Inr (reward, d, None, order, e, c)))) (\<lambda>(reward, d, child, order, e, c).
        bindO (Some (UpdateStatistics (ue_ops ue) action reward d)) (\<lambda>d.
          Some (Inr (reward, UctNode d ((uct_children node)[action := child]), order, e, c))))))))))"

section \<open>The agent\<close>

record ('d, 'g) UctJoinAgent =
  round_ctr :: nat
  ag_num_tables :: nat
  should_forget :: bool
  next_forget :: int
  ag_joined :: "nat list"
  ag_root :: "('d, 'g) UctNode"
  ag_order :: "nat list"

definition UctJoinAgentNew ::
    "('d, 'g, 'e, 'c) uct_env \<Rightarrow> bool \<Rightarrow> nat \<Rightarrow> nat list \<Rightarrow> 'c \<Rightarrow> (('d, 'g) UctJoinAgent \<times> 'c) res" where
  "UctJoinAgentNew ue forget tables joined c =
     bindR (UctNodeRoot ue 0 tables joined c) (\<lambda>(node, c).
     bindR (foldR (\<lambda>order (i, t). updR order i t) (replicate tables 0) (zip [0..<length joined] joined)) (\<lambda>order.
       Inr (\<lparr>round_ctr = 0, ag_num_tables = tables, should_forget = forget, next_forget = 10, ag_joined = joined,
             ag_root = node, ag_order = order\<rparr>, c)))"

definition Act ::
    "('d, 'g, 'e, 'c) uct_env \<Rightarrow> ('d, 'g) UctJoinAgent \<Rightarrow> 'e \<Rightarrow> 'c \<Rightarrow> (('d, 'g) UctJoinAgent \<times> 'e \<times> 'c) ores" where
  "Act ue a e c =
     (let round = round_ctr a + 1 in
      bindO (Sample (ag_num_tables a + 1) ue round (ag_root a) (ag_order a) e c) (\<lambda>(reward, node, order, e, c).
      let a = a\<lparr>round_ctr := round, ag_root := node, ag_order := order\<rparr> in
      if should_forget a \<and> int round = next_forget a then
        bindO (Some (UctNodeRoot ue round (ag_num_tables a) (ag_joined a) c)) (\<lambda>(node, c).
          Some (Inr (a\<lparr>ag_root := node, next_forget := next_forget a * 10\<rparr>, e, c)))
      else Some (Inr (a, e, c))))"

partial_function (option) run_agent ::
    "('d, 'g, 'e, 'c) uct_env \<Rightarrow> ('d, 'g) UctJoinAgent \<Rightarrow> 'e \<Rightarrow> 'c \<Rightarrow> 'e ores" where
  "run_agent ue a e c =
     (if ue_IsComplete ue e then Some (Inr e)
      else
        (case Act ue a e c of
           None \<Rightarrow> None
         | Some r \<Rightarrow>
             (case r of
                Inl err \<Rightarrow> Some (Inl err)
              | Inr st \<Rightarrow> run_agent ue (fst st) (fst (snd st)) (snd (snd st)))))"

declare run_agent.simps [code]

section \<open>The two ways to execute a join\<close>

definition permutable_uct ::
    "'d double_ops \<Rightarrow> ('f \<Rightarrow> int \<Rightarrow> int \<Rightarrow> 'f permutable_flags \<Rightarrow> 'w \<Rightarrow> (int \<times> 'f permutable_flags \<times> 'w) res)
     \<Rightarrow> ('d, 'g, 'f PermutableJoinEnvironment \<times> 'w, 'c) uct_env \<Rightarrow> ('d, 'g, 'f PermutableJoinEnvironment \<times> 'w, 'c) uct_env" where
  "permutable_uct ops call ue =
     ue\<lparr>ue_ops := ops, ue_IsConnected := \<lambda>e. IsConnected (table_connections (fst e)),
        ue_IsComplete := \<lambda>e. finished (env_state (fst e)), ue_Execute := PermutableExecute ops call\<rparr>"

definition ReconstructCardinalities :: "nat \<Rightarrow> int list \<Rightarrow> int list res" where
  "ReconstructCardinalities tables idx = foldR (\<lambda>cs i. bindR (nthR idx i) (\<lambda>c. Inr (cs @ [c]))) [] [0..<tables]"

definition ReconstructTableFunctions :: "nat \<Rightarrow> 'f list \<Rightarrow> 'f list res" where
  "ReconstructTableFunctions tables fs = foldR (\<lambda>out i. bindR (nthR fs i) (\<lambda>f. Inr (out @ [f]))) [] [0..<tables]"

definition ExecutePermutableSkinnerJoin ::
    "'d double_ops \<Rightarrow> ('f \<Rightarrow> int \<Rightarrow> int \<Rightarrow> 'f permutable_flags \<Rightarrow> 'w \<Rightarrow> (int \<times> 'f permutable_flags \<times> 'w) res)
     \<Rightarrow> ('d, 'g, 'f PermutableJoinEnvironment \<times> 'w, 'c) uct_env \<Rightarrow> bool \<Rightarrow> int
     \<Rightarrow> nat \<Rightarrow> nat \<Rightarrow> ((nat \<times> nat) \<times> nat) list \<Rightarrow> (nat \<times> nat) list \<Rightarrow> nat list \<Rightarrow> 'f \<Rightarrow> nat
     \<Rightarrow> 'f permutable_flags \<Rightarrow> 'w \<Rightarrow> 'c \<Rightarrow> ('f permutable_flags \<times> 'w) ores" where
  "ExecutePermutableSkinnerJoin ops call ue forget budget tables preds pred_flags connections prefix_order handler flags mem w c =
     bindO (Some (ReconstructTableFunctions tables (join_handler_fn_arr mem))) (\<lambda>fs.
     bindO (Some (ReconstructCardinalities tables (idx_arr mem))) (\<lambda>cs.
     if 0 \<in> set cs then Some (Inr (mem, w))
     else
       let env = \<lparr>num_preds = preds, num_flags = flags, budget_per_episode = budget, pred_table_to_flag = pred_flags,
                  table_connections = connections, env_cardinalities = cs, table_functions = fs,
                  valid_tuple_handler = handler, env_state = JoinStateNew cs, execution_engine = mem\<rparr>;
           ue = permutable_uct ops call ue in
       bindO (Some (UctJoinAgentNew ue forget tables prefix_order c)) (\<lambda>(agent, c).
       bindO (run_agent ue agent (env, w) c) (\<lambda>(env, w). Some (Inr (execution_engine env, w))))))"

definition recompiling_uct ::
    "'d double_ops \<Rightarrow> (nat list \<Rightarrow> int \<Rightarrow> int \<Rightarrow> engine_flags \<Rightarrow> 'w \<Rightarrow> (int \<times> engine_flags \<times> 'w) res)
     \<Rightarrow> ('d, 'g, RecompilationJoinEnvironment \<times> 'w, 'c) uct_env \<Rightarrow> ('d, 'g, RecompilationJoinEnvironment \<times> 'w, 'c) uct_env" where
  "recompiling_uct ops compiled ue =
     ue\<lparr>ue_ops := ops, ue_IsConnected := \<lambda>e. IsConnected (rc_table_connections (fst e)),
        ue_IsComplete := \<lambda>e. finished (rc_state (fst e)), ue_Execute := RecompilationExecute ops compiled\<rparr>"

definition ExecuteRecompilingSkinnerJoin ::
    "'d double_ops \<Rightarrow> (nat list \<Rightarrow> int \<Rightarrow> int \<Rightarrow> engine_flags \<Rightarrow> 'w \<Rightarrow> (int \<times> engine_flags \<times> 'w) res)
     \<Rightarrow> ('d, 'g, RecompilationJoinEnvironment \<times> 'w, 'c) uct_env \<Rightarrow> bool \<Rightarrow> int
     \<Rightarrow> nat \<Rightarrow> int list \<Rightarrow> (nat \<times> nat) list \<Rightarrow> nat list \<Rightarrow> int list \<Rightarrow> int \<Rightarrow> 'w \<Rightarrow> 'c \<Rightarrow> (int list \<times> int \<times> 'w) ores" where
  "ExecuteRecompilingSkinnerJoin ops compiled ue forget budget tables cardinality_arr connections prefix_order idx results w c =
     bindO (Some (ReconstructCardinalities tables cardinality_arr)) (\<lambda>cs.
     if 0 \<in> set cs then Some (Inr (idx, results, w))
     else
       bindO (Some (foldR (\<lambda>idx i. updR idx i 0) idx [0..<tables])) (\<lambda>idx.
       let mem = \<lparr>progress_arr = replicate tables (-1), table_ctr = 0, idx_arr = idx, num_result_tuples = results,
                  offset_arr = replicate tables (-1)\<rparr>;
           env = \<lparr>rc_budget_per_episode = budget, rc_table_connections = connections, rc_cardinalities = cs,
                  rc_state = JoinStateNew cs, rc_engine = mem\<rparr>;
           ue = recompiling_uct ops compiled ue in
       bindO (Some (UctJoinAgentNew ue forget tables prefix_order c)) (\<lambda>(agent, c).
       bindO (run_agent ue agent (env, w) c) (\<lambda>(env, w).
         Some (Inr (idx_arr (rc_engine env), num_result_tuples (rc_engine env), w))))))"

end
