(* ===== verification/SkinnerExec.thy ===== *)
theory SkinnerExec
  imports SkinnerEnv
begin

text \<open>
  What executing an order does to the state of the join, for both environments, under the contract of the generated
  functions: they keep the sizes of the shared arrays and report a position behind the one they were resumed from.
\<close>

section \<open>The position a generated function reports\<close>

lemma tables_after_append:
  assumes "distinct (p @ x # q)" shows "tables_after (p @ x # q) (int x) = q"
proof -
  have "takeWhile (\<lambda>table. int table \<noteq> int x) (rev q @ x # rev p) = rev q"
    by (subst takeWhile_append2) (use assms in auto)
  then show ?thesis by (simp add: tables_after_def)
qed

lemma copy_rows:
  assumes "set xs \<subseteq> {..<length t}" "length src = length t"
  shows "\<exists>t'. foldR (\<lambda>t table. bindR (nthR src table) (\<lambda>v. updR t table (g v))) t xs = Inr t' \<and> length t' = length t
    \<and> (\<forall>x. t' ! x = (if x \<in> set xs then g (src ! x) else t ! x))"
  using assms
proof (induction xs arbitrary: t)
  case (Cons x xs)
  then obtain t' where "foldR (\<lambda>t table. bindR (nthR src table) (\<lambda>v. updR t table (g v))) (t[x := g (src ! x)]) xs = Inr t'"
      "length t' = length t" "\<forall>y. t' ! y = (if y \<in> set xs then g (src ! y) else t[x := g (src ! x)] ! y)"
    using Cons.IH [of "t[x := g (src ! x)]"] by auto
  then show ?case using Cons.prems by (auto simp: nth_list_update)
qed simp

text \<open>The number of tuples of the order that are completed when a function reports a position.\<close>

definition reported :: "int list \<Rightarrow> nat list \<Rightarrow> nat list \<Rightarrow> int \<Rightarrow> int list \<Rightarrow> int" where
  "reported cs p q status idx = (if status = -2 then rank cs p idx else rank cs p idx + 1) * combos cs q"

lemma compute_last_completed:
  assumes "valid_order (length cs) (p @ x # q)" "cards_ok cs" "length idx = length cs" "rows_ok cs (p @ [x]) idx"
  shows "\<exists>t. ComputeLastCompletedTuple (p @ x # q) cs status (int x) idx = Inr t \<and> tuple_ok cs t
    \<and> rank cs (p @ x # q) t =
        (if reported cs (p @ [x]) q status idx = 0 then combos cs (p @ x # q) else reported cs (p @ [x]) q status idx) - 1"
proof -
  let ?order = "p @ x # q" and ?p = "p @ [x]"
  have vo: "distinct ?order" "set ?order = {..<length cs}" using assms(1) by (simp_all only: valid_order_def)
  have len: "length ?order = length cs" by (rule valid_order_length [OF assms(1)])
  have "set q \<subseteq> set ?order" "set ?p \<subseteq> set ?order" by auto
  then have q1: "set q \<subseteq> {..<length cs}" and p: "\<And>y. y \<in> set ?p \<Longrightarrow> y < length cs" unfolding vo(2) by blast+
  have q: "set q \<subseteq> {..<length cs}" "set ?p \<inter> set q = {}" using vo(1) q1 by auto
  have ta: "tables_after ?order (int x) = q" by (rule tables_after_append [OF vo(1)])
  have tup: "tuple_ok cs t" if "rows_ok cs ?order t" "length t = length cs" for t
    using that unfolding tuple_ok_def rows_ok_def vo(2) by simp
  obtain t0 where t0: "foldR (\<lambda>t table. bindR (nthR idx table) (\<lambda>v. updR t table v)) (replicate (length ?order) 0) ?order = Inr t0"
      "length t0 = length cs" "\<And>y. y < length cs \<Longrightarrow> t0 ! y = idx ! y"
    using copy_rows [of ?order "replicate (length ?order) 0" idx "\<lambda>v. v"] len assms(3) unfolding vo(2) by auto
  have rp: "rank cs ?p t0 = rank cs ?p idx" by (rule rank_cong) (use t0(3) p in blast)
  have split: "rank cs ?order t = rank cs ?p t * combos cs q + rank cs q t" for t using rank_append [of cs ?p q t] by simp
  have q0: "set q \<subseteq> {..<length t0}" using q(1) t0(2) by simp
  have rows: "rows_ok cs ?order t" if "rows_ok cs ?p t" "rows_ok cs q t" for t using that by (auto simp: rows_ok_def)
  show ?thesis
  proof (cases "status = -2")
    case False
    obtain t where t: "foldR (\<lambda>t table. bindR (nthR cs table) (\<lambda>c. updR t table (c - 1))) t0 q = Inr t" "length t = length cs"
        "\<And>y. t ! y = (if y \<in> set q then cs ! y - 1 else t0 ! y)"
      using copy_rows [OF q0 t0(2) [symmetric], of "\<lambda>c. c - 1"] unfolding t0(2) by blast
    have "rank cs ?p t = rank cs ?p t0" by (rule rank_cong) (use t(3) q(2) in auto)
    moreover have "rank cs q t = combos cs q - 1" by (rule rank_last) (use t(3) in auto)
    ultimately have r: "rank cs ?order t = reported cs ?p q status idx - 1"
      using False rp by (simp add: split reported_def algebra_simps)
    have "rows_ok cs ?p t" using assms(4) t(3) t0(3) p q(2) unfolding rows_ok_def by (metis disjoint_iff)
    moreover have "rows_ok cs q t" using t(3) q(1) assms(2) by (auto simp: rows_ok_def cards_ok_def)
    ultimately have ok: "rows_ok cs ?order t" by (rule rows)
    have "reported cs ?p q status idx \<noteq> 0" using r rank_bounds [OF ok] by simp
    then show ?thesis using t(1) t0(1) ta False r tup [OF ok t(2)] by (simp add: ComputeLastCompletedTuple_def)
  next
    case True
    obtain t1 where t1: "zero_rest q t0 = Inr t1" "length t1 = length cs" "\<And>y. t1 ! y = (if y \<in> set q then 0 else t0 ! y)"
      using zero_rest_ok [OF q0] unfolding t0(2) by blast
    have "rank cs ?p t1 = rank cs ?p t0" by (rule rank_cong) (use t1(3) q(2) in auto)
    moreover have "rank cs q t1 = 0" by (rule rank_zero) (use t1(3) in auto)
    ultimately have r: "rank cs ?order t1 = reported cs ?p q status idx" using True rp by (simp add: split reported_def)
    have "rows_ok cs ?p t1" using assms(4) t1(3) t0(3) p q(2) unfolding rows_ok_def by (metis disjoint_iff)
    moreover have "rows_ok cs q t1" using t1(3) q(1) assms(2) by (auto simp: rows_ok_def cards_ok_def)
    ultimately have ok: "rows_ok cs ?order t1" by (rule rows)
    obtain t where t: "last_decrement cs (rev ?order) t1 = Inr t" "stepped_back cs ?order t1 t"
      using last_decrement_back [OF ok vo(1)] t1(2) unfolding vo(2) by auto
    have "tuple_ok cs t" using t(2) t1(2) by (intro tup) (auto simp: stepped_back_def)
    then show ?thesis using t t0(1) t1(1) ta True r by (simp add: ComputeLastCompletedTuple_def stepped_back_def)
  qed
qed

section \<open>Setting up an execution\<close>

lemma SetResumeProgress_eq:
  assumes "length last_completed = n" "length offs = n" "length (progress_arr mem) = n" "length (offset_arr mem) = n" "order = x # xs"
  shows "SetResumeProgress order last_completed offs mem =
    Inr (mem\<lparr>progress_arr := map (\<lambda>i. max (offs ! i) (last_completed ! i)) [0..<n], offset_arr := offs, table_ctr := int x,
      num_result_tuples := 0\<rparr>)"
proof -
  let ?step = "\<lambda>mem table. bindR (nthR offs table) (\<lambda>o'. bindR (updR (progress_arr mem) table (max o' (last_completed ! table))) (\<lambda>p.
      bindR (updR (offset_arr mem) table o') (\<lambda>oa. Inr (mem\<lparr>progress_arr := p, offset_arr := oa\<rparr>))))"
  have "foldR ?step mem [0..<k] = Inr (mem\<lparr>progress_arr := map (\<lambda>i. max (offs ! i) (last_completed ! i)) [0..<k] @ drop k (progress_arr mem),
      offset_arr := take k offs @ drop k (offset_arr mem)\<rparr>)" if "k \<le> n" for k
    using that
  proof (induction k)
    case (Suc k)
    then have "k < n" and IH: "foldR ?step mem [0..<k] = Inr (mem\<lparr>progress_arr := map (\<lambda>i. max (offs ! i) (last_completed ! i)) [0..<k] @ drop k (progress_arr mem),
      offset_arr := take k offs @ drop k (offset_arr mem)\<rparr>)" by auto
    then show ?case
      using assms by (simp add: foldR_append list_update_append take_Suc_conv_app_nth flip: Cons_nth_drop_Suc)
  qed simp
  from this [of n] show ?thesis using assms by (simp add: SetResumeProgress_def)
qed

text \<open>The chain of handlers along an order.\<close>

definition chained :: "'f list \<Rightarrow> 'f \<Rightarrow> 'f list \<Rightarrow> nat list \<Rightarrow> bool" where
  "chained functions handler fs order \<longleftrightarrow>
     (\<forall>i. Suc i < length order \<longrightarrow> fs ! (order ! i) = functions ! (order ! Suc i)) \<and> fs ! last order = handler"

lemma handlers_set:
  assumes "distinct order" "set order \<subseteq> {..<length fs}" "length functions = length fs"
  shows "\<exists>fs'. foldR (\<lambda>fs (current_table, next_table). bindR (nthR functions next_table) (\<lambda>f. updR fs current_table f)) fs (zip order (tl order)) = Inr fs'
    \<and> length fs' = length fs \<and> (\<forall>z. z \<notin> set (butlast order) \<longrightarrow> fs' ! z = fs ! z)
    \<and> (\<forall>i. Suc i < length order \<longrightarrow> fs' ! (order ! i) = functions ! (order ! Suc i))"
  using assms
proof (induction order arbitrary: fs)
  case (Cons x xs)
  show ?case
  proof (cases xs)
    case (Cons y ys)
    let ?fs = "fs[x := functions ! y]"
    obtain fs' where fs': "foldR (\<lambda>fs (current_table, next_table). bindR (nthR functions next_table) (\<lambda>f. updR fs current_table f)) ?fs (zip xs (tl xs)) = Inr fs'"
        "length fs' = length ?fs" "\<forall>z. z \<notin> set (butlast xs) \<longrightarrow> fs' ! z = ?fs ! z"
        "\<forall>i. Suc i < length xs \<longrightarrow> fs' ! (xs ! i) = functions ! (xs ! Suc i)"
      using Cons.IH [of ?fs] Cons.prems by auto
    have x: "x \<notin> set (butlast xs)" "x < length fs" "y < length functions" using Cons.prems Cons by (auto dest: in_set_butlastD)
    have "fs' ! ((x # xs) ! i) = functions ! ((x # xs) ! Suc i)" if "Suc i < length (x # xs)" for i
      using that fs'(3,4) x Cons by (cases i) auto
    then show ?thesis using fs' x Cons by (intro exI [of _ fs']) (auto simp: nth_list_update)
  qed simp
qed simp

lemma SetJoinOrder_chains:
  assumes "distinct order" "order \<noteq> []" "set order \<subseteq> {..<length functions}" "length (join_handler_fn_arr mem) = length functions"
  shows "\<exists>fs. SetJoinOrder functions handler order mem = Inr (mem\<lparr>join_handler_fn_arr := fs\<rparr>) \<and> length fs = length functions
    \<and> chained functions handler fs order"
proof -
  obtain fs where fs: "foldR (\<lambda>fs (current_table, next_table). bindR (nthR functions next_table) (\<lambda>f. updR fs current_table f))
      (join_handler_fn_arr mem) (zip order (tl order)) = Inr fs" "length fs = length functions"
      "\<forall>i. Suc i < length order \<longrightarrow> fs ! (order ! i) = functions ! (order ! Suc i)"
    using handlers_set [OF assms(1) assms(3) [folded assms(4)] assms(4) [symmetric]] unfolding assms(4) by blast
  have lt: "last order < length functions" using assms(2,3) last_in_set by blast
  have "order ! i \<noteq> last order" if "Suc i < length order" for i
    using that assms(1,2) by (simp add: last_conv_nth nth_eq_iff_index_eq)
  then have "chained functions handler (fs[last order := handler]) order" using fs lt by (simp add: chained_def) (metis nth_list_update_neq)
  then show ?thesis using fs lt assms(2) by (intro exI [of _ "fs[last order := handler]"]) (simp add: SetJoinOrder_def)
qed

lemma Reward_total:
  assumes "set order \<subseteq> {..<length cs}" "length offs = length cs" "length initial = length cs" "length final = length cs"
  shows "\<exists>r. Reward ops order offs initial final cs k b = Inr r"
proof -
  have "\<exists>st'. foldR (reward_step ops offs initial final cs) st order = Inr st' \<and> True" for st
    by (rule foldR_total) (use assms in \<open>auto simp: reward_step_def Let_def split: prod.splits\<close>)
  then obtain p w where "foldR (reward_step ops offs initial final cs) (d_of_int ops 0, d_of_int ops 1) order = Inr (p, w)"
    by (metis surj_pair)
  then show ?thesis by (simp add: Reward_def)
qed

section \<open>Predicate flags\<close>

text \<open>Every predicate names a table, and its flags are in the array.\<close>

definition preds_ok :: "nat \<Rightarrow> nat \<Rightarrow> nat \<Rightarrow> ((nat \<times> nat) \<times> nat) list \<Rightarrow> bool" where
  "preds_ok n np nf flags \<longleftrightarrow> (\<forall>pred<np. \<exists>t<n. map_of flags (pred, t) \<noteq> None) \<and> (\<forall>k f. map_of flags k = Some f \<longrightarrow> f < nf)"

text \<open>The flag of a predicate in an order: that of the table with which the last of its tables becomes available.\<close>

definition pred_flag :: "((nat \<times> nat) \<times> nat) list \<Rightarrow> nat list \<Rightarrow> nat \<Rightarrow> nat \<Rightarrow> nat \<Rightarrow> bool" where
  "pred_flag flags order i pred f \<longleftrightarrow>
     all_tables_available flags (length order) (take (i + 1) order) pred
     \<and> \<not> all_tables_available flags (length order) (take i order) pred \<and> map_of flags (pred, order ! i) = Some f"

abbreviation avail :: "((nat \<times> nat) \<times> nat) list \<Rightarrow> nat list \<Rightarrow> nat \<Rightarrow> nat \<Rightarrow> bool" where
  "avail flags order i pred \<equiv> all_tables_available flags (length order) (take i order) pred"

lemma avail_mono: "avail flags order i pred \<Longrightarrow> i \<le> j \<Longrightarrow> avail flags order j pred"
  using set_take_subset_set_take [of i j order] by (auto simp: all_tables_available_def)

lemma newly_available:
  assumes "avail flags order (i + 1) pred" "\<not> avail flags order i pred" "i < length order"
  obtains f where "map_of flags (pred, order ! i) = Some f"
proof -
  from assms(2) obtain t where t: "t < length order" "map_of flags (pred, t) \<noteq> None" "t \<notin> set (take i order)"
    by (auto simp: all_tables_available_def)
  then have "t \<in> set (take (i + 1) order)" using assms(1) by (auto simp: all_tables_available_def)
  then have "t = order ! i" using t(3) assms(3) by (simp add: take_Suc_conv_app_nth)
  then show thesis using t(2) that by auto
qed

definition raised :: "((nat \<times> nat) \<times> nat) list \<Rightarrow> nat list \<Rightarrow> nat \<Rightarrow> nat \<Rightarrow> nat \<Rightarrow> nat set" where
  "raised flags order np i k = {f. (\<exists>pred<np. \<exists>j<i. pred_flag flags order j pred f) \<or> (\<exists>pred<k. pred_flag flags order i pred f)}"

definition toggled :: "((nat \<times> nat) \<times> nat) list \<Rightarrow> nat list \<Rightarrow> nat \<Rightarrow> nat \<Rightarrow> nat \<Rightarrow> nat \<Rightarrow> nat list \<times> int list \<Rightarrow> bool" where
  "toggled flags order np nf i k st \<longleftrightarrow>
     set (fst st) = {pred. pred < np \<and> avail flags order i pred} \<union> {pred. pred < k \<and> avail flags order (i + 1) pred}
     \<and> length (snd st) = nf \<and> (\<forall>f<nf. snd st ! f = (if f \<in> raised flags order np i k then 1 else 0))"

lemma toggle_step:
  assumes inv: "toggled flags order np nf i k st" and ok: "k < np" "i < length order" "preds_ok (length order) np nf flags"
  shows "\<exists>st'. toggle_pred flags (length order) (take (i + 1) order) (order ! i) st k = Inr st' \<and> toggled flags order np nf i (Suc k) st'"
proof -
  obtain ex fs where st: "st = (ex, fs)" by (cases st)
  have ex: "k \<in> set ex \<longleftrightarrow> avail flags order i k" using inv ok(1) by (auto simp: toggled_def st)
  consider (old) "avail flags order i k" | (no) "\<not> avail flags order (i + 1) k"
    | (new) "\<not> avail flags order i k" "avail flags order (i + 1) k" by blast
  then show ?thesis
  proof cases
    case old
    then have "\<not> pred_flag flags order i k f" for f by (simp add: pred_flag_def)
    then have "raised flags order np i (Suc k) = raised flags order np i k" by (auto simp: raised_def less_Suc_eq)
    then have "toggled flags order np nf i (Suc k) st" using inv old ok(1) avail_mono [OF old, of "i + 1"] by (auto simp: toggled_def less_Suc_eq)
    then show ?thesis using old ex by (simp add: toggle_pred_def st)
  next
    case no
    then have na: "\<not> avail flags order i k" using avail_mono [of flags order i k "i + 1"] by auto
    have "\<not> pred_flag flags order i k f" for f using no by (simp add: pred_flag_def)
    then have "raised flags order np i (Suc k) = raised flags order np i k" by (auto simp: raised_def less_Suc_eq)
    then have "toggled flags order np nf i (Suc k) st" using inv no by (auto simp: toggled_def less_Suc_eq)
    then show ?thesis using no na ex by (simp add: toggle_pred_def st)
  next
    case new
    obtain f where f: "map_of flags (k, order ! i) = Some f" by (rule newly_available [OF new(2,1) ok(2)])
    have fn: "f < nf" using ok(3) f by (auto simp: preds_ok_def)
    have "pred_flag flags order i k f' \<longleftrightarrow> f' = f" for f' using new f by (auto simp: pred_flag_def)
    then have "raised flags order np i (Suc k) = insert f (raised flags order np i k)" by (auto simp: raised_def less_Suc_eq)
    then have "toggled flags order np nf i (Suc k) (k # ex, fs[f := 1])"
      using inv new(2) fn by (auto simp: toggled_def less_Suc_eq st nth_list_update split: if_splits)
    then show ?thesis using new ex f fn inv by (simp add: toggle_pred_def st toggled_def)
  qed
qed

lemma toggle_row:
  assumes "toggled flags order np nf i 0 st" "i < length order" "preds_ok (length order) np nf flags"
  shows "\<exists>st'. foldR (toggle_pred flags (length order) (take (i + 1) order) (order ! i)) st [0..<np] = Inr st'
    \<and> toggled flags order np nf (Suc i) 0 st'"
proof -
  have "\<exists>st'. foldR (toggle_pred flags (length order) (take (i + 1) order) (order ! i)) st [0..<k] = Inr st' \<and> toggled flags order np nf i k st'"
    if "k \<le> np" for k
    using that
  proof (induction k)
    case (Suc k)
    then obtain st' where "foldR (toggle_pred flags (length order) (take (i + 1) order) (order ! i)) st [0..<k] = Inr st'"
        "toggled flags order np nf i k st'" by auto
    then show ?case using toggle_step [of flags order np nf i k st'] Suc.prems assms(2,3) by (auto simp: foldR_append)
  qed (use assms(1) in simp)
  then obtain st' where st': "foldR (toggle_pred flags (length order) (take (i + 1) order) (order ! i)) st [0..<np] = Inr st'"
      "toggled flags order np nf i np st'" by blast
  have "raised flags order np (Suc i) 0 = raised flags order np i np" by (auto simp: raised_def less_Suc_eq)
  moreover have "{pred. pred < np \<and> avail flags order i pred} \<union> {pred. pred < np \<and> avail flags order (i + 1) pred}
      = {pred. pred < np \<and> avail flags order (Suc i) pred}" using avail_mono [of flags order i _ "i + 1"] by auto
  ultimately have "toggled flags order np nf (Suc i) 0 st'" using st'(2) by (simp add: toggled_def)
  then show ?thesis using st'(1) by blast
qed

lemma clear_flags: "k \<le> length fs \<Longrightarrow> foldR (\<lambda>fs i. updR fs i 0) fs [0..<k] = Inr (replicate k (0 :: int) @ drop k fs)"
proof (induction k)
  case (Suc k)
  then show ?case by (simp add: foldR_append list_update_append replicate_append_same flip: Cons_nth_drop_Suc)
qed simp

lemma toggled_flags:
  assumes "preds_ok (length order) (num_preds env) (num_flags env) (pred_table_to_flag env)" "length flags = num_flags env"
  shows "\<exists>fs. TogglePredicateFlags env order flags = Inr fs \<and> length fs = num_flags env
    \<and> (\<forall>f<num_flags env. fs ! f =
         (if \<exists>pred<num_preds env. \<exists>i<length order. pred_flag (pred_table_to_flag env) order i pred f then 1 else 0))"
proof -
  let ?np = "num_preds env" and ?nf = "num_flags env" and ?fl = "pred_table_to_flag env"
  let ?row = "\<lambda>st i. foldR (toggle_pred ?fl (length order) (take (i + 1) order) (order ! i)) st [0..<?np]"
  have "\<not> avail ?fl order 0 pred" if "pred < ?np" for pred
    using assms(1) that unfolding preds_ok_def all_tables_available_def by fastforce
  then have init: "toggled ?fl order ?np ?nf 0 0 ([], replicate ?nf 0)" by (auto simp: toggled_def raised_def)
  have "\<exists>st. foldR ?row ([], replicate ?nf 0) [0..<i] = Inr st \<and> toggled ?fl order ?np ?nf i 0 st" if "i \<le> length order" for i
    using that
  proof (induction i)
    case (Suc i)
    then obtain ex fs where "foldR ?row ([], replicate ?nf 0) [0..<i] = Inr (ex, fs)" "toggled ?fl order ?np ?nf i 0 (ex, fs)" by auto
    then show ?case using toggle_row [of ?fl order ?np ?nf i "(ex, fs)"] Suc.prems assms(1) by (auto simp: foldR_append)
  qed (use init in simp)
  from this [OF order_refl] obtain st where "foldR ?row ([], replicate ?nf 0) [0..<length order] = Inr st \<and> toggled ?fl order ?np ?nf (length order) 0 st"
    by (rule exE)
  moreover obtain ex fs where "st = (ex, fs)" by (cases st)
  ultimately have st: "foldR ?row ([], replicate ?nf 0) [0..<length order] = Inr (ex, fs)"
      "toggled ?fl order ?np ?nf (length order) 0 (ex, fs)" by simp_all
  have "TogglePredicateFlags env order flags = Inr fs"
    using clear_flags [of ?nf flags] assms(2) st(1) by (simp add: TogglePredicateFlags_def)
  then show ?thesis using st(2) by (intro exI [of _ fs]) (auto simp: toggled_def raised_def)
qed


text \<open>One predicate on tables 0 and 2 with the flags 0 and 1: the order 2, 1, 0 raises the flag of table 0.\<close>

definition example_env :: "nat PermutableJoinEnvironment" where
  "example_env = \<lparr>num_preds = 1, num_flags = 2, budget_per_episode = 100, pred_table_to_flag = [((0, 0), 0), ((0, 2), 1)],
     table_connections = [(0, 2), (2, 0)], env_cardinalities = [2, 3, 4], table_functions = [0, 1, 2], valid_tuple_handler = 9,
     env_state = JoinStateNew [2, 3, 4],
     execution_engine = \<lparr>progress_arr = [0, 0, 0], table_ctr = 0, idx_arr = [2, 3, 4], num_result_tuples = 0, offset_arr = [0, 0, 0],
       join_handler_fn_arr = [0, 1, 2], flag_arr = [7, 7]\<rparr>\<rparr>"


section \<open>The contract of the generated functions\<close>

text \<open>
  A function reports the table it stopped in and rows for the tables up to it. By then it has completed a tuple, and
  one behind the tuple of the progress array when it was resumed.
\<close>

definition reports :: "int list \<Rightarrow> nat list \<Rightarrow> int \<Rightarrow> int list \<Rightarrow> int \<Rightarrow> int \<Rightarrow> int list \<Rightarrow> bool" where
  "reports cs order flag progress status ctr idx \<longleftrightarrow>
     (\<exists>p x q. order = p @ x # q \<and> ctr = int x \<and> length idx = length cs \<and> rows_ok cs (p @ [x]) idx
        \<and> 0 < reported cs (p @ [x]) q status idx
        \<and> (flag \<noteq> 0 \<longrightarrow> rank cs order progress + 1 < reported cs (p @ [x]) q status idx))"

lemma reports_compute:
  assumes "reports cs order flag progress status ctr idx" "valid_order (length cs) order" "cards_ok cs"
  obtains t where "ComputeLastCompletedTuple order cs status ctr idx = Inr t" "tuple_ok cs t"
    "flag \<noteq> 0 \<Longrightarrow> rank cs order progress < rank cs order t"
proof -
  from assms(1) obtain p x q where o: "order = p @ x # q" "ctr = int x" "length idx = length cs" "rows_ok cs (p @ [x]) idx"
      "0 < reported cs (p @ [x]) q status idx" "flag \<noteq> 0 \<longrightarrow> rank cs order progress + 1 < reported cs (p @ [x]) q status idx"
    unfolding reports_def by blast
  from compute_last_completed [OF assms(2) [unfolded o(1)] assms(3) o(3,4), of status]
  obtain t where "ComputeLastCompletedTuple order cs status ctr idx = Inr t" "tuple_ok cs t"
      "rank cs order t = reported cs (p @ [x]) q status idx - 1"
    using o(5) unfolding o(1,2) by auto
  then show thesis using o(6) by (intro that) auto
qed

lemma rank_mono:
  assumes "cards_ok cs" "set xs \<subseteq> {..<length cs}" "\<And>x. x \<in> set xs \<Longrightarrow> s ! x \<le> t ! x"
  shows "rank cs xs s \<le> rank cs xs t"
  using assms(2,3)
proof (induction xs)
  case (Cons x xs)
  have "0 < combos cs xs" using Cons.prems(1) by (intro cards_combos_pos [OF assms(1)]) simp
  then have "s ! x * combos cs xs \<le> t ! x * combos cs xs" using Cons.prems(2) by (intro mult_right_mono) auto
  then show ?case using Cons by simp
qed simp

lemma UpdateJoin_total:
  assumes "join_ok cs st" "\<not> finished st" "valid_order (length cs) order" "tuple_ok cs t" "completed cs (root st) order \<le> rank cs order t"
  shows "\<exists>st'. UpdateJoin st order t = Inr st'"
proof -
  note j = join_okD [OF assms(1)] and v = valid_orderD [OF assms(3,4)]
  obtain tree where tree: "update_progress (length cs) t (root st) order = Inr tree"
    using update_progress_total [OF assms(5) j(4) v(4,2,3) j(2)] by blast
  obtain x xs where o: "order = x # xs" using v(1) j(1) by (cases order) auto
  show ?thesis
    using tree update_offset_ok [OF assms(3) [unfolded o] assms(4) j(5)] assms(2) v(1,4)
    by (auto simp: UpdateJoin_def j(3) IsJoinCompleted_iff o)
qed

text \<open>What both environments do with the report.\<close>

lemma execution_recorded:
  assumes ok: "join_ok cs js" "\<not> finished js" "valid_order (length cs) order" "GetLastCompletedTupleIdx js order = Inr initial"
    and rep: "reports cs order (if initial \<noteq> None then 1 else 0)
      (map (\<lambda>i. max (offset js ! i) (value_or initial (replicate (length order) (-1)) ! i)) [0..<length cs]) status ctr idx"
  obtains t js' where "ComputeLastCompletedTuple order cs status ctr idx = Inr t" "tuple_ok cs t"
    "completed cs (root js) order \<le> rank cs order t" "UpdateJoin js order t = Inr js'"
proof -
  note j = join_okD [OF ok(1)]
  obtain t where t: "ComputeLastCompletedTuple order cs status ctr idx = Inr t" "tuple_ok cs t"
      "initial \<noteq> None \<Longrightarrow> rank cs order (map (\<lambda>i. max (offset js ! i) (value_or initial (replicate (length order) (-1)) ! i)) [0..<length cs]) < rank cs order t"
    by (rule reports_compute [OF rep ok(3) j(2)]) (auto split: if_splits)
  note v = valid_orderD [OF ok(3) t(2)]
  have "completed cs (root js) order \<le> rank cs order t"
  proof (cases initial)
    case None
    then show ?thesis using resume_point [OF ok(1,3)] ok(4) rank_bounds [OF v(3)] by (auto split: if_splits)
  next
    case (Some t0)
    have "rank cs order t0 \<le> rank cs order (map (\<lambda>i. max (offset js ! i) (t0 ! i)) [0..<length cs])"
      by (rule rank_mono [OF j(2) v(2)]) (use v(2) in auto)
    then have "rank cs order t0 < rank cs order t" using t(3) by (simp add: Some value_or_def)
    then show ?thesis using resume_point [OF ok(1,3)] ok(4) Some by (auto split: if_splits)
  qed
  moreover from UpdateJoin_total [OF ok(1-3) t(2) this] obtain js' where "UpdateJoin js order t = Inr js'" by blast
  ultimately show thesis using that t(1,2) by blast
qed

lemma update_join_kept:
  assumes "UpdateJoin js order t = Inr js'" "join_ok cs js" "valid_order (length cs) order" "tuple_ok cs t"
  shows "join_ok cs js'"
  using update_covers [OF assms, of UNIV UNIV] by (simp add: covers_def)

text \<open>Until a join is finished, no order is credited with all of its tuples and no offset covers a table.\<close>

definition work_remains :: "int list \<Rightarrow> JoinState \<Rightarrow> bool" where
  "work_remains cs st \<longleftrightarrow> finished st \<or>
     (\<forall>order. valid_order (length cs) order \<longrightarrow> completed cs (root st) order < combos cs order)
     \<and> (\<forall>x<length cs. offset st ! x < cs ! x - 1)"

lemma rank_not_last:
  assumes "rows_ok cs xs t" "x \<in> set xs" "t ! x \<noteq> cs ! x - 1" "set xs \<subseteq> {..<length cs}" "cards_ok cs"
  shows "rank cs xs t + 1 < combos cs xs"
proof (rule ccontr)
  let ?l = "map (\<lambda>c. c - 1) cs"
  assume "\<not> rank cs xs t + 1 < combos cs xs"
  then have "rank cs xs t = combos cs xs - 1" using rank_bounds [OF assms(1)] by simp
  also have "\<dots> = rank cs xs ?l" by (rule rank_last [symmetric]) (use assms(4) in auto)
  finally have "t ! x = ?l ! x"
    by (rule rank_inj [OF _ assms(1) _ assms(2)]) (use assms(4,5) in \<open>fastforce simp: rows_ok_def cards_ok_def subset_iff\<close>)
  then show False using assms(2-4) by auto
qed

lemma credited_less:
  assumes "credited cs t order order' k" "valid_order (length cs) order" "valid_order (length cs) order'" "tuple_ok cs t"
    "cards_ok cs" "\<not> (\<forall>x<length cs. t ! x = cs ! x - 1)"
  shows "k < combos cs order'"
proof -
  from assms(1) obtain p q q' where o: "order = p @ q" "order' = p @ q'"
    and k: "k = rank cs p t * combos cs q' + (if q' = [] then 1 else 0)" by (auto simp: credited_def)
  note v = valid_orderD [OF assms(3,4)]
  show ?thesis
  proof (cases "q' = []")
    case True
    from assms(6) obtain x where x: "x < length cs" "t ! x \<noteq> cs ! x - 1" by blast
    have "x \<in> set order'" using assms(3) x(1) unfolding valid_order_def by blast
    from rank_not_last [OF v(3) this x(2) v(2) assms(5)] show ?thesis using k o(2) True by simp
  next
    case False
    have p: "rows_ok cs p t" using v(3) by (simp add: o(2) rows_ok_def)
    have "0 < combos cs q'" by (rule cards_combos_pos [OF assms(5)]) (use v(2) in \<open>simp add: o(2)\<close>)
    then show ?thesis using rank_bounds [OF p] False by (simp add: k o(2) combos_append)
  qed
qed

lemma new_work_remains: "cs \<noteq> [] \<Longrightarrow> cards_ok cs \<Longrightarrow> work_remains cs (JoinStateNew cs)"
  using cards_combos_pos [of cs]
  by (auto simp: work_remains_def new_completed valid_order_def) (auto simp: JoinStateNew_def cards_ok_def)

lemma update_work_remains:
  assumes "UpdateJoin js order t = Inr js'" "join_ok cs js" "valid_order (length cs) order" "tuple_ok cs t" "work_remains cs js"
  shows "work_remains cs js'"
  using assms(1-4)
proof (cases rule: UpdateJoin_cases)
  case complete
  then show ?thesis by (simp add: work_remains_def)
next
  case (more offs tree)
  note j = join_okD [OF assms(2)] and v = valid_orderD [OF assms(3,4)]
  note adv = update_progress_advances [OF more(3) j(4) v(4,2,3) j(2)]
  have old: "\<And>order. valid_order (length cs) order \<Longrightarrow> completed cs (root js) order < combos cs order"
      "\<And>x. x < length cs \<Longrightarrow> offset js ! x < cs ! x - 1"
    using assms(5) more(1) by (auto simp: work_remains_def)
  have "completed cs tree order' < combos cs order'" if o': "valid_order (length cs) order'" for order'
  proof -
    have "set order' \<subseteq> {..<length cs}" using o' by (simp add: valid_order_def)
    then have "completed cs tree order' = completed cs (root js) order' \<or> credited cs t order order' (completed cs tree order')"
      using adv unfolding advanced_def by blast
    then show ?thesis using old(1) [OF o'] credited_less [OF _ assms(3) o' assms(4) j(2) more(5)] by auto
  qed
  moreover have "offs ! y < cs ! y - 1" if y: "y < length cs" for y
  proof -
    obtain x xs where o: "order = x # xs" using v(1) j(1) by (cases order) auto
    let ?done = "\<forall>y\<in>set xs. t ! y = cs ! y - 1"
    have offs: "offs = (offset js)[x := max (if ?done then t ! x else t ! x - 1) (offset js ! x)]"
      using more(2) update_offset_ok [OF assms(3) [unfolded o] assms(4) j(5)] by (simp add: o)
    have x: "x < length cs" "t ! x < cs ! x" using v(2,3) by (simp_all add: o rows_ok_def)
    have "\<not> (\<forall>z\<in>set order. t ! z = cs ! z - 1)" using more(5) assms(3) unfolding valid_order_def by (metis lessThan_iff)
    then have "(if ?done then t ! x else t ! x - 1) < cs ! x - 1" using x(2) by (auto simp: o)
    then show ?thesis using old(2) y j(5) x(1) by (cases "y = x") (simp_all add: offs)
  qed
  ultimately show ?thesis using more(4) by (simp add: work_remains_def)
qed

text \<open>A function that resumes gets a tuple of the order that is not its last one.\<close>

definition resumable :: "int list \<Rightarrow> nat list \<Rightarrow> int \<Rightarrow> int list \<Rightarrow> bool" where
  "resumable cs order flag progress \<longleftrightarrow> (flag \<noteq> 0 \<longrightarrow> tuple_ok cs progress \<and> rank cs order progress + 1 < combos cs order)"

lemma execution_resumable:
  assumes "join_ok cs js" "\<not> finished js" "valid_order (length cs) order" "GetLastCompletedTupleIdx js order = Inr initial" "work_remains cs js"
  shows "resumable cs order (if initial \<noteq> None then 1 else 0)
    (map (\<lambda>i. max (offset js ! i) (value_or initial (replicate (length order) (-1)) ! i)) [0..<length cs])"
proof (cases initial)
  case (Some t)
  note j = join_okD [OF assms(1)]
  let ?p = "map (\<lambda>i. max (offset js ! i) (t ! i)) [0..<length cs]"
  have t: "tuple_ok cs t" "rank cs order t + 1 = completed cs (root js) order"
    using resume_point [OF assms(1,3)] assms(4) Some by (auto split: if_splits)
  have w: "rank cs order t + 1 < combos cs order" "\<And>x. x < length cs \<Longrightarrow> offset js ! x < cs ! x - 1"
    using assms(2,3,5) t(2) by (auto simp: work_remains_def)
  have p: "tuple_ok cs ?p" using t(1) w(2) by (force simp: tuple_ok_def)
  note v = valid_orderD [OF assms(3) p]
  obtain x where x: "x \<in> set order" "t ! x \<noteq> cs ! x - 1" using rank_last [of order t cs] w(1) by auto
  then have "x < length cs" using v(2) by auto
  then have "?p ! x \<noteq> cs ! x - 1" using x(2) w(2) [of x] by auto
  from rank_not_last [OF v(3) x(1) this v(2) j(2)] show ?thesis using p by (simp add: resumable_def Some value_or_def)
qed (simp add: resumable_def)

section \<open>The interface of an environment\<close>

text \<open>
  What the agent relies on: executing a valid order on a join that is not finished works, keeps the environment well
  formed and records a tuple behind the completed ones of the order.
\<close>

locale join_environment =
  fixes cs :: "int list" and env_ok :: "'e \<Rightarrow> bool" and state_of :: "'e \<Rightarrow> JoinState"
    and execute :: "'e \<Rightarrow> nat list \<Rightarrow> ('d \<times> 'e) res"
  assumes env_join_ok: "env_ok e \<Longrightarrow> join_ok cs (state_of e)"
    and execute_advances: "env_ok e \<Longrightarrow> \<not> finished (state_of e) \<Longrightarrow> valid_order (length cs) order \<Longrightarrow>
      \<exists>r e' t. execute e order = Inr (r, e') \<and> env_ok e' \<and> tuple_ok cs t
        \<and> completed cs (root (state_of e)) order \<le> rank cs order t \<and> UpdateJoin (state_of e) order t = Inr (state_of e')"
begin

text \<open>The work left: the tuples each order has not completed, and one unit for reporting the end.\<close>

definition work_left :: "'e \<Rightarrow> nat" where
  "work_left e = (if finished (state_of e) then 0
     else 1 + (\<Sum>order | valid_order (length cs) order. nat (combos cs order - completed cs (root (state_of e)) order)))"

lemma finite_orders: "finite {order. valid_order (length cs) order}"
  by (rule finite_subset [OF _ finite_lists_length_eq [of "{..<length cs}" "length cs"]])
    (auto simp: valid_order_def dest: valid_order_length [unfolded valid_order_def, OF conjI])

lemma execute_decreases:
  assumes "env_ok e" "\<not> finished (state_of e)" "valid_order (length cs) order"
  obtains r e' where "execute e order = Inr (r, e')" "env_ok e'" "work_left e' < work_left e"
proof -
  obtain r e' t where e': "execute e order = Inr (r, e')" "env_ok e'" and t: "tuple_ok cs t"
      "completed cs (root (state_of e)) order \<le> rank cs order t" "UpdateJoin (state_of e) order t = Inr (state_of e')"
    using execute_advances [OF assms] by blast
  note ok = env_join_ok [OF assms(1)]
  note j = join_okD [OF ok] and v = valid_orderD [OF assms(3) t(1)]
  from t(3) ok assms(3) t(1) have "work_left e' < work_left e"
  proof (cases rule: UpdateJoin_cases)
    case complete
    then show ?thesis using assms(2) by (simp add: work_left_def)
  next
    case (more offs tree)
    note adv = update_progress_advances [OF more(3) j(4) v(4,2,3) j(2)]
    let ?left = "\<lambda>tr order. nat (combos cs order - completed cs tr order)"
    have nf: "\<not> finished (state_of e')" "root (state_of e') = tree" using more by simp_all
    have "(\<Sum>o' | valid_order (length cs) o'. ?left tree o') < (\<Sum>o' | valid_order (length cs) o'. ?left (root (state_of e)) o')"
    proof (rule sum_strict_mono_ex1 [OF finite_orders])
      show "\<forall>o'\<in>{o'. valid_order (length cs) o'}. ?left tree o' \<le> ?left (root (state_of e)) o'"
        using adv unfolding advanced_def valid_order_def by (auto intro!: nat_mono)
      show "\<exists>o'\<in>{o'. valid_order (length cs) o'}. ?left tree o' < ?left (root (state_of e)) o'"
        using adv t(2) rank_bounds [OF v(3)] assms(3) by (intro bexI [of _ order]) auto
    qed
    then show ?thesis using assms(2) nf by (simp add: work_left_def)
  qed
  with e' show thesis by (rule that)
qed

end

text \<open>The environment with one function per table.\<close>

definition permutable_mem_ok :: "nat \<Rightarrow> nat \<Rightarrow> 'f permutable_flags \<Rightarrow> bool" where
  "permutable_mem_ok n nf mem \<longleftrightarrow> length (progress_arr mem) = n \<and> length (offset_arr mem) = n
     \<and> length (join_handler_fn_arr mem) = n \<and> length (flag_arr mem) = nf"

definition permutable_contract ::
    "int list \<Rightarrow> ('f \<Rightarrow> int \<Rightarrow> int \<Rightarrow> 'f permutable_flags \<Rightarrow> 'w \<Rightarrow> (int \<times> 'f permutable_flags \<times> 'w) res)
     \<Rightarrow> 'f list \<Rightarrow> 'f \<Rightarrow> int \<Rightarrow> nat \<Rightarrow> bool" where
  "permutable_contract cs call fs handler budget nf \<longleftrightarrow>
     (\<forall>order mem w flag. valid_order (length cs) order \<longrightarrow> permutable_mem_ok (length cs) nf mem \<longrightarrow>
        chained fs handler (join_handler_fn_arr mem) order \<longrightarrow> resumable cs order flag (progress_arr mem) \<longrightarrow>
        (\<exists>status mem' w'. call (fs ! hd order) budget flag mem w = Inr (status, mem', w') \<and> permutable_mem_ok (length cs) nf mem'
           \<and> reports cs order flag (progress_arr mem) status (table_ctr mem') (idx_arr mem')))"

lemma permutable_contractD:
  assumes "permutable_contract cs call fs handler budget nf" "valid_order (length cs) order" "permutable_mem_ok (length cs) nf mem"
    "chained fs handler (join_handler_fn_arr mem) order" "resumable cs order flag (progress_arr mem)"
  shows "\<exists>status mem' w'. call (fs ! hd order) budget flag mem w = Inr (status, mem', w') \<and> permutable_mem_ok (length cs) nf mem'
    \<and> reports cs order flag (progress_arr mem) status (table_ctr mem') (idx_arr mem')"
  using assms unfolding permutable_contract_def by blast

definition permutable_ok ::
    "int list \<Rightarrow> ('f \<Rightarrow> int \<Rightarrow> int \<Rightarrow> 'f permutable_flags \<Rightarrow> 'w \<Rightarrow> (int \<times> 'f permutable_flags \<times> 'w) res)
     \<Rightarrow> 'f PermutableJoinEnvironment \<times> 'w \<Rightarrow> bool" where
  "permutable_ok cs call e \<longleftrightarrow>
     permutable_contract cs call (table_functions (fst e)) (valid_tuple_handler (fst e)) (budget_per_episode (fst e)) (num_flags (fst e))
     \<and> join_ok cs (env_state (fst e)) \<and> work_remains cs (env_state (fst e)) \<and> env_cardinalities (fst e) = cs \<and> length (table_functions (fst e)) = length cs
     \<and> permutable_mem_ok (length cs) (num_flags (fst e)) (execution_engine (fst e))
     \<and> preds_ok (length cs) (num_preds (fst e)) (num_flags (fst e)) (pred_table_to_flag (fst e))"

lemma permutable_mem_update:
  "permutable_mem_ok n nf mem \<Longrightarrow> length fs = n \<Longrightarrow> length flags = nf \<Longrightarrow> length p = n \<Longrightarrow> length offs = n \<Longrightarrow>
     permutable_mem_ok n nf (mem\<lparr>join_handler_fn_arr := fs, flag_arr := flags, progress_arr := p, offset_arr := offs, table_ctr := c,
       num_result_tuples := k\<rparr>)"
  by (simp add: permutable_mem_ok_def)

lemma permutable_executes:
  assumes "permutable_ok cs call (env, w)" "\<not> finished (env_state env)" "valid_order (length cs) order"
  shows "\<exists>r e' t. PermutableExecute ops call (env, w) order = Inr (r, e') \<and> permutable_ok cs call e' \<and> tuple_ok cs t
    \<and> completed cs (root (env_state env)) order \<le> rank cs order t \<and> UpdateJoin (env_state env) order t = Inr (env_state (fst e'))"
proof -
  let ?js = "env_state env" and ?fs = "table_functions env" and ?n = "length cs" and ?nf = "num_flags env"
  have contract: "permutable_contract cs call ?fs (valid_tuple_handler env) (budget_per_episode env) ?nf"
    and js: "join_ok cs ?js" and rem: "work_remains cs ?js" and cards: "env_cardinalities env = cs" and fs: "length ?fs = ?n"
    and mem: "permutable_mem_ok ?n ?nf (execution_engine env)"
    and preds: "preds_ok ?n (num_preds env) ?nf (pred_table_to_flag env)"
    using assms(1) by (simp_all add: permutable_ok_def)
  have vo: "distinct order" "set order = {..<?n}" "length order = ?n"
    using assms(3) valid_order_length by (auto simp: valid_order_def)
  note j = join_okD [OF js]
  obtain x xs where o: "order = x # xs" using vo(3) j(1) by (cases order) auto
  then have "x \<in> set order" and ne: "order \<noteq> []" by simp_all
  then have x: "x < ?n" unfolding vo(2) by simp
  have first: "nthR order 0 = Inr x" using o by simp
  have sub: "set order \<subseteq> {..<length ?fs}" using vo(2) fs by simp
  have hl: "length (join_handler_fn_arr (execution_engine env)) = length ?fs" using mem fs by (simp add: permutable_mem_ok_def)
  obtain initial where init: "GetLastCompletedTupleIdx ?js order = Inr initial" "\<And>t. initial = Some t \<Longrightarrow> length t = ?n"
    using resume_point [OF js assms(3)] by (auto simp: tuple_ok_def split: if_splits)
  let ?start = "value_or initial (replicate (length order) (-1))"
  have start: "length ?start = ?n" using init(2) vo(3) by (cases initial) (auto simp: value_or_def)
  obtain hs where hs: "SetJoinOrder ?fs (valid_tuple_handler env) order (execution_engine env) = Inr (execution_engine env\<lparr>join_handler_fn_arr := hs\<rparr>)"
      "length hs = ?n" "chained ?fs (valid_tuple_handler env) hs order"
    using SetJoinOrder_chains [OF vo(1) ne sub hl] unfolding fs by blast
  obtain flags where flags: "TogglePredicateFlags env order (flag_arr (execution_engine env)) = Inr flags" "length flags = ?nf"
    using toggled_flags [of order env "flag_arr (execution_engine env)"] preds mem vo(3) by (auto simp: permutable_mem_ok_def)
  let ?p = "map (\<lambda>i. max (offset ?js ! i) (?start ! i)) [0..<?n]"
  let ?mem = "execution_engine env\<lparr>join_handler_fn_arr := hs, flag_arr := flags, progress_arr := ?p, offset_arr := offset ?js,
    table_ctr := int x, num_result_tuples := 0\<rparr>"
  have resume: "SetResumeProgress order ?start (offset ?js) (execution_engine env\<lparr>join_handler_fn_arr := hs, flag_arr := flags\<rparr>) = Inr ?mem"
    using mem start j(5) by (subst SetResumeProgress_eq [OF start j(5) _ _ o]) (simp_all add: permutable_mem_ok_def)
  have mok: "permutable_mem_ok ?n ?nf ?mem" by (rule permutable_mem_update [OF mem hs(2) flags(2)]) (simp_all add: j(5))
  have ch: "chained ?fs (valid_tuple_handler env) (join_handler_fn_arr ?mem) order" using hs(3) by simp
  have eqs: "progress_arr ?mem = ?p" "hd order = x" using o by simp_all
  from permutable_contractD [OF contract assms(3) mok ch, unfolded eqs(1), OF execution_resumable [OF js assms(2,3) init(1) rem], of w] obtain status mem' w' where
      call: "call (?fs ! x) (budget_per_episode env) (if initial \<noteq> None then 1 else 0) ?mem w = Inr (status, mem', w')"
      and mem': "permutable_mem_ok ?n ?nf mem'"
      and rep: "reports cs order (if initial \<noteq> None then 1 else 0) ?p status (table_ctr mem') (idx_arr mem')"
    unfolding eqs by (elim exE conjE)
  obtain t js' where t: "ComputeLastCompletedTuple order cs status (table_ctr mem') (idx_arr mem') = Inr t" "tuple_ok cs t"
      "completed cs (root ?js) order \<le> rank cs order t" "UpdateJoin ?js order t = Inr js'"
    by (rule execution_recorded [OF js assms(2,3) init(1) rep])
  have js': "join_ok cs js'" by (rule update_join_kept [OF t(4) js assms(3) t(2)])
  obtain r where r: "Reward ops order (offset js') ?start t cs (num_result_tuples mem') (budget_per_episode env) = Inr r"
    using Reward_total [OF eq_refl [OF vo(2)] join_okD(5) [OF js'] start valid_orderD(4) [OF assms(3) t(2)], of ops] by blast
  have "PermutableExecute ops call (env, w) order = Inr (r, env\<lparr>env_state := js', execution_engine := mem'\<rparr>, w')"
    using hs(1) flags(1) resume call t(1,4) r x fs by (simp add: PermutableExecute_def init(1) cards first Let_def)
  moreover have "permutable_ok cs call (env\<lparr>env_state := js', execution_engine := mem'\<rparr>, w')"
    using contract js' update_work_remains [OF t(4) js assms(3) t(2) rem] cards fs mem' preds by (simp add: permutable_ok_def)
  ultimately show ?thesis using t(2-4) by fastforce
qed

interpretation permutable: join_environment cs "permutable_ok cs call" "\<lambda>e. env_state (fst e)" "PermutableExecute ops call" for cs call ops
proof unfold_locales
  show "join_ok cs (env_state (fst e))" if "permutable_ok cs call e" for e using that by (simp add: permutable_ok_def)
  show "\<exists>r e' t. PermutableExecute ops call e order = Inr (r, e') \<and> permutable_ok cs call e' \<and> tuple_ok cs t
      \<and> completed cs (root (env_state (fst e))) order \<le> rank cs order t \<and> UpdateJoin (env_state (fst e)) order t = Inr (env_state (fst e'))"
    if "permutable_ok cs call e" "\<not> finished (env_state (fst e))" "valid_order (length cs) order" for e order
    using permutable_executes [of cs call "fst e" "snd e" order ops] that by simp
qed

text \<open>The environment that compiles a function per order.\<close>

definition recompiling_mem_ok :: "nat \<Rightarrow> engine_flags \<Rightarrow> bool" where
  "recompiling_mem_ok n mem \<longleftrightarrow> length (progress_arr mem) = n \<and> length (offset_arr mem) = n"

definition recompiling_contract ::
    "int list \<Rightarrow> (nat list \<Rightarrow> int \<Rightarrow> int \<Rightarrow> engine_flags \<Rightarrow> 'w \<Rightarrow> (int \<times> engine_flags \<times> 'w) res) \<Rightarrow> int \<Rightarrow> bool" where
  "recompiling_contract cs compiled budget \<longleftrightarrow>
     (\<forall>order mem w flag. valid_order (length cs) order \<longrightarrow> recompiling_mem_ok (length cs) mem \<longrightarrow> resumable cs order flag (progress_arr mem) \<longrightarrow>
        (\<exists>status mem' w'. compiled order budget flag mem w = Inr (status, mem', w') \<and> recompiling_mem_ok (length cs) mem'
           \<and> reports cs order flag (progress_arr mem) status (table_ctr mem') (idx_arr mem')))"

lemma recompiling_contractD:
  assumes "recompiling_contract cs compiled budget" "valid_order (length cs) order" "recompiling_mem_ok (length cs) mem"
    "resumable cs order flag (progress_arr mem)"
  shows "\<exists>status mem' w'. compiled order budget flag mem w = Inr (status, mem', w') \<and> recompiling_mem_ok (length cs) mem'
    \<and> reports cs order flag (progress_arr mem) status (table_ctr mem') (idx_arr mem')"
  using assms unfolding recompiling_contract_def by blast

definition recompiling_ok ::
    "int list \<Rightarrow> (nat list \<Rightarrow> int \<Rightarrow> int \<Rightarrow> engine_flags \<Rightarrow> 'w \<Rightarrow> (int \<times> engine_flags \<times> 'w) res)
     \<Rightarrow> RecompilationJoinEnvironment \<times> 'w \<Rightarrow> bool" where
  "recompiling_ok cs compiled e \<longleftrightarrow> recompiling_contract cs compiled (rc_budget_per_episode (fst e))
     \<and> join_ok cs (rc_state (fst e)) \<and> work_remains cs (rc_state (fst e)) \<and> rc_cardinalities (fst e) = cs \<and> recompiling_mem_ok (length cs) (rc_engine (fst e))"

lemma recompiling_executes:
  assumes "recompiling_ok cs compiled (env, w)" "\<not> finished (rc_state env)" "valid_order (length cs) order"
  shows "\<exists>r e' t. RecompilationExecute ops compiled (env, w) order = Inr (r, e') \<and> recompiling_ok cs compiled e' \<and> tuple_ok cs t
    \<and> completed cs (root (rc_state env)) order \<le> rank cs order t \<and> UpdateJoin (rc_state env) order t = Inr (rc_state (fst e'))"
proof -
  let ?js = "rc_state env" and ?n = "length cs"
  have contract: "recompiling_contract cs compiled (rc_budget_per_episode env)" and js: "join_ok cs ?js" and rem: "work_remains cs ?js"
    and cards: "rc_cardinalities env = cs" and mem: "recompiling_mem_ok ?n (rc_engine env)"
    using assms(1) by (simp_all add: recompiling_ok_def)
  note j = join_okD [OF js]
  have len: "length order = ?n" by (rule valid_order_length [OF assms(3)])
  obtain x xs where o: "order = x # xs" using len j(1) by (cases order) auto
  obtain initial where init: "GetLastCompletedTupleIdx ?js order = Inr initial" "\<And>t. initial = Some t \<Longrightarrow> length t = ?n"
    using resume_point [OF js assms(3)] by (auto simp: tuple_ok_def split: if_splits)
  let ?start = "value_or initial (replicate (length order) (-1))"
  have start: "length ?start = ?n" using init(2) len by (cases initial) (auto simp: value_or_def)
  let ?p = "map (\<lambda>i. max (offset ?js ! i) (?start ! i)) [0..<?n]"
  let ?mem = "rc_engine env\<lparr>progress_arr := ?p, offset_arr := offset ?js, table_ctr := int x, num_result_tuples := 0\<rparr>"
  have resume: "SetResumeProgress order ?start (offset ?js) (rc_engine env) = Inr ?mem"
    using mem by (subst SetResumeProgress_eq [OF start j(5) _ _ o]) (simp_all add: recompiling_mem_ok_def)
  have mok: "recompiling_mem_ok ?n ?mem" by (simp add: recompiling_mem_ok_def j(5))
  have eqs: "progress_arr ?mem = ?p" by simp
  from recompiling_contractD [OF contract assms(3) mok, unfolded eqs, OF execution_resumable [OF js assms(2,3) init(1) rem], of w] obtain status mem' w' where
      call: "compiled order (rc_budget_per_episode env) (if initial \<noteq> None then 1 else 0) ?mem w = Inr (status, mem', w')"
      and mem': "recompiling_mem_ok ?n mem'"
      and rep: "reports cs order (if initial \<noteq> None then 1 else 0) ?p status (table_ctr mem') (idx_arr mem')"
    unfolding eqs by (elim exE conjE)
  obtain t js' where t: "ComputeLastCompletedTuple order cs status (table_ctr mem') (idx_arr mem') = Inr t" "tuple_ok cs t"
      "completed cs (root ?js) order \<le> rank cs order t" "UpdateJoin ?js order t = Inr js'"
    by (rule execution_recorded [OF js assms(2,3) init(1) rep])
  note v = valid_orderD [OF assms(3) t(2)]
  have js': "join_ok cs js'" by (rule update_join_kept [OF t(4) js assms(3) t(2)])
  obtain r where r: "Reward ops order (offset js') ?start t cs (num_result_tuples mem') (rc_budget_per_episode env) = Inr r"
    using Reward_total [OF v(2) join_okD(5) [OF js'] start v(4), of ops] by blast
  have "RecompilationExecute ops compiled (env, w) order = Inr (r, env\<lparr>rc_state := js', rc_engine := mem'\<rparr>, w')"
    using resume call t(1,4) r by (simp add: RecompilationExecute_def init(1) cards Let_def)
  moreover have "recompiling_ok cs compiled (env\<lparr>rc_state := js', rc_engine := mem'\<rparr>, w')"
    using contract js' update_work_remains [OF t(4) js assms(3) t(2) rem] cards mem' by (simp add: recompiling_ok_def)
  ultimately show ?thesis using t(2-4) by fastforce
qed

interpretation recompiling: join_environment cs "recompiling_ok cs compiled" "\<lambda>e. rc_state (fst e)" "RecompilationExecute ops compiled"
  for cs compiled ops
proof unfold_locales
  show "join_ok cs (rc_state (fst e))" if "recompiling_ok cs compiled e" for e using that by (simp add: recompiling_ok_def)
  show "\<exists>r e' t. RecompilationExecute ops compiled e order = Inr (r, e') \<and> recompiling_ok cs compiled e' \<and> tuple_ok cs t
      \<and> completed cs (root (rc_state (fst e))) order \<le> rank cs order t \<and> UpdateJoin (rc_state (fst e)) order t = Inr (rc_state (fst e'))"
    if "recompiling_ok cs compiled e" "\<not> finished (rc_state (fst e))" "valid_order (length cs) order" for e order
    using recompiling_executes [of cs compiled "fst e" "snd e" order ops] that by simp
qed

end
