(* ===== verification/SkinnerAgentCorrect.thy ===== *)
theory SkinnerAgentCorrect
  imports SkinnerAgent SkinnerExec
begin

text \<open>
  Every order the agent executes is a permutation of the tables that starts with the given prefix, and the loop that
  lets the agent act until the join is finished ends.
\<close>

section \<open>Well-formed nodes\<close>

definition data_ok :: "nat \<Rightarrow> ('d, 'g) uct_data \<Rightarrow> bool" where
  "data_ok n d \<longleftrightarrow> num_tables d = n \<and> distinct (joined_tables d) \<and> set (joined_tables d) \<subseteq> {..<n}
     \<and> distinct (unjoined_tables d) \<and> set (unjoined_tables d) = {..<n} - set (joined_tables d)
     \<and> table_per_action d = unjoined_tables d \<and> num_actions d = length (unjoined_tables d)
     \<and> length (num_tries_per_action d) = num_actions d \<and> length (acc_reward_per_action d) = num_actions d
     \<and> set (priority_actions d) \<subseteq> {..<num_actions d} \<and> set (recommended_actions d) \<subseteq> {..<num_actions d}
     \<and> (num_actions d > 0 \<longrightarrow> recommended_actions d \<noteq> [])"

lemma data_okD:
  assumes "data_ok n d"
  shows "num_tables d = n" "distinct (joined_tables d)" "set (joined_tables d) \<subseteq> {..<n}" "distinct (unjoined_tables d)"
    "set (unjoined_tables d) = {..<n} - set (joined_tables d)" "table_per_action d = unjoined_tables d"
    "num_actions d = length (unjoined_tables d)" "length (num_tries_per_action d) = num_actions d"
    "length (acc_reward_per_action d) = num_actions d" "set (priority_actions d) \<subseteq> {..<num_actions d}"
    "set (recommended_actions d) \<subseteq> {..<num_actions d}" "num_actions d > 0 \<Longrightarrow> recommended_actions d \<noteq> []"
  using assms unfolding data_ok_def by blast+

text \<open>
  What the statistics of a node satisfy: rewards are in the given set of doubles, and an action that is recommended
  was tried unless it still has priority.
\<close>

definition stats_except :: "'d set \<Rightarrow> nat set \<Rightarrow> ('d, 'g) uct_data \<Rightarrow> bool" where
  "stats_except N A d \<longleftrightarrow> set (acc_reward_per_action d) \<subseteq> N
     \<and> (\<forall>a\<in>set (recommended_actions d) - A. a \<in> set (priority_actions d) \<or> 0 < num_tries_per_action d ! a)
     \<and> ((\<exists>a<length (num_tries_per_action d). 0 < num_tries_per_action d ! a) \<longrightarrow> 0 < num_visits d)"

abbreviation stats_ok :: "'d set \<Rightarrow> ('d, 'g) uct_data \<Rightarrow> bool" where
  "stats_ok N \<equiv> stats_except N {}"

inductive node_ok :: "'d set \<Rightarrow> nat \<Rightarrow> ('d, 'g) UctNode \<Rightarrow> bool" for N n where
  node_okI: "data_ok n d \<Longrightarrow> stats_ok N d \<Longrightarrow> length ch = num_actions d \<Longrightarrow>
    (\<And>a m. a < num_actions d \<Longrightarrow> ch ! a = Some m \<Longrightarrow>
       node_ok N n m \<and> set (joined_tables (uct_data m)) = insert (unjoined_tables d ! a) (set (joined_tables d))) \<Longrightarrow>
    node_ok N n (UctNode d ch)"

lemma node_okD:
  assumes "node_ok N n node"
  shows "data_ok n (uct_data node)" "stats_ok N (uct_data node)" "length (uct_children node) = num_actions (uct_data node)"
    "a < num_actions (uct_data node) \<Longrightarrow> uct_children node ! a = Some m \<Longrightarrow> node_ok N n m"
    "a < num_actions (uct_data node) \<Longrightarrow> uct_children node ! a = Some m \<Longrightarrow>
       set (joined_tables (uct_data m)) = insert (unjoined_tables (uct_data node) ! a) (set (joined_tables (uct_data node)))"
  using assms by (auto elim: node_ok.cases)

lemma actions_left: "data_ok n d \<Longrightarrow> num_actions d = n - length (joined_tables d) \<and> length (joined_tables d) \<le> n"
proof -
  assume d: "data_ok n d"
  have "length (unjoined_tables d) = card ({..<n} - set (joined_tables d))"
    using distinct_card [OF data_okD(4) [OF d]] data_okD(5) [OF d] by simp
  also have "\<dots> = n - length (joined_tables d)"
    using data_okD(2,3) [OF d] by (simp add: card_Diff_subset distinct_card)
  finally show ?thesis
    using data_okD(7) [OF d] card_mono [OF _ data_okD(3) [OF d]] distinct_card [OF data_okD(2) [OF d]] by simp
qed

section \<open>Building nodes\<close>

lemma write_all:
  "length vs \<le> length ts \<Longrightarrow> foldR (\<lambda>ts (i, v). updR ts i v) ts (zip [0..<length vs] vs) = Inr (vs @ drop (length vs) ts)"
proof (induction vs rule: rev_induct)
  case (snoc v vs)
  then show ?case
    by (simp add: foldR_append list_update_append flip: Cons_nth_drop_Suc)
qed simp

lemma number_actions_ok: "length unjoined = actions \<Longrightarrow> number_actions unjoined actions = Inr unjoined"
  using write_all [of unjoined "replicate actions 0"] by (auto simp: number_actions_def)

lemma set_insert_ok: "set (set_insert x xs) = insert x (set xs)" "distinct xs \<Longrightarrow> distinct (set_insert x xs)"
  by (auto simp: set_insert_def set_insort_key distinct_insort)

lemma set_inserts:
  "set (foldl (\<lambda>s x. set_insert x s) s xs) = set s \<union> set xs" "distinct s \<Longrightarrow> distinct (foldl (\<lambda>s x. set_insert x s) s xs)"
  by (induction xs arbitrary: s) (simp_all add: set_insert_ok)

lemma UctNodeRoot_ok:
  assumes "distinct joined" "set joined \<subseteq> {..<n}" "d_of_int (ue_ops ue) 0 \<in> N"
  shows "\<exists>node c'. UctNodeRoot ue rc n joined c = Inr (node, c') \<and> node_ok N n node \<and> set (joined_tables (uct_data node)) = set joined"
proof -
  let ?un = "filter (\<lambda>i. i \<notin> set joined) [0..<n]"
  have set_un: "set ?un = {..<n} - set joined" by auto
  have "length ?un = card ({..<n} - set joined)" using distinct_card [of ?un] unfolding set_un by simp
  then have len: "length ?un = n - length joined" using assms by (simp add: card_Diff_subset distinct_card)
  obtain seed c' where seed: "GetJoinSeed ue c = (seed, c')" by (cases "GetJoinSeed ue c")
  let ?node = "UctNode \<lparr>created_in = rc, tree_level = 0, num_tables = n, num_actions = n - length joined,
               priority_actions = [0..<n - length joined], num_visits = 0, num_tries_per_action = replicate (n - length joined) 0,
               acc_reward_per_action = replicate (n - length joined) (d_of_int (ue_ops ue) 0),
               joined_tables = foldl (\<lambda>s x. set_insert x s) [] joined,
               recommended_actions = [0..<n - length joined], unjoined_tables = ?un, table_per_action = ?un,
               rng = ue_engine ue seed\<rparr> (replicate (n - length joined) None)"
  have "UctNodeRoot ue rc n joined c = Inr (?node, c')"
    using number_actions_ok [OF len] by (simp add: UctNodeRoot_def seed set_inserts Let_def)
  moreover have "node_ok N n ?node"
    by (rule node_okI) (use assms set_un len in \<open>auto simp: data_ok_def stats_except_def set_inserts\<close>)
  ultimately show ?thesis by (auto simp: set_inserts)
qed

lemma UctNodeChild_ok:
  assumes "data_ok n d" "table \<in> set (unjoined_tables d)" "d_of_int (ue_ops ue) 0 \<in> N"
  shows "\<exists>node c'. UctNodeChild ue e rc d table c = Inr (node, c') \<and> node_ok N n node
    \<and> set (joined_tables (uct_data node)) = insert table (set (joined_tables d))"
proof -
  note d = data_okD [OF assms(1)]
  let ?un = "remove1 table (unjoined_tables d)" and ?j = "set_insert table (joined_tables d)"
  have len: "length ?un = num_actions d - 1" using assms(2) d(7) by (simp add: length_remove1)
  have set_un: "set ?un = {..<n} - set ?j" using d(4,5) assms(2) by (auto simp: set_insert_ok)
  obtain seed c' where seed: "GetJoinSeed ue c = (seed, c')" by (cases "GetJoinSeed ue c")
  have t: "table < n" using assms(2) d(5) by auto
  let ?con = "filter (\<lambda>i. ue_IsConnected ue e ?j (?un ! i)) [0..<num_actions d - 1]"
  define rec where "rec = (if ?con = [] then [0..<num_actions d - 1] else ?con)"
  let ?node = "UctNode \<lparr>created_in = rc, tree_level = tree_level d + 1, num_tables = num_tables d, num_actions = num_actions d - 1,
               priority_actions = filter (\<lambda>i. i \<in> set rec) [0..<num_actions d - 1], num_visits = 0,
               num_tries_per_action = replicate (num_actions d - 1) 0,
               acc_reward_per_action = replicate (num_actions d - 1) (d_of_int (ue_ops ue) 0), joined_tables = ?j,
               recommended_actions = rec, unjoined_tables = ?un, table_per_action = ?un,
               rng = ue_engine ue seed\<rparr> (replicate (num_actions d - 1) None)"
  have new: "UctNodeChild ue e rc d table c = Inr (?node, c')"
    using number_actions_ok [OF len] assms(2) by (simp add: UctNodeChild_def seed USE_HEURISTIC_def Let_def rec_def)
  have rec: "set rec \<subseteq> {..<num_actions d - 1}" "num_actions d - 1 > 0 \<Longrightarrow> rec \<noteq> []" by (auto simp: rec_def)
  have "data_ok n (uct_data ?node)"
    unfolding data_ok_def using d(1-4) len set_un t rec by (auto simp: set_insert_ok)
  moreover have "stats_ok N (uct_data ?node)" using rec(1) assms(3) by (auto simp: stats_except_def)
  ultimately have "node_ok N n ?node" by (intro node_okI) simp_all
  then show ?thesis using new by (auto simp: set_insert_ok)
qed

section \<open>Choosing and learning\<close>

definition same_tables :: "('d, 'g) uct_data \<Rightarrow> ('d, 'g) uct_data \<Rightarrow> bool" where
  "same_tables d d' \<longleftrightarrow> joined_tables d' = joined_tables d \<and> unjoined_tables d' = unjoined_tables d \<and> num_actions d' = num_actions d
     \<and> created_in d' = created_in d"

text \<open>
  What the agent needs of doubles and rewards: the set contains zero and the rewards, is closed under addition, and
  the quality computed from an accumulated reward of the set is above -1. The doubles that are not negative are one.
\<close>

definition doubles_ok :: "'d double_ops \<Rightarrow> 'd set \<Rightarrow> bool" where
  "doubles_ok ops N \<longleftrightarrow> d_of_int ops 0 \<in> N \<and> (\<forall>a\<in>N. \<forall>b\<in>N. d_add ops a b \<in> N)
     \<and> (\<forall>r\<in>N. \<forall>t v. 0 < t \<longrightarrow> 0 < v \<longrightarrow>
          d_gt ops (d_add ops (d_div ops r (d_of_int ops t))
            (d_mul ops (d_exploration_weight ops) (d_sqrt ops (d_div ops (d_log ops (d_of_int ops v)) (d_of_int ops t)))))
            (d_of_int ops (-1)))"

lemma quality_good:
  assumes "doubles_ok ops N" "data_ok n d" "stats_ok N d" "priority_actions d = []" "a \<in> set (recommended_actions d)"
  shows "d_gt ops (action_quality ops d a) (d_of_int ops (-1))"
proof -
  note d = data_okD [OF assms(2)]
  have a: "a < num_actions d" using assms(5) d(11) by auto
  then have "acc_reward_per_action d ! a \<in> N" using assms(3) d(9) unfolding stats_except_def by (metis nth_mem subsetD)
  moreover have "0 < num_tries_per_action d ! a" using assms(3-5) by (auto simp: stats_except_def)
  moreover from this have "0 < num_visits d" using assms(3) a d(8) unfolding stats_except_def by auto
  ultimately show ?thesis using assms(1) by (simp add: doubles_ok_def action_quality_def Let_def)
qed

lemma best_action_found:
  assumes "doubles_ok ops N" "data_ok n d" "stats_ok N d" "priority_actions d = []" "0 < num_actions d"
  shows "\<exists>a q. foldR (best_step ops d offs) (None, d_of_int ops (-1)) [0..<num_actions d] = Inr (Some a, q) \<and> a < num_actions d"
proof -
  let ?m = "num_actions d"
  note d = data_okD [OF assms(2)]
  have rec: "recommended_actions d \<noteq> []" using d(12) assms(5) .
  have "\<exists>b q. foldR (best_step ops d offs) (None, d_of_int ops (-1)) [0..<k] = Inr (b, q)
      \<and> (b = None \<longrightarrow> q = d_of_int ops (-1) \<and> (\<forall>i<k. (offs + i) mod ?m \<notin> set (recommended_actions d)))
      \<and> (\<forall>a. b = Some a \<longrightarrow> a < ?m)" for k
  proof (induction k)
    case (Suc k)
    then obtain b q where b: "foldR (best_step ops d offs) (None, d_of_int ops (-1)) [0..<k] = Inr (b, q)"
        "b = None \<longrightarrow> q = d_of_int ops (-1) \<and> (\<forall>i<k. (offs + i) mod ?m \<notin> set (recommended_actions d))" "\<forall>a. b = Some a \<longrightarrow> a < ?m"
      by blast
    let ?a = "(offs + k) mod ?m"
    show ?case
    proof (cases "?a \<in> set (recommended_actions d)")
      case False
      then have "best_step ops d offs (b, q) k = Inr (b, q)" using rec by (simp add: best_step_def USE_HEURISTIC_def Let_def)
      then have "foldR (best_step ops d offs) (None, d_of_int ops (-1)) [0..<Suc k] = Inr (b, q)" using b(1) by (simp only: foldR_upt_Suc bindR_simps)
      then show ?thesis using b(2,3) False less_Suc_eq by blast
    next
      case True
      have "b = None \<Longrightarrow> d_gt ops (action_quality ops d ?a) q" using quality_good [OF assms(1-4) True] b(2) by simp
      then obtain b' q' where step: "best_step ops d offs (b, q) k = Inr (Some b', q')" "b' < ?m"
        using rec True assms(5) b(3)
        by (cases b; cases "d_gt ops (action_quality ops d ?a) q") (simp_all add: best_step_def USE_HEURISTIC_def Let_def)
      then have "foldR (best_step ops d offs) (None, d_of_int ops (-1)) [0..<Suc k] = Inr (Some b', q')" using b(1) by (simp only: foldR_upt_Suc bindR_simps)
      then show ?thesis using step(2) by blast
    qed
  qed simp
  then obtain b q where b: "foldR (best_step ops d offs) (None, d_of_int ops (-1)) [0..<?m] = Inr (b, q)"
      "b = None \<longrightarrow> (\<forall>i<?m. (offs + i) mod ?m \<notin> set (recommended_actions d))" "\<forall>a. b = Some a \<longrightarrow> a < ?m" by blast
  obtain a where a: "a \<in> set (recommended_actions d)" using rec by (cases "recommended_actions d") auto
  then have "a < ?m" using d(11) by auto
  let ?i = "(a + ?m - offs mod ?m) mod ?m"
  have "(offs + ?i) mod ?m = (offs mod ?m + (a + ?m - offs mod ?m)) mod ?m" by (simp only: mod_add_right_eq mod_add_left_eq)
  also have "offs mod ?m + (a + ?m - offs mod ?m) = a + ?m" using mod_less_divisor [OF assms(5), of offs] by linarith
  also have "(a + ?m) mod ?m = a" using \<open>a < ?m\<close> by simp
  finally have "b \<noteq> None" using b(2) a assms(5) by (metis mod_less_divisor)
  then show ?thesis using b by auto
qed

lemma SelectAction_ok:
  assumes "doubles_ok (ue_ops ue) N" "data_ok n d" "stats_ok N d" "num_actions d > 0"
  shows "\<exists>a d'. SelectAction ue d = Inr (a, d') \<and> a < num_actions d \<and> data_ok n d' \<and> same_tables d d' \<and> stats_except N {a} d'"
proof -
  note d = data_okD [OF assms(2)]
  obtain r g where g: "ue_next ue (rng d) = (r, g)" by (cases "ue_next ue (rng d)")
  show ?thesis
  proof (cases "priority_actions d = []")
    case False
    let ?i = "r mod length (priority_actions d)"
    let ?p = "take ?i (priority_actions d) @ drop (?i + 1) (priority_actions d)"
    have i: "?i < length (priority_actions d)" using False by simp
    then have lt: "priority_actions d ! ?i < num_actions d" using d(10) nth_mem by blast
    have split: "priority_actions d = take ?i (priority_actions d) @ priority_actions d ! ?i # drop (?i + 1) (priority_actions d)"
      using id_take_nth_drop [OF i] by simp
    have p: "set (priority_actions d) = insert (priority_actions d ! ?i) (set ?p)" by (subst (1) split) auto
    then have "data_ok n (d\<lparr>priority_actions := ?p, rng := g\<rparr>)" using assms(2) by (auto simp: data_ok_def)
    moreover have "stats_except N {priority_actions d ! ?i} (d\<lparr>priority_actions := ?p, rng := g\<rparr>)"
      using assms(3) p unfolding stats_except_def by auto
    moreover have "SelectAction ue d = Inr (priority_actions d ! ?i, d\<lparr>priority_actions := ?p, rng := g\<rparr>)"
      using False by (simp add: SelectAction_def g Let_def)
    ultimately show ?thesis using lt by (auto simp: same_tables_def)
  next
    case True
    obtain a q where a: "foldR (best_step (ue_ops ue) d (r mod num_actions d)) (None, d_of_int (ue_ops ue) (-1)) [0..<num_actions d] = Inr (Some a, q)"
        "a < num_actions d" using best_action_found [OF assms(1-3) True assms(4)] by blast
    have "data_ok n (d\<lparr>rng := g\<rparr>)" "stats_except N {a} (d\<lparr>rng := g\<rparr>)" using assms(2,3) by (auto simp: data_ok_def stats_except_def)
    moreover have "SelectAction ue d = Inr (a, d\<lparr>rng := g\<rparr>)" using a(1) True by (simp add: SelectAction_def g)
    ultimately show ?thesis using a(2) by (auto simp: same_tables_def)
  qed
qed

lemma UpdateStatistics_ok:
  assumes "data_ok n d" "a < num_actions d" "stats_except N {a} d" "r \<in> N" "doubles_ok ops N"
  shows "\<exists>d'. UpdateStatistics ops a r d = Inr d' \<and> data_ok n d' \<and> same_tables d d' \<and> stats_ok N d'"
proof -
  note d = data_okD [OF assms(1)]
  let ?d = "d\<lparr>num_visits := num_visits d + 1, num_tries_per_action := (num_tries_per_action d)[a := num_tries_per_action d ! a + 1],
    acc_reward_per_action := (acc_reward_per_action d)[a := d_add ops (acc_reward_per_action d ! a) r]\<rparr>"
  have "acc_reward_per_action d ! a \<in> N" using assms(2,3) d(9) unfolding stats_except_def by (metis nth_mem subsetD)
  then have "d_add ops (acc_reward_per_action d ! a) r \<in> N" using assms(4,5) by (simp add: doubles_ok_def)
  then have "set (acc_reward_per_action ?d) \<subseteq> N"
    using assms(3) set_update_subset_insert [of "acc_reward_per_action d" a] by (auto simp: stats_except_def)
  then have "stats_ok N ?d" using assms(2,3) d(8) by (auto simp: stats_except_def nth_list_update)
  moreover have "UpdateStatistics ops a r d = Inr ?d" using assms(2) d(8,9) by (simp add: UpdateStatistics_def)
  ultimately show ?thesis using assms(1) by (auto simp: data_ok_def same_tables_def)
qed

section \<open>Orders\<close>

text \<open>The part of the order that is fixed: the joined tables, each once.\<close>

definition order_ok :: "nat \<Rightarrow> nat list \<Rightarrow> nat set \<Rightarrow> nat \<Rightarrow> bool" where
  "order_ok n order J k \<longleftrightarrow> length order = n \<and> k \<le> n \<and> distinct (take k order) \<and> set (take k order) = J"

lemma order_ok_extend:
  assumes "order_ok n order J k" "k < n" "table \<notin> J"
  shows "order_ok n (order[k := table]) (insert table J) (Suc k)" "take k (order[k := table]) = take k order"
  using assms by (simp_all add: order_ok_def take_Suc_conv_app_nth)

lemma order_ok_card: "order_ok n order J k \<Longrightarrow> card J = k"
  by (auto simp: order_ok_def distinct_card)

lemma order_complete: "order_ok n order {..<n} n \<Longrightarrow> valid_order n order"
  unfolding order_ok_def valid_order_def by (elim conjE) simp

definition shuffles :: "('d, 'g, 'e, 'c) uct_env \<Rightarrow> bool" where
  "shuffles ue \<longleftrightarrow> (\<forall>xs g. set (fst (ue_shuffle ue xs g)) = set xs)"

lemma playout_table_ok:
  assumes "J \<union> set unjoined = {..<n}" "J \<subseteq> set joined" "set joined \<noteq> {..<n}" "set joined \<subseteq> {..<n}"
  obtains table where "playout_table ue e joined unjoined = Some table" "table \<notin> set joined" "table < n"
proof -
  obtain x where "x \<in> set unjoined" "x \<notin> set joined" using assms by blast
  then have "find (\<lambda>table. table \<notin> set joined) unjoined \<noteq> None" by (auto simp: find_None_iff)
  then have "playout_table ue e joined unjoined \<noteq> None" by (simp add: playout_table_def split: option.split)
  then obtain table where t: "playout_table ue e joined unjoined = Some table" by blast
  then have "table \<in> set unjoined \<and> table \<notin> set joined"
    by (auto simp: playout_table_def find_Some_iff split: option.splits)
  then show thesis using that t assms(1) by blast
qed

lemma playout_loop:
  assumes "order_ok n order (set joined) k" "J \<union> set unjoined = {..<n}" "J \<subseteq> set joined" "set joined \<subseteq> {..<n}" "k \<le> m" "m \<le> n"
  shows "\<exists>order' joined'. foldR (playout_step ue e unjoined) (order, joined) [k..<m] = Inr (order', joined')
    \<and> order_ok n order' (set joined') m \<and> take k order' = take k order \<and> set joined \<subseteq> set joined' \<and> set joined' \<subseteq> {..<n}"
  using assms(5,6)
proof (induction m rule: dec_induct)
  case base
  have "foldR (playout_step ue e unjoined) (order, joined) [k..<k] = Inr (order, joined)" by simp
  then show ?case using assms(1,4) by blast
next
  case (step i)
  obtain order' joined' where f: "foldR (playout_step ue e unjoined) (order, joined) [k..<i] = Inr (order', joined')"
      and ok: "order_ok n order' (set joined') i" and tk: "take k order' = take k order" and sub: "set joined \<subseteq> set joined'" "set joined' \<subseteq> {..<n}"
    using step.IH [OF Suc_leD [OF step.prems]] by blast
  have i: "i < n" "k \<le> i" "i < length order'" using step.hyps step.prems ok by (auto simp: order_ok_def)
  have "card (set joined') < card {..<n}" using order_ok_card [OF ok] i by simp
  then have ne: "set joined' \<noteq> {..<n}" by force
  obtain table where t: "playout_table ue e joined' unjoined = Some table" "table \<notin> set joined'" "table < n"
    by (rule playout_table_ok [OF assms(2) subset_trans [OF assms(3) sub(1)] ne sub(2)])
  have "playout_step ue e unjoined (order', joined') i = Inr (order'[i := table], set_insert table joined')"
    using t(1) i by (simp add: playout_step_def)
  then have "foldR (playout_step ue e unjoined) (order, joined) [k..<Suc i] = Inr (order'[i := table], set_insert table joined')"
    using f i(2) by (simp add: upt_Suc_append foldR_append)
  moreover have "order_ok n (order'[i := table]) (set (set_insert table joined')) (Suc i)"
    unfolding set_insert_ok by (rule order_ok_extend [OF ok i(1) t(2)])
  moreover have "take k (order'[i := table]) = take k order" using tk i(2) by simp
  moreover have "set joined \<subseteq> set (set_insert table joined')" "set (set_insert table joined') \<subseteq> {..<n}"
    using sub t(3) by (auto simp: set_insert_ok)
  ultimately show ?case by blast
qed

text \<open>The outcome of choosing the rest of an order and executing it.\<close>

definition executed :: "('d, 'g, 'e, 'c) uct_env \<Rightarrow> nat \<Rightarrow> 'e \<Rightarrow> nat list \<Rightarrow> nat \<Rightarrow> 'd \<Rightarrow> nat list \<Rightarrow> 'e \<Rightarrow> bool" where
  "executed ue n e order k reward order' e' \<longleftrightarrow>
     valid_order n order' \<and> take k order' = take k order \<and> ue_Execute ue e order' = Inr (reward, e')"

definition execute_failed :: "('d, 'g, 'e, 'c) uct_env \<Rightarrow> nat \<Rightarrow> 'e \<Rightarrow> kush_error \<Rightarrow> bool" where
  "execute_failed ue n e err \<longleftrightarrow> (\<exists>order. valid_order n order \<and> ue_Execute ue e order = Inl err)"

lemma Playout_ok:
  assumes "shuffles ue" "data_ok n d" "order_ok n order (insert table (set (joined_tables d))) (Suc (length (joined_tables d)))"
    "table \<in> set (unjoined_tables d)" "order ! length (joined_tables d) = table"
  shows "case Playout ue e d order of Inl err \<Rightarrow> execute_failed ue n e err
    | Inr (reward, d', order', e') \<Rightarrow> data_ok n d' \<and> same_tables d d' \<and> (\<forall>N A. stats_except N A d \<longrightarrow> stats_except N A d')
        \<and> executed ue n e order (Suc (length (joined_tables d))) reward order' e'"
proof -
  note d = data_okD [OF assms(2)]
  let ?k = "length (joined_tables d)" and ?j = "set_insert table (joined_tables d)"
  let ?un = "filter (\<lambda>i. i \<notin> set (joined_tables d) \<and> i \<noteq> table) [0..<n]"
  obtain un g where un: "ue_shuffle ue ?un (rng d) = (un, g)" by (cases "ue_shuffle ue ?un (rng d)")
  have "set un = set ?un" using assms(1) un unfolding shuffles_def by (metis fst_conv)
  then have cover: "set ?j \<union> set un = {..<n}" "set ?j \<subseteq> {..<n}" using d(3,5) assms(4) by (auto simp: set_insert_ok)
  have k: "?k < length order" "Suc ?k \<le> n" using assms(3) by (auto simp: order_ok_def)
  obtain order' joined' where f: "foldR (playout_step ue e un) (order, ?j) [Suc ?k..<n] = Inr (order', joined')"
      and ok: "order_ok n order' (set joined') n" "take (Suc ?k) order' = take (Suc ?k) order" "set joined' \<subseteq> {..<n}"
    using playout_loop [of n order ?j "Suc ?k" "set ?j" un n ue e] assms(3) cover k by (auto simp: set_insert_ok)
  have "set joined' = {..<n}" by (rule card_subset_eq) (use ok order_ok_card [OF ok(1)] in auto)
  then have vo: "valid_order n order'" using ok(1) order_complete by simp
  have run: "Playout ue e d order = bindR (ue_Execute ue e order') (\<lambda>(reward, e). Inr (reward, d\<lparr>rng := g\<rparr>, order', e))"
    using k f by (simp add: Playout_def assms(5) un USE_HEURISTIC_def Let_def d(1))
  have "data_ok n (d\<lparr>rng := g\<rparr>)" "same_tables d (d\<lparr>rng := g\<rparr>)" "\<And>N A. stats_except N A d \<Longrightarrow> stats_except N A (d\<lparr>rng := g\<rparr>)"
    using assms(2) by (auto simp: data_ok_def same_tables_def stats_except_def)
  then show ?thesis using vo ok(2) unfolding run
    by (cases "ue_Execute ue e order'") (auto simp: execute_failed_def executed_def)
qed

section \<open>Sampling an order\<close>

lemma node_ok_update:
  assumes "node_ok N n node" "data_ok n d" "same_tables (uct_data node) d" "stats_ok N d"
    and "\<And>m. child = Some m \<Longrightarrow> node_ok N n m \<and>
      set (joined_tables (uct_data m)) = insert (unjoined_tables (uct_data node) ! a) (set (joined_tables (uct_data node)))"
  shows "node_ok N n (UctNode d ((uct_children node)[a := child]))"
proof (rule node_okI [OF assms(2,4)])
  note s = assms(3) [unfolded same_tables_def] and ok = node_okD [OF assms(1)]
  show "length ((uct_children node)[a := child]) = num_actions d" using ok(3) s by simp
  fix b m
  assume b: "b < num_actions d" "(uct_children node)[a := child] ! b = Some m"
  show "node_ok N n m \<and> set (joined_tables (uct_data m)) = insert (unjoined_tables d ! b) (set (joined_tables d))"
  proof (cases "b = a")
    case True
    then have "child = Some m" using b ok(3) s by simp
    then show ?thesis using assms(5) s True by simp
  next
    case False
    then have "uct_children node ! b = Some m" using b(2) by simp
    then show ?thesis using ok(4,5) b(1) s by simp
  qed
qed

definition sampled ::
    "'d set \<Rightarrow> ('d, 'g, 'e, 'c) uct_env \<Rightarrow> nat \<Rightarrow> 'e \<Rightarrow> ('d, 'g) UctNode \<Rightarrow> nat list \<Rightarrow> ('d \<times> ('d, 'g) UctNode \<times> nat list \<times> 'e \<times> 'c) res \<Rightarrow> bool" where
  "sampled N ue n e node order r \<longleftrightarrow>
     (case r of
        Inl err \<Rightarrow> execute_failed ue n e err
      | Inr (reward, node', order', e', c') \<Rightarrow> node_ok N n node' \<and> set (joined_tables (uct_data node')) = set (joined_tables (uct_data node))
          \<and> executed ue n e order (length (joined_tables (uct_data node))) reward order' e')"

lemma executed_shorter:
  "executed ue n e order (Suc k) reward order' e' \<Longrightarrow> take k order = take k order0 \<Longrightarrow> executed ue n e order0 k reward order' e'"
  unfolding executed_def by (metis append_take_drop_id le_SucI min.absorb1 order_refl take_take)

text \<open>The assumptions on the environment: shuffling, doubles, and rewards.\<close>

definition uct_ok :: "'d set \<Rightarrow> nat \<Rightarrow> ('d, 'g, 'e, 'c) uct_env \<Rightarrow> 'e \<Rightarrow> bool" where
  "uct_ok N n ue e \<longleftrightarrow> shuffles ue \<and> doubles_ok (ue_ops ue) N
     \<and> (\<forall>order r e'. valid_order n order \<longrightarrow> ue_Execute ue e order = Inr (r, e') \<longrightarrow> r \<in> N)"

text \<open>The node an action leads to: an existing child, a new one, or none in the round the node was made.\<close>

lemma child_ok:
  assumes "node_ok N n node" "a < num_actions (uct_data node)" "data_ok n d" "same_tables (uct_data node) d" "d_of_int (ue_ops ue) 0 \<in> N"
  defines "table \<equiv> unjoined_tables (uct_data node) ! a"
  obtains child c' where "(if created_in d \<noteq> rc \<and> uct_children node ! a = None
      then Some (bindR (UctNodeChild ue e rc d table c) (\<lambda>(n, c). Inr (Some n, c))) else Some (Inr (uct_children node ! a, c)))
      = Some (Inr (child, c'))"
    "\<And>m. child = Some m \<Longrightarrow> node_ok N n m \<and> set (joined_tables (uct_data m)) = insert table (set (joined_tables (uct_data node)))"
proof (cases "created_in d \<noteq> rc \<and> uct_children node ! a = None")
  case True
  have "table \<in> set (unjoined_tables d)"
    using assms(2,4) data_okD(7) [OF node_okD(1) [OF assms(1)]] by (simp add: table_def same_tables_def)
  from UctNodeChild_ok [OF assms(3) this assms(5), of e rc c] obtain m c' where
      "UctNodeChild ue e rc d table c = Inr (m, c')" "node_ok N n m" "set (joined_tables (uct_data m)) = insert table (set (joined_tables d))"
    by blast
  then show thesis using True assms(4) by (intro that [of "Some m" c']) (simp_all add: same_tables_def)
next
  case False
  then show thesis using node_okD(4,5) [OF assms(1,2)] by (intro that [of "uct_children node ! a" c]) (auto simp: table_def)
qed

lemma Sample_ok:
  assumes "uct_ok N n ue e" "node_ok N n node" "num_actions (uct_data node) < fuel"
    "order_ok n order (set (joined_tables (uct_data node))) (length (joined_tables (uct_data node)))"
  shows "\<exists>r. Sample fuel ue rc node order e c = Some r \<and> sampled N ue n e node order r"
  using assms(2-4)
proof (induction fuel arbitrary: node order c)
  case (Suc fuel)
  have u: "shuffles ue" "doubles_ok (ue_ops ue) N" "d_of_int (ue_ops ue) 0 \<in> N"
      "valid_order n order \<Longrightarrow> ue_Execute ue e order = Inr (r, e') \<Longrightarrow> r \<in> N" for order r e'
    using assms(1) unfolding uct_ok_def doubles_ok_def by blast+
  let ?d = "uct_data node" and ?ch = "uct_children node" and ?k = "length (joined_tables (uct_data node))"
  note ok = node_okD [OF Suc.prems(1)]
  note d = data_okD [OF ok(1)] and left = actions_left [OF ok(1)]
  show ?case
  proof (cases "num_actions ?d = 0")
    case True
    then have "set (joined_tables ?d) = {..<n}" "?k = n" using d(3,5,7) left by auto
    then have "valid_order n order" using Suc.prems(3) order_complete by simp
    then show ?thesis using True Suc.prems(1)
      by (cases "ue_Execute ue e order") (auto simp: sampled_def execute_failed_def executed_def Let_def)
  next
    case False
    then have pos: "num_actions ?d > 0" by simp
    from SelectAction_ok [OF u(2) ok(1,2) pos] show ?thesis
    proof (elim exE conjE)
      fix a d' assume sel: "SelectAction ue ?d = Inr (a, d')" and a: "a < num_actions ?d" and d': "data_ok n d'" "same_tables ?d d'"
        and sd': "stats_except N {a} d'"
      define table where "table = unjoined_tables ?d ! a"
      have tu: "table \<in> set (unjoined_tables ?d)" using a d(7) by (simp add: table_def)
      then have tj: "table \<notin> set (joined_tables ?d)" using d(5) by auto
      have st: "joined_tables d' = joined_tables ?d" "unjoined_tables d' = unjoined_tables ?d" using d'(2) by (simp_all add: same_tables_def)
      have k: "?k < n" using left pos by simp
      have len: "?k < length order" using k Suc.prems(3) by (simp add: order_ok_def)
      note ext = order_ok_extend [OF Suc.prems(3) k tj]
      obtain child c1 where child: "(if created_in d' \<noteq> rc \<and> ?ch ! a = None
          then Some (bindR (UctNodeChild ue e rc d' table c) (\<lambda>(n, c). Inr (Some n, c))) else Some (Inr (?ch ! a, c))) = Some (Inr (child, c1))"
          and cok: "\<And>m. child = Some m \<Longrightarrow> node_ok N n m \<and> set (joined_tables (uct_data m)) = insert table (set (joined_tables ?d))"
        by (rule child_ok [OF Suc.prems(1) a d' u(3), of rc e c, folded table_def]) (rule that)
      have lookups: "nthR (table_per_action d') a = Inr table" "updR order ?k table = Inr (order[?k := table])" "nthR ?ch a = Inr (?ch ! a)"
        using a d(7) ok(3) len data_okD(6) [OF d'(1)] by (simp_all add: st table_def)
      let ?run = "case child of
                 Some n \<Rightarrow> bindO (Sample fuel ue rc n (order[?k := table]) e c1) (\<lambda>(reward, n, order, e, c). Some (Inr (reward, d', Some n, order, e, c)))
               | None \<Rightarrow> Some (bindR (Playout ue e d' (order[?k := table])) (\<lambda>(reward, d, order, e). Inr (reward, d, None, order, e, c1)))"
      have step: "Sample (Suc fuel) ue rc node order e c = bindO ?run (\<lambda>(reward, d, child, order, e, c).
          bindO (Some (UpdateStatistics (ue_ops ue) a reward d)) (\<lambda>d. Some (Inr (reward, UctNode d (?ch[a := child]), order, e, c))))"
        by (simp only: Sample.simps Let_def False if_False sel bindO_simps prod.case lookups st(1) child)
      have run: "(\<exists>err. ?run = Some (Inl err) \<and> execute_failed ue n e err) \<or>
          (\<exists>reward d2 child' order' e' c'. ?run = Some (Inr (reward, d2, child', order', e', c')) \<and> data_ok n d2 \<and> same_tables ?d d2 \<and> stats_except N {a} d2
             \<and> (\<forall>m. child' = Some m \<longrightarrow> node_ok N n m \<and> set (joined_tables (uct_data m)) = insert table (set (joined_tables ?d)))
             \<and> executed ue n e (order[?k := table]) (Suc ?k) reward order' e')"
      proof (cases child)
        case None
        have "case Playout ue e d' (order[?k := table]) of Inl err \<Rightarrow> execute_failed ue n e err
            | Inr (reward, d2, order', e') \<Rightarrow> data_ok n d2 \<and> same_tables d' d2 \<and> (\<forall>N A. stats_except N A d' \<longrightarrow> stats_except N A d2)
              \<and> executed ue n e (order[?k := table]) (Suc ?k) reward order' e'"
          using Playout_ok [OF u(1) d'(1), unfolded st, OF ext(1) tu] len by simp
        then show ?thesis using None d'(2) sd'
          by (cases "Playout ue e d' (order[?k := table])") (auto simp: same_tables_def)
      next
        case (Some m)
        note m = cok [OF Some]
        have "length (joined_tables (uct_data m)) = card (insert table (set (joined_tables ?d)))"
          using distinct_card [OF data_okD(2) [OF node_okD(1) [of N n m]]] m by simp
        then have lm: "length (joined_tables (uct_data m)) = Suc ?k" using tj distinct_card [OF d(2)] by simp
        have "num_actions (uct_data m) < fuel" using actions_left [OF node_okD(1) [of N n m]] m lm left Suc.prems(2) k by simp
        then obtain r where r: "Sample fuel ue rc m (order[?k := table]) e c1 = Some r" "sampled N ue n e m (order[?k := table]) r"
          using Suc.IH [of m "order[?k := table]" c1] m lm ext(1) by auto
        then show ?thesis using Some m lm d' sd' by (cases r) (auto simp: sampled_def)
      qed
      from run show ?thesis
      proof (elim disjE exE conjE)
        fix err assume "?run = Some (Inl err)" "execute_failed ue n e err"
        then show ?thesis unfolding step by (simp add: sampled_def)
      next
        fix reward d2 child' order' e' c'
        assume r: "?run = Some (Inr (reward, d2, child', order', e', c'))" and d2: "data_ok n d2" "same_tables ?d d2" "stats_except N {a} d2"
          and c': "\<forall>m. child' = Some m \<longrightarrow> node_ok N n m \<and> set (joined_tables (uct_data m)) = insert table (set (joined_tables ?d))"
          and ex: "executed ue n e (order[?k := table]) (Suc ?k) reward order' e'"
        have rn: "reward \<in> N" using ex u(4) unfolding executed_def by blast
        have a2: "a < num_actions d2" using a d2(2) by (simp add: same_tables_def)
        obtain d3 where d3: "UpdateStatistics (ue_ops ue) a reward d2 = Inr d3" "data_ok n d3" "same_tables d2 d3" "stats_ok N d3"
          using UpdateStatistics_ok [OF d2(1) a2 d2(3) rn u(2)] by blast
        have s3: "same_tables ?d d3" using d2(2) d3(3) by (simp add: same_tables_def)
        have "node_ok N n (UctNode d3 (?ch[a := child']))"
          by (rule node_ok_update [OF Suc.prems(1) d3(2) s3 d3(4)]) (use c' in \<open>simp add: table_def\<close>)
        moreover have "executed ue n e order ?k reward order' e'" by (rule executed_shorter [OF ex ext(2)])
        ultimately show ?thesis unfolding step r using d3(1) s3 by (simp add: sampled_def same_tables_def)
      qed
    qed
  qed
qed simp

section \<open>The agent\<close>

definition agent_ok :: "'d set \<Rightarrow> nat \<Rightarrow> nat list \<Rightarrow> ('d, 'g) UctJoinAgent \<Rightarrow> bool" where
  "agent_ok N n prefix a \<longleftrightarrow> ag_num_tables a = n \<and> ag_joined a = prefix \<and> distinct prefix \<and> set prefix \<subseteq> {..<n}
     \<and> node_ok N n (ag_root a) \<and> set (joined_tables (uct_data (ag_root a))) = set prefix
     \<and> length (ag_order a) = n \<and> take (length prefix) (ag_order a) = prefix"

text \<open>What one action does: it executes one order, a permutation of the tables that begins with the prefix.\<close>

definition acted :: "('d, 'g, 'e, 'c) uct_env \<Rightarrow> nat \<Rightarrow> nat list \<Rightarrow> 'e \<Rightarrow> 'e \<Rightarrow> bool" where
  "acted ue n prefix e e' \<longleftrightarrow>
     (\<exists>order reward. valid_order n order \<and> take (length prefix) order = prefix \<and> ue_Execute ue e order = Inr (reward, e'))"

lemma UctJoinAgentNew_ok:
  assumes "distinct prefix" "set prefix \<subseteq> {..<n}" "d_of_int (ue_ops ue) 0 \<in> N"
  shows "\<exists>a c'. UctJoinAgentNew ue forget n prefix c = Inr (a, c') \<and> agent_ok N n prefix a"
proof -
  have len: "length prefix \<le> n" using card_mono [OF _ assms(2)] distinct_card [OF assms(1)] by simp
  obtain node c' where "UctNodeRoot ue 0 n prefix c = Inr (node, c')" "node_ok N n node" "set (joined_tables (uct_data node)) = set prefix"
    using UctNodeRoot_ok [where ue = ue and rc = 0 and c = c, OF assms] by blast
  then show ?thesis using write_all [of prefix "replicate n 0"] len assms by (simp add: UctJoinAgentNew_def agent_ok_def)
qed

lemma Act_ok:
  assumes "uct_ok N n ue e" "agent_ok N n prefix a"
  shows "\<exists>r. Act ue a e c = Some r \<and> (case r of Inl err \<Rightarrow> execute_failed ue n e err
    | Inr (a', e', c') \<Rightarrow> agent_ok N n prefix a' \<and> acted ue n prefix e e')"
proof -
  let ?root = "ag_root a"
  have ag: "ag_num_tables a = n" "ag_joined a = prefix" "distinct prefix" "set prefix \<subseteq> {..<n}" "node_ok N n ?root"
      "set (joined_tables (uct_data ?root)) = set prefix" "length (ag_order a) = n" "take (length prefix) (ag_order a) = prefix"
    using assms(2) by (simp_all add: agent_ok_def)
  note d = node_okD(1) [OF ag(5)]
  have len: "length (joined_tables (uct_data ?root)) = length prefix"
    using distinct_card [OF data_okD(2) [OF d]] distinct_card [OF ag(3)] ag(6) by simp
  have le: "length prefix \<le> n" using actions_left [OF d] len by simp
  have start: "order_ok n (ag_order a) (set (joined_tables (uct_data ?root))) (length (joined_tables (uct_data ?root)))"
    using ag le by (simp add: order_ok_def len)
  have fuel: "num_actions (uct_data ?root) < n + 1" using actions_left [OF d] by simp
  have zero: "d_of_int (ue_ops ue) 0 \<in> N" using assms(1) by (simp add: uct_ok_def doubles_ok_def)
  from Sample_ok [OF assms(1) ag(5) fuel start, of "round_ctr a + 1" c] obtain r where
      r: "Sample (n + 1) ue (round_ctr a + 1) ?root (ag_order a) e c = Some r" "sampled N ue n e ?root (ag_order a) r" by blast
  show ?thesis
  proof (cases r)
    case (Inl err)
    then show ?thesis using r by (simp add: Act_def ag(1) sampled_def)
  next
    case (Inr res)
    obtain reward node order e' c' where res: "res = (reward, node, order, e', c')" by (cases res)
    have s: "node_ok N n node" "set (joined_tables (uct_data node)) = set prefix" "executed ue n e (ag_order a) (length prefix) reward order e'"
      using r(2) ag(6) by (simp_all add: sampled_def Inr res len)
    have o: "valid_order n order" "take (length prefix) order = prefix" "ue_Execute ue e order = Inr (reward, e')"
      using s(3) ag(8) by (simp_all add: executed_def)
    have act: "acted ue n prefix e e'" unfolding acted_def using o by blast
    obtain node' c2 where new: "UctNodeRoot ue (round_ctr a + 1) n prefix c' = Inr (node', c2)" "node_ok N n node'"
        "set (joined_tables (uct_data node')) = set prefix"
      using UctNodeRoot_ok [where ue = ue and rc = "round_ctr a + 1" and c = c', OF ag(3,4) zero] by blast
    show ?thesis
      using r(1) s(1,2) new o(2) act ag(1-4) valid_order_length [OF o(1)]
      by (simp add: Act_def Inr res agent_ok_def Let_def)
  qed
qed

section \<open>The loop over the actions\<close>

lemma processed_tuples: "join_run cs st D \<Longrightarrow> D \<subseteq> {s. tuple_ok cs s}"
  by (induction rule: join_run.induct) (auto simp: processed_by_def)

lemma run_finished:
  assumes "join_run cs st D" "join_ok cs st" "finished st"
  shows "D = {s. tuple_ok cs s}"
  using join_run_covers [OF assms(1) join_okD(1,2) [OF assms(2)]] coversD(3) [OF _ assms(3)] processed_tuples [OF assms(1)] by blast

definition rewards_in :: "'d set \<Rightarrow> nat \<Rightarrow> ('e \<Rightarrow> bool) \<Rightarrow> ('e \<Rightarrow> nat list \<Rightarrow> ('d \<times> 'e) res) \<Rightarrow> bool" where
  "rewards_in N n ok execute \<longleftrightarrow> (\<forall>e order r e'. ok e \<longrightarrow> valid_order n order \<longrightarrow> execute e order = Inr (r, e') \<longrightarrow> r \<in> N)"

context join_environment
begin

definition serves :: "'d set \<Rightarrow> ('d, 'g, 'e, 'c) uct_env \<Rightarrow> bool" where
  "serves N ue \<longleftrightarrow> ue_Execute ue = execute \<and> ue_IsComplete ue = (\<lambda>e. finished (state_of e)) \<and> shuffles ue \<and> doubles_ok (ue_ops ue) N
     \<and> rewards_in N (length cs) env_ok execute"

lemma serves_uct: "serves N ue \<Longrightarrow> env_ok e \<Longrightarrow> uct_ok N (length cs) ue e"
  unfolding serves_def uct_ok_def rewards_in_def by blast

lemma acted_decreases:
  assumes "serves N ue" "env_ok e" "\<not> finished (state_of e)" "acted ue (length cs) prefix e e'" "join_run cs (state_of e) D"
  shows "env_ok e' \<and> work_left e' < work_left e \<and> (\<exists>D'. join_run cs (state_of e') D')"
proof -
  from assms(4) obtain order reward where o: "valid_order (length cs) order" "execute e order = Inr (reward, e')"
    using assms(1) by (auto simp: acted_def serves_def)
  have "\<exists>D'. join_run cs (state_of e') D'"
  proof -
    obtain t where t: "tuple_ok cs t" "UpdateJoin (state_of e) order t = Inr (state_of e')"
      using execute_advances [OF assms(2,3) o(1)] o(2) by auto
    obtain start where "GetLastCompletedTupleIdx (state_of e) order = Inr start"
      using resume_point [OF env_join_ok [OF assms(2)] o(1)] by (auto split: if_splits)
    then show ?thesis using join_run.execute [OF assms(5) o(1) _ t] by blast
  qed
  moreover obtain r e2 where "execute e order = Inr (r, e2)" "env_ok e2" "work_left e2 < work_left e"
    by (rule execute_decreases [OF assms(2,3) o(1)])
  ultimately show ?thesis using o(2) by simp
qed

lemma run_agent_ends:
  assumes "serves N ue" "agent_ok N (length cs) prefix a" "env_ok e" "join_run cs (state_of e) D"
  shows "\<exists>e'. run_agent ue a e c = Some (Inr e') \<and> env_ok e' \<and> finished (state_of e') \<and> join_run cs (state_of e') {s. tuple_ok cs s}"
  using assms(2-4)
proof (induction "work_left e" arbitrary: a e c D rule: less_induct)
  case less
  have complete: "ue_IsComplete ue e = finished (state_of e)" using assms(1) by (simp add: serves_def)
  show ?case
  proof (cases "finished (state_of e)")
    case True
    then show ?thesis using less.prems complete run_finished [OF less.prems(3) env_join_ok [OF less.prems(2)] True]
      by (subst run_agent.simps) simp
  next
    case False
    have "\<not> execute_failed ue (length cs) e err" for err
      using execute_advances [OF less.prems(2) False] assms(1) by (fastforce simp: execute_failed_def serves_def)
    note nofail = this
    obtain r where r: "Act ue a e c = Some r" "case r of Inl err \<Rightarrow> execute_failed ue (length cs) e err
        | Inr (a', e', c') \<Rightarrow> agent_ok N (length cs) prefix a' \<and> acted ue (length cs) prefix e e'"
      using Act_ok [OF serves_uct [OF assms(1) less.prems(2)] less.prems(1), of c] by blast
    obtain a' e' c' where act: "Act ue a e c = Some (Inr (a', e', c'))" "agent_ok N (length cs) prefix a'" "acted ue (length cs) prefix e e'"
      using r nofail by (cases r) auto
    obtain D' where e': "env_ok e'" "work_left e' < work_left e" "join_run cs (state_of e') D'"
      using acted_decreases [OF assms(1) less.prems(2) False act(3) less.prems(3)] by blast
    from less.hyps [OF e'(2) act(2) e'(1,3), of c'] show ?thesis
      using False complete act(1) by (subst run_agent.simps) simp
  qed
qed

end

end
