(* ===== verification/SkinnerJoin.thy ===== *)
theory SkinnerJoin
  imports SkinnerAgentCorrect
begin

text \<open>
  The join as the generated code calls it: the orders the agent executes, and that both ways to execute a join end with
  every tuple processed. The witnesses run the executor with functions that complete the join in one call.
\<close>

section \<open>The orders of an agent\<close>

inductive agent_reaches ::
    "('d, 'g, 'e, 'c) uct_env \<Rightarrow> bool \<Rightarrow> nat \<Rightarrow> nat list \<Rightarrow> ('d, 'g) UctJoinAgent \<Rightarrow> 'e \<Rightarrow> 'c \<Rightarrow> bool"
  for ue forget n prefix where
  new: "UctJoinAgentNew ue forget n prefix c = Inr (a, c') \<Longrightarrow> agent_reaches ue forget n prefix a e c'"
| act: "agent_reaches ue forget n prefix a e c \<Longrightarrow> Act ue a e c = Some (Inr (a', e', c')) \<Longrightarrow>
    agent_reaches ue forget n prefix a' e' c'"

lemma reaches_ok:
  assumes "agent_reaches ue forget n prefix a e c" "distinct prefix" "set prefix \<subseteq> {..<n}" "\<And>e. uct_ok N n ue e"
  shows "agent_ok N n prefix a"
  using assms(1)
proof induction
  case (new c a c' e)
  have "d_of_int (ue_ops ue) 0 \<in> N" using assms(4) by (simp add: uct_ok_def doubles_ok_def)
  with new UctJoinAgentNew_ok [OF assms(2,3), of ue N forget c] show ?case by auto
next
  case (act a e c a' e' c')
  with Act_ok [OF assms(4) [of e] act.IH, of c] show ?case by simp
qed

text \<open>
  Property C4. Whatever the agent has learned, its next action returns within its fuel, and it executes exactly one
  order, which is a permutation of all tables and begins with the prefix given to the agent; when the action fails, it
  is because the execution of such a permutation failed.
\<close>

theorem agent_executes_permutation:
  assumes "agent_reaches ue forget n prefix a e c" "distinct prefix" "set prefix \<subseteq> {..<n}" "\<And>e. uct_ok N n ue e"
  shows "\<exists>r. Act ue a e c = Some r \<and> (case r of
      Inl err \<Rightarrow> \<exists>order. valid_order n order \<and> ue_Execute ue e order = Inl err
    | Inr (a', e', c') \<Rightarrow> \<exists>order reward. valid_order n order \<and> take (length prefix) order = prefix
        \<and> ue_Execute ue e order = Inr (reward, e'))"
proof -
  obtain r where "Act ue a e c = Some r" "case r of Inl err \<Rightarrow> execute_failed ue n e err
      | Inr (a', e', c') \<Rightarrow> agent_ok N n prefix a' \<and> acted ue n prefix e e'"
    using Act_ok [OF assms(4) [of e] reaches_ok [OF assms], of c] by blast
  then show ?thesis by (cases r) (auto simp: execute_failed_def acted_def)
qed

section \<open>Both ways to execute a join\<close>

lemma reconstruct:
  assumes "length xs = n"
  shows "foldR (\<lambda>ys i. bindR (nthR xs i) (\<lambda>x. Inr (ys @ [x]))) [] [0..<n] = Inr xs"
proof -
  have "foldR (\<lambda>ys i. bindR (nthR xs i) (\<lambda>x. Inr (ys @ [x]))) [] [0..<k] = Inr (take k xs)" if "k \<le> length xs" for k
    using that by (induction k) (simp_all add: foldR_append take_Suc_conv_app_nth)
  then show ?thesis using assms by auto
qed

lemma reconstructed:
  "length cs = n \<Longrightarrow> ReconstructCardinalities n cs = Inr cs" "length fs = n \<Longrightarrow> ReconstructTableFunctions n fs = Inr fs"
  by (simp_all add: ReconstructCardinalities_def ReconstructTableFunctions_def reconstruct)

lemma permutable_serves:
  assumes "shuffles ue" "doubles_ok ops N" "rewards_in N (length cs) (permutable_ok cs call) (PermutableExecute ops call)"
  shows "permutable.serves cs call ops N (permutable_uct ops call ue)"
  using assms by (simp add: permutable.serves_def permutable_uct_def shuffles_def)

lemma recompiling_serves:
  assumes "shuffles ue" "doubles_ok ops N" "rewards_in N (length cs) (recompiling_ok cs compiled) (RecompilationExecute ops compiled)"
  shows "recompiling.serves cs compiled ops N (recompiling_uct ops compiled ue)"
  using assms by (simp add: recompiling.serves_def recompiling_uct_def shuffles_def)

lemma cards_positive: "0 \<notin> set cs \<Longrightarrow> (\<And>c. c \<in> set cs \<Longrightarrow> 0 \<le> c) \<Longrightarrow> cards_ok cs"
  unfolding cards_ok_def by (metis nth_mem order_le_less)



section \<open>Functions that complete the join\<close>

text \<open>
  Generated functions that return behind the last row of the first table of the order. The doubles of the witnesses are
  integers with a comparison that always holds, which satisfies the assumptions for the set of all integers.
\<close>

definition complete_call :: "int list \<Rightarrow> nat \<Rightarrow> int \<Rightarrow> int \<Rightarrow> nat permutable_flags \<Rightarrow> unit \<Rightarrow> (int \<times> nat permutable_flags \<times> unit) res" where
  "complete_call cs f budget flag mem w = Inr (0, mem\<lparr>table_ctr := int f, idx_arr := map (\<lambda>c. c - 1) cs\<rparr>, w)"

definition complete_compiled :: "int list \<Rightarrow> nat list \<Rightarrow> int \<Rightarrow> int \<Rightarrow> engine_flags \<Rightarrow> unit \<Rightarrow> (int \<times> engine_flags \<times> unit) res" where
  "complete_compiled cs order budget flag mem w = Inr (0, mem\<lparr>table_ctr := int (hd order), idx_arr := map (\<lambda>c. c - 1) cs\<rparr>, w)"

definition int_ops :: "int double_ops" where
  "int_ops = \<lparr>d_of_int = \<lambda>i. i, d_add = (+), d_mul = (*), d_div = (div), d_sqrt = \<lambda>_. 0, d_log = \<lambda>_. 0, d_gt = \<lambda>_ _. True,
     d_half = 1, d_exploration_weight = 1\<rparr>"

definition example_uct :: "(int, unit, 'e, unit) uct_env" where
  "example_uct = \<lparr>ue_ops = int_ops, ue_IsConnected = \<lambda>_ _ _. True, ue_IsComplete = \<lambda>_. False, ue_Execute = \<lambda>e _. Inr (0, e),
     ue_engine = \<lambda>_. (), ue_next = \<lambda>g. (0, g), ue_shuffle = \<lambda>xs g. (xs, g), ue_join_seed = 1, ue_clock = \<lambda>c. (0, c)\<rparr>"

lemma example_agent:
  "shuffles (example_uct :: (int, unit, 'e, unit) uct_env)" "doubles_ok int_ops UNIV" "rewards_in UNIV n ok execute"
  by (simp_all add: shuffles_def example_uct_def doubles_ok_def int_ops_def rewards_in_def)

lemma complete_reports:
  assumes "valid_order (length cs) order" "cs \<noteq> []" "cards_ok cs" "resumable cs order flag progress"
  shows "reports cs order flag progress 0 (int (hd order)) (map (\<lambda>c. c - 1) cs)"
proof -
  have len: "length order = length cs" by (rule valid_order_length [OF assms(1)])
  then obtain x q where o: "order = x # q" using assms(2) by (cases order) auto
  have "x \<in> set order" by (simp add: o)
  then have x: "x < length cs" using assms(1) unfolding valid_order_def by blast
  have pos: "0 < combos cs order" by (rule cards_combos_pos [OF assms(3)]) (use assms(1) in \<open>simp add: valid_order_def\<close>)
  have "reported cs ([] @ [x]) q 0 (map (\<lambda>c. c - 1) cs) = combos cs order" using x by (simp add: reported_def o)
  then show ?thesis
    using o x pos assms(3,4) unfolding reports_def
    by (intro exI [of _ "[]"] exI [of _ x] exI [of _ q]) (simp add: rows_ok_def cards_ok_def resumable_def)
qed

lemma complete_call_contract:
  assumes "cs \<noteq> []" "cards_ok cs"
  shows "permutable_contract cs (complete_call cs) [0..<length cs] handler budget flags"
  unfolding permutable_contract_def
proof (intro allI impI)
  fix order flag and mem :: "nat permutable_flags" and w :: unit
  assume h: "valid_order (length cs) order" "permutable_mem_ok (length cs) flags mem" "resumable cs order flag (progress_arr mem)"
  have "hd order \<in> set order" using valid_order_length [OF h(1)] assms(1) by (cases order) auto
  then have "hd order < length cs" using h(1) unfolding valid_order_def by blast
  then show "\<exists>status mem' w'. complete_call cs ([0..<length cs] ! hd order) budget flag mem w = Inr (status, mem', w')
      \<and> permutable_mem_ok (length cs) flags mem' \<and> reports cs order flag (progress_arr mem) status (table_ctr mem') (idx_arr mem')"
    using h(2) complete_reports [OF h(1) assms h(3)] by (simp add: complete_call_def permutable_mem_ok_def)
qed

lemma complete_compiled_contract: "cs \<noteq> [] \<Longrightarrow> cards_ok cs \<Longrightarrow> recompiling_contract cs (complete_compiled cs) budget"
  unfolding recompiling_contract_def by (simp add: complete_compiled_def recompiling_mem_ok_def complete_reports)


definition example_recompiling :: RecompilationJoinEnvironment where
  "example_recompiling = \<lparr>rc_budget_per_episode = 100, rc_table_connections = [(0, 1)], rc_cardinalities = [2, 3], rc_state = JoinStateNew [2, 3],
     rc_engine = \<lparr>progress_arr = [-1, -1], table_ctr = 0, idx_arr = [0, 0], num_result_tuples = 0, offset_arr = [-1, -1]\<rparr>\<rparr>"


theorem agent_executes_permutation_witness:
  "\<exists>a c'. UctJoinAgentNew (example_uct :: (int, unit, bool, unit) uct_env) False 3 [2] () = Inr (a, c')
    \<and> (\<exists>r. Act (example_uct :: (int, unit, bool, unit) uct_env) a True c' = Some r)"
proof -
  let ?ue = "example_uct :: (int, unit, bool, unit) uct_env"
  obtain a c' where a: "UctJoinAgentNew ?ue False 3 [2] () = Inr (a, c')"
    using UctJoinAgentNew_ok [of "[2]" 3 ?ue UNIV False "()"] by auto
  have "uct_ok UNIV 3 ?ue e" for e using example_agent(1,2) by (simp add: uct_ok_def example_uct_def)
  from agent_executes_permutation [OF agent_reaches.new [OF a, of True] _ _ this] obtain r where "Act ?ue a True c' = Some r" by auto
  with a show ?thesis by blast
qed

end
