(* ===== verification/PlanExpression.thy ===== *)
theory PlanExpression
  imports KushPrelude
begin

text \<open>
  SQL types (\<^verbatim>\<open>catalog/sql_type.h\<close>), the catalog (\<^verbatim>\<open>catalog/catalog.cc\<close>) and the expressions of a
  plan (\<^verbatim>\<open>plan/expression\<close>). An expression has the fields of the base class, the type, whether it is
  nullable and the children, and a node for what its subclass adds. The constructors compute the type from those of the
  children and throw when they do not fit. A map of the catalog is a list in the order of its iteration.
  Column and child indices start at 0 and are natural numbers; doubles are their 64 bits.
\<close>

section \<open>Types\<close>

datatype TypeId = SMALLINT | INTEGER | BIGINT | REAL | DATE | TEXT | BOOLEAN | ENUM

record SqlType =
  type_id :: TypeId
  enum_id :: int

definition SqlSmallInt :: SqlType where "SqlSmallInt = \<lparr>type_id = SMALLINT, enum_id = 0\<rparr>"
definition SqlInt :: SqlType where "SqlInt = \<lparr>type_id = INTEGER, enum_id = 0\<rparr>"
definition SqlBigInt :: SqlType where "SqlBigInt = \<lparr>type_id = BIGINT, enum_id = 0\<rparr>"
definition SqlReal :: SqlType where "SqlReal = \<lparr>type_id = REAL, enum_id = 0\<rparr>"
definition SqlDate :: SqlType where "SqlDate = \<lparr>type_id = DATE, enum_id = 0\<rparr>"
definition SqlText :: SqlType where "SqlText = \<lparr>type_id = TEXT, enum_id = 0\<rparr>"
definition SqlBoolean :: SqlType where "SqlBoolean = \<lparr>type_id = BOOLEAN, enum_id = 0\<rparr>"
definition SqlEnum :: "int \<Rightarrow> SqlType" where "SqlEnum i = \<lparr>type_id = ENUM, enum_id = i\<rparr>"

lemmas sql_types = SqlSmallInt_def SqlInt_def SqlBigInt_def SqlReal_def SqlDate_def SqlText_def SqlBoolean_def SqlEnum_def

section \<open>Catalog\<close>

record Column =
  col_name :: string
  col_type :: SqlType
  col_path :: string
  null_path :: string
  index_path :: string

definition ColumnNullable :: "Column \<Rightarrow> bool" where
  "ColumnNullable c \<longleftrightarrow> null_path c \<noteq> []"

definition HasIndex :: "Column \<Rightarrow> bool" where
  "HasIndex c \<longleftrightarrow> index_path c \<noteq> []"

record CatalogTable =
  table_name :: string
  name_to_col :: "(string \<times> Column) list"

definition CatalogTableNew :: "string \<Rightarrow> CatalogTable" where
  "CatalogTableNew n = \<lparr>table_name = n, name_to_col = []\<rparr>"

definition TableInsert :: "CatalogTable \<Rightarrow> string \<Rightarrow> SqlType \<Rightarrow> string \<Rightarrow> string \<Rightarrow> string \<Rightarrow> CatalogTable" where
  "TableInsert t attr ty path npath ipath =
     (if map_of (name_to_col t) attr \<noteq> None then t
      else t\<lparr>name_to_col := name_to_col t @
        [(attr, \<lparr>col_name = attr, col_type = ty, col_path = path, null_path = npath, index_path = ipath\<rparr>)]\<rparr>)"

definition TableAt :: "CatalogTable \<Rightarrow> string \<Rightarrow> Column res" where
  "TableAt t attr = atR (map_of (name_to_col t)) attr"

definition TableColumns :: "CatalogTable \<Rightarrow> Column list" where
  "TableColumns t = map snd (name_to_col t)"

type_synonym Database = "(string \<times> CatalogTable) list"

definition DatabaseInsert :: "Database \<Rightarrow> string \<Rightarrow> Database" where
  "DatabaseInsert db t = (if map_of db t \<noteq> None then db else db @ [(t, CatalogTableNew t)])"

definition DatabaseAt :: "Database \<Rightarrow> string \<Rightarrow> CatalogTable res" where
  "DatabaseAt db t = atR (map_of db) t"

definition DatabaseContains :: "Database \<Rightarrow> string \<Rightarrow> bool" where
  "DatabaseContains db t \<longleftrightarrow> map_of db t \<noteq> None"

section \<open>Expressions\<close>

datatype LiteralValue = LitInt16 u16 | LitInt32 u32 | LitInt64 u64 | LitDouble u64 | LitString string | LitBool bool
  | LitDate int int int | LitEnum int

datatype UnaryArithmeticExpressionType = UNot | UIsNull

datatype BinaryArithmeticExpressionType = BAdd | BSub | BMul | BDiv | BEq | BNeq | BLt | BLeq | BGt | BGeq | BAnd | BOr
  | BStartsWith | BEndsWith | BContains

datatype AggregateType = AggSum | AggAvg | AggCount | AggMax | AggMin

datatype ExtractValue = ExtractYEAR

datatype ExpressionNode =
    ColumnRefNode nat nat
  | VirtualColumnRefNode nat
  | LiteralNode LiteralValue bool
  | UnaryArithmeticNode UnaryArithmeticExpressionType
  | BinaryArithmeticNode BinaryArithmeticExpressionType
  | RegexpMatchingNode string
  | EnumInNode "int list"
  | AggregateNode AggregateType
  | CaseNode
  | ExtractNode ExtractValue
  | IntToFloatConversionNode

datatype Expression = Expression (expr_type: SqlType) (expr_nullable: bool) (expr_node: ExpressionNode) (expr_children: "Expression list")

definition SetNullable :: "Expression \<Rightarrow> Expression" where
  "SetNullable e = Expression (expr_type e) True (expr_node e) (expr_children e)"

definition SetChildren :: "Expression \<Rightarrow> Expression list \<Rightarrow> Expression" where
  "SetChildren e cs = Expression (expr_type e) (expr_nullable e) (expr_node e) cs"

subsection \<open>Arithmetic\<close>

abbreviation same_types :: "SqlType \<Rightarrow> SqlType \<Rightarrow> SqlType \<Rightarrow> SqlType res" where
  "same_types l r t \<equiv> (if l \<noteq> r then Inl (RuntimeError ''Require same type arguments'') else Inr t)"

definition CalculateBinaryType :: "BinaryArithmeticExpressionType \<Rightarrow> SqlType \<Rightarrow> SqlType \<Rightarrow> SqlType res" where
  "CalculateBinaryType op l r =
     (if type_id l = ENUM then
        (if op \<in> {BEq, BNeq} then same_types l r SqlBoolean
         else if op \<in> {BLt, BLeq, BGt, BGeq, BStartsWith, BEndsWith, BContains} then
           (if type_id r \<noteq> TEXT \<and> l \<noteq> r then Inl (RuntimeError ''Require same type arguments'') else Inr SqlBoolean)
         else Inl (RuntimeError ''Invalid expr type''))
      else if type_id r = ENUM then Inl (RuntimeError ''not supported yet'')
      else same_types l r (if op \<in> {BAdd, BSub, BMul, BDiv} then l else SqlBoolean))"

definition BinaryArithmeticExpression :: "BinaryArithmeticExpressionType \<Rightarrow> Expression \<Rightarrow> Expression \<Rightarrow> Expression res" where
  "BinaryArithmeticExpression op l r =
     bindR (CalculateBinaryType op (expr_type l) (expr_type r)) (\<lambda>t.
       Inr (Expression t (expr_nullable l \<or> expr_nullable r) (BinaryArithmeticNode op) [l, r]))"

fun CalculateUnaryType :: "UnaryArithmeticExpressionType \<Rightarrow> SqlType \<Rightarrow> SqlType res" where
  "CalculateUnaryType UNot t = (if type_id t \<noteq> BOOLEAN then Inl (RuntimeError ''Not boolean child'') else Inr SqlBoolean)"
| "CalculateUnaryType UIsNull t = Inr SqlBoolean"

fun CalculateNullability :: "UnaryArithmeticExpressionType \<Rightarrow> bool \<Rightarrow> bool" where
  "CalculateNullability UIsNull n = False"
| "CalculateNullability UNot n = n"

definition UnaryArithmeticExpression :: "UnaryArithmeticExpressionType \<Rightarrow> Expression \<Rightarrow> Expression res" where
  "UnaryArithmeticExpression op c =
     bindR (CalculateUnaryType op (expr_type c)) (\<lambda>t.
       Inr (Expression t (CalculateNullability op (expr_nullable c)) (UnaryArithmeticNode op) [c]))"

definition CalculateRegexpType :: "SqlType \<Rightarrow> SqlType res" where
  "CalculateRegexpType t =
     (if type_id t \<noteq> TEXT \<and> type_id t \<noteq> ENUM
      then Inl (RuntimeError ''Invalid child type for LIKE. Expected text/enum.'') else Inr SqlBoolean)"

definition RegexpMatchingExpression :: "Expression \<Rightarrow> string \<Rightarrow> Expression res" where
  "RegexpMatchingExpression c regex =
     bindR (CalculateRegexpType (expr_type c)) (\<lambda>t. Inr (Expression t False (RegexpMatchingNode regex) [c]))"

subsection \<open>Aggregates and the other expressions\<close>

definition CalculateAggTypeId :: "AggregateType \<Rightarrow> SqlType \<Rightarrow> SqlType res" where
  "CalculateAggTypeId agg t =
     (case agg of
        AggSum \<Rightarrow> if type_id t \<in> {INTEGER, SMALLINT, BIGINT, REAL} then Inr t
                  else Inl (RuntimeError ''Invalid input type for sum aggregate'')
      | AggAvg \<Rightarrow> if type_id t \<in> {INTEGER, SMALLINT, BIGINT, REAL} then Inr SqlReal
                  else Inl (RuntimeError ''Invalid input type for avg aggregate'')
      | AggCount \<Rightarrow> Inr SqlBigInt
      | _ \<Rightarrow> if type_id t \<in> {INTEGER, SMALLINT, BIGINT, REAL, DATE, TEXT, ENUM} then Inr t
            else Inl (RuntimeError ''Invalid input type for max/min aggregate''))"

definition AggregateExpression :: "AggregateType \<Rightarrow> Expression \<Rightarrow> Expression res" where
  "AggregateExpression agg c =
     bindR (CalculateAggTypeId agg (expr_type c)) (\<lambda>t. Inr (Expression t (agg \<noteq> AggCount) (AggregateNode agg) [c]))"

definition CalculateCaseType :: "SqlType \<Rightarrow> SqlType \<Rightarrow> SqlType \<Rightarrow> SqlType res" where
  "CalculateCaseType cond l r =
     (if type_id cond \<noteq> BOOLEAN then Inl (RuntimeError ''Non-boolean condition'')
      else if l \<noteq> r then Inl (RuntimeError ''Case must have same type arguments'') else Inr l)"

definition CaseExpression :: "Expression \<Rightarrow> Expression \<Rightarrow> Expression \<Rightarrow> Expression res" where
  "CaseExpression cond l r =
     bindR (CalculateCaseType (expr_type cond) (expr_type l) (expr_type r)) (\<lambda>t.
       Inr (Expression t (expr_nullable l \<or> expr_nullable r) CaseNode [cond, l, r]))"

definition CalculateEnumInType :: "SqlType \<Rightarrow> SqlType res" where
  "CalculateEnumInType t =
     (if type_id t \<noteq> ENUM then Inl (RuntimeError ''Invalid child type for Enum in. Expected enum.'') else Inr SqlBoolean)"

definition EnumInExpression :: "Expression \<Rightarrow> int list \<Rightarrow> Expression res" where
  "EnumInExpression c values =
     bindR (CalculateEnumInType (expr_type c)) (\<lambda>t. Inr (Expression t False (EnumInNode values) [c]))"

definition CalculateExtractTypeId :: "SqlType \<Rightarrow> SqlType res" where
  "CalculateExtractTypeId t =
     (if type_id t \<noteq> DATE then Inl (RuntimeError ''Non-date child type for extract.'') else Inr SqlInt)"

definition ExtractExpression :: "Expression \<Rightarrow> ExtractValue \<Rightarrow> Expression res" where
  "ExtractExpression c v =
     bindR (CalculateExtractTypeId (expr_type c)) (\<lambda>t. Inr (Expression t (expr_nullable c) (ExtractNode v) [c]))"

definition CalculateConvTypeId :: "SqlType \<Rightarrow> SqlType res" where
  "CalculateConvTypeId t =
     (if type_id t \<notin> {BIGINT, INTEGER, SMALLINT} then Inl (RuntimeError ''Non-integral child type for conversion.'')
      else Inr SqlReal)"

definition IntToFloatConversionExpression :: "Expression \<Rightarrow> Expression res" where
  "IntToFloatConversionExpression c =
     bindR (CalculateConvTypeId (expr_type c)) (\<lambda>t. Inr (Expression t (expr_nullable c) IntToFloatConversionNode [c]))"

definition ColumnRefExpression :: "SqlType \<Rightarrow> bool \<Rightarrow> nat \<Rightarrow> nat \<Rightarrow> Expression" where
  "ColumnRefExpression t n child_idx column_idx = Expression t n (ColumnRefNode child_idx column_idx) []"

definition VirtualColumnRefExpression :: "SqlType \<Rightarrow> bool \<Rightarrow> nat \<Rightarrow> Expression" where
  "VirtualColumnRefExpression t n column_idx = Expression t n (VirtualColumnRefNode column_idx) []"

subsection \<open>Literals\<close>

definition LiteralInt16 :: "u16 \<Rightarrow> Expression" where
  "LiteralInt16 v = Expression SqlSmallInt False (LiteralNode (LitInt16 v) False) []"

definition LiteralInt32 :: "u32 \<Rightarrow> Expression" where
  "LiteralInt32 v = Expression SqlInt False (LiteralNode (LitInt32 v) False) []"

definition LiteralInt64 :: "u64 \<Rightarrow> Expression" where
  "LiteralInt64 v = Expression SqlBigInt False (LiteralNode (LitInt64 v) False) []"

definition LiteralDouble :: "u64 \<Rightarrow> Expression" where
  "LiteralDouble v = Expression SqlReal False (LiteralNode (LitDouble v) False) []"

definition LiteralDate :: "int \<Rightarrow> int \<Rightarrow> int \<Rightarrow> Expression" where
  "LiteralDate y m d = Expression SqlDate False (LiteralNode (LitDate y m d) False) []"

definition LiteralString :: "string \<Rightarrow> Expression" where
  "LiteralString v = Expression SqlText False (LiteralNode (LitString v) False) []"

definition LiteralBool :: "bool \<Rightarrow> Expression" where
  "LiteralBool v = Expression SqlBoolean False (LiteralNode (LitBool v) False) []"

text \<open>The value of an enum literal is looked up by \<^verbatim>\<open>EnumManager::GetValue\<close>, which is -1 for an unknown key.\<close>

definition LiteralEnum :: "(int \<Rightarrow> string \<Rightarrow> int res) \<Rightarrow> int \<Rightarrow> string \<Rightarrow> Expression res" where
  "LiteralEnum get_value i key =
     bindR (get_value i key) (\<lambda>v. Inr (Expression (SqlEnum i) False (LiteralNode (LitEnum v) False) []))"

fun default_value :: "TypeId \<Rightarrow> LiteralValue" where
  "default_value BOOLEAN = LitBool False"
| "default_value SMALLINT = LitInt16 0"
| "default_value INTEGER = LitInt32 0"
| "default_value BIGINT = LitInt64 0"
| "default_value REAL = LitDouble 0"
| "default_value TEXT = LitString []"
| "default_value DATE = LitDate 2000 1 1"
| "default_value ENUM = LitEnum (-1)"

definition LiteralNull :: "SqlType \<Rightarrow> Expression" where
  "LiteralNull t = Expression t True (LiteralNode (default_value (type_id t)) True) []"

text \<open>\<^verbatim>\<open>Visit\<close> with a function for every kind of value; calling an empty function throws.\<close>

definition callF :: "('a \<Rightarrow> 'r) option \<Rightarrow> 'a \<Rightarrow> 'r res" where
  "callF f x = (case f of None \<Rightarrow> Inl BadFunctionCall | Some g \<Rightarrow> Inr (g x))"

definition LiteralVisit ::
    "(u16 \<times> bool \<Rightarrow> 'r) option \<Rightarrow> (u32 \<times> bool \<Rightarrow> 'r) option \<Rightarrow> (u64 \<times> bool \<Rightarrow> 'r) option \<Rightarrow> (u64 \<times> bool \<Rightarrow> 'r) option
     \<Rightarrow> (string \<times> bool \<Rightarrow> 'r) option \<Rightarrow> (bool \<times> bool \<Rightarrow> 'r) option \<Rightarrow> ((int \<times> int \<times> int) \<times> bool \<Rightarrow> 'r) option
     \<Rightarrow> (int \<times> int \<times> bool \<Rightarrow> 'r) option \<Rightarrow> SqlType \<Rightarrow> LiteralValue \<Rightarrow> bool \<Rightarrow> 'r res" where
  "LiteralVisit f1 f2 f3 f4 f5 f6 f7 f8 t v null =
     (case v of
        LitInt16 x \<Rightarrow> callF f1 (x, null)
      | LitInt32 x \<Rightarrow> callF f2 (x, null)
      | LitInt64 x \<Rightarrow> callF f3 (x, null)
      | LitDouble x \<Rightarrow> callF f4 (x, null)
      | LitString x \<Rightarrow> callF f5 (x, null)
      | LitBool x \<Rightarrow> callF f6 (x, null)
      | LitDate y m d \<Rightarrow> callF f7 ((y, m, d), null)
      | LitEnum x \<Rightarrow> callF f8 (x, enum_id t, null))"

end
