(* ===== verification/PlanOperator.thy ===== *)
theory PlanOperator
  imports PlanExpression "HOL-Library.AList"
begin

text \<open>
  The operators of a plan (\<^verbatim>\<open>plan/operator\<close>) and their schemas (\<^verbatim>\<open>plan/operator/operator_schema.cc\<close>). An
  operator has its schema, its children and a node for what its subclass adds; the pointer to the parent is left out.
  The map from names to positions is an association list.
\<close>

section \<open>Schemas\<close>

record SchemaColumn =
  sc_name :: string
  sc_expr :: Expression

record OperatorSchema =
  column_name_to_idx :: "(string \<times> nat) list"
  columns :: "SchemaColumn list"

definition OperatorSchemaNew :: OperatorSchema where
  "OperatorSchemaNew = \<lparr>column_name_to_idx = [], columns = []\<rparr>"

definition AddDerivedColumn :: "string \<Rightarrow> Expression \<Rightarrow> OperatorSchema \<Rightarrow> OperatorSchema" where
  "AddDerivedColumn name e s =
     s\<lparr>column_name_to_idx := AList.update name (length (columns s)) (column_name_to_idx s),
       columns := columns s @ [\<lparr>sc_name = name, sc_expr = e\<rparr>]\<rparr>"

definition add_generated :: "string \<Rightarrow> Column \<Rightarrow> OperatorSchema \<Rightarrow> OperatorSchema" where
  "add_generated name c s =
     AddDerivedColumn name (ColumnRefExpression (col_type c) (ColumnNullable c) 0 (length (columns s))) s"

definition AddGeneratedColumns :: "CatalogTable \<Rightarrow> OperatorSchema \<Rightarrow> OperatorSchema" where
  "AddGeneratedColumns table s = foldl (\<lambda>s c. add_generated (col_name c) c s) s (TableColumns table)"

definition AddGeneratedColumnsNamed :: "CatalogTable \<Rightarrow> string list \<Rightarrow> OperatorSchema \<Rightarrow> OperatorSchema res" where
  "AddGeneratedColumnsNamed table names s =
     foldR (\<lambda>s name. bindR (TableAt table name) (\<lambda>c. Inr (add_generated name c s))) s names"

definition GetColumnIndex :: "OperatorSchema \<Rightarrow> string \<Rightarrow> nat res" where
  "GetColumnIndex s name = atR (map_of (column_name_to_idx s)) name"

definition add_passthrough :: "string \<Rightarrow> SchemaColumn \<Rightarrow> nat \<Rightarrow> nat \<Rightarrow> OperatorSchema \<Rightarrow> OperatorSchema" where
  "add_passthrough name col child_idx idx s =
     AddDerivedColumn name (ColumnRefExpression (expr_type (sc_expr col)) (expr_nullable (sc_expr col)) child_idx idx) s"

definition AddPassthroughColumns :: "OperatorSchema \<Rightarrow> nat \<Rightarrow> OperatorSchema \<Rightarrow> OperatorSchema" where
  "AddPassthroughColumns schema child_idx s =
     foldl (\<lambda>s (i, col). add_passthrough (sc_name col) col child_idx i s) s (zip [0..<length (columns schema)] (columns schema))"

definition AddPassthroughColumn :: "OperatorSchema \<Rightarrow> string \<Rightarrow> string \<Rightarrow> nat \<Rightarrow> OperatorSchema \<Rightarrow> OperatorSchema res" where
  "AddPassthroughColumn schema base_name derived_name child_idx s =
     bindR (GetColumnIndex schema base_name) (\<lambda>idx.
     bindR (nthR (columns schema) idx) (\<lambda>col. Inr (add_passthrough derived_name col child_idx idx s)))"

definition AddPassthroughColumnsNamed :: "OperatorSchema \<Rightarrow> string list \<Rightarrow> nat \<Rightarrow> OperatorSchema \<Rightarrow> OperatorSchema res" where
  "AddPassthroughColumnsNamed schema names child_idx s =
     foldR (\<lambda>s name.
       bindR (GetColumnIndex schema name) (\<lambda>idx.
       bindR (nthR (columns schema) idx) (\<lambda>col. Inr (add_passthrough name col child_idx idx s)))) s names"

definition add_virtual :: "string \<Rightarrow> SchemaColumn \<Rightarrow> nat \<Rightarrow> OperatorSchema \<Rightarrow> OperatorSchema" where
  "add_virtual name col idx s =
     AddDerivedColumn name (VirtualColumnRefExpression (expr_type (sc_expr col)) (expr_nullable (sc_expr col)) idx) s"

definition AddVirtualPassthroughColumns :: "OperatorSchema \<Rightarrow> OperatorSchema \<Rightarrow> OperatorSchema res" where
  "AddVirtualPassthroughColumns schema s =
     foldR (\<lambda>s col. bindR (GetColumnIndex schema (sc_name col)) (\<lambda>idx. Inr (add_virtual (sc_name col) col idx s))) s (columns schema)"

definition AddVirtualPassthroughColumnsNamed :: "OperatorSchema \<Rightarrow> string list \<Rightarrow> OperatorSchema \<Rightarrow> OperatorSchema res" where
  "AddVirtualPassthroughColumnsNamed schema names s =
     foldR (\<lambda>s name.
       bindR (GetColumnIndex schema name) (\<lambda>idx.
       bindR (nthR (columns schema) idx) (\<lambda>col. Inr (add_virtual name col idx s)))) s names"

text \<open>The positions of the columns behind the removed one stay as they were in the map.\<close>

definition RemoveColumn :: "nat \<Rightarrow> OperatorSchema \<Rightarrow> OperatorSchema res" where
  "RemoveColumn idx s =
     bindR (nthR (columns s) idx) (\<lambda>col.
       Inr (s\<lparr>column_name_to_idx := AList.delete (sc_name col) (column_name_to_idx s),
              columns := take idx (columns s) @ drop (idx + 1) (columns s)\<rparr>))"

section \<open>Operators\<close>

datatype OperatorNode =
    ScanNode CatalogTable
  | SelectNode Expression
  | ScanSelectNode OperatorSchema CatalogTable "Expression list"
  | SimdScanSelectNode OperatorSchema CatalogTable "Expression list list" bool
  | SkinnerJoinNode "Expression list" "nat list"
  | HashJoinNode "Expression list" "Expression list"
  | CrossProductNode
  | AggregateOpNode "Expression list"
  | GroupByAggregateNode "Expression list" "Expression list"
  | OrderByNode "Expression list" "bool list"
  | OutputNode

datatype Operator = Operator (op_schema: OperatorSchema) (op_node: OperatorNode) (op_children: "Operator list")

definition ScanOperator :: "OperatorSchema \<Rightarrow> CatalogTable \<Rightarrow> Operator" where
  "ScanOperator s relation = Operator s (ScanNode relation) []"

definition SelectOperator :: "OperatorSchema \<Rightarrow> Operator \<Rightarrow> Expression \<Rightarrow> Operator" where
  "SelectOperator s child e = Operator s (SelectNode e) [child]"

definition ScanSelectOperator :: "OperatorSchema \<Rightarrow> OperatorSchema \<Rightarrow> CatalogTable \<Rightarrow> Expression list \<Rightarrow> Operator" where
  "ScanSelectOperator select_schema scan_schema relation filters = Operator select_schema (ScanSelectNode scan_schema relation filters) []"

definition SimdScanSelectOperator ::
    "OperatorSchema \<Rightarrow> OperatorSchema \<Rightarrow> CatalogTable \<Rightarrow> Expression list list \<Rightarrow> bool \<Rightarrow> Operator" where
  "SimdScanSelectOperator select_schema scan_schema relation filters conjunction =
     Operator select_schema (SimdScanSelectNode scan_schema relation filters conjunction) []"

definition SkinnerJoinOperator :: "OperatorSchema \<Rightarrow> Operator list \<Rightarrow> Expression list \<Rightarrow> nat list \<Rightarrow> Operator" where
  "SkinnerJoinOperator s children conditions prefix_order = Operator s (SkinnerJoinNode conditions prefix_order) children"

definition HashJoinOperator :: "OperatorSchema \<Rightarrow> Operator \<Rightarrow> Operator \<Rightarrow> Expression list \<Rightarrow> Expression list \<Rightarrow> Operator" where
  "HashJoinOperator s l r left_columns right_columns = Operator s (HashJoinNode left_columns right_columns) [l, r]"

definition CrossProductOperator :: "OperatorSchema \<Rightarrow> Operator list \<Rightarrow> Operator" where
  "CrossProductOperator s children = Operator s CrossProductNode children"

text \<open>A null pointer among the aggregates is undefined.\<close>

definition set_nullable_all :: "Expression option list \<Rightarrow> Expression list res" where
  "set_nullable_all es = foldR (\<lambda>out e. case e of None \<Rightarrow> Inl Undefined | Some e \<Rightarrow> Inr (out @ [SetNullable e])) [] es"

definition AggregateOperator :: "OperatorSchema \<Rightarrow> Operator \<Rightarrow> Expression option list \<Rightarrow> Operator res" where
  "AggregateOperator s child aggs = bindR (set_nullable_all aggs) (\<lambda>aggs. Inr (Operator s (AggregateOpNode aggs) [child]))"

definition GroupByAggregateOperator :: "OperatorSchema \<Rightarrow> Operator \<Rightarrow> Expression list \<Rightarrow> Expression list \<Rightarrow> Operator" where
  "GroupByAggregateOperator s child group_by aggs = Operator s (GroupByAggregateNode group_by aggs) [child]"

definition OrderByOperator :: "OperatorSchema \<Rightarrow> Operator \<Rightarrow> Expression list \<Rightarrow> bool list \<Rightarrow> Operator res" where
  "OrderByOperator s child key_exprs asc =
     (if length key_exprs \<noteq> length asc then Inl (RuntimeError ''Must have exactly as many asc flags as key exprs.'')
      else Inr (Operator s (OrderByNode key_exprs asc) [child]))"

definition OutputOperator :: "Operator \<Rightarrow> Operator" where
  "OutputOperator child = Operator OperatorSchemaNew OutputNode [child]"

end
