(* ===== verification/Planner.thy ===== *)
theory Planner
  imports PlanOperator
begin

text \<open>
  The planner (\<^verbatim>\<open>plan/planner.cc\<close>): it resolves the names of a parsed statement
  (\<^verbatim>\<open>parse/expression\<close>, \<^verbatim>\<open>parse/table\<close>, \<^verbatim>\<open>parse/statement\<close>) against the catalog, pushes the
  conjuncts on one table into its scan, joins the tables, drops the columns nothing refers to, and merges a filter
  with the scan below it. \<^verbatim>\<open>EnumManager::GetValue\<close> is an argument. A null pointer that is used at once is
  undefined. Where C++ leaves the order of arguments open, the left one is planned first.
\<close>

section \<open>Parsed statements\<close>

datatype ParseAggregateType = ParseSum | ParseAvg | ParseCount | ParseMax | ParseMin

datatype ParseUnaryType = ParseNot | ParseIsNull

datatype ParseBinaryType = ParseAnd | ParseOr | ParseEq | ParseNeq | ParseLt | ParseLeq | ParseGt | ParseGeq | ParseLike

datatype ParseLiteral = ParseInt16 u16 | ParseInt32 u32 | ParseInt64 u64 | ParseDouble u64 | ParseString string | ParseBool bool

text \<open>The child of an aggregate is a null pointer for \<^verbatim>\<open>count(*)\<close>.\<close>

datatype ParseExpression =
    PAggregate ParseAggregateType "ParseExpression option"
  | PUnary ParseUnaryType ParseExpression
  | PBinary ParseBinaryType ParseExpression ParseExpression
  | PCase "(ParseExpression \<times> ParseExpression) list" ParseExpression
  | PColumnRef string string
  | PIn ParseExpression "ParseExpression list"
  | PLiteral ParseLiteral

definition GetValue :: "ParseLiteral \<Rightarrow> string res" where
  "GetValue l = (case l of ParseString s \<Rightarrow> Inr s | _ \<Rightarrow> Inl (RuntimeError ''variant does not hold string value.''))"

datatype ParseTable = BaseTable string string | CrossProductTable "ParseTable list"

record SelectStatement =
  Selects :: "ParseExpression list"
  FromTable :: ParseTable
  Where :: "ParseExpression option"

section \<open>Tables\<close>

record ColumnInfo =
  ci_child_idx :: nat
  ci_col_idx :: nat
  ci_type :: SqlType
  ci_nullable :: bool

type_synonym col_infos = "((string \<times> string) \<times> ColumnInfo) list"

definition add_column_infos :: "string \<Rightarrow> nat \<Rightarrow> Column list \<Rightarrow> col_infos \<Rightarrow> col_infos" where
  "add_column_infos alias child_idx cols infos =
     foldl (\<lambda>infos (col_idx, col).
       AList.update (alias, col_name col)
         \<lparr>ci_child_idx = child_idx, ci_col_idx = col_idx, ci_type = col_type col, ci_nullable = ColumnNullable col\<rparr> infos)
       infos (zip [0..<length cols] cols)"

definition PlanBaseTable :: "Database \<Rightarrow> col_infos \<Rightarrow> string \<Rightarrow> string \<Rightarrow> nat \<Rightarrow> (Operator list \<times> col_infos) res" where
  "PlanBaseTable db infos name alias child_idx =
     (if \<not> DatabaseContains db name then Inl (RuntimeError (''Unknown table '' @ name))
      else
        bindR (DatabaseAt db name) (\<lambda>table.
        let alias = (if alias = [] then table_name table else alias);
            infos = add_column_infos alias child_idx (TableColumns table) infos;
            schema = AddGeneratedColumns table OperatorSchemaNew in
        Inr ([ScanOperator schema table], infos)))"

fun PlanTable :: "Database \<Rightarrow> col_infos \<Rightarrow> ParseTable \<Rightarrow> nat \<Rightarrow> (Operator list \<times> col_infos) res"
  and PlanTables :: "Database \<Rightarrow> col_infos \<Rightarrow> ParseTable list \<Rightarrow> nat \<Rightarrow> Operator list \<Rightarrow> (Operator list \<times> col_infos) res" where
  "PlanTable db infos (BaseTable name alias) child_idx = PlanBaseTable db infos name alias child_idx"
| "PlanTable db infos (CrossProductTable children) child_idx = PlanTables db infos children 0 []"
| "PlanTables db infos [] child_idx ops = Inr (ops, infos)"
| "PlanTables db infos (t # ts) child_idx ops =
     bindR (PlanTable db infos t child_idx) (\<lambda>(os, infos). PlanTables db infos ts (child_idx + 1) (ops @ os))"

section \<open>Expressions\<close>

fun PlanAggregateType :: "ParseAggregateType \<Rightarrow> AggregateType" where
  "PlanAggregateType ParseCount = AggCount"
| "PlanAggregateType ParseMax = AggMax"
| "PlanAggregateType ParseMin = AggMin"
| "PlanAggregateType ParseAvg = AggAvg"
| "PlanAggregateType ParseSum = AggSum"

fun PlanUnaryType :: "ParseUnaryType \<Rightarrow> UnaryArithmeticExpressionType" where
  "PlanUnaryType ParseNot = UNot"
| "PlanUnaryType ParseIsNull = UIsNull"

text \<open>An equality with an enum on the left turns a literal on the right into a value of the enum.\<close>

definition plan_equality ::
    "(int \<Rightarrow> string \<Rightarrow> int res) \<Rightarrow> BinaryArithmeticExpressionType \<Rightarrow> Expression \<Rightarrow> Expression \<Rightarrow> Expression res" where
  "plan_equality get_value op l r =
     (case expr_node r of
        LiteralNode v null \<Rightarrow>
          if type_id (expr_type l) = ENUM then
            bindR (LiteralVisit None None None None (Some fst) None None None (expr_type r) v null) (\<lambda>literal.
            bindR (LiteralEnum get_value (enum_id (expr_type l)) literal) (\<lambda>r. BinaryArithmeticExpression op l r))
          else BinaryArithmeticExpression op l r
      | _ \<Rightarrow> BinaryArithmeticExpression op l r)"

definition like_char :: "char \<Rightarrow> string" where
  "like_char c =
     (if c \<in> set ''.+*?^$()[]{}|'' \<or> c = CHR 0x5C then [CHR 0x5C, c]
      else if c = CHR ''_'' then ''.''
      else if c = CHR ''%'' then ''.*''
      else [c])"

definition like_regex :: "string \<Rightarrow> string" where
  "like_regex match = ''^'' @ concat (map like_char match) @ ''$''"

definition PlanLike :: "Expression res \<Rightarrow> string \<Rightarrow> Expression res" where
  "PlanLike l match =
     (if 1 \<le> length match \<and> hd match = CHR ''%'' \<and> CHR ''%'' \<notin> set (tl match) then
        bindR l (\<lambda>l. BinaryArithmeticExpression BStartsWith l (LiteralString (tl match)))
      else if 1 \<le> length match \<and> last match = CHR ''%'' \<and> CHR ''%'' \<notin> set (butlast match) then
        bindR l (\<lambda>l. BinaryArithmeticExpression BEndsWith l (LiteralString (butlast match)))
      else if 2 \<le> length match \<and> hd match = CHR ''%'' \<and> last match = CHR ''%'' \<and> CHR ''%'' \<notin> set (butlast (tl match)) then
        bindR l (\<lambda>l. BinaryArithmeticExpression BContains l (LiteralString (butlast (tl match))))
      else bindR l (\<lambda>l. RegexpMatchingExpression l (like_regex match)))"

text \<open>
  The values of an \<^verbatim>\<open>IN\<close> over an enum; \<open>None\<close> when a case is not a literal. A case is planned when the loop
  gets to it.
\<close>

fun enum_in_loop :: "(int \<Rightarrow> string \<Rightarrow> int res) \<Rightarrow> int \<Rightarrow> Expression res list \<Rightarrow> int list \<Rightarrow> int list option res" where
  "enum_in_loop get_value i [] vs = Inr (Some vs)"
| "enum_in_loop get_value i (x # xs) vs =
     bindR x (\<lambda>right.
       case expr_node right of
         LiteralNode v null \<Rightarrow>
           bindR (LiteralVisit None None None None (Some fst) None None None (expr_type right) v null) (\<lambda>literal.
           bindR (get_value i literal) (\<lambda>k. enum_in_loop get_value i xs (if k \<noteq> -1 then vs @ [k] else vs)))
       | _ \<Rightarrow> Inr None)"

definition in_step :: "(int \<Rightarrow> string \<Rightarrow> int res) \<Rightarrow> Expression \<Rightarrow> Expression option \<Rightarrow> Expression res \<Rightarrow> Expression option res" where
  "in_step get_value base acc right =
     bindR right (\<lambda>right.
     bindR (plan_equality get_value BEq base right) (\<lambda>eq.
       case acc of
         None \<Rightarrow> Inr (Some eq)
       | Some e \<Rightarrow> bindR (BinaryArithmeticExpression BOr e eq) (\<lambda>e. Inr (Some e))))"

definition PlanIn :: "(int \<Rightarrow> string \<Rightarrow> int res) \<Rightarrow> Expression res \<Rightarrow> Expression res list \<Rightarrow> Expression res" where
  "PlanIn get_value base cases =
     bindR base (\<lambda>b.
     bindR (if type_id (expr_type b) = ENUM then enum_in_loop get_value (enum_id (expr_type b)) cases [] else Inr None) (\<lambda>vs.
       case vs of
         Some vs \<Rightarrow> if vs = [] then Inr (LiteralBool False) else EnumInExpression b vs
       | None \<Rightarrow>
           bindR (foldR (in_step get_value b) None cases) (\<lambda>result.
             case result of None \<Rightarrow> Inl Undefined | Some e \<Rightarrow> Inr e)))"

definition PlanColumnRef :: "col_infos \<Rightarrow> string \<Rightarrow> string \<Rightarrow> Expression res" where
  "PlanColumnRef infos column table =
     bindR (atR (map_of infos) (table, column)) (\<lambda>v.
       Inr (ColumnRefExpression (ci_type v) (ci_nullable v) (ci_child_idx v) (ci_col_idx v)))"

fun PlanLiteral :: "ParseLiteral \<Rightarrow> Expression" where
  "PlanLiteral (ParseInt16 v) = LiteralInt16 v"
| "PlanLiteral (ParseInt32 v) = LiteralInt32 v"
| "PlanLiteral (ParseInt64 v) = LiteralInt64 v"
| "PlanLiteral (ParseDouble v) = LiteralDouble v"
| "PlanLiteral (ParseString v) = LiteralString v"
| "PlanLiteral (ParseBool v) = LiteralBool v"

definition PlanBinary ::
    "(int \<Rightarrow> string \<Rightarrow> int res) \<Rightarrow> ParseBinaryType \<Rightarrow> ParseExpression \<Rightarrow> Expression res \<Rightarrow> Expression res \<Rightarrow> Expression res" where
  "PlanBinary get_value op right_parsed l r =
     (let both = \<lambda>f. bindR l (\<lambda>l. bindR r (\<lambda>r. f l r)) in
      case op of
        ParseAnd \<Rightarrow> both (BinaryArithmeticExpression BAnd)
      | ParseOr \<Rightarrow> both (BinaryArithmeticExpression BOr)
      | ParseEq \<Rightarrow> both (plan_equality get_value BEq)
      | ParseNeq \<Rightarrow> both (plan_equality get_value BNeq)
      | ParseLt \<Rightarrow> both (BinaryArithmeticExpression BLt)
      | ParseLeq \<Rightarrow> both (BinaryArithmeticExpression BLeq)
      | ParseGt \<Rightarrow> both (BinaryArithmeticExpression BGt)
      | ParseGeq \<Rightarrow> both (BinaryArithmeticExpression BGeq)
      | ParseLike \<Rightarrow>
          (case right_parsed of
             PLiteral lit \<Rightarrow> bindR (GetValue lit) (\<lambda>match. PlanLike l match)
           | _ \<Rightarrow> Inl (RuntimeError ''Non const argument to like'')))"

fun PlanExpr :: "(int \<Rightarrow> string \<Rightarrow> int res) \<Rightarrow> col_infos \<Rightarrow> ParseExpression \<Rightarrow> Expression res" where
  "PlanExpr get_value infos (PAggregate agg child) =
     (case child of
        None \<Rightarrow> Inl Undefined
      | Some c \<Rightarrow> bindR (PlanExpr get_value infos c) (\<lambda>c. AggregateExpression (PlanAggregateType agg) c))"
| "PlanExpr get_value infos (PUnary op c) =
     bindR (PlanExpr get_value infos c) (\<lambda>c. UnaryArithmeticExpression (PlanUnaryType op) c)"
| "PlanExpr get_value infos (PBinary op l r) =
     PlanBinary get_value op r (PlanExpr get_value infos l) (PlanExpr get_value infos r)"
| "PlanExpr get_value infos (PCase cases fallthrough) = Inl (RuntimeError ''Unsupported case expression'')"
| "PlanExpr get_value infos (PColumnRef column table) = PlanColumnRef infos column table"
| "PlanExpr get_value infos (PIn base cases) =
     PlanIn get_value (PlanExpr get_value infos base) (map (PlanExpr get_value infos) cases)"
| "PlanExpr get_value infos (PLiteral l) = Inr (PlanLiteral l)"

section \<open>References to columns\<close>

fun GetReferencedColumns :: "Expression \<Rightarrow> (nat \<times> nat) list" where
  "GetReferencedColumns (Expression t n node cs) =
     (case node of
        ColumnRefNode child_idx column_idx \<Rightarrow> [(child_idx, column_idx)]
      | _ \<Rightarrow> concat (map GetReferencedColumns cs))"

definition GetReferencedChildren :: "Expression \<Rightarrow> nat list" where
  "GetReferencedChildren e = remdups (map fst (GetReferencedColumns e))"

fun RewriteColumnReferences :: "((nat \<times> nat) \<times> (nat \<times> nat)) list \<Rightarrow> Expression \<Rightarrow> Expression" where
  "RewriteColumnReferences m (Expression t n node cs) =
     (case node of
        ColumnRefNode child_idx column_idx \<Rightarrow>
          (case map_of m (child_idx, column_idx) of
             None \<Rightarrow> Expression t n node cs
           | Some v \<Rightarrow> Expression t n (ColumnRefNode (fst v) (snd v)) cs)
      | _ \<Rightarrow> Expression t n node (map (RewriteColumnReferences m) cs))"

fun RewriteColRefToVirtColRef :: "Expression \<Rightarrow> Expression" where
  "RewriteColRefToVirtColRef (Expression t n node cs) =
     (case node of
        ColumnRefNode child_idx column_idx \<Rightarrow> VirtualColumnRefExpression t n column_idx
      | _ \<Rightarrow> Expression t n node (map RewriteColRefToVirtColRef cs))"

text \<open>The conjuncts of a condition; an \<^verbatim>\<open>AND\<close> has two children.\<close>

fun Decompose :: "Expression \<Rightarrow> Expression list" where
  "Decompose (Expression t n node [l, r]) =
     (if node = BinaryArithmeticNode BAnd then Decompose l @ Decompose r else [Expression t n node [l, r]])"
| "Decompose e = [e]"

section \<open>The select statement\<close>

definition split_step :: "Expression list list \<times> Expression list \<Rightarrow> Expression \<Rightarrow> (Expression list list \<times> Expression list) res" where
  "split_step st e =
     (case st of (unary_preds, join_preds) \<Rightarrow>
       case GetReferencedChildren e of
         [c] \<Rightarrow> bindR (nthR unary_preds c) (\<lambda>preds. Inr (unary_preds[c := preds @ [e]], join_preds))
       | _ \<Rightarrow> Inr (unary_preds, join_preds @ [e]))"

definition combine_preds :: "Expression list \<Rightarrow> Expression res" where
  "combine_preds preds = foldR (\<lambda>f p. BinaryArithmeticExpression BAnd p f) (last preds) (rev (butlast preds))"

definition filter_table :: "Operator \<Rightarrow> Expression list \<Rightarrow> Operator res" where
  "filter_table base preds =
     (if preds = [] then Inr base
      else
        bindR (combine_preds preds) (\<lambda>f.
        let rewrites = map (\<lambda>ref. (ref, (0, snd ref))) (GetReferencedColumns f) in
        Inr (SelectOperator (AddPassthroughColumns (op_schema base) 0 OperatorSchemaNew) base (RewriteColumnReferences rewrites f))))"

definition filter_tables :: "Operator list \<Rightarrow> Expression list list \<Rightarrow> Operator list res" where
  "filter_tables ops preds =
     foldR (\<lambda>out i. bindR (nthR ops i) (\<lambda>base. bindR (nthR preds i) (\<lambda>ps. bindR (filter_table base ps) (\<lambda>op. Inr (out @ [op])))))
       [] [0..<length ops]"

definition output_positions :: "Operator list \<Rightarrow> ((nat \<times> nat) \<times> nat) list" where
  "output_positions ops =
     (let keys = concat (map (\<lambda>i. map (Pair i) [0..<length (columns (op_schema (ops ! i)))]) [0..<length ops]) in
      zip keys [0..<length keys])"

definition join_tables :: "Operator list \<Rightarrow> Expression list \<Rightarrow> Operator" where
  "join_tables ops join_preds =
     (if length ops = 1 then hd ops
      else
        SkinnerJoinOperator
          (foldl (\<lambda>s (i, op). AddPassthroughColumns (op_schema op) i s) OperatorSchemaNew (zip [0..<length ops] ops))
          ops join_preds [])"

definition remap_infos :: "((nat \<times> nat) \<times> nat) list \<Rightarrow> col_infos \<Rightarrow> col_infos res" where
  "remap_infos positions infos =
     foldR (\<lambda>out (key, v).
       bindR (atR (map_of positions) (ci_child_idx v, ci_col_idx v)) (\<lambda>p.
         Inr (out @ [(key, v\<lparr>ci_col_idx := p, ci_child_idx := 0\<rparr>)]))) [] infos"

definition PlanFromWhere ::
    "(int \<Rightarrow> string \<Rightarrow> int res) \<Rightarrow> Database \<Rightarrow> ParseTable \<Rightarrow> ParseExpression option \<Rightarrow> (Operator \<times> col_infos) res" where
  "PlanFromWhere get_value db from cond =
     bindR (PlanTable db [] from 0) (\<lambda>(base_tables, infos).
     case cond of
       None \<Rightarrow> Inl Undefined
     | Some cond \<Rightarrow>
         bindR (PlanExpr get_value infos cond) (\<lambda>cond.
         bindR (foldR split_step (replicate (length base_tables) [], []) (Decompose cond)) (\<lambda>(unary_preds, join_preds).
         bindR (filter_tables base_tables unary_preds) (\<lambda>input_tables.
         bindR (remap_infos (output_positions input_tables) infos) (\<lambda>infos.
           Inr (join_tables input_tables join_preds, infos))))))"

fun to_string :: "nat \<Rightarrow> string" where
  "to_string n = (if n < 10 then [char_of (48 + n)] else to_string (n div 10) @ [char_of (48 + n mod 10)])"

definition as_aggregate :: "Expression \<Rightarrow> Expression option" where
  "as_aggregate e = (case expr_node e of AggregateNode agg \<Rightarrow> Some e | _ \<Rightarrow> None)"

definition select_step ::
    "(int \<Rightarrow> string \<Rightarrow> int res) \<Rightarrow> col_infos \<Rightarrow> OperatorSchema \<times> Expression option list \<Rightarrow> ParseExpression
     \<Rightarrow> (OperatorSchema \<times> Expression option list) res" where
  "select_step get_value infos st select =
     (case st of (schema, aggs) \<Rightarrow>
       bindR (PlanExpr get_value infos select) (\<lambda>agg.
         let col_idx = length aggs in
         Inr (AddDerivedColumn (to_string col_idx) (VirtualColumnRefExpression (expr_type agg) (expr_nullable agg) col_idx) schema,
              aggs @ [as_aggregate agg])))"

definition PlanSelect :: "(int \<Rightarrow> string \<Rightarrow> int res) \<Rightarrow> Database \<Rightarrow> SelectStatement \<Rightarrow> Operator res" where
  "PlanSelect get_value db stmt =
     bindR (PlanFromWhere get_value db (FromTable stmt) (Where stmt)) (\<lambda>(result, infos).
     bindR (foldR (select_step get_value infos) (OperatorSchemaNew, []) (Selects stmt)) (\<lambda>(schema, aggs).
     bindR (AggregateOperator schema result aggs) (\<lambda>agg.
       Inr (OutputOperator agg))))"

end
