(* ===== verification/PlanOptimize.thy ===== *)
theory PlanOptimize
  imports Planner
begin

text \<open>
  The passes over a finished plan (\<^verbatim>\<open>EarlyProjection\<close> and \<^verbatim>\<open>AdaptiveScanSelect\<close> of
  \<^verbatim>\<open>plan/planner.cc\<close>). The first goes from the output to the scans and removes, from the schema of every child,
  the columns its parent does not refer to; it ends because it only changes schemas and expressions.
\<close>

section \<open>Early projection\<close>

definition keep_columns :: "(nat \<times> nat) list \<Rightarrow> nat \<Rightarrow> OperatorSchema \<Rightarrow> OperatorSchema res" where
  "keep_columns refs child_idx s =
     foldR (\<lambda>s i. if (child_idx, i) \<notin> set refs then RemoveColumn i s else Inr s) s (rev [0..<length (columns s)])"

definition kept :: "(nat \<times> nat) list \<Rightarrow> nat \<Rightarrow> nat \<Rightarrow> nat list" where
  "kept refs child_idx n = filter (\<lambda>i. (child_idx, i) \<in> set refs) [0..<n]"

definition projection_map :: "(nat \<times> nat) list \<Rightarrow> nat \<Rightarrow> nat \<Rightarrow> ((nat \<times> nat) \<times> (nat \<times> nat)) list" where
  "projection_map refs child_idx n =
     (let ks = kept refs child_idx n in zip (map (Pair child_idx) ks) (map (Pair child_idx) [0..<length ks]))"

definition project_child :: "(nat \<times> nat) list \<Rightarrow> nat \<Rightarrow> Operator \<Rightarrow> Operator res" where
  "project_child refs child_idx child =
     bindR (keep_columns refs child_idx (op_schema child)) (\<lambda>s. Inr (Operator s (op_node child) (op_children child)))"

definition project_children :: "(nat \<times> nat) list \<Rightarrow> Operator list \<Rightarrow> Operator list res" where
  "project_children refs children =
     foldR (\<lambda>out i. bindR (nthR children i) (\<lambda>c. bindR (project_child refs i c) (\<lambda>c. Inr (out @ [c])))) [] [0..<length children]"

definition children_map :: "(nat \<times> nat) list \<Rightarrow> Operator list \<Rightarrow> ((nat \<times> nat) \<times> (nat \<times> nat)) list" where
  "children_map refs children =
     concat (map (\<lambda>i. projection_map refs i (length (columns (op_schema (children ! i))))) [0..<length children])"

definition schema_refs :: "OperatorSchema \<Rightarrow> (nat \<times> nat) list" where
  "schema_refs s = concat (map (\<lambda>c. GetReferencedColumns (sc_expr c)) (columns s))"

definition map_schema :: "(Expression \<Rightarrow> Expression) \<Rightarrow> OperatorSchema \<Rightarrow> OperatorSchema" where
  "map_schema f s = s\<lparr>columns := map (\<lambda>c. c\<lparr>sc_expr := f (sc_expr c)\<rparr>) (columns s)\<rparr>"

primrec op_nodes :: "Operator \<Rightarrow> nat" where
  "op_nodes (Operator s node cs) = Suc (sum_list (map op_nodes cs))"

definition mapR :: "('a \<Rightarrow> 'b res) \<Rightarrow> 'a list \<Rightarrow> 'b list res" where
  "mapR f xs = foldR (\<lambda>out x. bindR (f x) (\<lambda>y. Inr (out @ [y]))) [] xs"

lemma foldR_cong [fundef_cong]:
  "s = s' \<Longrightarrow> xs = ys \<Longrightarrow> (\<And>s x. x \<in> set ys \<Longrightarrow> f s x = g s x) \<Longrightarrow> foldR f s xs = foldR g s' ys"
proof (induction ys arbitrary: s s' xs)
  case (Cons y ys)
  then show ?case by (cases "g s' y") auto
qed simp

lemma mapR_cong [fundef_cong]: "xs = ys \<Longrightarrow> (\<And>x. x \<in> set ys \<Longrightarrow> f x = g x) \<Longrightarrow> mapR f xs = mapR g ys"
  unfolding mapR_def by (rule foldR_cong) simp_all

lemma mapR_simps [simp]: "mapR f [] = Inr []" "mapR f (x # xs) = bindR (f x) (\<lambda>y. bindR (mapR f xs) (\<lambda>ys. Inr (y # ys)))"
proof -
  have "foldR (\<lambda>out x. bindR (f x) (\<lambda>y. Inr (out @ [y]))) acc xs
      = bindR (foldR (\<lambda>out x. bindR (f x) (\<lambda>y. Inr (out @ [y]))) [] xs) (\<lambda>ys. Inr (acc @ ys))" for acc and xs
  proof (induction xs arbitrary: acc)
    case (Cons x xs)
    show ?case
    proof (cases "f x")
      case (Inr y)
      then show ?thesis using Cons.IH [of "acc @ [y]"] Cons.IH [of "[y]"]
        by (cases "foldR (\<lambda>out x. bindR (f x) (\<lambda>y. Inr (out @ [y]))) [] xs") auto
    qed simp
  qed simp
  from this [of "[y]" xs for y] show "mapR f [] = Inr []" "mapR f (x # xs) = bindR (f x) (\<lambda>y. bindR (mapR f xs) (\<lambda>ys. Inr (y # ys)))"
    by (auto simp: mapR_def bindR_def split: sum.splits)
qed

lemma mapR_Inr: "mapR f xs = Inr ys \<longleftrightarrow> list_all2 (\<lambda>x y. f x = Inr y) xs ys"
  by (induction xs arbitrary: ys) (auto simp: bindR_Inr_iff list_all2_Cons1)

lemma project_child_nodes:
  assumes "project_child refs i child = Inr child'"
  shows "op_nodes child' = op_nodes child" "op_node child' = op_node child" "op_children child' = op_children child"
  using assms by (cases child; auto simp: project_child_def bindR_Inr_iff)+

lemma indexed_mapR:
  "foldR (\<lambda>out i. bindR (nthR xs i) (\<lambda>c. bindR (f i c) (\<lambda>c. Inr (out @ [c])))) [] [0..<length xs]
     = mapR (\<lambda>(i, c). f i c) (zip [0..<length xs] xs)"
proof -
  let ?g = "\<lambda>out i. bindR (nthR xs i) (\<lambda>c. bindR (f i c) (\<lambda>c. Inr (out @ [c])))"
  have zip: "zip [0..<k] (take k xs) = map (\<lambda>i. (i, xs ! i)) [0..<k]" if "k \<le> length xs" for k
    using that by (intro nth_equalityI) auto
  have "foldR ?g acc ks = foldR (\<lambda>out x. bindR ((\<lambda>(i, c). f i c) x) (\<lambda>y. Inr (out @ [y]))) acc (map (\<lambda>i. (i, xs ! i)) ks)"
    if "set ks \<subseteq> {..<length xs}" for acc ks
    using that by (induction ks arbitrary: acc) (auto intro!: bindR_cong)
  moreover have "set [0..<length xs] \<subseteq> {..<length xs}" by auto
  ultimately show ?thesis using zip [of "length xs"] by (simp add: mapR_def del: set_upt)
qed

lemma project_children_mapR: "project_children refs cs = mapR (\<lambda>(i, c). project_child refs i c) (zip [0..<length cs] cs)"
  unfolding project_children_def by (rule indexed_mapR)

lemma project_children_nodes:
  assumes "project_children refs cs = Inr cs'" "c' \<in> set cs'"
  shows "op_nodes c' \<le> sum_list (map op_nodes cs)"
proof -
  have all: "list_all2 (\<lambda>x y. (case x of (i, c) \<Rightarrow> project_child refs i c) = Inr y) (zip [0..<length cs] cs) cs'"
    using assms(1) by (simp add: project_children_mapR mapR_Inr)
  from assms(2) obtain k where k: "k < length cs'" "cs' ! k = c'" by (auto simp: in_set_conv_nth)
  with all have "project_child refs k (cs ! k) = Inr c'" "k < length cs" by (auto simp: list_all2_conv_all_nth)
  then have "op_nodes c' = op_nodes (cs ! k)" "cs ! k \<in> set cs" using project_child_nodes(1) by auto
  then show ?thesis using member_le_sum_list [of "op_nodes (cs ! k)" "map op_nodes cs"] by auto
qed

function (sequential) EarlyProjection :: "Operator \<Rightarrow> Operator res" where
  "EarlyProjection (Operator s (AggregateOpNode aggs) [child]) =
     (let refs = concat (map GetReferencedColumns aggs);
          m = projection_map refs 0 (length (columns (op_schema child))) in
      bindR (project_child refs 0 child) (\<lambda>child.
      bindR (EarlyProjection child) (\<lambda>child.
        Inr (Operator s (AggregateOpNode (map (RewriteColumnReferences m) aggs)) [child]))))"
| "EarlyProjection (Operator s (SkinnerJoinNode conditions prefix_order) children) =
     (let refs = schema_refs s @ concat (map GetReferencedColumns conditions);
          m = children_map refs children in
      bindR (project_children refs children) (\<lambda>children.
      bindR (mapR EarlyProjection children) (\<lambda>children.
        Inr (Operator (map_schema (RewriteColumnReferences m) s)
               (SkinnerJoinNode (map (RewriteColumnReferences m) conditions) prefix_order) children))))"
| "EarlyProjection (Operator s (SelectNode e) [child]) =
     (let refs = schema_refs s @ GetReferencedColumns e;
          m = projection_map refs 0 (length (columns (op_schema child))) in
      bindR (project_child refs 0 child) (\<lambda>child.
      bindR (EarlyProjection child) (\<lambda>child.
        Inr (Operator (map_schema (RewriteColumnReferences m) s) (SelectNode (RewriteColumnReferences m e)) [child]))))"
| "EarlyProjection (Operator s OutputNode [child]) =
     bindR (EarlyProjection child) (\<lambda>child. Inr (Operator s OutputNode [child]))"
| "EarlyProjection (Operator s (ScanNode relation) children) = Inr (Operator s (ScanNode relation) children)"
| "EarlyProjection (Operator s node children) = Inl (RuntimeError ''Not supported.'')"
  by pat_completeness auto

termination
  by (relation "measure op_nodes") (auto dest: project_child_nodes(1) project_children_nodes simp: less_Suc_eq_le)

section \<open>Filters over scans\<close>

definition IsIndexFilter :: "Expression \<Rightarrow> bool" where
  "IsIndexFilter e =
     (case (expr_node e, expr_children e) of
        (BinaryArithmeticNode BEq, [l, r]) \<Rightarrow>
          (case (expr_node l, expr_node r) of
             (ColumnRefNode _ _, LiteralNode _ _) \<Rightarrow> True
           | (LiteralNode _ _, ColumnRefNode _ _) \<Rightarrow> True
           | _ \<Rightarrow> False)
      | _ \<Rightarrow> False)"

fun AdaptiveScanSelect :: "Operator \<Rightarrow> Operator" where
  "AdaptiveScanSelect (Operator s node children) =
     (case (node, children) of
        (SelectNode e, [Operator scan_schema (ScanNode relation) _]) \<Rightarrow>
          ScanSelectOperator (map_schema RewriteColRefToVirtColRef s) scan_schema relation
            (map RewriteColRefToVirtColRef (Decompose e))
      | _ \<Rightarrow> Operator s node (map AdaptiveScanSelect children))"

definition PlanStatement :: "(int \<Rightarrow> string \<Rightarrow> int res) \<Rightarrow> Database \<Rightarrow> SelectStatement \<Rightarrow> Operator res" where
  "PlanStatement get_value db stmt =
     bindR (PlanSelect get_value db stmt) (\<lambda>result.
     bindR (EarlyProjection result) (\<lambda>result.
       Inr (AdaptiveScanSelect result)))"

end
