(* ===== verification/PlanTyping.thy ===== *)
theory PlanTyping
  imports PlanOptimize
begin

text \<open>
  Well-typed expressions and plans. A signature is the type of a column and whether it is nullable. An expression is
  checked against the signatures of the children of its operator and those of the virtual columns: every reference
  names an existing column and carries its signature, and every other node has the type its constructor computes. The
  expressions the planner makes are well typed, and so are the rewritten ones.
\<close>

section \<open>Well-typed expressions\<close>

type_synonym sig = "SqlType \<times> bool"

definition expr_sig :: "Expression \<Rightarrow> sig" where
  "expr_sig e = (expr_type e, expr_nullable e)"

fun literal_type_id :: "LiteralValue \<Rightarrow> TypeId" where
  "literal_type_id (LitInt16 _) = SMALLINT"
| "literal_type_id (LitInt32 _) = INTEGER"
| "literal_type_id (LitInt64 _) = BIGINT"
| "literal_type_id (LitDouble _) = REAL"
| "literal_type_id (LitString _) = TEXT"
| "literal_type_id (LitBool _) = BOOLEAN"
| "literal_type_id (LitDate _ _ _) = DATE"
| "literal_type_id (LitEnum _) = ENUM"

text \<open>An aggregate can be made nullable after its construction.\<close>

definition node_typed :: "ExpressionNode \<Rightarrow> SqlType \<Rightarrow> bool \<Rightarrow> sig list \<Rightarrow> bool" where
  "node_typed node t n sigs =
     (case (node, sigs) of
        (LiteralNode v null, []) \<Rightarrow> type_id t = literal_type_id v \<and> n = null
      | (UnaryArithmeticNode op, [c]) \<Rightarrow> CalculateUnaryType op (fst c) = Inr t \<and> n = CalculateNullability op (snd c)
      | (BinaryArithmeticNode op, [l, r]) \<Rightarrow> CalculateBinaryType op (fst l) (fst r) = Inr t \<and> n = (snd l \<or> snd r)
      | (RegexpMatchingNode regex, [c]) \<Rightarrow> CalculateRegexpType (fst c) = Inr t \<and> \<not> n
      | (EnumInNode values, [c]) \<Rightarrow> CalculateEnumInType (fst c) = Inr t \<and> \<not> n
      | (AggregateNode agg, [c]) \<Rightarrow> CalculateAggTypeId agg (fst c) = Inr t
      | (CaseNode, [c, l, r]) \<Rightarrow> CalculateCaseType (fst c) (fst l) (fst r) = Inr t \<and> n = (snd l \<or> snd r)
      | (ExtractNode v, [c]) \<Rightarrow> CalculateExtractTypeId (fst c) = Inr t \<and> n = snd c
      | (IntToFloatConversionNode, [c]) \<Rightarrow> CalculateConvTypeId (fst c) = Inr t \<and> n = snd c
      | _ \<Rightarrow> False)"

fun expr_ok :: "sig list list \<Rightarrow> sig list \<Rightarrow> Expression \<Rightarrow> bool" where
  "expr_ok sch virt (Expression t n node cs) =
     (case node of
        ColumnRefNode c i \<Rightarrow> cs = [] \<and> c < length sch \<and> i < length (sch ! c) \<and> sch ! c ! i = (t, n)
      | VirtualColumnRefNode i \<Rightarrow> cs = [] \<and> i < length virt \<and> virt ! i = (t, n)
      | _ \<Rightarrow> node_typed node t n (map expr_sig cs) \<and> list_all (expr_ok sch virt) cs)"

lemma expr_sig_simp [simp]: "expr_sig (Expression t n node cs) = (t, n)"
  by (simp add: expr_sig_def)

definition is_ref :: "ExpressionNode \<Rightarrow> bool" where
  "is_ref node = (case node of ColumnRefNode c i \<Rightarrow> True | VirtualColumnRefNode i \<Rightarrow> True | _ \<Rightarrow> False)"

lemma expr_ok_node:
  "\<not> is_ref node \<Longrightarrow> expr_ok sch virt (Expression t n node cs) \<longleftrightarrow> node_typed node t n (map expr_sig cs) \<and> list_all (expr_ok sch virt) cs"
  by (simp add: is_ref_def split: ExpressionNode.splits)

text \<open>The constructors make well-typed expressions.\<close>

lemma constructors_ok:
  "BinaryArithmeticExpression op l r = Inr e \<Longrightarrow> expr_ok sch virt l \<Longrightarrow> expr_ok sch virt r \<Longrightarrow> expr_ok sch virt e"
  "UnaryArithmeticExpression uop c = Inr e \<Longrightarrow> expr_ok sch virt c \<Longrightarrow> expr_ok sch virt e"
  "RegexpMatchingExpression c regex = Inr e \<Longrightarrow> expr_ok sch virt c \<Longrightarrow> expr_ok sch virt e"
  "EnumInExpression c values = Inr e \<Longrightarrow> expr_ok sch virt c \<Longrightarrow> expr_ok sch virt e"
  "AggregateExpression agg c = Inr e \<Longrightarrow> expr_ok sch virt c \<Longrightarrow> expr_ok sch virt e"
  "CaseExpression c l r = Inr e \<Longrightarrow> expr_ok sch virt c \<Longrightarrow> expr_ok sch virt l \<Longrightarrow> expr_ok sch virt r \<Longrightarrow> expr_ok sch virt e"
  "ExtractExpression c v = Inr e \<Longrightarrow> expr_ok sch virt c \<Longrightarrow> expr_ok sch virt e"
  "IntToFloatConversionExpression c = Inr e \<Longrightarrow> expr_ok sch virt c \<Longrightarrow> expr_ok sch virt e"
  "LiteralEnum get_value i key = Inr e \<Longrightarrow> expr_ok sch virt e"
  by (auto simp: BinaryArithmeticExpression_def UnaryArithmeticExpression_def RegexpMatchingExpression_def EnumInExpression_def
      AggregateExpression_def CaseExpression_def ExtractExpression_def IntToFloatConversionExpression_def LiteralEnum_def
      bindR_Inr_iff node_typed_def expr_sig_def SqlEnum_def)

lemma literals_ok [simp]:
  "expr_ok sch virt (LiteralInt16 a)" "expr_ok sch virt (LiteralInt32 b)" "expr_ok sch virt (LiteralInt64 c)"
  "expr_ok sch virt (LiteralDouble d)" "expr_ok sch virt (LiteralString s)" "expr_ok sch virt (LiteralBool x)"
  "expr_ok sch virt (LiteralDate y m z)"
  by (simp_all add: LiteralInt16_def LiteralInt32_def LiteralInt64_def LiteralDouble_def LiteralString_def LiteralBool_def
      LiteralDate_def node_typed_def sql_types)

lemma LiteralNull_ok: "expr_ok sch virt (LiteralNull t)"
  by (cases "type_id t") (simp_all add: LiteralNull_def node_typed_def)

section \<open>Planning expressions\<close>

definition info_ok :: "sig list list \<Rightarrow> ColumnInfo \<Rightarrow> bool" where
  "info_ok sch v \<longleftrightarrow> ci_child_idx v < length sch \<and> ci_col_idx v < length (sch ! ci_child_idx v)
     \<and> sch ! ci_child_idx v ! ci_col_idx v = (ci_type v, ci_nullable v)"

definition infos_ok :: "sig list list \<Rightarrow> col_infos \<Rightarrow> bool" where
  "infos_ok sch infos \<longleftrightarrow> (\<forall>k v. (k, v) \<in> set infos \<longrightarrow> info_ok sch v)"

lemma plan_equality_ok:
  assumes "plan_equality get_value op l r = Inr e" "expr_ok sch virt l" "expr_ok sch virt r"
  shows "expr_ok sch virt e"
  using assms by (auto simp: plan_equality_def bindR_Inr_iff split: ExpressionNode.splits if_splits intro: constructors_ok(1,9))

lemma PlanLike_ok:
  assumes "PlanLike l match = Inr e" "\<And>x. l = Inr x \<Longrightarrow> expr_ok sch virt x"
  shows "expr_ok sch virt e"
  using assms by (auto simp: PlanLike_def bindR_Inr_iff split: if_splits intro: constructors_ok(1,3))

lemma PlanIn_ok:
  assumes "PlanIn get_value base cases = Inr e" "\<And>x. base = Inr x \<Longrightarrow> expr_ok sch virt x"
    "\<And>c x. c \<in> set cases \<Longrightarrow> c = Inr x \<Longrightarrow> expr_ok sch virt x"
  shows "expr_ok sch virt e"
proof -
  from assms(1) obtain b vs where b: "base = Inr b" and r: "(case vs of
         Some vs \<Rightarrow> if vs = [] then Inr (LiteralBool False) else EnumInExpression b vs
       | None \<Rightarrow> bindR (foldR (in_step get_value b) None cases) (\<lambda>result. case result of None \<Rightarrow> Inl Undefined | Some e \<Rightarrow> Inr e)) = Inr e"
    by (auto simp: PlanIn_def bindR_Inr_iff)
  note bok = assms(2) [OF b]
  show ?thesis
  proof (cases vs)
    case None
    then obtain res where f: "foldR (in_step get_value b) None cases = Inr res" "res = Some e"
      using r by (auto simp: bindR_Inr_iff split: option.splits)
    have "\<forall>x. res = Some x \<longrightarrow> expr_ok sch virt x"
    proof (rule foldR_invariant [OF f(1)])
      fix acc right acc' assume step: "right \<in> set cases" "\<forall>x. acc = Some x \<longrightarrow> expr_ok sch virt x" "in_step get_value b acc right = Inr acc'"
      then obtain x eq where x: "right = Inr x" "plan_equality get_value BEq b x = Inr eq"
          "(case acc of None \<Rightarrow> Inr (Some eq) | Some e \<Rightarrow> bindR (BinaryArithmeticExpression BOr e eq) (\<lambda>e. Inr (Some e))) = Inr acc'"
        by (auto simp: in_step_def bindR_Inr_iff)
      have "expr_ok sch virt eq" by (rule plan_equality_ok [OF x(2) bok assms(3) [OF step(1) x(1)]])
      then show "\<forall>x. acc' = Some x \<longrightarrow> expr_ok sch virt x"
        using x(3) step(2) by (cases acc) (auto simp: bindR_Inr_iff dest: constructors_ok(1))
    qed simp
    then show ?thesis using f(2) by simp
  next
    case (Some vs')
    then show ?thesis using r bok by (auto split: if_splits intro: constructors_ok(4))
  qed
qed

lemma PlanBinary_ok:
  assumes "PlanBinary get_value op right_parsed l r = Inr e"
    and l: "\<And>x. l = Inr x \<Longrightarrow> expr_ok sch virt x" and r: "\<And>x. r = Inr x \<Longrightarrow> expr_ok sch virt x"
  shows "expr_ok sch virt e"
proof -
  have arith: "expr_ok sch virt e" if "bindR l (\<lambda>l. bindR r (BinaryArithmeticExpression bop l)) = Inr e" for bop
    using that l r by (auto simp: bindR_Inr_iff dest: constructors_ok(1))
  have eq: "expr_ok sch virt e" if "bindR l (\<lambda>l. bindR r (plan_equality get_value bop l)) = Inr e" for bop
    using that l r by (auto simp: bindR_Inr_iff dest: plan_equality_ok)
  show ?thesis
  proof (cases "op = ParseLike")
    case True
    then show ?thesis using assms(1) PlanLike_ok [OF _ l]
      by (auto simp: PlanBinary_def bindR_Inr_iff split: ParseExpression.splits)
  next
    case False
    then show ?thesis using assms(1) arith eq by (cases op) (simp_all add: PlanBinary_def)
  qed
qed

lemma PlanExpr_ok:
  assumes "PlanExpr get_value infos p = Inr e" "infos_ok sch infos"
  shows "expr_ok sch virt e"
  using assms
proof (induction get_value infos p arbitrary: e rule: PlanExpr.induct [case_names agg un bin cas col isin lit])
  case (agg get_value infos agg child)
  then show ?case by (auto simp: bindR_Inr_iff split: option.splits intro: constructors_ok(5))
next
  case (un get_value infos op c)
  then show ?case by (auto simp: bindR_Inr_iff intro: constructors_ok(2))
next
  case (bin get_value infos op l r)
  show ?case by (rule PlanBinary_ok [OF bin.prems(1) [unfolded PlanExpr.simps] bin.IH(1,2) [OF _ bin.prems(2)]])
next
  case (col get_value infos column table)
  then show ?case 
    by (fastforce simp: PlanColumnRef_def bindR_Inr_iff atR_Inr_iff infos_ok_def info_ok_def ColumnRefExpression_def dest!: map_of_SomeD)
next
  case (isin get_value infos base cases)
  show ?case by (rule PlanIn_ok [OF isin.prems(1) [simplified] isin.IH(1) [OF _ isin.prems(2)]]) (use isin.IH(2) isin.prems(2) in auto)
next
  case (lit get_value infos l)
  then show ?case by (cases l) auto
qed simp

section \<open>Rewriting expressions\<close>

definition rewritten :: "((nat \<times> nat) \<times> (nat \<times> nat)) list \<Rightarrow> nat \<times> nat \<Rightarrow> nat \<times> nat" where
  "rewritten m ref = (case map_of m ref of None \<Rightarrow> ref | Some v \<Rightarrow> v)"

lemma Rewrite_simps:
  "RewriteColumnReferences m (Expression t n (ColumnRefNode c i) cs)
     = Expression t n (ColumnRefNode (fst (rewritten m (c, i))) (snd (rewritten m (c, i)))) cs"
  "(\<And>c i. node \<noteq> ColumnRefNode c i) \<Longrightarrow>
     RewriteColumnReferences m (Expression t n node cs) = Expression t n node (map (RewriteColumnReferences m) cs)"
  by (auto simp: rewritten_def split: option.splits ExpressionNode.splits)

lemma Rewrite_sig [simp]: "expr_sig (RewriteColumnReferences m e) = expr_sig e"
  by (cases e) (auto split: ExpressionNode.splits option.splits)

lemma Rewrite_type [simp]:
  "expr_type (RewriteColumnReferences m e) = expr_type e" "expr_nullable (RewriteColumnReferences m e) = expr_nullable e"
  using Rewrite_sig [of m e] by (simp_all add: expr_sig_def)

lemma Virt_sig [simp]: "expr_sig (RewriteColRefToVirtColRef e) = expr_sig e"
  by (cases e) (auto simp: VirtualColumnRefExpression_def split: ExpressionNode.splits)

definition ref_ok :: "sig list list \<Rightarrow> nat \<times> nat \<Rightarrow> sig \<Rightarrow> bool" where
  "ref_ok sch ref s \<longleftrightarrow> fst ref < length sch \<and> snd ref < length (sch ! fst ref) \<and> sch ! fst ref ! snd ref = s"

lemma expr_ok_refs:
  assumes "expr_ok sch virt e" "(c, i) \<in> set (GetReferencedColumns e)"
  shows "c < length sch" "i < length (sch ! c)"
  using assms by (induction e) (fastforce simp: list_all_iff split: ExpressionNode.splits)+

text \<open>Moving references to columns of the same signature keeps an expression well typed.\<close>

lemma expr_ok_rewrite:
  assumes "expr_ok sch virt e"
    "\<And>c i. (c, i) \<in> set (GetReferencedColumns e) \<Longrightarrow> ref_ok sch' (rewritten m (c, i)) (sch ! c ! i)"
  shows "expr_ok sch' virt (RewriteColumnReferences m e)"
  using assms
proof (induction e)
  case (Expression t n node cs)
  show ?case
  proof (cases "is_ref node")
    case True
    then show ?thesis using Expression.prems
      by (auto simp: is_ref_def Rewrite_simps(1) ref_ok_def Rewrite_simps(2) simp del: RewriteColumnReferences.simps
          split: ExpressionNode.splits)
  next
    case False
    then have nr: "\<And>c i. node \<noteq> ColumnRefNode c i" by (auto simp: is_ref_def)
    have refs: "set (GetReferencedColumns (Expression t n node cs)) = (\<Union>c\<in>set cs. set (GetReferencedColumns c))"
      using nr by (auto split: ExpressionNode.splits)
    have ok: "list_all (expr_ok sch virt) cs" using Expression.prems(1) unfolding expr_ok_node [OF False] by simp
    have "expr_ok sch' virt (RewriteColumnReferences m c)" if "c \<in> set cs" for c
      by (rule Expression.IH [OF that]) (use that ok Expression.prems(2) [unfolded refs] in \<open>auto simp: list_all_iff\<close>)
    then show ?thesis using Expression.prems(1)
      unfolding Rewrite_simps(2) [OF nr] expr_ok_node [OF False] by (simp add: list_all_iff comp_def)
  qed
qed

lemma expr_ok_virtual:
  assumes "expr_ok [v] [] e"
  shows "expr_ok [] v (RewriteColRefToVirtColRef e)"
  using assms
proof (induction e)
  case (Expression t n node cs)
  then show ?case
    by (cases node) (auto simp: VirtualColumnRefExpression_def list_all_iff comp_def)
qed

lemma Decompose_ok: "expr_ok sch virt e \<Longrightarrow> list_all (expr_ok sch virt) (Decompose e)"
proof (induction e rule: Decompose.induct)
  case (1 t n node l r)
  then show ?case by (cases "node = BinaryArithmeticNode BAnd") simp_all
qed simp_all

section \<open>Well-typed plans\<close>

definition schema_sigs :: "OperatorSchema \<Rightarrow> sig list" where
  "schema_sigs s = map (\<lambda>c. expr_sig (sc_expr c)) (columns s)"

abbreviation op_sigs :: "Operator \<Rightarrow> sig list" where
  "op_sigs op \<equiv> schema_sigs (op_schema op)"

definition table_sigs :: "CatalogTable \<Rightarrow> sig list" where
  "table_sigs t = map (\<lambda>c. (col_type c, ColumnNullable c)) (TableColumns t)"

definition schema_ok :: "sig list list \<Rightarrow> sig list \<Rightarrow> OperatorSchema \<Rightarrow> bool" where
  "schema_ok sch virt s \<longleftrightarrow> list_all (\<lambda>c. expr_ok sch virt (sc_expr c)) (columns s)"

text \<open>The column of an aggregate is nullable unless it is a count.\<close>

definition agg_sig :: "Expression \<Rightarrow> sig" where
  "agg_sig e = (expr_type e, expr_node e \<noteq> AggregateNode AggCount)"

definition agg_ok :: "sig list list \<Rightarrow> Expression \<Rightarrow> bool" where
  "agg_ok sch e \<longleftrightarrow> expr_ok sch [] e \<and> (case expr_node e of AggregateNode _ \<Rightarrow> True | _ \<Rightarrow> False)"

fun op_ok :: "Operator \<Rightarrow> bool" where
  "op_ok (Operator s node cs) =
     (list_all op_ok cs \<and>
      (case node of
         ScanNode t \<Rightarrow> cs = [] \<and> schema_ok [table_sigs t] [] s
       | SelectNode e \<Rightarrow> length cs = 1 \<and> expr_ok (map op_sigs cs) [] e \<and> schema_ok (map op_sigs cs) [] s
       | ScanSelectNode scan_schema t filters \<Rightarrow>
           cs = [] \<and> schema_ok [table_sigs t] [] scan_schema \<and> list_all (expr_ok [] (schema_sigs scan_schema)) filters
           \<and> schema_ok [] (schema_sigs scan_schema) s
       | SkinnerJoinNode conditions prefix_order \<Rightarrow>
           list_all (expr_ok (map op_sigs cs) []) conditions \<and> schema_ok (map op_sigs cs) [] s
       | AggregateOpNode aggs \<Rightarrow>
           length cs = 1 \<and> list_all (agg_ok (map op_sigs cs)) aggs \<and> schema_ok [] (map agg_sig aggs) s
       | OutputNode \<Rightarrow> length cs = 1 \<and> columns s = []
       | _ \<Rightarrow> False))"

text \<open>A plan before filters are merged with scans.\<close>

fun unmerged :: "Operator \<Rightarrow> bool" where
  "unmerged (Operator s node cs) = (list_all unmerged cs \<and> (case node of ScanSelectNode _ _ _ \<Rightarrow> False | _ \<Rightarrow> True))"

end
