(* ===== verification/PlanSemantics.thy ===== *)
theory PlanSemantics
  imports PlanTyping
begin

text \<open>
  What a plan computes, for an interpretation of the operations on values. An expression is evaluated on one row per
  child of its operator and on the row of virtual columns; an operator yields a list of rows. Of the interpretation only
  the conjunction matters: it holds when both conditions hold.
\<close>

record 'v interp =
  in_node :: "SqlType \<Rightarrow> ExpressionNode \<Rightarrow> 'v list \<Rightarrow> 'v"
  in_aggregate :: "AggregateType \<Rightarrow> 'v list \<Rightarrow> 'v"
  in_truth :: "'v \<Rightarrow> bool"

definition interp_ok :: "'v interp \<Rightarrow> bool" where
  "interp_ok M \<longleftrightarrow> (\<forall>t a b. in_truth M (in_node M t (BinaryArithmeticNode BAnd) [a, b]) \<longleftrightarrow> in_truth M a \<and> in_truth M b)"

fun eval_expr :: "'v interp \<Rightarrow> 'v list list \<Rightarrow> 'v list \<Rightarrow> Expression \<Rightarrow> 'v" where
  "eval_expr M rows virt (Expression t n node cs) =
     (case node of
        ColumnRefNode c i \<Rightarrow> rows ! c ! i
      | VirtualColumnRefNode i \<Rightarrow> virt ! i
      | _ \<Rightarrow> in_node M t node (map (eval_expr M rows virt) cs))"

abbreviation holds :: "'v interp \<Rightarrow> 'v list list \<Rightarrow> 'v list \<Rightarrow> Expression \<Rightarrow> bool" where
  "holds M rows virt e \<equiv> in_truth M (eval_expr M rows virt e)"

definition output_row :: "'v interp \<Rightarrow> OperatorSchema \<Rightarrow> 'v list list \<Rightarrow> 'v list \<Rightarrow> 'v list" where
  "output_row M s rows virt = map (\<lambda>c. eval_expr M rows virt (sc_expr c)) (columns s)"

definition eval_aggregate :: "'v interp \<Rightarrow> 'v list list \<Rightarrow> Expression \<Rightarrow> 'v" where
  "eval_aggregate M rows e =
     (case (expr_node e, expr_children e) of
        (AggregateNode agg, [c]) \<Rightarrow> in_aggregate M agg (map (\<lambda>r. eval_expr M [r] [] c) rows)
      | _ \<Rightarrow> eval_expr M [] [] e)"

definition run_node ::
    "'v interp \<Rightarrow> (CatalogTable \<Rightarrow> 'v list list) \<Rightarrow> OperatorSchema \<Rightarrow> OperatorNode \<Rightarrow> 'v list list list \<Rightarrow> 'v list list" where
  "run_node M data s node inputs =
     (case node of
        ScanNode t \<Rightarrow> map (\<lambda>r. output_row M s [r] []) (data t)
      | SelectNode e \<Rightarrow> map (\<lambda>r. output_row M s [r] []) (filter (\<lambda>r. holds M [r] [] e) (hd inputs))
      | ScanSelectNode scan_schema t filters \<Rightarrow>
          map (\<lambda>v. output_row M s [] v)
            (filter (\<lambda>v. \<forall>f\<in>set filters. holds M [] v f) (map (\<lambda>r. output_row M scan_schema [r] []) (data t)))
      | SkinnerJoinNode conditions prefix_order \<Rightarrow>
          map (\<lambda>rs. output_row M s rs []) (filter (\<lambda>rs. \<forall>c\<in>set conditions. holds M rs [] c) (product_lists inputs))
      | AggregateOpNode aggs \<Rightarrow> [output_row M s [] (map (eval_aggregate M (hd inputs)) aggs)]
      | OutputNode \<Rightarrow> map (\<lambda>r. output_row M s [r] []) (hd inputs)
      | _ \<Rightarrow> [])"

fun run_op :: "'v interp \<Rightarrow> (CatalogTable \<Rightarrow> 'v list list) \<Rightarrow> Operator \<Rightarrow> 'v list list" where
  "run_op M data (Operator s node cs) = run_node M data s node (map (run_op M data) cs)"

text \<open>What the plan prints: the rows of the child of the output.\<close>

definition printed :: "'v interp \<Rightarrow> (CatalogTable \<Rightarrow> 'v list list) \<Rightarrow> Operator \<Rightarrow> 'v list list" where
  "printed M data op = run_op M data (hd (op_children op))"

section \<open>Rewriting expressions\<close>

lemma eval_node:
  "\<not> is_ref node \<Longrightarrow> eval_expr M rows virt (Expression t n node cs) = in_node M t node (map (eval_expr M rows virt) cs)"
  by (simp add: is_ref_def split: ExpressionNode.splits)

lemma refs_node: "\<not> is_ref node \<Longrightarrow> GetReferencedColumns (Expression t n node cs) = concat (map GetReferencedColumns cs)"
  by (simp add: is_ref_def split: ExpressionNode.splits)

lemma rewrite_node:
  "\<not> is_ref node \<Longrightarrow> RewriteColumnReferences m (Expression t n node cs) = Expression t n node (map (RewriteColumnReferences m) cs)"
  by (simp add: is_ref_def split: ExpressionNode.splits)

lemma eval_rewrite:
  assumes "\<And>c i. (c, i) \<in> set (GetReferencedColumns e) \<Longrightarrow> rows' ! fst (rewritten m (c, i)) ! snd (rewritten m (c, i)) = rows ! c ! i"
  shows "eval_expr M rows' virt (RewriteColumnReferences m e) = eval_expr M rows virt e"
  using assms
proof (induction e)
  case (Expression t n node cs)
  show ?case
  proof (cases "is_ref node")
    case True
    then show ?thesis using Expression.prems
      by (auto simp: is_ref_def rewritten_def split: ExpressionNode.splits option.splits)
  next
    case False
    have "eval_expr M rows' virt (RewriteColumnReferences m c) = eval_expr M rows virt c" if "c \<in> set cs" for c
      by (rule Expression.IH [OF that]) (use that Expression.prems refs_node [OF False] in auto)
    then show ?thesis unfolding rewrite_node [OF False] eval_node [OF False]
      by (auto intro!: arg_cong [where f = "in_node M t node"])
  qed
qed

lemma eval_virtual:
  assumes "expr_ok [s] [] e"
  shows "eval_expr M [] v (RewriteColRefToVirtColRef e) = eval_expr M [v] [] e"
  using assms
proof (induction e)
  case (Expression t n node cs)
  show ?case
  proof (cases "is_ref node")
    case True
    then show ?thesis using Expression.prems
      by (auto simp: is_ref_def VirtualColumnRefExpression_def split: ExpressionNode.splits)
  next
    case False
    have "list_all (expr_ok [s] []) cs" using Expression.prems unfolding expr_ok_node [OF False] by simp
    then have "map (eval_expr M [] v) (map RewriteColRefToVirtColRef cs) = map (eval_expr M [v] []) cs"
      using Expression.IH by (auto simp: list_all_iff)
    moreover have "RewriteColRefToVirtColRef (Expression t n node cs) = Expression t n node (map RewriteColRefToVirtColRef cs)"
      using False by (simp add: is_ref_def split: ExpressionNode.splits)
    ultimately show ?thesis using eval_node [OF False] by metis
  qed
qed

lemma holds_Decompose:
  assumes "interp_ok M"
  shows "(\<forall>p\<in>set (Decompose e). holds M rows virt p) \<longleftrightarrow> holds M rows virt e"
proof (induction e rule: Decompose.induct)
  case (1 t n node l r)
  then show ?case using assms by (cases "node = BinaryArithmeticNode BAnd") (auto simp: interp_ok_def)
qed simp_all

section \<open>Projections\<close>

definition project :: "nat list \<Rightarrow> 'v list \<Rightarrow> 'v list" where
  "project ks r = map (nth r) ks"

lemma output_row_project:
  assumes "columns s' = map (nth (columns s)) ks" "set ks \<subseteq> {..<length (columns s)}"
  shows "output_row M s' rows virt = project ks (output_row M s rows virt)"
  using assms by (auto simp: output_row_def project_def)

lemma run_node_project:
  assumes "columns s' = map (nth (columns s)) ks" "set ks \<subseteq> {..<length (columns s)}"
  shows "run_node M data s' node inputs = map (project ks) (run_node M data s node inputs)"
  unfolding run_node_def output_row_project [OF assms] by (simp split: OperatorNode.split)

lemma product_lists_map:
  assumes "length fs = length xss"
  shows "product_lists (map2 map fs xss) = map (map2 (\<lambda>f x. f x) fs) (product_lists xss)"
  using assms
proof (induction fs xss rule: list_induct2)
  case (Cons f fs xs xss)
  then show ?case by (simp add: map_concat comp_def)
qed simp

end
