(* ===== verification/PlanTypes.thy ===== *)
theory PlanTypes
  imports PlanTyping
begin

text \<open>
  The planner makes well-typed plans: tables and their column infos, the conjuncts pushed into the scans, the join, the
  aggregates.
\<close>

section \<open>Schemas\<close>

definition passthrough :: "SchemaColumn list \<Rightarrow> nat \<Rightarrow> SchemaColumn list" where
  "passthrough cols c = map (\<lambda>i. \<lparr>sc_name = sc_name (cols ! i),
     sc_expr = ColumnRefExpression (expr_type (sc_expr (cols ! i))) (expr_nullable (sc_expr (cols ! i))) c i\<rparr>) [0..<length cols]"

lemma zip_upt: "zip [0..<length xs] xs = map (\<lambda>i. (i, xs ! i)) [0..<length xs]"
  by (rule nth_equalityI) auto

lemma columns_AddDerivedColumn [simp]:
  "columns (AddDerivedColumn name e s) = columns s @ [\<lparr>sc_name = name, sc_expr = e\<rparr>]"
  by (simp add: AddDerivedColumn_def)

lemma columns_AddPassthroughColumns: "columns (AddPassthroughColumns schema c s) = columns s @ passthrough (columns schema) c"
proof -
  have "columns (foldl (\<lambda>s (i, col). add_passthrough (sc_name col) col c i s) s zs)
      = columns s @ map (\<lambda>(i, col). \<lparr>sc_name = sc_name col, sc_expr = ColumnRefExpression (expr_type (sc_expr col)) (expr_nullable (sc_expr col)) c i\<rparr>) zs"
    for zs
    by (induction zs arbitrary: s) (auto simp: add_passthrough_def)
  then show ?thesis by (simp add: AddPassthroughColumns_def passthrough_def zip_upt)
qed

lemma columns_AddGeneratedColumns:
  "columns (AddGeneratedColumns t OperatorSchemaNew) = map (\<lambda>i. \<lparr>sc_name = col_name (TableColumns t ! i),
     sc_expr = ColumnRefExpression (col_type (TableColumns t ! i)) (ColumnNullable (TableColumns t ! i)) 0 i\<rparr>) [0..<length (TableColumns t)]"
proof -
  have "columns (foldl (\<lambda>s c. add_generated (col_name c) c s) OperatorSchemaNew cs) = map (\<lambda>i. \<lparr>sc_name = col_name (cs ! i),
      sc_expr = ColumnRefExpression (col_type (cs ! i)) (ColumnNullable (cs ! i)) 0 i\<rparr>) [0..<length cs]" for cs
    by (induction cs rule: rev_induct) (auto simp: add_generated_def OperatorSchemaNew_def nth_append)
  then show ?thesis by (simp add: AddGeneratedColumns_def)
qed

lemma sigs_passthrough [simp]: "map (\<lambda>c. expr_sig (sc_expr c)) (passthrough cols c) = map (\<lambda>c. expr_sig (sc_expr c)) cols"
  by (rule nth_equalityI) (simp_all add: passthrough_def ColumnRefExpression_def expr_sig_def)

lemma passthrough_ok:
  assumes "c < length sch" "sch ! c = map (\<lambda>c. expr_sig (sc_expr c)) cols"
  shows "list_all (\<lambda>col. expr_ok sch [] (sc_expr col)) (passthrough cols c)"
  using assms by (auto simp: passthrough_def list_all_iff ColumnRefExpression_def expr_sig_def)

section \<open>Tables\<close>

definition base_scan :: "CatalogTable \<Rightarrow> Operator" where
  "base_scan t = ScanOperator (AddGeneratedColumns t OperatorSchemaNew) t"

lemma base_scan_ok [simp]: "op_ok (base_scan t)" "unmerged (base_scan t)" "op_sigs (base_scan t) = table_sigs t"
  by (auto simp: base_scan_def ScanOperator_def schema_ok_def list_all_iff columns_AddGeneratedColumns table_sigs_def schema_sigs_def
      ColumnRefExpression_def intro: nth_equalityI)

definition flat_from :: "ParseTable \<Rightarrow> bool" where
  "flat_from from = (case from of BaseTable _ _ \<Rightarrow> True
     | CrossProductTable ts \<Rightarrow> list_all (\<lambda>t. case t of BaseTable _ _ \<Rightarrow> True | CrossProductTable _ \<Rightarrow> False) ts)"

lemma alist_update_set: "(k', v') \<in> set (AList.update k v al) \<Longrightarrow> (k', v') = (k, v) \<or> (k', v') \<in> set al"
  by (induction al) (auto split: if_splits)

lemma infos_ok_append: "infos_ok sch infos \<Longrightarrow> infos_ok (sch @ sch') infos"
  by (fastforce simp: infos_ok_def info_ok_def nth_append)

lemma add_column_infos_ok:
  assumes "infos_ok (sch @ [table_sigs t]) infos"
  shows "infos_ok (sch @ [table_sigs t]) (add_column_infos alias (length sch) (TableColumns t) infos)"
proof -
  have "infos_ok (sch @ [table_sigs t]) (foldl (\<lambda>infos (col_idx, col). AList.update (alias, col_name col)
      \<lparr>ci_child_idx = length sch, ci_col_idx = col_idx, ci_type = col_type col, ci_nullable = ColumnNullable col\<rparr> infos) infos zs)"
    if "set zs \<subseteq> set (zip [0..<length (TableColumns t)] (TableColumns t))" for zs
    using that assms
  proof (induction zs arbitrary: infos)
    case (Cons z zs)
    obtain i col where z: "z = (i, col)" by (cases z)
    then have i: "i < length (TableColumns t)" "col = TableColumns t ! i" using Cons.prems(1) by (auto simp: in_set_zip)
    have "infos_ok (sch @ [table_sigs t]) (AList.update (alias, col_name col)
        \<lparr>ci_child_idx = length sch, ci_col_idx = i, ci_type = col_type col, ci_nullable = ColumnNullable col\<rparr> infos)"
      using Cons.prems(2) i by (auto simp: infos_ok_def info_ok_def table_sigs_def dest!: alist_update_set)
    from Cons.IH [OF _ this] Cons.prems(1) show ?case by (simp add: z)
  qed simp
  then show ?thesis by (simp add: add_column_infos_def)
qed

lemma PlanBaseTable_ok:
  assumes "PlanBaseTable db infos name alias (length ts) = Inr (ops, infos')" "infos_ok (map table_sigs ts) infos"
  shows "\<exists>t. ops = [base_scan t] \<and> infos_ok (map table_sigs (ts @ [t])) infos'"
  using assms add_column_infos_ok [of "map table_sigs ts"] infos_ok_append [OF assms(2)]
  by (fastforce simp: PlanBaseTable_def base_scan_def bindR_Inr_iff Let_def split: if_splits)

lemma PlanTables_ok:
  assumes "PlanTables db infos ps (length ts) (map base_scan ts) = Inr (ops, infos')" "infos_ok (map table_sigs ts) infos"
    "list_all (\<lambda>t. case t of BaseTable _ _ \<Rightarrow> True | CrossProductTable _ \<Rightarrow> False) ps"
  shows "\<exists>ts'. ops = map base_scan ts' \<and> infos_ok (map table_sigs ts') infos'"
  using assms
proof (induction ps arbitrary: ts infos)
  case (Cons p ps)
  obtain nm al where p: "p = BaseTable nm al" using Cons.prems(3) by (cases p) auto
  obtain sc infos1 where b: "PlanBaseTable db infos nm al (length ts) = Inr (sc, infos1)"
      "PlanTables db infos1 ps (length ts + 1) (map base_scan ts @ sc) = Inr (ops, infos')"
    using Cons.prems(1) by (auto simp: p bindR_Inr_iff)
  obtain t where t: "sc = [base_scan t]" "infos_ok (map table_sigs (ts @ [t])) infos1"
    using PlanBaseTable_ok [OF b(1) Cons.prems(2)] by blast
  show ?case by (rule Cons.IH [of infos1 "ts @ [t]"]) (use b(2) t Cons.prems(3) in auto)
qed auto

lemma PlanTable_ok:
  assumes "PlanTable db [] from 0 = Inr (ops, infos)" "flat_from from"
  shows "\<exists>ts. ops = map base_scan ts \<and> infos_ok (map table_sigs ts) infos"
proof (cases "from")
  case (BaseTable nm al)
  then obtain t where "ops = [base_scan t]" "infos_ok (map table_sigs ([] @ [t])) infos"
    using PlanBaseTable_ok [of db "[]" nm al "[]" ops infos] assms(1) by (auto simp: infos_ok_def)
  then show ?thesis by (intro exI [of _ "[t]"]) simp
next
  case (CrossProductTable ps)
  then show ?thesis using PlanTables_ok [of db "[]" ps "[]"] assms by (simp add: infos_ok_def flat_from_def)
qed

section \<open>Conjuncts\<close>

definition refs_only :: "nat \<Rightarrow> Expression \<Rightarrow> bool" where
  "refs_only c e \<longleftrightarrow> fst ` set (GetReferencedColumns e) = {c}"

definition preds_split :: "sig list list \<Rightarrow> Expression list list \<times> Expression list \<Rightarrow> bool" where
  "preds_split sch st \<longleftrightarrow> length (fst st) = length sch \<and> list_all (expr_ok sch []) (snd st)
     \<and> (\<forall>c<length sch. list_all (\<lambda>e. expr_ok sch [] e \<and> refs_only c e) (fst st ! c))"

lemma referenced_child: "GetReferencedChildren e = [c] \<Longrightarrow> refs_only c e"
  unfolding GetReferencedChildren_def refs_only_def by (metis list.set(1,2) set_map set_remdups)

lemma split_step_ok:
  assumes "split_step st e = Inr st'" "preds_split sch st" "expr_ok sch [] e"
  shows "preds_split sch st'"
proof -
  obtain u j where st: "st = (u, j)" by (cases st)
  show ?thesis
  proof (cases "\<exists>c. GetReferencedChildren e = [c]")
    case True
    then obtain c where c: "GetReferencedChildren e = [c]" by blast
    then have "c < length u" "st' = (u[c := u ! c @ [e]], j)"
      using assms(1) by (auto simp: split_step_def st bindR_Inr_iff nthR_Inr_iff)
    then show ?thesis using assms(2,3) referenced_child [OF c] by (auto simp: preds_split_def st nth_list_update)
  next
    case False
    then have "st' = (u, j @ [e])" using assms(1) by (auto simp: split_step_def st split: list.splits)
    then show ?thesis using assms(2,3) by (simp add: preds_split_def st)
  qed
qed

lemma BinaryArithmeticExpression_refs:
  "BinaryArithmeticExpression op l r = Inr e \<Longrightarrow> GetReferencedColumns e = GetReferencedColumns l @ GetReferencedColumns r"
  by (auto simp: BinaryArithmeticExpression_def bindR_Inr_iff)

lemma combine_preds_ok:
  assumes "combine_preds preds = Inr f" "preds \<noteq> []" "list_all (\<lambda>e. expr_ok sch [] e \<and> refs_only c e) preds"
  shows "expr_ok sch [] f \<and> refs_only c f"
  using assms(1) unfolding combine_preds_def
proof (rule foldR_invariant)
  have in_preds: "e \<in> set preds" if "e \<in> set (butlast preds)" for e using that by (rule in_set_butlastD)
  show "expr_ok sch [] (last preds) \<and> refs_only c (last preds)" using assms(2,3) by (simp add: list_all_iff)
  fix f p f' assume p: "p \<in> set (rev (butlast preds))" "expr_ok sch [] f \<and> refs_only c f" "BinaryArithmeticExpression BAnd p f = Inr f'"
  then have "expr_ok sch [] p" "refs_only c p" using assms(3) in_preds by (auto simp: list_all_iff)
  moreover have "refs_only c f'"
    using BinaryArithmeticExpression_refs [OF p(3)] \<open>refs_only c p\<close> p(2) by (simp add: refs_only_def image_Un)
  ultimately show "expr_ok sch [] f' \<and> refs_only c f'" using p(2,3) constructors_ok(1) by blast
qed

lemma rewrite_to_child:
  assumes "(c, i) \<in> set refs"
  shows "rewritten (map (\<lambda>ref. (ref, (0, snd ref))) refs) (c, i) = (0, i)"
  using assms by (simp add: rewritten_def map_of_map_restrict)

lemma filter_table_ok:
  assumes "filter_table (base_scan t) preds = Inr op" "list_all (\<lambda>e. expr_ok sch [] e \<and> refs_only c e) preds"
    "c < length sch" "sch ! c = table_sigs t"
  shows "op_ok op \<and> unmerged op \<and> op_sigs op = table_sigs t"
proof (cases "preds = []")
  case True
  then have "op = base_scan t" using assms(1) by (simp add: filter_table_def)
  then show ?thesis by simp
next
  case False
  let ?s = "AddPassthroughColumns (op_schema (base_scan t)) 0 OperatorSchemaNew"
  obtain f where f: "combine_preds preds = Inr f" and op: "op = SelectOperator ?s (base_scan t)
      (RewriteColumnReferences (map (\<lambda>ref. (ref, (0, snd ref))) (GetReferencedColumns f)) f)"
    using assms(1) False by (auto simp: filter_table_def bindR_Inr_iff Let_def)
  note ok = combine_preds_ok [OF f False assms(2)]
  have only: "c' = c" if "(c', i) \<in> set (GetReferencedColumns f)" for c' i
  proof -
    have "fst (c', i) \<in> fst ` set (GetReferencedColumns f)" using that by (rule imageI)
    then show ?thesis using ok by (simp add: refs_only_def)
  qed
  have "expr_ok [table_sigs t] [] (RewriteColumnReferences (map (\<lambda>ref. (ref, (0, snd ref))) (GetReferencedColumns f)) f)"
  proof (rule expr_ok_rewrite [OF conjunct1 [OF ok]])
    fix c' i assume r: "(c', i) \<in> set (GetReferencedColumns f)"
    then show "ref_ok [table_sigs t] (rewritten (map (\<lambda>ref. (ref, (0, snd ref))) (GetReferencedColumns f)) (c', i)) (sch ! c' ! i)"
      using expr_ok_refs [OF conjunct1 [OF ok] r] only [OF r] assms(4) by (simp add: rewrite_to_child ref_ok_def)
  qed
  moreover have cols: "columns ?s = passthrough (columns (op_schema (base_scan t))) 0"
    by (simp add: columns_AddPassthroughColumns OperatorSchemaNew_def)
  moreover have sig: "map (\<lambda>c. expr_sig (sc_expr c)) (columns (op_schema (base_scan t))) = table_sigs t"
    using base_scan_ok(3) [of t] by (simp add: schema_sigs_def)
  ultimately show ?thesis
    using passthrough_ok [of 0 "[table_sigs t]" "columns (op_schema (base_scan t))"] base_scan_ok [of t]
    by (simp add: op SelectOperator_def schema_ok_def schema_sigs_def)
qed

lemma bindR_assoc: "bindR (bindR m f) g = bindR m (\<lambda>x. bindR (f x) g)"
  by (cases m) simp_all

lemma filter_tables_mapR:
  "filter_tables ops preds = mapR (\<lambda>(i, base). bindR (nthR preds i) (filter_table base)) (zip [0..<length ops] ops)"
  unfolding filter_tables_def by (subst indexed_mapR [symmetric]) (simp add: bindR_assoc)

lemma filter_tables_nth:
  assumes "filter_tables ops preds = Inr out"
  shows "length out = length ops" "i < length ops \<Longrightarrow> i < length preds \<and> filter_table (ops ! i) (preds ! i) = Inr (out ! i)"
  using assms unfolding filter_tables_mapR mapR_Inr
  by (auto simp: list_all2_conv_all_nth bindR_Inr_iff nthR_Inr_iff)

lemma filter_tables_ok:
  assumes "filter_tables (map base_scan ts) u = Inr ops" "preds_split (map table_sigs ts) (u, j)"
  shows "list_all op_ok ops \<and> list_all unmerged ops \<and> map op_sigs ops = map table_sigs ts"
proof -
  note n = filter_tables_nth [OF assms(1)]
  have "op_ok (ops ! i) \<and> unmerged (ops ! i) \<and> op_sigs (ops ! i) = table_sigs (ts ! i)" if "i < length ts" for i
    by (rule filter_table_ok [of "ts ! i" "u ! i" _ "map table_sigs ts" i])
      (use n(2) [of i] that assms(2) in \<open>auto simp: preds_split_def\<close>)
  then show ?thesis using n(1) by (auto simp: list_all_length intro: nth_equalityI)
qed

section \<open>The join\<close>

lemma join_columns:
  "columns (foldl (\<lambda>s (i, op). AddPassthroughColumns (op_schema op) i s) s zs)
     = columns s @ concat (map (\<lambda>(i, op). passthrough (columns (op_schema op)) i) zs)"
  by (induction zs arbitrary: s) (auto simp: columns_AddPassthroughColumns)

lemma join_tables_ok:
  assumes "list_all op_ok ops" "list_all unmerged ops" "list_all (expr_ok (map op_sigs ops) []) conds"
  shows "op_ok (join_tables ops conds) \<and> unmerged (join_tables ops conds) \<and> op_sigs (join_tables ops conds) = concat (map op_sigs ops)"
proof (cases "length ops = 1")
  case True
  then show ?thesis using assms by (cases ops) (auto simp: join_tables_def)
next
  case False
  let ?cols = "\<lambda>op. columns (op_schema op)"
  let ?s = "foldl (\<lambda>s (i, op). AddPassthroughColumns (op_schema op) i s) OperatorSchemaNew (zip [0..<length ops] ops)"
  have cols: "columns ?s = concat (map (\<lambda>i. passthrough (?cols (ops ! i)) i) [0..<length ops])"
    by (simp add: join_columns OperatorSchemaNew_def zip_upt comp_def)
  have "list_all (\<lambda>col. expr_ok (map op_sigs ops) [] (sc_expr col)) (passthrough (?cols (ops ! i)) i)" if "i < length ops" for i
    by (rule passthrough_ok) (use that in \<open>simp_all add: schema_sigs_def\<close>)
  then have "schema_ok (map op_sigs ops) [] ?s" unfolding schema_ok_def cols by (fastforce simp: list_all_iff)
  moreover have "map (\<lambda>i. op_sigs (ops ! i)) [0..<length ops] = map op_sigs ops" by (rule nth_equalityI) simp_all
  then have "schema_sigs ?s = concat (map op_sigs ops)"
    unfolding schema_sigs_def cols by (simp add: map_concat comp_def)
  ultimately show ?thesis using assms False by (simp add: join_tables_def SkinnerJoinOperator_def)
qed

definition column_keys :: "nat list \<Rightarrow> (nat \<times> nat) list" where
  "column_keys ws = concat (map (\<lambda>i. map (Pair i) [0..<ws ! i]) [0..<length ws])"

lemma concat_keys: "concat xss = map (\<lambda>(c, i). xss ! c ! i) (column_keys (map length xss))"
proof (induction xss rule: rev_induct)
  case (snoc xs xss)
  have "map (\<lambda>(c, i). (xss @ [xs]) ! c ! i) (column_keys (map length xss)) = map (\<lambda>(c, i). xss ! c ! i) (column_keys (map length xss))"
    by (auto simp: column_keys_def nth_append)
  moreover have "column_keys (map length (xss @ [xs])) = column_keys (map length xss) @ map (Pair (length xss)) [0..<length xs]"
    by (auto simp: column_keys_def nth_append intro!: arg_cong [where f = concat])
  moreover have "map (\<lambda>i. xs ! i) [0..<length xs] = xs" by (rule map_nth)
  ultimately show ?case using snoc by (simp add: comp_def)
qed (simp add: column_keys_def)

lemma output_positions_eq:
  "output_positions ops = zip (column_keys (map (\<lambda>op. length (columns (op_schema op))) ops))
     [0..<length (column_keys (map (\<lambda>op. length (columns (op_schema op))) ops))]"
proof -
  have "map (\<lambda>i. map (Pair i) [0..<length (columns (op_schema (ops ! i)))]) [0..<length ops]
      = map (\<lambda>i. map (Pair i) [0..<map (\<lambda>op. length (columns (op_schema op))) ops ! i]) [0..<length ops]"
    by (rule map_cong) simp_all
  then show ?thesis by (simp only: output_positions_def column_keys_def Let_def length_map)
qed

lemma output_position:
  assumes "map_of (output_positions ops) (c, i) = Some p"
  shows "p < length (column_keys (map (\<lambda>op. length (columns (op_schema op))) ops))"
    "column_keys (map (\<lambda>op. length (columns (op_schema op))) ops) ! p = (c, i)"
  using map_of_SomeD [OF assms] by (auto simp: output_positions_eq set_zip)

lemma remap_infos_ok:
  assumes "remap_infos (output_positions ops) infos = Inr infos'" "infos_ok (map op_sigs ops) infos"
  shows "infos_ok [concat (map op_sigs ops)] infos'"
  using assms(1) unfolding remap_infos_def
proof (rule foldR_invariant)
  fix out kv out' assume step: "kv \<in> set infos" "infos_ok [concat (map op_sigs ops)] out"
    "(case kv of (key, v) \<Rightarrow> bindR (atR (map_of (output_positions ops)) (ci_child_idx v, ci_col_idx v))
        (\<lambda>p. Inr (out @ [(key, v\<lparr>ci_col_idx := p, ci_child_idx := 0\<rparr>)]))) = Inr out'"
  let ?keys = "column_keys (map (\<lambda>op. length (columns (op_schema op))) ops)"
  obtain k v where kv: "kv = (k, v)" by (cases kv)
  then obtain p where p: "map_of (output_positions ops) (ci_child_idx v, ci_col_idx v) = Some p"
      "out' = out @ [(k, v\<lparr>ci_col_idx := p, ci_child_idx := 0\<rparr>)]"
    using step(3) by (auto simp: bindR_Inr_iff atR_Inr_iff)
  note pos = output_position [OF p(1)]
  have eq: "concat (map op_sigs ops) = map (\<lambda>(c, i). map op_sigs ops ! c ! i) ?keys"
    using concat_keys [of "map op_sigs ops"] by (simp add: schema_sigs_def comp_def)
  have "info_ok (map op_sigs ops) v" using assms(2) step(1) kv unfolding infos_ok_def by blast
  then have "info_ok [concat (map op_sigs ops)] (v\<lparr>ci_col_idx := p, ci_child_idx := 0\<rparr>)"
    using pos unfolding info_ok_def eq by auto
  then show "infos_ok [concat (map op_sigs ops)] out'" using step(2) by (auto simp: infos_ok_def p(2))
qed (simp add: infos_ok_def)

lemma PlanFromWhere_ok:
  assumes "PlanFromWhere get_value db from cond = Inr (op, infos)" "flat_from from"
  shows "op_ok op \<and> unmerged op \<and> infos_ok [op_sigs op] infos"
proof -
  from assms(1) obtain bases infos0 cond' e u j ops where p: "PlanTable db [] from 0 = Inr (bases, infos0)" "cond = Some cond'"
      "PlanExpr get_value infos0 cond' = Inr e" "foldR split_step (replicate (length bases) [], []) (Decompose e) = Inr (u, j)"
      "filter_tables bases u = Inr ops" "remap_infos (output_positions ops) infos0 = Inr infos" "op = join_tables ops j"
    by (auto simp: PlanFromWhere_def bindR_Inr_iff split: option.splits)
  obtain ts where ts: "bases = map base_scan ts" "infos_ok (map table_sigs ts) infos0" using PlanTable_ok [OF p(1) assms(2)] by blast
  have "expr_ok (map table_sigs ts) [] e" by (rule PlanExpr_ok [OF p(3) ts(2)])
  note conjuncts = Decompose_ok [OF this]
  have split: "preds_split (map table_sigs ts) (u, j)"
    using p(4)
  proof (rule foldR_invariant)
    show "preds_split (map table_sigs ts) (replicate (length bases) [], [])" by (simp add: preds_split_def ts(1))
    show "preds_split (map table_sigs ts) st'" if "x \<in> set (Decompose e)" "preds_split (map table_sigs ts) st" "split_step st x = Inr st'"
      for st x st'
      by (rule split_step_ok [OF that(3,2)]) (use that(1) conjuncts in \<open>simp add: list_all_iff\<close>)
  qed
  note f = filter_tables_ok [OF p(5) [unfolded ts(1)] split]
  have "infos_ok [concat (map op_sigs ops)] infos" by (rule remap_infos_ok [OF p(6)]) (use f ts(2) in simp)
  moreover have "list_all (expr_ok (map op_sigs ops) []) j" using f split by (simp add: preds_split_def)
  ultimately show ?thesis using join_tables_ok [of ops j] f p(7) by simp
qed

section \<open>The aggregates\<close>

lemma plan_equality_node: "plan_equality get_value op l r = Inr e \<Longrightarrow> expr_node e = BinaryArithmeticNode op"
  by (auto simp: plan_equality_def BinaryArithmeticExpression_def bindR_Inr_iff split: ExpressionNode.splits if_splits)

lemma PlanLike_node: "PlanLike l match = Inr e \<Longrightarrow> expr_node e \<noteq> AggregateNode a"
  by (auto simp: PlanLike_def BinaryArithmeticExpression_def RegexpMatchingExpression_def bindR_Inr_iff split: if_splits)

lemma PlanBinary_node:
  assumes "PlanBinary get_value op right_parsed l r = Inr e" shows "expr_node e \<noteq> AggregateNode a"
proof (cases "op = ParseLike")
  case True
  then show ?thesis using assms PlanLike_node by (auto simp: PlanBinary_def bindR_Inr_iff split: ParseExpression.splits)
next
  case False
  have "\<exists>x y bop. BinaryArithmeticExpression bop x y = Inr e \<or> plan_equality get_value bop x y = Inr e"
    using assms False by (cases op) (auto simp: PlanBinary_def bindR_Inr_iff)
  then show ?thesis using plan_equality_node by (fastforce simp: BinaryArithmeticExpression_def bindR_Inr_iff)
qed

lemma PlanIn_node:
  assumes "PlanIn get_value base cases = Inr e" shows "expr_node e \<noteq> AggregateNode a"
proof -
  have "\<forall>x. res = Some x \<longrightarrow> expr_node x \<noteq> AggregateNode a" if f: "foldR (in_step get_value b) None cases = Inr res" for b res
    using f by (rule foldR_invariant)
      (auto simp: in_step_def bindR_Inr_iff BinaryArithmeticExpression_def dest!: plan_equality_node split: option.splits)
  then show ?thesis using assms
    by (auto simp: PlanIn_def EnumInExpression_def LiteralBool_def bindR_Inr_iff split: option.splits if_splits)
qed

lemma PlanExpr_aggregate:
  assumes "PlanExpr get_value infos p = Inr e" "expr_node e = AggregateNode a"
  shows "expr_nullable e \<longleftrightarrow> a \<noteq> AggCount"
proof (cases p)
  case (PAggregate x1 x2)
  then show ?thesis using assms by (auto simp: bindR_Inr_iff AggregateExpression_def split: option.splits)
next
  case (PLiteral l)
  then show ?thesis using assms
    by (cases l) (auto simp: LiteralInt16_def LiteralInt32_def LiteralInt64_def LiteralDouble_def LiteralString_def LiteralBool_def)
qed (use assms PlanBinary_node PlanIn_node in
    \<open>auto simp: bindR_Inr_iff UnaryArithmeticExpression_def PlanColumnRef_def ColumnRefExpression_def\<close>)

definition select_item :: "sig list list \<Rightarrow> nat \<Rightarrow> SchemaColumn \<Rightarrow> Expression option \<Rightarrow> bool" where
  "select_item sch i col agg \<longleftrightarrow> (\<exists>e. sc_expr col = VirtualColumnRefExpression (expr_type e) (expr_nullable e) i \<and> expr_ok sch [] e
     \<and> agg = as_aggregate e \<and> (\<forall>a. expr_node e = AggregateNode a \<longrightarrow> expr_nullable e = (a \<noteq> AggCount)))"

lemma select_loop_ok:
  assumes "foldR (select_step get_value infos) (OperatorSchemaNew, []) selects = Inr (schema, aggs)" "infos_ok sch infos"
  shows "length (columns schema) = length aggs \<and> (\<forall>i<length aggs. select_item sch i (columns schema ! i) (aggs ! i))"
proof -
  let ?inv = "\<lambda>st. length (columns (fst st)) = length (snd st) \<and> (\<forall>i<length (snd st). select_item sch i (columns (fst st) ! i) (snd st ! i))"
  from assms(1) have "?inv (schema, aggs)"
  proof (rule foldR_invariant)
    fix st p st' assume p: "?inv st" "select_step get_value infos st p = Inr st'"
    obtain s as where st: "st = (s, as)" by (cases st)
    from p(2) obtain e where e: "PlanExpr get_value infos p = Inr e"
        "st' = (AddDerivedColumn (to_string (length as)) (VirtualColumnRefExpression (expr_type e) (expr_nullable e) (length as)) s, as @ [as_aggregate e])"
      by (auto simp: select_step_def st bindR_Inr_iff Let_def simp del: to_string.simps)
    have "select_item sch (length as) \<lparr>sc_name = to_string (length as), sc_expr = VirtualColumnRefExpression (expr_type e) (expr_nullable e) (length as)\<rparr> (as_aggregate e)"
      unfolding select_item_def
      by (intro exI [of _ e]) (use PlanExpr_ok [OF e(1) assms(2)] PlanExpr_aggregate [OF e(1)] in simp)
    then show "?inv st'" using p(1) by (auto simp: e(2) st nth_append less_Suc_eq simp del: to_string.simps)
  qed (simp add: OperatorSchemaNew_def)
  then show ?thesis by simp
qed

lemma set_nullable_mapR: "set_nullable_all es = mapR (\<lambda>e. case e of None \<Rightarrow> Inl Undefined | Some e \<Rightarrow> Inr (SetNullable e)) es"
proof -
  have "(case e of None \<Rightarrow> Inl Undefined | Some e \<Rightarrow> Inr (out @ [SetNullable e]))
      = bindR (case e of None \<Rightarrow> Inl Undefined | Some e \<Rightarrow> Inr (SetNullable e)) (\<lambda>y. Inr (out @ [y]))" for e out
    by (cases e) simp_all
  then show ?thesis by (simp add: set_nullable_all_def mapR_def)
qed

lemma SetNullable_agg:
  assumes "expr_ok sch [] e" "expr_node e = AggregateNode a"
  shows "agg_ok sch (SetNullable e)" "agg_sig (SetNullable e) = (expr_type e, a \<noteq> AggCount)"
  using assms by (cases e; auto simp: SetNullable_def agg_ok_def agg_sig_def node_typed_def split: list.splits)+

lemma AggregateOperator_ok:
  assumes "AggregateOperator schema child aggs = Inr op" "op_ok child" "unmerged child" "length (columns schema) = length aggs"
    "\<And>i. i < length aggs \<Longrightarrow> select_item [op_sigs child] i (columns schema ! i) (aggs ! i)"
  shows "op_ok op \<and> unmerged op"
proof -
  from assms(1) obtain es where es: "set_nullable_all aggs = Inr es" "op = Operator schema (AggregateOpNode es) [child]"
    by (auto simp: AggregateOperator_def bindR_Inr_iff)
  from es(1) have all: "list_all2 (\<lambda>x y. (case x of None \<Rightarrow> Inl Undefined | Some e \<Rightarrow> Inr (SetNullable e)) = Inr y) aggs es"
    unfolding set_nullable_mapR mapR_Inr .
  have len: "length es = length aggs" using all by (simp add: list_all2_lengthD)
  have item: "agg_ok [op_sigs child] (es ! i) \<and> sc_expr (columns schema ! i) = VirtualColumnRefExpression (fst (agg_sig (es ! i))) (snd (agg_sig (es ! i))) i"
    if i: "i < length aggs" for i
  proof -
    obtain e where e: "sc_expr (columns schema ! i) = VirtualColumnRefExpression (expr_type e) (expr_nullable e) i" "expr_ok [op_sigs child] [] e"
        "aggs ! i = as_aggregate e" "\<forall>a. expr_node e = AggregateNode a \<longrightarrow> expr_nullable e = (a \<noteq> AggCount)"
      using assms(5) [OF i] by (auto simp: select_item_def)
    have "(case aggs ! i of None \<Rightarrow> Inl Undefined | Some e \<Rightarrow> Inr (SetNullable e)) = Inr (es ! i)"
      using all i by (auto simp: list_all2_conv_all_nth)
    then obtain a where a: "expr_node e = AggregateNode a" "es ! i = SetNullable e"
      by (auto simp: e(3) as_aggregate_def split: ExpressionNode.splits)
    show ?thesis using SetNullable_agg [OF e(2) a(1)] e(1,4) a by simp
  qed
  have "list_all (agg_ok [op_sigs child]) es" using item len by (simp add: list_all_length)
  moreover have "schema_ok [] (map agg_sig es) schema"
    using item len assms(4) by (simp add: schema_ok_def list_all_length VirtualColumnRefExpression_def)
  ultimately show ?thesis using assms(2,3) es(2) by simp
qed

lemma PlanSelect_ok:
  assumes "PlanSelect get_value db stmt = Inr op" "flat_from (FromTable stmt)"
  shows "op_ok op \<and> unmerged op"
proof -
  from assms(1) obtain result infos schema aggs agg where p: "PlanFromWhere get_value db (FromTable stmt) (Where stmt) = Inr (result, infos)"
      "foldR (select_step get_value infos) (OperatorSchemaNew, []) (Selects stmt) = Inr (schema, aggs)"
      "AggregateOperator schema result aggs = Inr agg" "op = OutputOperator agg"
    by (auto simp: PlanSelect_def bindR_Inr_iff)
  note r = PlanFromWhere_ok [OF p(1) assms(2)]
  have "infos_ok [op_sigs result] infos" using r by simp
  note loop = select_loop_ok [OF p(2) this]
  have "op_ok agg \<and> unmerged agg" by (rule AggregateOperator_ok [OF p(3)]) (use r loop in auto)
  then show ?thesis by (simp add: p(4) OutputOperator_def OperatorSchemaNew_def)
qed

end
