(* ===== verification/PlanProjection.thy ===== *)
theory PlanProjection
  imports PlanSemantics PlanTypes
begin

text \<open>
  The passes over a plan keep it well typed and keep what it prints. Dropping the columns nothing refers to projects the
  rows of a child; the references of the parent are moved to the positions of the columns in the projected rows.
\<close>

section \<open>Removing columns\<close>

lemma kept_bound: "set (kept refs c n) \<subseteq> {..<n}"
  by (auto simp: kept_def)

lemma keep_columns_loop:
  assumes "k \<le> length (columns s)"
  shows "\<exists>s'. foldR (\<lambda>s i. if (c, i) \<notin> set refs then RemoveColumn i s else Inr s) s (rev [0..<k]) = Inr s'
    \<and> columns s' = map (nth (columns s)) (kept refs c k) @ drop k (columns s)"
  using assms
proof (induction k arbitrary: s)
  case (Suc k)
  show ?case
  proof (cases "(c, k) \<in> set refs")
    case True
    have "k \<le> length (columns s)" using Suc.prems by simp
    from Suc.IH [OF this] show ?thesis using True Suc.prems by (auto simp: kept_def Cons_nth_drop_Suc)
  next
    case False
    let ?s = "s\<lparr>column_name_to_idx := AList.delete (sc_name (columns s ! k)) (column_name_to_idx s),
      columns := take k (columns s) @ drop (k + 1) (columns s)\<rparr>"
    have rm: "RemoveColumn k s = Inr ?s" using Suc.prems by (simp add: RemoveColumn_def)
    have "k \<le> length (columns ?s)" using Suc.prems by simp
    from Suc.IH [OF this] obtain s' where
        s': "foldR (\<lambda>s i. if (c, i) \<notin> set refs then RemoveColumn i s else Inr s) ?s (rev [0..<k]) = Inr s'"
        "columns s' = map (nth (columns ?s)) (kept refs c k) @ drop k (columns ?s)" by blast
    have "map (nth (columns ?s)) (kept refs c k) = map (nth (columns s)) (kept refs c k)"
      using Suc.prems kept_bound [of refs c k] by (auto simp: nth_append)
    then show ?thesis using s' rm False Suc.prems by (auto simp: kept_def)
  qed
qed (simp add: kept_def)

lemma keep_columns_ok:
  "\<exists>s'. keep_columns refs c s = Inr s' \<and> columns s' = map (nth (columns s)) (kept refs c (length (columns s)))"
  using keep_columns_loop [of "length (columns s)" s c refs] by (simp add: keep_columns_def)

text \<open>The children after the projection, and where the references go.\<close>

definition projected_child :: "(nat \<times> nat) list \<Rightarrow> nat \<Rightarrow> Operator \<Rightarrow> Operator \<Rightarrow> bool" where
  "projected_child refs c op op' \<longleftrightarrow> op_node op' = op_node op \<and> op_children op' = op_children op
     \<and> columns (op_schema op') = map (nth (columns (op_schema op))) (kept refs c (length (columns (op_schema op))))"

lemma project_child_total: "\<exists>op'. project_child refs c op = Inr op' \<and> projected_child refs c op op'"
  using keep_columns_ok [of refs c "op_schema op"] by (auto simp: project_child_def projected_child_def)

lemma mapR_total: "(\<And>x. x \<in> set xs \<Longrightarrow> \<exists>y. f x = Inr y) \<Longrightarrow> \<exists>ys. mapR f xs = Inr ys"
  by (induction xs) fastforce+

lemma project_children_total:
  "\<exists>cs'. project_children refs cs = Inr cs' \<and> length cs' = length cs \<and> (\<forall>c<length cs. projected_child refs c (cs ! c) (cs' ! c))"
proof -
  have "\<exists>op'. (case x of (i, c) \<Rightarrow> project_child refs i c) = Inr op'" for x
    using project_child_total [of refs "fst x" "snd x"] by (cases x) auto
  from mapR_total [of "zip [0..<length cs] cs" "\<lambda>(i, c). project_child refs i c", OF this] obtain cs' where cs': "project_children refs cs = Inr cs'" unfolding project_children_mapR by (elim exE)
  then have all: "list_all2 (\<lambda>x y. (case x of (i, c) \<Rightarrow> project_child refs i c) = Inr y) (zip [0..<length cs] cs) cs'"
    by (simp add: project_children_mapR mapR_Inr)
  then have "projected_child refs c (cs ! c) (cs' ! c)" if "c < length cs" for c
    using project_child_total [of refs c "cs ! c"] that by (auto simp: list_all2_conv_all_nth)
  then show ?thesis using cs' all by (auto dest: list_all2_lengthD)
qed

lemma single_child:
  "children_map refs [child] = projection_map refs 0 (length (columns (op_schema child)))"
  "project_children refs [child] = bindR (project_child refs 0 child) (\<lambda>c. Inr [c])"
  by (simp add: children_map_def) (cases "project_child refs 0 child"; simp add: project_children_def)

lemma projection_map_lookup:
  assumes "(c, i) \<in> set refs" "i < n"
  shows "\<exists>p. map_of (projection_map refs c n) (c, i) = Some (c, p) \<and> p < length (kept refs c n) \<and> kept refs c n ! p = i"
proof -
  let ?ks = "kept refs c n"
  have "i \<in> set ?ks" using assms by (simp add: kept_def)
  then obtain p where p: "p < length ?ks" "?ks ! p = i" by (auto simp: in_set_conv_nth)
  have "distinct (map (Pair c) ?ks)" by (simp add: kept_def distinct_map inj_on_def)
  then have "map_of (zip (map (Pair c) ?ks) (map (Pair c) [0..<length ?ks])) (map (Pair c) ?ks ! p) = Some (map (Pair c) [0..<length ?ks] ! p)"
    by (intro map_of_zip_nth) (use p in simp_all)
  then show ?thesis using p by (auto simp: projection_map_def Let_def)
qed

lemma projection_map_keys: "fst ` set (projection_map refs c n) \<subseteq> {c} \<times> UNIV"
  by (auto simp: projection_map_def Let_def set_zip)

lemma map_of_concat_keys:
  assumes "\<And>j. fst ` set (f j) \<subseteq> {j} \<times> UNIV" "c < n"
  shows "map_of (concat (map f [0..<n])) (c, i) = map_of (f c) (c, i)"
proof -
  have none: "map_of (f j) (c, i) = None" if "j \<noteq> c" for j
    using assms(1) [of j] that by (auto simp: map_of_eq_None_iff)
  have "map_of (concat (map f xs)) (c, i) = (if c \<in> set xs then map_of (f c) (c, i) else None)" for xs
  proof (induction xs)
    case (Cons a xs)
    then show ?case using none [of a] by (cases "a = c") (auto simp: map_add_def split: option.splits)
  qed simp
  then show ?thesis using assms(2) by simp
qed

lemma rewritten_ref:
  assumes "(c, i) \<in> set refs" "c < length cs" "i < length (columns (op_schema (cs ! c)))"
  obtains p where "rewritten (children_map refs cs) (c, i) = (c, p)" "p < length (kept refs c (length (columns (op_schema (cs ! c)))))"
    "kept refs c (length (columns (op_schema (cs ! c)))) ! p = i"
proof -
  let ?n = "length (columns (op_schema (cs ! c)))"
  obtain p where p: "map_of (projection_map refs c ?n) (c, i) = Some (c, p)" "p < length (kept refs c ?n)" "kept refs c ?n ! p = i"
    using projection_map_lookup [OF assms(1,3)] by blast
  have "map_of (children_map refs cs) (c, i) = Some (c, p)"
    unfolding children_map_def
    by (subst map_of_concat_keys [where f = "\<lambda>i. projection_map refs i (length (columns (op_schema (cs ! i))))"])
      (use projection_map_keys assms(2) p(1) in auto)
  then show thesis using that p(2,3) by (simp add: rewritten_def)
qed

section \<open>Expressions over projected children\<close>

definition projected :: "(nat \<times> nat) list \<Rightarrow> Operator list \<Rightarrow> Operator list \<Rightarrow> bool" where
  "projected refs cs cs' \<longleftrightarrow> length cs' = length cs \<and> (\<forall>c<length cs. projected_child refs c (cs ! c) (cs' ! c))"

lemma projected_sigs:
  assumes "projected_child refs c op op'"
  shows "op_sigs op' = map (nth (op_sigs op)) (kept refs c (length (columns (op_schema op))))"
  using assms kept_bound [of refs c "length (columns (op_schema op))"] by (auto simp: projected_child_def schema_sigs_def)

lemma projected_expr_ok:
  assumes "projected refs cs cs'" "expr_ok (map op_sigs cs) virt e" "set (GetReferencedColumns e) \<subseteq> set refs"
    "map op_sigs cs'' = map op_sigs cs'"
  shows "expr_ok (map op_sigs cs'') virt (RewriteColumnReferences (children_map refs cs) e)"
proof (rule expr_ok_rewrite [OF assms(2)])
  fix c i assume ref: "(c, i) \<in> set (GetReferencedColumns e)"
  note r = expr_ok_refs [OF assms(2) ref]
  have c: "c < length cs" "i < length (columns (op_schema (cs ! c)))" using r by (auto simp: schema_sigs_def)
  obtain p where p: "rewritten (children_map refs cs) (c, i) = (c, p)" "p < length (kept refs c (length (columns (op_schema (cs ! c)))))"
      "kept refs c (length (columns (op_schema (cs ! c)))) ! p = i"
    by (rule rewritten_ref [OF subsetD [OF assms(3) ref] c])
  have sig: "op_sigs (cs' ! c) = map (nth (op_sigs (cs ! c))) (kept refs c (length (columns (op_schema (cs ! c)))))"
    by (rule projected_sigs) (use assms(1) c(1) in \<open>simp add: projected_def\<close>)
  have "length cs' = length cs" using assms(1) by (simp add: projected_def)
  then show "ref_ok (map op_sigs cs'') (rewritten (children_map refs cs) (c, i)) (map op_sigs cs ! c ! i)"
    unfolding assms(4) using p c(1) sig by (simp add: ref_ok_def)
qed

definition project_rows :: "(nat \<times> nat) list \<Rightarrow> Operator list \<Rightarrow> 'v list list \<Rightarrow> 'v list list" where
  "project_rows refs cs rows = map2 (\<lambda>f r. f r) (map (\<lambda>c. project (kept refs c (length (columns (op_schema (cs ! c)))))) [0..<length cs]) rows"

lemma projected_eval:
  assumes "expr_ok (map op_sigs cs) virt0 e" "set (GetReferencedColumns e) \<subseteq> set refs" "length rows = length cs"
  shows "eval_expr M (project_rows refs cs rows) virt (RewriteColumnReferences (children_map refs cs) e) = eval_expr M rows virt e"
proof (rule eval_rewrite)
  fix c i assume ref: "(c, i) \<in> set (GetReferencedColumns e)"
  note r = expr_ok_refs [OF assms(1) ref]
  have c: "c < length cs" "i < length (columns (op_schema (cs ! c)))" using r by (auto simp: schema_sigs_def)
  obtain p where p: "rewritten (children_map refs cs) (c, i) = (c, p)" "p < length (kept refs c (length (columns (op_schema (cs ! c)))))"
      "kept refs c (length (columns (op_schema (cs ! c)))) ! p = i"
    by (rule rewritten_ref [OF subsetD [OF assms(2) ref] c])
  show "project_rows refs cs rows ! fst (rewritten (children_map refs cs) (c, i)) ! snd (rewritten (children_map refs cs) (c, i)) = rows ! c ! i"
    using p c(1) assms(3) by (simp add: project_rows_def project_def)
qed

section \<open>Early projection\<close>

lemma op_ok_subschema:
  assumes "op_ok op" "op_node op' = op_node op" "op_children op' = op_children op" "set (columns (op_schema op')) \<subseteq> set (columns (op_schema op))"
  shows "op_ok op'"
proof -
  obtain s node cs where op: "op = Operator s node cs" by (cases op)
  obtain s' where op': "op' = Operator s' node cs" using assms(2,3) op by (cases op') auto
  have sub: "schema_ok sch virt s' " if "schema_ok sch virt s" for sch virt
    using that assms(4) by (auto simp: schema_ok_def list_all_iff op op')
  have "columns s = [] \<Longrightarrow> columns s' = []" using assms(4) by (simp add: op op')
  then show ?thesis using assms(1) sub by (auto simp: op op' split: OperatorNode.splits)
qed

lemma unmerged_schema: "unmerged op \<Longrightarrow> op_node op' = op_node op \<Longrightarrow> op_children op' = op_children op \<Longrightarrow> unmerged op'"
  by (cases op; cases op') simp

lemma projected_child_kept:
  assumes "projected_child refs c op op'" "op_ok op" "unmerged op"
  shows "op_ok op'" "unmerged op'" "op_nodes op' = op_nodes op"
    "run_op M data op' = map (project (kept refs c (length (columns (op_schema op))))) (run_op M data op)"
proof -
  let ?ks = "kept refs c (length (columns (op_schema op)))"
  have p: "op_node op' = op_node op" "op_children op' = op_children op" "columns (op_schema op') = map (nth (columns (op_schema op))) ?ks"
    using assms(1) by (simp_all add: projected_child_def)
  have "set (columns (op_schema op')) \<subseteq> set (columns (op_schema op))" using kept_bound [of refs c "length (columns (op_schema op))"] by (auto simp: p(3))
  then show "op_ok op'" "unmerged op'" using op_ok_subschema [OF assms(2) p(1,2)] unmerged_schema [OF assms(3) p(1,2)] by blast+
  show "op_nodes op' = op_nodes op" using p(2) by (cases op; cases op') simp
  have "run_op M data op' = run_node M data (op_schema op') (op_node op) (map (run_op M data) (op_children op))"
    using p(1,2) by (cases op') simp
  also have "\<dots> = map (project ?ks) (run_op M data op)"
    using run_node_project [OF p(3) kept_bound] by (cases op) simp
  finally show "run_op M data op' = map (project ?ks) (run_op M data op)" .
qed

definition same_plan :: "Operator \<Rightarrow> Operator \<Rightarrow> bool" where
  "same_plan op op' \<longleftrightarrow> op_ok op' \<and> unmerged op' \<and> op_sigs op' = op_sigs op"

text \<open>All children at once: they are projected, and then processed themselves.\<close>

lemma children_projected:
  fixes M :: "'v interp"
  assumes "list_all op_ok cs" "list_all unmerged cs"
    and IH: "\<And>op. op_nodes op \<le> sum_list (map op_nodes cs) \<Longrightarrow> op_ok op \<Longrightarrow> unmerged op \<Longrightarrow>
      \<exists>op'. EarlyProjection op = Inr op' \<and> same_plan op op' \<and> run_op M data op' = run_op M data op"
  obtains cs1 cs2 where "project_children refs cs = Inr cs1" "mapR EarlyProjection cs1 = Inr cs2" "projected refs cs cs1"
    "map op_sigs cs2 = map op_sigs cs1" "list_all op_ok cs2" "list_all unmerged cs2"
    "map (run_op M data) cs2 = map2 map (map (\<lambda>c. project (kept refs c (length (columns (op_schema (cs ! c)))))) [0..<length cs]) (map (run_op M data) cs)"
proof -
  obtain cs1 where cs1: "project_children refs cs = Inr cs1" "length cs1 = length cs"
      "\<And>c. c < length cs \<Longrightarrow> projected_child refs c (cs ! c) (cs1 ! c)"
    using project_children_total [of refs cs] by blast
  have child: "\<exists>op'. EarlyProjection (cs1 ! c) = Inr op' \<and> same_plan (cs1 ! c) op' \<and> run_op M data op' = run_op M data (cs1 ! c)"
    if c: "c < length cs" for c
  proof -
    have "op_ok (cs ! c)" "unmerged (cs ! c)" using assms(1,2) c by (simp_all add: list_all_length)
    note k = projected_child_kept [OF cs1(3) [OF c] this]
    have "op_nodes (cs ! c) \<le> sum_list (map op_nodes cs)" using c by (intro member_le_sum_list) auto
    then show ?thesis using IH [of "cs1 ! c"] k(1-3) by simp
  qed
  then have "\<exists>y. EarlyProjection x = Inr y" if "x \<in> set cs1" for x using that cs1(2) by (auto simp: in_set_conv_nth)
  then obtain cs2 where cs2: "mapR EarlyProjection cs1 = Inr cs2" using mapR_total [of cs1 EarlyProjection] by blast
  then have all: "length cs2 = length cs1" "\<And>c. c < length cs1 \<Longrightarrow> EarlyProjection (cs1 ! c) = Inr (cs2 ! c)"
    by (auto simp: mapR_Inr list_all2_conv_all_nth)
  have each: "same_plan (cs1 ! c) (cs2 ! c)" "run_op M data (cs2 ! c) = run_op M data (cs1 ! c)" if "c < length cs" for c
    using child [OF that] all(2) [of c] cs1(2) that by auto
  have run: "run_op M data (cs2 ! c) = map (project (kept refs c (length (columns (op_schema (cs ! c)))))) (run_op M data (cs ! c))"
    if c: "c < length cs" for c
    using each(2) [OF c] projected_child_kept(4) [OF cs1(3) [OF c]] assms(1,2) c by (simp add: list_all_length)
  show thesis
  proof (rule that [OF cs1(1) cs2])
    show "projected refs cs cs1" using cs1(2,3) by (simp add: projected_def)
    show "map op_sigs cs2 = map op_sigs cs1" using each(1) all(1) cs1(2) by (intro nth_equalityI) (auto simp: same_plan_def)
    show "list_all op_ok cs2" "list_all unmerged cs2" using each(1) all(1) cs1(2) by (auto simp: list_all_length same_plan_def)
    show "map (run_op M data) cs2
        = map2 map (map (\<lambda>c. project (kept refs c (length (columns (op_schema (cs ! c)))))) [0..<length cs]) (map (run_op M data) cs)"
      using run all(1) cs1(2) by (intro nth_equalityI) auto
  qed
qed

lemma schema_refs_sub: "c \<in> set (columns s) \<Longrightarrow> set (GetReferencedColumns (sc_expr c)) \<subseteq> set (schema_refs s)"
  by (auto simp: schema_refs_def)

lemma map_schema_sigs [simp]: "schema_sigs (map_schema (RewriteColumnReferences m) s) = schema_sigs s"
  by (simp add: schema_sigs_def map_schema_def comp_def)

lemma projected_schema_ok:
  assumes "projected refs cs cs1" "schema_ok (map op_sigs cs) [] s" "set (schema_refs s) \<subseteq> set refs" "map op_sigs cs2 = map op_sigs cs1"
  shows "schema_ok (map op_sigs cs2) [] (map_schema (RewriteColumnReferences (children_map refs cs)) s)"
  using assms(2) projected_expr_ok [OF assms(1) _ _ assms(4)] schema_refs_sub [of _ s] assms(3)
  unfolding schema_ok_def list_all_iff map_schema_def by fastforce

lemma projected_output:
  assumes "schema_ok (map op_sigs cs) [] s" "set (schema_refs s) \<subseteq> set refs" "length rows = length cs"
  shows "output_row M (map_schema (RewriteColumnReferences (children_map refs cs)) s) (project_rows refs cs rows) virt = output_row M s rows virt"
proof -
  have "eval_expr M (project_rows refs cs rows) virt (RewriteColumnReferences (children_map refs cs) (sc_expr c)) = eval_expr M rows virt (sc_expr c)"
    if "c \<in> set (columns s)" for c
    by (rule projected_eval [OF _ _ assms(3)]) (use that assms(1,2) schema_refs_sub [OF that] in \<open>auto simp: schema_ok_def list_all_iff\<close>)
  then show ?thesis by (simp add: output_row_def map_schema_def)
qed

text \<open>An operator with one child.\<close>

lemma single_projected:
  fixes M :: "'v interp"
  assumes "op_ok child" "unmerged child"
    and IH: "\<And>op. op_nodes op \<le> op_nodes child \<Longrightarrow> op_ok op \<Longrightarrow> unmerged op \<Longrightarrow>
      \<exists>op'. EarlyProjection op = Inr op' \<and> same_plan op op' \<and> run_op M data op' = run_op M data op"
  obtains c1 c2 where "project_child refs 0 child = Inr c1" "EarlyProjection c1 = Inr c2" "projected refs [child] [c1]"
    "map op_sigs [c2] = map op_sigs [c1]" "op_ok c2" "unmerged c2"
    "run_op M data c2 = map (\<lambda>r. hd (project_rows refs [child] [r])) (run_op M data child)"
proof -
  obtain cs1 cs2 where cs: "project_children refs [child] = Inr cs1" "mapR EarlyProjection cs1 = Inr cs2" "projected refs [child] cs1"
      "map op_sigs cs2 = map op_sigs cs1" "list_all op_ok cs2" "list_all unmerged cs2"
      "map (run_op M data) cs2 = map2 map (map (\<lambda>c. project (kept refs c (length (columns (op_schema ([child] ! c)))))) [0..<length [child]]) (map (run_op M data) [child])"
    by (rule children_projected [of "[child]" M data refs]) (use assms IH in auto)
  obtain c1 where c1: "cs1 = [c1]" "project_child refs 0 child = Inr c1"
    using cs(1) unfolding single_child by (auto simp: bindR_Inr_iff)
  obtain c2 where c2: "cs2 = [c2]" "EarlyProjection c1 = Inr c2" using cs(2) by (auto simp: c1(1) bindR_Inr_iff)
  show thesis
    by (rule that [OF c1(2) c2(2)]) (use cs(3-7) in \<open>simp_all add: c1(1) c2(1) project_rows_def comp_def\<close>)
qed

lemma rewrite_aggregate:
  assumes "agg_ok sch e"
  obtains t n a x where "e = Expression t n (AggregateNode a) [x]"
    "RewriteColumnReferences m e = Expression t n (AggregateNode a) [RewriteColumnReferences m x]"
proof -
  obtain t n node cs where e: "e = Expression t n node cs" by (cases e)
  then obtain a where a: "node = AggregateNode a" using assms by (auto simp: agg_ok_def split: ExpressionNode.splits)
  have "\<exists>x. cs = [x]" using assms by (auto simp: agg_ok_def e a node_typed_def split: list.splits)
  then show thesis using that by (auto simp: e a)
qed

lemma filter_map_cong:
  assumes "\<And>x. x \<in> set xs \<Longrightarrow> P' (f x) = P x" "\<And>x. x \<in> set xs \<Longrightarrow> g' (f x) = g x"
  shows "map g' (filter P' (map f xs)) = map g (filter P xs)"
  using assms by (induction xs) simp_all

text \<open>What the pass does for a plan: it returns, and the plan stays well typed with the same rows.\<close>

definition keeps_result :: "'v interp \<Rightarrow> (CatalogTable \<Rightarrow> 'v list list) \<Rightarrow> Operator \<Rightarrow> bool" where
  "keeps_result M data op \<longleftrightarrow> (\<exists>op'. EarlyProjection op = Inr op' \<and> same_plan op op' \<and> run_op M data op' = run_op M data op)"

lemma project_select:
  assumes ok0: "op_ok (Operator s (SelectNode e) cs)" and unmerged: "list_all unmerged cs"
    and IH: "\<And>c. op_nodes c \<le> sum_list (map op_nodes cs) \<Longrightarrow> op_ok c \<Longrightarrow> unmerged c \<Longrightarrow> keeps_result M data c"
  shows "keeps_result M data (Operator s (SelectNode e) cs)"
proof -
  let ?op = "Operator s (SelectNode e) cs"
  have cs: "list_all op_ok cs" "list_all unmerged cs" using ok0 unmerged by simp_all
  note IH = IH [unfolded keeps_result_def]
  obtain c where c: "cs = [c]" using ok0 by (cases cs) auto
  have ok: "expr_ok (map op_sigs [c]) [] e" "schema_ok (map op_sigs [c]) [] s" using ok0 by (simp_all add: c)
  let ?refs = "schema_refs s @ GetReferencedColumns e"
  obtain c1 c2 where p: "project_child ?refs 0 c = Inr c1" "EarlyProjection c1 = Inr c2" "projected ?refs [c] [c1]"
      "map op_sigs [c2] = map op_sigs [c1]" "op_ok c2" "unmerged c2"
      "run_op M data c2 = map (\<lambda>r. hd (project_rows ?refs [c] [r])) (run_op M data c)"
    by (rule single_projected [of c M data ?refs]) (use cs IH in \<open>simp_all add: c\<close>)
  let ?m = "children_map ?refs [c]"
  let ?op' = "Operator (map_schema (RewriteColumnReferences ?m) s) (SelectNode (RewriteColumnReferences ?m e)) [c2]"
  have run: "EarlyProjection ?op = Inr ?op'" using p(1,2) by (simp add: c single_child Let_def)
  have "expr_ok (map op_sigs [c2]) [] (RewriteColumnReferences ?m e)"
    by (rule projected_expr_ok [OF p(3) ok(1) _ p(4)]) simp
  moreover have "schema_ok (map op_sigs [c2]) [] (map_schema (RewriteColumnReferences ?m) s)"
    by (rule projected_schema_ok [OF p(3) ok(2) _ p(4)]) simp
  ultimately have "same_plan ?op ?op'" using p(5,6) by (simp add: same_plan_def)
  moreover have one: "[hd (project_rows ?refs [c] [r])] = project_rows ?refs [c] [r]" for r by (simp add: project_rows_def)
  have "run_op M data ?op' = run_op M data ?op"
    unfolding c
    by (simp only: run_op.simps run_node_def OperatorNode.case list.map list.sel p(7), rule filter_map_cong, unfold one)
      (simp_all only: projected_eval [OF ok(1), of ?refs] projected_output [OF ok(2), of ?refs] set_append Un_upper1 Un_upper2 list.size)
  ultimately show ?thesis using run unfolding keeps_result_def by blast
qed

lemma project_join:
  assumes ok0: "op_ok (Operator s (SkinnerJoinNode conds prefix) cs)" and unmerged: "list_all unmerged cs"
    and IH: "\<And>c. op_nodes c \<le> sum_list (map op_nodes cs) \<Longrightarrow> op_ok c \<Longrightarrow> unmerged c \<Longrightarrow> keeps_result M data c"
  shows "keeps_result M data (Operator s (SkinnerJoinNode conds prefix) cs)"
proof -
  let ?op = "Operator s (SkinnerJoinNode conds prefix) cs"
  have cs: "list_all op_ok cs" "list_all unmerged cs" using ok0 unmerged by simp_all
  note IH = IH [unfolded keeps_result_def]
  have ok: "list_all (expr_ok (map op_sigs cs) []) conds" "schema_ok (map op_sigs cs) [] s"
    using ok0 by simp_all
  let ?refs = "schema_refs s @ concat (map GetReferencedColumns conds)"
  obtain cs1 cs2 where p: "project_children ?refs cs = Inr cs1" "mapR EarlyProjection cs1 = Inr cs2" "projected ?refs cs cs1"
      "map op_sigs cs2 = map op_sigs cs1" "list_all op_ok cs2" "list_all unmerged cs2"
      "map (run_op M data) cs2 = map2 map (map (\<lambda>c. project (kept ?refs c (length (columns (op_schema (cs ! c)))))) [0..<length cs]) (map (run_op M data) cs)"
    by (rule children_projected [OF cs, of M data ?refs]) (use IH in blast)
  let ?m = "children_map ?refs cs"
  let ?op' = "Operator (map_schema (RewriteColumnReferences ?m) s) (SkinnerJoinNode (map (RewriteColumnReferences ?m) conds) prefix) cs2"
  have run: "EarlyProjection ?op = Inr ?op'" using p(1,2) by (simp add: Let_def)
  have each: "expr_ok (map op_sigs cs) [] e" "set (GetReferencedColumns e) \<subseteq> set ?refs" if "e \<in> set conds" for e
    using that ok(1) by (auto simp: list_all_iff)
  have "list_all (expr_ok (map op_sigs cs2) []) (map (RewriteColumnReferences ?m) conds)"
    using projected_expr_ok [OF p(3) each p(4)] by (auto simp: list_all_iff)
  moreover have "schema_ok (map op_sigs cs2) [] (map_schema (RewriteColumnReferences ?m) s)"
    by (rule projected_schema_ok [OF p(3) ok(2) _ p(4)]) simp
  ultimately have "same_plan ?op ?op'" using p(5,6) by (simp add: same_plan_def)
  moreover have rows: "product_lists (map (run_op M data) cs2) = map (project_rows ?refs cs) (product_lists (map (run_op M data) cs))"
    unfolding p(7) by (subst product_lists_map) (simp_all add: project_rows_def [abs_def])
  have "run_op M data ?op' = run_op M data ?op"
    unfolding run_op.simps run_node_def OperatorNode.case rows
  proof (rule filter_map_cong)
    fix rs assume "rs \<in> set (product_lists (map (run_op M data) cs))"
    then have len: "length rs = length cs" by (auto dest: in_set_product_lists_length)
    show "(\<forall>c\<in>set (map (RewriteColumnReferences ?m) conds). holds M (project_rows ?refs cs rs) [] c) \<longleftrightarrow> (\<forall>c\<in>set conds. holds M rs [] c)"
      using projected_eval [OF each len] by simp
    show "output_row M (map_schema (RewriteColumnReferences ?m) s) (project_rows ?refs cs rs) [] = output_row M s rs []"
      by (rule projected_output [OF ok(2) _ len]) simp
  qed
  ultimately show ?thesis using run unfolding keeps_result_def by blast
qed

lemma project_aggregate:
  assumes ok0: "op_ok (Operator s (AggregateOpNode aggs) cs)" and unmerged: "list_all unmerged cs"
    and IH: "\<And>c. op_nodes c \<le> sum_list (map op_nodes cs) \<Longrightarrow> op_ok c \<Longrightarrow> unmerged c \<Longrightarrow> keeps_result M data c"
  shows "keeps_result M data (Operator s (AggregateOpNode aggs) cs)"
proof -
  let ?op = "Operator s (AggregateOpNode aggs) cs"
  have cs: "list_all op_ok cs" "list_all unmerged cs" using ok0 unmerged by simp_all
  note IH = IH [unfolded keeps_result_def]
  obtain c where c: "cs = [c]" using ok0 by (cases cs) auto
  have ok: "list_all (agg_ok (map op_sigs [c])) aggs" "schema_ok [] (map agg_sig aggs) s"
    using ok0 by (simp_all add: c)
  let ?refs = "concat (map GetReferencedColumns aggs)"
  obtain c1 c2 where p: "project_child ?refs 0 c = Inr c1" "EarlyProjection c1 = Inr c2" "projected ?refs [c] [c1]"
      "map op_sigs [c2] = map op_sigs [c1]" "op_ok c2" "unmerged c2"
      "run_op M data c2 = map (\<lambda>r. hd (project_rows ?refs [c] [r])) (run_op M data c)"
    by (rule single_projected [of c M data ?refs]) (use cs IH in \<open>simp_all add: c\<close>)
  let ?m = "children_map ?refs [c]"
  let ?op' = "Operator s (AggregateOpNode (map (RewriteColumnReferences ?m) aggs)) [c2]"
  have run: "EarlyProjection ?op = Inr ?op'" using p(1,2) by (simp add: c single_child Let_def)
  have one: "[hd (project_rows ?refs [c] [r])] = project_rows ?refs [c] [r]" for r by (simp add: project_rows_def)
  have agg: "agg_ok (map op_sigs [c2]) (RewriteColumnReferences ?m e)" "agg_sig (RewriteColumnReferences ?m e) = agg_sig e"
      "eval_aggregate M (run_op M data c2) (RewriteColumnReferences ?m e) = eval_aggregate M (run_op M data c) e" if e: "e \<in> set aggs" for e
  proof -
    have aok: "agg_ok (map op_sigs [c]) e" using ok(1) e by (simp add: list_all_iff)
    have refs: "set (GetReferencedColumns e) \<subseteq> set ?refs" using e by auto
    obtain t n a x where x: "e = Expression t n (AggregateNode a) [x]"
        "RewriteColumnReferences ?m e = Expression t n (AggregateNode a) [RewriteColumnReferences ?m x]"
      by (rule rewrite_aggregate [OF aok, of ?m])
    have xok: "expr_ok (map op_sigs [c]) [] x" "set (GetReferencedColumns x) \<subseteq> set ?refs" using aok refs by (simp_all add: x(1) agg_ok_def)
    have "expr_ok (map op_sigs [c2]) [] (RewriteColumnReferences ?m e)"
      by (rule projected_expr_ok [OF p(3) _ refs p(4)]) (use aok in \<open>simp add: agg_ok_def\<close>)
    then show "agg_ok (map op_sigs [c2]) (RewriteColumnReferences ?m e)" unfolding agg_ok_def x(2) by simp
    show "agg_sig (RewriteColumnReferences ?m e) = agg_sig e" unfolding x(2) by (simp add: x(1) agg_sig_def)
    have "eval_expr M [hd (project_rows ?refs [c] [r])] [] (RewriteColumnReferences ?m x) = eval_expr M [r] [] x" for r
      unfolding one by (rule projected_eval [OF xok]) simp
    then show "eval_aggregate M (run_op M data c2) (RewriteColumnReferences ?m e) = eval_aggregate M (run_op M data c) e"
      unfolding p(7) x(2) by (simp add: x(1) eval_aggregate_def comp_def)
  qed
  have sigs: "map agg_sig (map (RewriteColumnReferences ?m) aggs) = map agg_sig aggs" using agg(2) by simp
  have "same_plan ?op ?op'" using p(5,6) agg(1) ok(2) unfolding same_plan_def op_ok.simps OperatorNode.case sigs
    by (simp add: list_all_iff)
  moreover have "map (eval_aggregate M (run_op M data c2)) (map (RewriteColumnReferences ?m) aggs) = map (eval_aggregate M (run_op M data c)) aggs"
    using agg(3) by simp
  then have "run_op M data ?op' = run_op M data ?op"
    unfolding c run_op.simps run_node_def OperatorNode.case list.map list.sel by (simp only:)
  ultimately show ?thesis using run unfolding keeps_result_def by blast
qed

lemma project_output:
  assumes "op_ok (Operator s OutputNode cs)" "list_all unmerged cs"
    and IH: "\<And>c. op_nodes c \<le> sum_list (map op_nodes cs) \<Longrightarrow> op_ok c \<Longrightarrow> unmerged c \<Longrightarrow> keeps_result M data c"
  shows "keeps_result M data (Operator s OutputNode cs)"
proof -
  obtain c where c: "cs = [c]" "columns s = []" using assms(1) by (cases cs) auto
  obtain c' where "EarlyProjection c = Inr c'" "same_plan c c'" "run_op M data c' = run_op M data c"
    using IH [of c] assms by (auto simp: c(1) keeps_result_def)
  then show ?thesis using c by (simp add: same_plan_def keeps_result_def)
qed

lemma EarlyProjection_keeps:
  assumes "op_ok op" "unmerged op"
  shows "keeps_result M data op"
  using assms
proof (induction "op_nodes op" arbitrary: op rule: less_induct)
  case less
  obtain s node cs where op: "op = Operator s node cs" by (cases op)
  have cs: "list_all unmerged cs" using less.prems by (auto simp: op)
  have IH: "keeps_result M data c" if "op_nodes c \<le> sum_list (map op_nodes cs)" "op_ok c" "unmerged c" for c
    using less.hyps that by (simp add: op)
  note nodes = project_select [OF _ cs IH] project_join [OF _ cs IH] project_aggregate [OF _ cs IH] project_output [OF _ cs IH]
  show ?case
  proof (cases node)
    case (ScanNode t)
    then show ?thesis using less.prems by (simp add: op same_plan_def keeps_result_def)
  qed (use less.prems nodes in \<open>auto simp: op\<close>)
qed

lemmas EarlyProjection_ok = EarlyProjection_keeps [unfolded keeps_result_def]

end
