(* ===== verification/PlanCorrect.thy ===== *)
theory PlanCorrect
  imports PlanProjection
begin

text \<open>
  The rows of the plan for the tables and the condition of a statement are those of the cross product that satisfy the
  condition; merging filters with scans and dropping columns changes nothing that is printed.
\<close>

section \<open>Filters over scans\<close>

lemma map_schema_virtual:
  assumes "schema_ok [sig] [] s"
  shows "output_row M (map_schema RewriteColRefToVirtColRef s) [] v = output_row M s [v] []"
    "schema_ok [] sig (map_schema RewriteColRefToVirtColRef s)" "schema_sigs (map_schema RewriteColRefToVirtColRef s) = schema_sigs s"
  using assms eval_virtual [of sig] expr_ok_virtual [of sig]
  by (auto simp: output_row_def map_schema_def schema_ok_def schema_sigs_def list_all_iff comp_def)

lemma scan_select_ok:
  assumes "op_ok (Operator s (SelectNode e) [Operator scan_schema (ScanNode t) []])"
  defines "op \<equiv> ScanSelectOperator (map_schema RewriteColRefToVirtColRef s) scan_schema t (map RewriteColRefToVirtColRef (Decompose e))"
  shows "op_ok op" "op_sigs op = schema_sigs s"
    "interp_ok M \<Longrightarrow> run_op M data op = run_op M data (Operator s (SelectNode e) [Operator scan_schema (ScanNode t) []])"
proof -
  let ?sig = "schema_sigs scan_schema"
  have ok: "expr_ok [?sig] [] e" "schema_ok [?sig] [] s" "schema_ok [table_sigs t] [] scan_schema" using assms(1) by simp_all
  note v = map_schema_virtual [OF ok(2)]
  have filters: "expr_ok [] ?sig (RewriteColRefToVirtColRef f)"
      "eval_expr M [] r (RewriteColRefToVirtColRef f) = eval_expr M [r] [] f" if "f \<in> set (Decompose e)" for f r
    using that Decompose_ok [OF ok(1)] expr_ok_virtual [of ?sig f] eval_virtual [of ?sig f] by (auto simp: list_all_iff)
  show "op_ok op" using v(2) filters(1) ok(3) by (auto simp: op_def ScanSelectOperator_def list_all_iff)
  show "op_sigs op = schema_sigs s" using v(3) by (simp add: op_def ScanSelectOperator_def)
  assume "interp_ok M"
  then have "(\<forall>f\<in>set (map RewriteColRefToVirtColRef (Decompose e)). holds M [] r f) \<longleftrightarrow> holds M [r] [] e" for r
    using holds_Decompose [of M e "[r]" "[]"] filters(2) by simp
  then show "run_op M data op = run_op M data (Operator s (SelectNode e) [Operator scan_schema (ScanNode t) []])"
    by (simp add: op_def ScanSelectOperator_def run_node_def v(1))
qed

definition merges :: "OperatorNode \<Rightarrow> Operator list \<Rightarrow> bool" where
  "merges node cs \<longleftrightarrow> (\<exists>e scan_schema t gs. node = SelectNode e \<and> cs = [Operator scan_schema (ScanNode t) gs])"

lemma Adaptive_other:
  "\<not> merges node cs \<Longrightarrow> AdaptiveScanSelect (Operator s node cs) = Operator s node (map AdaptiveScanSelect cs)"
  by (auto simp: merges_def split: OperatorNode.split list.split Operator.split)

lemma Adaptive_ok:
  assumes "op_ok op"
  shows "op_ok (AdaptiveScanSelect op) \<and> op_sigs (AdaptiveScanSelect op) = op_sigs op
    \<and> (\<forall>M :: 'v interp. interp_ok M \<longrightarrow> run_op M data (AdaptiveScanSelect op) = run_op M data op)"
  using assms
proof (induction op)
  case (Operator s node cs)
  show ?case
  proof (cases "merges node cs")
    case True
    then obtain e scan_schema t gs where node: "node = SelectNode e" "cs = [Operator scan_schema (ScanNode t) gs]" by (auto simp: merges_def)
    have gs: "gs = []" using Operator.prems by (simp add: node)
    have ok: "op_ok (Operator s (SelectNode e) [Operator scan_schema (ScanNode t) []])" using Operator.prems by (simp add: node gs)
    have eq: "AdaptiveScanSelect (Operator s node cs)
        = ScanSelectOperator (map_schema RewriteColRefToVirtColRef s) scan_schema t (map RewriteColRefToVirtColRef (Decompose e))"
      by (simp add: node gs)
    show ?thesis unfolding eq unfolding node gs
      using scan_select_ok(1,2) [OF ok] scan_select_ok(3) [OF ok, where data = data] by (simp only: Operator.sel simp_thms) blast
  next
    case False
    have cs: "list_all op_ok cs" using Operator.prems by simp
    have IH: "op_ok (AdaptiveScanSelect c)" "op_sigs (AdaptiveScanSelect c) = op_sigs c"
        "interp_ok M \<Longrightarrow> run_op M data (AdaptiveScanSelect c) = run_op M data c" if "c \<in> set cs" for c and M :: "'v interp"
      using Operator.IH [OF that] cs that by (auto simp: list_all_iff)
    have sigs: "map op_sigs (map AdaptiveScanSelect cs) = map op_sigs cs" using IH(2) by simp
    have "op_ok (Operator s node (map AdaptiveScanSelect cs))"
      using Operator.prems IH(1) unfolding op_ok.simps sigs by (auto simp: list_all_iff split: OperatorNode.splits)
    moreover have "map (run_op M data) (map AdaptiveScanSelect cs) = map (run_op M data) cs" if "interp_ok M" for M :: "'v interp"
      using IH(3) [OF _ that] by simp
    ultimately show ?thesis unfolding Adaptive_other [OF False] run_op.simps Operator.sel
      by (intro conjI allI impI) (simp_all only: refl)
  qed
qed

section \<open>Conjuncts and the tables they are about\<close>

lemma split_step_one:
  assumes "split_step (u0, j0) e = Inr st" "GetReferencedChildren e = [c]"
  shows "c < length u0" "st = (u0[c := u0 ! c @ [e]], j0)"
  using assms by (auto simp: split_step_def bindR_Inr_iff nthR_Inr_iff)

lemma split_step_other:
  assumes "split_step (u0, j0) e = Inr st" "\<nexists>c. GetReferencedChildren e = [c]"
  shows "st = (u0, j0 @ [e])"
  using assms by (auto simp: split_step_def split: list.splits)

lemma split_preds_eq:
  assumes "foldR split_step (u0, j0) es = Inr (u, j)"
  shows "length u = length u0 \<and> (\<forall>c<length u0. u ! c = u0 ! c @ filter (\<lambda>e. GetReferencedChildren e = [c]) es)
    \<and> j = j0 @ filter (\<lambda>e. \<nexists>c. GetReferencedChildren e = [c]) es
    \<and> (\<forall>e\<in>set es. \<forall>c. GetReferencedChildren e = [c] \<longrightarrow> c < length u0)"
  using assms
proof (induction es arbitrary: u0 j0)
  case (Cons e es)
  then obtain st where st: "split_step (u0, j0) e = Inr st" "foldR split_step st es = Inr (u, j)" by (auto simp: bindR_Inr_iff)
  show ?case
  proof (cases "\<exists>c. GetReferencedChildren e = [c]")
    case True
    then obtain c where c: "GetReferencedChildren e = [c]" by blast
    note one = split_step_one [OF st(1) c]
    from Cons.IH [OF st(2) [unfolded one(2)]] c one(1) show ?thesis by (auto simp: nth_list_update)
  next
    case False
    from Cons.IH [OF st(2) [unfolded split_step_other [OF st(1) False]]] False show ?thesis by auto
  qed
qed simp

lemma combine_preds_holds:
  assumes "combine_preds preds = Inr f" "preds \<noteq> []" "interp_ok M"
  shows "holds M rows virt f \<longleftrightarrow> (\<forall>p\<in>set preds. holds M rows virt p)"
proof -
  have "holds M rows virt f' \<longleftrightarrow> holds M rows virt f0 \<and> (\<forall>p\<in>set ps. holds M rows virt p)"
    if "foldR (\<lambda>f p. BinaryArithmeticExpression BAnd p f) f0 ps = Inr f'" for f0 ps f'
    using that
  proof (induction ps arbitrary: f0)
    case (Cons p ps)
    then obtain f1 where f1: "BinaryArithmeticExpression BAnd p f0 = Inr f1" "foldR (\<lambda>f p. BinaryArithmeticExpression BAnd p f) f1 ps = Inr f'"
      by (auto simp: bindR_Inr_iff)
    have "holds M rows virt f1 \<longleftrightarrow> holds M rows virt p \<and> holds M rows virt f0"
      using f1(1) assms(3) by (auto simp: BinaryArithmeticExpression_def bindR_Inr_iff interp_ok_def)
    then show ?case using Cons.IH [OF f1(2)] by auto
  qed simp
  from this [OF assms(1) [unfolded combine_preds_def]] have "holds M rows virt f \<longleftrightarrow> (\<forall>p\<in>set (butlast preds @ [last preds]). holds M rows virt p)"
    by auto
  then show ?thesis using assms(2) by simp
qed

lemma combine_preds_refs:
  assumes "combine_preds preds = Inr f" "preds \<noteq> []" "\<And>p. p \<in> set preds \<Longrightarrow> refs_only c p"
  shows "refs_only c f"
  using assms(1) unfolding combine_preds_def
proof (rule foldR_invariant)
  show "refs_only c (last preds)" using assms(2,3) by simp
  fix f p f' assume p: "p \<in> set (rev (butlast preds))" "refs_only c f" "BinaryArithmeticExpression BAnd p f = Inr f'"
  then have "refs_only c p" using assms(3) in_set_butlastD [of p preds] by simp
  then show "refs_only c f'" using BinaryArithmeticExpression_refs [OF p(3)] p(2) by (simp add: refs_only_def image_Un)
qed

text \<open>A condition on one table can be evaluated on its row alone.\<close>

lemma eval_one_table:
  assumes "refs_only c e"
  shows "eval_expr M [r] virt (RewriteColumnReferences (map (\<lambda>ref. (ref, (0, snd ref))) (GetReferencedColumns e)) e)
    = eval_expr M ((replicate c []) @ [r]) virt e"
proof (rule eval_rewrite)
  fix c' i assume ref: "(c', i) \<in> set (GetReferencedColumns e)"
  have "c' = c" using assms imageI [OF ref, of fst] by (simp add: refs_only_def)
  then show "[r] ! fst (rewritten (map (\<lambda>ref. (ref, (0, snd ref))) (GetReferencedColumns e)) (c', i))
      ! snd (rewritten (map (\<lambda>ref. (ref, (0, snd ref))) (GetReferencedColumns e)) (c', i)) = (replicate c [] @ [r]) ! c' ! i"
    using rewrite_to_child [OF ref] by (simp add: nth_append)
qed

lemma eval_only:
  assumes "refs_only c e" "rows ! c = rows' ! c"
  shows "eval_expr M rows virt e = eval_expr M rows' virt e"
proof -
  have "RewriteColumnReferences [] e = e" by (induction e) (simp add: map_idI split: ExpressionNode.splits)
  moreover have "rows ! fst (rewritten [] (c', i)) ! snd (rewritten [] (c', i)) = rows' ! c' ! i" if "(c', i) \<in> set (GetReferencedColumns e)" for c' i
    using assms imageI [OF that, of fst] by (simp add: rewritten_def refs_only_def)
  ultimately show ?thesis using eval_rewrite [of e rows "[]" rows' M virt] by simp
qed

section \<open>The rows of the tables and the condition\<close>

text \<open>A stored row has one value per column of its table.\<close>

definition rows_ok :: "(CatalogTable \<Rightarrow> 'v list list) \<Rightarrow> CatalogTable \<Rightarrow> bool" where
  "rows_ok data t \<longleftrightarrow> (\<forall>r\<in>set (data t). length r = length (TableColumns t))"

lemma output_passthrough:
  assumes "c < length rows" "length (rows ! c) = length cols"
  shows "map (\<lambda>col. eval_expr M rows virt (sc_expr col)) (passthrough cols c) = rows ! c"
  using assms by (auto simp: passthrough_def ColumnRefExpression_def intro: nth_equalityI)

lemma base_scan_columns: "length (columns (op_schema (base_scan t))) = length (TableColumns t)"
  by (simp add: base_scan_def ScanOperator_def columns_AddGeneratedColumns)

lemma run_base_scan:
  assumes "rows_ok data t" shows "run_op M data (base_scan t) = data t"
proof -
  have "output_row M (AddGeneratedColumns t OperatorSchemaNew) [r] [] = r" if "r \<in> set (data t)" for r
    using assms that by (auto simp: rows_ok_def output_row_def columns_AddGeneratedColumns ColumnRefExpression_def intro: nth_equalityI)
  then show ?thesis by (simp add: base_scan_def ScanOperator_def run_node_def map_idI)
qed

lemma run_filter_table:
  assumes "filter_table (base_scan t) preds = Inr op" "\<And>p. p \<in> set preds \<Longrightarrow> refs_only c p" "rows_ok data t" "interp_ok M"
  shows "run_op M data op = filter (\<lambda>r. \<forall>p\<in>set preds. holds M (replicate c [] @ [r]) [] p) (data t)"
    "length (columns (op_schema op)) = length (TableColumns t)"
proof -
  have both: "run_op M data op = filter (\<lambda>r. \<forall>p\<in>set preds. holds M (replicate c [] @ [r]) [] p) (data t)
      \<and> length (columns (op_schema op)) = length (TableColumns t)"
  proof (cases "preds = []")
    case True
    then have "op = base_scan t" using assms(1) by (simp add: filter_table_def)
    then show ?thesis using run_base_scan [OF assms(3), of M] True base_scan_columns by simp
  next
    case False
    let ?s = "AddPassthroughColumns (op_schema (base_scan t)) 0 OperatorSchemaNew"
    obtain f where f: "combine_preds preds = Inr f" and op: "op = SelectOperator ?s (base_scan t)
        (RewriteColumnReferences (map (\<lambda>ref. (ref, (0, snd ref))) (GetReferencedColumns f)) f)"
      using assms(1) False by (auto simp: filter_table_def bindR_Inr_iff Let_def)
    have only: "refs_only c f" by (rule combine_preds_refs [OF f False assms(2)])
    have cols: "columns ?s = passthrough (columns (op_schema (base_scan t))) 0"
      by (simp add: columns_AddPassthroughColumns OperatorSchemaNew_def)
    have out: "output_row M ?s [r] [] = r" if "r \<in> set (data t)" for r
      using output_passthrough [of 0 "[r]" "columns (op_schema (base_scan t))" M "[]"] assms(3) that
      by (simp add: output_row_def cols rows_ok_def base_scan_columns)
    have "run_op M data op = filter (\<lambda>r. holds M (replicate c [] @ [r]) [] f) (data t)"
      using out run_base_scan [OF assms(3), of M] eval_one_table [OF only, of M] by (auto simp: op SelectOperator_def run_node_def intro!: map_idI)
    then show ?thesis using combine_preds_holds [OF f False assms(4)] base_scan_columns [of t] by (simp add: op SelectOperator_def cols passthrough_def)
  qed
  then show "run_op M data op = filter (\<lambda>r. \<forall>p\<in>set preds. holds M (replicate c [] @ [r]) [] p) (data t)"
    "length (columns (op_schema op)) = length (TableColumns t)" by simp_all
qed

lemma product_lists_filter:
  assumes "length Ps = length xss"
  shows "product_lists (map2 filter Ps xss) = filter (list_all2 (\<lambda>P x. P x) Ps) (product_lists xss)"
  using assms
proof (induction Ps xss rule: list_induct2)
  case (Cons P Ps xs xss)
  have "concat (map (\<lambda>x. map ((#) x) (filter (list_all2 (\<lambda>P x. P x) Ps) ys)) (filter P xs))
      = filter (list_all2 (\<lambda>P x. P x) (P # Ps)) (concat (map (\<lambda>x. map ((#) x) ys) xs))" for ys
    by (induction xs) (auto simp: filter_map comp_def)
  then show ?case using Cons.IH by simp
qed simp

lemma conjuncts_of_tables:
  assumes "foldR split_step (replicate n [], []) es = Inr (u, j)" "length rows = n"
  shows "(\<forall>p\<in>set j. holds M rows [] p)
      \<and> list_all2 (\<lambda>P x. P x) (map (\<lambda>c r. \<forall>p\<in>set (u ! c). holds M (replicate c [] @ [r]) [] p) [0..<n]) rows
    \<longleftrightarrow> (\<forall>p\<in>set es. holds M rows [] p)"
proof -
  note sp = split_preds_eq [OF assms(1)]
  have one: "holds M (replicate c [] @ [rows ! c]) [] p \<longleftrightarrow> holds M rows [] p" if "GetReferencedChildren p = [c]" for c p
    using eval_only [OF referenced_child [OF that], of "replicate c [] @ [rows ! c]" rows M] by (simp add: nth_append)
  have u: "u ! c = filter (\<lambda>e. GetReferencedChildren e = [c]) es" if "c < n" for c using sp that by simp
  have "list_all2 (\<lambda>P x. P x) (map (\<lambda>c r. \<forall>p\<in>set (u ! c). holds M (replicate c [] @ [r]) [] p) [0..<n]) rows
      \<longleftrightarrow> (\<forall>c<n. \<forall>p\<in>set es. GetReferencedChildren p = [c] \<longrightarrow> holds M rows [] p)"
    using assms(2) u one by (auto simp: list_all2_conv_all_nth)
  moreover have "set j = {e \<in> set es. \<nexists>c. GetReferencedChildren e = [c]}" using sp by simp
  moreover have "(\<exists>c<n. GetReferencedChildren p = [c]) \<or> (\<nexists>c. GetReferencedChildren p = [c])" if "p \<in> set es" for p
    using sp that by auto
  ultimately show ?thesis by blast
qed

lemma run_filter_tables:
  assumes "filter_tables (map base_scan ts) u = Inr ops" "foldR split_step (replicate (length ts) [], []) es = Inr (u, j)"
    "\<forall>t\<in>set ts. rows_ok data t" "interp_ok M"
  shows "map (run_op M data) ops
      = map2 filter (map (\<lambda>c r. \<forall>p\<in>set (u ! c). holds M (replicate c [] @ [r]) [] p) [0..<length ts]) (map data ts)"
    "length ops = length ts" "\<And>c. c < length ts \<Longrightarrow> length (columns (op_schema (ops ! c))) = length (TableColumns (ts ! c))"
proof -
  note n = filter_tables_nth [OF assms(1)]
  show len: "length ops = length ts" using n(1) by simp
  have each: "run_op M data (ops ! c) = filter (\<lambda>r. \<forall>p\<in>set (u ! c). holds M (replicate c [] @ [r]) [] p) (data (ts ! c))"
      "length (columns (op_schema (ops ! c))) = length (TableColumns (ts ! c))" if c: "c < length ts" for c
  proof -
    have f: "filter_table (base_scan (ts ! c)) (u ! c) = Inr (ops ! c)" using n(2) [of c] c by simp
    have refs: "refs_only c p" if "p \<in> set (u ! c)" for p
      using split_preds_eq [OF assms(2)] c that by (auto intro: referenced_child)
    have "rows_ok data (ts ! c)" using assms(3) c by simp
    from run_filter_table [OF f refs this assms(4)]
    show "run_op M data (ops ! c) = filter (\<lambda>r. \<forall>p\<in>set (u ! c). holds M (replicate c [] @ [r]) [] p) (data (ts ! c))"
      "length (columns (op_schema (ops ! c))) = length (TableColumns (ts ! c))" by simp_all
  qed
  show "length (columns (op_schema (ops ! c))) = length (TableColumns (ts ! c))" if "c < length ts" for c by (rule each(2) [OF that])
  show "map (run_op M data) ops
      = map2 filter (map (\<lambda>c r. \<forall>p\<in>set (u ! c). holds M (replicate c [] @ [r]) [] p) [0..<length ts]) (map data ts)"
    using each(1) len by (intro nth_equalityI) auto
qed

lemma join_output:
  assumes "length rows = length ops" "\<And>c. c < length ops \<Longrightarrow> length (rows ! c) = length (columns (op_schema (ops ! c)))"
  shows "output_row M (foldl (\<lambda>s (i, op). AddPassthroughColumns (op_schema op) i s) OperatorSchemaNew (zip [0..<length ops] ops)) rows [] = concat rows"
proof -
  have "map (\<lambda>c. map (\<lambda>col. eval_expr M rows [] (sc_expr col)) (passthrough (columns (op_schema (ops ! c))) c)) [0..<length ops] = rows"
    using output_passthrough [of _ rows _ M "[]"] assms by (intro nth_equalityI) simp_all
  then show ?thesis by (simp add: output_row_def join_columns OperatorSchemaNew_def zip_upt map_concat comp_def)
qed

lemma product_row_ok:
  assumes "rows \<in> set (product_lists (map data ts))" "\<forall>t\<in>set ts. rows_ok data t"
  shows "length rows = length ts" "c < length ts \<Longrightarrow> length (rows ! c) = length (TableColumns (ts ! c))"
  using assms by (auto simp: product_lists_set list_all2_conv_all_nth rows_ok_def)

lemma run_join:
  assumes "filter_tables (map base_scan ts) u = Inr ops" "foldR split_step (replicate (length ts) [], []) es = Inr (u, j)"
    "\<forall>t\<in>set ts. rows_ok data t" "interp_ok M" "length ts = 1 \<Longrightarrow> j = []"
  shows "run_op M data (join_tables ops j) = map concat (filter (\<lambda>rows. \<forall>p\<in>set es. holds M rows [] p) (product_lists (map data ts)))"
proof -
  note r = run_filter_tables [OF assms(1-4)]
  let ?U = "map (\<lambda>c r. \<forall>p\<in>set (u ! c). holds M (replicate c [] @ [r]) [] p) [0..<length ts]"
  have prod: "product_lists (map (run_op M data) ops) = filter (list_all2 (\<lambda>P x. P x) ?U) (product_lists (map data ts))"
    unfolding r(1) by (rule product_lists_filter) simp
  have both: "filter (\<lambda>rows. \<forall>p\<in>set j. holds M rows [] p) (product_lists (map (run_op M data) ops))
      = filter (\<lambda>rows. \<forall>p\<in>set es. holds M rows [] p) (product_lists (map data ts))"
    unfolding prod filter_filter
    by (rule filter_cong [OF refl]) (use conjuncts_of_tables [OF assms(2), of _ M] product_row_ok(1) [OF _ assms(3)] in auto)
  show ?thesis
  proof (cases "length ops = 1")
    case True
    then obtain op where op: "ops = [op]" by (cases ops) auto
    have "map concat (product_lists [run_op M data op]) = run_op M data op" by (simp add: comp_def)
    then show ?thesis using arg_cong [OF both, of "map concat"] assms(5) r(2) True by (simp add: op join_tables_def)
  next
    case False
    have "output_row M (foldl (\<lambda>s (i, op). AddPassthroughColumns (op_schema op) i s) OperatorSchemaNew (zip [0..<length ops] ops)) rows [] = concat rows"
      if "rows \<in> set (product_lists (map data ts))" for rows
      by (rule join_output) (use product_row_ok [OF that assms(3)] r(2,3) in auto)
    then show ?thesis using both False by (simp add: join_tables_def SkinnerJoinOperator_def run_node_def)
  qed
qed

end
