(* ===== verification/PlanRemap.thy ===== *)
theory PlanRemap
  imports PlanCorrect
begin

text \<open>
  After the join a column is found at its position in the joined row. Planning an expression with the moved columns
  gives the expression planned with the original ones, its references moved.
\<close>

abbreviation mapE :: "('a \<Rightarrow> 'b) \<Rightarrow> 'a res \<Rightarrow> 'b res" where
  "mapE f \<equiv> map_sum (\<lambda>e. e) f"

lemma bindR_mapE [simp]: "bindR (mapE f m) g = bindR m (\<lambda>x. g (f x))"
  by (cases m) simp_all

lemma mapE_bindR [simp]: "mapE f (bindR m g) = bindR m (\<lambda>x. mapE f (g x))"
  by (cases m) simp_all

lemma bindR_mapE_cong: "(\<And>x. m = Inr x \<Longrightarrow> f x = g x) \<Longrightarrow> bindR m f = bindR m g"
  by (cases m) simp_all

section \<open>Moved references commute with the constructors\<close>

lemma rewrite_sig [simp]:
  "expr_type (RewriteColumnReferences m e) = expr_type e" "expr_nullable (RewriteColumnReferences m e) = expr_nullable e"
  by (cases e; simp split: ExpressionNode.split option.split)+

lemma rewrite_literal: "expr_node (RewriteColumnReferences m e) = LiteralNode v null \<longleftrightarrow> expr_node e = LiteralNode v null"
  by (cases e) (simp split: ExpressionNode.split option.split)

lemma rewrite_nonliteral: "(\<nexists>v null. expr_node e = LiteralNode v null) \<Longrightarrow> (\<nexists>v null. expr_node (RewriteColumnReferences m e) = LiteralNode v null)"
  by (simp add: rewrite_literal)

lemma rewrite_constructors:
  "BinaryArithmeticExpression op (RewriteColumnReferences m l) (RewriteColumnReferences m r) = mapE (RewriteColumnReferences m) (BinaryArithmeticExpression op l r)"
  "UnaryArithmeticExpression uop (RewriteColumnReferences m l) = mapE (RewriteColumnReferences m) (UnaryArithmeticExpression uop l)"
  "RegexpMatchingExpression (RewriteColumnReferences m l) re = mapE (RewriteColumnReferences m) (RegexpMatchingExpression l re)"
  "AggregateExpression agg (RewriteColumnReferences m l) = mapE (RewriteColumnReferences m) (AggregateExpression agg l)"
  "EnumInExpression (RewriteColumnReferences m l) vs = mapE (RewriteColumnReferences m) (EnumInExpression l vs)"
  by (simp_all add: BinaryArithmeticExpression_def UnaryArithmeticExpression_def RegexpMatchingExpression_def AggregateExpression_def EnumInExpression_def)

lemma rewrite_leaves [simp]:
  "RewriteColumnReferences m (LiteralString s) = LiteralString s" "RewriteColumnReferences m (LiteralBool b) = LiteralBool b"
  "RewriteColumnReferences m (PlanLiteral lit) = PlanLiteral lit"
  by (simp_all add: LiteralString_def LiteralBool_def)
    (cases lit; simp add: LiteralInt16_def LiteralInt32_def LiteralInt64_def LiteralDouble_def LiteralString_def LiteralBool_def)

lemma rewrite_enum: "LiteralEnum get_value i key = Inr e \<Longrightarrow> RewriteColumnReferences m e = e"
  by (auto simp: LiteralEnum_def bindR_Inr_iff)

lemma rewrite_BinaryEnum:
  "bindR (LiteralEnum get_value i key) (\<lambda>r. BinaryArithmeticExpression op (RewriteColumnReferences m l) r)
     = bindR (LiteralEnum get_value i key) (\<lambda>r. mapE (RewriteColumnReferences m) (BinaryArithmeticExpression op l r))"
proof (rule bindR_mapE_cong)
  fix r assume "LiteralEnum get_value i key = Inr r"
  then show "BinaryArithmeticExpression op (RewriteColumnReferences m l) r = mapE (RewriteColumnReferences m) (BinaryArithmeticExpression op l r)"
    using rewrite_constructors(1) [of op m l r] by (simp add: rewrite_enum)
qed

lemma rewrite_equality:
  "plan_equality get_value op (RewriteColumnReferences m l) (RewriteColumnReferences m r) = mapE (RewriteColumnReferences m) (plan_equality get_value op l r)"
proof (cases "\<exists>v null. expr_node r = LiteralNode v null")
  case True
  then obtain v null where lit: "expr_node r = LiteralNode v null" by blast
  then have "expr_node (RewriteColumnReferences m r) = LiteralNode v null" by (simp add: rewrite_literal)
  with lit show ?thesis by (simp add: plan_equality_def rewrite_constructors(1) rewrite_BinaryEnum)
next
  case False
  have "plan_equality get_value op l' r' = BinaryArithmeticExpression op l' r'" if "\<nexists>v null. expr_node r' = LiteralNode v null" for l' r'
    using that by (auto simp: plan_equality_def split: ExpressionNode.split)
  from this [OF False] this [OF rewrite_nonliteral [OF False]] show ?thesis by (simp add: rewrite_constructors(1))
qed

lemma rewrite_like:
  "PlanLike (mapE (RewriteColumnReferences m) l) = (\<lambda>match. mapE (RewriteColumnReferences m) (PlanLike l match))"
  using rewrite_constructors(1) [of _ m _ "LiteralString _"] by (intro ext) (simp add: PlanLike_def rewrite_constructors(3))

lemma literal_case:
  "(case expr_node (RewriteColumnReferences m r) of LiteralNode v null \<Rightarrow> f v null | _ \<Rightarrow> g) = (case expr_node r of LiteralNode v null \<Rightarrow> f v null | _ \<Rightarrow> g)"
proof (cases "\<exists>v null. expr_node r = LiteralNode v null")
  case True
  then obtain v null where lit: "expr_node r = LiteralNode v null" by blast
  then have "expr_node (RewriteColumnReferences m r) = LiteralNode v null" by (simp add: rewrite_literal)
  with lit show ?thesis by simp
next
  case False
  have "(case expr_node e of LiteralNode v null \<Rightarrow> f v null | _ \<Rightarrow> g) = g" if "\<nexists>v null. expr_node e = LiteralNode v null" for e
    using that by (auto split: ExpressionNode.split)
  from this [OF False] this [OF rewrite_nonliteral [OF False]] show ?thesis by simp
qed

lemma rewrite_enum_loop:
  "enum_in_loop get_value i (map (mapE (RewriteColumnReferences m)) xs) vs = enum_in_loop get_value i xs vs"
proof (induction xs arbitrary: vs)
  case (Cons x xs)
  show ?case unfolding list.map enum_in_loop.simps bindR_mapE literal_case rewrite_sig Cons.IH ..
qed simp

lemma rewrite_in_loop:
  "foldR (in_step get_value (RewriteColumnReferences m b)) (map_option (RewriteColumnReferences m) acc) (map (mapE (RewriteColumnReferences m)) xs)
     = mapE (map_option (RewriteColumnReferences m)) (foldR (in_step get_value b) acc xs)"
proof (induction xs arbitrary: acc)
  case (Cons x xs)
  have "in_step get_value (RewriteColumnReferences m b) (map_option (RewriteColumnReferences m) acc) (mapE (RewriteColumnReferences m) x)
      = mapE (map_option (RewriteColumnReferences m)) (in_step get_value b acc x)"
    by (cases acc) (simp_all add: in_step_def rewrite_equality rewrite_constructors(1))
  then show ?case using Cons.IH by simp
qed simp

lemma rewrite_in:
  "PlanIn get_value (mapE (RewriteColumnReferences m) b) (map (mapE (RewriteColumnReferences m)) xs) = mapE (RewriteColumnReferences m) (PlanIn get_value b xs)"
proof (cases b)
  case (Inr e)
  note loop = rewrite_in_loop [of get_value m e None xs, simplified]
  have "bindR (foldR (in_step get_value (RewriteColumnReferences m e)) None (map (mapE (RewriteColumnReferences m)) xs)) (\<lambda>r. case r of None \<Rightarrow> Inl Undefined | Some e \<Rightarrow> Inr e)
      = mapE (RewriteColumnReferences m) (bindR (foldR (in_step get_value e) None xs) (\<lambda>r. case r of None \<Rightarrow> Inl Undefined | Some e \<Rightarrow> Inr e))"
    unfolding loop by (simp only: bindR_mapE mapE_bindR) (rule bindR_mapE_cong, simp split: option.split)
  moreover have "bindR l (\<lambda>vs. case vs of Some vs \<Rightarrow> if vs = [] then Inr (LiteralBool False) else EnumInExpression (RewriteColumnReferences m e) vs | None \<Rightarrow> mapE (RewriteColumnReferences m) z)
      = mapE (RewriteColumnReferences m) (bindR l (\<lambda>vs. case vs of Some vs \<Rightarrow> if vs = [] then Inr (LiteralBool False) else EnumInExpression e vs | None \<Rightarrow> z))"
    for l z
    unfolding mapE_bindR by (rule bindR_mapE_cong) (simp add: rewrite_constructors(5) split: option.split)
  ultimately show ?thesis unfolding Inr
    by (simp only: PlanIn_def bindR_simps map_sum.simps rewrite_sig rewrite_enum_loop)
qed (simp add: PlanIn_def)

section \<open>Columns at their positions\<close>

definition moves :: "((nat \<times> nat) \<times> nat) list \<Rightarrow> ((nat \<times> nat) \<times> (nat \<times> nat)) list" where
  "moves positions = map (\<lambda>(ref, p). (ref, (0, p))) positions"

lemma moves_lookup: "map_of (moves positions) ref = map_option (Pair 0) (map_of positions ref)"
  by (induction positions) (auto simp: moves_def)

lemma remap_infos_mapR:
  "remap_infos positions infos = mapR (\<lambda>(key, v). bindR (atR (map_of positions) (ci_child_idx v, ci_col_idx v))
     (\<lambda>p. Inr (key, v\<lparr>ci_col_idx := p, ci_child_idx := 0\<rparr>))) infos"
  unfolding remap_infos_def mapR_def by (rule arg_cong [where f = "\<lambda>f. foldR f [] infos"], intro ext) (simp add: bindR_assoc split: prod.split)

lemma remap_lookup:
  assumes "remap_infos positions infos = Inr infos'"
  shows "case map_of infos key of
      None \<Rightarrow> map_of infos' key = None
    | Some v \<Rightarrow> \<exists>p. map_of positions (ci_child_idx v, ci_col_idx v) = Some p \<and> map_of infos' key = Some (v\<lparr>ci_col_idx := p, ci_child_idx := 0\<rparr>)"
  using assms unfolding remap_infos_mapR
proof (induction infos arbitrary: infos')
  case (Cons kv infos)
  obtain k v where kv: "kv = (k, v)" by (cases kv)
  from Cons.prems obtain p rest where p: "map_of positions (ci_child_idx v, ci_col_idx v) = Some p"
      "infos' = (k, v\<lparr>ci_col_idx := p, ci_child_idx := 0\<rparr>) # rest"
      "mapR (\<lambda>(key, v). bindR (atR (map_of positions) (ci_child_idx v, ci_col_idx v)) (\<lambda>p. Inr (key, v\<lparr>ci_col_idx := p, ci_child_idx := 0\<rparr>))) infos = Inr rest"
    by (auto simp: kv bindR_Inr_iff atR_Inr_iff)
  from Cons.IH [OF p(3)] p(1) show ?case by (auto simp: p(2) kv split: option.splits)
qed simp

lemma rewrite_column:
  assumes "remap_infos positions infos = Inr infos'"
  shows "PlanColumnRef infos' column table = mapE (RewriteColumnReferences (moves positions)) (PlanColumnRef infos column table)"
proof (cases "map_of infos (table, column)")
  case None
  then show ?thesis using remap_lookup [OF assms, of "(table, column)"] by (simp add: PlanColumnRef_def atR_def)
next
  case (Some v)
  then obtain p where "map_of positions (ci_child_idx v, ci_col_idx v) = Some p" "map_of infos' (table, column) = Some (v\<lparr>ci_col_idx := p, ci_child_idx := 0\<rparr>)"
    using remap_lookup [OF assms, of "(table, column)"] by auto
  then show ?thesis using Some by (simp add: PlanColumnRef_def atR_def ColumnRefExpression_def moves_lookup)
qed

lemma PlanExpr_remap:
  assumes "remap_infos positions infos = Inr infos'"
  shows "PlanExpr get_value infos' p = mapE (RewriteColumnReferences (moves positions)) (PlanExpr get_value infos p)"
proof (induction p)
  case (PBinary op l r)
  note c = rewrite_constructors(1) rewrite_equality rewrite_like
  show ?case unfolding PlanExpr.simps PBinary.IH PlanBinary_def Let_def
    by (cases op) (simp_all add: c split: ParseExpression.split)
next
  case (PIn base cases)
  have "map (PlanExpr get_value infos') cases = map (mapE (RewriteColumnReferences (moves positions))) (map (PlanExpr get_value infos) cases)"
    using PIn.IH(2) by simp
  then show ?case unfolding PlanExpr.simps PIn.IH(1) by (simp only: rewrite_in)
qed (use rewrite_column [OF assms] in \<open>simp_all add: rewrite_constructors split: option.split\<close>)

section \<open>Values in the joined row\<close>

lemma joined_position:
  assumes "map_of (output_positions ops) (c, i) = Some p" "map length rows = map (\<lambda>op. length (columns (op_schema op))) ops"
  shows "concat rows ! p = rows ! c ! i"
  using output_position [OF assms(1)] concat_keys [of rows] by (simp add: assms(2))

lemma eval_joined:
  assumes "\<And>ref. ref \<in> set (GetReferencedColumns e) \<Longrightarrow> map_of (output_positions ops) ref \<noteq> None"
    "map length rows = map (\<lambda>op. length (columns (op_schema op))) ops"
  shows "eval_expr M [concat rows] virt (RewriteColumnReferences (moves (output_positions ops)) e) = eval_expr M rows virt e"
proof (rule eval_rewrite)
  fix c i assume "(c, i) \<in> set (GetReferencedColumns e)"
  then obtain p where p: "map_of (output_positions ops) (c, i) = Some p" using assms(1) by fastforce
  then show "[concat rows] ! fst (rewritten (moves (output_positions ops)) (c, i)) ! snd (rewritten (moves (output_positions ops)) (c, i)) = rows ! c ! i"
    using joined_position [OF p assms(2)] by (simp add: rewritten_def moves_lookup)
qed

lemma output_positions_total:
  assumes "c < length ops" "i < length (columns (op_schema (ops ! c)))"
  shows "map_of (output_positions ops) (c, i) \<noteq> None"
proof -
  have "(c, i) \<in> set (column_keys (map (\<lambda>op. length (columns (op_schema op))) ops))" using assms by (force simp: column_keys_def)
  then show ?thesis by (simp add: output_positions_eq map_of_eq_None_iff in_set_conv_nth image_iff set_zip) (metis)
qed

lemma mapR_mapE: "mapR (\<lambda>x. mapE f (g x)) xs = mapE (map f) (mapR g xs)"
  by (induction xs) simp_all

lemma rewrite_aggregate_iff: "as_aggregate (RewriteColumnReferences m e) = Some (RewriteColumnReferences m e) \<longleftrightarrow> as_aggregate e = Some e"
  by (cases e) (auto simp: as_aggregate_def split: ExpressionNode.split option.split)

text \<open>What an item of the select list is over the matching combinations of rows.\<close>

definition select_value :: "'v interp \<Rightarrow> 'v list list list \<Rightarrow> Expression \<Rightarrow> 'v" where
  "select_value M matches e =
     (case (expr_node e, expr_children e) of
        (AggregateNode agg, [c]) \<Rightarrow> in_aggregate M agg (map (\<lambda>rows. eval_expr M rows [] c) matches)
      | _ \<Rightarrow> eval_expr M [] [] e)"

lemma select_value_joined:
  assumes "expr_ok sch [] e" "length sch = length ops" "\<And>c. c < length ops \<Longrightarrow> length (sch ! c) = length (columns (op_schema (ops ! c)))"
    "\<And>rows. rows \<in> set matches \<Longrightarrow> map length rows = map (\<lambda>op. length (columns (op_schema op))) ops" "as_aggregate e = Some e"
  shows "eval_aggregate M (map concat matches) (RewriteColumnReferences (moves (output_positions ops)) e) = select_value M matches e"
proof -
  obtain t n a x where e: "e = Expression t n (AggregateNode a) [x]"
    using assms(1,5) by (cases e) (auto simp: as_aggregate_def node_typed_def split: ExpressionNode.splits list.splits)
  have refs: "map_of (output_positions ops) ref \<noteq> None" if r: "ref \<in> set (GetReferencedColumns x)" for ref
  proof -
    obtain c i where ref: "ref = (c, i)" by (cases ref)
    have "(c, i) \<in> set (GetReferencedColumns e)" using r by (simp add: e ref)
    from expr_ok_refs [OF assms(1) this] show ?thesis unfolding ref using assms(2,3) by (intro output_positions_total) auto
  qed
  have "eval_expr M [concat rows] [] (RewriteColumnReferences (moves (output_positions ops)) x) = eval_expr M rows [] x" if "rows \<in> set matches" for rows
    by (rule eval_joined [OF refs assms(4) [OF that]])
  then have "map (\<lambda>r. eval_expr M [r] [] (RewriteColumnReferences (moves (output_positions ops)) x)) (map concat matches) = map (\<lambda>rows. eval_expr M rows [] x) matches"
    by simp
  then show ?thesis unfolding e eval_aggregate_def select_value_def by (simp only: RewriteColumnReferences.simps ExpressionNode.case Expression.sel list.map prod.case list.case)
qed

end
