(* ===== verification/PlanMain.thy ===== *)
theory PlanMain
  imports PlanRemap
begin

text \<open>
  The planner as a whole: a statement that is planned gives a well-typed plan, the passes over the plan keep what it
  prints, and what it prints are the aggregates of the rows of the cross product that satisfy the condition.
\<close>

section \<open>The select list\<close>

text \<open>The schema of the aggregates passes on the values of the aggregates, in their order.\<close>

definition virtual_schema :: "OperatorSchema \<Rightarrow> nat \<Rightarrow> bool" where
  "virtual_schema s n \<longleftrightarrow> length (columns s) = n \<and> (\<forall>i<n. \<exists>t nl. sc_expr (columns s ! i) = VirtualColumnRefExpression t nl i)"

lemma virtual_output: "virtual_schema s (length vs) \<Longrightarrow> output_row M s [] vs = vs"
  by (fastforce simp: virtual_schema_def output_row_def VirtualColumnRefExpression_def intro: nth_equalityI)

lemma virtual_schema_snoc:
  "virtual_schema s n \<Longrightarrow> virtual_schema (AddDerivedColumn name (VirtualColumnRefExpression t nl n) s) (Suc n)"
  by (auto simp: virtual_schema_def nth_append less_Suc_eq)

lemma select_loop:
  assumes "foldR (select_step get_value infos) (s0, aggs0) selects = Inr (s, aggs)" "virtual_schema s0 (length aggs0)"
  shows "\<exists>items. mapR (PlanExpr get_value infos) selects = Inr items \<and> aggs = aggs0 @ map as_aggregate items \<and> virtual_schema s (length aggs)"
  using assms
proof (induction selects arbitrary: s0 aggs0)
  case (Cons p ps)
  then obtain st where st: "select_step get_value infos (s0, aggs0) p = Inr st" "foldR (select_step get_value infos) st ps = Inr (s, aggs)"
    by (auto simp: bindR_Inr_iff)
  from st(1) obtain e where e: "PlanExpr get_value infos p = Inr e" "st = (AddDerivedColumn (to_string (length aggs0))
      (VirtualColumnRefExpression (expr_type e) (expr_nullable e) (length aggs0)) s0, aggs0 @ [as_aggregate e])"
    by (auto simp: select_step_def bindR_Inr_iff Let_def simp del: to_string.simps)
  from Cons.IH [OF st(2) [unfolded e(2)]] virtual_schema_snoc [OF Cons.prems(2)] e(1) show ?case by (auto simp del: to_string.simps)
qed simp

lemma eval_SetNullable: "eval_aggregate M rows (SetNullable e) = eval_aggregate M rows e" if "as_aggregate e = Some e"
  using that by (cases e) (auto simp: eval_aggregate_def SetNullable_def as_aggregate_def split: ExpressionNode.splits list.splits)

lemma set_nullable_items:
  assumes "set_nullable_all (map as_aggregate items) = Inr es"
  shows "map (eval_aggregate M rows) es = map (eval_aggregate M rows) items" "\<forall>e\<in>set items. as_aggregate e = Some e"
proof -
  have all: "list_all2 (\<lambda>x y. (case x of None \<Rightarrow> Inl Undefined | Some e \<Rightarrow> Inr (SetNullable e)) = Inr y) (map as_aggregate items) es"
    using assms unfolding set_nullable_mapR mapR_Inr .
  have item: "as_aggregate x = Some x" "eval_aggregate M rows y = eval_aggregate M rows x"
    if "(case as_aggregate x of None \<Rightarrow> Inl Undefined | Some e \<Rightarrow> Inr (SetNullable e)) = Inr y" for x y
  proof -
    have "as_aggregate x = Some x" "y = SetNullable x" using that by (auto simp: as_aggregate_def split: ExpressionNode.splits)
    then show "as_aggregate x = Some x" "eval_aggregate M rows y = eval_aggregate M rows x" using eval_SetNullable by metis+
  qed
  from all item(2) show "map (eval_aggregate M rows) es = map (eval_aggregate M rows) items"
    by (auto simp: list_all2_conv_all_nth intro: nth_equalityI)
  from all item(1) show "\<forall>e\<in>set items. as_aggregate e = Some e" by (auto simp: list_all2_conv_all_nth in_set_conv_nth)
qed

lemma PlanSelect_printed:
  assumes "PlanSelect get_value db stmt = Inr op" "PlanFromWhere get_value db (FromTable stmt) (Where stmt) = Inr (result, infos)"
  shows "\<exists>items. mapR (PlanExpr get_value infos) (Selects stmt) = Inr items \<and> (\<forall>e\<in>set items. as_aggregate e = Some e)
    \<and> printed M data op = [map (eval_aggregate M (run_op M data result)) items]"
proof -
  from assms obtain s aggs es where p: "foldR (select_step get_value infos) (OperatorSchemaNew, []) (Selects stmt) = Inr (s, aggs)"
      "set_nullable_all aggs = Inr es" "op = OutputOperator (Operator s (AggregateOpNode es) [result])"
    by (auto simp: PlanSelect_def AggregateOperator_def bindR_Inr_iff)
  obtain items where items: "mapR (PlanExpr get_value infos) (Selects stmt) = Inr items" "aggs = map as_aggregate items" "virtual_schema s (length aggs)"
    using select_loop [OF p(1)] by (auto simp: virtual_schema_def OperatorSchemaNew_def)
  have eq: "map (eval_aggregate M (run_op M data result)) es = map (eval_aggregate M (run_op M data result)) items"
      "\<forall>e\<in>set items. as_aggregate e = Some e"
    by (rule set_nullable_items [of items es]; use p(2) items(2) in simp)+
  have "length es = length aggs" using arg_cong [OF eq(1), of length] items(2) by simp
  then show ?thesis using virtual_output [of s "map (eval_aggregate M (run_op M data result)) es" M] items eq
    by (simp add: printed_def p(3) OutputOperator_def run_node_def)
qed

section \<open>The passes\<close>

lemma PlanSelect_shape: "PlanSelect get_value db stmt = Inr op \<Longrightarrow> \<exists>s agg. op = Operator s OutputNode [agg]"
  by (auto simp: PlanSelect_def OutputOperator_def bindR_Inr_iff)

lemma passes_ok:
  fixes M :: "'v interp"
  assumes "PlanSelect get_value db stmt = Inr op0" "flat_from (FromTable stmt)"
  shows "\<exists>op. PlanStatement get_value db stmt = Inr op \<and> op_ok op \<and> (interp_ok M \<longrightarrow> printed M data op = printed M data op0)"
proof -
  obtain s agg where op0: "op0 = Operator s OutputNode [agg]" using PlanSelect_shape [OF assms(1)] by blast
  have ok: "op_ok op0" "op_ok agg" "unmerged agg" using PlanSelect_ok [OF assms] by (simp_all add: op0)
  obtain agg1 where agg1: "EarlyProjection agg = Inr agg1" "op_ok agg1" "run_op M data agg1 = run_op M data agg"
    using EarlyProjection_ok [OF ok(2,3), of M data] by (auto simp: same_plan_def)
  note ad = Adaptive_ok [OF agg1(2), of data]
  have "PlanStatement get_value db stmt = Inr (Operator s OutputNode [AdaptiveScanSelect agg1])"
    using assms(1) agg1(1) by (simp add: PlanStatement_def op0)
  moreover have "op_ok (Operator s OutputNode [AdaptiveScanSelect agg1])" using ok(1) ad by (simp add: op0)
  moreover have "printed M data (Operator s OutputNode [AdaptiveScanSelect agg1]) = printed M data op0" if "interp_ok M"
    using ad that agg1(3) by (simp add: printed_def op0)
  ultimately show ?thesis by blast
qed

section \<open>The statement\<close>

lemma remdups_single: "set xs \<subseteq> {a} \<Longrightarrow> xs \<noteq> [] \<Longrightarrow> remdups xs = [a]"
proof (induction xs)
  case (Cons x xs)
  then show ?case by (cases xs) auto
qed simp

lemma from_where_rows:
  assumes "PlanTable db [] from 0 = Inr (map base_scan ts, infos)" "PlanExpr get_value infos cond = Inr e" "flat_from from"
    "PlanFromWhere get_value db from (Some cond) = Inr (op, infos')" "\<forall>t\<in>set ts. rows_ok data t" "interp_ok M"
    "length ts = 1 \<Longrightarrow> \<forall>p\<in>set (Decompose e). GetReferencedColumns p \<noteq> []"
  shows "run_op M data op = map concat (filter (\<lambda>rows. holds M rows [] e) (product_lists (map data ts)))"
proof -
  from assms(1,2,4) obtain u j ops where p: "foldR split_step (replicate (length ts) [], []) (Decompose e) = Inr (u, j)"
      "filter_tables (map base_scan ts) u = Inr ops" "op = join_tables ops j"
    by (auto simp: PlanFromWhere_def bindR_Inr_iff)
  have "j = []" if one: "length ts = 1"
  proof -
    obtain ts' where ts': "map base_scan ts = map base_scan ts'" "infos_ok (map table_sigs ts') infos"
      using PlanTable_ok [OF assms(1,3)] by blast
    have "expr_ok (map table_sigs ts') [] e" by (rule PlanExpr_ok [OF assms(2) ts'(2)])
    note conj = Decompose_ok [OF this]
    have len: "length ts' = 1" using arg_cong [OF ts'(1), of length] one by simp
    have "GetReferencedChildren x = [0]" if x: "x \<in> set (Decompose e)" for x
    proof -
      have "expr_ok (map table_sigs ts') [] x" using conj x by (simp add: list_all_iff)
      then have "set (map fst (GetReferencedColumns x)) \<subseteq> {0}" using expr_ok_refs [of "map table_sigs ts'" "[]" x] len by fastforce
      then show ?thesis using assms(7) [OF one] x
        unfolding GetReferencedChildren_def by (intro remdups_single) auto
    qed
    then show ?thesis using split_preds_eq [OF p(1)] by auto
  qed
  from run_join [OF p(2,1) assms(5,6) this] show ?thesis using holds_Decompose [OF assms(6)] by (simp add: p(3))
qed

text \<open>The items of the select list, planned with the columns of the tables, give what is printed.\<close>

lemma statement_printed:
  assumes "PlanTable db [] (FromTable stmt) 0 = Inr (map base_scan ts, infos)" "Where stmt = Some cond" "PlanExpr get_value infos cond = Inr e"
    "PlanSelect get_value db stmt = Inr op" "flat_from (FromTable stmt)" "\<forall>t\<in>set ts. rows_ok data t" "interp_ok M"
    "length ts = 1 \<Longrightarrow> \<forall>p\<in>set (Decompose e). GetReferencedColumns p \<noteq> []"
  defines "matches \<equiv> filter (\<lambda>rows. holds M rows [] e) (product_lists (map data ts))"
  shows "\<exists>items. mapR (PlanExpr get_value infos) (Selects stmt) = Inr items \<and> printed M data op = [map (select_value M matches) items]"
proof -
  from assms(4) obtain result infos' where fw: "PlanFromWhere get_value db (FromTable stmt) (Where stmt) = Inr (result, infos')"
    by (auto simp: PlanSelect_def bindR_Inr_iff)
  obtain u j ops where p: "foldR split_step (replicate (length ts) [], []) (Decompose e) = Inr (u, j)"
      "filter_tables (map base_scan ts) u = Inr ops" "remap_infos (output_positions ops) infos = Inr infos'"
    using fw assms(1-3) by (auto simp: PlanFromWhere_def bindR_Inr_iff)
  note tables = run_filter_tables [OF p(2,1) assms(6,7)]
  have rows: "run_op M data result = map concat matches" unfolding matches_def
    by (rule from_where_rows [OF assms(1,3,5) fw [unfolded assms(2)] assms(6,7,8)])
  obtain items' where items': "mapR (PlanExpr get_value infos') (Selects stmt) = Inr items'"
      "\<forall>e\<in>set items'. as_aggregate e = Some e" "printed M data op = [map (eval_aggregate M (map concat matches)) items']"
    using PlanSelect_printed [OF assms(4) fw, of M data] rows by auto
  let ?F = "RewriteColumnReferences (moves (output_positions ops))"
  obtain items where items: "mapR (PlanExpr get_value infos) (Selects stmt) = Inr items" "items' = map ?F items"
    using items'(1) unfolding PlanExpr_remap [OF p(3)] mapR_mapE by (cases "mapR (PlanExpr get_value infos) (Selects stmt)") auto
  obtain ts' where ts': "map base_scan ts = map base_scan ts'" "infos_ok (map table_sigs ts') infos"
    using PlanTable_ok [OF assms(1,5)] by blast
  have sigs: "map table_sigs ts' = map table_sigs ts" using arg_cong [OF ts'(1), of "map op_sigs"] by (simp add: comp_def)
  have widths: "map length rows = map (\<lambda>op. length (columns (op_schema op))) ops" if "rows \<in> set matches" for rows
    using product_row_ok [of rows data ts] that assms(6) tables(2,3) by (intro nth_equalityI) (auto simp: matches_def)
  have "eval_aggregate M (map concat matches) (?F x) = select_value M matches x" if x: "x \<in> set items" for x
  proof (rule select_value_joined [OF _ _ _ widths])
    show "as_aggregate x = Some x" using items'(2) x by (simp add: items(2) rewrite_aggregate_iff)
    obtain q where "PlanExpr get_value infos q = Inr x" using items(1) x by (auto simp: mapR_Inr list_all2_conv_all_nth in_set_conv_nth)
    from PlanExpr_ok [OF this ts'(2)] show "expr_ok (map table_sigs ts) [] x" by (simp only: sigs)
  qed (use tables(2,3) in \<open>simp_all add: table_sigs_def\<close>)
  then show ?thesis using items'(3) items by simp
qed

section \<open>The planner\<close>

text \<open>An example: \<^verbatim>\<open>select max(y.e) from t x, u y where x.a = y.d and x.b = y.e\<close> and the numbers of the values.\<close>

definition table_t :: CatalogTable where
  "table_t = TableInsert (TableInsert (CatalogTableNew ''t'') ''a'' SqlInt [] [] []) ''b'' SqlInt [] [] []"

definition table_u :: CatalogTable where
  "table_u = TableInsert (TableInsert (CatalogTableNew ''u'') ''d'' SqlInt [] [] []) ''e'' SqlInt [] [] []"

definition example_db :: Database where
  "example_db = [(''t'', table_t), (''u'', table_u)]"

definition example_from :: ParseTable where
  "example_from = CrossProductTable [BaseTable ''t'' ''x'', BaseTable ''u'' ''y'']"

definition example_cond :: ParseExpression where
  "example_cond = PBinary ParseAnd (PBinary ParseEq (PColumnRef ''a'' ''x'') (PColumnRef ''d'' ''y''))
     (PBinary ParseEq (PColumnRef ''b'' ''x'') (PLiteral (ParseInt32 7)))"

definition example_stmt :: SelectStatement where
  "example_stmt = \<lparr>Selects = [PAggregate ParseMax (Some (PColumnRef ''e'' ''y''))], FromTable = example_from, Where = Some example_cond\<rparr>"

definition example_data :: "CatalogTable \<Rightarrow> int list list" where
  "example_data t = (if t = table_t then [[1, 7], [2, 7], [3, 9]] else [[1, 50], [2, 60], [2, 40], [3, 90]])"

definition int_node :: "ExpressionNode \<Rightarrow> int list \<Rightarrow> int" where
  "int_node node vs =
     (case node of
        BinaryArithmeticNode BAnd \<Rightarrow> if vs ! 0 \<noteq> 0 \<and> vs ! 1 \<noteq> 0 then 1 else 0
      | BinaryArithmeticNode BEq \<Rightarrow> if vs ! 0 = vs ! 1 then 1 else 0
      | LiteralNode (LitInt32 v) _ \<Rightarrow> sint v
      | _ \<Rightarrow> 0)"

definition int_interp :: "int interp" where
  "int_interp = \<lparr>in_node = (\<lambda>t. int_node), in_aggregate = (\<lambda>agg vs. if vs = [] then 0 else Max (set vs)), in_truth = (\<lambda>v. v \<noteq> 0)\<rparr>"

lemma int_interp_ok: "interp_ok int_interp"
  by (simp add: interp_ok_def int_interp_def int_node_def)

lemma example_flat: "flat_from (FromTable example_stmt)"
  by (simp add: example_stmt_def example_from_def flat_from_def)

lemma example_rows_ok: "\<forall>t\<in>set [table_t, table_u]. rows_ok example_data t"
  by (simp add: rows_ok_def example_data_def table_t_def table_u_def TableInsert_def CatalogTableNew_def TableColumns_def)

abbreviation no_enums :: "int \<Rightarrow> string \<Rightarrow> int res" where
  "no_enums \<equiv> (\<lambda>_ _. Inr (-1))"

definition example_infos :: col_infos where
  "example_infos = snd (projr (PlanTable example_db [] example_from 0))"

definition example_expr :: Expression where
  "example_expr = projr (PlanExpr no_enums example_infos example_cond)"

lemma example_planned: "PlanStatement no_enums example_db example_stmt = Inr (projr (PlanStatement no_enums example_db example_stmt))"
  by code_simp

lemma example_selected: "PlanSelect no_enums example_db example_stmt = Inr (projr (PlanSelect no_enums example_db example_stmt))"
  by code_simp

lemma example_tables: "PlanTable example_db [] example_from 0 = Inr (map base_scan [table_t, table_u], example_infos)"
  by code_simp

lemma example_condition: "PlanExpr no_enums example_infos example_cond = Inr example_expr"
  by code_simp



text \<open>
  Property C9. The passes over the plan never fail, and they keep what it prints: dropping the columns nothing refers to,
  with all references moved, and merging a filter with the scan below it. This holds for every interpretation of the
  operations on values in which \<^verbatim>\<open>AND\<close> is true when both operands are.
\<close>

theorem passes_keep_result:
  assumes "PlanSelect get_value db stmt = Inr op" "flat_from (FromTable stmt)" "interp_ok M"
  shows "\<exists>op'. PlanStatement get_value db stmt = Inr op' \<and> printed M data op' = printed M data op"
  using passes_ok [OF assms(1,2), of M data] assms(3) by blast

theorem passes_keep_result_witness:
  "\<exists>op'. PlanStatement no_enums example_db example_stmt = Inr op'
    \<and> printed int_interp example_data op' = printed int_interp example_data (projr (PlanSelect no_enums example_db example_stmt))"
  by (rule passes_keep_result [OF example_selected example_flat int_interp_ok])



text \<open>On the example that row is the maximum of the second column over the pairs that match.\<close>

lemma example_result: "printed int_interp example_data (projr (PlanStatement no_enums example_db example_stmt)) = [[60]]"
  by code_simp

end
