(* ===== verification/RtFile.thy ===== *)
theory RtFile
  imports KushPrelude
begin

text \<open>
  Files of bytes: the little-endian integers of a struct that is mapped over a file, the calls of the operating system
  that create and map a file, and the manager of opened files (\<^verbatim>\<open>runtime/file_manager.cc\<close>). A pointer into a
  file is a position; an access behind the end is undefined. Whether a call of the operating system succeeds is an
  argument. Messages of errors are shortened.
\<close>

section \<open>Bytes\<close>

type_synonym bytes = "u8 list"

definition readB :: "nat \<Rightarrow> nat \<Rightarrow> bytes \<Rightarrow> bytes res" where
  "readB off n m = (if off + n \<le> length m then Inr (take n (drop off m)) else Inl Undefined)"

definition writeB :: "nat \<Rightarrow> bytes \<Rightarrow> bytes \<Rightarrow> bytes res" where
  "writeB off bs m = (if off + length bs \<le> length m then Inr (take off m @ bs @ drop (off + length bs) m) else Inl Undefined)"

fun le :: "nat \<Rightarrow> nat \<Rightarrow> bytes" where
  "le 0 x = []"
| "le (Suc n) x = of_nat x # le n (x div 256)"

fun unle :: "bytes \<Rightarrow> nat" where
  "unle [] = 0"
| "unle (b # bs) = unat b + 256 * unle bs"

definition getN :: "nat \<Rightarrow> nat \<Rightarrow> bytes \<Rightarrow> nat res" where
  "getN n off m = bindR (readB off n m) (\<lambda>bs. Inr (unle bs))"

definition putN :: "nat \<Rightarrow> nat \<Rightarrow> nat \<Rightarrow> bytes \<Rightarrow> bytes res" where
  "putN n off x m = writeB off (le n x) m"

definition word_bytes :: "'a::len word \<Rightarrow> bytes" where
  "word_bytes w = le (LENGTH('a) div 8) (unat w)"

definition bytes_word :: "bytes \<Rightarrow> 'a::len word" where
  "bytes_word bs = of_nat (unle bs)"

definition char_bytes :: "string \<Rightarrow> bytes" where
  "char_bytes s = map (\<lambda>c. of_nat (of_char c)) s"

definition bytes_chars :: "bytes \<Rightarrow> string" where
  "bytes_chars bs = map (\<lambda>b. char_of (unat b)) bs"

text \<open>\<^verbatim>\<open>has off bs m\<close>: the bytes are at that position of the file.\<close>

definition has :: "nat \<Rightarrow> bytes \<Rightarrow> bytes \<Rightarrow> bool" where
  "has off bs m \<longleftrightarrow> off + length bs \<le> length m \<and> take (length bs) (drop off m) = bs"

lemma length_le [simp]: "length (le n x) = n"
  by (induction n arbitrary: x) simp_all

lemma unle_le [simp]: "unle (le n x) = x mod 256 ^ n"
proof (induction n arbitrary: x)
  case (Suc n)
  have "unat (of_nat x :: u8) = x mod 256" by (simp add: unat_of_nat)
  then show ?case using Suc by (simp add: mod_mult2_eq)
qed simp

lemma readB_has: "readB off n m = Inr bs \<longleftrightarrow> has off bs m \<and> length bs = n"
  by (auto simp: readB_def has_def)

lemma writeB_Inr: "writeB off bs m = Inr m' \<longleftrightarrow> off + length bs \<le> length m \<and> m' = take off m @ bs @ drop (off + length bs) m"
  by (auto simp: writeB_def)

lemma has_nth: "has off bs m \<longleftrightarrow> off + length bs \<le> length m \<and> (\<forall>i<length bs. m ! (off + i) = bs ! i)"
  by (auto simp: has_def list_eq_iff_nth_eq)

lemma writeB_nth:
  assumes "writeB off bs m = Inr m'"
  shows "length m' = length m" "i < length m \<Longrightarrow> m' ! i = (if off \<le> i \<and> i < off + length bs then bs ! (i - off) else m ! i)"
  using assms by (auto simp: writeB_Inr nth_append)

lemma writeB_has: "writeB off bs m = Inr m' \<Longrightarrow> has off bs m'"
  using writeB_nth [of off bs m m'] by (auto simp: has_nth writeB_Inr)

lemma writeB_frame: "writeB off bs m = Inr m' \<Longrightarrow> has off' bs' m \<Longrightarrow> off' + length bs' \<le> off \<or> off + length bs \<le> off' \<Longrightarrow> has off' bs' m'"
  using writeB_nth [of off bs m m'] by (auto simp: has_nth)

lemma writeB_total: "off + length bs \<le> length m \<Longrightarrow> \<exists>m'. writeB off bs m = Inr m'"
  by (simp add: writeB_def)

lemma has_append: "has off (xs @ ys) m \<longleftrightarrow> has off xs m \<and> has (off + length xs) ys m"
proof (cases "off + length xs + length ys \<le> length m")
  case True
  then have "length (take (length xs) (drop off m)) = length xs" by simp
  then show ?thesis using True by (simp add: has_def take_add append_eq_append_conv add.commute add.left_commute)
qed (auto simp: has_def)

lemma has_Nil [simp]: "has off [] m \<longleftrightarrow> off \<le> length m"
  by (simp add: has_def)

lemma getN_has: "has off (le n x) m \<Longrightarrow> x < 256 ^ n \<Longrightarrow> getN n off m = Inr x"
  using readB_has [of off n m "le n x"] by (simp add: getN_def)

lemma length_word_bytes [simp]: "length (word_bytes (w :: 'a::len word)) = LENGTH('a) div 8"
  by (simp add: word_bytes_def)

lemma bytes_word_bytes: "8 dvd LENGTH('a) \<Longrightarrow> bytes_word (word_bytes w) = (w :: 'a::len word)"
proof -
  assume "8 dvd LENGTH('a)"
  then obtain k where k: "LENGTH('a) = 8 * k" by (rule dvdE)
  then have "256 ^ (LENGTH('a) div 8) = (2 :: nat) ^ LENGTH('a)" by (simp add: power_mult)
  then show ?thesis by (simp add: bytes_word_def word_bytes_def)
qed

lemma length_char_bytes [simp]: "length (char_bytes s) = length s"
  by (simp add: char_bytes_def)

lemma bytes_chars_bytes [simp]: "bytes_chars (char_bytes s) = s"
  by (simp add: bytes_chars_def char_bytes_def comp_def unat_of_nat)

section \<open>Bytes that stay\<close>

definition agree :: "nat set \<Rightarrow> bytes \<Rightarrow> bytes \<Rightarrow> bool" where
  "agree S m m' \<longleftrightarrow> length m' = length m \<and> (\<forall>i<length m. i \<notin> S \<longrightarrow> m' ! i = m ! i)"

lemma agree_refl [simp]: "agree S m m"
  by (simp add: agree_def)

lemma agree_trans: "agree S m m1 \<Longrightarrow> agree T m1 m2 \<Longrightarrow> S \<union> T \<subseteq> U \<Longrightarrow> agree U m m2"
  unfolding agree_def by (metis Un_iff subsetD)

lemma agree_mono: "agree S m m' \<Longrightarrow> S \<subseteq> T \<Longrightarrow> agree T m m'"
  by (auto simp: agree_def)

lemma agree_length: "agree S m m' \<Longrightarrow> length m' = length m"
  by (simp add: agree_def)

lemma agree_has: "has p bs m \<Longrightarrow> agree S m m' \<Longrightarrow> S \<inter> {p..<p + length bs} = {} \<Longrightarrow> has p bs m'"
proof -
  assume a: "has p bs m" "agree S m m'" "S \<inter> {p..<p + length bs} = {}"
  have "m' ! (p + i) = m ! (p + i)" if "i < length bs" for i
  proof -
    have "p + i \<notin> S" using a(3) that by (auto simp: disjoint_iff)
    then show ?thesis using a(1,2) that by (simp add: has_nth agree_def)
  qed
  then show ?thesis using a(1,2) by (simp add: has_nth agree_def)
qed

lemma writeB_agree: "writeB off bs m = Inr m' \<Longrightarrow> agree {off..<off + length bs} m m'"
  using writeB_nth [of off bs m m'] by (auto simp: agree_def)

lemma putN_ok: "off + n \<le> length m \<Longrightarrow> \<exists>m'. putN n off x m = Inr m' \<and> has off (le n x) m' \<and> agree {off..<off + n} m m'"
  using writeB_total [of off "le n x" m] writeB_has writeB_agree by (fastforce simp: putN_def)

section \<open>Creating and mapping files\<close>

record os =
  os_open :: "string \<Rightarrow> bool"
  os_fallocate :: "nat \<Rightarrow> bool"
  os_mmap :: "nat \<Rightarrow> bool"
  os_munmap :: "nat \<Rightarrow> bool"
  os_close :: "string \<Rightarrow> bool"

type_synonym files = "string \<rightharpoonup> bytes"

text \<open>A file that exists keeps its bytes: it is extended with zeros, never cut.\<close>

definition fallocate :: "nat \<Rightarrow> bytes \<Rightarrow> bytes" where
  "fallocate len old = old @ replicate (len - length old) 0"

definition map_file :: "os \<Rightarrow> files \<Rightarrow> string \<Rightarrow> nat \<Rightarrow> (bytes \<Rightarrow> bytes res) \<Rightarrow> files res" where
  "map_file os fs path len body =
     (if \<not> os_open os path then Inl SystemError
      else if \<not> os_fallocate os len then Inl (RuntimeError ''fallocate failed'')
      else if \<not> os_mmap os len then Inl SystemError
      else
        let file = fallocate len (case fs path of None \<Rightarrow> [] | Some old \<Rightarrow> old) in
        bindR (body (take len file)) (\<lambda>mapped.
        if \<not> os_munmap os len then Inl SystemError
        else if \<not> os_close os path then Inl SystemError
        else Inr (fs(path \<mapsto> mapped @ drop len file))))"

text \<open>Opening reads the whole file once and remembers it.\<close>

definition FileManagerOpen :: "os \<Rightarrow> files \<Rightarrow> files \<Rightarrow> string \<Rightarrow> (bytes \<times> files) res" where
  "FileManagerOpen os fs info path =
     (case info path of
        Some data \<Rightarrow> Inr (data, info)
      | None \<Rightarrow>
          (case fs path of
             None \<Rightarrow> Inl SystemError
           | Some data \<Rightarrow>
               if \<not> os_open os path \<or> \<not> os_close os path then Inl SystemError
               else Inr (data, info(path \<mapsto> data))))"

definition os_ok :: "os \<Rightarrow> string \<Rightarrow> nat \<Rightarrow> bool" where
  "os_ok os path len \<longleftrightarrow> os_open os path \<and> os_fallocate os len \<and> os_mmap os len \<and> os_munmap os len \<and> os_close os path"

lemma map_file_ok:
  assumes "os_ok os path len" "\<And>m. length m = len \<Longrightarrow> \<exists>m'. body m = Inr m' \<and> length m' = len \<and> P m'"
  shows "\<exists>m rest. map_file os fs path len body = Inr (fs(path \<mapsto> m @ rest)) \<and> length m = len \<and> P m
    \<and> rest = drop len (case fs path of None \<Rightarrow> [] | Some old \<Rightarrow> old)"
proof -
  let ?file = "fallocate len (case fs path of None \<Rightarrow> [] | Some old \<Rightarrow> old)"
  have "length (take len ?file) = len" by (simp add: fallocate_def)
  from assms(2) [OF this] obtain m where m: "body (take len ?file) = Inr m" "length m = len" "P m" by blast
  have "drop len ?file = drop len (case fs path of None \<Rightarrow> [] | Some old \<Rightarrow> old)" by (simp add: fallocate_def)
  then show ?thesis using m assms(1) by (auto simp: map_file_def os_ok_def Let_def)
qed

lemma open_new: "fs path = Some m \<Longrightarrow> info path = None \<Longrightarrow> os_ok os path len \<Longrightarrow> FileManagerOpen os fs info path = Inr (m, info(path \<mapsto> m))"
  by (simp add: FileManagerOpen_def os_ok_def)

text \<open>The file is new, or the file that is overwritten is not longer.\<close>

definition file_fits :: "files \<Rightarrow> string \<Rightarrow> nat \<Rightarrow> bool" where
  "file_fits fs path len \<longleftrightarrow> length (case fs path of None \<Rightarrow> [] | Some old \<Rightarrow> old) \<le> len"

lemma map_file_fits:
  assumes "os_ok os path len" "file_fits fs path len" "\<And>m. length m = len \<Longrightarrow> \<exists>m'. body m = Inr m' \<and> length m' = len \<and> P m'"
  obtains m where "map_file os fs path len body = Inr (fs(path \<mapsto> m))" "P m"
  using map_file_ok [where body = body and P = P and fs = fs, OF assms(1,3)] assms(2) that by (auto simp: file_fits_def)

end
