(* ===== verification/RtColumn.thy ===== *)
theory RtColumn
  imports RtFile
begin

text \<open>
  Columns stored in files (\<^verbatim>\<open>runtime/column_data.cc\<close>): a column of numbers is the array of its values, a
  \<^verbatim>\<open>double\<close> by its bits; a column of text is the number of its values, a slot with length and position per
  value, and the characters. What is written is what is read back.
\<close>

section \<open>Opening and closing\<close>

definition OpenImpl :: "os \<Rightarrow> files \<Rightarrow> files \<Rightarrow> string \<Rightarrow> (bytes \<times> files) res" where
  "OpenImpl os fs info path = FileManagerOpen os fs info path"

definition OpenText :: "os \<Rightarrow> files \<Rightarrow> files \<Rightarrow> string \<Rightarrow> (bytes \<times> files) res" where
  "OpenText os fs info path = OpenImpl os fs info path"

definition CloseImpl :: "bytes \<Rightarrow> bytes" where
  "CloseImpl col = col"

section \<open>Size\<close>

definition to_i32 :: "nat \<Rightarrow> int" where
  "to_i32 n = sint (of_nat n :: u32)"

definition SizeInt8 :: "bytes \<Rightarrow> int" where "SizeInt8 col = to_i32 (length col div 1)"
definition SizeInt16 :: "bytes \<Rightarrow> int" where "SizeInt16 col = to_i32 (length col div 2)"
definition SizeInt32 :: "bytes \<Rightarrow> int" where "SizeInt32 col = to_i32 (length col div 4)"
definition SizeInt64 :: "bytes \<Rightarrow> int" where "SizeInt64 col = to_i32 (length col div 8)"
definition SizeFloat64 :: "bytes \<Rightarrow> int" where "SizeFloat64 col = to_i32 (length col div 8)"

definition SizeText :: "bytes \<Rightarrow> int res" where
  "SizeText col = bindR (getN 4 0 col) (\<lambda>cardinality. Inr (to_i32 cardinality))"

section \<open>Reading a value\<close>

definition get_elem :: "bytes \<Rightarrow> int \<Rightarrow> 'a::len word res" where
  "get_elem col idx =
     (if idx < 0 then Inl Undefined
      else bindR (readB (nat idx * (LENGTH('a) div 8)) (LENGTH('a) div 8) col) (\<lambda>bs. Inr (bytes_word bs)))"

definition GetInt8 :: "bytes \<Rightarrow> int \<Rightarrow> u8 res" where "GetInt8 col idx = get_elem col idx"
definition GetInt16 :: "bytes \<Rightarrow> int \<Rightarrow> u16 res" where "GetInt16 col idx = get_elem col idx"
definition GetInt32 :: "bytes \<Rightarrow> int \<Rightarrow> u32 res" where "GetInt32 col idx = get_elem col idx"
definition GetInt64 :: "bytes \<Rightarrow> int \<Rightarrow> u64 res" where "GetInt64 col idx = get_elem col idx"
definition GetFloat64 :: "bytes \<Rightarrow> int \<Rightarrow> u64 res" where "GetFloat64 col idx = get_elem col idx"

text \<open>A slot has 16 bytes, the length in the first 4 and the position in the last 8; the slots begin at 8.\<close>

definition slot_at :: "nat \<Rightarrow> nat" where
  "slot_at i = 8 + 16 * i"

definition GetText :: "bytes \<Rightarrow> int \<Rightarrow> string res" where
  "GetText col idx =
     (if idx < 0 then Inl Undefined
      else
        bindR (getN 4 (slot_at (nat idx)) col) (\<lambda>len.
        bindR (getN 8 (slot_at (nat idx) + 8) col) (\<lambda>off.
        bindR (readB off len col) (\<lambda>bs. Inr (bytes_chars bs)))))"

section \<open>Writing a column\<close>

definition SerializeColumn :: "os \<Rightarrow> files \<Rightarrow> string \<Rightarrow> 'a::len word list \<Rightarrow> files res" where
  "SerializeColumn os fs path contents =
     map_file os fs path (LENGTH('a) div 8 * length contents) (writeB 0 (concat (map word_bytes contents)))"

text \<open>One value: its slot, and its characters with the terminator.\<close>

definition write_slot :: "bytes \<times> nat \<Rightarrow> nat \<times> string \<Rightarrow> (bytes \<times> nat) res" where
  "write_slot st entry =
     (case (st, entry) of ((m, offset), (slot, s)) \<Rightarrow>
       bindR (putN 4 (slot_at slot) (length s) m) (\<lambda>m.
       bindR (putN 8 (slot_at slot + 8) offset m) (\<lambda>m.
       bindR (writeB offset (char_bytes s @ [0]) m) (\<lambda>m.
         Inr (m, offset + length s + 1)))))"

definition text_length :: "string list \<Rightarrow> nat" where
  "text_length contents = 8 + 16 * length contents + sum_list (map (\<lambda>s. length s + 1) contents)"

definition write_text :: "string list \<Rightarrow> bytes \<Rightarrow> bytes res" where
  "write_text contents m =
     bindR (putN 4 0 (length contents) m) (\<lambda>m.
     bindR (foldR write_slot (m, 8 + 16 * length contents) (zip [0..<length contents] contents)) (\<lambda>(m, offset).
       Inr m))"

definition SerializeText :: "os \<Rightarrow> files \<Rightarrow> string \<Rightarrow> string list \<Rightarrow> files res" where
  "SerializeText os fs path contents = map_file os fs path (text_length contents) (write_text contents)"

section \<open>Round trips\<close>

lemma to_i32_small: "n < 2 ^ 31 \<Longrightarrow> to_i32 n = int n"
  by (simp add: to_i32_def signed_of_nat signed_take_bit_int_eq_self)

lemma has_concat:
  assumes "has off (concat (map f xs)) m" "\<And>x. x \<in> set xs \<Longrightarrow> length (f x) = w" "i < length xs"
  shows "has (off + i * w) (f (xs ! i)) m"
  using assms
proof (induction xs arbitrary: off i)
  case (Cons x xs)
  have split: "has off (f x) m" "has (off + w) (concat (map f xs)) m" using Cons.prems(1,2) by (simp_all add: has_append)
  show ?case
  proof (cases i)
    case (Suc j)
    have "has (off + w + j * w) (f (xs ! j)) m" by (rule Cons.IH [OF split(2)]) (use Cons.prems Suc in auto)
    then show ?thesis by (simp add: Suc algebra_simps)
  qed (use split in simp)
qed simp

lemma length_concat_const: "(\<And>x. x \<in> set xs \<Longrightarrow> length (f x) = w) \<Longrightarrow> length (concat (map f xs)) = w * length xs"
  by (induction xs) simp_all

lemma get_elem_has:
  assumes "8 dvd LENGTH('a)" "has (i * (LENGTH('a) div 8)) (word_bytes (w :: 'a::len word)) m"
  shows "get_elem m (int i) = Inr w"
proof -
  have "readB (i * (LENGTH('a) div 8)) (LENGTH('a) div 8) m = Inr (word_bytes w)" using assms(2) by (simp add: readB_has)
  then show ?thesis using bytes_word_bytes [OF assms(1)] by (simp add: get_elem_def)
qed

lemma SerializeColumn_ok:
  fixes contents :: "'a::len word list"
  assumes "os_ok os path (LENGTH('a) div 8 * length contents)" "8 dvd LENGTH('a)"
  shows "\<exists>m rest. SerializeColumn os fs path contents = Inr (fs(path \<mapsto> m @ rest)) \<and> length m = LENGTH('a) div 8 * length contents
    \<and> rest = drop (LENGTH('a) div 8 * length contents) (case fs path of None \<Rightarrow> [] | Some old \<Rightarrow> old)
    \<and> (\<forall>i<length contents. get_elem (m @ rest) (int i) = Inr (contents ! i))"
proof -
  let ?w = "LENGTH('a) div 8"
  have len: "length (concat (map word_bytes contents)) = ?w * length contents" by (rule length_concat_const) simp
  have body: "\<exists>m'. writeB 0 (concat (map word_bytes contents)) m = Inr m' \<and> length m' = ?w * length contents \<and> has 0 (concat (map word_bytes contents)) m'"
    if "length m = ?w * length contents" for m
    using writeB_total [of 0 "concat (map word_bytes contents)" m] writeB_nth(1) writeB_has that len by fastforce
  from map_file_ok [where body = "writeB 0 (concat (map word_bytes contents))" and fs = fs, OF assms(1) body] obtain m rest where m: "SerializeColumn os fs path contents = Inr (fs(path \<mapsto> m @ rest))"
      "length m = ?w * length contents" "has 0 (concat (map word_bytes contents)) m"
      "rest = drop (?w * length contents) (case fs path of None \<Rightarrow> [] | Some old \<Rightarrow> old)"
    by (auto simp: SerializeColumn_def)
  have "get_elem (m @ rest) (int i) = Inr (contents ! i)" if "i < length contents" for i
  proof (rule get_elem_has [OF assms(2)])
    have "has (0 + i * ?w) (word_bytes (contents ! i)) m" by (rule has_concat [OF m(3)]) (use that in auto)
    then show "has (i * ?w) (word_bytes (contents ! i)) (m @ rest)" by (simp add: has_def)
  qed
  then show ?thesis using m by blast
qed

text \<open>The slots of a column of text: what was written can be read, and lies before the next free position.\<close>

definition slot_ok :: "nat \<Rightarrow> bytes \<Rightarrow> nat \<Rightarrow> nat \<times> string \<Rightarrow> bool" where
  "slot_ok base m offset entry \<longleftrightarrow> (\<exists>off. slot_at (fst entry) + 16 \<le> base \<and> base \<le> off \<and> off + length (snd entry) < offset
     \<and> has (slot_at (fst entry)) (le 4 (length (snd entry))) m \<and> has (slot_at (fst entry) + 8) (le 8 off) m
     \<and> has off (char_bytes (snd entry)) m)"

lemma write_slot_ok:
  assumes "slot_at i + 16 \<le> base" "base \<le> offset" "offset + length s + 1 \<le> length m"
  shows "\<exists>m'. write_slot (m, offset) (i, s) = Inr (m', offset + length s + 1) \<and> length m' = length m
    \<and> slot_ok base m' (offset + length s + 1) (i, s)
    \<and> (\<forall>p bs. has p bs m \<longrightarrow> p + length bs \<le> offset \<longrightarrow> p + length bs \<le> slot_at i \<or> slot_at i + 16 \<le> p \<longrightarrow> has p bs m')"
proof -
  obtain m1 where m1: "writeB (slot_at i) (le 4 (length s)) m = Inr m1" using writeB_total [of "slot_at i" "le 4 (length s)" m] assms by auto
  note l1 = writeB_nth(1) [OF m1]
  obtain m2 where m2: "writeB (slot_at i + 8) (le 8 offset) m1 = Inr m2" using writeB_total [of "slot_at i + 8" "le 8 offset" m1] assms l1 by auto
  note l2 = writeB_nth(1) [OF m2]
  obtain m3 where m3: "writeB offset (char_bytes s @ [0]) m2 = Inr m3" using writeB_total [of offset "char_bytes s @ [0]" m2] assms l1 l2 by auto
  note l3 = writeB_nth(1) [OF m3]
  have "has (slot_at i) (le 4 (length s)) m3"
    by (rule writeB_frame [OF m3 writeB_frame [OF m2 writeB_has [OF m1]]]) (use assms in auto)
  moreover have "has (slot_at i + 8) (le 8 offset) m3" by (rule writeB_frame [OF m3 writeB_has [OF m2]]) (use assms in auto)
  moreover have "has offset (char_bytes s) m3" using writeB_has [OF m3] by (simp add: has_append)
  moreover have "has p bs m3" if "has p bs m" "p + length bs \<le> offset" "p + length bs \<le> slot_at i \<or> slot_at i + 16 \<le> p" for p bs
    by (rule writeB_frame [OF m3 writeB_frame [OF m2 writeB_frame [OF m1 that(1)]]]) (use that in auto)
  ultimately show ?thesis using m1 m2 m3 l1 l2 l3 assms by (auto simp: write_slot_def putN_def slot_ok_def)
qed

lemma slot_ok_frame:
  assumes "slot_ok base m offset (j, t)" "offset \<le> offset'"
    "\<And>p bs. has p bs m \<Longrightarrow> p + length bs \<le> offset \<Longrightarrow> p + length bs \<le> slot_at i \<or> slot_at i + 16 \<le> p \<Longrightarrow> has p bs m'"
    "i \<noteq> j" "slot_at i + 16 \<le> base"
  shows "slot_ok base m' offset' (j, t)"
proof -
  obtain off where off: "slot_at j + 16 \<le> base" "base \<le> off" "off + length t < offset" "has (slot_at j) (le 4 (length t)) m"
      "has (slot_at j + 8) (le 8 off) m" "has off (char_bytes t) m"
    using assms(1) by (auto simp: slot_ok_def)
  have apart: "slot_at j + 16 \<le> slot_at i \<or> slot_at i + 16 \<le> slot_at j" using assms(4) by (auto simp: slot_at_def)
  have "has (slot_at j) (le 4 (length t)) m'" "has (slot_at j + 8) (le 8 off) m'" "has off (char_bytes t) m'"
    by (rule assms(3); use off apart assms(5) in auto)+
  then show ?thesis using off assms(2) by (auto simp: slot_ok_def)
qed

lemma write_slots_ok:
  assumes "offset + sum_list (map (\<lambda>e. length (snd e) + 1) todo) \<le> length m" "base \<le> offset" "distinct (map fst (before @ todo))"
    "\<forall>e\<in>set todo. slot_at (fst e) + 16 \<le> base" "\<forall>e\<in>set before. slot_ok base m offset e" "has 0 (le 4 n) m" "8 \<le> base"
  shows "\<exists>m' offset'. foldR write_slot (m, offset) todo = Inr (m', offset') \<and> length m' = length m
    \<and> (\<forall>e\<in>set (before @ todo). slot_ok base m' offset' e) \<and> has 0 (le 4 n) m'"
  using assms
proof (induction todo arbitrary: m offset before)
  case (Cons e todo)
  obtain i s where e: "e = (i, s)" by (cases e)
  obtain m1 where m1: "write_slot (m, offset) (i, s) = Inr (m1, offset + length s + 1)" "length m1 = length m"
      "slot_ok base m1 (offset + length s + 1) (i, s)"
      "\<And>p bs. has p bs m \<Longrightarrow> p + length bs \<le> offset \<Longrightarrow> p + length bs \<le> slot_at i \<or> slot_at i + 16 \<le> p \<Longrightarrow> has p bs m1"
    using write_slot_ok [of i base offset s m] Cons.prems(1,2,4) by (auto simp: e)
  have "slot_ok base m1 (offset + length s + 1) (j, t)" if t: "(j, t) \<in> set before" for j t
  proof (rule slot_ok_frame [of base m offset j t _ i])
    show "i \<noteq> j" using imageI [OF t, of fst] Cons.prems(3) by (auto simp: e)
  qed (use t Cons.prems m1(4) in \<open>auto simp: e\<close>)
  then have "\<forall>e\<in>set (before @ [(i, s)]). slot_ok base m1 (offset + length s + 1) e" using m1(3) by auto
  moreover have "has 0 (le 4 n) m1" by (rule m1(4)) (use Cons.prems in \<open>auto simp: slot_at_def\<close>)
  ultimately have "\<exists>m' offset'. foldR write_slot (m1, offset + length s + 1) todo = Inr (m', offset') \<and> length m' = length m1
      \<and> (\<forall>e\<in>set ((before @ [(i, s)]) @ todo). slot_ok base m' offset' e) \<and> has 0 (le 4 n) m'"
    by (intro Cons.IH) (use Cons.prems m1(2) in \<open>auto simp: e\<close>)
  then show ?case using m1(1,2) by (auto simp: e)
qed simp

lemma slot_read:
  assumes "slot_ok base m offset (i, s)" "offset < 2 ^ 64" "length s < 2 ^ 31"
  shows "GetText (m @ rest) (int i) = Inr s"
proof -
  obtain off where off: "off + length s < offset" "has (slot_at i) (le 4 (length s)) m" "has (slot_at i + 8) (le 8 off) m" "has off (char_bytes s) m"
    using assms(1) by (auto simp: slot_ok_def)
  have ext: "has p bs (m @ rest)" if "has p bs m" for p bs using that by (simp add: has_def)
  have "getN 4 (slot_at i) (m @ rest) = Inr (length s)" "getN 8 (slot_at i + 8) (m @ rest) = Inr off"
    using off(1) assms(2,3) by (auto intro!: getN_has ext off)
  moreover have "readB off (length s) (m @ rest) = Inr (char_bytes s)" using ext [OF off(4)] by (simp add: readB_has)
  ultimately show ?thesis by (simp add: GetText_def)
qed

lemma foldR_offset:
  assumes "foldR write_slot (m, offset) todo = Inr (m', offset')"
  shows "offset' = offset + sum_list (map (\<lambda>e. length (snd e) + 1) todo)"
  using assms
proof (induction todo arbitrary: m offset)
  case (Cons e todo)
  obtain i s where e: "e = (i, s)" by (cases e)
  obtain m1 offset1 where st: "write_slot (m, offset) e = Inr (m1, offset1)" "foldR write_slot (m1, offset1) todo = Inr (m', offset')"
    using Cons.prems by (auto simp: bindR_Inr_iff)
  have "offset1 = offset + length s + 1" using st(1) by (auto simp: e bindR_Inr_iff write_slot_def)
  with Cons.IH [OF st(2)] show ?case by (simp add: e)
qed simp

lemma SerializeText_ok:
  assumes "os_ok os path (text_length contents)" "text_length contents < 2 ^ 64" "length contents < 2 ^ 31" "\<forall>s\<in>set contents. length s < 2 ^ 31"
  shows "\<exists>m rest. SerializeText os fs path contents = Inr (fs(path \<mapsto> m @ rest)) \<and> SizeText (m @ rest) = Inr (int (length contents))
    \<and> (\<forall>i<length contents. GetText (m @ rest) (int i) = Inr (contents ! i))"
proof -
  let ?n = "length contents" and ?todo = "zip [0..<length contents] contents"
  let ?base = "8 + 16 * ?n"
  have sum: "sum_list (map (\<lambda>e. length (snd e) + 1) ?todo) = sum_list (map (\<lambda>s. length s + 1) contents)"
    by (rule arg_cong [where f = sum_list], rule nth_equalityI) simp_all
  have body: "\<exists>m'. write_text contents m = Inr m'
      \<and> length m' = text_length contents \<and> has 0 (le 4 ?n) m' \<and> (\<forall>e\<in>set ?todo. slot_ok ?base m' (text_length contents) e)"
    if len: "length m = text_length contents" for m
  proof -
    obtain m1 where m1: "writeB 0 (le 4 ?n) m = Inr m1" using writeB_total [of 0 "le 4 ?n" m] len by (auto simp: text_length_def)
    have l1: "length m1 = text_length contents" using writeB_nth(1) [OF m1] len by simp
    have slots: "\<forall>e\<in>set ?todo. slot_at (fst e) + 16 \<le> ?base" by (auto simp: slot_at_def set_zip)
    obtain m2 offset where m2: "foldR write_slot (m1, ?base) ?todo = Inr (m2, offset)" "length m2 = length m1"
        "\<forall>e\<in>set ?todo. slot_ok ?base m2 offset e" "has 0 (le 4 ?n) m2"
      using write_slots_ok [OF _ _ _ slots, of ?base m1 "[]" ?n] writeB_has [OF m1] sum l1 by (auto simp: text_length_def)
    moreover have "offset = text_length contents" using foldR_offset [OF m2(1)] sum by (simp add: text_length_def)
    ultimately show ?thesis using m1 l1 by (simp add: putN_def write_text_def)
  qed
  from map_file_ok [where body = "write_text contents" and fs = fs, OF assms(1) body] obtain m rest where m: "SerializeText os fs path contents = Inr (fs(path \<mapsto> m @ rest))"
      "has 0 (le 4 ?n) m" "\<forall>e\<in>set ?todo. slot_ok ?base m (text_length contents) e"
    unfolding SerializeText_def by blast
  have "has 0 (le 4 ?n) (m @ rest)" using m(2) by (simp add: has_def)
  then have "SizeText (m @ rest) = Inr (int ?n)" using assms(3) by (simp add: SizeText_def getN_has to_i32_small)
  moreover have "GetText (m @ rest) (int i) = Inr (contents ! i)" if "i < ?n" for i
  proof (rule slot_read)
    have "?todo ! i \<in> set ?todo" using that by (intro nth_mem) simp
    then show "slot_ok ?base m (text_length contents) (i, contents ! i)" using m(3) that by simp
  qed (use assms that in auto)
  ultimately show ?thesis using m(1) by blast
qed

section \<open>Properties\<close>

text \<open>
  A column of numbers that is written to a new file, or over a file that is not longer, and opened for the
  first time has as many values as were written, and reading each position gives the value.
\<close>

lemma column_roundtrip:
  fixes contents :: "u32 list"
  assumes "os_ok os path (4 * length contents)" "length contents < 2 ^ 31" "info path = None"
    "length (case fs path of None \<Rightarrow> [] | Some old \<Rightarrow> old) \<le> 4 * length contents"
  shows "\<exists>fs' col info'. SerializeColumn os fs path contents = Inr fs' \<and> OpenImpl os fs' info path = Inr (col, info')
    \<and> SizeInt32 col = int (length contents) \<and> (\<forall>i<length contents. GetInt32 col (int i) = Inr (contents ! i))"
proof -
  obtain m rest where m: "SerializeColumn os fs path contents = Inr (fs(path \<mapsto> m @ rest))" "length m = 4 * length contents"
      "rest = drop (4 * length contents) (case fs path of None \<Rightarrow> [] | Some old \<Rightarrow> old)"
      "\<forall>i<length contents. get_elem (m @ rest) (int i) = Inr (contents ! i)"
    using SerializeColumn_ok [of os path contents fs] assms(1) by auto
  have "rest = []" using m(3) assms(4) by simp
  moreover have "OpenImpl os (fs(path \<mapsto> m @ rest)) info path = Inr (m @ rest, info(path \<mapsto> m @ rest))"
    unfolding OpenImpl_def by (rule open_new [where len = "4 * length contents"]) (use assms(1,3) in simp_all)
  ultimately show ?thesis using m assms(2) by (auto simp: SizeInt32_def GetInt32_def to_i32_small)
qed

definition os_fine :: os where
  "os_fine = \<lparr>os_open = \<lambda>_. True, os_fallocate = \<lambda>_. True, os_mmap = \<lambda>_. True, os_munmap = \<lambda>_. True, os_close = \<lambda>_. True\<rparr>"

lemma os_fine_ok [simp]: "os_ok os_fine path len"
  by (simp add: os_ok_def os_fine_def)



end
