(* ===== verification/RtIndex.thy ===== *)
theory RtIndex
  imports RtColumn IndexBucket "HOL-Library.Multiset"
begin

unbundle bit_operations_syntax

text \<open>
  The index of a column in a file (\<^verbatim>\<open>runtime/column_index.cc\<close>): a hash array of positions, and at each position
  the first entry of a chain. An entry holds a key, the number of its rows, the position of the next entry of its chain
  and the rows. The order in which a hash map is traversed is an argument, \<^verbatim>\<open>std::hash\<close> of text as well. The
  template for numbers and its specialisation for text differ in the layout of an entry.
\<close>

section \<open>Hashing\<close>

definition Hash :: "u64 \<Rightarrow> u64" where
  "Hash k =
     (let m = 0xc6a4a7935bd1e995;
          h = 0x8445d61a4e774912 XOR (8 * m);
          k = k * m;
          k = k XOR drop_bit 47 k;
          k = k * m;
          h = h XOR k;
          h = h * m;
          h = h XOR drop_bit 47 h;
          h = h * m;
          h = h XOR drop_bit 47 h
      in h OR push_bit 63 1)"

text \<open>
  A signed number is extended with its sign and cut to its width again. The keys of the model are integers; a
  \<^verbatim>\<open>double\<close> is hashed by its bits, but the sources compare it by its value.
\<close>

definition ToUInt64 :: "'a::len word \<Rightarrow> u64" where
  "ToUInt64 key = (scast key) AND mask LENGTH('a)"

function find_bits :: "nat \<Rightarrow> nat \<Rightarrow> nat" where
  "find_bits n bits = (if 2 * 2 ^ bits < 3 * n then find_bits n (bits + 1) else bits)"
  by pat_completeness auto

termination
  by (relation "measure (\<lambda>(n, bits). 3 * n - 2 ^ bits)") (auto intro!: diff_less_mono2)

declare find_bits.simps [simp del]

section \<open>Chains\<close>

text \<open>The map from positions to their entries, in the order of the first insertion.\<close>

fun push_entry :: "nat \<Rightarrow> 'e \<Rightarrow> (nat \<times> 'e list) list \<Rightarrow> (nat \<times> 'e list) list" where
  "push_entry pos e [] = [(pos, [e])]"
| "push_entry pos e ((p, es) # al) = (if p = pos then (p, es @ [e]) # al else (p, es) # push_entry pos e al)"

definition pos_to_entries :: "('e \<Rightarrow> nat) \<Rightarrow> 'e list \<Rightarrow> (nat \<times> 'e list) list" where
  "pos_to_entries position index = foldl (\<lambda>al e. push_entry (position e) e al) [] index"

definition array_at :: "nat \<Rightarrow> nat" where
  "array_at pos = 8 + 8 * pos"

definition link_entry :: "nat \<Rightarrow> nat \<Rightarrow> bytes \<Rightarrow> nat \<Rightarrow> bytes res" where
  "link_entry nxt pos m off =
     bindR (getN 8 (array_at pos) m) (\<lambda>head.
     bindR (putN 8 (off + nxt) head m) (\<lambda>m.
       putN 8 (array_at pos) off m))"

definition write_entries :: "(nat \<Rightarrow> 'e \<Rightarrow> bytes \<Rightarrow> bytes res) \<Rightarrow> ('e \<Rightarrow> nat) \<Rightarrow> bytes \<times> nat \<times> nat list \<Rightarrow> 'e \<Rightarrow> (bytes \<times> nat \<times> nat list) res" where
  "write_entries wr width st e =
     (case st of (m, offset, offsets) \<Rightarrow> bindR (wr offset e m) (\<lambda>m. Inr (m, offset + width e, offsets @ [offset])))"

definition write_group :: "(nat \<Rightarrow> 'e \<Rightarrow> bytes \<Rightarrow> bytes res) \<Rightarrow> ('e \<Rightarrow> nat) \<Rightarrow> nat \<Rightarrow> bytes \<times> nat \<Rightarrow> nat \<times> 'e list \<Rightarrow> (bytes \<times> nat) res" where
  "write_group wr width nxt st grp =
     bindR (foldR (write_entries wr width) (fst st, snd st, []) (snd grp)) (\<lambda>(m, offset, offsets).
     bindR (foldR (link_entry nxt (fst grp)) m (rev offsets)) (\<lambda>m. Inr (m, offset)))"

definition write_index ::
    "(nat \<Rightarrow> 'e \<Rightarrow> bytes \<Rightarrow> bytes res) \<Rightarrow> ('e \<Rightarrow> nat) \<Rightarrow> nat \<Rightarrow> ('e \<Rightarrow> u64) \<Rightarrow> ((nat \<times> 'e list) list \<Rightarrow> (nat \<times> 'e list) list)
     \<Rightarrow> nat \<Rightarrow> 'e list \<Rightarrow> bytes \<Rightarrow> bytes res" where
  "write_index wr width nxt hash iter bits index m =
     (let mask = 2 ^ bits - 1 in
      bindR (putN 8 0 mask m) (\<lambda>m.
      bindR (writeB 8 (replicate (8 * 2 ^ bits) 0) m) (\<lambda>m.
      bindR (foldR (write_group wr width nxt) (m, 8 + 8 * 2 ^ bits)
               (iter (pos_to_entries (\<lambda>e. unat (hash e AND of_nat mask)) index))) (\<lambda>(m, offset). Inr m))))"

text \<open>Following a chain; with a cycle of positions it would not end.\<close>

partial_function (option) get_loop ::
    "(bytes \<Rightarrow> nat \<Rightarrow> 'k \<Rightarrow> bool res) \<Rightarrow> (bytes \<Rightarrow> nat \<Rightarrow> ColumnIndexBucket res) \<Rightarrow> nat \<Rightarrow> bytes \<Rightarrow> 'k \<Rightarrow> nat \<Rightarrow> ColumnIndexBucket ores" where
  "get_loop is_key bucket nxt m key pos =
     (if pos = 0 then Some (Inr EMPTY_bucket)
      else (case is_key m pos key of
              Inl e \<Rightarrow> Some (Inl e)
            | Inr found \<Rightarrow>
                if found then Some (bucket m pos)
                else (case getN 8 (pos + nxt) m of
                        Inl e \<Rightarrow> Some (Inl e)
                      | Inr next \<Rightarrow> get_loop is_key bucket nxt m key next)))"

definition get_bucket ::
    "(bytes \<Rightarrow> nat \<Rightarrow> 'k \<Rightarrow> bool res) \<Rightarrow> (bytes \<Rightarrow> nat \<Rightarrow> ColumnIndexBucket res) \<Rightarrow> nat \<Rightarrow> bytes \<Rightarrow> u64 \<Rightarrow> 'k \<Rightarrow> ColumnIndexBucket ores" where
  "get_bucket is_key bucket nxt m hash key =
     bindO (Some (getN 8 0 m)) (\<lambda>mask.
     bindO (Some (getN 8 (array_at (unat (hash AND of_nat mask))) m)) (\<lambda>pos.
       get_loop is_key bucket nxt m key pos))"

text \<open>The rows of an entry: they stay in the file, at the position behind the fields.\<close>

definition rows_at :: "nat \<Rightarrow> nat \<Rightarrow> bytes \<Rightarrow> int option list" where
  "rows_at off n m =
     map (\<lambda>i. case readB (off + 4 * i) 4 m of Inl e \<Rightarrow> None | Inr bs \<Rightarrow> Some (sint (bytes_word bs :: u32))) [0..<n]"

definition file_bucket :: "nat \<Rightarrow> nat \<Rightarrow> bytes \<Rightarrow> nat \<Rightarrow> ColumnIndexBucket res" where
  "file_bucket size_at header m pos =
     bindR (getN 8 (pos + size_at) m) (\<lambda>n.
       Inr \<lparr>bk_data = rows_at (pos + header) n m, bk_size = to_i32 n, bk_capacity = 0\<rparr>)"

section \<open>Numbers\<close>

text \<open>An entry of a number: the key, at 8 the number of rows, at 16 the next entry, at 24 the rows.\<close>

definition entry_width :: "'a::len word \<times> u32 list \<Rightarrow> nat" where
  "entry_width e = 24 + 4 * length (snd e)"

definition write_entry :: "nat \<Rightarrow> 'a::len word \<times> u32 list \<Rightarrow> bytes \<Rightarrow> bytes res" where
  "write_entry off e m =
     bindR (writeB off (word_bytes (fst e)) m) (\<lambda>m.
     bindR (putN 8 (off + 8) (length (snd e)) m) (\<lambda>m.
       writeB (off + 24) (concat (map word_bytes (snd e))) m))"

definition entry_key :: "bytes \<Rightarrow> nat \<Rightarrow> 'a::len word \<Rightarrow> bool res" where
  "entry_key m pos key = bindR (readB pos (LENGTH('a) div 8) m) (\<lambda>bs. Inr (bytes_word bs = key))"

definition index_length :: "('e \<Rightarrow> nat) \<Rightarrow> 'e list \<Rightarrow> nat" where
  "index_length width index = 8 + 8 * 2 ^ find_bits (length index) 1 + sum_list (map width index)"

definition SerializeIndex ::
    "((nat \<times> ('a::len word \<times> u32 list) list) list \<Rightarrow> (nat \<times> ('a word \<times> u32 list) list) list) \<Rightarrow> os \<Rightarrow> files \<Rightarrow> string
     \<Rightarrow> ('a word \<times> u32 list) list \<Rightarrow> files res" where
  "SerializeIndex iter os fs path index =
     map_file os fs path (index_length entry_width index)
       (write_index write_entry entry_width 16 (\<lambda>e. Hash (ToUInt64 (fst e))) iter (find_bits (length index) 1) index)"

definition IndexOpen :: "os \<Rightarrow> files \<Rightarrow> files \<Rightarrow> string \<Rightarrow> (bytes \<times> files) res" where
  "IndexOpen os fs info path = FileManagerOpen os fs info path"

definition GetImpl :: "bytes \<Rightarrow> 'a::len word \<Rightarrow> ColumnIndexBucket ores" where
  "GetImpl col key = get_bucket entry_key (file_bucket 8 24) 16 col (Hash (ToUInt64 key)) key"

section \<open>Text\<close>

text \<open>An entry of a text: its position and length, at 16 the number of rows, at 24 the next entry, at 32 the rows, and the characters.\<close>

definition text_width :: "string \<times> u32 list \<Rightarrow> nat" where
  "text_width e = 32 + 4 * length (snd e) + length (fst e) + 1"

definition write_text_entry :: "nat \<Rightarrow> string \<times> u32 list \<Rightarrow> bytes \<Rightarrow> bytes res" where
  "write_text_entry off e m =
     bindR (putN 8 (off + 8) (length (fst e)) m) (\<lambda>m.
     bindR (putN 8 (off + 16) (length (snd e)) m) (\<lambda>m.
     bindR (writeB (off + 32) (concat (map word_bytes (snd e))) m) (\<lambda>m.
     let offset = off + 32 + 4 * length (snd e) in
     bindR (putN 8 off offset m) (\<lambda>m.
       writeB offset (char_bytes (fst e) @ [0]) m))))"

definition text_key :: "bytes \<Rightarrow> nat \<Rightarrow> string \<Rightarrow> bool res" where
  "text_key m pos key =
     bindR (getN 8 pos m) (\<lambda>str_offset.
     bindR (getN 8 (pos + 8) m) (\<lambda>str_len.
     bindR (readB str_offset str_len m) (\<lambda>bs. Inr (bytes_chars bs = key))))"

definition SerializeTextIndex ::
    "(string \<Rightarrow> u64) \<Rightarrow> ((nat \<times> (string \<times> u32 list) list) list \<Rightarrow> (nat \<times> (string \<times> u32 list) list) list) \<Rightarrow> os \<Rightarrow> files \<Rightarrow> string
     \<Rightarrow> (string \<times> u32 list) list \<Rightarrow> files res" where
  "SerializeTextIndex hasher iter os fs path index =
     map_file os fs path (index_length text_width index)
       (write_index write_text_entry text_width 24 (\<lambda>e. hasher (fst e)) iter (find_bits (length index) 1) index)"

definition GetTextBucket :: "(string \<Rightarrow> u64) \<Rightarrow> bytes \<Rightarrow> string \<Rightarrow> ColumnIndexBucket ores" where
  "GetTextBucket hasher col key = get_bucket text_key (file_bucket 16 32) 24 col (hasher key) key"

end
