(* ===== verification/RtIndexCorrect.thy ===== *)
theory RtIndexCorrect
  imports RtIndex
begin

text \<open>
  What is written to an index is found again. The part that does not depend on the layout of an entry is proved once, in
  a locale: each position of the array begins the chain of its entries. Both layouts are interpretations.
\<close>

section \<open>Groups of entries\<close>

lemma push_entry_keys: "set (map fst (push_entry pos e al)) = insert pos (set (map fst al))"
  by (induction pos e al rule: push_entry.induct) auto

lemma push_entry_distinct: "distinct (map fst al) \<Longrightarrow> distinct (map fst (push_entry pos e al))"
proof (induction pos e al rule: push_entry.induct)
  case (2 pos e p es al)
  then show ?case using push_entry_keys [of pos e al] by (cases "p = pos") auto
qed simp

lemma push_entry_lookup:
  "map_of (push_entry pos e al) p = (if p = pos then Some ((case map_of al pos of None \<Rightarrow> [] | Some es \<Rightarrow> es) @ [e]) else map_of al p)"
  by (induction pos e al rule: push_entry.induct) auto

lemma pos_to_entries_groups:
  "distinct (map fst (pos_to_entries f xs)) \<and>
   (\<forall>p. map_of (pos_to_entries f xs) p = (let es = filter (\<lambda>e. f e = p) xs in if es = [] then None else Some es))"
proof (induction xs rule: rev_induct)
  case (snoc x xs)
  have "pos_to_entries f (xs @ [x]) = push_entry (f x) x (pos_to_entries f xs)" by (simp add: pos_to_entries_def)
  then show ?case using snoc push_entry_distinct by (auto simp: push_entry_lookup Let_def)
qed (simp add: pos_to_entries_def)

lemma hash_position: "bits < 64 \<Longrightarrow> unat (h AND of_nat (2 ^ bits - 1) :: u64) < 2 ^ bits"
proof -
  assume "bits < 64"
  have "(of_nat (2 ^ bits - 1) :: u64) = mask bits" by (simp add: mask_eq_exp_minus_1 of_nat_diff)
  then have "unat (h AND of_nat (2 ^ bits - 1) :: u64) = take_bit bits (unat h)"
    by (simp add: unsigned_take_bit_eq flip: take_bit_eq_mask)
  then show ?thesis by (simp add: take_bit_eq_mod)
qed

lemma map_of_eqI_set: "distinct (map fst xs) \<Longrightarrow> distinct (map fst ys) \<Longrightarrow> set xs = set ys \<Longrightarrow> map_of xs = map_of ys"
  by (rule ext) (metis map_of_eq_Some_iff not_Some_eq)

section \<open>Chains\<close>

locale chained_entries =
  fixes wr :: "nat \<Rightarrow> 'e \<Rightarrow> bytes \<Rightarrow> bytes res" and width :: "'e \<Rightarrow> nat" and nxt :: nat
    and stored :: "bytes \<Rightarrow> nat \<Rightarrow> 'e \<Rightarrow> bool"
    and ok :: "'e \<Rightarrow> bool"
    and key :: "'e \<Rightarrow> 'k" and is_key :: "bytes \<Rightarrow> nat \<Rightarrow> 'k \<Rightarrow> bool res"
    and bucket :: "bytes \<Rightarrow> nat \<Rightarrow> ColumnIndexBucket res" and rows :: "'e \<Rightarrow> ColumnIndexBucket"
  assumes width_pos: "nxt + 8 \<le> width e"
    and wr_ok: "ok e \<Longrightarrow> off + width e \<le> length m \<Longrightarrow> length m < 2 ^ 64 \<Longrightarrow>
      \<exists>m'. wr off e m = Inr m' \<and> stored m' off e \<and> agree {off..<off + width e} m m'"
    and stored_agree: "stored m off e \<Longrightarrow> agree S m m' \<Longrightarrow> S \<inter> {off..<off + width e} \<subseteq> {off + nxt..<off + nxt + 8} \<Longrightarrow> stored m' off e"
    and stored_key: "stored m off e \<Longrightarrow> is_key m off k = Inr (key e = k)"
    and stored_rows: "stored m off e \<Longrightarrow> bucket m off = Inr (rows e)"
begin

fun chain :: "nat \<Rightarrow> nat \<Rightarrow> bytes \<Rightarrow> nat \<Rightarrow> 'e list \<Rightarrow> bool" where
  "chain lo hi m p [] \<longleftrightarrow> p = 0"
| "chain lo hi m p (e # es) \<longleftrightarrow> 0 < p \<and> lo \<le> p \<and> p + width e \<le> hi \<and> stored m p e
     \<and> (\<exists>q. has (p + nxt) (le 8 q) m \<and> q < 2 ^ 64 \<and> chain lo hi m q es)"

lemma chain_agree:
  assumes "chain lo hi m p es" "agree S m m'" "S \<inter> {lo..<hi} = {}"
  shows "chain lo hi m' p es"
  using assms(1)
proof (induction es arbitrary: p)
  case (Cons e es)
  then obtain q where q: "0 < p" "lo \<le> p" "p + width e \<le> hi" "stored m p e" "has (p + nxt) (le 8 q) m" "q < 2 ^ 64" "chain lo hi m q es" by auto
  have "{p..<p + width e} \<subseteq> {lo..<hi}" using q by auto
  then have sub: "S \<inter> {p..<p + width e} = {}" using assms(3) by blast
  have "stored m' p e" by (rule stored_agree [OF q(4) assms(2)]) (use sub in blast)
  moreover have "has (p + nxt) (le 8 q) m'"
    by (rule agree_has [OF q(5) assms(2)]) (use sub width_pos [of e] in \<open>auto simp: disjoint_iff\<close>)
  ultimately show ?case using q(1-3,6) Cons.IH [OF q(7)] by auto
qed simp

lemma chain_widen: "chain lo hi m p es \<Longrightarrow> lo' \<le> lo \<Longrightarrow> hi \<le> hi' \<Longrightarrow> chain lo' hi' m p es"
  by (induction es arbitrary: p) fastforce+

lemma get_chain:
  assumes "chain lo hi m p es"
  shows "get_loop is_key bucket nxt m k p = Some (Inr (case find (\<lambda>e. key e = k) es of None \<Rightarrow> EMPTY_bucket | Some e \<Rightarrow> rows e))"
  using assms
proof (induction es arbitrary: p)
  case (Cons e es)
  then obtain q where q: "0 < p" "stored m p e" "has (p + nxt) (le 8 q) m" "q < 2 ^ 64" "chain lo hi m q es" by auto
  have "getN 8 (p + nxt) m = Inr q" by (rule getN_has [OF q(3)]) (use q(4) in simp)
  then show ?case using q(1) stored_key [OF q(2), of k] stored_rows [OF q(2)] Cons.IH [OF q(5)]
    by (subst get_loop.simps) simp
qed (simp add: get_loop.simps)

text \<open>The entries of a group, one behind the other.\<close>

fun placed :: "nat \<Rightarrow> (nat \<times> 'e) list \<Rightarrow> nat \<Rightarrow> bool" where
  "placed lo [] hi \<longleftrightarrow> lo = hi"
| "placed lo ((p, e) # oes) hi \<longleftrightarrow> p = lo \<and> placed (lo + width e) oes hi"

lemma placed_le: "placed lo oes hi \<Longrightarrow> lo \<le> hi"
  by (induction lo oes hi rule: placed.induct) auto

lemma placed_entry: "placed lo oes hi \<Longrightarrow> (p, e) \<in> set oes \<Longrightarrow> lo \<le> p \<and> p + width e \<le> hi"
proof (induction lo oes hi rule: placed.induct)
  case (2 lo p' e' oes hi)
  then show ?case using placed_le [of "lo + width e'" oes hi] by auto
qed simp

lemma entries_written:
  assumes "offset + sum_list (map width es) \<le> length m" "length m < 2 ^ 64" "\<And>e. e \<in> set es \<Longrightarrow> ok e"
  shows "\<exists>m' oes. foldR (write_entries wr width) (m, offset, offs) es = Inr (m', offset + sum_list (map width es), offs @ map fst oes)
    \<and> map snd oes = es \<and> placed offset oes (offset + sum_list (map width es)) \<and> (\<forall>(p, e)\<in>set oes. stored m' p e)
    \<and> agree {offset..<offset + sum_list (map width es)} m m'"
  using assms
proof (induction es arbitrary: m offset offs)
  case (Cons e es)
  obtain m1 where m1: "wr offset e m = Inr m1" "stored m1 offset e" "agree {offset..<offset + width e} m m1"
    using wr_ok [of e offset m] Cons.prems by auto
  note len = agree_length [OF m1(3)]
  have "\<exists>m' oes. foldR (write_entries wr width) (m1, offset + width e, offs @ [offset]) es
        = Inr (m', offset + width e + sum_list (map width es), (offs @ [offset]) @ map fst oes)
      \<and> map snd oes = es \<and> placed (offset + width e) oes (offset + width e + sum_list (map width es)) \<and> (\<forall>(p, e)\<in>set oes. stored m' p e)
      \<and> agree {offset + width e..<offset + width e + sum_list (map width es)} m1 m'"
    by (rule Cons.IH) (use Cons.prems len in auto)
  then obtain m' oes where r: "foldR (write_entries wr width) (m1, offset + width e, offs @ [offset]) es
        = Inr (m', offset + width e + sum_list (map width es), (offs @ [offset]) @ map fst oes)"
      "map snd oes = es" "placed (offset + width e) oes (offset + width e + sum_list (map width es))" "\<forall>(p, e)\<in>set oes. stored m' p e"
      "agree {offset + width e..<offset + width e + sum_list (map width es)} m1 m'" by blast
  have "stored m' offset e" by (rule stored_agree [OF m1(2) r(5)]) auto
  moreover have "agree {offset..<offset + width e + sum_list (map width es)} m m'" by (rule agree_trans [OF m1(3) r(5)]) auto
  moreover have "write_entries wr width (m, offset, offs) e = Inr (m1, offset + width e, offs @ [offset])"
    using m1(1) by (simp add: write_entries_def)
  ultimately show ?case using r(1-4) by (intro exI [of _ m'] exI [of _ "(offset, e) # oes"]) (simp add: add.assoc)
qed (auto intro!: exI [of _ "[]"])

lemma entries_linked:
  assumes "placed lo oes hi" "\<forall>(p, e)\<in>set oes. stored m p e" "0 < lo" "hi \<le> length m" "length m < 2 ^ 64"
    "array_at pos + 8 \<le> lo" "has (array_at pos) (le 8 0) m"
  shows "\<exists>m' head. foldR (link_entry nxt pos) m (rev (map fst oes)) = Inr m' \<and> has (array_at pos) (le 8 head) m' \<and> head < 2 ^ 64
    \<and> chain lo hi m' head (map snd oes) \<and> agree ({array_at pos..<array_at pos + 8} \<union> {lo..<hi}) m m'"
  using assms
proof (induction oes arbitrary: lo)
  case (Cons oe oes)
  obtain p e where oe: "oe = (p, e)" by (cases oe)
  have p: "p = lo" "placed (lo + width e) oes hi" using Cons.prems(1) by (simp_all add: oe)
  have hi: "lo + width e \<le> hi" by (rule placed_le [OF p(2)])
  have prem: "\<forall>(p, e)\<in>set oes. stored m p e" "0 < lo + width e" "array_at pos + 8 \<le> lo + width e" using Cons.prems(2,3,6) by auto
  obtain m1 head where m1: "foldR (link_entry nxt pos) m (rev (map fst oes)) = Inr m1" "has (array_at pos) (le 8 head) m1" "head < 2 ^ 64"
      "chain (lo + width e) hi m1 head (map snd oes)" "agree ({array_at pos..<array_at pos + 8} \<union> {lo + width e..<hi}) m m1"
    using Cons.IH [OF p(2) prem(1,2) Cons.prems(4,5) prem(3) Cons.prems(7)] by blast
  note len1 = agree_length [OF m1(5)]
  have st1: "stored m1 lo e" by (rule stored_agree [OF _ m1(5)]) (use Cons.prems(2,6) p(1) in \<open>auto simp: oe\<close>)
  obtain m2 where m2: "putN 8 (lo + nxt) head m1 = Inr m2" "has (lo + nxt) (le 8 head) m2" "agree {lo + nxt..<lo + nxt + 8} m1 m2"
    using putN_ok [of "lo + nxt" 8 m1 head] len1 hi Cons.prems(4) width_pos [of e] by auto
  note len2 = agree_length [OF m2(3)]
  obtain m3 where m3: "putN 8 (array_at pos) lo m2 = Inr m3" "has (array_at pos) (le 8 lo) m3" "agree {array_at pos..<array_at pos + 8} m2 m3"
    using putN_ok [of "array_at pos" 8 m2 lo] len1 len2 hi Cons.prems(4,6) by auto
  have "getN 8 (array_at pos) m1 = Inr head" by (rule getN_has [OF m1(2)]) (use m1(3) in simp)
  then have run: "foldR (link_entry nxt pos) m (rev (map fst (oe # oes))) = Inr m3"
    using m1(1) m2(1) m3(1) p(1) by (simp add: oe foldR_append link_entry_def)
  have st3: "stored m3 lo e"
    by (rule stored_agree [OF stored_agree [OF st1 m2(3)] m3(3)]) (use Cons.prems(6) in auto)
  have next3: "has (lo + nxt) (le 8 head) m3" by (rule agree_has [OF m2(2) m3(3)]) (use Cons.prems(6) in auto)
  have ag12: "agree ({array_at pos..<array_at pos + 8} \<union> {lo + nxt..<lo + nxt + 8}) m1 m3" by (rule agree_trans [OF m2(3) m3(3)]) auto
  have "chain (lo + width e) hi m3 head (map snd oes)"
    by (rule chain_agree [OF m1(4) ag12]) (use Cons.prems(6) width_pos [of e] in auto)
  then have "chain lo hi m3 lo (map snd (oe # oes))"
    using chain_widen [of "lo + width e" hi m3 head "map snd oes" lo hi] Cons.prems(3) hi st3 next3 m1(3) by (auto simp: oe)
  moreover have "agree ({array_at pos..<array_at pos + 8} \<union> {lo..<hi}) m m3"
    by (rule agree_trans [OF m1(5) ag12]) (use hi width_pos [of e] in auto)
  moreover have "lo < 2 ^ 64" using hi Cons.prems(4,5) by simp
  ultimately show ?case using run m3(2) by blast
qed (auto intro!: exI [of _ 0])

lemma group_written:
  assumes "offset + sum_list (map width es) \<le> length m" "length m < 2 ^ 64" "\<And>e. e \<in> set es \<Longrightarrow> ok e" "array_at pos + 8 \<le> offset"
    "has (array_at pos) (le 8 0) m"
  defines "offset' \<equiv> offset + sum_list (map width es)"
  shows "\<exists>m' head. write_group wr width nxt (m, offset) (pos, es) = Inr (m', offset') \<and> has (array_at pos) (le 8 head) m' \<and> head < 2 ^ 64
    \<and> chain offset offset' m' head es \<and> agree ({array_at pos..<array_at pos + 8} \<union> {offset..<offset'}) m m'"
proof -
  obtain m1 oes where m1: "foldR (write_entries wr width) (m, offset, []) es = Inr (m1, offset', map fst oes)" "map snd oes = es"
      "placed offset oes offset'" "\<forall>(p, e)\<in>set oes. stored m1 p e" "agree {offset..<offset'} m m1"
    using entries_written [OF assms(1-3), of "[]"] unfolding offset'_def by auto
  note len = agree_length [OF m1(5)]
  have zero: "has (array_at pos) (le 8 0) m1" by (rule agree_has [OF assms(5) m1(5)]) (use assms(4) in auto)
  obtain m2 head where m2: "foldR (link_entry nxt pos) m1 (rev (map fst oes)) = Inr m2" "has (array_at pos) (le 8 head) m2" "head < 2 ^ 64"
      "chain offset offset' m2 head es" "agree ({array_at pos..<array_at pos + 8} \<union> {offset..<offset'}) m1 m2"
    using entries_linked [OF m1(3,4) _ _ _ assms(4) zero] assms(1,2,4) len m1(2) by (auto simp: offset'_def)
  have "agree ({array_at pos..<array_at pos + 8} \<union> {offset..<offset'}) m m2" by (rule agree_trans [OF m1(5) m2(5)]) auto
  then show ?thesis using m1(1) m2(1-4) by (auto simp: write_group_def)
qed

definition heads :: "nat \<Rightarrow> nat \<Rightarrow> nat \<Rightarrow> bytes \<Rightarrow> (nat \<Rightarrow> 'e list) \<Rightarrow> bool" where
  "heads n lo hi m G \<longleftrightarrow> (\<forall>p<n. \<exists>head. has (array_at p) (le 8 head) m \<and> head < 2 ^ 64 \<and> chain lo hi m head (G p))"

lemma heads_after:
  assumes "heads n lo hi m G" "pos < n" "lo = array_at n" "lo \<le> hi" "hi \<le> hi'" "agree ({array_at pos..<array_at pos + 8} \<union> {hi..<hi'}) m m'"
    "has (array_at pos) (le 8 head) m'" "head < 2 ^ 64" "chain hi hi' m' head es"
  shows "heads n lo hi' m' (G(pos := es))"
  unfolding heads_def
proof (intro allI impI)
  fix p assume p: "p < n"
  show "\<exists>head. has (array_at p) (le 8 head) m' \<and> head < 2 ^ 64 \<and> chain lo hi' m' head ((G(pos := es)) p)"
  proof (cases "p = pos")
    case True
    then show ?thesis using assms(4,5,7-9) chain_widen [of hi hi' m' head es lo hi'] by auto
  next
    case False
    obtain h where h: "has (array_at p) (le 8 h) m" "h < 2 ^ 64" "chain lo hi m h (G p)" using assms(1) p by (auto simp: heads_def)
    have slots: "array_at p + 8 \<le> lo" "array_at pos + 8 \<le> lo" "array_at p + 8 \<le> array_at pos \<or> array_at pos + 8 \<le> array_at p"
      using assms(2,3) p False by (auto simp: array_at_def)
    have "has (array_at p) (le 8 h) m'" by (rule agree_has [OF h(1) assms(6)]) (use slots assms(4) in auto)
    moreover have "chain lo hi m' h (G p)" by (rule chain_agree [OF h(3) assms(6)]) (use slots in auto)
    ultimately show ?thesis using h(2) False chain_widen [of lo hi m' h "G p" lo hi'] assms(5) by auto
  qed
qed

lemma groups_written:
  assumes "heads n lo hi m G" "lo = array_at n" "lo \<le> hi" "distinct (map fst gs)"
    "\<forall>(p, es)\<in>set gs. p < n \<and> G p = [] \<and> (\<forall>e\<in>set es. ok e)"
    "hi + sum_list (map (\<lambda>g. sum_list (map width (snd g))) gs) \<le> length m" "length m < 2 ^ 64"
  shows "\<exists>m' hi'. foldR (write_group wr width nxt) (m, hi) gs = Inr (m', hi') \<and> agree {8..} m m'
    \<and> heads n lo hi' m' (\<lambda>p. case map_of gs p of None \<Rightarrow> G p | Some es \<Rightarrow> es)"
  using assms
proof (induction gs arbitrary: m hi G)
  case (Cons g gs)
  obtain pos es where g: "g = (pos, es)" by (cases g)
  have pos: "pos < n" "G pos = []" "\<And>e. e \<in> set es \<Longrightarrow> ok e" using Cons.prems(5) by (auto simp: g)
  have zero: "has (array_at pos) (le 8 0) m" using Cons.prems(1) pos(1,2) by (auto simp: heads_def)
  have slot: "array_at pos + 8 \<le> hi" using pos(1) Cons.prems(2,3) by (simp add: array_at_def)
  define hi' where "hi' = hi + sum_list (map width es)"
  obtain m1 head where m1: "write_group wr width nxt (m, hi) (pos, es) = Inr (m1, hi')" "has (array_at pos) (le 8 head) m1" "head < 2 ^ 64"
      "chain hi hi' m1 head es" "agree ({array_at pos..<array_at pos + 8} \<union> {hi..<hi'}) m m1"
    using group_written [of hi es m pos, OF _ Cons.prems(7) pos(3) slot zero] Cons.prems(6) by (auto simp: g hi'_def)
  have "hi \<le> hi'" by (simp add: hi'_def)
  note after = heads_after [OF Cons.prems(1) pos(1) Cons.prems(2,3) this m1(5,2,3,4)]
  have "\<exists>m' hi''. foldR (write_group wr width nxt) (m1, hi') gs = Inr (m', hi'') \<and> agree {8..} m1 m'
      \<and> heads n lo hi'' m' (\<lambda>p. case map_of gs p of None \<Rightarrow> (G(pos := es)) p | Some es \<Rightarrow> es)"
  proof (rule Cons.IH [OF after Cons.prems(2)])
    show "\<forall>(p, esa)\<in>set gs. p < n \<and> (G(pos := es)) p = [] \<and> (\<forall>e\<in>set esa. ok e)" using Cons.prems(4,5) by (force simp: g)
  qed (use Cons.prems agree_length [OF m1(5)] in \<open>auto simp: g hi'_def\<close>)
  then obtain m' hi'' where r: "foldR (write_group wr width nxt) (m1, hi') gs = Inr (m', hi'')" "agree {8..} m1 m'"
      "heads n lo hi'' m' (\<lambda>p. case map_of gs p of None \<Rightarrow> (G(pos := es)) p | Some es \<Rightarrow> es)" by blast
  have "agree {8..} m m'" by (rule agree_trans [OF m1(5) r(2)]) (use slot in \<open>auto simp: array_at_def\<close>)
  moreover have "(\<lambda>p. case map_of gs p of None \<Rightarrow> (G(pos := es)) p | Some es \<Rightarrow> es) = (\<lambda>p. case map_of (g # gs) p of None \<Rightarrow> G p | Some es \<Rightarrow> es)"
  proof
    fix p
    have "map_of gs pos = None" using Cons.prems(4) by (simp add: g map_of_eq_None_iff)
    then show "(case map_of gs p of None \<Rightarrow> (G(pos := es)) p | Some es \<Rightarrow> es) = (case map_of (g # gs) p of None \<Rightarrow> G p | Some es \<Rightarrow> es)"
      by (auto simp: g split: option.split)
  qed
  ultimately show ?case using r(1,3) m1(1) by (auto simp: g)
qed simp

lemma sum_push: "sum_list (map (\<lambda>g. sum_list (map width (snd g))) (push_entry pos e al)) = sum_list (map (\<lambda>g. sum_list (map width (snd g))) al) + width e"
  by (induction pos e al rule: push_entry.induct) auto

lemma sum_groups: "sum_list (map (\<lambda>g. sum_list (map width (snd g))) (pos_to_entries f xs)) = sum_list (map width xs)"
proof (induction xs rule: rev_induct)
  case (snoc x xs)
  have "pos_to_entries f (xs @ [x]) = push_entry (f x) x (pos_to_entries f xs)" by (simp add: pos_to_entries_def)
  then show ?case using snoc by (simp add: sum_push)
qed (simp add: pos_to_entries_def)

lemma heads_empty:
  assumes "has 8 (replicate (8 * n) 0) m"
  shows "heads n (array_at n) (array_at n) m (\<lambda>_. [])"
proof -
  have zeros: "le k 0 = replicate k 0" for k by (induction k) simp_all
  have "has (array_at p) (le 8 0) m" if p: "p < n" for p
  proof -
    have n: "8 * n = 8 * p + (8 + 8 * (n - p - 1))" using p by (cases n) (simp_all add: algebra_simps)
    have "has 8 (replicate (8 * p) 0 @ replicate 8 0 @ replicate (8 * (n - p - 1)) 0) m"
      using assms unfolding n replicate_add .
    then show ?thesis by (simp only: has_append array_at_def zeros length_replicate)
  qed
  then show ?thesis by (auto simp: heads_def)
qed

lemma index_written:
  assumes "length m = 8 + 8 * 2 ^ bits + sum_list (map width index)" "length m < 2 ^ 64" "\<And>e. e \<in> set index \<Longrightarrow> ok e"
    "\<And>xs. mset (iter xs) = mset xs"
  shows "\<exists>m'. write_index wr width nxt hash iter bits index m = Inr m' \<and> length m' = length m \<and> has 0 (le 8 (2 ^ bits - 1)) m'
    \<and> (\<exists>hi. heads (2 ^ bits) (array_at (2 ^ bits)) hi m' (\<lambda>p. filter (\<lambda>e. unat (hash e AND of_nat (2 ^ bits - 1)) = p) index))"
proof -
  let ?pos = "\<lambda>e. unat (hash e AND of_nat (2 ^ bits - 1))"
  let ?groups = "pos_to_entries ?pos index"
  have bits: "bits < 64"
  proof (rule ccontr)
    assume "\<not> bits < 64"
    then have "(2 :: nat) ^ 64 \<le> 2 ^ bits" by (intro power_increasing) simp_all
    then show False using assms(1,2) by simp
  qed
  obtain m1 where m1: "putN 8 0 (2 ^ bits - 1) m = Inr m1" "has 0 (le 8 (2 ^ bits - 1)) m1" "agree {0..<8} m m1"
    using putN_ok [of 0 8 m "2 ^ bits - 1"] assms(1) by auto
  obtain m2 where m2: "writeB 8 (replicate (8 * 2 ^ bits) 0) m1 = Inr m2"
    using writeB_total [of 8 "replicate (8 * 2 ^ bits) 0" m1] assms(1) agree_length [OF m1(3)] by auto
  have ag2: "agree {8..<8 + 8 * 2 ^ bits} m1 m2" using writeB_agree [OF m2] by simp
  have len2: "length m2 = length m" using agree_length [OF ag2] agree_length [OF m1(3)] by simp
  have mask2: "has 0 (le 8 (2 ^ bits - 1)) m2" by (rule agree_has [OF m1(2) ag2]) auto
  have heads2: "heads (2 ^ bits) (array_at (2 ^ bits)) (array_at (2 ^ bits)) m2 (\<lambda>_. [])" by (rule heads_empty [OF writeB_has [OF m2]])
  have groups: "distinct (map fst ?groups)" "\<And>p. map_of ?groups p = (let es = filter (\<lambda>e. ?pos e = p) index in if es = [] then None else Some es)"
    using pos_to_entries_groups [of ?pos index] by auto
  have small: "?pos e < 2 ^ bits" for e using bits by (rule hash_position)
  have fsts: "mset (map fst (iter ?groups)) = mset (map fst ?groups)" using assms(4) [of ?groups] by simp
  have dist: "distinct (map fst (iter ?groups))" using groups(1) mset_eq_imp_distinct_iff [OF fsts] by simp
  have sets: "set (iter ?groups) = set ?groups" using assms(4) [of ?groups] by (rule mset_eq_setD)
  have of_iter: "map_of (iter ?groups) = map_of ?groups" by (rule map_of_eqI_set [OF dist groups(1) sets])
  have total: "sum_list (map (\<lambda>g. sum_list (map width (snd g))) (iter ?groups)) = sum_list (map width index)"
    using sum_groups [of ?pos index] arg_cong [OF assms(4) [of ?groups], of "\<lambda>M. sum_mset (image_mset (\<lambda>g. sum_list (map width (snd g))) M)"]
    by (simp flip: mset_map add: sum_mset_sum_list)
  have each: "\<forall>(p, es)\<in>set (iter ?groups). p < 2 ^ bits \<and> [] = [] \<and> (\<forall>e\<in>set es. ok e)"
  proof (intro ballI, clarify)
    fix p es assume "(p, es) \<in> set (iter ?groups)"
    then have "map_of ?groups p = Some es" using groups(1) sets by (simp add: map_of_eq_Some_iff)
    then have "es = filter (\<lambda>e. ?pos e = p) index" "es \<noteq> []" unfolding groups(2) Let_def by (auto split: if_splits)
    then show "p < 2 ^ bits \<and> [] = [] \<and> (\<forall>e\<in>set es. ok e)" using small assms(3) by (fastforce simp: filter_empty_conv)
  qed
  obtain m3 hi where m3: "foldR (write_group wr width nxt) (m2, array_at (2 ^ bits)) (iter ?groups) = Inr (m3, hi)" "agree {8..} m2 m3"
      "heads (2 ^ bits) (array_at (2 ^ bits)) hi m3 (\<lambda>p. case map_of (iter ?groups) p of None \<Rightarrow> [] | Some es \<Rightarrow> es)"
    using groups_written [OF heads2 refl order_refl dist each] len2 assms(1,2) total by (auto simp: array_at_def)
  have lists: "(case map_of (iter ?groups) p of None \<Rightarrow> [] | Some es \<Rightarrow> es) = filter (\<lambda>e. ?pos e = p) index" for p
    unfolding of_iter groups(2) by (simp add: Let_def)
  have heads3: "heads (2 ^ bits) (array_at (2 ^ bits)) hi m3 (\<lambda>p. filter (\<lambda>e. ?pos e = p) index)"
    using m3(3) unfolding lists .
  have "write_index wr width nxt hash iter bits index m = Inr m3"
    using m1(1) m2 m3(1) by (simp add: write_index_def array_at_def Let_def)
  moreover have "has 0 (le 8 (2 ^ bits - 1)) m3" by (rule agree_has [OF mask2 m3(2)]) auto
  ultimately show ?thesis using agree_length [OF m3(2)] len2 heads3 by auto
qed

lemma index_read:
  assumes "heads (2 ^ bits) lo hi m (\<lambda>p. filter (\<lambda>e. unat (hash (key e) AND of_nat (2 ^ bits - 1)) = p) index)" "has 0 (le 8 (2 ^ bits - 1)) m" "bits < 64"
  shows "get_bucket is_key bucket nxt m (hash k) k = Some (Inr (case find (\<lambda>e. key e = k) index of None \<Rightarrow> EMPTY_bucket | Some e \<Rightarrow> rows e))"
proof -
  let ?pos = "\<lambda>k. unat (hash k AND of_nat (2 ^ bits - 1))"
  have "(2 :: nat) ^ bits < 2 ^ 64" using assms(3) by (intro power_strict_increasing) simp_all
  then have mask: "getN 8 0 m = Inr (2 ^ bits - 1)" by (intro getN_has [OF assms(2)]) simp
  obtain head where head: "has (array_at (?pos k)) (le 8 head) m" "head < 2 ^ 64" "chain lo hi m head (filter (\<lambda>e. ?pos (key e) = ?pos k) index)"
    using assms(1) hash_position [OF assms(3), of "hash k"] unfolding heads_def by blast
  have "getN 8 (array_at (?pos k)) m = Inr head" by (rule getN_has [OF head(1)]) (use head(2) in simp)
  moreover have "find (\<lambda>e. key e = k) (filter (\<lambda>e. ?pos (key e) = ?pos k) index) = find (\<lambda>e. key e = k) index"
    by (induction index) auto
  ultimately show ?thesis using mask get_chain [OF head(3), of k] by (simp add: get_bucket_def)
qed

end

section \<open>The two layouts\<close>

definition rows_bucket :: "u32 list \<Rightarrow> ColumnIndexBucket" where
  "rows_bucket vs = \<lparr>bk_data = map (\<lambda>v. Some (sint v)) vs, bk_size = int (length vs), bk_capacity = 0\<rparr>"

lemma rows_at_has:
  assumes "has off (concat (map word_bytes vs)) m"
  shows "rows_at off (length vs) m = map (\<lambda>v. Some (sint (v :: u32))) vs"
proof -
  have "readB (off + 4 * i) 4 m = Inr (word_bytes (vs ! i))" if "i < length vs" for i
    using has_concat [OF assms, of 4 i] that by (simp add: readB_has mult.commute)
  then show ?thesis by (auto simp: rows_at_def bytes_word_bytes intro!: nth_equalityI)
qed

lemma length_rows [simp]: "length (concat (map word_bytes (vs :: u32 list))) = 4 * length vs"
  by (subst length_concat_const [where w = 4]) simp_all

lemma file_bucket_has:
  assumes "has (off + size_at) (le 8 (length vs)) m" "has (off + header) (concat (map word_bytes vs)) m" "length vs < 2 ^ 31"
  shows "file_bucket size_at header m off = Inr (rows_bucket vs)"
  using getN_has [OF assms(1)] rows_at_has [OF assms(2)] assms(3) by (simp add: file_bucket_def rows_bucket_def to_i32_small)

definition entry_ok :: "'a::len word \<times> u32 list \<Rightarrow> bool" where
  "entry_ok e \<longleftrightarrow> LENGTH('a) \<in> {8, 16, 32, 64} \<and> length (snd e) < 2 ^ 31"

definition entry_stored :: "bytes \<Rightarrow> nat \<Rightarrow> 'a::len word \<times> u32 list \<Rightarrow> bool" where
  "entry_stored m off e \<longleftrightarrow> entry_ok e \<and> has off (word_bytes (fst e)) m \<and> has (off + 8) (le 8 (length (snd e))) m
     \<and> has (off + 24) (concat (map word_bytes (snd e))) m"

interpretation numbers: chained_entries write_entry entry_width 16 entry_stored entry_ok fst entry_key "file_bucket 8 24" "\<lambda>e. rows_bucket (snd e)"
proof
  show "16 + 8 \<le> entry_width e" for e by (simp add: entry_width_def)
next
  fix e :: "'a word \<times> u32 list" and off and m :: bytes
  assume a: "entry_ok e" "off + entry_width e \<le> length m"
  have w: "LENGTH('a) div 8 \<le> 8" using a(1) by (auto simp: entry_ok_def)
  obtain m1 where m1: "writeB off (word_bytes (fst e)) m = Inr m1" using writeB_total [of off "word_bytes (fst e)" m] a(2) w by (auto simp: entry_width_def)
  note l1 = agree_length [OF writeB_agree [OF m1]]
  obtain m2 where m2: "putN 8 (off + 8) (length (snd e)) m1 = Inr m2" "has (off + 8) (le 8 (length (snd e))) m2" "agree {off + 8..<off + 8 + 8} m1 m2"
    using putN_ok [of "off + 8" 8 m1 "length (snd e)"] a(2) l1 by (auto simp: entry_width_def)
  note l2 = agree_length [OF m2(3)]
  obtain m3 where m3: "writeB (off + 24) (concat (map word_bytes (snd e))) m2 = Inr m3"
    using writeB_total [of "off + 24" "concat (map word_bytes (snd e))" m2] a(2) l1 l2 by (auto simp: entry_width_def)
  have ag3: "agree {off + 24..<off + entry_width e} m2 m3" using writeB_agree [OF m3] by (simp add: entry_width_def add.assoc)
  have ag1: "agree {off..<off + 8} m m1" by (rule agree_mono [OF writeB_agree [OF m1]]) (use w in auto)
  have "has off (word_bytes (fst e)) m3"
    by (rule agree_has [OF agree_has [OF writeB_has [OF m1] m2(3)] ag3]) (use w in auto)
  moreover have "has (off + 8) (le 8 (length (snd e))) m3" by (rule agree_has [OF m2(2) ag3]) auto
  ultimately have "entry_stored m3 off e" using writeB_has [OF m3] a(1) by (simp add: entry_stored_def)
  moreover have "agree {off..<off + entry_width e} m m3"
    by (rule agree_trans [OF ag1 agree_trans [OF m2(3) ag3 subset_refl]]) (auto simp: entry_width_def)
  ultimately show "\<exists>m'. write_entry off e m = Inr m' \<and> entry_stored m' off e \<and> agree {off..<off + entry_width e} m m'"
    using m1 m2(1) m3 by (auto simp: write_entry_def)
next
  fix m off S m' and e :: "'a word \<times> u32 list"
  assume a: "entry_stored m off e" "agree S m m'" "S \<inter> {off..<off + entry_width e} \<subseteq> {off + 16..<off + 16 + 8}"
  have w: "LENGTH('a) div 8 \<le> 8" using a(1) by (auto simp: entry_stored_def entry_ok_def)
  have gap: "x \<notin> S" if "off \<le> x" "x < off + 16 \<or> off + 24 \<le> x" "x < off + entry_width e" for x using a(3) that by force
  have "has off (word_bytes (fst e)) m'" "has (off + 8) (le 8 (length (snd e))) m'" "has (off + 24) (concat (map word_bytes (snd e))) m'"
    by (rule agree_has [OF _ a(2)]; use a(1) w gap in \<open>auto simp: entry_stored_def entry_width_def disjoint_iff\<close>)+
  then show "entry_stored m' off e" using a(1) by (simp add: entry_stored_def)
next
  fix m off k and e :: "'a word \<times> u32 list"
  assume "entry_stored m off e"
  then show "entry_key m off k = Inr (fst e = k)"
    using readB_has [of off "LENGTH('a) div 8" m "word_bytes (fst e)"] bytes_word_bytes [of "fst e"]
    by (auto simp: entry_key_def entry_stored_def entry_ok_def)
next
  fix m off and e :: "'a word \<times> u32 list"
  assume "entry_stored m off e"
  then show "file_bucket 8 24 m off = Inr (rows_bucket (snd e))" by (intro file_bucket_has) (simp_all add: entry_stored_def entry_ok_def)
qed

definition text_ok :: "string \<times> u32 list \<Rightarrow> bool" where
  "text_ok e \<longleftrightarrow> length (snd e) < 2 ^ 31"

definition text_stored :: "bytes \<Rightarrow> nat \<Rightarrow> string \<times> u32 list \<Rightarrow> bool" where
  "text_stored m off e \<longleftrightarrow> text_ok e \<and> length m < 2 ^ 64 \<and> has off (le 8 (off + 32 + 4 * length (snd e))) m \<and> has (off + 8) (le 8 (length (fst e))) m
     \<and> has (off + 16) (le 8 (length (snd e))) m \<and> has (off + 32) (concat (map word_bytes (snd e))) m
     \<and> has (off + 32 + 4 * length (snd e)) (char_bytes (fst e)) m"

lemma text_written:
  assumes "text_ok e" "off + text_width e \<le> length m" "length m < 2 ^ 64"
  shows "\<exists>m'. write_text_entry off e m = Inr m' \<and> text_stored m' off e \<and> agree {off..<off + text_width e} m m'"
proof -
  let ?n = "length (snd e)" and ?l = "length (fst e)"
  let ?str = "off + 32 + 4 * ?n"
  have len: "?str + ?l + 1 \<le> length m" using assms(2) by (simp add: text_width_def)
  obtain m1 where m1: "putN 8 (off + 8) ?l m = Inr m1" "has (off + 8) (le 8 ?l) m1" "agree {off + 8..<off + 8 + 8} m m1"
    using putN_ok [of "off + 8" 8 m ?l] len by auto
  note l1 = agree_length [OF m1(3)]
  obtain m2 where m2: "putN 8 (off + 16) ?n m1 = Inr m2" "has (off + 16) (le 8 ?n) m2" "agree {off + 16..<off + 16 + 8} m1 m2"
    using putN_ok [of "off + 16" 8 m1 ?n] len l1 by auto
  note l2 = agree_length [OF m2(3)]
  obtain m3 where m3: "writeB (off + 32) (concat (map word_bytes (snd e))) m2 = Inr m3"
    using writeB_total [of "off + 32" "concat (map word_bytes (snd e))" m2] len l1 l2 by auto
  have ag3: "agree {off + 32..<?str} m2 m3" using writeB_agree [OF m3] by simp
  note l3 = agree_length [OF ag3]
  obtain m4 where m4: "putN 8 off ?str m3 = Inr m4" "has off (le 8 ?str) m4" "agree {off..<off + 8} m3 m4"
    using putN_ok [of off 8 m3 ?str] len l1 l2 l3 by auto
  note l4 = agree_length [OF m4(3)]
  obtain m5 where m5: "writeB ?str (char_bytes (fst e) @ [0]) m4 = Inr m5"
    using writeB_total [of ?str "char_bytes (fst e) @ [0]" m4] len l1 l2 l3 l4 by auto
  have ag5: "agree {?str..<off + text_width e} m4 m5" using writeB_agree [OF m5] by (simp add: text_width_def algebra_simps)
  have "has (off + 8) (le 8 ?l) m5"
    by (rule agree_has [OF agree_has [OF agree_has [OF agree_has [OF m1(2) m2(3)] ag3] m4(3)] ag5]) auto
  moreover have "has (off + 16) (le 8 ?n) m5" by (rule agree_has [OF agree_has [OF agree_has [OF m2(2) ag3] m4(3)] ag5]) auto
  moreover have "has (off + 32) (concat (map word_bytes (snd e))) m5"
    by (rule agree_has [OF agree_has [OF writeB_has [OF m3] m4(3)] ag5]) auto
  moreover have "has off (le 8 ?str) m5" by (rule agree_has [OF m4(2) ag5]) auto
  moreover have "has ?str (char_bytes (fst e)) m5" using writeB_has [OF m5] by (simp add: has_append)
  moreover have "length m5 < 2 ^ 64" using assms(3) l1 l2 l3 l4 agree_length [OF ag5] by simp
  ultimately have st: "text_stored m5 off e" using assms(1) by (simp add: text_stored_def)
  have "agree {off..<?str} m m4"
    by (rule agree_trans [OF m1(3) agree_trans [OF m2(3) agree_trans [OF ag3 m4(3) subset_refl] subset_refl]]) auto
  then have "agree {off..<off + text_width e} m m5" by (rule agree_trans [OF _ ag5]) (auto simp: text_width_def)
  then show ?thesis using st m1(1) m2(1) m3 m4(1) m5 by (auto simp: write_text_entry_def Let_def)
qed

interpretation texts: chained_entries write_text_entry text_width 24 text_stored text_ok fst text_key "file_bucket 16 32" "\<lambda>e. rows_bucket (snd e)"
proof
  show "24 + 8 \<le> text_width e" for e by (simp add: text_width_def)
next
  fix e :: "string \<times> u32 list" and off and m :: bytes
  assume "text_ok e" "off + text_width e \<le> length m" "length m < 2 ^ 64"
  then show "\<exists>m'. write_text_entry off e m = Inr m' \<and> text_stored m' off e \<and> agree {off..<off + text_width e} m m'" by (rule text_written)
next
  fix m off S m' and e :: "string \<times> u32 list"
  assume a: "text_stored m off e" "agree S m m'" "S \<inter> {off..<off + text_width e} \<subseteq> {off + 24..<off + 24 + 8}"
  have gap: "x \<notin> S" if "off \<le> x" "x < off + 24 \<or> off + 32 \<le> x" "x < off + text_width e" for x using a(3) that by force
  have "has off (le 8 (off + 32 + 4 * length (snd e))) m'" "has (off + 8) (le 8 (length (fst e))) m'" "has (off + 16) (le 8 (length (snd e))) m'"
      "has (off + 32) (concat (map word_bytes (snd e))) m'" "has (off + 32 + 4 * length (snd e)) (char_bytes (fst e)) m'"
    by (rule agree_has [OF _ a(2)]; use a(1) gap in \<open>auto simp: text_stored_def text_width_def disjoint_iff\<close>)+
  then show "text_stored m' off e" using a(1) agree_length [OF a(2)] by (simp add: text_stored_def)
next
  fix m off k and e :: "string \<times> u32 list"
  assume st: "text_stored m off e"
  have "off + 32 + 4 * length (snd e) + length (fst e) \<le> length m" using st by (simp add: text_stored_def has_def)
  then have "getN 8 off m = Inr (off + 32 + 4 * length (snd e))" "getN 8 (off + 8) m = Inr (length (fst e))"
    using st by (auto simp: text_stored_def intro!: getN_has)
  moreover have "readB (off + 32 + 4 * length (snd e)) (length (fst e)) m = Inr (char_bytes (fst e))"
    using st by (simp add: text_stored_def readB_has)
  ultimately show "text_key m off k = Inr (fst e = k)" by (simp add: text_key_def)
next
  fix m off and e :: "string \<times> u32 list"
  assume "text_stored m off e"
  then show "file_bucket 16 32 m off = Inr (rows_bucket (snd e))" by (intro file_bucket_has) (simp_all add: text_stored_def text_ok_def)
qed

section \<open>Round trips\<close>

lemma find_map_of: "(case find (\<lambda>e. fst e = k) index of None \<Rightarrow> d | Some e \<Rightarrow> f (snd e)) = (case map_of index k of None \<Rightarrow> d | Some v \<Rightarrow> f v)"
  by (induction index) auto

lemma index_bits: "8 + 8 * 2 ^ bits + n < (2 :: nat) ^ 64 \<Longrightarrow> bits < 64"
  by (rule ccontr) (use power_increasing [of 64 bits "2 :: nat"] in simp)





end
