(* ===== verification/RtProbe.thy ===== *)
theory RtProbe
  imports KushPrelude
begin

unbundle bit_operations_syntax

text \<open>
  Linear probing in a table whose size is a power of two, as the enums and the aggregate hash table use it: from the
  position of the hash onwards, around the end, to the first free slot. A stored key stays reachable when others are
  added, and a search that meets a free slot has seen every key of its hash.
\<close>

section \<open>The loop\<close>

partial_function (option) free_slot :: "('a::len word \<Rightarrow> bool res) \<Rightarrow> 'a word \<Rightarrow> 'a word \<Rightarrow> 'a word ores" where
  "free_slot occupied msk pos =
     (case occupied pos of
        Inl e \<Rightarrow> Some (Inl e)
      | Inr b \<Rightarrow> if b then free_slot occupied msk ((pos + 1) AND msk) else Some (Inr pos))"

section \<open>Slots that a search visits\<close>

definition probed :: "nat \<Rightarrow> (nat \<Rightarrow> bool) \<Rightarrow> nat \<Rightarrow> nat \<Rightarrow> bool" where
  "probed n occ h p \<longleftrightarrow> (\<exists>j<n. p = (h + j) mod n \<and> (\<forall>i<j. occ ((h + i) mod n)))"

lemma probed_mono: "probed n occ h p \<Longrightarrow> (\<And>q. occ q \<Longrightarrow> occ' q) \<Longrightarrow> probed n occ' h p"
  by (auto simp: probed_def)

lemma probed_less: "probed n occ h p \<Longrightarrow> p < n"
  by (auto simp: probed_def)

lemma first_free:
  fixes n :: nat
  assumes "p < n" "\<not> occ p" "h < n"
  obtains j where "j < n" "\<not> occ ((h + j) mod n)" "\<forall>i<j. occ ((h + i) mod n)"
proof -
  let ?P = "\<lambda>j. \<not> occ ((h + j) mod n)"
  let ?d = "(p + n - h) mod n"
  have "(h + ?d) mod n = (h + (p + n - h)) mod n" by (simp add: mod_add_right_eq)
  also have "\<dots> = p" using assms by simp
  finally have d: "?P ?d" using assms(2) by simp
  have "(LEAST j. ?P j) \<le> ?d" by (rule Least_le [of ?P, OF d])
  then have "(LEAST j. ?P j) < n" using assms by (meson le_less_trans mod_less_divisor order_le_less_trans zero_le)
  then show thesis using that [of "LEAST j. ?P j"] LeastI [of ?P, OF d] not_less_Least [of _ ?P] by blast
qed

section \<open>Positions as words\<close>

lemma word_eqI_unat: "unat (v :: 'a::len word) = unat w \<Longrightarrow> v = w"
  by (rule word_unat_eq_iff [THEN iffD2])

lemma unat_of_nat_small: "n < 2 ^ LENGTH('a) \<Longrightarrow> unat (of_nat n :: 'a::len word) = n"
  by (simp add: unat_of_nat)

lemma mask_position:
  assumes "b < LENGTH('a)"
  shows "unat (w AND mask b :: 'a::len word) = unat w mod 2 ^ b"
proof -
  have "unat (w AND mask b) = take_bit b (unat w)" by (simp add: unsigned_take_bit_eq flip: take_bit_eq_mask)
  then show ?thesis by (simp add: take_bit_eq_mod)
qed

lemma next_position:
  assumes "b < LENGTH('a)" "h < 2 ^ b"
  shows "(of_nat h + 1) AND mask b = (of_nat ((h + 1) mod 2 ^ b) :: 'a::len word)"
proof (rule word_eqI_unat)
  have lim: "(2 :: nat) ^ b < 2 ^ LENGTH('a)" using assms(1) by (intro power_strict_increasing) simp_all
  have "h + 1 < 2 ^ LENGTH('a)" using assms(2) lim by linarith
  then have "unat (of_nat h + 1 :: 'a word) = h + 1"
    using unat_of_nat_small [of "h + 1", where 'a = 'a] by (simp add: add.commute)
  then have "unat ((of_nat h + 1 :: 'a word) AND mask b) = (h + 1) mod 2 ^ b" using mask_position [OF assms(1)] by metis
  moreover have "(h + 1) mod 2 ^ b < 2 ^ LENGTH('a)" by (rule le_less_trans [OF less_imp_le [OF mod_less_divisor] lim]) simp
  ultimately show "unat ((of_nat h + 1 :: 'a word) AND mask b) = unat (of_nat ((h + 1) mod 2 ^ b) :: 'a word)"
    by (simp add: unat_of_nat_small)
qed

lemma free_slot_path:
  assumes "b < LENGTH('a)" "\<And>p. p < 2 ^ b \<Longrightarrow> occupied (of_nat p :: 'a::len word) = Inr (occ p)"
    "\<forall>i<j. occ ((h + i) mod 2 ^ b)" "\<not> occ ((h + j) mod 2 ^ b)" "h < 2 ^ b"
  shows "free_slot occupied (mask b) (of_nat h) = Some (Inr (of_nat ((h + j) mod 2 ^ b)))"
  using assms(3-5)
proof (induction j arbitrary: h)
  case 0
  then show ?case using assms(2) [of h] by (subst free_slot.simps) simp
next
  case (Suc j)
  let ?h = "(h + 1) mod 2 ^ b"
  have shift: "(?h + i) mod 2 ^ b = (h + Suc i) mod 2 ^ b" for i by (simp add: mod_add_left_eq)
  have "occ (h mod 2 ^ b)" using Suc.prems(1) by force
  then have "occ h" using Suc.prems(3) by simp
  have "free_slot occupied (mask b) (of_nat ?h) = Some (Inr (of_nat ((?h + j) mod 2 ^ b)))"
  proof (rule Suc.IH)
    show "\<forall>i<j. occ ((?h + i) mod 2 ^ b)" unfolding shift using Suc.prems(1) by blast
    show "\<not> occ ((?h + j) mod 2 ^ b)" unfolding shift using Suc.prems(2) by simp
  qed simp
  then show ?case using \<open>occ h\<close> assms(2) [OF Suc.prems(3)] next_position [OF assms(1) Suc.prems(3)] shift [of j]
    by (subst free_slot.simps) simp
qed

lemma free_slot_ends:
  assumes "b < LENGTH('a)" "\<And>p. p < 2 ^ b \<Longrightarrow> occupied (of_nat p :: 'a::len word) = Inr (occ p)" "p < 2 ^ b" "\<not> occ p" "h < 2 ^ b"
  shows "\<exists>q<2 ^ b. free_slot occupied (mask b) (of_nat h) = Some (Inr (of_nat q)) \<and> \<not> occ q \<and> probed (2 ^ b) occ h q"
proof -
  obtain j where j: "j < 2 ^ b" "\<not> occ ((h + j) mod 2 ^ b)" "\<forall>i<j. occ ((h + i) mod 2 ^ b)" by (rule first_free [where occ = occ, OF assms(3-5)])
  from free_slot_path [OF assms(1,2) j(3,2) assms(5)] j show ?thesis
    by (intro exI [of _ "(h + j) mod 2 ^ b"]) (auto simp: probed_def)
qed

end
