(* ===== verification/RtEnum.thy ===== *)
theory RtEnum
  imports RtIndex RtProbe
begin

unbundle bit_operations_syntax

text \<open>
  Enums in files (\<^verbatim>\<open>runtime/enum.cc\<close>): the entries of the keys in the order of their numbers, and a hash table
  with linear probing from a key to its entry. A key is found by its number and a number by its key; an unknown key is
  -1. \<^verbatim>\<open>std::hash\<close> is an argument.
\<close>

section \<open>Writing an enum\<close>

definition enum_at :: "nat \<Rightarrow> nat" where
  "enum_at pos = 16 + 8 * pos"

definition enum_base :: "nat \<Rightarrow> nat" where
  "enum_base bits = 16 + 8 * 2 ^ bits"

definition enum_length :: "nat \<Rightarrow> (string \<times> int) list \<Rightarrow> nat" where
  "enum_length bits index = enum_base bits + sum_list (map (\<lambda>e. 16 + length (fst e) + 1) index)"

definition keys_in_order :: "(string \<times> int) list \<Rightarrow> (string \<times> int) option list res" where
  "keys_in_order index = foldR (\<lambda>keys e. updI keys (snd e) (Some e)) (replicate (length index) None) index"

definition write_enum_entry :: "nat \<Rightarrow> bytes \<times> nat \<Rightarrow> (string \<times> int) option \<Rightarrow> (bytes \<times> nat) res" where
  "write_enum_entry base st it =
     (case (st, it) of
        (_, None) \<Rightarrow> Inl Undefined
      | ((m, string_offset), Some (key, value)) \<Rightarrow>
          let entry = base + 16 * nat value in
          bindR (putN 8 entry string_offset m) (\<lambda>m.
          bindR (putN 4 (entry + 8) (length key) m) (\<lambda>m.
          bindR (putN 4 (entry + 12) (nat value) m) (\<lambda>m.
          bindR (writeB string_offset (char_bytes key @ [0]) m) (\<lambda>m.
            Inr (m, string_offset + length key + 1))))))"

definition enum_occupied :: "bytes \<Rightarrow> u64 \<Rightarrow> bool res" where
  "enum_occupied m pos = bindR (getN 8 (enum_at (unat pos)) m) (\<lambda>v. Inr (v \<noteq> 0))"

definition insert_key :: "(string \<Rightarrow> u64) \<Rightarrow> nat \<Rightarrow> bytes \<Rightarrow> string \<times> int \<Rightarrow> bytes ores" where
  "insert_key hasher bits m e =
     bindO (free_slot (enum_occupied m) (mask bits) (hasher (fst e) AND mask bits)) (\<lambda>pos.
       Some (putN 8 (enum_at (unat pos)) (enum_base bits + 16 * nat (snd e)) m))"

definition write_enum :: "(string \<Rightarrow> u64) \<Rightarrow> nat \<Rightarrow> (string \<times> int) list \<Rightarrow> bytes \<Rightarrow> bytes ores" where
  "write_enum hasher bits index m =
     bindO (Some (bindR (keys_in_order index) (\<lambda>keys.
       bindR (putN 8 0 (enum_base bits) m) (\<lambda>m.
       bindR (foldR (write_enum_entry (enum_base bits)) (m, enum_base bits + 16 * length index) keys) (\<lambda>(m, string_offset).
       bindR (putN 8 8 (2 ^ bits - 1) m) (\<lambda>m.
         writeB 16 (replicate (8 * 2 ^ bits) 0) m)))))) (\<lambda>m.
     foldO (insert_key hasher bits) m index)"

text \<open>As for columns, with a body that need not end.\<close>

definition map_fileO :: "os \<Rightarrow> files \<Rightarrow> string \<Rightarrow> nat \<Rightarrow> (bytes \<Rightarrow> bytes ores) \<Rightarrow> files ores" where
  "map_fileO os fs path len body =
     (if \<not> os_open os path then Some (Inl SystemError)
      else if \<not> os_fallocate os len then Some (Inl (RuntimeError ''fallocate failed''))
      else if \<not> os_mmap os len then Some (Inl SystemError)
      else
        let file = fallocate len (case fs path of None \<Rightarrow> [] | Some old \<Rightarrow> old) in
        bindO (body (take len file)) (\<lambda>mapped.
        if \<not> os_munmap os len then Some (Inl SystemError)
        else if \<not> os_close os path then Some (Inl SystemError)
        else Some (Inr (fs(path \<mapsto> mapped @ drop len file)))))"

definition SerializeEnum :: "(string \<Rightarrow> u64) \<Rightarrow> os \<Rightarrow> files \<Rightarrow> string \<Rightarrow> (string \<times> int) list \<Rightarrow> files ores" where
  "SerializeEnum hasher os fs path index =
     (let bits = find_bits (length index) 1 in
      map_fileO os fs path (enum_length bits index) (write_enum hasher bits index))"

section \<open>The manager of enums\<close>

text \<open>The paths by their number, the enums opened so far, and the files opened so far.\<close>

record EnumManager =
  em_info :: "string list"
  em_file :: "int \<rightharpoonup> bytes"
  em_opened :: files

definition Register :: "EnumManager \<Rightarrow> string \<Rightarrow> EnumManager \<times> int" where
  "Register em path = (em\<lparr>em_info := em_info em @ [path]\<rparr>, int (length (em_info em)))"

definition enum_data :: "os \<Rightarrow> files \<Rightarrow> EnumManager \<Rightarrow> int \<Rightarrow> (bytes \<times> EnumManager) res" where
  "enum_data os fs em i =
     (case em_file em i of
        Some data \<Rightarrow> Inr (data, em)
      | None \<Rightarrow>
          if 0 \<le> i \<and> nat i < length (em_info em) then
            bindR (FileManagerOpen os fs (em_opened em) (em_info em ! nat i)) (\<lambda>(data, opened).
              Inr (data, em\<lparr>em_file := (em_file em)(i \<mapsto> data), em_opened := opened\<rparr>))
          else Inl OutOfRange)"

definition enum_string :: "bytes \<Rightarrow> nat \<Rightarrow> string res" where
  "enum_string m entry =
     bindR (getN 8 entry m) (\<lambda>str_offset.
     bindR (getN 4 (entry + 8) m) (\<lambda>str_len.
     bindR (readB str_offset str_len m) (\<lambda>bs. Inr (bytes_chars bs))))"

definition GetKey :: "os \<Rightarrow> files \<Rightarrow> EnumManager \<Rightarrow> int \<Rightarrow> int \<Rightarrow> (string \<times> EnumManager) res" where
  "GetKey os fs em i v =
     bindR (enum_data os fs em i) (\<lambda>(m, em).
     bindR (getN 8 0 m) (\<lambda>entry_offset.
       if v < 0 then Inl Undefined
       else bindR (enum_string m (entry_offset + 16 * nat v)) (\<lambda>s. Inr (s, em))))"

partial_function (option) find_value :: "bytes \<Rightarrow> u64 \<Rightarrow> string \<Rightarrow> u64 \<Rightarrow> int ores" where
  "find_value m msk key pos =
     (case getN 8 (enum_at (unat pos)) m of
        Inl e \<Rightarrow> Some (Inl e)
      | Inr entry \<Rightarrow>
          if entry = 0 then Some (Inr (-1))
          else (case enum_string m entry of
                  Inl e \<Rightarrow> Some (Inl e)
                | Inr s \<Rightarrow>
                    if s = key then Some (bindR (getN 4 (entry + 12) m) (\<lambda>v. Inr (to_i32 v)))
                    else find_value m msk key ((pos + 1) AND msk)))"

definition GetValueEnum :: "(string \<Rightarrow> u64) \<Rightarrow> os \<Rightarrow> files \<Rightarrow> EnumManager \<Rightarrow> int \<Rightarrow> string \<Rightarrow> (int \<times> EnumManager) ores" where
  "GetValueEnum hasher os fs em i key =
     bindO (Some (enum_data os fs em i)) (\<lambda>(m, em).
     bindO (Some (getN 8 8 m)) (\<lambda>msk.
     bindO (find_value m (of_nat msk) key (hasher key AND of_nat msk)) (\<lambda>v. Some (Inr (v, em)))))"

end
