(* ===== verification/RtEnumCorrect.thy ===== *)
theory RtEnumCorrect
  imports RtEnum RtIndexCorrect
begin

unbundle bit_operations_syntax

text \<open>
  What is written for an enum is found again, by number and by key; the search for a key ends. The entries are
  written first, the hash array before them is filled afterwards and never touches them.
\<close>

section \<open>Entries\<close>

definition enum_stored :: "nat \<Rightarrow> nat \<Rightarrow> nat \<Rightarrow> bytes \<Rightarrow> nat \<Rightarrow> string \<Rightarrow> bool" where
  "enum_stored base n bound m v key \<longleftrightarrow> (\<exists>off. base + 16 * n \<le> off \<and> off + length key < bound \<and> bound \<le> length m
     \<and> has (base + 16 * v) (le 8 off) m \<and> has (base + 16 * v + 8) (le 4 (length key)) m \<and> has (base + 16 * v + 12) (le 4 v) m
     \<and> has off (char_bytes key) m)"

lemma enum_stored_agree:
  assumes "enum_stored base n bound m v key" "agree S m m'" "v < n" "S \<inter> {base + 16 * v..<base + 16 * v + 16} = {}" "S \<inter> {base + 16 * n..<bound} = {}" "bound \<le> bound'" "bound' \<le> length m"
  shows "enum_stored base n bound' m' v key"
proof -
  obtain off where off: "base + 16 * n \<le> off" "off + length key < bound" "has (base + 16 * v) (le 8 off) m" "has (base + 16 * v + 8) (le 4 (length key)) m"
      "has (base + 16 * v + 12) (le 4 v) m" "has off (char_bytes key) m" using assms(1) by (auto simp: enum_stored_def)
  have e: "x \<notin> S" if "base + 16 * v \<le> x" "x < base + 16 * v + 16" for x using assms(4) that by (auto simp: disjoint_iff)
  have t: "x \<notin> S" if "base + 16 * n \<le> x" "x < bound" for x using assms(5) that by (auto simp: disjoint_iff)
  have "has (base + 16 * v) (le 8 off) m'" by (rule agree_has [OF off(3) assms(2)]) (use e in \<open>auto simp: disjoint_iff\<close>)
  moreover have "has (base + 16 * v + 8) (le 4 (length key)) m'" by (rule agree_has [OF off(4) assms(2)]) (use e in \<open>auto simp: disjoint_iff\<close>)
  moreover have "has (base + 16 * v + 12) (le 4 v) m'" by (rule agree_has [OF off(5) assms(2)]) (use e in \<open>auto simp: disjoint_iff\<close>)
  moreover have "has off (char_bytes key) m'" by (rule agree_has [OF off(6) assms(2)]) (use t off(1,2) in \<open>auto simp: disjoint_iff\<close>)
  ultimately show ?thesis using off(1,2) assms(6,7) agree_length [OF assms(2)] unfolding enum_stored_def by (intro exI [of _ off]) simp
qed

lemma enum_entry_written:
  assumes "base + 16 * n \<le> off" "off + length key + 1 \<le> length m" "v < n"
  shows "\<exists>m'. write_enum_entry base (m, off) (Some (key, int v)) = Inr (m', off + length key + 1)
    \<and> enum_stored base n (off + length key + 1) m' v key \<and> agree ({base + 16 * v..<base + 16 * v + 16} \<union> {off..<off + length key + 1}) m m'"
proof -
  let ?e = "base + 16 * v"
  have room: "?e + 16 \<le> off" using assms(1,3) by simp
  obtain m1 where m1: "putN 8 ?e off m = Inr m1" "has ?e (le 8 off) m1" "agree {?e..<?e + 8} m m1"
    using putN_ok [of ?e 8 m off] room assms(2) by auto
  note l1 = agree_length [OF m1(3)]
  obtain m2 where m2: "putN 4 (?e + 8) (length key) m1 = Inr m2" "has (?e + 8) (le 4 (length key)) m2" "agree {?e + 8..<?e + 8 + 4} m1 m2"
    using putN_ok [of "?e + 8" 4 m1 "length key"] room assms(2) l1 by auto
  note l2 = agree_length [OF m2(3)]
  obtain m3 where m3: "putN 4 (?e + 12) v m2 = Inr m3" "has (?e + 12) (le 4 v) m3" "agree {?e + 12..<?e + 12 + 4} m2 m3"
    using putN_ok [of "?e + 12" 4 m2 v] room assms(2) l1 l2 by auto
  note l3 = agree_length [OF m3(3)]
  obtain m4 where m4: "writeB off (char_bytes key @ [0]) m3 = Inr m4"
    using writeB_total [of off "char_bytes key @ [0]" m3] assms(2) l1 l2 l3 by auto
  have ag4: "agree {off..<off + length key + 1} m3 m4" using writeB_agree [OF m4] by simp
  note l4 = agree_length [OF ag4]
  have "has ?e (le 8 off) m4" by (rule agree_has [OF agree_has [OF agree_has [OF m1(2) m2(3)] m3(3)] ag4]) (use room in auto)
  moreover have "has (?e + 8) (le 4 (length key)) m4" by (rule agree_has [OF agree_has [OF m2(2) m3(3)] ag4]) (use room in auto)
  moreover have "has (?e + 12) (le 4 v) m4" by (rule agree_has [OF m3(2) ag4]) (use room in auto)
  moreover have "has off (char_bytes key) m4" using writeB_has [OF m4] by (simp add: has_append)
  ultimately have "enum_stored base n (off + length key + 1) m4 v key"
    using assms(1,2) l1 l2 l3 l4 unfolding enum_stored_def by (intro exI [of _ off]) simp
  moreover have "agree {?e..<?e + 16} m m3" by (rule agree_trans [OF m1(3) agree_trans [OF m2(3) m3(3) subset_refl]]) auto
  then have "agree ({?e..<?e + 16} \<union> {off..<off + length key + 1}) m m4" by (rule agree_trans [OF _ ag4 subset_refl])
  ultimately show ?thesis using m1(1) m2(1) m3(1) m4 by (simp add: write_enum_entry_def Let_def)
qed

definition string_at :: "nat \<Rightarrow> string list \<Rightarrow> nat \<Rightarrow> nat" where
  "string_at base keys k = base + 16 * length keys + sum_list (map (\<lambda>s. length s + 1) (take k keys))"

lemma string_at_Suc: "k < length keys \<Longrightarrow> string_at base keys (Suc k) = string_at base keys k + length (keys ! k) + 1"
  by (simp add: string_at_def take_Suc_conv_app_nth)

lemma string_at_mono: "j \<le> k \<Longrightarrow> string_at base keys j \<le> string_at base keys k"
proof (induction k)
  case (Suc k)
  have "string_at base keys k \<le> string_at base keys (Suc k)"
    by (cases "k < length keys") (simp_all add: string_at_Suc, simp add: string_at_def)
  then show ?case using Suc by (cases "j = Suc k") auto
qed simp

lemma enum_entries_written:
  assumes "k \<le> length keys" "string_at base keys (length keys) \<le> length m"
  shows "\<exists>m'. foldR (write_enum_entry base) (m, base + 16 * length keys) (map (\<lambda>v. Some (keys ! v, int v)) [0..<k]) = Inr (m', string_at base keys k)
    \<and> agree {base..<length m} m m' \<and> (\<forall>v<k. enum_stored base (length keys) (string_at base keys k) m' v (keys ! v))"
  using assms(1)
proof (induction k)
  case 0
  then show ?case by (simp add: string_at_def)
next
  case (Suc k)
  let ?n = "length keys" and ?at = "string_at base keys"
  obtain m1 where m1: "foldR (write_enum_entry base) (m, base + 16 * ?n) (map (\<lambda>v. Some (keys ! v, int v)) [0..<k]) = Inr (m1, ?at k)"
      "agree {base..<length m} m m1" "\<forall>v<k. enum_stored base ?n (?at k) m1 v (keys ! v)" using Suc by auto
  have k: "k < ?n" using Suc.prems by simp
  have bound: "?at (Suc k) \<le> length m" using string_at_mono [OF Suc.prems, of base keys] assms(2) by simp
  have low: "base + 16 * ?n \<le> ?at k" by (simp add: string_at_def)
  note l1 = agree_length [OF m1(2)]
  obtain m2 where m2: "write_enum_entry base (m1, ?at k) (Some (keys ! k, int k)) = Inr (m2, ?at (Suc k))"
      "enum_stored base ?n (?at (Suc k)) m2 k (keys ! k)" "agree ({base + 16 * k..<base + 16 * k + 16} \<union> {?at k..<?at (Suc k)}) m1 m2"
    using enum_entry_written [OF low _ k, of "keys ! k" m1] bound l1 by (auto simp: string_at_Suc [OF k])
  have "enum_stored base ?n (?at (Suc k)) m2 v (keys ! v)" if "v < Suc k" for v
  proof (cases "v = k")
    case False
    then have v: "v < k" using that by simp
    show ?thesis
      by (rule enum_stored_agree [OF m1(3) [rule_format, OF v] m2(3)]) (use v k low bound l1 string_at_mono [of k "Suc k" base keys] in auto)
  qed (use m2(2) in simp)
  moreover have "agree {base..<length m} m m2" by (rule agree_trans [OF m1(2) m2(3)]) (use k low bound string_at_mono [of k "Suc k" base keys] in auto)
  ultimately show ?case using m1(1) m2(1) by (auto simp: foldR_append)
qed

lemma keys_in_order_ok:
  assumes "mset index = mset (zip keys (map int [0..<length keys]))"
  shows "keys_in_order index = Inr (map (\<lambda>v. Some (keys ! v, int v)) [0..<length keys])"
proof -
  let ?n = "length keys" and ?all = "zip keys (map int [0..<length keys])"
  have setall: "set ?all = {(keys ! v, int v) |v. v < ?n}" by (auto simp: set_zip)
  have step: "foldR (\<lambda>keys e. updI keys (snd e) (Some e)) ks xs = Inr (map (\<lambda>v. if (keys ! v, int v) \<in> set xs then Some (keys ! v, int v) else ks ! v) [0..<?n])"
    if "set xs \<subseteq> set ?all" "length ks = ?n" for xs ks
    using that
  proof (induction xs arbitrary: ks)
    case Nil
    then show ?case by (auto intro!: nth_equalityI)
  next
    case (Cons x xs)
    obtain v where v: "x = (keys ! v, int v)" "v < ?n" using Cons.prems(1) setall by auto
    show ?case using Cons.IH [of "ks[v := Some x]"] Cons.prems v by (auto simp: nth_list_update)
  qed
  have "length index = ?n" using assms by (metis length_map length_upt length_zip minus_nat.diff_0 min.idem size_mset)
  moreover have "set index = set ?all" using assms by (metis set_mset_mset)
  ultimately show ?thesis using step [of index "replicate ?n None"] setall unfolding keys_in_order_def by auto
qed

section \<open>The hash array\<close>

text \<open>\<^verbatim>\<open>slot p\<close>: the number of the key whose entry position \<open>p\<close> of the array has.\<close>

definition enum_table :: "nat \<Rightarrow> nat \<Rightarrow> bytes \<Rightarrow> (nat \<rightharpoonup> nat) \<Rightarrow> bool" where
  "enum_table bits n m slot \<longleftrightarrow>
     (\<forall>p<2 ^ bits. has (enum_at p) (le 8 (case slot p of None \<Rightarrow> 0 | Some v \<Rightarrow> enum_base bits + 16 * v)) m)
     \<and> (\<forall>p v. slot p = Some v \<longrightarrow> p < 2 ^ bits \<and> v < n)"

lemma table_get:
  assumes "enum_table bits n m slot" "p < 2 ^ bits" "enum_base bits + 16 * n < 2 ^ 64"
  shows "getN 8 (enum_at p) m = Inr (case slot p of None \<Rightarrow> 0 | Some v \<Rightarrow> enum_base bits + 16 * v)"
proof (rule getN_has)
  show "has (enum_at p) (le 8 (case slot p of None \<Rightarrow> 0 | Some v \<Rightarrow> enum_base bits + 16 * v)) m" using assms(1,2) by (simp add: enum_table_def)
  have "v < n" if "slot p = Some v" for v using assms(1) that by (simp add: enum_table_def)
  then show "(case slot p of None \<Rightarrow> 0 | Some v \<Rightarrow> enum_base bits + 16 * v) < 256 ^ 8" using assms(3) by (fastforce split: option.splits)
qed

lemma table_position: "bits < 64 \<Longrightarrow> p < 2 ^ bits \<Longrightarrow> unat (of_nat p :: u64) = p"
proof -
  assume a: "bits < 64" "p < 2 ^ bits"
  have "(2 :: nat) ^ bits < 2 ^ 64" using a(1) by (intro power_strict_increasing) simp_all
  then have "p < 2 ^ LENGTH(64)" using a(2) by simp
  then show ?thesis by (rule unat_of_nat_small)
qed

lemma table_occupied:
  assumes "enum_table bits n m slot" "bits < 64" "enum_base bits + 16 * n < 2 ^ 64" "p < 2 ^ bits"
  shows "enum_occupied m (of_nat p) = Inr (p \<in> dom slot)"
  using table_get [OF assms(1,4,3)] table_position [OF assms(2,4)] by (auto simp: enum_occupied_def enum_base_def split: option.splits)

lemma table_update:
  assumes "enum_table bits n m slot" "q < 2 ^ bits" "v < n" "agree {enum_at q..<enum_at q + 8} m m'" "has (enum_at q) (le 8 (enum_base bits + 16 * v)) m'"
  shows "enum_table bits n m' (slot(q \<mapsto> v))"
proof -
  have "has (enum_at p) (le 8 (case (slot(q \<mapsto> v)) p of None \<Rightarrow> 0 | Some v \<Rightarrow> enum_base bits + 16 * v)) m'" if p: "p < 2 ^ bits" for p
  proof (cases "p = q")
    case False
    have "has (enum_at p) (le 8 (case slot p of None \<Rightarrow> 0 | Some v \<Rightarrow> enum_base bits + 16 * v)) m'"
      by (rule agree_has [OF _ assms(4)]) (use assms(1) p False in \<open>auto simp: enum_table_def enum_at_def\<close>)
    then show ?thesis using False by simp
  qed (use assms(5) in simp)
  then show ?thesis using assms(1-3) by (simp add: enum_table_def)
qed

lemma key_inserted:
  assumes "enum_table bits n m slot" "bits < 64" "enum_base bits + 16 * n < 2 ^ 64" "enum_base bits \<le> length m" "card (dom slot) < 2 ^ bits" "v < n"
  shows "\<exists>m' q. insert_key hasher bits m (key, int v) = Some (Inr m') \<and> q \<notin> dom slot \<and> enum_table bits n m' (slot(q \<mapsto> v))
    \<and> probed (2 ^ bits) (\<lambda>p. p \<in> dom slot) (unat (hasher key AND mask bits)) q \<and> agree {16..<enum_base bits} m m'"
proof -
  let ?h = "unat (hasher key AND mask bits)"
  have h: "?h < 2 ^ bits" using mask_position [of bits "hasher key"] assms(2) by simp
  have dom: "dom slot \<subseteq> {..<2 ^ bits}" using assms(1) by (auto simp: enum_table_def)
  obtain p where p: "p < 2 ^ bits" "p \<notin> dom slot" using assms(5) dom by (metis card_lessThan lessThan_iff nless_le psubsetI subset_antisym subset_iff)
  have b: "bits < LENGTH(64)" using assms(2) by simp
  obtain q where q: "q < 2 ^ bits" "free_slot (enum_occupied m) (mask bits) (of_nat ?h) = Some (Inr (of_nat q))" "q \<notin> dom slot" "probed (2 ^ bits) (\<lambda>p. p \<in> dom slot) ?h q"
    using free_slot_ends [of bits "enum_occupied m" "\<lambda>p. p \<in> dom slot", OF b table_occupied [OF assms(1-3)] p h] by blast
  have at: "enum_at q + 8 \<le> enum_base bits" using q(1) by (simp add: enum_at_def enum_base_def)
  obtain m' where m': "putN 8 (enum_at q) (enum_base bits + 16 * v) m = Inr m'" "has (enum_at q) (le 8 (enum_base bits + 16 * v)) m'" "agree {enum_at q..<enum_at q + 8} m m'"
    using putN_ok [of "enum_at q" 8 m] at assms(4) by auto
  have "agree {16..<enum_base bits} m m'" by (rule agree_mono [OF m'(3)]) (use at in \<open>auto simp: enum_at_def\<close>)
  moreover have "insert_key hasher bits m (key, int v) = Some (Inr m')"
    using q(2) m'(1) table_position [OF assms(2) q(1)] by (simp add: insert_key_def)
  ultimately show ?thesis using q(3,4) table_update [OF assms(1) q(1) assms(6) m'(3,2)] by blast
qed

lemma keys_inserted:
  assumes "enum_table bits n m slot" "bits < 64" "enum_base bits + 16 * n < 2 ^ 64" "enum_base bits \<le> length m" "card (dom slot) + length es < 2 ^ bits"
    "\<forall>e\<in>set es. \<exists>v<n. snd e = int v"
  shows "\<exists>m' slot'. foldO (insert_key hasher bits) m es = Some (Inr m') \<and> enum_table bits n m' slot' \<and> agree {16..<enum_base bits} m m' \<and> slot \<subseteq>\<^sub>m slot'
    \<and> card (dom slot') < 2 ^ bits \<and> (\<forall>e\<in>set es. \<exists>p. slot' p = Some (nat (snd e)) \<and> probed (2 ^ bits) (\<lambda>p. p \<in> dom slot') (unat (hasher (fst e) AND mask bits)) p)"
  using assms(1,4-6)
proof (induction es arbitrary: m slot)
  case (Cons e es)
  obtain key v where e: "e = (key, int v)" "v < n" using Cons.prems(4) by (cases e) auto
  have "card (dom slot) < 2 ^ bits" using Cons.prems(3) by simp
  from key_inserted [OF Cons.prems(1) assms(2,3) Cons.prems(2) this e(2), of hasher key] obtain m1 q where
      m1: "insert_key hasher bits m e = Some (Inr m1)" "q \<notin> dom slot" "enum_table bits n m1 (slot(q \<mapsto> v))"
        "probed (2 ^ bits) (\<lambda>p. p \<in> dom slot) (unat (hasher key AND mask bits)) q" "agree {16..<enum_base bits} m m1" using e(1) by blast
  have "dom slot \<subseteq> {..<2 ^ bits}" using Cons.prems(1) by (auto simp: enum_table_def)
  then have "finite (dom slot)" by (rule finite_subset) simp
  then have card: "card (dom (slot(q \<mapsto> v))) + length es < 2 ^ bits" using Cons.prems(3) m1(2) by simp
  have len: "enum_base bits \<le> length m1" using Cons.prems(2) agree_length [OF m1(5)] by simp
  obtain m2 slot2 where m2: "foldO (insert_key hasher bits) m1 es = Some (Inr m2)" "enum_table bits n m2 slot2" "agree {16..<enum_base bits} m1 m2"
      "slot(q \<mapsto> v) \<subseteq>\<^sub>m slot2" "card (dom slot2) < 2 ^ bits"
      "\<forall>e\<in>set es. \<exists>p. slot2 p = Some (nat (snd e)) \<and> probed (2 ^ bits) (\<lambda>p. p \<in> dom slot2) (unat (hasher (fst e) AND mask bits)) p"
    using Cons.IH [OF m1(3) len card] Cons.prems(4) by (metis list.set_intros(2))
  have sub: "slot \<subseteq>\<^sub>m slot2" using m2(4) m1(2) by (auto simp: map_le_def split: if_splits)
  have "dom slot \<subseteq> dom slot2" using sub by (rule map_le_implies_dom_le)
  then have "probed (2 ^ bits) (\<lambda>p. p \<in> dom slot2) (unat (hasher key AND mask bits)) q" by (intro probed_mono [OF m1(4)]) auto
  moreover have "slot2 q = Some v" using m2(4) by (auto simp: map_le_def)
  ultimately show ?case using m1(1) m2(1-3,5,6) sub e agree_trans [OF m1(5) m2(3)] by auto
qed (auto simp: map_le_def)

section \<open>Looking up a key\<close>

lemma enum_string_stored:
  assumes "enum_stored base n bound m v key" "length m < 2 ^ 64" "length key < 2 ^ 32"
  shows "enum_string m (base + 16 * v) = Inr key"
proof -
  obtain off where off: "has (base + 16 * v) (le 8 off) m" "has (base + 16 * v + 8) (le 4 (length key)) m" "has off (char_bytes key) m" "off < 2 ^ 64"
    using assms(1,2) by (auto simp: enum_stored_def)
  have "readB off (length key) m = Inr (char_bytes key)" using off(3) by (simp add: readB_has)
  moreover have "getN 8 (base + 16 * v) m = Inr off" "getN 4 (base + 16 * v + 8) m = Inr (length key)"
    using off assms(3) by (auto intro!: getN_has)
  ultimately show ?thesis by (simp add: enum_string_def)
qed

lemma enum_value_stored:
  assumes "enum_stored base n bound m v key" "v < 2 ^ 31"
  shows "getN 4 (base + 16 * v + 12) m = Inr v"
  using assms by (intro getN_has) (auto simp: enum_stored_def)

text \<open>A file of an enum, as writing leaves it.\<close>

definition enum_file :: "(string \<Rightarrow> u64) \<Rightarrow> nat \<Rightarrow> string list \<Rightarrow> bytes \<Rightarrow> (nat \<rightharpoonup> nat) \<Rightarrow> bool" where
  "enum_file hasher bits keys m slot \<longleftrightarrow>
     has 0 (le 8 (enum_base bits)) m \<and> has 8 (le 8 (2 ^ bits - 1)) m \<and> length m < 2 ^ 64
     \<and> (\<forall>v<length keys. enum_stored (enum_base bits) (length keys) (length m) m v (keys ! v))
     \<and> enum_table bits (length keys) m slot \<and> card (dom slot) < 2 ^ bits
     \<and> (\<forall>v<length keys. \<exists>p. slot p = Some v \<and> probed (2 ^ bits) (\<lambda>p. p \<in> dom slot) (unat (hasher (keys ! v) AND mask bits)) p)"

lemma find_value_skips:
  assumes "enum_file hasher bits keys m slot" "bits < 64" "enum_base bits + 16 * length keys < 2 ^ 64" "\<forall>k\<in>set keys. length k < 2 ^ 32"
    "\<forall>i<j. \<exists>v. slot ((h + i) mod 2 ^ bits) = Some v \<and> keys ! v \<noteq> key" "h < 2 ^ bits"
  shows "find_value m (mask bits) key (of_nat h) = find_value m (mask bits) key (of_nat ((h + j) mod 2 ^ bits))"
  using assms(5,6)
proof (induction j arbitrary: h)
  case (Suc j)
  let ?h = "(h + 1) mod 2 ^ bits"
  have shift: "(?h + i) mod 2 ^ bits = (h + Suc i) mod 2 ^ bits" for i by (simp add: mod_add_left_eq)
  obtain v where v: "slot h = Some v" "keys ! v \<noteq> key" using Suc.prems by force
  have table: "enum_table bits (length keys) m slot" using assms(1) by (simp add: enum_file_def)
  then have n: "v < length keys" using v(1) by (auto simp: enum_table_def)
  have "enum_string m (enum_base bits + 16 * v) = Inr (keys ! v)"
    using enum_string_stored assms(1,4) n by (auto simp: enum_file_def)
  then have "find_value m (mask bits) key (of_nat h) = find_value m (mask bits) key ((of_nat h + 1) AND mask bits)"
    using table_get [OF table Suc.prems(2) assms(3)] table_position [OF assms(2) Suc.prems(2)] v
    by (subst find_value.simps) (simp add: enum_base_def)
  also have "\<dots> = find_value m (mask bits) key (of_nat ?h)" using next_position [of bits h, where 'a = 64] assms(2) Suc.prems(2) by simp
  also have "\<dots> = find_value m (mask bits) key (of_nat ((?h + j) mod 2 ^ bits))"
    by (rule Suc.IH) (use Suc.prems(1) shift in auto)
  finally show ?case by (simp only: shift)
qed simp

lemma find_value_stops:
  assumes "enum_file hasher bits keys m slot" "bits < 64" "enum_base bits + 16 * length keys < 2 ^ 64" "\<forall>k\<in>set keys. length k < 2 ^ 32"
    "length keys < 2 ^ 31" "p < 2 ^ bits" "\<And>v. slot p = Some v \<Longrightarrow> keys ! v = key"
  shows "find_value m (mask bits) key (of_nat p) = Some (Inr (case slot p of None \<Rightarrow> -1 | Some v \<Rightarrow> int v))"
proof -
  have table: "enum_table bits (length keys) m slot" using assms(1) by (simp add: enum_file_def)
  note get = table_get [OF table assms(6,3)] table_position [OF assms(2,6)]
  show ?thesis
  proof (cases "slot p")
    case None
    then show ?thesis using get by (subst find_value.simps) simp
  next
    case (Some v)
    have v: "v < length keys" using table Some by (simp add: enum_table_def)
    then have st: "enum_stored (enum_base bits) (length keys) (length m) m v (keys ! v)" using assms(1) by (simp add: enum_file_def)
    have "enum_string m (enum_base bits + 16 * v) = Inr key" using enum_string_stored [OF st] assms(1,4) assms(7) [OF Some] nth_mem [OF v] by (auto simp: enum_file_def)
    moreover have "getN 4 (enum_base bits + 16 * v + 12) m = Inr v" by (rule enum_value_stored [OF st]) (use v assms(5) in simp)
    moreover have "to_i32 v = int v" by (rule to_i32_small) (use v assms(5) in simp)
    ultimately show ?thesis using get Some by (subst find_value.simps) (simp add: enum_base_def)
  qed
qed

lemma find_value_ok:
  assumes "enum_file hasher bits keys m slot" "bits < 64" "enum_base bits + 16 * length keys < 2 ^ 64" "\<forall>k\<in>set keys. length k < 2 ^ 32" "length keys < 2 ^ 31" "distinct keys"
  shows "find_value m (mask bits) key (hasher key AND mask bits) = Some (Inr (case map_of (zip keys (map int [0..<length keys])) key of None \<Rightarrow> -1 | Some v \<Rightarrow> v))"
proof -
  let ?N = "2 ^ bits" and ?h = "unat (hasher key AND mask bits)" and ?go = "\<lambda>p. \<exists>v. slot p = Some v \<and> keys ! v \<noteq> key"
  have h: "?h < ?N" using mask_position [of bits "hasher key"] assms(2) by simp
  have table: "enum_table bits (length keys) m slot" "card (dom slot) < ?N" using assms(1) by (simp_all add: enum_file_def)
  have "dom slot \<subseteq> {..<?N}" using table(1) by (auto simp: enum_table_def)
  then obtain p where "p < ?N" "p \<notin> dom slot" using table(2) by (metis card_lessThan lessThan_iff nless_le psubsetI subset_antisym subset_iff)
  then have "p < ?N" "\<not> ?go p" by auto
  then obtain j where j: "j < ?N" "\<not> ?go ((?h + j) mod ?N)" "\<forall>i<j. ?go ((?h + i) mod ?N)" by (rule first_free [OF _ _ h, where occ = ?go])
  let ?p = "(?h + j) mod ?N"
  have "find_value m (mask bits) key (of_nat ?h) = Some (Inr (case slot ?p of None \<Rightarrow> -1 | Some v \<Rightarrow> int v))"
    unfolding find_value_skips [OF assms(1-4) j(3) h] by (rule find_value_stops [OF assms(1-5)]) (use j(2) in auto)
  moreover have eq: "map_of (zip keys (map int [0..<length keys])) key = map_option int (slot ?p)"
  proof (cases "slot ?p")
    case (Some v)
    then have "v < length keys" "keys ! v = key" using table(1) j(2) by (auto simp: enum_table_def)
    then show ?thesis using Some assms(6) map_of_zip_nth [of keys "map int [0..<length keys]" v] by simp
  next
    case None
    have "key \<notin> set keys"
    proof
      assume "key \<in> set keys"
      then obtain v where v: "v < length keys" "keys ! v = key" by (auto simp: in_set_conv_nth)
      then obtain q where q: "slot q = Some v" "probed ?N (\<lambda>p. p \<in> dom slot) ?h q" using assms(1) by (auto simp: enum_file_def)
      then obtain i where i: "i < ?N" "q = (?h + i) mod ?N" "\<forall>k<i. (?h + k) mod ?N \<in> dom slot" by (auto simp: probed_def)
      have "\<not> i < j" using j(3) q(1) i(2) v(2) by auto
      moreover have "\<not> j < i" using i(3) None by (auto simp: domIff)
      ultimately show False using q(1) i(2) None by (cases "i = j") auto
    qed
    then show ?thesis using None by (simp add: map_of_zip_is_None)
  qed
  moreover have "(of_nat ?h :: u64) = hasher key AND mask bits" by simp
  ultimately show ?thesis unfolding eq by (cases "slot ?p") simp_all
qed

section \<open>Round trip\<close>

lemma map_fileO_fits:
  assumes "os_ok os path len" "file_fits fs path len" "\<And>m. length m = len \<Longrightarrow> \<exists>m'. body m = Some (Inr m') \<and> P m'"
  obtains m where "map_fileO os fs path len body = Some (Inr (fs(path \<mapsto> m)))" "P m"
proof -
  let ?file = "fallocate len (case fs path of None \<Rightarrow> [] | Some old \<Rightarrow> old)"
  have "length (take len ?file) = len" "drop len ?file = []" using assms(2) by (simp_all add: fallocate_def file_fits_def)
  moreover from assms(3) [OF this(1)] obtain m where "body (take len ?file) = Some (Inr m)" "P m" by blast
  ultimately show thesis using that [of m] assms(1) by (simp add: map_fileO_def os_ok_def Let_def)
qed

lemma find_bits_enough: "3 * n \<le> 2 * 2 ^ find_bits n bits"
  by (induction n bits rule: find_bits.induct) (subst find_bits.simps, simp)

lemma le_zero: "le n 0 = replicate n 0"
  by (induction n) simp_all

lemma enum_widths: "sum_list (map (\<lambda>e. 16 + length (fst e) + 1) xs) = 16 * length xs + sum_list (map (\<lambda>e. length (fst e) + 1) xs)"
  by (induction xs) simp_all

lemma enum_written:
  assumes "mset index = mset (zip keys (map int [0..<length keys]))" "length m = enum_length bits index" "enum_length bits index < 2 ^ 64"
    "bits < 64" "length keys < 2 ^ bits"
  shows "\<exists>m'. write_enum hasher bits index m = Some (Inr m') \<and> (\<exists>slot. enum_file hasher bits keys m' slot)"
proof -
  let ?n = "length keys" and ?base = "enum_base bits" and ?all = "zip keys (map int [0..<length keys])"
  have "map (\<lambda>s. length s + 1) keys = map (\<lambda>e. length (fst e) + 1) ?all" by (rule nth_equalityI) simp_all
  then have "sum_list (map (\<lambda>s. length s + 1) keys) = sum_mset (image_mset (\<lambda>e. length (fst e) + 1) (mset index))"
    unfolding assms(1) by (metis mset_map sum_mset_sum_list)
  moreover have "length index = ?n" using assms(1) by (metis length_map length_upt length_zip minus_nat.diff_0 min.idem size_mset)
  ultimately have len: "length m = string_at ?base keys ?n"
    unfolding assms(2) enum_length_def enum_widths by (simp add: string_at_def flip: sum_mset_sum_list)
  then have room: "?base + 16 * ?n \<le> length m" by (simp add: string_at_def)
  obtain m1 where m1: "putN 8 0 ?base m = Inr m1" "has 0 (le 8 ?base) m1" "agree {0..<0 + 8} m m1"
    using putN_ok [of 0 8 m ?base] room by (auto simp: enum_base_def)
  note l1 = agree_length [OF m1(3)]
  obtain m2 where m2: "foldR (write_enum_entry ?base) (m1, ?base + 16 * ?n) (map (\<lambda>v. Some (keys ! v, int v)) [0..<?n]) = Inr (m2, string_at ?base keys ?n)"
      "agree {?base..<length m1} m1 m2" "\<forall>v<?n. enum_stored ?base ?n (string_at ?base keys ?n) m2 v (keys ! v)"
    using enum_entries_written [of ?n keys ?base m1] len l1 by auto
  note l2 = agree_length [OF m2(2)]
  obtain m3 where m3: "putN 8 8 (2 ^ bits - 1) m2 = Inr m3" "has 8 (le 8 (2 ^ bits - 1)) m3" "agree {8..<8 + 8} m2 m3"
    using putN_ok [of 8 8 m2 "2 ^ bits - 1"] room l1 l2 by (auto simp: enum_base_def)
  note l3 = agree_length [OF m3(3)]
  obtain m4 where m4: "writeB 16 (replicate (8 * 2 ^ bits) 0) m3 = Inr m4"
    using writeB_total [of 16 "replicate (8 * 2 ^ bits) 0" m3] room l1 l2 l3 by (auto simp: enum_base_def)
  have ag4: "agree {16..<?base} m3 m4" using writeB_agree [OF m4] by (simp add: enum_base_def)
  note l4 = agree_length [OF ag4]
  have zero: "has (enum_at p) (le 8 0) m4" if "p < 2 ^ bits" for p
  proof -
    have "has 16 (replicate (8 * p + (8 + 8 * (2 ^ bits - 1 - p))) 0) m4" using writeB_has [OF m4] that by (simp add: algebra_simps)
    then have "has (enum_at p) (replicate 8 0) m4" by (simp only: replicate_add has_append enum_at_def length_replicate)
    then show ?thesis by (simp only: le_zero)
  qed
  then have table: "enum_table bits ?n m4 Map.empty" by (simp add: enum_table_def)
  have small: "?base + 16 * ?n < 2 ^ 64" using room assms(2,3) by simp
  have mem: "e \<in> set index \<longleftrightarrow> (\<exists>v<?n. e = (keys ! v, int v))" for e
  proof -
    have "set index = set ?all" using assms(1) by (metis set_mset_mset)
    then show ?thesis by (auto simp: set_zip)
  qed
  have base4: "?base \<le> length m4" and cards: "card (dom Map.empty) + length index < 2 ^ bits" and numbers: "\<forall>e\<in>set index. \<exists>v<?n. snd e = int v"
    using room l1 l2 l3 l4 mem \<open>length index = ?n\<close> assms(5) by auto
  obtain m5 slot where m5: "foldO (insert_key hasher bits) m4 index = Some (Inr m5)" "enum_table bits ?n m5 slot" "agree {16..<?base} m4 m5" "card (dom slot) < 2 ^ bits"
      "\<forall>e\<in>set index. \<exists>p. slot p = Some (nat (snd e)) \<and> probed (2 ^ bits) (\<lambda>p. p \<in> dom slot) (unat (hasher (fst e) AND mask bits)) p"
    using keys_inserted [OF table assms(4) small base4 cards numbers, of hasher] by blast
  have ag: "agree {8..<?base} m2 m5"
    by (rule agree_trans [OF m3(3) agree_trans [OF ag4 m5(3) subset_refl]]) (auto simp: enum_base_def)
  have "\<exists>p. slot p = Some v \<and> probed (2 ^ bits) (\<lambda>p. p \<in> dom slot) (unat (hasher (keys ! v) AND mask bits)) p" if "v < ?n" for v
    using bspec [OF m5(5), of "(keys ! v, int v)"] mem that by auto
  moreover have "enum_stored ?base ?n (length m5) m5 v (keys ! v)" if v: "v < ?n" for v
    by (rule enum_stored_agree [OF m2(3) [rule_format, OF v] ag v]) (use v len l1 l2 agree_length [OF ag] in auto)
  moreover have "has 0 (le 8 ?base) m5" by (rule agree_has [OF agree_has [OF m1(2) m2(2)] ag]) (auto simp: enum_base_def)
  moreover have "has 8 (le 8 (2 ^ bits - 1)) m5" by (rule agree_has [OF agree_has [OF m3(2) ag4] m5(3)]) auto
  ultimately have "enum_file hasher bits keys m5 slot"
    using m5(2,4) assms(2,3) l1 l2 agree_length [OF ag] by (simp add: enum_file_def)
  then show ?thesis using keys_in_order_ok [OF assms(1)] m1(1) m2(1) m3(1) m4 m5(1) \<open>length index = ?n\<close> by (auto simp: write_enum_def)
qed

lemma enum_data_ok:
  assumes "Register em path = (em1, i)" "em_file em i = None" "em_opened em path = None" "fs path = Some m" "os_ok os path len"
  shows "\<exists>em2. enum_data os fs em1 i = Inr (m, em2) \<and> enum_data os fs em2 i = Inr (m, em2)"
proof -
  have em1: "em_file em1 i = None" "em_opened em1 path = None" "em_info em1 ! nat i = path" "nat i < length (em_info em1)" "0 \<le> i"
    using assms(1-3) by (auto simp: Register_def)
  show ?thesis unfolding enum_data_def using em1 open_new [of fs path m "em_opened em1" os len] assms(4,5) by simp
qed



end
