(* ===== verification/RtDate.thy ===== *)
theory RtDate
  imports KushPrelude
begin

text \<open>
  Dates as day numbers (\<^verbatim>\<open>runtime/date.cc\<close>): consecutive days of the Gregorian calendar have
  consecutive numbers, and a number is split into the date it was built from. The arithmetic is that of
  32-bit integers.
\<close>

section \<open>The code\<close>

text \<open>The century is converted to a signed integer; it is never negative, so its division is that of words.\<close>

definition BuildDate :: "u32 \<Rightarrow> u32 \<Rightarrow> u32 \<Rightarrow> u32" where
  "BuildDate year month day =
     (let (month, year) = (if month > 2 then (month + 1, year + 4800) else (month + 13, year + 4799));
          century = year div 100;
          julian = year * 365 - 32167;
          julian = julian + (year div 4 - century + century div 4);
          julian = julian + (7834 * month div 256 + day)
      in julian)"

record DateBuilder =
  db_year :: int
  db_month :: int
  db_day :: int

definition Build :: "DateBuilder \<Rightarrow> u32" where
  "Build b = BuildDate (of_int (db_year b)) (of_int (db_month b)) (of_int (db_day b))"

definition SplitDate :: "u32 \<Rightarrow> int \<times> int \<times> int" where
  "SplitDate jd =
     (let julian = jd;
          julian = julian + 32044;
          quad = julian div 146097;
          extra = (julian - quad * 146097) * 4 + 3;
          julian = julian + (60 + quad * 3 + extra div 146097);
          quad = julian div 1461;
          julian = julian - quad * 1461;
          y = julian * 4 div 1461;
          julian = (if y \<noteq> 0 then (julian + 305) mod 365 else (julian + 306) mod 366) + 123;
          y = y + quad * 4;
          year = sint y - 4800;
          quad = julian * 2141 div 65536;
          day = sint (julian - 7834 * quad div 256);
          month = sint ((quad + 10) mod 12 + 1)
      in (year, month, day))"

definition ExtractYear :: "u32 \<Rightarrow> int" where
  "ExtractYear value = fst (SplitDate value)"

section \<open>The calendar\<close>

definition leap_year :: "int \<Rightarrow> bool" where
  "leap_year y \<longleftrightarrow> 4 dvd y \<and> (\<not> 100 dvd y \<or> 400 dvd y)"

definition days_in_month :: "int \<Rightarrow> int \<Rightarrow> int" where
  "days_in_month y m = (if m = 2 then if leap_year y then 29 else 28 else if m \<in> {4, 6, 9, 11} then 30 else 31)"

definition valid_date :: "DateBuilder \<Rightarrow> bool" where
  "valid_date b \<longleftrightarrow> db_month b \<in> {1..12} \<and> db_day b \<in> {1..days_in_month (db_year b) (db_month b)}"

definition next_day :: "DateBuilder \<Rightarrow> DateBuilder" where
  "next_day b =
     (if db_day b < days_in_month (db_year b) (db_month b) then b\<lparr>db_day := db_day b + 1\<rparr>
      else if db_month b < 12 then b\<lparr>db_month := db_month b + 1, db_day := 1\<rparr>
      else b\<lparr>db_year := db_year b + 1, db_month := 1, db_day := 1\<rparr>)"

section \<open>Years that begin in March\<close>

text \<open>Years, months and days counted from March of year -4800; February is the last month.\<close>

definition march_year :: "int \<Rightarrow> int \<Rightarrow> nat" where
  "march_year y m = nat (if m > 2 then y + 4800 else y + 4799)"

definition march_month :: "int \<Rightarrow> nat" where
  "march_month m = nat (if m > 2 then m + 1 else m + 13)"

definition year_start :: "nat \<Rightarrow> nat" where
  "year_start Y = 365 * Y + Y div 4 - Y div 100 + Y div 400"

definition day_count :: "nat \<Rightarrow> nat \<Rightarrow> nat \<Rightarrow> nat" where
  "day_count Y M D = year_start Y + (7834 * M div 256 + D - 123)"

lemma word_div_of_nat: "a < 2 ^ LENGTH('a) \<Longrightarrow> b < 2 ^ LENGTH('a) \<Longrightarrow> (of_nat a :: 'a::len word) div of_nat b = of_nat (a div b)"
  by (simp add: word_arith_nat_div unat_of_nat)

lemma word_mod_of_nat: "a < 2 ^ LENGTH('a) \<Longrightarrow> b < 2 ^ LENGTH('a) \<Longrightarrow> (of_nat a :: 'a::len word) mod of_nat b = of_nat (a mod b)"
  by (simp add: word_arith_nat_mod unat_of_nat)

lemma build_march:
  assumes "Y < 5880000" "4 \<le> M" "M \<le> 15" "1 \<le> D"
  shows "(let century = of_nat Y div 100; julian = of_nat Y * 365 - 32167; julian = julian + (of_nat Y div 4 - century + century div 4)
      in julian + (7834 * of_nat M div 256 + of_nat D)) + 32044 = (of_nat (day_count Y M D) :: u32)"
proof -
  have w: "(of_nat Y :: u32) div 100 = of_nat (Y div 100)" "(of_nat Y :: u32) div 4 = of_nat (Y div 4)"
      "(of_nat (Y div 100) :: u32) div 4 = of_nat (Y div 100 div 4)" "(7834 * of_nat M :: u32) div 256 = of_nat (7834 * M div 256)"
    using assms word_div_of_nat [of Y 100, where 'a = 32] word_div_of_nat [of Y 4, where 'a = 32] word_div_of_nat [of "Y div 100" 4, where 'a = 32]
      word_div_of_nat [of "7834 * M" 256, where 'a = 32] by simp_all
  have le: "Y div 100 \<le> 365 * Y + Y div 4" "123 \<le> 7834 * M div 256 + D" using assms by linarith+
  have "(of_nat (day_count Y M D) :: u32) = 365 * of_nat Y + of_nat (Y div 4) - of_nat (Y div 100) + of_nat (Y div 100 div 4)
      + (of_nat (7834 * M div 256) + of_nat D - 123)"
    using le by (simp add: day_count_def year_start_def of_nat_diff div_mult2_eq [symmetric])
  then show ?thesis by (simp add: w Let_def)
qed

lemma quot_rem:
  assumes "(x :: nat) = n * q + r" "r < n"
  shows "x div n = q" "x mod n = r"
  using assms by simp_all

lemma year_split:
  obtains a c f g :: nat where "Y = 400 * a + 100 * c + 4 * f + g" "c < 4" "f < 25" "g < 4"
    "Y div 4 = 100 * a + 25 * c + f" "Y div 100 = 4 * a + c" "Y div 400 = a" "Y mod 4 = g" "Y mod 100 = 4 * f + g" "Y mod 400 = 100 * c + 4 * f + g"
proof -
  define a r c s f g where "a = Y div 400" "r = Y mod 400" "c = r div 100" "s = r mod 100" "f = s div 4" "g = s mod 4"
  have small: "r < 400" "s < 100" "g < 4" by (simp_all add: a_r_c_s_f_g_def)
  have eqs: "Y = 400 * a + r" "r = 100 * c + s" "s = 4 * f + g" by (simp_all add: a_r_c_s_f_g_def)
  have lim: "c < 4" "f < 25" using small eqs by linarith+
  have Y: "Y = 4 * (100 * a + 25 * c + f) + g" "Y = 100 * (4 * a + c) + (4 * f + g)" "Y = 400 * a + (100 * c + 4 * f + g)" using eqs by simp_all
  show thesis
  proof (rule that [of a c f g])
    show "Y div 4 = 100 * a + 25 * c + f" "Y mod 4 = g" using quot_rem [OF Y(1)] small by simp_all
    show "Y div 100 = 4 * a + c" "Y mod 100 = 4 * f + g" using quot_rem [OF Y(2)] small eqs by simp_all
    show "Y div 400 = a" "Y mod 400 = 100 * c + 4 * f + g" using quot_rem [OF Y(3)] small eqs by simp_all
  qed (use Y(3) lim small in simp_all)
qed

text \<open>The last day of a year that ends in February is there in leap years.\<close>

definition in_year :: "nat \<Rightarrow> nat \<Rightarrow> bool" where
  "in_year Y d \<longleftrightarrow> d < 365 \<or> d = 365 \<and> Y mod 4 = 3 \<and> (Y mod 100 = 99 \<longrightarrow> Y mod 400 = 399)"

lemma split_centuries:
  assumes "in_year Y d"
  shows "(year_start Y + d) div 146097 = Y div 400" "((year_start Y + d) mod 146097 * 4 + 3) div 146097 = Y mod 400 div 100"
    "year_start Y + d + (60 + Y div 400 * 3 + Y mod 400 div 100) = 365 * Y + Y div 4 + d + 60"
proof -
  obtain a c f g where Y: "Y = 400 * a + 100 * c + 4 * f + g" "c < 4" "f < 25" "g < 4" "Y div 4 = 100 * a + 25 * c + f" "Y div 100 = 4 * a + c" "Y div 400 = a"
      "Y mod 4 = g" "Y mod 100 = 4 * f + g" "Y mod 400 = 100 * c + 4 * f + g" by (rule year_split)
  define r where "r = 36524 * c + 1461 * f + 365 * g + d"
  have start: "year_start Y + d = 146097 * a + r" using Y by (simp add: year_start_def r_def)
  have d: "d < 365 \<or> d = 365 \<and> g = 3 \<and> (f = 24 \<longrightarrow> c = 3)" using assms Y(2-4) by (auto simp: in_year_def Y(8-10))
  have r: "r < 146097" "r * 4 + 3 < 146097 * (c + 1)" "146097 * c \<le> r * 4 + 3" using d Y(2-4) by (auto simp: r_def)
  have c: "Y mod 400 div 100 = c" unfolding Y(10) using Y(3,4) by (intro div_nat_eqI) simp_all
  show "(year_start Y + d) div 146097 = Y div 400" using start r(1) Y(7) by simp
  have "(r * 4 + 3) div 146097 = c" using r(2,3) by (intro div_nat_eqI) simp_all
  then show "((year_start Y + d) mod 146097 * 4 + 3) div 146097 = Y mod 400 div 100" using start r(1) c by simp
  show "year_start Y + d + (60 + Y div 400 * 3 + Y mod 400 div 100) = 365 * Y + Y div 4 + d + 60"
    unfolding start c Y(5,7) using Y(1) by (simp add: r_def)
qed

lemma split_year:
  assumes "in_year Y d" "J = 365 * Y + Y div 4 + d + 60" "j = J mod 1461"
  shows "j * 4 div 1461 + J div 1461 * 4 = Y + (if d < 306 then 0 else 1)"
    "(if j * 4 div 1461 \<noteq> 0 then (j + 305) mod 365 else (j + 306) mod 366) = d"
proof -
  define f g where "f = Y div 4" and "g = Y mod 4"
  have Y: "Y = 4 * f + g" "g < 4" by (simp_all add: f_def g_def)
  define t where "t = 365 * g + d + 60"
  have "J = 365 * Y + f + d + 60" by (simp add: assms(2) f_def)
  then have J: "J = 1461 * f + t" unfolding t_def using Y(1) by linarith
  have d: "d < 365 \<or> d = 365 \<and> g = 3" using assms(1) by (auto simp: in_year_def g_def)
  have both: "j * 4 div 1461 + J div 1461 * 4 = Y + (if d < 306 then 0 else 1) \<and> (if j * 4 div 1461 \<noteq> 0 then (j + 305) mod 365 else (j + 306) mod 366) = d"
  proof (cases "g = 3 \<and> 306 \<le> d")
    case True
    then obtain e where d': "d = 306 + e" using le_Suc_ex by blast
    have "e < 60" using d unfolding d' by linarith
    note e = d' this conjunct1 [OF True]
    then have "J = 1461 * (f + 1) + e" using J by (simp add: t_def)
    then have "j = e" "J div 1461 = f + 1" using quot_rem [of J 1461 "f + 1" e] e(2) assms(3) by simp_all
    moreover have "e * 4 div 1461 = 0" "(e + 306) mod 366 = d" using e by simp_all
    ultimately show ?thesis using e Y(1) by simp
  next
    case False
    have t: "t < 1461" using False d Y(2) by (auto simp: t_def)
    then have j: "j = t" "J div 1461 = f" using assms(3) J by simp_all
    let ?y = "g + (if d < 306 then 0 else 1)"
    have y: "t * 4 div 1461 = ?y" using False d Y(2) by (intro div_nat_eqI) (auto simp: t_def)
    have "(t + 305) mod 365 = d" if "?y \<noteq> 0"
    proof -
      have "t + 305 = 365 * (g + 1) + d" "d < 365" using False d by (auto simp: t_def)
      then show ?thesis by (simp only: mod_mult_self4 mod_less)
    qed
    moreover have "(t + 306) mod 366 = d" if "?y = 0" using that by (auto simp: t_def split: if_splits)
    ultimately show ?thesis unfolding j y using Y(1) by simp
  qed
  then show "j * 4 div 1461 + J div 1461 * 4 = Y + (if d < 306 then 0 else 1)" by blast
  show "(if j * 4 div 1461 \<noteq> 0 then (j + 305) mod 365 else (j + 306) mod 366) = d" using both by blast
qed

definition march_length :: "nat \<Rightarrow> nat" where
  "march_length M = (if M = 15 then 29 else if M \<in> {5, 7, 10, 12} then 30 else 31)"

lemma march_months:
  assumes "4 \<le> (M :: nat)" "M \<le> 15"
  obtains "M = 4" | "M = 5" | "M = 6" | "M = 7" | "M = 8" | "M = 9" | "M = 10" | "M = 11" | "M = 12" | "M = 13" | "M = 14" | "M = 15"
proof -
  have "M \<in> set [4..<16]" using assms unfolding set_upt by simp
  then show thesis using that by (auto simp del: set_upt)
qed

lemma split_month:
  assumes "4 \<le> M" "M \<le> 15" "1 \<le> D" "D \<le> march_length M"
  shows "(7834 * M div 256 + D) * 2141 div 65536 = M" "7834 * M div 256 + D - 123 < 306 \<longleftrightarrow> M < 14" "7834 * M div 256 + D - 123 < 366"
    "7834 * M div 256 + D - 123 = 365 \<longleftrightarrow> M = 15 \<and> D = 29" "123 \<le> 7834 * M div 256 + D"
  using assms(3,4) by (rule_tac march_months [OF assms(1,2)]; simp add: march_length_def div_nat_eqI)+

lemma split_words:
  assumes "in_year Y d" "Y < 5880000" "jd + 32044 = of_nat (year_start Y + d)" "d + 123 = B"
  shows "SplitDate jd = (int Y + (if d < 306 then 0 else 1) - 4800, int ((B * 2141 div 65536 + 10) mod 12 + 1), int (B - 7834 * (B * 2141 div 65536) div 256))"
proof -
  let ?w = "of_nat :: nat \<Rightarrow> u32"
  define J where "J = year_start Y + d"
  define K where "K = 365 * Y + Y div 4 + d + 60"
  define j where "j = K mod 1461"
  have d: "d < 366" using assms(1) by (auto simp: in_year_def)
  have J: "J < 2200000000" "J \<le> K" "K < 2200000000" using assms(2) d by (auto simp: J_def K_def year_start_def)
  have q1: "?w J div 146097 = ?w (Y div 400)"
    using word_div_of_nat [of J 146097, where 'a = 32] J(1) split_centuries(1) [OF assms(1)] by (simp add: J_def)
  have "146097 * (J div 146097) + J mod 146097 = J" by (rule mult_div_mod_eq)
  then have "?w J = 146097 * ?w (Y div 400) + ?w (J mod 146097)" using split_centuries(1) [OF assms(1)]
    by (metis J_def of_nat_add of_nat_mult of_nat_numeral)
  then have "(?w J - ?w (Y div 400) * 146097) * 4 + 3 = ?w (J mod 146097 * 4 + 3)" by (simp add: algebra_simps)
  moreover have "?w (J mod 146097 * 4 + 3) div 146097 = ?w (Y mod 400 div 100)"
    using word_div_of_nat [of "J mod 146097 * 4 + 3" 146097, where 'a = 32] split_centuries(2) [OF assms(1)] mod_less_divisor [of 146097 J] by (simp add: J_def)
  ultimately have K: "?w J + (60 + ?w (Y div 400) * 3 + ((?w J - ?w (Y div 400) * 146097) * 4 + 3) div 146097) = ?w K"
    using arg_cong [OF split_centuries(3) [OF assms(1)], of ?w] by (simp add: J_def K_def)
  have q2: "?w K div 1461 = ?w (K div 1461)" using word_div_of_nat [of K 1461, where 'a = 32] J(3) by simp
  have "1461 * (K div 1461) + j = K" by (simp add: j_def)
  then have j: "?w K - ?w (K div 1461) * 1461 = ?w j" by (metis add_diff_cancel_left' mult.commute of_nat_add of_nat_mult of_nat_numeral)
  have jl: "j < 1461" by (simp add: j_def)
  have y: "?w j * 4 div 1461 = ?w (j * 4 div 1461)" using word_div_of_nat [of "j * 4" 1461, where 'a = 32] jl by simp
  have "?w (j * 4 div 1461) \<noteq> 0 \<longleftrightarrow> j * 4 div 1461 \<noteq> 0" using jl by (simp add: unat_of_nat word_unat_eq_iff)
  moreover have "(?w j + 305) mod 365 = ?w ((j + 305) mod 365)" "(?w j + 306) mod 366 = ?w ((j + 306) mod 366)"
    using word_mod_of_nat [of "j + 305" 365, where 'a = 32] word_mod_of_nat [of "j + 306" 366, where 'a = 32] jl by simp_all
  ultimately have B: "(if ?w (j * 4 div 1461) \<noteq> 0 then (?w j + 305) mod 365 else (?w j + 306) mod 366) + 123 = ?w B"
    using split_year(2) [OF assms(1) K_def j_def] assms(4) by (auto split: if_splits)
  define Z where "Z = Y + (if d < 306 then 0 else 1)"
  have Yw: "?w (j * 4 div 1461) + ?w (K div 1461) * 4 = ?w Z" using arg_cong [OF split_year(1) [OF assms(1) K_def j_def], of ?w] by (simp add: Z_def)
  have Zl: "Z < 2 ^ 31" using assms(2) by (simp add: Z_def)
  define M where "M = B * 2141 div 65536"
  have Bl: "B < 489" using d assms(4) by simp
  have M: "?w B * 2141 div 65536 = ?w M" using word_div_of_nat [of "B * 2141" 65536, where 'a = 32] Bl by (simp add: M_def)
  have Ml: "M < 16" unfolding M_def using Bl by (simp add: div_less_iff_less_mult)
  have D: "7834 * ?w M div 256 = ?w (7834 * M div 256)" using word_div_of_nat [of "7834 * M" 256, where 'a = 32] Ml by simp
  have "7834 * M div 256 \<le> B" unfolding M_def by linarith
  then have D2: "?w B - ?w (7834 * M div 256) = ?w (B - 7834 * M div 256)" by (simp add: of_nat_diff)
  have Mo: "(?w M + 10) mod 12 + 1 = ?w ((M + 10) mod 12 + 1)" using word_mod_of_nat [of "M + 10" 12, where 'a = 32] Ml by simp
  have s: "sint (?w n) = int n" if "n < 2 ^ 31" for n using that by (simp add: signed_of_nat signed_take_bit_int_eq_self)
  have "SplitDate jd = (sint (?w Z) - 4800, sint (?w ((M + 10) mod 12 + 1)), sint (?w (B - 7834 * M div 256)))"
    unfolding SplitDate_def Let_def assms(3) J_def [symmetric] q1 K q2 j y B M D D2 Mo Yw by simp
  also have "\<dots> = (int Z - 4800, int ((M + 10) mod 12 + 1), int (B - 7834 * M div 256))"
    using s [OF Zl] s [of "(M + 10) mod 12 + 1"] s [of "B - 7834 * M div 256"] Bl Ml by simp
  finally show ?thesis by (simp add: M_def Z_def)
qed

section \<open>Dates\<close>

text \<open>The years whose day numbers fit into a signed integer, from the first one that the arithmetic reaches.\<close>

definition year_range :: "int \<Rightarrow> bool" where
  "year_range y \<longleftrightarrow> -4799 \<le> y \<and> y < 5870000"

definition day_of :: "DateBuilder \<Rightarrow> nat" where
  "day_of b = day_count (march_year (db_year b) (db_month b)) (march_month (db_month b)) (nat (db_day b))"

lemma leap_march: "-4799 \<le> y \<Longrightarrow> leap_year y \<longleftrightarrow> nat (y + 4799) mod 4 = 3 \<and> (nat (y + 4799) mod 100 = 99 \<longrightarrow> nat (y + 4799) mod 400 = 399)"
proof -
  assume "-4799 \<le> y"
  then obtain Y where Y: "y = int Y - 4799" by (metis add.commute add_diff_cancel_left' diff_ge_0_iff_ge diff_minus_eq_add zero_le_imp_eq_int)
  have dvd: "int k dvd y \<longleftrightarrow> Y mod k = k - 1" if "k \<in> {4, 100, 400}" for k
  proof -
    have "int k dvd 4800" using that by auto
    then have "int k dvd y \<longleftrightarrow> int k dvd y + 4800" by (rule dvd_add_left_iff [symmetric])
    also have "y + 4800 = int (Y + 1)" using Y by simp
    also have "int k dvd int (Y + 1) \<longleftrightarrow> int k dvd int (Suc Y)" by simp
    also have "\<dots> \<longleftrightarrow> Suc Y mod k = 0" unfolding int_dvd_int_iff by (rule dvd_eq_mod_eq_0)
    also have "\<dots> \<longleftrightarrow> Y mod k = k - 1" using that by (auto simp: mod_Suc)
    finally show ?thesis .
  qed
  show ?thesis using dvd [of 4] dvd [of 100] dvd [of 400] by (simp add: leap_year_def Y)
qed

lemma build_day: "valid_date b \<Longrightarrow> year_range (db_year b) \<Longrightarrow> Build b + 32044 = of_nat (day_of b)"
proof -
  assume v: "valid_date b" "year_range (db_year b)"
  let ?m = "db_month b" and ?Y = "march_year (db_year b) (db_month b)" and ?M = "march_month (db_month b)" and ?D = "nat (db_day b)"
  have m: "1 \<le> ?m" "?m \<le> 12" "1 \<le> db_day b" using v(1) by (auto simp: valid_date_def)
  have cmp: "(of_int ?m :: u32) > 2 \<longleftrightarrow> ?m > 2" 
  proof -
    obtain k where "?m = int k" "k \<le> 12" using m nonneg_int_cases [of ?m] by force
    then show ?thesis by (simp add: word_less_nat_alt unat_of_nat)
  qed
  have Y: "(of_nat ?Y :: u32) = of_int (db_year b) + (if ?m > 2 then 4800 else 4799)" using v(2) by (simp add: march_year_def year_range_def)
  have M: "(of_nat ?M :: u32) = of_int ?m + (if ?m > 2 then 1 else 13)" using m by (simp add: march_month_def)
  have D: "(of_nat ?D :: u32) = of_int (db_day b)" using m by simp
  have "?Y < 5880000" "4 \<le> ?M" "?M \<le> 15" "1 \<le> ?D" using v(2) m by (auto simp: march_year_def march_month_def year_range_def)
  note march = build_march [OF this, unfolded Let_def]
  have "(if (of_int ?m :: u32) > 2 then (of_int ?m + 1, of_int (db_year b) + 4800) else (of_int ?m + 13, of_int (db_year b) + 4799)) = (of_nat ?M :: u32, of_nat ?Y :: u32)"
    unfolding cmp Y M by simp
  then show ?thesis unfolding Build_def BuildDate_def Let_def day_of_def D [symmetric] by (simp only: prod.case march)
qed

lemma valid_march:
  assumes "valid_date b" "year_range (db_year b)"
  shows "4 \<le> march_month (db_month b)" "march_month (db_month b) \<le> 15" "1 \<le> nat (db_day b)" "nat (db_day b) \<le> march_length (march_month (db_month b))"
    "in_year (march_year (db_year b) (db_month b)) (7834 * march_month (db_month b) div 256 + nat (db_day b) - 123)"
proof -
  let ?m = "db_month b"
  have m: "1 \<le> ?m" "?m \<le> 12" "1 \<le> db_day b" "db_day b \<le> days_in_month (db_year b) ?m" using assms(1) by (auto simp: valid_date_def)
  show M: "4 \<le> march_month ?m" "march_month ?m \<le> 15" "1 \<le> nat (db_day b)" using m by (auto simp: march_month_def)
  show len: "nat (db_day b) \<le> march_length (march_month ?m)" using m by (auto simp: march_month_def march_length_def days_in_month_def split: if_splits)
  have "db_month b = 2 \<and> leap_year (db_year b)" if "7834 * march_month ?m div 256 + nat (db_day b) - 123 = 365"
    using that m unfolding split_month(4) [OF M len] by (auto simp: march_month_def days_in_month_def split: if_splits)
  then show "in_year (march_year (db_year b) ?m) (7834 * march_month ?m div 256 + nat (db_day b) - 123)"
    using split_month(3) [OF M len] leap_march [of "db_year b"] assms(2) by (auto simp: in_year_def march_year_def year_range_def)
qed

lemma split_build:
  assumes "valid_date b" "year_range (db_year b)"
  shows "SplitDate (Build b) = (db_year b, db_month b, db_day b)"
proof -
  let ?m = "db_month b" and ?Y = "march_year (db_year b) (db_month b)" and ?M = "march_month (db_month b)" and ?D = "nat (db_day b)"
  let ?d = "7834 * ?M div 256 + ?D - 123"
  note vm = valid_march [OF assms] note sm = split_month [OF vm(1-4)]
  have m: "1 \<le> ?m" "?m \<le> 12" using assms(1) by (auto simp: valid_date_def)
  have Y: "?Y < 5880000" using assms(2) by (auto simp: march_year_def year_range_def)
  have "Build b + 32044 = of_nat (year_start ?Y + ?d)" using build_day [OF assms] by (simp add: day_of_def day_count_def)
  moreover have "?d + 123 = 7834 * ?M div 256 + ?D" using sm(5) by simp
  ultimately have "SplitDate (Build b) = (int ?Y + (if ?d < 306 then 0 else 1) - 4800, int ((?M + 10) mod 12 + 1), int (7834 * ?M div 256 + ?D - 7834 * ?M div 256))"
    using split_words [OF vm(5) Y, of "Build b" "7834 * ?M div 256 + ?D"] sm(1) by simp
  moreover have "int ?Y + (if ?d < 306 then 0 else 1) - 4800 = db_year b" unfolding sm(2) using m assms(2) by (auto simp: march_month_def march_year_def year_range_def)
  moreover have "int ((?M + 10) mod 12 + 1) = ?m"
    by (rule march_months [OF vm(1,2)]) (use m in \<open>auto simp: march_month_def split: if_splits\<close>)
  moreover have "int (7834 * ?M div 256 + ?D - 7834 * ?M div 256) = db_day b" using vm(3) by simp
  ultimately show ?thesis by simp
qed

lemma year_start_Suc: "year_start (Suc Y) = year_start Y + (if in_year Y 365 then 366 else 365)"
proof -
  obtain a c f g where Y: "Y = 400 * a + 100 * c + 4 * f + g" "c < 4" "f < 25" "g < 4" "Y div 4 = 100 * a + 25 * c + f" "Y div 100 = 4 * a + c" "Y div 400 = a"
      "Y mod 4 = g" "Y mod 100 = 4 * f + g" "Y mod 400 = 100 * c + 4 * f + g" by (rule year_split)
  have "Suc Y div 4 = Y div 4 + (if g = 3 then 1 else 0)" "Suc Y div 100 = Y div 100 + (if f = 24 \<and> g = 3 then 1 else 0)"
      "Suc Y div 400 = Y div 400 + (if c = 3 \<and> f = 24 \<and> g = 3 then 1 else 0)"
    using Y(2-4) by (auto simp: div_Suc mod_Suc Y(8-10))
  moreover have "in_year Y 365 \<longleftrightarrow> g = 3 \<and> (f = 24 \<longrightarrow> c = 3)" using Y(2-4) by (auto simp: in_year_def Y(8-10))
  ultimately show ?thesis unfolding year_start_def Y(5-7) using Y(1) by (cases "g = 3"; cases "f = 24"; cases "c = 3"; simp)
qed

lemma calendar_months:
  assumes "1 \<le> (m :: int)" "m \<le> 12"
  obtains "m = 1" | "m = 2" | "m = 3" | "m = 4" | "m = 5" | "m = 6" | "m = 7" | "m = 8" | "m = 9" | "m = 10" | "m = 11" | "m = 12"
  by (rule march_months [of "nat m + 3"]) (use assms that in auto)

lemma next_number:
  assumes "valid_date b" "year_range (db_year b)"
  shows "day_of (next_day b) = day_of b + 1"
proof (cases "db_day b < days_in_month (db_year b) (db_month b)")
  case True
  then show ?thesis using valid_march(3) [OF assms] split_month(5) [OF valid_march(1-4) [OF assms]]
    by (auto simp: next_day_def day_of_def day_count_def nat_add_distrib)
next
  case False
  then have D: "db_day b = days_in_month (db_year b) (db_month b)" using assms(1) by (simp add: valid_date_def)
  let ?Y = "march_year (db_year b) (db_month b)"
  have leap: "in_year ?Y 365 \<longleftrightarrow> leap_year (db_year b)" if "db_month b = 2"
    using leap_march [of "db_year b"] assms(2) that by (auto simp: in_year_def march_year_def year_range_def)
  have y: "-4799 \<le> db_year b" using assms(2) by (simp add: year_range_def)
  then have feb: "march_year (db_year b) 3 = Suc (march_year (db_year b) 2)" by (simp add: march_year_def)
  have m: "1 \<le> db_month b" "db_month b \<le> 12" using assms(1) by (simp_all add: valid_date_def)
  note months = next_day_def day_of_def day_count_def days_in_month_def march_month_def
  show ?thesis
  proof (cases "db_month b = 2")
    case True
    then show ?thesis using D leap by (simp add: months feb year_start_Suc)
  next
    case False
    show ?thesis by (rule calendar_months [OF m]) (use D y False in \<open>simp_all add: months march_year_def algebra_simps\<close>)
  qed
qed

lemma next_day_valid: "valid_date b \<Longrightarrow> valid_date (next_day b)"
  by (auto simp: valid_date_def next_day_def days_in_month_def)

text \<open>
  Property C31. A date of the Gregorian calendar is split from the number that was built from it, the year is extracted,
  and the next day has the next number; the first day of 1970 has the number 2440588. It holds for the years whose numbers
  fit into 32 bits.
\<close>

theorem date_numbers:
  assumes "valid_date b" "-4799 \<le> db_year b" "db_year b < 5869999"
  shows "SplitDate (Build b) = (db_year b, db_month b, db_day b) \<and> ExtractYear (Build b) = db_year b
    \<and> Build (next_day b) = Build b + 1 \<and> Build \<lparr>db_year = 1970, db_month = 1, db_day = 1\<rparr> = 2440588"
proof -
  have r: "year_range (db_year b)" "year_range (db_year (next_day b))" using assms(2,3) by (auto simp: year_range_def next_day_def)
  have "Build (next_day b) + 32044 = Build b + 1 + 32044"
    using build_day [OF next_day_valid [OF assms(1)] r(2)] build_day [OF assms(1) r(1)] next_number [OF assms(1) r(1)] by (simp add: algebra_simps)
  then have "Build (next_day b) = Build b + 1" by (rule add_right_imp_eq)
  moreover have "Build \<lparr>db_year = 1970, db_month = 1, db_day = 1\<rparr> = 2440588" by (simp add: Build_def BuildDate_def)
  ultimately show ?thesis using split_build [OF assms(1) r(1)] by (simp add: ExtractYear_def)
qed

theorem date_numbers_witness:
  "SplitDate (Build \<lparr>db_year = 2000, db_month = 2, db_day = 29\<rparr>) = (2000, 2, 29)
    \<and> Build \<lparr>db_year = 2000, db_month = 3, db_day = 1\<rparr> = Build \<lparr>db_year = 2000, db_month = 2, db_day = 29\<rparr> + 1"
proof -
  have n: "next_day \<lparr>db_year = 2000, db_month = 2, db_day = 29\<rparr> = \<lparr>db_year = 2000, db_month = 3, db_day = 1\<rparr>"
    by (simp add: next_day_def days_in_month_def leap_year_def)
  show ?thesis using date_numbers [of "\<lparr>db_year = 2000, db_month = 2, db_day = 29\<rparr>", unfolded n] by (simp add: valid_date_def days_in_month_def leap_year_def)
qed

end
