(* ===== verification/Execution.thy ===== *)
theory Execution
  imports KushPrelude
begin

text \<open>
  Running a compiled query (\<^verbatim>\<open>execution/pipeline.cc\<close>, \<^verbatim>\<open>execution/executable_query.cc\<close>): the
  pipelines are run in topological order, a pipeline that reads the result of another in morsels, and a result is
  released after its last reader. The compiled functions are an argument, one record per backend: functions on
  the state of the process, found by the number of the pipeline. What the clock decides is an argument as well.
\<close>

section \<open>Pipelines\<close>

record Pipeline =
  pl_driver :: "nat option"
  pl_succ :: "nat list"
  pl_pred :: "nat list"
  pl_split :: bool

definition CreatePipeline :: "Pipeline list \<Rightarrow> Pipeline list \<times> nat" where
  "CreatePipeline ps = (ps @ [\<lparr>pl_driver = None, pl_succ = [], pl_pred = [], pl_split = False\<rparr>], length ps)"

definition AddPredecessor :: "Pipeline list \<Rightarrow> nat \<Rightarrow> nat \<Rightarrow> Pipeline list res" where
  "AddPredecessor ps i pred =
     bindR (nthR ps i) (\<lambda>p.
     bindR (updR ps i (p\<lparr>pl_pred := pl_pred p @ [pred]\<rparr>)) (\<lambda>ps.
     bindR (nthR ps pred) (\<lambda>q.
       updR ps pred (q\<lparr>pl_succ := pl_succ q @ [i]\<rparr>))))"

definition SetDriver :: "Pipeline list \<Rightarrow> nat \<Rightarrow> nat \<Rightarrow> Pipeline list res" where
  "SetDriver ps i pred =
     bindR (nthR ps i) (\<lambda>p.
     bindR (updR ps i (p\<lparr>pl_driver := Some pred\<rparr>)) (\<lambda>ps.
       AddPredecessor ps i pred))"

definition SetSplit :: "Pipeline list \<Rightarrow> nat \<Rightarrow> bool \<Rightarrow> Pipeline list res" where
  "SetSplit ps i s = bindR (nthR ps i) (\<lambda>p. updR ps i (p\<lparr>pl_split := s\<rparr>))"

section \<open>The order\<close>

fun TopSortVisit :: "nat \<Rightarrow> Pipeline list \<Rightarrow> nat \<Rightarrow> bool list \<times> nat list \<Rightarrow> (bool list \<times> nat list) ores" where
  "TopSortVisit 0 ps cur st = None"
| "TopSortVisit (Suc fuel) ps cur st =
     bindO (Some (updR (fst st) cur True)) (\<lambda>vis.
     bindO (Some (nthR ps cur)) (\<lambda>p.
     bindO (foldO (\<lambda>st next.
              bindO (Some (nthR (fst st) next)) (\<lambda>seen.
                if \<not> seen then TopSortVisit fuel ps next st else Some (Inr st))) (vis, snd st) (pl_succ p)) (\<lambda>st.
       Some (Inr (fst st, snd st @ [cur])))))"

definition pipeline_order :: "Pipeline list \<Rightarrow> nat list ores" where
  "pipeline_order ps =
     bindO (foldO (\<lambda>st i.
              bindO (Some (nthR (fst st) i)) (\<lambda>seen.
                if \<not> seen then TopSortVisit (length ps) ps i st else Some (Inr st)))
            (replicate (length ps) False, []) [0..<length ps]) (\<lambda>st.
       Some (Inr (rev (snd st))))"

section \<open>Compiled functions\<close>

record 's code =
  init_fn :: "nat \<Rightarrow> 's \<Rightarrow> 's"
  reset_fn :: "nat \<Rightarrow> 's \<Rightarrow> 's"
  body_fn :: "nat \<Rightarrow> 's \<Rightarrow> 's"
  split_body_fn :: "nat \<Rightarrow> int \<Rightarrow> int \<Rightarrow> 's \<Rightarrow> 's"
  size_fn :: "nat \<Rightarrow> 's \<Rightarrow> int"

datatype BackendType = ASM | LLVM

datatype PipelineMode = STATIC | ADAPTIVE

definition CHUNK_SIZE :: int where
  "CHUNK_SIZE = 8192"

definition GetInputSize :: "'s code \<Rightarrow> Pipeline list \<Rightarrow> nat \<Rightarrow> 's \<Rightarrow> int res" where
  "GetInputSize program ps cur s =
     bindR (nthR ps cur) (\<lambda>p.
       case pl_driver p of
         None \<Rightarrow> Inr 0
       | Some pred \<Rightarrow> bindR (nthR ps pred) (\<lambda>_. Inr (size_fn program pred s)))"

definition CleanUpPredecessors :: "'s code \<Rightarrow> Pipeline list \<Rightarrow> nat \<Rightarrow> nat list \<times> 's \<Rightarrow> (nat list \<times> 's) res" where
  "CleanUpPredecessors program ps cur st =
     bindR (nthR ps cur) (\<lambda>p.
       foldR (\<lambda>(users, s) pred.
         bindR (nthR ps pred) (\<lambda>q.
         bindR (nthR users pred) (\<lambda>n.
         bindR (updR users pred (n + 1)) (\<lambda>users.
           Inr (users, if n + 1 = length (pl_succ q) then reset_fn program pred s else s))))) st (pl_pred p))"

definition ExecuteNonSplitPipeline :: "BackendType \<Rightarrow> 's code \<Rightarrow> 's code \<Rightarrow> nat \<Rightarrow> 's \<Rightarrow> 's" where
  "ExecuteNonSplitPipeline backend asm llvm i s = (case backend of ASM \<Rightarrow> body_fn asm i s | LLVM \<Rightarrow> body_fn llvm i s)"

text \<open>A step of the loops over morsels: the end of the morsel. The sum overflows for an input of almost \<open>2 ^ 31\<close> tuples.\<close>

definition morsel_end :: "int \<Rightarrow> int \<Rightarrow> int res" where
  "morsel_end next_tuple input_size =
     (if next_tuple + CHUNK_SIZE < 2 ^ 31 then Inr (min (next_tuple + CHUNK_SIZE - 1) (input_size - 1)) else Inl Undefined)"

function static_loop :: "(int \<Rightarrow> int \<Rightarrow> 's \<Rightarrow> 's) \<Rightarrow> int \<Rightarrow> int \<Rightarrow> 's \<Rightarrow> 's res" where
  "static_loop body input_size next_tuple s =
     (if next_tuple < input_size then
        (case morsel_end next_tuple input_size of
           Inl e \<Rightarrow> Inl e
         | Inr en \<Rightarrow> static_loop body input_size (en + 1) (body next_tuple en s))
      else Inr s)"
  by pat_completeness auto

termination
  by (relation "measure (\<lambda>(body, input_size, next_tuple, s). nat (input_size - next_tuple))")
    (auto simp: morsel_end_def CHUNK_SIZE_def split: if_splits)

declare static_loop.simps [simp del]

definition ExecuteSplitPipelineStatic :: "BackendType \<Rightarrow> 's code \<Rightarrow> 's code \<Rightarrow> Pipeline list \<Rightarrow> nat \<Rightarrow> 's \<Rightarrow> 's res" where
  "ExecuteSplitPipelineStatic backend asm llvm ps i s =
     bindR (GetInputSize asm ps i s) (\<lambda>input_size.
       static_loop (case backend of ASM \<Rightarrow> split_body_fn asm i | LLVM \<Rightarrow> split_body_fn llvm i) input_size 0 s)"

fun threshold_loop :: "nat \<Rightarrow> (int \<Rightarrow> int \<Rightarrow> 's \<Rightarrow> 's) \<Rightarrow> int \<Rightarrow> int \<Rightarrow> 's \<Rightarrow> (int \<times> 's) res" where
  "threshold_loop 0 body input_size next_tuple s = Inr (next_tuple, s)"
| "threshold_loop (Suc n) body input_size next_tuple s =
     (if next_tuple < input_size then
        (case morsel_end next_tuple input_size of
           Inl e \<Rightarrow> Inl e
         | Inr en \<Rightarrow> threshold_loop n body input_size (en + 1) (body next_tuple en s))
      else Inr (next_tuple, s))"

text \<open>\<^verbatim>\<open>faster n\<close>: by the times measured so far, compiling with LLVM pays off for \<open>n\<close> more morsels.\<close>

definition ExecuteSplitPipelineAdaptive :: "(int \<Rightarrow> bool) \<Rightarrow> 's code \<Rightarrow> 's code \<Rightarrow> Pipeline list \<Rightarrow> nat \<Rightarrow> 's \<Rightarrow> 's res" where
  "ExecuteSplitPipelineAdaptive faster asm llvm ps i s =
     bindR (GetInputSize asm ps i s) (\<lambda>input_size.
     bindR (threshold_loop 2 (split_body_fn asm i) input_size 0 s) (\<lambda>(next_tuple, s).
       if next_tuple < input_size then
         let num_morsels_left = (input_size - next_tuple) div CHUNK_SIZE;
             exec = (if faster num_morsels_left then split_body_fn llvm i else split_body_fn asm i)
         in static_loop exec input_size next_tuple s
       else Inr s))"

definition execute_pipeline ::
    "PipelineMode \<Rightarrow> BackendType \<Rightarrow> (nat \<Rightarrow> int \<Rightarrow> bool) \<Rightarrow> 's code \<Rightarrow> 's code \<Rightarrow> Pipeline list \<Rightarrow> nat list \<times> 's \<Rightarrow> nat \<Rightarrow> (nat list \<times> 's) res" where
  "execute_pipeline mode backend faster asm llvm ps st i =
     (let (users, s) = st; s = init_fn asm i s in
      bindR (nthR ps i) (\<lambda>p.
      bindR (if pl_split p then
               (case mode of
                  ADAPTIVE \<Rightarrow> ExecuteSplitPipelineAdaptive (faster i) asm llvm ps i s
                | STATIC \<Rightarrow> ExecuteSplitPipelineStatic backend asm llvm ps i s)
             else Inr (ExecuteNonSplitPipeline backend asm llvm i s)) (\<lambda>s.
        CleanUpPredecessors asm ps i (users, s))))"

definition ParseMode :: "string \<Rightarrow> PipelineMode res" where
  "ParseMode flag =
     (if flag = ''static'' then Inr STATIC
      else if flag = ''adaptive'' then Inr ADAPTIVE
      else Inl (RuntimeError ''Unknown pipeline mode.''))"

definition Execute ::
    "string \<Rightarrow> BackendType \<Rightarrow> (nat \<Rightarrow> int \<Rightarrow> bool) \<Rightarrow> 's code \<Rightarrow> 's code \<Rightarrow> Pipeline list \<Rightarrow> 's \<Rightarrow> 's ores" where
  "Execute flag backend faster asm llvm ps s =
     bindO (Some (ParseMode flag)) (\<lambda>mode.
     bindO (pipeline_order ps) (\<lambda>order.
     bindO (Some (foldR (execute_pipeline mode backend faster asm llvm ps) (replicate (length ps) 0, s) order)) (\<lambda>(users, s).
       Some (if order = [] then Inl Undefined
             else bindR (nthR ps (last order)) (\<lambda>p.
               if pl_succ p \<noteq> [] then Inl (RuntimeError ''A pipeline references the output pipeline'')
               else Inr (reset_fn asm (last order) s))))))"

section \<open>The order is topological\<close>

definition succ_edges :: "Pipeline list \<Rightarrow> (nat \<times> nat) set" where
  "succ_edges ps = {(u, v). u < length ps \<and> v \<in> set (pl_succ (ps ! u))}"

definition pipelines_ok :: "Pipeline list \<Rightarrow> bool" where
  "pipelines_ok ps \<longleftrightarrow>
     (\<forall>i<length ps. set (pl_succ (ps ! i)) \<subseteq> {..<length ps} \<and> set (pl_pred (ps ! i)) \<subseteq> {..<length ps})
     \<and> (\<forall>i<length ps. \<forall>j<length ps. count_list (pl_succ (ps ! i)) j = count_list (pl_pred (ps ! j)) i)
     \<and> (\<forall>i<length ps. \<forall>d. pl_driver (ps ! i) = Some d \<longrightarrow> d \<in> set (pl_pred (ps ! i)))"

definition marked :: "bool list \<Rightarrow> nat set" where
  "marked vis = {i. i < length vis \<and> vis ! i}"

text \<open>A list in which the successors of every element come before it.\<close>

definition postordered :: "Pipeline list \<Rightarrow> nat list \<Rightarrow> bool" where
  "postordered ps ord \<longleftrightarrow> (\<forall>i<length ord. set (pl_succ (ps ! (ord ! i))) \<subseteq> set (take i ord))"

definition visit_ok :: "Pipeline list \<Rightarrow> bool list \<times> nat list \<Rightarrow> bool" where
  "visit_ok ps st \<longleftrightarrow> length (fst st) = length ps \<and> distinct (snd st) \<and> set (snd st) \<subseteq> marked (fst st) \<and> postordered ps (snd st)"

text \<open>The pipelines whose visit is not finished, and the steps of a visit: others are finished, these stay.\<close>

definition open_visits :: "bool list \<times> nat list \<Rightarrow> nat set" where
  "open_visits st = marked (fst st) - set (snd st)"

definition visit_step :: "Pipeline list \<Rightarrow> bool list \<times> nat list \<Rightarrow> bool list \<times> nat list \<Rightarrow> bool" where
  "visit_step ps st st' \<longleftrightarrow> visit_ok ps st' \<and> marked (fst st) \<subseteq> marked (fst st') \<and> open_visits st' = open_visits st \<and> set (snd st) \<subseteq> set (snd st')"

lemma marked_update: "c < length vis \<Longrightarrow> marked (vis[c := True]) = insert c (marked vis)"
  by (auto simp: marked_def nth_list_update)

lemma marked_less: "length vis = n \<Longrightarrow> marked vis \<subseteq> {..<n}"
  by (auto simp: marked_def)

lemma postordered_snoc: "postordered ps (ord @ [c]) \<longleftrightarrow> postordered ps ord \<and> set (pl_succ (ps ! c)) \<subseteq> set ord"
  by (auto simp: postordered_def nth_append less_Suc_eq)

lemma visit_step_refl: "visit_ok ps st \<Longrightarrow> visit_step ps st st"
  by (simp add: visit_step_def)

lemma visit_step_trans: "visit_step ps st st1 \<Longrightarrow> visit_step ps st1 st2 \<Longrightarrow> visit_step ps st st2"
  by (auto simp: visit_step_def)

lemma TopSortVisit_law:
  assumes "pipelines_ok ps" "acyclic (succ_edges ps)" "visit_ok ps st" "c < length ps" "c \<notin> marked (fst st)"
    "\<forall>g\<in>open_visits st. (g, c) \<in> (succ_edges ps)\<^sup>+" "card ({..<length ps} - marked (fst st)) \<le> fuel"
  shows "\<exists>st'. TopSortVisit fuel ps c st = Some (Inr st') \<and> visit_step ps st st' \<and> c \<in> set (snd st')"
  using assms(3-)
proof (induction fuel arbitrary: c st)
  case 0
  then have "{..<length ps} - marked (fst st) = {}" by simp
  then show ?case using 0 by auto
next
  case (Suc fuel)
  let ?E = "succ_edges ps" and ?vis = "(fst st)[c := True]"
  let ?f = "\<lambda>st next. bindO (Some (nthR (fst st) next)) (\<lambda>seen. if \<not> seen then TopSortVisit fuel ps next st else Some (Inr st))"
  have len: "length (fst st) = length ps" using Suc.prems(1) by (simp add: visit_ok_def)
  have m: "marked ?vis = insert c (marked (fst st))" by (rule marked_update) (use Suc.prems(2) len in simp)
  have cord: "c \<notin> set (snd st)" using Suc.prems(1,3) by (auto simp: visit_ok_def)
  have start: "visit_ok ps (?vis, snd st)" "open_visits (?vis, snd st) = insert c (open_visits st)"
    using Suc.prems(1) m cord by (auto simp: visit_ok_def open_visits_def)
  have "{..<length ps} - marked ?vis \<subset> {..<length ps} - marked (fst st)" using Suc.prems(2,3) m by auto
  then have "card ({..<length ps} - marked ?vis) < card ({..<length ps} - marked (fst st))" by (rule psubset_card_mono [rotated]) simp
  then have card: "card ({..<length ps} - marked ?vis) \<le> fuel" using Suc.prems(5) by linarith
  have loop: "\<exists>st2. foldO ?f st1 xs = Some (Inr st2) \<and> visit_step ps st1 st2 \<and> set xs \<subseteq> set (snd st2)"
    if "visit_ok ps st1" "open_visits st1 = insert c (open_visits st)" "marked ?vis \<subseteq> marked (fst st1)" "\<forall>x\<in>set xs. (c, x) \<in> ?E \<and> x < length ps" for st1 xs
    using that
  proof (induction xs arbitrary: st1)
    case Nil
    then show ?case using visit_step_refl by auto
  next
    case (Cons x xs)
    have len1: "length (fst st1) = length ps" using Cons.prems(1) by (simp add: visit_ok_def)
    have x: "(c, x) \<in> ?E" "x < length ps" using Cons.prems(4) by simp_all
    have path: "(g, x) \<in> ?E\<^sup>+" if "g \<in> open_visits st1" for g
      using that Cons.prems(2) Suc.prems(4) x(1) by (auto intro: trancl_into_trancl)
    have "\<exists>st2. ?f st1 x = Some (Inr st2) \<and> visit_step ps st1 st2 \<and> x \<in> set (snd st2)"
    proof (cases "x \<in> marked (fst st1)")
      case True
      then have "x \<in> set (snd st1)" using path [of x] assms(2) by (auto simp: open_visits_def acyclic_def)
      then show ?thesis using True visit_step_refl [OF Cons.prems(1)] len1 x(2) by (auto simp: marked_def)
    next
      case False
      have "card ({..<length ps} - marked (fst st1)) \<le> card ({..<length ps} - marked ?vis)" by (rule card_mono) (use Cons.prems(3) in auto)
      then show ?thesis using Suc.IH [OF Cons.prems(1) x(2) False] path card False len1 x(2) by (auto simp: marked_def)
    qed
    then obtain st2 where st2: "?f st1 x = Some (Inr st2)" "visit_step ps st1 st2" "x \<in> set (snd st2)" by blast
    have "visit_ok ps st2" "open_visits st2 = insert c (open_visits st)" "marked ?vis \<subseteq> marked (fst st2)" "\<forall>x\<in>set xs. (c, x) \<in> ?E \<and> x < length ps"
      using st2(2) Cons.prems unfolding visit_step_def by (simp, simp, blast, simp)
    from Cons.IH [OF this] obtain st3 where "foldO ?f st2 xs = Some (Inr st3)" "visit_step ps st2 st3" "set xs \<subseteq> set (snd st3)" by blast
    then show ?case using st2 visit_step_trans [OF st2(2)] by (auto simp: visit_step_def)
  qed
  have succs: "\<forall>x\<in>set (pl_succ (ps ! c)). (c, x) \<in> ?E \<and> x < length ps" using assms(1) Suc.prems(2) by (auto simp: succ_edges_def pipelines_ok_def)
  obtain st2 where st2: "foldO ?f (?vis, snd st) (pl_succ (ps ! c)) = Some (Inr st2)" "visit_step ps (?vis, snd st) st2" "set (pl_succ (ps ! c)) \<subseteq> set (snd st2)"
    using loop [OF start _ succs] by auto
  have "c \<in> open_visits st2" using st2(2) start(2) by (simp add: visit_step_def)
  then have c: "c \<in> marked (fst st2)" "c \<notin> set (snd st2)" by (simp_all add: open_visits_def)
  let ?st' = "(fst st2, snd st2 @ [c])"
  have "visit_ok ps ?st'" using st2(2,3) c by (auto simp: visit_step_def visit_ok_def postordered_snoc)
  moreover have "open_visits ?st' = open_visits st"
  proof -
    have "open_visits ?st' = open_visits st2 - {c}" by (auto simp: open_visits_def)
    also have "\<dots> = insert c (open_visits st) - {c}" using st2(2) start(2) by (simp add: visit_step_def)
    finally show ?thesis using Suc.prems(3) by (auto simp: open_visits_def)
  qed
  moreover have "marked (fst st) \<subseteq> marked (fst st2)" "set (snd st) \<subseteq> set (snd st2)" using st2(2) m by (auto simp: visit_step_def)
  ultimately have "visit_step ps st ?st'" by (auto simp: visit_step_def)
  then show ?case using st2(1) len Suc.prems(2) by (auto simp del: foldO.simps)
qed

text \<open>An order in which no pipeline comes before one whose result it reads.\<close>

definition topological :: "Pipeline list \<Rightarrow> nat list \<Rightarrow> bool" where
  "topological ps order \<longleftrightarrow> distinct order \<and> set order = {..<length ps}
     \<and> (\<forall>i<length order. set (pl_succ (ps ! (order ! i))) \<subseteq> set (drop (Suc i) order))"

lemma pipeline_order_topological:
  assumes "pipelines_ok ps" "acyclic (succ_edges ps)"
  shows "\<exists>order. pipeline_order ps = Some (Inr order) \<and> topological ps order"
proof -
  let ?f = "\<lambda>st i. bindO (Some (nthR (fst st) i)) (\<lambda>seen. if \<not> seen then TopSortVisit (length ps) ps i st else Some (Inr st))"
  have loop: "\<exists>st'. foldO ?f st xs = Some (Inr st') \<and> visit_step ps st st' \<and> set xs \<subseteq> set (snd st')"
    if "visit_ok ps st" "open_visits st = {}" "set xs \<subseteq> {..<length ps}" for st xs
    using that
  proof (induction xs arbitrary: st)
    case Nil
    then show ?case using visit_step_refl by auto
  next
    case (Cons x xs)
    have len: "length (fst st) = length ps" "x < length ps" using Cons.prems(1,3) by (simp_all add: visit_ok_def)
    have "\<exists>st1. ?f st x = Some (Inr st1) \<and> visit_step ps st st1 \<and> x \<in> set (snd st1)"
    proof (cases "x \<in> marked (fst st)")
      case True
      then show ?thesis using visit_step_refl [OF Cons.prems(1)] Cons.prems(2) len by (auto simp: marked_def open_visits_def)
    next
      case False
      have "card ({..<length ps} - marked (fst st)) \<le> length ps" using card_mono [of "{..<length ps}" "{..<length ps} - marked (fst st)"] by auto
      then show ?thesis using TopSortVisit_law [OF assms Cons.prems(1) len(2) False] Cons.prems(2) False len by (auto simp: marked_def)
    qed
    then obtain st1 where st1: "?f st x = Some (Inr st1)" "visit_step ps st st1" "x \<in> set (snd st1)" by blast
    have "visit_ok ps st1" "open_visits st1 = {}" "set xs \<subseteq> {..<length ps}" using st1(2) Cons.prems by (simp_all add: visit_step_def)
    from Cons.IH [OF this] obtain st2 where "foldO ?f st1 xs = Some (Inr st2)" "visit_step ps st1 st2" "set xs \<subseteq> set (snd st2)" by blast
    then show ?case using st1 visit_step_trans [OF st1(2)] by (auto simp: visit_step_def)
  qed
  have "visit_ok ps (replicate (length ps) False, [])" "open_visits (replicate (length ps) False, []) = {}"
    by (auto simp: visit_ok_def open_visits_def marked_def postordered_def)
  from loop [OF this, of "[0..<length ps]"] obtain st where st: "foldO ?f (replicate (length ps) False, []) [0..<length ps] = Some (Inr st)"
      "visit_ok ps st" "{..<length ps} \<subseteq> set (snd st)" by (auto simp: visit_step_def atLeast0LessThan)
  have "set (snd st) = {..<length ps}" using st(2,3) marked_less [of "fst st" "length ps"] by (auto simp: visit_ok_def)
  moreover have "set (pl_succ (ps ! (rev (snd st) ! i))) \<subseteq> set (drop (Suc i) (rev (snd st)))" if "i < length (snd st)" for i
  proof -
    have "set (pl_succ (ps ! (snd st ! (length (snd st) - Suc i)))) \<subseteq> set (take (length (snd st) - Suc i) (snd st))"
      using st(2) that by (simp add: visit_ok_def postordered_def)
    then show ?thesis using that by (simp add: rev_nth drop_rev)
  qed
  ultimately have "topological ps (rev (snd st))" using st(2) by (simp add: topological_def visit_ok_def)
  then show ?thesis using st(1) by (simp add: pipeline_order_def)
qed

section \<open>What is executed\<close>

datatype action = AInit nat | ABody nat | AReset nat

definition run_action ::
    "PipelineMode \<Rightarrow> BackendType \<Rightarrow> (nat \<Rightarrow> int \<Rightarrow> bool) \<Rightarrow> 's code \<Rightarrow> 's code \<Rightarrow> Pipeline list \<Rightarrow> 's \<Rightarrow> action \<Rightarrow> 's res" where
  "run_action mode backend faster asm llvm ps s a =
     (case a of
        AInit i \<Rightarrow> Inr (init_fn asm i s)
      | AReset i \<Rightarrow> Inr (reset_fn asm i s)
      | ABody i \<Rightarrow>
          if \<not> pl_split (ps ! i) then Inr (ExecuteNonSplitPipeline backend asm llvm i s)
          else if mode = STATIC then ExecuteSplitPipelineStatic backend asm llvm ps i s
          else ExecuteSplitPipelineAdaptive (faster i) asm llvm ps i s)"

definition add_user :: "nat list \<Rightarrow> nat \<Rightarrow> nat list" where
  "add_user users p = users[p := users ! p + 1]"

fun releases :: "Pipeline list \<Rightarrow> nat list \<Rightarrow> nat list \<Rightarrow> nat list" where
  "releases ps users [] = []"
| "releases ps users (p # preds) =
     (if users ! p + 1 = length (pl_succ (ps ! p)) then [p] else []) @ releases ps (add_user users p) preds"

definition after_users :: "Pipeline list \<Rightarrow> nat list \<Rightarrow> nat \<Rightarrow> nat list" where
  "after_users ps users i = foldl add_user users (pl_pred (ps ! i))"

fun schedule :: "Pipeline list \<Rightarrow> nat list \<Rightarrow> nat list \<Rightarrow> action list" where
  "schedule ps users [] = []"
| "schedule ps users (i # order) =
     [AInit i, ABody i] @ map AReset (releases ps users (pl_pred (ps ! i))) @ schedule ps (after_users ps users i) order"

lemma length_users [simp]: "length (foldl add_user users preds) = length users" "length (foldl (after_users ps) users order) = length users"
proof -
  show *: "length (foldl add_user users preds) = length users" for users preds by (induction preds arbitrary: users) (simp_all add: add_user_def)
  show "length (foldl (after_users ps) users order) = length users" by (induction order arbitrary: users) (simp_all add: after_users_def *)
qed

lemma cleanup_actions:
  assumes "set preds \<subseteq> {..<length ps}" "length users = length ps"
  shows "foldR (\<lambda>(users, s) pred. bindR (nthR ps pred) (\<lambda>q. bindR (nthR users pred) (\<lambda>n. bindR (updR users pred (n + 1)) (\<lambda>users.
           Inr (users, if n + 1 = length (pl_succ q) then reset_fn asm pred s else s))))) (users, s) preds
    = bindR (foldR (run_action mode backend faster asm llvm ps) s (map AReset (releases ps users preds))) (\<lambda>s. Inr (foldl add_user users preds, s))"
  using assms
proof (induction preds arbitrary: users s)
  case (Cons p preds)
  have "p < length ps" "length (add_user users p) = length ps" using Cons.prems by (simp_all add: add_user_def)
  then show ?case using Cons.IH [of "add_user users p"] Cons.prems by (simp add: run_action_def add_user_def)
qed simp

lemma execute_pipeline_actions:
  assumes "pipelines_ok ps" "i < length ps" "length users = length ps"
  shows "execute_pipeline mode backend faster asm llvm ps (users, s) i
    = bindR (foldR (run_action mode backend faster asm llvm ps) s ([AInit i, ABody i] @ map AReset (releases ps users (pl_pred (ps ! i)))))
        (\<lambda>s. Inr (after_users ps users i, s))"
proof -
  have preds: "set (pl_pred (ps ! i)) \<subseteq> {..<length ps}" using assms(1,2) by (auto simp: pipelines_ok_def)
  have body: "(if pl_split (ps ! i) then (case mode of ADAPTIVE \<Rightarrow> ExecuteSplitPipelineAdaptive (faster i) asm llvm ps i s | STATIC \<Rightarrow> ExecuteSplitPipelineStatic backend asm llvm ps i s)
      else Inr (ExecuteNonSplitPipeline backend asm llvm i s)) = run_action mode backend faster asm llvm ps s (ABody i)" for s
    by (cases mode) (simp_all add: run_action_def)
  have init: "run_action mode backend faster asm llvm ps s (AInit i) = Inr (init_fn asm i s)" by (simp add: run_action_def)
  note clean = cleanup_actions [OF preds assms(3), of asm _ mode backend faster llvm, unfolded Suc_eq_plus1 [symmetric]]
  show ?thesis
    by (cases "run_action mode backend faster asm llvm ps (init_fn asm i s) (ABody i)")
      (simp_all add: execute_pipeline_def assms(2) body init CleanUpPredecessors_def clean after_users_def)
qed

lemma execute_all_actions:
  assumes "pipelines_ok ps" "set order \<subseteq> {..<length ps}" "length users = length ps"
  shows "foldR (execute_pipeline mode backend faster asm llvm ps) (users, s) order
    = bindR (foldR (run_action mode backend faster asm llvm ps) s (schedule ps users order)) (\<lambda>s. Inr (foldl (after_users ps) users order, s))"
  using assms(2,3)
proof (induction order arbitrary: users s)
  case (Cons i order)
  let ?run = "run_action mode backend faster asm llvm ps"
  have i: "i < length ps" "length (after_users ps users i) = length ps" using Cons.prems by (simp_all add: after_users_def)
  let ?seg = "[AInit i, ABody i] @ map AReset (releases ps users (pl_pred (ps ! i)))"
  have "foldR ?run s (schedule ps users (i # order)) = bindR (foldR ?run s ?seg) (\<lambda>s. foldR ?run s (schedule ps (after_users ps users i) order))"
    using foldR_append [of ?run s ?seg] by simp
  then show ?case using Cons.IH [OF _ i(2)] Cons.prems(1) execute_pipeline_actions [OF assms(1) i(1) Cons.prems(2), of mode backend faster asm llvm s]
    by (cases "foldR ?run s ?seg") simp_all
qed simp

section \<open>When a result is released\<close>

definition uses :: "Pipeline list \<Rightarrow> nat list \<Rightarrow> nat \<Rightarrow> nat" where
  "uses ps order p = sum_list (map (\<lambda>i. count_list (pl_pred (ps ! i)) p) order)"

lemma add_user_nth: "p < length users \<Longrightarrow> foldl add_user users preds ! p = users ! p + count_list preds p"
  by (induction preds arbitrary: users) (auto simp: add_user_def nth_list_update)

lemma after_users_nth: "p < length users \<Longrightarrow> foldl (after_users ps) users order ! p = users ! p + uses ps order p"
  by (induction order arbitrary: users) (simp_all add: after_users_def add_user_nth uses_def)

lemma count_releases:
  assumes "p < length users"
  shows "count_list (releases ps users preds) p = (if users ! p < length (pl_succ (ps ! p)) \<and> length (pl_succ (ps ! p)) \<le> users ! p + count_list preds p then 1 else 0)"
  using assms
proof (induction preds arbitrary: users)
  case (Cons q preds)
  have "p < length (add_user users q)" using Cons.prems by (simp add: add_user_def)
  from Cons.IH [OF this] show ?case using Cons.prems by (auto simp: add_user_def nth_list_update)
qed simp

lemma count_resets:
  assumes "p < length users"
  shows "count_list (schedule ps users order) (AReset p) = (if users ! p < length (pl_succ (ps ! p)) \<and> length (pl_succ (ps ! p)) \<le> users ! p + uses ps order p then 1 else 0)"
  using assms
proof (induction order arbitrary: users)
  case (Cons i order)
  have *: "p < length (after_users ps users i)" "after_users ps users i ! p = users ! p + count_list (pl_pred (ps ! i)) p"
    using Cons.prems add_user_nth by (simp_all add: after_users_def)
  have "count_list (map AReset xs) (AReset p) = count_list xs p" for xs by (induction xs) simp_all
  then show ?case using Cons.IH [OF *(1)] count_releases [OF Cons.prems, of ps "pl_pred (ps ! i)"] by (simp add: *(2) uses_def count_list_append)
qed (simp add: uses_def)

lemma schedule_append: "schedule ps users (xs @ ys) = schedule ps users xs @ schedule ps (foldl (after_users ps) users xs) ys"
  by (induction xs arbitrary: users) simp_all

lemma count_bodies: "count_list (schedule ps users order) (ABody i) = count_list order i" "count_list (schedule ps users order) (AInit i) = count_list order i"
proof -
  have "count_list (map AReset xs) (ABody i) = 0" "count_list (map AReset xs) (AInit i) = 0" for xs by (induction xs) simp_all
  then show "count_list (schedule ps users order) (ABody i) = count_list order i" "count_list (schedule ps users order) (AInit i) = count_list order i"
    by (induction order arbitrary: users) (simp_all add: count_list_append)
qed

definition precedes :: "action list \<Rightarrow> action \<Rightarrow> action \<Rightarrow> bool" where
  "precedes acts a b \<longleftrightarrow> (\<exists>xs ys. acts = xs @ ys \<and> a \<in> set xs \<and> b \<in> set ys \<and> a \<notin> set ys \<and> b \<notin> set xs)"

lemma precedesI:
  assumes "acts = xs @ ys" "a \<in> set xs" "b \<in> set ys" "count_list acts a = 1" "count_list acts b = 1"
  shows "precedes acts a b"
proof -
  have "count_list xs a \<noteq> 0" "count_list ys b \<noteq> 0" using assms(2,3) by (simp_all add: count_list_0_iff)
  then have "count_list ys a = 0" "count_list xs b = 0" using assms(4,5) by (auto simp: assms(1) count_list_append)
  then show ?thesis using assms(1-3) by (auto simp: precedes_def count_list_0_iff)
qed

lemma count_distinct: "distinct xs \<Longrightarrow> count_list xs x = (if x \<in> set xs then 1 else 0)"
  by (induction xs) auto

lemma uses_all:
  assumes "pipelines_ok ps" "topological ps order" "u < length ps"
  shows "uses ps order u = length (pl_succ (ps ! u))"
proof -
  have ord: "distinct order" "set order = {..<length ps}" using assms(2) by (simp_all add: topological_def)
  have "uses ps order u = (\<Sum>i<length ps. count_list (pl_pred (ps ! i)) u)" using ord by (simp add: uses_def sum_list_distinct_conv_sum_set)
  also have "\<dots> = (\<Sum>i<length ps. count_list (pl_succ (ps ! u)) i)" using assms(1,3) by (intro sum.cong) (simp_all add: pipelines_ok_def)
  also have "\<dots> = (\<Sum>i\<in>set (pl_succ (ps ! u)). count_list (pl_succ (ps ! u)) i)"
    using assms(1,3) by (intro sum.mono_neutral_right) (auto simp: pipelines_ok_def count_list_0_iff)
  also have "\<dots> = length (pl_succ (ps ! u))" by (rule sum_count_set) simp_all
  finally show ?thesis .
qed

text \<open>The order around a reader \<open>v\<close> of the result of \<open>u\<close>: until \<open>v\<close> has run, not all readers have.\<close>

lemma schedule_edge:
  assumes "pipelines_ok ps" "topological ps order" "(u, v) \<in> succ_edges ps" "acts = schedule ps (replicate (length ps) 0) order"
  shows "count_list acts (AReset u) = 1" "precedes acts (ABody u) (AInit v)" "precedes acts (ABody v) (AReset u)"
proof -
  let ?u0 = "replicate (length ps) 0" and ?L = "length (pl_succ (ps ! u))"
  have uv: "u < length ps" "v < length ps" "v \<in> set (pl_succ (ps ! u))" using assms(1,3) by (auto simp: succ_edges_def pipelines_ok_def)
  have ord: "distinct order" "set order = {..<length ps}" using assms(2) by (simp_all add: topological_def)
  have all: "uses ps order u = ?L" by (rule uses_all [OF assms(1,2) uv(1)])
  have once: "count_list acts (ABody i) = 1" "count_list acts (AInit i) = 1" if "i < length ps" for i
    using that ord by (auto simp: assms(4) count_bodies count_distinct)
  show r: "count_list acts (AReset u) = 1" using count_resets [of u ?u0 ps order] uv all by (auto simp: assms(4) length_greater_0_conv)
  obtain b where b: "b < length order" "order ! b = v" using uv(2) ord by (metis in_set_conv_nth lessThan_iff)
  obtain a where a: "a < length order" "order ! a = u" using uv(1) ord by (metis in_set_conv_nth lessThan_iff)
  define pre post where "pre = take b order" and "post = drop (Suc b) order"
  have split: "order = pre @ v # post" using b id_take_nth_drop [OF b(1)] by (simp add: pre_def post_def)
  have "v \<in> set (drop (Suc a) order)" using assms(2) a uv(3) by (auto simp: topological_def)
  then obtain c where "order ! (Suc a + c) = v" "Suc a + c < length order" by (auto simp: in_set_conv_nth)
  then have "b = Suc a + c" using b nth_eq_iff_index_eq [OF ord(1) b(1)] by auto
  then have "a < b" by simp
  then have upre: "u \<in> set pre" using a b by (auto simp: pre_def in_set_conv_nth)
  let ?us = "foldl (after_users ps) ?u0 pre" let ?us' = "after_users ps ?us v"
  have acts: "acts = schedule ps ?u0 pre @ [AInit v, ABody v] @ map AReset (releases ps ?us (pl_pred (ps ! v))) @ schedule ps ?us' post"
    by (simp add: assms(4) split schedule_append)
  have "ABody u \<in> set (schedule ps ?u0 pre)" using upre count_bodies(1) [of ps ?u0 pre u] by (metis count_list_0_iff)
  then show "precedes acts (ABody u) (AInit v)" by (rule precedesI [OF acts _ _ once(1) [OF uv(1)] once(2) [OF uv(2)]]) simp
  have "count_list (pl_pred (ps ! v)) u = count_list (pl_succ (ps ! u)) v" using assms(1) uv(1,2) by (simp add: pipelines_ok_def)
  also have "\<dots> \<noteq> 0" using uv(3) by (simp add: count_list_0_iff)
  finally have "uses ps pre u < ?L" using all by (simp add: split uses_def)
  then have "count_list (schedule ps ?u0 pre) (AReset u) = 0" using count_resets [of u ?u0 ps pre] uv(1) by simp
  then have "count_list (map AReset (releases ps ?us (pl_pred (ps ! v))) @ schedule ps ?us' post) (AReset u) = 1"
    using r unfolding acts by (simp add: count_list_append)
  then have "AReset u \<in> set (map AReset (releases ps ?us (pl_pred (ps ! v))) @ schedule ps ?us' post)" by (metis count_list_0_iff zero_neq_one)
  then show "precedes acts (ABody v) (AReset u)"
    by (rule precedesI [of acts "schedule ps ?u0 pre @ [AInit v, ABody v]", OF _ _ _ once(1) [OF uv(2)] r, rotated 2]) (simp_all add: acts)
qed

text \<open>
  Property C13. Whatever the compiled code does, executing a query amounts to a list of actions in which every pipeline is
  initialised once and run once, a pipeline that reads the result of another is initialised after the other has run,
  and a result that is read is released once, after all its readers have run. The sort that finds the order ends.
\<close>

theorem pipelines_scheduled:
  assumes "pipelines_ok ps" "acyclic (succ_edges ps)" "ps \<noteq> []" "ParseMode flag = Inr mode"
  shows "\<exists>acts. Execute flag backend faster asm llvm ps s = Some (foldR (run_action mode backend faster asm llvm ps) s acts)
    \<and> (\<forall>i<length ps. count_list acts (AInit i) = 1 \<and> count_list acts (ABody i) = 1 \<and> precedes acts (AInit i) (ABody i))
    \<and> (\<forall>(u, v)\<in>succ_edges ps. precedes acts (ABody u) (AInit v) \<and> precedes acts (ABody v) (AReset u) \<and> count_list acts (AReset u) = 1)"
proof -
  let ?run = "run_action mode backend faster asm llvm ps"
  obtain order where o: "pipeline_order ps = Some (Inr order)" "topological ps order" using pipeline_order_topological [OF assms(1,2)] by blast
  then have ord: "distinct order" "set order = {..<length ps}" "order \<noteq> []" using assms(3) by (auto simp: topological_def)
  define acts where "acts = schedule ps (replicate (length ps) 0) order"
  let ?acts = "acts @ [AReset (last order)]"
  have "last order < length ps" using ord last_in_set by blast
  moreover have sink: "pl_succ (ps ! last order) = []"
  proof -
    have "length order - 1 < length order" using ord(3) by simp
    then have "set (pl_succ (ps ! (order ! (length order - 1)))) \<subseteq> set (drop (Suc (length order - 1)) order)" using o(2) unfolding topological_def by blast
    then show ?thesis using ord(3) by (simp add: last_conv_nth)
  qed
  moreover have "?run s (AReset i) = Inr (reset_fn asm i s)" for i s by (simp add: run_action_def)
  ultimately have "Execute flag backend faster asm llvm ps s = Some (foldR ?run s ?acts)"
    using execute_all_actions [OF assms(1), of order "replicate (length ps) 0" mode backend faster asm llvm s] ord(2,3) o(1) assms(4)
    by (cases "foldR ?run s acts") (simp_all add: Execute_def acts_def foldR_append)
  moreover have "count_list ?acts (AInit i) = 1 \<and> count_list ?acts (ABody i) = 1 \<and> precedes ?acts (AInit i) (ABody i)" if i: "i < length ps" for i
  proof -
    have "i \<in> set order" using i ord(2) by simp
    then obtain pre post where "order = pre @ i # post" by (meson split_list)
    then have acts: "?acts = (schedule ps (replicate (length ps) 0) pre @ [AInit i]) @ (ABody i
        # map AReset (releases ps (foldl (after_users ps) (replicate (length ps) 0) pre) (pl_pred (ps ! i)))
        @ schedule ps (after_users ps (foldl (after_users ps) (replicate (length ps) 0) pre) i) post @ [AReset (last order)])"
      by (simp add: acts_def schedule_append)
    have once: "count_list ?acts (AInit i) = 1" "count_list ?acts (ABody i) = 1"
      using \<open>i \<in> set order\<close> ord(1) by (simp_all add: acts_def count_bodies count_distinct count_list_append)
    then show ?thesis using precedesI [OF acts _ _ once] by simp
  qed
  moreover have "precedes ?acts (ABody u) (AInit v) \<and> precedes ?acts (ABody v) (AReset u) \<and> count_list ?acts (AReset u) = 1" if e: "(u, v) \<in> succ_edges ps" for u v
  proof -
    note edge = schedule_edge [OF assms(1) o(2) e acts_def]
    have "u \<noteq> last order" using sink e by (auto simp: succ_edges_def)
    moreover have "precedes acts a b \<Longrightarrow> a \<noteq> AReset (last order) \<Longrightarrow> precedes ?acts a b" for a b
      unfolding precedes_def by (elim exE) (rule_tac x = xs in exI, rule_tac x = "ys @ [AReset (last order)]" in exI, auto)
    ultimately show ?thesis using edge by (auto simp: count_list_append)
  qed
  ultimately show ?thesis by (intro exI [of _ ?acts]) auto
qed

lemma static_loop_range:
  assumes "\<And>a b c s. a \<le> b \<Longrightarrow> b < c \<Longrightarrow> body (b + 1) c (body a b s) = body a c s" "n + CHUNK_SIZE \<le> 2 ^ 31" "k < n"
  shows "static_loop body n k s = Inr (body k (n - 1) s)"
  using assms
proof (induction body n k s rule: static_loop.induct)
  case (1 body n k s)
  let ?e = "min (k + CHUNK_SIZE - 1) (n - 1)"
  have e: "morsel_end k n = Inr ?e" using 1(3,4) by (simp add: morsel_end_def)
  have lim: "k \<le> ?e" "?e \<le> n - 1" using 1(4) by (auto simp: CHUNK_SIZE_def)
  show ?case
  proof (cases "?e = n - 1")
    case True
    then show ?thesis using e 1(4) static_loop.simps [of body n n] by (subst static_loop.simps) simp
  next
    case False
    then have "static_loop body n (?e + 1) (body k ?e s) = Inr (body (?e + 1) (n - 1) (body k ?e s))" using "1.IH" [OF 1(4) e 1(2,3)] lim by simp
    then show ?thesis using e 1(4) 1(2) [of k ?e "n - 1" s] lim False by (subst static_loop.simps) simp
  qed
qed

lemma threshold_loop_range:
  assumes "\<And>a b c s. a \<le> b \<Longrightarrow> b < c \<Longrightarrow> body (b + 1) c (body a b s) = body a c s" "n + CHUNK_SIZE \<le> 2 ^ 31" "k \<le> n"
  shows "\<exists>k' s'. threshold_loop m body n k s = Inr (k', s') \<and> k \<le> k' \<and> k' \<le> n \<and> s' = (if k' = k then s else body k (k' - 1) s)"
  using assms(3)
proof (induction m arbitrary: k s)
  case (Suc m)
  let ?e = "min (k + CHUNK_SIZE - 1) (n - 1)"
  show ?case
  proof (cases "k < n")
    case True
    have e: "morsel_end k n = Inr ?e" using assms(2) True by (simp add: morsel_end_def)
    have lim: "k \<le> ?e" "?e + 1 \<le> n" using True by (auto simp: CHUNK_SIZE_def)
    obtain k' s' where k': "threshold_loop m body n (?e + 1) (body k ?e s) = Inr (k', s')" "?e + 1 \<le> k'" "k' \<le> n"
        "s' = (if k' = ?e + 1 then body k ?e s else body (?e + 1) (k' - 1) (body k ?e s))" using Suc.IH [OF lim(2)] by blast
    have "s' = body k (k' - 1) s" using k'(2,4) assms(1) [of k ?e "k' - 1" s] lim(1) by (auto split: if_splits)
    then show ?thesis using k'(1-3) e True lim by auto
  qed (use Suc.prems in simp)
qed simp


section \<open>Witnesses\<close>

text \<open>Two pipelines; the first reads the result of the second in morsels. The state counts the tuples read.\<close>

definition sample_pipelines :: "Pipeline list" where
  "sample_pipelines = [\<lparr>pl_driver = Some 1, pl_succ = [], pl_pred = [1], pl_split = True\<rparr>,
     \<lparr>pl_driver = None, pl_succ = [0], pl_pred = [], pl_split = False\<rparr>]"

definition sample_code :: "int code" where
  "sample_code = \<lparr>init_fn = \<lambda>_ s. s, reset_fn = \<lambda>_ s. s, body_fn = \<lambda>_ s. s, split_body_fn = \<lambda>_ a b s. s + (b - a + 1), size_fn = \<lambda>_ _. 20000\<rparr>"

lemma sample_pipelines_ok: "pipelines_ok sample_pipelines" "acyclic (succ_edges sample_pipelines)" "sample_pipelines \<noteq> []"
proof -
  have edges: "succ_edges sample_pipelines = {(1, 0)}" by (auto simp: succ_edges_def sample_pipelines_def less_Suc_eq)
  show "acyclic (succ_edges sample_pipelines)" unfolding edges by (rule acyclicI) (auto elim: tranclE)
qed (auto simp: pipelines_ok_def sample_pipelines_def less_Suc_eq)

theorem pipelines_scheduled_witness:
  "\<exists>acts. Execute ''adaptive'' ASM (\<lambda>_ _. True) sample_code sample_code sample_pipelines 0
      = Some (foldR (run_action ADAPTIVE ASM (\<lambda>_ _. True) sample_code sample_code sample_pipelines) 0 acts)
    \<and> precedes acts (ABody 1) (AInit 0) \<and> precedes acts (ABody 0) (AReset 1)"
proof -
  have "(1, 0) \<in> succ_edges sample_pipelines" by (simp add: succ_edges_def sample_pipelines_def)
  moreover have "ParseMode ''adaptive'' = Inr ADAPTIVE" by (simp add: ParseMode_def)
  ultimately show ?thesis using pipelines_scheduled [OF sample_pipelines_ok, of "''adaptive''" ADAPTIVE ASM "\<lambda>_ _. True" sample_code sample_code 0] by fast
qed


end
