(* ===== verification/RtString.thy ===== *)
theory RtString
  imports KushPrelude "HOL-Library.Sublist"
begin

text \<open>
  Operations on text (\<^verbatim>\<open>runtime/string.cc\<close>), which wrap those of \<^verbatim>\<open>std::string_view\<close>: searching,
  and the comparison of the bytes as unsigned numbers. Matching of regular expressions belongs to a library.
\<close>

fun bytes_less :: "string \<Rightarrow> string \<Rightarrow> bool" where
  "bytes_less s [] \<longleftrightarrow> False"
| "bytes_less [] (b # bs) \<longleftrightarrow> True"
| "bytes_less (a # as) (b # bs) \<longleftrightarrow> (of_char a :: nat) < of_char b \<or> a = b \<and> bytes_less as bs"

definition sv_compare :: "string \<Rightarrow> string \<Rightarrow> int" where
  "sv_compare s1 s2 =
     (if s1 = s2 then 0
      else if bytes_less s1 s2 then -1 else 1)"

fun sv_find :: "string \<Rightarrow> string \<Rightarrow> nat \<Rightarrow> nat option" where
  "sv_find s pat pos =
     (if take (length pat) s = pat then Some pos
      else case s of [] \<Rightarrow> None | c # s' \<Rightarrow> sv_find s' pat (pos + 1))"

declare sv_find.simps [simp del]

definition StringContains :: "string \<Rightarrow> string \<Rightarrow> bool" where
  "StringContains s1 s2 \<longleftrightarrow> sv_find s1 s2 0 \<noteq> None"

definition StringEndsWith :: "string \<Rightarrow> string \<Rightarrow> bool" where
  "StringEndsWith s1 s2 \<longleftrightarrow>
     (if length s1 \<ge> length s2 then 0 = sv_compare (take (length s2) (drop (length s1 - length s2) s1)) s2 else False)"

definition StringStartsWith :: "string \<Rightarrow> string \<Rightarrow> bool" where
  "StringStartsWith s1 s2 \<longleftrightarrow> take (length s2) s1 = s2"

definition StringEquals :: "string \<Rightarrow> string \<Rightarrow> bool" where
  "StringEquals s1 s2 \<longleftrightarrow> length s1 = length s2 \<and> sv_compare s1 s2 = 0"

definition StringNotEquals :: "string \<Rightarrow> string \<Rightarrow> bool" where
  "StringNotEquals s1 s2 \<longleftrightarrow> \<not> (length s1 = length s2 \<and> sv_compare s1 s2 = 0)"

definition StringLessThan :: "string \<Rightarrow> string \<Rightarrow> bool" where
  "StringLessThan s1 s2 \<longleftrightarrow> sv_compare s1 s2 < 0"

definition StringLessThanEquals :: "string \<Rightarrow> string \<Rightarrow> bool" where
  "StringLessThanEquals s1 s2 \<longleftrightarrow> sv_compare s1 s2 \<le> 0"

definition StringGreaterThan :: "string \<Rightarrow> string \<Rightarrow> bool" where
  "StringGreaterThan s1 s2 \<longleftrightarrow> sv_compare s1 s2 > 0"

definition StringGreaterThanEquals :: "string \<Rightarrow> string \<Rightarrow> bool" where
  "StringGreaterThanEquals s1 s2 \<longleftrightarrow> sv_compare s1 s2 \<ge> 0"

section \<open>What the tests mean\<close>

lemma prefix_take: "take (length pat) s = pat \<longleftrightarrow> prefix pat s"
  by (metis append_eq_conv_conj append_take_drop_id prefix_def)

lemma sv_find_sublist: "sv_find s pat pos \<noteq> None \<longleftrightarrow> sublist pat s"
proof (induction s arbitrary: pos)
  case Nil
  then show ?case by (subst sv_find.simps) simp
next
  case (Cons c s)
  then show ?case by (subst sv_find.simps) (simp add: prefix_take sublist_Cons_right)
qed

lemma contains_sublist: "StringContains s1 s2 \<longleftrightarrow> sublist s2 s1"
  unfolding StringContains_def by (rule sv_find_sublist)

lemma starts_with_prefix: "StringStartsWith s1 s2 \<longleftrightarrow> prefix s2 s1"
  by (simp add: StringStartsWith_def prefix_take)

lemma sv_compare_0 [simp]: "sv_compare s1 s2 = 0 \<longleftrightarrow> s1 = s2" "0 = sv_compare s1 s2 \<longleftrightarrow> s1 = s2"
  by (auto simp: sv_compare_def)

lemma ends_with_suffix: "StringEndsWith s1 s2 \<longleftrightarrow> suffix s2 s1"
proof
  assume "StringEndsWith s1 s2"
  then have "drop (length s1 - length s2) s1 = s2" by (simp add: StringEndsWith_def split: if_splits)
  then show "suffix s2 s1" by (metis suffix_drop)
next
  assume "suffix s2 s1"
  then obtain zs where "s1 = zs @ s2" by (auto simp: suffix_def)
  then show "StringEndsWith s1 s2" by (simp add: StringEndsWith_def)
qed

lemma equals_eq [simp]: "StringEquals s1 s2 \<longleftrightarrow> s1 = s2" "StringNotEquals s1 s2 \<longleftrightarrow> s1 \<noteq> s2"
  by (auto simp: StringEquals_def StringNotEquals_def)

end
