(* ===== verification/CompileValue.thy ===== *)
theory CompileValue
  imports KhirArith PlanExpression RtString RtDate
begin

text \<open>
  The values of the query compiler (\<^verbatim>\<open>compile/proxy/value\<close>, \<^verbatim>\<open>compile/proxy/evaluate.cc\<close>,
  \<^verbatim>\<open>compile/proxy/control_flow/if.cc\<close>). A proxy stands for a value of the program that is being
  emitted: for a constant, which the program builder folds, or for what the emitted code computes, a function of the state
  in which it runs. An exception is thrown while the program is emitted; both branches of a conditional are
  emitted unless the condition is a constant. Calls of the runtime are never folded.
\<close>

section \<open>Staged values\<close>

datatype ('e, 'a) staged = Con 'a | Dyn "'e \<Rightarrow> 'a"

fun rt :: "('e, 'a) staged \<Rightarrow> 'e \<Rightarrow> 'a" where
  "rt (Con a) e = a"
| "rt (Dyn f) e = f e"

text \<open>An operation of the builder: folded for two constants, an instruction otherwise.\<close>

fun fold2 :: "('a \<Rightarrow> 'b \<Rightarrow> 'c res) \<Rightarrow> ('a \<Rightarrow> 'b \<Rightarrow> 'c) \<Rightarrow> ('e, 'a) staged \<Rightarrow> ('e, 'b) staged \<Rightarrow> ('e, 'c) staged res" where
  "fold2 g f (Con a) (Con b) = bindR (g a b) (\<lambda>c. Inr (Con c))"
| "fold2 g f a b = Inr (Dyn (\<lambda>e. f (rt a e) (rt b e)))"

fun cmp2 :: "('a \<Rightarrow> 'a \<Rightarrow> bool) \<Rightarrow> ('e, 'a) staged \<Rightarrow> ('e, 'a) staged \<Rightarrow> ('e, bool) staged" where
  "cmp2 f (Con a) (Con b) = Con (f a b)"
| "cmp2 f a b = Dyn (\<lambda>e. f (rt a e) (rt b e))"

fun map_staged1 :: "('a \<Rightarrow> 'b) \<Rightarrow> ('e, 'a) staged \<Rightarrow> ('e, 'b) staged" where
  "map_staged1 f (Con a) = Con (f a)"
| "map_staged1 f (Dyn g) = Dyn (\<lambda>e. f (g e))"

section \<open>Booleans\<close>

definition BoolNot :: "('e, bool) staged \<Rightarrow> ('e, bool) staged" where
  "BoolNot a = map_staged1 Not a"

definition BoolEq :: "('e, bool) staged \<Rightarrow> ('e, bool) staged \<Rightarrow> ('e, bool) staged" where
  "BoolEq a b = cmp2 (=) a b"

definition BoolNeq :: "('e, bool) staged \<Rightarrow> ('e, bool) staged \<Rightarrow> ('e, bool) staged" where
  "BoolNeq a b = cmp2 (\<noteq>) a b"

fun BoolOr :: "('e, bool) staged \<Rightarrow> ('e, bool) staged \<Rightarrow> ('e, bool) staged" where
  "BoolOr (Con a) b = (if a then Con True else b)"
| "BoolOr a (Con b) = (if b then Con True else a)"
| "BoolOr a b = Dyn (\<lambda>e. rt a e \<or> rt b e)"

fun BoolAnd :: "('e, bool) staged \<Rightarrow> ('e, bool) staged \<Rightarrow> ('e, bool) staged" where
  "BoolAnd (Con a) b = (if a then b else Con False)"
| "BoolAnd a (Con b) = (if b then a else Con False)"
| "BoolAnd a b = Dyn (\<lambda>e. rt a e \<and> rt b e)"

section \<open>Numbers\<close>

text \<open>The operators of a class of numbers; the template argument of the evaluation. Only doubles can be divided.\<close>

record ('e, 'a) NumericClass =
  nc_add :: "('e, 'a) staged \<Rightarrow> ('e, 'a) staged \<Rightarrow> ('e, 'a) staged res"
  nc_sub :: "('e, 'a) staged \<Rightarrow> ('e, 'a) staged \<Rightarrow> ('e, 'a) staged res"
  nc_mul :: "('e, 'a) staged \<Rightarrow> ('e, 'a) staged \<Rightarrow> ('e, 'a) staged res"
  nc_cmp :: "CompType \<Rightarrow> ('e, 'a) staged \<Rightarrow> ('e, 'a) staged \<Rightarrow> ('e, bool) staged"

definition Int8 :: "('e, u8) NumericClass" where
  "Int8 = \<lparr>nc_add = fold2 (\<lambda>a b. Inr (a + b)) (+), nc_sub = fold2 (\<lambda>a b. Inr (a - b)) (-), nc_mul = fold2 (\<lambda>a b. Inr (a * b)) (*),
     nc_cmp = \<lambda>cmp. cmp2 (\<lambda>a b. cmp_int cmp (sint a) (sint b))\<rparr>"

definition Int16 :: "('e, u16) NumericClass" where
  "Int16 = \<lparr>nc_add = fold2 (\<lambda>a b. Inr (a + b)) (+), nc_sub = fold2 (\<lambda>a b. Inr (a - b)) (-), nc_mul = fold2 (\<lambda>a b. Inr (a * b)) (*),
     nc_cmp = \<lambda>cmp. cmp2 (\<lambda>a b. cmp_int cmp (sint a) (sint b))\<rparr>"

definition Int32 :: "('e, u32) NumericClass" where
  "Int32 = \<lparr>nc_add = fold2 (\<lambda>a b. fit32 (sint a + sint b)) (+), nc_sub = fold2 (\<lambda>a b. fit32 (sint a - sint b)) (-),
     nc_mul = fold2 (\<lambda>a b. fit32 (sint a * sint b)) (*), nc_cmp = \<lambda>cmp. cmp2 (\<lambda>a b. cmp_int cmp (sint a) (sint b))\<rparr>"

definition Int64 :: "('e, u64) NumericClass" where
  "Int64 = \<lparr>nc_add = fold2 (\<lambda>a b. fit64 (sint a + sint b)) (+), nc_sub = fold2 (\<lambda>a b. fit64 (sint a - sint b)) (-),
     nc_mul = fold2 (\<lambda>a b. fit64 (sint a * sint b)) (*), nc_cmp = \<lambda>cmp. cmp2 (\<lambda>a b. cmp_int cmp (sint a) (sint b))\<rparr>"

definition Float64 :: "f64_ops \<Rightarrow> ('e, u64) NumericClass" where
  "Float64 F = \<lparr>nc_add = fold2 (\<lambda>a b. Inr (f64_add F a b)) (f64_add F), nc_sub = fold2 (\<lambda>a b. Inr (f64_sub F a b)) (f64_sub F),
     nc_mul = fold2 (\<lambda>a b. Inr (f64_mul F a b)) (f64_mul F), nc_cmp = \<lambda>cmp. cmp2 (cmp_f64 cmp)\<rparr>"

definition Float64Div :: "f64_ops \<Rightarrow> ('e, u64) staged \<Rightarrow> ('e, u64) staged \<Rightarrow> ('e, u64) staged res" where
  "Float64Div F a b = fold2 (\<lambda>a b. Inr (f64_div F a b)) (f64_div F) a b"

definition DateCmp :: "CompType \<Rightarrow> ('e, u32) staged \<Rightarrow> ('e, u32) staged \<Rightarrow> ('e, bool) staged" where
  "DateCmp cmp a b = cmp2 (\<lambda>a b. cmp_int cmp (sint a) (sint b)) a b"

text \<open>The exclusive or of two 64-bit proxies emits an addition.\<close>

definition Int64Xor :: "('e, u64) staged \<Rightarrow> ('e, u64) staged \<Rightarrow> ('e, u64) staged res" where
  "Int64Xor a b = nc_add Int64 a b"

section \<open>Values with null\<close>

datatype 'e IRValue =
    IBool "('e, bool) staged"
  | IInt16 "('e, u16) staged"
  | IInt32 "('e, u32) staged"
  | IInt64 "('e, u64) staged"
  | IDate "('e, u32) staged"
  | IFloat64 "('e, u64) staged"
  | IString "'e \<Rightarrow> string"
  | IEnum int "('e, u32) staged"

record 'e SQLValue =
  sv_value :: "'e IRValue"
  sv_null :: "('e, bool) staged"

fun ir_type :: "'e IRValue \<Rightarrow> SqlType" where
  "ir_type (IBool _) = SqlBoolean"
| "ir_type (IInt16 _) = SqlSmallInt"
| "ir_type (IInt32 _) = SqlInt"
| "ir_type (IInt64 _) = SqlBigInt"
| "ir_type (IDate _) = SqlDate"
| "ir_type (IFloat64 _) = SqlReal"
| "ir_type (IString _) = SqlText"
| "ir_type (IEnum i _) = SqlEnum i"

definition SQLValueType :: "'e SQLValue \<Rightarrow> SqlType" where
  "SQLValueType v = ir_type (sv_value v)"

definition GetNotNullable :: "'e SQLValue \<Rightarrow> 'e SQLValue" where
  "GetNotNullable v = v\<lparr>sv_null := Con False\<rparr>"

abbreviation mkSQL :: "'e IRValue \<Rightarrow> ('e, bool) staged \<Rightarrow> 'e SQLValue" where
  "mkSQL v n \<equiv> \<lparr>sv_value = v, sv_null = n\<rparr>"

section \<open>Conditionals\<close>

definition phi :: "('e \<Rightarrow> bool) \<Rightarrow> ('e, 'a) staged \<Rightarrow> ('e, 'a) staged \<Rightarrow> ('e, 'a) staged" where
  "phi c a b = Dyn (\<lambda>e. if c e then rt a e else rt b e)"

fun phi_value :: "('e \<Rightarrow> bool) \<Rightarrow> 'e IRValue \<Rightarrow> 'e IRValue \<Rightarrow> 'e IRValue res" where
  "phi_value c (IBool a) (IBool b) = Inr (IBool (phi c a b))"
| "phi_value c (IInt16 a) (IInt16 b) = Inr (IInt16 (phi c a b))"
| "phi_value c (IInt32 a) (IInt32 b) = Inr (IInt32 (phi c a b))"
| "phi_value c (IInt64 a) (IInt64 b) = Inr (IInt64 (phi c a b))"
| "phi_value c (IDate a) (IDate b) = Inr (IDate (phi c a b))"
| "phi_value c (IFloat64 a) (IFloat64 b) = Inr (IFloat64 (phi c a b))"
| "phi_value c (IString a) (IString b) = Inr (IString (\<lambda>e. if c e then a e else b e))"
| "phi_value c (IEnum i a) (IEnum j b) = Inr (IEnum i (phi c a b))"
| "phi_value c _ _ = Inl Undefined"

text \<open>\<^verbatim>\<open>S\<close> is the template argument, the class of the result; another class would be reinterpreted.\<close>

definition NullableTernary :: "TypeId \<Rightarrow> ('e, bool) staged \<Rightarrow> 'e SQLValue res \<Rightarrow> 'e SQLValue res \<Rightarrow> 'e SQLValue res" where
  "NullableTernary S cond then_fn else_fn =
     (case cond of
        Con b \<Rightarrow> if b then then_fn else else_fn
      | Dyn c \<Rightarrow>
          bindR then_fn (\<lambda>t.
          bindR else_fn (\<lambda>f.
          if SQLValueType f \<noteq> SQLValueType t then Inl (RuntimeError ''Must be same type returned from each branch.'')
          else if type_id (SQLValueType t) \<noteq> S then Inl Undefined
          else bindR (phi_value c (sv_value t) (sv_value f)) (\<lambda>v.
            Inr (mkSQL v (phi c (sv_null t) (sv_null f)))))))"

definition TernaryImpl :: "('e, bool) staged \<Rightarrow> ('e, 'a) staged res \<Rightarrow> ('e, 'a) staged res \<Rightarrow> ('e, 'a) staged res" where
  "TernaryImpl cond then_fn else_fn =
     (case cond of
        Con b \<Rightarrow> if b then then_fn else else_fn
      | Dyn c \<Rightarrow> bindR then_fn (\<lambda>t. bindR else_fn (\<lambda>f. Inr (phi c t f))))"

definition TernaryPair ::
    "('e, bool) staged \<Rightarrow> (('e, u32) staged \<times> ('e, u32) staged) res \<Rightarrow> (('e, u32) staged \<times> ('e, u32) staged) res
     \<Rightarrow> (('e, u32) staged \<times> ('e, u32) staged) res" where
  "TernaryPair cond then_fn else_fn =
     (case cond of
        Con b \<Rightarrow> if b then then_fn else else_fn
      | Dyn c \<Rightarrow> bindR then_fn (\<lambda>(t1, t2). bindR else_fn (\<lambda>(f1, f2). Inr (phi c t1 f1, phi c t2 f2))))"

section \<open>Binary operators\<close>

text \<open>What the emitted code calls: floating-point arithmetic, the texts of enums, regular expressions and the hash of a text.\<close>

record runtime =
  rt_f64 :: f64_ops
  rt_enum_key :: "int \<Rightarrow> u32 \<Rightarrow> string"
  rt_like :: "string \<Rightarrow> string \<Rightarrow> bool"
  rt_hash_text :: "string \<Rightarrow> u64"

fun comp_type :: "BinaryArithmeticExpressionType \<Rightarrow> CompType option" where
  "comp_type BEq = Some EQ"
| "comp_type BNeq = Some NE"
| "comp_type BLt = Some LT"
| "comp_type BLeq = Some LE"
| "comp_type BGt = Some GT"
| "comp_type BGeq = Some GE"
| "comp_type _ = None"

abbreviation null_bool :: "'e SQLValue res" where
  "null_bool \<equiv> Inr (mkSQL (IBool (Con False)) (Con True))"

abbreviation some_bool :: "('e, bool) staged \<Rightarrow> 'e SQLValue res" where
  "some_bool b \<equiv> Inr (mkSQL (IBool b) (Con False))"

abbreviation any_null :: "'e SQLValue \<Rightarrow> 'e SQLValue \<Rightarrow> ('e, bool) staged" where
  "any_null l r \<equiv> BoolOr (sv_null l) (sv_null r)"

definition EvaluateBinaryBool :: "BinaryArithmeticExpressionType \<Rightarrow> 'e SQLValue \<Rightarrow> 'e SQLValue \<Rightarrow> 'e SQLValue res" where
  "EvaluateBinaryBool op lhs rhs =
     NullableTernary BOOLEAN (any_null lhs rhs) null_bool
       (case (sv_value lhs, sv_value rhs) of
          (IBool a, IBool b) \<Rightarrow>
            (case op of
               BAnd \<Rightarrow> some_bool (BoolAnd a b)
             | BOr \<Rightarrow> some_bool (BoolOr a b)
             | BEq \<Rightarrow> some_bool (BoolEq a b)
             | BNeq \<Rightarrow> some_bool (BoolNeq a b)
             | _ \<Rightarrow> Inl (RuntimeError ''Invalid operator on Bool''))
        | _ \<Rightarrow> Inl BadCast)"

definition EvaluateBinaryDate :: "BinaryArithmeticExpressionType \<Rightarrow> 'e SQLValue \<Rightarrow> 'e SQLValue \<Rightarrow> 'e SQLValue res" where
  "EvaluateBinaryDate op lhs rhs =
     (case comp_type op of
        None \<Rightarrow> Inl (RuntimeError ''Invalid operator on numeric'')
      | Some cmp \<Rightarrow>
          NullableTernary BOOLEAN (any_null lhs rhs) null_bool
            (case (sv_value lhs, sv_value rhs) of
               (IDate a, IDate b) \<Rightarrow> some_bool (DateCmp cmp a b)
             | _ \<Rightarrow> Inl BadCast))"

text \<open>The template over the classes of numbers: its argument gives the operators, how a value of the class is made and the cast to it.\<close>

definition EvaluateBinaryNumeric ::
    "('e, 'a) NumericClass \<Rightarrow> TypeId \<Rightarrow> (('e, 'a) staged \<Rightarrow> 'e IRValue) \<Rightarrow> ('e IRValue \<Rightarrow> ('e, 'a) staged option)
     \<Rightarrow> (('e, 'a) staged \<Rightarrow> ('e, 'a) staged \<Rightarrow> ('e, 'a) staged res) option
     \<Rightarrow> BinaryArithmeticExpressionType \<Rightarrow> 'e SQLValue \<Rightarrow> 'e SQLValue \<Rightarrow> 'e SQLValue res" where
  "EvaluateBinaryNumeric V S wrap cast div_fn op lhs rhs =
     (let casted = (\<lambda>k. case (cast (sv_value lhs), cast (sv_value rhs)) of (Some a, Some b) \<Rightarrow> k a b | _ \<Rightarrow> Inl BadCast);
          arith = (\<lambda>f. NullableTernary S (any_null lhs rhs) (Inr (mkSQL (sv_value lhs) (Con True)))
                     (casted (\<lambda>a b. bindR (f a b) (\<lambda>v. Inr (mkSQL (wrap v) (Con False))))))
      in case op of
           BAdd \<Rightarrow> arith (nc_add V)
         | BSub \<Rightarrow> arith (nc_sub V)
         | BMul \<Rightarrow> arith (nc_mul V)
         | BDiv \<Rightarrow>
             (case div_fn of
                None \<Rightarrow> Inl (RuntimeError ''Invalid arguments to div'')
              | Some f \<Rightarrow>
                  NullableTernary S (any_null lhs rhs) (Inr (mkSQL (IFloat64 (Con 0)) (Con True)))
                    (casted (\<lambda>a b. bindR (f a b) (\<lambda>v. Inr (mkSQL (wrap v) (Con False))))))
         | _ \<Rightarrow>
             (case comp_type op of
                None \<Rightarrow> Inl (RuntimeError ''Invalid operator on numeric'')
              | Some cmp \<Rightarrow> NullableTernary BOOLEAN (any_null lhs rhs) null_bool (casted (\<lambda>a b. some_bool (nc_cmp V cmp a b)))))"

definition EnumToString :: "runtime \<Rightarrow> int \<Rightarrow> ('e, u32) staged \<Rightarrow> 'e \<Rightarrow> string" where
  "EnumToString R i v = (\<lambda>e. rt_enum_key R i (rt v e))"

definition EnumCmp :: "CompType \<Rightarrow> int \<Rightarrow> ('e, u32) staged \<Rightarrow> int \<Rightarrow> ('e, u32) staged \<Rightarrow> ('e, bool) staged res" where
  "EnumCmp cmp i a j b =
     (if j \<noteq> i then Inl (RuntimeError ''Comparing two different enums.'')
      else Inr (cmp2 (\<lambda>a b. cmp_int cmp (sint a) (sint b)) a b))"

fun string_op :: "BinaryArithmeticExpressionType \<Rightarrow> (string \<Rightarrow> string \<Rightarrow> bool) option" where
  "string_op BStartsWith = Some StringStartsWith"
| "string_op BEndsWith = Some StringEndsWith"
| "string_op BContains = Some StringContains"
| "string_op BEq = Some StringEquals"
| "string_op BNeq = Some StringNotEquals"
| "string_op BLt = Some StringLessThan"
| "string_op BLeq = Some StringLessThanEquals"
| "string_op BGt = Some StringGreaterThan"
| "string_op BGeq = Some StringGreaterThanEquals"
| "string_op _ = None"

fun enum_op_name :: "BinaryArithmeticExpressionType \<Rightarrow> string" where
  "enum_op_name BLt = ''LT''"
| "enum_op_name BLeq = ''LEQ''"
| "enum_op_name BGt = ''GT''"
| "enum_op_name _ = ''GEQ''"

definition EvaluateBinaryEnum :: "runtime \<Rightarrow> BinaryArithmeticExpressionType \<Rightarrow> 'e SQLValue \<Rightarrow> 'e SQLValue \<Rightarrow> 'e SQLValue res" where
  "EvaluateBinaryEnum R op lhs rhs =
     NullableTernary BOOLEAN (any_null lhs rhs) null_bool
       (case sv_value lhs of
          IEnum i a \<Rightarrow>
            if op \<in> {BEq, BNeq} then
              (case sv_value rhs of
                 IEnum j b \<Rightarrow> bindR (EnumCmp (if op = BEq then EQ else NE) i a j b) some_bool
               | _ \<Rightarrow> Inl BadCast)
            else if op \<in> {BLt, BLeq, BGt, BGeq} then
              (case (sv_value rhs, string_op op) of
                 (IEnum j b, Some f) \<Rightarrow> some_bool (Dyn (\<lambda>e. f (EnumToString R i a e) (EnumToString R j b e)))
               | (IString b, Some f) \<Rightarrow> some_bool (Dyn (\<lambda>e. f (EnumToString R i a e) (b e)))
               | _ \<Rightarrow> Inl (RuntimeError (''Invalid types for enum '' @ enum_op_name op)))
            else if op \<in> {BStartsWith, BEndsWith, BContains} then
              (case (sv_value rhs, string_op op) of
                 (IString b, Some f) \<Rightarrow> some_bool (Dyn (\<lambda>e. f (EnumToString R i a e) (b e)))
               | _ \<Rightarrow> Inl BadCast)
            else Inl (RuntimeError ''Invalid operator on enum'')
        | _ \<Rightarrow> Inl BadCast)"

definition EvaluateBinaryString :: "BinaryArithmeticExpressionType \<Rightarrow> 'e SQLValue \<Rightarrow> 'e SQLValue \<Rightarrow> 'e SQLValue res" where
  "EvaluateBinaryString op lhs rhs =
     NullableTernary BOOLEAN (any_null lhs rhs) null_bool
       (case (sv_value lhs, sv_value rhs) of
          (IString a, IString b) \<Rightarrow>
            (case string_op op of
               None \<Rightarrow> Inl (RuntimeError ''Invalid operator on string'')
             | Some f \<Rightarrow> some_bool (Dyn (\<lambda>e. f (a e) (b e))))
        | _ \<Rightarrow> Inl BadCast)"

definition EvaluateBinary :: "runtime \<Rightarrow> BinaryArithmeticExpressionType \<Rightarrow> 'e SQLValue \<Rightarrow> 'e SQLValue \<Rightarrow> 'e SQLValue res" where
  "EvaluateBinary R op lhs rhs =
     (case type_id (SQLValueType lhs) of
        BOOLEAN \<Rightarrow> EvaluateBinaryBool op lhs rhs
      | SMALLINT \<Rightarrow> EvaluateBinaryNumeric Int16 SMALLINT IInt16 (\<lambda>v. case v of IInt16 a \<Rightarrow> Some a | _ \<Rightarrow> None) None op lhs rhs
      | INTEGER \<Rightarrow> EvaluateBinaryNumeric Int32 INTEGER IInt32 (\<lambda>v. case v of IInt32 a \<Rightarrow> Some a | _ \<Rightarrow> None) None op lhs rhs
      | DATE \<Rightarrow> EvaluateBinaryDate op lhs rhs
      | BIGINT \<Rightarrow> EvaluateBinaryNumeric Int64 BIGINT IInt64 (\<lambda>v. case v of IInt64 a \<Rightarrow> Some a | _ \<Rightarrow> None) None op lhs rhs
      | REAL \<Rightarrow> EvaluateBinaryNumeric (Float64 (rt_f64 R)) REAL IFloat64 (\<lambda>v. case v of IFloat64 a \<Rightarrow> Some a | _ \<Rightarrow> None)
                 (Some (Float64Div (rt_f64 R))) op lhs rhs
      | TEXT \<Rightarrow> EvaluateBinaryString op lhs rhs
      | ENUM \<Rightarrow> EvaluateBinaryEnum R op lhs rhs)"

section \<open>Order and equality with null\<close>

text \<open>Null is equal to null and after everything else. The casts are not checked.\<close>

definition LessThan :: "runtime \<Rightarrow> 'e SQLValue \<Rightarrow> 'e SQLValue \<Rightarrow> ('e, bool) staged res" where
  "LessThan R lhs rhs =
     TernaryImpl (BoolAnd (sv_null lhs) (sv_null rhs)) (Inr (Con False))
       (TernaryImpl (sv_null lhs) (Inr (Con False))
         (TernaryImpl (sv_null rhs) (Inr (Con True))
           (case (sv_value lhs, sv_value rhs) of
              (IInt16 a, IInt16 b) \<Rightarrow> Inr (nc_cmp Int16 LT a b)
            | (IInt32 a, IInt32 b) \<Rightarrow> Inr (nc_cmp Int32 LT a b)
            | (IDate a, IDate b) \<Rightarrow> Inr (DateCmp LT a b)
            | (IInt64 a, IInt64 b) \<Rightarrow> Inr (nc_cmp Int64 LT a b)
            | (IFloat64 a, IFloat64 b) \<Rightarrow> Inr (nc_cmp (Float64 (rt_f64 R)) LT a b)
            | (IString a, IString b) \<Rightarrow> Inr (Dyn (\<lambda>e. StringLessThan (a e) (b e)))
            | (IEnum i a, IEnum j b) \<Rightarrow> Inr (Dyn (\<lambda>e. StringLessThan (EnumToString R i a e) (EnumToString R j b e)))
            | (IBool a, _) \<Rightarrow> Inl (RuntimeError ''Can't be less than.'')
            | _ \<Rightarrow> Inl Undefined)))"

definition EqualSQL :: "runtime \<Rightarrow> 'e SQLValue \<Rightarrow> 'e SQLValue \<Rightarrow> ('e, bool) staged res" where
  "EqualSQL R lhs rhs =
     TernaryImpl (BoolAnd (sv_null lhs) (sv_null rhs)) (Inr (Con True))
       (TernaryImpl (BoolOr (sv_null lhs) (sv_null rhs)) (Inr (Con False))
         (case (sv_value lhs, sv_value rhs) of
            (IBool a, IBool b) \<Rightarrow> Inr (BoolEq a b)
          | (IInt16 a, IInt16 b) \<Rightarrow> Inr (nc_cmp Int16 EQ a b)
          | (IInt32 a, IInt32 b) \<Rightarrow> Inr (nc_cmp Int32 EQ a b)
          | (IDate a, IDate b) \<Rightarrow> Inr (DateCmp EQ a b)
          | (IInt64 a, IInt64 b) \<Rightarrow> Inr (nc_cmp Int64 EQ a b)
          | (IFloat64 a, IFloat64 b) \<Rightarrow> Inr (nc_cmp (Float64 (rt_f64 R)) EQ a b)
          | (IString a, IString b) \<Rightarrow> Inr (Dyn (\<lambda>e. StringEquals (a e) (b e)))
          | (IEnum i a, IEnum j b) \<Rightarrow> EnumCmp EQ i a j b
          | _ \<Rightarrow> Inl Undefined))"

end
