(* ===== verification/CompileExpr.thy ===== *)
theory CompileExpr
  imports CompileValue PlanSemantics
begin

text \<open>
  The translation of expressions (\<^verbatim>\<open>compile/translators/expression_translator.cc\<close>). Visiting an expression
  emits the code of its children where they are used and gives the proxy of the result; a child that is not used, because
  a condition is a constant, is not translated. Against it stands an evaluation of expressions on plain values, with null
  as \<open>None\<close>: the emitted code computes it.
\<close>

section \<open>The translator\<close>

definition VisitUnary :: "UnaryArithmeticExpressionType \<Rightarrow> 'e SQLValue res \<Rightarrow> 'e SQLValue res" where
  "VisitUnary op child =
     (case op of
        UIsNull \<Rightarrow> bindR child (\<lambda>value. some_bool (sv_null value))
      | UNot \<Rightarrow>
          bindR child (\<lambda>value.
            NullableTernary BOOLEAN (sv_null value) null_bool
              (case sv_value value of IBool b \<Rightarrow> some_bool (BoolNot b) | _ \<Rightarrow> Inl BadCast)))"

definition VisitBinary :: "runtime \<Rightarrow> BinaryArithmeticExpressionType \<Rightarrow> 'e SQLValue res \<Rightarrow> 'e SQLValue res \<Rightarrow> 'e SQLValue res" where
  "VisitBinary R op left right =
     (case op of
        BAnd \<Rightarrow>
          bindR left (\<lambda>left_value.
            NullableTernary BOOLEAN (sv_null left_value) null_bool
              (case sv_value left_value of
                 IBool b \<Rightarrow> NullableTernary BOOLEAN b right (some_bool (Con False))
               | _ \<Rightarrow> Inl BadCast))
      | BOr \<Rightarrow>
          bindR left (\<lambda>left_value.
            NullableTernary BOOLEAN (sv_null left_value) right
              (case sv_value left_value of
                 IBool b \<Rightarrow> NullableTernary BOOLEAN b (some_bool (Con True)) right
               | _ \<Rightarrow> Inl BadCast))
      | _ \<Rightarrow> bindR left (\<lambda>lhs. bindR right (\<lambda>rhs. EvaluateBinary R op lhs rhs)))"

definition VisitLiteral :: "SqlType \<Rightarrow> LiteralValue \<Rightarrow> bool \<Rightarrow> 'e SQLValue res" where
  "VisitLiteral t v null =
     LiteralVisit
       (Some (\<lambda>(x, null). mkSQL (IInt16 (Con x)) (Con null)))
       (Some (\<lambda>(x, null). mkSQL (IInt32 (Con x)) (Con null)))
       (Some (\<lambda>(x, null). mkSQL (IInt64 (Con x)) (Con null)))
       (Some (\<lambda>(x, null). mkSQL (IFloat64 (Con x)) (Con null)))
       (Some (\<lambda>(x, null). mkSQL (IString (\<lambda>e. x)) (Con null)))
       (Some (\<lambda>(x, null). mkSQL (IBool (Con x)) (Con null)))
       (Some (\<lambda>((y, m, d), null). mkSQL (IDate (Con (Build \<lparr>db_year = y, db_month = m, db_day = d\<rparr>))) (Con null)))
       (Some (\<lambda>(x, i, null). mkSQL (IEnum i (Con (word_of_int x))) (Con null)))
       t v null"

definition CaseTernary :: "TypeId \<Rightarrow> 'e SQLValue res \<Rightarrow> 'e SQLValue res \<Rightarrow> 'e SQLValue res \<Rightarrow> 'e SQLValue res" where
  "CaseTernary S cond_expr then_expr else_expr =
     bindR cond_expr (\<lambda>cond.
       NullableTernary S (sv_null cond) else_expr
         (case sv_value cond of
            IBool b \<Rightarrow> NullableTernary S b then_expr else_expr
          | _ \<Rightarrow> Inl Undefined))"

definition VisitConversion :: "runtime \<Rightarrow> 'e SQLValue res \<Rightarrow> 'e SQLValue res" where
  "VisitConversion R child =
     bindR child (\<lambda>v.
       NullableTernary REAL (sv_null v) (Inr (mkSQL (IFloat64 (Con 0)) (Con False)))
         (case sv_value v of
            IInt16 i \<Rightarrow> Inr (mkSQL (IFloat64 (map_staged1 (\<lambda>a. f64_of_int (rt_f64 R) (sint a)) i)) (Con False))
          | IInt32 i \<Rightarrow> Inr (mkSQL (IFloat64 (map_staged1 (\<lambda>a. f64_of_int (rt_f64 R) (sint a)) i)) (Con False))
          | IInt64 i \<Rightarrow> Inr (mkSQL (IFloat64 (map_staged1 (\<lambda>a. f64_of_int (rt_f64 R) (sint a)) i)) (Con False))
          | _ \<Rightarrow> Inl (RuntimeError ''Not an integer input.'')))"

definition VisitExtract :: "ExtractValue \<Rightarrow> 'e SQLValue res \<Rightarrow> 'e SQLValue res" where
  "VisitExtract ev child =
     bindR child (\<lambda>v.
       NullableTernary INTEGER (sv_null v) (Inr (mkSQL (IInt32 (Con 0)) (Con True)))
         (case sv_value v of
            IDate d \<Rightarrow> Inr (mkSQL (IInt32 (Dyn (\<lambda>e. word_of_int (ExtractYear (rt d e))))) (Con False))
          | _ \<Rightarrow> Inl Undefined))"

definition VisitRegexp :: "runtime \<Rightarrow> string \<Rightarrow> 'e SQLValue res \<Rightarrow> 'e SQLValue res" where
  "VisitRegexp R regex child =
     bindR child (\<lambda>lhs.
       NullableTernary BOOLEAN (sv_null lhs) (some_bool (Con False))
         (case sv_value lhs of
            IEnum i v \<Rightarrow> some_bool (Dyn (\<lambda>e. rt_like R (EnumToString R i v e) regex))
          | IString s \<Rightarrow> some_bool (Dyn (\<lambda>e. rt_like R (s e) regex))
          | _ \<Rightarrow> Inl BadCast))"

text \<open>Up to eight values at a time with one vector comparison; unused lanes have -1.\<close>

fun GenerateValues :: "('e, u32) staged \<Rightarrow> int list \<Rightarrow> ('e, bool) staged res" where
  "GenerateValues v values =
     (if length values > 8 then
        TernaryImpl (Dyn (\<lambda>e. rt v e \<in> word_of_int ` set (take 8 values))) (Inr (Con True)) (GenerateValues v (drop 8 values))
      else if length values \<ge> 5 then
        Inr (Dyn (\<lambda>e. rt v e \<in> word_of_int ` set (values @ replicate (8 - length values) (-1))))
      else if length values \<ge> 2 then
        Inr (Dyn (\<lambda>e. rt v e \<in> word_of_int ` set (values @ replicate (4 - length values) (-1))))
      else case values of
        [] \<Rightarrow> Inl Undefined
      | x # _ \<Rightarrow> Inr (cmp2 (\<lambda>a b. cmp_int EQ (sint a) (sint b)) v (Con (word_of_int x))))"

declare GenerateValues.simps [simp del]

definition VisitEnumIn :: "int list \<Rightarrow> 'e SQLValue res \<Rightarrow> 'e SQLValue res" where
  "VisitEnumIn values child =
     bindR child (\<lambda>lhs.
       NullableTernary BOOLEAN (sv_null lhs) (some_bool (Con False))
         (case sv_value lhs of
            IEnum i v \<Rightarrow> bindR (GenerateValues v values) some_bool
          | _ \<Rightarrow> Inl BadCast))"

definition VisitNode :: "runtime \<Rightarrow> SqlType \<Rightarrow> ExpressionNode \<Rightarrow> 'e SQLValue res list \<Rightarrow> 'e SQLValue res" where
  "VisitNode R t node cs =
     (case (node, cs) of
        (UnaryArithmeticNode op, [c]) \<Rightarrow> VisitUnary op c
      | (BinaryArithmeticNode op, [l, r]) \<Rightarrow> VisitBinary R op l r
      | (AggregateNode agg, _) \<Rightarrow> Inl (RuntimeError ''Aggregate expression can't be derived'')
      | (LiteralNode v null, _) \<Rightarrow> VisitLiteral t v null
      | (CaseNode, [c, l, r]) \<Rightarrow> CaseTernary (type_id t) c l r
      | (IntToFloatConversionNode, [c]) \<Rightarrow> VisitConversion R c
      | (ExtractNode v, [c]) \<Rightarrow> VisitExtract v c
      | (RegexpMatchingNode regex, [c]) \<Rightarrow> VisitRegexp R regex c
      | (EnumInNode values, [c]) \<Rightarrow> VisitEnumIn values c
      | _ \<Rightarrow> Inl Undefined)"

definition VisitColumnRef :: "'e SQLValue list list \<Rightarrow> nat \<Rightarrow> nat \<Rightarrow> 'e SQLValue res" where
  "VisitColumnRef kids c i = bindR (nthR kids c) (\<lambda>values. nthR values i)"

fun Compute :: "runtime \<Rightarrow> 'e SQLValue list list \<Rightarrow> 'e SQLValue list \<Rightarrow> Expression \<Rightarrow> 'e SQLValue res" where
  "Compute R kids virt (Expression t n node cs) =
     (case node of
        ColumnRefNode c i \<Rightarrow> VisitColumnRef kids c i
      | VirtualColumnRefNode i \<Rightarrow> nthR virt i
      | _ \<Rightarrow> VisitNode R t node (map (Compute R kids virt) cs))"

section \<open>Plain values\<close>

datatype datum = DBool bool | DInt16 u16 | DInt32 u32 | DInt64 u64 | DDate u32 | DReal u64 | DText string | DEnum int u32

fun datum_at :: "'e IRValue \<Rightarrow> 'e \<Rightarrow> datum" where
  "datum_at (IBool a) e = DBool (rt a e)"
| "datum_at (IInt16 a) e = DInt16 (rt a e)"
| "datum_at (IInt32 a) e = DInt32 (rt a e)"
| "datum_at (IInt64 a) e = DInt64 (rt a e)"
| "datum_at (IDate a) e = DDate (rt a e)"
| "datum_at (IFloat64 a) e = DReal (rt a e)"
| "datum_at (IString a) e = DText (a e)"
| "datum_at (IEnum i a) e = DEnum i (rt a e)"

definition run_value :: "'e SQLValue \<Rightarrow> 'e \<Rightarrow> datum option" where
  "run_value v e = (if rt (sv_null v) e then None else Some (datum_at (sv_value v) e))"

fun enum_text :: "runtime \<Rightarrow> datum \<Rightarrow> string option" where
  "enum_text R (DEnum i v) = Some (rt_enum_key R i v)"
| "enum_text R (DText s) = Some s"
| "enum_text R _ = None"

fun arith_op :: "BinaryArithmeticExpressionType \<Rightarrow> 'a::len word \<Rightarrow> 'a word \<Rightarrow> 'a word option" where
  "arith_op BAdd a b = Some (a + b)"
| "arith_op BSub a b = Some (a - b)"
| "arith_op BMul a b = Some (a * b)"
| "arith_op _ a b = None"

fun real_op :: "f64_ops \<Rightarrow> BinaryArithmeticExpressionType \<Rightarrow> u64 \<Rightarrow> u64 \<Rightarrow> u64 option" where
  "real_op F BAdd a b = Some (f64_add F a b)"
| "real_op F BSub a b = Some (f64_sub F a b)"
| "real_op F BMul a b = Some (f64_mul F a b)"
| "real_op F BDiv a b = Some (f64_div F a b)"
| "real_op F _ a b = None"

definition compare_int :: "BinaryArithmeticExpressionType \<Rightarrow> int \<Rightarrow> int \<Rightarrow> datum option" where
  "compare_int op a b = map_option (\<lambda>cmp. DBool (cmp_int cmp a b)) (comp_type op)"

fun eval_data :: "runtime \<Rightarrow> BinaryArithmeticExpressionType \<Rightarrow> datum \<Rightarrow> datum \<Rightarrow> datum option" where
  "eval_data R op (DBool a) (DBool b) = (case op of BEq \<Rightarrow> Some (DBool (a = b)) | BNeq \<Rightarrow> Some (DBool (a \<noteq> b)) | _ \<Rightarrow> None)"
| "eval_data R op (DInt16 a) (DInt16 b) = (case arith_op op a b of Some c \<Rightarrow> Some (DInt16 c) | None \<Rightarrow> compare_int op (sint a) (sint b))"
| "eval_data R op (DInt32 a) (DInt32 b) = (case arith_op op a b of Some c \<Rightarrow> Some (DInt32 c) | None \<Rightarrow> compare_int op (sint a) (sint b))"
| "eval_data R op (DInt64 a) (DInt64 b) = (case arith_op op a b of Some c \<Rightarrow> Some (DInt64 c) | None \<Rightarrow> compare_int op (sint a) (sint b))"
| "eval_data R op (DReal a) (DReal b) =
     (case real_op (rt_f64 R) op a b of
        Some c \<Rightarrow> Some (DReal c)
      | None \<Rightarrow> map_option (\<lambda>cmp. DBool (cmp_f64 cmp a b)) (comp_type op))"
| "eval_data R op (DDate a) (DDate b) = compare_int op (sint a) (sint b)"
| "eval_data R op (DText a) (DText b) = map_option (\<lambda>f. DBool (f a b)) (string_op op)"
| "eval_data R op (DEnum i a) b =
     (if op \<in> {BEq, BNeq} then (case b of DEnum j b \<Rightarrow> compare_int op (sint a) (sint b) | _ \<Rightarrow> None)
      else (case (string_op op, enum_text R b) of
              (Some f, Some s) \<Rightarrow> Some (DBool (f (rt_enum_key R i a) s))
            | _ \<Rightarrow> None))"
| "eval_data R op _ _ = None"

fun literal_datum :: "SqlType \<Rightarrow> LiteralValue \<Rightarrow> datum" where
  "literal_datum t (LitInt16 x) = DInt16 x"
| "literal_datum t (LitInt32 x) = DInt32 x"
| "literal_datum t (LitInt64 x) = DInt64 x"
| "literal_datum t (LitDouble x) = DReal x"
| "literal_datum t (LitString x) = DText x"
| "literal_datum t (LitBool x) = DBool x"
| "literal_datum t (LitDate y m d) = DDate (Build \<lparr>db_year = y, db_month = m, db_day = d\<rparr>)"
| "literal_datum t (LitEnum x) = DEnum (enum_id t) (word_of_int x)"

fun datum_int :: "datum \<Rightarrow> int option" where
  "datum_int (DInt16 a) = Some (sint a)"
| "datum_int (DInt32 a) = Some (sint a)"
| "datum_int (DInt64 a) = Some (sint a)"
| "datum_int _ = None"

text \<open>Whether a vector comparison with these values has unused lanes, which are filled with -1.\<close>

definition padded :: "int list \<Rightarrow> bool" where
  "padded values \<longleftrightarrow> length values mod 8 \<in> {2, 3, 5, 6, 7}"

text \<open>The value of a node from those of its children.\<close>

definition eval_node :: "runtime \<Rightarrow> SqlType \<Rightarrow> ExpressionNode \<Rightarrow> datum option list \<Rightarrow> datum option" where
  "eval_node R t node vs =
     (case (node, vs) of
        (LiteralNode v null, _) \<Rightarrow> if null then None else Some (literal_datum t v)
      | (UnaryArithmeticNode UIsNull, [v]) \<Rightarrow> Some (DBool (v = None))
      | (UnaryArithmeticNode UNot, [v]) \<Rightarrow> (case v of Some (DBool b) \<Rightarrow> Some (DBool (\<not> b)) | _ \<Rightarrow> None)
      | (BinaryArithmeticNode BAnd, [l, r]) \<Rightarrow> (case l of Some (DBool b) \<Rightarrow> if b then r else Some (DBool False) | _ \<Rightarrow> None)
      | (BinaryArithmeticNode BOr, [l, r]) \<Rightarrow> (case l of Some (DBool b) \<Rightarrow> if b then Some (DBool True) else r | _ \<Rightarrow> r)
      | (BinaryArithmeticNode op, [Some l, Some r]) \<Rightarrow> eval_data R op l r
      | (CaseNode, [c, l, r]) \<Rightarrow> (case c of Some (DBool b) \<Rightarrow> if b then l else r | _ \<Rightarrow> r)
      | (IntToFloatConversionNode, [v]) \<Rightarrow>
          (case v of None \<Rightarrow> Some (DReal 0) | Some d \<Rightarrow> map_option (\<lambda>i. DReal (f64_of_int (rt_f64 R) i)) (datum_int d))
      | (ExtractNode ev, [v]) \<Rightarrow> (case v of Some (DDate d) \<Rightarrow> Some (DInt32 (word_of_int (ExtractYear d))) | _ \<Rightarrow> None)
      | (RegexpMatchingNode regex, [v]) \<Rightarrow>
          (case v of None \<Rightarrow> Some (DBool False) | Some d \<Rightarrow> map_option (\<lambda>s. DBool (rt_like R s regex)) (enum_text R d))
      | (EnumInNode values, [v]) \<Rightarrow>
          (case v of
             None \<Rightarrow> Some (DBool False)
           | Some (DEnum i x) \<Rightarrow> Some (DBool (x \<in> word_of_int ` set values \<or> padded values \<and> x = -1))
           | _ \<Rightarrow> None)
      | _ \<Rightarrow> None)"

text \<open>The interpretation of plans that the emitted code implements; aggregates are not expressions of it.\<close>

definition code_interp :: "runtime \<Rightarrow> (AggregateType \<Rightarrow> datum option list \<Rightarrow> datum option) \<Rightarrow> datum option interp" where
  "code_interp R agg = \<lparr>in_node = eval_node R, in_aggregate = agg, in_truth = (\<lambda>v. v = Some (DBool True))\<rparr>"

end
