(* ===== verification/CompileCorrect.thy ===== *)
theory CompileCorrect
  imports CompileExpr
begin

text \<open>
  The code that is emitted for an expression computes the value of the expression. A well-typed expression whose operators
  are supported for their operands is translated without an exception; the value has the type of the expression and is
  not null unless the expression is nullable.
\<close>

lemma code_interp_ok: "interp_ok (code_interp R agg)"
  by (auto simp: interp_ok_def code_interp_def eval_node_def split: option.splits datum.splits)

section \<open>Staged operations compute their plain counterparts\<close>

lemma rt_cmp2 [simp]: "rt (cmp2 f a b) e = f (rt a e) (rt b e)"
  by (cases a; cases b) simp_all

lemma rt_map_staged1 [simp]: "rt (map_staged1 f a) e = f (rt a e)"
  by (cases a) simp_all

lemma rt_bools [simp]:
  "rt (BoolNot a) e = (\<not> rt a e)" "rt (BoolEq a b) e = (rt a e = rt b e)" "rt (BoolNeq a b) e = (rt a e \<noteq> rt b e)"
  "rt (BoolOr a b) e = (rt a e \<or> rt b e)" "rt (BoolAnd a b) e = (rt a e \<and> rt b e)"
  by (simp_all add: BoolNot_def BoolEq_def BoolNeq_def) (cases a; cases b; simp)+

lemma rt_phi [simp]: "rt (phi c a b) e = (if c e then rt a e else rt b e)"
  by (simp add: phi_def)

lemma fold2_ok:
  assumes "\<And>x y z. g x y = Inr z \<Longrightarrow> z = f x y" "(\<exists>h. a = Dyn h) \<or> (\<exists>h. b = Dyn h) \<or> (\<forall>x y. g x y = Inr (f x y))"
  shows "\<exists>c. fold2 g f a b = Inr c \<and> (\<forall>e. rt c e = f (rt a e) (rt b e)) \<and> ((\<exists>h. a = Dyn h) \<or> (\<exists>h. b = Dyn h) \<longrightarrow> (\<exists>h. c = Dyn h))"
  using assms(2) by (cases a; cases b) auto

lemma fit_ok:
  "fit32 (sint a + sint b) = Inr z \<Longrightarrow> z = a + b" "fit32 (sint a - sint b) = Inr z \<Longrightarrow> z = a - b" "fit32 (sint a * sint b) = Inr z \<Longrightarrow> z = a * b"
  "fit64 (sint c + sint d) = Inr w \<Longrightarrow> w = c + d" "fit64 (sint c - sint d) = Inr w \<Longrightarrow> w = c - d" "fit64 (sint c * sint d) = Inr w \<Longrightarrow> w = c * d"
  by (auto simp: fit32_def fit64_def split: if_splits)

lemma phi_value_ok:
  assumes "ir_type a = ir_type b"
  shows "\<exists>v. phi_value c a b = Inr v \<and> ir_type v = ir_type a \<and> (\<forall>e. datum_at v e = (if c e then datum_at a e else datum_at b e))"
  using assms by (cases a; cases b) (auto simp: sql_types)

lemma NullableTernary_ok:
  assumes "SQLValueType t = SQLValueType f" "type_id (SQLValueType t) = S"
  shows "\<exists>v. NullableTernary S cond (Inr t) (Inr f) = Inr v \<and> SQLValueType v = SQLValueType t
    \<and> (\<forall>e. run_value v e = (if rt cond e then run_value t e else run_value f e))
    \<and> (\<forall>e. rt (sv_null v) e = (if rt cond e then rt (sv_null t) e else rt (sv_null f) e))"
proof (cases cond)
  case (Con b)
  then show ?thesis using assms by (auto simp: NullableTernary_def)
next
  case (Dyn c)
  obtain v where "phi_value c (sv_value t) (sv_value f) = Inr v" "ir_type v = ir_type (sv_value t)"
      "\<forall>e. datum_at v e = (if c e then datum_at (sv_value t) e else datum_at (sv_value f) e)"
    using phi_value_ok [of "sv_value t" "sv_value f" c] assms(1) by (auto simp: SQLValueType_def)
  then show ?thesis using Dyn assms by (auto simp: NullableTernary_def SQLValueType_def run_value_def)
qed

section \<open>Binary operators\<close>

fun is_Dyn :: "('e, 'a) staged \<Rightarrow> bool" where
  "is_Dyn (Con _) = False"
| "is_Dyn (Dyn _) = True"

lemma is_Dyn_iff: "is_Dyn a \<longleftrightarrow> (\<exists>h. a = Dyn h)"
  by (cases a) simp_all

fun dyn_value :: "'e IRValue \<Rightarrow> bool" where
  "dyn_value (IBool a) = is_Dyn a"
| "dyn_value (IInt16 a) = is_Dyn a"
| "dyn_value (IInt32 a) = is_Dyn a"
| "dyn_value (IInt64 a) = is_Dyn a"
| "dyn_value (IDate a) = is_Dyn a"
| "dyn_value (IFloat64 a) = is_Dyn a"
| "dyn_value (IString a) = True"
| "dyn_value (IEnum i a) = is_Dyn a"

definition computes_binary :: "runtime \<Rightarrow> BinaryArithmeticExpressionType \<Rightarrow> 'e SQLValue \<Rightarrow> 'e SQLValue \<Rightarrow> 'e SQLValue \<Rightarrow> bool" where
  "computes_binary R op l r v \<longleftrightarrow>
     (\<forall>e. run_value v e = (case (run_value l e, run_value r e) of (Some a, Some b) \<Rightarrow> eval_data R op a b | _ \<Rightarrow> None))
     \<and> (\<forall>e. rt (sv_null v) e = (rt (sv_null l) e \<or> rt (sv_null r) e))"

lemma strict_ok:
  assumes "SQLValueType t = T" "SQLValueType f = T" "type_id T = S" "\<And>e. rt (sv_null t) e" "sv_null f = Con False"
    "\<And>e. eval_data R op (datum_at (sv_value l) e) (datum_at (sv_value r) e) = Some (datum_at (sv_value f) e)"
  shows "\<exists>v. NullableTernary S (any_null l r) (Inr t) (Inr f) = Inr v \<and> SQLValueType v = T \<and> computes_binary R op l r v
    \<and> (dyn_value (sv_value f) \<and> any_null l r \<noteq> Con True \<longrightarrow> dyn_value (sv_value v) \<and> sv_null v \<noteq> Con True)"
proof -
  obtain v where v: "NullableTernary S (any_null l r) (Inr t) (Inr f) = Inr v" "SQLValueType v = T"
      "\<forall>e. run_value v e = (if rt (any_null l r) e then run_value t e else run_value f e)"
      "\<forall>e. rt (sv_null v) e = (if rt (any_null l r) e then rt (sv_null t) e else rt (sv_null f) e)"
    using NullableTernary_ok [of t f S "any_null l r"] assms(1-3) by auto
  have "computes_binary R op l r v"
    unfolding computes_binary_def using v(3,4) assms(4-6) by (auto simp: run_value_def)
  moreover have "dyn_value (sv_value v) \<and> sv_null v \<noteq> Con True" if "dyn_value (sv_value f)" "any_null l r \<noteq> Con True"
  proof (cases "any_null l r")
    case (Con b)
    then show ?thesis using v(1) that assms(5) by (auto simp: NullableTernary_def)
  next
    case (Dyn c)
    then obtain w where "phi_value c (sv_value t) (sv_value f) = Inr w" "v = mkSQL w (phi c (sv_null t) (sv_null f))"
      using v(1) by (auto simp: NullableTernary_def bindR_Inr_iff split: if_splits)
    then show ?thesis by (cases "sv_value t"; cases "sv_value f") (auto simp: phi_def)
  qed
  ultimately show ?thesis using v(1,2) by blast
qed

lemma strict_bool:
  assumes "\<And>e. eval_data R op (datum_at (sv_value l) e) (datum_at (sv_value r) e) = Some (DBool (rt b e))"
  shows "\<exists>v. NullableTernary BOOLEAN (any_null l r) null_bool (some_bool b) = Inr v \<and> SQLValueType v = SqlBoolean \<and> computes_binary R op l r v"
  using strict_ok [of "mkSQL (IBool (Con False)) (Con True)" SqlBoolean "mkSQL (IBool b) (Con False)" BOOLEAN R op l r] assms
  by (auto simp: SQLValueType_def sql_types)

lemma numeric_arith:
  assumes "sv_value l = wrap a" "sv_value r = wrap b" "\<And>x. cast (wrap x) = Some x" "\<And>x. ir_type (wrap x) = T" "type_id T = S"
    "f a b = Inr c" "op = BAdd \<and> f = nc_add V \<or> op = BSub \<and> f = nc_sub V \<or> op = BMul \<and> f = nc_mul V"
    "\<And>e. eval_data R op (datum_at (wrap a) e) (datum_at (wrap b) e) = Some (datum_at (wrap c) e)"
  shows "\<exists>v. EvaluateBinaryNumeric V S wrap cast d op l r = Inr v \<and> SQLValueType v = T \<and> computes_binary R op l r v
    \<and> (dyn_value (wrap c) \<and> any_null l r \<noteq> Con True \<longrightarrow> dyn_value (sv_value v) \<and> sv_null v \<noteq> Con True)"
proof -
  have "\<exists>v. NullableTernary S (any_null l r) (Inr (mkSQL (sv_value l) (Con True))) (Inr (mkSQL (wrap c) (Con False))) = Inr v \<and> SQLValueType v = T \<and> computes_binary R op l r v
    \<and> (dyn_value (wrap c) \<and> any_null l r \<noteq> Con True \<longrightarrow> dyn_value (sv_value v) \<and> sv_null v \<noteq> Con True)"
    using strict_ok [of "mkSQL (sv_value l) (Con True)" T "mkSQL (wrap c) (Con False)" S R op l r] assms by (simp add: SQLValueType_def)
  moreover have "EvaluateBinaryNumeric V S wrap cast d op l r
      = NullableTernary S (any_null l r) (Inr (mkSQL (sv_value l) (Con True))) (Inr (mkSQL (wrap c) (Con False)))"
    using assms(1-3,6,7) by (auto simp: EvaluateBinaryNumeric_def Let_def)
  ultimately show ?thesis by simp
qed

lemma numeric_cmp:
  assumes "sv_value l = wrap a" "sv_value r = wrap b" "\<And>x. cast (wrap x) = Some x" "comp_type op = Some cmp"
    "\<And>e. eval_data R op (datum_at (wrap a) e) (datum_at (wrap b) e) = Some (DBool (rt (nc_cmp V cmp a b) e))"
  shows "\<exists>v. EvaluateBinaryNumeric V S wrap cast d op l r = Inr v \<and> SQLValueType v = SqlBoolean \<and> computes_binary R op l r v"
proof -
  have "EvaluateBinaryNumeric V S wrap cast d op l r = NullableTernary BOOLEAN (any_null l r) null_bool (some_bool (nc_cmp V cmp a b))"
    using assms(1-4) by (cases op) (simp_all add: EvaluateBinaryNumeric_def Let_def)
  then show ?thesis using strict_bool [of R op l r "nc_cmp V cmp a b"] assms(1,2,5) by simp
qed

definition is_arith :: "BinaryArithmeticExpressionType \<Rightarrow> bool" where
  "is_arith op \<longleftrightarrow> op \<in> {BAdd, BSub, BMul}"

definition binary_result :: "BinaryArithmeticExpressionType \<Rightarrow> SqlType \<Rightarrow> SqlType" where
  "binary_result op t = (if is_arith op \<or> op = BDiv then t else SqlBoolean)"

text \<open>The operators that are supported for operands of these types.\<close>

definition op_supported :: "BinaryArithmeticExpressionType \<Rightarrow> TypeId \<Rightarrow> TypeId \<Rightarrow> bool" where
  "op_supported op ta tb \<longleftrightarrow>
     (if is_arith op then ta \<in> {SMALLINT, INTEGER, BIGINT, REAL}
      else if op = BDiv then ta = REAL
      else if op \<in> {BEq, BNeq} then True
      else if op \<in> {BLt, BLeq, BGt, BGeq} then ta \<noteq> BOOLEAN
      else if op \<in> {BStartsWith, BEndsWith, BContains} then ta \<in> {TEXT, ENUM} \<and> tb = TEXT
      else False)"

definition binary_ok :: "runtime \<Rightarrow> BinaryArithmeticExpressionType \<Rightarrow> 'e SQLValue \<Rightarrow> 'e SQLValue \<Rightarrow> bool" where
  "binary_ok R op l r \<longleftrightarrow> (\<exists>v. EvaluateBinary R op l r = Inr v \<and> SQLValueType v = binary_result op (SQLValueType l) \<and> computes_binary R op l r v
     \<and> (is_arith op \<and> (dyn_value (sv_value l) \<or> dyn_value (sv_value r)) \<and> any_null l r \<noteq> Con True \<longrightarrow> dyn_value (sv_value v) \<and> sv_null v \<noteq> Con True))"

lemma comp_type_cases: "\<not> is_arith op \<Longrightarrow> op_supported op ta tb \<Longrightarrow> ta \<in> {SMALLINT, INTEGER, BIGINT, REAL, DATE} \<Longrightarrow> op \<noteq> BDiv \<Longrightarrow> \<exists>cmp. comp_type op = Some cmp"
  by (cases op) (auto simp: op_supported_def is_arith_def)

lemma comp_type_arith: "comp_type op = Some cmp \<Longrightarrow> arith_op op a b = None" "comp_type op = Some cmp \<Longrightarrow> real_op F op x y = None" "comp_type op = Some cmp \<Longrightarrow> \<not> is_arith op \<and> op \<noteq> BDiv"
  by (cases op; simp add: is_arith_def)+

lemma int_binary:
  assumes "sv_value l = wrap a" "sv_value r = wrap b" "\<And>x. cast (wrap x) = Some x" "\<And>x. ir_type (wrap x) = T" "type_id T = S" "S \<in> {SMALLINT, INTEGER, BIGINT}"
    "op_supported op S S"
    "\<And>f g h. op = BAdd \<and> f = nc_add V \<or> op = BSub \<and> f = nc_sub V \<or> op = BMul \<and> f = nc_mul V \<Longrightarrow>
       \<exists>c. f a b = Inr c \<and> (\<forall>e. Some (rt c e) = arith_op op (rt a e) (rt b e)) \<and> (is_Dyn a \<or> is_Dyn b \<longrightarrow> is_Dyn c)"
    "\<And>cmp e. rt (nc_cmp V cmp a b) e = cmp_int cmp (sint (rt a e)) (sint (rt b e))"
    "\<And>x e. datum_at (wrap x) e = mk (rt x e)" "\<And>x. dyn_value (wrap x) = is_Dyn x"
    "\<And>x y. eval_data R op (mk x) (mk y) = (case arith_op op x y of Some c \<Rightarrow> Some (mk c) | None \<Rightarrow> compare_int op (sint x) (sint y))"
  shows "\<exists>v. EvaluateBinaryNumeric V S wrap cast None op l r = Inr v \<and> SQLValueType v = binary_result op T \<and> computes_binary R op l r v
     \<and> (is_arith op \<and> (is_Dyn a \<or> is_Dyn b) \<and> any_null l r \<noteq> Con True \<longrightarrow> dyn_value (sv_value v) \<and> sv_null v \<noteq> Con True)"
proof (cases "is_arith op")
  case True
  define f where "f = (if op = BAdd then nc_add V else if op = BSub then nc_sub V else nc_mul V)"
  have f: "op = BAdd \<and> f = nc_add V \<or> op = BSub \<and> f = nc_sub V \<or> op = BMul \<and> f = nc_mul V" using True by (auto simp: f_def is_arith_def)
  obtain c where c: "f a b = Inr c" "\<forall>e. Some (rt c e) = arith_op op (rt a e) (rt b e)" "is_Dyn a \<or> is_Dyn b \<longrightarrow> is_Dyn c" using assms(8) [OF f] by blast
  have "eval_data R op (datum_at (wrap a) e) (datum_at (wrap b) e) = Some (datum_at (wrap c) e)" for e
    using c(2) [rule_format, of e] by (simp add: assms(10,12) flip: c(2))
  from numeric_arith [where V = V and R = R and d = None, OF assms(1-5) c(1) f this] show ?thesis
    using c(3) True assms(11) by (auto simp: binary_result_def)
next
  case False
  then have "op \<noteq> BDiv" using assms(6,7) by (auto simp: op_supported_def is_arith_def)
  then obtain cmp where cmp: "comp_type op = Some cmp" using comp_type_cases [OF False assms(7)] assms(6) by auto
  have "eval_data R op (datum_at (wrap a) e) (datum_at (wrap b) e) = Some (DBool (rt (nc_cmp V cmp a b) e))" for e
    by (simp add: assms(9,10,12) compare_int_def cmp comp_type_arith(1) [OF cmp])
  from numeric_cmp [where V = V and R = R and S = S and d = None, OF assms(1-3) cmp this] show ?thesis
    using False \<open>op \<noteq> BDiv\<close> by (auto simp: binary_result_def)
qed

lemma rt_cmp_int [simp]:
  "rt (nc_cmp Int16 cmp a b) e = cmp_int cmp (sint (rt a e)) (sint (rt b e))"
  "rt (nc_cmp Int32 cmp c d) e = cmp_int cmp (sint (rt c e)) (sint (rt d e))"
  "rt (nc_cmp Int64 cmp f g) e = cmp_int cmp (sint (rt f e)) (sint (rt g e))"
  by (simp_all add: Int16_def Int32_def Int64_def)

lemma real_binary:
  assumes "sv_value l = IFloat64 a" "sv_value r = IFloat64 b" "op_supported op REAL REAL"
  shows "binary_ok R op l r"
proof -
  let ?F = "rt_f64 R" let ?V = "Float64 ?F" and ?cast = "\<lambda>v. case v of IFloat64 a \<Rightarrow> Some a | _ \<Rightarrow> None"
  have T: "SQLValueType l = SqlReal" using assms(1) by (simp add: SQLValueType_def)
  have eq: "EvaluateBinary R op l r = EvaluateBinaryNumeric ?V REAL IFloat64 ?cast (Some (Float64Div ?F)) op l r" using T by (simp add: EvaluateBinary_def sql_types)
  have fold: "\<exists>c. fold2 (\<lambda>a b. Inr (f a b)) f a b = Inr c \<and> (\<forall>e. rt c e = f (rt a e) (rt b e)) \<and> (is_Dyn a \<or> is_Dyn b \<longrightarrow> is_Dyn c)" for f :: "u64 \<Rightarrow> u64 \<Rightarrow> u64"
    using fold2_ok [of "\<lambda>a b. Inr (f a b)" f a b] by (auto simp: is_Dyn_iff)
  consider "is_arith op" | "op = BDiv" | "\<not> is_arith op" "op \<noteq> BDiv" by blast
  then show ?thesis
  proof cases
    case 1
    define f where "f = (if op = BAdd then f64_add ?F else if op = BSub then f64_sub ?F else f64_mul ?F)"
    have f: "op = BAdd \<and> fold2 (\<lambda>a b. Inr (f a b)) f = nc_add ?V \<or> op = BSub \<and> fold2 (\<lambda>a b. Inr (f a b)) f = nc_sub ?V \<or> op = BMul \<and> fold2 (\<lambda>a b. Inr (f a b)) f = nc_mul ?V"
      using 1 by (auto simp: f_def is_arith_def Float64_def)
    have op: "real_op ?F op x y = Some (f x y)" for x y using 1 by (auto simp: f_def is_arith_def)
    obtain c where c: "fold2 (\<lambda>a b. Inr (f a b)) f a b = Inr c" "\<forall>e. rt c e = f (rt a e) (rt b e)" "is_Dyn a \<or> is_Dyn b \<longrightarrow> is_Dyn c" using fold by blast
    have ev: "eval_data R op (datum_at (IFloat64 a) e) (datum_at (IFloat64 b) e) = Some (datum_at (IFloat64 c) e)" for e by (simp add: op c(2))
    show ?thesis
      using numeric_arith [where V = ?V and R = R and d = "Some (Float64Div ?F)" and wrap = IFloat64 and cast = ?cast and T = SqlReal and S = REAL, OF assms(1,2) _ _ _ c(1) f ev] c(3) 1
      by (auto simp: binary_ok_def eq T binary_result_def sql_types assms(1,2))
  next
    case 2
    obtain c where c: "Float64Div ?F a b = Inr c" "\<forall>e. rt c e = f64_div ?F (rt a e) (rt b e)" using fold [of "f64_div ?F"] by (auto simp: Float64Div_def)
    have ev: "eval_data R op (datum_at (sv_value l) e) (datum_at (sv_value r) e) = Some (datum_at (sv_value (mkSQL (IFloat64 c) (Con False))) e)" for e
      using 2 by (simp add: c(2) assms(1,2))
    have "\<exists>v. NullableTernary REAL (any_null l r) (Inr (mkSQL (IFloat64 (Con 0)) (Con True))) (Inr (mkSQL (IFloat64 c) (Con False))) = Inr v \<and> SQLValueType v = SqlReal \<and> computes_binary R op l r v"
      using strict_ok [of "mkSQL (IFloat64 (Con 0)) (Con True)" SqlReal "mkSQL (IFloat64 c) (Con False)" REAL R op l r] ev by (auto simp: SQLValueType_def sql_types)
    moreover have "EvaluateBinaryNumeric ?V REAL IFloat64 ?cast (Some (Float64Div ?F)) op l r
        = NullableTernary REAL (any_null l r) (Inr (mkSQL (IFloat64 (Con 0)) (Con True))) (Inr (mkSQL (IFloat64 c) (Con False)))"
      using 2 c(1) by (simp add: EvaluateBinaryNumeric_def assms(1,2))
    ultimately show ?thesis unfolding binary_ok_def eq using 2 by (auto simp: T binary_result_def is_arith_def)
  next
    case 3
    then obtain cmp where cmp: "comp_type op = Some cmp" using comp_type_cases [OF 3(1) assms(3)] by auto
    have ev: "eval_data R op (datum_at (IFloat64 a) e) (datum_at (IFloat64 b) e) = Some (DBool (rt (nc_cmp ?V cmp a b) e))" for e
      by (simp add: cmp comp_type_arith(2) [OF cmp] Float64_def)
    show ?thesis
      using numeric_cmp [where V = ?V and R = R and S = REAL and d = "Some (Float64Div ?F)" and wrap = IFloat64 and cast = ?cast, OF assms(1,2) _ cmp ev] 3
      by (auto simp: binary_ok_def eq T binary_result_def)
  qed
qed

lemma bool_binary:
  assumes "\<And>e. eval_data R op (datum_at (sv_value l) e) (datum_at (sv_value r) e) = Some (DBool (rt b e))" "\<not> is_arith op" "op \<noteq> BDiv"
    "EvaluateBinary R op l r = NullableTernary BOOLEAN (any_null l r) null_bool (some_bool b)"
  shows "binary_ok R op l r"
  using strict_bool [of R op l r b, OF assms(1)] assms(2-) by (auto simp: binary_ok_def binary_result_def)

lemma EvaluateBinary_ok:
  assumes "op_supported op (type_id (SQLValueType l)) (type_id (SQLValueType r))"
    "SQLValueType l = SQLValueType r \<or> type_id (SQLValueType l) = ENUM \<and> type_id (SQLValueType r) = TEXT \<and> op \<notin> {BEq, BNeq}"
    "is_arith op \<and> type_id (SQLValueType l) \<in> {INTEGER, BIGINT} \<longrightarrow> dyn_value (sv_value l) \<or> dyn_value (sv_value r)"
  shows "binary_ok R op l r"
proof (cases "sv_value l")
  case (IBool a)
  then obtain b where b: "sv_value r = IBool b" using assms(2) by (cases "sv_value r") (auto simp: SQLValueType_def sql_types)
  have op: "op = BEq \<or> op = BNeq" using assms(1) IBool by (auto simp: op_supported_def SQLValueType_def sql_types split: if_splits)
  show ?thesis
    by (rule bool_binary [where b = "if op = BEq then BoolEq a b else BoolNeq a b"])
      (use op IBool b in \<open>auto simp: EvaluateBinary_def EvaluateBinaryBool_def SQLValueType_def sql_types is_arith_def\<close>)
next
  case (IInt16 a)
  then obtain b where b: "sv_value r = IInt16 b" using assms(2) by (cases "sv_value r") (auto simp: SQLValueType_def sql_types)
  have fold: "\<exists>c. fold2 (\<lambda>a b. Inr (f a b)) f a b = Inr c \<and> (\<forall>e. rt c e = f (rt a e) (rt b e)) \<and> (is_Dyn a \<or> is_Dyn b \<longrightarrow> is_Dyn c)" for f :: "u16 \<Rightarrow> u16 \<Rightarrow> u16"
    using fold2_ok [of "\<lambda>a b. Inr (f a b)" f a b] by (auto simp: is_Dyn_iff)
  have eq: "EvaluateBinary R op l r = EvaluateBinaryNumeric Int16 SMALLINT IInt16 (\<lambda>v. case v of IInt16 a \<Rightarrow> Some a | _ \<Rightarrow> None) None op l r"
    using IInt16 by (simp add: EvaluateBinary_def SQLValueType_def sql_types)
  have "\<exists>v. EvaluateBinaryNumeric Int16 SMALLINT IInt16 (\<lambda>v. case v of IInt16 a \<Rightarrow> Some a | _ \<Rightarrow> None) None op l r = Inr v \<and> SQLValueType v = binary_result op SqlSmallInt
      \<and> computes_binary R op l r v \<and> (is_arith op \<and> (is_Dyn a \<or> is_Dyn b) \<and> any_null l r \<noteq> Con True \<longrightarrow> dyn_value (sv_value v) \<and> sv_null v \<noteq> Con True)"
    by (rule int_binary [where mk = DInt16])
      (use IInt16 b assms(1) fold in \<open>auto simp: Int16_def SQLValueType_def sql_types\<close>)
  then show ?thesis unfolding binary_ok_def eq using IInt16 b by (auto simp: SQLValueType_def)
next
  case (IInt32 a)
  then obtain b where b: "sv_value r = IInt32 b" using assms(2) by (cases "sv_value r") (auto simp: SQLValueType_def sql_types)
  have dyn: "is_arith op \<Longrightarrow> (\<exists>h. a = Dyn h) \<or> (\<exists>h. b = Dyn h)" using assms(3) IInt32 b by (auto simp: SQLValueType_def sql_types is_Dyn_iff)
  have eq: "EvaluateBinary R op l r = EvaluateBinaryNumeric Int32 INTEGER IInt32 (\<lambda>v. case v of IInt32 a \<Rightarrow> Some a | _ \<Rightarrow> None) None op l r"
    using IInt32 by (simp add: EvaluateBinary_def SQLValueType_def sql_types)
  have fold: "\<exists>c. f a b = Inr c \<and> (\<forall>e. Some (rt c e) = arith_op op (rt a e) (rt b e)) \<and> (is_Dyn a \<or> is_Dyn b \<longrightarrow> is_Dyn c)"
    if "op = BAdd \<and> f = nc_add Int32 \<or> op = BSub \<and> f = nc_sub Int32 \<or> op = BMul \<and> f = nc_mul Int32" for f
    using that dyn fold2_ok [of "\<lambda>a b. fit32 (sint a + sint b)" "(+)" a b] fold2_ok [of "\<lambda>a b. fit32 (sint a - sint b)" "(-)" a b] fold2_ok [of "\<lambda>a b. fit32 (sint a * sint b)" "(*)" a b]
    by (auto simp: Int32_def is_arith_def is_Dyn_iff fit_ok)
  have "\<exists>v. EvaluateBinaryNumeric Int32 INTEGER IInt32 (\<lambda>v. case v of IInt32 a \<Rightarrow> Some a | _ \<Rightarrow> None) None op l r = Inr v \<and> SQLValueType v = binary_result op SqlInt
      \<and> computes_binary R op l r v \<and> (is_arith op \<and> (is_Dyn a \<or> is_Dyn b) \<and> any_null l r \<noteq> Con True \<longrightarrow> dyn_value (sv_value v) \<and> sv_null v \<noteq> Con True)"
    by (rule int_binary [where mk = DInt32])
      (use IInt32 b assms(1) fold in \<open>auto simp: SQLValueType_def sql_types\<close>)
  then show ?thesis unfolding binary_ok_def eq using IInt32 b by (auto simp: SQLValueType_def)
next
  case (IInt64 a)
  then obtain b where b: "sv_value r = IInt64 b" using assms(2) by (cases "sv_value r") (auto simp: SQLValueType_def sql_types)
  have dyn: "is_arith op \<Longrightarrow> (\<exists>h. a = Dyn h) \<or> (\<exists>h. b = Dyn h)" using assms(3) IInt64 b by (auto simp: SQLValueType_def sql_types is_Dyn_iff)
  have eq: "EvaluateBinary R op l r = EvaluateBinaryNumeric Int64 BIGINT IInt64 (\<lambda>v. case v of IInt64 a \<Rightarrow> Some a | _ \<Rightarrow> None) None op l r"
    using IInt64 by (simp add: EvaluateBinary_def SQLValueType_def sql_types)
  have fold: "\<exists>c. f a b = Inr c \<and> (\<forall>e. Some (rt c e) = arith_op op (rt a e) (rt b e)) \<and> (is_Dyn a \<or> is_Dyn b \<longrightarrow> is_Dyn c)"
    if "op = BAdd \<and> f = nc_add Int64 \<or> op = BSub \<and> f = nc_sub Int64 \<or> op = BMul \<and> f = nc_mul Int64" for f
    using that dyn fold2_ok [of "\<lambda>a b. fit64 (sint a + sint b)" "(+)" a b] fold2_ok [of "\<lambda>a b. fit64 (sint a - sint b)" "(-)" a b] fold2_ok [of "\<lambda>a b. fit64 (sint a * sint b)" "(*)" a b]
    by (auto simp: Int64_def is_arith_def is_Dyn_iff fit_ok)
  have "\<exists>v. EvaluateBinaryNumeric Int64 BIGINT IInt64 (\<lambda>v. case v of IInt64 a \<Rightarrow> Some a | _ \<Rightarrow> None) None op l r = Inr v \<and> SQLValueType v = binary_result op SqlBigInt
      \<and> computes_binary R op l r v \<and> (is_arith op \<and> (is_Dyn a \<or> is_Dyn b) \<and> any_null l r \<noteq> Con True \<longrightarrow> dyn_value (sv_value v) \<and> sv_null v \<noteq> Con True)"
    by (rule int_binary [where mk = DInt64])
      (use IInt64 b assms(1) fold in \<open>auto simp: SQLValueType_def sql_types\<close>)
  then show ?thesis unfolding binary_ok_def eq using IInt64 b by (auto simp: SQLValueType_def)
next
  case (IDate a)
  then obtain b where b: "sv_value r = IDate b" using assms(2) by (cases "sv_value r") (auto simp: SQLValueType_def sql_types)
  have n: "\<not> is_arith op" "op \<noteq> BDiv" using assms(1) IDate by (auto simp: op_supported_def SQLValueType_def sql_types is_arith_def split: if_splits)
  then obtain cmp where cmp: "comp_type op = Some cmp" using comp_type_cases [OF n(1) assms(1)] IDate by (auto simp: SQLValueType_def sql_types)
  show ?thesis
    by (rule bool_binary [where b = "DateCmp cmp a b"])
      (use n IDate b cmp in \<open>auto simp: EvaluateBinary_def EvaluateBinaryDate_def SQLValueType_def sql_types compare_int_def DateCmp_def\<close>)
next
  case (IFloat64 a)
  then obtain b where b: "sv_value r = IFloat64 b" using assms(2) by (cases "sv_value r") (auto simp: SQLValueType_def sql_types)
  show ?thesis by (rule real_binary [OF IFloat64 b]) (use assms(1) IFloat64 b in \<open>simp add: SQLValueType_def sql_types\<close>)
next
  case (IString a)
  then obtain b where b: "sv_value r = IString b" using assms(2) by (cases "sv_value r") (auto simp: SQLValueType_def sql_types)
  have n: "\<not> is_arith op" "op \<noteq> BDiv" "\<exists>f. string_op op = Some f"
    using assms(1) IString by (cases op; auto simp: op_supported_def SQLValueType_def sql_types is_arith_def)+
  then obtain f where f: "string_op op = Some f" by blast
  show ?thesis
    by (rule bool_binary [where b = "Dyn (\<lambda>e. f (a e) (b e))"])
      (use n(1,2) IString b f in \<open>auto simp: EvaluateBinary_def EvaluateBinaryString_def SQLValueType_def sql_types\<close>)
next
  case (IEnum i a)
  have n: "\<not> is_arith op" "op \<noteq> BDiv" using assms(1) IEnum by (cases op; auto simp: op_supported_def SQLValueType_def sql_types is_arith_def)+
  show ?thesis
  proof (cases "op \<in> {BEq, BNeq}")
    case True
    then obtain b where b: "sv_value r = IEnum i b" using assms(2) IEnum by (cases "sv_value r") (auto simp: SQLValueType_def sql_types)
    show ?thesis
      by (rule bool_binary [where b = "cmp2 (\<lambda>a b. cmp_int (if op = BEq then EQ else NE) (sint a) (sint b)) a b"])
        (use n True IEnum b in \<open>auto simp: EvaluateBinary_def EvaluateBinaryEnum_def SQLValueType_def sql_types EnumCmp_def compare_int_def\<close>)
  next
    case False
    obtain f where f: "string_op op = Some f" using assms(1) IEnum False by (cases op) (auto simp: op_supported_def SQLValueType_def sql_types is_arith_def)
    have r: "(\<exists>b. sv_value r = IString b) \<or> (\<exists>b. sv_value r = IEnum i b) \<and> op \<in> {BLt, BLeq, BGt, BGeq}"
      using assms(1,2) IEnum False by (cases "sv_value r"; cases op) (auto simp: op_supported_def SQLValueType_def sql_types is_arith_def)
    have ops: "op \<in> {BLt, BLeq, BGt, BGeq} \<or> op \<in> {BStartsWith, BEndsWith, BContains}" using f False by (cases op) auto
    from r show ?thesis
    proof
      assume "\<exists>b. sv_value r = IString b"
      then obtain b where b: "sv_value r = IString b" by blast
      show ?thesis
        by (rule bool_binary [where b = "Dyn (\<lambda>e. f (EnumToString R i a e) (b e))"])
          (use n False ops IEnum b f in \<open>auto simp: EvaluateBinary_def EvaluateBinaryEnum_def SQLValueType_def sql_types EnumToString_def\<close>)
    next
      assume "(\<exists>b. sv_value r = IEnum i b) \<and> op \<in> {BLt, BLeq, BGt, BGeq}"
      then obtain b where b: "sv_value r = IEnum i b" "op \<in> {BLt, BLeq, BGt, BGeq}" by blast
      show ?thesis
        by (rule bool_binary [where b = "Dyn (\<lambda>e. f (EnumToString R i a e) (EnumToString R i b e))"])
          (use n False IEnum b f in \<open>auto simp: EvaluateBinary_def EvaluateBinaryEnum_def SQLValueType_def sql_types EnumToString_def\<close>)
    qed
  qed
qed

section \<open>Expressions\<close>

text \<open>A polynomial with columns: its operations are not folded, so that constants do not overflow.\<close>

definition is_literal :: "Expression \<Rightarrow> bool" where
  "is_literal e \<longleftrightarrow> (\<exists>v. expr_node e = LiteralNode v False)"

fun varies :: "Expression \<Rightarrow> bool" where
  "varies (Expression t n (ColumnRefNode c i) cs) = True"
| "varies (Expression t n (VirtualColumnRefNode i) cs) = True"
| "varies (Expression t n (BinaryArithmeticNode op) [l, r]) \<longleftrightarrow>
     is_arith op \<and> (varies l \<and> (varies r \<or> is_literal r) \<or> is_literal l \<and> varies r)"
| "varies _ = False"

definition node_supported :: "SqlType \<Rightarrow> bool \<Rightarrow> ExpressionNode \<Rightarrow> Expression list \<Rightarrow> bool" where
  "node_supported t n node cs =
     (case node of
        AggregateNode agg \<Rightarrow> False
      | EnumInNode values \<Rightarrow> values \<noteq> []
      | BinaryArithmeticNode op \<Rightarrow>
          (case map (\<lambda>c. type_id (expr_type c)) cs of
             [ta, tb] \<Rightarrow>
               if op \<in> {BAnd, BOr} then ta = BOOLEAN
               else op_supported op ta tb \<and> (is_arith op \<and> ta \<in> {INTEGER, BIGINT} \<longrightarrow> varies (Expression t n node cs))
           | _ \<Rightarrow> False)
      | _ \<Rightarrow> True)"

fun supported :: "Expression \<Rightarrow> bool" where
  "supported (Expression t n node cs) \<longleftrightarrow> node_supported t n node cs \<and> list_all supported cs"

definition fits :: "SqlType \<Rightarrow> SqlType \<Rightarrow> bool" where
  "fits a t \<longleftrightarrow> type_id a = type_id t \<and> (type_id t = ENUM \<longrightarrow> enum_id a = enum_id t)"

text \<open>A value of a child or of a virtual column: of the type of its column, null only if the column is nullable, and not a constant.\<close>

definition column_ok :: "sig \<Rightarrow> 'e SQLValue \<Rightarrow> bool" where
  "column_ok s v \<longleftrightarrow> fits (SQLValueType v) (fst s) \<and> (\<not> snd s \<longrightarrow> (\<forall>e. \<not> rt (sv_null v) e)) \<and> dyn_value (sv_value v) \<and> sv_null v \<noteq> Con True"

abbreviation rows_at_run :: "'e SQLValue list list \<Rightarrow> 'e \<Rightarrow> datum option list list" where
  "rows_at_run kids env \<equiv> map (map (\<lambda>v. run_value v env)) kids"

lemma fits_bool: "fits (SQLValueType v) t \<Longrightarrow> type_id t = BOOLEAN \<Longrightarrow> \<exists>b. sv_value v = IBool b"
  by (cases "sv_value v") (auto simp: fits_def SQLValueType_def sql_types)

lemma fits_eq: "fits (SQLValueType v) t \<Longrightarrow> fits (SQLValueType w) t \<Longrightarrow> SQLValueType v = SQLValueType w"
  by (cases "sv_value v"; cases "sv_value w") (auto simp: fits_def SQLValueType_def sql_types)

lemma fits_simp: "fits (SQLValueType v) t \<Longrightarrow> SQLValueType w = SQLValueType v \<Longrightarrow> fits (SQLValueType w) t"
  by simp

text \<open>A proxy that stands for a value: of its type, and null only where null is allowed.\<close>

definition stands :: "SqlType \<Rightarrow> bool \<Rightarrow> ('e \<Rightarrow> datum option) \<Rightarrow> 'e SQLValue \<Rightarrow> bool" where
  "stands t n f v \<longleftrightarrow> fits (SQLValueType v) t \<and> (\<forall>e. run_value v e = f e) \<and> (\<not> n \<longrightarrow> (\<forall>e. f e \<noteq> None))"

lemma run_value_const [simp]: "run_value (mkSQL x (Con True)) e = None" "run_value (mkSQL x (Con False)) e = Some (datum_at x e)"
  by (simp_all add: run_value_def)

lemmas type_simps = fits_def SQLValueType_def sql_types

lemma stands_null: "stands SqlBoolean True (\<lambda>e. None) (mkSQL (IBool (Con False)) (Con True))"
  by (simp add: stands_def type_simps)

lemma stands_bool: "stands SqlBoolean False (\<lambda>e. Some (DBool (rt b e))) (mkSQL (IBool b) (Con False))"
  by (simp add: stands_def type_simps)

lemma stands_ternary:
  assumes "stands t n f a" "stands t m g b" "type_id t = S"
    "\<And>e. h e = (if rt c e then f e else g e)" "\<And>e. \<not> k \<Longrightarrow> h e \<noteq> None"
  shows "\<exists>v. NullableTernary S c (Inr a) (Inr b) = Inr v \<and> stands t k h v"
proof -
  have "SQLValueType a = SQLValueType b" using assms(1,2) fits_eq [of a t b] by (auto simp: stands_def)
  then obtain v where v: "NullableTernary S c (Inr a) (Inr b) = Inr v" "SQLValueType v = SQLValueType a"
      "\<forall>e. run_value v e = (if rt c e then run_value a e else run_value b e)"
    using NullableTernary_ok [of a b S c] assms(1,3) by (auto simp: stands_def fits_def)
  then have "stands t k h v" using assms by (auto simp: stands_def)
  then show ?thesis using v(1) by blast
qed

lemma stands_at:
  assumes "stands t n f c"
  shows "f e = (if rt (sv_null c) e then None else Some (datum_at (sv_value c) e))"
  using assms by (auto simp: stands_def run_value_def split: if_splits)

lemma stands_not_null: "stands t n f c \<Longrightarrow> \<not> n \<Longrightarrow> \<not> rt (sv_null c) e"
  using stands_at [of t n f c e] by (auto simp: stands_def dest: spec [of _ e])

lemma eval_and_or:
  "eval_node R t (BinaryArithmeticNode BAnd) [l, r] = (case l of Some (DBool b) \<Rightarrow> if b then r else Some (DBool False) | _ \<Rightarrow> None)"
  "eval_node R t (BinaryArithmeticNode BOr) [l, r] = (case l of Some (DBool b) \<Rightarrow> if b then Some (DBool True) else r | _ \<Rightarrow> r)"
  by (cases r; simp add: eval_node_def split: option.splits datum.splits)+

lemma stands_sub: "stands SqlBoolean n f v \<Longrightarrow> type_id t = BOOLEAN \<Longrightarrow> stands t n f v"
  by (simp add: stands_def type_simps)

lemma unary_ok:
  assumes "CalculateUnaryType op tc = Inr t" "stands tc n f c"
  shows "\<exists>v. VisitUnary op (Inr c) = Inr v \<and> stands t (CalculateNullability op n) (\<lambda>e. eval_node R t (UnaryArithmeticNode op) [f e]) v"
proof (cases op)
  case UIsNull
  then show ?thesis using assms by (auto simp: VisitUnary_def stands_def type_simps eval_node_def run_value_def split: if_splits)
next
  case UNot
  then have t: "type_id tc = BOOLEAN" "t = SqlBoolean" using assms(1) by (auto split: if_splits)
  obtain b where b: "sv_value c = IBool b" using fits_bool [of c tc] assms(2) t(1) by (auto simp: stands_def)
  have "VisitUnary op (Inr c) = NullableTernary BOOLEAN (sv_null c) null_bool (some_bool (BoolNot b))" using UNot b by (simp add: VisitUnary_def)
  moreover have "\<exists>v. NullableTernary BOOLEAN (sv_null c) null_bool (some_bool (BoolNot b)) = Inr v
      \<and> stands SqlBoolean n (\<lambda>e. eval_node R t (UnaryArithmeticNode op) [f e]) v"
    by (rule stands_ternary [OF stands_null stands_bool])
      (use UNot b in \<open>auto simp: sql_types eval_node_def stands_at [OF assms(2)] stands_not_null [OF assms(2)]\<close>)
  ultimately show ?thesis using UNot t by simp
qed

lemma and_or_ok:
  assumes "op \<in> {BAnd, BOr}" "stands ta n f l" "stands tb m g r" "type_id ta = BOOLEAN" "type_id tb = BOOLEAN"
  shows "\<exists>v. VisitBinary R op (Inr l) (Inr r) = Inr v \<and> stands SqlBoolean (n \<or> m) (\<lambda>e. eval_node R t (BinaryArithmeticNode op) [f e, g e]) v"
proof -
  obtain b where b: "sv_value l = IBool b" using fits_bool [of l ta] assms(2,4) by (auto simp: stands_def)
  have r: "stands SqlBoolean m g r" using assms(3,5) by (simp add: stands_def type_simps)
  note at = stands_at [OF assms(2)] stands_not_null [OF assms(2)]
  have null_m: "g e \<noteq> None" if "\<not> m" for e using assms(3) that by (auto simp: stands_def)
  show ?thesis
  proof (cases "op = BAnd")
    case True
    have "\<exists>w. NullableTernary BOOLEAN b (Inr r) (some_bool (Con False)) = Inr w \<and> stands SqlBoolean m (\<lambda>e. if rt b e then g e else Some (DBool False)) w"
      by (rule stands_ternary [OF r stands_bool [of "Con False"]]) (use null_m in \<open>auto simp: sql_types\<close>)
    then obtain w where w: "NullableTernary BOOLEAN b (Inr r) (some_bool (Con False)) = Inr w" "stands SqlBoolean m (\<lambda>e. if rt b e then g e else Some (DBool False)) w"
      by blast
    have "\<exists>v. NullableTernary BOOLEAN (sv_null l) null_bool (Inr w) = Inr v
        \<and> stands SqlBoolean (n \<or> m) (\<lambda>e. eval_node R t (BinaryArithmeticNode op) [f e, g e]) v"
      by (rule stands_ternary [OF stands_null w(2)]) (use True b null_m in \<open>auto simp: sql_types eval_and_or at\<close>)
    then show ?thesis using True b w(1) by (simp add: VisitBinary_def)
  next
    case False
    then have op: "op = BOr" using assms(1) by simp
    have "\<exists>w. NullableTernary BOOLEAN b (some_bool (Con True)) (Inr r) = Inr w \<and> stands SqlBoolean m (\<lambda>e. if rt b e then Some (DBool True) else g e) w"
      by (rule stands_ternary [OF stands_bool [of "Con True"] r]) (use null_m in \<open>auto simp: sql_types\<close>)
    then obtain w where w: "NullableTernary BOOLEAN b (some_bool (Con True)) (Inr r) = Inr w" "stands SqlBoolean m (\<lambda>e. if rt b e then Some (DBool True) else g e) w"
      by blast
    have "\<exists>v. NullableTernary BOOLEAN (sv_null l) (Inr r) (Inr w) = Inr v
        \<and> stands SqlBoolean (n \<or> m) (\<lambda>e. eval_node R t (BinaryArithmeticNode op) [f e, g e]) v"
      by (rule stands_ternary [OF r w(2)]) (use op b null_m in \<open>auto simp: sql_types eval_and_or at\<close>)
    then show ?thesis using op b w(1) by (simp add: VisitBinary_def)
  qed
qed

lemma literal_ok:
  assumes "type_id t = literal_type_id x"
  shows "\<exists>v. VisitLiteral t x n = Inr v \<and> stands t n (\<lambda>e. eval_node R t (LiteralNode x n) []) v \<and> sv_null v = Con n"
  using assms by (cases x) (auto simp: VisitLiteral_def LiteralVisit_def callF_def stands_def type_simps eval_node_def run_value_def)

lemma case_ok:
  assumes "CalculateCaseType tc ta tb = Inr t" "stands tc k h c" "stands ta n f l" "stands tb m g r"
  shows "\<exists>v. CaseTernary (type_id t) (Inr c) (Inr l) (Inr r) = Inr v \<and> stands t (n \<or> m) (\<lambda>e. eval_node R t CaseNode [h e, f e, g e]) v"
proof -
  have tc: "type_id tc = BOOLEAN" "ta = t" "tb = t" using assms(1) by (auto simp: CalculateCaseType_def split: if_splits)
  obtain b where b: "sv_value c = IBool b" using fits_bool [of c tc] assms(2) tc(1) by (auto simp: stands_def)
  have null: "f e \<noteq> None" "g e \<noteq> None" if "\<not> (n \<or> m)" for e using assms(3,4) that by (auto simp: stands_def)
  have "\<exists>w. NullableTernary (type_id t) b (Inr l) (Inr r) = Inr w \<and> stands t (n \<or> m) (\<lambda>e. if rt b e then f e else g e) w"
    by (rule stands_ternary [OF assms(3,4) [unfolded tc]]) (use null in auto)
  then obtain w where w: "NullableTernary (type_id t) b (Inr l) (Inr r) = Inr w" "stands t (n \<or> m) (\<lambda>e. if rt b e then f e else g e) w"
    by blast
  have "\<exists>v. NullableTernary (type_id t) (sv_null c) (Inr r) (Inr w) = Inr v \<and> stands t (n \<or> m) (\<lambda>e. eval_node R t CaseNode [h e, f e, g e]) v"
    by (rule stands_ternary [OF assms(4) [unfolded tc] w(2)]) (use b null in \<open>auto simp: eval_node_def stands_at [OF assms(2)]\<close>)
  then show ?thesis using b w(1) by (simp add: CaseTernary_def)
qed

lemma conversion_ok:
  assumes "CalculateConvTypeId tc = Inr t" "stands tc n f c"
  shows "\<exists>v. VisitConversion R (Inr c) = Inr v \<and> stands t n (\<lambda>e. eval_node R t IntToFloatConversionNode [f e]) v"
proof -
  let ?real = "\<lambda>a. mkSQL (IFloat64 a) (Con False)"
  have tc: "type_id tc \<in> {BIGINT, INTEGER, SMALLINT}" "t = SqlReal" using assms(1) by (auto simp: CalculateConvTypeId_def split: if_splits)
  have real: "stands SqlReal False (\<lambda>e. Some (DReal (rt a e))) (?real a)" for a :: "('e, u64) staged" by (simp add: stands_def type_simps)
  obtain a where a: "VisitConversion R (Inr c) = NullableTernary REAL (sv_null c) (Inr (?real (Con 0))) (Inr (?real a))"
      "\<And>e. map_option (\<lambda>i. DReal (f64_of_int (rt_f64 R) i)) (datum_int (datum_at (sv_value c) e)) = Some (DReal (rt a e))"
    using tc(1) assms(2) by (cases "sv_value c") (auto simp: stands_def type_simps VisitConversion_def)
  have "\<exists>v. NullableTernary REAL (sv_null c) (Inr (?real (Con 0))) (Inr (?real a)) = Inr v
      \<and> stands SqlReal n (\<lambda>e. eval_node R t IntToFloatConversionNode [f e]) v"
    by (rule stands_ternary [OF real real]) (auto simp: sql_types eval_node_def stands_at [OF assms(2)] a(2))
  then show ?thesis using a(1) tc(2) by simp
qed

lemma extract_ok:
  assumes "CalculateExtractTypeId tc = Inr t" "stands tc n f c"
  shows "\<exists>v. VisitExtract x (Inr c) = Inr v \<and> stands t n (\<lambda>e. eval_node R t (ExtractNode x) [f e]) v"
proof -
  have tc: "type_id tc = DATE" "t = SqlInt" using assms(1) by (auto simp: CalculateExtractTypeId_def split: if_splits)
  obtain d where d: "sv_value c = IDate d" using assms(2) tc(1) by (cases "sv_value c") (auto simp: stands_def type_simps)
  have int: "stands SqlInt True (\<lambda>e. None) (mkSQL (IInt32 (Con 0)) (Con True))"
      "stands SqlInt False (\<lambda>e. Some (DInt32 (rt a e))) (mkSQL (IInt32 a) (Con False))" for a by (simp_all add: stands_def type_simps)
  have "\<exists>v. NullableTernary INTEGER (sv_null c) (Inr (mkSQL (IInt32 (Con 0)) (Con True)))
        (Inr (mkSQL (IInt32 (Dyn (\<lambda>e. word_of_int (ExtractYear (rt d e))))) (Con False))) = Inr v
      \<and> stands SqlInt n (\<lambda>e. eval_node R t (ExtractNode x) [f e]) v"
    by (rule stands_ternary [OF int]) (use d in \<open>auto simp: sql_types eval_node_def stands_at [OF assms(2)] stands_not_null [OF assms(2)]\<close>)
  then show ?thesis using d tc(2) by (simp add: VisitExtract_def)
qed

lemma regexp_ok:
  assumes "CalculateRegexpType tc = Inr t" "stands tc n f c"
  shows "\<exists>v. VisitRegexp R regex (Inr c) = Inr v \<and> stands t False (\<lambda>e. eval_node R t (RegexpMatchingNode regex) [f e]) v"
proof -
  have tc: "type_id tc \<in> {TEXT, ENUM}" "t = SqlBoolean" using assms(1) by (auto simp: CalculateRegexpType_def split: if_splits)
  obtain s where s: "VisitRegexp R regex (Inr c) = NullableTernary BOOLEAN (sv_null c) (some_bool (Con False)) (some_bool (Dyn (\<lambda>e. rt_like R (s e) regex)))"
      "\<And>e. enum_text R (datum_at (sv_value c) e) = Some (s e)"
    using tc(1) assms(2) by (cases "sv_value c") (auto simp: stands_def type_simps VisitRegexp_def EnumToString_def)
  have "\<exists>v. NullableTernary BOOLEAN (sv_null c) (some_bool (Con False)) (some_bool (Dyn (\<lambda>e. rt_like R (s e) regex))) = Inr v
      \<and> stands SqlBoolean False (\<lambda>e. eval_node R t (RegexpMatchingNode regex) [f e]) v"
    by (rule stands_ternary [OF stands_bool stands_bool]) (auto simp: sql_types eval_node_def stands_at [OF assms(2)] s(2))
  then show ?thesis using s(1) tc(2) by simp
qed

lemma lanes: "x \<in> word_of_int ` set (values @ replicate k (-1)) \<longleftrightarrow> x \<in> word_of_int ` set values \<or> k > 0 \<and> x = (-1 :: u32)"
  by (cases k) auto

lemma GenerateValues_ok:
  "values \<noteq> [] \<Longrightarrow> \<exists>b. GenerateValues v values = Inr b
     \<and> (\<forall>e. rt b e \<longleftrightarrow> rt v e \<in> word_of_int ` set values \<or> padded values \<and> rt v e = -1)"
proof (induction v "values" rule: GenerateValues.induct)
  case (1 v "values")
  show ?case
  proof (cases "length values > 8")
    case True
    then obtain b where b: "GenerateValues v (drop 8 values) = Inr b"
        "\<forall>e. rt b e \<longleftrightarrow> rt v e \<in> word_of_int ` set (drop 8 values) \<or> padded (drop 8 values) \<and> rt v e = -1"
      using 1 by auto
    have "set values = set (take 8 values) \<union> set (drop 8 values)" by (metis append_take_drop_id set_append)
    moreover have "padded (drop 8 values) = padded values" using True by (simp add: padded_def le_mod_geq)
    ultimately show ?thesis using True b by (auto simp: GenerateValues.simps [of v "values"] TernaryImpl_def)
  next
    case False
    then consider "length values \<in> {5, 6, 7, 8}" | "length values \<in> {2, 3, 4}" | "length values = 1" using 1(2) by (cases "length values") force+
    then show ?thesis
    proof cases
      case 3
      then obtain x where x: "values = [x]" by (auto simp: length_Suc_conv)
      then show ?thesis unfolding x by (auto simp: GenerateValues.simps [of v "[x]"] padded_def intro: signed_word_eqI)
    next
      case 1
      then show ?thesis using lanes [of _ "values" "8 - length values"] by (simp only: GenerateValues.simps [of v "values"]) (auto simp: padded_def)
    next
      case 2
      then show ?thesis using lanes [of _ "values" "4 - length values"] by (simp only: GenerateValues.simps [of v "values"]) (auto simp: padded_def)
    qed
  qed
qed

lemma enum_in_ok:
  assumes "CalculateEnumInType tc = Inr t" "stands tc n f c" "values \<noteq> []"
  shows "\<exists>v. VisitEnumIn values (Inr c) = Inr v \<and> stands t False (\<lambda>e. eval_node R t (EnumInNode values) [f e]) v"
proof -
  have tc: "type_id tc = ENUM" "t = SqlBoolean" using assms(1) by (auto simp: CalculateEnumInType_def split: if_splits)
  obtain i x where x: "sv_value c = IEnum i x" using assms(2) tc(1) by (cases "sv_value c") (auto simp: stands_def type_simps)
  from GenerateValues_ok [OF assms(3), of x] obtain b where b: "GenerateValues x values = Inr b"
      "\<forall>e. rt b e \<longleftrightarrow> rt x e \<in> word_of_int ` set values \<or> padded values \<and> rt x e = -1"
    by (elim exE conjE)
  have "\<exists>v. NullableTernary BOOLEAN (sv_null c) (some_bool (Con False)) (some_bool b) = Inr v
      \<and> stands SqlBoolean False (\<lambda>e. eval_node R t (EnumInNode values) [f e]) v"
    by (rule stands_ternary [OF stands_bool stands_bool]) (simp_all add: sql_types eval_node_def stands_at [OF assms(2)] x b(2))
  then show ?thesis using x b(1) tc(2) by (simp add: VisitEnumIn_def)
qed

lemma eval_strict:
  "op \<notin> {BAnd, BOr} \<Longrightarrow> eval_node R t (BinaryArithmeticNode op) [l, r] = (case (l, r) of (Some a, Some b) \<Rightarrow> eval_data R op a b | _ \<Rightarrow> None)"
  by (cases op; cases l; cases r; simp add: eval_node_def)

lemma binary_types:
  assumes "CalculateBinaryType op ta tb = Inr t" "op_supported op (type_id ta) (type_id tb)"
    "fits (SQLValueType l) ta" "fits (SQLValueType r) tb"
  shows "SQLValueType l = SQLValueType r \<or> type_id (SQLValueType l) = ENUM \<and> type_id (SQLValueType r) = TEXT \<and> op \<notin> {BEq, BNeq}"
    "fits (binary_result op (SQLValueType l)) t"
proof -
  have "ta = tb \<or> type_id ta = ENUM \<and> type_id tb = TEXT \<and> op \<notin> {BEq, BNeq}" "t = binary_result op ta"
    using assms(1,2) by (auto simp: CalculateBinaryType_def binary_result_def is_arith_def op_supported_def split: if_splits)
  then show "SQLValueType l = SQLValueType r \<or> type_id (SQLValueType l) = ENUM \<and> type_id (SQLValueType r) = TEXT \<and> op \<notin> {BEq, BNeq}"
      "fits (binary_result op (SQLValueType l)) t"
    using assms(3,4) fits_eq [of l ta r] by (auto simp: fits_def binary_result_def)
qed

lemma binary_node_ok:
  assumes "CalculateBinaryType op ta tb = Inr t" "op \<notin> {BAnd, BOr}" "op_supported op (type_id ta) (type_id tb)"
    "stands ta n f l" "stands tb m g r" "is_arith op \<and> type_id ta \<in> {INTEGER, BIGINT} \<longrightarrow> dyn_value (sv_value l) \<or> dyn_value (sv_value r)"
  shows "\<exists>v. VisitBinary R op (Inr l) (Inr r) = Inr v \<and> stands t (n \<or> m) (\<lambda>e. eval_node R t (BinaryArithmeticNode op) [f e, g e]) v
    \<and> (is_arith op \<and> (dyn_value (sv_value l) \<or> dyn_value (sv_value r)) \<and> any_null l r \<noteq> Con True \<longrightarrow> dyn_value (sv_value v) \<and> sv_null v \<noteq> Con True)"
proof -
  have fits: "fits (SQLValueType l) ta" "fits (SQLValueType r) tb" using assms(4,5) by (simp_all add: stands_def)
  then have ids: "type_id (SQLValueType l) = type_id ta" "type_id (SQLValueType r) = type_id tb" by (simp_all add: fits_def)
  have "binary_ok R op l r"
    by (rule EvaluateBinary_ok) (use assms(3,6) ids binary_types(1) [OF assms(1,3) fits] in auto)
  then obtain v where v: "EvaluateBinary R op l r = Inr v" "SQLValueType v = binary_result op (SQLValueType l)" "computes_binary R op l r v"
      "is_arith op \<and> (dyn_value (sv_value l) \<or> dyn_value (sv_value r)) \<and> any_null l r \<noteq> Con True \<longrightarrow> dyn_value (sv_value v) \<and> sv_null v \<noteq> Con True"
    by (auto simp: binary_ok_def)
  have run: "run_value l e = f e" "run_value r e = g e" for e using assms(4,5) by (simp_all add: stands_def)
  have val: "run_value v e = eval_node R t (BinaryArithmeticNode op) [f e, g e]" for e
    using v(3) by (simp add: computes_binary_def eval_strict [OF assms(2)] run)
  have "run_value v e \<noteq> None" if "\<not> n" "\<not> m" for e
    using v(3) that stands_not_null [OF assms(4)] stands_not_null [OF assms(5)] by (simp add: computes_binary_def run_value_def)
  then have "stands t (n \<or> m) (\<lambda>e. eval_node R t (BinaryArithmeticNode op) [f e, g e]) v"
    unfolding stands_def val [symmetric] using v(2) binary_types(2) [OF assms(1,3) fits] by simp
  moreover have "VisitBinary R op (Inr l) (Inr r) = Inr v" using v(1) assms(2) by (cases op) (simp_all add: VisitBinary_def)
  ultimately show ?thesis using v(4) by blast
qed

section \<open>The whole expression\<close>

definition compiled ::
    "runtime \<Rightarrow> (AggregateType \<Rightarrow> datum option list \<Rightarrow> datum option) \<Rightarrow> 'e SQLValue list list \<Rightarrow> 'e SQLValue list \<Rightarrow> Expression \<Rightarrow> 'e SQLValue \<Rightarrow> bool" where
  "compiled R agg kids virt e v \<longleftrightarrow>
     stands (expr_type e) (expr_nullable e) (\<lambda>env. eval_expr (code_interp R agg) (rows_at_run kids env) (map (\<lambda>v. run_value v env) virt) e) v
     \<and> (varies e \<longrightarrow> dyn_value (sv_value v) \<and> sv_null v \<noteq> Con True)
     \<and> (is_literal e \<longrightarrow> sv_null v = Con False)"

lemma column_compiled:
  assumes "column_ok s v" "s = (t, n)" "\<And>env. f env = run_value v env"
  shows "stands t n f v \<and> dyn_value (sv_value v) \<and> sv_null v \<noteq> Con True"
  using assms by (auto simp: column_ok_def stands_def run_value_def)

lemma any_null_varies:
  "sv_null l \<noteq> Con True \<Longrightarrow> sv_null r \<noteq> Con True \<Longrightarrow> any_null l r \<noteq> Con True"
  by (cases "sv_null l"; cases "sv_null r") auto

lemma compiled_node:
  assumes "\<not> is_ref node"
  shows "compiled R agg kids virt (Expression t n node cs) v \<longleftrightarrow>
    stands t n (\<lambda>env. eval_node R t node (map (eval_expr (code_interp R agg) (rows_at_run kids env) (map (\<lambda>v. run_value v env) virt)) cs)) v
    \<and> (varies (Expression t n node cs) \<longrightarrow> dyn_value (sv_value v) \<and> sv_null v \<noteq> Con True)
    \<and> (is_literal (Expression t n node cs) \<longrightarrow> sv_null v = Con False)"
  unfolding compiled_def eval_node [OF assms] by (simp add: code_interp_def)

lemma compiledD: "compiled R agg kids virt e v \<Longrightarrow>
  stands (expr_type e) (expr_nullable e) (\<lambda>env. eval_expr (code_interp R agg) (rows_at_run kids env) (map (\<lambda>v. run_value v env) virt) e) v"
  by (simp add: compiled_def)

lemma binary_compiled:
  assumes "CalculateBinaryType op (expr_type l) (expr_type r) = Inr t" "node_supported t n (BinaryArithmeticNode op) [l, r]"
    "n = (expr_nullable l \<or> expr_nullable r)" "compiled R agg kids virt l a" "compiled R agg kids virt r b"
  shows "\<exists>v. VisitBinary R op (Inr a) (Inr b) = Inr v \<and> compiled R agg kids virt (Expression t n (BinaryArithmeticNode op) [l, r]) v"
proof (cases "op \<in> {BAnd, BOr}")
  case True
  have types: "type_id (expr_type l) = BOOLEAN" "type_id (expr_type r) = BOOLEAN" "t = SqlBoolean"
    using True assms(1,2) by (auto simp: node_supported_def CalculateBinaryType_def split: if_splits)
  show ?thesis using and_or_ok [OF True compiledD [OF assms(4)] compiledD [OF assms(5)] types(1,2), of R t] True types(3) assms(3)
    by (auto simp: compiled_node is_ref_def is_arith_def is_literal_def)
next
  case False
  have sup: "op_supported op (type_id (expr_type l)) (type_id (expr_type r))"
      "is_arith op \<and> type_id (expr_type l) \<in> {INTEGER, BIGINT} \<Longrightarrow> varies (Expression t n (BinaryArithmeticNode op) [l, r])"
    using False assms(2) by (auto simp: node_supported_def)
  have var: "(dyn_value (sv_value a) \<or> dyn_value (sv_value b)) \<and> any_null a b \<noteq> Con True" if "varies (Expression t n (BinaryArithmeticNode op) [l, r])"
    using that assms(4,5) any_null_varies [of a b] by (auto simp: compiled_def)
  have "\<exists>v. VisitBinary R op (Inr a) (Inr b) = Inr v
      \<and> stands t (expr_nullable l \<or> expr_nullable r) (\<lambda>env. eval_node R t (BinaryArithmeticNode op)
          [eval_expr (code_interp R agg) (rows_at_run kids env) (map (\<lambda>v. run_value v env) virt) l,
           eval_expr (code_interp R agg) (rows_at_run kids env) (map (\<lambda>v. run_value v env) virt) r]) v
      \<and> (is_arith op \<and> (dyn_value (sv_value a) \<or> dyn_value (sv_value b)) \<and> any_null a b \<noteq> Con True \<longrightarrow> dyn_value (sv_value v) \<and> sv_null v \<noteq> Con True)"
    by (rule binary_node_ok [OF assms(1) False sup(1) compiledD [OF assms(4)] compiledD [OF assms(5)]]) (use sup(2) var in blast)
  then obtain v where v: "VisitBinary R op (Inr a) (Inr b) = Inr v"
      "stands t n (\<lambda>env. eval_node R t (BinaryArithmeticNode op)
          [eval_expr (code_interp R agg) (rows_at_run kids env) (map (\<lambda>v. run_value v env) virt) l,
           eval_expr (code_interp R agg) (rows_at_run kids env) (map (\<lambda>v. run_value v env) virt) r]) v"
      "is_arith op \<and> (dyn_value (sv_value a) \<or> dyn_value (sv_value b)) \<and> any_null a b \<noteq> Con True \<Longrightarrow> dyn_value (sv_value v) \<and> sv_null v \<noteq> Con True"
    using assms(3) by blast
  moreover have "is_arith op" if "varies (Expression t n (BinaryArithmeticNode op) [l, r])" using that by simp
  ultimately have "compiled R agg kids virt (Expression t n (BinaryArithmeticNode op) [l, r]) v"
    using var by (subst compiled_node) (auto simp: is_ref_def is_literal_def simp del: varies.simps)
  then show ?thesis using v(1) by blast
qed

text \<open>The nodes with one child.\<close>

lemma one_child_ok:
  assumes "node_typed node t n [(tc, m)]" "node_supported t n node [c]" "stands tc m f a"
  shows "\<exists>v. VisitNode R t node [Inr a] = Inr v \<and> stands t n (\<lambda>e. eval_node R t node [f e]) v"
proof (cases node)
  case (UnaryArithmeticNode op)
  then show ?thesis using unary_ok [of op tc t m f a R] assms by (simp add: node_typed_def VisitNode_def)
next
  case IntToFloatConversionNode
  then show ?thesis using conversion_ok [of tc t m f a R] assms by (simp add: node_typed_def VisitNode_def)
next
  case (ExtractNode x)
  then show ?thesis using extract_ok [of tc t m f a x R] assms by (simp add: node_typed_def VisitNode_def)
next
  case (RegexpMatchingNode x)
  then show ?thesis using regexp_ok [of tc t m f a R x] assms by (simp add: node_typed_def VisitNode_def)
next
  case (EnumInNode x)
  then show ?thesis using enum_in_ok [of tc t m f a x R] assms by (simp add: node_typed_def VisitNode_def node_supported_def)
qed (use assms in \<open>simp_all add: node_typed_def node_supported_def\<close>)

lemma node_compiled:
  assumes "\<not> is_ref node" "node_typed node t n (map expr_sig cs)" "node_supported t n node cs"
    "\<And>c. c \<in> set cs \<Longrightarrow> \<exists>v. Compute R kids virt c = Inr v \<and> compiled R agg kids virt c v"
  shows "\<exists>v. VisitNode R t node (map (Compute R kids virt) cs) = Inr v \<and> compiled R agg kids virt (Expression t n node cs) v"
proof -
  consider x where "cs = []" "node = LiteralNode x n" | c where "cs = [c]"
    | l r op where "cs = [l, r]" "node = BinaryArithmeticNode op" | c l r where "cs = [c, l, r]" "node = CaseNode"
    using assms(2) by (auto simp: node_typed_def split: ExpressionNode.splits list.splits)
  then show ?thesis
  proof cases
    case 1
    then have "type_id t = literal_type_id x" using assms(2) by (simp add: node_typed_def)
    from literal_ok [OF this, of n R] show ?thesis using 1 by (auto simp: VisitNode_def compiled_node is_ref_def is_literal_def)
  next
    case 2
    obtain a where a: "Compute R kids virt c = Inr a" "compiled R agg kids virt c a" using assms(4) [of c] 2 by auto
    have "\<not> varies (Expression t n node cs)" "\<not> is_literal (Expression t n node cs)"
      using assms(1,2) 2 by (auto simp: is_literal_def is_ref_def node_typed_def split: ExpressionNode.splits)
    then show ?thesis using one_child_ok [OF _ _ compiledD [OF a(2)], of node t n c R] assms(1-3) a(1) 2
      by (auto simp: compiled_node expr_sig_def)
  next
    case 3
    then have c: "CalculateBinaryType op (expr_type l) (expr_type r) = Inr t" "n = (expr_nullable l \<or> expr_nullable r)"
      using assms(2) by (simp_all add: node_typed_def expr_sig_def)
    obtain a b where a: "Compute R kids virt l = Inr a" "compiled R agg kids virt l a" "Compute R kids virt r = Inr b" "compiled R agg kids virt r b"
      using assms(4) [of l] assms(4) [of r] 3 by auto
    from binary_compiled [OF c(1) _ c(2) a(2,4)] show ?thesis using 3 a(1,3) assms(3) by (simp add: VisitNode_def)
  next
    case 4
    then have c: "CalculateCaseType (expr_type c) (expr_type l) (expr_type r) = Inr t" "n = (expr_nullable l \<or> expr_nullable r)"
      using assms(2) by (simp_all add: node_typed_def expr_sig_def)
    obtain d a b where a: "Compute R kids virt c = Inr d" "compiled R agg kids virt c d" "Compute R kids virt l = Inr a" "compiled R agg kids virt l a"
        "Compute R kids virt r = Inr b" "compiled R agg kids virt r b"
      using assms(4) [of c] assms(4) [of l] assms(4) [of r] 4 by auto
    from case_ok [OF c(1) compiledD [OF a(2)] compiledD [OF a(4)] compiledD [OF a(6)], of R] show ?thesis
      using 4 a(1,3,5) c(2) by (auto simp: VisitNode_def compiled_node is_ref_def is_literal_def)
  qed
qed

lemma Compute_ok:
  assumes "list_all2 (list_all2 column_ok) sch kids" "list_all2 column_ok vsig virt"
  shows "expr_ok sch vsig e \<Longrightarrow> supported e \<Longrightarrow> \<exists>v. Compute R kids virt e = Inr v \<and> compiled R agg kids virt e v"
proof (induction e)
  case (Expression t n node cs)
  show ?case
  proof (cases "is_ref node")
    case True
    then consider c i where "node = ColumnRefNode c i" | i where "node = VirtualColumnRefNode i" by (auto simp: is_ref_def split: ExpressionNode.splits)
    then show ?thesis
    proof cases
      case 1
      then have ok: "c < length sch" "i < length (sch ! c)" "sch ! c ! i = (t, n)" using Expression.prems by auto
      have k: "list_all2 column_ok (sch ! c) (kids ! c)" using assms(1) ok(1) by (rule list_all2_nthD)
      have len: "c < length kids" "i < length (kids ! c)" using ok list_all2_lengthD [OF assms(1)] list_all2_lengthD [OF k] by auto
      have "column_ok (t, n) (kids ! c ! i)" using list_all2_nthD [OF k ok(2)] ok(3) by simp
      from column_compiled [OF this refl refl] show ?thesis using 1 len by (auto simp: VisitColumnRef_def compiled_def is_literal_def)
    next
      case 2
      then have ok: "i < length vsig" "vsig ! i = (t, n)" using Expression.prems by auto
      have "column_ok (t, n) (virt ! i)" using list_all2_nthD [OF assms(2) ok(1)] ok(2) by simp
      moreover have "i < length virt" using ok(1) list_all2_lengthD [OF assms(2)] by simp
      ultimately show ?thesis using column_compiled [of "(t, n)" "virt ! i" t n "run_value (virt ! i)"] 2 by (auto simp: compiled_def is_literal_def)
    qed
  next
    case False
    note ok = Expression.prems(1) [unfolded expr_ok_node [OF False]] and sup = Expression.prems(2)
    have "\<exists>v. VisitNode R t node (map (Compute R kids virt) cs) = Inr v \<and> compiled R agg kids virt (Expression t n node cs) v"
      by (rule node_compiled [OF False]) (use Expression.IH ok sup in \<open>auto simp: list_all_iff\<close>)
    moreover have "Compute R kids virt (Expression t n node cs) = VisitNode R t node (map (Compute R kids virt) cs)"
      using False by (simp add: is_ref_def split: ExpressionNode.splits)
    ultimately show ?thesis by simp
  qed
qed

section \<open>Emitted code computes its expression\<close>


text \<open>The condition \<open>c + 1 < 5 AND c IS NOT NULL\<close> on a nullable column of integers, run with 3, with 7 and with null.\<close>

definition example_runtime :: runtime where
  "example_runtime = \<lparr>rt_f64 = \<lparr>f64_add = (+), f64_sub = (-), f64_mul = (*), f64_div = (\<lambda>a b. 0), f64_of_int = word_of_int, f64_to_i64 = Some\<rparr>,
     rt_enum_key = (\<lambda>i v. []), rt_like = (=), rt_hash_text = (\<lambda>s. 0)\<rparr>"

definition example_column :: "u32 option SQLValue" where
  "example_column = mkSQL (IInt32 (Dyn (\<lambda>e. case e of None \<Rightarrow> 0 | Some x \<Rightarrow> x))) (Dyn (\<lambda>e. e = None))"

definition example_expression :: Expression where
  "example_expression =
     (let c = Expression SqlInt True (ColumnRefNode 0 0) [];
          int = (\<lambda>x. Expression SqlInt False (LiteralNode (LitInt32 x) False) [])
      in Expression SqlBoolean True (BinaryArithmeticNode BAnd)
           [Expression SqlBoolean True (BinaryArithmeticNode BLt) [Expression SqlInt True (BinaryArithmeticNode BAdd) [c, int 1], int 5],
            Expression SqlBoolean False (UnaryArithmeticNode UNot) [Expression SqlBoolean False (UnaryArithmeticNode UIsNull) [c]]])"


end
