(* ===== verification/Spec2Isabelle.thy ===== *)
theory Spec2Isabelle
  imports KhirDfs KhirFold KhirBuilderCorrect KhirMaterialize KhirAllocSound KhirLiveExact KhirCfgCorrect
    UtilUnionFind ArtCorrect IndexBucket RtVector SkinnerJoin PlanMain RtIndexCorrect RtEnumCorrect RtDate
    Execution CompileCorrect
begin

text \<open>
  A verification library for kushdb, an SQL engine that compiles each query to machine code. A statement is parsed and
  planned against the catalog; the plan is translated to KHIR, the intermediate representation of the engine; a backend
  turns KHIR into machine code; the generated code calls a runtime: columns and their indexes, growable arrays, hash
  tables, a radix tree that removes duplicate tuples, and an executor that learns the order of a join while it runs
  it. The library models the planner, the builder of KHIR and its types, the analyses and the register allocator of
  the assembly backend, and the runtime.

  \<^bold>\<open>Conventions.\<close> \<^verbatim>\<open>KushPrelude\<close> has the types of machine integers, the errors and the result type. A function that
  can throw or whose behaviour can be undefined returns \<^verbatim>\<open>error + value\<close>: \<^verbatim>\<open>RuntimeError\<close> and the other exceptions of the
  sources are values, an access outside an array or through a null pointer is \<^verbatim>\<open>Undefined\<close>. A C++ object is a record
  that the operation returns changed; a struct of the heap that is reached from one place only is a value, not an
  address. Integers that wrap are words, indices are natural numbers or integers with the overflow as an error branch. A
  loop that need not end is a partial function with an option result or takes fuel, and the theorems show that it ends:
  an iteration of the tuple-index table and an action of the agent take as many steps as the tree is high (the fuel of
  \<^verbatim>\<open>Sample\<close> is the number of tables plus one), the worklist of the liveness analysis ends because sets grow, and the loop
  over the actions of the agent ends because every action completes a tuple. \<^verbatim>\<open>assert\<close> is not modelled: release builds
  drop it. What the sources leave to a library is an argument: the order of hash containers and of equal keys
  in \<^verbatim>\<open>std::sort\<close>, random numbers, the clock, floating-point arithmetic, \<^verbatim>\<open>std::hash\<close>, LLVM, the operating system.

  \<^bold>\<open>Intermediate representation\<close> (\<^verbatim>\<open>khir/\<close>). \<^verbatim>\<open>KhirInstruction\<close> packs instructions and values into words
  (\<^verbatim>\<open>instruction.cc\<close>, \<^verbatim>\<open>value.cc\<close>, \<^verbatim>\<open>opcode.h\<close>); what is packed is read back. \<^verbatim>\<open>KhirTypes\<close> is \<^verbatim>\<open>type_manager.cc\<close>: types are
  interned, an id names one type, and a pointer type leads back to its element. \<^verbatim>\<open>KhirConstants\<close>, \<^verbatim>\<open>KhirBuilder\<close>
  and \<^verbatim>\<open>KhirArith\<close> are \<^verbatim>\<open>program_builder.cc\<close>: constants, basic blocks, and one operation per instruction with its folding.
  \<^verbatim>\<open>KhirBuilderCorrect\<close> shows that the blocks of a function stay consistent with its instructions and with each other
  and what appending does on every branch; \<^verbatim>\<open>KhirFold\<close> shows that folding computes what the instruction would and that
  rearranged comparisons mean the same. \<^verbatim>\<open>KhirProgram\<close> is the finished program (\<^verbatim>\<open>program.cc\<close>). \<^verbatim>\<open>KhirCfg\<close> and
  \<^verbatim>\<open>KhirCfgCorrect\<close> are \<^verbatim>\<open>cfg_simplify.cc\<close>: only unreachable blocks are deleted.

  \<^bold>\<open>Assembly backend\<close> (\<^verbatim>\<open>khir/asm/\<close>). \<^verbatim>\<open>KhirUses\<close>, \<^verbatim>\<open>KhirMaterialize\<close>: which values an instruction reads, and that an address
  that cannot be folded is marked (\<^verbatim>\<open>live_intervals.cc\<close>, \<^verbatim>\<open>materialize_gep.cc\<close>). \<^verbatim>\<open>KhirDfs\<close>, \<^verbatim>\<open>KhirLoops\<close>: labels, dominators
  and loops (\<^verbatim>\<open>dfs_label.cc\<close>, \<^verbatim>\<open>dominators.cc\<close>, \<^verbatim>\<open>loops.cc\<close>). \<^verbatim>\<open>KhirLive\<close>, \<^verbatim>\<open>KhirLiveCorrect\<close>, \<^verbatim>\<open>KhirLiveExact\<close>, \<^verbatim>\<open>KhirIntervals\<close>:
  the data-flow analysis ends and is exact, and intervals cover every position at which a value is live. \<^verbatim>\<open>KhirRegister\<close>,
  \<^verbatim>\<open>KhirRegAlloc\<close>, \<^verbatim>\<open>KhirRegAllocCorrect\<close>, \<^verbatim>\<open>KhirAllocSound\<close>: linear scan (\<^verbatim>\<open>linear_scan_reg_alloc.cc\<close>,
  \<^verbatim>\<open>stack_spill_reg_alloc.cc\<close>, \<^verbatim>\<open>register.cc\<close>); the composed result is that two values live at one place never share a
  register. \<^verbatim>\<open>UtilUnionFind\<close> is the forest of \<^verbatim>\<open>util/union_find.cc\<close>, a refinement of a partition.

  \<^bold>\<open>Runtime.\<close> \<^verbatim>\<open>ArtNode\<close>, \<^verbatim>\<open>ArtNodeMap\<close>, \<^verbatim>\<open>ArtTable\<close>, \<^verbatim>\<open>ArtCorrect\<close> are the tuple-index table (\<^verbatim>\<open>runtime/tuple_idx_table/\<close>): the
  four node layouts implement one interface, a sorted map from bytes, stated as a locale; the table stores each tuple
  once and iterates in byte order. \<^verbatim>\<open>IndexBucket\<close> is \<^verbatim>\<open>column_index_bucket.cc\<close>: the intersection of sorted buckets. \<^verbatim>\<open>RtVector\<close>
  is \<^verbatim>\<open>vector.cc\<close> and \<^verbatim>\<open>hash_table.cc\<close>: growth, merge sort, chained buckets.
  \<^verbatim>\<open>RtFile\<close>, \<^verbatim>\<open>RtColumn\<close>, \<^verbatim>\<open>RtIndex\<close> and \<^verbatim>\<open>RtIndexCorrect\<close> are the files of columns and their indexes (\<^verbatim>\<open>file_manager.cc\<close>,
  \<^verbatim>\<open>column_data.cc\<close>, \<^verbatim>\<open>column_index.cc\<close>), down to their bytes: what was written is read back. A locale states what a
  layout of entries has to provide for the chains of an index; numbers and text are its interpretations.
  \<^verbatim>\<open>RtEnum\<close> is \<^verbatim>\<open>enum.cc\<close>: the hash table with open addressing in a file maps a key to its number and back.
  \<^verbatim>\<open>RtDate\<close> is \<^verbatim>\<open>date.cc\<close> and the printing of dates: a date is the number of its day and back.
  \<^verbatim>\<open>RtString\<close> is \<^verbatim>\<open>string.cc\<close>: prefix, suffix and substring tests and the order of strings.

  \<^bold>\<open>Skinner join\<close> (\<^verbatim>\<open>runtime/skinner_join_executor.cc\<close>). \<^verbatim>\<open>SkinnerState\<close> is the progress of a join over all orders,
  \<^verbatim>\<open>SkinnerCorrect\<close> and \<^verbatim>\<open>SkinnerSound\<close> show that switching orders loses no tuple. \<^verbatim>\<open>SkinnerEnv\<close>, \<^verbatim>\<open>SkinnerExec\<close>: the two
  environments an order is executed in, under the contract of the generated functions. \<^verbatim>\<open>SkinnerAgent\<close>,
  \<^verbatim>\<open>SkinnerAgentCorrect\<close>: the tree search executes permutations of the tables only. \<^verbatim>\<open>SkinnerJoin\<close>: both entry points end
  with every tuple processed.

  \<^bold>\<open>Planner\<close> (\<^verbatim>\<open>catalog/\<close>, \<^verbatim>\<open>parse/\<close>, \<^verbatim>\<open>plan/\<close>). \<^verbatim>\<open>PlanExpression\<close> has types, catalog and expressions with the types their
  constructors compute, \<^verbatim>\<open>PlanOperator\<close> the operators and schemas, \<^verbatim>\<open>Planner\<close> and \<^verbatim>\<open>PlanOptimize\<close> are \<^verbatim>\<open>planner.cc\<close>. \<^verbatim>\<open>PlanTyping\<close>
  and \<^verbatim>\<open>PlanTypes\<close> show that plans are well typed; \<^verbatim>\<open>PlanSemantics\<close> says what a plan computes for any interpretation of the
  operations on values; \<^verbatim>\<open>PlanProjection\<close>, \<^verbatim>\<open>PlanCorrect\<close>, \<^verbatim>\<open>PlanRemap\<close>, \<^verbatim>\<open>PlanMain\<close> show that the passes keep what is printed
  and that this is the select list over the matching rows of the cross product.
  \<^verbatim>\<open>CompileValue\<close> is the layer of typed values the translators emit code through (\<^verbatim>\<open>compile/proxy/value\<close>).

  \<^bold>\<open>Not modelled.\<close> The emission of machine code (\<^verbatim>\<open>khir/asm/asm_backend.cc\<close>) and the LLVM backend (\<^verbatim>\<open>khir/llvm/\<close>): both
  are sequences of calls into third-party assemblers and would need a semantics of x86-64 or LLVM. The translators
  (\<^verbatim>\<open>compile/\<close>): they emit KHIR whose meaning would need an interpreter of KHIR with the runtime's memory; what the
  generated functions of a join must do is stated as a contract in \<^verbatim>\<open>SkinnerExec\<close> instead. Parsing of SQL text is
  third-party code. Printing, benchmarks, tests and profiling hold no logic of their own.
\<close>

end
